(* ===== verification/Adx_Prelude.thy ===== *)
theory Adx_Prelude
  imports Main "HOL-Library.Word" "HOL-Library.Monad_Syntax"
begin

text \<open>
  What the component theories share: addresses and the null pointer, the packing of a parent
  pointer and a colour bit into one machine word, C strings with \<^verbatim>\<open>strcmp\<close>, \<^verbatim>\<open>atoi\<close> and the
  signed value of a \<^verbatim>\<open>char\<close>, and the generic list and option lemmas the component proofs use.

  Conventions of the whole development.  Memory is a finite view of the C heap: a map from
  addresses to the struct found there.  A read or write of an address that is not in the map
  (a null or a dangling pointer) makes the whole operation \<open>None\<close>, and so does a loop that does
  not end; a theorem that concludes \<open>Some\<close> therefore states memory safety and termination.
\<close>

unbundle bit_operations_syntax

named_theorems heap_simps \<open>symbolic execution of heap reads and writes\<close>
named_theorems frame_simps \<open>a write outside a structure leaves it unchanged\<close>

section \<open>Addresses\<close>

type_synonym addr = "64 word"

abbreviation NULL :: addr where "NULL \<equiv> 0"

definition aligned4 :: "addr \<Rightarrow> bool" where
  "aligned4 p \<longleftrightarrow> p AND 3 = 0"

text \<open>The largest \<^verbatim>\<open>int\<close>.\<close>

abbreviation INT_MAX :: int where "INT_MAX \<equiv> 2147483647"

section \<open>Option-valued steps\<close>

lemma bind_eq_Some_conv [simp]:
  "Option.bind m f = Some y \<longleftrightarrow> (\<exists>x. m = Some x \<and> f x = Some y)"
  by (cases m) auto

section \<open>Allocation of contents\<close>

text \<open>
  The components whose structures are values of the model, not addresses, take the pool allocation
  \<open>adx_alloc\<close> as a parameter: the new state of the pool, or \<open>None\<close> for a null pointer.
\<close>

type_synonym 'm alloc_fun = "'m \<Rightarrow> nat \<Rightarrow> 'm option"

definition alloc_total :: "'m alloc_fun \<Rightarrow> bool" where
  "alloc_total alloc \<longleftrightarrow> (\<forall>m n. alloc m n \<noteq> None)"

text \<open>An allocation whose result is tested later.\<close>

definition try_alloc :: "'m alloc_fun \<Rightarrow> 'm \<Rightarrow> nat \<Rightarrow> 'm \<times> bool" where
  "try_alloc alloc m n = (case alloc m n of None \<Rightarrow> (m, False) | Some m \<Rightarrow> (m, True))"

lemma try_alloc_total: "alloc_total alloc \<Longrightarrow> snd (try_alloc alloc m n)"
  unfolding alloc_total_def try_alloc_def by (metis option.case_eq_if snd_conv)

section \<open>C strings\<close>

text \<open>A C string is the list of its characters up to, and without, the terminating NUL.\<close>

definition cstring :: "string \<Rightarrow> bool" where
  "cstring s \<longleftrightarrow> CHR 0x00 \<notin> set s"

definition schar :: "char \<Rightarrow> int" where
  "schar c = (let n = int (of_char c) in if n \<ge> 128 then n - 256 else n)"

fun strcmp :: "string \<Rightarrow> string \<Rightarrow> int" where
  "strcmp [] [] = 0"
| "strcmp [] (d # ds) = - 1"
| "strcmp (c # cs) [] = 1"
| "strcmp (c # cs) (d # ds) =
     (if c = d then strcmp cs ds
      else if (of_char c :: nat) < of_char d then - 1 else 1)"

lemma strcmp_eq_0 [simp]: "strcmp s t = 0 \<longleftrightarrow> s = t"
  by (induction s t rule: strcmp.induct) auto

lemma strcmp_refl [simp]: "strcmp s s = 0"
  by simp

lemma strcmp_neg: "strcmp s t = - strcmp t s"
  by (induction s t rule: strcmp.induct) (auto dest: linorder_neq_iff [THEN iffD1])

lemma strcmp_less_trans: "strcmp s t < 0 \<Longrightarrow> strcmp t u < 0 \<Longrightarrow> strcmp s u < 0"
proof (induction s t arbitrary: u rule: strcmp.induct)
  case (2 d ds)
  then show ?case by (cases u) auto
next
  case (4 c cs d ds)
  then show ?case by (cases u) (auto split: if_splits)
qed auto

end
