(* ===== verification/Adx_List.thy ===== *)
theory Adx_List
  imports Adx_Prelude
begin

text \<open>
  The intrusive doubly linked list of \<^verbatim>\<open>adx_list.h\<close> and the queue operation of
  \<^verbatim>\<open>adx_list.c\<close>, at pointer level: a heap of \<open>adx_list_t\<close> structs, one definition per C
  function with its writes in the order the code makes them.  The abstraction \<open>clist h head xs\<close>
  says that the ring that starts at \<open>head\<close> links exactly the nodes \<open>xs\<close>, in \<open>adx_list_for_each\<close>
  order.  Every operation is proved to implement the operation on \<open>xs\<close> and to leave every other
  address untouched.
\<close>

section \<open>Model\<close>

record adx_list_t =
  lnext :: addr
  lprev :: addr

type_synonym list_heap = "addr \<rightharpoonup> adx_list_t"

definition get_next :: "list_heap \<Rightarrow> addr \<Rightarrow> addr option" where
  "get_next h p = map_option lnext (h p)"

definition get_prev :: "list_heap \<Rightarrow> addr \<Rightarrow> addr option" where
  "get_prev h p = map_option lprev (h p)"

definition set_next :: "list_heap \<Rightarrow> addr \<Rightarrow> addr \<Rightarrow> list_heap option" where
  "set_next h p v = (case h p of None \<Rightarrow> None | Some n \<Rightarrow> Some (h(p \<mapsto> n\<lparr>lnext := v\<rparr>)))"

definition set_prev :: "list_heap \<Rightarrow> addr \<Rightarrow> addr \<Rightarrow> list_heap option" where
  "set_prev h p v = (case h p of None \<Rightarrow> None | Some n \<Rightarrow> Some (h(p \<mapsto> n\<lparr>lprev := v\<rparr>)))"

definition adx_list_init :: "list_heap \<Rightarrow> addr \<Rightarrow> list_heap option" where
  "adx_list_init h head = do {
     h \<leftarrow> set_next h head head;
     set_prev h head head }"

definition adx_list_add_between ::
    "list_heap \<Rightarrow> addr \<Rightarrow> addr \<Rightarrow> addr \<Rightarrow> list_heap option" where
  "adx_list_add_between h node prv nxt = do {
     h \<leftarrow> set_prev h nxt node;
     h \<leftarrow> set_next h node nxt;
     h \<leftarrow> set_prev h node prv;
     set_next h prv node }"

definition adx_list_add :: "list_heap \<Rightarrow> addr \<Rightarrow> addr \<Rightarrow> list_heap option" where
  "adx_list_add h head node = do {
     prv \<leftarrow> get_prev h head;
     adx_list_add_between h node prv head }"

definition adx_list_add_tail :: "list_heap \<Rightarrow> addr \<Rightarrow> addr \<Rightarrow> list_heap option" where
  "adx_list_add_tail h head node = do {
     nxt \<leftarrow> get_next h head;
     adx_list_add_between h node head nxt }"

definition adx_list_del_between :: "list_heap \<Rightarrow> addr \<Rightarrow> addr \<Rightarrow> list_heap option" where
  "adx_list_del_between h prv nxt = do {
     h \<leftarrow> set_prev h nxt prv;
     set_next h prv nxt }"

definition adx_list_del :: "list_heap \<Rightarrow> addr \<Rightarrow> list_heap option" where
  "adx_list_del h node = do {
     prv \<leftarrow> get_prev h node;
     nxt \<leftarrow> get_next h node;
     adx_list_del_between h prv nxt }"

definition adx_list_empty :: "list_heap \<Rightarrow> addr \<Rightarrow> bool option" where
  "adx_list_empty h head = do {
     nxt \<leftarrow> get_next h head;
     prv \<leftarrow> get_prev h head;
     Some (nxt = head \<and> nxt = prv) }"

definition adx_queue :: "list_heap \<Rightarrow> addr \<Rightarrow> (list_heap \<times> addr) option" where
  "adx_queue h head = do {
     p \<leftarrow> get_next h head;
     if p \<noteq> head then do {
       h \<leftarrow> adx_list_del h p;
       Some (h, p) }
     else Some (h, NULL) }"

text \<open>
  \<open>adx_list_for_each\<close> and \<open>adx_list_for_tail\<close>: the nodes a loop over the list visits, in
  order.  On a heap that is not a ring the walk may not end.
\<close>

partial_function (option) for_each_from :: "list_heap \<Rightarrow> addr \<Rightarrow> addr \<Rightarrow> addr list option" where
  "for_each_from h head pos =
     (if pos = head then Some []
      else do {
        nxt \<leftarrow> get_next h pos;
        ps \<leftarrow> for_each_from h head nxt;
        Some (pos # ps) })"

definition adx_list_for_each :: "list_heap \<Rightarrow> addr \<Rightarrow> addr list option" where
  "adx_list_for_each h head = do { pos \<leftarrow> get_next h head; for_each_from h head pos }"

partial_function (option) for_tail_from :: "list_heap \<Rightarrow> addr \<Rightarrow> addr \<Rightarrow> addr list option" where
  "for_tail_from h head pos =
     (if pos = head then Some []
      else do {
        prv \<leftarrow> get_prev h pos;
        ps \<leftarrow> for_tail_from h head prv;
        Some (pos # ps) })"

definition adx_list_for_tail :: "list_heap \<Rightarrow> addr \<Rightarrow> addr list option" where
  "adx_list_for_tail h head = do { pos \<leftarrow> get_prev h head; for_tail_from h head pos }"

lemmas list_op_defs =
  adx_list_init_def adx_list_add_between_def adx_list_add_def adx_list_add_tail_def
  adx_list_del_between_def adx_list_del_def adx_list_empty_def adx_queue_def

section \<open>Abstraction\<close>

definition linked :: "list_heap \<Rightarrow> addr \<Rightarrow> addr \<Rightarrow> bool" where
  "linked h p q \<longleftrightarrow> get_next h p = Some q \<and> get_prev h q = Some p"

fun dseg :: "list_heap \<Rightarrow> addr \<Rightarrow> addr list \<Rightarrow> addr \<Rightarrow> bool" where
  "dseg h p [] q = linked h p q"
| "dseg h p (x # xs) q = (linked h p x \<and> dseg h x xs q)"

definition clist :: "list_heap \<Rightarrow> addr \<Rightarrow> addr list \<Rightarrow> bool" where
  "clist h head xs \<longleftrightarrow> dseg h head xs head \<and> distinct (head # xs)"

definition same_outside :: "addr set \<Rightarrow> list_heap \<Rightarrow> list_heap \<Rightarrow> bool" where
  "same_outside A h h' \<longleftrightarrow> (\<forall>p. p \<notin> A \<longrightarrow> h' p = h p)"

lemma dseg_append [simp]: "dseg h p (xs @ x # ys) q \<longleftrightarrow> dseg h p xs x \<and> dseg h x ys q"
  by (induction xs arbitrary: p) auto

lemma get_upd [heap_simps]:
  "get_next (h(p \<mapsto> n)) q = (if q = p then Some (lnext n) else get_next h q)"
  "get_prev (h(p \<mapsto> n)) q = (if q = p then Some (lprev n) else get_prev h q)"
  by (auto simp: get_next_def get_prev_def)

lemma get_SomeD:
  "get_next h p = Some q \<Longrightarrow> \<exists>n. h p = Some n \<and> lnext n = q"
  "get_prev h p = Some q \<Longrightarrow> \<exists>n. h p = Some n \<and> lprev n = q"
  by (auto simp: get_next_def get_prev_def)

text \<open>A heap write seen through the two field readers.\<close>

lemma set_next_SomeI:
  "h p \<noteq> None \<Longrightarrow> \<exists>h'. set_next h p v = Some h' \<and>
     (\<forall>q. get_next h' q = (if q = p then Some v else get_next h q)) \<and>
     (\<forall>q. get_prev h' q = get_prev h q) \<and> same_outside {p} h h'"
  by (auto simp: set_next_def get_next_def get_prev_def same_outside_def)

lemma set_prev_SomeI:
  "h p \<noteq> None \<Longrightarrow> \<exists>h'. set_prev h p v = Some h' \<and>
     (\<forall>q. get_prev h' q = (if q = p then Some v else get_prev h q)) \<and>
     (\<forall>q. get_next h' q = get_next h q) \<and> same_outside {p} h h'"
  by (auto simp: set_prev_def get_next_def get_prev_def same_outside_def)

lemma dseg_ends:
  "dseg h p xs q \<Longrightarrow> get_next h p = Some (hd (xs @ [q])) \<and>
     get_prev h q = Some (last (p # xs))"
  by (induction xs arbitrary: p) (auto simp: linked_def)

lemma dseg_mem: "dseg h p xs q \<Longrightarrow> x \<in> set (p # xs) \<Longrightarrow> h x \<noteq> None"
  by (induction xs arbitrary: p) (auto simp: linked_def get_next_def)

lemma dseg_frame:
  assumes "dseg h p xs q" and "\<forall>x \<in> set (p # xs). get_next h' x = get_next h x"
    and "\<forall>x \<in> set (xs @ [q]). get_prev h' x = get_prev h x"
  shows "dseg h' p xs q"
  using assms by (induction xs arbitrary: p) (auto simp: linked_def)

lemma dseg_relink_end:
  assumes "dseg h p xs q"
    and "\<forall>x \<in> set (butlast (p # xs)). get_next h' x = get_next h x"
    and "\<forall>x \<in> set xs. get_prev h' x = get_prev h x"
    and "linked h' (last (p # xs)) q'"
  shows "dseg h' p xs q'"
  using assms by (induction xs arbitrary: p) (auto simp: linked_def split: if_splits)

lemma dseg_relink_start:
  assumes "dseg h p xs q"
    and "linked h' p' (hd (xs @ [q]))"
    and "\<forall>x \<in> set xs. get_next h' x = get_next h x"
    and "\<forall>x \<in> set (tl (xs @ [q])). get_prev h' x = get_prev h x"
  shows "dseg h' p' xs q"
proof (cases xs)
  case Nil
  with assms show ?thesis by simp
next
  case (Cons y ys)
  with assms have "dseg h' y ys q" by (auto intro!: dseg_frame [of h])
  with Cons assms(2) show ?thesis by simp
qed

lemma dseg_join:
  assumes "dseg h p as x" and "dseg h x bs q"
    and "linked h' (last (p # as)) (hd (bs @ [q]))"
    and "\<forall>y \<in> set (butlast (p # as)) \<union> set bs. get_next h' y = get_next h y"
    and "\<forall>y \<in> set as \<union> set (tl (bs @ [q])). get_prev h' y = get_prev h y"
  shows "dseg h' p (as @ bs) q"
proof -
  have as: "dseg h' p as (hd (bs @ [q]))"
    by (rule dseg_relink_end [OF assms(1)]) (use assms(3-5) in blast)+
  show ?thesis
  proof (cases bs)
    case Nil
    with as show ?thesis by simp
  next
    case (Cons b bs')
    from Cons assms(2) have "dseg h b bs' q" by simp
    then have "dseg h' b bs' q"
      by (rule dseg_frame) (use assms(4,5) Cons in auto)
    with as Cons show ?thesis by simp
  qed
qed

section \<open>The operations on the abstract list\<close>

text \<open>Inserting a node between two linked neighbours, seen through the field readers.\<close>

lemma add_between_links:
  assumes "linked h prv nxt" and "h node \<noteq> None" and "node \<notin> {prv, nxt}"
  shows "\<exists>h'. adx_list_add_between h node prv nxt = Some h' \<and>
    (\<forall>q. get_next h' q =
       (if q = prv then Some node else if q = node then Some nxt else get_next h q)) \<and>
    (\<forall>q. get_prev h' q =
       (if q = nxt then Some node else if q = node then Some prv else get_prev h q)) \<and>
    same_outside {node, prv, nxt} h h'"
proof -
  from assms obtain a b c where "h prv = Some a" "h nxt = Some b" "h node = Some c"
    by (auto simp: linked_def dest!: get_SomeD)
  with assms(3) show ?thesis
    by (cases "prv = nxt")
      (auto simp: adx_list_add_between_def set_next_def set_prev_def get_next_def get_prev_def
        same_outside_def)
qed

lemma del_between_links:
  assumes "h prv \<noteq> None" and "h nxt \<noteq> None"
  shows "\<exists>h'. adx_list_del_between h prv nxt = Some h' \<and>
    (\<forall>q. get_next h' q = (if q = prv then Some nxt else get_next h q)) \<and>
    (\<forall>q. get_prev h' q = (if q = nxt then Some prv else get_prev h q)) \<and>
    same_outside {prv, nxt} h h'"
proof -
  from assms obtain a b where "h prv = Some a" "h nxt = Some b" by auto
  then show ?thesis
    by (cases "prv = nxt")
      (auto simp: adx_list_del_between_def set_next_def set_prev_def get_next_def get_prev_def
        same_outside_def)
qed

lemma adx_list_init_clist:
  assumes "h head \<noteq> None"
  shows "\<exists>h'. adx_list_init h head = Some h' \<and> clist h' head [] \<and> same_outside {head} h h'"
  using assms
  by (auto simp: adx_list_init_def set_next_def set_prev_def clist_def linked_def get_next_def
      get_prev_def same_outside_def)

lemma dseg_last: "dseg h p xs q \<Longrightarrow> linked h (last (p # xs)) q"
  by (induction xs arbitrary: p) auto

lemma dseg_first: "dseg h p xs q \<Longrightarrow> linked h p (hd (xs @ [q]))"
  by (cases xs) auto

lemma last_notin_butlast: "distinct (p # xs) \<Longrightarrow> last (p # xs) \<notin> set (butlast (p # xs))"
  by (metis append_butlast_last_id distinct_append disjoint_iff list.discI list.set_intros(1))

lemma adx_list_add_clist:
  assumes "clist h head xs" and "h node \<noteq> None" and "node \<notin> set (head # xs)"
  shows "\<exists>h'. adx_list_add h head node = Some h' \<and> clist h' head (xs @ [node]) \<and>
           same_outside (set (node # head # xs)) h h'"
proof -
  define prv where "prv = last (head # xs)"
  from assms(1) have seg: "dseg h head xs head" and dist: "distinct (head # xs)"
    by (auto simp: clist_def)
  have lk: "linked h prv head" unfolding prv_def by (rule dseg_last [OF seg])
  have mem: "prv \<in> set (head # xs)" unfolding prv_def by (rule last_in_set) simp
  with assms(3) have "node \<notin> {prv, head}" by auto
  from add_between_links [OF lk assms(2) this] obtain h' where
    add: "adx_list_add_between h node prv head = Some h'"
    and nx: "\<And>q. get_next h' q =
      (if q = prv then Some node else if q = node then Some head else get_next h q)"
    and pv: "\<And>q. get_prev h' q =
      (if q = head then Some node else if q = node then Some prv else get_prev h q)"
    and out: "same_outside {node, prv, head} h h'"
    by blast
  have nb: "prv \<notin> set (butlast (head # xs))" unfolding prv_def by (rule last_notin_butlast [OF dist])
  have "dseg h' head xs node"
  proof (rule dseg_relink_end [OF seg])
    show "\<forall>x \<in> set (butlast (head # xs)). get_next h' x = get_next h x"
      using nb assms(3) by (auto simp: nx dest: in_set_butlastD simp del: butlast.simps)
    show "\<forall>x \<in> set xs. get_prev h' x = get_prev h x" using dist assms(3) by (auto simp: pv)
    show "linked h' (last (head # xs)) node"
      unfolding prv_def [symmetric] linked_def using assms(3) by (auto simp: nx pv)
  qed
  moreover have "linked h' node head" using assms(3) mem by (auto simp: linked_def nx pv)
  ultimately have "clist h' head (xs @ [node])" using dist assms(3) by (auto simp: clist_def)
  moreover have "same_outside (set (node # head # xs)) h h'"
    using out mem by (auto simp: same_outside_def)
  moreover have "get_prev h head = Some prv" using lk by (simp add: linked_def)
  ultimately show ?thesis using add by (simp add: adx_list_add_def)
qed

lemma adx_list_add_tail_clist:
  assumes "clist h head xs" and "h node \<noteq> None" and "node \<notin> set (head # xs)"
  shows "\<exists>h'. adx_list_add_tail h head node = Some h' \<and> clist h' head (node # xs) \<and>
           same_outside (set (node # head # xs)) h h'"
proof -
  define nxt where "nxt = hd (xs @ [head])"
  from assms(1) have seg: "dseg h head xs head" and dist: "distinct (head # xs)"
    by (auto simp: clist_def)
  have lk: "linked h head nxt" unfolding nxt_def by (rule dseg_first [OF seg])
  have mem: "nxt \<in> set (head # xs)" unfolding nxt_def by (cases xs) auto
  with assms(3) have "node \<notin> {head, nxt}" by auto
  from add_between_links [OF lk assms(2) this] obtain h' where
    add: "adx_list_add_between h node head nxt = Some h'"
    and nx: "\<And>q. get_next h' q =
      (if q = head then Some node else if q = node then Some nxt else get_next h q)"
    and pv: "\<And>q. get_prev h' q =
      (if q = nxt then Some node else if q = node then Some head else get_prev h q)"
    and out: "same_outside {node, head, nxt} h h'"
    by blast
  have nt: "nxt \<notin> set (tl (xs @ [head]))" "node \<notin> set (tl (xs @ [head]))"
    unfolding nxt_def using dist assms(3) by (cases xs; auto)+
  have "dseg h' node xs head"
  proof (rule dseg_relink_start [OF seg])
    show "linked h' node (hd (xs @ [head]))"
      unfolding nxt_def [symmetric] linked_def using assms(3) by (auto simp: nx pv)
    show "\<forall>x \<in> set xs. get_next h' x = get_next h x" using dist assms(3) by (auto simp: nx)
    show "\<forall>x \<in> set (tl (xs @ [head])). get_prev h' x = get_prev h x" using nt by (metis pv)
  qed
  moreover have "linked h' head node" using assms(3) mem by (auto simp: linked_def nx pv)
  ultimately have "clist h' head (node # xs)" using dist assms(3) by (auto simp: clist_def)
  moreover have "same_outside (set (node # head # xs)) h h'"
    using out mem by (auto simp: same_outside_def)
  moreover have "get_next h head = Some nxt" using lk by (simp add: linked_def)
  ultimately show ?thesis using add by (simp add: adx_list_add_tail_def)
qed

lemma adx_list_del_clist:
  assumes "clist h head (as @ x # bs)"
  shows "\<exists>h'. adx_list_del h x = Some h' \<and> clist h' head (as @ bs) \<and>
           same_outside (set (head # as @ bs)) h h'"
proof -
  define prv where "prv = last (head # as)"
  define nxt where "nxt = hd (bs @ [head])"
  from assms have sa: "dseg h head as x" and sb: "dseg h x bs head"
    and dist: "distinct (head # as @ x # bs)" by (auto simp: clist_def)
  have lp: "linked h prv x" unfolding prv_def by (rule dseg_last [OF sa])
  have ln: "linked h x nxt" unfolding nxt_def by (rule dseg_first [OF sb])
  have mem: "prv \<in> set (head # as)" "nxt \<in> set (head # bs)"
    unfolding prv_def nxt_def by (rule last_in_set, simp) (cases bs, auto)
  from lp ln have "h prv \<noteq> None" "h nxt \<noteq> None" by (auto simp: linked_def dest!: get_SomeD)
  from del_between_links [OF this] obtain h' where
    del: "adx_list_del_between h prv nxt = Some h'"
    and nx: "\<And>q. get_next h' q = (if q = prv then Some nxt else get_next h q)"
    and pv: "\<And>q. get_prev h' q = (if q = nxt then Some prv else get_prev h q)"
    and out: "same_outside {prv, nxt} h h'"
    by blast
  have nb: "prv \<notin> set (butlast (head # as)) \<union> set bs"
    using last_notin_butlast [of head as] dist mem(1) unfolding prv_def by auto
  have nt: "nxt \<notin> set as \<union> set (tl (bs @ [head]))"
    unfolding nxt_def using dist by (cases bs) auto
  have "dseg h' head (as @ bs) head"
  proof (rule dseg_join [OF sa sb])
    show "linked h' (last (head # as)) (hd (bs @ [head]))"
      unfolding prv_def [symmetric] nxt_def [symmetric] by (simp add: linked_def nx pv)
  qed (use nb nt nx pv in metis)+
  then have "clist h' head (as @ bs)" using dist by (auto simp: clist_def)
  moreover have "same_outside (set (head # as @ bs)) h h'"
    using out mem by (auto simp: same_outside_def)
  moreover have "get_prev h x = Some prv" "get_next h x = Some nxt"
    using lp ln by (auto simp: linked_def)
  ultimately show ?thesis using del by (simp add: adx_list_del_def)
qed

lemma adx_list_empty_clist: "clist h head xs \<Longrightarrow> adx_list_empty h head = Some (xs = [])"
  using dseg_ends [of h head xs head]
  by (cases xs) (auto simp: clist_def adx_list_empty_def)

lemma adx_queue_clist:
  "clist h head [] \<Longrightarrow> adx_queue h head = Some (h, NULL)"
  "clist h head (x # xs) \<Longrightarrow> \<exists>h'. adx_queue h head = Some (h', x) \<and> clist h' head xs \<and>
     same_outside (set (head # xs)) h h'"
proof -
  show "clist h head [] \<Longrightarrow> adx_queue h head = Some (h, NULL)"
    by (simp add: clist_def linked_def adx_queue_def)
next
  assume c: "clist h head (x # xs)"
  then have "get_next h head = Some x" "x \<noteq> head" by (auto simp: clist_def linked_def)
  with adx_list_del_clist [of h head "[]" x xs] c
  show "\<exists>h'. adx_queue h head = Some (h', x) \<and> clist h' head xs \<and>
     same_outside (set (head # xs)) h h'"
    by (auto simp: adx_queue_def)
qed

section \<open>Traversals\<close>

lemma for_each_dseg:
  "dseg h p xs head \<Longrightarrow> head \<notin> set xs \<Longrightarrow>
   (case get_next h p of None \<Rightarrow> None | Some q \<Rightarrow> for_each_from h head q) = Some xs"
proof (induction xs arbitrary: p)
  case Nil
  then show ?case by (simp add: linked_def for_each_from.simps)
next
  case (Cons x xs)
  then have "get_next h p = Some x" and "x \<noteq> head" by (auto simp: linked_def)
  moreover from Cons have "(case get_next h x of None \<Rightarrow> None | Some q \<Rightarrow> for_each_from h head q)
      = Some xs" by simp
  ultimately show ?case
    by (auto simp: for_each_from.simps [of h head x] split: option.splits)
qed

lemma adx_list_for_each_clist: "clist h head xs \<Longrightarrow> adx_list_for_each h head = Some xs"
  using for_each_dseg [of h head xs head]
  by (auto simp: clist_def adx_list_for_each_def split: option.splits)

lemma for_tail_dseg:
  "dseg h head xs q \<Longrightarrow> head \<notin> set xs \<Longrightarrow>
   (case get_prev h q of None \<Rightarrow> None | Some p \<Rightarrow> for_tail_from h head p) = Some (rev xs)"
proof (induction xs arbitrary: q rule: rev_induct)
  case Nil
  then show ?case by (simp add: linked_def for_tail_from.simps)
next
  case (snoc x xs)
  then have "get_prev h q = Some x" and "x \<noteq> head" by (auto simp: linked_def)
  moreover from snoc have "(case get_prev h x of None \<Rightarrow> None | Some p \<Rightarrow> for_tail_from h head p)
      = Some (rev xs)" by simp
  ultimately show ?case
    by (auto simp: for_tail_from.simps [of h head x] split: option.splits)
qed

lemma adx_list_for_tail_clist: "clist h head xs \<Longrightarrow> adx_list_for_tail h head = Some (rev xs)"
  using for_tail_dseg [of h head xs head]
  by (auto simp: clist_def adx_list_for_tail_def split: option.splits)

end
