(* ===== verification/Adx_List_Sort.thy ===== *)
theory Adx_List_Sort
  imports Adx_List "HOL-Library.Multiset"
begin

text \<open>
  \<open>adx_list_sort\<close> of \<^verbatim>\<open>adx_list.c\<close>: the bottom-up merge sort that relinks the nodes in place.
  The pointer-level functions are translated statement by statement; the functional merge
  \<open>lmerge\<close> is the reference they are proved to implement.  The main lemma of the theory is
  that on a well-formed ring and with a partition array of at least two slots the sort returns
  (no null dereference, no read outside the array, termination) and that the result is a stable
  sort of the input ring.
\<close>

section \<open>Model\<close>

type_synonym cmp_fun = "addr \<Rightarrow> addr \<Rightarrow> int"

text \<open>
  \<open>merge_link\<close> is the assignment \<^verbatim>\<open>tail->next = v\<close>.  The first \<open>tail\<close> of \<open>adx_list_merge\<close> is
  a local struct that no other pointer reaches: \<open>None\<close> stands for its address and \<open>hn\<close> for its
  \<open>next\<close> field.
\<close>

fun merge_link ::
    "list_heap \<Rightarrow> addr \<Rightarrow> addr option \<Rightarrow> addr \<Rightarrow> (list_heap \<times> addr) option" where
  "merge_link h hn None v = Some (h, v)"
| "merge_link h hn (Some t) v = do { h \<leftarrow> set_next h t v; Some (h, hn) }"

partial_function (option) merge_loop ::
    "cmp_fun \<Rightarrow> list_heap \<Rightarrow> addr \<Rightarrow> addr option \<Rightarrow> addr \<Rightarrow> addr \<Rightarrow> (list_heap \<times> addr) option" where
  "merge_loop cmp h hn tail a b =
     (if a \<noteq> NULL \<and> b \<noteq> NULL then
        if cmp a b \<le> 0 then do {
          (h, hn) \<leftarrow> merge_link h hn tail a;
          a' \<leftarrow> get_next h a;
          merge_loop cmp h hn (Some a) a' b }
        else do {
          (h, hn) \<leftarrow> merge_link h hn tail b;
          b' \<leftarrow> get_next h b;
          merge_loop cmp h hn (Some b) a b' }
      else merge_link h hn tail (if a \<noteq> NULL then a else b))"

definition adx_list_merge ::
    "cmp_fun \<Rightarrow> list_heap \<Rightarrow> addr \<Rightarrow> addr \<Rightarrow> (list_heap \<times> addr) option" where
  "adx_list_merge cmp h a b = merge_loop cmp h NULL None a b"

partial_function (option) restore_rest :: "list_heap \<Rightarrow> addr \<Rightarrow> addr \<Rightarrow> list_heap option" where
  "restore_rest h head tail = do {
     nx \<leftarrow> get_next h tail;
     h \<leftarrow> set_prev h nx tail;
     nn \<leftarrow> get_next h nx;
     if nn \<noteq> NULL then restore_rest h head nx
     else do {
       h \<leftarrow> set_next h nx head;
       set_prev h head nx } }"

partial_function (option) restore_loop ::
    "cmp_fun \<Rightarrow> list_heap \<Rightarrow> addr \<Rightarrow> addr \<Rightarrow> addr \<Rightarrow> addr \<Rightarrow> list_heap option" where
  "restore_loop cmp h head tail a b =
     (if a \<noteq> NULL \<and> b \<noteq> NULL then
        if cmp a b \<le> 0 then do {
          h \<leftarrow> set_next h tail a;
          h \<leftarrow> set_prev h a tail;
          a' \<leftarrow> get_next h a;
          restore_loop cmp h head a a' b }
        else do {
          h \<leftarrow> set_next h tail b;
          h \<leftarrow> set_prev h b tail;
          b' \<leftarrow> get_next h b;
          restore_loop cmp h head b a b' }
      else do {
        h \<leftarrow> set_next h tail (if a \<noteq> NULL then a else b);
        restore_rest h head tail })"

definition adx_list_merge_and_restore_back_links ::
    "cmp_fun \<Rightarrow> list_heap \<Rightarrow> addr \<Rightarrow> addr \<Rightarrow> addr \<Rightarrow> list_heap option" where
  "adx_list_merge_and_restore_back_links cmp h head a b = restore_loop cmp h head head a b"

text \<open>
  The \<open>part\<close> array is a list of \<open>size\<close> pointers; an index outside it gives \<open>None\<close>.
\<close>

partial_function (option) sort_carry ::
    "cmp_fun \<Rightarrow> list_heap \<Rightarrow> addr list \<Rightarrow> nat \<Rightarrow> addr \<Rightarrow>
      (list_heap \<times> addr list \<times> nat \<times> addr) option" where
  "sort_carry cmp h part lev cur =
     (if lev \<ge> length part then None
      else if part ! lev \<noteq> NULL then do {
        (h, cur) \<leftarrow> adx_list_merge cmp h (part ! lev) cur;
        sort_carry cmp h (part[lev := NULL]) (Suc lev) cur }
      else Some (h, part, lev, cur))"

text \<open>\<open>sort_level\<close> is the adjustment of \<open>lev\<close> and \<open>max_lev\<close> between the carry and the store.\<close>

definition sort_level :: "nat \<Rightarrow> nat \<Rightarrow> nat \<Rightarrow> nat \<times> nat" where
  "sort_level psize lev max_lev =
     (if lev > max_lev then
        let lev = (if int lev \<ge> int psize - 1 then lev - 1 else lev) in (lev, lev)
      else (lev, max_lev))"

partial_function (option) sort_insert ::
    "cmp_fun \<Rightarrow> list_heap \<Rightarrow> addr list \<Rightarrow> nat \<Rightarrow> addr \<Rightarrow> (list_heap \<times> addr list \<times> nat) option" where
  "sort_insert cmp h part max_lev lst =
     (if lst \<noteq> NULL then do {
        nxt \<leftarrow> get_next h lst;
        h \<leftarrow> set_next h lst NULL;
        (h, part, lev, cur) \<leftarrow> sort_carry cmp h part 0 lst;
        let (lev, max_lev) = sort_level (length part) lev max_lev;
        sort_insert cmp h (part[lev := cur]) max_lev nxt }
      else Some (h, part, max_lev))"

fun sort_collect ::
    "cmp_fun \<Rightarrow> list_heap \<Rightarrow> addr list \<Rightarrow> nat list \<Rightarrow> addr \<Rightarrow> (list_heap \<times> addr) option" where
  "sort_collect cmp h part [] lst = Some (h, lst)"
| "sort_collect cmp h part (lev # levs) lst =
     (if part ! lev \<noteq> NULL then do {
        (h, lst) \<leftarrow> adx_list_merge cmp h (part ! lev) lst;
        sort_collect cmp h part levs lst }
      else sort_collect cmp h part levs lst)"

definition adx_list_sort ::
    "cmp_fun \<Rightarrow> list_heap \<Rightarrow> addr \<Rightarrow> int \<Rightarrow> list_heap option" where
  "adx_list_sort cmp h head psize =
     (if psize \<le> 0 then None
      else do {
        emp \<leftarrow> adx_list_empty h head;
        if emp then Some h
        else do {
          prv \<leftarrow> get_prev h head;
          h \<leftarrow> set_next h prv NULL;
          lst \<leftarrow> get_next h head;
          (h, part, max_lev) \<leftarrow> sort_insert cmp h (replicate (nat psize) NULL) 0 lst;
          (h, lst) \<leftarrow> sort_collect cmp h part [0..<max_lev] NULL;
          adx_list_merge_and_restore_back_links cmp h head (part ! max_lev) lst } })"

section \<open>The functional merge\<close>

fun lmerge :: "cmp_fun \<Rightarrow> addr list \<Rightarrow> addr list \<Rightarrow> addr list" where
  "lmerge cmp [] ys = ys"
| "lmerge cmp xs [] = xs"
| "lmerge cmp (x # xs) (y # ys) =
     (if cmp x y \<le> 0 then x # lmerge cmp xs (y # ys) else y # lmerge cmp (x # xs) ys)"

lemma lmerge_Nil2 [simp]: "lmerge cmp xs [] = xs"
  by (cases xs) auto

lemma mset_lmerge [simp]: "mset (lmerge cmp xs ys) = mset xs + mset ys"
  by (induction cmp xs ys rule: lmerge.induct) auto

lemma set_lmerge [simp]: "set (lmerge cmp xs ys) = set xs \<union> set ys"
  by (induction cmp xs ys rule: lmerge.induct) auto

lemma lmerge_eq_Nil [simp]: "lmerge cmp xs ys = [] \<longleftrightarrow> xs = [] \<and> ys = []"
  by (metis append_is_Nil_conv set_append set_empty set_lmerge)

lemma distinct_lmerge [simp]: "distinct (lmerge cmp xs ys) \<longleftrightarrow> distinct (xs @ ys)"
  by (induction cmp xs ys rule: lmerge.induct) auto

text \<open>Induction over a merge with a fixed comparison function.\<close>

lemma lmerge_induct [case_names left right step]:
  fixes cmp :: cmp_fun
  assumes "\<And>ys. P [] ys" and "\<And>x xs. P (x # xs) []"
    and "\<And>x xs y ys. (cmp x y \<le> 0 \<Longrightarrow> P xs (y # ys)) \<Longrightarrow>
           (\<not> cmp x y \<le> 0 \<Longrightarrow> P (x # xs) ys) \<Longrightarrow> P (x # xs) (y # ys)"
  shows "P xs ys"
proof -
  have "c = cmp \<longrightarrow> P xs ys" for c
    by (induction c xs ys rule: lmerge.induct) (auto intro: assms)
  then show ?thesis by simp
qed

section \<open>Comparison functions\<close>

text \<open>
  What the sort asks of the caller's comparison function: the sign of its result is a total
  preorder.
\<close>

definition cmp_eqv :: "cmp_fun \<Rightarrow> addr \<Rightarrow> addr \<Rightarrow> bool" where
  "cmp_eqv cmp x y \<longleftrightarrow> cmp x y \<le> 0 \<and> cmp y x \<le> 0"

definition cmp_sorted :: "cmp_fun \<Rightarrow> addr list \<Rightarrow> bool" where
  "cmp_sorted cmp xs \<longleftrightarrow> sorted_wrt (\<lambda>x y. cmp x y \<le> 0) xs"

definition stable_perm :: "cmp_fun \<Rightarrow> addr list \<Rightarrow> addr list \<Rightarrow> bool" where
  "stable_perm cmp xs ys \<longleftrightarrow>
     mset xs = mset ys \<and> (\<forall>z. filter (cmp_eqv cmp z) xs = filter (cmp_eqv cmp z) ys)"

lemma stable_perm_refl [simp]: "stable_perm cmp xs xs"
  by (simp add: stable_perm_def)

lemma stable_perm_trans: "stable_perm cmp xs ys \<Longrightarrow> stable_perm cmp ys zs \<Longrightarrow> stable_perm cmp xs zs"
  by (simp add: stable_perm_def)

lemma stable_perm_append:
  "stable_perm cmp xs xs' \<Longrightarrow> stable_perm cmp ys ys' \<Longrightarrow> stable_perm cmp (xs @ ys) (xs' @ ys')"
  by (simp add: stable_perm_def)

lemma stable_perm_set: "stable_perm cmp xs ys \<Longrightarrow> set xs = set ys"
  unfolding stable_perm_def by (metis set_mset_mset)

lemma stable_perm_distinct: "stable_perm cmp xs ys \<Longrightarrow> distinct xs = distinct ys"
  unfolding stable_perm_def by (metis mset_eq_imp_distinct_iff)

locale cmp_order =
  fixes cmp :: cmp_fun
  assumes total: "cmp x y \<le> 0 \<or> cmp y x \<le> 0"
    and trans: "cmp x y \<le> 0 \<Longrightarrow> cmp y z \<le> 0 \<Longrightarrow> cmp x z \<le> 0"
begin

lemma sorted_lmerge:
  "cmp_sorted cmp xs \<Longrightarrow> cmp_sorted cmp ys \<Longrightarrow> cmp_sorted cmp (lmerge cmp xs ys)"
proof (induction xs ys rule: lmerge_induct [of _ cmp])
  case (step x xs y ys)
  show ?case
  proof (cases "cmp x y \<le> 0")
    case True
    moreover have "\<forall>z \<in> set ys. cmp x z \<le> 0"
      using step.prems(2) trans [OF True] by (simp add: cmp_sorted_def)
    ultimately show ?thesis using step by (auto simp: cmp_sorted_def)
  next
    case False
    with total [of x y] have le: "cmp y x \<le> 0" by simp
    then have "\<forall>z \<in> set xs. cmp y z \<le> 0"
      using step.prems(1) trans [OF le] by (simp add: cmp_sorted_def)
    with step False le show ?thesis by (auto simp: cmp_sorted_def)
  qed
qed (auto simp: cmp_sorted_def)

lemma filter_lmerge:
  "cmp_sorted cmp xs \<Longrightarrow>
   filter (cmp_eqv cmp z) (lmerge cmp xs ys) = filter (cmp_eqv cmp z) (xs @ ys)"
proof (induction xs ys rule: lmerge_induct [of _ cmp])
  case (step x xs y ys)
  show ?case
  proof (cases "cmp x y \<le> 0")
    case True
    with step show ?thesis by (auto simp: cmp_sorted_def)
  next
    case False
    have IH: "filter (cmp_eqv cmp z) (lmerge cmp (x # xs) ys)
        = filter (cmp_eqv cmp z) ((x # xs) @ ys)"
      using step False by blast
    have "filter (cmp_eqv cmp z) (x # xs) = []" if "cmp_eqv cmp z y"
    proof -
      have "\<not> cmp x z \<le> 0" using that False trans [of x z y] by (auto simp: cmp_eqv_def)
      moreover have "\<not> cmp u z \<le> 0" if "u \<in> set xs" for u
        using step.prems that \<open>\<not> cmp x z \<le> 0\<close> trans [of x u z] by (auto simp: cmp_sorted_def)
      ultimately show ?thesis unfolding filter_empty_conv by (auto simp: cmp_eqv_def)
    qed
    moreover have "filter (cmp_eqv cmp z) ((x # xs) @ zs) =
        filter (cmp_eqv cmp z) (x # xs) @ filter (cmp_eqv cmp z) zs" for zs
      by (rule filter_append)
    ultimately show ?thesis using False IH by (cases "cmp_eqv cmp z y") simp_all
  qed
qed auto

lemma stable_lmerge: "cmp_sorted cmp xs \<Longrightarrow> stable_perm cmp (lmerge cmp xs ys) (xs @ ys)"
  by (simp add: stable_perm_def filter_lmerge)

end

section \<open>Null-terminated chains\<close>

fun sll :: "list_heap \<Rightarrow> addr \<Rightarrow> addr list \<Rightarrow> bool" where
  "sll h p [] \<longleftrightarrow> p = NULL"
| "sll h p (x # xs) \<longleftrightarrow> p = x \<and> x \<noteq> NULL \<and> (\<exists>q. get_next h x = Some q \<and> sll h q xs)"

lemma sll_NULL [simp]: "sll h NULL xs \<longleftrightarrow> xs = []"
  by (cases xs) auto

lemma sll_Nil_iff: "sll h p xs \<Longrightarrow> p = NULL \<longleftrightarrow> xs = []"
  by (cases xs) auto

lemma sll_frame: "sll h p xs \<Longrightarrow> \<forall>x \<in> set xs. get_next h' x = get_next h x \<Longrightarrow> sll h' p xs"
  by (induction xs arbitrary: p) auto

text \<open>
  \<open>next_only A h h'\<close>: the step from \<open>h\<close> to \<open>h'\<close> wrote only \<open>next\<close> fields, and only of nodes
  of \<open>A\<close>.
\<close>

definition next_only :: "addr set \<Rightarrow> list_heap \<Rightarrow> list_heap \<Rightarrow> bool" where
  "next_only A h h' \<longleftrightarrow>
     (\<forall>p. get_prev h' p = get_prev h p) \<and> (\<forall>p. p \<notin> A \<longrightarrow> h' p = h p)"

lemma next_only_get_next: "next_only A h h' \<Longrightarrow> p \<notin> A \<Longrightarrow> get_next h' p = get_next h p"
  by (simp add: next_only_def get_next_def)

lemma next_only_refl [simp]: "next_only A h h"
  by (simp add: next_only_def)

lemma next_only_trans:
  "next_only A h h' \<Longrightarrow> next_only B h' h'' \<Longrightarrow> A \<union> B \<subseteq> C \<Longrightarrow> next_only C h h''"
  unfolding next_only_def by (metis Un_iff subset_eq)

lemma next_only_sll: "next_only A h h' \<Longrightarrow> sll h p xs \<Longrightarrow> set xs \<inter> A = {} \<Longrightarrow> sll h' p xs"
  by (rule sll_frame [of h]) (auto intro: next_only_get_next)

lemma set_next_next_only:
  assumes "get_next h t = Some u"
  shows "\<exists>h'. set_next h t v = Some h' \<and> get_next h' t = Some v \<and> next_only {t} h h'"
  using assms
  by (auto simp: set_next_def get_next_def get_prev_def next_only_def)

section \<open>The merge loop implements the functional merge\<close>

lemma merge_loop_tail:
  assumes "sll h a xs" "sll h b ys" "distinct (t # xs @ ys)" "get_next h t = Some u"
  shows "\<exists>h' q. merge_loop cmp h hn (Some t) a b = Some (h', hn) \<and>
     get_next h' t = Some q \<and> sll h' q (lmerge cmp xs ys) \<and> next_only (set (t # xs @ ys)) h h'"
  using assms
proof (induction xs ys arbitrary: h a b t u rule: lmerge_induct [of _ cmp])
  case (left ys)
  from set_next_next_only [OF left(4), of b] obtain h' where
    h': "set_next h t b = Some h'" "get_next h' t = Some b" "next_only {t} h h'" by blast
  moreover have "sll h' b ys" by (rule next_only_sll [OF h'(3) left(2)]) (use left in auto)
  moreover have "next_only (set (t # [] @ ys)) h h'"
    by (rule next_only_trans [OF h'(3) next_only_refl [of "{}"]]) auto
  ultimately show ?case using left(1)
    by (auto simp: merge_loop.simps [of cmp h])
next
  case (right x xs)
  from set_next_next_only [OF right(4), of a] obtain h' where
    h': "set_next h t a = Some h'" "get_next h' t = Some a" "next_only {t} h h'" by blast
  moreover have "sll h' a (x # xs)" by (rule next_only_sll [OF h'(3) right(1)]) (use right in auto)
  moreover have "next_only (set (t # (x # xs) @ [])) h h'"
    by (rule next_only_trans [OF h'(3) next_only_refl [of "{}"]]) auto
  ultimately show ?case using right(1,2)
    by (auto simp: merge_loop.simps [of cmp h])
next
  case (step x xs y ys)
  show ?case
  proof (cases "cmp x y \<le> 0")
    case True
    from step.prems obtain a' where a: "a = x" "x \<noteq> NULL" "get_next h x = Some a'" "sll h a' xs"
      by auto
    from step.prems(2) have b: "b = y" "y \<noteq> NULL" by auto
    from set_next_next_only [OF step.prems(4), of x] obtain h1 where
      h1: "set_next h t x = Some h1" "get_next h1 t = Some x" "next_only {t} h h1" by blast
    have s: "sll h1 a' xs" "sll h1 b (y # ys)" "get_next h1 x = Some a'"
      using next_only_sll [OF h1(3) a(4)] next_only_sll [OF h1(3) step.prems(2)] step.prems(3)
        h1(3) a(3)
      by (auto simp: next_only_get_next)
    from step.IH(1) [OF True s(1,2) _ s(3)] step.prems(3) obtain h' q where
      h': "merge_loop cmp h1 hn (Some x) a' b = Some (h', hn)" "get_next h' x = Some q"
        "sll h' q (lmerge cmp xs (y # ys))" "next_only (set (x # xs @ y # ys)) h1 h'"
      by auto
    have "get_next h' t = Some x" using h'(4) h1(2) step.prems(3) by (auto simp: next_only_get_next)
    moreover have "next_only (set (t # (x # xs) @ y # ys)) h h'"
      by (rule next_only_trans [OF h1(3) h'(4)]) auto
    ultimately show ?thesis using True a b h1 s(3) h'
      by (auto simp: merge_loop.simps [of cmp h])
  next
    case False
    from step.prems obtain b' where b: "b = y" "y \<noteq> NULL" "get_next h y = Some b'" "sll h b' ys"
      by auto
    from step.prems(1) have a: "a = x" "x \<noteq> NULL" by auto
    from set_next_next_only [OF step.prems(4), of y] obtain h1 where
      h1: "set_next h t y = Some h1" "get_next h1 t = Some y" "next_only {t} h h1" by blast
    have s: "sll h1 a (x # xs)" "sll h1 b' ys" "get_next h1 y = Some b'"
      using next_only_sll [OF h1(3) b(4)] next_only_sll [OF h1(3) step.prems(1)] step.prems(3)
        h1(3) b(3)
      by (auto simp: next_only_get_next)
    from step.IH(2) [OF False s(1,2) _ s(3)] step.prems(3) obtain h' q where
      h': "merge_loop cmp h1 hn (Some y) a b' = Some (h', hn)" "get_next h' y = Some q"
        "sll h' q (lmerge cmp (x # xs) ys)" "next_only (set (y # (x # xs) @ ys)) h1 h'"
      by auto
    have "get_next h' t = Some y" using h'(4) h1(2) step.prems(3) by (auto simp: next_only_get_next)
    moreover have "next_only (set (t # (x # xs) @ y # ys)) h h'"
      by (rule next_only_trans [OF h1(3) h'(4)]) auto
    ultimately show ?thesis using False a b h1 s(3) h'
      by (auto simp: merge_loop.simps [of cmp h])
  qed
qed

lemma adx_list_merge_sll:
  assumes "sll h a xs" "sll h b ys" "distinct (xs @ ys)"
  shows "\<exists>h' q. adx_list_merge cmp h a b = Some (h', q) \<and> sll h' q (lmerge cmp xs ys) \<and>
     next_only (set (xs @ ys)) h h'"
proof (cases "xs = [] \<or> ys = []")
  case True
  with assms show ?thesis
    by (auto simp: adx_list_merge_def merge_loop.simps [of cmp h] sll_Nil_iff)
next
  case False
  then obtain x xs' y ys' where xy: "xs = x # xs'" "ys = y # ys'" by (meson neq_Nil_conv)
  with assms obtain a' b' where n: "a = x" "x \<noteq> NULL" "get_next h x = Some a'" "sll h a' xs'"
    "b = y" "y \<noteq> NULL" "get_next h y = Some b'" "sll h b' ys'" by auto
  show ?thesis
  proof (cases "cmp x y \<le> 0")
    case True
    from merge_loop_tail [OF n(4) assms(2) _ n(3), of cmp x] assms(3) xy obtain h' q where
      "merge_loop cmp h x (Some x) a' b = Some (h', x)" "get_next h' x = Some q"
      "sll h' q (lmerge cmp xs' ys)" "next_only (set (x # xs' @ ys)) h h'" by auto
    with True n xy show ?thesis
      by (auto simp: adx_list_merge_def merge_loop.simps [of cmp h NULL])
  next
    case False
    from merge_loop_tail [OF assms(1) n(8) _ n(7), of cmp y] assms(3) xy obtain h' q where
      "merge_loop cmp h y (Some y) a b' = Some (h', y)" "get_next h' y = Some q"
      "sll h' q (lmerge cmp xs ys')" "next_only (set (y # xs @ ys')) h h'" by auto
    with False n xy show ?thesis
      by (auto simp: adx_list_merge_def merge_loop.simps [of cmp h NULL] insert_commute)
  qed
qed

section \<open>Restoring the back links\<close>

text \<open>
  \<open>relinked N P h h'\<close>: \<open>next\<close> fields were written only in \<open>N\<close>, \<open>prev\<close> fields only in \<open>P\<close>.
\<close>

definition relinked :: "addr set \<Rightarrow> addr set \<Rightarrow> list_heap \<Rightarrow> list_heap \<Rightarrow> bool" where
  "relinked N P h h' \<longleftrightarrow> (\<forall>p. p \<notin> N \<longrightarrow> get_next h' p = get_next h p) \<and>
     (\<forall>p. p \<notin> P \<longrightarrow> get_prev h' p = get_prev h p) \<and> same_outside (N \<union> P) h h'"

lemma relinked_trans:
  assumes "relinked N P h h'" "relinked N' P' h' h''" "N \<union> N' \<subseteq> M" "P \<union> P' \<subseteq> Q"
  shows "relinked M Q h h''"
proof -
  from assms(3,4) have "p \<notin> M \<Longrightarrow> p \<notin> N \<and> p \<notin> N'" "p \<notin> Q \<Longrightarrow> p \<notin> P \<and> p \<notin> P'" for p by auto
  with assms(1,2) show ?thesis by (simp add: relinked_def same_outside_def)
qed

lemma relinked_sll: "relinked N P h h' \<Longrightarrow> sll h p xs \<Longrightarrow> set xs \<inter> N = {} \<Longrightarrow> sll h' p xs"
  by (rule sll_frame [of h]) (auto simp: relinked_def)

lemma set_next_relinked:
  assumes "h p \<noteq> None"
  shows "\<exists>h'. set_next h p v = Some h' \<and> get_next h' p = Some v \<and> relinked {p} {} h h'"
  using set_next_SomeI [of h p v] assms by (auto simp: relinked_def)

lemma set_prev_relinked:
  assumes "h p \<noteq> None"
  shows "\<exists>h'. set_prev h p v = Some h' \<and> get_prev h' p = Some v \<and> relinked {} {p} h h'"
  using set_prev_SomeI [of h p v] assms by (auto simp: relinked_def)

lemma relinked_get:
  "relinked N P h h' \<Longrightarrow> p \<notin> N \<Longrightarrow> get_next h' p = get_next h p"
  "relinked N P h h' \<Longrightarrow> p \<notin> P \<Longrightarrow> get_prev h' p = get_prev h p"
  by (auto simp: relinked_def)

lemma get_not_None: "get_next h p \<noteq> None \<longleftrightarrow> h p \<noteq> None" "get_prev h p \<noteq> None \<longleftrightarrow> h p \<noteq> None"
  by (auto simp: get_next_def get_prev_def)

lemma relinked_dom: "relinked N P h h' \<Longrightarrow> P = {} \<or> N = {} \<Longrightarrow> h p \<noteq> None \<Longrightarrow> h' p \<noteq> None"
  using relinked_get [of N P h h' p] get_not_None [of h p] get_not_None [of h' p] by auto

lemma set_next_prev_relinked:
  assumes "h t \<noteq> None" "h x \<noteq> None"
  shows "\<exists>h1 h2. set_next h t x = Some h1 \<and> set_prev h1 x t = Some h2 \<and> linked h2 t x \<and>
     relinked {t} {x} h h2 \<and> (\<forall>p. h p \<noteq> None \<longrightarrow> h2 p \<noteq> None)"
proof -
  from set_next_relinked [of h t x] assms(1) obtain h1 where
    h1: "set_next h t x = Some h1" "get_next h1 t = Some x" "relinked {t} {} h h1" by blast
  have d: "h p \<noteq> None \<Longrightarrow> h1 p \<noteq> None" for p by (rule relinked_dom [OF h1(3)]) auto
  from d [OF assms(2)] set_prev_relinked [of h1 x t] obtain h2 where
    h2: "set_prev h1 x t = Some h2" "get_prev h2 x = Some t" "relinked {} {x} h1 h2" by blast
  have "h1 p \<noteq> None \<Longrightarrow> h2 p \<noteq> None" for p by (rule relinked_dom [OF h2(3)]) auto
  with d have "\<forall>p. h p \<noteq> None \<longrightarrow> h2 p \<noteq> None" by simp
  moreover have "relinked {t} {x} h h2" by (rule relinked_trans [OF h1(3) h2(3)]) auto
  moreover have "linked h2 t x"
    using h1(2) h2 relinked_get(1) [OF h2(3), of t] by (simp add: linked_def)
  ultimately show ?thesis using h1(1) h2(1) by blast
qed

lemma restore_rest_dseg:
  assumes "sll h q zs" "zs \<noteq> []" "distinct zs" "head \<notin> set zs" "t \<notin> set zs"
    "get_next h t = Some q" "h head \<noteq> None"
  shows "\<exists>h'. restore_rest h head t = Some h' \<and> dseg h' t zs head \<and>
     relinked (set zs) (set (head # zs)) h h'"
  using assms
proof (induction zs arbitrary: h t q)
  case Nil
  then show ?case by simp
next
  case (Cons z zs)
  from Cons.prems obtain q' where z: "q = z" "z \<noteq> NULL" "get_next h z = Some q'" "sll h q' zs"
    by auto
  have "h z \<noteq> None" using z(3) get_not_None(1) [of h z] by simp
  from set_prev_relinked [of h z t] this obtain h1 where
    h1: "set_prev h z t = Some h1" "get_prev h1 z = Some t" "relinked {} {z} h h1" by blast
  have n1: "get_next h1 z = Some q'" "get_next h1 t = Some z" "sll h1 q' zs"
    using relinked_get(1) [OF h1(3)] z Cons.prems relinked_sll [OF h1(3) z(4)] by auto
  have d1: "h1 head \<noteq> None" using relinked_dom [OF h1(3)] Cons.prems by simp
  show ?case
  proof (cases zs)
    case Nil
    with n1(3) have "q' = NULL" by simp
    have "h1 z \<noteq> None" using n1(1) get_not_None(1) [of h1 z] by simp
    from set_next_prev_relinked [of h1 z head] this d1 obtain h2 h3 where
      h3: "set_next h1 z head = Some h2" "set_prev h2 head z = Some h3" "linked h3 z head"
        "relinked {z} {head} h1 h3" by blast
    have "linked h3 t z"
      using relinked_get [OF h3(4)] h1(2) n1(2) Cons.prems by (auto simp: linked_def)
    moreover have "relinked (set (z # zs)) (set (head # z # zs)) h h3"
      by (rule relinked_trans [OF h1(3) h3(4)]) auto
    ultimately show ?thesis
      using Nil z h1 n1 h3 \<open>q' = NULL\<close> Cons.prems(6)
      by (auto simp: restore_rest.simps [of h])
  next
    case (Cons z' zs')
    with n1(3) have "q' \<noteq> NULL" by auto
    from Cons.IH [OF n1(3) _ _ _ _ n1(1)] d1 Cons Cons.prems obtain h' where
      h': "restore_rest h1 head z = Some h'" "dseg h' z zs head"
        "relinked (set zs) (set (head # zs)) h1 h'" by auto
    have "linked h' t z"
      using relinked_get [OF h'(3)] h1(2) n1(2) Cons.prems by (auto simp: linked_def)
    moreover have "relinked (set (z # zs)) (set (head # z # zs)) h h'"
      by (rule relinked_trans [OF h1(3) h'(3)]) auto
    ultimately show ?thesis
      using z h1 n1 h' \<open>q' \<noteq> NULL\<close> Cons.prems(6)
      by (auto simp: restore_rest.simps [of h])
  qed
qed

lemma restore_finish:
  assumes "sll h a zs" "zs \<noteq> []" "distinct zs" "head \<notin> set zs" "t \<notin> set zs"
    "h t \<noteq> None" "h head \<noteq> None"
  shows "\<exists>h1 h'. set_next h t a = Some h1 \<and> restore_rest h1 head t = Some h' \<and>
     dseg h' t zs head \<and> relinked (set (t # zs)) (set (head # zs)) h h'"
proof -
  from set_next_relinked [of h t a] assms(6) obtain h1 where
    h1: "set_next h t a = Some h1" "get_next h1 t = Some a" "relinked {t} {} h h1" by blast
  have "sll h1 a zs" by (rule relinked_sll [OF h1(3) assms(1)]) (use assms(5) in simp)
  moreover have "h1 head \<noteq> None" using relinked_dom [OF h1(3)] assms(7) by simp
  ultimately obtain h' where
    h': "restore_rest h1 head t = Some h'" "dseg h' t zs head"
      "relinked (set zs) (set (head # zs)) h1 h'"
    using restore_rest_dseg [of h1 a zs head t] h1(2) assms by blast
  moreover have "relinked (set (t # zs)) (set (head # zs)) h h'"
    by (rule relinked_trans [OF h1(3) h'(3)]) auto
  ultimately show ?thesis using h1(1) by blast
qed

text \<open>One round of the loop: take \<open>x\<close> from the chain \<open>x # xs\<close> and link it behind \<open>t\<close>.\<close>

lemma restore_take:
  assumes "sll h a (x # xs)" "sll h b ys" "distinct (x # xs @ ys)" "t \<notin> set (x # xs @ ys)"
    "h t \<noteq> None" "h head \<noteq> None"
  obtains a' h1 h2 where "a = x" "set_next h t x = Some h1" "set_prev h1 x t = Some h2"
    "get_next h2 x = Some a'" "sll h2 a' xs" "sll h2 b ys" "linked h2 t x"
    "relinked {t} {x} h h2" "h2 x \<noteq> None" "h2 head \<noteq> None"
proof -
  from assms(1) obtain a' where a: "a = x" "get_next h x = Some a'" "sll h a' xs" by auto
  then have "h x \<noteq> None" using get_not_None(1) [of h x] by simp
  with set_next_prev_relinked [of h t x] assms(5) obtain h1 h2 where
    h2: "set_next h t x = Some h1" "set_prev h1 x t = Some h2" "linked h2 t x"
      "relinked {t} {x} h h2" "\<forall>p. h p \<noteq> None \<longrightarrow> h2 p \<noteq> None" by blast
  have "get_next h2 x = Some a'" using relinked_get(1) [OF h2(4)] a assms(4) by auto
  moreover have "sll h2 a' xs" "sll h2 b ys"
    using relinked_sll [OF h2(4) a(3)] relinked_sll [OF h2(4) assms(2)] assms(4) by auto
  ultimately show thesis
    by (rule that [OF a(1) h2(1,2) _ _ _ h2(3,4)]) (use h2(5) \<open>h x \<noteq> None\<close> assms(6) in simp_all)
qed

lemma restore_loop_dseg:
  assumes "sll h a xs" "sll h b ys" "xs @ ys \<noteq> []" "distinct (xs @ ys)"
    "head \<notin> set (xs @ ys)" "t \<notin> set (xs @ ys)" "h t \<noteq> None" "h head \<noteq> None"
  shows "\<exists>h'. restore_loop cmp h head t a b = Some h' \<and> dseg h' t (lmerge cmp xs ys) head \<and>
     relinked (set (t # xs @ ys)) (set (head # xs @ ys)) h h'"
  using assms
proof (induction xs ys arbitrary: h a b t rule: lmerge_induct [of _ cmp])
  case (left ys)
  with restore_finish [of h b ys head t] show ?case
    by (auto simp: restore_loop.simps [of cmp h])
next
  case (right x xs)
  with restore_finish [of h a "x # xs" head t] show ?case
    by (auto simp: restore_loop.simps [of cmp h])
next
  case (step x xs y ys)
  have xy: "a = x" "x \<noteq> NULL" "b = y" "y \<noteq> NULL" using step.prems by auto
  show ?case
  proof (cases "cmp x y \<le> 0")
    case True
    obtain a' h1 h2 where
      h2: "set_next h t x = Some h1" "set_prev h1 x t = Some h2" "get_next h2 x = Some a'"
        "sll h2 a' xs" "sll h2 b (y # ys)" "linked h2 t x" "relinked {t} {x} h h2"
        "h2 x \<noteq> None" "h2 head \<noteq> None"
      by (rule restore_take [of h a x xs b "y # ys" t head]) (use step.prems in simp_all)
    obtain h' where
      h': "restore_loop cmp h2 head x a' b = Some h'" "dseg h' x (lmerge cmp xs (y # ys)) head"
        "relinked (set (x # xs @ y # ys)) (set (head # xs @ y # ys)) h2 h'"
      using step.IH(1) [OF True h2(4,5), of x] h2(8,9) step.prems by auto
    have "linked h' t x"
      using relinked_get [OF h'(3)] h2(6) step.prems by (auto simp: linked_def)
    moreover have "relinked (set (t # (x # xs) @ y # ys)) (set (head # (x # xs) @ y # ys)) h h'"
      by (rule relinked_trans [OF h2(7) h'(3)]) auto
    ultimately show ?thesis using True xy h2(1-3) h'
      by (simp add: restore_loop.simps [of cmp h])
  next
    case False
    obtain b' h1 h2 where
      h2: "set_next h t y = Some h1" "set_prev h1 y t = Some h2" "get_next h2 y = Some b'"
        "sll h2 b' ys" "sll h2 a (x # xs)" "linked h2 t y" "relinked {t} {y} h h2"
        "h2 y \<noteq> None" "h2 head \<noteq> None"
      by (rule restore_take [of h b y ys a "x # xs" t head]) (use step.prems in auto)
    obtain h' where
      h': "restore_loop cmp h2 head y a b' = Some h'" "dseg h' y (lmerge cmp (x # xs) ys) head"
        "relinked (set (y # (x # xs) @ ys)) (set (head # (x # xs) @ ys)) h2 h'"
      using step.IH(2) [OF False h2(5,4), of y] h2(8,9) step.prems by auto
    have "linked h' t y"
      using relinked_get [OF h'(3)] h2(6) step.prems by (auto simp: linked_def)
    moreover have "relinked (set (t # (x # xs) @ y # ys)) (set (head # (x # xs) @ y # ys)) h h'"
      by (rule relinked_trans [OF h2(7) h'(3)]) auto
    ultimately show ?thesis using False xy h2(1-3) h'
      by (simp add: restore_loop.simps [of cmp h])
  qed
qed

section \<open>The partition array\<close>

text \<open>
  \<open>parts h part P\<close>: slot \<open>i\<close> of the array points to the chain \<open>P ! i\<close>.  A lower level holds
  later elements, so \<open>concat (rev P)\<close> lists the stored nodes in input order up to stability.
\<close>

definition parts :: "list_heap \<Rightarrow> addr list \<Rightarrow> addr list list \<Rightarrow> bool" where
  "parts h part P \<longleftrightarrow> list_all2 (sll h) part P"

lemma parts_nth: "parts h part P \<Longrightarrow> i < length P \<Longrightarrow> sll h (part ! i) (P ! i)"
  by (simp add: parts_def list_all2_conv_all_nth)

lemma parts_length: "parts h part P \<Longrightarrow> length part = length P"
  by (simp add: parts_def list_all2_lengthD)

lemma parts_update:
  "parts h part P \<Longrightarrow> sll h p xs \<Longrightarrow> parts h (part[i := p]) (P[i := xs])"
  by (auto simp: parts_def intro: list_all2_update_cong)

lemma parts_frame:
  assumes "parts h part P" "next_only A h h'" "set (concat P) \<inter> A = {}"
  shows "parts h' part P"
  using assms unfolding parts_def list_all2_conv_all_nth
  by (auto intro!: next_only_sll [OF assms(2)]) (metis IntI UN_I empty_iff nth_mem)

lemma concat_rev_update:
  assumes "k < length P" "\<forall>i < k. P ! i = []"
  shows "concat (rev (P[k := xs])) = concat (rev (drop (Suc k) P)) @ xs"
proof -
  have "concat (rev (take k P)) = []"
    using assms by (auto simp: in_set_conv_nth)
  then show ?thesis using assms(1) by (simp add: upd_conv_take_nth_drop rev_drop)
qed

lemma concat_rev_nth:
  assumes "k < length P" "\<forall>i < k. P ! i = []"
  shows "concat (rev P) = concat (rev (drop (Suc k) P)) @ P ! k"
  using concat_rev_update [OF assms, of "P ! k"] by simp

lemma concat_update_Nil:
  assumes "k < length P"
  shows "mset (concat P) = mset (P ! k) + mset (concat (P[k := []]))"
  using assms by (subst id_take_nth_drop [OF assms]) (simp add: upd_conv_take_nth_drop)

text \<open>
  The highest level in use is \<open>m\<close>, and the last slot of the array is never used.
\<close>

definition part_levels :: "addr list list \<Rightarrow> nat \<Rightarrow> bool" where
  "part_levels P m \<longleftrightarrow> m + 2 \<le> length P \<and> (\<forall>i. m < i \<and> i < length P \<longrightarrow> P ! i = []) \<and>
     (P ! m = [] \<longrightarrow> m = 0)"

lemma part_levels_store:
  assumes "part_levels P m" "length P' = length P" "lev < length P" "\<forall>i \<le> lev. P' ! i = []"
    "\<forall>i. lev < i \<longrightarrow> P' ! i = P ! i" "C \<noteq> []"
    and lm: "sort_level (length P) lev m = (lev', m')"
  shows "part_levels (P'[lev' := C]) m'" "P'[lev' := C] ! m' \<noteq> []" "lev' \<le> lev"
proof -
  show le: "lev' \<le> lev" using lm by (auto simp: sort_level_def Let_def split: if_splits)
  have "part_levels (P'[lev' := C]) m' \<and> P'[lev' := C] ! m' \<noteq> []"
  proof (cases "m < lev")
    case True
    with lm have "m' = lev'" "lev' + 2 \<le> length P"
      using assms(1,3) by (auto simp: sort_level_def Let_def part_levels_def split: if_splits)
    moreover have "P' ! i = []" if "lev' < i" "i < length P" for i
      using that assms(1,4,5) True by (cases "i \<le> lev") (auto simp: part_levels_def)
    ultimately show ?thesis using assms(2,6) by (auto simp: part_levels_def nth_list_update)
  next
    case False
    with lm have "m' = m" "lev' = lev" by (auto simp: sort_level_def)
    with False assms show ?thesis by (auto simp: part_levels_def nth_list_update)
  qed
  then show "part_levels (P'[lev' := C]) m'" "P'[lev' := C] ! m' \<noteq> []" by auto
qed

text \<open>What the array holds after some input: sorted chains, later input at lower levels.\<close>

definition parts_ok :: "cmp_fun \<Rightarrow> list_heap \<Rightarrow> addr list \<Rightarrow> addr list list \<Rightarrow> bool" where
  "parts_ok cmp h part P \<longleftrightarrow> parts h part P \<and> (\<forall>X \<in> set P. cmp_sorted cmp X)"

context cmp_order
begin

lemma carry_step:
  assumes "parts_ok cmp h part P" "sll h cur C" "cmp_sorted cmp C" "distinct (concat P @ C)"
    "\<forall>i < lev. P ! i = []" "lev < length P"
  shows "\<exists>h1 q. adx_list_merge cmp h (part ! lev) cur = Some (h1, q) \<and>
     parts_ok cmp h1 (part[lev := NULL]) (P[lev := []]) \<and> sll h1 q (lmerge cmp (P ! lev) C) \<and>
     cmp_sorted cmp (lmerge cmp (P ! lev) C) \<and>
     stable_perm cmp (concat (rev (P[lev := []])) @ lmerge cmp (P ! lev) C) (concat (rev P) @ C) \<and>
     distinct (concat (P[lev := []]) @ lmerge cmp (P ! lev) C) \<and>
     next_only (set (concat P @ C)) h h1"
proof -
  let ?X = "P ! lev" and ?P = "P[lev := []]"
  have ms: "mset (concat P) = mset ?X + mset (concat ?P)" by (rule concat_update_Nil [OF assms(6)])
  then have "mset (concat P @ C) = mset (?X @ concat ?P @ C)" by simp
  then have dist: "distinct (?X @ concat ?P @ C)"
    using assms(4) mset_eq_imp_distinct_iff by blast
  have st: "set (concat P) = set (?X @ concat ?P)" using ms by (metis mset_append mset_eq_setD)
  from assms(1) have p: "parts h part P" and srt: "cmp_sorted cmp ?X"
    using assms(6) by (auto simp: parts_ok_def)
  have "distinct (?X @ C)" using dist by auto
  from adx_list_merge_sll [OF parts_nth [OF p assms(6)] assms(2) this, of cmp] obtain h1 q where
    m: "adx_list_merge cmp h (part ! lev) cur = Some (h1, q)" "sll h1 q (lmerge cmp ?X C)"
      "next_only (set (?X @ C)) h h1" by blast
  have "parts h (part[lev := NULL]) ?P" by (rule parts_update [OF p]) simp
  then have "parts h1 (part[lev := NULL]) ?P"
    by (rule parts_frame [OF _ m(3)]) (use dist in auto)
  moreover have "\<forall>Y \<in> set ?P. cmp_sorted cmp Y"
    using assms(1) by (auto simp: parts_ok_def cmp_sorted_def dest!: set_update_subset_insert [THEN subsetD])
  moreover have "stable_perm cmp (concat (rev ?P) @ lmerge cmp ?X C) (concat (rev P) @ C)"
    using stable_perm_append [OF stable_perm_refl stable_lmerge [OF srt]]
    by (simp add: concat_rev_update [OF assms(6,5)] concat_rev_nth [OF assms(6,5)])
  moreover have "next_only (set (concat P @ C)) h h1"
    by (rule next_only_trans [OF m(3) next_only_refl [of "{}"]]) (use st in auto)
  ultimately show ?thesis
    using m dist srt assms(3) by (auto simp: parts_ok_def intro: sorted_lmerge)
qed

lemma sort_carry_ok:
  assumes "parts_ok cmp h part P" "sll h cur C" "cmp_sorted cmp C" "C \<noteq> []"
    "distinct (concat P @ C)" "\<forall>i < lev. P ! i = []" "lev \<le> j" "j < length P" "P ! j = []"
  shows "\<exists>h' part' lev' cur' P' C'. sort_carry cmp h part lev cur = Some (h', part', lev', cur') \<and>
     parts_ok cmp h' part' P' \<and> sll h' cur' C' \<and> cmp_sorted cmp C' \<and> C' \<noteq> [] \<and>
     length P' = length P \<and> lev \<le> lev' \<and> lev' \<le> j \<and> (\<forall>i \<le> lev'. P' ! i = []) \<and>
     (\<forall>i. lev' < i \<longrightarrow> P' ! i = P ! i) \<and>
     stable_perm cmp (concat (rev P') @ C') (concat (rev P) @ C) \<and>
     next_only (set (concat P @ C)) h h'"
  using assms
proof (induction "j - lev" arbitrary: lev h part cur P C rule: less_induct)
  case less
  have lev: "lev < length P" using less.prems by simp
  have p: "parts h part P" using less.prems(1) by (simp add: parts_ok_def)
  note nth = sll_Nil_iff [OF parts_nth [OF p lev]]
  show ?case
  proof (cases "P ! lev = []")
    case True
    with nth lev parts_length [OF p]
    have "sort_carry cmp h part lev cur = Some (h, part, lev, cur)"
      by (simp add: sort_carry.simps)
    with less.prems True show ?thesis
      by (intro exI [of _ h] exI [of _ part] exI [of _ lev] exI [of _ cur] exI [of _ P] exI [of _ C])
        (auto simp: le_less)
  next
    case False
    let ?P = "P[lev := []]" and ?C = "lmerge cmp (P ! lev) C"
    from carry_step [OF less.prems(1,2,3,5,6) lev] obtain h1 q where
      c: "adx_list_merge cmp h (part ! lev) cur = Some (h1, q)"
        "parts_ok cmp h1 (part[lev := NULL]) ?P" "sll h1 q ?C" "cmp_sorted cmp ?C"
        "stable_perm cmp (concat (rev ?P) @ ?C) (concat (rev P) @ C)"
        "distinct (concat ?P @ ?C)" "next_only (set (concat P @ C)) h h1" by blast
    have lt: "lev < j" using False less.prems by (metis le_neq_implies_less)
    have "\<forall>i < Suc lev. ?P ! i = []" using less.prems(6) lev by (auto simp: less_Suc_eq nth_list_update)
    moreover have "j - Suc lev < j - lev" "Suc lev \<le> j" "j < length ?P" "?P ! j = []" "?C \<noteq> []"
      using lt less.prems by (auto simp: nth_list_update)
    ultimately obtain h' part' lev' cur' P' C' where
      r: "sort_carry cmp h1 (part[lev := NULL]) (Suc lev) q = Some (h', part', lev', cur')"
        "parts_ok cmp h' part' P'" "sll h' cur' C'" "cmp_sorted cmp C'" "C' \<noteq> []"
        "length P' = length P" "Suc lev \<le> lev'" "lev' \<le> j" "\<forall>i \<le> lev'. P' ! i = []"
        "\<forall>i. lev' < i \<longrightarrow> P' ! i = ?P ! i"
        "stable_perm cmp (concat (rev P') @ C') (concat (rev ?P) @ ?C)"
        "next_only (set (concat ?P @ ?C)) h1 h'"
      using less.hyps [of "Suc lev", OF _ c(2,3,4) _ c(6)] by fastforce
    have eq: "sort_carry cmp h part lev cur = Some (h', part', lev', cur')"
      using r(1) c(1) False nth lev parts_length [OF p]
      by (simp add: sort_carry.simps [of cmp h part lev])
    have st: "set (concat ?P @ ?C) \<subseteq> set (concat P @ C)"
      using stable_perm_set [OF c(5)] by auto
    have "next_only (set (concat P @ C)) h h'"
      by (rule next_only_trans [OF c(7) r(12)]) (use st in blast)
    moreover have "P' ! i = P ! i" if "lev' < i" for i using that r(7,10) by simp
    moreover have "stable_perm cmp (concat (rev P') @ C') (concat (rev P) @ C)"
      by (rule stable_perm_trans [OF r(11) c(5)])
    moreover have "lev \<le> lev'" using r(7) by simp
    ultimately show ?thesis using eq r(2-6,8,9) by blast
  qed
qed

text \<open>One round of the insertion loop.\<close>

lemma sort_insert_step:
  assumes "parts_ok cmp h part P" "sll h x (x # rest)" "distinct (concat P @ x # rest)"
    "part_levels P m"
  obtains nxt h1 h2 part2 lev cur2 lev' m' P3 where
    "get_next h x = Some nxt" "set_next h x NULL = Some h1"
    "sort_carry cmp h1 part 0 x = Some (h2, part2, lev, cur2)"
    "sort_level (length part2) lev m = (lev', m')"
    "parts_ok cmp h2 (part2[lev' := cur2]) P3" "sll h2 nxt rest" "part_levels P3 m'" "P3 ! m' \<noteq> []"
    "stable_perm cmp (concat (rev P3)) (concat (rev P) @ [x])"
    "next_only (set (concat P @ [x])) h h2"
proof -
  from assms(2) obtain nxt where x: "x \<noteq> NULL" "get_next h x = Some nxt" "sll h nxt rest" by auto
  from set_next_next_only [OF x(2), of NULL] obtain h1 where
    h1: "set_next h x NULL = Some h1" "get_next h1 x = Some NULL" "next_only {x} h h1" by blast
  let ?j = "length P - 1"
  have "m < ?j" using assms(4) by (auto simp: part_levels_def)
  then have j: "?j < length P" "P ! ?j = []" using assms(4) by (simp_all add: part_levels_def)
  have p1: "parts_ok cmp h1 part P"
    using assms(1,3) parts_frame [OF _ h1(3)] by (auto simp: parts_ok_def)
  have s1: "sll h1 x [x]" "sll h1 nxt rest"
    using x h1 next_only_sll [OF h1(3) x(3)] assms(3) by auto
  have "cmp_sorted cmp [x]" "[x] \<noteq> []" "distinct (concat P @ [x])" "\<forall>i < 0. P ! i = []" "0 \<le> ?j"
    using assms(3) by (auto simp: cmp_sorted_def)
  from sort_carry_ok [OF p1 s1(1) this j] obtain h2 part2 lev cur2 P2 C2 where
    c: "sort_carry cmp h1 part 0 x = Some (h2, part2, lev, cur2)" "parts_ok cmp h2 part2 P2"
      "sll h2 cur2 C2" "cmp_sorted cmp C2" "C2 \<noteq> []" "length P2 = length P" "lev \<le> ?j"
      "\<forall>i \<le> lev. P2 ! i = []" "\<forall>i. lev < i \<longrightarrow> P2 ! i = P ! i"
      "stable_perm cmp (concat (rev P2) @ C2) (concat (rev P) @ [x])"
      "next_only (set (concat P @ [x])) h1 h2" by blast
  have len: "length part2 = length P" "lev < length P"
    using c(2,6,7) j parts_length [of h2 part2 P2] by (auto simp: parts_ok_def)
  obtain lev' m' where lm: "sort_level (length P) lev m = (lev', m')" by (metis surj_pair)
  note lv = part_levels_store [OF assms(4) c(6) len(2) c(8,9,5) lm]
  have "lev' < length P2" "\<forall>i < lev'. P2 ! i = []" "P2 ! lev' = []"
    using lv(3) len c(6,8) by auto
  then have "stable_perm cmp (concat (rev (P2[lev' := C2]))) (concat (rev P) @ [x])"
    using concat_rev_update [of lev' P2 C2] concat_rev_nth [of lev' P2] c(10) by simp
  moreover have "parts_ok cmp h2 (part2[lev' := cur2]) (P2[lev' := C2])"
    using c(2,3,4) parts_update
    by (auto simp: parts_ok_def dest!: set_update_subset_insert [THEN subsetD])
  moreover have "sll h2 nxt rest"
    by (rule next_only_sll [OF c(11) s1(2)]) (use assms(3) in auto)
  moreover have "next_only (set (concat P @ [x])) h h2"
    by (rule next_only_trans [OF h1(3) c(11)]) auto
  ultimately show thesis using that [OF x(2) h1(1) c(1)] lm len lv(1,2) by auto
qed

lemma sort_insert_ok:
  assumes "parts_ok cmp h part P" "sll h lst rest" "distinct (concat P @ rest)" "part_levels P m"
  shows "\<exists>h' part' m' P'. sort_insert cmp h part m lst = Some (h', part', m') \<and>
     parts_ok cmp h' part' P' \<and> part_levels P' m' \<and>
     (rest \<noteq> [] \<or> P ! m \<noteq> [] \<longrightarrow> P' ! m' \<noteq> []) \<and>
     stable_perm cmp (concat (rev P')) (concat (rev P) @ rest) \<and>
     next_only (set (concat P @ rest)) h h'"
  using assms
proof (induction rest arbitrary: h part P m lst)
  case Nil
  then show ?case by (auto simp: sort_insert.simps [of cmp h] intro!: exI)
next
  case (Cons x rest)
  then have lst: "lst = x" "x \<noteq> NULL" by auto
  obtain nxt h1 h2 part2 lev cur2 lev' m' P3 where
    c: "get_next h x = Some nxt" "set_next h x NULL = Some h1"
      "sort_carry cmp h1 part 0 x = Some (h2, part2, lev, cur2)"
      "sort_level (length part2) lev m = (lev', m')"
      "parts_ok cmp h2 (part2[lev' := cur2]) P3" "sll h2 nxt rest" "part_levels P3 m'"
      "P3 ! m' \<noteq> []" "stable_perm cmp (concat (rev P3)) (concat (rev P) @ [x])"
      "next_only (set (concat P @ [x])) h h2"
    using sort_insert_step [of h part P x rest m] Cons.prems lst by metis
  have sx: "stable_perm cmp (concat (rev P3) @ rest) (concat (rev P) @ x # rest)"
    using stable_perm_append [OF c(9) stable_perm_refl [of cmp rest]] by simp
  have set3: "set (concat P3 @ rest) = set (concat P @ x # rest)"
    using stable_perm_set [OF sx] by auto
  have "mset (concat P3 @ rest) = mset (concat P @ x # rest)"
    using sx unfolding stable_perm_def by (simp add: rev_concat [symmetric] mset_concat flip: rev_map)
  then have d3: "distinct (concat P3 @ rest)"
    using Cons.prems(3) mset_eq_imp_distinct_iff by blast
  from Cons.IH [OF c(5,6) d3 c(7)] obtain h' part' mm P' where
    r: "sort_insert cmp h2 (part2[lev' := cur2]) m' nxt = Some (h', part', mm)"
      "parts_ok cmp h' part' P'" "part_levels P' mm" "P' ! mm \<noteq> []"
      "stable_perm cmp (concat (rev P')) (concat (rev P3) @ rest)"
      "next_only (set (concat P3 @ rest)) h2 h'" using c(8) by blast
  have "sort_insert cmp h part m lst = Some (h', part', mm)"
    using lst c(1-4) r(1) by (simp add: sort_insert.simps [of cmp h])
  moreover have "next_only (set (concat P @ x # rest)) h h'"
    by (rule next_only_trans [OF c(10) r(6)]) (use set3 in auto)
  ultimately show ?case using r(2-4) stable_perm_trans [OF r(5) sx] by blast
qed

text \<open>
  Collecting the levels below \<open>m\<close>: the accumulated chain holds the levels below \<open>i\<close>, which are
  later input than everything above.
\<close>

lemma sort_collect_ok:
  assumes "\<forall>k. i \<le> k \<and> k < m \<longrightarrow> sll h (part ! k) (P ! k) \<and> cmp_sorted cmp (P ! k)"
    "sll h lst L" "cmp_sorted cmp L" "i \<le> m" "m \<le> length P"
    "distinct (concat (drop i (take m P)) @ L)"
  shows "\<exists>h' lst' L'. sort_collect cmp h part [i..<m] lst = Some (h', lst') \<and>
     sll h' lst' L' \<and> cmp_sorted cmp L' \<and>
     stable_perm cmp L' (concat (rev (drop i (take m P))) @ L) \<and>
     next_only (set (concat (drop i (take m P)) @ L)) h h'"
  using assms
proof (induction "m - i" arbitrary: i h lst L)
  case 0
  then show ?case by auto
next
  case (Suc n)
  then have i: "i < m" "i < length P" "n = m - Suc i" by auto
  then have up: "[i..<m] = i # [Suc i..<m]" by (simp add: upt_conv_Cons)
  let ?D = "drop (Suc i) (take m P)" and ?X = "P ! i" and ?L = "lmerge cmp (P ! i) L"
  have dr: "drop i (take m P) = ?X # ?D" using i Suc.prems(5) Cons_nth_drop_Suc [of i "take m P"] by simp
  have X: "sll h (part ! i) ?X" "cmp_sorted cmp ?X" using Suc.prems(1) i by auto
  have "distinct (?X @ L)" using Suc.prems(6) dr by auto
  from adx_list_merge_sll [OF X(1) Suc.prems(2) this, of cmp] obtain h1 q where
    m: "adx_list_merge cmp h (part ! i) lst = Some (h1, q)" "sll h1 q ?L"
      "next_only (set (?X @ L)) h h1" by blast
  have "P ! k \<in> set ?D" if "Suc i \<le> k" "k < m" for k
    using that Suc.prems(5) by (auto simp: in_set_conv_nth intro!: exI [of _ "k - Suc i"])
  then have "set (P ! k) \<inter> set (?X @ L) = {}" if "Suc i \<le> k" "k < m" for k
    using that Suc.prems(6) unfolding dr by fastforce
  then have keep: "\<forall>k. Suc i \<le> k \<and> k < m \<longrightarrow> sll h1 (part ! k) (P ! k) \<and> cmp_sorted cmp (P ! k)"
    using Suc.prems(1) next_only_sll [OF m(3)] by auto
  have "distinct (concat ?D @ ?L)" using Suc.prems(6) dr by auto
  with Suc.hyps(1) [OF i(3) keep m(2) sorted_lmerge [OF X(2) Suc.prems(3)]] i Suc.prems(5)
  obtain h' lst' L' where
    r: "sort_collect cmp h1 part [Suc i..<m] q = Some (h', lst')" "sll h' lst' L'" "cmp_sorted cmp L'"
      "stable_perm cmp L' (concat (rev ?D) @ ?L)" "next_only (set (concat ?D @ ?L)) h1 h'" by auto
  have "stable_perm cmp L' (concat (rev (?X # ?D)) @ L)"
    using stable_perm_trans [OF r(4) stable_perm_append [OF stable_perm_refl stable_lmerge [OF X(2)]]]
    by simp
  moreover have "next_only (set (concat (?X # ?D) @ L)) h h'"
    by (rule next_only_trans [OF m(3) r(5)]) auto
  moreover have "sort_collect cmp h part [i..<m] lst = Some (h', lst')"
  proof (cases "part ! i = NULL")
    case True
    then have "?X = []" using sll_Nil_iff [OF X(1)] by simp
    with m True have "h1 = h" "q = lst"
      by (auto simp: adx_list_merge_def merge_loop.simps [of cmp h])
    with True r(1) show ?thesis by (simp add: up)
  qed (use m(1) r(1) up in simp)
  ultimately show ?case using r(2,3) dr by auto
qed

end

section \<open>The whole sort\<close>

lemma dseg_cut_sll:
  assumes "dseg h p xs q" "xs \<noteq> []" "distinct xs" "NULL \<notin> set xs"
    "get_next h1 (last xs) = Some NULL" "next_only {last xs} h h1"
  shows "sll h1 (hd xs) xs"
  using assms
proof (induction xs arbitrary: p)
  case (Cons x xs)
  show ?case
  proof (cases xs)
    case (Cons y ys)
    with Cons.prems have sl: "sll h1 y xs" using Cons.IH [of x] by simp
    have "get_next h x = Some y" using Cons.prems(1) Cons by (simp add: linked_def)
    moreover have "last xs \<in> set xs" using Cons by simp
    then have "x \<noteq> last (x # xs)" using Cons.prems(3) by auto
    ultimately have "get_next h1 x = Some y"
      using next_only_get_next [OF Cons.prems(6), of x] by simp
    with sl show ?thesis using Cons.prems(4) by simp
  qed (use Cons.prems in simp)
qed simp

text \<open>Cutting the ring behind the last node leaves a null-terminated chain.\<close>

lemma clist_cut:
  assumes "clist h head xs" "NULL \<notin> set xs" "xs \<noteq> []"
  obtains h1 where "get_prev h head = Some (last xs)" "set_next h (last xs) NULL = Some h1"
    "get_next h1 head = Some (hd xs)" "sll h1 (hd xs) xs" "next_only (set xs) h h1"
proof -
  from assms(1) have d: "dseg h head xs head" "head \<notin> set xs" "distinct xs" by (auto simp: clist_def)
  from dseg_last [OF d(1)] dseg_first [OF d(1)] assms(3)
  have prv: "get_prev h head = Some (last xs)" "get_next h (last xs) = Some head"
    "get_next h head = Some (hd xs)" by (auto simp: linked_def)
  from set_next_next_only [OF prv(2), of NULL] obtain h1 where
    h1: "set_next h (last xs) NULL = Some h1" "get_next h1 (last xs) = Some NULL"
      "next_only {last xs} h h1" by blast
  have lx: "last xs \<in> set xs" using assms(3) by simp
  have "next_only (set xs) h h1"
    by (rule next_only_trans [OF h1(3) next_only_refl [of "{}"]]) (use lx in auto)
  moreover from this have "get_next h1 head = Some (hd xs)"
    using next_only_get_next d(2) prv(3) by simp
  moreover have "sll h1 (hd xs) xs"
    by (rule dseg_cut_sll [OF d(1) assms(3) d(3) assms(2) h1(2,3)])
  ultimately show thesis using that prv(1) h1(1) by blast
qed

context cmp_order
begin

lemma sort_chain_ok:
  assumes "sll h lst xs" "xs \<noteq> []" "distinct xs" "2 \<le> n"
  obtains h1 part m h2 lst' A B where
    "sort_insert cmp h (replicate n NULL) 0 lst = Some (h1, part, m)"
    "sort_collect cmp h1 part [0..<m] NULL = Some (h2, lst')"
    "sll h2 (part ! m) A" "sll h2 lst' B" "cmp_sorted cmp A" "cmp_sorted cmp B" "A \<noteq> []"
    "stable_perm cmp (A @ B) xs" "next_only (set xs) h h2"
proof -
  let ?P = "replicate n ([] :: addr list)"
  have "parts_ok cmp h (replicate n NULL) ?P" "part_levels ?P 0" "concat ?P = []"
    using assms(4)
    by (auto simp: parts_ok_def parts_def part_levels_def list_all2_conv_all_nth cmp_sorted_def)
  with sort_insert_ok [of h "replicate n NULL" ?P lst xs 0] assms obtain h1 part m P where
    i: "sort_insert cmp h (replicate n NULL) 0 lst = Some (h1, part, m)" "parts_ok cmp h1 part P"
      "part_levels P m" "P ! m \<noteq> []" "stable_perm cmp (concat (rev P)) xs" "next_only (set xs) h h1"
    by auto
  have m: "m < length P" "\<forall>i. m < i \<and> i < length P \<longrightarrow> P ! i = []"
    using i(3) by (auto simp: part_levels_def)
  have P: "P = take m P @ P ! m # drop (Suc m) P" using m(1) by (rule id_take_nth_drop)
  have "concat (rev (drop (Suc m) P)) = []" using m(2) by (auto simp: in_set_conv_nth)
  moreover have "rev P = rev (drop (Suc m) P) @ P ! m # rev (take m P)"
    by (subst P) simp
  ultimately have cat: "concat (rev P) = P ! m @ concat (rev (take m P))"
    by simp
  have dist: "distinct (P ! m @ concat (rev (take m P)))"
    using stable_perm_distinct [OF i(5)] assms(3) cat by simp
  have st: "set xs = set (P ! m) \<union> set (concat (take m P))"
    using stable_perm_set [OF i(5)] cat by auto
  have nth: "\<forall>k. 0 \<le> k \<and> k < m \<longrightarrow> sll h1 (part ! k) (P ! k) \<and> cmp_sorted cmp (P ! k)"
    using i(2) m parts_nth by (auto simp: parts_ok_def)
  have "mset (concat (take m P)) = mset (concat (rev (take m P)))"
    by (simp add: mset_concat flip: rev_map)
  then have "distinct (concat (drop 0 (take m P)) @ [])"
    using dist mset_eq_imp_distinct_iff by fastforce
  with sort_collect_ok [OF nth, of NULL "[]"] m(1) obtain h2 lst' B where
    c: "sort_collect cmp h1 part [0..<m] NULL = Some (h2, lst')" "sll h2 lst' B" "cmp_sorted cmp B"
      "stable_perm cmp B (concat (rev (take m P)))" "next_only (set (concat (take m P))) h1 h2"
    by (auto simp: cmp_sorted_def)
  have "sll h2 (part ! m) (P ! m)"
    by (rule next_only_sll [OF c(5)]) (use i(2) m(1) parts_nth dist in \<open>auto simp: parts_ok_def\<close>)
  moreover have "cmp_sorted cmp (P ! m)" using i(2) m(1) by (auto simp: parts_ok_def)
  moreover have "stable_perm cmp (P ! m @ B) xs"
    using stable_perm_trans [OF stable_perm_append [OF stable_perm_refl c(4)] i(5) [unfolded cat]] .
  moreover have "next_only (set xs) h h2"
    by (rule next_only_trans [OF i(6) c(5)]) (use st in auto)
  ultimately show thesis using that i(1,4) c(1-3) by blast
qed

lemma sort_ok:
  assumes "clist h head xs" "NULL \<notin> set xs" "2 \<le> psize"
  shows "\<exists>h' ys. adx_list_sort cmp h head psize = Some h' \<and> clist h' head ys \<and>
     cmp_sorted cmp ys \<and> stable_perm cmp ys xs \<and> same_outside (set (head # xs)) h h'"
proof (cases "xs = []")
  case True
  with assms show ?thesis
    by (intro exI [of _ h] exI [of _ "[]"])
      (auto simp: adx_list_sort_def adx_list_empty_clist cmp_sorted_def same_outside_def)
next
  case False
  obtain h1 where h1: "get_prev h head = Some (last xs)" "set_next h (last xs) NULL = Some h1"
    "get_next h1 head = Some (hd xs)" "sll h1 (hd xs) xs" "next_only (set xs) h h1"
    by (rule clist_cut [OF assms(1,2) False])
  have hdn: "head \<notin> set xs" "distinct xs" using assms(1) by (auto simp: clist_def)
  have "2 \<le> nat psize" using assms(3) by simp
  from sort_chain_ok [OF h1(4) False hdn(2) this] obtain h2 part m h3 lst' A B where
    c: "sort_insert cmp h1 (replicate (nat psize) NULL) 0 (hd xs) = Some (h2, part, m)"
      "sort_collect cmp h2 part [0..<m] NULL = Some (h3, lst')"
      "sll h3 (part ! m) A" "sll h3 lst' B" "cmp_sorted cmp A" "cmp_sorted cmp B" "A \<noteq> []"
      "stable_perm cmp (A @ B) xs" "next_only (set xs) h1 h3" by blast
  have st: "set (A @ B) = set xs" "distinct (A @ B)"
    using stable_perm_set [OF c(8)] stable_perm_distinct [OF c(8)] hdn(2) by auto
  have "get_next h3 head = Some (hd xs)" using next_only_get_next [OF c(9)] hdn(1) h1(3) by simp
  then have "h3 head \<noteq> None" using get_not_None(1) [of h3 head] by simp
  then obtain h' where
    r: "restore_loop cmp h3 head head (part ! m) lst' = Some h'" "dseg h' head (lmerge cmp A B) head"
      "relinked (set (head # A @ B)) (set (head # A @ B)) h3 h'"
    using restore_loop_dseg [OF c(3,4) _ st(2), of head head cmp] c(7) st(1) hdn(1) by auto
  have "adx_list_sort cmp h head psize = Some h'"
    using assms(1,3) False h1(1-3) c(1,2) r(1)
    by (simp add: adx_list_sort_def adx_list_empty_clist adx_list_merge_and_restore_back_links_def)
  moreover have "clist h' head (lmerge cmp A B)" using r(2) st hdn(1) by (auto simp: clist_def)
  moreover have "same_outside (set (head # xs)) h h'"
    using h1(5) c(9) r(3) st(1) by (auto simp: same_outside_def next_only_def relinked_def)
  moreover have "stable_perm cmp (lmerge cmp A B) xs"
    by (rule stable_perm_trans [OF stable_lmerge [OF c(5)] c(8)])
  ultimately show ?thesis using sorted_lmerge [OF c(5,6)] by blast
qed

end

text \<open>
  The comparison function the bid lists are sorted with (\<open>adx_element_bid_sort\<close>): the dearer
  node first, and never \<open>0\<close>.  \<open>price\<close> is the number the caller looks up for a node.
\<close>

definition adx_element_bid_sort :: "(addr \<Rightarrow> int) \<Rightarrow> cmp_fun" where
  "adx_element_bid_sort price a b = (if price a < price b then 1 else -1)"

interpretation bid_sort: cmp_order "adx_element_bid_sort price"
  by unfold_locales (auto simp: adx_element_bid_sort_def split: if_splits)

section \<open>Properties\<close>

text \<open>
  C1. \<open>adx_list_sort\<close> with any comparison function whose sign is a total preorder, on a well-formed
  ring of non-null nodes and with a partition array of at least two slots: it terminates without
  dereferencing a null or dangling pointer and without leaving the array, the result is again a
  well-formed ring under the same head, its nodes are in ascending order, they are a stable
  permutation of the input (equal nodes keep their order), and no other memory is written.
\<close>

theorem adx_list_sort_stable:
  assumes "cmp_order cmp" "clist h head xs" "NULL \<notin> set xs" "2 \<le> psize"
  shows "\<exists>h' ys. adx_list_sort cmp h head psize = Some h' \<and> clist h' head ys \<and>
     cmp_sorted cmp ys \<and> stable_perm cmp ys xs \<and> same_outside (set (head # xs)) h h'"
  by (rule cmp_order.sort_ok [OF assms])

text \<open>A ring of four nodes behind the head at \<open>8\<close>.\<close>

definition ring4 :: list_heap where
  "ring4 = [8 \<mapsto> \<lparr>lnext = 16, lprev = 64\<rparr>, 16 \<mapsto> \<lparr>lnext = 32, lprev = 8\<rparr>,
     32 \<mapsto> \<lparr>lnext = 48, lprev = 16\<rparr>, 48 \<mapsto> \<lparr>lnext = 64, lprev = 32\<rparr>,
     64 \<mapsto> \<lparr>lnext = 8, lprev = 48\<rparr>]"

lemma clist_ring4: "clist ring4 8 [16, 32, 48, 64]"
  by (simp add: clist_def linked_def get_next_def get_prev_def ring4_def)

theorem adx_list_sort_stable_witness:
  "\<exists>h' ys. adx_list_sort (adx_element_bid_sort (\<lambda>p. uint p mod 48)) ring4 8 40960 = Some h' \<and>
     clist h' 8 ys \<and> cmp_sorted (adx_element_bid_sort (\<lambda>p. uint p mod 48)) ys \<and>
     stable_perm (adx_element_bid_sort (\<lambda>p. uint p mod 48)) ys [16, 32, 48, 64] \<and>
     same_outside (set [8, 16, 32, 48, 64]) ring4 h'"
  by (rule adx_list_sort_stable [OF bid_sort.cmp_order_axioms clist_ring4]) simp_all

text \<open>
  The bid list of the exchange, sorted with \<open>adx_element_bid_sort\<close>: after the sort no node is
  followed by a dearer one, and the set of nodes is unchanged.
\<close>

theorem bid_list_descending:
  assumes "clist h head xs" "NULL \<notin> set xs" "2 \<le> psize"
  shows "\<exists>h' ys. adx_list_sort (adx_element_bid_sort price) h head psize = Some h' \<and>
     adx_list_for_each h' head = Some ys \<and> mset ys = mset xs \<and>
     sorted_wrt (\<lambda>a b. price b \<le> price a) ys"
proof -
  obtain h' ys where r: "adx_list_sort (adx_element_bid_sort price) h head psize = Some h'"
    "clist h' head ys" "cmp_sorted (adx_element_bid_sort price) ys"
    "stable_perm (adx_element_bid_sort price) ys xs"
    using bid_sort.sort_ok [OF assms] by blast
  have "sorted_wrt (\<lambda>a b. price b \<le> price a) ys"
    by (rule sorted_wrt_mono_rel [OF _ r(3) [unfolded cmp_sorted_def]])
      (simp add: adx_element_bid_sort_def split: if_splits)
  with r show ?thesis using adx_list_for_each_clist [OF r(2)] by (simp add: stable_perm_def)
qed

theorem bid_list_descending_witness:
  "\<exists>h' ys. adx_list_sort (adx_element_bid_sort (\<lambda>p. uint p mod 48)) ring4 8 40960 = Some h' \<and>
     adx_list_for_each h' 8 = Some ys \<and> mset ys = {#16, 32, 48, 64#} \<and>
     sorted_wrt (\<lambda>a b. uint b mod 48 \<le> uint a mod 48) ys"
  using bid_list_descending [OF clist_ring4, of 40960 "\<lambda>p. uint p mod 48"] by simp

end
