(* ===== verification/Adx_Rbtree.thy ===== *)
theory Adx_Rbtree
  imports Adx_Prelude
begin

text \<open>
  The intrusive red-black tree of \<^verbatim>\<open>adx_rbtree.h\<close> and \<^verbatim>\<open>adx_rbtree.c\<close> at pointer level.  A node
  packs the address of its parent and its colour into one 64-bit word, as the code does; the
  macros \<open>rb_parent\<close>, \<open>rb_color\<close>, \<open>rb_set_red\<close> and \<open>rb_set_black\<close> are bit operations on it.
  The first section is the code, function by function and branch by branch.  The rest is the
  machinery the correctness proofs share: the tree a heap represents, contexts (a tree with a
  hole) with their plugging, and for each primitive (a read, a colour write, a rotation) what
  it does to the represented tree.  The two mirrored halves of the code are treated once, with
  a direction as parameter.
\<close>

section \<open>Model\<close>

text \<open>
  The union of a node is a number or a pointer to a string; \<open>None\<close> is the null string pointer.
\<close>

datatype rb_union = Number "32 word" | String "string option"

record adx_rbtree_node =
  rb_parent_color :: "64 word"
  rb_right :: addr
  rb_left :: addr
  rb_union :: rb_union

text \<open>The nodes in memory, and the \<open>rb_node\<close> field of the one \<open>adx_rbtree_head\<close> worked on.\<close>

record rb_state =
  rb_nodes :: "addr \<rightharpoonup> adx_rbtree_node"
  rb_node :: addr

definition rb_read :: "(adx_rbtree_node \<Rightarrow> 'a) \<Rightarrow> rb_state \<Rightarrow> addr \<Rightarrow> 'a option" where
  "rb_read f s p = map_option f (rb_nodes s p)"

definition rb_write ::
    "(adx_rbtree_node \<Rightarrow> adx_rbtree_node) \<Rightarrow> rb_state \<Rightarrow> addr \<Rightarrow> rb_state option" where
  "rb_write f s p =
     (case rb_nodes s p of None \<Rightarrow> None | Some n \<Rightarrow> Some (s\<lparr>rb_nodes := (rb_nodes s)(p \<mapsto> f n)\<rparr>))"

abbreviation get_left :: "rb_state \<Rightarrow> addr \<Rightarrow> addr option" where
  "get_left \<equiv> rb_read rb_left"

abbreviation get_right :: "rb_state \<Rightarrow> addr \<Rightarrow> addr option" where
  "get_right \<equiv> rb_read rb_right"

abbreviation set_left :: "rb_state \<Rightarrow> addr \<Rightarrow> addr \<Rightarrow> rb_state option" where
  "set_left s p v \<equiv> rb_write (\<lambda>n. n\<lparr>rb_left := v\<rparr>) s p"

abbreviation set_right :: "rb_state \<Rightarrow> addr \<Rightarrow> addr \<Rightarrow> rb_state option" where
  "set_right s p v \<equiv> rb_write (\<lambda>n. n\<lparr>rb_right := v\<rparr>) s p"

definition rb_parent :: "rb_state \<Rightarrow> addr \<Rightarrow> addr option" where
  "rb_parent s r = rb_read (\<lambda>n. rb_parent_color n AND NOT 3) s r"

definition rb_color :: "rb_state \<Rightarrow> addr \<Rightarrow> 64 word option" where
  "rb_color s r = rb_read (\<lambda>n. rb_parent_color n AND 1) s r"

definition rb_is_red :: "rb_state \<Rightarrow> addr \<Rightarrow> bool option" where
  "rb_is_red s r = do { c \<leftarrow> rb_color s r; Some (c = 0) }"

definition rb_is_black :: "rb_state \<Rightarrow> addr \<Rightarrow> bool option" where
  "rb_is_black s r = do { c \<leftarrow> rb_color s r; Some (c \<noteq> 0) }"

definition rb_set_red :: "rb_state \<Rightarrow> addr \<Rightarrow> rb_state option" where
  "rb_set_red = rb_write (\<lambda>n. n\<lparr>rb_parent_color := rb_parent_color n AND NOT 1\<rparr>)"

definition rb_set_black :: "rb_state \<Rightarrow> addr \<Rightarrow> rb_state option" where
  "rb_set_black = rb_write (\<lambda>n. n\<lparr>rb_parent_color := rb_parent_color n OR 1\<rparr>)"

definition adx_rbtree_set_parent :: "rb_state \<Rightarrow> addr \<Rightarrow> addr \<Rightarrow> rb_state option" where
  "adx_rbtree_set_parent s rb p =
     rb_write (\<lambda>n. n\<lparr>rb_parent_color := (rb_parent_color n AND 3) OR p\<rparr>) s rb"

definition adx_rbtree_set_color :: "rb_state \<Rightarrow> addr \<Rightarrow> 64 word \<Rightarrow> rb_state option" where
  "adx_rbtree_set_color s rb color =
     rb_write (\<lambda>n. n\<lparr>rb_parent_color := (rb_parent_color n AND NOT 1) OR color\<rparr>) s rb"

text \<open>The \<open>adx_rbtree_node **\<close> pointers of the code: the head's field or a child field.\<close>

datatype rb_link = RootLink | LeftLink addr | RightLink addr

fun read_link :: "rb_state \<Rightarrow> rb_link \<Rightarrow> addr option" where
  "read_link s RootLink = Some (rb_node s)"
| "read_link s (LeftLink p) = get_left s p"
| "read_link s (RightLink p) = get_right s p"

fun write_link :: "rb_state \<Rightarrow> rb_link \<Rightarrow> addr \<Rightarrow> rb_state option" where
  "write_link s RootLink v = Some (s\<lparr>rb_node := v\<rparr>)"
| "write_link s (LeftLink p) v = set_left s p v"
| "write_link s (RightLink p) v = set_right s p v"

definition adx_rbtree_link_node :: "rb_state \<Rightarrow> addr \<Rightarrow> addr \<Rightarrow> rb_link \<Rightarrow> rb_state option" where
  "adx_rbtree_link_node s node parent rb_link = do {
     s \<leftarrow> rb_write (\<lambda>n. n\<lparr>rb_parent_color := parent\<rparr>) s node;
     s \<leftarrow> set_right s node NULL;
     s \<leftarrow> set_left s node NULL;
     write_link s rb_link node }"

definition adx_rbtree_rotate_left :: "rb_state \<Rightarrow> addr \<Rightarrow> rb_state option" where
  "adx_rbtree_rotate_left s node = do {
     right \<leftarrow> get_right s node;
     parent \<leftarrow> rb_parent s node;
     rl \<leftarrow> get_left s right;
     s \<leftarrow> set_right s node rl;
     s \<leftarrow> (if rl \<noteq> NULL then adx_rbtree_set_parent s rl node else Some s);
     s \<leftarrow> set_left s right node;
     s \<leftarrow> adx_rbtree_set_parent s right parent;
     s \<leftarrow> (if parent \<noteq> NULL then do {
         pl \<leftarrow> get_left s parent;
         if node = pl then set_left s parent right else set_right s parent right }
       else Some (s\<lparr>rb_node := right\<rparr>));
     adx_rbtree_set_parent s node right }"

definition adx_rbtree_rotate_right :: "rb_state \<Rightarrow> addr \<Rightarrow> rb_state option" where
  "adx_rbtree_rotate_right s node = do {
     left \<leftarrow> get_left s node;
     parent \<leftarrow> rb_parent s node;
     lr \<leftarrow> get_right s left;
     s \<leftarrow> set_left s node lr;
     s \<leftarrow> (if lr \<noteq> NULL then adx_rbtree_set_parent s lr node else Some s);
     s \<leftarrow> set_right s left node;
     s \<leftarrow> adx_rbtree_set_parent s left parent;
     s \<leftarrow> (if parent \<noteq> NULL then do {
         pr \<leftarrow> get_right s parent;
         if node = pr then set_right s parent left else set_left s parent left }
       else Some (s\<lparr>rb_node := left\<rparr>));
     adx_rbtree_set_parent s node left }"

text \<open>The conditions \<^verbatim>\<open>p && rb_is_red(p)\<close> and \<^verbatim>\<open>!p || rb_is_black(p)\<close>.\<close>

definition nonnull_red :: "rb_state \<Rightarrow> addr \<Rightarrow> bool option" where
  "nonnull_red s p = (if p \<noteq> NULL then rb_is_red s p else Some False)"

definition null_or_black :: "rb_state \<Rightarrow> addr \<Rightarrow> bool option" where
  "null_or_black s p = (if p = NULL then Some True else rb_is_black s p)"

partial_function (option) insert_color_loop :: "rb_state \<Rightarrow> addr \<Rightarrow> rb_state option" where
  "insert_color_loop s node = do {
     parent \<leftarrow> rb_parent s node;
     go \<leftarrow> nonnull_red s parent;
     if go then do {
       gparent \<leftarrow> rb_parent s parent;
       gl \<leftarrow> get_left s gparent;
       if parent = gl then do {
         uncle \<leftarrow> get_right s gparent;
         ured \<leftarrow> nonnull_red s uncle;
         if ured then do {
           s \<leftarrow> rb_set_black s uncle;
           s \<leftarrow> rb_set_black s parent;
           s \<leftarrow> rb_set_red s gparent;
           insert_color_loop s gparent }
         else do {
           pr \<leftarrow> get_right s parent;
           (s, parent, node) \<leftarrow> (if pr = node then do {
               s \<leftarrow> adx_rbtree_rotate_left s parent;
               Some (s, node, parent) }
             else Some (s, parent, node));
           s \<leftarrow> rb_set_black s parent;
           s \<leftarrow> rb_set_red s gparent;
           s \<leftarrow> adx_rbtree_rotate_right s gparent;
           insert_color_loop s node } }
       else do {
         uncle \<leftarrow> get_left s gparent;
         ured \<leftarrow> nonnull_red s uncle;
         if ured then do {
           s \<leftarrow> rb_set_black s uncle;
           s \<leftarrow> rb_set_black s parent;
           s \<leftarrow> rb_set_red s gparent;
           insert_color_loop s gparent }
         else do {
           pl \<leftarrow> get_left s parent;
           (s, parent, node) \<leftarrow> (if pl = node then do {
               s \<leftarrow> adx_rbtree_rotate_right s parent;
               Some (s, node, parent) }
             else Some (s, parent, node));
           s \<leftarrow> rb_set_black s parent;
           s \<leftarrow> rb_set_red s gparent;
           s \<leftarrow> adx_rbtree_rotate_left s gparent;
           insert_color_loop s node } } }
     else Some s }"

definition adx_rbtree_insert_color :: "rb_state \<Rightarrow> addr \<Rightarrow> rb_state option" where
  "adx_rbtree_insert_color s node = do {
     s \<leftarrow> insert_color_loop s node;
     rb_set_black s (rb_node s) }"

text \<open>The loop of \<open>adx_rbtree_delete_color\<close> returns the \<open>node\<close> it leaves with.\<close>

partial_function (option) delete_color_loop ::
    "rb_state \<Rightarrow> addr \<Rightarrow> addr \<Rightarrow> (rb_state \<times> addr) option" where
  "delete_color_loop s node parent = do {
     nb \<leftarrow> null_or_black s node;
     if nb \<and> node \<noteq> rb_node s then do {
       pl \<leftarrow> get_left s parent;
       if pl = node then do {
         other \<leftarrow> get_right s parent;
         ored \<leftarrow> rb_is_red s other;
         (s, other) \<leftarrow> (if ored then do {
             s \<leftarrow> rb_set_black s other;
             s \<leftarrow> rb_set_red s parent;
             s \<leftarrow> adx_rbtree_rotate_left s parent;
             other \<leftarrow> get_right s parent;
             Some (s, other) }
           else Some (s, other));
         ol \<leftarrow> get_left s other;
         or \<leftarrow> get_right s other;
         lb \<leftarrow> null_or_black s ol;
         rb \<leftarrow> null_or_black s or;
         if lb \<and> rb then do {
           s \<leftarrow> rb_set_red s other;
           pp \<leftarrow> rb_parent s parent;
           delete_color_loop s parent pp }
         else do {
           (s, other) \<leftarrow> (if rb then do {
               s \<leftarrow> rb_set_black s ol;
               s \<leftarrow> rb_set_red s other;
               s \<leftarrow> adx_rbtree_rotate_right s other;
               other \<leftarrow> get_right s parent;
               Some (s, other) }
             else Some (s, other));
           c \<leftarrow> rb_color s parent;
           s \<leftarrow> adx_rbtree_set_color s other c;
           s \<leftarrow> rb_set_black s parent;
           or \<leftarrow> get_right s other;
           s \<leftarrow> rb_set_black s or;
           s \<leftarrow> adx_rbtree_rotate_left s parent;
           Some (s, rb_node s) } }
       else do {
         other \<leftarrow> get_left s parent;
         ored \<leftarrow> rb_is_red s other;
         (s, other) \<leftarrow> (if ored then do {
             s \<leftarrow> rb_set_black s other;
             s \<leftarrow> rb_set_red s parent;
             s \<leftarrow> adx_rbtree_rotate_right s parent;
             other \<leftarrow> get_left s parent;
             Some (s, other) }
           else Some (s, other));
         ol \<leftarrow> get_left s other;
         or \<leftarrow> get_right s other;
         lb \<leftarrow> null_or_black s ol;
         rb \<leftarrow> null_or_black s or;
         if lb \<and> rb then do {
           s \<leftarrow> rb_set_red s other;
           pp \<leftarrow> rb_parent s parent;
           delete_color_loop s parent pp }
         else do {
           (s, other) \<leftarrow> (if lb then do {
               s \<leftarrow> rb_set_black s or;
               s \<leftarrow> rb_set_red s other;
               s \<leftarrow> adx_rbtree_rotate_left s other;
               other \<leftarrow> get_left s parent;
               Some (s, other) }
             else Some (s, other));
           c \<leftarrow> rb_color s parent;
           s \<leftarrow> adx_rbtree_set_color s other c;
           s \<leftarrow> rb_set_black s parent;
           ol \<leftarrow> get_left s other;
           s \<leftarrow> rb_set_black s ol;
           s \<leftarrow> adx_rbtree_rotate_right s parent;
           Some (s, rb_node s) } } }
     else Some (s, node) }"

definition adx_rbtree_delete_color :: "rb_state \<Rightarrow> addr \<Rightarrow> addr \<Rightarrow> rb_state option" where
  "adx_rbtree_delete_color s node parent = do {
     (s, node) \<leftarrow> delete_color_loop s node parent;
     if node \<noteq> NULL then rb_set_black s node else Some s }"

text \<open>The inner loop of \<open>adx_rbtree_delete\<close>: the leftmost node below \<open>node\<close>.\<close>

partial_function (option) leftmost :: "rb_state \<Rightarrow> addr \<Rightarrow> addr option" where
  "leftmost s node = do {
     left \<leftarrow> get_left s node;
     if left \<noteq> NULL then leftmost s left else Some node }"

definition replace_child :: "rb_state \<Rightarrow> addr \<Rightarrow> addr \<Rightarrow> addr \<Rightarrow> rb_state option" where
  "replace_child s parent old new =
     (if parent \<noteq> NULL then do {
        pl \<leftarrow> get_left s parent;
        if pl = old then set_left s parent new else set_right s parent new }
      else Some (s\<lparr>rb_node := new\<rparr>))"

definition delete_both :: "rb_state \<Rightarrow> addr \<Rightarrow> rb_state option" where
  "delete_both s old = do {
     node \<leftarrow> get_right s old;
     node \<leftarrow> leftmost s node;
     op \<leftarrow> rb_parent s old;
     s \<leftarrow> replace_child s op old node;
     child \<leftarrow> get_right s node;
     parent \<leftarrow> rb_parent s node;
     color \<leftarrow> rb_color s node;
     (s, parent) \<leftarrow> (if parent = old then Some (s, node)
       else do {
         s \<leftarrow> (if child \<noteq> NULL then adx_rbtree_set_parent s child parent else Some s);
         s \<leftarrow> set_left s parent child;
         r \<leftarrow> get_right s old;
         s \<leftarrow> set_right s node r;
         s \<leftarrow> adx_rbtree_set_parent s r node;
         Some (s, parent) });
     pc \<leftarrow> rb_read rb_parent_color s old;
     s \<leftarrow> rb_write (\<lambda>n. n\<lparr>rb_parent_color := pc\<rparr>) s node;
     l \<leftarrow> get_left s old;
     s \<leftarrow> set_left s node l;
     s \<leftarrow> adx_rbtree_set_parent s l node;
     if color = 1 then adx_rbtree_delete_color s child parent else Some s }"

definition adx_rbtree_delete :: "rb_state \<Rightarrow> addr \<Rightarrow> rb_state option" where
  "adx_rbtree_delete s node = do {
     left \<leftarrow> get_left s node;
     right \<leftarrow> get_right s node;
     if left \<noteq> NULL \<and> right \<noteq> NULL then delete_both s node
     else do {
       let child = (if left = NULL then right else left);
       parent \<leftarrow> rb_parent s node;
       color \<leftarrow> rb_color s node;
       s \<leftarrow> (if child \<noteq> NULL then adx_rbtree_set_parent s child parent else Some s);
       s \<leftarrow> replace_child s parent node child;
       if color = 1 then adx_rbtree_delete_color s child parent else Some s } }"

text \<open>
  Searching and adding by key.  The \<open>..._descend\<close> loops return \<open>Some None\<close> where the code returns
  \<open>NULL\<close> from inside the loop, and otherwise the link to write and the last node visited.  The
  result of an add is the state and the pointer the C function returns.
\<close>

fun string_of :: "rb_union \<Rightarrow> string option option" where
  "string_of (String p) = Some p"
| "string_of (Number n) = None"

fun number_of :: "rb_union \<Rightarrow> 32 word option" where
  "number_of (Number n) = Some n"
| "number_of (String p) = None"

definition get_string :: "rb_state \<Rightarrow> addr \<Rightarrow> string option option" where
  "get_string s p = do { u \<leftarrow> rb_read rb_union s p; string_of u }"

definition get_number :: "rb_state \<Rightarrow> addr \<Rightarrow> 32 word option" where
  "get_number s p = do { u \<leftarrow> rb_read rb_union s p; number_of u }"

partial_function (option) string_descend ::
    "rb_state \<Rightarrow> string \<Rightarrow> rb_link \<Rightarrow> addr \<Rightarrow> (rb_link \<times> addr) option option" where
  "string_descend s key p parent = do {
     node \<leftarrow> read_link s p;
     if node \<noteq> NULL then do {
       str \<leftarrow> get_string s node;
       case str of None \<Rightarrow> Some None
       | Some t \<Rightarrow>
         let retval = strcmp key t in
         if retval < 0 then string_descend s key (LeftLink node) node
         else if retval > 0 then string_descend s key (RightLink node) node
         else Some None }
     else Some (Some (p, parent)) }"

definition adx_rbtree_string_add :: "rb_state \<Rightarrow> addr \<Rightarrow> (rb_state \<times> addr) option" where
  "adx_rbtree_string_add s new_node = do {
     str \<leftarrow> get_string s new_node;
     case str of None \<Rightarrow> Some (s, NULL)
     | Some key \<Rightarrow> do {
         res \<leftarrow> string_descend s key RootLink NULL;
         case res of None \<Rightarrow> Some (s, NULL)
         | Some (p, parent) \<Rightarrow> do {
             s \<leftarrow> adx_rbtree_link_node s new_node parent p;
             s \<leftarrow> adx_rbtree_insert_color s new_node;
             Some (s, parent) } } }"

partial_function (option) string_find_loop :: "rb_state \<Rightarrow> string \<Rightarrow> addr \<Rightarrow> addr option" where
  "string_find_loop s key p =
     (if p \<noteq> NULL then do {
        str \<leftarrow> get_string s p;
        case str of None \<Rightarrow> Some NULL
        | Some t \<Rightarrow>
          let retval = strcmp key t in
          if retval < 0 then do { l \<leftarrow> get_left s p; string_find_loop s key l }
          else if retval > 0 then do { r \<leftarrow> get_right s p; string_find_loop s key r }
          else Some p }
      else Some NULL)"

definition adx_rbtree_string_find :: "rb_state \<Rightarrow> string option \<Rightarrow> addr option" where
  "adx_rbtree_string_find s key =
     (case key of None \<Rightarrow> Some NULL | Some k \<Rightarrow> string_find_loop s k (rb_node s))"

partial_function (option) number_descend ::
    "rb_state \<Rightarrow> 32 word \<Rightarrow> rb_link \<Rightarrow> addr \<Rightarrow> (rb_link \<times> addr) option option" where
  "number_descend s key p parent = do {
     node \<leftarrow> read_link s p;
     if node \<noteq> NULL then do {
       n \<leftarrow> get_number s node;
       if sint key < sint n then number_descend s key (LeftLink node) node
       else if sint key > sint n then number_descend s key (RightLink node) node
       else Some None }
     else Some (Some (p, parent)) }"

definition adx_rbtree_number_add :: "rb_state \<Rightarrow> addr \<Rightarrow> (rb_state \<times> addr) option" where
  "adx_rbtree_number_add s new_node = do {
     key \<leftarrow> get_number s new_node;
     res \<leftarrow> number_descend s key RootLink NULL;
     case res of None \<Rightarrow> Some (s, NULL)
     | Some (p, parent) \<Rightarrow> do {
         s \<leftarrow> adx_rbtree_link_node s new_node parent p;
         s \<leftarrow> adx_rbtree_insert_color s new_node;
         Some (s, parent) } }"

partial_function (option) number_find_loop :: "rb_state \<Rightarrow> 32 word \<Rightarrow> addr \<Rightarrow> addr option" where
  "number_find_loop s key p =
     (if p \<noteq> NULL then do {
        n \<leftarrow> get_number s p;
        if sint key < sint n then do { l \<leftarrow> get_left s p; number_find_loop s key l }
        else if sint key > sint n then do { r \<leftarrow> get_right s p; number_find_loop s key r }
        else Some p }
      else Some NULL)"

definition adx_rbtree_number_find :: "rb_state \<Rightarrow> 32 word \<Rightarrow> addr option" where
  "adx_rbtree_number_find s key = number_find_loop s key (rb_node s)"

section \<open>The parent and colour word\<close>

definition pack :: "addr \<Rightarrow> bool \<Rightarrow> 64 word" where
  "pack p c = p OR (if c then 1 else 0)"

lemma bit_3_word: "bit (3 :: 64 word) n \<longleftrightarrow> n = 0 \<or> n = 1"
proof -
  have "bit (3 :: 64 word) n = bit (mask 2 :: 64 word) n" by (simp add: mask_eq_exp_minus_1)
  then show ?thesis unfolding bit_mask_iff by auto
qed

lemma aligned4_iff: "aligned4 p \<longleftrightarrow> \<not> bit p 0 \<and> \<not> bit p 1"
  unfolding aligned4_def bit_eq_iff [of "p AND 3" 0] bit_and_iff bit_3_word bit_0_eq
  by (auto intro: gr0I dest: spec [of _ 0] spec [of _ "Suc 0"])

lemma aligned4_bit: "aligned4 p \<Longrightarrow> bit p n \<Longrightarrow> n \<noteq> 0 \<and> n \<noteq> 1"
  by (auto simp: aligned4_iff intro: gr0I)

lemmas pack_bits = pack_def bit_and_iff bit_or_iff bit_not_iff bit_3_word bit_1_iff

lemma aligned4_NULL [simp]: "aligned4 NULL"
  by (simp add: aligned4_def)

lemma pack_parent: "aligned4 p \<Longrightarrow> pack p c AND NOT 3 = p"
  by (rule bit_word_eqI) (unfold pack_bits, auto simp: bit_1_iff dest: aligned4_bit)

lemma pack_color [simp]: "aligned4 p \<Longrightarrow> pack p c AND 1 = (if c then 1 else 0)"
  by (rule bit_word_eqI) (unfold pack_bits, auto simp: bit_1_iff dest: aligned4_bit)

lemma pack_set_parent [simp]: "aligned4 p \<Longrightarrow> aligned4 q \<Longrightarrow> (pack p c AND 3) OR q = pack q c"
  by (rule bit_word_eqI) (unfold pack_bits, auto simp: bit_1_iff dest: aligned4_bit)

lemma pack_set_black [simp]: "pack p c OR 1 = pack p True"
  by (rule bit_word_eqI) (unfold pack_bits, auto simp: bit_1_iff)

lemma pack_set_red: "aligned4 p \<Longrightarrow> pack p c AND NOT 1 = pack p False"
  by (rule bit_word_eqI) (unfold pack_bits, auto simp: bit_1_iff dest: aligned4_bit)

lemma pack_set_color: "aligned4 p \<Longrightarrow> (pack p c AND NOT 1) OR (if c' then 1 else 0) = pack p c'"
  by (simp only: pack_set_red) (simp add: pack_def)

text \<open>The simplifier evaluates \<open>NOT 3\<close> and \<open>NOT 1\<close> first.\<close>

lemmas pack_simps [simp] =
  pack_parent pack_parent [simplified] pack_set_red pack_set_red [simplified]
  pack_set_color pack_set_color [simplified]

lemma pack_link: "pack p False = p"
  by (simp add: pack_def)

section \<open>Trees of addresses and contexts\<close>

text \<open>\<open>True\<close> is black.  \<open>mk L\<close> builds a node, \<open>mk R\<close> its mirror image.\<close>

datatype rbt = RL | RN bool rbt addr rbt

datatype dir = L | R

fun opp :: "dir \<Rightarrow> dir" where
  "opp L = R"
| "opp R = L"

lemma opp_opp [simp]: "opp (opp d) = d"
  by (cases d) auto

fun mk :: "dir \<Rightarrow> bool \<Rightarrow> rbt \<Rightarrow> addr \<Rightarrow> rbt \<Rightarrow> rbt" where
  "mk L c x a y = RN c x a y"
| "mk R c x a y = RN c y a x"

lemma mk_opp: "mk (opp d) c x a y = mk d c y a x"
  by (cases d) auto

fun ptr :: "rbt \<Rightarrow> addr" where
  "ptr RL = NULL"
| "ptr (RN c l a r) = a"

lemma ptr_mk [simp]: "ptr (mk d c x a y) = a"
  by (cases d) auto

fun red :: "rbt \<Rightarrow> bool" where
  "red (RN c l a r) = (\<not> c)"
| "red RL = False"

lemma red_mk [simp]: "red (mk d c x a y) = (\<not> c)"
  by (cases d) auto

fun blacken :: "rbt \<Rightarrow> rbt" where
  "blacken (RN c l a r) = RN True l a r"
| "blacken RL = RL"

lemma blacken_mk [simp]: "blacken (mk d c x a y) = mk d True x a y"
  by (cases d) auto

fun inorder :: "rbt \<Rightarrow> addr list" where
  "inorder RL = []"
| "inorder (RN c l a r) = inorder l @ a # inorder r"

lemma inorder_mk:
  "inorder (mk d c x a y) = (if d = L then inorder x @ a # inorder y else inorder y @ a # inorder x)"
  by (cases d) auto

lemma inorder_blacken [simp]: "inorder (blacken t) = inorder t"
  by (cases t) auto

text \<open>
  A context is the path from a hole up to the root: the side the hole is on, the colour and the
  address of the parent, and the sibling.
\<close>

type_synonym ctx = "(dir \<times> bool \<times> addr \<times> rbt) list"

fun plug :: "ctx \<Rightarrow> rbt \<Rightarrow> rbt" where
  "plug [] t = t"
| "plug ((d, c, a, x) # C) t = plug C (mk d c t a x)"

fun cpar :: "ctx \<Rightarrow> addr" where
  "cpar [] = NULL"
| "cpar ((d, c, a, x) # C) = a"

fun before :: "ctx \<Rightarrow> addr list" where
  "before [] = []"
| "before ((d, c, a, x) # C) = before C @ (if d = L then [] else inorder x @ [a])"

fun after :: "ctx \<Rightarrow> addr list" where
  "after [] = []"
| "after ((d, c, a, x) # C) = (if d = L then a # inorder x else []) @ after C"

lemma inorder_plug: "inorder (plug C t) = before C @ inorder t @ after C"
  by (induction C t rule: plug.induct) (auto simp: inorder_mk)

abbreviation caddrs :: "ctx \<Rightarrow> addr set" where
  "caddrs C \<equiv> set (before C) \<union> set (after C)"

lemma plug_append: "plug (C @ D) t = plug D (plug C t)"
  by (induction C t rule: plug.induct) auto

section \<open>The tree a heap represents\<close>

definition cell :: "rb_state \<Rightarrow> addr \<Rightarrow> addr \<Rightarrow> bool \<Rightarrow> addr \<Rightarrow> addr \<Rightarrow> bool" where
  "cell s a par c l r \<longleftrightarrow> a \<noteq> NULL \<and> aligned4 a \<and> (\<exists>n. rb_nodes s a = Some n \<and>
     rb_parent_color n = pack par c \<and> rb_left n = l \<and> rb_right n = r)"

fun repr :: "rb_state \<Rightarrow> addr \<Rightarrow> rbt \<Rightarrow> bool" where
  "repr s par RL = True"
| "repr s par (RN c l a r) \<longleftrightarrow> cell s a par c (ptr l) (ptr r) \<and> repr s a l \<and> repr s a r"

definition dcell :: "dir \<Rightarrow> rb_state \<Rightarrow> addr \<Rightarrow> addr \<Rightarrow> bool \<Rightarrow> addr \<Rightarrow> addr \<Rightarrow> bool" where
  "dcell d s a par c x y = (if d = L then cell s a par c x y else cell s a par c y x)"

lemma repr_mk [simp]:
  "repr s par (mk d c x a y) \<longleftrightarrow> dcell d s a par c (ptr x) (ptr y) \<and> repr s a x \<and> repr s a y"
  by (cases d) (auto simp: dcell_def)

fun crepr :: "rb_state \<Rightarrow> ctx \<Rightarrow> addr \<Rightarrow> bool" where
  "crepr s [] p \<longleftrightarrow> rb_node s = p"
| "crepr s ((d, c, a, x) # C) p \<longleftrightarrow> dcell d s a (cpar C) c p (ptr x) \<and> repr s a x \<and> crepr s C a"

definition rb_repr :: "rb_state \<Rightarrow> rbt \<Rightarrow> bool" where
  "rb_repr s T \<longleftrightarrow> repr s NULL T \<and> rb_node s = ptr T \<and> distinct (inorder T)"

lemma repr_plug:
  "repr s NULL (plug C t) \<and> rb_node s = ptr (plug C t) \<longleftrightarrow> crepr s C (ptr t) \<and> repr s (cpar C) t"
  by (induction C t rule: plug.induct) auto

lemma rb_repr_plug:
  "rb_repr s (plug C t) \<longleftrightarrow>
     crepr s C (ptr t) \<and> repr s (cpar C) t \<and> distinct (before C @ inorder t @ after C)"
  using repr_plug [of s C t] by (auto simp: rb_repr_def inorder_plug)

text \<open>
  \<open>rb_view s0 A s T\<close>: the state \<open>s\<close>, reached from \<open>s0\<close> by writes to nodes of \<open>A\<close> that kept their
  keys, represents \<open>T\<close>, a tree over nodes of \<open>A\<close>.
\<close>

definition rb_keeps :: "addr set \<Rightarrow> rb_state \<Rightarrow> rb_state \<Rightarrow> bool" where
  "rb_keeps A s0 s \<longleftrightarrow> (\<forall>a. rb_read rb_union s a = rb_read rb_union s0 a) \<and>
     (\<forall>a. a \<notin> A \<longrightarrow> rb_nodes s a = rb_nodes s0 a)"

definition rb_view :: "rb_state \<Rightarrow> addr set \<Rightarrow> rb_state \<Rightarrow> rbt \<Rightarrow> bool" where
  "rb_view s0 A s T \<longleftrightarrow> rb_repr s T \<and> set (inorder T) \<subseteq> A \<and> rb_keeps A s0 s"

lemma rb_keeps_refl [simp]: "rb_keeps A s s"
  by (simp add: rb_keeps_def)

lemma rb_keeps_trans: "rb_keeps A s s' \<Longrightarrow> rb_keeps B s' s'' \<Longrightarrow> rb_keeps (A \<union> B) s s''"
  by (simp add: rb_keeps_def)

lemma rb_view_refl: "rb_repr s T \<Longrightarrow> rb_view s (set (inorder T)) s T"
  by (simp add: rb_view_def)

section \<open>Frame rules\<close>

lemma cell_frame: "rb_nodes s' a = rb_nodes s a \<Longrightarrow> cell s' a = cell s a"
  by (intro ext) (simp add: cell_def)

lemma dcell_frame: "rb_nodes s' a = rb_nodes s a \<Longrightarrow> dcell d s' a = dcell d s a"
  by (intro ext) (simp add: dcell_def cell_frame [of s' _ s])

lemma repr_frame:
  "\<forall>a \<in> set (inorder t). rb_nodes s' a = rb_nodes s a \<Longrightarrow> repr s' par t = repr s par t"
  by (induction t arbitrary: par) (simp_all add: cell_frame [of s' _ s])

lemma crepr_frame:
  "\<forall>a \<in> caddrs C. rb_nodes s' a = rb_nodes s a \<Longrightarrow> rb_node s' = rb_node s \<Longrightarrow>
     crepr s' C p = crepr s C p"
proof (induction C arbitrary: p)
  case (Cons f C)
  obtain d c a x where f: "f = (d, c, a, x)" by (cases f)
  from Cons.prems(1) f have "rb_nodes s' a = rb_nodes s a" "\<forall>b \<in> caddrs C. rb_nodes s' b = rb_nodes s b"
    "\<forall>b \<in> set (inorder x). rb_nodes s' b = rb_nodes s b"
    by (auto split: if_splits)
  with Cons f show ?case by (simp add: dcell_frame [of s' _ s] repr_frame [of _ s' s])
qed simp

section \<open>Reads\<close>

lemma rb_read_cell:
  assumes "cell s a par c l r"
  shows "get_left s a = Some l" "get_right s a = Some r" "rb_read rb_parent_color s a = Some (pack par c)"
  using assms by (auto simp: cell_def rb_read_def)

lemma cell_parent_color:
  assumes "cell s a par c l r" "aligned4 par"
  shows "rb_parent s a = Some par" "rb_color s a = Some (if c then 1 else 0)"
    "rb_is_red s a = Some (\<not> c)" "rb_is_black s a = Some c"
  using assms by (auto simp: cell_def rb_read_def rb_parent_def rb_color_def rb_is_red_def rb_is_black_def)

fun get_child :: "dir \<Rightarrow> rb_state \<Rightarrow> addr \<Rightarrow> addr option" where
  "get_child L = get_left"
| "get_child R = get_right"

lemma crepr_aligned: "crepr s C p \<Longrightarrow> aligned4 (cpar C)"
  by (induction s C p rule: crepr.induct) (auto simp: dcell_def cell_def split: if_splits)

lemma repr_ptr:
  assumes "repr s par t" "aligned4 par"
  shows "ptr t = NULL \<longleftrightarrow> t = RL" "aligned4 (ptr t)" "nonnull_red s (ptr t) = Some (red t)"
    "null_or_black s (ptr t) = Some (\<not> red t)"
proof -
  have "(ptr t = NULL \<longleftrightarrow> t = RL) \<and> aligned4 (ptr t) \<and>
    nonnull_red s (ptr t) = Some (red t) \<and> null_or_black s (ptr t) = Some (\<not> red t)"
  proof (cases t)
    case (RN c l a r)
    with assms(1) have "cell s a par c (ptr l) (ptr r)" by simp
    with RN cell_parent_color [OF this assms(2)] show ?thesis
      by (auto simp: cell_def nonnull_red_def null_or_black_def)
  qed (simp add: nonnull_red_def null_or_black_def)
  then show "ptr t = NULL \<longleftrightarrow> t = RL" "aligned4 (ptr t)" "nonnull_red s (ptr t) = Some (red t)"
    "null_or_black s (ptr t) = Some (\<not> red t)" by auto
qed

text \<open>What the represented tree says about the node in focus.\<close>

lemma rb_repr_reads:
  assumes "rb_repr s (plug C (mk d c x a y))"
  shows "rb_parent s a = Some (cpar C)" "rb_color s a = Some (if c then 1 else 0)"
    "rb_is_red s a = Some (\<not> c)" "rb_is_black s a = Some c"
    "rb_read rb_parent_color s a = Some (pack (cpar C) c)"
    "get_child d s a = Some (ptr x)" "get_child (opp d) s a = Some (ptr y)"
proof -
  from assms have r: "crepr s C a" "dcell d s a (cpar C) c (ptr x) (ptr y)"
    by (auto simp: rb_repr_plug)
  then obtain l r where "cell s a (cpar C) c l r" by (auto simp: dcell_def split: if_splits)
  with rb_read_cell [OF this] cell_parent_color [OF this crepr_aligned [OF r(1)]]
  show "rb_parent s a = Some (cpar C)" "rb_color s a = Some (if c then 1 else 0)"
    "rb_is_red s a = Some (\<not> c)" "rb_is_black s a = Some c"
    "rb_read rb_parent_color s a = Some (pack (cpar C) c)" by auto
  show "get_child d s a = Some (ptr x)" "get_child (opp d) s a = Some (ptr y)"
    using r(2) by (cases d; auto simp: dcell_def dest: rb_read_cell)+
qed

lemma rb_repr_ptr:
  assumes "rb_repr s (plug C t)"
  shows "ptr t = NULL \<longleftrightarrow> t = RL" "aligned4 (ptr t)" "nonnull_red s (ptr t) = Some (red t)"
    "null_or_black s (ptr t) = Some (\<not> red t)"
  using assms repr_ptr [of s "cpar C" t] crepr_aligned by (auto simp: rb_repr_plug)

lemma rb_repr_cpar:
  assumes "rb_repr s (plug C t)"
  shows "cpar C = NULL \<longleftrightarrow> C = []" "aligned4 (cpar C)"
  using assms crepr_aligned by (cases C; auto simp: rb_repr_plug dcell_def cell_def split: if_splits)+

lemma rb_repr_root:
  assumes "rb_repr s (plug C t)"
  shows "rb_node s = ptr (plug C t)"
  using assms by (simp add: rb_repr_def)

lemma ptr_plug_in: "C \<noteq> [] \<Longrightarrow> ptr (plug C t) \<in> caddrs C"
proof (induction C t rule: plug.induct)
  case (2 d c a x C t)
  then show ?case by (cases C) (auto simp: split: if_splits)
qed simp

text \<open>The node in focus is the root of the tree exactly when the context is empty.\<close>

lemma rb_repr_root_iff:
  assumes "rb_repr s (plug C t)" "t \<noteq> RL"
  shows "ptr t = rb_node s \<longleftrightarrow> C = []"
proof -
  have "ptr t \<in> set (inorder t)" using assms(2) by (cases t) auto
  moreover have "distinct (before C @ inorder t @ after C)" using assms(1) by (simp add: rb_repr_plug)
  ultimately show ?thesis
    using rb_repr_root [OF assms(1)] ptr_plug_in [of C t] by (cases "C = []") auto
qed

section \<open>Writes\<close>

text \<open>A write of the parent and colour word of one node.\<close>

lemma rb_write_pc:
  assumes "cell s a par c l r" and "f (pack par c) = pack par' c'"
  shows "\<exists>s'. rb_write (\<lambda>n. n\<lparr>rb_parent_color := f (rb_parent_color n)\<rparr>) s a = Some s' \<and>
     cell s' a par' c' l r \<and> rb_keeps {a} s s' \<and> rb_node s' = rb_node s"
  using assms by (auto simp: cell_def rb_write_def rb_keeps_def rb_read_def)

fun set_child :: "dir \<Rightarrow> rb_state \<Rightarrow> addr \<Rightarrow> addr \<Rightarrow> rb_state option" where
  "set_child L s p v = set_left s p v"
| "set_child R s p v = set_right s p v"

lemma set_child_dcell:
  assumes "dcell d s a par c x y"
  shows "\<exists>s'. set_child d s a v = Some s' \<and> dcell d s' a par c v y \<and> rb_keeps {a} s s' \<and>
     rb_node s' = rb_node s"
  using assms by (cases d) (auto simp: dcell_def cell_def rb_write_def rb_keeps_def rb_read_def)

lemma dcell_opp: "dcell (opp d) s a par c x y = dcell d s a par c y x"
  by (cases d) (auto simp: dcell_def)

lemma rb_keeps_nodes: "rb_keeps A s s' \<Longrightarrow> a \<notin> A \<Longrightarrow> rb_nodes s' a = rb_nodes s a"
  by (simp add: rb_keeps_def)

lemma repr_keeps: "repr s par t \<Longrightarrow> rb_keeps A s s' \<Longrightarrow> set (inorder t) \<inter> A = {} \<Longrightarrow> repr s' par t"
  using repr_frame [of t s' s par] by (auto simp: rb_keeps_def)

lemma crepr_keeps:
  "crepr s C p \<Longrightarrow> rb_keeps A s s' \<Longrightarrow> rb_node s' = rb_node s \<Longrightarrow> caddrs C \<inter> A = {} \<Longrightarrow> crepr s' C p"
  using crepr_frame [of C s' s p] by (auto simp: rb_keeps_def)

lemma dcell_keeps: "dcell d s a par c x y \<Longrightarrow> rb_keeps A s s' \<Longrightarrow> a \<notin> A \<Longrightarrow> dcell d s' a par c x y"
  using dcell_frame [of s' a s d] by (simp add: rb_keeps_def)

lemma rb_keeps_mono: "rb_keeps A s s' \<Longrightarrow> A \<subseteq> B \<Longrightarrow> rb_keeps B s s'"
  by (auto simp: rb_keeps_def)

lemma dcell_write_pc:
  assumes "dcell d s a par c x y" and "f (pack par c) = pack par' c'"
  shows "\<exists>s'. rb_write (\<lambda>n. n\<lparr>rb_parent_color := f (rb_parent_color n)\<rparr>) s a = Some s' \<and>
     dcell d s' a par' c' x y \<and> rb_keeps {a} s s' \<and> rb_node s' = rb_node s"
  using assms rb_write_pc [of s a par c _ _ f par' c'] by (cases d) (auto simp: dcell_def)

lemma dcell_set_parent:
  assumes "dcell d s a par c x y" "aligned4 par" "aligned4 q"
  shows "\<exists>s'. adx_rbtree_set_parent s a q = Some s' \<and> dcell d s' a q c x y \<and> rb_keeps {a} s s' \<and>
     rb_node s' = rb_node s"
  unfolding adx_rbtree_set_parent_def
  by (rule dcell_write_pc [OF assms(1), of "\<lambda>w. (w AND 3) OR q"]) (simp add: assms)

lemma recolour_ok:
  assumes "rb_view s0 A s (plug C (mk d c x a y))" "f (pack (cpar C) c) = pack (cpar C) c'"
  shows "\<exists>s'. rb_write (\<lambda>n. n\<lparr>rb_parent_color := f (rb_parent_color n)\<rparr>) s a = Some s' \<and>
     rb_view s0 A s' (plug C (mk d c' x a y))"
proof -
  from assms(1) have v: "crepr s C a" "dcell d s a (cpar C) c (ptr x) (ptr y)" "repr s a x" "repr s a y"
    "distinct (before C @ inorder (mk d c x a y) @ after C)"
    "rb_keeps A s0 s" "set (inorder (plug C (mk d c x a y))) \<subseteq> A"
    by (auto simp: rb_view_def rb_repr_plug)
  from dcell_write_pc [OF v(2), of f "cpar C" c'] assms(2) obtain s' where
    s': "rb_write (\<lambda>n. n\<lparr>rb_parent_color := f (rb_parent_color n)\<rparr>) s a = Some s'"
      "dcell d s' a (cpar C) c' (ptr x) (ptr y)" "rb_keeps {a} s s'" "rb_node s' = rb_node s" by blast
  have "a \<notin> caddrs C" "a \<notin> set (inorder x)" "a \<notin> set (inorder y)"
    using v(5) by (auto simp: inorder_mk split: if_splits)
  then have "crepr s' C a" "repr s' a x" "repr s' a y"
    using v(1,3,4) s'(3,4) by (auto intro: crepr_keeps repr_keeps)
  moreover have "inorder (mk d c' x a y) = inorder (mk d c x a y)" by (simp add: inorder_mk)
  moreover have "a \<in> A" using v(7) by (auto simp: inorder_plug inorder_mk split: if_splits)
  then have "rb_keeps A s0 s'" using rb_keeps_trans [OF v(6) s'(3)] by (simp add: insert_absorb)
  ultimately show ?thesis using s'(1,2) v(5,7) by (auto simp: rb_view_def rb_repr_plug inorder_plug)
qed

lemma rb_view_aligned: "rb_view s0 A s (plug C t) \<Longrightarrow> aligned4 (cpar C)"
  by (auto simp: rb_view_def dest: rb_repr_cpar(2))

lemma rb_set_black_ok:
  assumes "rb_view s0 A s (plug C (mk d c x a y))"
  shows "\<exists>s'. rb_set_black s a = Some s' \<and> rb_view s0 A s' (plug C (mk d True x a y))"
  unfolding rb_set_black_def by (rule recolour_ok [OF assms]) simp

lemma rb_set_red_ok:
  assumes "rb_view s0 A s (plug C (mk d c x a y))"
  shows "\<exists>s'. rb_set_red s a = Some s' \<and> rb_view s0 A s' (plug C (mk d False x a y))"
  unfolding rb_set_red_def
  by (rule recolour_ok [OF assms, of "\<lambda>w. w AND NOT 1"]) (use rb_view_aligned [OF assms] in simp)

lemma rb_set_color_ok:
  assumes "rb_view s0 A s (plug C (mk d c x a y))"
  shows "\<exists>s'. adx_rbtree_set_color s a (if c' then 1 else 0) = Some s' \<and>
     rb_view s0 A s' (plug C (mk d c' x a y))"
  unfolding adx_rbtree_set_color_def
  by (rule recolour_ok [OF assms, of "\<lambda>w. (w AND NOT 1) OR (if c' then 1 else 0)"])
    (use rb_view_aligned [OF assms] in simp)

section \<open>Rotations\<close>

definition swap_child :: "dir \<Rightarrow> rb_state \<Rightarrow> addr \<Rightarrow> addr \<Rightarrow> addr \<Rightarrow> rb_state option" where
  "swap_child d s parent old new =
     (if parent \<noteq> NULL then do {
        pc \<leftarrow> get_child d s parent;
        if old = pc then set_child d s parent new else set_child (opp d) s parent new }
      else Some (s\<lparr>rb_node := new\<rparr>))"

definition set_parent_opt :: "rb_state \<Rightarrow> addr \<Rightarrow> addr \<Rightarrow> rb_state option" where
  "set_parent_opt s p q = (if p \<noteq> NULL then adx_rbtree_set_parent s p q else Some s)"

fun rotate :: "dir \<Rightarrow> rb_state \<Rightarrow> addr \<Rightarrow> rb_state option" where
  "rotate L = adx_rbtree_rotate_left"
| "rotate R = adx_rbtree_rotate_right"

lemma rotate_generic:
  "rotate d s node = do {
     child \<leftarrow> get_child (opp d) s node;
     parent \<leftarrow> rb_parent s node;
     inner \<leftarrow> get_child d s child;
     s \<leftarrow> set_child (opp d) s node inner;
     s \<leftarrow> set_parent_opt s inner node;
     s \<leftarrow> set_child d s child node;
     s \<leftarrow> adx_rbtree_set_parent s child parent;
     s \<leftarrow> swap_child d s parent node child;
     adx_rbtree_set_parent s node child }"
  by (cases d)
    (simp_all add: adx_rbtree_rotate_left_def adx_rbtree_rotate_right_def swap_child_def set_parent_opt_def
      cong: if_cong)

lemma replace_child_swap: "replace_child s parent old new = swap_child L s parent old new"
  by (simp add: replace_child_def swap_child_def eq_commute [of old] cong: if_cong)

lemma get_child_dcell:
  assumes "dcell e s a par c x y"
  shows "get_child d s a = Some (if d = e then x else y)"
  using assms by (cases d; cases e) (auto simp: dcell_def dest: rb_read_cell)

lemma set_parent_opt_ok:
  assumes "repr s par t" "aligned4 par" "aligned4 q" "distinct (inorder t)"
  shows "\<exists>s'. set_parent_opt s (ptr t) q = Some s' \<and> repr s' q t \<and>
     rb_keeps (set (inorder t)) s s' \<and> rb_node s' = rb_node s"
proof (cases t)
  case (RN c l a r)
  with assms have c: "dcell L s a par c (ptr l) (ptr r)" "repr s a l" "repr s a r" "a \<noteq> NULL"
    by (auto simp: dcell_def cell_def)
  from dcell_set_parent [OF c(1) assms(2,3)] obtain s' where
    s': "adx_rbtree_set_parent s a q = Some s'" "dcell L s' a q c (ptr l) (ptr r)"
      "rb_keeps {a} s s'" "rb_node s' = rb_node s" by blast
  have "repr s' a l" "repr s' a r"
    using c(2,3) assms(4) RN by (auto intro!: repr_keeps [OF _ s'(3)])
  moreover have "rb_keeps (set (inorder t)) s s'"
    by (rule rb_keeps_mono [OF s'(3)]) (simp add: RN)
  ultimately show ?thesis using RN s' c(4) by (auto simp: set_parent_opt_def dcell_def)
qed (simp add: set_parent_opt_def)

lemma swap_child_ok:
  assumes "crepr s C p" "p \<notin> caddrs C" "p \<noteq> NULL" "distinct (before C @ after C)"
  shows "\<exists>s'. swap_child d s (cpar C) p q = Some s' \<and> crepr s' C q \<and> rb_keeps (caddrs C) s s'"
proof (cases C)
  case Nil
  with assms show ?thesis by (auto simp: swap_child_def rb_keeps_def rb_read_def)
next
  case (Cons f C')
  obtain e c a x where f: "f = (e, c, a, x)" by (cases f)
  with Cons assms have v: "dcell e s a (cpar C') c p (ptr x)" "repr s a x" "crepr s C' a" by auto
  have "ptr x \<in> set (inorder x) \<or> ptr x = NULL" by (cases x) auto
  then have "p \<noteq> ptr x" using assms(2,3) Cons f by (auto split: if_splits)
  then have eq: "swap_child d s (cpar C) p q = set_child e s a q"
    using v(1) Cons f
    by (cases d; cases e) (auto simp: swap_child_def dcell_def cell_def rb_read_def cong: if_cong)
  from set_child_dcell [OF v(1), of q] obtain s' where
    s': "set_child e s a q = Some s'" "dcell e s' a (cpar C') c q (ptr x)" "rb_keeps {a} s s'"
      "rb_node s' = rb_node s" by blast
  have "a \<notin> caddrs C'" "a \<notin> set (inorder x)" using assms(4) Cons f by (auto split: if_splits)
  then have "crepr s' C' a" "repr s' a x"
    using v s'(3,4) by (auto intro: crepr_keeps repr_keeps)
  moreover have "rb_keeps (caddrs C) s s'"
    by (rule rb_keeps_mono [OF s'(3)]) (use Cons f in \<open>auto split: if_splits\<close>)
  ultimately show ?thesis using eq s' Cons f by auto
qed

lemma rotate_ok:
  assumes view: "rb_view s0 A s (plug C (mk d c x a (mk d c' y b z)))"
  shows "\<exists>s'. rotate d s a = Some s' \<and> rb_view s0 A s' (plug C (mk d c' (mk d c x a y) b z))"
proof -
  let ?t = "mk d c x a (mk d c' y b z)" and ?t' = "mk d c' (mk d c x a y) b z"
  have inorder: "inorder ?t' = inorder ?t" by (simp add: inorder_mk)
  from view have v: "crepr s C a" "dcell d s a (cpar C) c (ptr x) b" "repr s a x"
    "dcell d s b a c' (ptr y) (ptr z)" "repr s b y" "repr s b z"
    and dist: "distinct (before C @ inorder ?t @ after C)"
    and sub: "set (inorder (plug C ?t)) \<subseteq> A" and kp: "rb_keeps A s0 s"
    by (auto simp: rb_view_def rb_repr_plug)
  have al: "aligned4 (cpar C)" "aligned4 a" "aligned4 b" "a \<noteq> NULL" "b \<noteq> NULL"
    using rb_view_aligned [OF view] v(2,4) by (auto simp: dcell_def cell_def split: if_splits)
  have ab: "a \<noteq> b" "a \<notin> set (inorder y)" "b \<notin> set (inorder y)" "{a, b} \<inter> caddrs C = {}"
      "{a, b} \<inter> set (inorder x) = {}" "{a, b} \<inter> set (inorder z) = {}"
    and y: "set (inorder y) \<inter> caddrs C = {}" "set (inorder y) \<inter> set (inorder x) = {}"
      "set (inorder y) \<inter> set (inorder z) = {}" "distinct (inorder y)" "distinct (before C @ after C)"
    and xz: "set (inorder x) \<inter> caddrs C = {}" "set (inorder z) \<inter> caddrs C = {}"
    using dist by (auto simp: inorder_mk split: if_splits)
  have "dcell (opp d) s a (cpar C) c b (ptr x)" using v(2) by (simp add: dcell_opp)
  from set_child_dcell [OF this, of "ptr y"] obtain s1 where
    s1: "set_child (opp d) s a (ptr y) = Some s1" "dcell d s1 a (cpar C) c (ptr x) (ptr y)"
      "rb_keeps {a} s s1" "rb_node s1 = rb_node s" by (auto simp: dcell_opp)
  have "repr s1 b y" by (rule repr_keeps [OF v(5) s1(3)]) (use ab in auto)
  from set_parent_opt_ok [OF this al(3,2) y(4)] obtain s2 where
    s2: "set_parent_opt s1 (ptr y) a = Some s2" "repr s2 a y" "rb_keeps (set (inorder y)) s1 s2"
      "rb_node s2 = rb_node s1" by blast
  have "dcell d s1 b a c' (ptr y) (ptr z)" by (rule dcell_keeps [OF v(4) s1(3)]) (use ab in auto)
  then have "dcell d s2 b a c' (ptr y) (ptr z)" by (rule dcell_keeps [OF _ s2(3)]) (use ab in auto)
  from set_child_dcell [OF this, of a] obtain s3 where
    s3: "set_child d s2 b a = Some s3" "dcell d s3 b a c' a (ptr z)" "rb_keeps {b} s2 s3"
      "rb_node s3 = rb_node s2" by blast
  from dcell_set_parent [OF s3(2) al(2,1)] obtain s4 where
    s4: "adx_rbtree_set_parent s3 b (cpar C) = Some s4" "dcell d s4 b (cpar C) c' a (ptr z)"
      "rb_keeps {b} s3 s4" "rb_node s4 = rb_node s3" by blast
  note k4 = rb_keeps_trans [OF rb_keeps_trans [OF rb_keeps_trans [OF s1(3) s2(3)] s3(3)] s4(3)]
  have "crepr s4 C a"
    by (rule crepr_keeps [OF v(1) k4]) (use s1 s2 s3 s4 ab y in auto)
  from swap_child_ok [OF this _ al(4) y(5), of d b] ab obtain s5 where
    s5: "swap_child d s4 (cpar C) a b = Some s5" "crepr s5 C b" "rb_keeps (caddrs C) s4 s5" by auto
  note k25 = rb_keeps_trans [OF rb_keeps_trans [OF rb_keeps_trans [OF s2(3) s3(3)] s4(3)] s5(3)]
  have "dcell d s5 a (cpar C) c (ptr x) (ptr y)"
    by (rule dcell_keeps [OF s1(2) k25]) (use ab in auto)
  from dcell_set_parent [OF this al(1,3)] obtain s6 where
    s6: "adx_rbtree_set_parent s5 a b = Some s6" "dcell d s6 a b c (ptr x) (ptr y)"
      "rb_keeps {a} s5 s6" "rb_node s6 = rb_node s5" by blast
  note k6 = rb_keeps_trans [OF rb_keeps_trans [OF k4 s5(3)] s6(3)]
  have run: "rotate d s a = Some s6"
    using s1(1) s2(1) s3(1) s4(1) s5(1) s6(1) rb_repr_reads [of s C d c x a "mk d c' y b z"]
      get_child_dcell [OF v(4), of d] view
    by (simp add: rotate_generic rb_view_def)
  have "crepr s6 C b" by (rule crepr_keeps [OF s5(2) s6(3,4)]) (use ab in auto)
  moreover have "repr s6 a x" by (rule repr_keeps [OF v(3) k6]) (use ab y xz in auto)
  moreover have "repr s6 b z" by (rule repr_keeps [OF v(6) k6]) (use ab y xz in auto)
  moreover have "dcell d s6 b (cpar C) c' a (ptr z)"
    by (rule dcell_keeps [OF s4(2) rb_keeps_trans [OF s5(3) s6(3)]]) (use ab in auto)
  moreover have "repr s6 a y"
    by (rule repr_keeps [OF s2(2) rb_keeps_trans [OF rb_keeps_trans [OF rb_keeps_trans
          [OF s3(3) s4(3)] s5(3)] s6(3)]]) (use ab y in auto)
  moreover have "rb_keeps A s0 s6"
    by (rule rb_keeps_mono [OF rb_keeps_trans [OF kp k6]])
      (use sub in \<open>auto simp: inorder_plug inorder_mk split: if_splits\<close>)
  ultimately show ?thesis
    using run dist sub s6(2) inorder by (auto simp: rb_view_def rb_repr_plug inorder_plug)
qed

end
