(* ===== verification/Adx_Rbtree_Insert.thy ===== *)
theory Adx_Rbtree_Insert
  imports Adx_Rbtree
begin

text \<open>
  Correctness of \<open>adx_rbtree_insert_color\<close>.  \<open>ins_fix\<close> is the rebalancing as a function on a
  context and the red node in its hole; the pointer loop is proved to compute it, and \<open>ins_fix\<close>
  is proved to restore the red-black invariant without changing the order of the nodes.
\<close>

section \<open>The red-black invariant\<close>

fun bh :: "rbt \<Rightarrow> nat" where
  "bh RL = 0"
| "bh (RN c l a r) = bh l + (if c then 1 else 0)"

fun invh :: "rbt \<Rightarrow> bool" where
  "invh RL = True"
| "invh (RN c l a r) \<longleftrightarrow> invh l \<and> invh r \<and> bh l = bh r"

fun invc :: "rbt \<Rightarrow> bool" where
  "invc RL = True"
| "invc (RN c l a r) \<longleftrightarrow> invc l \<and> invc r \<and> (c \<or> \<not> red l \<and> \<not> red r)"

definition rb_inv :: "rbt \<Rightarrow> bool" where
  "rb_inv t \<longleftrightarrow> invc t \<and> invh t \<and> \<not> red t"

lemma inv_mk [simp]:
  "invh (mk d c x a y) \<longleftrightarrow> invh x \<and> invh y \<and> bh x = bh y"
  "invc (mk d c x a y) \<longleftrightarrow> invc x \<and> invc y \<and> (c \<or> \<not> red x \<and> \<not> red y)"
  by (cases d; auto)+

lemma bh_mk [simp]: "invh (mk d c x a y) \<Longrightarrow> bh (mk d c x a y) = bh x + (if c then 1 else 0)"
  by (cases d) auto

lemma inv_blacken [simp]: "invh t \<Longrightarrow> invh (blacken t)" "invc t \<Longrightarrow> invc (blacken t)"
    "\<not> red (blacken t)" "bh (blacken t) = bh t + (if red t then 1 else 0)"
  by (cases t; simp)+

fun ctx_red :: "ctx \<Rightarrow> bool" where
  "ctx_red [] = False"
| "ctx_red ((d, c, a, x) # C) = (\<not> c)"

text \<open>The context of a hole that takes a tree of black height \<open>n\<close>.\<close>

fun cinv :: "ctx \<Rightarrow> nat \<Rightarrow> bool" where
  "cinv [] n = True"
| "cinv ((d, c, a, x) # C) n \<longleftrightarrow> invc x \<and> invh x \<and> bh x = n \<and> (c \<or> \<not> red x \<and> \<not> ctx_red C) \<and>
     cinv C (n + (if c then 1 else 0))"

lemma inv_plug:
  "invc (plug C t) \<and> invh (plug C t) \<longleftrightarrow>
     invc t \<and> invh t \<and> cinv C (bh t) \<and> (ctx_red C \<longrightarrow> \<not> red t)"
proof (induction C t rule: plug.induct)
  case (2 d c a x C t)
  show ?case
  proof (cases "invh t \<and> invh x \<and> bh t = bh x")
    case True
    then have "bh (mk d c t a x) = bh t + (if c then 1 else 0)" by simp
    with True show ?thesis unfolding plug.simps 2 by (cases c) auto
  next
    case False
    then show ?thesis unfolding plug.simps 2 by auto
  qed
qed auto

lemma red_plug: "C \<noteq> [] \<Longrightarrow> red (plug C t) = red (plug C t')"
proof (induction C arbitrary: t t')
  case (Cons f C)
  then show ?case by (cases f; cases "C = []") auto
qed simp

section \<open>The rebalancing as a function\<close>

fun sub :: "dir \<Rightarrow> rbt \<Rightarrow> rbt" where
  "sub L (RN c l a r) = l"
| "sub R (RN c l a r) = r"
| "sub d RL = RL"

lemma sub_mk [simp]: "sub d (mk d c x a y) = x" "sub (opp d) (mk d c x a y) = y"
  by (cases d; simp)+

lemma mk_sub: "t \<noteq> RL \<Longrightarrow> t = mk d (\<not> red t) (sub d t) (ptr t) (sub (opp d) t)"
  by (cases t; cases d) auto

fun ins_fix :: "ctx \<Rightarrow> rbt \<Rightarrow> rbt" where
  "ins_fix ((e, False, p, x) # (d, gc, g, u) # C) t =
     (if red u then ins_fix C (mk d False (mk e True t p x) g (blacken u))
      else if e = d then plug C (mk d True t p (mk d False x g u))
      else plug C (mk d True (mk d False x p (sub d t)) (ptr t) (mk d False (sub (opp d) t) g u)))"
| "ins_fix C t = plug C t"

lemma inorder_ins_fix: "red t \<Longrightarrow> inorder (ins_fix C t) = inorder (plug C t)"
proof (induction C t rule: ins_fix.induct)
  case (1 e p x d gc g u C t)
  from 1(2) obtain l n r where "t = RN False l n r" by (cases t) auto
  with 1(1) show ?case by (cases d; cases e; cases "red u") (simp_all add: inorder_plug)
qed simp_all

lemma ins_fix_inv:
  assumes "red t" "invc t" "invh t" "cinv C (bh t)" "C \<noteq> [] \<Longrightarrow> \<not> red (plug C t)"
  shows "invc (ins_fix C t) \<and> invh (ins_fix C t)"
  using assms
proof (induction C t rule: ins_fix.induct)
  case (1 e p x d gc g u C t)
  from 1(5) have c: "gc" "invc x" "invh x" "bh x = bh t" "\<not> red x" "invc u" "invh u" "bh u = bh t"
    "cinv C (Suc (bh t))" by auto
  show ?case
  proof (cases "red u")
    case True
    let ?t = "mk d False (mk e True t p x) g (blacken u)"
    have i: "invc ?t" "invh ?t" "bh ?t = Suc (bh t)" "red ?t"
      using c 1(3,4) True by (auto simp: bh_mk)
    moreover have "C \<noteq> [] \<Longrightarrow> \<not> red (plug C ?t)"
      using 1(6) red_plug [of C ?t "mk d gc (mk e False t p x) g u"] by simp
    ultimately show ?thesis using 1(1) [OF True] c(9) True by simp
  next
    case False
    have s: "invc (sub d t)" "invh (sub d t)" "invc (sub (opp d) t)" "invh (sub (opp d) t)"
      "bh (sub d t) = bh t" "bh (sub (opp d) t) = bh t" "\<not> red (sub d t)" "\<not> red (sub (opp d) t)"
      using 1(2-4) by (cases t; cases d; auto)+
    let ?o = "mk d True t p (mk d False x g u)"
      and ?i = "mk d True (mk d False x p (sub d t)) (ptr t) (mk d False (sub (opp d) t) g u)"
    have "invh ?o" "invh ?i" "invc ?o" "invc ?i" "bh ?o = Suc (bh t)" "bh ?i = Suc (bh t)"
      using c s 1(3,4) False by (auto simp: bh_mk)
    then show ?thesis using False c(9) inv_plug [of C ?o] inv_plug [of C ?i] by auto
  qed
qed (auto simp: inv_plug elim: ctx_red.elims)

section \<open>The pointer loop computes it\<close>

text \<open>One branch of the loop body, with the side of the parent as parameter.\<close>

definition insert_side :: "dir \<Rightarrow> rb_state \<Rightarrow> addr \<Rightarrow> addr \<Rightarrow> addr \<Rightarrow> rb_state option" where
  "insert_side d s node parent gparent = do {
     uncle \<leftarrow> get_child (opp d) s gparent;
     ured \<leftarrow> nonnull_red s uncle;
     if ured then do {
       s \<leftarrow> rb_set_black s uncle;
       s \<leftarrow> rb_set_black s parent;
       s \<leftarrow> rb_set_red s gparent;
       insert_color_loop s gparent }
     else do {
       pr \<leftarrow> get_child (opp d) s parent;
       (s, parent, node) \<leftarrow> (if pr = node then do {
           s \<leftarrow> rotate d s parent;
           Some (s, node, parent) }
         else Some (s, parent, node));
       s \<leftarrow> rb_set_black s parent;
       s \<leftarrow> rb_set_red s gparent;
       s \<leftarrow> rotate (opp d) s gparent;
       insert_color_loop s node } }"

lemma insert_color_loop_side:
  "insert_color_loop s node = do {
     parent \<leftarrow> rb_parent s node;
     go \<leftarrow> nonnull_red s parent;
     if go then do {
       gparent \<leftarrow> rb_parent s parent;
       gl \<leftarrow> get_left s gparent;
       if parent = gl then insert_side L s node parent gparent
       else insert_side R s node parent gparent }
     else Some s }"
  by (subst insert_color_loop.simps) (simp add: insert_side_def cong: if_cong)

lemma rb_viewD [dest]: "rb_view s0 A s T \<Longrightarrow> rb_repr s T"
  by (simp add: rb_view_def)

lemma rb_repr_node:
  assumes "rb_repr s (plug C t)" "t \<noteq> RL"
  shows "rb_parent s (ptr t) = Some (cpar C)" "ptr t \<noteq> NULL" "rb_is_red s (ptr t) = Some (red t)"
  using assms rb_repr_reads(1,3) [of s C L "\<not> red t" "sub L t" "ptr t" "sub R t"] rb_repr_ptr(1) [of s C t]
  by (cases t; simp)+

lemma insert_loop_stop:
  assumes "rb_repr s (plug C t)" "t \<noteq> RL" "\<not> ctx_red C"
  shows "insert_color_loop s (ptr t) = Some s"
proof -
  have "nonnull_red s (cpar C) = Some False"
  proof (cases C)
    case (Cons f C')
    then obtain d a x where "C = (d, True, a, x) # C'" using assms(3) by (cases f) auto
    with assms(1) have r: "rb_repr s (plug C' (mk d True t a x))" and a: "cpar C = a" by auto
    have "mk d True t a x \<noteq> RL" by (cases d) auto
    from rb_repr_node [OF r this] show ?thesis by (simp add: nonnull_red_def a)
  qed (simp add: nonnull_red_def)
  with rb_repr_node(1) [OF assms(1,2)] show ?thesis by (simp add: insert_color_loop_side)
qed

text \<open>The parent and the grandparent of the node in focus, and the way they are linked.\<close>

lemma mk_neq_RL [simp]: "mk d c x a y \<noteq> RL" "RL \<noteq> mk d c x a y"
  by (cases d; simp)+

lemma insert_loop_step:
  assumes "rb_repr s (plug ((e, False, p, x) # (d, gc, g, u) # C) t)" "t \<noteq> RL"
  shows "insert_color_loop s (ptr t) = insert_side d s (ptr t) p g"
proof -
  from assms(1) have r1: "rb_repr s (plug ((d, gc, g, u) # C) (mk e False t p x))"
    and r2: "rb_repr s (plug C (mk d gc (mk e False t p x) g u))" by auto
  note n = rb_repr_node [OF assms] rb_repr_node [OF r1 mk_neq_RL(1)]
  have "p \<in> set (inorder (mk e False t p x))" by (simp add: inorder_mk)
  moreover have "ptr u \<in> set (inorder u) \<or> ptr u = NULL" by (cases u) auto
  ultimately have "p \<noteq> ptr u" using r2 n(5) by (auto simp: rb_repr_plug inorder_mk [of d] split: if_splits)
  with n rb_repr_reads(6,7) [OF r2] show ?thesis
    by (cases d) (simp_all add: insert_color_loop_side nonnull_red_def)
qed

text \<open>Recolouring and the outer rotation.\<close>

lemma insert_outer_ok:
  assumes "rb_view s0 A s (plug C (mk d gc (mk d c t p x) g u))"
  shows "\<exists>s1 s2 s3. rb_set_black s p = Some s1 \<and> rb_set_red s1 g = Some s2 \<and>
     rotate (opp d) s2 g = Some s3 \<and> rb_view s0 A s3 (plug C (mk d True t p (mk d False x g u)))"
proof -
  from rb_set_black_ok [of s0 A s "(d, gc, g, u) # C" d c t p x] assms obtain s1 where
    s1: "rb_set_black s p = Some s1" "rb_view s0 A s1 (plug C (mk d gc (mk d True t p x) g u))" by auto
  from rb_set_red_ok [OF s1(2)] obtain s2 where
    s2: "rb_set_red s1 g = Some s2" "rb_view s0 A s2 (plug C (mk d False (mk d True t p x) g u))" by auto
  then have "rb_view s0 A s2 (plug C (mk (opp d) False u g (mk (opp d) True x p t)))"
    by (simp add: mk_opp)
  from rotate_ok [OF this] s1(1) s2(1) show ?thesis by (auto simp: mk_opp)
qed

lemma insert_recolour_ok:
  assumes "rb_view s0 A s (plug C (mk d gc (mk e False t p x) g u))" "red u"
  shows "\<exists>s1 s2 s3. rb_set_black s (ptr u) = Some s1 \<and> rb_set_black s1 p = Some s2 \<and>
     rb_set_red s2 g = Some s3 \<and>
     rb_view s0 A s3 (plug C (mk d False (mk e True t p x) g (blacken u)))"
proof -
  let ?p = "mk e False t p x" and ?p' = "mk e True t p x"
  from assms(2) obtain l a r where u: "u = mk L False l a r" by (cases u) auto
  from rb_set_black_ok [of s0 A s "(opp d, gc, g, ?p) # C" L False l a r] assms(1) u obtain s1 where
    s1: "rb_set_black s a = Some s1" "rb_view s0 A s1 (plug C (mk d gc ?p g (blacken u)))"
    by (auto simp: mk_opp)
  from rb_set_black_ok [of s0 A s1 "(d, gc, g, blacken u) # C" e False t p x] s1(2) obtain s2 where
    s2: "rb_set_black s1 p = Some s2" "rb_view s0 A s2 (plug C (mk d gc ?p' g (blacken u)))" by auto
  from rb_set_red_ok [OF s2(2)] s1(1) s2(1) u show ?thesis by auto
qed

lemma ptr_in: "t \<noteq> RL \<Longrightarrow> ptr t \<in> set (inorder t)" "ptr t \<in> set (inorder t) \<or> ptr t = NULL"
  by (cases t; simp)+

lemma insert_rotate_ok:
  assumes view: "rb_view s0 A s (plug C (mk d gc (mk d False t p x) g u))" "t \<noteq> RL"
  shows "\<exists>s1 s2 s3. rb_set_black s p = Some s1 \<and> rb_set_red s1 g = Some s2 \<and>
     rotate (opp d) s2 g = Some s3 \<and> insert_color_loop s3 (ptr t) = Some s3 \<and>
     rb_view s0 A s3 (plug C (mk d True t p (mk d False x g u)))"
proof -
  from insert_outer_ok [OF view(1)] obtain s1 s2 s3 where
    s: "rb_set_black s p = Some s1" "rb_set_red s1 g = Some s2" "rotate (opp d) s2 g = Some s3"
      "rb_view s0 A s3 (plug C (mk d True t p (mk d False x g u)))" by blast
  have "insert_color_loop s3 (ptr t) = Some s3"
    by (rule insert_loop_stop [of _ "(d, True, p, mk d False x g u) # C"]) (use s(4) view(2) in auto)
  with s show ?thesis by blast
qed

lemma insert_side_ok:
  assumes view: "rb_view s0 A s (plug C (mk d gc (mk e False t p x) g u))" and t: "red t"
    and rec: "\<And>s. red u \<Longrightarrow> rb_view s0 A s (plug C (mk d False (mk e True t p x) g (blacken u))) \<Longrightarrow>
      \<exists>s'. insert_color_loop s g = Some s' \<and>
        rb_view s0 A s' (ins_fix C (mk d False (mk e True t p x) g (blacken u)))"
  shows "\<exists>s'. insert_side d s (ptr t) p g = Some s' \<and>
     rb_view s0 A s' (ins_fix ((e, False, p, x) # (d, gc, g, u) # C) t)"
proof -
  have v1: "rb_repr s (plug C (mk d gc (mk e False t p x) g u))" using view by blast
  then have v2: "rb_repr s (plug ((d, gc, g, u) # C) (mk e False t p x))"
    and vu: "rb_repr s (plug ((opp d, gc, g, mk e False t p x) # C) u)" by (auto simp: mk_opp)
  note reads = rb_repr_reads(7) [OF v1] rb_repr_ptr(3) [OF vu]
  show ?thesis
  proof (cases "red u")
    case True
    from insert_recolour_ok [OF view True] obtain s1 s2 s3 where
      s: "rb_set_black s (ptr u) = Some s1" "rb_set_black s1 p = Some s2" "rb_set_red s2 g = Some s3"
        "rb_view s0 A s3 (plug C (mk d False (mk e True t p x) g (blacken u)))" by blast
    from rec [OF True s(4)] s(1-3) True reads show ?thesis by (simp add: insert_side_def)
  next
    case False
    have tn: "t \<noteq> RL" using t by (cases t) auto
    show ?thesis
    proof (cases "e = d")
      case True
      have "ptr t \<noteq> ptr x"
        using ptr_in [of t] ptr_in [of x] tn v2 rb_repr_node(2) [of s "(d, False, p, x) # (d, gc, g, u) # C" t]
        by (auto simp: rb_repr_plug inorder_mk True split: if_splits)
      with insert_rotate_ok [OF view [unfolded True] tn] rb_repr_reads(7) [OF v2] reads False True
      show ?thesis by (auto simp: insert_side_def)
    next
      case inner: False
      then have e: "e = opp d" by (cases d; cases e) auto
      define a b where "a = sub d t" and "b = sub (opp d) t"
      have tt: "t = mk d False a (ptr t) b" using mk_sub [OF tn, of d] t by (simp add: a_def b_def)
      then have "rb_view s0 A s (plug ((d, gc, g, u) # C) (mk d False x p (mk d False a (ptr t) b)))"
        using view by (simp add: e mk_opp)
      from rotate_ok [OF this] obtain s1 where
        s1: "rotate d s p = Some s1"
          "rb_view s0 A s1 (plug C (mk d gc (mk d False (mk d False x p a) (ptr t) b) g u))" by auto
      have "get_child (opp d) s p = Some (ptr t)"
        using rb_repr_reads(6) [OF v2] by (simp add: e)
      with insert_rotate_ok [OF s1(2)] s1(1) reads False inner show ?thesis
        by (auto simp: insert_side_def a_def b_def)
    qed
  qed
qed

lemma ctx_red_single: "\<not> red (plug [f] t) \<Longrightarrow> \<not> ctx_red [f]"
  by (cases f) auto

lemma insert_color_loop_ok:
  assumes "rb_view s0 A s (plug C t)" "red t" "C \<noteq> [] \<Longrightarrow> \<not> red (plug C t)"
  shows "\<exists>s'. insert_color_loop s (ptr t) = Some s' \<and> rb_view s0 A s' (ins_fix C t)"
proof -
  have tn: "red t \<Longrightarrow> t \<noteq> RL" for t by auto
  have stop: "\<exists>s'. insert_color_loop s (ptr t) = Some s' \<and> rb_view s0 A s' (plug C t)"
    if "rb_view s0 A s (plug C t)" "red t" "\<not> ctx_red C" for s C t
    using insert_loop_stop [of s C t] that tn by blast
  show ?thesis
    using assms
  proof (induction C t arbitrary: s rule: ins_fix.induct)
    case (1 e p x d gc g u C t)
    let ?t = "mk d False (mk e True t p x) g (blacken u)"
    have "insert_color_loop s (ptr t) = insert_side d s (ptr t) p g"
      by (rule insert_loop_step [of _ e _ x d gc g u C]) (use 1(2,3) tn in auto)
    moreover have "C \<noteq> [] \<Longrightarrow> \<not> red (plug C ?t)"
      using 1(4) red_plug [of C ?t "mk d gc (mk e False t p x) g u"] by simp
    then have "\<exists>s'. insert_side d s (ptr t) p g = Some s' \<and>
        rb_view s0 A s' (ins_fix ((e, False, p, x) # (d, gc, g, u) # C) t)"
      using 1(1) [of _] by (intro insert_side_ok) (use 1(2,3) in auto)
    ultimately show ?case by simp
  qed (use stop ctx_red_single in \<open>force simp del: plug.simps\<close>)+
qed

lemma adx_rbtree_insert_color_ok:
  assumes "rb_view s0 A s (plug C t)" "red t" "C \<noteq> [] \<Longrightarrow> \<not> red (plug C t)"
  shows "\<exists>s'. adx_rbtree_insert_color s (ptr t) = Some s' \<and> rb_view s0 A s' (blacken (ins_fix C t))"
proof -
  from insert_color_loop_ok [OF assms] obtain s1 where
    s1: "insert_color_loop s (ptr t) = Some s1" "rb_view s0 A s1 (ins_fix C t)" by auto
  have "inorder (ins_fix C t) \<noteq> []"
    using inorder_ins_fix [OF assms(2)] assms(2) by (cases t) (auto simp: inorder_plug)
  then obtain c l a r where T: "ins_fix C t = mk L c l a r" by (cases "ins_fix C t") auto
  have "rb_node s1 = a" using s1(2) T by (auto simp: rb_view_def rb_repr_def)
  with rb_set_black_ok [of s0 A s1 "[]" L c l a r] s1 T show ?thesis
    by (auto simp: adx_rbtree_insert_color_def)
qed

end
