(* ===== verification/Adx_Rbtree_Search.thy ===== *)
theory Adx_Rbtree_Search
  imports Adx_Rbtree_Insert
begin

text \<open>
  The keyed operations of \<^verbatim>\<open>adx_rbtree.c\<close>: \<open>adx_rbtree_string_add/find\<close> and
  \<open>adx_rbtree_number_add/find\<close>.  What they promise a client is a finite map from keys to nodes:
  \<open>rb_index cmp keyof s m\<close> says that the tree of state \<open>s\<close> is a balanced search tree for the order
  \<open>cmp\<close> and that \<open>m\<close> sends each key in it to the address of its node.  The locale
  \<open>search_order\<close> holds what the two key types share; it is interpreted for \<open>strcmp\<close> and for
  the signed comparison of 32-bit numbers.
\<close>

section \<open>Descending in a tree\<close>

fun descend :: "('k \<Rightarrow> 'k \<Rightarrow> int) \<Rightarrow> (addr \<Rightarrow> 'k) \<Rightarrow> 'k \<Rightarrow> ctx \<Rightarrow> rbt \<Rightarrow> ctx + addr" where
  "descend cmp kf k C RL = Inl C"
| "descend cmp kf k C (RN c l a r) =
     (if cmp k (kf a) < 0 then descend cmp kf k ((L, c, a, r) # C) l
      else if cmp k (kf a) > 0 then descend cmp kf k ((R, c, a, l) # C) r
      else Inr a)"

fun link_of :: "ctx \<Rightarrow> rb_link" where
  "link_of [] = RootLink"
| "link_of ((d, c, a, x) # C) = (if d = L then LeftLink a else RightLink a)"

definition node_key :: "(rb_union \<Rightarrow> 'k option) \<Rightarrow> rb_state \<Rightarrow> addr \<Rightarrow> 'k option" where
  "node_key keyof s a = do { u \<leftarrow> rb_read rb_union s a; keyof u }"

definition keyed :: "(rb_union \<Rightarrow> 'k option) \<Rightarrow> rb_state \<Rightarrow> (addr \<Rightarrow> 'k) \<Rightarrow> addr set \<Rightarrow> bool" where
  "keyed keyof s kf A \<longleftrightarrow> (\<forall>a \<in> A. node_key keyof s a = Some (kf a))"

definition ordered :: "('k \<Rightarrow> 'k \<Rightarrow> int) \<Rightarrow> (addr \<Rightarrow> 'k) \<Rightarrow> addr list \<Rightarrow> bool" where
  "ordered cmp kf = sorted_wrt (\<lambda>a b. cmp (kf a) (kf b) < 0)"

text \<open>The finite map a well-formed search tree stands for.\<close>

definition rb_tree ::
    "('k \<Rightarrow> 'k \<Rightarrow> int) \<Rightarrow> (rb_union \<Rightarrow> 'k option) \<Rightarrow> rb_state \<Rightarrow> rbt \<Rightarrow> (addr \<Rightarrow> 'k) \<Rightarrow> bool" where
  "rb_tree cmp keyof s T kf \<longleftrightarrow> rb_repr s T \<and> rb_inv T \<and> keyed keyof s kf (set (inorder T)) \<and>
     ordered cmp kf (inorder T)"

definition rb_index ::
    "('k \<Rightarrow> 'k \<Rightarrow> int) \<Rightarrow> (rb_union \<Rightarrow> 'k option) \<Rightarrow> rb_state \<Rightarrow> ('k \<rightharpoonup> addr) \<Rightarrow> bool" where
  "rb_index cmp keyof s m \<longleftrightarrow> (\<exists>T kf. rb_tree cmp keyof s T kf \<and>
     (\<forall>k a. m k = Some a \<longleftrightarrow> a \<in> set (inorder T) \<and> kf a = k))"

lemma rb_repr_left:
  assumes "rb_repr s (plug C (RN c l a r))"
  shows "a \<noteq> NULL" "get_left s a = Some (ptr l)" "get_right s a = Some (ptr r)"
    "rb_repr s (plug ((L, c, a, r) # C) l)" "rb_repr s (plug ((R, c, a, l) # C) r)"
  using assms rb_repr_reads(6,7) [of s C L c l a r] rb_repr_node(2) [of s C "RN c l a r"] by auto

lemma read_link_of:
  assumes "rb_repr s (plug C t)"
  shows "read_link s (link_of C) = Some (ptr t)"
proof (cases C)
  case Nil
  with assms show ?thesis by (simp add: rb_repr_def)
next
  case (Cons f C')
  obtain d c a x where "f = (d, c, a, x)" by (cases f)
  with Cons assms rb_repr_reads(6) [of s C' d c t a x] show ?thesis by (cases d) auto
qed

section \<open>The pointer loops descend\<close>

definition number_cmp :: "32 word \<Rightarrow> 32 word \<Rightarrow> int" where
  "number_cmp x y = sint x - sint y"

fun string_key :: "rb_union \<Rightarrow> string option" where
  "string_key (String t) = t"
| "string_key (Number n) = None"

lemma get_number_key: "get_number s a = node_key number_of s a"
  by (simp add: get_number_def node_key_def)

lemma get_string_key: "node_key string_key s a = Some t \<longleftrightarrow> get_string s a = Some (Some t)"
proof -
  have "string_key u = Some t \<longleftrightarrow> string_of u = Some (Some t)" for u by (cases u) auto
  then show ?thesis by (auto simp: get_string_def node_key_def)
qed

definition descent_result :: "ctx + addr \<Rightarrow> (rb_link \<times> addr) option" where
  "descent_result r = (case r of Inl C \<Rightarrow> Some (link_of C, cpar C) | Inr a \<Rightarrow> None)"

definition found :: "ctx + addr \<Rightarrow> addr" where
  "found r = (case r of Inl C \<Rightarrow> NULL | Inr a \<Rightarrow> a)"

lemma number_descend_ok:
  assumes "rb_repr s (plug C t)" "keyed number_of s kf (set (inorder t))"
  shows "number_descend s k (link_of C) (cpar C) = Some (descent_result (descend number_cmp kf k C t))"
  using assms
proof (induction t arbitrary: C)
  case RL
  then show ?case
    using read_link_of [of s C RL] by (simp add: number_descend.simps [of s k] descent_result_def)
next
  case (RN c l a r)
  note n = rb_repr_left [OF RN.prems(1)]
  have "get_number s a = Some (kf a)" using RN.prems(2) by (simp add: keyed_def get_number_key)
  moreover have "keyed number_of s kf (set (inorder l))" "keyed number_of s kf (set (inorder r))"
    using RN.prems(2) by (auto simp: keyed_def)
  ultimately show ?case
    using RN.IH(1) [OF n(4)] RN.IH(2) [OF n(5)] read_link_of [OF RN.prems(1)] n(1)
    by (simp add: number_descend.simps [of s k "link_of C"] number_cmp_def descent_result_def)
qed

lemma number_find_loop_ok:
  assumes "rb_repr s (plug C t)" "keyed number_of s kf (set (inorder t))"
  shows "number_find_loop s k (ptr t) = Some (found (descend number_cmp kf k C t))"
  using assms
proof (induction t arbitrary: C)
  case RL
  then show ?case by (simp add: number_find_loop.simps [of s k] found_def)
next
  case (RN c l a r)
  note n = rb_repr_left [OF RN.prems(1)]
  have "get_number s a = Some (kf a)" using RN.prems(2) by (simp add: keyed_def get_number_key)
  moreover have "keyed number_of s kf (set (inorder l))" "keyed number_of s kf (set (inorder r))"
    using RN.prems(2) by (auto simp: keyed_def)
  ultimately show ?case
    using RN.IH(1) [OF n(4)] RN.IH(2) [OF n(5)] n(1-3)
    by (simp add: number_find_loop.simps [of s k a] number_cmp_def found_def)
qed

lemma string_descend_ok:
  assumes "rb_repr s (plug C t)" "keyed string_key s kf (set (inorder t))"
  shows "string_descend s k (link_of C) (cpar C) = Some (descent_result (descend strcmp kf k C t))"
  using assms
proof (induction t arbitrary: C)
  case RL
  then show ?case
    using read_link_of [of s C RL] by (simp add: string_descend.simps [of s k] descent_result_def)
next
  case (RN c l a r)
  note n = rb_repr_left [OF RN.prems(1)]
  have "get_string s a = Some (Some (kf a))" using RN.prems(2) by (simp add: keyed_def get_string_key)
  moreover have "keyed string_key s kf (set (inorder l))" "keyed string_key s kf (set (inorder r))"
    using RN.prems(2) by (auto simp: keyed_def)
  ultimately show ?case
    using RN.IH(1) [OF n(4)] RN.IH(2) [OF n(5)] read_link_of [OF RN.prems(1)] n(1)
    by (simp add: string_descend.simps [of s k "link_of C"] descent_result_def)
qed

lemma string_find_loop_ok:
  assumes "rb_repr s (plug C t)" "keyed string_key s kf (set (inorder t))"
  shows "string_find_loop s k (ptr t) = Some (found (descend strcmp kf k C t))"
  using assms
proof (induction t arbitrary: C)
  case RL
  then show ?case by (simp add: string_find_loop.simps [of s k] found_def)
next
  case (RN c l a r)
  note n = rb_repr_left [OF RN.prems(1)]
  have "get_string s a = Some (Some (kf a))" using RN.prems(2) by (simp add: keyed_def get_string_key)
  moreover have "keyed string_key s kf (set (inorder l))" "keyed string_key s kf (set (inorder r))"
    using RN.prems(2) by (auto simp: keyed_def)
  ultimately show ?case
    using RN.IH(1) [OF n(4)] RN.IH(2) [OF n(5)] n(1-3)
    by (simp add: string_find_loop.simps [of s k a] found_def)
qed

section \<open>Search orders\<close>

locale search_order =
  fixes cmp :: "'k \<Rightarrow> 'k \<Rightarrow> int" and keyof :: "rb_union \<Rightarrow> 'k option"
  assumes cmp_zero: "cmp x y = 0 \<longleftrightarrow> x = y"
    and cmp_swap: "cmp x y < 0 \<longleftrightarrow> cmp y x > 0"
    and cmp_trans: "cmp x y < 0 \<Longrightarrow> cmp y z < 0 \<Longrightarrow> cmp x z < 0"
begin

lemma descend_found:
  "descend cmp kf k C t = Inr a \<Longrightarrow> a \<in> set (inorder t) \<and> kf a = k"
  by (induction t arbitrary: C) (auto simp: cmp_zero split: if_splits dest: antisym)

lemma descend_plug: "descend cmp kf k C t = Inl C' \<Longrightarrow> plug C' RL = plug C t"
  by (induction t arbitrary: C) (auto split: if_splits)

text \<open>The hole the descent ends in is where the key belongs.\<close>

lemma descend_bounds:
  assumes "descend cmp kf k C t = Inl C'" "ordered cmp kf (inorder t)"
    "\<forall>a \<in> set (before C). cmp (kf a) k < 0" "\<forall>a \<in> set (after C). cmp k (kf a) < 0"
  shows "(\<forall>a \<in> set (before C'). cmp (kf a) k < 0) \<and> (\<forall>a \<in> set (after C'). cmp k (kf a) < 0)"
  using assms
proof (induction t arbitrary: C)
  case (RN c l a r)
  have o: "ordered cmp kf (inorder l)" "ordered cmp kf (inorder r)"
    and lt: "\<forall>b \<in> set (inorder l). cmp (kf b) (kf a) < 0" "\<forall>b \<in> set (inorder r). cmp (kf a) (kf b) < 0"
    using RN.prems(2) by (auto simp: ordered_def sorted_wrt_append)
  consider "cmp k (kf a) < 0" | "cmp (kf a) k < 0"
    using RN.prems(1) cmp_swap [of "kf a" k] by (auto split: if_splits)
  then show ?case
  proof cases
    case 1
    then have "\<forall>b \<in> set (after ((L, c, a, r) # C)). cmp k (kf b) < 0"
      using lt(2) RN.prems(4) cmp_trans [OF 1] by auto
    then show ?thesis using RN.IH(1) [of "(L, c, a, r) # C"] RN.prems 1 o by simp
  next
    case 2
    then have "\<forall>b \<in> set (before ((R, c, a, l) # C)). cmp (kf b) k < 0"
      using lt(1) RN.prems(3) cmp_trans [OF _ 2] by auto
    then show ?thesis using RN.IH(2) [of "(R, c, a, l) # C"] RN.prems 2 o cmp_swap [of "kf a" k]
      by (auto split: if_splits)
  qed
qed simp

lemma descend_missing:
  assumes "descend cmp kf k [] T = Inl C" "ordered cmp kf (inorder T)"
  shows "plug C RL = T" "\<forall>a \<in> set (inorder T). kf a \<noteq> k"
    "\<forall>a \<in> set (before C). cmp (kf a) k < 0" "\<forall>a \<in> set (after C). cmp k (kf a) < 0"
proof -
  show p: "plug C RL = T" using descend_plug [OF assms(1)] by simp
  from descend_bounds [OF assms] show b: "\<forall>a \<in> set (before C). cmp (kf a) k < 0"
    and a: "\<forall>a \<in> set (after C). cmp k (kf a) < 0" by auto
  have "inorder T = before C @ after C" using p inorder_plug [of C RL] by simp
  with a b cmp_zero show "\<forall>a \<in> set (inorder T). kf a \<noteq> k"
    by (auto) (metis less_irrefl)+
qed

end

interpretation num: search_order number_cmp number_of
  by unfold_locales (auto simp: number_cmp_def intro: signed_word_eqI)

interpretation str: search_order strcmp string_key
proof
  fix x y z :: string
  show "strcmp x y = 0 \<longleftrightarrow> x = y" by simp
  show "strcmp x y < 0 \<longleftrightarrow> 0 < strcmp y x" using strcmp_neg [of x y] by linarith
  show "strcmp x y < 0 \<Longrightarrow> strcmp y z < 0 \<Longrightarrow> strcmp x z < 0" by (rule strcmp_less_trans)
qed

section \<open>Linking and balancing a new node\<close>

lemma link_node_ok:
  assumes "rb_repr s (plug C RL)" "rb_nodes s n \<noteq> None" "n \<noteq> NULL" "aligned4 n"
    "n \<notin> set (inorder (plug C RL))"
  shows "\<exists>s'. adx_rbtree_link_node s n (cpar C) (link_of C) = Some s' \<and>
     rb_view s (insert n (set (inorder (plug C RL)))) s' (plug C (RN False RL n RL))"
proof -
  obtain nd where nd: "rb_nodes s n = Some nd" using assms(2) by auto
  let ?n = "nd\<lparr>rb_parent_color := cpar C, rb_right := NULL, rb_left := NULL\<rparr>"
  define s1 where "s1 = s\<lparr>rb_nodes := (rb_nodes s)(n \<mapsto> ?n)\<rparr>"
  have d: "crepr s C NULL" "distinct (before C @ after C)" "n \<notin> caddrs C"
    using assms(1,5) by (auto simp: rb_repr_plug inorder_plug)
  have k1: "rb_keeps {n} s s1" "rb_node s1 = rb_node s"
    using nd by (auto simp: s1_def rb_keeps_def rb_read_def)
  have c1: "crepr s1 C NULL" by (rule crepr_keeps [OF d(1) k1]) (use d(3) in auto)
  have cell: "cell s1 n (cpar C) False NULL NULL"
    using assms(3,4) by (simp add: cell_def s1_def pack_link)
  have "\<exists>s'. write_link s1 (link_of C) n = Some s' \<and> crepr s' C n \<and> rb_keeps (caddrs C) s1 s'"
  proof (cases C)
    case Nil
    then show ?thesis by (auto simp: rb_keeps_def rb_read_def)
  next
    case (Cons f C')
    obtain e c a x where f: "f = (e, c, a, x)" by (cases f)
    with Cons c1 have v: "dcell e s1 a (cpar C') c NULL (ptr x)" "repr s1 a x" "crepr s1 C' a" by auto
    from set_child_dcell [OF v(1), of n] obtain s' where
      s': "set_child e s1 a n = Some s'" "dcell e s' a (cpar C') c n (ptr x)" "rb_keeps {a} s1 s'"
        "rb_node s' = rb_node s1" by blast
    have "a \<notin> caddrs C'" "a \<notin> set (inorder x)" using d(2) Cons f by (auto split: if_splits)
    then have "crepr s' C' a" "repr s' a x" using v s'(3,4) by (auto intro: crepr_keeps repr_keeps)
    moreover have "rb_keeps (caddrs C) s1 s'"
      by (rule rb_keeps_mono [OF s'(3)]) (use Cons f in \<open>auto split: if_splits\<close>)
    ultimately show ?thesis using s' Cons f by (cases e) auto
  qed
  then obtain s' where
    s': "write_link s1 (link_of C) n = Some s'" "crepr s' C n" "rb_keeps (caddrs C) s1 s'" by blast
  have "adx_rbtree_link_node s n (cpar C) (link_of C) = Some s'"
    using nd s'(1) by (simp add: adx_rbtree_link_node_def rb_write_def s1_def)
  moreover have "cell s' n (cpar C) False NULL NULL"
    using cell cell_frame [of s' n s1] rb_keeps_nodes [OF s'(3) d(3)] by simp
  moreover have "rb_keeps (insert n (set (inorder (plug C RL)))) s s'"
    using rb_keeps_trans [OF k1(1) s'(3)] by (simp add: inorder_plug)
  ultimately show ?thesis using s'(2) d by (auto simp: rb_view_def rb_repr_plug inorder_plug)
qed

lemma link_insert_ok:
  assumes "rb_repr s (plug C RL)" "rb_inv (plug C RL)" "rb_nodes s n \<noteq> None" "n \<noteq> NULL" "aligned4 n"
    "n \<notin> set (inorder (plug C RL))"
  shows "\<exists>s1 s' T'. adx_rbtree_link_node s n (cpar C) (link_of C) = Some s1 \<and>
     adx_rbtree_insert_color s1 n = Some s' \<and> rb_repr s' T' \<and> rb_inv T' \<and>
     inorder T' = before C @ n # after C \<and> rb_keeps (insert n (caddrs C)) s s'"
proof -
  let ?t = "RN False RL n RL"
  from link_node_ok [OF assms(1,3-6)] obtain s1 where
    s1: "adx_rbtree_link_node s n (cpar C) (link_of C) = Some s1"
      "rb_view s (insert n (set (inorder (plug C RL)))) s1 (plug C ?t)" by blast
  have root: "C \<noteq> [] \<Longrightarrow> \<not> red (plug C ?t)" using assms(2) red_plug [of C ?t RL] by (simp add: rb_inv_def)
  have "cinv C (bh ?t)" using assms(2) inv_plug [of C RL] by (simp add: rb_inv_def)
  then have "invc (ins_fix C ?t) \<and> invh (ins_fix C ?t)" using root by (intro ins_fix_inv) auto
  then have "rb_inv (blacken (ins_fix C ?t))" by (simp add: rb_inv_def)
  moreover have "inorder (blacken (ins_fix C ?t)) = before C @ n # after C"
    by (simp add: inorder_ins_fix inorder_plug)
  moreover obtain s' where "adx_rbtree_insert_color s1 n = Some s'"
    "rb_view s (insert n (set (inorder (plug C RL)))) s' (blacken (ins_fix C ?t))"
    using adx_rbtree_insert_color_ok [OF s1(2) _ root] by auto
  ultimately show ?thesis using s1(1) by (auto simp: rb_view_def inorder_plug)
qed

section \<open>The index as a finite map\<close>

lemma node_key_keeps: "rb_keeps A s s' \<Longrightarrow> node_key keyof s' a = node_key keyof s a"
  by (simp add: rb_keeps_def node_key_def)

lemma rb_index_addr: "rb_index cmp keyof s m \<Longrightarrow> m k = Some a \<Longrightarrow> a \<noteq> NULL \<and> node_key keyof s a = Some k"
proof -
  assume "rb_index cmp keyof s m" "m k = Some a"
  then obtain T kf where T: "rb_tree cmp keyof s T kf" "a \<in> set (inorder T)" "kf a = k"
    by (auto simp: rb_index_def)
  have "repr s par t \<Longrightarrow> a \<in> set (inorder t) \<Longrightarrow> a \<noteq> NULL" for par t
    by (induction t arbitrary: par) (auto simp: cell_def)
  with T show ?thesis by (auto simp: rb_tree_def rb_repr_def keyed_def)
qed

definition index_of :: "rbt \<Rightarrow> (addr \<Rightarrow> 'k) \<Rightarrow> ('k \<rightharpoonup> addr) \<Rightarrow> bool" where
  "index_of T kf m \<longleftrightarrow> (\<forall>k a. m k = Some a \<longleftrightarrow> a \<in> set (inorder T) \<and> kf a = k)"

lemma rb_index_iff:
  "rb_index cmp keyof s m \<longleftrightarrow> (\<exists>T kf. rb_tree cmp keyof s T kf \<and> index_of T kf m)"
  by (simp add: rb_index_def index_of_def)

lemma index_of_ran: "index_of T kf m \<Longrightarrow> ran m = set (inorder T)"
  by (auto simp: index_of_def ran_def)

lemma rb_index_empty: "rb_node s = NULL \<Longrightarrow> rb_index cmp keyof s Map.empty"
  unfolding rb_index_def
  by (rule exI [of _ RL]) (auto simp: rb_tree_def rb_repr_def rb_inv_def keyed_def ordered_def)

lemma ordered_upd [simp]: "n \<notin> set xs \<Longrightarrow> ordered cmp (kf(n := k)) xs = ordered cmp kf xs"
  unfolding ordered_def by (induction xs) auto

lemma ordered_append:
  "ordered cmp kf (xs @ ys) \<longleftrightarrow> ordered cmp kf xs \<and> ordered cmp kf ys \<and>
     (\<forall>x \<in> set xs. \<forall>y \<in> set ys. cmp (kf x) (kf y) < 0)"
  by (simp add: ordered_def sorted_wrt_append)

lemma ordered_Cons:
  "ordered cmp kf (x # xs) \<longleftrightarrow> (\<forall>y \<in> set xs. cmp (kf x) (kf y) < 0) \<and> ordered cmp kf xs"
  by (simp add: ordered_def)

context search_order
begin

lemma index_find:
  assumes "rb_tree cmp keyof s T kf" "index_of T kf m"
  shows "found (descend cmp kf k [] T) = (case m k of None \<Rightarrow> NULL | Some a \<Rightarrow> a)"
proof (cases "descend cmp kf k [] T")
  case (Inl C)
  with assms descend_missing(2) [OF Inl] have "m k = None"
    by (cases "m k") (auto simp: rb_tree_def index_of_def)
  with Inl show ?thesis by (simp add: found_def)
next
  case (Inr a)
  with assms descend_found [OF Inr] have "m k = Some a" by (simp add: index_of_def)
  with Inr show ?thesis by (simp add: found_def)
qed

lemma index_present:
  assumes "rb_tree cmp keyof s T kf" "index_of T kf m" "m k \<noteq> None"
  shows "\<exists>a. descend cmp kf k [] T = Inr a"
proof (cases "descend cmp kf k [] T")
  case (Inl C)
  with assms descend_missing(2) [OF Inl] show ?thesis by (auto simp: rb_tree_def index_of_def)
qed auto

lemma index_add:
  assumes "rb_tree cmp keyof s T kf" "index_of T kf m" "m k = None" "n \<notin> ran m"
    "node_key keyof s n = Some k" "n \<noteq> NULL" "aligned4 n"
  shows "\<exists>C s1 s'. descend cmp kf k [] T = Inl C \<and> (cpar C = NULL \<longleftrightarrow> m = Map.empty) \<and>
     adx_rbtree_link_node s n (cpar C) (link_of C) = Some s1 \<and>
     adx_rbtree_insert_color s1 n = Some s' \<and> rb_index cmp keyof s' (m(k \<mapsto> n)) \<and>
     rb_keeps (insert n (ran m)) s s'"
proof -
  from assms(1) have T: "rb_repr s T" "rb_inv T" "keyed keyof s kf (set (inorder T))"
    "ordered cmp kf (inorder T)" by (auto simp: rb_tree_def)
  have "m k = Some a" if "descend cmp kf k [] T = Inr a" for a
    using descend_found [OF that] assms(2) by (simp add: index_of_def)
  with assms(3) obtain C where C: "descend cmp kf k [] T = Inl C" by (cases "descend cmp kf k [] T") auto
  note m = descend_missing [OF C T(4)]
  have io: "inorder T = before C @ after C" using m(1) inorder_plug [of C RL] by simp
  have n: "n \<notin> set (inorder T)" using assms(4) index_of_ran [OF assms(2)] by simp
  have "rb_nodes s n \<noteq> None" using assms(5) by (auto simp: node_key_def rb_read_def)
  with link_insert_ok [of s C n] T m(1) n assms(6,7) obtain s1 s' T' where
    s': "adx_rbtree_link_node s n (cpar C) (link_of C) = Some s1"
      "adx_rbtree_insert_color s1 n = Some s'" "rb_repr s' T'" "rb_inv T'"
      "inorder T' = before C @ n # after C" "rb_keeps (insert n (caddrs C)) s s'" by auto
  let ?kf = "kf(n := k)"
  have eq: "?kf a = kf a" if "a \<in> set (inorder T)" for a using that n by auto
  have "keyed keyof s' ?kf (set (inorder T'))"
    using T(3) assms(5) s'(5) n io by (auto simp: keyed_def node_key_keeps [OF s'(6)])
  moreover have "ordered cmp ?kf (inorder T')"
    using T(4) m(3,4) n io unfolding s'(5) by (auto simp: ordered_append ordered_Cons)
  moreover have "index_of T' ?kf (m(k \<mapsto> n))"
    using assms(2,3) n m(2) s'(5) io by (auto simp: index_of_def)
  ultimately have "rb_index cmp keyof s' (m(k \<mapsto> n))"
    using s'(3,4) by (auto simp: rb_index_iff rb_tree_def)
  moreover have rn: "ran m = caddrs C" using index_of_ran [OF assms(2)] io by simp
  moreover have "m = Map.empty \<longleftrightarrow> ran m = {}" by (auto simp: ran_def fun_eq_iff) (metis not_None_eq)
  moreover have "caddrs C = {} \<longleftrightarrow> C = []" by (cases C) (auto split: if_splits)
  moreover have "cpar C = NULL \<longleftrightarrow> C = []" using rb_repr_cpar(1) [of s C RL] T(1) m(1) by simp
  ultimately show ?thesis using C s'(1,2,6) by auto
qed

end

section \<open>The keyed operations\<close>

text \<open>
  The number tree: a find returns what the map holds; an add of a new key extends the map, an add
  of a key that is present changes nothing and returns a null pointer.  The pointer an add
  returns is the node the new one was linked under, so it is null for the first node as well.
\<close>

abbreviation number_index :: "rb_state \<Rightarrow> (32 word \<rightharpoonup> addr) \<Rightarrow> bool" where
  "number_index \<equiv> rb_index number_cmp number_of"

abbreviation string_index :: "rb_state \<Rightarrow> (string \<rightharpoonup> addr) \<Rightarrow> bool" where
  "string_index \<equiv> rb_index strcmp string_key"

lemma number_find_index:
  assumes "number_index s m"
  shows "adx_rbtree_number_find s k = Some (case m k of None \<Rightarrow> NULL | Some a \<Rightarrow> a)"
proof -
  from assms obtain T kf where T: "rb_tree number_cmp number_of s T kf" "index_of T kf m"
    by (auto simp: rb_index_iff)
  then have r: "rb_repr s (plug [] T)" "keyed number_of s kf (set (inorder T))" "rb_node s = ptr T"
    by (auto simp: rb_tree_def rb_repr_def)
  show ?thesis
    using number_find_loop_ok [OF r(1,2), of k] r(3) num.index_find [OF T]
    by (simp add: adx_rbtree_number_find_def)
qed

lemma string_find_index:
  assumes "string_index s m"
  shows "adx_rbtree_string_find s (Some k) = Some (case m k of None \<Rightarrow> NULL | Some a \<Rightarrow> a)"
proof -
  from assms obtain T kf where T: "rb_tree strcmp string_key s T kf" "index_of T kf m"
    by (auto simp: rb_index_iff)
  then have r: "rb_repr s (plug [] T)" "keyed string_key s kf (set (inorder T))" "rb_node s = ptr T"
    by (auto simp: rb_tree_def rb_repr_def)
  show ?thesis
    using string_find_loop_ok [OF r(1,2), of k] r(3) str.index_find [OF T]
    by (simp add: adx_rbtree_string_find_def)
qed

lemma number_add_present:
  assumes "number_index s m" "node_key number_of s n = Some k" "m k \<noteq> None"
  shows "adx_rbtree_number_add s n = Some (s, NULL)"
proof -
  from assms obtain T kf where T: "rb_tree number_cmp number_of s T kf" "index_of T kf m"
    by (auto simp: rb_index_iff)
  then have r: "rb_repr s (plug [] T)" "keyed number_of s kf (set (inorder T))" by (auto simp: rb_tree_def)
  from num.index_present [OF T assms(3)] number_descend_ok [OF r, of k] assms(2)
  show ?thesis by (auto simp: adx_rbtree_number_add_def get_number_key descent_result_def)
qed

lemma number_add_index:
  assumes "number_index s m" "node_key number_of s n = Some k" "m k = None" "n \<notin> ran m"
    "n \<noteq> NULL" "aligned4 n"
  shows "\<exists>s' p. adx_rbtree_number_add s n = Some (s', p) \<and> number_index s' (m(k \<mapsto> n)) \<and>
     rb_keeps (insert n (ran m)) s s' \<and> (p = NULL \<longleftrightarrow> m = Map.empty)"
proof -
  from assms obtain T kf where T: "rb_tree number_cmp number_of s T kf" "index_of T kf m"
    by (auto simp: rb_index_iff)
  then have r: "rb_repr s (plug [] T)" "keyed number_of s kf (set (inorder T))" by (auto simp: rb_tree_def)
  from num.index_add [OF T assms(3,4,2,5,6)] number_descend_ok [OF r, of k] assms(2)
  show ?thesis by (auto simp: adx_rbtree_number_add_def get_number_key descent_result_def)
qed

lemma string_add_present:
  assumes "string_index s m" "node_key string_key s n = Some k" "m k \<noteq> None"
  shows "adx_rbtree_string_add s n = Some (s, NULL)"
proof -
  from assms obtain T kf where T: "rb_tree strcmp string_key s T kf" "index_of T kf m"
    by (auto simp: rb_index_iff)
  then have r: "rb_repr s (plug [] T)" "keyed string_key s kf (set (inorder T))" by (auto simp: rb_tree_def)
  from str.index_present [OF T assms(3)] string_descend_ok [OF r, of k] assms(2)
  show ?thesis by (auto simp: adx_rbtree_string_add_def get_string_key descent_result_def)
qed

lemma string_add_index:
  assumes "string_index s m" "node_key string_key s n = Some k" "m k = None" "n \<notin> ran m"
    "n \<noteq> NULL" "aligned4 n"
  shows "\<exists>s' p. adx_rbtree_string_add s n = Some (s', p) \<and> string_index s' (m(k \<mapsto> n)) \<and>
     rb_keeps (insert n (ran m)) s s' \<and> (p = NULL \<longleftrightarrow> m = Map.empty)"
proof -
  from assms obtain T kf where T: "rb_tree strcmp string_key s T kf" "index_of T kf m"
    by (auto simp: rb_index_iff)
  then have r: "rb_repr s (plug [] T)" "keyed string_key s kf (set (inorder T))" by (auto simp: rb_tree_def)
  from str.index_add [OF T assms(3,4,2,5,6)] string_descend_ok [OF r, of k] assms(2)
  show ?thesis by (auto simp: adx_rbtree_string_add_def get_string_key descent_result_def)
qed

lemma string_add_null:
  assumes "get_string s n = Some None"
  shows "adx_rbtree_string_add s n = Some (s, NULL)"
  using assms by (simp add: adx_rbtree_string_add_def)

end
