(* ===== verification/Adx_Rbtree_Delete.thy ===== *)
theory Adx_Rbtree_Delete
  imports Adx_Rbtree_Search
begin

text \<open>
  Correctness of \<open>adx_rbtree_delete\<close> and \<open>adx_rbtree_delete_color\<close>.  \<open>del_fix C t\<close> is the
  rebalancing after the hole of \<open>C\<close> lost one black level: the pointer loop computes it, and it
  restores the red-black invariant without changing the order of the nodes.
\<close>

section \<open>The rebalancing as a function\<close>

fun redden :: "rbt \<Rightarrow> rbt" where
  "redden (RN c l a r) = RN False l a r"
| "redden RL = RL"

definition kids_black :: "rbt \<Rightarrow> bool" where
  "kids_black t \<longleftrightarrow> \<not> red (sub L t) \<and> \<not> red (sub R t)"

text \<open>The sibling after the inner rotation, if its far child is black.\<close>

definition del_inner :: "dir \<Rightarrow> rbt \<Rightarrow> rbt" where
  "del_inner d w =
     (if red (sub (opp d) w) then w
      else let n = sub d w in
        mk d True (sub d n) (ptr n) (mk d False (sub (opp d) n) (ptr w) (sub (opp d) w)))"

definition del_rot :: "dir \<Rightarrow> bool \<Rightarrow> addr \<Rightarrow> rbt \<Rightarrow> rbt \<Rightarrow> rbt" where
  "del_rot d c p t w =
     (let w = del_inner d w in
      mk d c (mk d True t p (sub d w)) (ptr w) (blacken (sub (opp d) w)))"

fun del_fix :: "ctx \<Rightarrow> rbt \<Rightarrow> rbt" where
  "del_fix [] t = blacken t"
| "del_fix ((d, c, p, w) # C) t =
     (if red t then plug ((d, c, p, w) # C) (blacken t)
      else if red w then
        (let C' = (d, True, ptr w, sub (opp d) w) # C; v = sub d w in
         if kids_black v then plug C' (mk d True t p (redden v))
         else blacken (plug C' (del_rot d False p t v)))
      else if kids_black w then del_fix C (mk d c t p (redden w))
      else blacken (plug C (del_rot d c p t w)))"

lemma inorder_redden [simp]: "inorder (redden t) = inorder t"
  by (cases t) auto

lemma kids_black_dir: "kids_black t \<longleftrightarrow> \<not> red (sub d t) \<and> \<not> red (sub (opp d) t)"
  by (cases d) (auto simp: kids_black_def)

lemma inorder_sub:
  "t \<noteq> RL \<Longrightarrow> inorder t = (if d = L then inorder (sub d t) @ ptr t # inorder (sub (opp d) t)
     else inorder (sub (opp d) t) @ ptr t # inorder (sub d t))"
  by (cases t; cases d) auto

lemma red_not_RL: "red t \<Longrightarrow> t \<noteq> RL"
  by auto

lemma inorder_del_inner:
  assumes "\<not> kids_black w"
  shows "inorder (del_inner d w) = inorder w" "del_inner d w \<noteq> RL"
proof -
  have w: "w \<noteq> RL" using assms by (auto simp: kids_black_def)
  show "del_inner d w \<noteq> RL" using w by (simp add: del_inner_def Let_def)
  show "inorder (del_inner d w) = inorder w"
  proof (cases "red (sub (opp d) w)")
    case False
    then have "sub d w \<noteq> RL" using assms red_not_RL by (auto simp: kids_black_dir [of _ d])
    with w False show ?thesis
      by (cases d) (simp_all add: del_inner_def Let_def inorder_mk inorder_sub [of w L]
        inorder_sub [of "sub L w" L] inorder_sub [of "sub R w" R])
  qed (simp add: del_inner_def)
qed

lemma inorder_del_rot:
  "\<not> kids_black w \<Longrightarrow> inorder (del_rot d c p t w) = inorder (mk d c t p w)"
  using inorder_del_inner [of w d] inorder_sub [of "del_inner d w" d]
  by (auto simp: del_rot_def Let_def inorder_mk)

lemma inorder_del_fix: "inorder (del_fix C t) = inorder (plug C t)"
proof (induction C t rule: del_fix.induct)
  case (2 d c p w C t)
  have "red w \<Longrightarrow> inorder w = inorder (mk d False (sub d w) (ptr w) (sub (opp d) w))"
    using inorder_sub [of w d] red_not_RL by (auto simp: inorder_mk)
  with 2 show ?case
    by (auto simp: Let_def inorder_plug inorder_mk inorder_del_rot)
qed simp

section \<open>It restores the invariant\<close>

lemma inv_sub:
  assumes "invh t" "t \<noteq> RL"
  shows "invh (sub d t)" "bh (sub d t) = bh t - (if red t then 0 else 1)"
    "bh t = bh (sub d t) + (if red t then 0 else 1)"
  using assms by (cases t; cases d; auto)+

lemma invc_sub:
  assumes "invc t"
  shows "invc (sub d t)" "red t \<Longrightarrow> \<not> red (sub d t)"
  using assms by (cases t; cases d; auto)+

lemma redden_inv:
  assumes "invh t" "\<not> red t" "t \<noteq> RL" "invc t" "kids_black t"
  shows "invh (redden t)" "invc (redden t)" "Suc (bh (redden t)) = bh t" "red (redden t)"
  using assms by (cases t; auto simp: kids_black_def)+

lemma del_inner_inv:
  assumes "invh w" "invc w" "\<not> red w" "\<not> kids_black w"
  shows "invh (del_inner d w)" "invc (del_inner d w)" "\<not> red (del_inner d w)"
    "bh (del_inner d w) = bh w" "red (sub (opp d) (del_inner d w))"
proof -
  have w: "w \<noteq> RL" using assms by (auto simp: kids_black_def)
  let ?n = "sub d w"
  note iw = inv_sub [OF assms(1) w] invc_sub [OF assms(2)]
  have n: "invh (sub d ?n)" "invh (sub (opp d) ?n)" "bh (sub d ?n) = bh ?n" "bh (sub (opp d) ?n) = bh ?n"
    "invc (sub d ?n)" "invc (sub (opp d) ?n)" "\<not> red (sub (opp d) ?n)" if "\<not> red (sub (opp d) w)"
    using that assms(4) kids_black_dir [of w d] red_not_RL [of ?n] iw inv_sub [of ?n] invc_sub [of ?n] by auto
  show "invh (del_inner d w)" "invc (del_inner d w)" "\<not> red (del_inner d w)"
    "red (sub (opp d) (del_inner d w))"
    using assms n iw by (auto simp: del_inner_def Let_def)
  show "bh (del_inner d w) = bh w"
    using n iw assms(3) by (auto simp: del_inner_def Let_def)
qed

lemma del_rot_inv:
  assumes "invh w" "invc w" "\<not> red w" "\<not> kids_black w" "invh t" "invc t" "bh w = Suc (bh t)"
  shows "invh (del_rot d c p t w)" "invc (del_rot d c p t w)" "red (del_rot d c p t w) = (\<not> c)"
    "bh (del_rot d c p t w) = Suc (bh t) + (if c then 1 else 0)"
proof -
  let ?w = "del_inner d w"
  note i = del_inner_inv [OF assms(1-4), of d] inorder_del_inner(2) [OF assms(4), of d]
  note iw = inv_sub [OF i(1) i(6)] invc_sub [OF i(2)]
  have b: "bh (sub d ?w) = bh t" "bh (sub (opp d) ?w) = bh t" using iw i(3,4) assms(7) by auto
  show "invh (del_rot d c p t w)" "invc (del_rot d c p t w)" "red (del_rot d c p t w) = (\<not> c)"
    "bh (del_rot d c p t w) = Suc (bh t) + (if c then 1 else 0)"
    using iw i(5) b assms(5,6) by (auto simp: del_rot_def Let_def)
qed

lemma blacken_black: "\<not> red t \<Longrightarrow> blacken t = t"
  by (cases t) auto

lemma del_fix_inv:
  assumes "invc (blacken t)" "invh t" "cinv C (Suc (bh t))" "C \<noteq> [] \<Longrightarrow> \<not> red (plug C t)"
  shows "rb_inv (del_fix C t)"
  using assms
proof (induction C t rule: del_fix.induct)
  case (1 t)
  then show ?case by (simp add: rb_inv_def)
next
  case (2 d c p w C t)
  from 2(4) have c: "invc w" "invh w" "bh w = Suc (bh t)" "c \<or> \<not> red w \<and> \<not> ctx_red C"
    "cinv C (Suc (bh t) + (if c then 1 else 0))" by auto
  then have w: "w \<noteq> RL" by auto
  note iw = inv_sub [OF c(2) w] invc_sub [OF c(1)]
  have root: "C \<noteq> [] \<Longrightarrow> \<not> red (plug C t')" for t'
    using 2(5) red_plug [of C t' "mk d c t p w"] by simp
  show ?case
  proof (cases "red t")
    case True
    have "rb_inv (plug ((d, c, p, w) # C) (blacken t))"
      using inv_plug [of "(d, c, p, w) # C" "blacken t"] 2(2-5) red_plug [of "(d, c, p, w) # C" t "blacken t"] True
      unfolding rb_inv_def by simp
    with True show ?thesis by simp
  next
    case black: False
    then have t: "invc t" using 2(2) by (simp add: blacken_black)
    show ?thesis
    proof (cases "red w")
      case True
      let ?C = "(d, True, ptr w, sub (opp d) w) # C" and ?v = "sub d w"
      have "c" using True c(4) by simp
      have v: "invh ?v" "invc ?v" "\<not> red ?v" "bh ?v = Suc (bh t)" using iw c(3) True by auto
      then have "?v \<noteq> RL" by auto
      have C: "cinv ?C (Suc (bh t))" using iw c True by auto
      let ?k = "mk d True t p (redden ?v)" and ?r = "del_rot d False p t ?v"
      have "rb_inv (plug ?C ?k)" if "kids_black ?v"
        using inv_plug [of ?C ?k] redden_inv [OF v(1,3) \<open>?v \<noteq> RL\<close> v(2) that] v t 2(3) C
          root [of "mk d True ?k (ptr w) (sub (opp d) w)"]
        by (cases "C = []") (auto simp: rb_inv_def)
      moreover have "rb_inv (blacken (plug ?C ?r))" if "\<not> kids_black ?v"
        using inv_plug [of ?C ?r] del_rot_inv [OF v(1,2,3) that 2(3) t v(4), of d False p] C
        by (simp add: rb_inv_def del: plug.simps)
      ultimately show ?thesis using black True by (auto simp: Let_def)
    next
      case False
      let ?k = "mk d c t p (redden w)" and ?r = "del_rot d c p t w"
      have "rb_inv (del_fix C ?k)" if "kids_black w"
      proof -
        note r = redden_inv [OF c(2) False w c(1) that]
        have "invh ?k" "invc (blacken ?k)" using r 2(3) t c(3) by auto
        moreover from this(1) have "cinv C (Suc (bh ?k))" using c(5) by auto
        ultimately show ?thesis using 2(1) [OF black False that] root by blast
      qed
      moreover have "rb_inv (blacken (plug C ?r))" if "\<not> kids_black w"
        using inv_plug [of C ?r] del_rot_inv [OF c(2,1) False that 2(3) t c(3), of d c p] c(4,5)
        by (cases c) (simp_all add: rb_inv_def)
      ultimately show ?thesis using black False by auto
    qed
  qed
qed

section \<open>The pointer loop computes it\<close>

text \<open>The part of a branch after the sibling has been made black, and the whole branch.\<close>

definition delete_tail ::
    "dir \<Rightarrow> rb_state \<Rightarrow> addr \<Rightarrow> addr \<Rightarrow> (rb_state \<times> addr) option" where
  "delete_tail d s parent other = do {
     ol \<leftarrow> get_left s other;
     or \<leftarrow> get_right s other;
     lb \<leftarrow> null_or_black s ol;
     rb \<leftarrow> null_or_black s or;
     if lb \<and> rb then do {
       s \<leftarrow> rb_set_red s other;
       pp \<leftarrow> rb_parent s parent;
       delete_color_loop s parent pp }
     else do {
       (s, other) \<leftarrow> (if (if d = L then rb else lb) then do {
           s \<leftarrow> rb_set_black s (if d = L then ol else or);
           s \<leftarrow> rb_set_red s other;
           s \<leftarrow> rotate (opp d) s other;
           other \<leftarrow> get_child (opp d) s parent;
           Some (s, other) }
         else Some (s, other));
       c \<leftarrow> rb_color s parent;
       s \<leftarrow> adx_rbtree_set_color s other c;
       s \<leftarrow> rb_set_black s parent;
       far \<leftarrow> get_child (opp d) s other;
       s \<leftarrow> rb_set_black s far;
       s \<leftarrow> rotate d s parent;
       Some (s, rb_node s) } }"

definition delete_side :: "dir \<Rightarrow> rb_state \<Rightarrow> addr \<Rightarrow> (rb_state \<times> addr) option" where
  "delete_side d s parent = do {
     other \<leftarrow> get_child (opp d) s parent;
     ored \<leftarrow> rb_is_red s other;
     (s, other) \<leftarrow> (if ored then do {
         s \<leftarrow> rb_set_black s other;
         s \<leftarrow> rb_set_red s parent;
         s \<leftarrow> rotate d s parent;
         other \<leftarrow> get_child (opp d) s parent;
         Some (s, other) }
       else Some (s, other));
     delete_tail d s parent other }"

lemma delete_color_loop_side:
  "delete_color_loop s node parent = do {
     nb \<leftarrow> null_or_black s node;
     if nb \<and> node \<noteq> rb_node s then do {
       pl \<leftarrow> get_left s parent;
       if pl = node then delete_side L s parent else delete_side R s parent }
     else Some (s, node) }"
  by (subst delete_color_loop.simps) (simp add: delete_side_def delete_tail_def cong: if_cong)

lemma delete_sibling_ok:
  assumes "rb_view s0 A s (plug C (mk d c t p w))" "red w"
  shows "\<exists>s1 s2 s3. rb_set_black s (ptr w) = Some s1 \<and> rb_set_red s1 p = Some s2 \<and>
     rotate d s2 p = Some s3 \<and> get_child (opp d) s3 p = Some (ptr (sub d w)) \<and>
     rb_view s0 A s3 (plug ((d, True, ptr w, sub (opp d) w) # C) (mk d False t p (sub d w)))"
proof -
  define x a y where "x = sub d w" and "a = ptr w" and "y = sub (opp d) w"
  have w: "w = mk d False x a y"
    using mk_sub [OF red_not_RL [OF assms(2)], of d] assms(2) by (simp add: x_def a_def y_def)
  from rb_set_black_ok [of s0 A s "(opp d, c, p, t) # C" d False x a y] assms(1) obtain s1 where
    s1: "rb_set_black s a = Some s1" "rb_view s0 A s1 (plug C (mk d c t p (mk d True x a y)))"
    by (auto simp: mk_opp w)
  from rb_set_red_ok [OF s1(2)] obtain s2 where
    s2: "rb_set_red s1 p = Some s2" "rb_view s0 A s2 (plug C (mk d False t p (mk d True x a y)))" by auto
  from rotate_ok [OF s2(2)] obtain s3 where
    s3: "rotate d s2 p = Some s3" "rb_view s0 A s3 (plug ((d, True, a, y) # C) (mk d False t p x))" by auto
  from rb_repr_reads(7) [OF rb_viewD [OF s3(2)]] have "get_child (opp d) s3 p = Some (ptr x)" .
  with s1(1) s2(1) s3 show ?thesis by (auto simp: x_def a_def y_def)
qed

lemma delete_kids:
  assumes "rb_repr s (plug C (mk d c t p w))" "w \<noteq> RL"
  shows "get_left s (ptr w) = Some (ptr (sub L w))" "get_right s (ptr w) = Some (ptr (sub R w))"
    "null_or_black s (ptr (sub L w)) = Some (\<not> red (sub L w))"
    "null_or_black s (ptr (sub R w)) = Some (\<not> red (sub R w))"
proof -
  obtain wc l a r where w: "w = RN wc l a r" using assms(2) by (cases w) auto
  let ?C = "(opp d, c, p, t) # C"
  have v: "rb_repr s (plug ?C (RN wc l a r))" using assms(1) w by (simp add: mk_opp)
  note n = rb_repr_left [OF v]
  from n(2,3) rb_repr_ptr(4) [OF n(4)] rb_repr_ptr(4) [OF n(5)]
  show "get_left s (ptr w) = Some (ptr (sub L w))" "get_right s (ptr w) = Some (ptr (sub R w))"
    "null_or_black s (ptr (sub L w)) = Some (\<not> red (sub L w))"
    "null_or_black s (ptr (sub R w)) = Some (\<not> red (sub R w))" by (auto simp: w)
qed

lemma delete_tail_recolour:
  assumes "rb_view s0 A s (plug C (mk d c t p w))" "w \<noteq> RL" "kids_black w"
  shows "\<exists>s'. delete_tail d s p (ptr w) = delete_color_loop s' p (cpar C) \<and>
     rb_view s0 A s' (plug C (mk d c t p (redden w)))"
proof -
  obtain wc l a r where w: "w = mk L wc l a r" using assms(2) by (cases w) auto
  from rb_set_red_ok [of s0 A s "(opp d, c, p, t) # C" L wc l a r] assms(1) w obtain s' where
    s': "rb_set_red s a = Some s'" "rb_view s0 A s' (plug C (mk d c t p (redden w)))"
    by (auto simp: mk_opp)
  with rb_repr_reads(1) [OF rb_viewD [OF s'(2)]] delete_kids [OF rb_viewD [OF assms(1)] assms(2)] assms(3) w
  show ?thesis by (auto simp: delete_tail_def kids_black_def)
qed

text \<open>The inner rotation, and the final recolouring with the outer rotation.\<close>

lemma delete_inner_ok:
  assumes "rb_view s0 A s (plug C (mk d c t p w))" "w \<noteq> RL" "red (sub d w)"
    "\<not> red (sub (opp d) w)"
  shows "\<exists>s1 s2 s3. rb_set_black s (ptr (sub d w)) = Some s1 \<and> rb_set_red s1 (ptr w) = Some s2 \<and>
     rotate (opp d) s2 (ptr w) = Some s3 \<and> get_child (opp d) s3 p = Some (ptr (del_inner d w)) \<and>
     rb_view s0 A s3 (plug C (mk d c t p (del_inner d w)))"
proof -
  define n a y where "n = sub d w" and "a = ptr w" and "y = sub (opp d) w"
  define nx na ny where "nx = sub d n" and "na = ptr n" and "ny = sub (opp d) n"
  have w: "w = mk d (\<not> red w) n a y" using mk_sub [OF assms(2), of d] by (simp add: n_def a_def y_def)
  have n: "n = mk d False nx na ny"
    using mk_sub [OF red_not_RL, of n d] assms(3) by (simp add: n_def nx_def na_def ny_def)
  let ?C = "(opp d, c, p, t) # C"
  from assms(1) w n have "rb_view s0 A s (plug ((d, \<not> red w, a, y) # ?C) (mk d False nx na ny))"
    by (simp add: mk_opp)
  from rb_set_black_ok [OF this] obtain s1 where
    s1: "rb_set_black s na = Some s1" "rb_view s0 A s1 (plug ?C (mk d (\<not> red w) (mk d True nx na ny) a y))"
    by auto
  from rb_set_red_ok [OF s1(2)] obtain s2 where
    s2: "rb_set_red s1 a = Some s2" "rb_view s0 A s2 (plug ?C (mk d False (mk d True nx na ny) a y))" by auto
  then have "rb_view s0 A s2 (plug ?C (mk (opp d) False y a (mk (opp d) True ny na nx)))"
    by (simp add: mk_opp)
  from rotate_ok [OF this] obtain s3 where
    s3: "rotate (opp d) s2 a = Some s3" "rb_view s0 A s3 (plug ?C (mk d True nx na (mk d False ny a y)))"
    by (auto simp: mk_opp)
  have i: "del_inner d w = mk d True nx na (mk d False ny a y)"
    using assms(4) by (simp add: del_inner_def Let_def n_def a_def y_def nx_def na_def ny_def)
  have v3: "rb_view s0 A s3 (plug C (mk d c t p (del_inner d w)))" using s3(2) i by (simp add: mk_opp)
  from rb_repr_reads(7) [OF rb_viewD [OF v3]] v3 s1(1) s2(1) s3(1) show ?thesis
    by (auto simp: n_def a_def y_def na_def)
qed

lemma delete_outer_ok:
  assumes "rb_view s0 A s (plug C (mk d c t p w))" "w \<noteq> RL" "red (sub (opp d) w)"
  shows "\<exists>s1 s2 far s3 s4. rb_color s p = Some (if c then 1 else 0) \<and>
     adx_rbtree_set_color s (ptr w) (if c then 1 else 0) = Some s1 \<and>
     rb_set_black s1 p = Some s2 \<and> get_child (opp d) s2 (ptr w) = Some far \<and>
     rb_set_black s2 far = Some s3 \<and> rotate d s3 p = Some s4 \<and>
     rb_view s0 A s4 (plug C (mk d c (mk d True t p (sub d w)) (ptr w) (blacken (sub (opp d) w))))"
proof -
  define n a y where "n = sub d w" and "a = ptr w" and "y = sub (opp d) w"
  have w: "w = mk d (\<not> red w) n a y" using mk_sub [OF assms(2), of d] by (simp add: n_def a_def y_def)
  let ?C = "\<lambda>c. (opp d, c, p, t) # C"
  from assms(1) w have "rb_view s0 A s (plug (?C c) (mk d (\<not> red w) n a y))" by (simp add: mk_opp)
  from rb_set_color_ok [OF this, of c] obtain s1 where
    s1: "adx_rbtree_set_color s a (if c then 1 else 0) = Some s1"
      "rb_view s0 A s1 (plug C (mk d c t p (mk d c n a y)))" by (auto simp: mk_opp)
  from rb_set_black_ok [OF s1(2)] obtain s2 where
    s2: "rb_set_black s1 p = Some s2" "rb_view s0 A s2 (plug (?C True) (mk d c n a y))" by (auto simp: mk_opp)
  from assms(3) obtain l b r where y: "y = mk L False l b r" unfolding y_def by (cases "sub (opp d) w") auto
  have "rb_view s0 A s2 (plug ((opp d, c, a, n) # ?C True) (mk L False l b r))"
    using s2(2) y by (simp add: mk_opp)
  from rb_set_black_ok [OF this] obtain s3 where
    s3: "rb_set_black s2 b = Some s3" "rb_view s0 A s3 (plug C (mk d True t p (mk d c n a (blacken y))))"
    by (auto simp: mk_opp y)
  from rotate_ok [OF s3(2)] obtain s4 where "rotate d s3 p = Some s4"
    "rb_view s0 A s4 (plug C (mk d c (mk d True t p n) a (blacken y)))" by blast
  moreover have "get_child (opp d) s2 a = Some b"
    using rb_repr_reads(7) [OF rb_viewD [OF s2(2)]] y by simp
  ultimately show ?thesis
    using rb_repr_reads(2) [OF rb_viewD [OF assms(1)]] s1(1) s2(1) s3(1)
    by (auto simp: n_def a_def y_def)
qed

lemma delete_tail_rotate:
  assumes "rb_view s0 A s (plug C (mk d c t p w))" "\<not> kids_black w"
  shows "\<exists>s'. delete_tail d s p (ptr w) = Some (s', rb_node s') \<and>
     rb_view s0 A s' (plug C (del_rot d c p t w))"
proof -
  have w: "w \<noteq> RL" using assms by (auto simp: kids_black_def)
  note kids = delete_kids [OF rb_viewD [OF assms(1)] w]
  show ?thesis
  proof (cases "red (sub (opp d) w)")
    case True
    then have "del_inner d w = w" by (simp add: del_inner_def)
    with delete_outer_ok [OF assms(1) w True] kids True assms(2) show ?thesis
      by (cases d) (auto simp: delete_tail_def del_rot_def kids_black_def)
  next
    case False
    then have near: "red (sub d w)" using assms(2) by (simp add: kids_black_dir [of w d])
    from delete_inner_ok [OF assms(1) w near False] obtain s1 s2 s3 where
      s: "rb_set_black s (ptr (sub d w)) = Some s1" "rb_set_red s1 (ptr w) = Some s2"
        "rotate (opp d) s2 (ptr w) = Some s3" "get_child (opp d) s3 p = Some (ptr (del_inner d w))"
        "rb_view s0 A s3 (plug C (mk d c t p (del_inner d w)))" by blast
    have "red (sub (opp d) (del_inner d w))" using False by (simp add: del_inner_def Let_def)
    from delete_outer_ok [OF s(5) inorder_del_inner(2) [OF assms(2)] this] s(1-4) kids False near
    show ?thesis by (cases d) (auto simp: delete_tail_def del_rot_def Let_def)
  qed
qed

lemma blacken_node_ok:
  assumes "rb_view s0 A s (plug C t)"
  shows "\<exists>s'. (if ptr t \<noteq> NULL then rb_set_black s (ptr t) else Some s) = Some s' \<and>
     rb_view s0 A s' (plug C (blacken t))"
proof (cases t)
  case (RN c l a r)
  have "a \<noteq> NULL" using rb_repr_left(1) [of s C c l a r] rb_viewD [OF assms] RN by simp
  with rb_set_black_ok [of s0 A s C L c l a r] assms RN show ?thesis by simp
qed (use assms in simp)

lemma plug_not_RL: "t \<noteq> RL \<Longrightarrow> plug C t \<noteq> RL"
  using ptr_in(1) [of t] inorder_plug [of C t] by auto

lemma delete_loop_step:
  assumes "rb_repr s (plug ((d, c, p, w) # C) t)" "\<not> red t" "w \<noteq> RL"
  shows "delete_color_loop s (ptr t) p = delete_side d s p"
proof -
  let ?C = "(d, c, p, w) # C"
  have r: "rb_repr s (plug C (mk d c t p w))" using assms(1) by simp
  have "plug C (mk d c t p w) \<noteq> RL" by (rule plug_not_RL) simp
  then have "rb_node s \<noteq> NULL" using rb_repr_root [OF r] rb_repr_node(2) [of s "[]"] r by auto
  then have root: "ptr t \<noteq> rb_node s"
    using rb_repr_root_iff [OF assms(1)] by (cases "t = RL") auto
  have "rb_repr s (plug ((opp d, c, p, t) # C) w)" using r by (simp add: mk_opp)
  from rb_repr_node(2) [OF this assms(3)] have "ptr w \<noteq> NULL" .
  then have "ptr w \<noteq> ptr t"
    using r ptr_in(1) [OF assms(3)] ptr_in(2) [of t] by (auto simp: rb_repr_plug inorder_mk split: if_splits)
  then show ?thesis
    using rb_repr_ptr(4) [OF assms(1)] assms(2) root rb_repr_reads(6,7) [OF r]
    by (cases d) (auto simp: delete_color_loop_side)
qed

lemma delete_side_black:
  assumes "rb_repr s (plug C (mk d c t p w))" "w \<noteq> RL" "\<not> red w"
  shows "delete_side d s p = delete_tail d s p (ptr w)"
proof -
  have "rb_repr s (plug ((opp d, c, p, t) # C) w)" using assms(1) by (simp add: mk_opp)
  from rb_repr_node(3) [OF this assms(2)] rb_repr_reads(7) [OF assms(1)] assms(3)
  show ?thesis by (simp add: delete_side_def)
qed

lemma delete_side_red:
  assumes "rb_view s0 A s (plug C (mk d c t p w))" "red w"
  shows "\<exists>s'. delete_side d s p = delete_tail d s' p (ptr (sub d w)) \<and>
     rb_view s0 A s' (plug ((d, True, ptr w, sub (opp d) w) # C) (mk d False t p (sub d w)))"
proof -
  have "rb_repr s (plug ((opp d, c, p, t) # C) w)" using rb_viewD [OF assms(1)] by (simp add: mk_opp)
  from rb_repr_node(3) [OF this red_not_RL [OF assms(2)]] rb_repr_reads(7) [OF rb_viewD [OF assms(1)]]
    delete_sibling_ok [OF assms] assms(2)
  show ?thesis by (auto simp: delete_side_def simp del: plug.simps)
qed

definition delete_finish :: "rb_state \<times> addr \<Rightarrow> rb_state option" where
  "delete_finish r = (case r of (s, node) \<Rightarrow> if node \<noteq> NULL then rb_set_black s node else Some s)"

lemma adx_rbtree_delete_color_finish:
  "adx_rbtree_delete_color s node parent = do { r \<leftarrow> delete_color_loop s node parent; delete_finish r }"
  by (simp add: adx_rbtree_delete_color_def delete_finish_def)

lemma delete_color_stop:
  assumes "rb_view s0 A s (plug C t)" "red t \<or> C = []"
  shows "\<exists>s'. adx_rbtree_delete_color s (ptr t) (cpar C) = Some s' \<and>
     rb_view s0 A s' (plug C (blacken t))"
proof -
  have "ptr t = rb_node s" if "C = []" using rb_repr_root [OF rb_viewD [OF assms(1)]] that by simp
  then have "delete_color_loop s (ptr t) (cpar C) = Some (s, ptr t)"
    using rb_repr_ptr(4) [OF rb_viewD [OF assms(1)]] assms(2) by (auto simp: delete_color_loop_side)
  with blacken_node_ok [OF assms(1)] show ?thesis by (simp add: adx_rbtree_delete_color_def)
qed

lemma delete_finish_root:
  assumes "rb_view s0 A s T" "T \<noteq> RL"
  shows "\<exists>s'. delete_finish (s, rb_node s) = Some s' \<and> rb_view s0 A s' (blacken T)"
proof -
  have "rb_node s = ptr T" using rb_viewD [OF assms(1)] by (simp add: rb_repr_def)
  with blacken_node_ok [of s0 A s "[]" T] assms(1) show ?thesis by (simp add: delete_finish_def)
qed

lemma del_rot_not_RL: "del_rot d c p t w \<noteq> RL"
  by (simp add: del_rot_def Let_def)

lemma delete_color_ok:
  assumes "rb_view s0 A s (plug C t)" "invh t" "cinv C (Suc (bh t))"
  shows "\<exists>s'. adx_rbtree_delete_color s (ptr t) (cpar C) = Some s' \<and> rb_view s0 A s' (del_fix C t)"
  using assms
proof (induction C t arbitrary: s rule: del_fix.induct)
  case (1 t)
  then show ?case using delete_color_stop [of s0 A s "[]" t] by simp
next
  case (2 d c p w C t)
  from 2(4) have c: "invc w" "invh w" "bh w = Suc (bh t)" "c \<or> \<not> red w"
    "cinv C (Suc (bh t) + (if c then 1 else 0))" by auto
  then have w: "w \<noteq> RL" by auto
  have view: "rb_view s0 A s (plug C (mk d c t p w))" using 2(2) by simp
  show ?case
  proof (cases "red t")
    case True
    then show ?thesis using delete_color_stop [OF 2(2)] by simp
  next
    case False
    have run: "adx_rbtree_delete_color s (ptr t) (cpar ((d, c, p, w) # C)) =
        do { r \<leftarrow> delete_side d s p; delete_finish r }"
      using delete_loop_step [OF rb_viewD [OF 2(2)] False w] by (simp add: adx_rbtree_delete_color_finish)
    show ?thesis
    proof (cases "red w")
      case True
      let ?C = "(d, True, ptr w, sub (opp d) w) # C" and ?v = "sub d w"
      have v: "?v \<noteq> RL" using inv_sub(3) [OF c(2) w, of d] True c(3) by auto
      from delete_side_red [OF view True] obtain s1 where
        s1: "delete_side d s p = delete_tail d s1 p (ptr ?v)" "rb_view s0 A s1 (plug ?C (mk d False t p ?v))"
        by blast
      show ?thesis
      proof (cases "kids_black ?v")
        case kids: True
        from delete_tail_recolour [OF s1(2) v kids] obtain s2 where
          s2: "delete_tail d s1 p (ptr ?v) = delete_color_loop s2 p (cpar ?C)"
            "rb_view s0 A s2 (plug ?C (mk d False t p (redden ?v)))" by blast
        from delete_color_stop [OF s2(2)] run s1(1) s2(1) False True kids show ?thesis
          by (simp add: adx_rbtree_delete_color_finish Let_def)
      next
        case rot: False
        from delete_tail_rotate [OF s1(2) rot] obtain s2 where
          "delete_tail d s1 p (ptr ?v) = Some (s2, rb_node s2)"
          "rb_view s0 A s2 (plug ?C (del_rot d False p t ?v))" by blast
        with delete_finish_root [OF this(2) plug_not_RL [OF del_rot_not_RL]] run s1(1) False True rot
        show ?thesis by (simp add: Let_def)
      qed
    next
      case black: False
      note side = delete_side_black [OF rb_viewD [OF view] w black]
      show ?thesis
      proof (cases "kids_black w")
        case True
        let ?t = "mk d c t p (redden w)"
        from delete_tail_recolour [OF view w True] obtain s1 where
          s1: "delete_tail d s p (ptr w) = delete_color_loop s1 p (cpar C)"
            "rb_view s0 A s1 (plug C ?t)" by blast
        note r = redden_inv [OF c(2) black w c(1) True]
        have "invh ?t" using r 2(3) c(3) by simp
        moreover from this have "cinv C (Suc (bh ?t))" using c(5) by auto
        ultimately show ?thesis using 2(1) [OF False black True s1(2)] run side s1(1) False black True
          by (simp add: adx_rbtree_delete_color_finish)
      next
        case rot: False
        from delete_tail_rotate [OF view rot] obtain s1 where
          "delete_tail d s p (ptr w) = Some (s1, rb_node s1)"
          "rb_view s0 A s1 (plug C (del_rot d c p t w))" by blast
        with delete_finish_root [OF this(2) plug_not_RL [OF del_rot_not_RL]] run side False black rot
        show ?thesis by simp
      qed
    qed
  qed
qed

section \<open>Unlinking a node with at most one child\<close>

lemma repr_distinct_ptr: "rb_repr s (plug C t) \<Longrightarrow> distinct (inorder t)"
  by (auto simp: rb_repr_plug)

lemma unlink_ok:
  assumes view: "rb_view s0 A s (plug C (mk d c ch a RL))"
  shows "\<exists>s1 s2. set_parent_opt s (ptr ch) (cpar C) = Some s1 \<and>
     replace_child s1 (cpar C) a (ptr ch) = Some s2 \<and> rb_view s0 A s2 (plug C ch)"
proof -
  let ?t = "mk d c ch a RL"
  from view have v: "crepr s C a" "repr s a ch" "aligned4 a" "a \<noteq> NULL"
    and dist: "distinct (before C @ inorder ?t @ after C)"
    and sub: "set (inorder (plug C ?t)) \<subseteq> A" and kp: "rb_keeps A s0 s"
    by (auto simp: rb_view_def rb_repr_plug dcell_def cell_def split: if_splits)
  have io: "inorder ?t = inorder ch @ [a] \<or> inorder ?t = a # inorder ch" by (auto simp: inorder_mk)
  have dch: "distinct (inorder ch)" "distinct (before C @ after C)" "set (inorder ch) \<inter> caddrs C = {}"
    "a \<notin> caddrs C" "a \<notin> set (inorder ch)" "distinct (before C @ inorder ch @ after C)"
    using dist io by auto
  from set_parent_opt_ok [OF v(2,3) rb_view_aligned [OF view] dch(1)] obtain s1 where
    s1: "set_parent_opt s (ptr ch) (cpar C) = Some s1" "repr s1 (cpar C) ch"
      "rb_keeps (set (inorder ch)) s s1" "rb_node s1 = rb_node s" by blast
  have "crepr s1 C a" by (rule crepr_keeps [OF v(1) s1(3,4)]) (use dch in auto)
  from swap_child_ok [OF this dch(4) v(4) dch(2), of L "ptr ch"] obtain s2 where
    s2: "swap_child L s1 (cpar C) a (ptr ch) = Some s2" "crepr s2 C (ptr ch)" "rb_keeps (caddrs C) s1 s2"
    by blast
  have "repr s2 (cpar C) ch" by (rule repr_keeps [OF s1(2) s2(3)]) (use dch in auto)
  moreover have "rb_keeps A s0 s2"
    by (rule rb_keeps_mono [OF rb_keeps_trans [OF kp rb_keeps_trans [OF s1(3) s2(3)]]])
      (use sub io in \<open>auto simp: inorder_plug\<close>)
  ultimately show ?thesis
    using s1(1) s2(1,2) dch(6) sub io by (auto simp: rb_view_def rb_repr_plug inorder_plug replace_child_swap)
qed

section \<open>Taking out the leftmost node of the right subtree\<close>

lemma leftmost_ok:
  assumes "rb_repr s (plug C r)" "r \<noteq> RL"
  shows "\<exists>D nc n x. r = plug D (RN nc RL n x) \<and> list_all (\<lambda>f. fst f = L) D \<and> leftmost s (ptr r) = Some n"
  using assms
proof (induction r arbitrary: C)
  case (RN c l a y)
  note n = rb_repr_left [OF RN.prems(1)]
  show ?case
  proof (cases "l = RL")
    case True
    then show ?thesis using n by (intro exI [of _ "[]"]) (auto simp: leftmost.simps [of s a])
  next
    case False
    from RN.IH(1) [OF n(4) False] obtain D nc m x where
      D: "l = plug D (RN nc RL m x)" "list_all (\<lambda>f. fst f = L) D" "leftmost s (ptr l) = Some m" by blast
    have "ptr l \<noteq> NULL" using rb_repr_node(2) [OF n(4) False] .
    then have "leftmost s a = Some m" using n D(3) by (simp add: leftmost.simps [of s a])
    with D show ?thesis by (intro exI [of _ "D @ [(L, c, a, y)]"]) (auto simp: plug_append)
  qed
qed simp

text \<open>A context below the node \<open>par\<close>.\<close>

fun seg :: "rb_state \<Rightarrow> addr \<Rightarrow> ctx \<Rightarrow> addr \<Rightarrow> bool" where
  "seg s par [] p = True"
| "seg s par ((d, c, a, x) # C) p \<longleftrightarrow>
     dcell d s a (if C = [] then par else cpar C) c p (ptr x) \<and> repr s a x \<and> seg s par C a"

lemma repr_seg:
  "repr s par (plug D t) \<longleftrightarrow> seg s par D (ptr t) \<and> repr s (if D = [] then par else cpar D) t"
  by (induction D t rule: plug.induct) auto

lemma seg_keeps:
  "seg s par C p \<Longrightarrow> rb_keeps A s s' \<Longrightarrow> caddrs C \<inter> A = {} \<Longrightarrow> seg s' par C p"
proof (induction C arbitrary: p)
  case (Cons f C)
  obtain d c a x where f: "f = (d, c, a, x)" by (cases f)
  with Cons.prems(3) have "a \<notin> A" "set (inorder x) \<inter> A = {}" "caddrs C \<inter> A = {}"
    by (auto split: if_splits)
  with Cons f show ?case by (auto intro: dcell_keeps repr_keeps)
qed simp

lemma remove_min_ok:
  assumes "repr s a (plug D (RN nc RL n x))" "D \<noteq> []" "list_all (\<lambda>f. fst f = L) D"
    "distinct (inorder (plug D (RN nc RL n x)))" "aligned4 a"
  shows "\<exists>s1 s2. set_parent_opt s (ptr x) (cpar D) = Some s1 \<and> set_left s1 (cpar D) (ptr x) = Some s2 \<and>
     repr s2 a (plug D x) \<and> rb_keeps (set (inorder (plug D x))) s s2 \<and> rb_node s2 = rb_node s"
proof -
  obtain c q y D' where D: "D = (L, c, q, y) # D'" using assms(2,3) by (cases D) auto
  from assms(1) D have v: "dcell L s q (if D' = [] then a else cpar D') c n (ptr y)" "repr s q y"
    "seg s a D' q" "repr s n x" "aligned4 n" "aligned4 q"
    by (auto simp: repr_seg dcell_def cell_def)
  have d: "distinct (inorder x)" "q \<notin> set (inorder x)" "set (inorder x) \<inter> set (inorder y) = {}"
    "set (inorder x) \<inter> caddrs D' = {}" "q \<notin> set (inorder y)" "q \<notin> caddrs D'"
    using assms(4) D by (auto simp: inorder_plug)
  from set_parent_opt_ok [OF v(4,5,6) d(1)] obtain s1 where
    s1: "set_parent_opt s (ptr x) q = Some s1" "repr s1 q x" "rb_keeps (set (inorder x)) s s1"
      "rb_node s1 = rb_node s" by blast
  have "dcell L s1 q (if D' = [] then a else cpar D') c n (ptr y)"
    by (rule dcell_keeps [OF v(1) s1(3) d(2)])
  from set_child_dcell [OF this, of "ptr x"] obtain s2 where
    s2: "set_left s1 q (ptr x) = Some s2" "dcell L s2 q (if D' = [] then a else cpar D') c (ptr x) (ptr y)"
      "rb_keeps {q} s1 s2" "rb_node s2 = rb_node s1" by auto
  note k = rb_keeps_trans [OF s1(3) s2(3)]
  have "repr s2 q x" by (rule repr_keeps [OF s1(2) s2(3)]) (use d in auto)
  moreover have "repr s2 q y" by (rule repr_keeps [OF v(2) k]) (use d in auto)
  moreover have "seg s2 a D' q" by (rule seg_keeps [OF v(3) k]) (use d in auto)
  moreover have "rb_keeps (set (inorder (plug D x))) s s2"
    by (rule rb_keeps_mono [OF k]) (auto simp: D inorder_plug)
  ultimately show ?thesis using s1(1,4) s2(1,2,4) D by (auto simp: repr_seg dcell_def)
qed

text \<open>
  The code between the first write and the copy of the old node's word: the leftmost node \<open>n\<close>
  is taken out of the right subtree, which is hung below it.
\<close>

definition detach_min :: "rb_state \<Rightarrow> addr \<Rightarrow> addr \<Rightarrow> addr \<Rightarrow> addr \<Rightarrow> (rb_state \<times> addr) option" where
  "detach_min s old node child parent =
     (if parent = old then Some (s, node)
      else do {
        s \<leftarrow> set_parent_opt s child parent;
        s \<leftarrow> set_left s parent child;
        r \<leftarrow> get_right s old;
        s \<leftarrow> set_right s node r;
        s \<leftarrow> adx_rbtree_set_parent s r node;
        Some (s, parent) })"

lemma detach_min_ok:
  assumes r: "repr s a (plug D (RN nc RL n x))" and left: "list_all (\<lambda>f. fst f = L) D"
    and dist: "distinct (inorder (plug D (RN nc RL n x)))" "a \<notin> set (inorder (plug D (RN nc RL n x)))"
    and al: "aligned4 a" and old: "get_right s a = Some (ptr (plug D (RN nc RL n x)))"
  shows "\<exists>s' par. detach_min s a n (ptr x) (if D = [] then a else cpar D) =
       Some (s', if D = [] then n else cpar D) \<and>
     repr s' n (plug D x) \<and> cell s' n par nc NULL (ptr (plug D x)) \<and> aligned4 par \<and>
     rb_keeps (set (inorder (plug D (RN nc RL n x)))) s s' \<and> rb_node s' = rb_node s"
proof (cases "D = []")
  case True
  with assms show ?thesis by (auto simp: detach_min_def)
next
  case False
  let ?r = "plug D (RN nc RL n x)" and ?r' = "plug D x"
  have "cpar D \<in> caddrs D" using False by (cases D) (auto split: if_splits)
  then have pa: "cpar D \<noteq> a" using dist by (auto simp: inorder_plug)
  have sub: "set (inorder ?r') \<subseteq> set (inorder ?r)" "n \<notin> set (inorder ?r')" "n \<in> set (inorder ?r)"
    "distinct (inorder ?r')"
    using dist by (auto simp: inorder_plug)
  have ptr: "ptr ?r' = ptr ?r" "?r' \<noteq> RL"
  proof -
    obtain d c q y E where "D = E @ [(d, c, q, y)]" using False by (metis rev_exhaust prod_cases4)
    then show "ptr ?r' = ptr ?r" "?r' \<noteq> RL" by (simp_all add: plug_append)
  qed
  have cn: "cell s n (cpar D) nc NULL (ptr x)" "aligned4 (cpar D)"
  proof -
    show "cell s n (cpar D) nc NULL (ptr x)" using r False by (simp add: repr_seg)
    obtain d c q y E where "D = (d, c, q, y) # E" using False by (metis list.exhaust prod_cases4)
    then show "aligned4 (cpar D)" using r by (auto simp: repr_seg dcell_def cell_def split: if_splits)
  qed
  from remove_min_ok [OF r False left dist(1) al] obtain s1 s2 where
    s2: "set_parent_opt s (ptr x) (cpar D) = Some s1" "set_left s1 (cpar D) (ptr x) = Some s2"
      "repr s2 a ?r'" "rb_keeps (set (inorder ?r')) s s2" "rb_node s2 = rb_node s" by blast
  have "rb_nodes s2 a = rb_nodes s a" using rb_keeps_nodes [OF s2(4)] dist(2) sub(1) by blast
  then have old2: "get_right s2 a = Some (ptr ?r)" using old by (simp add: rb_read_def)
  have "dcell R s2 n (cpar D) nc (ptr x) NULL"
    using cn(1) cell_frame [of s2 n s] rb_keeps_nodes [OF s2(4) sub(2)] by (simp add: dcell_def)
  from set_child_dcell [OF this, of "ptr ?r"] obtain s3 where
    s3: "set_right s2 n (ptr ?r) = Some s3" "dcell R s3 n (cpar D) nc (ptr ?r) NULL"
      "rb_keeps {n} s2 s3" "rb_node s3 = rb_node s2" by auto
  have r3: "repr s3 a ?r'" by (rule repr_keeps [OF s2(3) s3(3)]) (use sub in auto)
  have "aligned4 n" using cn(1) by (simp add: cell_def)
  from set_parent_opt_ok [OF r3 al this sub(4)] obtain s4 where
    s4: "set_parent_opt s3 (ptr ?r') n = Some s4" "repr s4 n ?r'" "rb_keeps (set (inorder ?r')) s3 s4"
      "rb_node s4 = rb_node s3" by blast
  have "ptr ?r' \<noteq> NULL" using r3 repr_ptr(1) [OF r3 al] ptr(2) by simp
  then have "adx_rbtree_set_parent s3 (ptr ?r) n = Some s4" using s4(1) ptr(1) by (simp add: set_parent_opt_def)
  moreover have "cell s4 n (cpar D) nc NULL (ptr ?r')"
    using s3(2) cell_frame [of s4 n s3] rb_keeps_nodes [OF s4(3) sub(2)] ptr(1) by (simp add: dcell_def)
  moreover have "rb_keeps (set (inorder ?r)) s s4"
    by (rule rb_keeps_mono [OF rb_keeps_trans [OF rb_keeps_trans [OF s2(4) s3(3)] s4(3)]]) (use sub in auto)
  ultimately show ?thesis
    using False s2 old2 s3 s4 cn(2) pa by (auto simp: detach_min_def)
qed

section \<open>Deleting a node with two children\<close>

text \<open>The last writes: the detached node takes the word and the left child of the old one.\<close>

definition take_place :: "rb_state \<Rightarrow> addr \<Rightarrow> addr \<Rightarrow> rb_state option" where
  "take_place s old node = do {
     pc \<leftarrow> rb_read rb_parent_color s old;
     s \<leftarrow> rb_write (\<lambda>n. n\<lparr>rb_parent_color := pc\<rparr>) s node;
     l \<leftarrow> get_left s old;
     s \<leftarrow> set_left s node l;
     adx_rbtree_set_parent s l node }"

lemma delete_both_phases:
  "delete_both s old = do {
     node \<leftarrow> get_right s old;
     node \<leftarrow> leftmost s node;
     op \<leftarrow> rb_parent s old;
     s \<leftarrow> replace_child s op old node;
     child \<leftarrow> get_right s node;
     parent \<leftarrow> rb_parent s node;
     color \<leftarrow> rb_color s node;
     (s, parent) \<leftarrow> detach_min s old node child parent;
     s \<leftarrow> take_place s old node;
     if color = 1 then adx_rbtree_delete_color s child parent else Some s }"
  by (simp add: delete_both_def detach_min_def take_place_def set_parent_opt_def split_def cong: if_cong)

lemma take_place_ok:
  assumes "cell s a par c (ptr l) p" "repr s a l" "l \<noteq> RL" "aligned4 par" "aligned4 a"
    "cell s n par' nc NULL (ptr r)" "repr s n r" "n \<noteq> a"
    "n \<notin> set (inorder l)" "n \<notin> set (inorder r)" "distinct (inorder l)"
    "set (inorder l) \<inter> set (inorder r) = {}"
  shows "\<exists>s'. take_place s a n = Some s' \<and> repr s' par (RN c l n r) \<and>
     rb_keeps (insert n (set (inorder l))) s s' \<and> rb_node s' = rb_node s"
proof -
  note old = rb_read_cell [OF assms(1)]
  have al: "aligned4 n" using assms(6) by (simp add: cell_def)
  from rb_write_pc [OF assms(6), of "\<lambda>_. pack par c" par c] obtain s1 where
    s1: "rb_write (\<lambda>n. n\<lparr>rb_parent_color := pack par c\<rparr>) s n = Some s1" "cell s1 n par c NULL (ptr r)"
      "rb_keeps {n} s s1" "rb_node s1 = rb_node s" by auto
  have "cell s1 a par c (ptr l) p"
    using assms(1,8) cell_frame [of s1 a s] rb_keeps_nodes [OF s1(3), of a] by simp
  then have old1: "get_left s1 a = Some (ptr l)" by (rule rb_read_cell)
  have "dcell L s1 n par c NULL (ptr r)" using s1(2) by (simp add: dcell_def)
  from set_child_dcell [OF this, of "ptr l"] obtain s2 where
    s2: "set_left s1 n (ptr l) = Some s2" "dcell L s2 n par c (ptr l) (ptr r)" "rb_keeps {n} s1 s2"
      "rb_node s2 = rb_node s1" by auto
  note k2 = rb_keeps_trans [OF s1(3) s2(3)]
  have "repr s2 a l" by (rule repr_keeps [OF assms(2) k2]) (use assms in auto)
  from set_parent_opt_ok [OF this assms(5) al assms(11)] obtain s3 where
    s3: "set_parent_opt s2 (ptr l) n = Some s3" "repr s3 n l" "rb_keeps (set (inorder l)) s2 s3"
      "rb_node s3 = rb_node s2" by blast
  have "ptr l \<noteq> NULL" using repr_ptr(1) [OF assms(2,5)] assms(3) by simp
  then have "take_place s a n = Some s3"
    using old(3) s1(1) old1 s2(1) s3(1) by (simp add: take_place_def set_parent_opt_def)
  moreover have "repr s3 n r"
    by (rule repr_keeps [OF assms(7) rb_keeps_trans [OF k2 s3(3)]]) (use assms in auto)
  moreover have "dcell L s3 n par c (ptr l) (ptr r)" by (rule dcell_keeps [OF s2(2) s3(3) assms(9)])
  moreover have "rb_keeps (insert n (set (inorder l))) s s3"
    by (rule rb_keeps_mono [OF rb_keeps_trans [OF k2 s3(3)]]) auto
  ultimately show ?thesis using s3(2,4) s2(4) s1(4) by (auto simp: dcell_def)
qed

lemma splice_ok:
  assumes view: "rb_view s0 A s (plug C (RN c l a r))" and l: "l \<noteq> RL"
    and r: "r = plug D (RN nc RL n x)" and left: "list_all (\<lambda>f. fst f = L) D"
    and min: "leftmost s (ptr r) = Some n"
  defines "E \<equiv> D @ (R, c, n, l) # C"
  shows "\<exists>s'. delete_both s a = (if nc then adx_rbtree_delete_color s' (ptr x) (cpar E) else Some s') \<and>
     rb_view s0 A s' (plug E x)"
proof -
  let ?r' = "plug D x" and ?q = "if D = [] then a else cpar D"
  from view have v: "crepr s C a" "cell s a (cpar C) c (ptr l) (ptr r)" "repr s a l" "repr s a r"
    "aligned4 a" "a \<noteq> NULL"
    and dist: "distinct (before C @ inorder (RN c l a r) @ after C)"
    and sub: "set (inorder (plug C (RN c l a r))) \<subseteq> A" and kp: "rb_keeps A s0 s"
    by (auto simp: rb_view_def rb_repr_plug cell_def)
  have ir: "inorder r = before D @ n # inorder x @ after D" "inorder ?r' = before D @ inorder x @ after D"
    by (simp_all add: r inorder_plug)
  have al: "aligned4 (cpar C)" by (rule rb_view_aligned [OF view])
  have d: "a \<notin> caddrs C" "a \<notin> set (inorder l)" "a \<notin> set (inorder r)" "distinct (before C @ after C)"
    "set (inorder l) \<inter> caddrs C = {}" "set (inorder r) \<inter> caddrs C = {}" "distinct (inorder r)"
    "set (inorder l) \<inter> set (inorder r) = {}" "distinct (inorder l)" "n \<in> set (inorder r)"
    "set (inorder ?r') \<subseteq> set (inorder r)" "n \<notin> set (inorder ?r')"
    "distinct (before C @ inorder l @ n # inorder ?r' @ after C)"
    using dist ir by auto
  from swap_child_ok [OF v(1) d(1) v(6) d(4), of L n] obtain s1 where
    s1: "swap_child L s (cpar C) a n = Some s1" "crepr s1 C n" "rb_keeps (caddrs C) s s1" by blast
  have r1: "repr s1 a r" "repr s1 a l" "cell s1 a (cpar C) c (ptr l) (ptr r)"
    using repr_keeps [OF v(4) s1(3)] repr_keeps [OF v(3) s1(3)] d v(2) cell_frame [of s1 a s]
      rb_keeps_nodes [OF s1(3) d(1)] by auto
  have cn: "cell s1 n ?q nc NULL (ptr x)" "aligned4 ?q"
  proof -
    show "cell s1 n ?q nc NULL (ptr x)" using r1(1) by (simp add: r repr_seg)
    show "aligned4 ?q" using r1(1) v(5)
      by (cases D) (auto simp: r repr_seg dcell_def cell_def split: if_splits)
  qed
  from detach_min_ok [OF r1(1) [unfolded r] left d(7) [unfolded r] d(3) [unfolded r] v(5)]
    rb_read_cell(2) [OF r1(3)] obtain s2 par where
    s2: "detach_min s1 a n (ptr x) ?q = Some (s2, if D = [] then n else cpar D)" "repr s2 n ?r'"
      "cell s2 n par nc NULL (ptr ?r')" "rb_keeps (set (inorder r)) s1 s2" "rb_node s2 = rb_node s1"
    by (auto simp: r)
  have a2: "cell s2 a (cpar C) c (ptr l) (ptr r)"
    using r1(3) cell_frame [of s2 a s1] rb_keeps_nodes [OF s2(4) d(3)] by simp
  have l2: "repr s2 a l" by (rule repr_keeps [OF r1(2) s2(4) d(8)])
  have "n \<noteq> a" "n \<notin> set (inorder l)" "set (inorder l) \<inter> set (inorder ?r') = {}" using d by auto
  from take_place_ok [OF a2 l2 l al v(5) s2(3,2) this(1,2) d(12,9) this(3)] obtain s3 where
    s3: "take_place s2 a n = Some s3" "repr s3 (cpar C) (RN c l n ?r')"
      "rb_keeps (insert n (set (inorder l))) s2 s3" "rb_node s3 = rb_node s2" by blast
  note k = rb_keeps_trans [OF s2(4) s3(3)]
  have "crepr s3 C n" by (rule crepr_keeps [OF s1(2) k]) (use d s2(5) s3(4) in auto)
  moreover have "rb_keeps A s0 s3"
    by (rule rb_keeps_mono [OF rb_keeps_trans [OF kp rb_keeps_trans [OF s1(3) k]]])
      (use sub d(10) in \<open>auto simp: inorder_plug\<close>)
  moreover have "set (inorder (plug C (RN c l n ?r'))) \<subseteq> A" using sub d(10,11) by (auto simp: inorder_plug)
  ultimately have "rb_view s0 A s3 (plug C (RN c l n ?r'))"
    using s3(2) d(13) by (auto simp: rb_view_def rb_repr_plug)
  then have "rb_view s0 A s3 (plug E x)" by (simp add: E_def plug_append)
  moreover have "(if D = [] then n else cpar D) = cpar E" by (cases D) (auto simp: E_def)
  moreover have "rb_parent s a = Some (cpar C)" using cell_parent_color(1) [OF v(2) al] .
  ultimately show ?thesis
    using rb_read_cell [OF v(2)] min s1(1) rb_read_cell(2) [OF cn(1)] cell_parent_color(1,2) [OF cn] s2(1) s3(1)
    by (auto simp: delete_both_phases replace_child_swap)
qed

section \<open>The whole deletion\<close>

lemma shrink_ok:
  assumes view: "rb_view s0 A s (plug E x)" and x: "invc x" "invh x"
    and E: "cinv E (bh x + (if c then 1 else 0))" "\<not> c \<Longrightarrow> ctx_red E \<Longrightarrow> \<not> red x"
    and root: "E \<noteq> [] \<Longrightarrow> \<not> red (plug E x)" "E = [] \<Longrightarrow> c"
  shows "\<exists>s' T'. (if c then adx_rbtree_delete_color s (ptr x) (cpar E) else Some s) = Some s' \<and>
     rb_view s0 A s' T' \<and> rb_inv T' \<and> inorder T' = inorder (plug E x)"
proof (cases c)
  case True
  with E have E': "cinv E (Suc (bh x))" by simp
  have "rb_inv (del_fix E x)" by (rule del_fix_inv [OF _ x(2) E' root(1)]) (use x(1) in simp)
  with delete_color_ok [OF view x(2) E'] True show ?thesis by (metis inorder_del_fix)
next
  case False
  then have "rb_inv (plug E x)"
    using inv_plug [of E x] x E root by (auto simp: rb_inv_def)
  with False view show ?thesis by auto
qed

lemma rename_ctx:
  "cinv (D @ (d, c, a, x) # C) k = cinv (D @ (d, c, b, x) # C) k"
  "ctx_red (D @ (d, c, a, x) # C) = ctx_red (D @ (d, c, b, x) # C)"
proof -
  show "ctx_red (D @ (d, c, a, x) # C) = ctx_red (D @ (d, c, b, x) # C)" for D
    by (cases D) auto
  then show "cinv (D @ (d, c, a, x) # C) k = cinv (D @ (d, c, b, x) # C) k"
    by (induction D arbitrary: k) auto
qed

lemma delete_one_ok:
  assumes view: "rb_view s0 A s (plug C (mk d c ch a RL))" and inv: "rb_inv (plug C (mk d c ch a RL))"
  shows "\<exists>s1 s2 s' T'. set_parent_opt s (ptr ch) (cpar C) = Some s1 \<and>
     replace_child s1 (cpar C) a (ptr ch) = Some s2 \<and>
     (if c then adx_rbtree_delete_color s2 (ptr ch) (cpar C) else Some s2) = Some s' \<and>
     rb_view s0 A s' T' \<and> rb_inv T' \<and> inorder T' = inorder (plug C ch)"
proof -
  from unlink_ok [OF view] obtain s1 s2 where
    s2: "set_parent_opt s (ptr ch) (cpar C) = Some s1" "replace_child s1 (cpar C) a (ptr ch) = Some s2"
      "rb_view s0 A s2 (plug C ch)" by blast
  from inv inv_plug [of C "mk d c ch a RL"] have i: "invc ch" "invh ch" "bh ch = 0" "c \<or> \<not> red ch"
    "cinv C (bh ch + (if c then 1 else 0))" "\<not> red (plug C (mk d c ch a RL))"
    by (auto simp: rb_inv_def)
  have "C = [] \<Longrightarrow> c" using i(6) by simp
  moreover have "C \<noteq> [] \<Longrightarrow> \<not> red (plug C ch)" using i(6) red_plug [of C ch "mk d c ch a RL"] by simp
  ultimately show ?thesis using shrink_ok [OF s2(3) i(1,2,5)] i(4) s2(1,2) by blast
qed

lemma left_ctx: "list_all (\<lambda>f. fst f = L) D \<Longrightarrow> before D = []"
  by (induction D) auto

lemma delete_two_ok:
  assumes view: "rb_view s0 A s (plug C (RN c l a r))" and inv: "rb_inv (plug C (RN c l a r))"
    and lr: "l \<noteq> RL" "r \<noteq> RL"
  shows "\<exists>s' T'. delete_both s a = Some s' \<and> rb_view s0 A s' T' \<and> rb_inv T' \<and>
     inorder T' = before C @ inorder l @ inorder r @ after C"
proof -
  note n = rb_repr_left [OF rb_viewD [OF view]]
  from leftmost_ok [OF n(5) lr(2)] obtain D nc m x where
    r: "r = plug D (RN nc RL m x)" "list_all (\<lambda>f. fst f = L) D" "leftmost s (ptr r) = Some m" by blast
  define E where "E = D @ (R, c, m, l) # C"
  from splice_ok [OF view lr(1) r, folded E_def] obtain s1 where
    s1: "delete_both s a = (if nc then adx_rbtree_delete_color s1 (ptr x) (cpar E) else Some s1)"
      "rb_view s0 A s1 (plug E x)" by blast
  have "plug C (RN c l a r) = plug (D @ (R, c, a, l) # C) (RN nc RL m x)" by (simp add: plug_append r)
  with inv inv_plug [of "D @ (R, c, a, l) # C" "RN nc RL m x"]
  have i: "invc x" "invh x" "bh x = 0" "nc \<or> \<not> red x" "cinv E (if nc then 1 else 0)"
    "\<not> red (plug C (RN c l a r))"
    unfolding E_def by (auto simp: rb_inv_def rename_ctx(1) [of D R c m l C _ a])
  have "plug E x = plug C (RN c l m (plug D x))" by (simp add: E_def plug_append)
  then have "\<not> red (plug E x)" using i(6) red_plug [of C "RN c l m (plug D x)" "RN c l a r"] by (cases "C = []") auto
  then obtain s' T' where "delete_both s a = Some s'" "rb_view s0 A s' T'" "rb_inv T'"
    "inorder T' = inorder (plug E x)"
    using shrink_ok [OF s1(2) i(1,2), of nc] i(3-5) s1(1) by (auto simp: E_def)
  moreover have "inorder (plug E x) = before C @ inorder l @ inorder r @ after C"
    using lr r by (simp add: E_def plug_append inorder_plug left_ctx)
  ultimately show ?thesis by auto
qed

theorem adx_rbtree_delete_ok:
  assumes "rb_repr s (plug C (RN c l a r))" and inv: "rb_inv (plug C (RN c l a r))"
  shows "\<exists>s' T'. adx_rbtree_delete s a = Some s' \<and> rb_repr s' T' \<and> rb_inv T' \<and>
     inorder T' = before C @ inorder l @ inorder r @ after C \<and>
     rb_keeps (set (inorder (plug C (RN c l a r)))) s s'"
proof -
  let ?T = "plug C (RN c l a r)"
  note view = rb_view_refl [OF assms(1)]
  note n = rb_repr_left [OF assms(1)]
  have lr: "ptr l = NULL \<longleftrightarrow> l = RL" "ptr r = NULL \<longleftrightarrow> r = RL"
    using rb_repr_ptr(1) [OF n(4)] rb_repr_ptr(1) [OF n(5)] by auto
  have pc: "rb_parent s a = Some (cpar C)" "rb_color s a = Some (if c then 1 else 0)"
    using rb_repr_reads(1,2) [of s C L c l a r] assms(1) by auto
  show ?thesis
  proof (cases "l \<noteq> RL \<and> r \<noteq> RL")
    case True
    with delete_two_ok [OF view inv] n lr show ?thesis
      by (auto simp: adx_rbtree_delete_def rb_view_def)
  next
    case False
    define ch d where "ch = (if l = RL then r else l)" and "d = (if l = RL then R else L)"
    have eq: "RN c l a r = mk d c ch a RL" and io: "inorder l @ inorder r = inorder ch"
      using False by (auto simp: ch_def d_def)
    have pch: "(if ptr l = NULL then ptr r else ptr l) = ptr ch" using lr by (simp add: ch_def)
    from delete_one_ok [OF view [unfolded eq] inv [unfolded eq]] obtain s1 s2 s' T' where
      o: "set_parent_opt s (ptr ch) (cpar C) = Some s1" "replace_child s1 (cpar C) a (ptr ch) = Some s2"
        "(if c then adx_rbtree_delete_color s2 (ptr ch) (cpar C) else Some s2) = Some s'"
        "rb_view s (set (inorder (plug C (mk d c ch a RL)))) s' T'" "rb_inv T'"
        "inorder T' = inorder (plug C ch)" by blast
    have "adx_rbtree_delete s a = Some s'"
      using n(2,3) lr False pc o(1-3) pch by (auto simp: adx_rbtree_delete_def set_parent_opt_def Let_def split: if_splits)
    moreover have "inorder T' = before C @ inorder l @ inorder r @ after C"
      using o(6) io by (simp add: inorder_plug)
    ultimately show ?thesis using o(4,5) eq by (auto simp: rb_view_def)
  qed
qed

section \<open>Deletion from an index\<close>

lemma inorder_focus: "a \<in> set (inorder T) \<Longrightarrow> \<exists>C c l r. T = plug C (RN c l a r)"
proof (induction T)
  case (RN c l b r)
  then consider "a = b" | "a \<in> set (inorder l)" | "a \<in> set (inorder r)" by auto
  then show ?case
  proof cases
    case 1
    then show ?thesis by (intro exI [of _ "[]"]) auto
  next
    case 2
    with RN.IH(1) obtain C c' l' r' where "l = plug C (RN c' l' a r')" by blast
    then show ?thesis by (intro exI [of _ "C @ [(L, c, b, r)]"]) (auto simp: plug_append)
  next
    case 3
    with RN.IH(2) obtain C c' l' r' where "r = plug C (RN c' l' a r')" by blast
    then show ?thesis by (intro exI [of _ "C @ [(R, c, b, l)]"]) (auto simp: plug_append)
  qed
qed simp

lemma delete_index:
  assumes "rb_index cmp keyof s m" "m k = Some a"
  shows "\<exists>s'. adx_rbtree_delete s a = Some s' \<and> rb_index cmp keyof s' (m(k := None)) \<and>
     rb_keeps (ran m) s s'"
proof -
  from assms(1) obtain T kf where T: "rb_tree cmp keyof s T kf" "index_of T kf m" by (auto simp: rb_index_iff)
  then have t: "rb_repr s T" "rb_inv T" "keyed keyof s kf (set (inorder T))" "ordered cmp kf (inorder T)"
    by (auto simp: rb_tree_def)
  have a: "a \<in> set (inorder T)" "kf a = k" using T(2) assms(2) by (auto simp: index_of_def)
  from inorder_focus [OF a(1)] obtain C c l r where C: "T = plug C (RN c l a r)" by blast
  with adx_rbtree_delete_ok [of s C c l a r] t obtain s' T' where
    s': "adx_rbtree_delete s a = Some s'" "rb_repr s' T'" "rb_inv T'"
      "inorder T' = before C @ inorder l @ inorder r @ after C" "rb_keeps (set (inorder T)) s s'" by blast
  have io: "inorder T = (before C @ inorder l) @ a # (inorder r @ after C)" by (simp add: C inorder_plug)
  have d: "distinct (inorder T)" using t(1) by (simp add: rb_repr_def)
  have st: "set (inorder T') = set (inorder T) - {a}" using s'(4) io d by auto
  have "ordered cmp kf (inorder T')"
    using t(4) unfolding s'(4) io by (auto simp: ordered_append ordered_Cons)
  moreover have "keyed keyof s' kf (set (inorder T'))"
    using t(3) st by (auto simp: keyed_def node_key_keeps [OF s'(5)])
  moreover have "index_of T' kf (m(k := None))"
    unfolding index_of_def
  proof (intro allI)
    fix k' b
    show "(m(k := None)) k' = Some b \<longleftrightarrow> b \<in> set (inorder T') \<and> kf b = k'"
      using T(2) assms(2) st a unfolding index_of_def by (cases "k' = k") (auto, metis option.inject)
  qed
  ultimately have "rb_index cmp keyof s' (m(k := None))"
    using s'(2,3) unfolding rb_index_iff rb_tree_def by blast
  with s'(1,5) index_of_ran [OF T(2)] show ?thesis by simp
qed

section \<open>Height\<close>

fun height :: "rbt \<Rightarrow> nat" where
  "height RL = 0"
| "height (RN c l a r) = Suc (max (height l) (height r))"

lemma height_bh: "invc t \<Longrightarrow> invh t \<Longrightarrow> height t \<le> 2 * bh t + (if red t then 1 else 0)"
proof (induction t)
  case (RN c l a r)
  then have "height l \<le> 2 * bh l + (if red l then 1 else 0)" "height r \<le> 2 * bh r + (if red r then 1 else 0)"
    "bh l = bh r" "c \<or> \<not> red l \<and> \<not> red r" by auto
  then show ?case by (cases c; cases "red l"; cases "red r") auto
qed simp

lemma bh_size: "invh t \<Longrightarrow> 2 ^ bh t \<le> Suc (length (inorder t))"
proof (induction t)
  case (RN c l a r)
  then have "2 ^ bh l \<le> Suc (length (inorder l))" "2 ^ bh l \<le> Suc (length (inorder r))" by auto
  then show ?case by (cases c) auto
qed simp

section \<open>Properties\<close>

text \<open>
  C8. \<open>adx_rbtree_number_add\<close> implements insertion into a finite map: on a tree that indexes the
  map \<open>m\<close>, adding an allocated, aligned node with key \<open>k\<close> that is not in the tree returns, leaves a
  balanced search tree for \<open>m\<close> extended by \<open>k\<close> if \<open>k\<close> was free and for \<open>m\<close> itself otherwise, keeps
  every key in memory and writes only nodes of the tree and the new node.  The returned pointer
  is null exactly if the key was taken or the tree was empty before.
\<close>

theorem number_add_refines_map:
  assumes "number_index s m" "node_key number_of s n = Some k" "n \<notin> ran m" "n \<noteq> NULL" "aligned4 n"
  shows "\<exists>s' p. adx_rbtree_number_add s n = Some (s', p) \<and>
     number_index s' (case m k of None \<Rightarrow> m(k \<mapsto> n) | Some a \<Rightarrow> m) \<and>
     (p = NULL \<longleftrightarrow> m k \<noteq> None \<or> m = Map.empty) \<and> rb_keeps (insert n (ran m)) s s'"
proof (cases "m k")
  case None
  from number_add_index [OF assms(1,2) None assms(3-5)] None show ?thesis by auto
next
  case (Some a)
  with number_add_present [OF assms(1,2)] assms(1) show ?thesis by simp
qed

text \<open>Three nodes in memory, none of them linked yet.\<close>

definition fresh_node :: "rb_union \<Rightarrow> adx_rbtree_node" where
  "fresh_node u = \<lparr>rb_parent_color = 0, rb_right = NULL, rb_left = NULL, rb_union = u\<rparr>"

definition three_nodes :: rb_state where
  "three_nodes = \<lparr>rb_nodes = [16 \<mapsto> fresh_node (Number 5), 48 \<mapsto> fresh_node (Number (- 2)),
     80 \<mapsto> fresh_node (String (Some ''adx''))], rb_node = NULL\<rparr>"

lemma three_nodes_keys:
  "node_key number_of three_nodes 16 = Some 5" "node_key string_key three_nodes 80 = Some ''adx''"
  by (simp_all add: node_key_def three_nodes_def rb_read_def fresh_node_def)

lemma three_nodes_index: "rb_index cmp keyof three_nodes Map.empty"
  by (rule rb_index_empty) (simp add: three_nodes_def)

theorem number_add_refines_map_witness:
  "\<exists>s' p. adx_rbtree_number_add three_nodes 16 = Some (s', p) \<and> number_index s' [5 \<mapsto> 16] \<and> p = NULL \<and>
     rb_keeps {16} three_nodes s'"
  using number_add_refines_map [OF three_nodes_index three_nodes_keys(1)] by (simp add: aligned4_def)

text \<open>
  \<open>adx_rbtree_string_add\<close> implements insertion into a finite map keyed by C strings under
  \<open>strcmp\<close>, with the same guarantees.
\<close>

theorem string_add_refines_map:
  assumes "string_index s m" "node_key string_key s n = Some k" "n \<notin> ran m" "n \<noteq> NULL" "aligned4 n"
  shows "\<exists>s' p. adx_rbtree_string_add s n = Some (s', p) \<and>
     string_index s' (case m k of None \<Rightarrow> m(k \<mapsto> n) | Some a \<Rightarrow> m) \<and>
     (p = NULL \<longleftrightarrow> m k \<noteq> None \<or> m = Map.empty) \<and> rb_keeps (insert n (ran m)) s s'"
proof (cases "m k")
  case None
  from string_add_index [OF assms(1,2) None assms(3-5)] None show ?thesis by auto
next
  case (Some a)
  with string_add_present [OF assms(1,2)] assms(1) show ?thesis by simp
qed

theorem string_add_refines_map_witness:
  "\<exists>s' p. adx_rbtree_string_add three_nodes 80 = Some (s', p) \<and> string_index s' [''adx'' \<mapsto> 80] \<and>
     p = NULL \<and> rb_keeps {80} three_nodes s'"
  using string_add_refines_map [OF three_nodes_index three_nodes_keys(2)] by (simp add: aligned4_def)

text \<open>
  C10. \<open>adx_rbtree_delete\<close>, on a tree that indexes \<open>m\<close> and a node of it: it returns, and leaves a
  balanced search tree for \<open>m\<close> without the key of that node; every key in memory is kept and only
  nodes of the tree are written.
\<close>

theorem delete_refines_map:
  assumes "number_index s m" "m k = Some a"
  shows "\<exists>s'. adx_rbtree_delete s a = Some s' \<and> number_index s' (m(k := None)) \<and> rb_keeps (ran m) s s'"
  by (rule delete_index [OF assms])

theorem delete_refines_map_witness:
  "\<exists>s s'. number_index s [5 \<mapsto> 16] \<and> adx_rbtree_delete s 16 = Some s' \<and> number_index s' Map.empty"
proof -
  obtain s p where "adx_rbtree_number_add three_nodes 16 = Some (s, p)" "number_index s [5 \<mapsto> 16]"
    using number_add_index [OF three_nodes_index three_nodes_keys(1)] by (auto simp: aligned4_def)
  with delete_refines_map [OF this(2), of 5 16] show ?thesis by auto
qed

text \<open>
  Lookup: \<open>adx_rbtree_number_find\<close> and \<open>adx_rbtree_string_find\<close> on a tree that indexes a map
  return the node of the key, and the null pointer exactly if the key is not in the map.
\<close>

theorem find_refines_lookup:
  assumes "number_index s m" "string_index t m'"
  shows "adx_rbtree_number_find s k = Some (case m k of None \<Rightarrow> NULL | Some a \<Rightarrow> a) \<and>
    (m k = Some NULL \<longleftrightarrow> False) \<and>
    adx_rbtree_string_find t (Some q) = Some (case m' q of None \<Rightarrow> NULL | Some a \<Rightarrow> a) \<and>
    (m' q = Some NULL \<longleftrightarrow> False)"
  using number_find_index [OF assms(1)] string_find_index [OF assms(2)]
    rb_index_addr [OF assms(1), of k NULL] rb_index_addr [OF assms(2), of q NULL] by auto

theorem find_refines_lookup_witness:
  "adx_rbtree_number_find three_nodes 7 = Some NULL \<and> adx_rbtree_string_find three_nodes (Some ''x'') = Some NULL"
  using find_refines_lookup [OF three_nodes_index three_nodes_index, of 7 "''x''"] by simp

lemma rb_tree_height:
  assumes "rb_tree cmp keyof s T kf"
  shows "2 ^ (height T div 2) \<le> Suc (length (inorder T))"
proof -
  have i: "invc T" "invh T" "\<not> red T" using assms by (auto simp: rb_tree_def rb_inv_def)
  then have "height T div 2 \<le> bh T" using height_bh [OF i(1,2)] by simp
  then have "(2::nat) ^ (height T div 2) \<le> 2 ^ bh T" by (rule power_increasing) simp
  with bh_size [OF i(2)] show ?thesis by linarith
qed

lemma rb_index_height:
  assumes "rb_index cmp keyof s m"
  shows "\<exists>T. rb_repr s T \<and> set (inorder T) = ran m \<and> 2 ^ (height T div 2) \<le> Suc (card (ran m))"
proof -
  from assms obtain T kf where T: "rb_tree cmp keyof s T kf" "index_of T kf m" by (auto simp: rb_index_iff)
  have "card (ran m) = length (inorder T)"
    using T index_of_ran [OF T(2)] by (simp add: rb_tree_def rb_repr_def distinct_card)
  with rb_tree_height [OF T(1)] T index_of_ran [OF T(2)] show ?thesis by (auto simp: rb_tree_def)
qed

text \<open>
  Balance: after \<open>adx_rbtree_number_add\<close> the tree in memory is no higher than twice the
  logarithm of the number of its nodes, so a search from the root reads at most that many nodes.
\<close>

theorem number_add_height:
  assumes "number_index s m" "node_key number_of s n = Some k" "m k = None" "n \<notin> ran m" "n \<noteq> NULL"
    "aligned4 n"
  shows "\<exists>s' p T. adx_rbtree_number_add s n = Some (s', p) \<and> rb_repr s' T \<and>
     set (inorder T) = insert n (ran m) \<and> 2 ^ (height T div 2) \<le> Suc (card (insert n (ran m)))"
proof -
  obtain s' p where s': "adx_rbtree_number_add s n = Some (s', p)" "number_index s' (m(k \<mapsto> n))"
    using number_add_index [OF assms] by blast
  have "ran (m(k \<mapsto> n)) = insert n (ran m)" using assms(3) by simp
  with rb_index_height [OF s'(2)] s'(1) show ?thesis by auto
qed

theorem number_add_height_witness:
  "\<exists>s' p T. adx_rbtree_number_add three_nodes 16 = Some (s', p) \<and> rb_repr s' T \<and>
     set (inorder T) = {16} \<and> 2 ^ (height T div 2) \<le> Suc (card {16 :: addr})"
  using number_add_height [OF three_nodes_index three_nodes_keys(1)] by (simp add: aligned4_def)

end
