(* ===== verification/Adx_Alloc.thy ===== *)
theory Adx_Alloc
  imports Adx_List
begin

text \<open>
  The memory pool of \<^verbatim>\<open>adx_alloc.c\<close>.  The C library allocator is a parameter of the model:
  \<open>je_malloc m n\<close> returns the new allocator state and an address, \<open>NULL\<close> if it has no memory, and
  \<open>je_free m p\<close> the state after the block at \<open>p\<close> was given back.  What the code relies on is the
  locale \<open>allocator\<close>: a block that is handed out was not live before.  Freeing a block also removes
  it from the heap of the model, so that a use after the free, or a second free, is an error.
\<close>

section \<open>Model\<close>

text \<open>
  \<open>links\<close> holds the \<open>adx_list_t\<close> at the start of a pool, of a pool block and of a queue node,
  \<open>pool_size\<close> the \<open>size\<close> of a pool and \<open>payload\<close> the \<open>block\<close> pointer of a pool block.
\<close>

record 'm mem =
  mstate :: 'm
  links :: list_heap
  pool_size :: "addr \<rightharpoonup> 64 word"
  payload :: "addr \<rightharpoonup> addr"

type_synonym 'm malloc_fun = "'m \<Rightarrow> 64 word \<Rightarrow> 'm \<times> addr"
type_synonym 'm free_fun = "'m \<Rightarrow> addr \<Rightarrow> 'm"

abbreviation SIZEOF_POOL :: "64 word" where "SIZEOF_POOL \<equiv> 24"
abbreviation SIZEOF_BLOCK :: "64 word" where "SIZEOF_BLOCK \<equiv> 24"

text \<open>A call of the allocator.  The new block is in memory, its contents are not specified yet.\<close>

definition mem_malloc :: "'m malloc_fun \<Rightarrow> ('m, 'a) mem_scheme \<Rightarrow> 64 word \<Rightarrow> ('m, 'a) mem_scheme \<times> addr" where
  "mem_malloc je_malloc s n =
     (let (m, p) = je_malloc (mstate s) n in
      if p = NULL then (s\<lparr>mstate := m\<rparr>, NULL)
      else (s\<lparr>mstate := m, links := (links s)(p \<mapsto> \<lparr>lnext = NULL, lprev = NULL\<rparr>)\<rparr>, p))"

definition mem_free :: "'m free_fun \<Rightarrow> ('m, 'a) mem_scheme \<Rightarrow> addr \<Rightarrow> ('m, 'a) mem_scheme option" where
  "mem_free je_free s p =
     (if links s p = None then None
      else Some (s\<lparr>mstate := je_free (mstate s) p, links := (links s)(p := None)\<rparr>))"

definition adx_pool_create :: "'m malloc_fun \<Rightarrow> ('m, 'a) mem_scheme \<Rightarrow> (('m, 'a) mem_scheme \<times> addr) option" where
  "adx_pool_create je_malloc s =
     (let (s, pool) = mem_malloc je_malloc s SIZEOF_POOL in
      if pool = NULL then Some (s, NULL)
      else do {
        l \<leftarrow> adx_list_init (links s) pool;
        Some (s\<lparr>links := l, pool_size := (pool_size s)(pool \<mapsto> 0)\<rparr>, pool) })"

definition adx_alloc ::
    "'m malloc_fun \<Rightarrow> ('m, 'a) mem_scheme \<Rightarrow> addr \<Rightarrow> 64 word \<Rightarrow> (('m, 'a) mem_scheme \<times> addr) option" where
  "adx_alloc je_malloc s pool sz =
     (let (s, p) = mem_malloc je_malloc s (SIZEOF_BLOCK + sz) in
      if p = NULL then Some (s, NULL)
      else do {
        n \<leftarrow> pool_size s pool;
        l \<leftarrow> adx_list_add (links s) pool p;
        Some (s\<lparr>links := l, payload := (payload s)(p \<mapsto> p + SIZEOF_BLOCK),
                pool_size := (pool_size s)(pool \<mapsto> n + sz)\<rparr>, p + SIZEOF_BLOCK) })"

definition adx_poll_size :: "('m, 'a) mem_scheme \<Rightarrow> addr \<Rightarrow> 64 word option" where
  "adx_poll_size s pool = (if pool \<noteq> NULL then pool_size s pool else Some 0)"

partial_function (option) pool_free_loop ::
    "'m free_fun \<Rightarrow> ('m, 'a) mem_scheme \<Rightarrow> addr \<Rightarrow> addr \<Rightarrow> ('m, 'a) mem_scheme option" where
  "pool_free_loop je_free s head p =
     (if p = head then Some s
      else do {
        nxt \<leftarrow> get_next (links s) p;
        s \<leftarrow> mem_free je_free s p;
        pool_free_loop je_free s head nxt })"

definition adx_pool_free :: "'m free_fun \<Rightarrow> ('m, 'a) mem_scheme \<Rightarrow> addr \<Rightarrow> ('m, 'a) mem_scheme option" where
  "adx_pool_free je_free s pool =
     (if pool = NULL then Some s
      else do {
        p \<leftarrow> get_next (links s) pool;
        s \<leftarrow> pool_free_loop je_free s pool p;
        mem_free je_free s pool })"

section \<open>What the allocator promises\<close>

locale allocator =
  fixes je_malloc :: "'m malloc_fun" and je_free :: "'m free_fun" and live :: "'m \<Rightarrow> addr set"
  assumes malloc_fresh: "je_malloc m n = (m', p) \<Longrightarrow> p \<noteq> NULL \<Longrightarrow> p \<notin> live m \<and> live m' = insert p (live m)"
    and malloc_fail: "je_malloc m n = (m', NULL) \<Longrightarrow> live m' = live m"
    and free_live: "p \<in> live m \<Longrightarrow> live (je_free m p) = live m - {p}"
begin

text \<open>The heap of the model holds exactly the live blocks.\<close>

lemma mem_malloc_ok:
  assumes "dom (links s) = live (mstate s)"
  obtains s' p where "mem_malloc je_malloc s n = (s', p)" "dom (links s') = live (mstate s')"
    "p = NULL \<Longrightarrow> links s' = links s"
    "p \<noteq> NULL \<Longrightarrow> links s p = None \<and> links s' p \<noteq> None \<and> same_outside {p} (links s) (links s')"
    "pool_size s' = pool_size s" "payload s' = payload s" "mem.more s' = mem.more s"
proof -
  obtain m p where mp: "je_malloc (mstate s) n = (m, p)" by (cases "je_malloc (mstate s) n")
  let ?s = "fst (mem_malloc je_malloc s n)"
  have "mem_malloc je_malloc s n = (?s, p)" using mp by (simp add: mem_malloc_def)
  moreover have "dom (links ?s) = live (mstate ?s)"
    using mp malloc_fresh [OF mp] malloc_fail [of "mstate s" n m] assms by (auto simp: mem_malloc_def)
  moreover have "p = NULL \<Longrightarrow> links ?s = links s" using mp by (simp add: mem_malloc_def)
  moreover have "p \<noteq> NULL \<Longrightarrow> links s p = None \<and> links ?s p \<noteq> None \<and> same_outside {p} (links s) (links ?s)"
    using mp malloc_fresh [OF mp] assms by (auto simp: mem_malloc_def same_outside_def)
  moreover have "pool_size ?s = pool_size s" "payload ?s = payload s" "mem.more ?s = mem.more s"
    using mp by (auto simp: mem_malloc_def)
  ultimately show thesis using that by blast
qed

lemma mem_free_ok:
  assumes "dom (links s) = live (mstate s)" "links s p \<noteq> None"
  shows "\<exists>s'. mem_free je_free s p = Some s' \<and> dom (links s') = live (mstate s') \<and>
     mstate s' = je_free (mstate s) p \<and> links s' = (links s)(p := None)"
  using assms free_live [of p "mstate s"] by (auto simp: mem_free_def)

end

text \<open>A first-fit allocator over a bounded arena shows that the promises can be kept.\<close>

record arena =
  brk :: nat
  used :: "addr list"

definition arena_malloc :: "arena malloc_fun" where
  "arena_malloc m n =
     (let p = of_nat (brk m) :: addr in
      if 0 < brk m \<and> brk m < 2 ^ 32 \<and> p \<notin> set (used m)
      then (m\<lparr>brk := brk m + 16 * Suc (unat n div 16), used := p # used m\<rparr>, p)
      else (m, NULL))"

definition arena_free :: "arena free_fun" where
  "arena_free m p = m\<lparr>used := filter (\<lambda>q. q \<noteq> p) (used m)\<rparr>"

lemma arena_addr: "0 < k \<Longrightarrow> k < 2 ^ 32 \<Longrightarrow> (of_nat k :: addr) \<noteq> NULL"
  by (auto simp: word_of_nat_eq_0_iff dest: dvd_imp_le)

interpretation arena: allocator arena_malloc arena_free "\<lambda>m. set (used m)"
  by unfold_locales
    (auto simp: arena_malloc_def arena_free_def Let_def split: if_splits dest: arena_addr)

section \<open>The pool\<close>

definition pool_wf :: "('m, 'a) mem_scheme \<Rightarrow> addr \<Rightarrow> addr list \<Rightarrow> 64 word \<Rightarrow> bool" where
  "pool_wf s pool bs n \<longleftrightarrow> pool \<noteq> NULL \<and> clist (links s) pool bs \<and> pool_size s pool = Some n \<and>
     (\<forall>b \<in> set bs. payload s b = Some (b + SIZEOF_BLOCK))"

lemma clist_mem: "clist h head xs \<Longrightarrow> x \<in> set (head # xs) \<Longrightarrow> h x \<noteq> None"
  by (auto simp: clist_def dest: dseg_mem)

lemma clist_same_outside:
  "clist h head xs \<Longrightarrow> same_outside A h h' \<Longrightarrow> set (head # xs) \<inter> A = {} \<Longrightarrow> clist h' head xs"
proof -
  assume c: "clist h head xs" "same_outside A h h'" "set (head # xs) \<inter> A = {}"
  have "dseg h p ys q \<Longrightarrow> set (p # q # ys) \<inter> A = {} \<Longrightarrow> dseg h' p ys q" for p ys q
    using c(2) by (induction ys arbitrary: p) (auto simp: linked_def get_next_def get_prev_def same_outside_def)
  with c show ?thesis by (auto simp: clist_def)
qed

lemma adx_list_add_dom:
  assumes "clist h head xs" "h node \<noteq> None" "node \<notin> set (head # xs)" "adx_list_add h head node = Some h'"
  shows "dom h' = dom h"
proof -
  from adx_list_add_clist [OF assms(1-3)] assms(4) have
    c: "clist h' head (xs @ [node])" "same_outside (set (node # head # xs)) h h'" by auto
  have "h' x \<noteq> None" if "x \<in> set (node # head # xs)" for x using clist_mem [OF c(1)] that by auto
  moreover have "h x \<noteq> None" if "x \<in> set (node # head # xs)" for x
    using clist_mem [OF assms(1)] assms(2) that by auto
  ultimately show ?thesis using c(2) unfolding same_outside_def dom_def by (metis (no_types, lifting))
qed

lemma pool_free_loop_ok:
  assumes "dseg h q xs head" "distinct xs" "head \<notin> set xs" "q \<notin> set xs"
    "\<forall>x \<in> set xs. links s x = h x" "get_next h q = Some p"
  shows "\<exists>s'. pool_free_loop je_free s head p = Some s' \<and>
     mstate s' = fold (\<lambda>x m. je_free m x) xs (mstate s) \<and>
     links s' = (\<lambda>x. if x \<in> set xs then None else links s x)"
  using assms
proof (induction xs arbitrary: q p s)
  case Nil
  then have "p = head" by (simp add: linked_def)
  then show ?case by (simp add: pool_free_loop.simps)
next
  case (Cons x xs)
  then have x: "p = x" "x \<noteq> head" "linked h q x" "dseg h x xs head" by (auto simp: linked_def)
  have hx: "h x \<noteq> None" using dseg_mem [OF x(4)] by simp
  then obtain nxt where nxt: "get_next h x = Some nxt" by (auto simp: get_next_def)
  then have n: "get_next (links s) x = Some nxt" using Cons.prems(5) by (simp add: get_next_def)
  define s1 where "s1 = s\<lparr>mstate := je_free (mstate s) x, links := (links s)(x := None)\<rparr>"
  have f: "mem_free je_free s x = Some s1" using hx Cons.prems(5) by (simp add: mem_free_def s1_def)
  have "\<forall>y \<in> set xs. links s1 y = h y" using Cons.prems(2,5) by (auto simp: s1_def)
  with Cons.IH [OF x(4) _ _ _ this nxt] Cons.prems obtain s' where
    "pool_free_loop je_free s1 head nxt = Some s'"
    "mstate s' = fold (\<lambda>x m. je_free m x) xs (mstate s1)"
    "links s' = (\<lambda>y. if y \<in> set xs then None else links s1 y)" by auto
  then show ?case using x(1,2) n f by (auto simp: pool_free_loop.simps [of je_free s] s1_def fun_eq_iff)
qed

lemma adx_alloc_ok:
  assumes "allocator je_malloc je_free live" "dom (links s) = live (mstate s)" "pool_wf s pool bs n"
  shows "\<exists>s' p. adx_alloc je_malloc s pool sz = Some (s', p) \<and> dom (links s') = live (mstate s') \<and>
     (p = NULL \<and> pool_wf s' pool bs n \<and> dom (links s') = dom (links s) \<or>
      (\<exists>b. p = b + SIZEOF_BLOCK \<and> links s b = None \<and> pool_wf s' pool (bs @ [b]) (n + sz) \<and> dom (links s') = insert b (dom (links s))))"
proof -
  obtain s1 p where
    s1: "mem_malloc je_malloc s (SIZEOF_BLOCK + sz) = (s1, p)" "dom (links s1) = live (mstate s1)"
      "p = NULL \<Longrightarrow> links s1 = links s"
      "p \<noteq> NULL \<Longrightarrow> links s p = None \<and> links s1 p \<noteq> None \<and> same_outside {p} (links s) (links s1)"
      "pool_size s1 = pool_size s" "payload s1 = payload s" "mem.more s1 = mem.more s"
    by (rule allocator.mem_malloc_ok [OF assms(1,2), of "SIZEOF_BLOCK + sz"]) (rule that)
  from assms(3) have w: "clist (links s) pool bs" "pool_size s pool = Some n"
    "\<forall>b \<in> set bs. payload s b = Some (b + SIZEOF_BLOCK)" "pool \<noteq> NULL" by (auto simp: pool_wf_def)
  show ?thesis
  proof (cases "p = NULL")
    case True
    with s1 assms(3) show ?thesis by (auto simp: adx_alloc_def pool_wf_def)
  next
    case False
    have p: "p \<notin> set (pool # bs)" using clist_mem [OF w(1)] s1(4) False by blast
    have c1: "clist (links s1) pool bs" using clist_same_outside [OF w(1)] s1(4) False p by auto
    from adx_list_add_clist [OF c1 _ p] s1(4) False obtain l where
      l: "adx_list_add (links s1) pool p = Some l" "clist l pool (bs @ [p])"
        "same_outside (set (p # pool # bs)) (links s1) l" by blast
    have "dom l = dom (links s1)" by (rule adx_list_add_dom [OF c1 _ p l(1)]) (use s1(4) False in simp)
    moreover have "dom (links s1) = insert p (dom (links s))"
      using s1(4) False unfolding same_outside_def dom_def by auto
    ultimately show ?thesis
      using False s1 w p l by (auto simp: adx_alloc_def pool_wf_def)
  qed
qed

section \<open>Properties\<close>

text \<open>
  \<open>adx_alloc\<close> on a well-formed pool, with an allocator that hands out blocks that are not live:
  it returns either a null pointer with the pool unchanged, or a payload 24 bytes into a new block
  that is not a block of the pool yet; the block is then the last of the pool and the size of the
  pool has grown by the size asked for (modulo \<open>2 ^ 64\<close>).
\<close>

theorem adx_alloc_extends_pool:
  assumes "allocator je_malloc je_free live" "dom (links s) = live (mstate s)" "pool_wf s pool bs n"
  shows "\<exists>s' p. adx_alloc je_malloc s pool sz = Some (s', p) \<and> dom (links s') = live (mstate s') \<and>
     (p = NULL \<and> pool_wf s' pool bs n \<or>
      (\<exists>b. p = b + SIZEOF_BLOCK \<and> links s b = None \<and> pool_wf s' pool (bs @ [b]) (n + sz)))"
  using adx_alloc_ok [OF assms] by blast

definition empty_mem :: "arena mem" where
  "empty_mem = \<lparr>mstate = \<lparr>brk = 16, used = []\<rparr>, links = Map.empty, pool_size = Map.empty, payload = Map.empty\<rparr>"

definition pool_mem :: "arena mem" where
  "pool_mem = fst (the (adx_pool_create arena_malloc empty_mem))"

lemma pool_mem: "adx_pool_create arena_malloc empty_mem = Some (pool_mem, 16)"
    "dom (links pool_mem) = set (used (mstate pool_mem))" "pool_wf pool_mem 16 [] 0"
  by (auto simp: pool_mem_def empty_mem_def adx_pool_create_def mem_malloc_def arena_malloc_def Let_def
      adx_list_init_def set_next_def set_prev_def pool_wf_def clist_def linked_def get_next_def get_prev_def
      split: if_splits)

theorem adx_alloc_extends_pool_witness:
  "\<exists>s' p. adx_alloc arena_malloc pool_mem 16 100 = Some (s', p) \<and>
     dom (links s') = set (used (mstate s')) \<and>
     (p = NULL \<and> pool_wf s' 16 [] 0 \<or>
      (\<exists>b. p = b + SIZEOF_BLOCK \<and> links pool_mem b = None \<and> pool_wf s' 16 [b] 100))"
  using adx_alloc_extends_pool [OF arena.allocator_axioms pool_mem(2,3), of 100] by simp

text \<open>
  C36. \<open>adx_pool_free\<close> on a well-formed pool: it gives back every block of the pool and then the
  pool itself, each exactly once and in list order, never reads a block it has freed, and leaves
  the rest of memory alone.
\<close>

theorem adx_pool_free_all:
  assumes "pool_wf s pool bs n"
  shows "\<exists>s'. adx_pool_free je_free s pool = Some s' \<and>
     mstate s' = fold (\<lambda>b m. je_free m b) (bs @ [pool]) (mstate s) \<and>
     links s' = (\<lambda>b. if b \<in> set (pool # bs) then None else links s b)"
proof -
  from assms have c: "dseg (links s) pool bs pool" "distinct bs" "pool \<notin> set bs" "pool \<noteq> NULL"
    by (auto simp: pool_wf_def clist_def)
  have lp: "links s pool \<noteq> None" using dseg_mem [OF c(1)] by simp
  then obtain p where p: "get_next (links s) pool = Some p" by (auto simp: get_next_def)
  from pool_free_loop_ok [OF c(1,2,3,3) _ p, of s je_free] obtain s1 where
    s1: "pool_free_loop je_free s pool p = Some s1" "mstate s1 = fold (\<lambda>x m. je_free m x) bs (mstate s)"
      "links s1 = (\<lambda>x. if x \<in> set bs then None else links s x)" by auto
  then show ?thesis
    using p c(3,4) lp by (auto simp: adx_pool_free_def mem_free_def fun_eq_iff)
qed

theorem adx_pool_free_all_witness:
  "\<exists>s'. adx_pool_free arena_free pool_mem 16 = Some s' \<and> used (mstate s') = [] \<and> links s' = Map.empty"
proof -
  obtain s' where s': "adx_pool_free arena_free pool_mem 16 = Some s'"
    "mstate s' = arena_free (mstate pool_mem) 16" "links s' = (\<lambda>b. if b = 16 then None else links pool_mem b)"
    using adx_pool_free_all [OF pool_mem(3), of arena_free] by auto
  have u: "used (mstate pool_mem) = [16]"
    by (simp add: pool_mem_def empty_mem_def adx_pool_create_def mem_malloc_def arena_malloc_def Let_def
        adx_list_init_def set_next_def set_prev_def)
  then have "dom (links pool_mem) = {16}" using pool_mem(2) by simp
  then have "links s' = Map.empty" using s'(3) by (auto simp: fun_eq_iff)
  with s' u show ?thesis by (simp add: arena_free_def)
qed

end
