(* ===== verification/Adx_Queue.thy ===== *)
theory Adx_Queue
  imports Adx_Alloc
begin

text \<open>
  The string queue of \<^verbatim>\<open>adx_queue.c\<close>: nodes with a duplicated string, linked into an
  \<open>adx_list_t\<close> ring with \<open>adx_list_add\<close> and taken out with \<open>adx_queue\<close>.  The locale \<open>fifo\<close> is what
  a client of the queue relies on; it is interpreted on the model of the code.
\<close>

section \<open>Model\<close>

text \<open>The characters behind \<open>str\<close>; \<open>None\<close> is the null pointer.\<close>

record adx_str_t =
  str :: "string option"
  slen :: int

text \<open>The memory with the \<open>str\<close> field of the queue nodes.\<close>

record 'm qmem = "'m mem" +
  strs :: "addr \<rightharpoonup> adx_str_t"

abbreviation SIZEOF_QUEUE :: "64 word" where "SIZEOF_QUEUE \<equiv> 32"

definition adx_str_alloc ::
    "'m malloc_fun \<Rightarrow> ('m, 'a) mem_scheme \<Rightarrow> addr \<Rightarrow> 64 word \<Rightarrow> (('m, 'a) mem_scheme \<times> addr) option" where
  "adx_str_alloc je_malloc s pool sz =
     (if pool = NULL then Some (mem_malloc je_malloc s sz) else adx_alloc je_malloc s pool sz)"

text \<open>
  Reading more bytes than \<open>buf\<close> has, a negative length and the overflow of \<open>len + 1\<close> are errors.
  The length of the null result is not set by the code; it is \<open>0\<close> here.
\<close>

definition adx_str_strdup ::
    "'m malloc_fun \<Rightarrow> ('m, 'a) mem_scheme \<Rightarrow> addr \<Rightarrow> string \<Rightarrow> int \<Rightarrow> (('m, 'a) mem_scheme \<times> adx_str_t) option" where
  "adx_str_strdup je_malloc s pool buf len =
     (if len < 0 \<or> int (length buf) < len \<or> INT_MAX < len + 1 then None
      else do {
        (s, p) \<leftarrow> adx_str_alloc je_malloc s pool (of_int (len + 1));
        if p = NULL then Some (s, \<lparr>str = None, slen = 0\<rparr>)
        else Some (s, \<lparr>str = Some (take (nat len) buf), slen = len\<rparr>) })"

definition adx_str_init ::
    "'m malloc_fun \<Rightarrow> ('m, 'a) mem_scheme \<Rightarrow> string \<Rightarrow> int \<Rightarrow> (('m, 'a) mem_scheme \<times> adx_str_t) option" where
  "adx_str_init je_malloc s buf len = adx_str_strdup je_malloc s NULL buf len"

definition adx_str_empty :: "adx_str_t \<Rightarrow> int" where
  "adx_str_empty st = (if str st = None \<or> slen st = 0 then -1 else 0)"

text \<open>The struct that comes to life at an address returned by an allocation.\<close>

definition new_node :: "('m, 'a) mem_scheme \<Rightarrow> addr \<Rightarrow> ('m, 'a) mem_scheme" where
  "new_node s p = s\<lparr>links := (links s)(p \<mapsto> \<lparr>lnext = NULL, lprev = NULL\<rparr>)\<rparr>"

definition adx_queue_push_r ::
    "'m malloc_fun \<Rightarrow> 'm free_fun \<Rightarrow> 'm qmem \<Rightarrow> addr \<Rightarrow> addr \<Rightarrow> string option \<Rightarrow> int \<Rightarrow> 'm qmem option" where
  "adx_queue_push_r je_malloc je_free s pool queue buf len =
     (case buf of None \<Rightarrow> Some s
      | Some b \<Rightarrow>
        if len = 0 then Some s
        else do {
          (s, node) \<leftarrow> adx_str_alloc je_malloc s pool SIZEOF_QUEUE;
          if node = NULL then Some s
          else do {
            let s = new_node s node;
            (s, st) \<leftarrow> adx_str_strdup je_malloc s pool b len;
            let s = s\<lparr>strs := (strs s)(node \<mapsto> st)\<rparr>;
            if adx_str_empty st \<noteq> 0 then (if pool = NULL then mem_free je_free s node else Some s)
            else do {
              l \<leftarrow> adx_list_add (links s) queue node;
              Some (s\<lparr>links := l\<rparr>) } } })"

definition adx_queue_pop_r :: "'m qmem \<Rightarrow> addr \<Rightarrow> ('m qmem \<times> adx_str_t) option" where
  "adx_queue_pop_r s queue = do {
     (l, node) \<leftarrow> adx_queue (links s) queue;
     let s = s\<lparr>links := l\<rparr>;
     if node \<noteq> NULL then do { st \<leftarrow> strs s node; Some (s, st) }
     else Some (s, \<lparr>str = None, slen = 0\<rparr>) }"

definition adx_queue_push ::
    "'m malloc_fun \<Rightarrow> 'm free_fun \<Rightarrow> 'm qmem \<Rightarrow> addr \<Rightarrow> string option \<Rightarrow> int \<Rightarrow> 'm qmem option" where
  "adx_queue_push je_malloc je_free s queue buf len =
     adx_queue_push_r je_malloc je_free s NULL queue buf len"

definition adx_queue_pop :: "'m free_fun \<Rightarrow> 'm qmem \<Rightarrow> addr \<Rightarrow> ('m qmem \<times> adx_str_t) option" where
  "adx_queue_pop je_free s queue = do {
     (l, node) \<leftarrow> adx_queue (links s) queue;
     let s = s\<lparr>links := l\<rparr>;
     if node \<noteq> NULL then do {
       st \<leftarrow> strs s node;
       s \<leftarrow> mem_free je_free s node;
       Some (s, st) }
     else Some (s, \<lparr>str = None, slen = 0\<rparr>) }"

section \<open>The contract of a queue\<close>

text \<open>
  \<open>rep s xs\<close>: the state holds the elements \<open>xs\<close>, oldest first.  A push that finds no \<open>room\<close> drops
  its element.
\<close>

locale fifo =
  fixes rep :: "'s \<Rightarrow> 'x list \<Rightarrow> bool" and push :: "'s \<Rightarrow> 'x \<Rightarrow> 's option"
    and pop :: "'s \<Rightarrow> ('s \<times> 'x option) option" and room :: "'s \<Rightarrow> 'x \<Rightarrow> bool"
    and valid :: "'x \<Rightarrow> bool"
  assumes push_room: "rep s xs \<Longrightarrow> valid x \<Longrightarrow> room s x \<Longrightarrow> \<exists>s'. push s x = Some s' \<and> rep s' (xs @ [x])"
    and push_full: "rep s xs \<Longrightarrow> valid x \<Longrightarrow> \<not> room s x \<Longrightarrow> \<exists>s'. push s x = Some s' \<and> rep s' xs"
    and pop_empty: "rep s [] \<Longrightarrow> \<exists>s'. pop s = Some (s', None) \<and> rep s' []"
    and pop_oldest: "rep s (x # xs) \<Longrightarrow> \<exists>s'. pop s = Some (s', Some x) \<and> rep s' xs"
begin

text \<open>Pushes of a whole list: the elements that were queued, in order.\<close>

fun push_all :: "'s \<Rightarrow> 'x list \<Rightarrow> ('s \<times> 'x list) option" where
  "push_all s [] = Some (s, [])"
| "push_all s (x # xs) = do {
     s' \<leftarrow> push s x;
     (s'', ys) \<leftarrow> push_all s' xs;
     Some (s'', if room s x then x # ys else ys) }"

fun pop_all :: "'s \<Rightarrow> nat \<Rightarrow> ('s \<times> 'x option list) option" where
  "pop_all s 0 = Some (s, [])"
| "pop_all s (Suc n) = do {
     (s', x) \<leftarrow> pop s;
     (s'', xs) \<leftarrow> pop_all s' n;
     Some (s'', x # xs) }"

lemma push_all_rep:
  "rep s zs \<Longrightarrow> \<forall>x \<in> set xs. valid x \<Longrightarrow> \<exists>s' ys. push_all s xs = Some (s', ys) \<and> rep s' (zs @ ys)"
proof (induction xs arbitrary: s zs)
  case (Cons x xs)
  then have v: "valid x" by simp
  show ?case
  proof (cases "room s x")
    case True
    from push_room [OF Cons.prems(1) v True] obtain s1 where s1: "push s x = Some s1" "rep s1 (zs @ [x])" by blast
    from Cons.IH [OF s1(2)] s1(1) True Cons.prems(2) show ?thesis by auto
  next
    case False
    from push_full [OF Cons.prems(1) v False] obtain s1 where s1: "push s x = Some s1" "rep s1 zs" by blast
    from Cons.IH [OF s1(2)] s1(1) False Cons.prems(2) show ?thesis by auto
  qed
qed auto

lemma drain_rep:
  "rep s xs \<Longrightarrow> \<exists>s'. pop_all s (Suc (length xs)) = Some (s', map Some xs @ [None]) \<and> rep s' []"
proof (induction xs arbitrary: s)
  case Nil
  then show ?case using pop_empty by fastforce
next
  case (Cons x xs)
  then obtain s1 where "pop s = Some (s1, Some x)" "rep s1 xs" using pop_oldest by fastforce
  with Cons.IH [OF this(2)] show ?case by auto
qed

lemma fifo_order:
  assumes "rep s []" "\<forall>x \<in> set xs. valid x"
  shows "\<exists>s1 s2 ys. push_all s xs = Some (s1, ys) \<and>
     pop_all s1 (Suc (length ys)) = Some (s2, map Some ys @ [None]) \<and> rep s2 []"
  using push_all_rep [OF assms] drain_rep by fastforce

end

section \<open>The string queue keeps the contract\<close>

definition queue_str :: "string \<Rightarrow> adx_str_t" where
  "queue_str x = \<lparr>str = Some x, slen = int (length x)\<rparr>"

text \<open>Strings whose length, and one more, fits an \<open>int\<close>.\<close>

definition queue_ok :: "string \<Rightarrow> bool" where
  "queue_ok x \<longleftrightarrow> int (length x) < INT_MAX"

definition queue_rep :: "('m \<Rightarrow> addr set) \<Rightarrow> addr \<Rightarrow> 'm qmem \<Rightarrow> string list \<Rightarrow> bool" where
  "queue_rep live q s xs \<longleftrightarrow> dom (links s) = live (mstate s) \<and>
     (\<exists>ns. clist (links s) q ns \<and> NULL \<notin> set ns \<and> map (strs s) ns = map (\<lambda>x. Some (queue_str x)) xs)"

definition queue_room :: "'m malloc_fun \<Rightarrow> 'm qmem \<Rightarrow> string \<Rightarrow> bool" where
  "queue_room je_malloc s x =
     (let (s1, p) = mem_malloc je_malloc s SIZEOF_QUEUE;
          (s2, r) = mem_malloc je_malloc (new_node s1 p) (of_int (int (length x) + 1)) in
      x \<noteq> [] \<and> p \<noteq> NULL \<and> r \<noteq> NULL)"

lemma new_node_links: "links (new_node s p) = (links s)(p \<mapsto> \<lparr>lnext = NULL, lprev = NULL\<rparr>)"
    "mstate (new_node s p) = mstate s" "mem.more (new_node s p) = mem.more s"
  by (simp_all add: new_node_def)

lemma strs_more: "mem.more s' = mem.more s \<Longrightarrow> strs s' = strs s"
  by (cases s; cases s') simp

text \<open>A ring stays as it is when a block outside it is allocated or freed.\<close>

lemma queue_rep_frame:
  assumes "clist (links s) q ns" "NULL \<notin> set ns" "map (strs s) ns = map (\<lambda>x. Some (queue_str x)) xs"
    "links s p = None" "same_outside {p} (links s) (links s')" "\<forall>n. n \<noteq> p \<longrightarrow> strs s' n = strs s n"
    "dom (links s') = live (mstate s')"
  shows "queue_rep live q s' xs"
proof -
  have p: "p \<notin> set (q # ns)" using clist_mem [OF assms(1)] assms(4) by blast
  then have "clist (links s') q ns" by (intro clist_same_outside [OF assms(1,5)]) auto
  moreover have "map (strs s') ns = map (strs s) ns" using p assms(6) by auto
  ultimately show ?thesis using assms(2,3,7) unfolding queue_rep_def by auto
qed

context allocator
begin

lemma queue_push_cases:
  assumes rep: "queue_rep live q s xs" and x: "queue_ok x" "x \<noteq> []"
  shows "\<exists>s'. adx_queue_push je_malloc je_free s q (Some x) (int (length x)) = Some s' \<and>
     queue_rep live q s' (if queue_room je_malloc s x then xs @ [x] else xs)"
proof -
  from rep obtain ns where d: "dom (links s) = live (mstate s)" and ns: "clist (links s) q ns"
    "NULL \<notin> set ns" "map (strs s) ns = map (\<lambda>x. Some (queue_str x)) xs" by (auto simp: queue_rep_def)
  have x': "x \<noteq> []" "int (length x) + 1 \<le> INT_MAX" using x by (auto simp: queue_ok_def)
  obtain s1 p where
    s1: "mem_malloc je_malloc s SIZEOF_QUEUE = (s1, p)" "dom (links s1) = live (mstate s1)"
      "p = NULL \<Longrightarrow> links s1 = links s"
      "p \<noteq> NULL \<Longrightarrow> links s p = None \<and> links s1 p \<noteq> None \<and> same_outside {p} (links s) (links s1)"
      "pool_size s1 = pool_size s" "payload s1 = payload s" "mem.more s1 = mem.more s"
    by (rule mem_malloc_ok [OF d, of SIZEOF_QUEUE]) (rule that)
  define s2 where "s2 = new_node s1 p"
  note nn = new_node_links [of s1 p, folded s2_def]
  show ?thesis
  proof (cases "p = NULL")
    case True
    then have "queue_rep live q s1 xs"
      using s1 ns strs_more [OF s1(7)] unfolding queue_rep_def by auto
    then show ?thesis
      using True x' s1(1) by (simp add: adx_queue_push_def adx_queue_push_r_def adx_str_alloc_def
          queue_room_def split_def)
  next
    case False
    have d2: "dom (links s2) = live (mstate s2)" using nn s1 False by auto
    obtain s3 r where
      s3: "mem_malloc je_malloc s2 (of_int (int (length x) + 1)) = (s3, r)" "dom (links s3) = live (mstate s3)"
        "r = NULL \<Longrightarrow> links s3 = links s2"
        "r \<noteq> NULL \<Longrightarrow> links s2 r = None \<and> links s3 r \<noteq> None \<and> same_outside {r} (links s2) (links s3)"
        "pool_size s3 = pool_size s2" "payload s3 = payload s2" "mem.more s3 = mem.more s2"
      by (rule mem_malloc_ok [OF d2, of "of_int (int (length x) + 1)"]) (rule that)
    have room: "queue_room je_malloc s x \<longleftrightarrow> r \<noteq> NULL"
      using False s1(1) s3(1) x'(1) by (simp add: queue_room_def s2_def)
    define st where "st = (if r = NULL then \<lparr>str = None, slen = 0\<rparr> else queue_str x)"
    define s4 where "s4 = s3\<lparr>strs := (strs s3)(p \<mapsto> st)\<rparr>"
    have strs: "strs s3 = strs s" using strs_more [of s3 s] s3(7) nn s1(7) by simp
    have run: "adx_queue_push je_malloc je_free s q (Some x) (int (length x)) =
        (if r = NULL then mem_free je_free s4 p
         else do { l \<leftarrow> adx_list_add (links s4) q p; Some (s4\<lparr>links := l\<rparr>) })"
      using x' s1(1) s3(1) False by (simp add: adx_queue_push_def adx_queue_push_r_def adx_str_alloc_def
          adx_str_strdup_def adx_str_empty_def s2_def s4_def st_def queue_str_def)
    have p0: "links s p = None" using s1(4) False by simp
    have p3: "links s4 p \<noteq> None" using s3(3,4) nn by (cases "r = NULL") (auto simp: s4_def same_outside_def)
    have d4: "dom (links s4) = live (mstate s4)" using s3(2) by (simp add: s4_def)
    have out: "same_outside {p, r} (links s) (links s4)"
      using s1(4) False s3(3,4) nn by (cases "r = NULL") (auto simp: s4_def same_outside_def)
    show ?thesis
    proof (cases "r = NULL")
      case True
      from mem_free_ok [OF d4 p3] obtain s5 where
        s5: "mem_free je_free s4 p = Some s5" "dom (links s5) = live (mstate s5)"
          "links s5 = (links s4)(p := None)" by blast
      have "mem.more s5 = mem.more s4" using s5(1) by (auto simp: mem_free_def split: if_splits)
      then have "strs s5 = strs s4" by (rule strs_more)
      moreover have "same_outside {p} (links s) (links s5)"
        using s3(3) nn s1(4) False True s5(3) by (auto simp: s4_def same_outside_def)
      ultimately have "queue_rep live q s5 xs"
        using s5(2) strs by (intro queue_rep_frame [OF ns p0]) (auto simp: s4_def)
      then show ?thesis using run room True s5(1) by simp
    next
      case r: False
      have r0: "links s r = None" "r \<noteq> p"
        using s3(4) [OF r] s1(4) [OF False] nn by (auto simp: same_outside_def split: if_splits)
      then have pr: "p \<notin> set (q # ns)" "r \<notin> set (q # ns)" using clist_mem [OF ns(1)] p0 by blast+
      then have c4: "clist (links s4) q ns" by (intro clist_same_outside [OF ns(1) out]) auto
      from adx_list_add_clist [OF c4 p3 pr(1)] obtain l where
        l: "adx_list_add (links s4) q p = Some l" "clist l q (ns @ [p])" by blast
      have "map (strs s4) (ns @ [p]) = map (\<lambda>x. Some (queue_str x)) (xs @ [x])"
        using ns(3) pr r strs by (auto simp: s4_def st_def)
      then have "queue_rep live q (s4\<lparr>links := l\<rparr>) (xs @ [x])"
        using l(2) d4 adx_list_add_dom [OF c4 p3 pr(1) l(1)] ns(2) False unfolding queue_rep_def by auto
      then show ?thesis using run room r l(1) by simp
    qed
  qed
qed

lemma queue_pop_cases:
  assumes rep: "queue_rep live q s xs"
  shows "\<exists>s'. adx_queue_pop je_free s q =
       Some (s', case xs of [] \<Rightarrow> \<lparr>str = None, slen = 0\<rparr> | x # _ \<Rightarrow> queue_str x) \<and>
     queue_rep live q s' (tl xs)"
proof -
  from rep obtain ns where d: "dom (links s) = live (mstate s)" and ns: "clist (links s) q ns"
    "NULL \<notin> set ns" "map (strs s) ns = map (\<lambda>x. Some (queue_str x)) xs" by (auto simp: queue_rep_def)
  show ?thesis
  proof (cases ns)
    case Nil
    then have "xs = []" "adx_queue (links s) q = Some (links s, NULL)" using ns adx_queue_clist(1) by auto
    with rep show ?thesis by (simp add: adx_queue_pop_def)
  next
    case (Cons n ns')
    then obtain x xs' where xs: "xs = x # xs'" "strs s n = Some (queue_str x)"
      "map (strs s) ns' = map (\<lambda>x. Some (queue_str x)) xs'" using ns(3) by (cases xs) auto
    from adx_queue_clist(2) [of "links s" q n ns'] ns(1) Cons obtain l where
      l: "adx_queue (links s) q = Some (l, n)" "clist l q ns'" "same_outside (set (q # ns')) (links s) l" by auto
    have n: "n \<noteq> NULL" "n \<notin> set (q # ns')" using ns(1,2) Cons by (auto simp: clist_def)
    have "links s x \<noteq> None" "l x \<noteq> None" if "x \<in> set (q # ns')" for x
      using clist_mem [OF ns(1)] clist_mem [OF l(2)] that Cons by auto
    then have dl: "dom l = dom (links s)" using l(3) unfolding same_outside_def dom_def by (metis (no_types, lifting))
    define s1 where "s1 = s\<lparr>links := l\<rparr>"
    have "dom (links s1) = live (mstate s1)" using d dl by (simp add: s1_def)
    moreover have "links s1 n \<noteq> None"
      using clist_mem [OF ns(1)] Cons n l(3) by (auto simp: s1_def same_outside_def)
    ultimately obtain s2 where
      s2: "mem_free je_free s1 n = Some s2" "dom (links s2) = live (mstate s2)" "links s2 = l(n := None)"
      using mem_free_ok [of s1 n] by (auto simp: s1_def)
    have "mem.more s2 = mem.more s1" using s2(1) by (auto simp: mem_free_def split: if_splits)
    then have "strs s2 = strs s" using strs_more [of s2 s] by (simp add: s1_def)
    moreover have "clist (links s2) q ns'"
      by (rule clist_same_outside [OF l(2), of "{n}"]) (use n s2(3) in \<open>auto simp: same_outside_def\<close>)
    ultimately have "queue_rep live q s2 xs'" using s2(2) ns(2) Cons xs(3) unfolding queue_rep_def by auto
    then show ?thesis using l(1) n(1) xs s2(1) by (auto simp: adx_queue_pop_def s1_def)
  qed
qed

end

text \<open>The queue behind a head at address \<open>q\<close>, as an instance of the contract.\<close>

definition queue_push :: "'m malloc_fun \<Rightarrow> 'm free_fun \<Rightarrow> addr \<Rightarrow> 'm qmem \<Rightarrow> string \<Rightarrow> 'm qmem option" where
  "queue_push je_malloc je_free q s x = adx_queue_push je_malloc je_free s q (Some x) (int (length x))"

definition queue_pop :: "'m free_fun \<Rightarrow> addr \<Rightarrow> 'm qmem \<Rightarrow> ('m qmem \<times> string option) option" where
  "queue_pop je_free q s = do {
     (s, st) \<leftarrow> adx_queue_pop je_free s q;
     Some (s, if adx_str_empty st = 0 then str st else None) }"

definition queue_holds :: "('m \<Rightarrow> addr set) \<Rightarrow> addr \<Rightarrow> 'm qmem \<Rightarrow> string list \<Rightarrow> bool" where
  "queue_holds live q s xs \<longleftrightarrow> queue_rep live q s xs \<and> [] \<notin> set xs"

lemma adx_str_empty_queue_str: "adx_str_empty (queue_str x) = 0 \<longleftrightarrow> x \<noteq> []"
  by (simp add: adx_str_empty_def queue_str_def)

lemma queue_fifo:
  assumes "allocator je_malloc je_free live"
  shows "fifo (queue_holds live q) (queue_push je_malloc je_free q) (queue_pop je_free q)
     (queue_room je_malloc) queue_ok"
proof
  fix s xs x
  assume h: "queue_holds live q s xs" and v: "queue_ok x"
  have "\<exists>s'. queue_push je_malloc je_free q s x = Some s' \<and>
      queue_holds live q s' (if queue_room je_malloc s x then xs @ [x] else xs)"
  proof (cases "x = []")
    case True
    with h show ?thesis
      by (simp add: queue_push_def adx_queue_push_def adx_queue_push_r_def queue_room_def split_def)
  next
    case False
    with allocator.queue_push_cases [OF assms _ v False, of q s xs] h show ?thesis
      by (auto simp: queue_holds_def queue_push_def)
  qed
  then show "queue_room je_malloc s x \<Longrightarrow>
      \<exists>s'. queue_push je_malloc je_free q s x = Some s' \<and> queue_holds live q s' (xs @ [x])"
    and "\<not> queue_room je_malloc s x \<Longrightarrow>
      \<exists>s'. queue_push je_malloc je_free q s x = Some s' \<and> queue_holds live q s' xs" by auto
next
  fix s
  assume "queue_holds live q s []"
  with allocator.queue_pop_cases [OF assms, of q s "[]"] obtain s' where
    "adx_queue_pop je_free s q = Some (s', \<lparr>str = None, slen = 0\<rparr>)" "queue_rep live q s' []"
    by (auto simp: queue_holds_def)
  then show "\<exists>s'. queue_pop je_free q s = Some (s', None) \<and> queue_holds live q s' []"
    by (simp add: queue_holds_def queue_pop_def adx_str_empty_def)
next
  fix s x xs
  assume "queue_holds live q s (x # xs)"
  with allocator.queue_pop_cases [OF assms, of q s "x # xs"] obtain s' where
    "adx_queue_pop je_free s q = Some (s', queue_str x)" "queue_rep live q s' xs" "x \<noteq> []" "[] \<notin> set xs"
    by (auto simp: queue_holds_def)
  then show "\<exists>s'. queue_pop je_free q s = Some (s', Some x) \<and> queue_holds live q s' xs"
    by (simp add: queue_holds_def queue_pop_def adx_str_empty_queue_str) (simp add: queue_str_def)
qed

interpretation string_queue: fifo "queue_holds (\<lambda>m. set (used m)) q" "queue_push arena_malloc arena_free q"
    "queue_pop arena_free q" "queue_room arena_malloc" queue_ok
  by (rule queue_fifo [OF arena.allocator_axioms])

section \<open>Properties\<close>

text \<open>
  C29. The string queue is first in, first out: with any allocator that hands out fresh blocks, if
  strings are pushed on an empty queue (those whose allocations fail, and empty ones, are dropped
  silently), popping as often as strings were kept returns exactly these strings, oldest first,
  and one more pop returns the null string; no operation touches freed memory.
\<close>

theorem string_queue_fifo:
  assumes "allocator je_malloc je_free live" "queue_holds live q s []"
    "\<forall>x \<in> set xs. int (length x) < INT_MAX"
  shows "\<exists>s1 s2 ys. fifo.push_all (queue_push je_malloc je_free q) (queue_room je_malloc) s xs = Some (s1, ys) \<and>
     fifo.pop_all (queue_pop je_free q) s1 (Suc (length ys)) = Some (s2, map Some ys @ [None]) \<and>
     queue_holds live q s2 []"
  using fifo.fifo_order [OF queue_fifo [OF assms(1)] assms(2)] assms(3) by (simp add: queue_ok_def)

definition queue_mem :: "arena qmem" where
  "queue_mem = \<lparr>mstate = \<lparr>brk = 64, used = [16]\<rparr>, links = [16 \<mapsto> \<lparr>lnext = 16, lprev = 16\<rparr>],
     pool_size = Map.empty, payload = Map.empty, strs = Map.empty\<rparr>"

lemma queue_mem: "queue_holds (\<lambda>m. set (used m)) 16 queue_mem []"
  by (simp add: queue_holds_def queue_rep_def queue_mem_def clist_def linked_def get_next_def get_prev_def)

theorem string_queue_fifo_witness:
  "\<exists>s1 s2 ys. fifo.push_all (queue_push arena_malloc arena_free 16) (queue_room arena_malloc) queue_mem
       [''imp'', '''', ''click''] = Some (s1, ys) \<and>
     fifo.pop_all (queue_pop arena_free 16) s1 (Suc (length ys)) = Some (s2, map Some ys @ [None]) \<and>
     queue_holds (\<lambda>m. set (used m)) 16 s2 []"
  using string_queue_fifo [OF arena.allocator_axioms queue_mem, of "[''imp'', '''', ''click'']"] by simp

end
