(* ===== verification/Adx_Cstd.thy ===== *)
theory Adx_Cstd
  imports Adx_Prelude
begin

text \<open>
  The functions of the C library the string components call: \<^verbatim>\<open>atol\<close> and \<^verbatim>\<open>atoi\<close> (as
  \<^verbatim>\<open>strtol\<close> in base 10 with saturation to 64 bits), the decimal output of \<^verbatim>\<open>printf\<close>,
  \<^verbatim>\<open>strncmp\<close> for equality, \<^verbatim>\<open>strchr\<close>, \<^verbatim>\<open>strstr\<close> and \<^verbatim>\<open>strtok_r\<close>.
\<close>

section \<open>Numbers\<close>

definition isspace :: "char \<Rightarrow> bool" where
  "isspace c = (let n = of_char c :: nat in n = 32 \<or> 9 \<le> n \<and> n \<le> 13)"

definition isdigit :: "char \<Rightarrow> bool" where
  "isdigit c = (let n = of_char c :: nat in 48 \<le> n \<and> n \<le> 57)"

definition digit_val :: "char \<Rightarrow> nat" where
  "digit_val c = of_char c - 48"

fun digits :: "nat \<Rightarrow> string \<Rightarrow> nat" where
  "digits acc [] = acc"
| "digits acc (c # cs) = (if isdigit c then digits (10 * acc + digit_val c) cs else acc)"

definition strtol :: "string \<Rightarrow> int" where
  "strtol s = (let s = dropWhile isspace s in
     case s of [] \<Rightarrow> 0
     | c # cs \<Rightarrow> if c = CHR ''-'' then - int (digits 0 cs)
        else if c = CHR ''+'' then int (digits 0 cs) else int (digits 0 (c # cs)))"

definition atol :: "string \<Rightarrow> int" where
  "atol s = max (- (2 ^ 63)) (min (2 ^ 63 - 1) (strtol s))"

definition atoi :: "string \<Rightarrow> 32 word" where
  "atoi s = of_int (atol s)"

definition digit :: "nat \<Rightarrow> char" where
  "digit n = char_of (48 + n)"

fun dec_nat :: "nat \<Rightarrow> string" where
  "dec_nat n = (if n < 10 then [digit n] else dec_nat (n div 10) @ [digit (n mod 10)])"

declare dec_nat.simps [simp del]

definition dec :: "int \<Rightarrow> string" where
  "dec z = (if z < 0 then CHR ''-'' # dec_nat (nat (- z)) else dec_nat (nat z))"

lemma of_char_digit: "n < 10 \<Longrightarrow> of_char (digit n) = 48 + n"
  by (simp add: digit_def of_char_of)

lemma digit_simps [simp]:
  assumes "n < 10"
  shows "isdigit (digit n)" "digit_val (digit n) = n" "\<not> isspace (digit n)" "digit n \<noteq> CHR ''-''"
    "digit n \<noteq> CHR ''+''"
proof -
  note o = of_char_digit [OF assms]
  then show "isdigit (digit n)" "digit_val (digit n) = n" "\<not> isspace (digit n)"
    using assms by (simp_all add: isdigit_def digit_val_def isspace_def Let_def)
  show "digit n \<noteq> CHR ''-''" "digit n \<noteq> CHR ''+''"
    using o by auto
qed

text \<open>Printing a number and reading it back.\<close>

lemma digits_append:
  "list_all isdigit ds \<Longrightarrow> digits acc (ds @ s) = digits (digits acc ds) s"
  by (induction ds arbitrary: acc) auto

lemma dec_nat_digits: "list_all isdigit (dec_nat n)"
  by (induction n rule: dec_nat.induct) (simp add: dec_nat.simps)

lemma dec_nat_not_Nil [simp]: "dec_nat n \<noteq> []"
  by (simp add: dec_nat.simps)

lemma digits_dec_nat: "digits 0 (dec_nat n) = n"
proof (induction n rule: dec_nat.induct)
  case (1 n)
  show ?case
  proof (cases "n < 10")
    case True
    then show ?thesis by (simp add: dec_nat.simps)
  next
    case False
    then have "digits 0 (dec_nat n) = digits (digits 0 (dec_nat (n div 10))) [digit (n mod 10)]"
      by (simp add: dec_nat.simps [of n] digits_append dec_nat_digits)
    also have "\<dots> = 10 * (n div 10) + n mod 10" using 1 [OF False] by simp
    finally show ?thesis by simp
  qed
qed

lemma isdigit_not: "isdigit c \<Longrightarrow> \<not> isspace c \<and> c \<noteq> CHR ''-'' \<and> c \<noteq> CHR ''+''"
  by (auto simp: isdigit_def isspace_def Let_def)

lemma strtol_digits:
  assumes "list_all isdigit ds" "ds \<noteq> []" "s = [] \<or> \<not> isdigit (hd s)"
  shows "strtol (ds @ s) = int (digits 0 ds)" "strtol (CHR ''-'' # ds @ s) = - int (digits 0 ds)"
proof -
  have s: "digits acc s = acc" for acc using assms(3) by (cases s) auto
  obtain c cs where ds: "ds = c # cs" using assms(2) by (cases ds) auto
  with assms(1) isdigit_not [of c] show "strtol (ds @ s) = int (digits 0 ds)"
    using digits_append [OF assms(1), of 0 s] s by (simp add: strtol_def)
  show "strtol (CHR ''-'' # ds @ s) = - int (digits 0 ds)"
    using digits_append [OF assms(1), of 0 s] s by (simp add: strtol_def isspace_def)
qed

lemma strtol_dec: "strtol (dec z) = z"
  using strtol_digits [OF dec_nat_digits dec_nat_not_Nil, of "[]"]
  by (simp add: dec_def digits_dec_nat)

lemma atol_dec: "- (2 ^ 63) \<le> z \<Longrightarrow> z < 2 ^ 63 \<Longrightarrow> atol (dec z) = z"
  by (simp add: atol_def strtol_dec)

lemma atoi_dec: "atoi (dec (sint w)) = w"
proof -
  have "- (2 ^ 31) \<le> sint w" "sint w < 2 ^ 31" using sint_greater_eq [of w] sint_less [of w] by auto
  then have "atol (dec (sint w)) = sint w" by (intro atol_dec) auto
  then show ?thesis by (simp add: atoi_def)
qed

section \<open>Strings\<close>

definition strncmp_eq :: "string \<Rightarrow> string \<Rightarrow> bool" where
  "strncmp_eq s lit = (take (length lit) s = lit)"

text \<open>\<^verbatim>\<open>strchr\<close>: the text before and behind the first occurrence.\<close>

fun strchr :: "string \<Rightarrow> char \<Rightarrow> (string \<times> string) option" where
  "strchr [] c = None"
| "strchr (d # s) c = (if d = c then Some ([], s) else map_option (\<lambda>(a, b). (d # a, b)) (strchr s c))"

lemma strchr_Some: "strchr s c = Some (a, b) \<longleftrightarrow> s = a @ c # b \<and> c \<notin> set a"
proof (induction s arbitrary: a)
  case (Cons d s)
  show ?case
  proof (cases "d = c")
    case False
    then have "strchr (d # s) c = Some (a, b) \<longleftrightarrow> (\<exists>a'. a = d # a' \<and> strchr s c = Some (a', b))" by auto
    also have "\<dots> \<longleftrightarrow> d # s = a @ c # b \<and> c \<notin> set a" using False by (cases a) (auto simp: Cons.IH)
    finally show ?thesis .
  qed (cases a; auto)
qed simp

lemma strchr_None: "strchr s c = None \<longleftrightarrow> c \<notin> set s"
  by (induction s) auto

text \<open>
  \<^verbatim>\<open>strtok_r\<close>: skip leading delimiters, return the token up to the next delimiter and the text
  behind it; no token if only delimiters are left.
\<close>

definition strtok_r :: "string \<Rightarrow> char set \<Rightarrow> (string \<times> string) option" where
  "strtok_r s D = (let s = dropWhile (\<lambda>c. c \<in> D) s in
     if s = [] then None
     else Some (takeWhile (\<lambda>c. c \<notin> D) s, drop 1 (dropWhile (\<lambda>c. c \<notin> D) s)))"

lemma strtok_r_shorter:
  assumes "strtok_r s D = Some (t, r)"
  shows "length t + length r \<le> length s" "length r < length s" "t \<noteq> []" "set t \<inter> D = {}"
proof -
  define u where "u = dropWhile (\<lambda>c. c \<in> D) s"
  from assms have u: "u \<noteq> []" "t = takeWhile (\<lambda>c. c \<notin> D) u" "r = drop 1 (dropWhile (\<lambda>c. c \<notin> D) u)"
    by (auto simp: strtok_r_def u_def Let_def split: if_splits)
  have "hd u \<notin> D" using hd_dropWhile [of "\<lambda>c. c \<in> D" s] u(1) by (simp add: u_def)
  then show t: "t \<noteq> []" using u by (cases u) auto
  show "set t \<inter> D = {}" using u(2) by (auto dest: set_takeWhileD)
  have "length u \<le> length s" by (simp add: u_def length_dropWhile_le)
  moreover have "length u = length t + length (dropWhile (\<lambda>c. c \<notin> D) u)"
    using u(2) by (metis length_append takeWhile_dropWhile_id)
  moreover have "length r \<le> length (dropWhile (\<lambda>c. c \<notin> D) u)" using u(3) by simp
  ultimately show "length t + length r \<le> length s" by linarith
  then show "length r < length s" using t by (cases t) auto
qed

section \<open>Splitting at a delimiter\<close>

text \<open>The parts between the delimiters, empty ones included.\<close>

fun split_on :: "char \<Rightarrow> string \<Rightarrow> string list" where
  "split_on d [] = [[]]"
| "split_on d (c # s) = (if c = d then [] # split_on d s
     else case split_on d s of [] \<Rightarrow> [[c]] | t # ts \<Rightarrow> (c # t) # ts)"

lemma split_on_not_Nil [simp]: "split_on d s \<noteq> []"
  by (induction s) (auto split: list.splits)

lemma split_on_token: "d \<notin> set t \<Longrightarrow> split_on d t = [t]"
  by (induction t) auto

lemma split_on_append: "d \<notin> set t \<Longrightarrow> split_on d (t @ d # r) = t # split_on d r"
  by (induction t) auto

lemma split_on_skip:
  "filter (\<lambda>t. t \<noteq> []) (split_on d (dropWhile (\<lambda>c. c \<in> {d}) s)) = filter (\<lambda>t. t \<noteq> []) (split_on d s)"
  by (induction s) auto

text \<open>\<^verbatim>\<open>strtok_r\<close> yields the parts that are not empty.\<close>

lemma strtok_r_split:
  "(case strtok_r s {d} of None \<Rightarrow> [] | Some (t, r) \<Rightarrow> t # filter (\<lambda>t. t \<noteq> []) (split_on d r)) =
   filter (\<lambda>t. t \<noteq> []) (split_on d s)"
proof -
  define u where "u = dropWhile (\<lambda>c. c \<in> {d}) s"
  show ?thesis
  proof (cases "u = []")
    case True
    then have "filter (\<lambda>t. t \<noteq> []) (split_on d s) = []"
      using split_on_skip [of d s] unfolding u_def [symmetric] by simp
    then show ?thesis using True by (simp add: strtok_r_def u_def)
  next
    case False
    define t where "t = takeWhile (\<lambda>c. c \<notin> {d}) u"
    define w where "w = dropWhile (\<lambda>c. c \<notin> {d}) u"
    have tok: "strtok_r s {d} = Some (t, drop 1 w)"
      using False by (simp add: strtok_r_def u_def t_def w_def Let_def)
    have t: "d \<notin> set t" "t \<noteq> []" using strtok_r_shorter(3,4) [OF tok] by auto
    have u: "u = t @ w" by (simp add: t_def w_def)
    have w: "w = [] \<or> hd w = d" using hd_dropWhile [of "\<lambda>c. c \<notin> {d}" u] unfolding w_def by blast
    have "filter (\<lambda>t. t \<noteq> []) (split_on d u) = t # filter (\<lambda>t. t \<noteq> []) (split_on d (drop 1 w))"
      using u t w by (cases w) (auto simp: split_on_token split_on_append)
    then show ?thesis using tok split_on_skip [of d s] by (simp add: u_def)
  qed
qed

end
