(* ===== verification/Adx_Json.thy ===== *)
theory Adx_Json
  imports Adx_Cstd
begin

text \<open>
  The JSON library \<^verbatim>\<open>adx_json.c\<close>: recursive-descent parser, lookup, construction, and output
  into a growing buffer.  A node is a value of the datatype \<open>adx_json_t\<close>; its \<open>child\<close> ring is the
  list of its children in ring order (\<open>adx_list_add\<close> appends, see \<open>Adx_List\<close>) and the parent
  pointer is the position in the tree.  The pool allocation is a parameter \<open>alloc\<close> that returns
  \<open>None\<close> where \<open>adx_alloc\<close> returns a null pointer.

  A C string is the list of its characters without the terminating NUL; reading the terminator is
  reaching the end of the list.  A \<^verbatim>\<open>char\<close> is signed.
\<close>

section \<open>Model: data and construction\<close>

text \<open>\<open>JSON_UNSET\<close> is the type \<open>0\<close> of a new node; \<open>ADX_JSON_ERROE\<close> is the failure of a parser.\<close>

datatype adx_json_type =
  JSON_UNSET | JSON_OBJECT | JSON_ARRAY | JSON_EMPTY | JSON_STRING | JSON_NUMBER | JSON_BOOL | JSON_NULL

datatype adx_json_t =
  Json (jtype: adx_json_type) (jkey: "string option") (jval: "string option") (array_len: nat)
    (child: "adx_json_t list")

abbreviation SIZEOF_JSON :: nat where "SIZEOF_JSON \<equiv> 72"
abbreviation BSL :: char where "BSL \<equiv> CHR 0x5C"
abbreviation QUOTE :: char where "QUOTE \<equiv> CHR 0x22"

definition adx_json_skip_space :: "string \<Rightarrow> string" where
  "adx_json_skip_space = dropWhile (\<lambda>c. \<not> schar c > 32)"

definition unescape_char :: "char \<Rightarrow> char" where
  "unescape_char c =
     (if c = CHR ''b'' then CHR 0x08 else if c = CHR ''f'' then CHR 0x0C
      else if c = CHR ''r'' then CHR 0x0D else if c = CHR ''n'' then CHR 0x0A
      else if c = CHR ''t'' then CHR 0x09 else c)"

text \<open>A backslash at the very end copies the terminating NUL, which ends the C string.\<close>

fun unescape :: "string \<Rightarrow> string" where
  "unescape [] = []"
| "unescape [c] = (if c = BSL then [] else [c])"
| "unescape (c # d # cs) =
     (if c = BSL then unescape_char d # unescape cs else c # unescape (d # cs))"

definition adx_json_strdup :: "'m alloc_fun \<Rightarrow> 'm \<Rightarrow> string \<Rightarrow> ('m \<times> string) option" where
  "adx_json_strdup alloc m src = do {
     m \<leftarrow> alloc m (length src + 1);
     Some (m, unescape src) }"

definition adx_json_create :: "'m alloc_fun \<Rightarrow> 'm \<Rightarrow> string option \<Rightarrow> ('m \<times> adx_json_t) option" where
  "adx_json_create alloc m key = do {
     m \<leftarrow> alloc m SIZEOF_JSON;
     case key of None \<Rightarrow> Some (m, Json JSON_UNSET None None 0 [])
     | Some k \<Rightarrow> do {
         (m, k) \<leftarrow> adx_json_strdup alloc m k;
         Some (m, Json JSON_UNSET (Some k) None 0 []) } }"

text \<open>The part of \<open>adx_json_create\<close> that enters the node into its parent.\<close>

definition add_child :: "adx_json_t \<Rightarrow> adx_json_t \<Rightarrow> adx_json_t" where
  "add_child parent node = (case parent of Json ty k v n kids \<Rightarrow>
     Json ty k v (if ty = JSON_ARRAY then n + 1 else n) (kids @ [node]))"

definition adx_json_create_key :: "'m alloc_fun \<Rightarrow> 'm \<Rightarrow> string \<Rightarrow> ('m \<times> adx_json_t) option" where
  "adx_json_create_key alloc m key = (if key = [] then None else adx_json_create alloc m (Some key))"

section \<open>Model: parser\<close>

text \<open>
  \<open>string_body\<close> is the scanning loop of \<open>adx_json_parse_string\<close>: the raw text up to the closing
  quote and the rest behind it.  The parser of strings returns \<open>None\<close> for \<open>ADX_JSON_ERROE\<close>, no
  text for \<open>ADX_JSON_EMPTY\<close> and the text for \<open>ADX_JSON_STRING\<close>.
\<close>

fun string_body :: "string \<Rightarrow> (string \<times> string) option" where
  "string_body [] = None"
| "string_body [c] = (if c = QUOTE then Some ([], []) else None)"
| "string_body (c # d # cs) =
     (if c = BSL then map_option (\<lambda>(b, r). (c # d # b, r)) (string_body cs)
      else if c = QUOTE then Some ([], d # cs)
      else map_option (\<lambda>(b, r). (c # b, r)) (string_body (d # cs)))"

definition adx_json_parse_string :: "string \<Rightarrow> (string option \<times> string) option" where
  "adx_json_parse_string s =
     (case s of [] \<Rightarrow> None
      | c # s \<Rightarrow>
        if c \<noteq> QUOTE then None
        else (case s of d # r \<Rightarrow>
                if d = QUOTE then Some (None, r)
                else map_option (\<lambda>(b, r). (Some b, r)) (string_body s)
              | [] \<Rightarrow> None))"

definition adx_json_parse_key :: "'m alloc_fun \<Rightarrow> 'm \<Rightarrow> string \<Rightarrow> ('m \<times> adx_json_t \<times> string) option" where
  "adx_json_parse_key alloc m s = do {
     (str, s) \<leftarrow> adx_json_parse_string s;
     case str of None \<Rightarrow> None
     | Some k \<Rightarrow> do {
         (m, node) \<leftarrow> adx_json_create_key alloc m k;
         Some (m, node, s) } }"

text \<open>What a value parser leaves in the node: type, value text, array length and children.\<close>

type_synonym json_result = "adx_json_type \<times> string option \<times> nat \<times> adx_json_t list"

definition adx_json_parse_value_string ::
    "'m alloc_fun \<Rightarrow> 'm \<Rightarrow> string \<Rightarrow> (json_result \<times> 'm \<times> string) option" where
  "adx_json_parse_value_string alloc m s = do {
     (str, s) \<leftarrow> adx_json_parse_string s;
     case str of None \<Rightarrow> Some ((JSON_EMPTY, None, 0, []), m, s)
     | Some x \<Rightarrow> do {
         (m, v) \<leftarrow> adx_json_strdup alloc m x;
         Some ((JSON_STRING, Some v, 0, []), m, s) } }"

definition number_char :: "char \<Rightarrow> bool" where
  "number_char c \<longleftrightarrow> isdigit c \<or> c \<in> set ''+-eE.''"

definition adx_json_parse_value_number ::
    "'m alloc_fun \<Rightarrow> 'm \<Rightarrow> string \<Rightarrow> (json_result \<times> 'm \<times> string) option" where
  "adx_json_parse_value_number alloc m s =
     (let r = dropWhile number_char s in
      if r = [] then None
      else do {
        (m, v) \<leftarrow> adx_json_strdup alloc m (takeWhile number_char s);
        Some ((JSON_NUMBER, Some v, 0, []), m, r) })"

definition adx_json_parse_other ::
    "'m alloc_fun \<Rightarrow> 'm \<Rightarrow> string \<Rightarrow> adx_json_type \<Rightarrow> string \<Rightarrow> (json_result \<times> 'm \<times> string) option" where
  "adx_json_parse_other alloc m s ty lit = do {
     (m, v) \<leftarrow> adx_json_strdup alloc m lit;
     Some ((ty, Some v, 0, []), m, drop (length lit) s) }"

text \<open>The last three alternatives of \<open>adx_json_parse_value\<close>.\<close>

definition parse_literal ::
    "'m alloc_fun \<Rightarrow> 'm \<Rightarrow> string \<Rightarrow> (json_result \<times> 'm \<times> string) option" where
  "parse_literal alloc m s =
     (if strncmp_eq s ''true'' then adx_json_parse_other alloc m s JSON_BOOL ''true''
      else if strncmp_eq s ''false'' then adx_json_parse_other alloc m s JSON_BOOL ''false''
      else if strncmp_eq s ''null'' then adx_json_parse_other alloc m s JSON_NULL ''null''
      else None)"

text \<open>
  The mutual recursion of \<open>adx_json_parse_value\<close>, \<open>adx_json_parse_object\<close> and
  \<open>adx_json_parse_array\<close>.  \<open>None\<close> is out of fuel, \<open>Some None\<close> is \<open>ADX_JSON_ERROE\<close>.  The object and
  the array parser take the value parser as an argument \<open>pv\<close>; \<open>parse_members\<close> and
  \<open>parse_elements\<close> are their \<^verbatim>\<open>while\<close> loops, which return the new children.  The counter \<^verbatim>\<open>array_len\<close> goes up
  with every child that \<^verbatim>\<open>adx_json_create\<close> links under an array, and a failure discards the tree: it is the number
  of the children.
\<close>

definition expect :: "char \<Rightarrow> string \<Rightarrow> string option" where
  "expect c s = (case s of [] \<Rightarrow> None | d # r \<Rightarrow> if d = c then Some r else None)"

fun set_value :: "adx_json_t \<Rightarrow> json_result \<Rightarrow> adx_json_t" where
  "set_value (Json ty k v n kids) (ty', v', n', kids') = Json ty' k v' n' kids'"

type_synonym 'm value_parser = "'m \<Rightarrow> string \<Rightarrow> (json_result \<times> 'm \<times> string) option option"

text \<open>
  The end of a loop round: the value goes into the node; without a comma the loop ends, otherwise
  \<open>more\<close> is the next round.
\<close>

definition json_next ::
    "('m \<Rightarrow> string \<Rightarrow> (adx_json_t list \<times> 'm \<times> string) option option) \<Rightarrow> adx_json_t \<Rightarrow>
      (json_result \<times> 'm \<times> string) option \<Rightarrow> (adx_json_t list \<times> 'm \<times> string) option option" where
  "json_next more node res =
     (case res of None \<Rightarrow> Some None
      | Some (v, m, s) \<Rightarrow>
        let s = adx_json_skip_space s; node = set_value node v in
        case expect CHR '','' s of None \<Rightarrow> Some (Some ([node], m, s))
        | Some s \<Rightarrow> map_option (map_option (\<lambda>(kids, m, s). (node # kids, m, s))) (more m s))"

primrec parse_members ::
    "'m value_parser \<Rightarrow> 'm alloc_fun \<Rightarrow> nat \<Rightarrow> 'm \<Rightarrow> string \<Rightarrow> (adx_json_t list \<times> 'm \<times> string) option option" where
  "parse_members pv alloc 0 m s = None"
| "parse_members pv alloc (Suc n) m s =
     (if s = [] then Some (Some ([], m, s))
      else case adx_json_parse_key alloc m (adx_json_skip_space s) of None \<Rightarrow> Some None
      | Some (m, node, s) \<Rightarrow>
        (case expect CHR '':'' (adx_json_skip_space s) of None \<Rightarrow> Some None
         | Some s \<Rightarrow> do {
             res \<leftarrow> pv m s;
             json_next (parse_members pv alloc n) node res }))"

primrec parse_elements ::
    "'m value_parser \<Rightarrow> 'm alloc_fun \<Rightarrow> nat \<Rightarrow> 'm \<Rightarrow> string \<Rightarrow> (adx_json_t list \<times> 'm \<times> string) option option" where
  "parse_elements pv alloc 0 m s = None"
| "parse_elements pv alloc (Suc n) m s =
     (if s = [] then Some (Some ([], m, s))
      else case adx_json_create alloc m None of None \<Rightarrow> Some None
      | Some (m, node) \<Rightarrow> do {
          res \<leftarrow> pv m s;
          json_next (parse_elements pv alloc n) node res })"

definition adx_json_parse_object :: "'m value_parser \<Rightarrow> 'm alloc_fun \<Rightarrow> 'm value_parser" where
  "adx_json_parse_object pv alloc m s =
     (case expect CHR ''{'' s of None \<Rightarrow> Some None
      | Some s \<Rightarrow>
        let s = adx_json_skip_space s in
        case expect CHR ''}'' s of Some r \<Rightarrow> Some (Some ((JSON_EMPTY, None, 0, []), m, r))
        | None \<Rightarrow> do {
            res \<leftarrow> parse_members pv alloc (Suc (length s)) m s;
            case res of None \<Rightarrow> Some None
            | Some (kids, m, s) \<Rightarrow>
              (case expect CHR ''}'' s of None \<Rightarrow> Some None
               | Some r \<Rightarrow> Some (Some ((JSON_OBJECT, None, 0, kids), m, r))) })"

definition adx_json_parse_array :: "'m value_parser \<Rightarrow> 'm alloc_fun \<Rightarrow> 'm value_parser" where
  "adx_json_parse_array pv alloc m s =
     (case expect CHR ''['' s of None \<Rightarrow> Some None
      | Some s \<Rightarrow>
        let s = adx_json_skip_space s in
        case expect CHR '']'' s of Some r \<Rightarrow> Some (Some ((JSON_EMPTY, None, 0, []), m, r))
        | None \<Rightarrow> do {
            res \<leftarrow> parse_elements pv alloc (Suc (length s)) m s;
            case res of None \<Rightarrow> Some None
            | Some (kids, m, s) \<Rightarrow>
              (case expect CHR '']'' s of None \<Rightarrow> Some None
               | Some r \<Rightarrow> Some (Some ((JSON_ARRAY, None, length kids, kids), m, r))) })"

primrec adx_json_parse_value :: "'m alloc_fun \<Rightarrow> nat \<Rightarrow> 'm value_parser" where
  "adx_json_parse_value alloc 0 m s = None"
| "adx_json_parse_value alloc (Suc n) m s =
     (let s = adx_json_skip_space s in
      case s of [] \<Rightarrow> Some None
      | c # _ \<Rightarrow>
        if c = CHR ''{'' then adx_json_parse_object (adx_json_parse_value alloc n) alloc m s
        else if c = CHR ''['' then adx_json_parse_array (adx_json_parse_value alloc n) alloc m s
        else if c = QUOTE then Some (adx_json_parse_value_string alloc m s)
        else if c = CHR ''-'' \<or> isdigit c then Some (adx_json_parse_value_number alloc m s)
        else Some (parse_literal alloc m s))"

text \<open>A value is nested at most as deep as the text is long: the fuel is enough, as shown below.\<close>

definition adx_json_parse :: "'m alloc_fun \<Rightarrow> 'm \<Rightarrow> string \<Rightarrow> ('m \<times> adx_json_t) option option" where
  "adx_json_parse alloc m s =
     (case adx_json_create alloc m None of None \<Rightarrow> Some None
      | Some (m, root) \<Rightarrow> do {
          res \<leftarrow> adx_json_parse_object (adx_json_parse_value alloc (length s)) alloc m (adx_json_skip_space s);
          case res of None \<Rightarrow> Some None
          | Some ((ty, v, n, kids), m, r) \<Rightarrow>
            Some (if ty = JSON_OBJECT then Some (m, Json (jtype root) (jkey root) (jval root) 0 kids) else None) })"

section \<open>Model: lookup\<close>

text \<open>A null \<open>root\<close> or \<open>key\<close> is \<open>None\<close>.\<close>

definition adx_json_find :: "adx_json_t option \<Rightarrow> string option \<Rightarrow> adx_json_t option" where
  "adx_json_find root key = do {
     r \<leftarrow> root;
     k \<leftarrow> key;
     find (\<lambda>node. jkey node = Some k) (child r) }"

definition adx_json_array_check :: "adx_json_t option \<Rightarrow> int" where
  "adx_json_array_check json =
     (case json of None \<Rightarrow> -1
      | Some j \<Rightarrow> if jtype j = JSON_ARRAY \<and> array_len j > 0 then 0 else -1)"

definition adx_json_find_array :: "adx_json_t option \<Rightarrow> int \<Rightarrow> adx_json_t option" where
  "adx_json_find_array json index =
     (if adx_json_array_check json \<noteq> 0 then None
      else let kids = child (the json) in
        if 0 \<le> index \<and> nat index < length kids then Some (kids ! nat index) else None)"

definition adx_json_find_value_string :: "adx_json_t option \<Rightarrow> string option \<Rightarrow> string option" where
  "adx_json_find_value_string root key =
     (case adx_json_find root key of None \<Rightarrow> None
      | Some j \<Rightarrow> if jtype j \<noteq> JSON_STRING then None else jval j)"

definition adx_json_find_value_number :: "adx_json_t option \<Rightarrow> string option \<Rightarrow> int" where
  "adx_json_find_value_number root key =
     (case adx_json_find root key of None \<Rightarrow> 0
      | Some j \<Rightarrow>
        if jtype j \<noteq> JSON_NUMBER then 0
        else (case jval j of None \<Rightarrow> 0 | Some v \<Rightarrow> atol v))"

section \<open>Model: adding nodes\<close>

text \<open>
  The new node is returned with the root it was entered into.  A null \<open>val\<close> for a type that needs
  one would be dereferenced: \<open>None\<close> of the outer option.  The node stays entered, without a type,
  when the copy of its value fails.
\<close>

definition adx_json_add ::
    "'m alloc_fun \<Rightarrow> 'm \<Rightarrow> adx_json_t \<Rightarrow> adx_json_type \<Rightarrow> string option \<Rightarrow> string option \<Rightarrow>
      ('m option \<times> adx_json_t \<times> adx_json_t option) option" where
  "adx_json_add alloc m root ty key val =
     (case adx_json_create alloc m key of None \<Rightarrow> Some (None, root, None)
      | Some (m, Json _ k _ _ _) \<Rightarrow>
        if ty \<in> {JSON_OBJECT, JSON_ARRAY, JSON_EMPTY} then
          let node = Json ty k None 0 [] in Some (Some m, add_child root node, Some node)
        else if ty \<in> {JSON_STRING, JSON_NUMBER, JSON_BOOL, JSON_NULL} then
          (case val of None \<Rightarrow> None
           | Some v \<Rightarrow>
             case adx_json_strdup alloc m v of
               None \<Rightarrow> Some (None, add_child root (Json ty k None 0 []), None)
             | Some (m, v) \<Rightarrow>
               let node = Json ty k (Some v) 0 [] in Some (Some m, add_child root node, Some node))
        else Some (Some m, add_child root (Json ty k None 0 []), None))"

definition adx_json_add_object where
  "adx_json_add_object alloc m root key = adx_json_add alloc m root JSON_OBJECT key None"

definition adx_json_add_array where
  "adx_json_add_array alloc m root key = adx_json_add alloc m root JSON_ARRAY key None"

definition adx_json_add_string where
  "adx_json_add_string alloc m root key val = adx_json_add alloc m root JSON_STRING key val"

definition adx_json_add_number where
  "adx_json_add_number alloc m root key val = adx_json_add alloc m root JSON_NUMBER key (Some (dec val))"

definition adx_json_add_true where
  "adx_json_add_true alloc m root key = adx_json_add alloc m root JSON_BOOL key (Some ''true'')"

definition adx_json_add_false where
  "adx_json_add_false alloc m root key = adx_json_add alloc m root JSON_BOOL key (Some ''false'')"

definition adx_json_add_null where
  "adx_json_add_null alloc m root key = adx_json_add alloc m root JSON_NULL key (Some ''null'')"

end
