(* ===== verification/Adx_Json_Buffer.thy ===== *)
theory Adx_Json_Buffer
  imports Adx_Json
begin

text \<open>
  Output of a JSON tree, \<open>adx_json_to_buffer\<close> of \<^verbatim>\<open>adx_json.c\<close>: the text is written into a buffer
  that doubles when it is nearly full.  The flag \<open>overrun\<close> of the model records a write behind the
  end of the buffer, which in C is a heap overflow.  \<open>node_text\<close> is the text as a function of the
  tree; the buffer code is proved to produce it, without an overrun as long as the literals in the
  tree are not longer than the initial buffer.
\<close>

section \<open>Model\<close>

record 'm adx_json_buffer =
  buf :: string
  total :: int
  overrun :: bool
  bpool :: 'm

abbreviation ADX_JSON_BUFF_SIZE :: int where "ADX_JSON_BUFF_SIZE \<equiv> 2048"

text \<open>\<open>None\<close> is the result \<open>-1\<close>, and also the overflow of the \<open>int\<close> field \<open>total\<close>.\<close>

definition adx_json_buffer_realloc :: "'m alloc_fun \<Rightarrow> 'm adx_json_buffer \<Rightarrow> 'm adx_json_buffer option" where
  "adx_json_buffer_realloc alloc b =
     (if total b * 2 > INT_MAX then None
      else do {
        m \<leftarrow> alloc (bpool b) (nat (total b * 2));
        Some (b\<lparr>total := total b * 2, bpool := m\<rparr>) })"

definition buffer_full :: "'m adx_json_buffer \<Rightarrow> nat \<Rightarrow> bool" where
  "buffer_full b n \<longleftrightarrow> int (length (buf b)) + int n \<ge> total b - 1"

definition buffer_put :: "'m adx_json_buffer \<Rightarrow> string \<Rightarrow> 'm adx_json_buffer" where
  "buffer_put b s = b\<lparr>buf := buf b @ s, overrun := overrun b \<or> int (length (buf b @ s)) > total b\<rparr>"

definition adx_json_buffer_strcat ::
    "'m alloc_fun \<Rightarrow> 'm adx_json_buffer \<Rightarrow> string \<Rightarrow> 'm adx_json_buffer option" where
  "adx_json_buffer_strcat alloc b s = do {
     b \<leftarrow> (if buffer_full b (length s) then adx_json_buffer_realloc alloc b else Some b);
     Some (buffer_put b s) }"

definition escape_char :: "char \<Rightarrow> string" where
  "escape_char c =
     (if c = CHR 0x08 then [BSL, CHR ''b''] else if c = CHR 0x0C then [BSL, CHR ''f'']
      else if c = CHR 0x0D then [BSL, CHR ''r''] else if c = CHR 0x0A then [BSL, CHR ''n'']
      else if c = CHR 0x09 then [BSL, CHR ''t''] else if c = BSL then [BSL, BSL]
      else if c = QUOTE then [BSL, QUOTE] else if c = CHR ''/'' then [BSL, CHR ''/'']
      else [c])"

text \<open>
  One pass of the escaping loop: the text written behind \<open>buf b\<close>, whether it left the buffer, and
  whether the pass stopped because the buffer is full.
\<close>

fun escape_pass :: "'m adx_json_buffer \<Rightarrow> string \<Rightarrow> string \<Rightarrow> bool \<Rightarrow> string \<times> bool \<times> bool" where
  "escape_pass b [] out ov = (out, ov, False)"
| "escape_pass b (c # cs) out ov =
     (let out = out @ escape_char c; ov = (ov \<or> int (length (buf b @ out)) > total b) in
      if buffer_full b (length out) then (out, ov, True) else escape_pass b cs out ov)"

partial_function (option) adx_json_buffer_strcat_escapes ::
    "'m alloc_fun \<Rightarrow> 'm adx_json_buffer \<Rightarrow> string \<Rightarrow> 'm adx_json_buffer option" where
  "adx_json_buffer_strcat_escapes alloc b s =
     (case escape_pass b s [] False of (out, ov, full) \<Rightarrow>
        let b = b\<lparr>overrun := overrun b \<or> ov\<rparr> in
        if full then do {
          b \<leftarrow> adx_json_buffer_realloc alloc b;
          adx_json_buffer_strcat_escapes alloc b s }
        else Some (b\<lparr>buf := buf b @ out\<rparr>))"

text \<open>The member prefix of the four printing functions, and the two printers of leaves.\<close>

definition buffer_key ::
    "'m alloc_fun \<Rightarrow> 'm adx_json_buffer \<Rightarrow> string option \<Rightarrow> string \<Rightarrow> 'm adx_json_buffer option" where
  "buffer_key alloc b key open_s =
     (case key of None \<Rightarrow> adx_json_buffer_strcat alloc b open_s
      | Some k \<Rightarrow> do {
          b \<leftarrow> adx_json_buffer_strcat alloc b [QUOTE];
          b \<leftarrow> adx_json_buffer_strcat_escapes alloc b k;
          adx_json_buffer_strcat alloc b ([QUOTE, CHR '':''] @ open_s) })"

definition adx_json_buffer_from_string ::
    "'m alloc_fun \<Rightarrow> 'm adx_json_buffer \<Rightarrow> adx_json_t \<Rightarrow> 'm adx_json_buffer option" where
  "adx_json_buffer_from_string alloc b node = do {
     b \<leftarrow> buffer_key alloc b (jkey node) [QUOTE];
     v \<leftarrow> jval node;
     b \<leftarrow> adx_json_buffer_strcat_escapes alloc b v;
     adx_json_buffer_strcat alloc b [QUOTE] }"

definition adx_json_buffer_from_other ::
    "'m alloc_fun \<Rightarrow> 'm adx_json_buffer \<Rightarrow> adx_json_t \<Rightarrow> 'm adx_json_buffer option" where
  "adx_json_buffer_from_other alloc b node =
     (case jkey node of None \<Rightarrow> do { v \<leftarrow> jval node; adx_json_buffer_strcat alloc b v }
      | Some k \<Rightarrow> do {
          b \<leftarrow> adx_json_buffer_strcat alloc b [QUOTE];
          b \<leftarrow> adx_json_buffer_strcat_escapes alloc b k;
          b \<leftarrow> adx_json_buffer_strcat alloc b [QUOTE, CHR '':''];
          v \<leftarrow> jval node;
          adx_json_buffer_strcat alloc b v })"

fun adx_json_buffer_from_object ::
      "'m alloc_fun \<Rightarrow> 'm adx_json_buffer \<Rightarrow> adx_json_t \<Rightarrow> 'm adx_json_buffer option"
  and adx_json_buffer_from_array ::
      "'m alloc_fun \<Rightarrow> 'm adx_json_buffer \<Rightarrow> adx_json_t \<Rightarrow> 'm adx_json_buffer option"
  and buffer_children ::
      "'m alloc_fun \<Rightarrow> 'm adx_json_buffer \<Rightarrow> bool \<Rightarrow> adx_json_t list \<Rightarrow> 'm adx_json_buffer option"
where
  "adx_json_buffer_from_object alloc b (Json ty k v n kids) = do {
     b \<leftarrow> buffer_key alloc b k ''{'';
     b \<leftarrow> buffer_children alloc b False kids;
     adx_json_buffer_strcat alloc b ''}'' }"
| "adx_json_buffer_from_array alloc b (Json ty k v n kids) = do {
     b \<leftarrow> buffer_key alloc b k ''['';
     b \<leftarrow> buffer_children alloc b False kids;
     adx_json_buffer_strcat alloc b '']'' }"
| "buffer_children alloc b comma [] = Some b"
| "buffer_children alloc b comma (node # nodes) = do {
     b \<leftarrow> (if comma then adx_json_buffer_strcat alloc b '','' else Some b);
     case jtype node of
       JSON_OBJECT \<Rightarrow> do { b \<leftarrow> adx_json_buffer_from_object alloc b node; buffer_children alloc b True nodes }
     | JSON_ARRAY \<Rightarrow> do { b \<leftarrow> adx_json_buffer_from_array alloc b node; buffer_children alloc b True nodes }
     | JSON_STRING \<Rightarrow> do { b \<leftarrow> adx_json_buffer_from_string alloc b node; buffer_children alloc b True nodes }
     | JSON_NUMBER \<Rightarrow> do { b \<leftarrow> adx_json_buffer_from_other alloc b node; buffer_children alloc b True nodes }
     | JSON_BOOL \<Rightarrow> do { b \<leftarrow> adx_json_buffer_from_other alloc b node; buffer_children alloc b True nodes }
     | JSON_NULL \<Rightarrow> do { b \<leftarrow> adx_json_buffer_from_other alloc b node; buffer_children alloc b True nodes }
     | JSON_EMPTY \<Rightarrow> buffer_children alloc b False nodes
     | JSON_UNSET \<Rightarrow> None }"

definition adx_json_to_buffer :: "'m alloc_fun \<Rightarrow> 'm \<Rightarrow> adx_json_t \<Rightarrow> ('m adx_json_buffer) option" where
  "adx_json_to_buffer alloc m node = do {
     m \<leftarrow> alloc m (nat ADX_JSON_BUFF_SIZE);
     b \<leftarrow> adx_json_buffer_from_object alloc
       \<lparr>buf = [], total = ADX_JSON_BUFF_SIZE, overrun = False, bpool = m\<rparr> node;
     if buf b = [] then None else Some b }"

section \<open>The text of a tree\<close>

definition escape :: "string \<Rightarrow> string" where
  "escape s = concat (map escape_char s)"

definition key_text :: "string option \<Rightarrow> string" where
  "key_text k = (case k of None \<Rightarrow> [] | Some k \<Rightarrow> [QUOTE] @ escape k @ [QUOTE, CHR '':''])"

fun value_text :: "adx_json_t \<Rightarrow> string" and kids_text :: "bool \<Rightarrow> adx_json_t list \<Rightarrow> string" where
  "value_text (Json ty k v n kids) =
     (case ty of JSON_OBJECT \<Rightarrow> ''{'' @ kids_text False kids @ ''}''
      | JSON_ARRAY \<Rightarrow> ''['' @ kids_text False kids @ '']''
      | JSON_STRING \<Rightarrow> [QUOTE] @ escape (the v) @ [QUOTE]
      | _ \<Rightarrow> the v)"
| "kids_text comma [] = []"
| "kids_text comma (node # nodes) =
     (if comma then '','' else []) @
     (if jtype node = JSON_EMPTY then kids_text False nodes
      else key_text (jkey node) @ value_text node @ kids_text True nodes)"

definition node_text :: "adx_json_t \<Rightarrow> string" where
  "node_text t = key_text (jkey t) @ value_text t"

text \<open>Trees the printer accepts: every node has a type, leaves have a value, literals are short.\<close>

fun printable :: "adx_json_t \<Rightarrow> bool" where
  "printable (Json ty k v n kids) =
     (case ty of JSON_OBJECT \<Rightarrow> list_all printable kids
      | JSON_ARRAY \<Rightarrow> list_all printable kids
      | JSON_STRING \<Rightarrow> v \<noteq> None
      | JSON_EMPTY \<Rightarrow> True
      | JSON_UNSET \<Rightarrow> False
      | _ \<Rightarrow> (case v of None \<Rightarrow> False | Some x \<Rightarrow> int (length x) \<le> ADX_JSON_BUFF_SIZE))"

section \<open>The buffer code writes the text\<close>

definition text_limit :: int where
  "text_limit = 2 ^ 30 - 2"

definition buffer_ok :: "'m adx_json_buffer \<Rightarrow> bool" where
  "buffer_ok b \<longleftrightarrow> ADX_JSON_BUFF_SIZE \<le> total b \<and> total b \<le> INT_MAX \<and> \<not> overrun b \<and>
     int (length (buf b)) < total b - 1"

text \<open>\<open>writes f b s\<close>: the step \<open>f\<close> returns, keeps the buffer in order and appends \<open>s\<close>.\<close>

definition writes :: "'m adx_json_buffer option \<Rightarrow> 'm adx_json_buffer \<Rightarrow> string \<Rightarrow> bool" where
  "writes r b s \<longleftrightarrow> (\<exists>b'. r = Some b' \<and> buffer_ok b' \<and> buf b' = buf b @ s)"

lemma writes_bind:
  assumes "writes r b s" and "\<And>b'. buffer_ok b' \<Longrightarrow> buf b' = buf b @ s \<Longrightarrow> writes (f b') b' t"
  shows "writes (Option.bind r f) b (s @ t)"
  using assms by (fastforce simp: writes_def)

lemma writes_Some: "buffer_ok b \<Longrightarrow> writes (Some b) b []"
  by (simp add: writes_def)

lemma realloc_ok:
  assumes "alloc_total alloc" "buffer_ok b" "total b - 1 < text_limit"
  shows "\<exists>b'. adx_json_buffer_realloc alloc b = Some b' \<and> buffer_ok b' \<and> buf b' = buf b \<and> total b' = 2 * total b"
proof -
  obtain m where "alloc (bpool b) (nat (total b * 2)) = Some m" using assms(1) by (auto simp: alloc_total_def)
  then show ?thesis
    using assms(2,3) by (auto simp: adx_json_buffer_realloc_def buffer_ok_def text_limit_def)
qed

lemma strcat_ok:
  assumes "alloc_total alloc" "buffer_ok b" "int (length s) \<le> ADX_JSON_BUFF_SIZE"
    "int (length (buf b @ s)) < text_limit"
  shows "writes (adx_json_buffer_strcat alloc b s) b s"
proof (cases "buffer_full b (length s)")
  case True
  then have "total b - 1 < text_limit" using assms(4) by (auto simp: buffer_full_def)
  from realloc_ok [OF assms(1,2) this] obtain b' where
    b': "adx_json_buffer_realloc alloc b = Some b'" "buffer_ok b'" "buf b' = buf b" "total b' = 2 * total b"
    by blast
  then show ?thesis using True assms(2,3)
    by (auto simp: writes_def adx_json_buffer_strcat_def buffer_put_def buffer_ok_def)
next
  case False
  with assms(2) show ?thesis
    by (auto simp: writes_def adx_json_buffer_strcat_def buffer_put_def buffer_ok_def buffer_full_def)
qed

lemma escape_Cons [simp]: "escape (c # s) = escape_char c @ escape s" "escape [] = []"
  by (simp_all add: escape_def)

lemma length_escape_char: "length (escape_char c) \<le> 2"
  by (simp add: escape_char_def)

lemma escape_pass_ok:
  assumes "int (length (buf b @ out)) < total b - 1"
  shows "(\<exists>out'. escape_pass b s out False = (out', False, True)) \<and>
      total b - 1 \<le> int (length (buf b @ out @ escape s)) \<or>
    escape_pass b s out False = (out @ escape s, False, False) \<and>
      int (length (buf b @ out @ escape s)) < total b - 1"
  using assms
proof (induction s arbitrary: out)
  case (Cons c s)
  let ?out = "out @ escape_char c"
  have ov: "\<not> int (length (buf b @ ?out)) > total b" using Cons.prems length_escape_char [of c] by simp
  show ?case
  proof (cases "buffer_full b (length ?out)")
    case True
    with ov show ?thesis by (simp add: Let_def buffer_full_def)
  next
    case False
    then have "int (length (buf b @ ?out)) < total b - 1" by (simp add: buffer_full_def)
    from Cons.IH [OF this] False ov show ?thesis by (simp add: Let_def)
  qed
qed simp

lemma escapes_ok:
  assumes "alloc_total alloc" "buffer_ok b" "int (length (buf b @ escape s)) < text_limit"
  shows "writes (adx_json_buffer_strcat_escapes alloc b s) b (escape s)"
  using assms(2,3)
proof (induction "nat (INT_MAX - total b)" arbitrary: b rule: less_induct)
  case less
  have "int (length (buf b @ [])) < total b - 1" using less.prems(1) by (simp add: buffer_ok_def)
  from escape_pass_ok [OF this, of s] consider
    (full) out where "escape_pass b s [] False = (out, False, True)"
      "total b - 1 \<le> int (length (buf b @ escape s))"
    | (fits) "escape_pass b s [] False = (escape s, False, False)"
      "int (length (buf b @ escape s)) < total b - 1"
    by auto
  then show ?case
  proof cases
    case full
    then have "total b - 1 < text_limit" using less.prems(2) by simp
    from realloc_ok [OF assms(1) less.prems(1) this] obtain b' where
      b': "adx_json_buffer_realloc alloc b = Some b'" "buffer_ok b'" "buf b' = buf b" "total b' = 2 * total b"
      by blast
    have "nat (INT_MAX - total b') < nat (INT_MAX - total b)"
      using b'(2,4) less.prems(1) by (auto simp: buffer_ok_def)
    from less.hyps [OF this b'(2)] b'(3) less.prems(2)
    have "writes (adx_json_buffer_strcat_escapes alloc b' s) b (escape s)" by (simp add: writes_def)
    then show ?thesis using full(1) b'(1)
      by (subst adx_json_buffer_strcat_escapes.simps) simp
  next
    case fits
    with less.prems show ?thesis
      by (subst adx_json_buffer_strcat_escapes.simps) (simp add: writes_def buffer_ok_def)
  qed
qed

lemma buffer_key_ok:
  assumes "alloc_total alloc" "buffer_ok b" "length op \<le> 1"
    "int (length (buf b @ key_text key @ op)) < text_limit"
  shows "writes (buffer_key alloc b key op) b (key_text key @ op)"
proof (cases key)
  case None
  then show ?thesis using strcat_ok [OF assms(1,2), of op] assms(3,4) by (simp add: buffer_key_def key_text_def)
next
  case (Some k)
  have "writes (do { b \<leftarrow> adx_json_buffer_strcat alloc b [QUOTE];
       b \<leftarrow> adx_json_buffer_strcat_escapes alloc b k;
       adx_json_buffer_strcat alloc b ([QUOTE, CHR '':''] @ op) }) b ([QUOTE] @ escape k @ [QUOTE, CHR '':''] @ op)"
    using assms Some
    by (intro writes_bind strcat_ok escapes_ok) (auto simp: key_text_def)
  then show ?thesis using Some by (simp add: buffer_key_def key_text_def)
qed

lemma from_string_ok:
  assumes "alloc_total alloc" "buffer_ok b" "jval node = Some v"
    "int (length (buf b @ key_text (jkey node) @ [QUOTE] @ escape v @ [QUOTE])) < text_limit"
  shows "writes (adx_json_buffer_from_string alloc b node) b (key_text (jkey node) @ [QUOTE] @ escape v @ [QUOTE])"
proof -
  have "writes (do { b \<leftarrow> buffer_key alloc b (jkey node) [QUOTE];
       b \<leftarrow> adx_json_buffer_strcat_escapes alloc b v;
       adx_json_buffer_strcat alloc b [QUOTE] }) b ((key_text (jkey node) @ [QUOTE]) @ escape v @ [QUOTE])"
    using assms by (intro writes_bind buffer_key_ok escapes_ok strcat_ok) auto
  then show ?thesis using assms(3) by (simp add: adx_json_buffer_from_string_def)
qed

lemma from_other_ok:
  assumes "alloc_total alloc" "buffer_ok b" "jval node = Some v" "int (length v) \<le> ADX_JSON_BUFF_SIZE"
    "int (length (buf b @ key_text (jkey node) @ v)) < text_limit"
  shows "writes (adx_json_buffer_from_other alloc b node) b (key_text (jkey node) @ v)"
proof (cases "jkey node")
  case None
  then show ?thesis using strcat_ok [OF assms(1,2), of v] assms(3-5)
    by (simp add: adx_json_buffer_from_other_def key_text_def)
next
  case (Some k)
  have "writes (do { b \<leftarrow> adx_json_buffer_strcat alloc b [QUOTE];
       b \<leftarrow> adx_json_buffer_strcat_escapes alloc b k;
       b \<leftarrow> adx_json_buffer_strcat alloc b [QUOTE, CHR '':''];
       adx_json_buffer_strcat alloc b v }) b ([QUOTE] @ escape k @ [QUOTE, CHR '':''] @ v)"
    using assms Some
    by (intro writes_bind strcat_ok escapes_ok) (auto simp: key_text_def)
  then show ?thesis using Some assms(3) by (simp add: adx_json_buffer_from_other_def key_text_def)
qed

text \<open>What the printers of containers write, whatever the type field of the node says.\<close>

definition object_text :: "adx_json_t \<Rightarrow> string" where
  "object_text t = key_text (jkey t) @ ''{'' @ kids_text False (child t) @ ''}''"

definition array_text :: "adx_json_t \<Rightarrow> string" where
  "array_text t = key_text (jkey t) @ ''['' @ kids_text False (child t) @ '']''"

text \<open>The statement for one container node, and what it gives for a list of children.\<close>

definition prints :: "'m alloc_fun \<Rightarrow> adx_json_t \<Rightarrow> bool" where
  "prints alloc t \<longleftrightarrow> (\<forall>b. list_all printable (child t) \<longrightarrow> buffer_ok b \<longrightarrow>
     (int (length (buf b @ object_text t)) < text_limit \<longrightarrow>
        writes (adx_json_buffer_from_object alloc b t) b (object_text t)) \<and>
     (int (length (buf b @ array_text t)) < text_limit \<longrightarrow>
        writes (adx_json_buffer_from_array alloc b t) b (array_text t)))"

definition node_printer :: "'m alloc_fun \<Rightarrow> 'm adx_json_buffer \<Rightarrow> adx_json_t \<Rightarrow> 'm adx_json_buffer option" where
  "node_printer alloc b node =
     (case jtype node of
        JSON_OBJECT \<Rightarrow> adx_json_buffer_from_object alloc b node
      | JSON_ARRAY \<Rightarrow> adx_json_buffer_from_array alloc b node
      | JSON_STRING \<Rightarrow> adx_json_buffer_from_string alloc b node
      | _ \<Rightarrow> adx_json_buffer_from_other alloc b node)"

lemma node_printer_ok:
  assumes "alloc_total alloc" "prints alloc t" "printable t" "jtype t \<noteq> JSON_EMPTY" "buffer_ok b"
    "int (length (buf b @ node_text t)) < text_limit"
  shows "writes (node_printer alloc b t) b (node_text t)"
proof -
  obtain ty k v n kids where t: "t = Json ty k v n kids" by (cases t)
  show ?thesis
  proof (cases ty)
    case JSON_OBJECT
    then show ?thesis using assms t by (auto simp: prints_def node_printer_def node_text_def object_text_def)
  next
    case JSON_ARRAY
    then show ?thesis using assms t by (auto simp: prints_def node_printer_def node_text_def array_text_def)
  next
    case JSON_STRING
    then show ?thesis using assms t from_string_ok [OF assms(1,5), of t]
      by (auto simp: node_printer_def node_text_def)
  qed (use assms t from_other_ok [OF assms(1,5), of t] in
      \<open>auto simp: node_printer_def node_text_def split: option.splits\<close>)
qed

lemma buffer_children_Cons:
  assumes "jtype t \<noteq> JSON_EMPTY" "jtype t \<noteq> JSON_UNSET"
  shows "buffer_children alloc b comma (t # ts) = do {
     b \<leftarrow> (if comma then adx_json_buffer_strcat alloc b '','' else Some b);
     b \<leftarrow> node_printer alloc b t;
     buffer_children alloc b True ts }"
  using assms by (cases "jtype t") (auto simp: node_printer_def)

lemma comma_ok:
  assumes "alloc_total alloc" "buffer_ok b" "int (length (buf b)) + 1 < text_limit"
  shows "writes (if comma then adx_json_buffer_strcat alloc b '','' else Some b) b (if comma then '','' else [])"
  using strcat_ok [OF assms(1,2), of "'',''"] writes_Some [OF assms(2)] assms(3) by simp

lemma buffer_children_ok:
  assumes "alloc_total alloc" "\<forall>t \<in> set ts. prints alloc t" "list_all printable ts" "buffer_ok b"
    "int (length (buf b @ kids_text comma ts)) + 1 < text_limit"
  shows "writes (buffer_children alloc b comma ts) b (kids_text comma ts)"
  using assms(2-5)
proof (induction ts arbitrary: b comma)
  case Nil
  then show ?case by (simp add: writes_Some)
next
  case (Cons t ts)
  have c: "writes (if comma then adx_json_buffer_strcat alloc b '','' else Some b) b (if comma then '','' else [])"
    by (rule comma_ok [OF assms(1) Cons.prems(3)]) (use Cons.prems(4) in \<open>simp split: if_splits\<close>)
  show ?case
  proof (cases "jtype t = JSON_EMPTY")
    case True
    have "writes (Option.bind (if comma then adx_json_buffer_strcat alloc b '','' else Some b)
        (\<lambda>b. buffer_children alloc b False ts)) b ((if comma then '','' else []) @ kids_text False ts)"
      by (rule writes_bind [OF c], rule Cons.IH) (use Cons.prems True in auto)
    then show ?thesis using True by simp
  next
    case False
    have u: "jtype t \<noteq> JSON_UNSET" using Cons.prems(2) by (cases t) auto
    have "writes (do { b \<leftarrow> (if comma then adx_json_buffer_strcat alloc b '','' else Some b);
        b \<leftarrow> node_printer alloc b t; buffer_children alloc b True ts }) b
        ((if comma then '','' else []) @ node_text t @ kids_text True ts)"
      by (rule writes_bind [OF c], rule writes_bind, rule node_printer_ok [OF assms(1)],
          (use Cons.prems False in \<open>auto simp: node_text_def\<close>)[5], rule Cons.IH)
        (use Cons.prems False in \<open>auto simp: node_text_def\<close>)
    then show ?thesis using False u by (simp add: buffer_children_Cons node_text_def del: buffer_children.simps)
  qed
qed

lemma prints_all:
  assumes "alloc_total alloc"
  shows "prints alloc t"
proof (induction t)
  case (Json ty k v n kids)
  have obj: "writes (do { b \<leftarrow> buffer_key alloc b k [c];
      b \<leftarrow> buffer_children alloc b False kids;
      adx_json_buffer_strcat alloc b [e] }) b ((key_text k @ [c]) @ kids_text False kids @ [e])"
    if "list_all printable kids" "buffer_ok b"
      "int (length (buf b @ key_text k @ [c] @ kids_text False kids @ [e])) < text_limit" for b c e
    using that Json assms
    by (intro writes_bind buffer_key_ok buffer_children_ok strcat_ok) auto
  show ?case
    using obj [of _ "CHR ''{''" "CHR ''}''"] obj [of _ "CHR ''[''" "CHR '']''"]
    by (auto simp: prints_def object_text_def array_text_def)
qed

lemma adx_json_to_buffer_text_lemma:
  assumes "alloc_total alloc" "list_all printable (child t)" "int (length (object_text t)) < text_limit"
  shows "\<exists>b. adx_json_to_buffer alloc m t = Some b \<and> buf b = object_text t \<and> \<not> overrun b \<and>
     int (length (buf b)) < total b"
proof -
  obtain m' where m': "alloc m (nat ADX_JSON_BUFF_SIZE) = Some m'" using assms(1) by (auto simp: alloc_total_def)
  define b0 where "b0 = \<lparr>buf = [], total = ADX_JSON_BUFF_SIZE, overrun = False, bpool = m'\<rparr>"
  have "buffer_ok b0" by (simp add: buffer_ok_def b0_def)
  with prints_all [OF assms(1), of t] assms(2,3) have
    "writes (adx_json_buffer_from_object alloc b0 t) b0 (object_text t)" by (simp add: prints_def b0_def)
  then obtain b where b: "adx_json_buffer_from_object alloc b0 t = Some b" "buffer_ok b" "buf b = object_text t"
    by (auto simp: writes_def b0_def)
  have "object_text t \<noteq> []" by (simp add: object_text_def)
  then have "adx_json_to_buffer alloc m t = Some b"
    using m' b unfolding b0_def by (simp add: adx_json_to_buffer_def)
  then show ?thesis using b(2,3) by (auto simp: buffer_ok_def)
qed

section \<open>Properties\<close>

text \<open>
  \<open>adx_json_to_buffer\<close>: for a root whose descendants all have a type and the value their type
  needs, whose number, boolean and null literals have at most 2048 characters and whose text stays
  below \<open>2 ^ 30 - 2\<close> characters, and with an allocator that does not fail, the function returns,
  never writes outside its buffer, leaves room for the terminating NUL, and the buffer holds
  exactly the text of the tree.
\<close>

theorem adx_json_to_buffer_text:
  assumes "alloc_total alloc" "list_all printable (child t)" "int (length (object_text t)) < text_limit"
  shows "\<exists>b. adx_json_to_buffer alloc m t = Some b \<and> buf b = object_text t \<and> \<not> overrun b \<and>
     int (length (buf b)) < total b"
  by (rule adx_json_to_buffer_text_lemma [OF assms])

definition bid_json :: adx_json_t where
  "bid_json = Json JSON_UNSET None None 0
     [Json JSON_STRING (Some ''id'') (Some ''a/b'') 0 [],
      Json JSON_ARRAY (Some ''imp'') None 2
        [Json JSON_NUMBER None (Some ''-12.5e3'') 0 [], Json JSON_BOOL None (Some ''true'') 0 []]]"

theorem adx_json_to_buffer_text_witness:
  "\<exists>b. adx_json_to_buffer (\<lambda>m n. Some (m + n)) 0 bid_json = Some b \<and> buf b = object_text bid_json \<and>
     \<not> overrun b \<and> int (length (buf b)) < total b"
  by (rule adx_json_to_buffer_text)
    (simp_all add: alloc_total_def bid_json_def object_text_def key_text_def escape_char_def text_limit_def)

text \<open>
  The buffer is doubled only once per literal: a number with 4092 characters or more (the
  parser accepts literals of any length) is copied behind the end of the buffer.
\<close>

theorem adx_json_to_buffer_overrun:
  assumes "alloc_total alloc" "4092 \<le> length v" "length v < 2 ^ 29"
  shows "\<exists>b. adx_json_to_buffer alloc m
     (Json JSON_UNSET None None 0 [Json JSON_NUMBER (Some ''a'') (Some v) 0 []]) = Some b \<and> overrun b"
proof -
  have al: "\<exists>m'. alloc m n = Some m'" for m n using assms(1) by (auto simp: alloc_total_def)
  obtain m1 where m1: "alloc m 2048 = Some m1" using al by blast
  obtain m2 where m2: "alloc m1 4096 = Some m2" using al by blast
  obtain m3 where m3: "alloc m2 8192 = Some m3" using al by blast
  show ?thesis
    using assms(2,3) m1 m2 m3
    by (simp add: adx_json_to_buffer_def buffer_key_def adx_json_buffer_strcat_def buffer_full_def
        buffer_put_def adx_json_buffer_from_other_def adx_json_buffer_strcat_escapes.simps escape_char_def
        adx_json_buffer_realloc_def Let_def)
qed

theorem adx_json_to_buffer_overrun_witness:
  "\<exists>b. adx_json_to_buffer (\<lambda>m n. Some (m + n)) 0
     (Json JSON_UNSET None None 0 [Json JSON_NUMBER (Some ''a'') (Some (replicate 4100 CHR ''7'')) 0 []]) = Some b \<and>
     overrun b"
  by (rule adx_json_to_buffer_overrun) (simp_all add: alloc_total_def)

end
