(* ===== verification/Adx_Json_Parse.thy ===== *)
theory Adx_Json_Parse
  imports Adx_Json_Buffer
begin

text \<open>
  Correctness of the parser of \<^verbatim>\<open>adx_json.c\<close>: it terminates on every input (the fuel of the model
  is never used up), and it reads back every well-formed tree from its text.
\<close>

section \<open>Every parser consumes input\<close>

lemma skip_space_length: "length (adx_json_skip_space s) \<le> length s"
  by (simp add: adx_json_skip_space_def length_dropWhile_le)

lemma expect_length: "expect c s = Some r \<Longrightarrow> length s = Suc (length r)"
  by (auto simp: expect_def split: list.splits if_splits)

lemma string_body_length: "string_body s = Some (b, r) \<Longrightarrow> length b + length r < length s"
  by (induction s arbitrary: b rule: string_body.induct) (fastforce split: if_splits)+

lemma parse_string_length: "adx_json_parse_string s = Some (x, r) \<Longrightarrow> length r < length s"
  by (auto simp: adx_json_parse_string_def split: list.splits if_splits dest!: string_body_length)

definition shrinks :: "'m value_parser \<Rightarrow> bool" where
  "shrinks pv \<longleftrightarrow> (\<forall>m s v m' r. pv m s = Some (Some (v, m', r)) \<longrightarrow> length r < length s)"

definition total_below :: "nat \<Rightarrow> 'm value_parser \<Rightarrow> bool" where
  "total_below k pv \<longleftrightarrow> (\<forall>m s. length s < k \<longrightarrow> pv m s \<noteq> None)"

lemma parse_key_length:
  "adx_json_parse_key alloc m s = Some (m', node, r) \<Longrightarrow> length r < length s"
  by (auto simp: adx_json_parse_key_def split: option.splits dest!: parse_string_length)

lemma json_next_length:
  assumes "json_next again node (Some (v, m, s)) = Some (Some (kids, m', r))"
    "\<And>m s kids m' r. again m s = Some (Some (kids, m', r)) \<Longrightarrow> length r \<le> length s"
  shows "length r \<le> length s"
proof (cases "expect CHR '','' (adx_json_skip_space s)")
  case None
  with assms(1) skip_space_length [of s] show ?thesis by (auto simp: json_next_def Let_def)
next
  case (Some s')
  with assms(1) obtain ks where "again m s' = Some (Some (ks, m', r))" by (auto simp: json_next_def Let_def)
  with assms(2) expect_length [OF Some] skip_space_length [of s] show ?thesis by fastforce
qed

lemma parse_members_length:
  assumes "shrinks pv" "parse_members pv alloc n m s = Some (Some (kids, m', r))"
  shows "length r \<le> length s"
  using assms(2)
proof (induction n arbitrary: m s kids m' r)
  case (Suc n)
  show ?case
  proof (cases "s = []")
    case False
    with Suc.prems obtain m1 node s1 s2 v m2 s3 where
      k: "adx_json_parse_key alloc m (adx_json_skip_space s) = Some (m1, node, s1)"
        "expect CHR '':'' (adx_json_skip_space s1) = Some s2" "pv m1 s2 = Some (Some (v, m2, s3))"
        "json_next (parse_members pv alloc n) node (Some (v, m2, s3)) = Some (Some (kids, m', r))"
      by (auto split: option.splits simp: json_next_def)
    have "length r \<le> length s3" by (rule json_next_length [OF k(4) Suc.IH])
    also have "\<dots> \<le> length s"
      using assms(1) k(3) parse_key_length [OF k(1)] expect_length [OF k(2)] skip_space_length [of s]
        skip_space_length [of s1] unfolding shrinks_def by fastforce
    finally show ?thesis .
  qed (use Suc.prems in auto)
qed simp

lemma parse_elements_length:
  assumes "shrinks pv" "parse_elements pv alloc n m s = Some (Some (kids, m', r))"
  shows "length r \<le> length s"
  using assms(2)
proof (induction n arbitrary: m s kids m' r)
  case (Suc n)
  show ?case
  proof (cases "s = []")
    case False
    with Suc.prems obtain m1 node v m2 s3 where
      k: "pv m1 s = Some (Some (v, m2, s3))"
        "json_next (parse_elements pv alloc n) node (Some (v, m2, s3)) = Some (Some (kids, m', r))"
      by (auto split: option.splits simp: json_next_def)
    have "length r \<le> length s3" by (rule json_next_length [OF k(2) Suc.IH])
    also have "\<dots> \<le> length s" using assms(1) k(1) unfolding shrinks_def by fastforce
    finally show ?thesis .
  qed (use Suc.prems in auto)
qed simp

text \<open>A closing bracket behind the children.\<close>

lemma object_result_length:
  assumes pv: "shrinks pv" and res: "adx_json_parse_object pv alloc m s = Some (Some (v, m', r))"
  shows "length r < length s"
proof -
  obtain s1 where s1: "expect CHR ''{'' s = Some s1"
    using res by (cases "expect CHR ''{'' s") (auto simp: adx_json_parse_object_def)
  let ?s = "adx_json_skip_space s1"
  have l1: "length ?s < length s" using expect_length [OF s1] skip_space_length [of s1] by simp
  show ?thesis
  proof (cases "expect CHR ''}'' ?s")
    case None
    obtain kids m2 s2 where kids: "parse_members pv alloc (Suc (length ?s)) m ?s = Some (Some (kids, m2, s2))"
      using res s1 None
      by (cases "parse_members pv alloc (Suc (length ?s)) m ?s")
        (auto simp: adx_json_parse_object_def Let_def simp del: parse_members.simps split: option.splits)
    have "expect CHR ''}'' s2 = Some r"
      using res s1 None kids
      by (cases "expect CHR ''}'' s2") (simp_all add: adx_json_parse_object_def Let_def del: parse_members.simps)
    with parse_members_length [OF pv kids] expect_length l1 show ?thesis by fastforce
  next
    case (Some r')
    with res s1 have "r' = r" by (auto simp: adx_json_parse_object_def Let_def)
    with expect_length [OF Some] l1 show ?thesis by simp
  qed
qed

lemma array_result_length:
  assumes pv: "shrinks pv" and res: "adx_json_parse_array pv alloc m s = Some (Some (v, m', r))"
  shows "length r < length s"
proof -
  obtain s1 where s1: "expect CHR ''['' s = Some s1"
    using res by (cases "expect CHR ''['' s") (auto simp: adx_json_parse_array_def)
  let ?s = "adx_json_skip_space s1"
  have l1: "length ?s < length s" using expect_length [OF s1] skip_space_length [of s1] by simp
  show ?thesis
  proof (cases "expect CHR '']'' ?s")
    case None
    obtain kids m2 s2 where kids: "parse_elements pv alloc (Suc (length ?s)) m ?s = Some (Some (kids, m2, s2))"
      using res s1 None
      by (cases "parse_elements pv alloc (Suc (length ?s)) m ?s")
        (auto simp: adx_json_parse_array_def Let_def simp del: parse_elements.simps split: option.splits)
    have "expect CHR '']'' s2 = Some r"
      using res s1 None kids
      by (cases "expect CHR '']'' s2") (simp_all add: adx_json_parse_array_def Let_def del: parse_elements.simps)
    with parse_elements_length [OF pv kids] expect_length l1 show ?thesis by fastforce
  next
    case (Some r')
    with res s1 have "r' = r" by (auto simp: adx_json_parse_array_def Let_def)
    with expect_length [OF Some] l1 show ?thesis by simp
  qed
qed

lemma value_string_length:
  "adx_json_parse_value_string alloc m s = Some (v, m', r) \<Longrightarrow> length r < length s"
  by (auto simp: adx_json_parse_value_string_def split: option.splits dest!: parse_string_length)

lemma value_number_length:
  assumes "adx_json_parse_value_number alloc m s = Some (v, m', r)" "s = c # cs" "c = CHR ''-'' \<or> isdigit c"
  shows "length r < length s"
proof -
  have "number_char c" using assms(3) by (auto simp: number_char_def)
  moreover have "r = dropWhile number_char s"
    using assms(1) by (auto simp: adx_json_parse_value_number_def Let_def split: if_splits)
  ultimately show ?thesis using assms(2) length_dropWhile_le [of number_char cs] by simp
qed

lemma literal_length:
  "parse_literal alloc m s = Some (v, m', r) \<Longrightarrow> s \<noteq> [] \<Longrightarrow> length r < length s"
  by (auto simp: parse_literal_def adx_json_parse_other_def split: if_splits)

lemma parse_value_shrinks: "shrinks (adx_json_parse_value alloc n)"
proof (induction n)
  case 0
  then show ?case by (simp add: shrinks_def)
next
  case (Suc n)
  have "length r < length s" if res: "adx_json_parse_value alloc (Suc n) m s = Some (Some (v, m', r))" for m s v m' r
  proof -
    let ?s = "adx_json_skip_space s"
    obtain c cs where cs: "?s = c # cs" using res by (cases ?s) auto
    have "length r < length ?s"
      using res cs object_result_length [OF Suc, of alloc m ?s v m' r] array_result_length [OF Suc, of alloc m ?s v m' r]
        value_string_length [of alloc m ?s v m' r] value_number_length [of alloc m ?s v m' r c cs]
        literal_length [of alloc m ?s v m' r]
      by (simp add: Let_def split: if_splits)
    with skip_space_length [of s] show ?thesis by simp
  qed
  then show ?case unfolding shrinks_def by blast
qed

section \<open>The fuel is enough\<close>

lemma json_next_total:
  assumes "\<And>v m s s'. res = Some (v, m, s) \<Longrightarrow> length s' < length s \<Longrightarrow> again m s' \<noteq> None"
  shows "json_next again node res \<noteq> None"
proof (cases res)
  case (Some x)
  obtain v m s where x: "x = (v, m, s)" by (cases x)
  show ?thesis
  proof (cases "expect CHR '','' (adx_json_skip_space s)")
    case None
    then show ?thesis using Some x by (simp add: json_next_def Let_def)
  next
    case (Some s')
    then have "length s' < length s" using expect_length [OF Some] skip_space_length [of s] by simp
    then have "again m s' \<noteq> None" using assms \<open>res = Some x\<close> x by blast
    then show ?thesis using Some \<open>res = Some x\<close> x by (auto simp: json_next_def Let_def)
  qed
qed (simp add: json_next_def)

lemma parse_members_total:
  assumes pv: "shrinks pv" "total_below k pv"
  shows "length s < n \<Longrightarrow> length s \<le> k \<Longrightarrow> parse_members pv alloc n m s \<noteq> None"
proof (induction n arbitrary: m s)
  case (Suc n)
  show ?case
  proof (cases "s = [] \<or> adx_json_parse_key alloc m (adx_json_skip_space s) = None")
    case False
    then obtain m1 node s1 where key: "adx_json_parse_key alloc m (adx_json_skip_space s) = Some (m1, node, s1)"
      by (metis option.exhaust prod_cases3)
    show ?thesis
    proof (cases "expect CHR '':'' (adx_json_skip_space s1)")
      case (Some s2)
      have l: "length s2 < length s"
        using parse_key_length [OF key] expect_length [OF Some] skip_space_length [of s] skip_space_length [of s1]
        by simp
      then obtain res where res: "pv m1 s2 = Some res" using pv(2) Suc.prems(2) unfolding total_below_def by fastforce
      have "json_next (parse_members pv alloc n) node res \<noteq> None"
        using pv(1) res l Suc.prems unfolding shrinks_def by (intro json_next_total Suc.IH) fastforce+
      then show ?thesis using False key Some res by (simp del: not_None_eq)
    qed (use False key in simp)
  qed auto
qed simp

lemma parse_elements_total:
  assumes pv: "shrinks pv" "total_below k pv"
  shows "length s < n \<Longrightarrow> length s < k \<Longrightarrow> parse_elements pv alloc n m s \<noteq> None"
proof (induction n arbitrary: m s)
  case (Suc n)
  show ?case
  proof (cases "s = [] \<or> adx_json_create alloc m None = None")
    case False
    then obtain m1 node where node: "adx_json_create alloc m None = Some (m1, node)"
      by (metis option.exhaust prod.exhaust)
    obtain res where res: "pv m1 s = Some res" using pv(2) Suc.prems(2) unfolding total_below_def by fastforce
    have "json_next (parse_elements pv alloc n) node res \<noteq> None"
      using pv(1) res Suc.prems unfolding shrinks_def by (intro json_next_total Suc.IH) fastforce+
    then show ?thesis using False node res by (simp del: not_None_eq)
  qed auto
qed simp

lemma object_total:
  assumes pv: "shrinks pv" "total_below k pv" and "length s \<le> k"
  shows "adx_json_parse_object pv alloc m s \<noteq> None"
proof (cases "expect CHR ''{'' s")
  case (Some s1)
  let ?s = "adx_json_skip_space s1"
  obtain res where "parse_members pv alloc (Suc (length ?s)) m ?s = Some res"
    using parse_members_total [OF pv, of ?s "Suc (length ?s)" alloc m] expect_length [OF Some] skip_space_length [of s1] assms(3)
    by (auto simp del: parse_members.simps)
  then show ?thesis
    using Some
    by (cases "expect CHR ''}'' ?s"; cases res)
      (simp_all add: adx_json_parse_object_def Let_def del: parse_members.simps split: prod.split option.split)
qed (simp add: adx_json_parse_object_def)

lemma array_total:
  assumes pv: "shrinks pv" "total_below k pv" and "length s \<le> k"
  shows "adx_json_parse_array pv alloc m s \<noteq> None"
proof (cases "expect CHR ''['' s")
  case (Some s1)
  let ?s = "adx_json_skip_space s1"
  obtain res where "parse_elements pv alloc (Suc (length ?s)) m ?s = Some res"
    using parse_elements_total [OF pv, of ?s "Suc (length ?s)" alloc m] expect_length [OF Some] skip_space_length [of s1] assms(3)
    by (auto simp del: parse_elements.simps)
  then show ?thesis
    using Some
    by (cases "expect CHR '']'' ?s"; cases res)
      (simp_all add: adx_json_parse_array_def Let_def del: parse_elements.simps split: prod.split option.split)
qed (simp add: adx_json_parse_array_def)

lemma parse_value_total: "total_below n (adx_json_parse_value alloc n)"
proof (induction n)
  case (Suc n)
  have "adx_json_parse_value alloc (Suc n) m s \<noteq> None" if "length s < Suc n" for m s
  proof -
    have l: "length (adx_json_skip_space s) \<le> n" using that skip_space_length [of s] by simp
    note o = object_total [OF parse_value_shrinks Suc l, of alloc m] array_total [OF parse_value_shrinks Suc l, of alloc m]
    show ?thesis
    proof (cases "adx_json_skip_space s")
      case (Cons c cs)
      consider "c = CHR ''{''" | "c = CHR ''[''" | "c \<noteq> CHR ''{''" "c \<noteq> CHR ''[''" by blast
      then show ?thesis using o Cons by cases (simp_all add: Let_def)
    qed simp
  qed
  then show ?case unfolding total_below_def by blast
qed (simp add: total_below_def)

text \<open>
  C35. The parser terminates on every input: whatever the text and whatever the allocator answers,
  the recursion depth and the number of loop rounds stay within the length of the text, so the
  model of \<open>adx_json_parse\<close> never runs out of fuel; it returns a tree or a null pointer.
\<close>

theorem adx_json_parse_terminates: "\<exists>res. adx_json_parse alloc m src = Some res"
proof (cases "adx_json_create alloc m None")
  case (Some x)
  obtain m1 root where x: "x = (m1, root)" by (cases x)
  let ?s = "adx_json_skip_space src"
  obtain res where "adx_json_parse_object (adx_json_parse_value alloc (length src)) alloc m1 ?s = Some res"
    using object_total [OF parse_value_shrinks parse_value_total skip_space_length, of alloc src alloc m1] by blast
  then show ?thesis using Some x by (auto simp: adx_json_parse_def split: option.splits)
qed (simp add: adx_json_parse_def)

section \<open>Reading the printed text back\<close>

text \<open>
  The trees the round trip is about: containers are not empty (an empty one is read back as
  \<open>ADX_JSON_EMPTY\<close>, which is not printed), object members have a key, array elements have none,
  and leaves have the text their type needs.
\<close>

definition number_text :: "string \<Rightarrow> bool" where
  "number_text v \<longleftrightarrow> v \<noteq> [] \<and> (hd v = CHR ''-'' \<or> isdigit (hd v)) \<and> list_all number_char v"

fun leaf_ok :: "adx_json_type \<Rightarrow> string \<Rightarrow> bool" where
  "leaf_ok JSON_STRING v = (v \<noteq> [])"
| "leaf_ok JSON_NUMBER v = number_text v"
| "leaf_ok JSON_BOOL v = (v = ''true'' \<or> v = ''false'')"
| "leaf_ok JSON_NULL v = (v = ''null'')"
| "leaf_ok _ v = False"

fun wf_value :: "adx_json_t \<Rightarrow> bool" where
  "wf_value (Json ty k v n kids) =
     (case ty of
        JSON_OBJECT \<Rightarrow> v = None \<and> n = 0 \<and> kids \<noteq> [] \<and> list_all (\<lambda>t. \<exists>c cs. jkey t = Some (c # cs)) kids \<and>
          list_all wf_value kids
      | JSON_ARRAY \<Rightarrow> v = None \<and> n = length kids \<and> kids \<noteq> [] \<and> list_all (\<lambda>t. jkey t = None) kids \<and>
          list_all wf_value kids
      | _ \<Rightarrow> (\<exists>x. v = Some x \<and> leaf_ok ty x) \<and> n = 0 \<and> kids = [])"

lemma unescape_escape_char: "unescape (escape_char c @ s) = c # unescape s"
proof -
  have ne: "c \<noteq> BSL \<Longrightarrow> unescape (c # s) = c # unescape s" by (cases s) auto
  show ?thesis using ne by (auto simp: escape_char_def unescape_char_def)
qed

lemma unescape_escape [simp]: "unescape (escape s) = s"
  by (induction s) (simp_all add: unescape_escape_char)

lemma string_body_plain:
  "c \<noteq> BSL \<Longrightarrow> c \<noteq> QUOTE \<Longrightarrow> string_body (c # s) = map_option (\<lambda>(b, r). (c # b, r)) (string_body s)"
  by (cases s) auto

lemma string_body_escape: "string_body (escape k @ QUOTE # r) = Some (escape k, r)"
proof (induction k)
  case Nil
  then show ?case by (cases r) auto
next
  case (Cons c k)
  then show ?case by (simp add: escape_char_def string_body_plain)
qed

lemma escape_hd: "k \<noteq> [] \<Longrightarrow> \<exists>c s. escape k = c # s \<and> c \<noteq> QUOTE"
  by (cases k) (auto simp: escape_char_def)

lemma parse_string_escape:
  assumes "k \<noteq> []"
  shows "adx_json_parse_string (QUOTE # escape k @ QUOTE # r) = Some (Some (escape k), r)"
proof -
  obtain c s where c: "escape k = c # s" "c \<noteq> QUOTE" using escape_hd [OF assms] by blast
  then show ?thesis using string_body_escape [of k r] by (simp add: adx_json_parse_string_def)
qed

lemma unescape_plain: "BSL \<notin> set s \<Longrightarrow> unescape s = s"
  by (induction s rule: unescape.induct) auto

lemma skip_space_Cons: "schar c > 32 \<Longrightarrow> adx_json_skip_space (c # s) = c # s"
  by (simp add: adx_json_skip_space_def)

lemma skip_space_punct [simp]:
  "adx_json_skip_space (QUOTE # s) = QUOTE # s" "adx_json_skip_space (CHR '':'' # s) = CHR '':'' # s"
  "adx_json_skip_space (CHR ''{'' # s) = CHR ''{'' # s" "adx_json_skip_space (CHR ''['' # s) = CHR ''['' # s"
  "adx_json_skip_space (CHR '','' # s) = CHR '','' # s" "adx_json_skip_space (CHR ''}'' # s) = CHR ''}'' # s"
  "adx_json_skip_space (CHR '']'' # s) = CHR '']'' # s"
  by (simp_all add: skip_space_Cons schar_def)

lemma expect_simps [simp]: "expect c (d # s) = (if d = c then Some s else None)" "expect c [] = None"
  by (simp_all add: expect_def)

lemma number_start:
  assumes "c = CHR ''-'' \<or> isdigit c"
  shows "schar c > 32" "c \<noteq> CHR ''{''" "c \<noteq> CHR ''[''" "c \<noteq> QUOTE" "c \<noteq> CHR '']''"
  using assms by (auto simp: schar_def isdigit_def Let_def)

lemma number_text_unescape: "number_text v \<Longrightarrow> unescape v = v"
  by (intro unescape_plain) (auto simp: number_text_def list_all_iff number_char_def isdigit_def)

definition delim :: "string \<Rightarrow> bool" where
  "delim r \<longleftrightarrow> (\<exists>c s. r = c # s \<and> c \<in> {CHR '','', CHR ''}'', CHR '']''})"

lemma delim_number: "delim r \<Longrightarrow> list_all number_char v \<Longrightarrow>
  takeWhile number_char (v @ r) = v \<and> dropWhile number_char (v @ r) = r \<and> r \<noteq> []"
  by (auto simp: delim_def number_char_def isdigit_def list_all_iff)

lemma strdup_total: "alloc_total alloc \<Longrightarrow> \<exists>m'. adx_json_strdup alloc m s = Some (m', unescape s)"
  by (auto simp: alloc_total_def adx_json_strdup_def)

definition reads_back :: "'m alloc_fun \<Rightarrow> adx_json_t \<Rightarrow> bool" where
  "reads_back alloc t \<longleftrightarrow> (\<forall>n m r. length (value_text t) \<le> n \<longrightarrow> delim r \<longrightarrow>
     (\<exists>m'. adx_json_parse_value alloc n m (value_text t @ r) =
        Some (Some ((jtype t, jval t, array_len t, child t), m', r))))"

lemma reads_backD:
  assumes "reads_back alloc t" "length (value_text t) \<le> n" "delim r"
  obtains m' where "adx_json_parse_value alloc n m (value_text t @ r) =
    Some (Some ((jtype t, jval t, array_len t, child t), m', r))"
  using assms unfolding reads_back_def by blast

lemma leaf_reads_back:
  assumes al: "alloc_total alloc" and ok: "leaf_ok ty v"
  shows "reads_back alloc (Json ty k (Some v) 0 [])"
  unfolding reads_back_def
proof (intro allI impI)
  fix n m r
  let ?t = "Json ty k (Some v) 0 []"
  assume n: "length (value_text ?t) \<le> n" and r: "delim r"
  from n ok obtain n' where n': "n = Suc n'"
    by (cases n; cases ty) (auto simp: number_text_def)
  obtain m1 where m1: "adx_json_strdup alloc m (escape v) = Some (m1, v)" using strdup_total [OF al, of m "escape v"] by auto
  obtain m2 where m2: "adx_json_strdup alloc m v = Some (m2, unescape v)" using strdup_total [OF al] by blast
  show "\<exists>m'. adx_json_parse_value alloc n m (value_text ?t @ r) =
      Some (Some ((jtype ?t, jval ?t, array_len ?t, child ?t), m', r))"
  proof (cases ty)
    case JSON_STRING
    with ok m1 parse_string_escape [of v r] n' show ?thesis by (simp add: Let_def adx_json_parse_value_string_def)
  next
    case JSON_NUMBER
    then obtain c cs where v: "v = c # cs" "c = CHR ''-'' \<or> isdigit c" "number_text v" "list_all number_char v"
      using ok by (cases v) (auto simp: number_text_def)
    have "adx_json_parse_value_number alloc m (v @ r) = Some ((JSON_NUMBER, Some v, 0, []), m2, r)"
      using m2 delim_number [OF r v(4)] number_text_unescape [OF v(3)]
      by (simp add: adx_json_parse_value_number_def Let_def)
    moreover have "adx_json_skip_space (v @ r) = v @ r"
      using v(1) skip_space_Cons [OF number_start(1) [OF v(2)]] by simp
    ultimately show ?thesis using JSON_NUMBER v(1,2) number_start [OF v(2)] n' by (auto simp: Let_def)
  next
    case JSON_BOOL
    with ok m2 n' show ?thesis
      by (auto simp: Let_def parse_literal_def strncmp_eq_def adx_json_parse_other_def skip_space_Cons schar_def
          isdigit_def)
  next
    case JSON_NULL
    with ok m2 n' show ?thesis
      by (auto simp: Let_def parse_literal_def strncmp_eq_def adx_json_parse_other_def skip_space_Cons schar_def
          isdigit_def)
  qed (use ok in auto)
qed

lemma wf_value_type: "wf_value t \<Longrightarrow> jtype t \<noteq> JSON_EMPTY \<and> jtype t \<noteq> JSON_UNSET"
  by (cases t; cases "jtype t") auto

lemma set_value_same:
  "jkey t = k \<Longrightarrow> set_value (Json ty' k v' n' kids') (jtype t, jval t, array_len t, child t) = t"
  by (cases t) simp

lemma kids_text_wf:
  "list_all wf_value (t # ts) \<Longrightarrow>
    kids_text False (t # ts) = key_text (jkey t) @ value_text t @ (if ts = [] then [] else CHR '','' # kids_text False ts)"
  by (cases ts) (auto dest!: wf_value_type)

lemma parse_key_text:
  assumes "alloc_total alloc" "k \<noteq> []"
  shows "\<exists>m'. adx_json_parse_key alloc m (QUOTE # escape k @ QUOTE # r) = Some (m', Json JSON_UNSET (Some k) None 0 [], r)"
proof -
  obtain m1 where m1: "alloc m SIZEOF_JSON = Some m1" using assms(1) by (auto simp: alloc_total_def)
  obtain m2 where "adx_json_strdup alloc m1 (escape k) = Some (m2, k)"
    using strdup_total [OF assms(1), of m1 "escape k"] by auto
  moreover have "escape k \<noteq> []" using escape_hd [OF assms(2)] by auto
  ultimately show ?thesis
    using m1 parse_string_escape [OF assms(2), of r]
    by (simp add: adx_json_parse_key_def adx_json_create_key_def adx_json_create_def)
qed

lemma parse_members_text:
  assumes al: "alloc_total alloc"
  shows "kids \<noteq> [] \<Longrightarrow> list_all wf_value kids \<Longrightarrow> list_all (reads_back alloc) kids \<Longrightarrow>
    list_all (\<lambda>t. \<exists>c cs. jkey t = Some (c # cs)) kids \<Longrightarrow> list_all (\<lambda>t. length (value_text t) \<le> n) kids \<Longrightarrow>
    length kids \<le> f \<Longrightarrow>
    \<exists>m'. parse_members (adx_json_parse_value alloc n) alloc f m (kids_text False kids @ CHR ''}'' # r) =
      Some (Some (kids, m', CHR ''}'' # r))"
proof (induction kids arbitrary: f m)
  case (Cons t ts)
  let ?rest = "(if ts = [] then [] else CHR '','' # kids_text False ts) @ CHR ''}'' # r"
  obtain f' where f: "f = Suc f'" "length ts \<le> f'" using Cons.prems(6) by (cases f) auto
  obtain k where k: "jkey t = Some k" "k \<noteq> []" using Cons.prems(4) by auto
  obtain m1 where m1: "adx_json_parse_key alloc m (QUOTE # escape k @ QUOTE # CHR '':'' # value_text t @ ?rest) =
      Some (m1, Json JSON_UNSET (Some k) None 0 [], CHR '':'' # value_text t @ ?rest)"
    using parse_key_text [OF al k(2)] by blast
  have d: "delim ?rest" by (auto simp: delim_def)
  have t: "reads_back alloc t" "length (value_text t) \<le> n" using Cons.prems(3,5) by auto
  obtain m2 where m2: "adx_json_parse_value alloc n m1 (value_text t @ ?rest) =
      Some (Some ((jtype t, jval t, array_len t, child t), m2, ?rest))"
    by (rule reads_backD [OF t d])
  have shape: "kids_text False (t # ts) @ CHR ''}'' # r = QUOTE # escape k @ QUOTE # CHR '':'' # value_text t @ ?rest"
    using k(1) by (simp add: kids_text_wf [OF Cons.prems(2)] key_text_def del: kids_text.simps)
  have step: "parse_members (adx_json_parse_value alloc n) alloc f m (kids_text False (t # ts) @ CHR ''}'' # r) =
      json_next (parse_members (adx_json_parse_value alloc n) alloc f') (Json JSON_UNSET (Some k) None 0 [])
        (Some ((jtype t, jval t, array_len t, child t), m2, ?rest))"
    unfolding shape using m1 m2 f(1) by simp
  show ?case
  proof (cases "ts = []")
    case True
    then show ?thesis unfolding step using set_value_same [OF k(1)] by (simp add: json_next_def Let_def del: set_value.simps)
  next
    case False
    then obtain m3 where "parse_members (adx_json_parse_value alloc n) alloc f' m2 (kids_text False ts @ CHR ''}'' # r) =
        Some (Some (ts, m3, CHR ''}'' # r))" using Cons.IH [of f' m2] Cons.prems f(2) by auto
    then show ?thesis
      unfolding step using False set_value_same [OF k(1)] by (simp add: json_next_def Let_def del: set_value.simps)
  qed
qed simp

lemma parse_elements_text:
  assumes al: "alloc_total alloc"
  shows "kids \<noteq> [] \<Longrightarrow> list_all wf_value kids \<Longrightarrow> list_all (reads_back alloc) kids \<Longrightarrow>
    list_all (\<lambda>t. jkey t = None) kids \<Longrightarrow> list_all (\<lambda>t. length (value_text t) \<le> n) kids \<Longrightarrow>
    length kids \<le> f \<Longrightarrow>
    \<exists>m'. parse_elements (adx_json_parse_value alloc n) alloc f m (kids_text False kids @ CHR '']'' # r) =
      Some (Some (kids, m', CHR '']'' # r))"
proof (induction kids arbitrary: f m)
  case (Cons t ts)
  let ?rest = "(if ts = [] then [] else CHR '','' # kids_text False ts) @ CHR '']'' # r"
  obtain f' where f: "f = Suc f'" "length ts \<le> f'" using Cons.prems(6) by (cases f) auto
  have k: "jkey t = None" using Cons.prems(4) by auto
  obtain m1 where m1: "adx_json_create alloc m None = Some (m1, Json JSON_UNSET None None 0 [])"
    using al by (auto simp: alloc_total_def adx_json_create_def)
  have d: "delim ?rest" by (auto simp: delim_def)
  have t: "reads_back alloc t" "length (value_text t) \<le> n" using Cons.prems(3,5) by auto
  obtain m2 where m2: "adx_json_parse_value alloc n m1 (value_text t @ ?rest) =
      Some (Some ((jtype t, jval t, array_len t, child t), m2, ?rest))"
    by (rule reads_backD [OF t d])
  have shape: "kids_text False (t # ts) @ CHR '']'' # r = value_text t @ ?rest"
    using k by (simp add: kids_text_wf [OF Cons.prems(2)] key_text_def del: kids_text.simps)
  have step: "parse_elements (adx_json_parse_value alloc n) alloc f m (kids_text False (t # ts) @ CHR '']'' # r) =
      json_next (parse_elements (adx_json_parse_value alloc n) alloc f') (Json JSON_UNSET None None 0 [])
        (Some ((jtype t, jval t, array_len t, child t), m2, ?rest))"
    unfolding shape using m1 m2 f(1) by simp
  show ?case
  proof (cases "ts = []")
    case True
    then show ?thesis unfolding step using set_value_same [OF k] by (simp add: json_next_def Let_def del: set_value.simps)
  next
    case False
    then obtain m3 where "parse_elements (adx_json_parse_value alloc n) alloc f' m2 (kids_text False ts @ CHR '']'' # r) =
        Some (Some (ts, m3, CHR '']'' # r))" using Cons.IH [of f' m2] Cons.prems f(2) by auto
    then show ?thesis
      unfolding step using False set_value_same [OF k] by (simp add: json_next_def Let_def del: set_value.simps)
  qed
qed simp

lemma value_text_kids: "list_all wf_value kids \<Longrightarrow> t \<in> set kids \<Longrightarrow> length (value_text t) \<le> length (kids_text c kids)"
proof (induction kids arbitrary: c)
  case (Cons u us)
  have "t \<in> set us \<Longrightarrow> length (value_text t) \<le> length (kids_text True us)" using Cons.IH [of True] Cons.prems by simp
  then show ?case using Cons.prems wf_value_type [of u] by auto
qed simp

lemma value_text_not_Nil: "wf_value t \<Longrightarrow> value_text t \<noteq> []"
  by (cases t; cases "jtype t") (auto simp: number_text_def)

lemma length_kids_text: "list_all wf_value kids \<Longrightarrow> length kids \<le> length (kids_text c kids)"
proof (induction kids arbitrary: c)
  case (Cons t ts)
  then have "length ts \<le> length (kids_text True ts)" "length (value_text t) > 0" using value_text_not_Nil [of t] by auto
  then have "length (t # ts) \<le> length (value_text t) + length (kids_text True ts)" unfolding list.size by linarith
  then show ?case using Cons.prems wf_value_type [of t] by auto
qed simp

lemma kids_text_start:
  assumes "list_all wf_value kids" "kids \<noteq> []"
  shows "\<exists>c s. kids_text False kids = c # s \<and> schar c > 32 \<and> c \<noteq> CHR ''}'' \<and> c \<noteq> CHR '']''"
proof -
  obtain t ts where kids: "kids = t # ts" using assms(2) by (cases kids) auto
  have "\<exists>c s. value_text t = c # s \<and> schar c > 32 \<and> c \<noteq> CHR ''}'' \<and> c \<noteq> CHR '']''"
    using assms(1) kids
    by (cases t; cases "jtype t") (auto simp: number_text_def schar_def isdigit_def neq_Nil_conv Let_def)
  then show ?thesis
    using kids kids_text_wf [of t ts] assms(1)
    by (cases "jkey t") (auto simp: key_text_def schar_def simp del: kids_text.simps)
qed

text \<open>The object parser on the text of an object, whatever the fuel of the value parser beyond the text.\<close>

lemma parse_object_text:
  assumes al: "alloc_total alloc" and kids: "kids \<noteq> []" "list_all wf_value kids" "list_all (reads_back alloc) kids"
    "list_all (\<lambda>t. \<exists>c cs. jkey t = Some (c # cs)) kids" and n: "length (kids_text False kids) \<le> n"
  shows "\<exists>m'. adx_json_parse_object (adx_json_parse_value alloc n) alloc m (''{'' @ kids_text False kids @ ''}'' @ r) =
    Some (Some ((JSON_OBJECT, None, 0, kids), m', r))"
proof -
  let ?s = "kids_text False kids @ CHR ''}'' # r"
  have len: "list_all (\<lambda>t. length (value_text t) \<le> n) kids"
    using value_text_kids [OF kids(2), of _ False] n by (fastforce simp: list_all_iff)
  have "length kids \<le> Suc (length ?s)" using length_kids_text [OF kids(2), of False] by simp
  then obtain m' where "parse_members (adx_json_parse_value alloc n) alloc (Suc (length ?s)) m ?s =
      Some (Some (kids, m', CHR ''}'' # r))" using parse_members_text [OF al kids len] by blast
  moreover obtain c cs where "kids_text False kids = c # cs" "schar c > 32" "c \<noteq> CHR ''}''"
    using kids_text_start [OF kids(2,1)] by blast
  ultimately show ?thesis by (simp add: adx_json_parse_object_def skip_space_Cons Let_def del: parse_members.simps)
qed

lemma parse_array_text:
  assumes al: "alloc_total alloc" and kids: "kids \<noteq> []" "list_all wf_value kids" "list_all (reads_back alloc) kids"
    "list_all (\<lambda>t. jkey t = None) kids" and n: "length (kids_text False kids) \<le> n"
  shows "\<exists>m'. adx_json_parse_array (adx_json_parse_value alloc n) alloc m (''['' @ kids_text False kids @ '']'' @ r) =
    Some (Some ((JSON_ARRAY, None, length kids, kids), m', r))"
proof -
  let ?s = "kids_text False kids @ CHR '']'' # r"
  have len: "list_all (\<lambda>t. length (value_text t) \<le> n) kids"
    using value_text_kids [OF kids(2), of _ False] n by (fastforce simp: list_all_iff)
  have "length kids \<le> Suc (length ?s)" using length_kids_text [OF kids(2), of False] by simp
  then obtain m' where "parse_elements (adx_json_parse_value alloc n) alloc (Suc (length ?s)) m ?s =
      Some (Some (kids, m', CHR '']'' # r))" using parse_elements_text [OF al kids len] by blast
  moreover obtain c cs where "kids_text False kids = c # cs" "schar c > 32" "c \<noteq> CHR '']''"
    using kids_text_start [OF kids(2,1)] by blast
  ultimately show ?thesis by (simp add: adx_json_parse_array_def skip_space_Cons Let_def del: parse_elements.simps)
qed

lemma wf_reads_back: "alloc_total alloc \<Longrightarrow> wf_value t \<Longrightarrow> reads_back alloc t"
proof (induction t)
  case (Json ty k v n kids)
  have kids: "list_all (reads_back alloc) kids" if "list_all wf_value kids"
    using Json.IH Json.prems(1) that by (simp add: list_all_iff)
  show ?case
  proof (cases ty)
    case JSON_OBJECT
    then have wf: "kids \<noteq> []" "list_all wf_value kids" "list_all (\<lambda>t. \<exists>c cs. jkey t = Some (c # cs)) kids"
      "v = None" "n = 0" using Json.prems by auto
    note o = parse_object_text [OF Json.prems(1) wf(1,2) kids [OF wf(2)] wf(3)]
    show ?thesis unfolding reads_back_def
    proof (intro allI impI)
      fix f m r assume "length (value_text (Json ty k v n kids)) \<le> f"
      then obtain f' where "f = Suc f'" "length (kids_text False kids) \<le> f'" using JSON_OBJECT by (cases f) auto
      with o [of f' m r] JSON_OBJECT wf(4,5) show "\<exists>m'. adx_json_parse_value alloc f m (value_text (Json ty k v n kids) @ r) =
        Some (Some ((jtype (Json ty k v n kids), jval (Json ty k v n kids), array_len (Json ty k v n kids),
          child (Json ty k v n kids)), m', r))" by (simp add: Let_def)
    qed
  next
    case JSON_ARRAY
    then have wf: "kids \<noteq> []" "list_all wf_value kids" "list_all (\<lambda>t. jkey t = None) kids"
      "v = None" "n = length kids" using Json.prems by auto
    note o = parse_array_text [OF Json.prems(1) wf(1,2) kids [OF wf(2)] wf(3)]
    show ?thesis unfolding reads_back_def
    proof (intro allI impI)
      fix f m r assume "length (value_text (Json ty k v n kids)) \<le> f"
      then obtain f' where "f = Suc f'" "length (kids_text False kids) \<le> f'" using JSON_ARRAY by (cases f) auto
      with o [of f' m r] JSON_ARRAY wf(4,5) show "\<exists>m'. adx_json_parse_value alloc f m (value_text (Json ty k v n kids) @ r) =
        Some (Some ((jtype (Json ty k v n kids), jval (Json ty k v n kids), array_len (Json ty k v n kids),
          child (Json ty k v n kids)), m', r))" by (simp add: Let_def)
    qed
  qed (use Json.prems leaf_reads_back [OF Json.prems(1)] in auto)
qed

text \<open>
  C27. Round trip.  For a tree as \<open>adx_json_parse\<close> and \<open>adx_json_add\<close> build them (the root keeps type
  0; containers are not empty, members have keys, elements have none, leaves have the text of their
  type) whose literals and total text respect the buffer bounds, and an allocator that does not fail: the text
  \<open>adx_json_to_buffer\<close> writes, followed by anything, is parsed by \<open>adx_json_parse\<close> into exactly the
  same tree: every key and string comes back from its escaped form, every array length is
  recounted.
\<close>

theorem adx_json_round_trip:
  assumes "alloc_total alloc" "wf_value (Json JSON_OBJECT None None 0 kids)" "list_all printable kids"
    "int (length (object_text (Json JSON_UNSET None None 0 kids))) < text_limit"
  shows "\<exists>b m'. adx_json_to_buffer alloc m (Json JSON_UNSET None None 0 kids) = Some b \<and> \<not> overrun b \<and>
     adx_json_parse alloc (bpool b) (buf b @ rest) = Some (Some (m', Json JSON_UNSET None None 0 kids))"
proof -
  let ?t = "Json JSON_UNSET None None 0 kids"
  let ?s = "''{'' @ kids_text False kids @ ''}'' @ rest"
  obtain b where b: "adx_json_to_buffer alloc m ?t = Some b" "buf b = object_text ?t" "\<not> overrun b"
    using adx_json_to_buffer_text_lemma [OF assms(1), of ?t m] assms(3,4) by auto
  obtain m1 where m1: "adx_json_create alloc (bpool b) None = Some (m1, Json JSON_UNSET None None 0 [])"
    using assms(1) by (auto simp: alloc_total_def adx_json_create_def)
  have wf: "kids \<noteq> []" "list_all wf_value kids" "list_all (\<lambda>t. \<exists>c cs. jkey t = Some (c # cs)) kids"
    using assms(2) by auto
  have "list_all (reads_back alloc) kids" using wf_reads_back [OF assms(1)] wf(2) by (simp add: list_all_iff)
  then obtain m2 where "adx_json_parse_object (adx_json_parse_value alloc (length ?s)) alloc m1 ?s =
      Some (Some ((JSON_OBJECT, None, 0, kids), m2, rest))"
    using parse_object_text [OF assms(1) wf(1,2) _ wf(3), of "length ?s" m1 rest] by auto
  moreover have "buf b @ rest = ?s" using b(2) by (simp add: object_text_def key_text_def)
  ultimately have "adx_json_parse alloc (bpool b) (buf b @ rest) = Some (Some (m2, ?t))"
    using m1 by (simp add: adx_json_parse_def)
  then show ?thesis using b by blast
qed

theorem adx_json_round_trip_witness:
  "\<exists>b m'. adx_json_to_buffer (\<lambda>m n. Some (m + n)) 0 bid_json = Some b \<and> \<not> overrun b \<and>
     adx_json_parse (\<lambda>m n. Some (m + n)) (bpool b) (buf b @ '' '') = Some (Some (m', bid_json))"
  unfolding bid_json_def
  by (rule adx_json_round_trip)
    (simp_all add: alloc_total_def object_text_def key_text_def escape_char_def text_limit_def number_text_def
      number_char_def isdigit_def)

end
