(* ===== verification/Adx_Kv.thy ===== *)
theory Adx_Kv
  imports Adx_Cstd
begin

text \<open>
  The key-value list \<^verbatim>\<open>adx_kv.c\<close>.  The ring of \<open>adx_kv_t\<close> nodes is the list of their keys and values
  in ring order (\<open>adx_list_add\<close> appends).  The query string of a URI is split with \<^verbatim>\<open>strtok_r\<close>; the
  pair of a token is found with \<^verbatim>\<open>strchr\<close>.
\<close>

section \<open>Model\<close>

type_synonym kv_list = "(string \<times> string) list"

abbreviation SIZEOF_KV :: nat where "SIZEOF_KV \<equiv> 32"

text \<open>
  A null pointer as key or value is \<open>None\<close>.  Both copies are allocated before either is tested; the
  node stays out of the list when one of them fails.
\<close>

definition adx_kv_add ::
    "'m alloc_fun \<Rightarrow> 'm \<Rightarrow> kv_list \<Rightarrow> string option \<Rightarrow> string option \<Rightarrow> 'm \<times> kv_list" where
  "adx_kv_add alloc m head key val =
     (case (key, val) of
        (Some k, Some v) \<Rightarrow>
          (case alloc m SIZEOF_KV of None \<Rightarrow> (m, head)
           | Some m \<Rightarrow>
             let (m, key_ok) = try_alloc alloc m (length k + 1);
                 (m, val_ok) = try_alloc alloc m (length v + 1) in
             if \<not> key_ok \<or> \<not> val_ok then (m, head) else (m, head @ [(k, v)]))
      | _ \<Rightarrow> (m, head))"

fun adx_kv_find :: "kv_list \<Rightarrow> string \<Rightarrow> string option" where
  "adx_kv_find [] key = None"
| "adx_kv_find ((k, v) # head) key = (if strcmp key k = 0 then Some v else adx_kv_find head key)"

definition adx_kv_get_string :: "kv_list \<Rightarrow> string \<Rightarrow> string option" where
  "adx_kv_get_string head key = adx_kv_find head key"

definition adx_kv_get_number :: "kv_list \<Rightarrow> string \<Rightarrow> 32 word" where
  "adx_kv_get_number head key = (case adx_kv_find head key of None \<Rightarrow> 0 | Some s \<Rightarrow> atoi s)"

text \<open>
  \<open>adx_uri_value_parse\<close> cuts the token at the equals sign: the new contents of the token, and the
  value.
\<close>

definition adx_uri_value_parse :: "string \<Rightarrow> string \<times> string option" where
  "adx_uri_value_parse s =
     (case strchr s CHR ''='' of None \<Rightarrow> (s, None)
      | Some (k, v) \<Rightarrow> (k, if v = [] then None else Some v))"

function uri_loop :: "'m alloc_fun \<Rightarrow> 'm \<Rightarrow> kv_list \<Rightarrow> string \<Rightarrow> 'm \<times> kv_list" where
  "uri_loop alloc m head s =
     (case strtok_r s {CHR ''&''} of None \<Rightarrow> (m, head)
      | Some (t, r) \<Rightarrow>
        let (key, val) = adx_uri_value_parse t; (m, head) = adx_kv_add alloc m head (Some key) val in
        uri_loop alloc m head r)"
  by pat_completeness auto
termination by (relation "measure (\<lambda>(alloc, m, head, s). length s)") (auto dest: strtok_r_shorter(2))

declare uri_loop.simps [simp del]

definition adx_kv_from_uri :: "'m alloc_fun \<Rightarrow> 'm \<Rightarrow> string \<Rightarrow> int \<times> 'm \<times> kv_list" where
  "adx_kv_from_uri alloc m buf = (0, uri_loop alloc m [] buf)"

text \<open>
  The CSV reader prints three fields per round and stores nothing; the model returns the fields it
  prints.  \<open>None\<close> is a field \<^verbatim>\<open>strtok_r\<close> did not find.
\<close>

definition csv_field :: "string \<Rightarrow> string option \<times> string" where
  "csv_field s = (case strtok_r s (set [CHR '','', CHR 0x0D, CHR 0x0A, CHR 0x09]) of
     None \<Rightarrow> (None, []) | Some (t, r) \<Rightarrow> (Some t, r))"

lemma csv_field_length: "length (snd (csv_field s)) \<le> length s"
  by (auto simp: csv_field_def split: option.splits dest: strtok_r_shorter(2))

function adx_kv_from_csv_line :: "string \<Rightarrow> (string \<times> string option \<times> string option) list" where
  "adx_kv_from_csv_line s =
     (case strtok_r s {CHR '',''} of None \<Rightarrow> []
      | Some (v1, r) \<Rightarrow>
        let (v2, r2) = csv_field r; (v3, r3) = csv_field r2 in
        (v1, v2, v3) # adx_kv_from_csv_line r3)"
  by pat_completeness auto
termination
proof (relation "measure length")
  fix s x v1 r y v2 r2 z v3 r3
  assume "strtok_r s {CHR '',''} = Some x" "(v1, r) = x" "y = csv_field r" "(v2, r2) = y" "z = csv_field r2" "(v3, r3) = z"
  then show "(r3, s) \<in> measure length"
    using csv_field_length [of r] csv_field_length [of r2] strtok_r_shorter(2) [of s "{CHR '',''}" v1 r]
    by (metis in_measure le_less_trans snd_conv)
qed simp

declare adx_kv_from_csv_line.simps [simp del]

text \<open>\<^verbatim>\<open>fgets\<close> with a buffer of \<open>n\<close> characters: at most \<open>n - 1\<close> characters, up to and with a newline.\<close>

fun fgets :: "nat \<Rightarrow> string \<Rightarrow> string \<times> string" where
  "fgets (Suc (Suc n)) (c # s) =
     (if c = CHR 0x0A then ([c], s) else map_prod ((#) c) id (fgets (Suc n) s))"
| "fgets _ s = ([], s)"

lemma fgets_append: "fst (fgets n s) @ snd (fgets n s) = s"
  by (induction n s rule: fgets.induct) auto

lemma fgets_progress:
  assumes "s \<noteq> []" "fgets (Suc (Suc n)) s = (l, r)"
  shows "length r < length s"
proof -
  have "l \<noteq> []" using assms by (cases s; cases "fgets (Suc n) (tl s)") (auto split: if_splits)
  then show ?thesis using fgets_append [of "Suc (Suc n)" s] assms(2) by (cases l) auto
qed

function csv_loop :: "string \<Rightarrow> (string \<times> string option \<times> string option) list" where
  "csv_loop text =
     (if text = [] then []
      else let (buf, rest) = fgets (Suc (Suc 4094)) text in
        (if hd buf \<noteq> CHR ''#'' then adx_kv_from_csv_line buf else []) @ csv_loop rest)"
  by pat_completeness auto
termination
proof (relation "measure length")
  fix s x buf rest
  assume "s \<noteq> []" "x = fgets (Suc (Suc 4094)) s" "(buf, rest) = x"
  then have "length rest < length s" by (metis fgets_progress)
  then show "(rest, s) \<in> measure length" by simp
qed simp

declare csv_loop.simps [simp del]

text \<open>The contents of the file, \<open>None\<close> if it cannot be opened; result, new list and printed fields.\<close>

definition adx_kv_from_csv ::
    "string option \<Rightarrow> int \<times> kv_list \<times> (string \<times> string option \<times> string option) list" where
  "adx_kv_from_csv file = (case file of None \<Rightarrow> (-1, [], []) | Some s \<Rightarrow> (0, [], csv_loop s))"

section \<open>Splitting a query string\<close>

definition uri_pair :: "string \<Rightarrow> (string \<times> string) option" where
  "uri_pair t = (case strchr t CHR ''='' of None \<Rightarrow> None
     | Some (k, v) \<Rightarrow> if v = [] then None else Some (k, v))"

definition query_pairs :: "string \<Rightarrow> kv_list" where
  "query_pairs s = List.map_filter uri_pair (split_on CHR ''&'' s)"

lemma kv_add_total:
  assumes "alloc_total alloc"
  shows "\<exists>m'. adx_kv_add alloc m head (Some k) v = (m', head @ (case v of None \<Rightarrow> [] | Some v \<Rightarrow> [(k, v)]))"
proof (cases v)
  case (Some x)
  obtain m1 where m1: "alloc m SIZEOF_KV = Some m1" using assms unfolding alloc_total_def by blast
  obtain m2 where m2: "try_alloc alloc m1 (length k + 1) = (m2, True)"
    using try_alloc_total [OF assms] by (metis prod.collapse)
  obtain m3 where m3: "try_alloc alloc m2 (length x + 1) = (m3, True)"
    using try_alloc_total [OF assms] by (metis prod.collapse)
  show ?thesis using Some m1 m2 m3 by (simp add: adx_kv_add_def)
qed (simp add: adx_kv_add_def)

lemma map_filter_skip: "f x = None \<Longrightarrow> List.map_filter f (filter (\<lambda>t. t \<noteq> x) ts) = List.map_filter f ts"
  by (induction ts) (auto simp: List.map_filter_simps split: option.split)

lemma uri_loop_pairs:
  assumes "alloc_total alloc"
  shows "snd (uri_loop alloc m head s) = head @ query_pairs s"
proof (induction s arbitrary: m head rule: measure_induct_rule [of length])
  case (less s)
  have q: "query_pairs u = List.map_filter uri_pair (filter (\<lambda>t. t \<noteq> []) (split_on CHR ''&'' u))" for u
    by (simp add: query_pairs_def map_filter_skip uri_pair_def)
  show ?case
  proof (cases "strtok_r s {CHR ''&''}")
    case None
    then have "query_pairs s = []" using strtok_r_split [where s = s and d = "CHR ''&''"] by (simp add: q List.map_filter_simps)
    then show ?thesis using None by (simp add: uri_loop.simps)
  next
    case (Some x)
    then obtain t r where x: "strtok_r s {CHR ''&''} = Some (t, r)" by (cases x) auto
    obtain k v where kv: "adx_uri_value_parse t = (k, v)" by (cases "adx_uri_value_parse t")
    obtain m1 where m1: "adx_kv_add alloc m head (Some k) v = (m1, head @ (case v of None \<Rightarrow> [] | Some v \<Rightarrow> [(k, v)]))"
      using kv_add_total [OF assms] by blast
    have "filter (\<lambda>t. t \<noteq> []) (split_on CHR ''&'' s) = t # filter (\<lambda>t. t \<noteq> []) (split_on CHR ''&'' r)"
      using strtok_r_split [where s = s and d = "CHR ''&''"] x by simp
    then have "query_pairs s = (case v of None \<Rightarrow> [] | Some v \<Rightarrow> [(k, v)]) @ query_pairs r"
      using kv
      by (auto simp: q List.map_filter_simps uri_pair_def adx_uri_value_parse_def split: option.splits if_splits)
    then show ?thesis
      using less.IH [OF strtok_r_shorter(2) [OF x]] x kv m1 by (simp add: uri_loop.simps [of alloc m head s])
  qed
qed

lemma kv_find_map_of: "adx_kv_find head key = map_of head key"
  by (induction head key rule: adx_kv_find.induct) auto

section \<open>Properties\<close>

text \<open>
  C34. \<open>adx_kv_from_uri\<close>, with an allocator that does not fail: the list holds, in order, the pairs of
  the parts of the query string between the ampersands: a part without an equals sign or with
  nothing behind it is left out, and the key ends at the first equals sign of its part.  A lookup
  with \<open>adx_kv_get_string\<close> finds the value of the first pair with that key.
\<close>

theorem adx_kv_from_uri_pairs:
  assumes "alloc_total alloc"
  shows "\<exists>m'. adx_kv_from_uri alloc m buf = (0, m', query_pairs buf) \<and>
     adx_kv_get_string (query_pairs buf) key = map_of (query_pairs buf) key"
  using uri_loop_pairs [OF assms, of m "[]" buf]
  by (cases "uri_loop alloc m [] buf") (auto simp: adx_kv_from_uri_def adx_kv_get_string_def kv_find_map_of)

theorem adx_kv_from_uri_pairs_witness:
  "\<exists>m'. adx_kv_from_uri (\<lambda>m n. Some (m + n)) 0 ''&a=1&b&c=&d==2&a=3'' =
      (0, m', [(''a'', ''1''), (''d'', ''=2''), (''a'', ''3'')]) \<and>
     adx_kv_get_string [(''a'', ''1''), (''d'', ''=2''), (''a'', ''3'')] ''a'' = Some ''1''"
proof -
  have q: "query_pairs ''&a=1&b&c=&d==2&a=3'' = [(''a'', ''1''), (''d'', ''=2''), (''a'', ''3'')]"
    by (simp add: query_pairs_def uri_pair_def List.map_filter_simps)
  show ?thesis
    using adx_kv_from_uri_pairs [of "\<lambda>m n. Some (m + n)" 0 "''&a=1&b&c=&d==2&a=3''" "''a''"]
    unfolding q by (simp add: alloc_total_def)
qed

definition pair_ok :: "string \<times> string \<Rightarrow> bool" where
  "pair_ok = (\<lambda>(k, v). CHR ''&'' \<notin> set k \<and> CHR ''='' \<notin> set k \<and> CHR ''&'' \<notin> set v \<and> v \<noteq> [])"

fun query_text :: "kv_list \<Rightarrow> string" where
  "query_text [] = []"
| "query_text [(k, v)] = k @ ''='' @ v"
| "query_text ((k, v) # p # ps) = k @ ''='' @ v @ ''&'' @ query_text (p # ps)"

lemma uri_pair_text: "pair_ok (k, v) \<Longrightarrow> uri_pair (k @ CHR ''='' # v) = Some (k, v)"
proof -
  assume ok: "pair_ok (k, v)"
  then have "strchr (k @ CHR ''='' # v) CHR ''='' = Some (k, v)" by (simp add: strchr_Some pair_ok_def)
  then show ?thesis using ok by (simp add: uri_pair_def pair_ok_def)
qed

lemma query_pairs_text: "list_all pair_ok ps \<Longrightarrow> query_pairs (query_text ps) = ps"
proof (induction ps rule: query_text.induct)
  case 1
  then show ?case by (simp add: query_pairs_def uri_pair_def List.map_filter_simps)
next
  case (2 k v)
  then have "CHR ''&'' \<notin> set (k @ CHR ''='' # v)" by (auto simp: pair_ok_def)
  from split_on_token [OF this] show ?case
    using 2 by (simp add: query_pairs_def uri_pair_text List.map_filter_simps)
next
  case (3 k v p ps)
  then have "CHR ''&'' \<notin> set (k @ CHR ''='' # v)" by (auto simp: pair_ok_def)
  from split_on_append [OF this] show ?case
    using 3 by (simp add: query_pairs_def uri_pair_text List.map_filter_simps)
qed

text \<open>
  Round trip of the query string: for pairs whose keys have neither an ampersand nor an equals
  sign and whose values are not empty and have no ampersand, the text with one part \<open>key=value\<close> per
  pair, joined by ampersands, is read back by \<open>adx_kv_from_uri\<close> as exactly these pairs.
\<close>

theorem adx_kv_uri_round_trip:
  assumes "alloc_total alloc" "list_all pair_ok ps"
  shows "\<exists>m'. adx_kv_from_uri alloc m (query_text ps) = (0, m', ps)"
  using uri_loop_pairs [OF assms(1), of m "[]" "query_text ps"] query_pairs_text [OF assms(2)]
  by (cases "uri_loop alloc m [] (query_text ps)") (auto simp: adx_kv_from_uri_def)

theorem adx_kv_uri_round_trip_witness:
  "\<exists>m'. adx_kv_from_uri (\<lambda>m n. Some (m + n)) 0 ''bid=a1&price=12'' = (0, m', [(''bid'', ''a1''), (''price'', ''12'')])"
  using adx_kv_uri_round_trip [of "\<lambda>m n. Some (m + n)" "[(''bid'', ''a1''), (''price'', ''12'')]" 0]
  by (simp add: alloc_total_def pair_ok_def)

end
