(* ===== verification/Adx_Codec.thy ===== *)
theory Adx_Codec
  imports Adx_Cstd
begin

text \<open>
  The encoders and decoders of \<^verbatim>\<open>adx_string.c\<close>: URL encoding, base 64, binary digits, and the licence
  key coding of \<^verbatim>\<open>adx_com_libs/adx_string.c\<close>.  A buffer is the list of its bytes; a \<^verbatim>\<open>char\<close> read as
  \<^verbatim>\<open>unsigned char\<close> is \<open>of_char\<close>.  The locale \<open>codec\<close> is the contract they share.
\<close>

section \<open>The contract of a codec\<close>

locale codec =
  fixes valid :: "'a \<Rightarrow> bool" and encode :: "'a \<Rightarrow> 'c" and decode :: "'c \<Rightarrow> 'a option"
  assumes decode_encode: "valid x \<Longrightarrow> decode (encode x) = Some x"
begin

lemma encode_inj: "valid x \<Longrightarrow> valid y \<Longrightarrow> encode x = encode y \<longleftrightarrow> x = y"
  using decode_encode by (metis option.inject)

lemma encode_inj_on: "inj_on encode {x. valid x}"
  using encode_inj by (auto simp: inj_on_def)

end

section \<open>Model: URL encoding\<close>

definition hexchars :: string where
  "hexchars = ''0123456789ABCDEF''"

definition url_escaped :: "char \<Rightarrow> bool" where
  "url_escaped c \<longleftrightarrow> (let n = of_char c :: nat in
     n < 48 \<and> n \<noteq> 45 \<and> n \<noteq> 46 \<or> n < 65 \<and> n > 57 \<or> n > 90 \<and> n < 97 \<and> n \<noteq> 95 \<or> n > 122)"

definition url_encode_char :: "char \<Rightarrow> string" where
  "url_encode_char c =
     (if c = CHR '' '' then ''+''
      else if url_escaped c then
        [CHR ''%'', hexchars ! (drop_bit 4 (of_char c)), hexchars ! (of_char c AND 15)]
      else [c])"

text \<open>The encoded bytes and the value stored through \<open>new_length\<close>.\<close>

fun url_encode :: "string \<Rightarrow> string \<times> nat" where
  "url_encode [] = ([], 0)"
| "url_encode (c # s) =
     (let e = url_encode_char c; (es, n) = url_encode s in (e @ es, length e + n))"

definition isxdigit :: "char \<Rightarrow> bool" where
  "isxdigit c \<longleftrightarrow> (let n = of_char c :: nat in 48 \<le> n \<and> n \<le> 57 \<or> 65 \<le> n \<and> n \<le> 70 \<or> 97 \<le> n \<and> n \<le> 102)"

definition isupper :: "char \<Rightarrow> bool" where
  "isupper c \<longleftrightarrow> (let n = of_char c :: nat in 65 \<le> n \<and> n \<le> 90)"

definition islower :: "char \<Rightarrow> bool" where
  "islower c \<longleftrightarrow> (let n = of_char c :: nat in 97 \<le> n \<and> n \<le> 122)"

definition tolower :: "char \<Rightarrow> char" where
  "tolower c = (if isupper c then char_of (of_char c + 32 :: nat) else c)"

definition toupper :: "char \<Rightarrow> char" where
  "toupper c = (if islower c then char_of (of_char c - 32 :: nat) else c)"

definition hex_value :: "char \<Rightarrow> int" where
  "hex_value c =
     (let n = int (of_char (if isupper c then tolower c else c)) in
      if 48 \<le> n \<and> n \<le> 57 then n - 48 else n - 97 + 10)"

fun url_decode_loop :: "string \<Rightarrow> string" where
  "url_decode_loop [] = []"
| "url_decode_loop (c # s) =
     (if c = CHR ''+'' then CHR '' '' # url_decode_loop s
      else case s of
        a # b # r \<Rightarrow>
          if c = CHR ''%'' \<and> isxdigit a \<and> isxdigit b
          then char_of (nat (hex_value a * 16 + hex_value b)) # url_decode_loop r
          else c # url_decode_loop s
      | _ \<Rightarrow> c # url_decode_loop s)"

text \<open>The decoder works in place on \<open>len\<close> bytes and returns the new length.\<close>

definition url_decode :: "string \<Rightarrow> string \<times> nat" where
  "url_decode s = (let d = url_decode_loop s in (d, length d))"

section \<open>Model: base 64\<close>

definition base :: string where
  "base = ''ABCDEFGHIJKLMNOPQRSTUVWXYZabcdefghijklmnopqrstuvwxyz0123456789+/=''"

text \<open>The inner loop that collects three bytes, and the four characters written for them.\<close>

definition encode_prepare :: "string \<Rightarrow> nat" where
  "encode_prepare g = push_bit ((3 - length g) * 8) (foldl (\<lambda>p c. push_bit 8 p OR of_char c) 0 g)"

definition encode_changed :: "nat \<Rightarrow> nat \<Rightarrow> nat \<Rightarrow> nat" where
  "encode_changed temp prepare i =
     (if temp < i then 64 else drop_bit ((3 - i) * 6) prepare AND 63)"

function base64_encode :: "string \<Rightarrow> string" where
  "base64_encode s =
     (if s = [] then []
      else let g = take 3 s; temp = length g; prepare = encode_prepare g in
        map (\<lambda>i. base ! encode_changed temp prepare i) [0..<4] @ base64_encode (drop 3 s))"
  by pat_completeness auto
termination by (relation "measure length") auto

declare base64_encode.simps [simp del]

text \<open>A character that is not in the alphabet makes \<^verbatim>\<open>strrchr\<close> return a null pointer: \<open>None\<close>.\<close>

fun strrchr_from :: "nat \<Rightarrow> string \<Rightarrow> char \<Rightarrow> nat option" where
  "strrchr_from i [] ch = None"
| "strrchr_from i (c # s) ch =
     (case strrchr_from (Suc i) s ch of None \<Rightarrow> if c = ch then Some i else None | Some j \<Rightarrow> Some j)"

definition base64_find_pos :: "char \<Rightarrow> nat option" where
  "base64_find_pos ch = strrchr_from 0 base ch"

fun decode_prepare :: "nat \<Rightarrow> string \<Rightarrow> nat option" where
  "decode_prepare p [] = Some p"
| "decode_prepare p (c # g) = do {
     k \<leftarrow> base64_find_pos c;
     decode_prepare (push_bit 6 p OR k) g }"

function decode_loop :: "string \<Rightarrow> string option" where
  "decode_loop s =
     (if s = [] then Some []
      else let g = take 4 s; temp = length g in do {
        p \<leftarrow> decode_prepare 0 g;
        let prepare = push_bit ((4 - temp) * 6) p;
        r \<leftarrow> decode_loop (drop 4 s);
        Some (map (\<lambda>i. char_of (drop_bit ((2 - i) * 8) prepare AND 255)) [0..<min 3 temp] @ r) })"
  by pat_completeness auto
termination by (relation "measure length") auto

declare decode_loop.simps [simp del]

text \<open>A text of fewer than three characters is read in front of its start: \<open>None\<close>.\<close>

definition base64_decode :: "string \<Rightarrow> string option" where
  "base64_decode s =
     (let n = length s in
      if n < 3 then None
      else let equal_count = (if s ! (n - 1) = CHR ''='' then 1 else 0) + (if s ! (n - 2) = CHR ''='' then 1 else 0) +
             (if s ! (n - 3) = CHR ''='' then 1 else (0::nat)) in
        decode_loop (take (n - equal_count) s))"

section \<open>Model: binary digits\<close>

fun binary_loop :: "32 word \<Rightarrow> nat \<Rightarrow> nat \<Rightarrow> string" where
  "binary_loop w split i =
     (if bit w i then CHR ''1'' else CHR ''0'') #
     (if split + 1 \<ge> 4 then [CHR '' ''] else []) @
     (case i of 0 \<Rightarrow> [] | Suc j \<Rightarrow> binary_loop w (if split + 1 \<ge> 4 then 0 else split + 1) j)"

definition adx_string_to_binary :: "32 word \<Rightarrow> string" where
  "adx_string_to_binary w = binary_loop w 0 31"

section \<open>Model: licence key\<close>

text \<open>The key of position \<open>i\<close>, with the divisions of \<^verbatim>\<open>int\<close> on numbers that are not negative.\<close>

definition license_step :: "nat \<Rightarrow> nat" where
  "license_step i =
     (if i mod 3 = 0 then (i + 1) * 5 else if i mod 4 = 0 then (i + 2) div 3
      else if i mod 5 \<noteq> 0 then (i + 3) * 4 else (i + 4) div 2)"

definition coding_byte :: "nat \<Rightarrow> 8 word \<Rightarrow> 8 word" where
  "coding_byte i b =
     (let b = (if i mod 2 \<noteq> 0 then NOT b else b); key = license_step i in
      if key mod 2 \<noteq> 0 then b + of_nat key else b - of_nat key)"

definition decoding_byte :: "nat \<Rightarrow> 8 word \<Rightarrow> 8 word" where
  "decoding_byte i b =
     (let key = license_step i; b = (if key mod 2 \<noteq> 0 then b - of_nat key else b + of_nat key) in
      if i mod 2 \<noteq> 0 then NOT b else b)"

definition license_key_coding :: "8 word list \<Rightarrow> 8 word list" where
  "license_key_coding buffer = map (\<lambda>(i, b). coding_byte i b) (List.enumerate 0 buffer)"

definition license_key_decoding :: "8 word list \<Rightarrow> 8 word list" where
  "license_key_decoding buffer = map (\<lambda>(i, b). decoding_byte i b) (List.enumerate 0 buffer)"

section \<open>URL encoding\<close>

lemma hexchars_value:
  assumes "k < 16"
  shows "isxdigit (hexchars ! k) \<and> hex_value (hexchars ! k) = int k"
proof -
  have "list_all (\<lambda>k. isxdigit (hexchars ! k) \<and> hex_value (hexchars ! k) = int k) [0..<16]"
    by (simp add: upt_rec hexchars_def isxdigit_def hex_value_def isupper_def tolower_def of_char_of Let_def)
  then show ?thesis using assms by (simp add: list_all_iff)
qed

lemma nibbles: "(of_char c :: nat) < 256" "drop_bit 4 (of_char c :: nat) < 16" "(of_char c :: nat) AND 15 < 16"
    "drop_bit 4 (of_char c :: nat) * 16 + (of_char c AND 15) = of_char c"
proof -
  show n: "(of_char c :: nat) < 256" by simp
  have 15: "(of_char c :: nat) AND 15 = of_char c mod 16"
    using take_bit_eq_mask [of 4 "of_char c :: nat"] by (simp add: take_bit_eq_mod mask_eq_exp_minus_1)
  show "drop_bit 4 (of_char c :: nat) < 16" using n by (simp add: drop_bit_eq_div less_mult_imp_div_less)
  show "(of_char c :: nat) AND 15 < 16" by (simp add: 15)
  show "drop_bit 4 (of_char c :: nat) * 16 + (of_char c AND 15) = of_char c" by (simp add: 15 drop_bit_eq_div)
qed

lemma url_plain: "\<not> url_escaped c \<Longrightarrow> c \<noteq> CHR ''+'' \<and> c \<noteq> CHR ''%''"
  by (auto simp: url_escaped_def)

lemma url_decode_char: "url_decode_loop (url_encode_char c @ s) = c # url_decode_loop s"
proof -
  have esc: "c = char_of (nat (hex_value (hexchars ! drop_bit 4 (of_char c)) * 16 + hex_value (hexchars ! (of_char c AND 15))))"
    using hexchars_value [OF nibbles(2)] hexchars_value [OF nibbles(3)] nibbles(4) [of c]
    by (metis char_of_char nat_int of_nat_add of_nat_mult of_nat_numeral)
  show ?thesis
    using hexchars_value [OF nibbles(2), of c] hexchars_value [OF nibbles(3), of c] esc url_plain [of c]
    by (auto simp: url_encode_char_def simp flip: esc split: list.split)
qed

lemma url_decode_encode: "url_decode_loop (fst (url_encode s)) = s"
  by (induction s) (auto simp: url_decode_char Let_def split_beta)

interpretation url: codec "\<lambda>_. True" "\<lambda>s. fst (url_encode s)" "\<lambda>s. Some (fst (url_decode s))"
  by unfold_locales (simp add: url_decode_def url_decode_encode Let_def)

lemma url_encode_length: "snd (url_encode s) = length (fst (url_encode s))" "length (fst (url_encode s)) \<le> 3 * length s"
proof (induction s)
  case (Cons c s)
  {
    case 1
    then show ?case using Cons by (simp add: Let_def split_beta)
  next
    case 2
    have "length (url_encode_char c) \<le> 3" by (simp add: url_encode_char_def)
    then show ?case using Cons by (simp add: Let_def split_beta)
  }
qed simp_all

section \<open>Base 64\<close>

lemma push_bit_OR: "k < 2 ^ n \<Longrightarrow> push_bit n p OR k = p * 2 ^ n + (k :: nat)"
proof -
  assume k: "k < 2 ^ n"
  then have "\<not> bit k i" if "n \<le> i" for i
    using that k by (metis bit_take_bit_iff leD take_bit_nat_eq_self)
  then have "push_bit n p + k = push_bit n p OR k"
    by (intro disjunctive_add) (auto simp: bit_push_bit_iff)
  then show ?thesis by (simp add: push_bit_eq_mult)
qed

text \<open>The characters of the alphabet are distinct, seen on their codes.\<close>

lemma base_codes: "map of_char base =
    map ((+) 65) [0..<26] @ map ((+) 97) [0..<26] @ map ((+) 48) [0..<10] @ [43, 47, 61 :: nat]"
  by (simp add: base_def upt_rec)

lemma base_distinct: "distinct base" "length base = 65"
proof -
  have "distinct (map of_char base :: nat list)" unfolding base_codes by (auto simp: distinct_map inj_on_def)
  then show "distinct base" by (simp add: distinct_map)
  show "length base = 65" by (simp add: base_def)
qed

lemma strrchr_from_None: "c \<notin> set s \<Longrightarrow> strrchr_from i s c = None"
  by (induction s arbitrary: i) auto

lemma strrchr_from_nth: "distinct s \<Longrightarrow> k < length s \<Longrightarrow> strrchr_from i s (s ! k) = Some (i + k)"
proof (induction s arbitrary: i k)
  case (Cons c s)
  then show ?case by (cases k) (auto simp: strrchr_from_None)
qed simp

lemma base_find: "k < 64 \<Longrightarrow> base64_find_pos (base ! k) = Some k \<and> base ! k \<noteq> CHR ''=''"
proof -
  assume k: "k < 64"
  have "base ! 64 = CHR ''=''" by (simp add: base_def)
  then have "base ! k \<noteq> CHR ''=''" using k base_distinct nth_eq_iff_index_eq [of base k 64] by auto
  then show ?thesis using k base_distinct strrchr_from_nth [of base k 0] by (simp add: base64_find_pos_def)
qed

text \<open>The four base-64 digits of a 24-bit number, and the number they make.\<close>

definition digits64 :: "nat \<Rightarrow> nat list" where
  "digits64 p = [p div 262144 mod 64, p div 4096 mod 64, p div 64 mod 64, p mod 64]"

lemma digits64_less: "list_all (\<lambda>k. k < 64) (digits64 p)"
  by (simp add: digits64_def)

lemma digits64_value: "p < 2 ^ 24 \<Longrightarrow> foldl (\<lambda>q k. q * 64 + k) 0 (digits64 p) = p"
proof -
  assume p: "p < 2 ^ 24"
  have step: "n div (64 * m) * 64 + n div m mod 64 = n div m" for n m :: nat
    by (metis div_mod_decomp div_mult2_eq mult.commute)
  have "p div 262144 mod 64 = p div 262144" using p by simp
  then show ?thesis using step [of p 4096] step [of p 64] step [of p 1] by (simp add: digits64_def)
qed

lemma decode_prepare_digits:
  "list_all (\<lambda>k. k < 64) ks \<Longrightarrow> decode_prepare q (map ((!) base) ks) = Some (foldl (\<lambda>q k. q * 64 + k) q ks)"
  by (induction ks arbitrary: q) (auto simp: base_find push_bit_OR [of _ 6, simplified])

text \<open>The number of a group of at most three bytes.\<close>

fun group_value :: "string \<Rightarrow> nat" where
  "group_value [a, b, c] = of_char a * 65536 + of_char b * 256 + of_char c"
| "group_value [a, b] = of_char a * 65536 + of_char b * 256"
| "group_value [a] = of_char a * 65536"
| "group_value _ = 0"

lemma of_char_less: "(of_char c :: nat) < 256"
  by simp

lemma bytes24:
  fixes x y z :: nat
  assumes "x < 256" "y < 256" "z < 256"
  shows "x * 65536 + y * 256 + z < 2 ^ 24" "(x * 65536 + y * 256 + z) div 65536 mod 256 = x"
    "(x * 65536 + y * 256 + z) div 256 mod 256 = y" "(x * 65536 + y * 256 + z) mod 256 = z"
proof -
  have n: "x * 65536 + y * 256 + z = z + (y + x * 256) * 256" by simp
  have d: "(x * 65536 + y * 256 + z) div 256 = y + x * 256" unfolding n using assms(3) by (subst div_mult_self1) auto
  have "x * 65536 + y * 256 + z < 16777216" using assms by linarith
  then show "x * 65536 + y * 256 + z < 2 ^ 24" by simp
  show "(x * 65536 + y * 256 + z) div 256 mod 256 = y" unfolding d using assms(2) by simp
  show "(x * 65536 + y * 256 + z) mod 256 = z" unfolding n using assms(3) by (subst mod_mult_self1) auto
  have "(x * 65536 + y * 256 + z) div 65536 = (x * 65536 + y * 256 + z) div 256 div 256"
    by (simp flip: div_mult2_eq)
  then show "(x * 65536 + y * 256 + z) div 65536 mod 256 = x"
    unfolding d using assms(1,2) by simp
qed

lemma OR_byte: "p * 256 OR of_char c = p * 256 + (of_char c :: nat)"
  using push_bit_OR [of "of_char c" 8 p] by (simp add: push_bit_eq_mult)

lemma encode_prepare_value:
  assumes "g = [a] \<or> g = [a, b] \<or> g = [a, b, c]"
  shows "encode_prepare g = group_value g" "group_value g < 2 ^ 24"
proof -
  show "encode_prepare g = group_value g"
    using assms by (auto simp: encode_prepare_def push_bit_eq_mult OR_byte algebra_simps)
  show "group_value g < 2 ^ 24"
    using assms bytes24(1) [OF of_char_less of_char_less of_char_less, of a b c]
      bytes24(1) [OF of_char_less of_char_less, of 0 a b] bytes24(1) [OF of_char_less, of 0 0 a] by auto
qed

lemma AND_63: "(n :: nat) AND 63 = n mod 64" and AND_255: "(n :: nat) AND 255 = n mod 256"
  using take_bit_eq_mask [of 6 n] take_bit_eq_mask [of 8 n]
  by (simp_all add: take_bit_eq_mod mask_eq_exp_minus_1)

lemma encode_group:
  "map (\<lambda>i. base ! encode_changed temp p i) [0..<4] =
     map ((!) base) (take (Suc temp) (digits64 p)) @ replicate (3 - temp) CHR ''=''" if "temp \<in> {1, 2, 3}"
proof -
  have eq: "base ! 64 = CHR ''=''" by (simp add: base_def)
  have r2: "replicate 2 (CHR ''='') = ''==''" by (simp add: numeral_2_eq_2)
  show ?thesis
    using that eq by (auto simp: encode_changed_def digits64_def upt_rec AND_63 drop_bit_eq_div r2)
qed

lemma byte_char: "n mod 256 = of_char c \<Longrightarrow> char_of (n :: nat) = c"
  by (metis char_of_char char_of_mod_256)

lemma group_bytes:
  assumes "g = [a] \<or> g = [a, b] \<or> g = [a, b, c]"
  shows "map (\<lambda>i. char_of (drop_bit ((2 - i) * 8) (group_value g) AND 255)) [0..<min 3 (Suc (length g))] =
    g @ (if length g = 3 then [] else [CHR 0x00])"
proof -
  have three: "[0..<3] = [0, 1, 2 :: nat]" and two: "[0..<2] = [0, 1 :: nat]" by (simp_all add: upt_rec)
  have z: "(of_char (CHR 0x00) :: nat) = 0" by simp
  define p where "p = group_value g"
  have map3: "map (\<lambda>i. char_of (drop_bit ((2 - i) * 8) p AND 255)) [0, 1, 2 :: nat] =
      [char_of (p div 65536), char_of (p div 256), char_of p]"
    "map (\<lambda>i. char_of (drop_bit ((2 - i) * 8) p AND 255)) [0, 1 :: nat] = [char_of (p div 65536), char_of (p div 256)]"
    by (simp_all add: AND_255 drop_bit_eq_div)
  note abc = bytes24 [of "of_char a" "of_char b" "of_char c", OF of_char_less of_char_less of_char_less]
  note ab = bytes24 [of "of_char a" "of_char b" 0, OF of_char_less of_char_less]
  note a = bytes24 [of "of_char a" 0 0, OF of_char_less]
  consider "g = [a]" | "g = [a, b]" | "g = [a, b, c]" using assms by blast
  then show ?thesis
  proof cases
    case 1
    then have "p = of_char a * 65536 + 0 * 256 + 0" by (simp add: p_def)
    then have "char_of (p div 65536) = a" "char_of (p div 256) = CHR 0x00"
      using a(2,3) z by (auto intro!: byte_char)
    then show ?thesis unfolding p_def [symmetric] using 1 map3(2) two by (simp del: list.map)
  next
    case 2
    then have "p = of_char a * 65536 + of_char b * 256 + 0" by (simp add: p_def)
    then have "char_of (p div 65536) = a" "char_of (p div 256) = b" "char_of p = CHR 0x00"
      using ab(2,3,4) z by (auto intro!: byte_char)
    then show ?thesis unfolding p_def [symmetric] using 2 map3(1) three by (simp add: numeral_2_eq_2 del: list.map)
  next
    case 3
    then have "p = of_char a * 65536 + of_char b * 256 + of_char c" by (simp add: p_def)
    then have "char_of (p div 65536) = a" "char_of (p div 256) = b" "char_of p = c"
      using abc(2,3,4) by (auto intro!: byte_char)
    then show ?thesis unfolding p_def [symmetric] using 3 map3(1) three by (simp add: numeral_2_eq_2 del: list.map)
  qed
qed

text \<open>One group: the characters written for it, decoded, are its bytes and a NUL if it was short.\<close>

lemma push_take_digits64:
  assumes "p < 2 ^ 24" "p mod 64 ^ (4 - n) = 0" "n \<in> {2, 3, 4}"
  shows "push_bit ((4 - n) * 6) (foldl (\<lambda>q k. q * 64 + k) 0 (take n (digits64 p))) = p"
proof -
  have v: "foldl (\<lambda>q k. q * 64 + k) 0 (digits64 p) = p" by (rule digits64_value [OF assms(1)])
  have top: "p div 262144 mod 64 = p div 262144" using assms(1) by simp
  consider "n = 2" | "n = 3" | "n = 4" using assms(3) by blast
  then show ?thesis
  proof cases
    case 1
    then have "p mod 4096 = 0" using assms(2) by simp
    then obtain q where "p = 4096 * q" by (auto elim: dvdE simp flip: dvd_eq_mod_eq_0)
    then have "p mod 64 = 0" "p div 64 mod 64 = 0" by simp_all
    then show ?thesis using 1 v top by (simp add: digits64_def push_bit_eq_mult)
  next
    case 2
    then have "p mod 64 = 0" using assms(2) by simp
    then show ?thesis using 2 v top by (simp add: digits64_def push_bit_eq_mult)
  next
    case 3
    then show ?thesis using v top by (simp add: digits64_def)
  qed
qed

lemma decode_loop_step:
  assumes "ds \<noteq> []" "length ds = 4 \<or> length ds < 4 \<and> w = []" "decode_prepare 0 ds = Some q"
  shows "decode_loop (ds @ w) =
    map_option ((@) (map (\<lambda>i. char_of (drop_bit ((2 - i) * 8) (push_bit ((4 - length ds) * 6) q) AND 255))
      [0..<min 3 (length ds)])) (decode_loop w)"
proof -
  have "take 4 (ds @ w) = ds" "drop 4 (ds @ w) = w" using assms(2) by auto
  then show ?thesis
    using assms(1,3) by (subst decode_loop.simps) (cases "decode_loop w"; simp add: Let_def del: take_append drop_append)
qed

lemma decode_group:
  assumes "g = [a] \<or> g = [a, b] \<or> g = [a, b, c]" "length g = 3 \<or> w = []"
  shows "decode_loop (map ((!) base) (take (Suc (length g)) (digits64 (group_value g))) @ w) =
    map_option ((@) (g @ (if length g = 3 then [] else [CHR 0x00]))) (decode_loop w)"
proof -
  let ?ks = "take (Suc (length g)) (digits64 (group_value g))"
  let ?ds = "map ((!) base) ?ks"
  have len: "length ?ds = Suc (length g)" using assms(1) by (auto simp: digits64_def)
  then have ds: "?ds \<noteq> []" "length ?ds = 4 \<or> length ?ds < 4 \<and> w = []" using assms by auto
  have less: "list_all (\<lambda>k. k < 64) ?ks"
    using digits64_less [of "group_value g"] by (auto simp: list_all_iff dest: in_set_takeD)
  have m: "group_value g mod 64 ^ (4 - Suc (length g)) = 0" "Suc (length g) \<in> {2, 3, 4}"
    using assms(1) by (auto simp: mod_mult_eq)
  show ?thesis
    unfolding decode_loop_step [OF ds decode_prepare_digits [OF less]] len
      push_take_digits64 [OF encode_prepare_value(2) [OF assms(1)] m] group_bytes [OF assms(1)] by simp
qed

text \<open>The encoded text is the digits followed by the padding; the digits decode to the bytes.\<close>

lemma digits_not_pad: "CHR ''='' \<notin> set (map ((!) base) (take n (digits64 p)))"
  using digits64_less [of p] base_find by (fastforce simp: list_all_iff dest: in_set_takeD)

lemma base64_encode_group:
  assumes "s \<noteq> []"
  shows "base64_encode s = map ((!) base) (take (Suc (length (take 3 s))) (digits64 (group_value (take 3 s)))) @
    replicate (3 - length (take 3 s)) CHR ''='' @ base64_encode (drop 3 s)"
proof -
  obtain a b c where g: "take 3 s = [a] \<or> take 3 s = [a, b] \<or> take 3 s = [a, b, c]"
    using assms by (cases s rule: remdups_adj.cases; cases "tl (tl s)") auto
  then have "length (take 3 s) \<in> {1, 2, 3}" by auto
  from encode_group [OF this] show ?thesis
    using assms encode_prepare_value(1) [OF g] by (subst base64_encode.simps) (simp add: Let_def del: length_take)
qed

definition pad64 :: "string \<Rightarrow> nat" where
  "pad64 s = (3 - length s mod 3) mod 3"

lemma base64_shape:
  "s \<noteq> [] \<Longrightarrow> \<exists>w. base64_encode s = w @ replicate (pad64 s) CHR ''='' \<and> CHR ''='' \<notin> set w \<and> 2 \<le> length w \<and>
     4 \<le> length w + pad64 s \<and> decode_loop w = Some (s @ (if pad64 s = 0 then [] else [CHR 0x00]))"
proof (induction s rule: base64_encode.induct)
  case (1 s)
  let ?g = "take 3 s" and ?r = "drop 3 s"
  let ?ds = "map ((!) base) (take (Suc (length ?g)) (digits64 (group_value ?g)))"
  obtain a b c where g: "?g = [a] \<or> ?g = [a, b] \<or> ?g = [a, b, c]"
    using 1(2) by (cases s rule: remdups_adj.cases; cases "tl (tl s)") auto
  note enc = base64_encode_group [OF 1(2)]
  have nil: "decode_loop [] = Some []" "base64_encode [] = []" by (simp_all add: decode_loop.simps base64_encode.simps)
  have len: "length ?ds = Suc (length ?g)" using g by (auto simp: digits64_def)
  show ?case
  proof (cases "?r = []")
    case True
    then have s: "s = ?g" using append_take_drop_id [of 3 s] by simp
    then have "pad64 s = 3 - length ?g" using g by (auto simp: pad64_def)
    moreover have "decode_loop ?ds = Some (?g @ (if length ?g = 3 then [] else [CHR 0x00]))"
      using decode_group [OF g, of "[]"] nil by simp
    ultimately show ?thesis
      using enc True nil s digits_not_pad [of "Suc (length ?g)" "group_value ?g"] len g
      by (intro exI [of _ ?ds]) auto
  next
    case False
    then have l3: "length ?g = 3" by simp
    then have pad: "pad64 s = pad64 ?r" using False by (simp add: pad64_def mod_if [of "length s"] le_mod_geq)
    from 1(1) [OF 1(2) refl refl refl False] obtain w where w: "base64_encode ?r = w @ replicate (pad64 ?r) CHR ''=''"
      "CHR ''='' \<notin> set w" "2 \<le> length w" "4 \<le> length w + pad64 ?r"
      "decode_loop w = Some (?r @ (if pad64 ?r = 0 then [] else [CHR 0x00]))" by blast
    have "decode_loop (?ds @ w) = Some (?g @ ?r @ (if pad64 ?r = 0 then [] else [CHR 0x00]))"
      using decode_group [OF g, of w] l3 w(5) by simp
    then have "decode_loop (?ds @ w) = Some (s @ (if pad64 s = 0 then [] else [CHR 0x00]))"
      unfolding pad by (metis append.assoc append_take_drop_id)
    moreover have "base64_encode s = (?ds @ w) @ replicate (pad64 s) CHR ''=''" using enc w(1) l3 pad by simp
    ultimately show ?thesis
      using w(2,3,4) digits_not_pad [of "Suc (length ?g)" "group_value ?g"] pad
      by (intro exI [of _ "?ds @ w"]) auto
  qed
qed

lemma equal_count_pad:
  assumes "CHR ''='' \<notin> set w" "2 \<le> length w" "4 \<le> length w + k" "k < 3"
  shows "base64_decode (w @ replicate k CHR ''='') = decode_loop w"
proof -
  let ?s = "w @ replicate k CHR ''=''"
  have nth: "?s ! (length ?s - j) = CHR ''='' \<longleftrightarrow> j \<le> k" if "0 < j" "j \<le> 3" for j
    using assms that by (auto simp: nth_append in_set_conv_nth)
  have n123: "?s ! (length ?s - 1) = CHR ''='' \<longleftrightarrow> 1 \<le> k" "?s ! (length ?s - 2) = CHR ''='' \<longleftrightarrow> 2 \<le> k"
    "?s ! (length ?s - 3) = CHR ''='' \<longleftrightarrow> 3 \<le> k" by (rule nth; simp)+
  have n: "\<not> length ?s < 3" using assms(3) by simp
  have "(if ?s ! (length ?s - 1) = CHR ''='' then 1 else 0) + (if ?s ! (length ?s - 2) = CHR ''='' then 1 else 0) +
      (if ?s ! (length ?s - 3) = CHR ''='' then 1 else 0) = k"
    unfolding n123 using assms(4) by auto
  then show ?thesis unfolding base64_decode_def Let_def using n by simp
qed

lemma base64_decode_encode:
  assumes "s \<noteq> []"
  shows "base64_decode (base64_encode s) = Some (s @ (if length s mod 3 = 0 then [] else [CHR 0x00]))"
proof -
  obtain w where w: "base64_encode s = w @ replicate (pad64 s) CHR ''=''" "CHR ''='' \<notin> set w" "2 \<le> length w"
     "4 \<le> length w + pad64 s" "decode_loop w = Some (s @ (if pad64 s = 0 then [] else [CHR 0x00]))"
    using base64_shape [OF assms] by blast
  have "pad64 s < 3" by (simp add: pad64_def)
  moreover have "pad64 s = 0 \<longleftrightarrow> length s mod 3 = 0"
    using mod_less_divisor [of 3 "length s"] by (auto simp: pad64_def) presburger
  ultimately show ?thesis using equal_count_pad [OF w(2,3,4)] w(1,5) by simp
qed

text \<open>The decoded bytes as a C string end at the first NUL.\<close>

definition cstr :: "string \<Rightarrow> string" where
  "cstr = takeWhile (\<lambda>c. c \<noteq> CHR 0x00)"

lemma cstr_append: "cstring s \<Longrightarrow> cstr (s @ CHR 0x00 # r) = s" "cstring s \<Longrightarrow> cstr s = s"
  by (induction s) (auto simp: cstr_def cstring_def)

interpretation b64: codec "\<lambda>s. s \<noteq> [] \<and> cstring s" base64_encode "\<lambda>s. map_option cstr (base64_decode s)"
  by unfold_locales (auto simp: base64_decode_encode cstr_append)

lemma base64_encode_length: "length (base64_encode s) = 4 * ((length s + 2) div 3)"
proof (induction s rule: base64_encode.induct)
  case (1 s)
  show ?case
  proof (cases "s = []")
    case False
    then have "length (base64_encode s) = 4 + length (base64_encode (drop 3 s))"
      by (subst base64_encode.simps) (simp add: Let_def)
    also have "\<dots> = 4 + 4 * ((length s - 3 + 2) div 3)" using 1 [OF False refl refl refl] by simp
    also have "\<dots> = 4 * ((length s + 2) div 3)"
    proof (cases "length s < 3")
      case True
      moreover have "0 < length s" using False by simp
      ultimately have "length s = 1 \<or> length s = 2" by linarith
      then show ?thesis by auto
    next
      case False
      then obtain m where "length s = m + 3" by (metis add.commute le_iff_add not_less)
      then show ?thesis using div_add_self2 [of 3 "m + 2"] by (simp add: algebra_simps)
    qed
    finally show ?thesis .
  qed (simp add: base64_encode.simps)
qed

section \<open>Licence key and binary digits\<close>

lemma decoding_coding_byte: "decoding_byte i (coding_byte i b) = b"
  by (simp add: decoding_byte_def coding_byte_def Let_def)

lemma coding_decoding_byte: "coding_byte i (decoding_byte i b) = b"
  by (simp add: decoding_byte_def coding_byte_def Let_def)

lemma enumerate_map: "List.enumerate n (map (\<lambda>(i, b). f i b) (List.enumerate n xs)) =
    map (\<lambda>(i, b). (i, f i b)) (List.enumerate n xs)"
  by (induction xs arbitrary: n) auto

lemma license_inverse:
  "license_key_decoding (license_key_coding b) = b" "license_key_coding (license_key_decoding b) = b"
  by (simp_all add: license_key_coding_def license_key_decoding_def enumerate_map split_beta comp_def
      decoding_coding_byte coding_decoding_byte)

interpretation license: codec "\<lambda>_. True" license_key_coding "\<lambda>b. Some (license_key_decoding b)"
  by unfold_locales (simp add: license_inverse)

interpretation license_inv: codec "\<lambda>_. True" license_key_decoding "\<lambda>b. Some (license_key_coding b)"
  by unfold_locales (simp add: license_inverse)

text \<open>Reading the digits back, most significant first.\<close>

definition binary_value :: "string \<Rightarrow> nat" where
  "binary_value s = foldl (\<lambda>n c. 2 * n + (if c = CHR ''1'' then 1 else 0)) 0 (filter (\<lambda>c. c \<noteq> CHR '' '') s)"

lemma binary_loop_digits:
  "filter (\<lambda>c. c \<noteq> CHR '' '') (binary_loop w split i) = map (\<lambda>j. if bit w j then CHR ''1'' else CHR ''0'') (rev [0..<Suc i])"
proof (induction i arbitrary: split)
  case 0
  then show ?case by (subst binary_loop.simps) auto
next
  case (Suc i)
  show ?case by (subst binary_loop.simps) (use Suc in auto)
qed

lemma foldl_bits: "foldl (\<lambda>n c. 2 * n + (if c = CHR ''1'' then 1 else 0)) a
    (map (\<lambda>j. if bit w j then CHR ''1'' else CHR ''0'') (rev [0..<n])) = a * 2 ^ n + unat (take_bit n (w :: 32 word))"
proof (induction n arbitrary: a)
  case (Suc n)
  have "unat (take_bit (Suc n) w) = (if bit w n then 2 ^ n else 0) + unat (take_bit n w)"
    by (simp add: unsigned_take_bit_eq take_bit_Suc_from_most bit_unsigned_iff)
  then show ?case using Suc by (simp add: algebra_simps)
qed simp

lemma binary_round_trip: "binary_value (adx_string_to_binary w) = unat w"
proof -
  have "take_bit 32 w = w" by (simp add: take_bit_word_eq_self)
  then show ?thesis using foldl_bits [of 0 w 32] unfolding binary_value_def adx_string_to_binary_def binary_loop_digits by simp
qed

interpretation binary: codec "\<lambda>_. True" adx_string_to_binary "\<lambda>s. Some (of_nat (binary_value s))"
  by unfold_locales (simp add: binary_round_trip)

section \<open>Properties\<close>

text \<open>
  URL encoding: for every byte string, \<open>url_decode\<close> applied to what \<open>url_encode\<close> wrote gives the
  string back, and its length; the stored length is the number of bytes written, and it fits the
  \<open>3 * len + 1\<close> bytes the encoder allocates.  Two strings are encoded alike only if they are equal.
\<close>

theorem url_round_trip:
  "url_decode (fst (url_encode s)) = (s, length s) \<and> snd (url_encode s) = length (fst (url_encode s)) \<and>
   snd (url_encode s) < 3 * length s + 1 \<and> (fst (url_encode s) = fst (url_encode t) \<longleftrightarrow> s = t)"
proof -
  have "fst (url_encode s) = fst (url_encode t) \<longleftrightarrow> s = t" by (rule url.encode_inj) simp_all
  then show ?thesis using url_encode_length [of s] by (simp add: url_decode_def url_decode_encode)
qed

text \<open>
  C32. Base 64: for every C string that is not empty, \<open>base64_decode\<close> applied to the text of
  \<open>base64_encode\<close> reads only inside the text and writes the bytes of the string, followed by one
  byte NUL too many if the length is not a multiple of three; as a C string the result is the
  string itself.  The encoded text has four characters for every group of three bytes.
\<close>

theorem base64_round_trip:
  assumes "s \<noteq> []" "cstring s"
  shows "base64_decode (base64_encode s) = Some (s @ (if length s mod 3 = 0 then [] else [CHR 0x00])) \<and>
     map_option cstr (base64_decode (base64_encode s)) = Some s \<and>
     length (base64_encode s) = 4 * ((length s + 2) div 3)"
  using base64_decode_encode [OF assms(1)] b64.decode_encode [of s] assms base64_encode_length by simp

theorem base64_round_trip_witness:
  "base64_decode (base64_encode ''adx7'') = Some (''adx7'' @ [CHR 0x00]) \<and> base64_encode ''adx7'' = ''YWR4Nw==''"
proof -
  have r2: "replicate 2 (CHR ''='') = ''==''" by (simp add: numeral_2_eq_2)
  have "base64_encode [] = []" by (simp add: base64_encode.simps)
  then have "base64_encode ''adx7'' = ''YWR4Nw==''"
    by (simp add: base64_encode_group digits64_def base_def r2)
  then show ?thesis using base64_round_trip [of "''adx7''"] by (simp add: cstring_def)
qed

text \<open>
  \<open>license_key_coding\<close> and \<open>license_key_decoding\<close> are inverse to each other on every buffer: byte
  by byte, the complement of the odd positions and the addition or subtraction of the position's
  key modulo 256 are undone.  So the coding is a bijection on buffers of any given size.
\<close>

theorem license_round_trip:
  "license_key_decoding (license_key_coding buf) = buf \<and> license_key_coding (license_key_decoding buf) = buf \<and>
   length (license_key_coding buf) = length buf"
  by (simp add: license_inverse) (simp add: license_key_coding_def)

text \<open>
  \<open>adx_string_to_binary\<close> writes the binary representation: the digits, without the blanks, read
  most significant first give the number back; there are 32 digits and 8 blanks, so the buffer
  needs 41 bytes with the NUL.
\<close>

theorem binary_digits:
  "binary_value (adx_string_to_binary w) = unat w \<and>
   length (filter (\<lambda>c. c \<noteq> CHR '' '') (adx_string_to_binary w)) = 32 \<and> length (adx_string_to_binary w) = 40"
proof -
  have "length (adx_string_to_binary w) = 40"
    by (simp add: adx_string_to_binary_def eval_nat_numeral)
  then show ?thesis
    using binary_round_trip [of w] binary_loop_digits [of w 0 31] by (simp add: adx_string_to_binary_def)
qed

end
