(* ===== verification/Adx_String.thy ===== *)
theory Adx_String
  imports Adx_Codec
begin

text \<open>
  The remaining string functions of \<^verbatim>\<open>adx_dsp/src/adx_string.c\<close> and \<^verbatim>\<open>adx_com_libs/adx_string.c\<close>:
  rounding up, duplication, case conversion, search, tokens, the growing buffer \<open>adx_buffer\<close> with
  \<open>adx_strcat\<close>, macro replacement, and nginx buffer chains, which are the lists of their buffers'
  bytes.  A null pointer is \<open>None\<close>.
\<close>

section \<open>Model: small functions\<close>

text \<open>
  The quotient of two \<^verbatim>\<open>int\<close> values is exact enough in a \<^verbatim>\<open>double\<close> for its \<^verbatim>\<open>ceil\<close> to be the exact
  one: a quotient that is not whole is at least \<open>1 / \<bar>y\<bar>\<close> away from the next whole number, and the
  rounding error is smaller.
\<close>

definition adx_except_ceil :: "int \<Rightarrow> int \<Rightarrow> int" where
  "adx_except_ceil x y = (if x = 0 \<or> y = 0 then 0 else - ((- x) div y))"

definition adx_strdup :: "'m alloc_fun \<Rightarrow> 'm \<Rightarrow> string option \<Rightarrow> nat \<Rightarrow> ('m \<times> string) option" where
  "adx_strdup alloc m s len =
     (case s of None \<Rightarrow> None
      | Some s \<Rightarrow>
        if len = 0 then None
        else do { m \<leftarrow> alloc m (len + 1); Some (m, take len s) })"

definition adx_string_to_upper :: "string option \<Rightarrow> string option" where
  "adx_string_to_upper = map_option (map toupper)"

definition adx_string_to_lower :: "string option \<Rightarrow> string option" where
  "adx_string_to_lower = map_option (map tolower)"

text \<open>\<^verbatim>\<open>strncasecmp\<close> of the first \<open>length needle\<close> characters, for equality.\<close>

definition strncasecmp_eq :: "string \<Rightarrow> string \<Rightarrow> bool" where
  "strncasecmp_eq s needle = (map tolower (take (length needle) s) = map tolower needle)"

fun strstr_loop :: "string \<Rightarrow> string \<Rightarrow> string option" where
  "strstr_loop [] needle = None"
| "strstr_loop (c # s) needle =
     (if strncasecmp_eq (c # s) needle then Some (c # s) else strstr_loop s needle)"

text \<open>The result is the text from the position found.\<close>

definition adx_strstr :: "string option \<Rightarrow> string option \<Rightarrow> string option" where
  "adx_strstr s needle =
     (case (s, needle) of (Some s, Some n) \<Rightarrow> if length n = 0 then None else strstr_loop s n | _ \<Rightarrow> None)"

text \<open>
  \<open>adx_strtok\<close>: the token copied to \<open>dest\<close>, \<open>None\<close> if the function returns a null pointer, and the new
  value of \<open>*save_ptr\<close>.
\<close>

definition adx_strtok :: "string option \<Rightarrow> string option \<Rightarrow> char \<Rightarrow> string option \<times> string option" where
  "adx_strtok src save ch =
     (case (case save of Some s \<Rightarrow> Some s | None \<Rightarrow> src) of
        None \<Rightarrow> (None, save)
      | Some s \<Rightarrow> (case strchr s ch of Some (t, r) \<Rightarrow> (Some t, Some r) | None \<Rightarrow> (Some s, None)))"

text \<open>\<^verbatim>\<open>inet_pton\<close> is a parameter: whether the text is an IPv4 address.\<close>

definition adx_string_domain_parse :: "(string \<Rightarrow> bool) \<Rightarrow> string option \<Rightarrow> string option" where
  "adx_string_domain_parse inet_pton url =
     (case url of None \<Rightarrow> None
      | Some u \<Rightarrow> if inet_pton u then Some u else map_option snd (strchr u CHR ''.''))"

section \<open>Model: buffer chains\<close>

definition adx_chain_len :: "string list \<Rightarrow> nat" where
  "adx_chain_len chain = foldl (\<lambda>len buf. len + length buf) 0 chain"

abbreviation SIZEOF_CHAIN :: nat where "SIZEOF_CHAIN \<equiv> 16"
abbreviation SIZEOF_BUF :: nat where "SIZEOF_BUF \<equiv> 80"

definition adx_chain_alloc :: "'m alloc_fun \<Rightarrow> 'm \<Rightarrow> string option \<Rightarrow> nat \<Rightarrow> ('m \<times> string list) option" where
  "adx_chain_alloc alloc m buffer n =
     (case buffer of None \<Rightarrow> None
      | Some b \<Rightarrow>
        if n = 0 then None
        else do {
          m \<leftarrow> alloc m SIZEOF_CHAIN;
          m \<leftarrow> alloc m SIZEOF_BUF;
          m \<leftarrow> alloc m n;
          Some (m, [take n b]) })"

definition adx_chain_alloc_r :: "'m alloc_fun \<Rightarrow> 'm \<Rightarrow> string option \<Rightarrow> ('m \<times> string list) option" where
  "adx_chain_alloc_r alloc m buffer =
     (case buffer of None \<Rightarrow> None
      | Some b \<Rightarrow> if length b = 0 then None else adx_chain_alloc alloc m buffer (length b))"

fun chain_copy :: "string \<Rightarrow> string list \<Rightarrow> string" where
  "chain_copy s [] = s"
| "chain_copy s (buf # chain) = chain_copy (s @ buf) chain"

definition adx_chain_to_str :: "'m alloc_fun \<Rightarrow> 'm \<Rightarrow> string list \<Rightarrow> 'm \<times> string option" where
  "adx_chain_to_str alloc m src =
     (let len = adx_chain_len src in
      if len = 0 then (m, None)
      else case alloc m (len + 1) of None \<Rightarrow> (m, None) | Some m \<Rightarrow> (m, Some (chain_copy [] src)))"

section \<open>Model: growing buffer\<close>

text \<open>
  A block of memory: its bytes, \<open>None\<close> for those that were never written.  Copying out of or behind a block is
  undefined, \<open>None\<close>.
\<close>

type_synonym block = "char option list"

record 'm adx_buffer =
  spool :: 'm
  stotal :: int
  slength :: int
  sstr :: "block option"

definition new_block :: "nat \<Rightarrow> block" where
  "new_block n = replicate n None"

definition block_write :: "block \<Rightarrow> nat \<Rightarrow> char option list \<Rightarrow> block option" where
  "block_write blk i cs = (if i + length cs \<le> length blk then Some (take i blk @ cs @ drop (i + length cs) blk) else None)"

definition block_read :: "block \<Rightarrow> nat \<Rightarrow> char option list option" where
  "block_read blk n = (if n \<le> length blk then Some (take n blk) else None)"

text \<open>The C string at the start of a block; \<open>None\<close> if a byte in front of its NUL was never written, or there is no NUL.\<close>

fun block_str :: "block \<Rightarrow> string option" where
  "block_str [] = None"
| "block_str (None # blk) = None"
| "block_str (Some c # blk) = (if c = CHR 0x00 then Some [] else map_option (Cons c) (block_str blk))"

text \<open>
  The loop that doubles the buffer and copies the text.  The flag is \<open>False\<close> when an allocation failed; \<open>None\<close> is an
  overflow of \<^verbatim>\<open>int\<close>, a copy outside of a block, or a loop that does not end.
\<close>

partial_function (option) strcat_grow :: "'m alloc_fun \<Rightarrow> 'm adx_buffer \<Rightarrow> int \<Rightarrow> ('m adx_buffer \<times> bool) option" where
  "strcat_grow alloc b len =
     (if INT_MAX < len + slength b then None
      else if len + slength b < stotal b - 1 then Some (b, True)
      else if INT_MAX < stotal b * 2 then None
      else case alloc (spool b) (nat (stotal b * 2)) of
        None \<Rightarrow> Some (b\<lparr>stotal := stotal b * 2\<rparr>, False)
      | Some m \<Rightarrow> do {
          old \<leftarrow> sstr b;
          cs \<leftarrow> block_read old (nat (slength b));
          p \<leftarrow> block_write (new_block (nat (stotal b * 2))) 0 cs;
          strcat_grow alloc (b\<lparr>stotal := stotal b * 2, spool := m, sstr := Some p\<rparr>) len })"

definition strcat_init :: "'m alloc_fun \<Rightarrow> 'm adx_buffer \<Rightarrow> 'm adx_buffer option" where
  "strcat_init alloc b =
     (case sstr b of Some _ \<Rightarrow> Some b
      | None \<Rightarrow> map_option (\<lambda>m. b\<lparr>spool := m, sstr := Some (new_block (nat (stotal b)))\<rparr>) (alloc (spool b) (nat (stotal b))))"

text \<open>The argument is a C string; its NUL can be copied, the bytes behind cannot be read.\<close>

definition adx_strcat :: "'m alloc_fun \<Rightarrow> 'm adx_buffer \<Rightarrow> string \<Rightarrow> nat \<Rightarrow> ('m adx_buffer \<times> bool) option" where
  "adx_strcat alloc b s len =
     (if len = 0 then Some (b, False)
      else case strcat_init alloc b of None \<Rightarrow> Some (b, False)
      | Some b \<Rightarrow> do {
          (b, ok) \<leftarrow> strcat_grow alloc b (int len);
          if \<not> ok then Some (b, False)
          else do {
            blk \<leftarrow> sstr b;
            cs \<leftarrow> block_read (map Some s @ [Some (CHR 0x00)]) len;
            blk \<leftarrow> block_write blk (nat (slength b)) cs;
            let b = b\<lparr>slength := slength b + int len\<rparr>;
            blk \<leftarrow> block_write blk (nat (slength b)) [Some (CHR 0x00)];
            Some (b\<lparr>sstr := Some blk\<rparr>, True) } })"

function macro_loop :: "'m alloc_fun \<Rightarrow> 'm adx_buffer \<Rightarrow> string \<Rightarrow> string \<Rightarrow> string \<Rightarrow> ('m adx_buffer \<times> bool) option" where
  "macro_loop alloc b src dest [] = Some (b, True)"
| "macro_loop alloc b src dest (c # s) =
     (if strncmp_eq (c # s) src then do {
        (b, ok) \<leftarrow> adx_strcat alloc b dest (length dest);
        if ok then macro_loop alloc b src dest (drop (length src - 1) s) else Some (b, False) }
      else do {
        (b, ok) \<leftarrow> adx_strcat alloc b (c # s) 1;
        if ok then macro_loop alloc b src dest s else Some (b, False) })"
  by pat_completeness auto
termination by (relation "measure (\<lambda>(alloc, b, src, dest, s). length s)") auto

text \<open>
  The new state of the pool and the result, as a C string; \<open>buf\<close> itself is returned on every failure.
\<close>

definition adx_macro_replace ::
    "'m alloc_fun \<Rightarrow> 'm option \<Rightarrow> string option \<Rightarrow> string option \<Rightarrow> string option \<Rightarrow> ('m option \<times> string option) option" where
  "adx_macro_replace alloc pool buf src dest =
     (case (pool, buf, src, dest) of
        (Some m, Some t, Some s, Some d) \<Rightarrow>
          if length s = 0 then Some (pool, buf)
          else do {
            (b, ok) \<leftarrow> macro_loop alloc \<lparr>spool = m, stotal = 1024, slength = 0, sstr = None\<rparr> s d t;
            if \<not> ok then Some (Some (spool b), buf)
            else case sstr b of None \<Rightarrow> Some (Some (spool b), None)
            | Some blk \<Rightarrow> do { t \<leftarrow> block_str blk; Some (Some (spool b), Some t) } }
      | _ \<Rightarrow> Some (pool, buf))"

section \<open>The growing buffer\<close>

text \<open>The bound on the text for which no doubling overflows.\<close>

abbreviation buffer_limit :: int where "buffer_limit \<equiv> 2 ^ 29"

text \<open>The block has the size that the buffer counts, and holds the text and a NUL.\<close>

definition sbuf_ok :: "'m adx_buffer \<Rightarrow> string \<Rightarrow> bool" where
  "sbuf_ok b s \<longleftrightarrow> slength b = int (length s) \<and> 1024 \<le> stotal b \<and> stotal b \<le> 2 ^ 30 \<and> int (length s) < stotal b \<and>
     (case sstr b of None \<Rightarrow> s = []
      | Some blk \<Rightarrow> length blk = nat (stotal b) \<and> take (length s) blk = map Some s \<and> (s \<noteq> [] \<longrightarrow> blk ! length s = Some (CHR 0x00)))"

lemma block_write_at:
  assumes "i + length cs \<le> length blk"
  shows "\<exists>blk'. block_write blk i cs = Some blk' \<and> length blk' = length blk \<and> take (i + length cs) blk' = take i blk @ cs"
  using assms by (intro exI [of _ "take i blk @ cs @ drop (i + length cs) blk"]) (simp add: block_write_def)

lemma block_str_text:
  "take (length s) blk = map Some s \<Longrightarrow> length s < length blk \<Longrightarrow> blk ! length s = Some (CHR 0x00) \<Longrightarrow> CHR 0x00 \<notin> set s \<Longrightarrow>
    block_str blk = Some s"
proof (induction s arbitrary: blk)
  case Nil
  then show ?case by (cases blk) auto
next
  case (Cons c s)
  then show ?case by (cases blk) auto
qed

lemma strcat_grow_ok:
  assumes "alloc_total alloc" "0 < stotal b" "0 \<le> slength b" "0 < len" "len + slength b < buffer_limit"
    "stotal b \<le> 2 ^ 30" "sstr b = Some blk" "length blk = nat (stotal b)" "slength b < stotal b"
  shows "\<exists>b' blk'. strcat_grow alloc b len = Some (b', True) \<and> slength b' = slength b \<and> sstr b' = Some blk' \<and>
     length blk' = nat (stotal b') \<and> take (nat (slength b)) blk' = take (nat (slength b)) blk \<and>
     len + slength b' < stotal b' - 1 \<and> stotal b \<le> stotal b' \<and> stotal b' \<le> 2 ^ 30"
  using assms(2-)
proof (induction "nat (2 ^ 30 - stotal b)" arbitrary: b blk rule: less_induct)
  case less
  show ?case
  proof (cases "len + slength b < stotal b - 1")
    case True
    then show ?thesis using less.prems by (subst strcat_grow.simps) auto
  next
    case False
    then have t: "stotal b \<le> 2 ^ 29" using less.prems by simp
    obtain m where m: "alloc (spool b) (nat (stotal b * 2)) = Some m" using assms(1) unfolding alloc_total_def by blast
    let ?k = "nat (slength b)" and ?n = "nat (stotal b * 2)"
    have k: "?k \<le> length blk" "?k \<le> ?n" using less.prems by simp_all
    obtain p where p: "block_write (new_block ?n) 0 (take ?k blk) = Some p" "length p = ?n" "take ?k p = take ?k blk"
      using block_write_at [of 0 "take ?k blk" "new_block ?n"] k by (auto simp: new_block_def min_absorb2)
    let ?b = "b\<lparr>stotal := stotal b * 2, spool := m, sstr := Some p\<rparr>"
    have "nat (2 ^ 30 - stotal ?b) < nat (2 ^ 30 - stotal b)" using less.prems t by simp
    from less.hyps [OF this, of p] less.prems t p(2) obtain b' blk' where b': "strcat_grow alloc ?b len = Some (b', True)"
      "slength b' = slength b" "sstr b' = Some blk'" "length blk' = nat (stotal b')" "take ?k blk' = take ?k p"
      "len + slength b' < stotal b' - 1" "stotal b * 2 \<le> stotal b'" "stotal b' \<le> 2 ^ 30" by auto
    moreover have "strcat_grow alloc b len = strcat_grow alloc ?b len"
      using False m less.prems t k p(1) by (subst strcat_grow.simps) (simp add: block_read_def)
    ultimately show ?thesis using less.prems p(3) by auto
  qed
qed

lemma adx_strcat_ok:
  assumes "alloc_total alloc" "sbuf_ok b s" "0 < len" "len \<le> length t" "int (length s + len) < buffer_limit"
  shows "\<exists>b'. adx_strcat alloc b t len = Some (b', True) \<and> sbuf_ok b' (s @ take len t) \<and> sstr b' \<noteq> None"
proof -
  obtain m where m: "alloc (spool b) (nat (stotal b)) = Some m" using assms(1) unfolding alloc_total_def by blast
  obtain b1 blk1 where b1: "strcat_init alloc b = Some b1" "sstr b1 = Some blk1" "slength b1 = int (length s)" "stotal b1 = stotal b"
      "length blk1 = nat (stotal b)" "take (length s) blk1 = map Some s"
    using assms(2) m by (cases "sstr b") (auto simp: strcat_init_def sbuf_ok_def new_block_def)
  obtain b2 blk2 where b2: "strcat_grow alloc b1 (int len) = Some (b2, True)" "slength b2 = slength b1" "sstr b2 = Some blk2"
      "length blk2 = nat (stotal b2)" "take (length s) blk2 = map Some s" "int len + slength b2 < stotal b2 - 1" "stotal b \<le> stotal b2" "stotal b2 \<le> 2 ^ 30"
    using strcat_grow_ok [OF assms(1), of b1 "int len" blk1] b1 assms(2,3,5) by (auto simp: sbuf_ok_def)
  let ?cs = "map Some (take len t)"
  have cs: "block_read (map Some t @ [Some (CHR 0x00)]) len = Some ?cs" "length ?cs = len" using assms(4) by (simp_all add: block_read_def take_map)
  have fits: "length s + length ?cs \<le> length blk2" "length s + len + 1 \<le> length blk2" using b1(3) b2(2,4,6) cs(2) by linarith+
  obtain blk3 where blk3: "block_write blk2 (length s) ?cs = Some blk3" "length blk3 = length blk2"
      "take (length s + length ?cs) blk3 = take (length s) blk2 @ ?cs" using block_write_at [OF fits(1)] by blast
  have "length s + len + length [Some (CHR 0x00)] \<le> length blk3" using fits(2) blk3(2) by simp
  from block_write_at [OF this] obtain blk4 where blk4: "block_write blk3 (length s + len) [Some (CHR 0x00)] = Some blk4"
      "length blk4 = length blk3" "take (length s + len + 1) blk4 = take (length s + len) blk3 @ [Some (CHR 0x00)]" by auto
  have l: "length (s @ take len t) = length s + len" using assms(4) by simp
  have body: "take (length s + len) blk4 = map Some (s @ take len t)"
    using arg_cong [OF blk4(3), of "take (length s + len)"] blk3(2,3) blk4(2) fits cs(2) b2(5) by (simp add: min_def take_map)
  have nul: "blk4 ! (length s + len) = Some (CHR 0x00)"
    using arg_cong [OF blk4(3), of "\<lambda>x. x ! (length s + len)"] blk3(2) fits(2) by (simp add: nth_append)
  let ?b = "b2\<lparr>slength := slength b2 + int len, sstr := Some blk4\<rparr>"
  have n: "nat (slength b2) = length s" "nat (slength b2 + int len) = length s + len" using b1(3) b2(2) by simp_all
  have "adx_strcat alloc b t len = Some (?b, True)"
    using assms(3) b1(1) b2(1,3) cs(1) blk3(1) blk4(1) by (simp add: adx_strcat_def n Let_def)
  moreover have "sbuf_ok ?b (s @ take len t)"
    using assms(2) b1(3) b2 blk3(2) blk4(2) body nul l by (simp add: sbuf_ok_def)
  ultimately show ?thesis by auto
qed

section \<open>Macro replacement\<close>

text \<open>Replacement of the occurrences from left to right, without overlap.\<close>

function replace_all :: "string \<Rightarrow> string \<Rightarrow> string \<Rightarrow> string" where
  "replace_all src dest [] = []"
| "replace_all src dest (c # s) =
     (if take (length src) (c # s) = src then dest @ replace_all src dest (drop (length src - 1) s)
      else c # replace_all src dest s)"
  by pat_completeness auto
termination by (relation "measure (\<lambda>(src, dest, s). length s)") auto

lemma macro_loop_ok:
  assumes "alloc_total alloc"
  shows "dest \<noteq> [] \<Longrightarrow> sbuf_ok b s \<Longrightarrow> int (length (s @ replace_all src dest t)) < buffer_limit \<Longrightarrow>
    \<exists>b'. macro_loop alloc b src dest t = Some (b', True) \<and> sbuf_ok b' (s @ replace_all src dest t) \<and>
      (t \<noteq> [] \<or> sstr b \<noteq> None \<longrightarrow> sstr b' \<noteq> None)"
proof (induction src dest t arbitrary: b s rule: replace_all.induct)
  case (2 src dest c t)
  show ?case
  proof (cases "take (length src) (c # t) = src")
    case True
    have l: "int (length s + length dest) < buffer_limit" using 2(5) True by simp
    obtain b1 where b1: "adx_strcat alloc b dest (length dest) = Some (b1, True)" "sbuf_ok b1 (s @ dest)" "sstr b1 \<noteq> None"
      using adx_strcat_ok [OF assms 2(4) _ le_refl l] 2(3) by auto
    from 2(1) [OF True 2(3) b1(2)] 2(5) True obtain b' where
      "macro_loop alloc b1 src dest (drop (length src - 1) t) = Some (b', True)"
      "sbuf_ok b' ((s @ dest) @ replace_all src dest (drop (length src - 1) t))" "sstr b' \<noteq> None"
      using b1(3) by auto
    then show ?thesis using b1 True by (simp add: strncmp_eq_def)
  next
    case False
    have l: "int (length s + 1) < buffer_limit" using 2(5) False by simp
    obtain b1 where b1: "adx_strcat alloc b (c # t) 1 = Some (b1, True)" "sbuf_ok b1 (s @ [c])" "sstr b1 \<noteq> None"
      using adx_strcat_ok [OF assms 2(4) _ _ l, of "c # t"] by auto
    from 2(2) [OF False 2(3) b1(2)] 2(5) False obtain b' where
      "macro_loop alloc b1 src dest t = Some (b', True)" "sbuf_ok b' ((s @ [c]) @ replace_all src dest t)" "sstr b' \<noteq> None"
      using b1(3) by auto
    then show ?thesis using b1 False by (simp add: strncmp_eq_def)
  qed
qed auto

lemma replace_all_same: "src \<noteq> [] \<Longrightarrow> replace_all src src t = t"
proof (induction t rule: length_induct)
  case (1 t)
  show ?case
  proof (cases t)
    case (Cons c s)
    show ?thesis
    proof (cases "take (length src) (c # s) = src")
      case True
      have "src @ drop (length src - 1) s = c # s"
        using True 1(2) append_take_drop_id [of "length src" "c # s"] by (cases src) auto
      then show ?thesis using True 1 Cons by simp
    qed (use 1 Cons in simp)
  qed simp
qed

text \<open>An empty replacement: \<open>adx_strcat\<close> refuses length 0, so the first occurrence makes the loop fail.\<close>

lemma macro_loop_empty:
  assumes "alloc_total alloc"
  shows "sbuf_ok b s \<Longrightarrow> int (length s + length t) < buffer_limit \<Longrightarrow> \<exists>b' ok. macro_loop alloc b src [] t = Some (b', ok) \<and>
     (ok \<longrightarrow> sbuf_ok b' (s @ t) \<and> replace_all src [] t = t)"
proof (induction t arbitrary: b s)
  case (Cons c t)
  show ?case
  proof (cases "take (length src) (c # t) = src")
    case True
    then have "macro_loop alloc b src [] (c # t) = Some (b, False)" by (simp add: strncmp_eq_def adx_strcat_def)
    then show ?thesis by blast
  next
    case False
    obtain b1 where b1: "adx_strcat alloc b (c # t) 1 = Some (b1, True)" "sbuf_ok b1 (s @ [c])"
      using adx_strcat_ok [OF assms Cons.prems(1), of 1 "c # t"] Cons.prems(2) by auto
    with Cons.IH [OF b1(2)] Cons.prems(2) False show ?thesis by (auto simp: strncmp_eq_def)
  qed
qed auto

section \<open>Search and tokens\<close>

lemma strstr_loop_spec:
  "strstr_loop s n = Some r \<longleftrightarrow> (\<exists>p. s = p @ r \<and> r \<noteq> [] \<and> strncasecmp_eq r n \<and>
     (\<forall>i < length p. \<not> strncasecmp_eq (drop i s) n))"
proof (induction s)
  case (Cons c s)
  show ?case
  proof (cases "strncasecmp_eq (c # s) n")
    case True
    show ?thesis
    proof
      assume "\<exists>p. c # s = p @ r \<and> r \<noteq> [] \<and> strncasecmp_eq r n \<and> (\<forall>i < length p. \<not> strncasecmp_eq (drop i (c # s)) n)"
      then obtain p where p: "c # s = p @ r" "\<forall>i < length p. \<not> strncasecmp_eq (drop i (c # s)) n" by blast
      then have "p = []" using True by (cases p) (auto dest: spec [of _ 0])
      then have r: "r = c # s" using p(1) by simp
      show "strstr_loop (c # s) n = Some r" unfolding r using True by simp
    qed (use True in auto)
  next
    case False
    have "(\<exists>p. s = p @ r \<and> r \<noteq> [] \<and> strncasecmp_eq r n \<and> (\<forall>i < length p. \<not> strncasecmp_eq (drop i s) n)) \<longleftrightarrow>
      (\<exists>p. c # s = p @ r \<and> r \<noteq> [] \<and> strncasecmp_eq r n \<and> (\<forall>i < length p. \<not> strncasecmp_eq (drop i (c # s)) n))"
      (is "?L \<longleftrightarrow> ?R")
    proof
      assume ?L
      then obtain p where p: "s = p @ r" "r \<noteq> []" "strncasecmp_eq r n" "\<forall>i < length p. \<not> strncasecmp_eq (drop i s) n" by blast
      then have "\<forall>i < length (c # p). \<not> strncasecmp_eq (drop i (c # s)) n"
        using False by (auto simp: less_Suc_eq_0_disj)
      then show ?R using p by (intro exI [of _ "c # p"]) auto
    next
      assume ?R
      then obtain p where p: "c # s = p @ r" "r \<noteq> []" "strncasecmp_eq r n"
        "\<forall>i < length p. \<not> strncasecmp_eq (drop i (c # s)) n" by blast
      then obtain q where q: "p = c # q" "s = q @ r" using False by (cases p) auto
      then have "\<forall>i < length q. \<not> strncasecmp_eq (drop i s) n" using p(4) by fastforce
      then show ?L using p q by blast
    qed
    then show ?thesis using Cons.IH False by simp
  qed
qed simp

text \<open>The calls of \<open>adx_strtok\<close> until it returns a null pointer: the first with the text, the others without.\<close>

function strtok_rest :: "string option \<Rightarrow> char \<Rightarrow> string list" where
  "strtok_rest save ch =
     (case adx_strtok None save ch of (None, _) \<Rightarrow> [] | (Some t, save) \<Rightarrow> t # strtok_rest save ch)"
  by pat_completeness auto
termination
  by (relation "measure (\<lambda>(save, ch). case save of None \<Rightarrow> 0 | Some s \<Rightarrow> Suc (length s))")
    (auto simp: adx_strtok_def strchr_Some split: option.splits)

declare strtok_rest.simps [simp del]

definition strtok_all :: "string \<Rightarrow> char \<Rightarrow> string list" where
  "strtok_all s ch = (case adx_strtok (Some s) None ch of (None, _) \<Rightarrow> [] | (Some t, save) \<Rightarrow> t # strtok_rest save ch)"

lemma strtok_rest_split: "strtok_rest save ch = (case save of None \<Rightarrow> [] | Some s \<Rightarrow> split_on ch s)"
proof (induction save ch rule: strtok_rest.induct)
  case (1 save ch)
  show ?case
  proof (cases save)
    case (Some s)
    show ?thesis
    proof (cases "strchr s ch")
      case None
      then have "split_on ch s = [s]" by (simp add: split_on_token strchr_None)
      then show ?thesis using Some None
        by (subst strtok_rest.simps) (simp add: adx_strtok_def strtok_rest.simps [of None])
    next
      case (Some x)
      obtain t r where x: "x = (t, r)" by (cases x)
      then have "s = t @ ch # r" "ch \<notin> set t" using Some by (auto simp: strchr_Some)
      then show ?thesis using \<open>save = Some s\<close> Some x 1
        by (subst strtok_rest.simps) (simp add: adx_strtok_def split_on_append)
    qed
  qed (subst strtok_rest.simps, simp add: adx_strtok_def)
qed

lemma strtok_all_split: "strtok_all s ch = split_on ch s"
  using strtok_rest_split [of "Some s" ch] strtok_rest.simps [of "Some s" ch]
  by (simp add: strtok_all_def adx_strtok_def)

section \<open>Properties\<close>

lemma replace_all_set: "set (replace_all src dest t) \<subseteq> set dest \<union> set t"
  by (induction src dest t rule: replace_all.induct) (auto dest: in_set_dropD)

lemma sbuf_str:
  assumes "sbuf_ok b s" "sstr b = Some blk" "s \<noteq> []" "CHR 0x00 \<notin> set s"
  shows "block_str blk = Some s"
  using assms by (intro block_str_text) (auto simp: sbuf_ok_def)

text \<open>
  C33. \<open>adx_macro_replace\<close>, with an allocator that does not fail and a result of less than \<open>2 ^ 29\<close>
  bytes: for a text and a replacement that are not empty it returns the C string in which every
  occurrence of the macro, from left to right and without overlap, is replaced; the buffer code
  grows as often as needed, terminates, and every copy and every NUL it writes is inside of the block that was allocated.
\<close>

theorem adx_macro_replace_all:
  assumes "alloc_total alloc" "src \<noteq> []" "dest \<noteq> []" "t \<noteq> []" "int (length (replace_all src dest t)) < buffer_limit"
    "CHR 0x00 \<notin> set t" "CHR 0x00 \<notin> set dest"
  shows "\<exists>m'. adx_macro_replace alloc (Some m) (Some t) (Some src) (Some dest) = Some (Some m', Some (replace_all src dest t))"
proof -
  let ?b = "\<lparr>spool = m, stotal = 1024, slength = 0, sstr = None\<rparr>" and ?r = "replace_all src dest t"
  have "sbuf_ok ?b []" by (simp add: sbuf_ok_def)
  from macro_loop_ok [OF assms(1,3) this, of src t] assms(4,5) obtain b where
    b: "macro_loop alloc ?b src dest t = Some (b, True)" "sbuf_ok b ?r" "sstr b \<noteq> None" by auto
  have "?r \<noteq> []" using assms(3,4) by (cases t) auto
  moreover have "CHR 0x00 \<notin> set ?r" using replace_all_set assms(6,7) by fastforce
  ultimately have "block_str (the (sstr b)) = Some ?r" using sbuf_str [OF b(2)] b(3) by auto
  then show ?thesis using b assms(2) by (auto simp: adx_macro_replace_def)
qed

theorem adx_macro_replace_all_witness:
  "\<exists>m'. adx_macro_replace (\<lambda>m n. Some (m + n)) (Some 0) (Some ''u=$P$&p=$P$'') (Some ''$P$'') (Some ''17'') =
     Some (Some m', Some ''u=17&p=17'')"
proof -
  have r: "replace_all ''$P$'' ''17'' ''u=$P$&p=$P$'' = ''u=17&p=17''" by simp
  show ?thesis
    using adx_macro_replace_all [of "\<lambda>m n. Some (m + n)" "''$P$''" "''17''" "''u=$P$&p=$P$''" 0] unfolding r
    by (simp add: alloc_total_def)
qed

text \<open>
  With an empty replacement \<open>adx_macro_replace\<close> does not remove the macro: \<open>adx_strcat\<close> returns a
  null pointer for length 0, and the function then returns the text as it was.  So an empty value
  always gives back the whole text, whether the macro occurs in it or not.
\<close>

theorem adx_macro_replace_empty:
  assumes "alloc_total alloc" "src \<noteq> []" "t \<noteq> []" "int (length t) < buffer_limit" "CHR 0x00 \<notin> set t"
  shows "\<exists>m'. adx_macro_replace alloc (Some m) (Some t) (Some src) (Some []) = Some (Some m', Some t)"
proof -
  let ?b = "\<lparr>spool = m, stotal = 1024, slength = 0, sstr = None\<rparr>"
  have "sbuf_ok ?b []" by (simp add: sbuf_ok_def)
  from macro_loop_empty [OF assms(1) this, of t src] assms(4) obtain b ok where
    b: "macro_loop alloc ?b src [] t = Some (b, ok)" "ok \<Longrightarrow> sbuf_ok b t" by auto
  have "ok \<Longrightarrow> \<exists>blk. sstr b = Some blk \<and> block_str blk = Some t"
    using b(2) assms(3,5) sbuf_str [of b t] by (cases "sstr b") (auto simp: sbuf_ok_def)
  then show ?thesis using b(1) assms(2) by (auto simp: adx_macro_replace_def)
qed

theorem adx_macro_replace_empty_witness:
  "\<exists>m'. adx_macro_replace (\<lambda>m n. Some (m + n)) (Some 0) (Some ''u=$P$'') (Some ''$P$'') (Some []) =
     Some (Some m', Some ''u=$P$'')"
  by (rule adx_macro_replace_empty) (simp_all add: alloc_total_def)

text \<open>
  \<open>adx_strstr\<close> returns the first position of the text at which the needle occurs, upper and lower
  case alike, and a null pointer exactly if there is none (or the needle is empty).
\<close>

theorem adx_strstr_first:
  assumes "n \<noteq> []"
  shows "(adx_strstr (Some s) (Some n) = Some r \<longleftrightarrow>
      (\<exists>p. s = p @ r \<and> r \<noteq> [] \<and> strncasecmp_eq r n \<and> (\<forall>i < length p. \<not> strncasecmp_eq (drop i s) n))) \<and>
     (adx_strstr (Some s) (Some n) = None \<longleftrightarrow> (\<forall>p r. s = p @ r \<longrightarrow> \<not> strncasecmp_eq r n))"
proof
  show "adx_strstr (Some s) (Some n) = Some r \<longleftrightarrow>
      (\<exists>p. s = p @ r \<and> r \<noteq> [] \<and> strncasecmp_eq r n \<and> (\<forall>i < length p. \<not> strncasecmp_eq (drop i s) n))"
    using assms strstr_loop_spec [of s n r] by (simp add: adx_strstr_def)
  have "strstr_loop s n = None \<longleftrightarrow> (\<forall>p r. s = p @ r \<longrightarrow> \<not> strncasecmp_eq r n)"
  proof (induction s)
    case Nil
    then show ?case using assms by (auto simp: strncasecmp_eq_def)
  next
    case (Cons c s)
    then show ?case by (auto simp: Cons_eq_append_conv)
  qed
  then show "adx_strstr (Some s) (Some n) = None \<longleftrightarrow> (\<forall>p r. s = p @ r \<longrightarrow> \<not> strncasecmp_eq r n)"
    using assms by (simp add: adx_strstr_def)
qed

theorem adx_strstr_first_witness:
  "adx_strstr (Some ''Mozilla Android'') (Some ''ANDR'') = Some ''Android''"
proof -
  have "''Mozilla Android'' = ''Mozilla '' @ ''Android'' \<and> ''Android'' \<noteq> [] \<and> strncasecmp_eq ''Android'' ''ANDR'' \<and>
      (\<forall>i < length ''Mozilla ''. \<not> strncasecmp_eq (drop i ''Mozilla Android'') ''ANDR'')"
    by code_simp
  then show ?thesis using adx_strstr_first [of "''ANDR''" "''Mozilla Android''" "''Android''"] by blast
qed

text \<open>
  The calls of \<open>adx_strtok\<close> on a text, the first with the text and the others with a null pointer,
  until it returns a null pointer: they yield exactly the fields of the text between the
  delimiters, the empty ones included, in order, and they end.
\<close>

theorem adx_strtok_fields: "strtok_all s ch = split_on ch s"
  by (rule strtok_all_split)

text \<open>
  \<open>adx_except_ceil\<close> rounds the quotient up: for positive numbers it is the least number of parts
  of size \<open>y\<close> that hold \<open>x\<close>, that is, these parts hold \<open>x\<close> and one part fewer does not.
\<close>

theorem adx_except_ceil_least:
  assumes "0 < y" "0 < x"
  shows "x \<le> adx_except_ceil x y * y \<and> (adx_except_ceil x y - 1) * y < x"
proof -
  have "- ((- x) div y) * y = x + (- x) mod y" by (simp add: minus_div_mult_eq_mod [symmetric] algebra_simps)
  moreover have "0 \<le> (- x) mod y" "(- x) mod y < y" using assms(1) by simp_all
  ultimately show ?thesis using assms by (auto simp: adx_except_ceil_def algebra_simps)
qed

theorem adx_except_ceil_least_witness:
  "(7::int) \<le> adx_except_ceil 7 2 * 2 \<and> (adx_except_ceil 7 2 - 1) * 2 < 7"
  by (rule adx_except_ceil_least) simp_all

lemma chain_copy_concat: "chain_copy s chain = s @ concat chain"
  by (induction chain arbitrary: s) auto

lemma chain_len_concat: "adx_chain_len chain = length (concat chain)"
proof -
  have "foldl (\<lambda>len buf. len + length buf) n chain = n + length (concat chain)" for n
    by (induction chain arbitrary: n) auto
  then show ?thesis by (simp add: adx_chain_len_def)
qed

text \<open>
  Buffer chains: a chain made by \<open>adx_chain_alloc\<close> from the bytes of a buffer is turned back into
  these bytes by \<open>adx_chain_to_str\<close>; in general the string is the concatenation of the buffers, and
  its length is what \<open>adx_chain_len\<close> counts.
\<close>

theorem adx_chain_round_trip:
  assumes "alloc_total alloc" "buf \<noteq> []"
  shows "\<exists>m1 chain m2. adx_chain_alloc_r alloc m (Some buf) = Some (m1, chain) \<and> adx_chain_len chain = length buf \<and>
     adx_chain_to_str alloc m1 chain = (m2, Some buf)"
proof -
  have al: "\<exists>m'. alloc m n = Some m'" for m n using assms(1) unfolding alloc_total_def by blast
  obtain m1 where m1: "alloc m SIZEOF_CHAIN = Some m1" using al by blast
  obtain m2 where m2: "alloc m1 SIZEOF_BUF = Some m2" using al by blast
  obtain m3 where m3: "alloc m2 (length buf) = Some m3" using al by blast
  obtain m4 where m4: "alloc m3 (length buf + 1) = Some m4" using al by blast
  show ?thesis
    using m1 m2 m3 m4 assms(2)
    by (simp add: adx_chain_alloc_r_def adx_chain_alloc_def adx_chain_to_str_def chain_copy_concat chain_len_concat)
qed

theorem adx_chain_round_trip_witness:
  "\<exists>m1 chain m2. adx_chain_alloc_r (\<lambda>m n. Some (m + n)) 0 (Some ''bid'') = Some (m1, chain) \<and>
     adx_chain_len chain = length ''bid'' \<and> adx_chain_to_str (\<lambda>m n. Some (m + n)) m1 chain = (m2, Some ''bid'')"
  by (rule adx_chain_round_trip) (simp_all add: alloc_total_def)

end
