(* ===== verification/Adx_Cache.thy ===== *)
theory Adx_Cache
  imports Adx_Json
begin

text \<open>
  The in-memory cache \<^verbatim>\<open>adx_cache.c\<close>: a tree of nodes, each with a key, a value, the list of its
  children and three indexes of the children, by string key, by number key and by position.

  The heap maps the address of a node to its record.  The child list is the list of the children's
  addresses; the three red-black trees are finite maps from keys to children, with the operations
  \<open>tree_add\<close> and \<open>tree_find\<close> that \<open>adx_rbtree_string_add\<close>, \<open>adx_rbtree_number_add\<close> and the two find
  functions are proved to refine (\<open>Adx_Rbtree_Delete\<close>).  All nodes of a cache share one pool; its
  allocation is a parameter that returns the new state of the pool and the address.
\<close>

section \<open>Model: values\<close>

text \<open>\<open>VUnset\<close> is the type 0 of a node that was just cleared.\<close>

datatype adx_cache_value_t =
  VUnset | VString string | VNumber int | VArray int | VNull | VError

definition adx_cache_value_string :: "string option \<Rightarrow> adx_cache_value_t" where
  "adx_cache_value_string k = (case k of None \<Rightarrow> VError | Some s \<Rightarrow> VString s)"

definition adx_cache_value_number :: "int \<Rightarrow> adx_cache_value_t" where
  "adx_cache_value_number k = VNumber k"

definition adx_cache_value_array :: "int \<Rightarrow> adx_cache_value_t" where
  "adx_cache_value_array k = VArray k"

definition adx_cache_value_null :: adx_cache_value_t where
  "adx_cache_value_null = VNull"

definition adx_cache_value_error :: adx_cache_value_t where
  "adx_cache_value_error = VError"

type_synonym 'm addr_alloc = "'m \<Rightarrow> nat \<Rightarrow> ('m \<times> addr) option"

definition adx_cache_value_copy :: "'m addr_alloc \<Rightarrow> 'm \<Rightarrow> adx_cache_value_t \<Rightarrow> 'm \<times> adx_cache_value_t" where
  "adx_cache_value_copy alloc m src =
     (case src of
        VString s \<Rightarrow>
          (case alloc m (length s + 1) of None \<Rightarrow> (m, adx_cache_value_error)
           | Some (m, _) \<Rightarrow> (m, adx_cache_value_string (Some s)))
      | _ \<Rightarrow> (m, src))"

section \<open>Model: nodes\<close>

record adx_cache_t =
  ckey :: adx_cache_value_t
  cval :: adx_cache_value_t
  cparent :: addr
  child_total :: int
  child_list :: "addr list"
  child_tree_string :: "string \<rightharpoonup> addr"
  child_tree_number :: "int \<rightharpoonup> addr"
  child_tree_array :: "int \<rightharpoonup> addr"

record 'm cache_mem =
  cheap :: "addr \<rightharpoonup> adx_cache_t"
  cpool :: 'm

abbreviation SIZEOF_CACHE :: nat where "SIZEOF_CACHE \<equiv> 208"

definition tree_add :: "('k \<rightharpoonup> addr) \<Rightarrow> 'k \<Rightarrow> addr \<Rightarrow> ('k \<rightharpoonup> addr)" where
  "tree_add t k p = (if t k = None then t(k \<mapsto> p) else t)"

definition tree_find :: "('k \<rightharpoonup> addr) \<Rightarrow> 'k \<Rightarrow> addr" where
  "tree_find t k = (case t k of None \<Rightarrow> NULL | Some p \<Rightarrow> p)"

definition new_cache :: adx_cache_t where
  "new_cache = \<lparr>ckey = VUnset, cval = VUnset, cparent = NULL, child_total = 0, child_list = [],
     child_tree_string = Map.empty, child_tree_number = Map.empty, child_tree_array = Map.empty\<rparr>"

definition adx_cache_create :: "'m addr_alloc \<Rightarrow> 'm cache_mem \<Rightarrow> 'm cache_mem \<times> addr" where
  "adx_cache_create alloc s =
     (case alloc (cpool s) SIZEOF_CACHE of None \<Rightarrow> (s, NULL)
      | Some (m, p) \<Rightarrow> (s\<lparr>cpool := m, cheap := (cheap s)(p \<mapsto> new_cache)\<rparr>, p))"

text \<open>\<open>None\<close> is a dangling pointer; the null pointer is the answer for a key that is not there.\<close>

definition adx_cache_find :: "'m cache_mem \<Rightarrow> addr \<Rightarrow> adx_cache_value_t \<Rightarrow> addr option" where
  "adx_cache_find s cache key =
     (if cache = NULL then Some NULL
      else do {
        c \<leftarrow> cheap s cache;
        Some (case key of
            VString k \<Rightarrow> tree_find (child_tree_string c) k
          | VNumber k \<Rightarrow> tree_find (child_tree_number c) k
          | VArray i \<Rightarrow> tree_find (child_tree_array c) i
          | _ \<Rightarrow> NULL) })"

text \<open>The part of \<open>adx_cache_add\<close> behind the checks: the node goes into the list and the indexes.\<close>

definition link_child :: "'m cache_mem \<Rightarrow> addr \<Rightarrow> addr \<Rightarrow> adx_cache_value_t \<Rightarrow> adx_cache_value_t \<Rightarrow> 'm cache_mem option" where
  "link_child s cache node key val = do {
     n \<leftarrow> cheap s node;
     let s = s\<lparr>cheap := (cheap s)(node \<mapsto> n\<lparr>ckey := key, cval := val, cparent := cache\<rparr>)\<rparr>;
     c \<leftarrow> cheap s cache;
     if child_total c \<ge> INT_MAX then None
     else Some (s\<lparr>cheap := (cheap s)(cache \<mapsto> c\<lparr>
       child_list := child_list c @ [node],
       child_total := child_total c + 1,
       child_tree_array := tree_add (child_tree_array c) (child_total c) node,
       child_tree_string := (case key of VString k \<Rightarrow> tree_add (child_tree_string c) k node | _ \<Rightarrow> child_tree_string c),
       child_tree_number := (case key of VNumber k \<Rightarrow> tree_add (child_tree_number c) k node | _ \<Rightarrow> child_tree_number c)\<rparr>)\<rparr>) }"

definition key_type_ok :: "adx_cache_value_t \<Rightarrow> bool" where
  "key_type_ok k = (case k of VString _ \<Rightarrow> True | VNumber _ \<Rightarrow> True | VArray _ \<Rightarrow> True | _ \<Rightarrow> False)"

definition val_type_ok :: "adx_cache_value_t \<Rightarrow> bool" where
  "val_type_ok v = (case v of VString _ \<Rightarrow> True | VNumber _ \<Rightarrow> True | VNull \<Rightarrow> True | _ \<Rightarrow> False)"

definition adx_cache_add ::
    "'m addr_alloc \<Rightarrow> 'm cache_mem \<Rightarrow> addr \<Rightarrow> adx_cache_value_t \<Rightarrow> adx_cache_value_t \<Rightarrow> ('m cache_mem \<times> addr) option" where
  "adx_cache_add alloc s cache key val =
     (if cache = NULL then Some (s, NULL)
      else if key = VError \<or> val = VError then Some (s, NULL)
      else do {
        node \<leftarrow> (case key of VString _ \<Rightarrow> adx_cache_find s cache key | VNumber _ \<Rightarrow> adx_cache_find s cache key | _ \<Rightarrow> Some NULL);
        if node \<noteq> NULL then Some (s, node)
        else let (s, node) = adx_cache_create alloc s in
          if node = NULL then Some (s, NULL)
          else if \<not> key_type_ok key then Some (s, NULL)
          else let (m, k) = adx_cache_value_copy alloc (cpool s) key; s = s\<lparr>cpool := m\<rparr> in
            if \<not> val_type_ok val then Some (s, NULL)
            else let (m, v) = adx_cache_value_copy alloc (cpool s) val; s = s\<lparr>cpool := m\<rparr> in
              if k = VError \<or> v = VError then Some (s, NULL)
              else do { s \<leftarrow> link_child s cache node k v; Some (s, node) } })"

definition adx_cache_array_add where
  "adx_cache_array_add alloc s cache val = adx_cache_add alloc s cache (adx_cache_value_array 0) val"

text \<open>The variable arguments are a list; reading behind its end is \<open>None\<close>.\<close>

fun adx_cache_find_args :: "'m cache_mem \<Rightarrow> addr \<Rightarrow> adx_cache_value_t list \<Rightarrow> addr option" where
  "adx_cache_find_args s cache [] = None"
| "adx_cache_find_args s cache (key # keys) =
     (if key_type_ok key then do {
        cache \<leftarrow> adx_cache_find s cache key;
        if cache \<noteq> NULL then adx_cache_find_args s cache keys else Some NULL }
      else if key = VNull then Some cache
      else Some NULL)"

definition adx_cache_child_check :: "'m cache_mem \<Rightarrow> addr \<Rightarrow> int option" where
  "adx_cache_child_check s cache =
     (if cache = NULL then Some (-1)
      else do { c \<leftarrow> cheap s cache; Some (if child_list c = [] then -1 else 0) })"

definition adx_cache_find_array :: "'m cache_mem \<Rightarrow> addr \<Rightarrow> int \<Rightarrow> addr option" where
  "adx_cache_find_array s cache index =
     (if cache = NULL then Some NULL
      else do {
        c \<leftarrow> cheap s cache;
        if child_total c \<le> 0 then Some NULL
        else adx_cache_find s cache (adx_cache_value_array index) })"

definition adx_cache_find_array_loop :: "'m cache_mem \<Rightarrow> addr \<Rightarrow> int \<Rightarrow> addr option" where
  "adx_cache_find_array_loop s cache index =
     (if cache = NULL then Some NULL
      else do {
        c \<leftarrow> cheap s cache;
        if child_total c \<le> 0 then Some NULL
        else let index = (if index > child_total c then index mod child_total c else index) in
          adx_cache_find s cache (adx_cache_value_array index) })"

definition adx_cache_find_array_lenght :: "'m cache_mem \<Rightarrow> addr \<Rightarrow> int option" where
  "adx_cache_find_array_lenght s cache = do {
     r \<leftarrow> adx_cache_child_check s cache;
     if r \<noteq> 0 then Some 0 else do { c \<leftarrow> cheap s cache; Some (child_total c) } }"

text \<open>The value \<open>r\<close> of \<^verbatim>\<open>rand()\<close> is not negative.\<close>

definition adx_cache_rand :: "'m cache_mem \<Rightarrow> nat \<Rightarrow> addr \<Rightarrow> addr option" where
  "adx_cache_rand s r cache =
     (if cache = NULL then Some NULL
      else do {
        c \<leftarrow> cheap s cache;
        if child_total c \<le> 0 then Some NULL
        else adx_cache_find s cache (adx_cache_value_array (int r mod child_total c)) })"

section \<open>Model: output\<close>

definition adx_cache_to_string :: "'m cache_mem \<Rightarrow> addr \<Rightarrow> string option option" where
  "adx_cache_to_string s cache =
     (if cache = NULL then Some None
      else do { c \<leftarrow> cheap s cache; Some (case cval c of VString v \<Rightarrow> Some v | _ \<Rightarrow> None) })"

definition adx_cache_to_number :: "'m cache_mem \<Rightarrow> addr \<Rightarrow> int option" where
  "adx_cache_to_number s cache =
     (if cache = NULL then Some 0
      else do { c \<leftarrow> cheap s cache; Some (case cval c of VNumber v \<Rightarrow> v | _ \<Rightarrow> 0) })"

definition adx_cache_value_to_string :: "adx_cache_value_t \<Rightarrow> string option" where
  "adx_cache_value_to_string v = (case v of VString s \<Rightarrow> Some s | _ \<Rightarrow> None)"

definition adx_cache_value_to_number :: "adx_cache_value_t \<Rightarrow> int" where
  "adx_cache_value_to_number v = (case v of VNumber n \<Rightarrow> n | _ \<Rightarrow> 0)"

definition adx_cache_to_key :: "'m cache_mem \<Rightarrow> addr \<Rightarrow> adx_cache_value_t option" where
  "adx_cache_to_key s cache =
     (if cache = NULL then Some (adx_cache_value_string None) else do { c \<leftarrow> cheap s cache; Some (ckey c) })"

definition adx_cache_to_val :: "'m cache_mem \<Rightarrow> addr \<Rightarrow> adx_cache_value_t option" where
  "adx_cache_to_val s cache =
     (if cache = NULL then Some (adx_cache_value_string None) else do { c \<leftarrow> cheap s cache; Some (cval c) })"

section \<open>Model: splice\<close>

text \<open>
  The loop over the children reads the list as it goes: a child that is added to \<open>src\<close> meanwhile is
  visited too.  \<open>i\<close> is the number of children visited.  \<open>None\<close> is also a loop that does not end.
\<close>

partial_function (option) splice_loop ::
    "'m addr_alloc \<Rightarrow> 'm cache_mem \<Rightarrow> addr \<Rightarrow> addr \<Rightarrow> addr \<Rightarrow> nat \<Rightarrow> ('m cache_mem \<times> int) option" where
  "splice_loop alloc s root dest src i = do {
     c \<leftarrow> cheap s src;
     if i < length (child_list c) then do {
       let node = child_list c ! i;
       n \<leftarrow> cheap s node;
       (s, new) \<leftarrow> adx_cache_add alloc s dest (ckey n) (cval n);
       if new = NULL then Some (s, -1)
       else do {
         chk \<leftarrow> adx_cache_child_check s node;
         (s, _) \<leftarrow> (if chk \<noteq> 0 then Some (s, 0) else if root = node then Some (s, 0)
           else splice_loop alloc s root new node 0);
         splice_loop alloc s root dest src (i + 1) } }
     else Some (s, 0) }"

definition adx_cache_splice_r ::
    "'m addr_alloc \<Rightarrow> 'm cache_mem \<Rightarrow> addr \<Rightarrow> addr \<Rightarrow> addr \<Rightarrow> ('m cache_mem \<times> int) option" where
  "adx_cache_splice_r alloc s root dest src =
     (if dest = NULL \<or> src = NULL then Some (s, -1)
      else do {
        chk \<leftarrow> adx_cache_child_check s src;
        if chk \<noteq> 0 then Some (s, 0) else if root = src then Some (s, 0) else splice_loop alloc s root dest src 0 })"

definition adx_cache_splice where
  "adx_cache_splice alloc s dest src = adx_cache_splice_r alloc s dest dest src"

section \<open>Model: from JSON\<close>

definition adx_cache_from_json_value ::
    "'m addr_alloc \<Rightarrow> 'm cache_mem \<Rightarrow> addr \<Rightarrow> adx_json_t \<Rightarrow> ('m cache_mem \<times> int) option" where
  "adx_cache_from_json_value alloc s cache json =
     (if jtype json \<in> {JSON_OBJECT, JSON_ARRAY, JSON_EMPTY} then Some (s, -1)
      else let value = (case jval json of None \<Rightarrow> adx_cache_value_null
               | Some v \<Rightarrow> if jtype json = JSON_NUMBER then adx_cache_value_number (sint (atoi v))
                  else adx_cache_value_string (Some v)) in
        if value = VError then Some (s, -1)
        else case jkey json of
          Some k \<Rightarrow> do { (s, _) \<leftarrow> adx_cache_add alloc s cache (adx_cache_value_string (Some k)) value; Some (s, 0) }
        | None \<Rightarrow>
            if jval json \<noteq> None then do { (s, _) \<leftarrow> adx_cache_array_add alloc s cache value; Some (s, 0) }
            else Some (s, 0))"

text \<open>The first line of \<open>adx_cache_from_json\<close> and \<open>adx_cache_from_json_value_array\<close>.\<close>

definition json_node ::
    "'m addr_alloc \<Rightarrow> 'm cache_mem \<Rightarrow> addr \<Rightarrow> adx_json_t \<Rightarrow> ('m cache_mem \<times> addr) option" where
  "json_node alloc s cache json =
     (case jkey json of None \<Rightarrow> Some (s, cache)
      | Some k \<Rightarrow> adx_cache_add alloc s cache (adx_cache_value_string (Some k)) adx_cache_value_null)"

text \<open>
  The recursion of the two functions over the JSON tree (for a null \<open>json\<close> the function returns
  \<open>-1\<close> at once; the model starts behind that test); \<open>json_members\<close> and \<open>json_elements\<close> are their
  loops over the children.  The object loop ignores results, the array loop returns an error.
\<close>

fun adx_cache_from_json ::
      "'m addr_alloc \<Rightarrow> 'm cache_mem \<Rightarrow> addr \<Rightarrow> adx_json_t \<Rightarrow> ('m cache_mem \<times> int) option"
  and adx_cache_from_json_value_array ::
      "'m addr_alloc \<Rightarrow> 'm cache_mem \<Rightarrow> addr \<Rightarrow> adx_json_t \<Rightarrow> ('m cache_mem \<times> int) option"
  and json_members :: "'m addr_alloc \<Rightarrow> 'm cache_mem \<Rightarrow> addr \<Rightarrow> adx_json_t list \<Rightarrow> ('m cache_mem \<times> int) option"
  and json_elements :: "'m addr_alloc \<Rightarrow> 'm cache_mem \<Rightarrow> addr \<Rightarrow> adx_json_t list \<Rightarrow> ('m cache_mem \<times> int) option"
where
  "adx_cache_from_json alloc s cache (Json ty k v n kids) = do {
     (s, cache) \<leftarrow> json_node alloc s cache (Json ty k v n kids);
     json_members alloc s cache kids }"
| "adx_cache_from_json_value_array alloc s cache (Json ty k v n kids) = do {
     (s, cache) \<leftarrow> json_node alloc s cache (Json ty k v n kids);
     json_elements alloc s cache kids }"
| "json_members alloc s cache [] = Some (s, 0)"
| "json_members alloc s cache (j # js) = do {
     (s, _) \<leftarrow> (if jtype j = JSON_OBJECT then adx_cache_from_json alloc s cache j
        else if jtype j = JSON_ARRAY then adx_cache_from_json_value_array alloc s cache j
        else if jtype j \<in> {JSON_STRING, JSON_NUMBER, JSON_BOOL, JSON_NULL} then adx_cache_from_json_value alloc s cache j
        else Some (s, 0));
     json_members alloc s cache js }"
| "json_elements alloc s cache [] = Some (s, 0)"
| "json_elements alloc s cache (j # js) = do {
     (s, ret) \<leftarrow> (if jtype j = JSON_OBJECT \<or> jtype j = JSON_ARRAY then do {
          (s, node) \<leftarrow> adx_cache_array_add alloc s cache adx_cache_value_null;
          adx_cache_from_json alloc s node j }
        else if jtype j \<in> {JSON_STRING, JSON_NUMBER, JSON_BOOL, JSON_NULL} then adx_cache_from_json_value alloc s cache j
        else Some (s, 0));
     if ret \<noteq> 0 then Some (s, ret) else json_elements alloc s cache js }"

definition adx_cache_from_json_string ::
    "'m addr_alloc \<Rightarrow> 'm cache_mem \<Rightarrow> addr \<Rightarrow> adx_json_t option \<Rightarrow> ('m cache_mem \<times> int) option" where
  "adx_cache_from_json_string alloc s cache json =
     (case json of None \<Rightarrow> Some (s, -1)
      | Some j \<Rightarrow>
        if jtype j = JSON_STRING then do {
          (s, _) \<leftarrow> adx_cache_add alloc s cache (adx_cache_value_string (jkey j)) (adx_cache_value_string (jval j));
          Some (s, 0) }
        else Some (s, -1))"

definition adx_cache_from_json_number ::
    "'m addr_alloc \<Rightarrow> 'm cache_mem \<Rightarrow> addr \<Rightarrow> adx_json_t option \<Rightarrow> ('m cache_mem \<times> int) option" where
  "adx_cache_from_json_number alloc s cache json =
     (case json of None \<Rightarrow> Some (s, -1)
      | Some j \<Rightarrow>
        if jtype j = JSON_NUMBER then do {
          v \<leftarrow> jval j;
          (s, _) \<leftarrow> adx_cache_add alloc s cache (adx_cache_value_string (jkey j)) (adx_cache_value_number (sint (atoi v)));
          Some (s, 0) }
        else Some (s, -1))"

fun json_values :: "'m addr_alloc \<Rightarrow> 'm cache_mem \<Rightarrow> addr \<Rightarrow> adx_json_t list \<Rightarrow> ('m cache_mem \<times> int) option" where
  "json_values alloc s cache [] = Some (s, 0)"
| "json_values alloc s cache (j # js) = do {
     (s, _) \<leftarrow> adx_cache_from_json_value alloc s cache j;
     json_values alloc s cache js }"

definition adx_cache_from_json_array ::
    "'m addr_alloc \<Rightarrow> 'm cache_mem \<Rightarrow> addr \<Rightarrow> adx_json_t option \<Rightarrow> ('m cache_mem \<times> int) option" where
  "adx_cache_from_json_array alloc s cache json =
     (if adx_json_array_check json \<noteq> 0 then Some (s, -1)
      else do {
        (s, cache) \<leftarrow> adx_cache_add alloc s cache (adx_cache_value_string (jkey (the json))) adx_cache_value_null;
        json_values alloc s cache (child (the json)) })"

end
