(* ===== verification/Adx_Cache_Tree.thy ===== *)
theory Adx_Cache_Tree
  imports Adx_Cache Adx_Alloc
begin

text \<open>
  What the cache of \<open>Adx_Cache\<close> holds: a tree of nodes with their addresses, keys and values.  The
  invariant \<open>cache_rep\<close> says that the records on the heap, with their child lists, counters, parent
  pointers and the three indexes, are exactly those of the tree; every operation keeps it and acts
  on the tree as specified.
\<close>

section \<open>Trees and their representation\<close>

datatype ctree = CT (caddr: addr) (tkey: adx_cache_value_t) (tval: adx_cache_value_t) (kids: "ctree list")

fun addrs :: "ctree \<Rightarrow> addr list" where
  "addrs (CT a k v ts) = a # concat (map addrs ts)"

fun subs :: "ctree \<Rightarrow> ctree list" where
  "subs (CT a k v ts) = CT a k v ts # concat (map subs ts)"

text \<open>The child with a given key, and the child at a position.\<close>

definition kid_with :: "ctree list \<Rightarrow> adx_cache_value_t \<Rightarrow> addr option" where
  "kid_with ts k = map_option caddr (find (\<lambda>t. tkey t = k) ts)"

definition kid_at :: "ctree list \<Rightarrow> int \<Rightarrow> addr option" where
  "kid_at ts i = (if 0 \<le> i \<and> i < int (length ts) then Some (caddr (ts ! nat i)) else None)"

definition node_of :: "addr \<Rightarrow> adx_cache_value_t \<Rightarrow> adx_cache_value_t \<Rightarrow> ctree list \<Rightarrow> adx_cache_t" where
  "node_of parent k v ts = \<lparr>ckey = k, cval = v, cparent = parent, child_total = int (length ts),
     child_list = map caddr ts, child_tree_string = (\<lambda>s. kid_with ts (VString s)),
     child_tree_number = (\<lambda>n. kid_with ts (VNumber n)), child_tree_array = kid_at ts\<rparr>"

fun crep :: "(addr \<rightharpoonup> adx_cache_t) \<Rightarrow> addr \<Rightarrow> ctree \<Rightarrow> bool" where
  "crep h parent (CT a k v ts) \<longleftrightarrow> a \<noteq> NULL \<and> h a = Some (node_of parent k v ts) \<and> list_all (crep h a) ts"

text \<open>A new child at the end of the children of the node with address \<open>a\<close>.\<close>

fun graft :: "addr \<Rightarrow> ctree \<Rightarrow> ctree \<Rightarrow> ctree" where
  "graft a n (CT b k v ts) = CT b k v (if a = b then ts @ [n] else map (graft a n) ts)"

lemma crep_cong: "(\<And>x. x \<in> set (addrs t) \<Longrightarrow> h' x = h x) \<Longrightarrow> crep h' parent t = crep h parent t"
proof (induction t arbitrary: parent)
  case (CT a k v ts)
  have "crep h' a u = crep h a u" if "u \<in> set ts" for u using CT.IH [OF that] CT.prems that by auto
  then have "list_all (crep h' a) ts = list_all (crep h a) ts" by (simp add: list_all_iff)
  moreover have "h' a = h a" using CT.prems by simp
  ultimately show ?case by simp
qed

lemma graft_id: "a \<notin> set (addrs t) \<Longrightarrow> graft a n t = t"
  by (induction t) (auto simp: map_idI)

lemma graft_sel [simp]: "caddr (graft a n t) = caddr t" "tkey (graft a n t) = tkey t" "tval (graft a n t) = tval t"
  by (cases t; simp)+

lemma kid_with_graft [simp]: "kid_with (map (graft a n) ts) k = kid_with ts k"
  by (induction ts) (auto simp: kid_with_def)

lemma kid_at_graft [simp]: "kid_at (map (graft a n) ts) = kid_at ts"
  by (auto simp: kid_at_def fun_eq_iff)

lemma node_of_graft [simp]: "node_of parent k v (map (graft a n) ts) = node_of parent k v ts"
  by (simp add: node_of_def comp_def)

lemma caddr_in_addrs [simp]: "caddr t \<in> set (addrs t)"
  by (cases t) simp

lemma subs_addrs: "u \<in> set (subs t) \<Longrightarrow> set (addrs u) \<subseteq> set (addrs t)"
  by (induction t) fastforce

lemma subs_caddr: "u \<in> set (subs t) \<Longrightarrow> caddr u \<in> set (addrs t)"
  using subs_addrs caddr_in_addrs by blast

lemma crep_subs: "crep h parent t \<Longrightarrow> u \<in> set (subs t) \<Longrightarrow> \<exists>par. crep h par u"
proof (induction t arbitrary: parent)
  case (CT a k v ts)
  show ?case
  proof (cases "u = CT a k v ts")
    case False
    then obtain w where "w \<in> set ts" "u \<in> set (subs w)" using CT.prems(2) by auto
    then show ?thesis using CT.IH [of w a] CT.prems(1) by (auto simp: list_all_iff)
  qed (use CT.prems in blast)
qed

lemma crep_node:
  assumes "crep h parent t" "u \<in> set (subs t)"
  obtains par where "caddr u \<noteq> NULL" "h (caddr u) = Some (node_of par (tkey u) (tval u) (kids u))"
proof -
  obtain par where "crep h par u" using crep_subs [OF assms] by blast
  then show thesis using that by (cases u) auto
qed

text \<open>Appending a child to the lists and indexes of a node.\<close>

lemma kid_with_append: "kid_with (ts @ [n]) k = (case kid_with ts k of None \<Rightarrow> if tkey n = k then Some (caddr n) else None | Some p \<Rightarrow> Some p)"
  by (induction ts) (auto simp: kid_with_def)

lemma kid_at_append: "kid_at (ts @ [n]) = (kid_at ts)(int (length ts) \<mapsto> caddr n)"
  by (auto simp: kid_at_def fun_eq_iff nth_append)

lemma tree_add_kid:
  "tree_add (\<lambda>s. kid_with ts (VString s)) k p = (\<lambda>s. kid_with (ts @ [CT p (VString k) v []]) (VString s))"
  "tree_add (\<lambda>n. kid_with ts (VNumber n)) i p = (\<lambda>n. kid_with (ts @ [CT p (VNumber i) v []]) (VNumber n))"
  "tree_add (kid_at ts) (int (length ts)) p = kid_at (ts @ [CT p key v []])"
  by (auto simp: tree_add_def kid_with_append kid_at_append fun_eq_iff split: option.splits)
    (auto simp: kid_at_def)

lemma node_of_append:
  "node_of parent k v (ts @ [CT p key val []]) = (node_of parent k v ts)\<lparr>
     child_list := child_list (node_of parent k v ts) @ [p],
     child_total := child_total (node_of parent k v ts) + 1,
     child_tree_array := tree_add (child_tree_array (node_of parent k v ts)) (child_total (node_of parent k v ts)) p,
     child_tree_string := (case key of VString x \<Rightarrow> tree_add (child_tree_string (node_of parent k v ts)) x p
        | _ \<Rightarrow> child_tree_string (node_of parent k v ts)),
     child_tree_number := (case key of VNumber x \<Rightarrow> tree_add (child_tree_number (node_of parent k v ts)) x p
        | _ \<Rightarrow> child_tree_number (node_of parent k v ts))\<rparr>"
  by (cases key) (auto simp: node_of_def tree_add_kid(1) [of _ _ _ val] tree_add_kid(2) [of _ _ _ val]
      tree_add_kid(3) [of _ _ key val] kid_with_append fun_eq_iff split: option.splits)

lemma crep_graft:
  assumes "h' p = Some (node_of a (tkey n) (tval n) (kids n))" "caddr n = p" "p \<noteq> NULL" "kids n = []"
  shows "crep h parent t \<Longrightarrow> distinct (addrs t) \<Longrightarrow> p \<notin> set (addrs t) \<Longrightarrow>
    (\<And>x. x \<in> set (addrs t) \<Longrightarrow> x \<noteq> a \<Longrightarrow> h' x = h x) \<Longrightarrow>
    (\<And>b par k v ts. b = a \<Longrightarrow> h b = Some (node_of par k v ts) \<Longrightarrow> h' a = Some (node_of par k v (ts @ [n]))) \<Longrightarrow>
    crep h' parent (graft a n t)"
proof (induction t arbitrary: parent)
  case (CT b k v ts)
  have leaf: "crep h' a n" using assms by (cases n) auto
  show ?case
  proof (cases "a = b")
    case True
    have "crep h' b u" if "u \<in> set ts" for u
    proof -
      have "crep h' b u = crep h b u"
        using CT.prems(2,4) that True by (intro crep_cong) auto
      then show ?thesis using CT.prems(1) that by (auto simp: list_all_iff)
    qed
    then show ?thesis using CT.prems(1) CT.prems(5) [of b parent k v ts] True leaf by (auto simp: list_all_iff)
  next
    case False
    have "crep h' b (graft a n u)" if u: "u \<in> set ts" for u
    proof (rule CT.IH [OF u])
      show "crep h b u" using CT.prems(1) u by (auto simp: list_all_iff)
      show "distinct (addrs u)" using CT.prems(2) u by (auto simp: distinct_concat_iff)
      show "p \<notin> set (addrs u)" using CT.prems(3) u by auto
    qed (use CT.prems(4,5) u in auto)
    then show ?thesis using False CT.prems(1,4) by (auto simp: list_all_iff)
  qed
qed

lemma addrs_graft: "set (addrs (graft a n t)) \<subseteq> set (addrs n) \<union> set (addrs t)"
  by (induction t) (auto split: if_splits)

lemma addrs_graft_new: "a \<in> set (addrs t) \<Longrightarrow> set (addrs (graft a n t)) = set (addrs n) \<union> set (addrs t)"
proof (induction t)
  case (CT b k v ts)
  show ?case
  proof (cases "a = b")
    case False
    then obtain u where u: "u \<in> set ts" "a \<in> set (addrs u)" using CT.prems by auto
    have sub: "set (addrs w) \<subseteq> set (addrs (graft a n w))" if "w \<in> set ts" for w
      using CT.IH [OF that] by (cases "a \<in> set (addrs w)") (auto simp: graft_id)
    show ?thesis
    proof (intro equalityI addrs_graft Un_least)
      show "set (addrs n) \<subseteq> set (addrs (graft a n (CT b k v ts)))" using CT.IH [OF u] u(1) False by auto
      show "set (addrs (CT b k v ts)) \<subseteq> set (addrs (graft a n (CT b k v ts)))" using sub False by fastforce
    qed
  qed auto
qed

lemma distinct_graft:
  assumes "distinct (addrs n)"
  shows "distinct (addrs t) \<Longrightarrow> set (addrs n) \<inter> set (addrs t) = {} \<Longrightarrow> distinct (addrs (graft a n t))"
proof (induction t)
  case (CT b k v ts)
  show ?case
  proof (cases "a = b")
    case False
    have "distinct (concat (map addrs (map (graft a n) ts)))"
      using CT
    proof (induction ts)
      case (Cons u us)
      have d: "distinct (addrs (graft a n u))" using Cons.prems by auto
      have IH: "distinct (concat (map addrs (map (graft a n) us)))"
        using Cons.prems by (intro Cons.IH) auto
      have "set (addrs (graft a n u)) \<inter> set (concat (map addrs (map (graft a n) us))) = {}"
      proof (cases "a \<in> set (addrs u)")
        case True
        then have "\<forall>w \<in> set us. graft a n w = w" using Cons.prems(2) by (auto intro!: graft_id)
        then have "map (graft a n) us = us" by (simp add: map_idI)
        then show ?thesis using Cons.prems(2,3) addrs_graft [of a n u] by fastforce
      next
        case False
        have "set (concat (map addrs (map (graft a n) us))) \<subseteq> set (addrs n) \<union> set (concat (map addrs us))"
          using addrs_graft by fastforce
        moreover have "set (addrs u) \<inter> set (addrs n) = {}" "set (addrs u) \<inter> set (concat (map addrs us)) = {}"
          using Cons.prems(2,3) by auto
        ultimately show ?thesis unfolding graft_id [OF False] by blast
      qed
      then show ?case using d IH by simp
    qed simp
    moreover have "b \<notin> set (concat (map addrs (map (graft a n) ts)))"
      using CT.prems addrs_graft by fastforce
    ultimately show ?thesis using False by simp
  qed (use CT.prems assms in auto)
qed

definition is_array :: "adx_cache_value_t \<Rightarrow> bool" where
  "is_array k = (case k of VArray _ \<Rightarrow> True | _ \<Rightarrow> False)"

section \<open>What the pool promises\<close>

definition cache_rep :: "('m \<Rightarrow> bool) \<Rightarrow> ('m \<Rightarrow> addr set) \<Rightarrow> 'm cache_mem \<Rightarrow> ctree \<Rightarrow> bool" where
  "cache_rep ok live s t \<longleftrightarrow> ok (cpool s) \<and> set (addrs t) \<subseteq> live (cpool s) \<and> crep (cheap s) NULL t \<and> distinct (addrs t)"

lemma find_node:
  assumes "crep (cheap s) NULL t" "u \<in> set (subs t)"
  shows "adx_cache_find s (caddr u) key = Some (case key of
      VString _ \<Rightarrow> (case kid_with (kids u) key of None \<Rightarrow> NULL | Some p \<Rightarrow> p)
    | VNumber _ \<Rightarrow> (case kid_with (kids u) key of None \<Rightarrow> NULL | Some p \<Rightarrow> p)
    | VArray i \<Rightarrow> (case kid_at (kids u) i of None \<Rightarrow> NULL | Some p \<Rightarrow> p)
    | _ \<Rightarrow> NULL)"
  by (rule crep_node [OF assms])
    (cases key; simp add: adx_cache_find_def node_of_def tree_find_def)

lemma kid_not_null:
  assumes "crep h parent (CT a k v ts)" "kid_with ts key = Some p"
  shows "p \<noteq> NULL"
proof -
  obtain u where u: "find (\<lambda>t. tkey t = key) ts = Some u" "p = caddr u" using assms(2) by (auto simp: kid_with_def)
  then have "u \<in> set ts" by (auto simp: find_Some_iff)
  then have "crep h a u" using assms(1) by (auto simp: list_all_iff)
  then show ?thesis using u(2) by (cases u) auto
qed

locale node_allocator =
  fixes alloc :: "'m addr_alloc" and ok :: "'m \<Rightarrow> bool" and live :: "'m \<Rightarrow> addr set"
  assumes alloc_fresh: "ok m \<Longrightarrow> alloc m n = Some (m', p) \<Longrightarrow>
    ok m' \<and> p \<noteq> NULL \<and> p \<notin> live m \<and> live m' = insert p (live m)"
begin

lemma value_copy:
  assumes "ok m" "adx_cache_value_copy alloc m v = (m', v')"
  shows "ok m'" "live m \<subseteq> live m'" "v' = v \<or> v' = VError"
  using assms alloc_fresh
  by (auto simp: adx_cache_value_copy_def adx_cache_value_error_def adx_cache_value_string_def
      split: adx_cache_value_t.splits option.splits; fastforce)+

text \<open>A new node that is not entered anywhere leaves the tree as it is.\<close>

lemma rep_extend:
  assumes "cache_rep ok live s t" "ok m" "live (cpool s) \<subseteq> live m" "\<And>x. x \<in> live (cpool s) \<Longrightarrow> h x = cheap s x"
  shows "cache_rep ok live (s\<lparr>cheap := h, cpool := m\<rparr>) t"
proof -
  have "crep h NULL t = crep (cheap s) NULL t" using assms(1,4) by (intro crep_cong) (auto simp: cache_rep_def)
  then show ?thesis using assms by (auto simp: cache_rep_def)
qed

lemma link_child_rep:
  assumes rep: "cache_rep ok live s t" and u: "u \<in> set (subs t)" and p: "p \<noteq> NULL" "p \<notin> set (addrs t)" "p \<in> live m"
    and m: "ok m" "live (cpool s) \<subseteq> live m" and small: "int (length (kids u)) < INT_MAX"
  shows "\<exists>s'. link_child (s\<lparr>cheap := (cheap s)(p \<mapsto> new_cache), cpool := m\<rparr>) (caddr u) p key val = Some s' \<and>
    cache_rep ok live s' (graft (caddr u) (CT p key val []) t)"
proof -
  let ?a = "caddr u" and ?n = "CT p key val []"
  have c: "crep (cheap s) NULL t" "distinct (addrs t)" "set (addrs t) \<subseteq> live (cpool s)" using rep by (auto simp: cache_rep_def)
  obtain par where par: "?a \<noteq> NULL" "cheap s ?a = Some (node_of par (tkey u) (tval u) (kids u))"
    by (rule crep_node [OF c(1) u])
  have a: "?a \<in> set (addrs t)" "?a \<noteq> p" using subs_caddr [OF u] p(2) by auto
  let ?leaf = "new_cache\<lparr>ckey := key, cval := val, cparent := ?a\<rparr>"
  define h where "h = (cheap s)(p \<mapsto> ?leaf, ?a \<mapsto> node_of par (tkey u) (tval u) (kids u @ [?n]))"
  have leaf: "?leaf = node_of ?a key val []"
    by (simp add: new_cache_def node_of_def kid_with_def kid_at_def fun_eq_iff)
  have link: "link_child (s\<lparr>cheap := (cheap s)(p \<mapsto> new_cache), cpool := m\<rparr>) ?a p key val = Some (s\<lparr>cheap := h, cpool := m\<rparr>)"
    using a(2) par(2) small unfolding node_of_append h_def
    by (cases key) (simp_all add: link_child_def node_of_def fun_upd_twist)
  have "crep h NULL (graft ?a ?n t)"
  proof (rule crep_graft [OF _ _ p(1) _ c(1,2) p(2)])
    show "h p = Some (node_of ?a (tkey ?n) (tval ?n) (kids ?n))" using a(2) leaf by (simp add: h_def)
    show "h x = cheap s x" if "x \<in> set (addrs t)" "x \<noteq> ?a" for x using that p(2) by (auto simp: h_def)
    show "h ?a = Some (node_of par' k v (ts @ [?n]))" if "b = ?a" "cheap s b = Some (node_of par' k v ts)" for b par' k v ts
    proof -
      have eq: "node_of par (tkey u) (tval u) (kids u) = node_of par' k v ts" using that par(2) by simp
      show ?thesis unfolding h_def node_of_append eq by simp
    qed
  qed simp_all
  moreover have "set (addrs (graft ?a ?n t)) \<subseteq> live m" using addrs_graft [of ?a ?n t] p(3) m(2) c(3) by fastforce
  moreover have "distinct (addrs (graft ?a ?n t))" using distinct_graft [of ?n t ?a] c(2) p(2) by simp
  ultimately show ?thesis using link m(1) by (auto simp: cache_rep_def)
qed

text \<open>
  \<open>adx_cache_add\<close> on a node of the tree: an existing child with the key is returned as it is;
  otherwise a new child is appended, or nothing changes when memory runs out.
\<close>

lemma add_spec:
  assumes rep: "cache_rep ok live s t" and u: "u \<in> set (subs t)" and kv: "key_type_ok key" "val_type_ok val"
    and small: "int (length (kids u)) < INT_MAX"
  obtains (found) p where "\<forall>i. key \<noteq> VArray i" "kid_with (kids u) key = Some p" "adx_cache_add alloc s (caddr u) key val = Some (s, p)"
  | (full) s' where "(\<exists>i. key = VArray i) \<or> kid_with (kids u) key = None" "adx_cache_add alloc s (caddr u) key val = Some (s', NULL)" "cache_rep ok live s' t"
  | (added) s' p where "(\<exists>i. key = VArray i) \<or> kid_with (kids u) key = None"
      "adx_cache_add alloc s (caddr u) key val = Some (s', p)" "p \<noteq> NULL" "p \<notin> set (addrs t)"
      "cache_rep ok live s' (graft (caddr u) (CT p key val []) t)"
proof -
  let ?a = "caddr u"
  have c: "crep (cheap s) NULL t" "ok (cpool s)" "set (addrs t) \<subseteq> live (cpool s)" using rep by (auto simp: cache_rep_def)
  obtain par where par: "crep (cheap s) par u" using crep_subs [OF c(1) u] by blast
  have a: "?a \<noteq> NULL" using par by (cases u) auto
  have err: "key \<noteq> VError" "val \<noteq> VError" using kv by (auto simp: key_type_ok_def val_type_ok_def)
  note f = find_node [OF c(1) u, of key]
  show thesis
  proof (cases "(\<forall>i. key \<noteq> VArray i) \<and> kid_with (kids u) key \<noteq> None")
    case True
    then obtain p where p: "kid_with (kids u) key = Some p" by auto
    then have "p \<noteq> NULL" using kid_not_null par by (cases u) auto
    then have "adx_cache_add alloc s ?a key val = Some (s, p)"
      using f p a err True kv(1) by (cases key) (auto simp: adx_cache_add_def key_type_ok_def)
    then show thesis using found True p by blast
  next
    case False
    have look: "(case key of VString _ \<Rightarrow> adx_cache_find s ?a key | VNumber _ \<Rightarrow> adx_cache_find s ?a key | _ \<Rightarrow> Some NULL) = Some NULL"
      using f False by (cases key) auto
    show thesis
    proof (cases "alloc (cpool s) SIZEOF_CACHE")
      case None
      then have "adx_cache_add alloc s ?a key val = Some (s, NULL)"
        using look a err by (simp add: adx_cache_add_def adx_cache_create_def)
      then show thesis using full rep False by blast
    next
      case (Some x)
      obtain m p where x: "alloc (cpool s) SIZEOF_CACHE = Some (m, p)" using Some by (cases x) auto
      have p: "ok m" "p \<noteq> NULL" "p \<notin> live (cpool s)" "live m = insert p (live (cpool s))"
        using alloc_fresh [OF c(2) x] by auto
      obtain m1 k' where k': "adx_cache_value_copy alloc m key = (m1, k')" by (cases "adx_cache_value_copy alloc m key")
      obtain m2 v' where v': "adx_cache_value_copy alloc m1 val = (m2, v')" by (cases "adx_cache_value_copy alloc m1 val")
      have m2: "ok m2" "live m \<subseteq> live m2" "k' = key \<or> k' = VError" "v' = val \<or> v' = VError"
        using value_copy [OF p(1) k'] value_copy [OF value_copy(1) [OF p(1) k'] v'] by auto
      let ?s = "s\<lparr>cheap := (cheap s)(p \<mapsto> new_cache), cpool := m2\<rparr>"
      have add: "adx_cache_add alloc s ?a key val = (if k' = VError \<or> v' = VError then Some (?s, NULL)
          else do { s \<leftarrow> link_child ?s ?a p k' v'; Some (s, p) })"
        using look a err x p(2) kv k' v' by (simp add: adx_cache_add_def adx_cache_create_def cong: if_cong)
      show thesis
      proof (cases "k' = VError \<or> v' = VError")
        case True
        have "cache_rep ok live ?s t" 
          by (rule rep_extend [OF rep m2(1)]) (use p(3,4) m2(2) in auto)
        then show thesis using full add True False by auto
      next
        case no: False
        have pt: "p \<notin> set (addrs t)" using p(3) c(3) by blast
        obtain s' where "link_child ?s ?a p key val = Some s'" "cache_rep ok live s' (graft ?a (CT p key val []) t)"
          using link_child_rep [OF rep u p(2) pt _ m2(1) _ small] p(4) m2(2) by blast
        then show thesis using added [of s' p] add no m2(3,4) p(2) pt False by auto
      qed
    qed
  qed
qed

end

text \<open>The pool allocation of \<open>Adx_Alloc\<close> keeps this promise, for every allocator that hands out free blocks.\<close>

definition pool_alloc :: "'m malloc_fun \<Rightarrow> addr \<Rightarrow> 'm mem addr_alloc" where
  "pool_alloc je_malloc pool s n =
     (case adx_alloc je_malloc s pool (of_nat n) of None \<Rightarrow> None
      | Some (s, p) \<Rightarrow> if p = NULL then None else Some (s, p))"

definition pool_ok :: "('m \<Rightarrow> addr set) \<Rightarrow> addr \<Rightarrow> 'm mem \<Rightarrow> bool" where
  "pool_ok live pool s \<longleftrightarrow> dom (links s) = live (mstate s) \<and> (\<exists>bs n. pool_wf s pool bs n)"

definition pool_live :: "'m mem \<Rightarrow> addr set" where
  "pool_live s = (\<lambda>b. b + SIZEOF_BLOCK) ` dom (links s)"

lemma pool_node_allocator:
  assumes "allocator je_malloc je_free live"
  shows "node_allocator (pool_alloc je_malloc pool) (pool_ok live pool) pool_live"
proof
  fix m n m' p
  assume m: "pool_ok live pool m" and p: "pool_alloc je_malloc pool m n = Some (m', p)"
  from m obtain bs k where wf: "dom (links m) = live (mstate m)" "pool_wf m pool bs k" by (auto simp: pool_ok_def)
  from adx_alloc_ok [OF assms wf, of "of_nat n"] p obtain b where
    b: "dom (links m') = live (mstate m')" "p = b + SIZEOF_BLOCK" "p \<noteq> NULL" "links m b = None"
      "pool_wf m' pool (bs @ [b]) (k + of_nat n)" "dom (links m') = insert b (dom (links m))"
    by (auto simp: pool_alloc_def split: if_splits)
  then show "pool_ok live pool m' \<and> p \<noteq> NULL \<and> p \<notin> pool_live m \<and> pool_live m' = insert p (pool_live m)"
    by (auto simp: pool_ok_def pool_live_def)
qed

interpretation arena_nodes: node_allocator "pool_alloc arena_malloc pool" "pool_ok (\<lambda>m. set (used m)) pool" pool_live for pool
  by (rule pool_node_allocator [OF arena.allocator_axioms])

end
