(* ===== verification/Adx_Cache_Json.thy ===== *)
theory Adx_Cache_Json
  imports Adx_Cache_Tree
begin

text \<open>
  Loading a JSON tree into the cache.  The contents of a cache without the addresses is a tree of
  keys and values, \<open>vtree\<close>; \<open>load_json\<close> is what \<open>adx_cache_from_json\<close> does to such a tree, and the
  heap code is proved to refine it.
\<close>

section \<open>Replacing the children of a node\<close>

fun setkids :: "addr \<Rightarrow> ctree list \<Rightarrow> ctree \<Rightarrow> ctree" where
  "setkids a ks (CT b k v ts) = CT b k v (if a = b then ks else map (setkids a ks) ts)"

lemma setkids_id: "a \<notin> set (addrs t) \<Longrightarrow> setkids a ks t = t"
  by (induction t) (auto simp: map_idI)

lemma setkids_twice: "setkids a ks (setkids a ks' t) = setkids a ks t"
  by (induction t) auto

lemma setkids_sel [simp]: "caddr (setkids a ks t) = caddr t" "tkey (setkids a ks t) = tkey t" "tval (setkids a ks t) = tval t"
  by (cases t; simp)+

text \<open>The child of a node that holds a given subtree.\<close>

lemma distinct_kid:
  assumes "distinct (addrs (CT b k v ts))" "u \<in> set (subs (CT b k v ts))"
  shows "u = CT b k v ts \<and> caddr u = b \<or> caddr u \<noteq> b \<and>
    (\<exists>c \<in> set ts. u \<in> set (subs c) \<and> (\<forall>c' \<in> set ts. c' \<noteq> c \<longrightarrow> set (addrs u) \<inter> set (addrs c') = {}))"
proof (cases "u = CT b k v ts")
  case False
  then obtain c where c: "c \<in> set ts" "u \<in> set (subs c)" using assms(2) by auto
  have sub: "set (addrs u) \<subseteq> set (addrs c)" by (rule subs_addrs [OF c(2)])
  have d: "distinct (concat (map addrs ts))" "b \<notin> set (concat (map addrs ts))" using assms(1) by auto
  have "caddr u \<in> set (addrs c)" using sub caddr_in_addrs by blast
  then have "caddr u \<noteq> b" using d(2) c(1) by auto
  moreover have "set (addrs u) \<inter> set (addrs c') = {}" if "c' \<in> set ts" "c' \<noteq> c" for c'
  proof -
    obtain xs ys where ts: "ts = xs @ c # ys" using c(1) by (meson split_list)
    then have "c' \<in> set (xs @ ys)" using that by auto
    then have "set (addrs c) \<inter> set (addrs c') = {}" using d(1) ts by auto
    then show ?thesis using sub by blast
  qed
  ultimately show ?thesis using c by blast
qed auto

lemma subs_unique:
  "distinct (addrs t) \<Longrightarrow> u \<in> set (subs t) \<Longrightarrow> w \<in> set (subs t) \<Longrightarrow> caddr u = caddr w \<Longrightarrow> u = w"
proof (induction t)
  case (CT b k v ts)
  from distinct_kid [OF CT.prems(1,2)] show ?case
  proof
    assume "u = CT b k v ts \<and> caddr u = b"
    then show ?thesis using distinct_kid [OF CT.prems(1,3)] CT.prems(4) by auto
  next
    assume "caddr u \<noteq> b \<and> (\<exists>c \<in> set ts. u \<in> set (subs c) \<and> (\<forall>c' \<in> set ts. c' \<noteq> c \<longrightarrow> set (addrs u) \<inter> set (addrs c') = {}))"
    then obtain c where c: "caddr u \<noteq> b" "c \<in> set ts" "u \<in> set (subs c)"
      "\<forall>c' \<in> set ts. c' \<noteq> c \<longrightarrow> set (addrs u) \<inter> set (addrs c') = {}" by blast
    from distinct_kid [OF CT.prems(1,3)] CT.prems(4) c(1) obtain d where d: "d \<in> set ts" "w \<in> set (subs d)" by auto
    have "caddr u \<in> set (addrs u)" by (rule caddr_in_addrs)
    moreover have "caddr u \<in> set (addrs d)" using subs_caddr [OF d(2)] CT.prems(4) by simp
    ultimately have "d = c" using c(4) d(1) by blast
    moreover have "distinct (addrs c)" using CT.prems(1) c(2) by (auto simp: distinct_concat_iff)
    ultimately show ?thesis using CT.IH [OF c(2)] c(3) d(2) CT.prems(4) by blast
  qed
qed

text \<open>Two changes of a tree that agree on the subtree at \<open>caddr u\<close> and leave the rest alone agree on the tree.\<close>

lemma change_at:
  assumes f: "\<And>b k v ts. b \<noteq> caddr u \<Longrightarrow> b \<notin> P \<Longrightarrow> f (CT b k v ts) = CT b k v (map f ts)"
    and g: "\<And>b k v ts. b \<noteq> caddr u \<Longrightarrow> b \<notin> P \<Longrightarrow> g (CT b k v ts) = CT b k v (map g ts)"
    and id: "\<And>t. set (addrs t) \<inter> insert (caddr u) P = {} \<Longrightarrow> f t = t \<and> g t = t"
    and P: "P \<subseteq> set (addrs u) - {caddr u}" and u: "f u = g u"
  shows "distinct (addrs t) \<Longrightarrow> u \<in> set (subs t) \<Longrightarrow> f t = g t"
proof (induction t)
  case (CT b k v ts)
  from distinct_kid [OF CT.prems] show ?case
  proof
    assume "caddr u \<noteq> b \<and> (\<exists>c \<in> set ts. u \<in> set (subs c) \<and> (\<forall>c' \<in> set ts. c' \<noteq> c \<longrightarrow> set (addrs u) \<inter> set (addrs c') = {}))"
    then obtain c where c: "caddr u \<noteq> b" "c \<in> set ts" "u \<in> set (subs c)"
      "\<forall>c' \<in> set ts. c' \<noteq> c \<longrightarrow> set (addrs u) \<inter> set (addrs c') = {}" by blast
    have b: "b \<notin> P" using P subs_addrs [OF c(3)] c(2) CT.prems(1) by auto
    have "f c' = g c'" if c': "c' \<in> set ts" for c'
    proof (cases "c' = c")
      case True
      have "distinct (addrs c)" using CT.prems(1) c(2) by (auto simp: distinct_concat_iff)
      then show ?thesis using CT.IH [OF c(2)] c(3) True by blast
    next
      case False
      then have "set (addrs c') \<inter> set (addrs u) = {}" using c(4) c' by blast
      then have "set (addrs c') \<inter> insert (caddr u) P = {}" using P caddr_in_addrs [of u] by blast
      then show ?thesis using id by metis
    qed
    then show ?thesis using f [of b] g [of b] c(1) b by auto
  qed (use u in blast)
qed

lemma graft_setkids:
  assumes "distinct (addrs t)" "u \<in> set (subs t)"
  shows "graft (caddr u) n t = setkids (caddr u) (kids u @ [n]) t"
proof (rule change_at [OF _ _ _ _ _ assms, where P = "{}"])
  show "graft (caddr u) n u = setkids (caddr u) (kids u @ [n]) u" by (cases u) simp
qed (auto simp: graft_id setkids_id)

lemma setkids_kid:
  assumes "distinct (addrs t)" "u \<in> set (subs t)" "w \<in> set (kids u)"
  shows "setkids (caddr w) ks t = setkids (caddr u) (map (setkids (caddr w) ks) (kids u)) t"
proof (rule change_at [OF _ _ _ _ _ assms(1,2), where P = "{caddr w}"])
  have "distinct (addrs u)"
    using assms(1,2) by (induction t) (auto simp: distinct_concat_iff)
  then have w: "caddr w \<noteq> caddr u" "caddr w \<in> set (addrs u)"
    using assms(3) caddr_in_addrs [of w] by (cases u; fastforce)+
  show "{caddr w} \<subseteq> set (addrs u) - {caddr u}" using w by simp
  show "setkids (caddr w) ks u = setkids (caddr u) (map (setkids (caddr w) ks) (kids u)) u"
    using w(1) by (cases u) auto
qed (auto simp: setkids_id)

lemma setkids_subs:
  "distinct (addrs t) \<Longrightarrow> u \<in> set (subs t) \<Longrightarrow> CT (caddr u) (tkey u) (tval u) ks \<in> set (subs (setkids (caddr u) ks t))"
proof (induction t)
  case (CT b k v ts)
  from distinct_kid [OF CT.prems] show ?case
  proof
    assume "caddr u \<noteq> b \<and> (\<exists>c \<in> set ts. u \<in> set (subs c) \<and> (\<forall>c' \<in> set ts. c' \<noteq> c \<longrightarrow> set (addrs u) \<inter> set (addrs c') = {}))"
    then obtain c where c: "caddr u \<noteq> b" "c \<in> set ts" "u \<in> set (subs c)" by blast
    have "distinct (addrs c)" using CT.prems(1) c(2) by (auto simp: distinct_concat_iff)
    then show ?thesis using CT.IH [OF c(2)] c by auto
  qed auto
qed

lemma setkids_same: "distinct (addrs t) \<Longrightarrow> u \<in> set (subs t) \<Longrightarrow> setkids (caddr u) (kids u) t = t"
proof -
  assume a: "distinct (addrs t)" "u \<in> set (subs t)"
  have "setkids (caddr u) (kids u) t = (\<lambda>t. t) t"
    by (rule change_at [OF _ _ _ _ _ a, where P = "{}"]) (auto simp: setkids_id split: ctree.splits, cases u, simp)
  then show ?thesis by simp
qed

section \<open>A pool with enough memory\<close>

text \<open>
  \<open>room m k\<close>: the pool can still serve allocations of \<open>k\<close> bytes in all, each counted with 64 bytes
  for the bookkeeping of the allocator.
\<close>

locale node_room = node_allocator +
  fixes room :: "'a \<Rightarrow> nat \<Rightarrow> bool"
  assumes room_alloc: "ok m \<Longrightarrow> room m (n + 64 + k) \<Longrightarrow> \<exists>m' p. alloc m n = Some (m', p) \<and> room m' k"
    and room_mono: "room m (a + k) \<Longrightarrow> room m k"

definition copy_cost :: "adx_cache_value_t \<Rightarrow> nat" where
  "copy_cost v = (case v of VString s \<Rightarrow> length s + 1 + 64 | _ \<Rightarrow> 0)"

definition add_cost :: "adx_cache_value_t \<Rightarrow> adx_cache_value_t \<Rightarrow> nat" where
  "add_cost key val = SIZEOF_CACHE + 64 + copy_cost key + copy_cost val"

lemma link_child_pool: "link_child s a p key val = Some s' \<Longrightarrow> cpool s' = cpool s"
  by (auto simp: link_child_def Let_def split: if_splits)

lemma adx_cache_add_new:
  assumes "a \<noteq> NULL" "key_type_ok key" "val_type_ok val" "(\<exists>i. key = VArray i) \<or> adx_cache_find s a key = Some NULL"
    "alloc (cpool s) SIZEOF_CACHE = Some (m, p)" "p \<noteq> NULL" "adx_cache_value_copy alloc m key = (m1, key)"
    "adx_cache_value_copy alloc m1 val = (m2, val)"
  shows "adx_cache_add alloc s a key val =
    do { s \<leftarrow> link_child (s\<lparr>cheap := (cheap s)(p \<mapsto> new_cache), cpool := m2\<rparr>) a p key val; Some (s, p) }"
proof -
  have "key \<noteq> VError" "val \<noteq> VError" using assms(2,3) by (auto simp: key_type_ok_def val_type_ok_def)
  moreover have "(case key of VString _ \<Rightarrow> adx_cache_find s a key | VNumber _ \<Rightarrow> adx_cache_find s a key | _ \<Rightarrow> Some NULL) = Some NULL"
    using assms(4) by (cases key) auto
  ultimately show ?thesis
    using assms by (simp add: adx_cache_add_def adx_cache_create_def cong: if_cong)
qed

context node_room
begin

lemma value_copy_room:
  assumes "ok m" "room m (copy_cost v + k)"
  obtains m' where "adx_cache_value_copy alloc m v = (m', v)" "ok m'" "room m' k"
proof (cases "\<exists>s. v = VString s")
  case True
  then obtain s where v: "v = VString s" by blast
  then have "room m ((length s + 1) + 64 + k)" using assms(2) by (simp add: copy_cost_def add.assoc)
  then obtain m' p where m': "alloc m (length s + 1) = Some (m', p)" "room m' k" using room_alloc [OF assms(1)] by blast
  then show thesis
    using that [of m'] v alloc_fresh [OF assms(1) m'(1)] by (simp add: adx_cache_value_copy_def adx_cache_value_string_def)
next
  case False
  then have "copy_cost v = 0" "adx_cache_value_copy alloc m v = (m, v)"
    by (cases v; simp add: copy_cost_def adx_cache_value_copy_def)+
  then show thesis using that [of m] assms by simp
qed

text \<open>With enough memory \<open>adx_cache_add\<close> finds the child or appends it.\<close>

lemma add_room:
  assumes rep: "cache_rep ok live s t" and u: "u \<in> set (subs t)" and kv: "key_type_ok key" "val_type_ok val"
    and small: "int (length (kids u)) < INT_MAX" and mem: "room (cpool s) (add_cost key val + k)"
  obtains (found) p where "\<forall>i. key \<noteq> VArray i" "kid_with (kids u) key = Some p"
      "adx_cache_add alloc s (caddr u) key val = Some (s, p)" "room (cpool s) k"
  | (added) s' p where "(\<exists>i. key = VArray i) \<or> kid_with (kids u) key = None"
      "adx_cache_add alloc s (caddr u) key val = Some (s', p)" "p \<noteq> NULL" "p \<notin> set (addrs t)"
      "cache_rep ok live s' (graft (caddr u) (CT p key val []) t)" "room (cpool s') k"
proof (cases "(\<exists>i. key = VArray i) \<or> kid_with (kids u) key = None")
  case True
  have c: "crep (cheap s) NULL t" "ok (cpool s)" using rep by (auto simp: cache_rep_def)
  have a: "caddr u \<noteq> NULL" by (rule crep_node [OF c(1) u])
  have look: "(\<exists>i. key = VArray i) \<or> adx_cache_find s (caddr u) key = Some NULL"
    using True kv(1) find_node [OF c(1) u, of key] by (cases key) (auto simp: key_type_ok_def)
  have "room (cpool s) (SIZEOF_CACHE + 64 + (copy_cost key + (copy_cost val + k)))"
    using mem by (simp add: add_cost_def add.assoc)
  then obtain m p where m: "alloc (cpool s) SIZEOF_CACHE = Some (m, p)" "room m (copy_cost key + (copy_cost val + k))"
    using room_alloc [OF c(2)] by blast
  have p: "ok m" "p \<noteq> NULL" using alloc_fresh [OF c(2) m(1)] by auto
  obtain m1 where m1: "adx_cache_value_copy alloc m key = (m1, key)" "ok m1" "room m1 (copy_cost val + k)"
    by (rule value_copy_room [OF p(1) m(2)])
  obtain m2 where m2: "adx_cache_value_copy alloc m1 val = (m2, val)" "ok m2" "room m2 k"
    by (rule value_copy_room [OF m1(2,3)])
  note add = adx_cache_add_new [OF a kv look m(1) p(2) m1(1) m2(1)]
  show thesis
  proof (rule add_spec [OF rep u kv small])
    fix s' q assume "adx_cache_add alloc s (caddr u) key val = Some (s', q)" "q \<noteq> NULL" "q \<notin> set (addrs t)"
      "cache_rep ok live s' (graft (caddr u) (CT q key val []) t)"
    moreover from this(1) add have "cpool s' = m2" using link_child_pool by fastforce
    ultimately show thesis using added True m2(3) by blast
  next
    fix s' assume "adx_cache_add alloc s (caddr u) key val = Some (s', NULL)"
    then show thesis using add p(2) by auto
  next
    fix q assume "\<forall>i. key \<noteq> VArray i" "kid_with (kids u) key = Some q"
    then show thesis using True by simp
  qed
next
  case False
  show thesis
  proof (rule add_spec [OF rep u kv small])
    fix q assume "\<forall>i. key \<noteq> VArray i" "kid_with (kids u) key = Some q" "adx_cache_add alloc s (caddr u) key val = Some (s, q)"
    then show thesis using found room_mono [OF mem] by blast
  qed (use False in auto)
qed

end

section \<open>Contents without addresses\<close>

datatype vtree = VT (vkey: adx_cache_value_t) (vval: adx_cache_value_t) (vkids: "vtree list")

fun erase :: "ctree \<Rightarrow> vtree" where
  "erase (CT a k v ts) = VT k v (map erase ts)"

lemma erase_sel [simp]: "vkey (erase t) = tkey t" "vval (erase t) = tval t" "vkids (erase t) = map erase (kids t)"
  by (cases t; simp)+

text \<open>Adding a child: one with the same key stays as it is, array keys are never equal.\<close>

definition v_add :: "adx_cache_value_t \<Rightarrow> adx_cache_value_t \<Rightarrow> vtree list \<Rightarrow> vtree list" where
  "v_add key val ks = (if \<not> is_array key \<and> key \<in> vkey ` set ks then ks else ks @ [VT key val []])"

text \<open>Changing the children of the first child with a key.\<close>

fun v_first :: "adx_cache_value_t \<Rightarrow> (vtree list \<Rightarrow> vtree list) \<Rightarrow> vtree list \<Rightarrow> vtree list" where
  "v_first key f [] = []"
| "v_first key f (t # ts) = (if vkey t = key then VT (vkey t) (vval t) (f (vkids t)) # ts else t # v_first key f ts)"

definition leaf_value :: "adx_json_t \<Rightarrow> adx_cache_value_t" where
  "leaf_value j = (case jval j of None \<Rightarrow> VNull
     | Some v \<Rightarrow> if jtype j = JSON_NUMBER then VNumber (sint (atoi v)) else VString v)"

definition is_leaf :: "adx_json_t \<Rightarrow> bool" where
  "is_leaf j \<longleftrightarrow> jtype j \<in> {JSON_STRING, JSON_NUMBER, JSON_BOOL, JSON_NULL}"

definition load_leaf :: "vtree list \<Rightarrow> adx_json_t \<Rightarrow> vtree list" where
  "load_leaf ks j =
     (case jkey j of Some k \<Rightarrow> v_add (VString k) (leaf_value j) ks
      | None \<Rightarrow> if jval j \<noteq> None then ks @ [VT (VArray 0) (leaf_value j) []] else ks)"

fun load_json :: "vtree list \<Rightarrow> adx_json_t \<Rightarrow> vtree list" and load_array :: "vtree list \<Rightarrow> adx_json_t \<Rightarrow> vtree list"
  and load_members :: "vtree list \<Rightarrow> adx_json_t list \<Rightarrow> vtree list" and load_elements :: "vtree list \<Rightarrow> adx_json_t list \<Rightarrow> vtree list"
where
  "load_json ks (Json ty k v n js) =
     (case k of None \<Rightarrow> load_members ks js
      | Some x \<Rightarrow> v_first (VString x) (\<lambda>us. load_members us js) (v_add (VString x) VNull ks))"
| "load_array ks (Json ty k v n js) =
     (case k of None \<Rightarrow> load_elements ks js
      | Some x \<Rightarrow> v_first (VString x) (\<lambda>us. load_elements us js) (v_add (VString x) VNull ks))"
| "load_members ks [] = ks"
| "load_members ks (j # js) = load_members
     (if jtype j = JSON_OBJECT then load_json ks j else if jtype j = JSON_ARRAY then load_array ks j
      else if is_leaf j then load_leaf ks j else ks) js"
| "load_elements ks [] = ks"
| "load_elements ks (j # js) = load_elements
     (if jtype j = JSON_OBJECT \<or> jtype j = JSON_ARRAY then ks @ [VT (VArray 0) VNull (load_json [] j)]
      else if is_leaf j then load_leaf ks j else ks) js"

text \<open>The memory a JSON tree needs, and its number of nodes.\<close>

fun json_cost :: "adx_json_t \<Rightarrow> nat" where
  "json_cost (Json ty k v n js) = add_cost VNull VNull + copy_cost (case k of None \<Rightarrow> VNull | Some x \<Rightarrow> VString x) +
     copy_cost (case v of None \<Rightarrow> VNull | Some x \<Rightarrow> VString x) + sum_list (map (\<lambda>j. add_cost VNull VNull + json_cost j) js)"

fun json_size :: "adx_json_t \<Rightarrow> nat" where
  "json_size (Json ty k v n js) = 1 + sum_list (map (\<lambda>j. Suc (json_size j)) js)"

definition kids_cost :: "adx_json_t list \<Rightarrow> nat" where
  "kids_cost js = sum_list (map (\<lambda>j. add_cost VNull VNull + json_cost j) js)"

definition kids_size :: "adx_json_t list \<Rightarrow> nat" where
  "kids_size js = sum_list (map (\<lambda>j. Suc (json_size j)) js)"

lemma kids_simps [simp]:
  "kids_cost [] = 0" "kids_cost (j # js) = add_cost VNull VNull + json_cost j + kids_cost js"
  "kids_size [] = 0" "kids_size (j # js) = Suc (json_size j) + kids_size js"
  by (simp_all add: kids_cost_def kids_size_def)

section \<open>The heap code refines the loading of trees\<close>

lemma length_addrs_subs: "u \<in> set (subs t) \<Longrightarrow> length (addrs u) \<le> length (addrs t)"
proof (induction t)
  case (CT a k v ts)
  show ?case
  proof (cases "u = CT a k v ts")
    case False
    then obtain c where c: "c \<in> set ts" "u \<in> set (subs c)" using CT.prems by auto
    have "length (addrs c) \<le> sum_list (map (length \<circ> addrs) ts)" using c(1) by (simp add: member_le_sum_list)
    then show ?thesis using CT.IH [OF c] by (simp add: length_concat comp_def)
  qed simp
qed

lemma length_kids: "length (kids u) < length (addrs u)"
proof (cases u)
  case (CT a k v ts)
  have "1 \<le> length (addrs t)" for t by (cases t) simp
  then have "sum_list (map (\<lambda>_. 1) ts) \<le> sum_list (map (\<lambda>t. length (addrs t)) ts)" by (intro sum_list_mono) simp
  then show ?thesis using CT by (simp add: length_concat comp_def sum_list_triv)
qed

lemma length_addrs_graft: "distinct (addrs t) \<Longrightarrow> p \<notin> set (addrs t) \<Longrightarrow>
    length (addrs (graft a (CT p k v []) t)) \<le> Suc (length (addrs t))"
proof -
  assume a: "distinct (addrs t)" "p \<notin> set (addrs t)"
  let ?n = "CT p k v []"
  have "distinct (addrs (graft a ?n t))" using distinct_graft [of ?n t a] a by simp
  then have "length (addrs (graft a ?n t)) = card (set (addrs (graft a ?n t)))" by (simp add: distinct_card)
  also have "\<dots> \<le> card (insert p (set (addrs t)))" using addrs_graft [of a ?n t] by (intro card_mono) auto
  also have "\<dots> = Suc (length (addrs t))" using a by (simp add: distinct_card)
  finally show ?thesis .
qed

lemma distinct_kids: "distinct (addrs t) \<Longrightarrow> u \<in> set (subs t) \<Longrightarrow> distinct (addrs u)"
  by (induction t) (auto simp: distinct_concat_iff)

lemma kids_subs: "u \<in> set (subs t) \<Longrightarrow> w \<in> set (kids u) \<Longrightarrow> w \<in> set (subs t)"
proof (induction t)
  case (CT a k v ts)
  show ?case
  proof (cases "u = CT a k v ts")
    case True
    have "w \<in> set (subs w)" by (cases w) simp
    then show ?thesis using True CT.prems(2) by auto
  next
    case False
    then obtain c where "c \<in> set ts" "u \<in> set (subs c)" using CT.prems(1) by auto
    then show ?thesis using CT.IH CT.prems(2) by auto
  qed
qed

text \<open>Changing the children of one child, seen without addresses.\<close>

lemma erase_setkids_first:
  assumes "find (\<lambda>t. tkey t = key) ts = Some w" "distinct (concat (map addrs ts))"
  shows "map erase (map (setkids (caddr w) X) ts) = v_first key (\<lambda>_. map erase X) (map erase ts)"
  using assms
proof (induction ts)
  case (Cons t ts)
  have other: "map (setkids (caddr w) X) us = us" if "\<forall>u \<in> set us. caddr w \<notin> set (addrs u)" for us
    using that by (intro map_idI) (auto intro: setkids_id)
  show ?case
  proof (cases "tkey t = key")
    case True
    then have w: "w = t" using Cons.prems(1) by simp
    have "set (addrs t) \<inter> set (addrs u) = {}" if "u \<in> set ts" for u using Cons.prems(2) that by auto
    then have "map (setkids (caddr w) X) ts = ts" unfolding w using caddr_in_addrs by (intro other [unfolded w]) blast
    moreover have "erase (setkids (caddr w) X w) = VT (tkey w) (tval w) (map erase X)" by (cases w) simp
    ultimately show ?thesis using True w by simp
  next
    case False
    then have "w \<in> set ts" using Cons.prems(1) by (auto simp: find_Some_iff)
    then have "caddr w \<notin> set (addrs t)" using Cons.prems(2) caddr_in_addrs [of w] by fastforce
    then show ?thesis using False Cons by (simp add: setkids_id)
  qed
qed simp

lemma erase_setkids_last:
  assumes "distinct (concat (map addrs (ts @ [w])))"
  shows "map erase (map (setkids (caddr w) X) (ts @ [w])) = map erase ts @ [VT (tkey w) (tval w) (map erase X)]"
proof -
  have "caddr w \<notin> set (addrs u)" if "u \<in> set ts" for u
    using assms that caddr_in_addrs [of w] by fastforce
  then have "map (setkids (caddr w) X) ts = ts" by (intro map_idI) (auto intro: setkids_id)
  moreover have "erase (setkids (caddr w) X w) = VT (tkey w) (tval w) (map erase X)" by (cases w) simp
  ultimately show ?thesis by simp
qed

lemma find_snoc: "find P xs = None \<Longrightarrow> P y \<Longrightarrow> find P (xs @ [y]) = Some y"
  by (induction xs) (auto split: if_splits)

lemma v_first_cong: "(\<And>us. us = vkids (the (find (\<lambda>t. vkey t = key) ts)) \<Longrightarrow> f us = g us) \<Longrightarrow> v_first key f ts = v_first key g ts"
  by (induction ts) auto

context node_room
begin

lemma add_load:
  assumes rep: "cache_rep ok live s t" and u: "u \<in> set (subs t)" and kv: "key_type_ok key" "val_type_ok val"
    and small: "int (length (addrs t)) < INT_MAX" and mem: "room (cpool s) (add_cost key val + k)"
  obtains s' ts' w where "adx_cache_add alloc s (caddr u) key val = Some (s', caddr w)" "w \<in> set ts'"
    "cache_rep ok live s' (setkids (caddr u) ts' t)" "map erase ts' = v_add key val (map erase (kids u))"
    "room (cpool s') k" "length (addrs (setkids (caddr u) ts' t)) \<le> Suc (length (addrs t))"
    "is_array key \<Longrightarrow> ts' = kids u @ [w] \<and> w = CT (caddr w) key val []"
    "\<not> is_array key \<Longrightarrow> find (\<lambda>t. tkey t = key) ts' = Some w"
proof -
  have d: "distinct (addrs t)" using rep by (simp add: cache_rep_def)
  have "int (length (kids u)) < INT_MAX" using length_kids [of u] length_addrs_subs [OF u] small by linarith
  then show thesis
  proof (rule add_room [OF rep u kv _ mem])
    fix p assume p: "\<forall>i. key \<noteq> VArray i" "kid_with (kids u) key = Some p"
      "adx_cache_add alloc s (caddr u) key val = Some (s, p)" "room (cpool s) k"
    then obtain w where w: "find (\<lambda>t. tkey t = key) (kids u) = Some w" "p = caddr w" by (auto simp: kid_with_def)
    then have "w \<in> set (kids u)" "tkey w = key" by (auto simp: find_Some_iff)
    then have "map erase (kids u) = v_add key val (map erase (kids u))"
      using p(1) by (force simp: v_add_def is_array_def split: adx_cache_value_t.splits)
    moreover have "\<not> is_array key" using p(1) by (simp add: is_array_def split: adx_cache_value_t.splits)
    ultimately show thesis
      using that [of s w "kids u"] p w rep setkids_same [OF d u] \<open>w \<in> set (kids u)\<close> by auto
  next
    fix s' p assume p: "(\<exists>i. key = VArray i) \<or> kid_with (kids u) key = None"
      "adx_cache_add alloc s (caddr u) key val = Some (s', p)" "p \<noteq> NULL" "p \<notin> set (addrs t)"
      "cache_rep ok live s' (graft (caddr u) (CT p key val []) t)" "room (cpool s') k"
    let ?w = "CT p key val []"
    note g = graft_setkids [OF d u, of ?w]
    have none: "\<not> is_array key \<Longrightarrow> find (\<lambda>t. tkey t = key) (kids u) = None"
      using p(1) by (auto simp: kid_with_def is_array_def)
    have "map erase (kids u @ [?w]) = v_add key val (map erase (kids u))"
      using none by (auto simp: v_add_def find_None_iff)
    moreover have "find (\<lambda>t. tkey t = key) (kids u @ [?w]) = Some ?w" if "\<not> is_array key"
      by (rule find_snoc [OF none [OF that]]) simp
    ultimately show thesis
      using that [of s' ?w "kids u @ [?w]"] p length_addrs_graft [OF d p(4), of "caddr u" key val] unfolding g by auto
  qed
qed

definition loads ::
    "'a cache_mem \<Rightarrow> ctree \<Rightarrow> ctree \<Rightarrow> nat \<Rightarrow> nat \<Rightarrow> (vtree list \<Rightarrow> vtree list) \<Rightarrow> ('a cache_mem \<times> int) option \<Rightarrow> bool" where
  "loads s t u k n F res \<longleftrightarrow> (\<exists>s' ts'. res = Some (s', 0) \<and> cache_rep ok live s' (setkids (caddr u) ts' t) \<and>
     map erase ts' = F (map erase (kids u)) \<and> room (cpool s') k \<and>
     length (addrs (setkids (caddr u) ts' t)) \<le> length (addrs t) + n)"

lemma room_le: "room m c \<Longrightarrow> d \<le> c \<Longrightarrow> room m d"
  using room_mono [of m "c - d" d] by simp

definition pre :: "'a cache_mem \<Rightarrow> ctree \<Rightarrow> ctree \<Rightarrow> nat \<Rightarrow> nat \<Rightarrow> bool" where
  "pre s t u c n \<longleftrightarrow> cache_rep ok live s t \<and> u \<in> set (subs t) \<and> room (cpool s) c \<and> int (length (addrs t) + n) < INT_MAX"

lemma pre_le: "pre s t u c n \<Longrightarrow> d \<le> c \<Longrightarrow> m \<le> n \<Longrightarrow> pre s t u d m"
  using room_le by (auto simp: pre_def)

lemma loads_weaken: "loads s t u k n F res \<Longrightarrow> n \<le> m \<Longrightarrow> F (map erase (kids u)) = G (map erase (kids u)) \<Longrightarrow> loads s t u k m G res"
  unfolding loads_def by fastforce

lemma loads_nothing: "pre s t u k n \<Longrightarrow> loads s t u k m (\<lambda>ks. ks) (Some (s, 0))"
proof -
  assume a: "pre s t u k n"
  then have "setkids (caddr u) (kids u) t = t" by (intro setkids_same) (auto simp: pre_def cache_rep_def)
  then show ?thesis using a unfolding loads_def pre_def by (intro exI [of _ s] exI [of _ "kids u"]) auto
qed

lemma loads_bind:
  assumes l: "loads s t u k1 n1 F res" and u: "u \<in> set (subs t)" "distinct (addrs t)"
    and f: "\<And>s' t' u'. pre s' t' u' k1 (n2 + 0) \<Longrightarrow> caddr u' = caddr u \<Longrightarrow> loads s' t' u' k n2 G (f s' 0)"
    and n: "int (length (addrs t) + n1 + n2) < INT_MAX"
  shows "loads s t u k (n1 + n2) (\<lambda>ks. G (F ks)) (do { (s, r) \<leftarrow> res; f s r })"
proof -
  from l obtain s' ts' where s': "res = Some (s', 0)" "cache_rep ok live s' (setkids (caddr u) ts' t)"
    "map erase ts' = F (map erase (kids u))" "room (cpool s') k1" "length (addrs (setkids (caddr u) ts' t)) \<le> length (addrs t) + n1"
    by (auto simp: loads_def)
  let ?t = "setkids (caddr u) ts' t" and ?u = "CT (caddr u) (tkey u) (tval u) ts'"
  have "pre s' ?t ?u k1 (n2 + 0)" using s' setkids_subs [OF u(2,1)] n by (auto simp: pre_def)
  from f [OF this] obtain s2 ts2 where "f s' 0 = Some (s2, 0)" "cache_rep ok live s2 (setkids (caddr u) ts2 t)"
    "map erase ts2 = G (map erase ts')" "room (cpool s2) k" "length (addrs (setkids (caddr u) ts2 t)) \<le> length (addrs ?t) + n2"
    by (auto simp: loads_def setkids_twice)
  then show ?thesis unfolding loads_def using s' by (intro exI [of _ s2] exI [of _ ts2]) auto
qed

lemma loads_below:
  assumes u: "u \<in> set (subs t)" "distinct (addrs t)"
    and t1: "cache_rep ok live s' (setkids (caddr u) ts' t)" "length (addrs (setkids (caddr u) ts' t)) \<le> Suc (length (addrs t))"
    and w: "w \<in> set ts'" and l: "loads s' (setkids (caddr u) ts' t) w k n F res"
    and X: "\<And>X. map erase X = F (map erase (kids w)) \<Longrightarrow> distinct (concat (map addrs ts')) \<Longrightarrow>
      map erase (map (setkids (caddr w) X) ts') = G (map erase (kids u))"
  shows "loads s t u k (Suc n) G res"
proof -
  let ?t = "setkids (caddr u) ts' t" and ?u = "CT (caddr u) (tkey u) (tval u) ts'"
  have d: "distinct (addrs ?t)" using t1(1) by (simp add: cache_rep_def)
  have uu: "?u \<in> set (subs ?t)" by (rule setkids_subs [OF u(2,1)])
  from l obtain s'' X where r: "res = Some (s'', 0)" "cache_rep ok live s'' (setkids (caddr w) X ?t)"
    "map erase X = F (map erase (kids w))" "room (cpool s'') k" "length (addrs (setkids (caddr w) X ?t)) \<le> length (addrs ?t) + n"
    by (auto simp: loads_def)
  have eq: "setkids (caddr w) X ?t = setkids (caddr u) (map (setkids (caddr w) X) ts') t"
    using setkids_kid [OF d uu, of w X] w by (simp add: setkids_twice)
  have "distinct (addrs ?u)" by (rule distinct_kids [OF d uu])
  then have "distinct (concat (map addrs ts'))" by simp
  then show ?thesis using r X [OF r(3)] t1(2) unfolding eq loads_def by fastforce
qed

lemma find_erase: "find (\<lambda>t. vkey t = key) (map erase ts) = map_option erase (find (\<lambda>t. tkey t = key) ts)"
  by (induction ts) auto

text \<open>An addition followed by work below the child.\<close>

lemma loads_add_key:
  assumes pre: "pre s t u (add_cost key val + k1) (Suc n)" and kv: "key_type_ok key" "\<not> is_array key" "val_type_ok val"
    and f: "\<And>s' t' w. pre s' t' w k1 n \<Longrightarrow> loads s' t' w k n F (f s' (caddr w))"
  shows "loads s t u k (Suc n) (\<lambda>ks. v_first key F (v_add key val ks)) (do { (s, c) \<leftarrow> adx_cache_add alloc s (caddr u) key val; f s c })"
proof -
  have p: "cache_rep ok live s t" "u \<in> set (subs t)" "distinct (addrs t)" "int (length (addrs t)) < INT_MAX"
    "room (cpool s) (add_cost key val + k1)" using pre by (auto simp: pre_def cache_rep_def)
  obtain s' ts' w where w: "adx_cache_add alloc s (caddr u) key val = Some (s', caddr w)" "w \<in> set ts'"
    "cache_rep ok live s' (setkids (caddr u) ts' t)" "map erase ts' = v_add key val (map erase (kids u))"
    "room (cpool s') k1" "length (addrs (setkids (caddr u) ts' t)) \<le> Suc (length (addrs t))"
    "find (\<lambda>t. tkey t = key) ts' = Some w"
    using add_load [OF p(1,2) kv(1,3) p(4,5)] kv(2) by metis
  have "w \<in> set (subs (setkids (caddr u) ts' t))"
    using kids_subs [OF setkids_subs [OF p(3,2), of ts']] w(2) by simp
  then have "pre s' (setkids (caddr u) ts' t) w k1 n" using w(3,5,6) pre by (auto simp: pre_def)
  from f [OF this] have l: "loads s' (setkids (caddr u) ts' t) w k n F (f s' (caddr w))" .
  have "loads s t u k (Suc n) (\<lambda>ks. v_first key F (v_add key val ks)) (f s' (caddr w))"
  proof (rule loads_below [OF p(2,3) w(3,6,2) l])
    fix X assume X: "map erase X = F (map erase (kids w))" "distinct (concat (map addrs ts'))"
    have "v_first key (\<lambda>_. map erase X) (map erase ts') = v_first key F (map erase ts')"
      by (rule v_first_cong) (simp add: find_erase w(7) X(1))
    then show "map erase (map (setkids (caddr w) X) ts') = v_first key F (v_add key val (map erase (kids u)))"
      unfolding erase_setkids_first [OF w(7) X(2)] w(4) .
  qed
  then show ?thesis using w(1) by simp
qed

lemma loads_add_array:
  assumes pre: "pre s t u (add_cost (VArray i) val + k1) (Suc n)" and val: "val_type_ok val"
    and f: "\<And>s' t' w. pre s' t' w k1 n \<Longrightarrow> kids w = [] \<Longrightarrow> loads s' t' w k n F (f s' (caddr w))"
  shows "loads s t u k (Suc n) (\<lambda>ks. ks @ [VT (VArray i) val (F [])]) (do { (s, c) \<leftarrow> adx_cache_add alloc s (caddr u) (VArray i) val; f s c })"
proof -
  let ?key = "VArray i"
  have kv: "key_type_ok ?key" "is_array ?key" by (simp_all add: key_type_ok_def is_array_def)
  have p: "cache_rep ok live s t" "u \<in> set (subs t)" "distinct (addrs t)" "int (length (addrs t)) < INT_MAX"
    "room (cpool s) (add_cost ?key val + k1)" using pre by (auto simp: pre_def cache_rep_def)
  obtain s' ts' w where w: "adx_cache_add alloc s (caddr u) ?key val = Some (s', caddr w)" "w \<in> set ts'"
    "cache_rep ok live s' (setkids (caddr u) ts' t)" "map erase ts' = v_add ?key val (map erase (kids u))"
    "room (cpool s') k1" "length (addrs (setkids (caddr u) ts' t)) \<le> Suc (length (addrs t))"
    "ts' = kids u @ [w]" "w = CT (caddr w) ?key val []"
    using add_load [OF p(1,2) kv(1) val p(4,5)] kv(2) by metis
  have "w \<in> set (subs (setkids (caddr u) ts' t))"
    using kids_subs [OF setkids_subs [OF p(3,2), of ts']] w(2) by simp
  then have "pre s' (setkids (caddr u) ts' t) w k1 n" using w(3,5,6) pre by (auto simp: pre_def)
  moreover have e: "kids w = []" "tkey w = ?key" "tval w = val" using w(8) by (metis ctree.sel)+
  ultimately have l: "loads s' (setkids (caddr u) ts' t) w k n F (f s' (caddr w))" using f by blast
  have "loads s t u k (Suc n) (\<lambda>ks. ks @ [VT ?key val (F [])]) (f s' (caddr w))"
  proof (rule loads_below [OF p(2,3) w(3,6,2) l])
    fix X assume X: "map erase X = F (map erase (kids w))" "distinct (concat (map addrs ts'))"
    then show "map erase (map (setkids (caddr w) X) ts') = map erase (kids u) @ [VT ?key val (F [])]"
      using erase_setkids_last [of "kids u" w X] unfolding w(7) e by simp
  qed
  then show ?thesis using w(1) by simp
qed

lemma key_string [simp]: "key_type_ok (VString x)" "\<not> is_array (VString x)" "val_type_ok VNull"
  by (simp_all add: key_type_ok_def is_array_def val_type_ok_def)

lemma leaf_value_ok [simp]: "val_type_ok (leaf_value j)"
  by (simp add: leaf_value_def val_type_ok_def split: option.split)

lemma v_first_same: "v_first key (\<lambda>us. us) ks = ks"
  by (induction ks) auto

lemma leaf_cost:
  "add_cost (case jkey j of None \<Rightarrow> VArray 0 | Some x \<Rightarrow> VString x) (leaf_value j) \<le> json_cost j" "1 \<le> json_size j"
  by (cases j; simp add: add_cost_def leaf_value_def copy_cost_def split: option.split)+

lemma load_leaf_ok:
  assumes pre: "pre s t u (json_cost j + k) (json_size j)" and leaf: "is_leaf j"
  shows "loads s t u k (json_size j) (\<lambda>ks. load_leaf ks j) (adx_cache_from_json_value alloc s (caddr u) j)"
proof -
  let ?v = "leaf_value j"
  have v: "(case jval j of None \<Rightarrow> adx_cache_value_null
      | Some v \<Rightarrow> if jtype j = JSON_NUMBER then adx_cache_value_number (sint (atoi v)) else adx_cache_value_string (Some v)) = ?v"
    "?v \<noteq> VError"
    by (simp_all add: leaf_value_def adx_cache_value_null_def adx_cache_value_number_def adx_cache_value_string_def split: option.split)
  have ty: "jtype j \<notin> {JSON_OBJECT, JSON_ARRAY, JSON_EMPTY}" using leaf by (auto simp: is_leaf_def)
  obtain n where n: "json_size j = Suc n" using leaf_cost(2) [of j] by (cases "json_size j") auto
  have idle: "loads s' t' w k n (\<lambda>ks. ks) (Some (s', 0))" if "pre s' t' w k n" for s' t' w using loads_nothing [OF that] .
  show ?thesis
  proof (cases "jkey j")
    case (Some x)
    have p: "pre s t u (add_cost (VString x) ?v + k) (Suc n)" using pre leaf_cost [of j] Some n by (auto elim!: pre_le)
    have "adx_cache_from_json_value alloc s (caddr u) j =
        do { (s, _) \<leftarrow> adx_cache_add alloc s (caddr u) (VString x) ?v; Some (s, 0) }"
      using Some v ty by (simp add: adx_cache_from_json_value_def adx_cache_value_string_def)
    moreover have "loads s t u k (Suc n) (\<lambda>ks. v_first (VString x) (\<lambda>ks. ks) (v_add (VString x) ?v ks))
        (do { (s, _) \<leftarrow> adx_cache_add alloc s (caddr u) (VString x) ?v; Some (s, 0) })"
    proof (rule loads_add_key [OF p])
      show "loads s' t' w k n (\<lambda>ks. ks) (Some (s', 0))" if "pre s' t' w k n" for s' t' w by (rule idle [OF that])
    qed simp_all
    ultimately show ?thesis using Some n by (simp add: load_leaf_def v_first_same)
  next
    case None
    show ?thesis
    proof (cases "jval j")
      case (Some y)
      have p: "pre s t u (add_cost (VArray 0) ?v + k) (Suc n)" using pre leaf_cost [of j] None n by (auto elim!: pre_le)
      have "adx_cache_from_json_value alloc s (caddr u) j =
          do { (s, _) \<leftarrow> adx_cache_add alloc s (caddr u) (VArray 0) ?v; Some (s, 0) }"
        using Some None v ty
        by (simp add: adx_cache_from_json_value_def adx_cache_array_add_def adx_cache_value_array_def)
      moreover have "loads s t u k (Suc n) (\<lambda>ks. ks @ [VT (VArray 0) ?v ((\<lambda>ks. ks) [])])
          (do { (s, _) \<leftarrow> adx_cache_add alloc s (caddr u) (VArray 0) ?v; Some (s, 0) })"
        using loads_add_array [OF p, where F = "\<lambda>ks. ks" and f = "\<lambda>s _. Some (s, 0)", OF _ idle] by simp
      ultimately show ?thesis using Some None n by (simp add: load_leaf_def)
    next
      case nov: None
      have "adx_cache_from_json_value alloc s (caddr u) j = Some (s, 0)"
        using nov None v ty by (simp add: adx_cache_from_json_value_def)
      moreover have "pre s t u k 0" using pre by (auto elim: pre_le)
      ultimately show ?thesis using loads_nothing nov None by (simp add: load_leaf_def)
    qed
  qed
qed

definition json_ok :: "adx_json_t \<Rightarrow> bool" where
  "json_ok j \<longleftrightarrow> (\<forall>s t u k. pre s t u (json_cost j + k) (json_size j) \<longrightarrow>
     loads s t u k (json_size j) (\<lambda>ks. load_json ks j) (adx_cache_from_json alloc s (caddr u) j) \<and>
     loads s t u k (json_size j) (\<lambda>ks. load_array ks j) (adx_cache_from_json_value_array alloc s (caddr u) j))"

lemma members_ok:
  "\<forall>j \<in> set js. json_ok j \<Longrightarrow> pre s t u (kids_cost js + k) (kids_size js) \<Longrightarrow>
    loads s t u k (kids_size js) (\<lambda>ks. load_members ks js) (json_members alloc s (caddr u) js)"
proof (induction js arbitrary: s t u)
  case Nil
  then show ?case using loads_nothing by simp
next
  case (Cons j js)
  let ?c = "kids_cost js + k"
  let ?r = "if jtype j = JSON_OBJECT then adx_cache_from_json alloc s (caddr u) j
        else if jtype j = JSON_ARRAY then adx_cache_from_json_value_array alloc s (caddr u) j
        else if jtype j \<in> {JSON_STRING, JSON_NUMBER, JSON_BOOL, JSON_NULL} then adx_cache_from_json_value alloc s (caddr u) j
        else Some (s, 0)"
  let ?F = "\<lambda>ks. if jtype j = JSON_OBJECT then load_json ks j else if jtype j = JSON_ARRAY then load_array ks j
      else if is_leaf j then load_leaf ks j else ks"
  have p: "pre s t u (json_cost j + ?c) (json_size j)" using Cons.prems(2) by (auto elim: pre_le)
  have "json_ok j" using Cons.prems(1) by simp
  then have "loads s t u ?c (json_size j) ?F ?r"
    using p load_leaf_ok [OF p] loads_nothing [OF pre_le [OF p, of ?c 0]] by (auto simp: json_ok_def is_leaf_def)
  then have first: "loads s t u ?c (Suc (json_size j)) ?F ?r" by (rule loads_weaken) simp_all
  have rest: "loads s' t' u' k (kids_size js) (\<lambda>ks. load_members ks js) (json_members alloc s' (caddr u) js)"
    if "pre s' t' u' ?c (kids_size js + 0)" "caddr u' = caddr u" for s' t' u'
    using Cons.IH [of s' t' u'] that Cons.prems(1) by simp
  have t: "u \<in> set (subs t)" "distinct (addrs t)" "int (length (addrs t) + Suc (json_size j) + kids_size js) < INT_MAX"
    using Cons.prems(2) by (auto simp: pre_def cache_rep_def)
  have "loads s t u k (Suc (json_size j) + kids_size js) (\<lambda>ks. load_members (?F ks) js)
      (do { (s, _) \<leftarrow> ?r; json_members alloc s (caddr u) js })"
    by (rule loads_bind [OF first t(1,2) rest t(3)])
  then show ?case by (simp cong: if_cong)
qed

lemma elements_ok:
  "\<forall>j \<in> set js. json_ok j \<Longrightarrow> pre s t u (kids_cost js + k) (kids_size js) \<Longrightarrow>
    loads s t u k (kids_size js) (\<lambda>ks. load_elements ks js) (json_elements alloc s (caddr u) js)"
proof (induction js arbitrary: s t u)
  case Nil
  then show ?case using loads_nothing by simp
next
  case (Cons j js)
  let ?c = "kids_cost js + k"
  let ?below = "do {
          (s, node) \<leftarrow> adx_cache_array_add alloc s (caddr u) adx_cache_value_null;
          adx_cache_from_json alloc s node j }"
  let ?r = "if jtype j = JSON_OBJECT \<or> jtype j = JSON_ARRAY then ?below
        else if jtype j \<in> {JSON_STRING, JSON_NUMBER, JSON_BOOL, JSON_NULL} then adx_cache_from_json_value alloc s (caddr u) j
        else Some (s, 0)"
  let ?F = "\<lambda>ks. if jtype j = JSON_OBJECT \<or> jtype j = JSON_ARRAY then ks @ [VT (VArray 0) VNull (load_json [] j)]
      else if is_leaf j then load_leaf ks j else ks"
  have j: "json_ok j" using Cons.prems(1) by simp
  have p: "pre s t u (json_cost j + ?c) (json_size j)" using Cons.prems(2) by (auto elim: pre_le)
  have cost: "add_cost (VArray 0) VNull = add_cost VNull VNull" by (simp add: add_cost_def copy_cost_def)
  have p2: "pre s t u (add_cost (VArray 0) VNull + (json_cost j + ?c)) (Suc (json_size j))"
    using Cons.prems(2) unfolding cost by (auto elim: pre_le)
  have "loads s t u ?c (Suc (json_size j)) (\<lambda>ks. ks @ [VT (VArray 0) VNull ((\<lambda>ks. load_json ks j) [])])
      (do { (s, c) \<leftarrow> adx_cache_add alloc s (caddr u) (VArray 0) VNull; adx_cache_from_json alloc s c j })"
    by (rule loads_add_array [OF p2]) (use j in \<open>auto simp: json_ok_def\<close>)
  then have below: "loads s t u ?c (Suc (json_size j)) (\<lambda>ks. ks @ [VT (VArray 0) VNull (load_json [] j)]) ?below"
    by (simp add: adx_cache_array_add_def adx_cache_value_array_def adx_cache_value_null_def)
  have leaf: "is_leaf j \<Longrightarrow> loads s t u ?c (Suc (json_size j)) (\<lambda>ks. load_leaf ks j) (adx_cache_from_json_value alloc s (caddr u) j)"
    by (rule loads_weaken [OF load_leaf_ok [OF p]]) simp_all
  have first: "loads s t u ?c (Suc (json_size j)) ?F ?r"
    using below leaf loads_nothing [OF pre_le [OF p, of ?c 0]] by (auto simp: is_leaf_def)
  have rest: "loads s' t' u' k (kids_size js) (\<lambda>ks. load_elements ks js)
      ((\<lambda>s ret. if ret \<noteq> 0 then Some (s, ret) else json_elements alloc s (caddr u) js) s' 0)"
    if "pre s' t' u' ?c (kids_size js + 0)" "caddr u' = caddr u" for s' t' u'
    using Cons.IH [of s' t' u'] that Cons.prems(1) by simp
  have t: "u \<in> set (subs t)" "distinct (addrs t)" "int (length (addrs t) + Suc (json_size j) + kids_size js) < INT_MAX"
    using Cons.prems(2) by (auto simp: pre_def cache_rep_def)
  have "loads s t u k (Suc (json_size j) + kids_size js) (\<lambda>ks. load_elements (?F ks) js)
      (do { (s, ret) \<leftarrow> ?r; if ret \<noteq> 0 then Some (s, ret) else json_elements alloc s (caddr u) js })"
    by (rule loads_bind [where f = "\<lambda>s ret. if ret \<noteq> 0 then Some (s, ret) else json_elements alloc s (caddr u) js",
          OF first t(1,2) rest t(3)])
  then show ?case by (simp cong: if_cong)
qed

lemma json_node_loads:
  assumes pre: "pre s t u (json_cost (Json ty key v n js) + k) (json_size (Json ty key v n js))"
    and f: "\<And>s' t' w. pre s' t' w (kids_cost js + k) (kids_size js) \<Longrightarrow> loads s' t' w k (kids_size js) F (f s' (caddr w))"
  shows "loads s t u k (json_size (Json ty key v n js))
    (\<lambda>ks. case key of None \<Rightarrow> F ks | Some x \<Rightarrow> v_first (VString x) F (v_add (VString x) VNull ks))
    (do { (s, c) \<leftarrow> json_node alloc s (caddr u) (Json ty key v n js); f s c })"
proof (cases key)
  case None
  have "pre s t u (kids_cost js + k) (kids_size js)" using pre by (auto elim: pre_le simp: kids_cost_def kids_size_def)
  from f [OF this] show ?thesis
    using None by (auto intro: loads_weaken simp: json_node_def kids_size_def)
next
  case (Some x)
  have "pre s t u (add_cost (VString x) VNull + (kids_cost js + k)) (Suc (kids_size js))"
    using pre Some by (auto elim!: pre_le simp: kids_cost_def kids_size_def add_cost_def copy_cost_def split: option.splits)
  from loads_add_key [OF this, where F = F and f = f] f show ?thesis
    using Some by (simp add: json_node_def kids_size_def adx_cache_value_string_def adx_cache_value_null_def)
qed

lemma from_json_ok: "json_ok j"
proof (induction j)
  case (Json ty key v n js)
  note m = members_ok [of js] and e = elements_ok [of js]
  show ?case
    unfolding json_ok_def
    using json_node_loads [where F = "\<lambda>ks. load_members ks js" and f = "\<lambda>s c. json_members alloc s c js"]
      json_node_loads [where F = "\<lambda>ks. load_elements ks js" and f = "\<lambda>s c. json_elements alloc s c js"] m e Json.IH
    by simp
qed

end

end
