(* ===== verification/Adx_Cache_Props.thy ===== *)
theory Adx_Cache_Props
  imports Adx_Cache_Json
begin

text \<open>
  The properties of the cache, with the arena allocator of \<open>Adx_Alloc\<close> as the instance that shows
  that the promises made of the pool can be kept.
\<close>

section \<open>An arena with room\<close>

definition arena_room :: "arena mem \<Rightarrow> nat \<Rightarrow> bool" where
  "arena_room s k \<longleftrightarrow> 0 < brk (mstate s) \<and> brk (mstate s) + k < 2 ^ 32 \<and> (\<forall>p \<in> set (used (mstate s)). unat p < brk (mstate s))"

lemma unat_small: "k < 2 ^ 33 \<Longrightarrow> unat (of_nat k :: 64 word) = k"
  by (simp add: unat_of_nat)

lemma arena_malloc_room:
  assumes "0 < brk m" "brk m + (n + 64 + k) < 2 ^ 32" "\<forall>p \<in> set (used m). unat p < brk m"
  shows "\<exists>m'. arena_malloc m (SIZEOF_BLOCK + of_nat n) = (m', of_nat (brk m)) \<and> brk m < brk m' \<and> brk m' + k < 2 ^ 32 \<and>
    used m' = of_nat (brk m) # used m"
proof -
  have u: "unat (of_nat (brk m) :: addr) = brk m" using assms(2) by (intro unat_small) simp
  then have "(of_nat (brk m) :: addr) \<notin> set (used m)" using assms(3) by force
  moreover have "unat (SIZEOF_BLOCK + of_nat n :: 64 word) = n + 24"
  proof -
    have "SIZEOF_BLOCK + of_nat n = (of_nat (n + 24) :: 64 word)" by simp
    then show ?thesis using assms(2) unat_small [of "n + 24"] by (simp add: add.commute)
  qed
  moreover have "16 * Suc ((n + 24) div 16) \<le> n + 64" by (simp add: algebra_simps)
  ultimately show ?thesis using assms by (simp add: arena_malloc_def Let_def)
qed

interpretation arena_pool: node_room "pool_alloc arena_malloc pool" "pool_ok (\<lambda>m. set (used m)) pool" pool_live arena_room for pool
proof
  fix m n k
  assume ok: "pool_ok (\<lambda>m. set (used m)) pool m" and room: "arena_room m (n + 64 + k)"
  let ?b = "of_nat (brk (mstate m)) :: addr"
  from room obtain m1 where m1: "arena_malloc (mstate m) (SIZEOF_BLOCK + of_nat n) = (m1, ?b)" "brk (mstate m) < brk m1"
    "brk m1 + k < 2 ^ 32" "used m1 = ?b # used (mstate m)"
    using arena_malloc_room [of "mstate m" n k] by (auto simp: arena_room_def)
  have b: "?b \<noteq> NULL" "?b + SIZEOF_BLOCK \<noteq> NULL" "unat ?b = brk (mstate m)"
    using room arena_addr [of "brk (mstate m)"] arena_addr [of "brk (mstate m) + 24"]
    by (auto simp: arena_room_def intro!: unat_small)
  from ok obtain bs j where wf: "dom (links m) = set (used (mstate m))" "pool_wf m pool bs j" by (auto simp: pool_ok_def)
  obtain m' p where r: "adx_alloc arena_malloc m pool (of_nat n) = Some (m', p)"
    using adx_alloc_ok [OF arena.allocator_axioms wf, of "of_nat n"] by blast
  have "mstate m' = m1 \<and> p = ?b + SIZEOF_BLOCK"
    using r m1(1) b(1) by (auto simp: adx_alloc_def mem_malloc_def)
  then have "pool_alloc arena_malloc pool m n = Some (m', p) \<and> arena_room m' k"
    using r b m1 room by (auto simp: pool_alloc_def arena_room_def)
  then show "\<exists>m' p. pool_alloc arena_malloc pool m n = Some (m', p) \<and> arena_room m' k" by blast
qed (simp add: arena_room_def)

section \<open>Lookup along a path\<close>

definition kid_of :: "ctree \<Rightarrow> adx_cache_value_t \<Rightarrow> ctree option" where
  "kid_of u key = (case key of
      VString _ \<Rightarrow> find (\<lambda>t. tkey t = key) (kids u)
    | VNumber _ \<Rightarrow> find (\<lambda>t. tkey t = key) (kids u)
    | VArray i \<Rightarrow> if 0 \<le> i \<and> i < int (length (kids u)) then Some (kids u ! nat i) else None
    | _ \<Rightarrow> None)"

fun cache_descend :: "ctree \<Rightarrow> adx_cache_value_t list \<Rightarrow> ctree option" where
  "cache_descend u [] = Some u"
| "cache_descend u (key # keys) = (case kid_of u key of None \<Rightarrow> None | Some w \<Rightarrow> cache_descend w keys)"

definition addr_of :: "ctree option \<Rightarrow> addr" where
  "addr_of t = (case t of None \<Rightarrow> NULL | Some t \<Rightarrow> caddr t)"

lemma kid_of_in: "kid_of u key = Some w \<Longrightarrow> w \<in> set (kids u)"
  by (auto simp: kid_of_def find_Some_iff split: adx_cache_value_t.splits if_splits)

lemma find_kid:
  assumes "crep (cheap s) NULL t" "u \<in> set (subs t)"
  shows "adx_cache_find s (caddr u) key = Some (addr_of (kid_of u key))"
  unfolding find_node [OF assms]
  by (auto simp: addr_of_def kid_of_def kid_with_def kid_at_def split: adx_cache_value_t.splits option.splits)

lemma sub_not_null: "crep h NULL t \<Longrightarrow> u \<in> set (subs t) \<Longrightarrow> caddr u \<noteq> NULL"
  by (rule crep_node)

lemma find_args_descend:
  assumes "crep (cheap s) NULL t"
  shows "u \<in> set (subs t) \<Longrightarrow> list_all key_type_ok keys \<Longrightarrow>
    adx_cache_find_args s (caddr u) (keys @ VNull # rest) = Some (addr_of (cache_descend u keys))"
proof (induction keys arbitrary: u)
  case Nil
  then show ?case by (simp add: key_type_ok_def addr_of_def)
next
  case (Cons key keys)
  show ?case
  proof (cases "kid_of u key")
    case None
    then show ?thesis using find_kid [OF assms Cons.prems(1), of key] Cons.prems(2) by (simp add: addr_of_def)
  next
    case (Some w)
    have w: "w \<in> set (subs t)" by (rule kids_subs [OF Cons.prems(1) kid_of_in [OF Some]])
    then show ?thesis
      using find_kid [OF assms Cons.prems(1), of key] Cons.prems(2) Some Cons.IH [OF w] sub_not_null [OF assms w]
      by (simp add: addr_of_def)
  qed
qed

section \<open>Loading a document\<close>

lemma from_json_load:
  assumes "node_room alloc ok live room" "cache_rep ok live s t" "u \<in> set (subs t)" "room (cpool s) (json_cost j)"
    "int (length (addrs t) + json_size j) < INT_MAX"
  shows "\<exists>s' ts'. adx_cache_from_json alloc s (caddr u) j = Some (s', 0) \<and>
    cache_rep ok live s' (setkids (caddr u) ts' t) \<and> map erase ts' = load_json (map erase (kids u)) j"
proof -
  have "node_room.pre ok live room s t u (json_cost j + 0) (json_size j)"
    using assms by (simp add: node_room.pre_def [OF assms(1)])
  then show ?thesis
    using node_room.from_json_ok [OF assms(1), of j]
    unfolding node_room.json_ok_def [OF assms(1)] node_room.loads_def [OF assms(1)] by blast
qed

section \<open>Properties\<close>

text \<open>
  The allocations that adding a new child makes, in order, each in the state of the pool that the one before
  leaves: the node, and the copies of the key and of the value if they are strings.
\<close>

definition text_size :: "adx_cache_value_t \<Rightarrow> nat list" where
  "text_size v = (case v of VString s \<Rightarrow> [length s + 1] | _ \<Rightarrow> [])"

definition child_sizes :: "adx_cache_value_t \<Rightarrow> adx_cache_value_t \<Rightarrow> nat list" where
  "child_sizes key val = SIZEOF_CACHE # text_size key @ text_size val"

fun alloc_fails :: "'m addr_alloc \<Rightarrow> 'm \<Rightarrow> nat list \<Rightarrow> bool" where
  "alloc_fails alloc m [] = False"
| "alloc_fails alloc m (n # ns) = (case alloc m n of None \<Rightarrow> True | Some (m, _) \<Rightarrow> alloc_fails alloc m ns)"

lemma alloc_fails_append:
  "alloc_fails alloc m (xs @ ys) \<longleftrightarrow> alloc_fails alloc m xs \<or> alloc_fails alloc (foldl (\<lambda>m n. fst (the (alloc m n))) m xs) ys"
  by (induction xs arbitrary: m) (auto split: option.splits)

lemma value_copy_fails:
  assumes "adx_cache_value_copy alloc m v = (m', v')" "v \<noteq> VError"
  shows "v' = VError \<longleftrightarrow> alloc_fails alloc m (text_size v)"
    "v' \<noteq> VError \<Longrightarrow> m' = foldl (\<lambda>m n. fst (the (alloc m n))) m (text_size v)"
  using assms by (auto simp: adx_cache_value_copy_def adx_cache_value_error_def adx_cache_value_string_def text_size_def
      split: adx_cache_value_t.splits option.splits prod.splits)

lemma add_null_iff:
  assumes "a \<noteq> NULL" "key_type_ok key" "val_type_ok val" "(\<exists>i. key = VArray i) \<or> adx_cache_find s a key = Some NULL"
    "\<And>m p. alloc (cpool s) SIZEOF_CACHE = Some (m, p) \<Longrightarrow> p \<noteq> NULL" "adx_cache_add alloc s a key val = Some (s', q)"
  shows "q = NULL \<longleftrightarrow> alloc_fails alloc (cpool s) (child_sizes key val)"
proof -
  have err: "key \<noteq> VError" "val \<noteq> VError" using assms(2,3) by (auto simp: key_type_ok_def val_type_ok_def)
  have look: "(case key of VString _ \<Rightarrow> adx_cache_find s a key | VNumber _ \<Rightarrow> adx_cache_find s a key | _ \<Rightarrow> Some NULL) = Some NULL"
    using assms(4) by (cases key) auto
  show ?thesis
  proof (cases "alloc (cpool s) SIZEOF_CACHE")
    case None
    then show ?thesis using assms(6) look assms(1) err by (simp add: adx_cache_add_def adx_cache_create_def child_sizes_def)
  next
    case (Some x)
    then obtain m p where x: "alloc (cpool s) SIZEOF_CACHE = Some (m, p)" "p \<noteq> NULL" using assms(5) by (cases x) auto
    obtain m1 k' where k': "adx_cache_value_copy alloc m key = (m1, k')" by fastforce
    obtain m2 v' where v': "adx_cache_value_copy alloc m1 val = (m2, v')" by fastforce
    let ?s = "s\<lparr>cheap := (cheap s)(p \<mapsto> new_cache), cpool := m2\<rparr>"
    have "adx_cache_add alloc s a key val = (if k' = VError \<or> v' = VError then Some (?s, NULL)
        else do { s \<leftarrow> link_child ?s a p k' v'; Some (s, p) })"
      using look assms(1-3) err x k' v' by (simp add: adx_cache_add_def adx_cache_create_def cong: if_cong)
    with assms(6) have "(if k' = VError \<or> v' = VError then Some (?s, NULL)
        else do { s \<leftarrow> link_child ?s a p k' v'; Some (s, p) }) = Some (s', q)" by simp
    then have "q = NULL \<longleftrightarrow> k' = VError \<or> v' = VError" using x(2) by (auto simp: bind_eq_Some_conv split: if_splits)
    then show ?thesis using value_copy_fails [OF k' err(1)] value_copy_fails(1) [OF v' err(2)] x(1)
      by (auto simp: child_sizes_def alloc_fails_append)
  qed
qed

text \<open>
  C31. \<open>adx_cache_add\<close> on any node of a well-formed cache: a string or number key that a child of the
  node already has is answered with that child, and nothing changes (its value is not replaced).
  Otherwise, exactly if one of the allocations of this call fails (the node, or the copy of a string key or
  value), a null pointer is returned and the cache holds what it held before; and if they all succeed a
  new child with the key and the value is appended, at an address that was not in use,
  and afterwards \<open>adx_cache_find\<close> returns it for its key and for its position.  In every case the list of
  children, the counter, the parent pointers and all three indexes of every node stay consistent.
\<close>

theorem adx_cache_add_refines:
  assumes "node_allocator alloc ok live" "cache_rep ok live s t" "u \<in> set (subs t)" "key_type_ok key" "val_type_ok val"
    "int (length (kids u)) < INT_MAX"
  shows "\<exists>s' p. adx_cache_add alloc s (caddr u) key val = Some (s', p) \<and>
    (if \<not> is_array key \<and> kid_of u key \<noteq> None then s' = s \<and> p = addr_of (kid_of u key)
     else if alloc_fails alloc (cpool s) (child_sizes key val) then p = NULL \<and> cache_rep ok live s' t
     else p \<notin> set (addrs t) \<and> cache_rep ok live s' (graft (caddr u) (CT p key val []) t) \<and>
       (\<not> is_array key \<longrightarrow> adx_cache_find s' (caddr u) key = Some p) \<and>
       adx_cache_find s' (caddr u) (VArray (int (length (kids u)))) = Some p)"
proof -
  have kid: "kid_with (kids u) key = map_option caddr (kid_of u key)" if "\<not> is_array key"
    using that assms(4) by (cases key) (auto simp: kid_with_def kid_of_def is_array_def key_type_ok_def)
  have arr: "(\<exists>i. key = VArray i) \<longleftrightarrow> is_array key" by (cases key) (simp_all add: is_array_def)
  have d: "distinct (addrs t)" and c: "crep (cheap s) NULL t" "ok (cpool s)" using assms(2) by (simp_all add: cache_rep_def)
  have null: "q = NULL \<longleftrightarrow> alloc_fails alloc (cpool s) (child_sizes key val)"
    if "(\<exists>i. key = VArray i) \<or> kid_with (kids u) key = None" "adx_cache_add alloc s (caddr u) key val = Some (s', q)" for s' q
  proof (rule add_null_iff [OF crep_node [OF c(1) assms(3)] assms(4,5) _ _ that(2)])
    show "(\<exists>i. key = VArray i) \<or> adx_cache_find s (caddr u) key = Some NULL"
      using that(1) assms(4) find_node [OF c(1) assms(3), of key] by (cases key) (auto simp: key_type_ok_def)
    fix m p assume "alloc (cpool s) SIZEOF_CACHE = Some (m, p)"
    then show "p \<noteq> NULL" using node_allocator.alloc_fresh [OF assms(1) c(2), of SIZEOF_CACHE m p] by simp
  qed
  show ?thesis
  proof (rule node_allocator.add_spec [OF assms])
    fix p assume "\<forall>i. key \<noteq> VArray i" "kid_with (kids u) key = Some p" "adx_cache_add alloc s (caddr u) key val = Some (s, p)"
    then show ?thesis using arr kid by (auto simp: addr_of_def)
  next
    fix s' assume "(\<exists>i. key = VArray i) \<or> kid_with (kids u) key = None"
      "adx_cache_add alloc s (caddr u) key val = Some (s', NULL)" "cache_rep ok live s' t"
    then show ?thesis using arr kid null by auto
  next
    fix s' p assume a: "(\<exists>i. key = VArray i) \<or> kid_with (kids u) key = None"
      "adx_cache_add alloc s (caddr u) key val = Some (s', p)" "p \<noteq> NULL" "p \<notin> set (addrs t)"
      "cache_rep ok live s' (graft (caddr u) (CT p key val []) t)"
    let ?n = "CT p key val []"
    let ?u = "CT (caddr u) (tkey u) (tval u) (kids u @ [?n])"
    have "?u \<in> set (subs (graft (caddr u) ?n t))" unfolding graft_setkids [OF d assms(3)] by (rule setkids_subs [OF d assms(3)])
    then have f: "adx_cache_find s' (caddr u) k = Some (addr_of (kid_of ?u k))" for k
      using find_kid [of s' "graft (caddr u) ?n t" ?u k] a(5) by (simp add: cache_rep_def)
    have "kid_of ?u key = Some ?n" if na: "\<not> is_array key"
    proof -
      have "find (\<lambda>t. tkey t = key) (kids u) = None" using a(1) arr na by (auto simp: kid_with_def)
      then show ?thesis using find_snoc [of "\<lambda>t. tkey t = key" "kids u" ?n] na assms(4)
        by (cases key) (auto simp: kid_of_def is_array_def key_type_ok_def)
    qed
    moreover have "kid_of ?u (VArray (int (length (kids u)))) = Some ?n" by (simp add: kid_of_def)
    moreover have "\<not> (\<not> is_array key \<and> kid_of u key \<noteq> None)" using a(1) arr kid by auto
    moreover have "\<not> alloc_fails alloc (cpool s) (child_sizes key val)" using null [OF a(1,2)] a(3) by simp
    ultimately show ?thesis using a f by (auto simp: addr_of_def)
  qed
qed

text \<open>
  \<open>adx_cache_find_args\<close> walks down: from any node of a well-formed cache, with a list of string,
  number and position keys closed by the null value, it returns the node that is reached by taking
  the child with each key in turn, and a null pointer if one of them does not exist.  A position
  outside of the children does not exist.
\<close>

theorem adx_cache_find_args_path:
  assumes "cache_rep ok live s t" "u \<in> set (subs t)" "list_all key_type_ok keys"
  shows "adx_cache_find_args s (caddr u) (keys @ VNull # rest) = Some (addr_of (cache_descend u keys))"
  using find_args_descend [of s t u keys rest] assms by (simp add: cache_rep_def)

text \<open>
  Positions in \<open>adx_cache_find_array_loop\<close> wrap around, but for one: in a node with \<open>n > 0\<close> children
  an index below \<open>n\<close> gives the child at that position and an index above \<open>n\<close> the child at the index
  modulo \<open>n\<close>, while the index \<open>n\<close> itself gives a null pointer.
\<close>

theorem adx_cache_find_array_loop_wraps:
  assumes "cache_rep ok live s t" "u \<in> set (subs t)" "kids u \<noteq> []" "0 \<le> i"
  shows "adx_cache_find_array_loop s (caddr u) i =
    Some (if i = int (length (kids u)) then NULL else caddr (kids u ! nat (i mod int (length (kids u)))))"
proof -
  let ?n = "int (length (kids u))"
  have c: "crep (cheap s) NULL t" using assms(1) by (simp add: cache_rep_def)
  obtain par where par: "caddr u \<noteq> NULL" "cheap s (caddr u) = Some (node_of par (tkey u) (tval u) (kids u))"
    by (rule crep_node [OF c assms(2)])
  have n: "0 < ?n" using assms(3) by simp
  then have m: "0 \<le> i mod ?n" "i mod ?n < ?n" by simp_all
  have "adx_cache_find_array_loop s (caddr u) i = adx_cache_find s (caddr u) (VArray (if i > ?n then i mod ?n else i))"
    using par n by (simp add: adx_cache_find_array_loop_def node_of_def adx_cache_value_array_def)
  also have "\<dots> = Some (addr_of (kid_of u (VArray (if i > ?n then i mod ?n else i))))" by (rule find_kid [OF c assms(2)])
  also have "\<dots> = Some (if i = ?n then NULL else caddr (kids u ! nat (i mod ?n)))"
    using m assms(4) by (cases "i < ?n") (auto simp: kid_of_def addr_of_def)
  finally show ?thesis .
qed

text \<open>
  C28. \<open>adx_cache_from_json\<close> refines the loading of a tree: started on a node of a well-formed cache,
  with enough room in the pool and below \<open>2 ^ 31\<close> nodes, it returns 0, leaves the cache
  well-formed, changes only the children of that node, and these are, with everything below them,
  what \<open>load_json\<close> makes of the former children: members become children with string keys, elements
  children with array keys, an existing key keeps its value and gets further children, numbers are
  read as 32-bit integers, empty members are left out.
\<close>

theorem adx_cache_from_json_refines:
  assumes "node_room alloc ok live room" "cache_rep ok live s t" "u \<in> set (subs t)" "room (cpool s) (json_cost j)"
    "int (length (addrs t) + json_size j) < INT_MAX"
  shows "\<exists>s' ts'. adx_cache_from_json alloc s (caddr u) j = Some (s', 0) \<and>
    cache_rep ok live s' (setkids (caddr u) ts' t) \<and> map erase ts' = load_json (map erase (kids u)) j"
  by (rule from_json_load [OF assms])

section \<open>Witnesses\<close>

text \<open>A pool in the arena with one cache node in it.\<close>

definition cache0 :: "arena mem cache_mem \<times> addr" where
  "cache0 = adx_cache_create (pool_alloc arena_malloc 16) \<lparr>cheap = Map.empty, cpool = pool_mem\<rparr>"

lemma pool_mem_room: "pool_ok (\<lambda>m. set (used m)) 16 pool_mem" "arena_room pool_mem 65536"
proof -
  show "pool_ok (\<lambda>m. set (used m)) 16 pool_mem" using pool_mem(2,3) by (auto simp: pool_ok_def)
  show "arena_room pool_mem 65536"
    by (simp add: pool_mem_def empty_mem_def adx_pool_create_def mem_malloc_def arena_malloc_def Let_def
        adx_list_init_def set_next_def set_prev_def arena_room_def)
qed

lemma cache0_rep:
  obtains s a where "cache0 = (s, a)" "cache_rep (pool_ok (\<lambda>m. set (used m)) 16) pool_live s (CT a VUnset VUnset [])"
    "arena_room (cpool s) 65000"
proof -
  have "arena_room pool_mem (SIZEOF_CACHE + 64 + 65264)" using pool_mem_room(2) by simp
  from arena_pool.room_alloc [OF pool_mem_room(1) this] obtain m a where
    m: "pool_alloc arena_malloc 16 pool_mem SIZEOF_CACHE = Some (m, a)" "arena_room m 65264" by blast
  have f: "pool_ok (\<lambda>m. set (used m)) 16 m" "a \<noteq> NULL" "pool_live m = insert a (pool_live pool_mem)"
    using arena_nodes.alloc_fresh [OF pool_mem_room(1) m(1)] by auto
  let ?s = "\<lparr>cheap = [a \<mapsto> new_cache], cpool = m\<rparr>"
  have "node_of NULL VUnset VUnset [] = new_cache"
    by (simp add: node_of_def new_cache_def kid_with_def kid_at_def fun_eq_iff)
  then have "cache_rep (pool_ok (\<lambda>m. set (used m)) 16) pool_live ?s (CT a VUnset VUnset [])"
    using f by (simp add: cache_rep_def)
  moreover have "cache0 = (?s, a)" using m(1) by (simp add: cache0_def adx_cache_create_def)
  moreover have "arena_room m 65000" using m(2) by (auto simp: arena_room_def)
  ultimately show thesis using that [of ?s a] by simp
qed

abbreviation pool16_ok :: "arena mem \<Rightarrow> bool" where
  "pool16_ok \<equiv> pool_ok (\<lambda>m. set (used m)) 16"

definition bid_cache_json :: adx_json_t where
  "bid_cache_json = Json JSON_UNSET None None 0 [Json JSON_NUMBER (Some ''bid'') (Some ''12'') 0 []]"

lemma bid_json_load: "load_json [] bid_cache_json = [VT (VString ''bid'') (VNumber 12) []]"
proof -
  have "atoi ''12'' = 12" by (simp add: atoi_def atol_def strtol_def isspace_def isdigit_def digit_val_def)
  then show ?thesis by (simp add: bid_cache_json_def is_leaf_def load_leaf_def v_add_def leaf_value_def)
qed

lemma bid_json_small: "json_cost bid_cache_json \<le> 65000" "json_size bid_cache_json \<le> 100"
  by (simp_all add: bid_cache_json_def add_cost_def copy_cost_def)

lemma bid_json_room: "arena_room m 65000 \<Longrightarrow> arena_room m (json_cost bid_cache_json)"
  using bid_json_small(1) by (auto simp: arena_room_def)

text \<open>With room for 65000 bytes the allocations of a small child succeed.\<close>

lemma arena_serves: "pool16_ok m \<Longrightarrow> arena_room m (sum_list (map (\<lambda>n. n + 64) ns)) \<Longrightarrow> \<not> alloc_fails (pool_alloc arena_malloc 16) m ns"
proof (induction ns arbitrary: m)
  case (Cons n ns)
  then have "arena_room m (n + 64 + sum_list (map (\<lambda>n. n + 64) ns))" by simp
  from arena_pool.room_alloc [OF Cons.prems(1) this] obtain m' p where
    m: "pool_alloc arena_malloc 16 m n = Some (m', p)" "arena_room m' (sum_list (map (\<lambda>n. n + 64) ns))" by blast
  have "pool16_ok m'" using arena_nodes.alloc_fresh [OF Cons.prems(1) m(1)] by simp
  then show ?case using Cons.IH [OF _ m(2)] m(1) by simp
qed simp

theorem adx_cache_add_refines_witness:
  "\<exists>s p. adx_cache_add (pool_alloc arena_malloc 16) (fst cache0) (snd cache0) (VString ''bid'') (VNumber 7) = Some (s, p) \<and>
    p \<noteq> snd cache0 \<and> cache_rep pool16_ok pool_live s (CT (snd cache0) VUnset VUnset [CT p (VString ''bid'') (VNumber 7) []]) \<and>
    adx_cache_find s (snd cache0) (VString ''bid'') = Some p"
proof -
  obtain s a where c: "cache0 = (s, a)" "cache_rep pool16_ok pool_live s (CT a VUnset VUnset [])" "arena_room (cpool s) 65000"
    by (rule cache0_rep)
  have k: "key_type_ok (VString ''bid'')" "val_type_ok (VNumber 7)" by (simp_all add: key_type_ok_def val_type_ok_def)
  have "arena_room (cpool s) (sum_list (map (\<lambda>n. n + 64) (child_sizes (VString ''bid'') (VNumber 7))))"
    using c(3) by (auto simp: arena_room_def child_sizes_def text_size_def)
  then have "\<not> alloc_fails (pool_alloc arena_malloc 16) (cpool s) (child_sizes (VString ''bid'') (VNumber 7))"
    using arena_serves c(2) by (simp add: cache_rep_def)
  with adx_cache_add_refines [OF arena_nodes.node_allocator_axioms c(2) _ k, of "CT a VUnset VUnset []"]
  show ?thesis by (auto simp: c(1) kid_of_def is_array_def)
qed

theorem adx_cache_find_args_path_witness:
  "adx_cache_find_args (fst cache0) (snd cache0) [VString ''a'', VArray 2, VNull] = Some NULL"
proof -
  obtain s a where c: "cache0 = (s, a)" "cache_rep pool16_ok pool_live s (CT a VUnset VUnset [])"
    by (rule cache0_rep)
  from adx_cache_find_args_path [OF c(2), of "CT a VUnset VUnset []" "[VString ''a'', VArray 2]" "[]"]
  have "adx_cache_find_args s a [VString ''a'', VArray 2, VNull] = Some NULL"
    by (simp add: key_type_ok_def kid_of_def addr_of_def del: adx_cache_find_args.simps)
  then show ?thesis by (simp add: c(1) del: adx_cache_find_args.simps)
qed

theorem adx_cache_find_array_loop_wraps_witness:
  "\<exists>s a p. adx_cache_from_json (pool_alloc arena_malloc 16) (fst cache0) (snd cache0) bid_cache_json = Some (s, 0) \<and>
    snd cache0 = a \<and> adx_cache_find_array_loop s a 0 = Some p \<and> adx_cache_find_array_loop s a 1 = Some NULL \<and>
    adx_cache_find_array_loop s a 2 = Some p \<and> p \<noteq> NULL"
proof -
  obtain s a where c: "cache0 = (s, a)" "cache_rep pool16_ok pool_live s (CT a VUnset VUnset [])" "arena_room (cpool s) 65000"
    by (rule cache0_rep)
  from from_json_load [OF arena_pool.node_room_axioms c(2) _ bid_json_room [OF c(3)], of "CT a VUnset VUnset []"] bid_json_small(2)
  obtain s' ts' where r: "adx_cache_from_json (pool_alloc arena_malloc 16) s a bid_cache_json = Some (s', 0)"
    "cache_rep pool16_ok pool_live s' (CT a VUnset VUnset ts')" "map erase ts' = [VT (VString ''bid'') (VNumber 12) []]"
    by (auto simp: bid_json_load)
  from r(3) obtain k where k: "ts' = [k]" by auto
  let ?t = "CT a VUnset VUnset [k]"
  have rep: "cache_rep pool16_ok pool_live s' ?t" using r(2) k by simp
  have u: "?t \<in> set (subs ?t)" by simp
  have "crep (cheap s') NULL ?t" using rep by (simp add: cache_rep_def)
  then have "caddr k \<noteq> NULL" by (rule sub_not_null) (cases k, simp)
  moreover have "adx_cache_find_array_loop s' a 0 = Some (caddr k)" "adx_cache_find_array_loop s' a 1 = Some NULL"
    "adx_cache_find_array_loop s' a 2 = Some (caddr k)"
    using adx_cache_find_array_loop_wraps [OF rep u, of 0] adx_cache_find_array_loop_wraps [OF rep u, of 1]
      adx_cache_find_array_loop_wraps [OF rep u, of 2] by simp_all
  ultimately show ?thesis using r(1) unfolding c(1) fst_conv snd_conv by blast
qed

theorem adx_cache_from_json_refines_witness:
  "\<exists>s' ts'. adx_cache_from_json (pool_alloc arena_malloc 16) (fst cache0) (snd cache0) bid_cache_json = Some (s', 0) \<and>
    cache_rep pool16_ok pool_live s' (CT (snd cache0) VUnset VUnset ts') \<and>
    map erase ts' = [VT (VString ''bid'') (VNumber 12) []]"
proof -
  obtain s a where c: "cache0 = (s, a)" "cache_rep pool16_ok pool_live s (CT a VUnset VUnset [])" "arena_room (cpool s) 65000"
    by (rule cache0_rep)
  from adx_cache_from_json_refines [OF arena_pool.node_room_axioms c(2) _ bid_json_room [OF c(3)], of "CT a VUnset VUnset []"] bid_json_small(2)
  obtain s' ts' where r: "adx_cache_from_json (pool_alloc arena_malloc 16) s a bid_cache_json = Some (s', 0)"
    "cache_rep pool16_ok pool_live s' (CT a VUnset VUnset ts')" "map erase ts' = [VT (VString ''bid'') (VNumber 12) []]"
    by (auto simp: bid_json_load)
  then show ?thesis unfolding c(1) fst_conv snd_conv by (intro exI conjI)
qed

end
