(* ===== verification/Ngx_Rbtree.thy ===== *)
theory Ngx_Rbtree
  imports Adx_Prelude
begin

text \<open>
  The red-black tree of nginx as far as the protocol-buffer library uses it: insertion
  (\<^verbatim>\<open>ngx_rbtree_insert\<close> with \<^verbatim>\<open>ngx_rbtree_insert_value\<close>), and the lookup and the bounded traversal
  of \<^verbatim>\<open>ngx_protobuf.c\<close>.

  The tree is a datatype, the sentinel is \<open>Sentinel\<close>.  The parent pointers, which insertion follows
  upwards, are a context: the list of the frames between a node and the root, innermost first.  A
  frame is the parent without the subtree the context is about.  A parent that does not exist is
  \<open>None\<close>.
\<close>

section \<open>Model\<close>

datatype ngx_color = Red | Black

type_synonym ngx_rbtree_key_t = "64 word"

datatype 'v ngx_rbtree_node_t =
  Sentinel
| Node ngx_color "'v ngx_rbtree_node_t" ngx_rbtree_key_t 'v "'v ngx_rbtree_node_t"

datatype 'v frame =
  LeftOf ngx_color ngx_rbtree_key_t 'v "'v ngx_rbtree_node_t"
| RightOf ngx_color "'v ngx_rbtree_node_t" ngx_rbtree_key_t 'v

fun ngx_rbt_is_red :: "'v ngx_rbtree_node_t \<Rightarrow> bool" where
  "ngx_rbt_is_red Sentinel = False"
| "ngx_rbt_is_red (Node c l k v r) = (c = Red)"

fun ngx_rbt_black :: "'v ngx_rbtree_node_t \<Rightarrow> 'v ngx_rbtree_node_t" where
  "ngx_rbt_black Sentinel = Sentinel"
| "ngx_rbt_black (Node c l k v r) = Node Black l k v r"

fun frame_red :: "'v frame \<Rightarrow> bool" where
  "frame_red (LeftOf c k v r) = (c = Red)"
| "frame_red (RightOf c l k v) = (c = Red)"

fun ngx_plug :: "'v ngx_rbtree_node_t \<Rightarrow> 'v frame \<Rightarrow> 'v ngx_rbtree_node_t" where
  "ngx_plug t (LeftOf c k v r) = Node c t k v r"
| "ngx_plug t (RightOf c l k v) = Node c l k v t"

definition plug_all :: "'v ngx_rbtree_node_t \<Rightarrow> 'v frame list \<Rightarrow> 'v ngx_rbtree_node_t" where
  "plug_all t fs = foldl ngx_plug t fs"

text \<open>The descent to the free place: an equal key goes to the right.\<close>

fun ngx_rbtree_insert_value :: "'v ngx_rbtree_node_t \<Rightarrow> ngx_rbtree_key_t \<Rightarrow> 'v frame list \<Rightarrow> 'v frame list" where
  "ngx_rbtree_insert_value Sentinel key fs = fs"
| "ngx_rbtree_insert_value (Node c l k v r) key fs =
     (if key < k then ngx_rbtree_insert_value l key (LeftOf c k v r # fs)
      else ngx_rbtree_insert_value r key (RightOf c l k v # fs))"

text \<open>
  The loop that rebalances, at a red node \<open>t\<close>: with a red uncle the colours move up two levels;
  with a black uncle one or two rotations end it.
\<close>

fun rebalance :: "'v ngx_rbtree_node_t \<Rightarrow> 'v frame list \<Rightarrow> 'v ngx_rbtree_node_t option" where
  "rebalance t [] = Some (ngx_rbt_black t)"
| "rebalance t [f] = (if frame_red f then None else Some (ngx_rbt_black (ngx_plug t f)))"
| "rebalance t (f # g # fs) =
     (if \<not> frame_red f then Some (ngx_rbt_black (plug_all t (f # g # fs)))
      else case g of
        LeftOf gc gk gv temp \<Rightarrow>
          if ngx_rbt_is_red temp
          then rebalance (Node Red (ngx_rbt_black (ngx_plug t f)) gk gv (ngx_rbt_black temp)) fs
          else (case f of
              LeftOf pc pk pv pr \<Rightarrow> Some (ngx_rbt_black (plug_all (Node Black t pk pv (Node Red pr gk gv temp)) fs))
            | RightOf pc pl pk pv \<Rightarrow>
                (case t of Sentinel \<Rightarrow> None
                 | Node c l k v r \<Rightarrow>
                     Some (ngx_rbt_black (plug_all (Node Black (Node pc pl pk pv l) k v (Node Red r gk gv temp)) fs))))
      | RightOf gc temp gk gv \<Rightarrow>
          if ngx_rbt_is_red temp
          then rebalance (Node Red (ngx_rbt_black temp) gk gv (ngx_rbt_black (ngx_plug t f))) fs
          else (case f of
              RightOf pc pl pk pv \<Rightarrow> Some (ngx_rbt_black (plug_all (Node Black (Node Red temp gk gv pl) pk pv t) fs))
            | LeftOf pc pk pv pr \<Rightarrow>
                (case t of Sentinel \<Rightarrow> None
                 | Node c l k v r \<Rightarrow>
                     Some (ngx_rbt_black (plug_all (Node Black (Node Red temp gk gv l) k v (Node pc r pk pv pr)) fs)))))"

definition ngx_rbtree_insert :: "'v ngx_rbtree_node_t \<Rightarrow> ngx_rbtree_key_t \<Rightarrow> 'v \<Rightarrow> 'v ngx_rbtree_node_t option" where
  "ngx_rbtree_insert root key val =
     (if root = Sentinel then Some (Node Black Sentinel key val Sentinel)
      else rebalance (Node Red Sentinel key val Sentinel) (ngx_rbtree_insert_value root key []))"

fun ngx_protobuf_find_node :: "'v ngx_rbtree_node_t \<Rightarrow> 32 word \<Rightarrow> 'v option" where
  "ngx_protobuf_find_node Sentinel field = None"
| "ngx_protobuf_find_node (Node c l k v r) field =
     (if ucast field < k then ngx_protobuf_find_node l field
      else if ucast field > k then ngx_protobuf_find_node r field
      else Some v)"

text \<open>A write to a field of the node that \<open>ngx_protobuf_find_node\<close> returned.\<close>

fun update_node :: "'v ngx_rbtree_node_t \<Rightarrow> 32 word \<Rightarrow> 'v \<Rightarrow> 'v ngx_rbtree_node_t" where
  "update_node Sentinel field w = Sentinel"
| "update_node (Node c l k v r) field w =
     (if ucast field < k then Node c (update_node l field w) k v r
      else if ucast field > k then Node c l k v (update_node r field w)
      else Node c l k w r)"

datatype ngx_int_t = NGX_OK | NGX_ERROR | NGX_DECLINED | NGX_ABORT

fun key_at_least :: "'v ngx_rbtree_node_t \<Rightarrow> ngx_rbtree_key_t \<Rightarrow> bool" where
  "key_at_least Sentinel lower = False"
| "key_at_least (Node c l k v r) lower = (k \<ge> lower)"

fun key_at_most :: "'v ngx_rbtree_node_t \<Rightarrow> ngx_rbtree_key_t \<Rightarrow> bool" where
  "key_at_most Sentinel upper = False"
| "key_at_most (Node c l k v r) upper = (k \<le> upper)"

text \<open>
  The traversal; the callback works on the object \<open>s\<close> behind its data pointer and may itself fail
  (\<open>None\<close>).
\<close>

fun ngx_protobuf_rbtree_node_iterate ::
    "'v ngx_rbtree_node_t \<Rightarrow> ngx_rbtree_key_t \<Rightarrow> ngx_rbtree_key_t \<Rightarrow> ('v \<Rightarrow> 's \<Rightarrow> ('s \<times> ngx_int_t) option) \<Rightarrow> 's \<Rightarrow> ('s \<times> ngx_int_t) option" where
  "ngx_protobuf_rbtree_node_iterate Sentinel lower upper fptr s = None"
| "ngx_protobuf_rbtree_node_iterate (Node c l k v r) lower upper fptr s = do {
     (s, rc) \<leftarrow> (if key_at_least l lower then ngx_protobuf_rbtree_node_iterate l lower upper fptr s else Some (s, NGX_OK));
     if rc \<noteq> NGX_OK then Some (s, rc)
     else do {
       (s, rc) \<leftarrow> (if k \<ge> lower \<and> k \<le> upper then fptr v s else Some (s, NGX_OK));
       if rc \<noteq> NGX_OK then Some (s, rc)
       else do {
         (s, rc) \<leftarrow> (if key_at_most r upper then ngx_protobuf_rbtree_node_iterate r lower upper fptr s else Some (s, NGX_OK));
         if rc \<noteq> NGX_OK then Some (s, rc) else Some (s, NGX_OK) } } }"

definition ngx_protobuf_rbtree_iterate ::
    "'v ngx_rbtree_node_t \<Rightarrow> ngx_rbtree_key_t \<Rightarrow> ngx_rbtree_key_t \<Rightarrow> ('v \<Rightarrow> 's \<Rightarrow> ('s \<times> ngx_int_t) option) \<Rightarrow> 's \<Rightarrow> ('s \<times> ngx_int_t) option" where
  "ngx_protobuf_rbtree_iterate root lower upper fptr s =
     (if root \<noteq> Sentinel then ngx_protobuf_rbtree_node_iterate root lower upper fptr s else Some (s, NGX_OK))"

section \<open>Entries\<close>

fun entries :: "'v ngx_rbtree_node_t \<Rightarrow> (ngx_rbtree_key_t \<times> 'v) list" where
  "entries Sentinel = []"
| "entries (Node c l k v r) = entries l @ (k, v) # entries r"

fun ngx_before :: "'v frame list \<Rightarrow> (ngx_rbtree_key_t \<times> 'v) list" where
  "ngx_before [] = []"
| "ngx_before (LeftOf c k v r # fs) = ngx_before fs"
| "ngx_before (RightOf c l k v # fs) = ngx_before fs @ entries l @ [(k, v)]"

fun behind :: "'v frame list \<Rightarrow> (ngx_rbtree_key_t \<times> 'v) list" where
  "behind [] = []"
| "behind (LeftOf c k v r # fs) = (k, v) # entries r @ behind fs"
| "behind (RightOf c l k v # fs) = behind fs"

abbreviation keys :: "'v ngx_rbtree_node_t \<Rightarrow> ngx_rbtree_key_t list" where
  "keys t \<equiv> map fst (entries t)"

definition ngx_ordered :: "'v ngx_rbtree_node_t \<Rightarrow> bool" where
  "ngx_ordered t \<longleftrightarrow> sorted_wrt (<) (keys t)"

lemma ordered_Sentinel [simp]: "ngx_ordered Sentinel"
  by (simp add: ngx_ordered_def)

lemma ordered_Node [simp]:
  "ngx_ordered (Node c l k v r) \<longleftrightarrow> ngx_ordered l \<and> ngx_ordered r \<and> (\<forall>x \<in> set (keys l). x < k) \<and> (\<forall>x \<in> set (keys r). k < x)"
  by (force simp: ngx_ordered_def sorted_wrt_append)

lemma plug_all_simps [simp]: "plug_all t [] = t" "plug_all t (f # fs) = plug_all (ngx_plug t f) fs"
  by (simp_all add: plug_all_def)

lemma entries_plug: "entries (ngx_plug t f) = ngx_before [f] @ entries t @ behind [f]"
  by (cases f) simp_all

lemma entries_plug_all: "entries (plug_all t fs) = ngx_before fs @ entries t @ behind fs"
proof (induction fs arbitrary: t)
  case (Cons f fs)
  then show ?case by (cases f) simp_all
qed simp

lemma entries_black [simp]: "entries (ngx_rbt_black t) = entries t"
  by (cases t) simp_all

lemma entries_rebalance: "rebalance t fs = Some t' \<Longrightarrow> entries t' = entries (plug_all t fs)"
  by (induction t fs rule: rebalance.induct)
    (auto simp: entries_plug_all entries_plug split: if_splits frame.splits ngx_rbtree_node_t.splits)

lemma insert_value_before:
  "ngx_ordered t \<Longrightarrow> ngx_before (ngx_rbtree_insert_value t key fs) = ngx_before fs @ filter (\<lambda>e. fst e \<le> key) (entries t)"
proof (induction t key fs rule: ngx_rbtree_insert_value.induct)
  case (2 c l k v r key fs)
  show ?case
  proof (cases "key < k")
    case True
    then have "filter (\<lambda>e. fst e \<le> key) (entries r) = []" using 2(3) by (force simp: filter_empty_conv)
    then show ?thesis using 2 True by simp
  next
    case False
    then have "filter (\<lambda>e. fst e \<le> key) (entries l) = entries l" using 2(3) by (force simp: filter_id_conv)
    then show ?thesis using 2 False by simp
  qed
qed simp

lemma insert_value_behind:
  "ngx_ordered t \<Longrightarrow> behind (ngx_rbtree_insert_value t key fs) = filter (\<lambda>e. key < fst e) (entries t) @ behind fs"
proof (induction t key fs rule: ngx_rbtree_insert_value.induct)
  case (2 c l k v r key fs)
  show ?case
  proof (cases "key < k")
    case True
    then have "filter (\<lambda>e. key < fst e) (entries r) = entries r" using 2(3) by (force simp: filter_id_conv)
    then show ?thesis using 2 True by simp
  next
    case False
    then have "filter (\<lambda>e. key < fst e) (entries l) = []" using 2(3) by (force simp: filter_empty_conv)
    then show ?thesis using 2 False by simp
  qed
qed simp

lemma entries_insert:
  assumes "ngx_rbtree_insert t key val = Some t'" "ngx_ordered t"
  shows "entries t' = filter (\<lambda>e. fst e \<le> key) (entries t) @ (key, val) # filter (\<lambda>e. key < fst e) (entries t)"
  using assms entries_rebalance [of _ "ngx_rbtree_insert_value t key []" t']
  by (auto simp: ngx_rbtree_insert_def entries_plug_all insert_value_before insert_value_behind split: if_splits)

lemma ordered_insert:
  assumes "ngx_rbtree_insert t key val = Some t'" "ngx_ordered t" "key \<notin> set (keys t)"
  shows "ngx_ordered t'"
proof -
  have "sorted_wrt (\<lambda>a b. fst a < fst b) (entries t)" using assms(2) by (simp add: ngx_ordered_def sorted_wrt_map)
  then have "sorted_wrt (\<lambda>a b. fst a < fst b) (entries t')"
    using assms(3) unfolding entries_insert [OF assms(1,2)]
    by (force simp: sorted_wrt_append sorted_wrt_filter order.order_iff_strict)
  then show ?thesis by (simp add: ngx_ordered_def sorted_wrt_map)
qed

section \<open>Lookup\<close>

lemma find_node_map_of: "ngx_ordered t \<Longrightarrow> ngx_protobuf_find_node t f = map_of (entries t) (ucast f)"
proof (induction t)
  case (Node c l k v r)
  have l: "map_of (entries l) (ucast f) = None" if "k \<le> ucast f"
    using Node.prems that by (force simp: map_of_eq_None_iff)
  have r: "map_of (entries r) (ucast f) = None" if "ucast f < k"
    using Node.prems that by (force simp: map_of_eq_None_iff)
  show ?case using Node l r by (auto simp: map_add_def not_less split: option.splits)
qed simp

lemma find_node_insert:
  assumes "ngx_rbtree_insert t key val = Some t'" "ngx_ordered t" "key \<notin> set (keys t)"
  shows "ngx_protobuf_find_node t' f = (if ucast f = key then Some val else ngx_protobuf_find_node t f)"
proof -
  have o: "ngx_ordered t'" by (rule ordered_insert [OF assms])
  have d: "distinct (keys t)" "distinct (keys t')"
    using assms(2) o by (auto simp: ngx_ordered_def intro: strict_sorted_iff [THEN iffD1, THEN conjunct2])
  have s: "set (entries t') = insert (key, val) (set (entries t))"
    unfolding entries_insert [OF assms(1,2)] using assms(3) by (auto simp: not_le)
  have "map_of (entries t') (ucast f) = Some w \<longleftrightarrow>
      (if ucast f = key then Some val else map_of (entries t) (ucast f)) = Some w" for w
    using assms(3) by (force simp: map_of_eq_Some_iff d s)
  then show ?thesis unfolding find_node_map_of [OF o] find_node_map_of [OF assms(2)]
    by (metis option.exhaust)
qed

lemma update_node_keys: "keys (update_node t f w) = keys t"
  by (induction t) auto

lemma update_node_ordered: "ngx_ordered (update_node t f w) \<longleftrightarrow> ngx_ordered t"
  by (simp add: ngx_ordered_def update_node_keys)

lemma ucast_inj [simp]: "(ucast (f :: 32 word) :: 64 word) = ucast g \<longleftrightarrow> f = g"
proof -
  have "ucast (ucast h :: 64 word) = h" for h :: "32 word"
    by (rule bit_word_eqI) (simp add: bit_ucast_iff)
  then show ?thesis by metis
qed

lemma find_update_node:
  assumes "ngx_ordered t" "ngx_protobuf_find_node t f \<noteq> None"
  shows "ngx_protobuf_find_node (update_node t f w) g = (if g = f then Some w else ngx_protobuf_find_node t g)"
  using assms
proof (induction t)
  case (Node c l k v r)
  show ?case
  proof (cases "ucast f :: 64 word" k rule: linorder_cases)
    case less
    then show ?thesis using Node by (cases "ucast g :: 64 word" k rule: linorder_cases) auto
  next
    case equal
    then show ?thesis using Node by (cases "ucast g :: 64 word" k rule: linorder_cases) auto
  next
    case greater
    then show ?thesis using Node by (cases "ucast g :: 64 word" k rule: linorder_cases) auto
  qed
qed simp

section \<open>Balance\<close>

fun ngx_bh :: "'v ngx_rbtree_node_t \<Rightarrow> nat" where
  "ngx_bh Sentinel = 0"
| "ngx_bh (Node c l k v r) = ngx_bh l + (if c = Red then 0 else 1)"

fun balanced :: "'v ngx_rbtree_node_t \<Rightarrow> bool" where
  "balanced Sentinel = True"
| "balanced (Node c l k v r) = (balanced l \<and> balanced r \<and> ngx_bh l = ngx_bh r \<and>
     (c = Red \<longrightarrow> \<not> ngx_rbt_is_red l \<and> \<not> ngx_rbt_is_red r))"

definition ngx_rb_tree :: "'v ngx_rbtree_node_t \<Rightarrow> bool" where
  "ngx_rb_tree t \<longleftrightarrow> balanced t \<and> \<not> ngx_rbt_is_red t"

fun sibling :: "'v frame \<Rightarrow> 'v ngx_rbtree_node_t" where
  "sibling (LeftOf c k v r) = r"
| "sibling (RightOf c l k v) = l"

text \<open>A context for a subtree of black height \<open>n\<close>, in which only its innermost frame may end at a red node.\<close>

fun fits :: "'v frame list \<Rightarrow> nat \<Rightarrow> bool" where
  "fits [] n = True"
| "fits (f # fs) n = (balanced (sibling f) \<and> ngx_bh (sibling f) = n \<and>
     (frame_red f \<longrightarrow> \<not> ngx_rbt_is_red (sibling f) \<and> fs \<noteq> [] \<and> \<not> frame_red (hd fs)) \<and>
     fits fs (n + (if frame_red f then 0 else 1)))"

lemma black_balanced [simp]: "balanced t \<Longrightarrow> ngx_rb_tree (ngx_rbt_black t)"
  by (cases t) (simp_all add: ngx_rb_tree_def)

lemma plug_all_balanced:
  "fits fs (ngx_bh t) \<Longrightarrow> balanced t \<Longrightarrow> fs = [] \<or> \<not> frame_red (hd fs) \<or> \<not> ngx_rbt_is_red t \<Longrightarrow> balanced (plug_all t fs)"
proof (induction fs arbitrary: t)
  case (Cons f fs)
  then show ?case by (cases f) (auto intro!: Cons.IH)
qed simp

lemma insert_value_fits:
  "balanced t \<Longrightarrow> fits fs (ngx_bh t) \<Longrightarrow> ngx_rbt_is_red t \<longrightarrow> fs \<noteq> [] \<and> \<not> frame_red (hd fs) \<Longrightarrow>
    fits (ngx_rbtree_insert_value t key fs) 0"
  by (induction t key fs rule: ngx_rbtree_insert_value.induct) auto

lemma ngx_red_plug:
  assumes "fits (f # fs) (ngx_bh t)" "balanced t" "frame_red f"
  shows "ngx_rbt_is_red (ngx_plug t f)" "balanced (ngx_rbt_black (ngx_plug t f))" "ngx_bh (ngx_rbt_black (ngx_plug t f)) = Suc (ngx_bh t)"
    "\<not> ngx_rbt_is_red (ngx_rbt_black (ngx_plug t f))"
  using assms by (cases f; simp)+

lemma red_sibling:
  assumes "ngx_rbt_is_red u" "balanced u"
  shows "balanced (ngx_rbt_black u)" "ngx_bh (ngx_rbt_black u) = Suc (ngx_bh u)" "\<not> ngx_rbt_is_red (ngx_rbt_black u)"
  using assms by (cases u; simp)+

lemma rebalance_ok:
  "fits fs (ngx_bh t) \<Longrightarrow> balanced t \<Longrightarrow> ngx_rbt_is_red t \<Longrightarrow> \<exists>t'. rebalance t fs = Some t' \<and> ngx_rb_tree t'"
proof (induction t fs rule: rebalance.induct)
  case (1 t)
  then show ?case by simp
next
  case (2 t f)
  then show ?case by (cases f) (auto simp: ngx_rb_tree_def)
next
  case (3 t f g fs)
  show ?case
  proof (cases "frame_red f")
    case False
    have "balanced (plug_all t (f # g # fs))" by (rule plug_all_balanced) (use 3(3-) False in simp_all)
    then show ?thesis using False by simp
  next
    case True
    note p = ngx_red_plug [OF 3(3) 3(4) True]
    have g: "\<not> frame_red g" "balanced (sibling g)" "ngx_bh (sibling g) = ngx_bh t" "fits fs (Suc (ngx_bh t))" using 3(3) True by auto
    show ?thesis
    proof (cases g)
      case (LeftOf gc gk gv temp)
      have ?thesis if red: "ngx_rbt_is_red temp"
      proof -
        have "balanced temp" "ngx_bh temp = ngx_bh t" using g LeftOf by simp_all
        then have "\<exists>t'. rebalance (Node Red (ngx_rbt_black (ngx_plug t f)) gk gv (ngx_rbt_black temp)) fs = Some t' \<and> ngx_rb_tree t'"
          by (intro 3(1) [OF _ LeftOf red]) (use True g red_sibling [OF red] p in simp_all)
        then show ?thesis using True LeftOf red by simp
      qed
      moreover have ?thesis if black: "\<not> ngx_rbt_is_red temp"
        using 3(3-) True LeftOf black g
        by (cases f; cases t) (auto intro!: black_balanced plug_all_balanced)
      ultimately show ?thesis by blast
    next
      case (RightOf gc temp gk gv)
      have ?thesis if red: "ngx_rbt_is_red temp"
      proof -
        have "balanced temp" "ngx_bh temp = ngx_bh t" using g RightOf by simp_all
        then have "\<exists>t'. rebalance (Node Red (ngx_rbt_black temp) gk gv (ngx_rbt_black (ngx_plug t f))) fs = Some t' \<and> ngx_rb_tree t'"
          by (intro 3(2) [OF _ RightOf red]) (use True g red_sibling [OF red] p in simp_all)
        then show ?thesis using True RightOf red by simp
      qed
      moreover have ?thesis if black: "\<not> ngx_rbt_is_red temp"
        using 3(3-) True RightOf black g
        by (cases f; cases t) (auto intro!: black_balanced plug_all_balanced)
      ultimately show ?thesis by blast
    qed
  qed
qed

text \<open>Insertion into a red-black tree returns a red-black tree, so it never looks for a missing parent.\<close>

lemma insert_ok:
  assumes "ngx_rb_tree t"
  shows "\<exists>t'. ngx_rbtree_insert t key val = Some t' \<and> ngx_rb_tree t'"
proof (cases t)
  case Sentinel
  then show ?thesis by (simp add: ngx_rbtree_insert_def ngx_rb_tree_def)
next
  case (Node c l k v r)
  have "fits (ngx_rbtree_insert_value t key []) 0" by (rule insert_value_fits) (use assms in \<open>auto simp: ngx_rb_tree_def\<close>)
  then show ?thesis using rebalance_ok [of _ "Node Red Sentinel key val Sentinel"] Node by (simp add: ngx_rbtree_insert_def)
qed

section \<open>Traversal\<close>

text \<open>The callbacks on a list of nodes, up to the first that does not return \<open>NGX_OK\<close>.\<close>

fun visit :: "('v \<Rightarrow> 's \<Rightarrow> ('s \<times> ngx_int_t) option) \<Rightarrow> 'v list \<Rightarrow> 's \<Rightarrow> ('s \<times> ngx_int_t) option" where
  "visit f [] s = Some (s, NGX_OK)"
| "visit f (v # vs) s = do { (s, rc) \<leftarrow> f v s; if rc \<noteq> NGX_OK then Some (s, rc) else visit f vs s }"

fun visited :: "ngx_rbtree_key_t \<Rightarrow> ngx_rbtree_key_t \<Rightarrow> 'v ngx_rbtree_node_t \<Rightarrow> 'v list" where
  "visited lower upper Sentinel = []"
| "visited lower upper (Node c l k v r) =
     (if key_at_least l lower then visited lower upper l else []) @
     (if k \<ge> lower \<and> k \<le> upper then [v] else []) @
     (if key_at_most r upper then visited lower upper r else [])"

lemma visit_append:
  "visit f (xs @ ys) s = do { (s, rc) \<leftarrow> visit f xs s; if rc \<noteq> NGX_OK then Some (s, rc) else visit f ys s }"
proof (induction xs arbitrary: s)
  case (Cons x xs)
  show ?case
  proof (cases "f x s")
    case (Some a)
    then show ?thesis using Cons by (cases a) simp
  qed simp
qed simp

lemma iterate_visited:
  "t \<noteq> Sentinel \<Longrightarrow> ngx_protobuf_rbtree_node_iterate t lower upper f s = visit f (visited lower upper t) s"
proof (induction t arbitrary: s)
  case (Node c l k v r)
  have l: "(if key_at_least l lower then ngx_protobuf_rbtree_node_iterate l lower upper f s else Some (s, NGX_OK)) =
      visit f (if key_at_least l lower then visited lower upper l else []) s" for s
    using Node.IH(1) by (cases l) auto
  have r: "(if key_at_most r upper then ngx_protobuf_rbtree_node_iterate r lower upper f s else Some (s, NGX_OK)) =
      visit f (if key_at_most r upper then visited lower upper r else []) s" for s
    using Node.IH(2) by (cases r) auto
  have m: "(if k \<ge> lower \<and> k \<le> upper then f v s else Some (s, NGX_OK)) =
      visit f (if k \<ge> lower \<and> k \<le> upper then [v] else []) s" for s
    by (cases "f v s") auto
  have last: "do { (s, rc) \<leftarrow> x; if rc \<noteq> NGX_OK then Some (s, rc) else Some (s, NGX_OK) } = x" for x :: "('b \<times> ngx_int_t) option"
    by (cases x) auto
  show ?case
    unfolding ngx_protobuf_rbtree_node_iterate.simps visited.simps visit_append l r m last ..
qed simp

lemma rbtree_iterate_visited:
  "ngx_protobuf_rbtree_iterate t lower upper f s = visit f (visited lower upper t) s"
  by (cases t) (simp_all add: ngx_protobuf_rbtree_iterate_def iterate_visited del: ngx_protobuf_rbtree_node_iterate.simps visited.simps(2))

lemma visited_subset: "set (visited lower upper t) \<subseteq> snd ` {e \<in> set (entries t). lower \<le> fst e \<and> fst e \<le> upper}"
  by (induction t) (auto 0 3 simp: image_iff)

lemma visited_all: "\<forall>k \<in> set (keys t). lower \<le> k \<and> k \<le> upper \<Longrightarrow> visited lower upper t = map snd (entries t)"
proof (induction t)
  case (Node c l k v r)
  then have "visited lower upper l = map snd (entries l)" "visited lower upper r = map snd (entries r)" by simp_all
  moreover have "key_at_least l lower \<or> l = Sentinel" using Node.prems by (cases l) auto
  moreover have "key_at_most r upper \<or> r = Sentinel" using Node.prems by (cases r) auto
  ultimately show ?case using Node.prems by auto
qed simp

text \<open>The bounds of \<open>ngx_protobuf_size_extensions\<close>, 0 and \<open>-1\<close>, leave out nothing.\<close>

lemma visited_unbounded [simp]: "visited 0 (- 1) t = map snd (entries t)"
  by (rule visited_all) simp

end
