(* ===== verification/Ngx_Wire.thy ===== *)
theory Ngx_Wire
  imports Ngx_Rbtree
begin

text \<open>
  The wire format of protocol buffers, the inline functions and macros of \<^verbatim>\<open>ngx_protobuf.h\<close>, on
  byte-addressed memory: a map from addresses to bytes.  A load or store of an address that is not
  in the map is \<open>None\<close>.  Addresses are 64-bit words and wrap around.  The byte order is that of
  a little-endian machine.

  The functions that read take the old value of the variable they write to and return the new one.
\<close>

section \<open>Memory\<close>

type_synonym byte = "8 word"
type_synonym memory = "addr \<rightharpoonup> byte"

definition put_byte :: "memory \<Rightarrow> addr \<Rightarrow> byte \<Rightarrow> memory option" where
  "put_byte m p b = (if m p = None then None else Some (m(p \<mapsto> b)))"

fun store :: "memory \<Rightarrow> addr \<Rightarrow> byte list \<Rightarrow> memory option" where
  "store m p [] = Some m"
| "store m p (b # bs) = do { m \<leftarrow> put_byte m p b; store m (p + 1) bs }"

fun load :: "memory \<Rightarrow> addr \<Rightarrow> nat \<Rightarrow> byte list option" where
  "load m p 0 = Some []"
| "load m p (Suc n) = do { b \<leftarrow> m p; bs \<leftarrow> load m (p + 1) n; Some (b # bs) }"

text \<open>The bytes of an integer in memory.\<close>

definition le_bytes :: "nat \<Rightarrow> 'a::len word \<Rightarrow> byte list" where
  "le_bytes n w = map (\<lambda>i. ucast (drop_bit (8 * i) w)) [0..<n]"

section \<open>Headers\<close>

abbreviation (input) WIRE_VARINT :: "32 word" where "WIRE_VARINT \<equiv> 0"
abbreviation (input) WIRE_FIXED64 :: "32 word" where "WIRE_FIXED64 \<equiv> 1"
abbreviation (input) WIRE_LENGTH_DELIMITED :: "32 word" where "WIRE_LENGTH_DELIMITED \<equiv> 2"
abbreviation (input) WIRE_FIXED32 :: "32 word" where "WIRE_FIXED32 \<equiv> 5"

definition NGX_PROTOBUF_HEADER :: "32 word \<Rightarrow> 32 word \<Rightarrow> 32 word" where
  "NGX_PROTOBUF_HEADER field wire = push_bit 3 field OR wire"

section \<open>Zigzag\<close>

definition z32_encode :: "32 word \<Rightarrow> 32 word" where
  "z32_encode v = push_bit 1 v XOR signed_drop_bit 31 v"

definition z32_decode :: "32 word \<Rightarrow> 32 word" where
  "z32_decode v = drop_bit 1 v XOR - (v AND 1)"

definition z64_encode :: "64 word \<Rightarrow> 64 word" where
  "z64_encode v = push_bit 1 v XOR signed_drop_bit 63 v"

definition z64_decode :: "64 word \<Rightarrow> 64 word" where
  "z64_decode v = drop_bit 1 v XOR - (v AND 1)"

section \<open>Sizes\<close>

lemma drop7_less: "drop_bit 7 v \<noteq> 0 \<Longrightarrow> unat (drop_bit 7 v) < unat (v :: 'a::len word)"
proof -
  assume a: "drop_bit 7 v \<noteq> 0"
  have "unat (drop_bit 7 v) = unat v div 128" by (simp only: unat_drop_bit_eq) (simp add: drop_bit_eq_div)
  moreover have "unat v \<noteq> 0" using a by (intro notI) (simp add: unat_eq_0)
  ultimately show ?thesis by simp
qed

function size_uint_loop :: "nat \<Rightarrow> 'a::len word \<Rightarrow> nat" where
  "size_uint_loop s val = (if drop_bit 7 val \<noteq> 0 then size_uint_loop (s + 1) (drop_bit 7 val) else s + 1)"
  by pat_completeness auto
termination by (relation "measure (\<lambda>(s, v). unat v)") (auto intro: drop7_less)

declare size_uint_loop.simps [simp del]

definition ngx_protobuf_size_uint32 :: "32 word \<Rightarrow> nat" where
  "ngx_protobuf_size_uint32 val = size_uint_loop 0 val"

definition ngx_protobuf_size_uint64 :: "64 word \<Rightarrow> nat" where
  "ngx_protobuf_size_uint64 val = size_uint_loop 0 val"

definition ngx_protobuf_size_sint32 :: "32 word \<Rightarrow> nat" where
  "ngx_protobuf_size_sint32 val = ngx_protobuf_size_uint32 (z32_encode val)"

definition ngx_protobuf_size_sint64 :: "64 word \<Rightarrow> nat" where
  "ngx_protobuf_size_sint64 val = ngx_protobuf_size_uint64 (z64_encode val)"

text \<open>The length, a \<^verbatim>\<open>size_t\<close>, is cut to 32 bits for the prefix.\<close>

definition ngx_protobuf_size_binary :: "64 word \<Rightarrow> nat" where
  "ngx_protobuf_size_binary val = ngx_protobuf_size_uint32 (ucast val) + unat val"

record ngx_str_t =
  slen :: "64 word"
  sdata :: addr

definition ngx_protobuf_size_string :: "ngx_str_t \<Rightarrow> nat" where
  "ngx_protobuf_size_string val = ngx_protobuf_size_binary (slen val)"

definition ngx_protobuf_size_uint32_field :: "32 word \<Rightarrow> 32 word \<Rightarrow> nat" where
  "ngx_protobuf_size_uint32_field val field =
     ngx_protobuf_size_uint32 (NGX_PROTOBUF_HEADER field WIRE_VARINT) + ngx_protobuf_size_uint32 val"

definition ngx_protobuf_size_uint64_field :: "64 word \<Rightarrow> 32 word \<Rightarrow> nat" where
  "ngx_protobuf_size_uint64_field val field =
     ngx_protobuf_size_uint32 (NGX_PROTOBUF_HEADER field WIRE_VARINT) + ngx_protobuf_size_uint64 val"

definition ngx_protobuf_size_fixed32_field :: "32 word \<Rightarrow> nat" where
  "ngx_protobuf_size_fixed32_field field =
     ngx_protobuf_size_uint32 (NGX_PROTOBUF_HEADER field WIRE_FIXED32) + 4"

definition ngx_protobuf_size_fixed64_field :: "32 word \<Rightarrow> nat" where
  "ngx_protobuf_size_fixed64_field field =
     ngx_protobuf_size_uint32 (NGX_PROTOBUF_HEADER field WIRE_FIXED64) + 8"

definition ngx_protobuf_size_sint32_field :: "32 word \<Rightarrow> 32 word \<Rightarrow> nat" where
  "ngx_protobuf_size_sint32_field val field =
     ngx_protobuf_size_uint32 (NGX_PROTOBUF_HEADER field WIRE_VARINT) + ngx_protobuf_size_uint32 (z32_encode val)"

definition ngx_protobuf_size_sint64_field :: "64 word \<Rightarrow> 32 word \<Rightarrow> nat" where
  "ngx_protobuf_size_sint64_field val field =
     ngx_protobuf_size_uint32 (NGX_PROTOBUF_HEADER field WIRE_VARINT) + ngx_protobuf_size_uint64 (z64_encode val)"

definition ngx_protobuf_size_string_field :: "ngx_str_t \<Rightarrow> 32 word \<Rightarrow> nat" where
  "ngx_protobuf_size_string_field val field =
     ngx_protobuf_size_uint32 (NGX_PROTOBUF_HEADER field WIRE_LENGTH_DELIMITED) + ngx_protobuf_size_string val"

definition ngx_protobuf_size_message_field :: "nat \<Rightarrow> 32 word \<Rightarrow> nat" where
  "ngx_protobuf_size_message_field len field =
     ngx_protobuf_size_uint32 (NGX_PROTOBUF_HEADER field WIRE_LENGTH_DELIMITED) + ngx_protobuf_size_binary (of_nat len)"

section \<open>Writing\<close>

type_synonym write_result = "(memory \<times> addr) option"

text \<open>The macro \<^verbatim>\<open>NGX_PROTOBUF_WRITE_UINT\<close>: every byte gets the continuation bit, the last one loses it again.\<close>

function write_uint_loop :: "memory \<Rightarrow> addr \<Rightarrow> 'a::len word \<Rightarrow> write_result" where
  "write_uint_loop m buf val = do {
     m \<leftarrow> put_byte m buf (ucast (val OR 0x80));
     if drop_bit 7 val \<noteq> 0 then write_uint_loop m (buf + 1) (drop_bit 7 val) else Some (m, buf + 1) }"
  by pat_completeness auto
termination by (relation "measure (\<lambda>(m, p, v). unat v)") (auto intro: drop7_less)

declare write_uint_loop.simps [simp del]

definition write_uint :: "memory \<Rightarrow> addr \<Rightarrow> 'a::len word \<Rightarrow> write_result" where
  "write_uint m buf val = do {
     (m, buf) \<leftarrow> write_uint_loop m buf val;
     b \<leftarrow> m (buf - 1);
     m \<leftarrow> put_byte m (buf - 1) (b AND 0x7f);
     Some (m, buf) }"

definition ngx_protobuf_write_uint32 :: "memory \<Rightarrow> addr \<Rightarrow> 32 word \<Rightarrow> write_result" where
  "ngx_protobuf_write_uint32 m buf val = write_uint m buf val"

definition ngx_protobuf_write_uint64 :: "memory \<Rightarrow> addr \<Rightarrow> 64 word \<Rightarrow> write_result" where
  "ngx_protobuf_write_uint64 m buf val = write_uint m buf val"

definition ngx_protobuf_write_string :: "memory \<Rightarrow> addr \<Rightarrow> ngx_str_t \<Rightarrow> write_result" where
  "ngx_protobuf_write_string m buf val = do {
     (m, buf) \<leftarrow> ngx_protobuf_write_uint32 m buf (ucast (slen val));
     bs \<leftarrow> load m (sdata val) (unat (slen val));
     m \<leftarrow> store m buf bs;
     Some (m, buf + slen val) }"

definition ngx_protobuf_write_fixed32 :: "memory \<Rightarrow> addr \<Rightarrow> 32 word \<Rightarrow> write_result" where
  "ngx_protobuf_write_fixed32 m buf val = do { m \<leftarrow> store m buf (le_bytes 4 val); Some (m, buf + 4) }"

definition ngx_protobuf_write_fixed64 :: "memory \<Rightarrow> addr \<Rightarrow> 64 word \<Rightarrow> write_result" where
  "ngx_protobuf_write_fixed64 m buf val = do { m \<leftarrow> store m buf (le_bytes 8 val); Some (m, buf + 8) }"

definition ngx_protobuf_write_sfixed32 :: "memory \<Rightarrow> addr \<Rightarrow> 32 word \<Rightarrow> write_result" where
  "ngx_protobuf_write_sfixed32 m buf val = ngx_protobuf_write_fixed32 m buf (z32_encode val)"

definition ngx_protobuf_write_sfixed64 :: "memory \<Rightarrow> addr \<Rightarrow> 64 word \<Rightarrow> write_result" where
  "ngx_protobuf_write_sfixed64 m buf val = ngx_protobuf_write_fixed64 m buf (z64_encode val)"

definition ngx_protobuf_write_sint32 :: "memory \<Rightarrow> addr \<Rightarrow> 32 word \<Rightarrow> write_result" where
  "ngx_protobuf_write_sint32 m buf val = ngx_protobuf_write_uint32 m buf (z32_encode val)"

definition ngx_protobuf_write_sint64 :: "memory \<Rightarrow> addr \<Rightarrow> 64 word \<Rightarrow> write_result" where
  "ngx_protobuf_write_sint64 m buf val = ngx_protobuf_write_uint64 m buf (z64_encode val)"

text \<open>Floating-point values are their bits.\<close>

definition ngx_protobuf_write_float :: "memory \<Rightarrow> addr \<Rightarrow> 32 word \<Rightarrow> write_result" where
  "ngx_protobuf_write_float m buf val = do { m \<leftarrow> store m buf (le_bytes 4 val); Some (m, buf + 4) }"

definition ngx_protobuf_write_double :: "memory \<Rightarrow> addr \<Rightarrow> 64 word \<Rightarrow> write_result" where
  "ngx_protobuf_write_double m buf val = do { m \<leftarrow> store m buf (le_bytes 8 val); Some (m, buf + 8) }"

definition ngx_protobuf_write_uint32_field :: "memory \<Rightarrow> addr \<Rightarrow> 32 word \<Rightarrow> 32 word \<Rightarrow> write_result" where
  "ngx_protobuf_write_uint32_field m buf val field = do {
     (m, buf) \<leftarrow> ngx_protobuf_write_uint32 m buf (NGX_PROTOBUF_HEADER field WIRE_VARINT);
     ngx_protobuf_write_uint32 m buf val }"

definition ngx_protobuf_write_uint64_field :: "memory \<Rightarrow> addr \<Rightarrow> 64 word \<Rightarrow> 32 word \<Rightarrow> write_result" where
  "ngx_protobuf_write_uint64_field m buf val field = do {
     (m, buf) \<leftarrow> ngx_protobuf_write_uint32 m buf (NGX_PROTOBUF_HEADER field WIRE_VARINT);
     ngx_protobuf_write_uint64 m buf val }"

definition ngx_protobuf_write_string_field :: "memory \<Rightarrow> addr \<Rightarrow> ngx_str_t \<Rightarrow> 32 word \<Rightarrow> write_result" where
  "ngx_protobuf_write_string_field m buf val field = do {
     (m, buf) \<leftarrow> ngx_protobuf_write_uint32 m buf (NGX_PROTOBUF_HEADER field WIRE_LENGTH_DELIMITED);
     ngx_protobuf_write_string m buf val }"

definition ngx_protobuf_write_fixed32_field :: "memory \<Rightarrow> addr \<Rightarrow> 32 word \<Rightarrow> 32 word \<Rightarrow> write_result" where
  "ngx_protobuf_write_fixed32_field m buf val field = do {
     (m, buf) \<leftarrow> ngx_protobuf_write_uint32 m buf (NGX_PROTOBUF_HEADER field WIRE_FIXED32);
     ngx_protobuf_write_fixed32 m buf val }"

definition ngx_protobuf_write_fixed64_field :: "memory \<Rightarrow> addr \<Rightarrow> 64 word \<Rightarrow> 32 word \<Rightarrow> write_result" where
  "ngx_protobuf_write_fixed64_field m buf val field = do {
     (m, buf) \<leftarrow> ngx_protobuf_write_uint32 m buf (NGX_PROTOBUF_HEADER field WIRE_FIXED64);
     ngx_protobuf_write_fixed64 m buf val }"

definition ngx_protobuf_write_sfixed32_field :: "memory \<Rightarrow> addr \<Rightarrow> 32 word \<Rightarrow> 32 word \<Rightarrow> write_result" where
  "ngx_protobuf_write_sfixed32_field m buf val field = ngx_protobuf_write_fixed32_field m buf (z32_encode val) field"

definition ngx_protobuf_write_sfixed64_field :: "memory \<Rightarrow> addr \<Rightarrow> 64 word \<Rightarrow> 32 word \<Rightarrow> write_result" where
  "ngx_protobuf_write_sfixed64_field m buf val field = ngx_protobuf_write_fixed64_field m buf (z64_encode val) field"

definition ngx_protobuf_write_sint32_field :: "memory \<Rightarrow> addr \<Rightarrow> 32 word \<Rightarrow> 32 word \<Rightarrow> write_result" where
  "ngx_protobuf_write_sint32_field m buf val field = ngx_protobuf_write_uint32_field m buf (z32_encode val) field"

definition ngx_protobuf_write_sint64_field :: "memory \<Rightarrow> addr \<Rightarrow> 64 word \<Rightarrow> 32 word \<Rightarrow> write_result" where
  "ngx_protobuf_write_sint64_field m buf val field = ngx_protobuf_write_uint64_field m buf (z64_encode val) field"

definition ngx_protobuf_write_float_field :: "memory \<Rightarrow> addr \<Rightarrow> 32 word \<Rightarrow> 32 word \<Rightarrow> write_result" where
  "ngx_protobuf_write_float_field m buf val field = do {
     (m, buf) \<leftarrow> ngx_protobuf_write_uint32 m buf (NGX_PROTOBUF_HEADER field WIRE_FIXED32);
     ngx_protobuf_write_float m buf val }"

text \<open>
  The parameter of \<^verbatim>\<open>ngx_protobuf_write_double_field\<close> is declared as a \<^verbatim>\<open>float\<close>, so that the value goes
  through single precision; \<open>via_float\<close> is that conversion and back, which the model leaves open.
\<close>

definition ngx_protobuf_write_double_field ::
    "(64 word \<Rightarrow> 64 word) \<Rightarrow> memory \<Rightarrow> addr \<Rightarrow> 64 word \<Rightarrow> 32 word \<Rightarrow> write_result" where
  "ngx_protobuf_write_double_field via_float m buf val field = do {
     (m, buf) \<leftarrow> ngx_protobuf_write_uint32 m buf (NGX_PROTOBUF_HEADER field WIRE_FIXED32);
     ngx_protobuf_write_double m buf (via_float val) }"

definition ngx_protobuf_write_message_header :: "memory \<Rightarrow> addr \<Rightarrow> nat \<Rightarrow> 32 word \<Rightarrow> write_result" where
  "ngx_protobuf_write_message_header m buf len field = do {
     (m, buf) \<leftarrow> ngx_protobuf_write_uint32 m buf (NGX_PROTOBUF_HEADER field WIRE_LENGTH_DELIMITED);
     ngx_protobuf_write_uint32 m buf (of_nat len) }"

section \<open>Reading\<close>

text \<open>
  The loop of \<^verbatim>\<open>ngx_protobuf_read_uint64\<close>; the result holds the pointer behind the last byte, the
  value and that byte.  The test \<open>buf + 1 \<le> end\<close> lets it read the byte at \<open>end\<close>.
\<close>

function read_uint_loop :: "memory \<Rightarrow> addr \<Rightarrow> addr \<Rightarrow> nat \<Rightarrow> 64 word \<Rightarrow> (addr \<times> 64 word \<times> byte) option" where
  "read_uint_loop m p end' s v =
     (case m p of None \<Rightarrow> None
      | Some b \<Rightarrow>
        let v' = v OR push_bit s (ucast (b AND 0x7f)); s' = s + 7 in
          if b AND 0x80 \<noteq> 0 \<and> p + 1 \<le> end' \<and> s' < 64 then read_uint_loop m (p + 1) end' s' v'
          else Some (p + 1, v', b))"
  by pat_completeness auto
termination by (relation "measure (\<lambda>(m, p, e, s, v). 64 - s)") auto

declare read_uint_loop.simps [simp del]

definition ngx_protobuf_read_uint64 :: "memory \<Rightarrow> addr \<Rightarrow> addr \<Rightarrow> 64 word \<Rightarrow> (addr \<times> 64 word \<times> ngx_int_t) option" where
  "ngx_protobuf_read_uint64 m buf end' val =
     (if buf \<ge> end' then Some (buf, val, NGX_ABORT)
      else do {
        (p, v, b) \<leftarrow> read_uint_loop m buf end' 0 0;
        if b AND 0x80 \<noteq> 0 then Some (p, val, NGX_ABORT) else Some (p, v, NGX_OK) })"

definition ngx_protobuf_read_uint32 :: "memory \<Rightarrow> addr \<Rightarrow> addr \<Rightarrow> 32 word \<Rightarrow> (addr \<times> 32 word \<times> ngx_int_t) option" where
  "ngx_protobuf_read_uint32 m buf end' val = do {
     (p, v64, rc) \<leftarrow> ngx_protobuf_read_uint64 m buf end' 0;
     if rc \<noteq> NGX_OK then Some (p, val, NGX_ABORT) else Some (p, ucast v64, NGX_OK) }"

definition ngx_protobuf_read_bool :: "memory \<Rightarrow> addr \<Rightarrow> addr \<Rightarrow> 32 word \<Rightarrow> (addr \<times> 32 word \<times> ngx_int_t) option" where
  "ngx_protobuf_read_bool m buf end' val = do {
     (p, uval, rc) \<leftarrow> ngx_protobuf_read_uint32 m buf end' 0;
     if rc = NGX_OK then Some (p, of_bool (uval \<noteq> 0), rc) else Some (p, val, rc) }"

definition ngx_protobuf_read_sint32 :: "memory \<Rightarrow> addr \<Rightarrow> addr \<Rightarrow> 32 word \<Rightarrow> (addr \<times> 32 word \<times> ngx_int_t) option" where
  "ngx_protobuf_read_sint32 m buf end' val = do {
     (p, uval, rc) \<leftarrow> ngx_protobuf_read_uint32 m buf end' 0;
     if rc = NGX_OK then Some (p, z32_decode uval, rc) else Some (p, val, rc) }"

definition ngx_protobuf_read_sint64 :: "memory \<Rightarrow> addr \<Rightarrow> addr \<Rightarrow> 64 word \<Rightarrow> (addr \<times> 64 word \<times> ngx_int_t) option" where
  "ngx_protobuf_read_sint64 m buf end' val = do {
     (p, uval, rc) \<leftarrow> ngx_protobuf_read_uint64 m buf end' 0;
     if rc = NGX_OK then Some (p, z64_decode uval, rc) else Some (p, val, rc) }"

text \<open>
  The macro \<^verbatim>\<open>NGX_PROTOBUF_READ_COPY\<close> calls \<^verbatim>\<open>ngx_protobuf_copy_endian4(*buf, val)\<close>, whose first parameter
  is the destination: it copies the old value of the variable into the input.  The signed variants
  do this with an uninitialised variable, the parameter \<open>uval\<close>.
\<close>

definition read_copy4 :: "memory \<Rightarrow> addr \<Rightarrow> addr \<Rightarrow> 32 word \<Rightarrow> (memory \<times> addr \<times> ngx_int_t) option" where
  "read_copy4 m buf end' val =
     (if buf + 4 > end' then Some (m, buf, NGX_ABORT)
      else do { m \<leftarrow> store m buf (le_bytes 4 val); Some (m, buf + 4, NGX_OK) })"

definition read_copy8 :: "memory \<Rightarrow> addr \<Rightarrow> addr \<Rightarrow> 64 word \<Rightarrow> (memory \<times> addr \<times> ngx_int_t) option" where
  "read_copy8 m buf end' val =
     (if buf + 8 > end' then Some (m, buf, NGX_ABORT)
      else do { m \<leftarrow> store m buf (le_bytes 8 val); Some (m, buf + 8, NGX_OK) })"

definition ngx_protobuf_read_fixed32 where
  "ngx_protobuf_read_fixed32 m buf end' val = do { (m, p, rc) \<leftarrow> read_copy4 m buf end' val; Some (m, p, val, rc) }"

definition ngx_protobuf_read_fixed64 where
  "ngx_protobuf_read_fixed64 m buf end' val = do { (m, p, rc) \<leftarrow> read_copy8 m buf end' val; Some (m, p, val, rc) }"

definition ngx_protobuf_read_float where
  "ngx_protobuf_read_float m buf end' val = do { (m, p, rc) \<leftarrow> read_copy4 m buf end' val; Some (m, p, val, rc) }"

definition ngx_protobuf_read_double where
  "ngx_protobuf_read_double m buf end' val = do { (m, p, rc) \<leftarrow> read_copy8 m buf end' val; Some (m, p, val, rc) }"

definition ngx_protobuf_read_sfixed32 where
  "ngx_protobuf_read_sfixed32 uval m buf end' val = do {
     (m, p, rc) \<leftarrow> read_copy4 m buf end' uval;
     Some (m, p, if rc = NGX_OK then z32_decode uval else val, rc) }"

definition ngx_protobuf_read_sfixed64 where
  "ngx_protobuf_read_sfixed64 uval m buf end' val = do {
     (m, p, rc) \<leftarrow> read_copy8 m buf end' uval;
     Some (m, p, if rc = NGX_OK then z64_decode uval else val, rc) }"

text \<open>
  \<^verbatim>\<open>ngx_palloc\<close> of nginx is a parameter: it takes and returns the memory and the state of the pool,
  and an address, which is null if there is no memory.
\<close>

record 'm pstate =
  mem :: memory
  heap :: 'm

type_synonym 'm palloc = "'m pstate \<Rightarrow> nat \<Rightarrow> 'm pstate \<times> addr"

text \<open>Without a pool (\<open>pool = False\<close>) the string is the part of the input itself.\<close>

definition ngx_protobuf_read_string ::
    "'m palloc \<Rightarrow> 'm pstate \<Rightarrow> addr \<Rightarrow> addr \<Rightarrow> ngx_str_t \<Rightarrow> bool \<Rightarrow> ('m pstate \<times> addr \<times> ngx_str_t \<times> ngx_int_t) option" where
  "ngx_protobuf_read_string palloc s buf end' val pool =
     (if buf \<ge> end' then Some (s, buf, val, NGX_ABORT)
      else do {
        (p, v, rc) \<leftarrow> ngx_protobuf_read_uint64 (mem s) buf end' 0;
        if rc \<noteq> NGX_OK then Some (s, end', val, NGX_ABORT)
        else if p + v > end' then Some (s, end', val, NGX_ABORT)
        else if pool then
          (let (s, d) = palloc s (unat v) in
            if d = NULL then Some (s, end', val\<lparr>sdata := d\<rparr>, NGX_ERROR)
            else do {
              bs \<leftarrow> load (mem s) p (unat v);
              m \<leftarrow> store (mem s) d bs;
              Some (s\<lparr>mem := m\<rparr>, p + v, val\<lparr>sdata := d, slen := v\<rparr>, NGX_OK) })
        else Some (s, p + v, val\<lparr>sdata := p, slen := v\<rparr>, NGX_OK) })"

definition ngx_protobuf_skip ::
    "32 word \<Rightarrow> 64 word \<Rightarrow> 'm palloc \<Rightarrow> 'm pstate \<Rightarrow> addr \<Rightarrow> addr \<Rightarrow> 32 word \<Rightarrow> ('m pstate \<times> addr \<times> ngx_int_t) option" where
  "ngx_protobuf_skip v32 v64 palloc s pos end' wire =
     (if wire = WIRE_VARINT then do {
        (p, _, rc) \<leftarrow> ngx_protobuf_read_uint64 (mem s) pos end' v64; Some (s, p, rc) }
      else if wire = WIRE_FIXED64 then do {
        (m, p, _, rc) \<leftarrow> ngx_protobuf_read_fixed64 (mem s) pos end' v64; Some (s\<lparr>mem := m\<rparr>, p, rc) }
      else if wire = WIRE_LENGTH_DELIMITED then do {
        (s, p, _, rc) \<leftarrow> ngx_protobuf_read_string palloc s pos end' \<lparr>slen = 0, sdata = NULL\<rparr> False; Some (s, p, rc) }
      else if wire = WIRE_FIXED32 then do {
        (m, p, _, rc) \<leftarrow> ngx_protobuf_read_fixed32 (mem s) pos end' v32; Some (s\<lparr>mem := m\<rparr>, p, rc) }
      else Some (s, pos, NGX_ABORT))"

section \<open>Loads and stores\<close>

definition region :: "addr \<Rightarrow> nat \<Rightarrow> addr set" where
  "region p n = (\<lambda>i. p + of_nat i) ` {..<n}"

lemma region_0 [simp]: "region p 0 = {}"
  by (simp add: region_def)

lemma region_Suc: "region p (Suc n) = insert p (region (p + 1) n)"
proof -
  have "{..<Suc n} = insert 0 (Suc ` {..<n})" by (rule lessThan_Suc_eq_insert_0)
  then show ?thesis by (simp add: region_def image_image add.assoc)
qed

lemma region_add: "region p (a + b) = region p a \<union> region (p + of_nat a) b"
  by (induction a arbitrary: p) (simp_all add: region_Suc add.assoc)

lemma region_mono: "a \<le> b \<Longrightarrow> region p a \<subseteq> region p b"
  by (auto simp: region_def)

lemma put_byte_dom: "put_byte m p b = Some m' \<Longrightarrow> dom m' = dom m"
  by (auto simp: put_byte_def split: if_splits)

lemma store_dom: "store m p bs = Some m' \<Longrightarrow> dom m' = dom m"
proof (induction bs arbitrary: m p)
  case (Cons b bs)
  then obtain m1 where "put_byte m p b = Some m1" "store m1 (p + 1) bs = Some m'" by auto
  then show ?case using Cons.IH [of m1] put_byte_dom [of m p b m1] by simp
qed simp

lemma store_total: "region p (length bs) \<subseteq> dom m \<Longrightarrow> \<exists>m'. store m p bs = Some m'"
proof (induction bs arbitrary: m p)
  case (Cons b bs)
  then obtain m1 where m1: "put_byte m p b = Some m1" by (auto simp: put_byte_def region_Suc)
  have "region (p + 1) (length bs) \<subseteq> dom m1" using Cons.prems put_byte_dom [OF m1] by (simp add: region_Suc)
  then show ?case using Cons.IH [of "p + 1" m1] m1 by simp
qed simp

lemma store_append: "store m p (xs @ ys) = do { m \<leftarrow> store m p xs; store m (p + of_nat (length xs)) ys }"
  by (induction xs arbitrary: m p) (simp_all add: add.assoc)

lemma store_frame: "store m p bs = Some m' \<Longrightarrow> q \<notin> region p (length bs) \<Longrightarrow> m' q = m q"
  by (induction bs arbitrary: m p) (auto simp: region_Suc put_byte_def split: if_splits)

lemma load_cong: "(\<And>q. q \<in> region p n \<Longrightarrow> m q = m' q) \<Longrightarrow> load m p n = load m' p n"
  by (induction n arbitrary: p) (auto simp: region_Suc)

lemma load_length: "load m p n = Some bs \<Longrightarrow> length bs = n"
  by (induction n arbitrary: p bs) auto

lemma load_append: "load m p (a + b) = do { xs \<leftarrow> load m p a; ys \<leftarrow> load m (p + of_nat a) b; Some (xs @ ys) }"
  by (induction a arbitrary: p) (auto simp: add.assoc split: Option.bind_split)

lemma load_split:
  assumes "load m p (length xs + length ys) = Some (xs @ ys)"
  shows "load m p (length xs) = Some xs" "load m (p + of_nat (length xs)) (length ys) = Some ys"
proof -
  obtain xs' ys' where l: "load m p (length xs) = Some xs'" "load m (p + of_nat (length xs)) (length ys) = Some ys'" "xs @ ys = xs' @ ys'"
    using assms by (auto simp: load_append)
  have "xs = xs' \<and> ys = ys'" using l(3) load_length [OF l(1)] by (intro append_eq_append_conv [THEN iffD1]) auto
  then show "load m p (length xs) = Some xs" "load m (p + of_nat (length xs)) (length ys) = Some ys" using l by simp_all
qed

lemma load_store_frame:
  "store m p bs = Some m' \<Longrightarrow> region q n \<inter> region p (length bs) = {} \<Longrightarrow> load m' q n = load m q n"
  by (rule load_cong) (auto intro: store_frame)

lemma load_numeral: "load m p (numeral k) = do { b \<leftarrow> m p; bs \<leftarrow> load m (p + 1) (pred_numeral k); Some (b # bs) }"
  by (simp add: numeral_eq_Suc)

lemma region_bounds:
  assumes "q \<in> region p n" "unat p + n \<le> 2 ^ 64"
  shows "unat p \<le> unat q \<and> unat q < unat p + n"
proof -
  obtain i where i: "q = p + of_nat i" "i < n" using assms(1) by (auto simp: region_def)
  then have "unat q = unat p + i" using assms(2) by (simp add: unat_word_ariths unat_of_nat take_bit_eq_mod)
  then show ?thesis using i(2) by simp
qed

lemma regions_apart:
  assumes "unat p + n \<le> unat q" "unat q + k \<le> 2 ^ 64"
  shows "region p n \<inter> region q k = {}"
proof -
  have "unat p + n \<le> 2 ^ 64" using assms by simp
  then show ?thesis using region_bounds [of _ p n] region_bounds [of _ q k] assms by fastforce
qed

lemma region_fresh: "p \<notin> region (p + 1) n" if "n < 2 ^ 64"
proof
  assume "p \<in> region (p + 1) n"
  then obtain i where i: "i < n" "p = p + 1 + of_nat i" by (auto simp: region_def)
  then have "(of_nat (Suc i) :: addr) = 0" by (metis add.assoc add_cancel_left_right of_nat_Suc)
  moreover have "unat (of_nat (Suc i) :: addr) = Suc i" using i that by (simp add: unat_of_nat del: of_nat_Suc)
  ultimately show False by simp
qed

lemma load_store: "store m p bs = Some m' \<Longrightarrow> length bs < 2 ^ 64 \<Longrightarrow> load m' p (length bs) = Some bs"
proof (induction bs arbitrary: m p)
  case (Cons b bs)
  from Cons.prems obtain m1 where m1: "put_byte m p b = Some m1" "store m1 (p + 1) bs = Some m'" by auto
  have "m' p = m1 p" by (rule store_frame [OF m1(2)]) (use region_fresh Cons.prems in simp)
  then have "m' p = Some b" using m1(1) by (auto simp: put_byte_def split: if_splits)
  then show ?case using Cons.IH [OF m1(2)] Cons.prems by simp
qed simp

section \<open>Varints\<close>

function varint :: "'a::len word \<Rightarrow> byte list" where
  "varint v = (if drop_bit 7 v \<noteq> 0 then ucast (v OR 0x80) # varint (drop_bit 7 v) else [ucast v AND 0x7f])"
  by pat_completeness auto
termination by (relation "measure unat") (auto intro: drop7_less)

declare varint.simps [simp del]

lemma size_uint_varint: "size_uint_loop s v = s + length (varint v)"
  by (induction s v rule: size_uint_loop.induct) (subst size_uint_loop.simps, subst varint.simps, simp)

lemma varint_not_Nil [simp]: "varint v \<noteq> []" "0 < length (varint v)"
  by (subst varint.simps, simp)+

lemma mask7: "(0x7f :: byte) = mask 7"
  by (simp add: mask_eq_exp_minus_1)

lemma bit_128: "bit (0x80 :: 'a::len word) n \<longleftrightarrow> n = 7 \<and> 7 < LENGTH('a)"
proof -
  have "(0x80 :: 'a word) = 2 ^ 7" by simp
  then show ?thesis by (auto simp only: bit_exp_iff possible_bit_word)
qed

lemmas bit_iffs = bit_and_iff bit_or_iff bit_ucast_iff bit_mask_iff bit_128 bit_take_bit_iff bit_push_bit_iff bit_drop_bit_eq

lemma last_byte: "ucast ((v :: 'a::len word) OR 0x80) AND 0x7f = (ucast v AND 0x7f :: byte)"
  unfolding mask7 by (rule bit_word_eqI) (simp only: bit_iffs, auto)

text \<open>What the macro for writing does: one byte after the other, the last one corrected.\<close>

lemma write_uint_varint:
  "write_uint m p v = do { m \<leftarrow> store m p (varint v); Some (m, p + of_nat (length (varint v))) }"
proof (induction v arbitrary: m p rule: varint.induct)
  case (1 v)
  show ?case
  proof (cases "drop_bit 7 v \<noteq> 0")
    case True
    then show ?thesis using 1 [OF True]
      by (cases "put_byte m p (ucast (v OR 0x80))")
        (simp_all add: write_uint_def write_uint_loop.simps [of m p v] varint.simps [of v] add.assoc)
  next
    case False
    then show ?thesis
      by (simp add: write_uint_def write_uint_loop.simps [of m p v] varint.simps [of v] put_byte_def last_byte)
  qed
qed

lemma varint_ucast: "varint (ucast (v :: 32 word) :: 64 word) = varint v"
proof (induction v rule: varint.induct)
  case (1 v)
  have d: "drop_bit 7 (ucast v :: 64 word) = ucast (drop_bit 7 v)"
    by (rule bit_word_eqI) (auto simp: bit_simps dest: bit_imp_le_length)
  have z: "(ucast w :: 64 word) = 0 \<longleftrightarrow> w = 0" for w :: "32 word"
    using ucast_inj [of w 0] by simp
  have b: "(ucast (ucast v OR 0x80 :: 64 word) :: byte) = ucast (v OR 0x80)" "(ucast (ucast v :: 64 word) :: byte) = ucast v"
    by (rule bit_word_eqI; auto simp: bit_simps bit_128)+
  show ?case using 1 unfolding varint.simps [of "ucast v"] varint.simps [of v] d z b by auto
qed

lemma varint_or_split: "v OR push_bit s w = v OR push_bit s (take_bit 7 w) OR push_bit (s + 7) (drop_bit 7 (w :: 64 word))"
proof (rule bit_word_eqI)
  fix n
  have "bit w (n - s) \<longleftrightarrow> bit w (7 + (n - (s + 7)))" if "s + 7 \<le> n"
  proof -
    have "7 + (n - (s + 7)) = n - s" using that by simp
    then show ?thesis by simp
  qed
  then show "bit (v OR push_bit s w) n = bit (v OR push_bit s (take_bit 7 w) OR push_bit (s + 7) (drop_bit 7 w)) n"
    by (cases "s + 7 \<le> n") (auto simp: bit_simps)
qed

lemma low7:
  "(ucast (ucast (w :: 64 word) AND 0x7f :: byte) :: 64 word) = take_bit 7 w"
  "(ucast ((ucast (w OR 0x80) :: byte) AND 0x7f) :: 64 word) = take_bit 7 w"
  unfolding mask7 by (rule bit_word_eqI; simp only: bit_iffs; auto)+

lemma high7:
  "(x AND 0x7f) AND (0x80 :: byte) = 0" "(ucast ((w :: 64 word) OR 0x80) :: byte) AND 0x80 \<noteq> 0"
proof -
  show "(x AND 0x7f) AND (0x80 :: byte) = 0"
    unfolding mask7 by (rule bit_word_eqI) (simp only: bit_iffs, auto)
  have "bit ((ucast (w OR 0x80) :: byte) AND 0x80) 7"
    by (simp add: bit_simps bit_128)
  then show "(ucast (w OR 0x80) :: byte) AND 0x80 \<noteq> 0" by (metis bit_0_eq bot_apply bot_bool_def)
qed

lemma drop_bit_nonzero_ge: "drop_bit 7 w \<noteq> 0 \<Longrightarrow> 2 ^ 7 \<le> unat (w :: 64 word)"
proof (rule ccontr)
  assume a: "drop_bit 7 w \<noteq> 0" "\<not> 2 ^ 7 \<le> unat w"
  then have "unat w div 128 = 0" by simp
  then have "unat (drop_bit 7 w) = 0" by (simp only: unat_drop_bit_eq) (simp add: drop_bit_eq_div)
  then show False using a(1) by (simp add: unat_eq_0)
qed

lemma unat_plus: "unat p + n \<le> unat e \<Longrightarrow> unat (p + of_nat n) = unat (p :: addr) + n" for e :: addr
  using unsigned_less [of e, where ?'a = nat] by (simp add: unat_word_ariths unat_of_nat)

lemma read_uint_varint:
  assumes "unat w < 2 ^ (64 - s)" "s < 64" "load m p (length (varint w)) = Some (varint w)" "unat p + length (varint w) \<le> unat e"
  shows "\<exists>b. read_uint_loop m p e s v = Some (p + of_nat (length (varint w)), v OR push_bit s w, b) \<and> b AND 0x80 = 0"
  using assms
proof (induction w arbitrary: p s v rule: varint.induct)
  case (1 w)
  let ?e = "v OR push_bit s (take_bit 7 w)"
  show ?case
  proof (cases "drop_bit 7 w \<noteq> 0")
    case False
    then have w: "varint w = [ucast w AND 0x7f]" "?e = v OR push_bit s w"
      using varint_or_split [of v s w] by (simp_all add: varint.simps)
    then show ?thesis using 1(4) by (simp add: read_uint_loop.simps [of m p] low7 high7)
  next
    case True
    let ?b = "ucast (w OR 0x80) :: byte" and ?w = "drop_bit 7 w"
    have c: "varint w = ?b # varint ?w" using True by (simp add: varint.simps)
    have w7: "2 ^ 7 \<le> unat w" by (rule drop_bit_nonzero_ge [OF True])
    note w64 = 1(2)
    have s: "7 < 64 - s"
    proof (rule ccontr)
      assume "\<not> 7 < 64 - s"
      then have "(2 :: nat) ^ (64 - s) \<le> 2 ^ 7" by (intro power_increasing) auto
      then show False using w7 w64 by simp
    qed
    have w: "unat ?w < 2 ^ (64 - (s + 7))"
    proof -
      have "(2 :: nat) ^ (64 - s) = 2 ^ (64 - (s + 7)) * 128" using s power_add [of "2 :: nat" "64 - (s + 7)" 7] by simp
      then have "unat w div 128 < 2 ^ (64 - (s + 7))" using w64 by (simp add: less_mult_imp_div_less)
      then show ?thesis by (simp only: unat_drop_bit_eq) (simp add: drop_bit_eq_div)
    qed
    have p1: "unat (p + 1) = unat p + 1" using unat_plus [of p 1 e] 1(5) c by simp
    then have p: "p + 1 \<le> e" "unat (p + 1) + length (varint ?w) \<le> unat e" using 1(5) c by (simp_all add: word_le_nat_alt)
    have "\<exists>b. read_uint_loop m (p + 1) e (s + 7) ?e = Some (p + 1 + of_nat (length (varint ?w)), ?e OR push_bit (s + 7) ?w, b) \<and> b AND 0x80 = 0"
      by (rule 1(1) [OF True w]) (use s p 1(4) c in auto)
    moreover have "m p = Some ?b" using 1(4) c by auto
    moreover have "s + 7 < 64" using s by simp
    ultimately show ?thesis using p unfolding varint_or_split [of v s w]
      by (simp add: read_uint_loop.simps [of m p] Let_def c low7 high7 add.assoc or.assoc)
  qed
qed

lemma read_uint64_varint:
  assumes "load m p (length (varint w)) = Some (varint w)" "unat p + length (varint w) \<le> unat e"
  shows "ngx_protobuf_read_uint64 m p e v0 = Some (p + of_nat (length (varint w)), w, NGX_OK)"
proof -
  have "unat w < 2 ^ (64 - 0)" using unsigned_less [of w, where ?'a = nat] by simp
  from read_uint_varint [OF this _ assms, of 0] obtain b
    where "read_uint_loop m p e 0 0 = Some (p + of_nat (length (varint w)), w, b)" "b AND 0x80 = 0"
    by auto
  moreover have "unat p < unat e" using assms(2) varint_not_Nil(2) [of w] by linarith
  ultimately show ?thesis by (simp add: ngx_protobuf_read_uint64_def word_le_nat_alt)
qed

lemma ucast_down_up: "ucast (ucast h :: 64 word) = (h :: 32 word)"
  by (rule bit_word_eqI) (simp add: bit_ucast_iff)

lemma read_uint32_varint:
  assumes "load m p (length (varint w)) = Some (varint w)" "unat p + length (varint w) \<le> unat e"
  shows "ngx_protobuf_read_uint32 m p e v0 = Some (p + of_nat (length (varint w)), w, NGX_OK)"
  using read_uint64_varint [of m p "ucast w" e 0] assms
  by (simp add: varint_ucast ngx_protobuf_read_uint32_def ucast_down_up)

section \<open>Zigzag\<close>

lemma z32_bit: "n < 32 \<Longrightarrow> bit (z32_encode v) n = ((0 < n \<and> bit v (n - 1)) \<noteq> bit v 31)"
proof -
  have f: "signed_drop_bit 31 v = (if bit v 31 then - 1 else 0)"
    by (rule bit_word_eqI) (auto simp: bit_signed_drop_bit_iff not_le)
  assume "n < 32"
  then show ?thesis unfolding z32_encode_def f by (auto simp only: bit_xor_iff bit_push_bit_iff split: if_splits; simp)
qed

lemma z32_inverse [simp]: "z32_decode (z32_encode v) = v"
proof -
  have s: "- (z32_encode v AND 1) = (if bit v 31 then - 1 else 0)"
    by (simp only: and_one_eq mod_2_eq_odd) (simp add: z32_bit flip: bit_0)
  show ?thesis unfolding z32_decode_def s
  proof (rule bit_word_eqI)
    fix n assume n: "n < LENGTH(32)"
    have "bit (drop_bit 1 (z32_encode v)) n = (n < 31 \<and> bit (z32_encode v) (Suc n))"
      using n by (auto simp: bit_drop_bit_eq dest: bit_imp_le_length)
    also have "\<dots> = (n < 31 \<and> bit v n \<noteq> bit v 31)" by (auto simp: z32_bit)
    finally show "bit (drop_bit 1 (z32_encode v) XOR (if bit v 31 then - 1 else 0)) n = bit v n"
      using n by (cases "n = 31") (auto simp: bit_xor_iff)
  qed
qed

lemma z64_bit: "n < 64 \<Longrightarrow> bit (z64_encode v) n = ((0 < n \<and> bit v (n - 1)) \<noteq> bit v 63)"
proof -
  have f: "signed_drop_bit 63 v = (if bit v 63 then - 1 else 0)"
    by (rule bit_word_eqI) (auto simp: bit_signed_drop_bit_iff not_le)
  assume "n < 64"
  then show ?thesis unfolding z64_encode_def f by (auto simp only: bit_xor_iff bit_push_bit_iff split: if_splits; simp)
qed

lemma z64_inverse [simp]: "z64_decode (z64_encode v) = v"
proof -
  have s: "- (z64_encode v AND 1) = (if bit v 63 then - 1 else 0)"
    by (simp only: and_one_eq mod_2_eq_odd) (simp add: z64_bit flip: bit_0)
  show ?thesis unfolding z64_decode_def s
  proof (rule bit_word_eqI)
    fix n assume n: "n < LENGTH(64)"
    have "bit (drop_bit 1 (z64_encode v)) n = (n < 63 \<and> bit (z64_encode v) (Suc n))"
      using n by (auto simp: bit_drop_bit_eq dest: bit_imp_le_length)
    also have "\<dots> = (n < 63 \<and> bit v n \<noteq> bit v 63)" by (auto simp: z64_bit)
    finally show "bit (drop_bit 1 (z64_encode v) XOR (if bit v 63 then - 1 else 0)) n = bit v n"
      using n by (cases "n = 63") (auto simp: bit_xor_iff)
  qed
qed

section \<open>Strings\<close>

definition str_bytes :: "memory \<Rightarrow> ngx_str_t \<Rightarrow> byte list option" where
  "str_bytes m val = load m (sdata val) (unat (slen val))"

text \<open>The prefix holds the low 32 bits of the length.\<close>

definition enc_string :: "byte list \<Rightarrow> byte list" where
  "enc_string bs = varint (of_nat (length bs) :: 32 word) @ bs"

lemma size_uint32_varint: "ngx_protobuf_size_uint32 v = length (varint v)"
  by (simp add: ngx_protobuf_size_uint32_def size_uint_varint)

lemma size_uint64_varint: "ngx_protobuf_size_uint64 v = length (varint v)"
  by (simp add: ngx_protobuf_size_uint64_def size_uint_varint)

lemma ucast_of_nat_32: "(ucast (of_nat n :: 64 word) :: 32 word) = of_nat n"
  by (rule bit_word_eqI) (simp add: bit_simps)

lemma size_string:
  assumes "str_bytes m val = Some bs"
  shows "ngx_protobuf_size_string val = length (enc_string bs)"
proof -
  have l: "unat (slen val) = length bs" using assms load_length by (auto simp: str_bytes_def)
  then have "slen val = of_nat (length bs)" by (simp flip: l)
  then have "(ucast (slen val) :: 32 word) = of_nat (length bs)" by (simp only: ucast_of_nat_32)
  then show ?thesis using l
    by (simp add: ngx_protobuf_size_string_def ngx_protobuf_size_binary_def size_uint32_varint enc_string_def)
qed

text \<open>Writing a string whose bytes lie outside the part of the buffer that is written.\<close>

lemma write_string:
  assumes "str_bytes m val = Some bs" "region (sdata val) (length bs) \<inter> region p (length (enc_string bs)) = {}"
  shows "ngx_protobuf_write_string m p val = do { m \<leftarrow> store m p (enc_string bs); Some (m, p + of_nat (length (enc_string bs))) }"
proof -
  let ?v = "of_nat (length bs) :: 32 word"
  have l: "unat (slen val) = length bs" using assms(1) load_length by (auto simp: str_bytes_def)
  then have n: "slen val = of_nat (length bs)" by (simp flip: l)
  then have c: "(ucast (slen val) :: 32 word) = ?v" by (simp only: ucast_of_nat_32)
  show ?thesis
  proof (cases "store m p (varint ?v)")
    case None
    then show ?thesis by (simp add: ngx_protobuf_write_string_def c ngx_protobuf_write_uint32_def write_uint_varint enc_string_def store_append)
  next
    case (Some m1)
    have "load m1 (sdata val) (length bs) = load m (sdata val) (length bs)"
      by (rule load_store_frame [OF Some]) (use assms(2) region_add [of p "length (varint ?v)" "length bs"] in \<open>auto simp: enc_string_def\<close>)
    then have "load m1 (sdata val) (unat (slen val)) = Some bs" using assms(1) l by (simp add: str_bytes_def)
    then show ?thesis
      by (simp add: ngx_protobuf_write_string_def c ngx_protobuf_write_uint32_def write_uint_varint enc_string_def store_append Some)
        (simp add: n add.assoc)
  qed
qed

section \<open>What the wire types have in common\<close>

text \<open>The loop that writes the elements of an array.\<close>

fun write_each :: "(memory \<Rightarrow> addr \<Rightarrow> 'v \<Rightarrow> write_result) \<Rightarrow> memory \<Rightarrow> addr \<Rightarrow> 'v list \<Rightarrow> write_result" where
  "write_each wr m p [] = Some (m, p)"
| "write_each wr m p (v # vs) = do { (m, p) \<leftarrow> wr m p v; write_each wr m p vs }"

text \<open>A type of values that are written as the bytes \<open>enc\<close>, of which \<open>size\<close> computes the number.\<close>

locale wire_writer =
  fixes sz :: "'v \<Rightarrow> nat" and enc :: "'v \<Rightarrow> byte list" and wr :: "memory \<Rightarrow> addr \<Rightarrow> 'v \<Rightarrow> write_result"
  assumes size_enc: "sz v = length (enc v)"
    and write_enc: "wr m p v = do { m \<leftarrow> store m p (enc v); Some (m, p + of_nat (length (enc v))) }"
begin

lemma size_each: "sum_list (map sz vs) = length (concat (map enc vs))"
  by (induction vs) (simp_all add: size_enc)

lemma write_each_enc:
  "write_each wr m p vs =
     do { m \<leftarrow> store m p (concat (map enc vs)); Some (m, p + of_nat (length (concat (map enc vs)))) }"
proof (induction vs arbitrary: m p)
  case (Cons v vs)
  show ?case
    by (cases "store m p (enc v)") (simp_all add: write_enc [of m p v] store_append Cons add.assoc)
qed simp

lemma write_dom: "wr m p v = Some (m', p') \<Longrightarrow> dom m' = dom m \<and> p' = p + of_nat (sz v)"
  using store_dom [of m p "enc v" m'] by (simp add: write_enc size_enc)

end

text \<open>A type whose values are read back; \<open>norm\<close> is what reading makes of a value.\<close>

locale wire_type = wire_writer +
  fixes rd :: "memory \<Rightarrow> addr \<Rightarrow> addr \<Rightarrow> 'v \<Rightarrow> (addr \<times> 'v \<times> ngx_int_t) option" and norm :: "'v \<Rightarrow> 'v"
  assumes enc_not_Nil: "enc v \<noteq> []"
    and read_enc: "load m p (length (enc v)) = Some (enc v) \<Longrightarrow> unat p + length (enc v) \<le> unat e \<Longrightarrow>
      rd m p e v0 = Some (p + of_nat (length (enc v)), norm v, NGX_OK)"
begin

lemma read_back:
  assumes "wr m p v = Some (m', p')" "unat p + sz v \<le> unat e"
  shows "rd m' p e v0 = Some (p', norm v, NGX_OK)"
proof -
  have s: "store m p (enc v) = Some m'" "p' = p + of_nat (length (enc v))" using assms(1) by (auto simp: write_enc)
  have "length (enc v) < 2 ^ 64" using assms(2) unsigned_less [of e, where ?'a = nat] by (simp add: size_enc)
  then have "load m' p (length (enc v)) = Some (enc v)" by (rule load_store [OF s(1)])
  then show ?thesis using assms(2) s(2) by (simp add: read_enc size_enc)
qed

end

interpretation wuint32: wire_type ngx_protobuf_size_uint32 varint ngx_protobuf_write_uint32 ngx_protobuf_read_uint32 id
  by unfold_locales
    (simp_all add: size_uint32_varint ngx_protobuf_write_uint32_def write_uint_varint read_uint32_varint)

interpretation wuint64: wire_type ngx_protobuf_size_uint64 varint ngx_protobuf_write_uint64 ngx_protobuf_read_uint64 id
  by unfold_locales
    (simp_all add: size_uint64_varint ngx_protobuf_write_uint64_def write_uint_varint read_uint64_varint)

interpretation wsint32: wire_type ngx_protobuf_size_sint32 "\<lambda>v. varint (z32_encode v)" ngx_protobuf_write_sint32 ngx_protobuf_read_sint32 id
  by unfold_locales (simp_all add: ngx_protobuf_size_sint32_def size_uint32_varint ngx_protobuf_write_sint32_def
    ngx_protobuf_write_uint32_def write_uint_varint ngx_protobuf_read_sint32_def read_uint32_varint)

interpretation wsint64: wire_type ngx_protobuf_size_sint64 "\<lambda>v. varint (z64_encode v)" ngx_protobuf_write_sint64 ngx_protobuf_read_sint64 id
  by unfold_locales (simp_all add: ngx_protobuf_size_sint64_def size_uint64_varint ngx_protobuf_write_sint64_def
    ngx_protobuf_write_uint64_def write_uint_varint ngx_protobuf_read_sint64_def read_uint64_varint)

text \<open>Truth values are written as 0 or 1.\<close>

definition write_bool :: "memory \<Rightarrow> addr \<Rightarrow> 32 word \<Rightarrow> write_result" where
  "write_bool m p v = ngx_protobuf_write_uint32 m p (of_bool (v \<noteq> 0))"

definition size_bool :: "32 word \<Rightarrow> nat" where
  "size_bool v = ngx_protobuf_size_uint32 (of_bool (v \<noteq> 0))"

interpretation wbool: wire_type size_bool "\<lambda>v. varint (of_bool (v \<noteq> 0) :: 32 word)" write_bool ngx_protobuf_read_bool
    "\<lambda>v. of_bool (v \<noteq> 0)"
  by unfold_locales (simp_all add: size_bool_def size_uint32_varint write_bool_def
    ngx_protobuf_write_uint32_def write_uint_varint ngx_protobuf_read_bool_def read_uint32_varint)

lemma le_bytes_length [simp]: "length (le_bytes n w) = n"
  by (simp add: le_bytes_def)

text \<open>The types of fixed size keep only the half of the contract that is about writing.\<close>

interpretation wfixed32: wire_writer "\<lambda>_. 4" "le_bytes 4" ngx_protobuf_write_fixed32
  by unfold_locales (simp_all add: ngx_protobuf_write_fixed32_def)

interpretation wfixed64: wire_writer "\<lambda>_. 8" "le_bytes 8" ngx_protobuf_write_fixed64
  by unfold_locales (simp_all add: ngx_protobuf_write_fixed64_def)

interpretation wsfixed32: wire_writer "\<lambda>_. 4" "\<lambda>v. le_bytes 4 (z32_encode v)" ngx_protobuf_write_sfixed32
  by unfold_locales (simp_all add: ngx_protobuf_write_sfixed32_def ngx_protobuf_write_fixed32_def)

interpretation wsfixed64: wire_writer "\<lambda>_. 8" "\<lambda>v. le_bytes 8 (z64_encode v)" ngx_protobuf_write_sfixed64
  by unfold_locales (simp_all add: ngx_protobuf_write_sfixed64_def ngx_protobuf_write_fixed64_def)

interpretation wfloat: wire_writer "\<lambda>_. 4" "le_bytes 4" ngx_protobuf_write_float
  by unfold_locales (simp_all add: ngx_protobuf_write_float_def)

interpretation wdouble: wire_writer "\<lambda>_. 8" "le_bytes 8" ngx_protobuf_write_double
  by unfold_locales (simp_all add: ngx_protobuf_write_double_def)

end
