(* ===== verification/Ngx_Protobuf.thy ===== *)
theory Ngx_Protobuf
  imports Ngx_Wire
begin

text \<open>
  The generic part of the protocol-buffer library for nginx, \<^verbatim>\<open>ngx_protobuf.c\<close>: extension fields and
  unknown fields, their sizes, packing and unpacking.

  Bytes of buffers and strings are in memory (\<open>Ngx_Wire\<close>), trees are those of \<open>Ngx_Rbtree\<close>.
  Descriptors, values and arrays are data of the model.  Messages are an open type with the pack,
  unpack and size functions of their descriptor.  The parameters of the model are in \<open>pb_env\<close>:
  \<^verbatim>\<open>ngx_palloc\<close>, the contents of two uninitialised variables, and the conversion of a \<^verbatim>\<open>double\<close> to a
  \<^verbatim>\<open>float\<close> and back.

  \<^verbatim>\<open>ngx_array_push\<close> is one request to \<^verbatim>\<open>ngx_palloc\<close> per element; a push into spare room of the array
  is a request that succeeds.
\<close>

section \<open>Model: descriptors and values\<close>

datatype ngx_protobuf_label_e = LABEL_OPTIONAL | LABEL_REQUIRED | LABEL_REPEATED

datatype ngx_protobuf_type_e =
  TYPE_DOUBLE | TYPE_FLOAT | TYPE_INT64 | TYPE_UINT64 | TYPE_INT32 | TYPE_FIXED64 | TYPE_FIXED32 | TYPE_BOOL | TYPE_STRING
| TYPE_GROUP | TYPE_MESSAGE | TYPE_BYTES | TYPE_UINT32 | TYPE_ENUM | TYPE_SFIXED32 | TYPE_SFIXED64 | TYPE_SINT32 | TYPE_SINT64

record 'm pb_env =
  e_palloc :: "'m palloc"
  e_uval32 :: "32 word"
  e_uval64 :: "64 word"
  e_via_float :: "64 word \<Rightarrow> 64 word"

text \<open>The context: the memory, the pointers of the buffer, the flag and whether there is a pool.\<close>

record 'm ngx_protobuf_context_t =
  cstate :: "'m pstate"
  cpos :: addr
  clast :: addr
  reuse_strings :: bool
  has_pool :: bool

text \<open>The functions of a descriptor; \<open>dzero\<close> is a message whose memory was cleared.  A size is \<open>None\<close> for a
  message with a value the model does not know.\<close>

record ('o, 'm) ngx_protobuf_field_descriptor_t =
  dnumber :: "32 word"
  dwire_type :: "32 word"
  dlabel :: ngx_protobuf_label_e
  dtype :: ngx_protobuf_type_e
  dwidth :: nat
  dpacked :: bool
  dpack :: "'o \<Rightarrow> 'm ngx_protobuf_context_t \<Rightarrow> ('m ngx_protobuf_context_t \<times> ngx_int_t) option"
  dunpack :: "'o \<Rightarrow> 'm ngx_protobuf_context_t \<Rightarrow> ('o \<times> 'm ngx_protobuf_context_t \<times> ngx_int_t) option"
  dsize :: "'o \<Rightarrow> nat option"
  dzero :: 'o

text \<open>
  The union of values, by the member written last; \<open>U_Zero\<close> is cleared memory.  Floating-point
  values are their bits in \<open>U_32\<close> and \<open>U_64\<close>.  An array holds such values too.
\<close>

datatype 'o pb_union =
  U_Zero | U_32 "32 word" | U_64 "64 word" | U_Str ngx_str_t | U_Msg 'o | U_Rep "'o pb_union list"

text \<open>Reading a member; the members overlap as on a little-endian machine, \<open>None\<close> is a value the model does not know.\<close>

definition as_u32 :: "'o pb_union \<Rightarrow> 32 word option" where
  "as_u32 u = (case u of U_Zero \<Rightarrow> Some 0 | U_32 w \<Rightarrow> Some w | U_64 w \<Rightarrow> Some (ucast w) | U_Str s \<Rightarrow> Some (ucast (slen s)) | _ \<Rightarrow> None)"

definition as_u64 :: "'o pb_union \<Rightarrow> 64 word option" where
  "as_u64 u = (case u of U_Zero \<Rightarrow> Some 0 | U_64 w \<Rightarrow> Some w | U_Str s \<Rightarrow> Some (slen s) | _ \<Rightarrow> None)"

definition as_str :: "'o pb_union \<Rightarrow> ngx_str_t option" where
  "as_str u = (case u of U_Zero \<Rightarrow> Some \<lparr>slen = 0, sdata = NULL\<rparr> | U_Str s \<Rightarrow> Some s | _ \<Rightarrow> None)"

text \<open>A pointer to a message or an array; the inner \<open>None\<close> is the null pointer.\<close>

definition as_msg :: "'o pb_union \<Rightarrow> 'o option option" where
  "as_msg u = (case u of U_Zero \<Rightarrow> Some None | U_Msg x \<Rightarrow> Some (Some x) | _ \<Rightarrow> None)"

definition as_array :: "'o pb_union \<Rightarrow> 'o pb_union list option option" where
  "as_array u = (case u of U_Zero \<Rightarrow> Some None | U_Rep xs \<Rightarrow> Some (Some xs) | _ \<Rightarrow> None)"

text \<open>A message that is an element of an array, in place.\<close>

definition as_elt :: "('o, 'm) ngx_protobuf_field_descriptor_t \<Rightarrow> 'o pb_union \<Rightarrow> 'o option" where
  "as_elt field u = (case u of U_Zero \<Rightarrow> Some (dzero field) | U_Msg x \<Rightarrow> Some x | _ \<Rightarrow> None)"

record 'o ngx_protobuf_value_t =
  vtype :: "ngx_protobuf_type_e option"
  vexists :: bool
  vu :: "'o pb_union"

definition zero_value :: "'o ngx_protobuf_value_t" where
  "zero_value = \<lparr>vtype = None, vexists = False, vu = U_Zero\<rparr>"

record 'o ngx_protobuf_unknown_field_t =
  ufnumber :: "32 word"
  ufwire_type :: "32 word"
  ufvalue :: "'o ngx_protobuf_value_t"

text \<open>The nodes of the two trees, without their links.\<close>

type_synonym ('o, 'm) extension_descriptor = "('o, 'm) ngx_protobuf_field_descriptor_t"

record ('o, 'm) ngx_protobuf_extension_field_t =
  xdescriptor :: "('o, 'm) ngx_protobuf_field_descriptor_t option"
  xvalue :: "'o ngx_protobuf_value_t"

definition zero_field :: "('o, 'm) ngx_protobuf_extension_field_t" where
  "zero_field = \<lparr>xdescriptor = None, xvalue = zero_value\<rparr>"

type_synonym ('o, 'm) registry = "('o, 'm) extension_descriptor option ngx_rbtree_node_t"
type_synonym ('o, 'm) extensions = "('o, 'm) ngx_protobuf_extension_field_t ngx_rbtree_node_t"

section \<open>Model: trees and arrays\<close>

text \<open>The new element is cleared memory, \<open>zero\<close>; the last component tells whether there is one.\<close>

definition ngx_protobuf_push_array ::
    "'m pb_env \<Rightarrow> 'm pstate \<Rightarrow> 'e list option \<Rightarrow> bool \<Rightarrow> nat \<Rightarrow> 'e \<Rightarrow> 'm pstate \<times> 'e list option \<times> bool" where
  "ngx_protobuf_push_array env s a pool n zero =
     (let (s, a) = (case a of Some xs \<Rightarrow> (s, Some xs)
          | None \<Rightarrow>
            if pool then
              let (s, d) = e_palloc env s 40 in
                if d = NULL then (s, None)
                else let (s, d) = e_palloc env s n in if d = NULL then (s, None) else (s, Some [])
            else (s, None)) in
      case a of None \<Rightarrow> (s, None, False)
      | Some xs \<Rightarrow>
        let (s, d) = e_palloc env s n in
          if d = NULL then (s, Some xs, False) else (s, Some (xs @ [zero]), True))"

text \<open>A null pointer for the tree is \<open>None\<close>.\<close>

definition ngx_protobuf_init_rbtree ::
    "'m pb_env \<Rightarrow> 'm pstate \<Rightarrow> 'v ngx_rbtree_node_t option \<Rightarrow> 'm pstate \<times> 'v ngx_rbtree_node_t option \<times> ngx_int_t" where
  "ngx_protobuf_init_rbtree env s tree =
     (if tree \<noteq> None then (s, tree, NGX_OK)
      else let (s, d) = e_palloc env s 40 in
        if d = NULL then (s, tree, NGX_ERROR)
        else let (s, d) = e_palloc env s 24 in
          if d = NULL then (s, None, NGX_ERROR) else (s, Some Sentinel, NGX_OK))"

text \<open>The new node is cleared memory, \<open>zero\<close>.  The last component is the node, or \<open>None\<close> for a null pointer.\<close>

definition ngx_protobuf_rbtree_node ::
    "'m pb_env \<Rightarrow> 'm pstate \<Rightarrow> 'v ngx_rbtree_node_t \<Rightarrow> 32 word \<Rightarrow> nat \<Rightarrow> 'v \<Rightarrow> ('m pstate \<times> 'v ngx_rbtree_node_t \<times> 'v option) option" where
  "ngx_protobuf_rbtree_node env s tree key sz zero =
     (case ngx_protobuf_find_node tree key of
        Some v \<Rightarrow> Some (s, tree, Some v)
      | None \<Rightarrow>
        let (s, d) = e_palloc env s sz in
          if d = NULL then Some (s, tree, None)
          else do { tree \<leftarrow> ngx_rbtree_insert tree (ucast key) zero; Some (s, tree, Some zero) })"

definition ngx_protobuf_import_extension ::
    "'m pb_env \<Rightarrow> 'm pstate \<Rightarrow> ('o, 'm) registry option \<Rightarrow> ('o, 'm) ngx_protobuf_field_descriptor_t \<Rightarrow>
      ('m pstate \<times> ('o, 'm) registry option \<times> ngx_int_t) option" where
  "ngx_protobuf_import_extension env s registry desc =
     (let (s, registry, rc) = ngx_protobuf_init_rbtree env s registry in
       if rc \<noteq> NGX_OK then Some (s, registry, NGX_ERROR)
       else do {
         tree \<leftarrow> registry;
         (s, tree, node) \<leftarrow> ngx_protobuf_rbtree_node env s tree (dnumber desc) 48 None;
         if node = None then Some (s, Some tree, NGX_ERROR)
         else Some (s, Some (update_node tree (dnumber desc) (Some desc)), NGX_OK) })"

text \<open>The inner result is a pointer to the value of the node, here a copy of the value.\<close>

definition ngx_protobuf_get_extension :: "('o, 'm) extensions option \<Rightarrow> 32 word \<Rightarrow> 'o ngx_protobuf_value_t option" where
  "ngx_protobuf_get_extension extensions field =
     (case extensions of None \<Rightarrow> None
      | Some tree \<Rightarrow> (case ngx_protobuf_find_node tree field of None \<Rightarrow> None | Some n \<Rightarrow> Some (xvalue n)))"

definition ngx_protobuf_get_extension_node ::
    "'m pb_env \<Rightarrow> 'm pstate \<Rightarrow> ('o, 'm) extensions option \<Rightarrow> ('o, 'm) registry \<Rightarrow> 32 word \<Rightarrow>
      ('m pstate \<times> ('o, 'm) extensions option \<times> ('o, 'm) ngx_protobuf_extension_field_t option \<times> ngx_int_t) option" where
  "ngx_protobuf_get_extension_node env s extensions registry field =
     (case ngx_protobuf_find_node registry field of
        None \<Rightarrow> Some (s, extensions, None, NGX_ABORT)
      | Some desc \<Rightarrow>
        let (s, extensions, rc) = ngx_protobuf_init_rbtree env s extensions in
          if rc \<noteq> NGX_OK then Some (s, extensions, None, NGX_ERROR)
          else do {
            tree \<leftarrow> extensions;
            (s, tree, node) \<leftarrow> ngx_protobuf_rbtree_node env s tree field 80 zero_field;
            case node of None \<Rightarrow> Some (s, Some tree, None, NGX_ERROR)
            | Some n \<Rightarrow>
              let n = (if xdescriptor n = None then n\<lparr>xdescriptor := desc\<rparr> else n) in
                Some (s, Some (update_node tree field n), Some n, NGX_OK) })"

text \<open>The place of the value of a field: the node with the place prepared, and what is there, \<open>None\<close> for a null pointer.\<close>

definition ngx_protobuf_extension_field ::
    "'m pb_env \<Rightarrow> 'm pstate \<Rightarrow> ('o, 'm) ngx_protobuf_extension_field_t \<Rightarrow> bool \<Rightarrow>
      ('m pstate \<times> ('o, 'm) ngx_protobuf_extension_field_t \<times> 'o pb_union option) option" where
  "ngx_protobuf_extension_field env s node pool = do {
     desc \<leftarrow> xdescriptor node;
     if dlabel desc = LABEL_REPEATED then do {
       a \<leftarrow> as_array (vu (xvalue node));
       let (s, a, ok) = ngx_protobuf_push_array env s a pool (dwidth desc) U_Zero;
       let node = node\<lparr>xvalue := (xvalue node)\<lparr>vu := (case a of None \<Rightarrow> U_Zero | Some xs \<Rightarrow> U_Rep xs)\<rparr>\<rparr>;
       Some (s, node, if ok then Some U_Zero else None) }
     else if dtype desc = TYPE_MESSAGE then do {
       p \<leftarrow> as_msg (vu (xvalue node));
       case p of Some x \<Rightarrow> Some (s, node, Some (U_Msg x))
       | None \<Rightarrow>
         let (s, d) = e_palloc env s (dwidth desc) in
           if d = NULL then Some (s, node, None)
           else Some (s, node\<lparr>xvalue := (xvalue node)\<lparr>vu := U_Msg (dzero desc)\<rparr>\<rparr>, Some (U_Msg (dzero desc))) }
     else Some (s, node, Some (vu (xvalue node))) }"

text \<open>Writes through the pointer that \<open>ngx_protobuf_extension_field\<close> returned.\<close>

definition put_field :: "('o, 'm) ngx_protobuf_extension_field_t \<Rightarrow> 'o pb_union \<Rightarrow> ('o, 'm) ngx_protobuf_extension_field_t" where
  "put_field node obj = (case vu (xvalue node) of
       U_Rep xs \<Rightarrow> node\<lparr>xvalue := (xvalue node)\<lparr>vu := U_Rep (butlast xs @ [obj])\<rparr>\<rparr>
     | _ \<Rightarrow> node\<lparr>xvalue := (xvalue node)\<lparr>vu := obj\<rparr>\<rparr>)"

definition ngx_protobuf_set_extension ::
    "'m pb_env \<Rightarrow> 'm pstate \<Rightarrow> ('o, 'm) extensions option \<Rightarrow> ('o, 'm) registry \<Rightarrow> 32 word \<Rightarrow> 'o ngx_protobuf_value_t option \<Rightarrow>
      ('m pstate \<times> ('o, 'm) extensions option \<times> ngx_int_t) option" where
  "ngx_protobuf_set_extension env s extensions registry field value = do {
     (s, extensions, n, rc) \<leftarrow> ngx_protobuf_get_extension_node env s extensions registry field;
     if rc \<noteq> NGX_OK then Some (s, extensions, rc)
     else do {
       n \<leftarrow> n;
       tree \<leftarrow> extensions;
       case value of
         Some v \<Rightarrow>
           if vexists v then do {
             desc \<leftarrow> xdescriptor n;
             if vtype v \<noteq> Some (dtype desc) then Some (s, extensions, NGX_ABORT)
             else Some (s, Some (update_node tree field (n\<lparr>xvalue := v\<rparr>)), NGX_OK) }
           else Some (s, Some (update_node tree field (n\<lparr>xvalue := zero_value\<rparr>)), NGX_OK)
       | None \<Rightarrow> Some (s, Some (update_node tree field (n\<lparr>xvalue := zero_value\<rparr>)), NGX_OK) } }"

definition ngx_protobuf_add_extension ::
    "'m pb_env \<Rightarrow> 'm pstate \<Rightarrow> ('o, 'm) extensions option \<Rightarrow> ('o, 'm) registry \<Rightarrow> 32 word \<Rightarrow> bool \<Rightarrow>
      ('m pstate \<times> ('o, 'm) extensions option \<times> 'o pb_union option \<times> ngx_int_t) option" where
  "ngx_protobuf_add_extension env s extensions registry field pool = do {
     (s, extensions, n, rc) \<leftarrow> ngx_protobuf_get_extension_node env s extensions registry field;
     if rc \<noteq> NGX_OK then Some (s, extensions, None, rc)
     else do {
       n \<leftarrow> n;
       tree \<leftarrow> extensions;
       (s, n, obj) \<leftarrow> ngx_protobuf_extension_field env s n pool;
       Some (s, Some (update_node tree field n), obj, if obj = None then NGX_ERROR else NGX_OK) } }"

definition ngx_protobuf_clear_extension :: "('o, 'm) extensions option \<Rightarrow> 32 word \<Rightarrow> ('o, 'm) extensions option" where
  "ngx_protobuf_clear_extension extensions field =
     (case extensions of None \<Rightarrow> None
      | Some tree \<Rightarrow>
        (case ngx_protobuf_find_node tree field of None \<Rightarrow> Some tree
         | Some n \<Rightarrow> Some (update_node tree field (n\<lparr>xvalue := zero_value\<rparr>))))"

section \<open>Model: unpacking\<close>

text \<open>One case of the switch of \<open>ngx_protobuf_unpack_extension_value\<close>, for the readers of each kind.\<close>

definition unpack32 where
  "unpack32 rd obj ctx = do {
     old \<leftarrow> as_u32 obj;
     (p, v, rc) \<leftarrow> rd (mem (cstate ctx)) (cpos ctx) (clast ctx) old;
     Some (if rc = NGX_OK then U_32 v else obj, ctx\<lparr>cpos := p\<rparr>, rc) }"

definition unpack64 where
  "unpack64 rd obj ctx = do {
     old \<leftarrow> as_u64 obj;
     (p, v, rc) \<leftarrow> rd (mem (cstate ctx)) (cpos ctx) (clast ctx) old;
     Some (if rc = NGX_OK then U_64 v else obj, ctx\<lparr>cpos := p\<rparr>, rc) }"

definition unpack_fixed32 where
  "unpack_fixed32 rd obj ctx = do {
     old \<leftarrow> as_u32 obj;
     (m, p, v, rc) \<leftarrow> rd (mem (cstate ctx)) (cpos ctx) (clast ctx) old;
     Some (if rc = NGX_OK then U_32 v else obj, ctx\<lparr>cstate := (cstate ctx)\<lparr>mem := m\<rparr>, cpos := p\<rparr>, rc) }"

definition unpack_fixed64 where
  "unpack_fixed64 rd obj ctx = do {
     old \<leftarrow> as_u64 obj;
     (m, p, v, rc) \<leftarrow> rd (mem (cstate ctx)) (cpos ctx) (clast ctx) old;
     Some (if rc = NGX_OK then U_64 v else obj, ctx\<lparr>cstate := (cstate ctx)\<lparr>mem := m\<rparr>, cpos := p\<rparr>, rc) }"

definition ngx_protobuf_unpack_extension_value ::
    "'m pb_env \<Rightarrow> ('o, 'm) ngx_protobuf_field_descriptor_t \<Rightarrow> 'o pb_union \<Rightarrow> 'm ngx_protobuf_context_t \<Rightarrow>
      ('o pb_union \<times> 'm ngx_protobuf_context_t \<times> ngx_int_t) option" where
  "ngx_protobuf_unpack_extension_value env field obj ctx =
     (case dtype field of
        TYPE_MESSAGE \<Rightarrow> do {
          (p, mlen, rc) \<leftarrow> ngx_protobuf_read_uint32 (mem (cstate ctx)) (cpos ctx) (clast ctx) 0;
          if rc = NGX_OK then do {
            x \<leftarrow> as_elt field obj;
            (x, ctx', rc) \<leftarrow> dunpack field x (ctx\<lparr>cpos := p, clast := p + ucast mlen\<rparr>);
            Some (U_Msg x, ctx'\<lparr>clast := clast ctx\<rparr>, rc) }
          else Some (obj, ctx\<lparr>cpos := p\<rparr>, rc) }
      | TYPE_BYTES \<Rightarrow> do {
          old \<leftarrow> as_str obj;
          (s, p, v, rc) \<leftarrow> ngx_protobuf_read_string (e_palloc env) (cstate ctx) (cpos ctx) (clast ctx) old (has_pool ctx);
          Some (U_Str v, ctx\<lparr>cstate := s, cpos := p\<rparr>, rc) }
      | TYPE_STRING \<Rightarrow> do {
          old \<leftarrow> as_str obj;
          (s, p, v, rc) \<leftarrow> ngx_protobuf_read_string (e_palloc env) (cstate ctx) (cpos ctx) (clast ctx) old (has_pool ctx);
          Some (U_Str v, ctx\<lparr>cstate := s, cpos := p\<rparr>, rc) }
      | TYPE_BOOL \<Rightarrow> unpack32 ngx_protobuf_read_bool obj ctx
      | TYPE_ENUM \<Rightarrow> unpack32 ngx_protobuf_read_uint32 obj ctx
      | TYPE_UINT32 \<Rightarrow> unpack32 ngx_protobuf_read_uint32 obj ctx
      | TYPE_INT32 \<Rightarrow> unpack32 ngx_protobuf_read_uint32 obj ctx
      | TYPE_SINT32 \<Rightarrow> unpack32 ngx_protobuf_read_sint32 obj ctx
      | TYPE_UINT64 \<Rightarrow> unpack64 ngx_protobuf_read_uint64 obj ctx
      | TYPE_INT64 \<Rightarrow> unpack64 ngx_protobuf_read_uint64 obj ctx
      | TYPE_SINT64 \<Rightarrow> unpack64 ngx_protobuf_read_sint64 obj ctx
      | TYPE_FIXED32 \<Rightarrow> unpack_fixed32 ngx_protobuf_read_fixed32 obj ctx
      | TYPE_SFIXED32 \<Rightarrow> unpack_fixed32 (ngx_protobuf_read_sfixed32 (e_uval32 env)) obj ctx
      | TYPE_FLOAT \<Rightarrow> unpack_fixed32 ngx_protobuf_read_float obj ctx
      | TYPE_FIXED64 \<Rightarrow> unpack_fixed64 ngx_protobuf_read_fixed64 obj ctx
      | TYPE_SFIXED64 \<Rightarrow> unpack_fixed64 (ngx_protobuf_read_sfixed64 (e_uval64 env)) obj ctx
      | TYPE_DOUBLE \<Rightarrow> unpack_fixed64 ngx_protobuf_read_double obj ctx
      | _ \<Rightarrow> Some (obj, ctx, NGX_OK))"

text \<open>
  The loop over a packed field up to \<open>mend\<close>.  \<open>None\<close> is also a loop that does not end: a length
  that wraps around moves the position back, and a field of a type that is not read does not move it.
\<close>

partial_function (option) packed_loop ::
    "'m pb_env \<Rightarrow> ('o, 'm) ngx_protobuf_field_descriptor_t \<Rightarrow> addr \<Rightarrow> ('o, 'm) ngx_protobuf_extension_field_t \<Rightarrow>
      'm ngx_protobuf_context_t \<Rightarrow> (('o, 'm) ngx_protobuf_extension_field_t \<times> 'm ngx_protobuf_context_t \<times> ngx_int_t) option" where
  "packed_loop env desc mend onode ctx =
     (if cpos ctx < mend then do {
        (s, onode, obj) \<leftarrow> ngx_protobuf_extension_field env (cstate ctx) onode (has_pool ctx);
        let ctx = ctx\<lparr>cstate := s\<rparr>;
        case obj of None \<Rightarrow> Some (onode, ctx, NGX_ERROR)
        | Some obj \<Rightarrow> do {
            (obj, ctx, rc) \<leftarrow> ngx_protobuf_unpack_extension_value env desc obj ctx;
            let onode = put_field onode obj;
            if rc \<noteq> NGX_OK then Some (onode, ctx, rc)
            else packed_loop env desc mend (onode\<lparr>xvalue := (xvalue onode)\<lparr>vexists := True\<rparr>\<rparr>) ctx } }
      else Some (onode, ctx, NGX_OK))"

text \<open>The two ways to read the value of a field, packed and unpacked.\<close>

definition unpack_packed where
  "unpack_packed env desc onode ctx = do {
     (p, mlen, rc) \<leftarrow> ngx_protobuf_read_uint32 (mem (cstate ctx)) (cpos ctx) (clast ctx) 0;
     let ctx = ctx\<lparr>cpos := p\<rparr>;
     if rc \<noteq> NGX_OK then Some (onode, ctx, NGX_ABORT)
     else if p + ucast mlen > clast ctx then Some (onode, ctx, NGX_ABORT)
     else do {
       (onode, ctx', rc) \<leftarrow> packed_loop env desc (p + ucast mlen) onode (ctx\<lparr>clast := p + ucast mlen\<rparr>);
       Some (onode, ctx'\<lparr>clast := clast ctx\<rparr>, rc) } }"

definition unpack_unpacked where
  "unpack_unpacked env desc onode ctx = do {
     (s, onode, obj) \<leftarrow> ngx_protobuf_extension_field env (cstate ctx) onode (has_pool ctx);
     let ctx = ctx\<lparr>cstate := s\<rparr>;
     case obj of None \<Rightarrow> Some (onode, ctx, NGX_ERROR)
     | Some obj \<Rightarrow> do {
         (obj, ctx, rc) \<leftarrow> ngx_protobuf_unpack_extension_value env desc obj ctx;
         Some (put_field onode obj, ctx, rc) } }"

text \<open>The node in the tree is written back at the end.\<close>

definition ngx_protobuf_unpack_extension ::
    "'m pb_env \<Rightarrow> 32 word \<Rightarrow> 32 word \<Rightarrow> 'm ngx_protobuf_context_t \<Rightarrow> ('o, 'm) registry option \<Rightarrow> ('o, 'm) extensions option \<Rightarrow>
      ('m ngx_protobuf_context_t \<times> ('o, 'm) extensions option \<times> ngx_int_t) option" where
  "ngx_protobuf_unpack_extension env field wire ctx registry extensions =
     (case registry of
        None \<Rightarrow> do {
          (s, p, rc) \<leftarrow> ngx_protobuf_skip (e_uval32 env) (e_uval64 env) (e_palloc env) (cstate ctx) (cpos ctx) (clast ctx) wire;
          Some (ctx\<lparr>cstate := s, cpos := p\<rparr>, extensions, rc) }
      | Some reg \<Rightarrow>
        (case ngx_protobuf_find_node reg field of
           None \<Rightarrow> Some (ctx, extensions, NGX_DECLINED)
         | Some rnode \<Rightarrow> do {
             desc \<leftarrow> rnode;
             let packed = (dwire_type desc \<noteq> wire);
             if packed \<and> \<not> (wire = WIRE_LENGTH_DELIMITED \<and> dpacked desc) then Some (ctx, extensions, NGX_ABORT)
             else if \<not> has_pool ctx then Some (ctx, extensions, NGX_ERROR)
             else do {
               let (s, extensions, rc) = ngx_protobuf_init_rbtree env (cstate ctx) extensions;
               let ctx = ctx\<lparr>cstate := s\<rparr>;
               if rc \<noteq> NGX_OK then Some (ctx, extensions, NGX_ERROR)
               else do {
                 tree \<leftarrow> extensions;
                 (s, tree, onode) \<leftarrow> ngx_protobuf_rbtree_node env (cstate ctx) tree field 80 zero_field;
                 let ctx = ctx\<lparr>cstate := s\<rparr>;
                 case onode of None \<Rightarrow> Some (ctx, Some tree, NGX_ERROR)
                 | Some onode \<Rightarrow> do {
                     let onode = (if xdescriptor onode = None then onode\<lparr>xdescriptor := Some desc\<rparr> else onode);
                     (onode, ctx, rc) \<leftarrow> (if packed then unpack_packed env desc onode ctx else unpack_unpacked env desc onode ctx);
                     let onode = (if rc = NGX_OK
                       then onode\<lparr>xvalue := (xvalue onode)\<lparr>vexists := True, vtype := Some (dtype desc)\<rparr>\<rparr> else onode);
                     Some (ctx, Some (update_node tree field onode), rc) } } } }))"

definition zero_unknown :: "'o ngx_protobuf_unknown_field_t" where
  "zero_unknown = \<lparr>ufnumber = 0, ufwire_type = 0, ufvalue = zero_value\<rparr>"

definition ngx_protobuf_unpack_unknown_field ::
    "'m pb_env \<Rightarrow> 32 word \<Rightarrow> 32 word \<Rightarrow> 'm ngx_protobuf_context_t \<Rightarrow> 'o ngx_protobuf_unknown_field_t list option \<Rightarrow>
      ('m ngx_protobuf_context_t \<times> 'o ngx_protobuf_unknown_field_t list option \<times> ngx_int_t) option" where
  "ngx_protobuf_unpack_unknown_field env field wire ctx unknown =
     (let (s, unknown, ok) = ngx_protobuf_push_array env (cstate ctx) unknown (has_pool ctx) 40 zero_unknown;
          ctx = ctx\<lparr>cstate := s\<rparr> in
       if \<not> ok then Some (ctx, unknown, NGX_ERROR)
       else do {
         us \<leftarrow> unknown;
         (u, ctx, rc) \<leftarrow>
           (if wire = WIRE_VARINT then unpack64 ngx_protobuf_read_uint64 U_Zero ctx
            else if wire = WIRE_FIXED64 then unpack_fixed64 ngx_protobuf_read_fixed64 U_Zero ctx
            else if wire = WIRE_LENGTH_DELIMITED then do {
              (s, p, v, rc) \<leftarrow> ngx_protobuf_read_string (e_palloc env) (cstate ctx) (cpos ctx) (clast ctx) \<lparr>slen = 0, sdata = NULL\<rparr>
                (\<not> reuse_strings ctx \<and> has_pool ctx);
              Some (U_Str v, ctx\<lparr>cstate := s, cpos := p\<rparr>, rc) }
            else if wire = WIRE_FIXED32 then unpack_fixed32 ngx_protobuf_read_fixed32 U_Zero ctx
            else Some (U_Zero, ctx, NGX_ABORT));
         Some (ctx, Some (butlast us @ [zero_unknown\<lparr>ufvalue := zero_value\<lparr>vu := u\<rparr>\<rparr>]), rc) })"

section \<open>Model: sizes\<close>

text \<open>The elements of an array, read as the type of the field.\<close>

fun read_elts :: "('o pb_union \<Rightarrow> 'v option) \<Rightarrow> 'o pb_union list \<Rightarrow> 'v list option" where
  "read_elts get [] = Some []"
| "read_elts get (u # us) = do { v \<leftarrow> get u; vs \<leftarrow> read_elts get us; Some (v # vs) }"

text \<open>The loops that add up the sizes of the elements.\<close>

definition sum_sizes :: "('o pb_union \<Rightarrow> 'v option) \<Rightarrow> ('v \<Rightarrow> nat) \<Rightarrow> 'o pb_union list \<Rightarrow> nat option" where
  "sum_sizes get sz elts = do { vs \<leftarrow> read_elts get elts; Some (sum_list (map sz vs)) }"

text \<open>No array and an empty one have size 0 (the code returns \<^verbatim>\<open>NGX_OK\<close>).\<close>

definition ngx_protobuf_packed_field_size ::
    "('o, 'm) ngx_protobuf_field_descriptor_t \<Rightarrow> 'o pb_union list option \<Rightarrow> nat option" where
  "ngx_protobuf_packed_field_size field data =
     (case data of None \<Rightarrow> Some 0 | Some elts \<Rightarrow>
       if elts = [] then Some 0
       else case dtype field of
         TYPE_BOOL \<Rightarrow> sum_sizes as_u32 (\<lambda>v. ngx_protobuf_size_uint32 (of_bool (v \<noteq> 0))) elts
       | TYPE_ENUM \<Rightarrow> sum_sizes as_u32 ngx_protobuf_size_uint32 elts
       | TYPE_UINT32 \<Rightarrow> sum_sizes as_u32 ngx_protobuf_size_uint32 elts
       | TYPE_INT32 \<Rightarrow> sum_sizes as_u32 ngx_protobuf_size_uint32 elts
       | TYPE_SINT32 \<Rightarrow> sum_sizes as_u32 ngx_protobuf_size_sint32 elts
       | TYPE_UINT64 \<Rightarrow> sum_sizes as_u64 ngx_protobuf_size_uint64 elts
       | TYPE_INT64 \<Rightarrow> sum_sizes as_u64 ngx_protobuf_size_uint64 elts
       | TYPE_SINT64 \<Rightarrow> sum_sizes as_u64 ngx_protobuf_size_sint64 elts
       | TYPE_FIXED32 \<Rightarrow> Some (4 * length elts)
       | TYPE_SFIXED32 \<Rightarrow> Some (4 * length elts)
       | TYPE_FLOAT \<Rightarrow> Some (4 * length elts)
       | TYPE_FIXED64 \<Rightarrow> Some (8 * length elts)
       | TYPE_SFIXED64 \<Rightarrow> Some (8 * length elts)
       | TYPE_DOUBLE \<Rightarrow> Some (8 * length elts)
       | _ \<Rightarrow> Some 0)"

text \<open>
  The message at \<^verbatim>\<open>((void **)elts) + i\<close>, eight bytes times \<open>i\<close> behind the start of an array with
  elements of \<^verbatim>\<open>width\<close> bytes: an element only if an element starts there.
\<close>

definition elt_at :: "('o, 'm) ngx_protobuf_field_descriptor_t \<Rightarrow> 'o pb_union list \<Rightarrow> nat \<Rightarrow> 'o option" where
  "elt_at field elts i =
     (if dwidth field dvd 8 * i \<and> 8 * i div dwidth field < length elts
      then as_elt field (elts ! (8 * i div dwidth field)) else None)"

fun sum_messages :: "('o, 'm) ngx_protobuf_field_descriptor_t \<Rightarrow> 'o pb_union list \<Rightarrow> nat list \<Rightarrow> nat option" where
  "sum_messages field elts [] = Some 0"
| "sum_messages field elts (i # is) = do {
     x \<leftarrow> elt_at field elts i;
     n \<leftarrow> dsize field x;
     p \<leftarrow> sum_messages field elts is;
     Some (ngx_protobuf_size_message_field n (dnumber field) + p) }"

definition ngx_protobuf_repeated_field_size ::
    "('o, 'm) ngx_protobuf_field_descriptor_t \<Rightarrow> 'o pb_union list option \<Rightarrow> nat option" where
  "ngx_protobuf_repeated_field_size field data =
     (let fnum = dnumber field in
       case data of None \<Rightarrow> Some 0 | Some elts \<Rightarrow>
       if elts = [] then Some 0
       else case dtype field of
         TYPE_MESSAGE \<Rightarrow> sum_messages field elts [0..<length elts]
       | TYPE_BYTES \<Rightarrow> sum_sizes as_str (\<lambda>v. ngx_protobuf_size_string_field v fnum) elts
       | TYPE_STRING \<Rightarrow> sum_sizes as_str (\<lambda>v. ngx_protobuf_size_string_field v fnum) elts
       | TYPE_BOOL \<Rightarrow> sum_sizes as_u32 (\<lambda>v. ngx_protobuf_size_uint32_field (of_bool (v \<noteq> 0)) fnum) elts
       | TYPE_ENUM \<Rightarrow> sum_sizes as_u32 (\<lambda>v. ngx_protobuf_size_uint32_field v fnum) elts
       | TYPE_UINT32 \<Rightarrow> sum_sizes as_u32 (\<lambda>v. ngx_protobuf_size_uint32_field v fnum) elts
       | TYPE_INT32 \<Rightarrow> sum_sizes as_u32 (\<lambda>v. ngx_protobuf_size_uint32_field v fnum) elts
       | TYPE_SINT32 \<Rightarrow> sum_sizes as_u32 (\<lambda>v. ngx_protobuf_size_sint32_field v fnum) elts
       | TYPE_UINT64 \<Rightarrow> sum_sizes as_u64 (\<lambda>v. ngx_protobuf_size_uint64_field v fnum) elts
       | TYPE_INT64 \<Rightarrow> sum_sizes as_u64 (\<lambda>v. ngx_protobuf_size_uint64_field v fnum) elts
       | TYPE_SINT64 \<Rightarrow> sum_sizes as_u64 (\<lambda>v. ngx_protobuf_size_sint64_field v fnum) elts
       | TYPE_FIXED32 \<Rightarrow> Some (length elts * ngx_protobuf_size_fixed32_field fnum)
       | TYPE_SFIXED32 \<Rightarrow> Some (length elts * ngx_protobuf_size_fixed32_field fnum)
       | TYPE_FLOAT \<Rightarrow> Some (length elts * ngx_protobuf_size_fixed32_field fnum)
       | TYPE_FIXED64 \<Rightarrow> Some (length elts * ngx_protobuf_size_fixed64_field fnum)
       | TYPE_SFIXED64 \<Rightarrow> Some (length elts * ngx_protobuf_size_fixed64_field fnum)
       | TYPE_DOUBLE \<Rightarrow> Some (length elts * ngx_protobuf_size_fixed64_field fnum)
       | _ \<Rightarrow> Some 0)"

text \<open>The message of a value; a null pointer goes to a function that reads it.\<close>

definition the_msg :: "'o pb_union \<Rightarrow> 'o option" where
  "the_msg u = do { x \<leftarrow> as_msg u; x }"

definition ngx_protobuf_single_field_size ::
    "('o, 'm) ngx_protobuf_field_descriptor_t \<Rightarrow> 'o ngx_protobuf_value_t \<Rightarrow> nat option" where
  "ngx_protobuf_single_field_size field val =
     (let fnum = dnumber field; u = vu val in
       case dtype field of
         TYPE_MESSAGE \<Rightarrow> do { x \<leftarrow> the_msg u; n \<leftarrow> dsize field x; Some (ngx_protobuf_size_message_field n fnum) }
       | TYPE_BYTES \<Rightarrow> do { v \<leftarrow> as_str u; Some (ngx_protobuf_size_string_field v fnum) }
       | TYPE_STRING \<Rightarrow> do { v \<leftarrow> as_str u; Some (ngx_protobuf_size_string_field v fnum) }
       | TYPE_BOOL \<Rightarrow> do { v \<leftarrow> as_u32 u; Some (ngx_protobuf_size_uint32_field (of_bool (v \<noteq> 0)) fnum) }
       | TYPE_ENUM \<Rightarrow> do { v \<leftarrow> as_u32 u; Some (ngx_protobuf_size_uint32_field v fnum) }
       | TYPE_UINT32 \<Rightarrow> do { v \<leftarrow> as_u32 u; Some (ngx_protobuf_size_uint32_field v fnum) }
       | TYPE_INT32 \<Rightarrow> do { v \<leftarrow> as_u32 u; Some (ngx_protobuf_size_uint32_field v fnum) }
       | TYPE_SINT32 \<Rightarrow> do { v \<leftarrow> as_u32 u; Some (ngx_protobuf_size_sint32_field v fnum) }
       | TYPE_UINT64 \<Rightarrow> do { v \<leftarrow> as_u64 u; Some (ngx_protobuf_size_uint64_field v fnum) }
       | TYPE_INT64 \<Rightarrow> do { v \<leftarrow> as_u64 u; Some (ngx_protobuf_size_uint64_field v fnum) }
       | TYPE_SINT64 \<Rightarrow> do { v \<leftarrow> as_u64 u; Some (ngx_protobuf_size_sint64_field v fnum) }
       | TYPE_FIXED32 \<Rightarrow> Some (ngx_protobuf_size_fixed32_field fnum)
       | TYPE_SFIXED32 \<Rightarrow> Some (ngx_protobuf_size_fixed32_field fnum)
       | TYPE_FLOAT \<Rightarrow> Some (ngx_protobuf_size_fixed32_field fnum)
       | TYPE_FIXED64 \<Rightarrow> Some (ngx_protobuf_size_fixed64_field fnum)
       | TYPE_SFIXED64 \<Rightarrow> Some (ngx_protobuf_size_fixed64_field fnum)
       | TYPE_DOUBLE \<Rightarrow> Some (ngx_protobuf_size_fixed64_field fnum)
       | _ \<Rightarrow> Some 0)"

definition ngx_protobuf_size_extension :: "('o, 'm) ngx_protobuf_extension_field_t \<Rightarrow> nat \<Rightarrow> (nat \<times> ngx_int_t) option" where
  "ngx_protobuf_size_extension field sz = do {
     desc \<leftarrow> xdescriptor field;
     if \<not> vexists (xvalue field) then Some (sz, NGX_OK)
     else if dlabel desc = LABEL_REPEATED then do {
       a \<leftarrow> as_array (vu (xvalue field));
       if dpacked desc then do {
         n \<leftarrow> ngx_protobuf_packed_field_size desc a;
         Some (sz + ngx_protobuf_size_message_field n (dnumber desc), NGX_OK) }
       else do { n \<leftarrow> ngx_protobuf_repeated_field_size desc a; Some (sz + n, NGX_OK) } }
     else do { n \<leftarrow> ngx_protobuf_single_field_size desc (xvalue field); Some (sz + n, NGX_OK) } }"

definition ngx_protobuf_size_extensions :: "('o, 'm) extensions option \<Rightarrow> nat option" where
  "ngx_protobuf_size_extensions extensions = do {
     tree \<leftarrow> extensions;
     (sz, _) \<leftarrow> ngx_protobuf_rbtree_iterate tree 0 (- 1) ngx_protobuf_size_extension 0;
     Some sz }"

definition ngx_protobuf_size_unknown_field :: "'o ngx_protobuf_unknown_field_t \<Rightarrow> nat option" where
  "ngx_protobuf_size_unknown_field field =
     (if ufwire_type field = WIRE_VARINT then do {
        v \<leftarrow> as_u64 (vu (ufvalue field)); Some (ngx_protobuf_size_uint64_field v (ufnumber field)) }
      else if ufwire_type field = WIRE_FIXED64 then Some (ngx_protobuf_size_fixed64_field (ufnumber field))
      else if ufwire_type field = WIRE_LENGTH_DELIMITED then do {
        v \<leftarrow> as_str (vu (ufvalue field)); Some (ngx_protobuf_size_string_field v (ufnumber field)) }
      else if ufwire_type field = WIRE_FIXED32 then Some (ngx_protobuf_size_fixed32_field (ufnumber field))
      else Some 0)"

section \<open>Model: packing\<close>

text \<open>\<^verbatim>\<open>ctx->buffer.pos = write(ctx->buffer.pos, ...)\<close>, once and in a loop over an array.\<close>

definition emit :: "'m ngx_protobuf_context_t \<Rightarrow> (memory \<Rightarrow> addr \<Rightarrow> write_result) \<Rightarrow> 'm ngx_protobuf_context_t option" where
  "emit ctx wr = do {
     (m, p) \<leftarrow> wr (mem (cstate ctx)) (cpos ctx);
     Some (ctx\<lparr>cstate := (cstate ctx)\<lparr>mem := m\<rparr>, cpos := p\<rparr>) }"

definition emit_elts ::
    "('o pb_union \<Rightarrow> 'v option) \<Rightarrow> (memory \<Rightarrow> addr \<Rightarrow> 'v \<Rightarrow> write_result) \<Rightarrow> 'o pb_union list \<Rightarrow>
      'm ngx_protobuf_context_t \<Rightarrow> 'm ngx_protobuf_context_t option" where
  "emit_elts get wr elts ctx = do { vs \<leftarrow> read_elts get elts; emit ctx (\<lambda>m p. write_each wr m p vs) }"

definition ngx_protobuf_pack_packed_field ::
    "('o, 'm) ngx_protobuf_field_descriptor_t \<Rightarrow> 'm ngx_protobuf_context_t \<Rightarrow> 'o pb_union list option \<Rightarrow>
      ('m ngx_protobuf_context_t \<times> ngx_int_t) option" where
  "ngx_protobuf_pack_packed_field field ctx data =
     (case data of None \<Rightarrow> Some (ctx, NGX_OK) | Some elts \<Rightarrow>
       if elts = [] then Some (ctx, NGX_OK)
       else do {
         n \<leftarrow> ngx_protobuf_packed_field_size field data;
         ctx \<leftarrow> emit ctx (\<lambda>m p. ngx_protobuf_write_message_header m p n (dnumber field));
         ctx \<leftarrow> (case dtype field of
             TYPE_BOOL \<Rightarrow> emit_elts as_u32 write_bool elts ctx
           | TYPE_ENUM \<Rightarrow> emit_elts as_u32 ngx_protobuf_write_uint32 elts ctx
           | TYPE_UINT32 \<Rightarrow> emit_elts as_u32 ngx_protobuf_write_uint32 elts ctx
           | TYPE_INT32 \<Rightarrow> emit_elts as_u32 ngx_protobuf_write_uint32 elts ctx
           | TYPE_SINT32 \<Rightarrow> emit_elts as_u32 ngx_protobuf_write_sint32 elts ctx
           | TYPE_UINT64 \<Rightarrow> emit_elts as_u64 ngx_protobuf_write_uint64 elts ctx
           | TYPE_INT64 \<Rightarrow> emit_elts as_u64 ngx_protobuf_write_uint64 elts ctx
           | TYPE_SINT64 \<Rightarrow> emit_elts as_u64 ngx_protobuf_write_sint64 elts ctx
           | TYPE_FIXED32 \<Rightarrow> emit_elts as_u32 ngx_protobuf_write_fixed32 elts ctx
           | TYPE_SFIXED32 \<Rightarrow> emit_elts as_u32 ngx_protobuf_write_sfixed32 elts ctx
           | TYPE_FLOAT \<Rightarrow> emit_elts as_u32 ngx_protobuf_write_float elts ctx
           | TYPE_FIXED64 \<Rightarrow> emit_elts as_u64 ngx_protobuf_write_fixed64 elts ctx
           | TYPE_SFIXED64 \<Rightarrow> emit_elts as_u64 ngx_protobuf_write_sfixed64 elts ctx
           | TYPE_DOUBLE \<Rightarrow> emit_elts as_u64 ngx_protobuf_write_double elts ctx
           | _ \<Rightarrow> Some ctx);
         Some (ctx, NGX_OK) })"

text \<open>The result of the pack function of a message is not looked at.\<close>

fun pack_messages ::
    "('o, 'm) ngx_protobuf_field_descriptor_t \<Rightarrow> 'o pb_union list \<Rightarrow> nat list \<Rightarrow> 'm ngx_protobuf_context_t \<Rightarrow>
      'm ngx_protobuf_context_t option" where
  "pack_messages field elts [] ctx = Some ctx"
| "pack_messages field elts (i # is) ctx = do {
     x \<leftarrow> elt_at field elts i;
     n \<leftarrow> dsize field x;
     ctx \<leftarrow> emit ctx (\<lambda>m p. ngx_protobuf_write_message_header m p n (dnumber field));
     (ctx, _) \<leftarrow> dpack field x ctx;
     pack_messages field elts is ctx }"

definition ngx_protobuf_pack_repeated_field ::
    "'m pb_env \<Rightarrow> ('o, 'm) ngx_protobuf_field_descriptor_t \<Rightarrow> 'm ngx_protobuf_context_t \<Rightarrow> 'o pb_union list option \<Rightarrow>
      ('m ngx_protobuf_context_t \<times> ngx_int_t) option" where
  "ngx_protobuf_pack_repeated_field env field ctx data =
     (let fnum = dnumber field in
       case data of None \<Rightarrow> Some (ctx, NGX_OK) | Some elts \<Rightarrow>
       if elts = [] then Some (ctx, NGX_OK)
       else do {
         ctx \<leftarrow> (case dtype field of
             TYPE_MESSAGE \<Rightarrow> pack_messages field elts [0..<length elts] ctx
           | TYPE_BYTES \<Rightarrow> emit_elts as_str (\<lambda>m p v. ngx_protobuf_write_string_field m p v fnum) elts ctx
           | TYPE_STRING \<Rightarrow> emit_elts as_str (\<lambda>m p v. ngx_protobuf_write_string_field m p v fnum) elts ctx
           | TYPE_BOOL \<Rightarrow> emit_elts as_u32 (\<lambda>m p v. ngx_protobuf_write_uint32_field m p (of_bool (v \<noteq> 0)) fnum) elts ctx
           | TYPE_ENUM \<Rightarrow> emit_elts as_u32 (\<lambda>m p v. ngx_protobuf_write_uint32_field m p v fnum) elts ctx
           | TYPE_UINT32 \<Rightarrow> emit_elts as_u32 (\<lambda>m p v. ngx_protobuf_write_uint32_field m p v fnum) elts ctx
           | TYPE_INT32 \<Rightarrow> emit_elts as_u32 (\<lambda>m p v. ngx_protobuf_write_uint32_field m p v fnum) elts ctx
           | TYPE_SINT32 \<Rightarrow> emit_elts as_u32 (\<lambda>m p v. ngx_protobuf_write_sint32_field m p v fnum) elts ctx
           | TYPE_UINT64 \<Rightarrow> emit_elts as_u64 (\<lambda>m p v. ngx_protobuf_write_uint64_field m p v fnum) elts ctx
           | TYPE_INT64 \<Rightarrow> emit_elts as_u64 (\<lambda>m p v. ngx_protobuf_write_uint64_field m p v fnum) elts ctx
           | TYPE_SINT64 \<Rightarrow> emit_elts as_u64 (\<lambda>m p v. ngx_protobuf_write_sint64_field m p v fnum) elts ctx
           | TYPE_FIXED32 \<Rightarrow> emit_elts as_u32 (\<lambda>m p v. ngx_protobuf_write_fixed32_field m p v fnum) elts ctx
           | TYPE_SFIXED32 \<Rightarrow> emit_elts as_u32 (\<lambda>m p v. ngx_protobuf_write_sfixed32_field m p v fnum) elts ctx
           | TYPE_FLOAT \<Rightarrow> emit_elts as_u32 (\<lambda>m p v. ngx_protobuf_write_float_field m p v fnum) elts ctx
           | TYPE_FIXED64 \<Rightarrow> emit_elts as_u64 (\<lambda>m p v. ngx_protobuf_write_fixed64_field m p v fnum) elts ctx
           | TYPE_SFIXED64 \<Rightarrow> emit_elts as_u64 (\<lambda>m p v. ngx_protobuf_write_sfixed64_field m p v fnum) elts ctx
           | TYPE_DOUBLE \<Rightarrow> emit_elts as_u64 (\<lambda>m p v. ngx_protobuf_write_double_field (e_via_float env) m p v fnum) elts ctx
           | _ \<Rightarrow> Some ctx);
         Some (ctx, NGX_OK) })"

definition ngx_protobuf_pack_single_field ::
    "'m pb_env \<Rightarrow> ('o, 'm) ngx_protobuf_field_descriptor_t \<Rightarrow> 'm ngx_protobuf_context_t \<Rightarrow> 'o ngx_protobuf_value_t \<Rightarrow>
      ('m ngx_protobuf_context_t \<times> ngx_int_t) option" where
  "ngx_protobuf_pack_single_field env field ctx val =
     (let fnum = dnumber field; u = vu val in do {
       ctx \<leftarrow> (case dtype field of
           TYPE_MESSAGE \<Rightarrow> do {
             x \<leftarrow> the_msg u;
             n \<leftarrow> dsize field x;
             ctx \<leftarrow> emit ctx (\<lambda>m p. ngx_protobuf_write_message_header m p n fnum);
             (ctx, _) \<leftarrow> dpack field x ctx;
             Some ctx }
         | TYPE_BYTES \<Rightarrow> do { v \<leftarrow> as_str u; emit ctx (\<lambda>m p. ngx_protobuf_write_string_field m p v fnum) }
         | TYPE_STRING \<Rightarrow> do { v \<leftarrow> as_str u; emit ctx (\<lambda>m p. ngx_protobuf_write_string_field m p v fnum) }
         | TYPE_BOOL \<Rightarrow> do { v \<leftarrow> as_u32 u; emit ctx (\<lambda>m p. ngx_protobuf_write_uint32_field m p (of_bool (v \<noteq> 0)) fnum) }
         | TYPE_ENUM \<Rightarrow> do { v \<leftarrow> as_u32 u; emit ctx (\<lambda>m p. ngx_protobuf_write_uint32_field m p v fnum) }
         | TYPE_UINT32 \<Rightarrow> do { v \<leftarrow> as_u32 u; emit ctx (\<lambda>m p. ngx_protobuf_write_uint32_field m p v fnum) }
         | TYPE_INT32 \<Rightarrow> do { v \<leftarrow> as_u32 u; emit ctx (\<lambda>m p. ngx_protobuf_write_uint32_field m p v fnum) }
         | TYPE_SINT32 \<Rightarrow> do { v \<leftarrow> as_u32 u; emit ctx (\<lambda>m p. ngx_protobuf_write_sint32_field m p v fnum) }
         | TYPE_UINT64 \<Rightarrow> do { v \<leftarrow> as_u64 u; emit ctx (\<lambda>m p. ngx_protobuf_write_uint64_field m p v fnum) }
         | TYPE_INT64 \<Rightarrow> do { v \<leftarrow> as_u64 u; emit ctx (\<lambda>m p. ngx_protobuf_write_uint64_field m p v fnum) }
         | TYPE_SINT64 \<Rightarrow> do { v \<leftarrow> as_u64 u; emit ctx (\<lambda>m p. ngx_protobuf_write_sint64_field m p v fnum) }
         | TYPE_FIXED32 \<Rightarrow> do { v \<leftarrow> as_u32 u; emit ctx (\<lambda>m p. ngx_protobuf_write_fixed32_field m p v fnum) }
         | TYPE_SFIXED32 \<Rightarrow> do { v \<leftarrow> as_u32 u; emit ctx (\<lambda>m p. ngx_protobuf_write_sfixed32_field m p v fnum) }
         | TYPE_FLOAT \<Rightarrow> do { v \<leftarrow> as_u32 u; emit ctx (\<lambda>m p. ngx_protobuf_write_float_field m p v fnum) }
         | TYPE_FIXED64 \<Rightarrow> do { v \<leftarrow> as_u64 u; emit ctx (\<lambda>m p. ngx_protobuf_write_fixed64_field m p v fnum) }
         | TYPE_SFIXED64 \<Rightarrow> do { v \<leftarrow> as_u64 u; emit ctx (\<lambda>m p. ngx_protobuf_write_sfixed64_field m p v fnum) }
         | TYPE_DOUBLE \<Rightarrow> do { v \<leftarrow> as_u64 u; emit ctx (\<lambda>m p. ngx_protobuf_write_double_field (e_via_float env) m p v fnum) }
         | _ \<Rightarrow> Some ctx);
       Some (ctx, NGX_OK) })"

definition ngx_protobuf_pack_extension ::
    "'m pb_env \<Rightarrow> ('o, 'm) ngx_protobuf_extension_field_t \<Rightarrow> 'm ngx_protobuf_context_t \<Rightarrow>
      ('m ngx_protobuf_context_t \<times> ngx_int_t) option" where
  "ngx_protobuf_pack_extension env field ctx =
     (if \<not> vexists (xvalue field) then Some (ctx, NGX_OK)
      else do {
        (sz, _) \<leftarrow> ngx_protobuf_size_extension field 0;
        if cpos ctx + of_nat sz > clast ctx then Some (ctx, NGX_ABORT)
        else do {
          desc \<leftarrow> xdescriptor field;
          if dlabel desc = LABEL_REPEATED then do {
            a \<leftarrow> as_array (vu (xvalue field));
            if dpacked desc then ngx_protobuf_pack_packed_field desc ctx a
            else ngx_protobuf_pack_repeated_field env desc ctx a }
          else ngx_protobuf_pack_single_field env desc ctx (xvalue field) } })"

definition ngx_protobuf_pack_extensions ::
    "'m pb_env \<Rightarrow> ('o, 'm) extensions option \<Rightarrow> 32 word \<Rightarrow> 32 word \<Rightarrow> 'm ngx_protobuf_context_t \<Rightarrow>
      ('m ngx_protobuf_context_t \<times> ngx_int_t) option" where
  "ngx_protobuf_pack_extensions env extensions lower upper ctx = do {
     tree \<leftarrow> extensions;
     ngx_protobuf_rbtree_iterate tree (ucast lower) (ucast upper) (ngx_protobuf_pack_extension env) ctx }"

definition ngx_protobuf_pack_unknown_field ::
    "'o ngx_protobuf_unknown_field_t \<Rightarrow> 'm ngx_protobuf_context_t \<Rightarrow> ('m ngx_protobuf_context_t \<times> ngx_int_t) option" where
  "ngx_protobuf_pack_unknown_field field ctx = do {
     ctx \<leftarrow>
       (if ufwire_type field = WIRE_VARINT then do {
          v \<leftarrow> as_u64 (vu (ufvalue field)); emit ctx (\<lambda>m p. ngx_protobuf_write_uint64_field m p v (ufnumber field)) }
        else if ufwire_type field = WIRE_FIXED64 then do {
          v \<leftarrow> as_u64 (vu (ufvalue field)); emit ctx (\<lambda>m p. ngx_protobuf_write_fixed64_field m p v (ufnumber field)) }
        else if ufwire_type field = WIRE_LENGTH_DELIMITED then do {
          v \<leftarrow> as_str (vu (ufvalue field)); emit ctx (\<lambda>m p. ngx_protobuf_write_string_field m p v (ufnumber field)) }
        else if ufwire_type field = WIRE_FIXED32 then do {
          v \<leftarrow> as_u32 (vu (ufvalue field)); emit ctx (\<lambda>m p. ngx_protobuf_write_fixed32_field m p v (ufnumber field)) }
        else Some ctx);
     Some (ctx, NGX_OK) }"

end
