(* ===== verification/Ngx_Pack.thy ===== *)
theory Ngx_Pack
  imports Ngx_Protobuf
begin

text \<open>
  Packing of extension fields: what it writes, as a list of bytes (\<open>enc_field\<close>), and that the size
  functions compute the length of that list; and that these are the bytes of the protobuf encoding (\<open>pb_field\<close>) where the
  values conform.
\<close>

section \<open>Writing into the buffer of a context\<close>

definition ngx_writes :: "'m ngx_protobuf_context_t \<Rightarrow> byte list \<Rightarrow> 'm ngx_protobuf_context_t option" where
  "ngx_writes ctx bs = emit ctx (\<lambda>m p. do { m \<leftarrow> store m p bs; Some (m, p + of_nat (length bs)) })"

lemma writes_Nil [simp]: "ngx_writes ctx [] = Some ctx"
  by (simp add: ngx_writes_def emit_def)

lemma writes_append: "ngx_writes ctx (xs @ ys) = do { ctx \<leftarrow> ngx_writes ctx xs; ngx_writes ctx ys }"
  by (cases "store (mem (cstate ctx)) (cpos ctx) xs") (simp_all add: ngx_writes_def emit_def store_append add.assoc split: Option.bind_split)

lemma writes_SomeD:
  assumes "ngx_writes ctx bs = Some ctx'"
  shows "store (mem (cstate ctx)) (cpos ctx) bs = Some (mem (cstate ctx'))" "cpos ctx' = cpos ctx + of_nat (length bs)"
    "clast ctx' = clast ctx"
  using assms by (auto simp: ngx_writes_def emit_def)

text \<open>The memory of a context that differs from \<open>m0\<close> only in the bytes of the part \<open>R\<close> of the buffer.\<close>

definition frame_ok :: "memory \<Rightarrow> addr set \<Rightarrow> 'm ngx_protobuf_context_t \<Rightarrow> bool" where
  "frame_ok m0 R ctx \<longleftrightarrow> dom (mem (cstate ctx)) = dom m0 \<and> (\<forall>q. q \<notin> R \<longrightarrow> mem (cstate ctx) q = m0 q)"

lemma writes_frame:
  assumes "ngx_writes ctx bs = Some ctx'" "frame_ok m0 R ctx" "region (cpos ctx) (length bs) \<subseteq> R"
  shows "frame_ok m0 R ctx'"
proof -
  note s = writes_SomeD(1) [OF assms(1)]
  have "mem (cstate ctx') q = m0 q" if "q \<notin> R" for q
    using store_frame [OF s, of q] assms(2,3) that by (auto simp: frame_ok_def)
  then show ?thesis using assms(2) store_dom [OF s] by (simp add: frame_ok_def)
qed

lemma str_bytes_frame:
  assumes "frame_ok m0 R ctx" "region (sdata v) (unat (slen v)) \<inter> R = {}"
  shows "str_bytes (mem (cstate ctx)) v = str_bytes m0 v"
  unfolding str_bytes_def by (rule load_cong) (use assms in \<open>auto simp: frame_ok_def\<close>)

text \<open>There are \<open>n\<close> bytes left, all in the part \<open>R\<close>.\<close>

definition room :: "addr set \<Rightarrow> 'm ngx_protobuf_context_t \<Rightarrow> nat \<Rightarrow> bool" where
  "room R ctx n \<longleftrightarrow> region (cpos ctx) n \<subseteq> R \<and> unat (cpos ctx) + n \<le> unat (clast ctx)"

lemma room_less: "room R ctx (a + b) \<Longrightarrow> room R ctx a"
  by (auto simp: room_def region_add)

lemma room_writes:
  assumes "ngx_writes ctx bs = Some ctx'" "room R ctx (length bs + b)"
  shows "room R ctx' b"
proof -
  have "unat (cpos ctx + of_nat (length bs)) = unat (cpos ctx) + length bs"
    by (rule unat_plus [of _ _ "clast ctx"]) (use assms(2) in \<open>simp add: room_def\<close>)
  then show ?thesis using assms(2) by (simp add: room_def writes_SomeD(2,3) [OF assms(1)] region_add)
qed

lemma writes_frame_room: "ngx_writes ctx bs = Some ctx' \<Longrightarrow> frame_ok m0 R ctx \<Longrightarrow> room R ctx (length bs) \<Longrightarrow> frame_ok m0 R ctx'"
  by (simp add: writes_frame room_def)

section \<open>Encodings\<close>

definition header :: "32 word \<Rightarrow> 32 word \<Rightarrow> byte list" where
  "header fnum wire = varint (NGX_PROTOBUF_HEADER fnum wire)"

definition enc_delimited :: "32 word \<Rightarrow> byte list \<Rightarrow> byte list" where
  "enc_delimited fnum bs = header fnum WIRE_LENGTH_DELIMITED @ enc_string bs"

text \<open>The numeric types.\<close>

definition enc_num :: "ngx_protobuf_type_e \<Rightarrow> 'o pb_union \<Rightarrow> byte list option" where
  "enc_num ty u = (case ty of
       TYPE_BOOL \<Rightarrow> map_option (\<lambda>v. varint (of_bool (v \<noteq> 0) :: 32 word)) (as_u32 u)
     | TYPE_ENUM \<Rightarrow> map_option varint (as_u32 u)
     | TYPE_UINT32 \<Rightarrow> map_option varint (as_u32 u)
     | TYPE_INT32 \<Rightarrow> map_option varint (as_u32 u)
     | TYPE_SINT32 \<Rightarrow> map_option (\<lambda>v. varint (z32_encode v)) (as_u32 u)
     | TYPE_UINT64 \<Rightarrow> map_option varint (as_u64 u)
     | TYPE_INT64 \<Rightarrow> map_option varint (as_u64 u)
     | TYPE_SINT64 \<Rightarrow> map_option (\<lambda>v. varint (z64_encode v)) (as_u64 u)
     | TYPE_FIXED32 \<Rightarrow> map_option (le_bytes 4) (as_u32 u)
     | TYPE_SFIXED32 \<Rightarrow> map_option (\<lambda>v. le_bytes 4 (z32_encode v)) (as_u32 u)
     | TYPE_FLOAT \<Rightarrow> map_option (le_bytes 4) (as_u32 u)
     | TYPE_FIXED64 \<Rightarrow> map_option (le_bytes 8) (as_u64 u)
     | TYPE_SFIXED64 \<Rightarrow> map_option (\<lambda>v. le_bytes 8 (z64_encode v)) (as_u64 u)
     | TYPE_DOUBLE \<Rightarrow> map_option (le_bytes 8) (as_u64 u)
     | _ \<Rightarrow> None)"

definition wire_of :: "ngx_protobuf_type_e \<Rightarrow> 32 word" where
  "wire_of ty = (case ty of
       TYPE_FIXED32 \<Rightarrow> WIRE_FIXED32 | TYPE_SFIXED32 \<Rightarrow> WIRE_FIXED32 | TYPE_FLOAT \<Rightarrow> WIRE_FIXED32
     | TYPE_FIXED64 \<Rightarrow> WIRE_FIXED64 | TYPE_SFIXED64 \<Rightarrow> WIRE_FIXED64
     | TYPE_DOUBLE \<Rightarrow> WIRE_FIXED32 | _ \<Rightarrow> WIRE_VARINT)"

text \<open>A numeric element with its header; a double comes with the header of four bytes and through single precision.\<close>

definition enc_elt :: "'m pb_env \<Rightarrow> 32 word \<Rightarrow> ngx_protobuf_type_e \<Rightarrow> 'o pb_union \<Rightarrow> byte list option" where
  "enc_elt env fnum ty u =
     (if ty = TYPE_DOUBLE then map_option (\<lambda>v. header fnum WIRE_FIXED32 @ le_bytes 8 (e_via_float env v)) (as_u64 u)
      else map_option (\<lambda>bs. header fnum (wire_of ty) @ bs) (enc_num ty u))"

definition enc_str :: "memory \<Rightarrow> 32 word \<Rightarrow> 'o pb_union \<Rightarrow> byte list option" where
  "enc_str m fnum u = do { v \<leftarrow> as_str u; bs \<leftarrow> str_bytes m v; Some (enc_delimited fnum bs) }"

section \<open>Loops over arrays\<close>

lemma read_elts_map: "read_elts (\<lambda>u. map_option f (get u)) us = map_option (map f) (read_elts get us)"
proof (induction us)
  case (Cons u us)
  then show ?case by (cases "get u"; cases "read_elts get us") simp_all
qed simp

lemma read_elts_length: "read_elts get us = Some vs \<Longrightarrow> length vs = length us"
  by (induction us arbitrary: vs) auto

context wire_writer
begin

lemma emit_enc: "emit ctx (\<lambda>m p. wr m p v) = ngx_writes ctx (enc v)"
  by (simp add: ngx_writes_def write_enc)

lemma emit_elts_enc:
  assumes "read_elts (\<lambda>u. map_option enc (get u)) elts = Some bss"
  shows "emit_elts get wr elts ctx = ngx_writes ctx (concat bss)" "sum_sizes get sz elts = Some (length (concat bss))"
proof -
  obtain vs where vs: "read_elts get elts = Some vs" "bss = map enc vs" using assms by (auto simp: read_elts_map)
  show "emit_elts get wr elts ctx = ngx_writes ctx (concat bss)"
    by (simp add: emit_elts_def vs ngx_writes_def write_each_enc)
  show "sum_sizes get sz elts = Some (length (concat bss))"
    by (simp only: sum_sizes_def vs size_each) simp
qed

text \<open>A value behind a header.\<close>

lemma headed:
  "wire_writer (\<lambda>v. ngx_protobuf_size_uint32 h + sz v) (\<lambda>v. varint h @ enc v)
     (\<lambda>m p v. do { (m, p) \<leftarrow> ngx_protobuf_write_uint32 m p h; wr m p v })"
proof
  fix v m p
  show "ngx_protobuf_size_uint32 h + sz v = length (varint h @ enc v)"
    by (simp add: size_enc size_uint32_varint)
  show "do { (m, p) \<leftarrow> ngx_protobuf_write_uint32 m p h; wr m p v } =
      do { m \<leftarrow> store m p (varint h @ enc v); Some (m, p + of_nat (length (varint h @ enc v))) }"
    by (cases "store m p (varint h)")
      (simp_all add: ngx_protobuf_write_uint32_def write_uint_varint store_append write_enc [of _ _ v] add.assoc)
qed

end

section \<open>Fields with their headers\<close>

lemmas field_defs = header_def ngx_protobuf_size_uint32_field_def ngx_protobuf_write_uint32_field_def
  ngx_protobuf_size_uint64_field_def ngx_protobuf_write_uint64_field_def
  ngx_protobuf_size_sint32_field_def ngx_protobuf_write_sint32_field_def
  ngx_protobuf_size_sint64_field_def ngx_protobuf_write_sint64_field_def
  ngx_protobuf_size_fixed32_field_def ngx_protobuf_write_fixed32_field_def
  ngx_protobuf_size_fixed64_field_def ngx_protobuf_write_fixed64_field_def
  ngx_protobuf_write_sfixed32_field_def ngx_protobuf_write_sfixed64_field_def
  ngx_protobuf_write_float_field_def ngx_protobuf_write_double_field_def
  ngx_protobuf_size_sint32_def ngx_protobuf_size_sint64_def ngx_protobuf_write_sint32_def ngx_protobuf_write_sint64_def
  ngx_protobuf_write_sfixed32_def ngx_protobuf_write_sfixed64_def size_bool_def write_bool_def

interpretation fuint32: wire_writer "\<lambda>v. ngx_protobuf_size_uint32_field v fnum" "\<lambda>v. header fnum WIRE_VARINT @ varint v"
    "\<lambda>m p v. ngx_protobuf_write_uint32_field m p v fnum" for fnum
  using wuint32.headed by (simp add: field_defs)

interpretation fuint64: wire_writer "\<lambda>v. ngx_protobuf_size_uint64_field v fnum" "\<lambda>v. header fnum WIRE_VARINT @ varint v"
    "\<lambda>m p v. ngx_protobuf_write_uint64_field m p v fnum" for fnum
  using wuint64.headed by (simp add: field_defs)

interpretation fsint32: wire_writer "\<lambda>v. ngx_protobuf_size_sint32_field v fnum"
    "\<lambda>v. header fnum WIRE_VARINT @ varint (z32_encode v)" "\<lambda>m p v. ngx_protobuf_write_sint32_field m p v fnum" for fnum
  using wsint32.headed by (simp add: field_defs)

interpretation fsint64: wire_writer "\<lambda>v. ngx_protobuf_size_sint64_field v fnum"
    "\<lambda>v. header fnum WIRE_VARINT @ varint (z64_encode v)" "\<lambda>m p v. ngx_protobuf_write_sint64_field m p v fnum" for fnum
  using wsint64.headed by (simp add: field_defs)

interpretation fbool: wire_writer "\<lambda>v :: 32 word. ngx_protobuf_size_uint32_field (of_bool (v \<noteq> 0)) fnum"
    "\<lambda>v. header fnum WIRE_VARINT @ varint (of_bool (v \<noteq> 0) :: 32 word)"
    "\<lambda>m p v. ngx_protobuf_write_uint32_field m p (of_bool (v \<noteq> 0)) fnum" for fnum
  using wbool.headed by (simp add: field_defs)

interpretation ffixed32: wire_writer "\<lambda>_. ngx_protobuf_size_fixed32_field fnum" "\<lambda>v. header fnum WIRE_FIXED32 @ le_bytes 4 v"
    "\<lambda>m p v. ngx_protobuf_write_fixed32_field m p v fnum" for fnum
  using wfixed32.headed by (simp add: field_defs)

interpretation fsfixed32: wire_writer "\<lambda>_. ngx_protobuf_size_fixed32_field fnum"
    "\<lambda>v. header fnum WIRE_FIXED32 @ le_bytes 4 (z32_encode v)" "\<lambda>m p v. ngx_protobuf_write_sfixed32_field m p v fnum" for fnum
  using wsfixed32.headed by (simp add: field_defs)

interpretation ffloat: wire_writer "\<lambda>_. ngx_protobuf_size_fixed32_field fnum" "\<lambda>v. header fnum WIRE_FIXED32 @ le_bytes 4 v"
    "\<lambda>m p v. ngx_protobuf_write_float_field m p v fnum" for fnum
  using wfloat.headed by (simp add: field_defs)

interpretation ffixed64: wire_writer "\<lambda>_. ngx_protobuf_size_fixed64_field fnum" "\<lambda>v. header fnum WIRE_FIXED64 @ le_bytes 8 v"
    "\<lambda>m p v. ngx_protobuf_write_fixed64_field m p v fnum" for fnum
  using wfixed64.headed by (simp add: field_defs)

interpretation fsfixed64: wire_writer "\<lambda>_. ngx_protobuf_size_fixed64_field fnum"
    "\<lambda>v. header fnum WIRE_FIXED64 @ le_bytes 8 (z64_encode v)" "\<lambda>m p v. ngx_protobuf_write_sfixed64_field m p v fnum" for fnum
  using wsfixed64.headed by (simp add: field_defs)

text \<open>
  A double is written with the header of a four-byte field, but counted with that of an eight-byte
  field; the two have the same length.
\<close>

lemma header_length: "length (header fnum WIRE_FIXED32) = length (header fnum WIRE_FIXED64)"
proof -
  have d: "drop_bit 7 (NGX_PROTOBUF_HEADER fnum WIRE_FIXED32) = drop_bit 7 (NGX_PROTOBUF_HEADER fnum WIRE_FIXED64)"
    by (rule bit_word_eqI) (simp add: NGX_PROTOBUF_HEADER_def bit_simps)
  show ?thesis unfolding header_def
    by (subst (1 2) varint.simps) (simp add: d)
qed

interpretation fdouble: wire_writer "\<lambda>_. ngx_protobuf_size_fixed64_field fnum"
    "\<lambda>v. header fnum WIRE_FIXED32 @ le_bytes 8 (via_float v)"
    "\<lambda>m p v. ngx_protobuf_write_double_field via_float m p v fnum" for fnum via_float
proof
  fix v m p
  show "ngx_protobuf_size_fixed64_field fnum = length (header fnum WIRE_FIXED32 @ le_bytes 8 (via_float v))"
    using header_length [of fnum] by (simp add: ngx_protobuf_size_fixed64_field_def size_uint32_varint header_def)
  show "ngx_protobuf_write_double_field via_float m p v fnum = do {
      m \<leftarrow> store m p (header fnum WIRE_FIXED32 @ le_bytes 8 (via_float v));
      Some (m, p + of_nat (length (header fnum WIRE_FIXED32 @ le_bytes 8 (via_float v)))) }"
    by (cases "store m p (header fnum WIRE_FIXED32)")
      (simp_all add: ngx_protobuf_write_double_field_def header_def ngx_protobuf_write_uint32_def write_uint_varint
        store_append wdouble.write_enc add.assoc)
qed

section \<open>Packed fields\<close>

lemma emit_message_header:
  "emit ctx (\<lambda>m p. ngx_protobuf_write_message_header m p n fnum) =
     ngx_writes ctx (header fnum WIRE_LENGTH_DELIMITED @ varint (of_nat n :: 32 word))"
  unfolding ngx_writes_def emit_def
  by (cases "store (mem (cstate ctx)) (cpos ctx) (header fnum WIRE_LENGTH_DELIMITED)")
    (simp_all add: ngx_protobuf_write_message_header_def ngx_protobuf_write_uint32_def write_uint_varint header_def
      store_append add.assoc)

lemma size_message_field:
  "length bs < 2 ^ 64 \<Longrightarrow> ngx_protobuf_size_message_field (length bs) fnum = length (enc_delimited fnum bs)"
  by (simp add: ngx_protobuf_size_message_field_def ngx_protobuf_size_binary_def size_uint32_varint enc_delimited_def
      header_def enc_string_def ucast_of_nat_32 unat_of_nat take_bit_nat_eq_self)

lemma enc_num_simps:
  "enc_num TYPE_BOOL = (\<lambda>u. map_option (\<lambda>v. varint (of_bool (v \<noteq> 0) :: 32 word)) (as_u32 u))"
  "ty \<in> {TYPE_ENUM, TYPE_UINT32, TYPE_INT32} \<Longrightarrow> enc_num ty = (\<lambda>u. map_option varint (as_u32 u))"
  "enc_num TYPE_SINT32 = (\<lambda>u. map_option (\<lambda>v. varint (z32_encode v)) (as_u32 u))"
  "ty \<in> {TYPE_UINT64, TYPE_INT64} \<Longrightarrow> enc_num ty = (\<lambda>u. map_option varint (as_u64 u))"
  "enc_num TYPE_SINT64 = (\<lambda>u. map_option (\<lambda>v. varint (z64_encode v)) (as_u64 u))"
  "ty \<in> {TYPE_FIXED32, TYPE_FLOAT} \<Longrightarrow> enc_num ty = (\<lambda>u. map_option (le_bytes 4) (as_u32 u))"
  "enc_num TYPE_SFIXED32 = (\<lambda>u. map_option (\<lambda>v. le_bytes 4 (z32_encode v)) (as_u32 u))"
  "ty \<in> {TYPE_FIXED64, TYPE_DOUBLE} \<Longrightarrow> enc_num ty = (\<lambda>u. map_option (le_bytes 8) (as_u64 u))"
  "enc_num TYPE_SFIXED64 = (\<lambda>u. map_option (\<lambda>v. le_bytes 8 (z64_encode v)) (as_u64 u))"
  by (auto simp: enc_num_def fun_eq_iff)

lemma sum_sizes_const:
  assumes "sum_sizes get (\<lambda>_. k) elts = Some n"
  shows "n = k * length elts"
proof -
  obtain vs where "read_elts get elts = Some vs" "n = sum_list (map (\<lambda>_. k) vs)" using assms by (auto simp: sum_sizes_def)
  then show ?thesis using read_elts_length [of get elts vs] by (simp add: map_replicate_const sum_list_replicate mult.commute)
qed

lemmas packed_writers = wbool.emit_elts_enc wuint32.emit_elts_enc wsint32.emit_elts_enc wuint64.emit_elts_enc
  wsint64.emit_elts_enc wfixed32.emit_elts_enc wsfixed32.emit_elts_enc wfloat.emit_elts_enc wfixed64.emit_elts_enc
  wsfixed64.emit_elts_enc wdouble.emit_elts_enc

lemma packed_sizes:
  assumes "read_elts (enc_num (dtype d)) elts = Some bss"
  shows
    "dtype d = TYPE_BOOL \<Longrightarrow> sum_sizes as_u32 size_bool elts = Some (length (concat bss))"
    "dtype d \<in> {TYPE_ENUM, TYPE_UINT32, TYPE_INT32} \<Longrightarrow> sum_sizes as_u32 ngx_protobuf_size_uint32 elts = Some (length (concat bss))"
    "dtype d = TYPE_SINT32 \<Longrightarrow> sum_sizes as_u32 ngx_protobuf_size_sint32 elts = Some (length (concat bss))"
    "dtype d \<in> {TYPE_UINT64, TYPE_INT64} \<Longrightarrow> sum_sizes as_u64 ngx_protobuf_size_uint64 elts = Some (length (concat bss))"
    "dtype d = TYPE_SINT64 \<Longrightarrow> sum_sizes as_u64 ngx_protobuf_size_sint64 elts = Some (length (concat bss))"
    "dtype d \<in> {TYPE_FIXED32, TYPE_FLOAT} \<Longrightarrow> sum_sizes as_u32 (\<lambda>_. 4) elts = Some (length (concat bss))"
    "dtype d = TYPE_SFIXED32 \<Longrightarrow> sum_sizes as_u32 (\<lambda>_. 4) elts = Some (length (concat bss))"
    "dtype d \<in> {TYPE_FIXED64, TYPE_DOUBLE} \<Longrightarrow> sum_sizes as_u64 (\<lambda>_. 8) elts = Some (length (concat bss))"
    "dtype d = TYPE_SFIXED64 \<Longrightarrow> sum_sizes as_u64 (\<lambda>_. 8) elts = Some (length (concat bss))"
  by (rule packed_writers, use assms in \<open>simp only: enc_num_simps\<close>)+

lemma packed_emits:
  assumes "read_elts (enc_num (dtype d)) elts = Some bss"
  shows
    "dtype d = TYPE_BOOL \<Longrightarrow> emit_elts as_u32 write_bool elts ctx = ngx_writes ctx (concat bss)"
    "dtype d \<in> {TYPE_ENUM, TYPE_UINT32, TYPE_INT32} \<Longrightarrow> emit_elts as_u32 ngx_protobuf_write_uint32 elts ctx = ngx_writes ctx (concat bss)"
    "dtype d = TYPE_SINT32 \<Longrightarrow> emit_elts as_u32 ngx_protobuf_write_sint32 elts ctx = ngx_writes ctx (concat bss)"
    "dtype d \<in> {TYPE_UINT64, TYPE_INT64} \<Longrightarrow> emit_elts as_u64 ngx_protobuf_write_uint64 elts ctx = ngx_writes ctx (concat bss)"
    "dtype d = TYPE_SINT64 \<Longrightarrow> emit_elts as_u64 ngx_protobuf_write_sint64 elts ctx = ngx_writes ctx (concat bss)"
    "dtype d \<in> {TYPE_FIXED32, TYPE_FLOAT} \<Longrightarrow> emit_elts as_u32 ngx_protobuf_write_fixed32 elts ctx = ngx_writes ctx (concat bss)"
    "dtype d \<in> {TYPE_FIXED32, TYPE_FLOAT} \<Longrightarrow> emit_elts as_u32 ngx_protobuf_write_float elts ctx = ngx_writes ctx (concat bss)"
    "dtype d = TYPE_SFIXED32 \<Longrightarrow> emit_elts as_u32 ngx_protobuf_write_sfixed32 elts ctx = ngx_writes ctx (concat bss)"
    "dtype d \<in> {TYPE_FIXED64, TYPE_DOUBLE} \<Longrightarrow> emit_elts as_u64 ngx_protobuf_write_fixed64 elts ctx = ngx_writes ctx (concat bss)"
    "dtype d \<in> {TYPE_FIXED64, TYPE_DOUBLE} \<Longrightarrow> emit_elts as_u64 ngx_protobuf_write_double elts ctx = ngx_writes ctx (concat bss)"
    "dtype d = TYPE_SFIXED64 \<Longrightarrow> emit_elts as_u64 ngx_protobuf_write_sfixed64 elts ctx = ngx_writes ctx (concat bss)"
  by (rule packed_writers, use assms in \<open>simp only: enc_num_simps\<close>)+

lemma packed_ok:
  assumes "elts \<noteq> []" "read_elts (enc_num (dtype d)) elts = Some bss"
  shows "ngx_protobuf_packed_field_size d (Some elts) = Some (length (concat bss))"
    "ngx_protobuf_pack_packed_field d ctx (Some elts) =
       do { ctx \<leftarrow> ngx_writes ctx (enc_delimited (dnumber d) (concat bss)); Some (ctx, NGX_OK) }"
proof -
  have no: "dtype d \<notin> {TYPE_BYTES, TYPE_STRING, TYPE_GROUP, TYPE_MESSAGE}"
    using assms by (cases elts) (auto simp: enc_num_def)
  have b: "(\<lambda>v. ngx_protobuf_size_uint32 (of_bool (v \<noteq> 0))) = size_bool" by (simp add: size_bool_def fun_eq_iff)
  show s: "ngx_protobuf_packed_field_size d (Some elts) = Some (length (concat bss))"
    unfolding ngx_protobuf_packed_field_size_def b
    using assms(1) no packed_sizes [OF assms(2)] sum_sizes_const [of as_u32 4 elts] sum_sizes_const [of as_u64 8 elts]
    by (cases "dtype d") simp_all
  define h where "h = header (dnumber d) WIRE_LENGTH_DELIMITED @ varint (of_nat (length (concat bss)) :: 32 word)"
  have e: "enc_delimited (dnumber d) (concat bss) = h @ concat bss"
    by (simp add: enc_delimited_def enc_string_def h_def)
  have h: "emit ctx (\<lambda>m p. ngx_protobuf_write_message_header m p (length (concat bss)) (dnumber d)) = ngx_writes ctx h"
    by (simp only: h_def emit_message_header)
  show "ngx_protobuf_pack_packed_field d ctx (Some elts) =
       do { ctx \<leftarrow> ngx_writes ctx (enc_delimited (dnumber d) (concat bss)); Some (ctx, NGX_OK) }"
    unfolding e writes_append ngx_protobuf_pack_packed_field_def s using assms(1) no
    by (cases "dtype d") (simp_all add: h packed_emits [OF assms(2)])
qed

section \<open>Unpacked fields\<close>

lemma enc_elt_simps:
  "enc_elt env fnum TYPE_BOOL = (\<lambda>u. map_option (\<lambda>v. header fnum WIRE_VARINT @ varint (of_bool (v \<noteq> 0) :: 32 word)) (as_u32 u))"
  "ty \<in> {TYPE_ENUM, TYPE_UINT32, TYPE_INT32} \<Longrightarrow>
     enc_elt env fnum ty = (\<lambda>u. map_option (\<lambda>v. header fnum WIRE_VARINT @ varint v) (as_u32 u))"
  "enc_elt env fnum TYPE_SINT32 = (\<lambda>u. map_option (\<lambda>v. header fnum WIRE_VARINT @ varint (z32_encode v)) (as_u32 u))"
  "ty \<in> {TYPE_UINT64, TYPE_INT64} \<Longrightarrow>
     enc_elt env fnum ty = (\<lambda>u. map_option (\<lambda>v. header fnum WIRE_VARINT @ varint v) (as_u64 u))"
  "enc_elt env fnum TYPE_SINT64 = (\<lambda>u. map_option (\<lambda>v. header fnum WIRE_VARINT @ varint (z64_encode v)) (as_u64 u))"
  "ty \<in> {TYPE_FIXED32, TYPE_FLOAT} \<Longrightarrow>
     enc_elt env fnum ty = (\<lambda>u. map_option (\<lambda>v. header fnum WIRE_FIXED32 @ le_bytes 4 v) (as_u32 u))"
  "enc_elt env fnum TYPE_SFIXED32 = (\<lambda>u. map_option (\<lambda>v. header fnum WIRE_FIXED32 @ le_bytes 4 (z32_encode v)) (as_u32 u))"
  "enc_elt env fnum TYPE_FIXED64 = (\<lambda>u. map_option (\<lambda>v. header fnum WIRE_FIXED64 @ le_bytes 8 v) (as_u64 u))"
  "enc_elt env fnum TYPE_SFIXED64 = (\<lambda>u. map_option (\<lambda>v. header fnum WIRE_FIXED64 @ le_bytes 8 (z64_encode v)) (as_u64 u))"
  "enc_elt env fnum TYPE_DOUBLE = (\<lambda>u. map_option (\<lambda>v. header fnum WIRE_FIXED32 @ le_bytes 8 (e_via_float env v)) (as_u64 u))"
  by (auto simp: enc_elt_def enc_num_def wire_of_def fun_eq_iff option.map_comp comp_def)

lemma enc_elt_no: "ty \<in> {TYPE_BYTES, TYPE_STRING, TYPE_GROUP, TYPE_MESSAGE} \<Longrightarrow> enc_elt env fnum ty u = None"
  by (auto simp: enc_elt_def enc_num_def)

lemmas field_writers = fbool.emit_elts_enc fuint32.emit_elts_enc fsint32.emit_elts_enc fuint64.emit_elts_enc
  fsint64.emit_elts_enc ffixed32.emit_elts_enc fsfixed32.emit_elts_enc ffloat.emit_elts_enc ffixed64.emit_elts_enc
  fsfixed64.emit_elts_enc fdouble.emit_elts_enc

lemma field_sizes:
  assumes "read_elts (enc_elt env fnum ty) elts = Some bss"
  shows
    "ty = TYPE_BOOL \<Longrightarrow> sum_sizes as_u32 (\<lambda>v. ngx_protobuf_size_uint32_field (of_bool (v \<noteq> 0)) fnum) elts = Some (length (concat bss))"
    "ty \<in> {TYPE_ENUM, TYPE_UINT32, TYPE_INT32} \<Longrightarrow> sum_sizes as_u32 (\<lambda>v. ngx_protobuf_size_uint32_field v fnum) elts = Some (length (concat bss))"
    "ty = TYPE_SINT32 \<Longrightarrow> sum_sizes as_u32 (\<lambda>v. ngx_protobuf_size_sint32_field v fnum) elts = Some (length (concat bss))"
    "ty \<in> {TYPE_UINT64, TYPE_INT64} \<Longrightarrow> sum_sizes as_u64 (\<lambda>v. ngx_protobuf_size_uint64_field v fnum) elts = Some (length (concat bss))"
    "ty = TYPE_SINT64 \<Longrightarrow> sum_sizes as_u64 (\<lambda>v. ngx_protobuf_size_sint64_field v fnum) elts = Some (length (concat bss))"
    "ty \<in> {TYPE_FIXED32, TYPE_FLOAT} \<Longrightarrow> sum_sizes as_u32 (\<lambda>_. ngx_protobuf_size_fixed32_field fnum) elts = Some (length (concat bss))"
    "ty = TYPE_SFIXED32 \<Longrightarrow> sum_sizes as_u32 (\<lambda>_. ngx_protobuf_size_fixed32_field fnum) elts = Some (length (concat bss))"
    "ty = TYPE_FIXED64 \<Longrightarrow> sum_sizes as_u64 (\<lambda>_. ngx_protobuf_size_fixed64_field fnum) elts = Some (length (concat bss))"
    "ty = TYPE_SFIXED64 \<Longrightarrow> sum_sizes as_u64 (\<lambda>_. ngx_protobuf_size_fixed64_field fnum) elts = Some (length (concat bss))"
    "ty = TYPE_DOUBLE \<Longrightarrow> sum_sizes as_u64 (\<lambda>_. ngx_protobuf_size_fixed64_field fnum) elts = Some (length (concat bss))"
  by (rule field_writers, use assms in \<open>simp only: enc_elt_simps\<close>)+

lemma field_emits:
  assumes "read_elts (enc_elt env fnum ty) elts = Some bss"
  shows
    "ty = TYPE_BOOL \<Longrightarrow>
       emit_elts as_u32 (\<lambda>m p v. ngx_protobuf_write_uint32_field m p (of_bool (v \<noteq> 0)) fnum) elts ctx = ngx_writes ctx (concat bss)"
    "ty \<in> {TYPE_ENUM, TYPE_UINT32, TYPE_INT32} \<Longrightarrow>
       emit_elts as_u32 (\<lambda>m p v. ngx_protobuf_write_uint32_field m p v fnum) elts ctx = ngx_writes ctx (concat bss)"
    "ty = TYPE_SINT32 \<Longrightarrow> emit_elts as_u32 (\<lambda>m p v. ngx_protobuf_write_sint32_field m p v fnum) elts ctx = ngx_writes ctx (concat bss)"
    "ty \<in> {TYPE_UINT64, TYPE_INT64} \<Longrightarrow>
       emit_elts as_u64 (\<lambda>m p v. ngx_protobuf_write_uint64_field m p v fnum) elts ctx = ngx_writes ctx (concat bss)"
    "ty = TYPE_SINT64 \<Longrightarrow> emit_elts as_u64 (\<lambda>m p v. ngx_protobuf_write_sint64_field m p v fnum) elts ctx = ngx_writes ctx (concat bss)"
    "ty \<in> {TYPE_FIXED32, TYPE_FLOAT} \<Longrightarrow>
       emit_elts as_u32 (\<lambda>m p v. ngx_protobuf_write_fixed32_field m p v fnum) elts ctx = ngx_writes ctx (concat bss)"
    "ty \<in> {TYPE_FIXED32, TYPE_FLOAT} \<Longrightarrow>
       emit_elts as_u32 (\<lambda>m p v. ngx_protobuf_write_float_field m p v fnum) elts ctx = ngx_writes ctx (concat bss)"
    "ty = TYPE_SFIXED32 \<Longrightarrow> emit_elts as_u32 (\<lambda>m p v. ngx_protobuf_write_sfixed32_field m p v fnum) elts ctx = ngx_writes ctx (concat bss)"
    "ty = TYPE_FIXED64 \<Longrightarrow> emit_elts as_u64 (\<lambda>m p v. ngx_protobuf_write_fixed64_field m p v fnum) elts ctx = ngx_writes ctx (concat bss)"
    "ty = TYPE_SFIXED64 \<Longrightarrow> emit_elts as_u64 (\<lambda>m p v. ngx_protobuf_write_sfixed64_field m p v fnum) elts ctx = ngx_writes ctx (concat bss)"
    "ty = TYPE_DOUBLE \<Longrightarrow>
       emit_elts as_u64 (\<lambda>m p v. ngx_protobuf_write_double_field (e_via_float env) m p v fnum) elts ctx = ngx_writes ctx (concat bss)"
  by (rule field_writers, use assms in \<open>simp only: enc_elt_simps\<close>)+

section \<open>Strings and messages\<close>

definition outside :: "addr set \<Rightarrow> ngx_str_t \<Rightarrow> bool" where
  "outside R v \<longleftrightarrow> region (sdata v) (unat (slen v)) \<inter> R = {}"

lemma enc_delimited_length: "length bs \<le> length (enc_delimited fnum bs)"
  by (simp add: enc_delimited_def enc_string_def)

lemma size_string_field:
  "str_bytes m v = Some bs \<Longrightarrow> ngx_protobuf_size_string_field v fnum = length (enc_delimited fnum bs)"
  by (simp add: ngx_protobuf_size_string_field_def size_string size_uint32_varint enc_delimited_def header_def)

lemma emit_string_field:
  assumes "str_bytes m0 v = Some bs" "outside R v" "frame_ok m0 R ctx"
    "room R ctx (length (enc_delimited fnum bs))"
  shows "emit ctx (\<lambda>m p. ngx_protobuf_write_string_field m p v fnum) = ngx_writes ctx (enc_delimited fnum bs)"
proof -
  let ?h = "header fnum WIRE_LENGTH_DELIMITED"
  have h: "emit ctx (\<lambda>m p. ngx_protobuf_write_uint32 m p (NGX_PROTOBUF_HEADER fnum WIRE_LENGTH_DELIMITED)) = ngx_writes ctx ?h"
    using wuint32.emit_enc [of ctx "NGX_PROTOBUF_HEADER fnum WIRE_LENGTH_DELIMITED"] by (simp add: header_def)
  have l: "length bs = unat (slen v)" using assms(1) load_length by (auto simp: str_bytes_def)
  have "emit ctx' (\<lambda>m p. ngx_protobuf_write_string m p v) = ngx_writes ctx' (enc_string bs)" if w: "ngx_writes ctx ?h = Some ctx'" for ctx'
  proof -
    have r: "room R ctx (length ?h + length (enc_string bs))" using assms(4) by (simp add: enc_delimited_def)
    have "str_bytes (mem (cstate ctx')) v = Some bs"
      using str_bytes_frame [OF writes_frame_room [OF w assms(3) room_less [OF r]]] assms(1,2) by (simp add: outside_def)
    then show ?thesis using write_string room_writes [OF w r] assms(2) l
      by (fastforce simp: emit_def ngx_writes_def outside_def room_def)
  qed
  moreover have "emit ctx (\<lambda>m p. ngx_protobuf_write_string_field m p v fnum) = do {
      ctx \<leftarrow> emit ctx (\<lambda>m p. ngx_protobuf_write_uint32 m p (NGX_PROTOBUF_HEADER fnum WIRE_LENGTH_DELIMITED));
      emit ctx (\<lambda>m p. ngx_protobuf_write_string m p v) }"
    by (cases "ngx_protobuf_write_uint32 (mem (cstate ctx)) (cpos ctx) (NGX_PROTOBUF_HEADER fnum WIRE_LENGTH_DELIMITED)")
      (auto simp: emit_def ngx_protobuf_write_string_field_def)
  ultimately show ?thesis unfolding h enc_delimited_def writes_append by (auto intro: Option.bind_cong)
qed

lemma emit_elts_Cons:
  assumes "get u = Some v" "read_elts get us = Some vs"
  shows "emit_elts get wr (u # us) ctx = do { ctx \<leftarrow> emit ctx (\<lambda>m p. wr m p v); emit_elts get wr us ctx }"
  using assms by (cases "wr (mem (cstate ctx)) (cpos ctx) v") (auto simp: emit_elts_def emit_def)

lemma enc_str_read:
  assumes "read_elts (enc_str m fnum) us = Some bss"
  shows "\<exists>vs. read_elts as_str us = Some vs"
  using assms by (induction us arbitrary: bss) (auto simp: enc_str_def)

lemma emit_strings:
  assumes "read_elts (enc_str m0 fnum) us = Some bss" "\<forall>u \<in> set us. \<forall>v. as_str u = Some v \<longrightarrow> outside R v"
    "frame_ok m0 R ctx" "room R ctx (length (concat bss))"
  shows "emit_elts as_str (\<lambda>m p v. ngx_protobuf_write_string_field m p v fnum) us ctx = ngx_writes ctx (concat bss)"
  using assms
proof (induction us arbitrary: bss ctx)
  case Nil
  then show ?case by (simp add: emit_elts_def emit_def)
next
  case (Cons u us)
  from Cons.prems(1) obtain v bs bss' where u: "as_str u = Some v" "str_bytes m0 v = Some bs"
    "read_elts (enc_str m0 fnum) us = Some bss'" "bss = enc_delimited fnum bs # bss'"
    by (auto simp: enc_str_def [of _ _ u])
  have r2: "room R ctx (length (enc_delimited fnum bs) + length (concat bss'))" using Cons.prems(4) u(4) by simp
  note r = room_less [OF r2]
  obtain vs where vs: "read_elts as_str us = Some vs" using enc_str_read [OF u(3)] by blast
  have "emit_elts as_str (\<lambda>m p v. ngx_protobuf_write_string_field m p v fnum) us ctx' = ngx_writes ctx' (concat bss')"
    if w: "ngx_writes ctx (enc_delimited fnum bs) = Some ctx'" for ctx'
    by (rule Cons.IH [OF u(3) _ writes_frame_room [OF w Cons.prems(3) r] room_writes [OF w r2]]) (use Cons.prems(2) in auto)
  then show ?case
    using emit_string_field [OF u(2) _ Cons.prems(3) r] Cons.prems(2) u(1,4)
    by (auto simp: emit_elts_Cons [where get = as_str, OF u(1) vs] writes_append intro: Option.bind_cong)
qed

lemma sum_strings:
  "read_elts (enc_str m fnum) us = Some bss \<Longrightarrow>
     sum_sizes as_str (\<lambda>v. ngx_protobuf_size_string_field v fnum) us = Some (length (concat bss))"
proof (induction us arbitrary: bss)
  case (Cons u us)
  then show ?case by (auto simp: enc_str_def sum_sizes_def size_string_field)
qed (simp add: sum_sizes_def)

text \<open>What packing relies on of the functions of a message type: they know the length of \<open>bs\<close> and write it where there is room.\<close>

definition message_ok ::
    "memory \<Rightarrow> addr set \<Rightarrow> ('o, 'm) ngx_protobuf_field_descriptor_t \<Rightarrow> 'o \<Rightarrow> byte list \<Rightarrow> bool" where
  "message_ok m0 R d x bs \<longleftrightarrow> dsize d x = Some (length bs) \<and> length bs < 2 ^ 64 \<and>
     (\<forall>ctx. frame_ok m0 R ctx \<longrightarrow> room R ctx (length bs) \<longrightarrow>
        (\<exists>rc. dpack d x ctx = map_option (\<lambda>ctx. (ctx, rc)) (ngx_writes ctx bs)))"

lemma emit_message:
  assumes "message_ok m0 R d x bs" "frame_ok m0 R ctx" "room R ctx (length (enc_delimited fnum bs))"
  shows "do { n \<leftarrow> dsize d x; ctx \<leftarrow> emit ctx (\<lambda>m p. ngx_protobuf_write_message_header m p n fnum); (ctx, _) \<leftarrow> dpack d x ctx; f ctx } =
    do { ctx \<leftarrow> ngx_writes ctx (enc_delimited fnum bs); f ctx }"
proof -
  define h where "h = header fnum WIRE_LENGTH_DELIMITED @ varint (of_nat (length bs) :: 32 word)"
  have e: "enc_delimited fnum bs = h @ bs" by (simp add: enc_delimited_def enc_string_def h_def)
  have n: "dsize d x = Some (length bs)" using assms(1) by (simp add: message_ok_def)
  have h: "emit ctx (\<lambda>m p. ngx_protobuf_write_message_header m p (length bs) fnum) = ngx_writes ctx h"
    using assms(1) by (simp only: h_def emit_message_header message_ok_def)
  have "do { (ctx, _) \<leftarrow> dpack d x ctx'; f ctx } = do { ctx \<leftarrow> ngx_writes ctx' bs; f ctx }" if w: "ngx_writes ctx h = Some ctx'" for ctx'
  proof -
    have r: "room R ctx (length h + length bs)" using assms(3) by (simp add: e)
    obtain rc where "dpack d x ctx' = map_option (\<lambda>ctx. (ctx, rc)) (ngx_writes ctx' bs)"
      using assms(1) writes_frame_room [OF w assms(2) room_less [OF r]] room_writes [OF w r] by (auto simp: message_ok_def)
    then show ?thesis by (cases "ngx_writes ctx' bs") simp_all
  qed
  then show ?thesis unfolding n Option.bind.bind_lunit h e writes_append by (auto intro: Option.bind_cong)
qed

section \<open>One field\<close>

text \<open>
  The bytes of an extension field; \<open>me\<close> gives the bytes of a message.  There are none (\<open>None\<close>) for
  a value that does not fit the type and for an array that exists but is empty.
\<close>

definition enc_msg :: "32 word \<Rightarrow> ('o \<Rightarrow> byte list) \<Rightarrow> 'o option \<Rightarrow> byte list option" where
  "enc_msg fnum me x = map_option (\<lambda>x. enc_delimited fnum (me x)) x"

definition enc_unpacked ::
    "'m pb_env \<Rightarrow> memory \<Rightarrow> ('o \<Rightarrow> byte list) \<Rightarrow> ('o, 'm) ngx_protobuf_field_descriptor_t \<Rightarrow> 'o option \<Rightarrow> 'o pb_union \<Rightarrow> byte list option" where
  "enc_unpacked env m me d x u =
     (if dtype d = TYPE_MESSAGE then enc_msg (dnumber d) me x
      else if dtype d = TYPE_BYTES \<or> dtype d = TYPE_STRING then enc_str m (dnumber d) u
      else enc_elt env (dnumber d) (dtype d) u)"

definition enc_value ::
    "'m pb_env \<Rightarrow> memory \<Rightarrow> ('o \<Rightarrow> byte list) \<Rightarrow> ('o, 'm) ngx_protobuf_field_descriptor_t \<Rightarrow> 'o pb_union \<Rightarrow> byte list option" where
  "enc_value env m me d u =
     (if dlabel d = LABEL_REPEATED then
        (case u of U_Rep elts \<Rightarrow>
           if elts = [] then None
           else if dpacked d then map_option (\<lambda>bss. enc_delimited (dnumber d) (concat bss)) (read_elts (enc_num (dtype d)) elts)
           else map_option concat (read_elts (\<lambda>u. enc_unpacked env m me d (as_elt d u) u) elts)
         | _ \<Rightarrow> None)
      else enc_unpacked env m me d (the_msg u) u)"

definition enc_field ::
    "'m pb_env \<Rightarrow> memory \<Rightarrow> ('o \<Rightarrow> byte list) \<Rightarrow> ('o, 'm) ngx_protobuf_extension_field_t \<Rightarrow> byte list option" where
  "enc_field env m me f = do {
     d \<leftarrow> xdescriptor f;
     if \<not> vexists (xvalue f) then Some [] else enc_value env m me d (vu (xvalue f)) }"

text \<open>
  The strings and messages of a value lie outside of the part of the buffer that is written, and
  messages in arrays have eight bytes.
\<close>

definition value_ok ::
    "memory \<Rightarrow> addr set \<Rightarrow> ('o \<Rightarrow> byte list) \<Rightarrow> ('o, 'm) ngx_protobuf_field_descriptor_t \<Rightarrow> 'o pb_union \<Rightarrow> bool" where
  "value_ok m R me d u \<longleftrightarrow>
     (\<forall>v. as_str u = Some v \<longrightarrow> outside R v) \<and> (\<forall>x. dtype d = TYPE_MESSAGE \<longrightarrow> as_elt d u = Some x \<longrightarrow> message_ok m R d x (me x))"

definition field_ok ::
    "memory \<Rightarrow> addr set \<Rightarrow> ('o \<Rightarrow> byte list) \<Rightarrow> ('o, 'm) ngx_protobuf_extension_field_t \<Rightarrow> bool" where
  "field_ok m R me f \<longleftrightarrow> (case xdescriptor f of None \<Rightarrow> False | Some d \<Rightarrow>
     (case vu (xvalue f) of
        U_Rep elts \<Rightarrow> (\<forall>u \<in> set elts. value_ok m R me d u) \<and> (dtype d = TYPE_MESSAGE \<longrightarrow> dwidth d = 8)
      | u \<Rightarrow> value_ok m R me d u))"

lemma pack_messages_ok:
  assumes "read_elts (\<lambda>u. enc_msg (dnumber d) me (as_elt d u)) (map ((!) elts) is) = Some bss"
    "\<forall>i \<in> set is. value_ok m0 R me d (elts ! i) \<and> i < length elts" "dtype d = TYPE_MESSAGE" "dwidth d = 8"
    "frame_ok m0 R ctx" "room R ctx (length (concat bss))"
  shows "pack_messages d elts is ctx = ngx_writes ctx (concat bss)"
    "sum_messages d elts is = Some (length (concat bss))"
proof -
  have e: "elt_at d elts i = as_elt d (elts ! i)" if "i < length elts" for i
    using that assms(4) by (simp add: elt_at_def)
  show "pack_messages d elts is ctx = ngx_writes ctx (concat bss)"
    using assms(1,2,5,6)
  proof (induction "is" arbitrary: bss ctx)
    case (Cons i js)
    from Cons.prems(1) obtain x bss' where x: "as_elt d (elts ! i) = Some x"
      "read_elts (\<lambda>u. enc_msg (dnumber d) me (as_elt d u)) (map ((!) elts) js) = Some bss'"
      "bss = enc_delimited (dnumber d) (me x) # bss'" by (auto simp: enc_msg_def)
    have ok: "message_ok m0 R d x (me x)" "i < length elts" using Cons.prems(2) x(1) assms(3) by (auto simp: value_ok_def)
    have r2: "room R ctx (length (enc_delimited (dnumber d) (me x)) + length (concat bss'))" using Cons.prems(4) x(3) by simp
    note r = room_less [OF r2]
    have "pack_messages d elts js ctx' = ngx_writes ctx' (concat bss')" if w: "ngx_writes ctx (enc_delimited (dnumber d) (me x)) = Some ctx'" for ctx'
      by (rule Cons.IH [OF x(2) _ writes_frame_room [OF w Cons.prems(3) r] room_writes [OF w r2]]) (use Cons.prems(2) in auto)
    then show ?case
      using emit_message [OF ok(1) Cons.prems(3) r, of "\<lambda>ctx. pack_messages d elts js ctx"] x ok(2)
      by (auto simp: e writes_append intro: Option.bind_cong)
  qed simp
  show "sum_messages d elts is = Some (length (concat bss))"
    using assms(1,2)
  proof (induction "is" arbitrary: bss)
    case (Cons i js)
    from Cons.prems(1) obtain x bss' where x: "as_elt d (elts ! i) = Some x"
      "read_elts (\<lambda>u. enc_msg (dnumber d) me (as_elt d u)) (map ((!) elts) js) = Some bss'"
      "bss = enc_delimited (dnumber d) (me x) # bss'" by (auto simp: enc_msg_def)
    have "message_ok m0 R d x (me x)" "i < length elts" using Cons.prems(2) x(1) assms(3) by (auto simp: value_ok_def)
    then show ?case using Cons.IH [OF x(2)] Cons.prems(2) x size_message_field [of "me x" "dnumber d"]
      by (simp add: e message_ok_def)
  qed simp
qed

lemma repeated_ok:
  assumes "elts \<noteq> []" "read_elts (\<lambda>u. enc_unpacked env m0 me d (as_elt d u) u) elts = Some bss"
    "\<forall>u \<in> set elts. value_ok m0 R me d u" "dtype d = TYPE_MESSAGE \<longrightarrow> dwidth d = 8"
    "frame_ok m0 R ctx" "room R ctx (length (concat bss))"
  shows "ngx_protobuf_repeated_field_size d (Some elts) = Some (length (concat bss))"
    "ngx_protobuf_pack_repeated_field env d ctx (Some elts) = do { ctx \<leftarrow> ngx_writes ctx (concat bss); Some (ctx, NGX_OK) }"
proof -
  have M: "dtype d = TYPE_MESSAGE \<Longrightarrow> read_elts (\<lambda>u. enc_msg (dnumber d) me (as_elt d u)) elts = Some bss"
    and S: "dtype d \<in> {TYPE_BYTES, TYPE_STRING} \<Longrightarrow> read_elts (enc_str m0 (dnumber d)) elts = Some bss"
    and N: "dtype d \<notin> {TYPE_MESSAGE, TYPE_BYTES, TYPE_STRING} \<Longrightarrow> read_elts (enc_elt env (dnumber d) (dtype d)) elts = Some bss"
    using assms(2) by (auto simp: enc_unpacked_def)
  have G: "dtype d \<noteq> TYPE_GROUP" using N assms(1) by (cases elts) (auto simp: enc_elt_no)
  have "map ((!) elts) [0..<length elts] = elts" by (rule map_nth)
  then have msgs: "pack_messages d elts [0..<length elts] ctx = ngx_writes ctx (concat bss)"
      "sum_messages d elts [0..<length elts] = Some (length (concat bss))" if "dtype d = TYPE_MESSAGE"
    using pack_messages_ok [of d me elts "[0..<length elts]" bss m0 R ctx] M that assms(3-6) by auto
  have strs: "emit_elts as_str (\<lambda>m p v. ngx_protobuf_write_string_field m p v (dnumber d)) elts ctx = ngx_writes ctx (concat bss)"
      "sum_sizes as_str (\<lambda>v. ngx_protobuf_size_string_field v (dnumber d)) elts = Some (length (concat bss))"
    if "dtype d \<in> {TYPE_BYTES, TYPE_STRING}"
    using emit_strings [OF S [OF that] _ assms(5,6)] sum_strings [OF S [OF that]] assms(3) by (auto simp: value_ok_def)
  note num = field_sizes [OF N] field_emits [OF N] and c = sum_sizes_const
  show "ngx_protobuf_repeated_field_size d (Some elts) = Some (length (concat bss))"
    using assms(1) G msgs strs c [of as_u32 "ngx_protobuf_size_fixed32_field (dnumber d)" elts]
      c [of as_u64 "ngx_protobuf_size_fixed64_field (dnumber d)" elts] field_sizes [OF N]
    by (cases "dtype d") (simp_all add: ngx_protobuf_repeated_field_size_def mult.commute)
  show "ngx_protobuf_pack_repeated_field env d ctx (Some elts) = do { ctx \<leftarrow> ngx_writes ctx (concat bss); Some (ctx, NGX_OK) }"
    using assms(1) G msgs strs
    by (cases "dtype d") (simp_all add: ngx_protobuf_pack_repeated_field_def field_emits [OF N])
qed

text \<open>A single value is an array of one element.\<close>

lemma elts_single:
  "emit_elts get wr [u] ctx = do { v \<leftarrow> get u; emit ctx (\<lambda>m p. wr m p v) }"
  "sum_sizes get sz [u] = do { v \<leftarrow> get u; Some (sz v) }"
proof -
  have "emit ctx (\<lambda>m p. do { (m, p) \<leftarrow> wr m p v; Some (m, p) }) = emit ctx (\<lambda>m p. wr m p v)" for v
    by (cases "wr (mem (cstate ctx)) (cpos ctx) v") (auto simp: emit_def)
  then show "emit_elts get wr [u] ctx = do { v \<leftarrow> get u; emit ctx (\<lambda>m p. wr m p v) }"
    by (cases "get u") (simp_all add: emit_elts_def)
  show "sum_sizes get sz [u] = do { v \<leftarrow> get u; Some (sz v) }"
    by (cases "get u") (simp_all add: sum_sizes_def)
qed

lemma const_bind: "do { v \<leftarrow> x; Some k } = Some n \<Longrightarrow> k = n"
  by auto

lemma single_num_ok:
  assumes "enc_elt env (dnumber d) (dtype d) (vu val) = Some bs"
  shows "ngx_protobuf_single_field_size d val = Some (length bs)"
    "ngx_protobuf_pack_single_field env d ctx val = do { ctx \<leftarrow> ngx_writes ctx bs; Some (ctx, NGX_OK) }"
proof -
  have r: "read_elts (enc_elt env (dnumber d) (dtype d)) [vu val] = Some [bs]" using assms by simp
  have no: "dtype d \<notin> {TYPE_MESSAGE, TYPE_BYTES, TYPE_STRING, TYPE_GROUP}" using assms by (auto simp: enc_elt_no)
  note z = field_sizes [OF r, unfolded elts_single]
  show "ngx_protobuf_single_field_size d val = Some (length bs)"
    using no z(1-5) z(6-) [THEN const_bind]
    by (cases "dtype d") (simp_all add: ngx_protobuf_single_field_size_def Let_def)
  show "ngx_protobuf_pack_single_field env d ctx val = do { ctx \<leftarrow> ngx_writes ctx bs; Some (ctx, NGX_OK) }"
    using no by (cases "dtype d") (simp_all add: ngx_protobuf_pack_single_field_def Let_def
      field_emits [OF r, unfolded elts_single] del: Option.bind_assoc)
qed

lemma single_ok:
  assumes "enc_unpacked env m0 me d (the_msg (vu val)) (vu val) = Some bs" "value_ok m0 R me d (vu val)"
    "frame_ok m0 R ctx" "room R ctx (length bs)"
  shows "ngx_protobuf_single_field_size d val = Some (length bs)"
    "ngx_protobuf_pack_single_field env d ctx val = do { ctx \<leftarrow> ngx_writes ctx bs; Some (ctx, NGX_OK) }"
proof -
  have "ngx_protobuf_single_field_size d val = Some (length bs) \<and>
    ngx_protobuf_pack_single_field env d ctx val = do { ctx \<leftarrow> ngx_writes ctx bs; Some (ctx, NGX_OK) }"
  proof (cases "dtype d \<in> {TYPE_MESSAGE, TYPE_BYTES, TYPE_STRING}")
    case False
    then have e: "enc_elt env (dnumber d) (dtype d) (vu val) = Some bs" using assms(1) by (auto simp: enc_unpacked_def)
    show ?thesis using single_num_ok [OF e] by simp
  next
    case True
    then consider (msg) "dtype d = TYPE_MESSAGE" | (str) "dtype d = TYPE_BYTES \<or> dtype d = TYPE_STRING" by blast
    then show ?thesis
    proof cases
      case msg
      then obtain x where x: "the_msg (vu val) = Some x" "bs = enc_delimited (dnumber d) (me x)"
        using assms(1) by (auto simp: enc_unpacked_def enc_msg_def)
      then have "as_elt d (vu val) = Some x" by (auto simp: the_msg_def as_msg_def as_elt_def split: pb_union.splits)
      then have ok: "message_ok m0 R d x (me x)" using assms(2) msg by (auto simp: value_ok_def)
      show ?thesis
        using emit_message [OF ok assms(3) assms(4) [unfolded x(2)], of "\<lambda>ctx. Some (ctx, NGX_OK)"] x msg ok size_message_field [of "me x" "dnumber d"]
        by (simp add: ngx_protobuf_single_field_size_def ngx_protobuf_pack_single_field_def message_ok_def split_def)
    next
      case str
      then obtain v xs where v: "as_str (vu val) = Some v" "str_bytes m0 v = Some xs" "bs = enc_delimited (dnumber d) xs"
        using assms(1) by (auto simp: enc_unpacked_def enc_str_def)
      have "outside R v" using assms(2) v(1) by (simp add: value_ok_def)
      then show ?thesis using str v emit_string_field [OF v(2) _ assms(3) assms(4) [unfolded v(3)]] size_string_field [OF v(2)]
        by (auto simp: ngx_protobuf_single_field_size_def ngx_protobuf_pack_single_field_def)
    qed
  qed
  then show "ngx_protobuf_single_field_size d val = Some (length bs)"
    "ngx_protobuf_pack_single_field env d ctx val = do { ctx \<leftarrow> ngx_writes ctx bs; Some (ctx, NGX_OK) }" by simp_all
qed

lemma field_pack:
  assumes "enc_field env m0 me f = Some bs" "field_ok m0 R me f" "frame_ok m0 R ctx" "room R ctx (length bs)"
  shows "ngx_protobuf_size_extension f sz = Some (sz + length bs, NGX_OK)"
    "ngx_protobuf_pack_extension env f ctx = do { ctx \<leftarrow> ngx_writes ctx bs; Some (ctx, NGX_OK) }"
proof -
  obtain d where d: "xdescriptor f = Some d" using assms(1) by (auto simp: enc_field_def)
  let ?u = "vu (xvalue f)"
  let ?core = "if dlabel d = LABEL_REPEATED then do {
      a \<leftarrow> as_array ?u;
      if dpacked d then ngx_protobuf_pack_packed_field d ctx a else ngx_protobuf_pack_repeated_field env d ctx a }
    else ngx_protobuf_pack_single_field env d ctx (xvalue f)"
  have a5: "unat (cpos ctx) + length bs \<le> unat (clast ctx)" using assms(4) by (simp add: room_def)
  have len: "length bs < 2 ^ 64" using a5 unsigned_less [of "clast ctx", where ?'a = nat] by simp
  have *: "(\<forall>sz. ngx_protobuf_size_extension f sz = Some (sz + length bs, NGX_OK)) \<and>
      (vexists (xvalue f) \<longrightarrow> ?core = do { ctx \<leftarrow> ngx_writes ctx bs; Some (ctx, NGX_OK) }) \<and> (\<not> vexists (xvalue f) \<longrightarrow> bs = [])"
  proof (cases "vexists (xvalue f)")
    case False
    then show ?thesis using assms(1) d by (simp add: enc_field_def ngx_protobuf_size_extension_def)
  next
    case ex: True
    then have v: "enc_value env m0 me d ?u = Some bs" using assms(1) d by (simp add: enc_field_def)
    show ?thesis
    proof (cases "dlabel d = LABEL_REPEATED")
      case True
      then obtain elts where u: "?u = U_Rep elts" "elts \<noteq> []"
        using v by (auto simp: enc_value_def split: pb_union.splits if_splits)
      have a: "as_array ?u = Some (Some elts)" by (simp add: as_array_def u)
      show ?thesis
      proof (cases "dpacked d")
        case p: True
        obtain bss where bss: "read_elts (enc_num (dtype d)) elts = Some bss" "bs = enc_delimited (dnumber d) (concat bss)"
          using v True u p by (auto simp: enc_value_def)
        have "length (concat bss) < 2 ^ 64" using len enc_delimited_length [of "concat bss" "dnumber d"] unfolding bss(2) by linarith
        then show ?thesis using packed_ok [OF u(2) bss(1)] size_message_field [of "concat bss" "dnumber d"] True p ex a d bss(2)
          by (simp add: ngx_protobuf_size_extension_def)
      next
        case p: False
        obtain bss where bss: "read_elts (\<lambda>u. enc_unpacked env m0 me d (as_elt d u) u) elts = Some bss" "bs = concat bss"
          using v True u p by (auto simp: enc_value_def)
        have "\<forall>u \<in> set elts. value_ok m0 R me d u" "dtype d = TYPE_MESSAGE \<longrightarrow> dwidth d = 8"
          using assms(2) by (auto simp: field_ok_def d u(1))
        from repeated_ok [OF u(2) bss(1) this assms(3) assms(4) [unfolded bss(2)]] show ?thesis using True p ex a d bss(2)
          by (simp add: ngx_protobuf_size_extension_def)
      qed
    next
      case False
      then have e: "enc_unpacked env m0 me d (the_msg ?u) ?u = Some bs" using v by (simp add: enc_value_def)
      then have "value_ok m0 R me d ?u"
        using assms(2) by (auto simp: field_ok_def d value_ok_def as_str_def as_elt_def split: pb_union.splits)
      from single_ok [OF e this assms(3,4)] show ?thesis using False ex d by (simp add: ngx_protobuf_size_extension_def)
    qed
  qed
  then show "ngx_protobuf_size_extension f sz = Some (sz + length bs, NGX_OK)" by blast
  have "\<not> cpos ctx + of_nat (length bs) > clast ctx"
    using unat_plus [OF a5] a5 by (simp add: word_less_nat_alt)
  then show "ngx_protobuf_pack_extension env f ctx = do { ctx \<leftarrow> ngx_writes ctx bs; Some (ctx, NGX_OK) }"
    using * d by (auto simp: ngx_protobuf_pack_extension_def)
qed

section \<open>All extensions of a message\<close>

lemma visit_size:
  assumes "\<And>f bs sz. (f, bs) \<in> set (zip fs bss) \<Longrightarrow> ngx_protobuf_size_extension f sz = Some (sz + length bs, NGX_OK)" "length fs = length bss"
  shows "visit ngx_protobuf_size_extension fs sz = Some (sz + length (concat bss), NGX_OK)"
  using assms(2,1)
proof (induction fs bss arbitrary: sz rule: list_induct2)
  case (Cons f fs bs bss)
  have "visit ngx_protobuf_size_extension fs z = Some (z + length (concat bss), NGX_OK)" for z
    by (rule Cons.IH) (simp add: Cons.prems)
  moreover have "ngx_protobuf_size_extension f sz = Some (sz + length bs, NGX_OK)" by (rule Cons.prems) simp
  ultimately show ?case by (simp add: add.assoc)
qed simp

lemma visit_pack:
  assumes "map (enc_field env m0 me) fs = map Some bss" "\<forall>f \<in> set fs. field_ok m0 R me f"
    "frame_ok m0 R ctx" "room R ctx (length (concat bss))"
  shows "visit (ngx_protobuf_pack_extension env) fs ctx = do { ctx \<leftarrow> ngx_writes ctx (concat bss); Some (ctx, NGX_OK) }"
  using assms
proof (induction fs arbitrary: bss ctx)
  case (Cons f fs)
  from Cons.prems(1) obtain bs bss' where b: "bss = bs # bss'" "enc_field env m0 me f = Some bs"
    "map (enc_field env m0 me) fs = map Some bss'" by auto
  have r2: "room R ctx (length bs + length (concat bss'))" using Cons.prems(4) b(1) by simp
  note r = room_less [OF r2]
  have "visit (ngx_protobuf_pack_extension env) fs ctx' = do { ctx \<leftarrow> ngx_writes ctx' (concat bss'); Some (ctx, NGX_OK) }"
    if w: "ngx_writes ctx bs = Some ctx'" for ctx'
    by (rule Cons.IH [OF b(3) _ writes_frame_room [OF w Cons.prems(3) r] room_writes [OF w r2]]) (use Cons.prems(2) in auto)
  then show ?case
    using field_pack(2) [OF b(2) _ Cons.prems(3) r] Cons.prems(2) b(1) by (cases "ngx_writes ctx bs") (simp_all add: writes_append)
qed simp

lemma ucast_max: "(ucast (- 1 :: 32 word) :: 64 word) = 0xFFFFFFFF"
  by (simp add: unsigned_minus_1_eq_mask mask_eq_exp_minus_1)

lemma frame_ok_refl: "frame_ok (mem (cstate ctx)) R ctx"
  by (simp add: frame_ok_def)

text \<open>
  Packing writes the bytes of the encoders, whether they follow the guide or not.
\<close>

lemma pack_extensions_enc:
  fixes t :: "('o, 'm) extensions"
  assumes "map (enc_field env m me) (map snd (entries t)) = map Some bss" "m = mem (cstate ctx)" "n = length (concat bss)"
    "\<forall>f \<in> set (map snd (entries t)). field_ok m (region (cpos ctx) n) me f" "\<forall>k \<in> set (keys t). k \<le> 0xFFFFFFFF"
    "unat (cpos ctx) + n \<le> unat (clast ctx)" "region (cpos ctx) n \<subseteq> dom m"
  shows "ngx_protobuf_size_extensions (Some t) = Some n \<and>
    (\<exists>m'. store m (cpos ctx) (concat bss) = Some m' \<and> (\<forall>q. q \<notin> region (cpos ctx) n \<longrightarrow> m' q = m q) \<and>
      ngx_protobuf_pack_extensions env (Some t) 0 (- 1) ctx =
        Some (ctx\<lparr>cstate := (cstate ctx)\<lparr>mem := m'\<rparr>, cpos := cpos ctx + of_nat n\<rparr>, NGX_OK))"
proof
  let ?R = "region (cpos ctx) n" and ?fs = "map snd (entries t)"
  have len: "length ?fs = length bss" using assms(1) by (metis length_map)
  have enc: "enc_field env m me f = Some bs" if "(f, bs) \<in> set (zip ?fs bss)" for f bs
  proof -
    from that obtain i where i: "i < length ?fs" "f = ?fs ! i" "bs = bss ! i" using len by (auto simp: in_set_zip)
    have "map (enc_field env m me) ?fs ! i = map Some bss ! i" by (rule arg_cong [OF assms(1)])
    then show ?thesis using i len by simp
  qed
  have short: "length bs \<le> n" if "bs \<in> set bss" for bs
    using that unfolding assms(3) by (induction bss) auto
  have "ngx_protobuf_size_extension f sz = Some (sz + length bs, NGX_OK)" if fb: "(f, bs) \<in> set (zip ?fs bss)" for f bs sz
  proof (rule field_pack(1) [OF enc [OF fb], where ctx = ctx and R = ?R])
    show "field_ok m ?R me f" using assms(4) set_zip_leftD [OF fb] by blast
    have "length bs \<le> n" using short set_zip_rightD [OF fb] by blast
    then show "room ?R ctx (length bs)"
      using region_mono [of "length bs" n] assms(6) by (simp add: room_def)
  qed (simp add: frame_ok_refl assms(2))
  then have "visit ngx_protobuf_size_extension ?fs 0 = Some (n, NGX_OK)" using visit_size [of ?fs bss 0] len assms(3) by simp
  then show "ngx_protobuf_size_extensions (Some t) = Some n"
    by (simp add: ngx_protobuf_size_extensions_def rbtree_iterate_visited)
  obtain m' where m': "store m (cpos ctx) (concat bss) = Some m'" using store_total assms(3,7) by blast
  have "visited (ucast (0 :: 32 word)) (ucast (- 1 :: 32 word)) t = ?fs" by (rule visited_all) (use assms(5) in \<open>simp add: ucast_max\<close>)
  then have "ngx_protobuf_pack_extensions env (Some t) 0 (- 1) ctx = visit (ngx_protobuf_pack_extension env) ?fs ctx"
    by (simp add: ngx_protobuf_pack_extensions_def rbtree_iterate_visited)
  also have "\<dots> = do { ctx \<leftarrow> ngx_writes ctx (concat bss); Some (ctx, NGX_OK) }"
    by (rule visit_pack [OF assms(1), where R = ?R]) (use assms(2-4,6) in \<open>simp_all add: frame_ok_refl room_def\<close>)
  also have "\<dots> = Some (ctx\<lparr>cstate := (cstate ctx)\<lparr>mem := m'\<rparr>, cpos := cpos ctx + of_nat n\<rparr>, NGX_OK)"
    using m' assms(2,3) by (simp add: ngx_writes_def emit_def)
  finally have p: "ngx_protobuf_pack_extensions env (Some t) 0 (- 1) ctx =
      Some (ctx\<lparr>cstate := (cstate ctx)\<lparr>mem := m'\<rparr>, cpos := cpos ctx + of_nat n\<rparr>, NGX_OK)" .
  have "m' q = m q" if "q \<notin> ?R" for q using store_frame [OF m'] that assms(3) by simp
  then show "\<exists>m'. store m (cpos ctx) (concat bss) = Some m' \<and> (\<forall>q. q \<notin> ?R \<longrightarrow> m' q = m q) \<and>
      ngx_protobuf_pack_extensions env (Some t) 0 (- 1) ctx =
        Some (ctx\<lparr>cstate := (cstate ctx)\<lparr>mem := m'\<rparr>, cpos := cpos ctx + of_nat n\<rparr>, NGX_OK)"
    using m' p by blast
qed

section \<open>The protobuf encoding\<close>

text \<open>
  What the encoding guide of protobuf says of a field, in arithmetic: none of the functions of the
  program occur.  \<open>pb_scalar\<close> gives the wire type of a numeric value and its bytes: negative values
  of \<open>int32\<close>, \<open>int64\<close> and of enumerations are varints of their two's complement in 64 bits, \<open>sint\<close>
  ones are zigzag varints, \<open>sfixed\<close> ones are the two's complement as it is, a double has eight bytes.
\<close>

fun pb_varint :: "nat \<Rightarrow> byte list" where
  "pb_varint n = (if n < 128 then [of_nat n] else of_nat (n mod 128 + 128) # pb_varint (n div 128))"

declare pb_varint.simps [simp del]

definition pb_zigzag :: "int \<Rightarrow> nat" where
  "pb_zigzag v = nat (if v < 0 then - 2 * v - 1 else 2 * v)"

definition pb_fixed :: "nat \<Rightarrow> nat \<Rightarrow> byte list" where
  "pb_fixed k n = map (\<lambda>i. of_nat (n div 256 ^ i)) [0..<k]"

definition pb_key :: "nat \<Rightarrow> nat \<Rightarrow> byte list" where
  "pb_key fnum wire = pb_varint (8 * fnum + wire)"

definition pb_delimited :: "nat \<Rightarrow> byte list \<Rightarrow> byte list" where
  "pb_delimited fnum bs = pb_key fnum 2 @ pb_varint (length bs) @ bs"

definition pb_scalar :: "ngx_protobuf_type_e \<Rightarrow> 'o pb_union \<Rightarrow> (nat \<times> byte list) option" where
  "pb_scalar ty u = (case ty of
       TYPE_BOOL \<Rightarrow> map_option (\<lambda>v. (0, pb_varint (if v = 0 then 0 else 1))) (as_u32 u)
     | TYPE_ENUM \<Rightarrow> map_option (\<lambda>v. (0, pb_varint (nat (sint v mod 2 ^ 64)))) (as_u32 u)
     | TYPE_INT32 \<Rightarrow> map_option (\<lambda>v. (0, pb_varint (nat (sint v mod 2 ^ 64)))) (as_u32 u)
     | TYPE_UINT32 \<Rightarrow> map_option (\<lambda>v. (0, pb_varint (unat v))) (as_u32 u)
     | TYPE_SINT32 \<Rightarrow> map_option (\<lambda>v. (0, pb_varint (pb_zigzag (sint v)))) (as_u32 u)
     | TYPE_INT64 \<Rightarrow> map_option (\<lambda>v. (0, pb_varint (nat (sint v mod 2 ^ 64)))) (as_u64 u)
     | TYPE_UINT64 \<Rightarrow> map_option (\<lambda>v. (0, pb_varint (unat v))) (as_u64 u)
     | TYPE_SINT64 \<Rightarrow> map_option (\<lambda>v. (0, pb_varint (pb_zigzag (sint v)))) (as_u64 u)
     | TYPE_FIXED32 \<Rightarrow> map_option (\<lambda>v. (5, pb_fixed 4 (unat v))) (as_u32 u)
     | TYPE_SFIXED32 \<Rightarrow> map_option (\<lambda>v. (5, pb_fixed 4 (nat (sint v mod 2 ^ 32)))) (as_u32 u)
     | TYPE_FLOAT \<Rightarrow> map_option (\<lambda>v. (5, pb_fixed 4 (unat v))) (as_u32 u)
     | TYPE_FIXED64 \<Rightarrow> map_option (\<lambda>v. (1, pb_fixed 8 (unat v))) (as_u64 u)
     | TYPE_SFIXED64 \<Rightarrow> map_option (\<lambda>v. (1, pb_fixed 8 (nat (sint v mod 2 ^ 64)))) (as_u64 u)
     | TYPE_DOUBLE \<Rightarrow> map_option (\<lambda>v. (1, pb_fixed 8 (unat v))) (as_u64 u)
     | _ \<Rightarrow> None)"

text \<open>A value with its key, a whole value (a repeated one has at least one element), a field.\<close>

definition pb_one ::
    "memory \<Rightarrow> ('o \<Rightarrow> byte list) \<Rightarrow> ('o, 'm) ngx_protobuf_field_descriptor_t \<Rightarrow> 'o option \<Rightarrow> 'o pb_union \<Rightarrow> byte list option" where
  "pb_one m me d x u =
     (if dtype d = TYPE_MESSAGE then map_option (\<lambda>x. pb_delimited (unat (dnumber d)) (me x)) x
      else if dtype d = TYPE_BYTES \<or> dtype d = TYPE_STRING then
        do { v \<leftarrow> as_str u; bs \<leftarrow> str_bytes m v; Some (pb_delimited (unat (dnumber d)) bs) }
      else map_option (\<lambda>(wire, bs). pb_key (unat (dnumber d)) wire @ bs) (pb_scalar (dtype d) u))"

definition pb_value ::
    "memory \<Rightarrow> ('o \<Rightarrow> byte list) \<Rightarrow> ('o, 'm) ngx_protobuf_field_descriptor_t \<Rightarrow> 'o pb_union \<Rightarrow> byte list option" where
  "pb_value m me d u =
     (if dlabel d \<noteq> LABEL_REPEATED then pb_one m me d (the_msg u) u
      else case u of
        U_Rep elts \<Rightarrow>
          if elts = [] then None
          else if dpacked d then
            map_option (\<lambda>bss. pb_delimited (unat (dnumber d)) (concat bss))
              (read_elts (\<lambda>u. map_option snd (pb_scalar (dtype d) u)) elts)
          else map_option concat (read_elts (\<lambda>u. pb_one m me d (as_elt d u) u) elts)
      | _ \<Rightarrow> None)"

definition pb_field ::
    "memory \<Rightarrow> ('o \<Rightarrow> byte list) \<Rightarrow> ('o, 'm) ngx_protobuf_extension_field_t \<Rightarrow> byte list option" where
  "pb_field m me f = do {
     d \<leftarrow> xdescriptor f;
     if vexists (xvalue f) then pb_value m me d (vu (xvalue f)) else Some [] }"

text \<open>
  The values that the program encodes as the guide says.  It does not for \<open>sfixed\<close> types, which it
  writes as zigzag numbers, for a double behind a key, which goes through single precision and gets
  the key of four bytes, nor for negative \<open>int32\<close> and enumeration values, which get five bytes.
\<close>

definition conforming :: "ngx_protobuf_type_e \<Rightarrow> bool \<Rightarrow> 'o pb_union \<Rightarrow> bool" where
  "conforming ty packed u \<longleftrightarrow> ty \<noteq> TYPE_SFIXED32 \<and> ty \<noteq> TYPE_SFIXED64 \<and> (ty = TYPE_DOUBLE \<longrightarrow> packed) \<and>
     (ty = TYPE_INT32 \<or> ty = TYPE_ENUM \<longrightarrow> (\<forall>v. as_u32 u = Some v \<longrightarrow> 0 \<le> sint v))"

definition conforms :: "('o, 'm) ngx_protobuf_extension_field_t \<Rightarrow> bool" where
  "conforms f \<longleftrightarrow> (case xdescriptor f of None \<Rightarrow> False | Some d \<Rightarrow>
     unat (dnumber d) < 2 ^ 29 \<and>
     (case vu (xvalue f) of
        U_Rep elts \<Rightarrow> (\<forall>u \<in> set elts. conforming (dtype d) (dpacked d) u)
      | u \<Rightarrow> conforming (dtype d) False u))"

text \<open>The encoders of the program, value by value.\<close>

lemma byte_or_128: "(ucast (w OR 0x80) :: byte) = of_nat (unat (w :: 64 word) mod 128 + 128)"
proof -
  have "(ucast (w OR 0x80) :: byte) = take_bit 7 (ucast w) OR 0x80"
    by (rule bit_word_eqI) (simp only: bit_iffs, auto)
  also have "\<dots> = take_bit 7 (ucast w) + 0x80"
    by (rule disjunctive_add_eq_or [symmetric]) (rule bit_word_eqI, simp only: bit_iffs, auto)
  also have "\<dots> = of_nat (unat w mod 128 + 128)"
    by (rule word_unat_eq_iff [THEN iffD2])
      (simp add: unat_word_ariths unat_of_nat unsigned_take_bit_eq unsigned_ucast_eq take_bit_eq_mod mod_simps, simp add: mod_mod_cancel)
  finally show ?thesis .
qed

lemma byte_low: "unat w < 128 \<Longrightarrow> (ucast (w :: 64 word) AND 0x7f :: byte) = of_nat (unat w)"
  unfolding mask7 take_bit_eq_mask [symmetric]
  by (rule word_unat_eq_iff [THEN iffD2]) (simp only: unat_of_nat unsigned_take_bit_eq unsigned_ucast_eq, simp add: take_bit_eq_mod)

lemma varint_pb64: "varint (w :: 64 word) = pb_varint (unat w)"
proof (induction w rule: varint.induct)
  case (1 w)
  have d: "unat (drop_bit 7 w) = unat w div 128" by (simp only: unat_drop_bit_eq) (simp add: drop_bit_eq_div)
  show ?case
  proof (cases "drop_bit 7 w = 0")
    case True
    then have "unat w < 128" using d by (metis div_eq_0_iff unat_0 zero_neq_numeral)
    then show ?thesis using True by (simp add: varint.simps [of w] pb_varint.simps [of "unat w"] byte_low)
  next
    case False
    then have l: "\<not> unat w < 128" using drop_bit_nonzero_ge by fastforce
    show ?thesis using 1 [OF False] False l d
      by (simp add: varint.simps [of w] pb_varint.simps [of "unat w"] byte_or_128)
  qed
qed

lemma varint_pb32: "varint (w :: 32 word) = pb_varint (unat w)"
proof -
  have "unat (ucast w :: 64 word) = unat w" using unsigned_less [of w, where ?'a = nat] by (simp add: unsigned_ucast_eq take_bit_nat_eq_self)
  then show ?thesis using varint_pb64 [of "ucast w"] by (simp add: varint_ucast)
qed

lemma zigzag_signed:
  fixes v :: "'a::len word"
  assumes "1 < LENGTH('a)"
  shows "unat (push_bit 1 v XOR (if bit v (LENGTH('a) - 1) then - 1 else 0)) = pb_zigzag (sint v)"
proof -
  let ?n = "LENGTH('a)"
  have p: "(2 :: int) ^ ?n = 2 * 2 ^ (?n - 1)" using assms by (simp flip: power_Suc)
  have bl: "bit v (?n - 1) \<longleftrightarrow> sint v < 0" by (simp add: bit_last_iff)
  have s: "of_int (sint v) = v" by simp
  have e: "push_bit 1 v = word_of_int (2 * sint v)" by (simp add: push_bit_eq_mult s)
  have "uint (push_bit 1 v) = (2 * sint v) mod 2 ^ ?n" by (simp only: e uint_word_of_int)
  moreover have "uint (NOT (push_bit 1 v)) = (- 2 * sint v - 1) mod 2 ^ ?n"
  proof -
    have "NOT (push_bit 1 v) = word_of_int (- 2 * sint v - 1)"
      by (simp add: not_eq_complement push_bit_eq_mult s)
    then show ?thesis by (simp only: uint_word_of_int)
  qed
  moreover have "- (2 ^ (?n - 1)) \<le> sint v" "sint v < 2 ^ (?n - 1)" by (rule sint_ge, rule sint_lt)
  ultimately show ?thesis
    using p bl by (cases "sint v < 0"; simp only: pb_zigzag_def unat_eq_nat_uint if_True if_False simp_thms bit.xor_one_right xor.right_neutral;
        subst mod_pos_pos_trivial; linarith?)
qed

lemma zigzag32: "unat (z32_encode v) = pb_zigzag (sint v)"
proof -
  have "signed_drop_bit 31 v = (if bit v 31 then - 1 else 0)"
    by (rule bit_word_eqI) (auto simp: bit_signed_drop_bit_iff not_le)
  then show ?thesis using zigzag_signed [of v] by (simp add: z32_encode_def)
qed

lemma zigzag64: "unat (z64_encode v) = pb_zigzag (sint v)"
proof -
  have "signed_drop_bit 63 v = (if bit v 63 then - 1 else 0)"
    by (rule bit_word_eqI) (auto simp: bit_signed_drop_bit_iff not_le)
  then show ?thesis using zigzag_signed [of v] by (simp add: z64_encode_def)
qed

lemma le_bytes_pb: "le_bytes n w = pb_fixed n (unat w)"
proof -
  have "ucast (drop_bit (8 * i) w) = (of_nat (unat w div 256 ^ i) :: byte)" for i
  proof -
    have "unat (drop_bit (8 * i) w) = unat w div 256 ^ i" by (simp only: unat_drop_bit_eq) (simp add: drop_bit_eq_div power_mult)
    then show ?thesis by (metis of_nat_unat)
  qed
  then show ?thesis by (simp add: le_bytes_def pb_fixed_def)
qed

lemma low_bits: "bit (k :: nat) n \<Longrightarrow> k < 8 \<Longrightarrow> n < 3"
proof (rule ccontr)
  assume a: "bit k n" "k < 8" "\<not> n < 3"
  then have "(8 :: nat) \<le> 2 ^ n" using power_increasing [of 3 n "2 :: nat"] by simp
  then show False using a by (simp add: bit_iff_odd)
qed

lemma header_pb:
  assumes "unat fnum < 2 ^ 29" "wire < 8"
  shows "header fnum (of_nat wire) = pb_key (unat fnum) wire"
proof -
  have "push_bit 3 fnum OR of_nat wire = push_bit 3 fnum + of_nat wire"
    by (rule disjunctive_add_eq_or [symmetric], rule bit_word_eqI) (use assms(2) in \<open>auto simp: bit_simps dest: low_bits\<close>)
  then have "unat (NGX_PROTOBUF_HEADER fnum (of_nat wire)) = 8 * unat fnum + wire"
    using assms by (simp add: NGX_PROTOBUF_HEADER_def push_bit_eq_mult unat_word_ariths unat_of_nat)
  then show ?thesis by (simp add: header_def varint_pb32 pb_key_def)
qed

lemma delimited_pb:
  assumes "unat fnum < 2 ^ 29" "length bs < 2 ^ 32"
  shows "enc_delimited fnum bs = pb_delimited (unat fnum) bs"
  using header_pb [OF assms(1), of 2] assms(2) by (simp add: enc_delimited_def enc_string_def pb_delimited_def varint_pb32 unat_of_nat)

text \<open>The fields: where the guide has an encoding and the value conforms, the program has the same.\<close>

lemma signed_nonneg:
  fixes v :: "32 word"
  assumes "0 \<le> sint v"
  shows "nat (sint v mod 18446744073709551616) = unat v"
proof -
  have l: "sint v < 2 ^ 31" using sint_lt [of v] by simp
  have "uint v = take_bit 32 (sint v)" by (simp only: uint_sint) simp
  also have "\<dots> = sint v" by (rule take_bit_int_eq_self) (use assms l in simp_all)
  finally show ?thesis using assms l by (simp only: unat_eq_nat_uint) simp
qed

lemma signed_64: "nat (sint v mod 18446744073709551616) = unat (v :: 64 word)"
proof -
  have "uint v = take_bit 64 (sint v)" by (simp only: uint_sint) simp
  then show ?thesis by (simp only: unat_eq_nat_uint take_bit_eq_mod) simp
qed

lemma num_pb:
  assumes "pb_scalar ty u = Some (wire, bs)" "conforming ty packed u"
  shows "enc_num ty u = Some bs" "ty \<noteq> TYPE_DOUBLE \<Longrightarrow> wire_of ty = of_nat wire" "wire < 8"
proof -
  show "enc_num ty u = Some bs"
    using assms
    by (cases ty; cases "as_u32 u"; cases "as_u64 u"; simp add: pb_scalar_def conforming_def enc_num_def)
      (auto simp: varint_pb32 varint_pb64 le_bytes_pb zigzag32 zigzag64 signed_64 signed_nonneg)
  show "ty \<noteq> TYPE_DOUBLE \<Longrightarrow> wire_of ty = of_nat wire" "wire < 8"
    using assms by (cases ty; auto simp: pb_scalar_def conforming_def wire_of_def)+
qed

lemma one_pb:
  assumes "pb_one m me d x u = Some bs" "conforming (dtype d) False u" "unat (dnumber d) < 2 ^ 29" "length bs < 2 ^ 32"
  shows "enc_unpacked env m me d x u = Some bs"
proof -
  have del: "enc_delimited (dnumber d) b = pb_delimited (unat (dnumber d)) b" if "pb_delimited (unat (dnumber d)) b = bs" for b
    using delimited_pb [OF assms(3), of b] that assms(4) by (auto simp: pb_delimited_def)
  consider (msg) "dtype d = TYPE_MESSAGE" | (str) "dtype d = TYPE_BYTES \<or> dtype d = TYPE_STRING"
    | (num) "dtype d \<noteq> TYPE_MESSAGE" "dtype d \<noteq> TYPE_BYTES" "dtype d \<noteq> TYPE_STRING" by blast
  then show ?thesis
  proof cases
    case num
    then obtain wire b where b: "pb_scalar (dtype d) u = Some (wire, b)" "bs = pb_key (unat (dnumber d)) wire @ b"
      using assms(1) by (auto simp: pb_one_def)
    have "dtype d \<noteq> TYPE_DOUBLE" using assms(2) by (auto simp: conforming_def)
    then show ?thesis
      using num num_pb [OF b(1) assms(2)] header_pb [OF assms(3), of wire] by (simp add: enc_unpacked_def enc_elt_def b(2))
  qed (use assms(1) del in \<open>auto simp: pb_one_def enc_unpacked_def enc_msg_def enc_str_def split: Option.bind_splits\<close>)
qed

lemma read_elts_pb:
  assumes "read_elts f us = Some bss" "length (concat bss) < k"
    "\<And>u b. u \<in> set us \<Longrightarrow> f u = Some b \<Longrightarrow> length b < k \<Longrightarrow> g u = Some b"
  shows "read_elts g us = Some (bss :: byte list list)"
  using assms
proof (induction us arbitrary: bss)
  case (Cons u us)
  then obtain b bs where b: "f u = Some b" "read_elts f us = Some bs" "bss = b # bs" by (auto split: Option.bind_splits)
  have "g u = Some b" using Cons.prems(2,3) b by simp
  moreover have "read_elts g us = Some bs" by (rule Cons.IH [OF b(2)]) (use Cons.prems(2,3) b(3) in auto)
  ultimately show ?case using b by simp
qed simp

lemma field_pb:
  assumes "pb_field m me f = Some bs" "conforms f" "length bs < 2 ^ 32"
  shows "enc_field env m me f = Some bs"
proof -
  obtain d where d: "xdescriptor f = Some d" "unat (dnumber d) < 2 ^ 29" using assms(2) by (auto simp: conforms_def split: option.splits)
  let ?u = "vu (xvalue f)"
  have "enc_value env m me d ?u = Some bs" if v: "pb_value m me d ?u = Some bs"
  proof (cases "dlabel d = LABEL_REPEATED")
    case False
    then have o: "pb_one m me d (the_msg ?u) ?u = Some bs" using v by (simp add: pb_value_def)
    have "conforming (dtype d) False ?u"
    proof (cases ?u)
      case (U_Rep us)
      then show ?thesis using o by (auto simp: pb_one_def pb_scalar_def as_u32_def as_u64_def as_str_def the_msg_def conforming_def
            split: ngx_protobuf_type_e.splits)
    qed (use assms(2) d in \<open>simp_all add: conforms_def\<close>)
    then show ?thesis using False one_pb [OF o _ d(2) assms(3)] by (simp add: enc_value_def)
  next
    case True
    then obtain us where us: "?u = U_Rep us" "us \<noteq> []" using v by (auto simp: pb_value_def split: pb_union.splits if_splits)
    have c: "conforming (dtype d) (dpacked d) u" if "u \<in> set us" for u using assms(2) d us that by (simp add: conforms_def)
    show ?thesis
    proof (cases "dpacked d")
      case True
      then obtain bss where b: "read_elts (\<lambda>u. map_option snd (pb_scalar (dtype d) u)) us = Some bss"
          "bs = pb_delimited (unat (dnumber d)) (concat bss)"
        using v us \<open>dlabel d = LABEL_REPEATED\<close> by (auto simp: pb_value_def)
      have l: "length (concat bss) < 2 ^ 32" using assms(3) b(2) by (simp add: pb_delimited_def)
      have "read_elts (enc_num (dtype d)) us = Some bss"
        by (rule read_elts_pb [OF b(1) l]) (auto dest: num_pb(1) c)
      then show ?thesis using True us \<open>dlabel d = LABEL_REPEATED\<close> b(2) delimited_pb [OF d(2) l] by (simp add: enc_value_def)
    next
      case False
      then obtain bss where b: "read_elts (\<lambda>u. pb_one m me d (as_elt d u) u) us = Some bss" "bs = concat bss"
        using v us \<open>dlabel d = LABEL_REPEATED\<close> by (auto simp: pb_value_def)
      have "read_elts (\<lambda>u. enc_unpacked env m me d (as_elt d u) u) us = Some bss"
        by (rule read_elts_pb [OF b(1), of "2 ^ 32"]) (use assms(3) b(2) False c one_pb [OF _ _ d(2)] in simp_all)
      then show ?thesis using False us \<open>dlabel d = LABEL_REPEATED\<close> b(2) by (simp add: enc_value_def)
    qed
  qed
  then show ?thesis using assms(1) d by (auto simp: pb_field_def enc_field_def split: if_splits)
qed

lemma fields_pb:
  assumes "map (pb_field m me) fs = map Some bss" "\<forall>f \<in> set fs. conforms f" "length (concat bss) < 2 ^ 32"
  shows "map (enc_field env m me) fs = map Some bss"
  using assms
proof (induction fs arbitrary: bss)
  case (Cons f fs)
  then obtain b bs where b: "bss = b # bs" "pb_field m me f = Some b" "map (pb_field m me) fs = map Some bs" by auto
  have "map (enc_field env m me) fs = map Some bs" by (rule Cons.IH [OF b(3)]) (use Cons.prems(2,3) b(1) in auto)
  then show ?case using field_pb [OF b(2)] Cons.prems(2,3) b(1) by simp
qed simp

text \<open>
  C26. \<open>ngx_protobuf_pack_extensions\<close> over all field numbers writes exactly the protobuf encodings of
  the fields as the guide defines them, in the order of their numbers, and \<open>ngx_protobuf_size_extensions\<close>
  is their length: with that much room in the buffer, and memory behind it, packing returns \<open>NGX_OK\<close>,
  the position moves by the size, and no other byte of the memory changes.  This needs values that fit
  their types and conform (no \<open>sfixed\<close> field, no double outside of a packed array, no negative \<open>int32\<close>
  or enumeration value: those are not written as the guide says), field numbers below \<open>2 ^ 29\<close>, fewer
  than \<open>2 ^ 32\<close> bytes, no existing array to be empty, strings and messages outside of the buffer, and
  messages in arrays to be eight bytes wide.
\<close>

theorem pack_extensions_writes:
  fixes t :: "('o, 'm) extensions"
  assumes "map (pb_field m me) (map snd (entries t)) = map Some bss" "\<forall>f \<in> set (map snd (entries t)). conforms f"
    "m = mem (cstate ctx)" "n = length (concat bss)" "n < 2 ^ 32"
    "\<forall>f \<in> set (map snd (entries t)). field_ok m (region (cpos ctx) n) me f" "\<forall>k \<in> set (keys t). k \<le> 0xFFFFFFFF"
    "unat (cpos ctx) + n \<le> unat (clast ctx)" "region (cpos ctx) n \<subseteq> dom m"
  shows "ngx_protobuf_size_extensions (Some t) = Some n \<and>
    (\<exists>m'. store m (cpos ctx) (concat bss) = Some m' \<and> (\<forall>q. q \<notin> region (cpos ctx) n \<longrightarrow> m' q = m q) \<and>
      ngx_protobuf_pack_extensions env (Some t) 0 (- 1) ctx =
        Some (ctx\<lparr>cstate := (cstate ctx)\<lparr>mem := m'\<rparr>, cpos := cpos ctx + of_nat n\<rparr>, NGX_OK))"
  by (rule pack_extensions_enc [OF fields_pb [OF assms(1,2)]]) (use assms(3-) in simp_all)

section \<open>An example\<close>

definition demo_env :: "unit pb_env" where
  "demo_env = \<lparr>e_palloc = (\<lambda>s n. (s, 4096)), e_uval32 = 0, e_uval64 = 0, e_via_float = id\<rparr>"

definition demo_desc :: "32 word \<Rightarrow> ngx_protobuf_type_e \<Rightarrow> ngx_protobuf_label_e \<Rightarrow> bool \<Rightarrow> (unit, unit) ngx_protobuf_field_descriptor_t" where
  "demo_desc number ty label packed = \<lparr>dnumber = number, dwire_type = wire_of ty, dlabel = label, dtype = ty, dwidth = 8,
     dpacked = packed, dpack = (\<lambda>x ctx. Some (ctx, NGX_OK)), dunpack = (\<lambda>x ctx. Some (x, ctx, NGX_OK)), dsize = (\<lambda>x. Some 0), dzero = ()\<rparr>"

text \<open>Field 100, an unsigned number, and field 101, a packed array of two.\<close>

definition demo_fields :: "(unit, unit) extensions" where
  "demo_fields = Node Black Sentinel 100
     \<lparr>xdescriptor = Some (demo_desc 100 TYPE_UINT32 LABEL_OPTIONAL False),
      xvalue = \<lparr>vtype = Some TYPE_UINT32, vexists = True, vu = U_32 300\<rparr>\<rparr>
     (Node Red Sentinel 101
       \<lparr>xdescriptor = Some (demo_desc 101 TYPE_SINT32 LABEL_REPEATED True),
        xvalue = \<lparr>vtype = Some TYPE_SINT32, vexists = True, vu = U_Rep [U_32 1, U_32 (- 2)]\<rparr>\<rparr> Sentinel)"

definition demo_ctx :: "unit ngx_protobuf_context_t" where
  "demo_ctx = \<lparr>cstate = \<lparr>mem = (\<lambda>a. if a < 64 then Some 0 else None), heap = ()\<rparr>, cpos = 16, clast = 32,
     reuse_strings = False, has_pool = True\<rparr>"

definition demo_bytes :: "byte list list" where
  "demo_bytes = [[0xA0, 0x06, 0xAC, 0x02], [0xAA, 0x06, 0x02, 0x02, 0x03]]"

theorem pack_extensions_writes_witness:
  "ngx_protobuf_size_extensions (Some demo_fields) = Some 9 \<and>
    (\<exists>ctx'. ngx_protobuf_pack_extensions demo_env (Some demo_fields) 0 (- 1) demo_ctx = Some (ctx', NGX_OK) \<and>
      load (mem (cstate ctx')) 16 9 = Some [0xA0, 0x06, 0xAC, 0x02, 0xAA, 0x06, 0x02, 0x02, 0x03])"
proof -
  have e: "map (pb_field (mem (cstate demo_ctx)) (\<lambda>_. [])) (map snd (entries demo_fields)) = map Some demo_bytes"
    by (simp add: demo_fields_def demo_bytes_def pb_field_def pb_value_def pb_one_def pb_scalar_def demo_desc_def as_u32_def
        pb_key_def pb_delimited_def pb_zigzag_def)
      (simp add: pb_varint.simps)
  have c: "\<forall>f \<in> set (map snd (entries demo_fields)). conforms f"
    by (simp add: demo_fields_def conforms_def conforming_def demo_desc_def)
  have ok: "\<forall>f \<in> set (map snd (entries demo_fields)). field_ok (mem (cstate demo_ctx)) (region (cpos demo_ctx) 9) (\<lambda>_. []) f"
    by (simp add: demo_fields_def field_ok_def demo_desc_def value_ok_def as_str_def)
  have r: "region (cpos demo_ctx) 9 \<subseteq> dom (mem (cstate demo_ctx))"
    by (auto simp: region_def demo_ctx_def word_less_nat_alt unat_word_ariths unat_of_nat dom_def)
  have n: "9 = length (concat demo_bytes)" by (simp add: demo_bytes_def)
  have k: "\<forall>k \<in> set (keys demo_fields). k \<le> 0xFFFFFFFF" by (simp add: demo_fields_def)
  from pack_extensions_writes [OF e c refl n _ ok k _ r] obtain m' where m: "ngx_protobuf_size_extensions (Some demo_fields) = Some 9"
    "store (mem (cstate demo_ctx)) (cpos demo_ctx) (concat demo_bytes) = Some m'"
    "ngx_protobuf_pack_extensions demo_env (Some demo_fields) 0 (- 1) demo_ctx =
      Some (demo_ctx\<lparr>cstate := (cstate demo_ctx)\<lparr>mem := m'\<rparr>, cpos := cpos demo_ctx + of_nat 9\<rparr>, NGX_OK)"
    by (auto simp: demo_ctx_def)
  have "load m' (cpos demo_ctx) (length (concat demo_bytes)) = Some (concat demo_bytes)"
    by (rule load_store [OF m(2)]) (simp add: demo_bytes_def)
  then have "load m' 16 9 = Some [0xA0, 0x06, 0xAC, 0x02, 0xAA, 0x06, 0x02, 0x02, 0x03]"
    by (simp only: n [symmetric]) (simp add: demo_ctx_def demo_bytes_def)
  then show ?thesis using m(1,3) by auto
qed

end
