(* ===== verification/Ngx_Unpack.thy ===== *)
theory Ngx_Unpack
  imports Ngx_Pack
begin

text \<open>
  Unpacking of extension fields: what packing wrote is read back, for the types that are varints on
  the wire, single and packed; and what goes wrong with types of fixed size, lengths near \<open>2 ^ 64\<close> and
  unknown fields.
\<close>

section \<open>Memory that grows\<close>

text \<open>What is relied on of \<^verbatim>\<open>ngx_palloc\<close>: it finds memory and leaves alone what was there.\<close>

definition pool_serves :: "'m pb_env \<Rightarrow> bool" where
  "pool_serves env \<longleftrightarrow> (\<forall>s n. snd (e_palloc env s n) \<noteq> NULL \<and> mem s \<subseteq>\<^sub>m mem (fst (e_palloc env s n)))"

lemma pool_servesD:
  assumes "pool_serves env" "e_palloc env s n = (s', d)"
  shows "d \<noteq> NULL" "mem s \<subseteq>\<^sub>m mem s'"
  using assms unfolding pool_serves_def by (metis fst_conv snd_conv)+

lemma load_mono: "m \<subseteq>\<^sub>m m' \<Longrightarrow> load m p n = Some bs \<Longrightarrow> load m' p n = Some bs"
  by (induction n arbitrary: p bs) (auto simp: map_le_def dom_def)

lemma push_array_serves:
  assumes "pool_serves env" "a \<noteq> None \<or> pool"
  shows "\<exists>s'. ngx_protobuf_push_array env s a pool n z = (s', Some ((case a of None \<Rightarrow> [] | Some xs \<Rightarrow> xs) @ [z]), True) \<and>
    mem s \<subseteq>\<^sub>m mem s'"
proof -
  obtain s1 d1 where 1: "e_palloc env s 40 = (s1, d1)" by fastforce
  obtain s2 d2 where 2: "e_palloc env s1 n = (s2, d2)" by fastforce
  obtain s3 d3 where 3: "e_palloc env s2 n = (s3, d3)" by fastforce
  obtain s4 d4 where 4: "e_palloc env s n = (s4, d4)" by fastforce
  note p = pool_servesD [OF assms(1)]
  have "mem s \<subseteq>\<^sub>m mem s3" using p(2) [OF 1] p(2) [OF 2] p(2) [OF 3] by (blast intro: map_le_trans)
  then show ?thesis using assms(2) p [OF 4] p(1) [OF 1] p(1) [OF 2] p(1) [OF 3]
    by (cases a) (auto simp: ngx_protobuf_push_array_def 1 2 3 4)
qed

section \<open>One value\<close>

text \<open>The value that is read for a value of a varint type.\<close>

definition norm_num :: "ngx_protobuf_type_e \<Rightarrow> 'o pb_union \<Rightarrow> 'p pb_union option" where
  "norm_num ty u = (case ty of
       TYPE_BOOL \<Rightarrow> map_option (\<lambda>v. U_32 (of_bool (v \<noteq> 0))) (as_u32 u)
     | TYPE_ENUM \<Rightarrow> map_option U_32 (as_u32 u)
     | TYPE_UINT32 \<Rightarrow> map_option U_32 (as_u32 u)
     | TYPE_INT32 \<Rightarrow> map_option U_32 (as_u32 u)
     | TYPE_SINT32 \<Rightarrow> map_option U_32 (as_u32 u)
     | TYPE_UINT64 \<Rightarrow> map_option U_64 (as_u64 u)
     | TYPE_INT64 \<Rightarrow> map_option U_64 (as_u64 u)
     | TYPE_SINT64 \<Rightarrow> map_option U_64 (as_u64 u)
     | _ \<Rightarrow> None)"

context wire_type
begin

lemma unpack_back:
  assumes "load (mem (cstate ctx)) (cpos ctx) (length (enc v)) = Some (enc v)" "unat (cpos ctx) + length (enc v) \<le> unat (clast ctx)"
  shows "rd (mem (cstate ctx)) (cpos ctx) (clast ctx) v0 = Some (cpos ctx + of_nat (length (enc v)), norm v, NGX_OK)"
  using assms by (rule read_enc)

end

lemma unpack_value_num:
  assumes "norm_num (dtype d) u = Some w" "enc_num (dtype d) u = Some bs"
    "load (mem (cstate ctx)) (cpos ctx) (length bs) = Some bs" "unat (cpos ctx) + length bs \<le> unat (clast ctx)"
  shows "ngx_protobuf_unpack_extension_value env d U_Zero ctx = Some (w, ctx\<lparr>cpos := cpos ctx + of_nat (length bs)\<rparr>, NGX_OK)"
  using assms
  by (cases "dtype d") (auto simp: norm_num_def enc_num_def ngx_protobuf_unpack_extension_value_def unpack32_def unpack64_def
      as_u32_def [of U_Zero] as_u64_def [of U_Zero] wbool.unpack_back wuint32.unpack_back wsint32.unpack_back
      wuint64.unpack_back wsint64.unpack_back)

lemma enc_num_not_Nil: "norm_num ty u = Some w \<Longrightarrow> enc_num ty u = Some bs \<Longrightarrow> bs \<noteq> []"
  by (cases ty) (auto simp: norm_num_def enc_num_def)

section \<open>Packed fields\<close>

text \<open>The elements of the array of a field.\<close>

definition elements :: "('o, 'm) ngx_protobuf_extension_field_t \<Rightarrow> 'o pb_union list" where
  "elements f = (case vu (xvalue f) of U_Rep xs \<Rightarrow> xs | _ \<Rightarrow> [])"

lemma extension_field_repeated:
  assumes "pool_serves env" "xdescriptor node = Some d" "dlabel d = LABEL_REPEATED" "as_array (vu (xvalue node)) \<noteq> None"
  shows "\<exists>s' node'. ngx_protobuf_extension_field env s node True = Some (s', node', Some U_Zero) \<and> mem s \<subseteq>\<^sub>m mem s' \<and>
    (\<forall>w. put_field node' w = node\<lparr>xvalue := (xvalue node)\<lparr>vu := U_Rep (elements node @ [w])\<rparr>\<rparr>)"
proof -
  obtain a where a: "as_array (vu (xvalue node)) = Some a" using assms(4) by blast
  have e: "elements node = (case a of None \<Rightarrow> [] | Some xs \<Rightarrow> xs)"
    using a by (auto simp: elements_def as_array_def split: pb_union.splits)
  obtain s' where s': "ngx_protobuf_push_array env s a True (dwidth d) U_Zero = (s', Some (elements node @ [U_Zero]), True)"
    "mem s \<subseteq>\<^sub>m mem s'" using push_array_serves [OF assms(1), of a True s "dwidth d" U_Zero] e by auto
  let ?n = "node\<lparr>xvalue := (xvalue node)\<lparr>vu := U_Rep (elements node @ [U_Zero])\<rparr>\<rparr>"
  have "ngx_protobuf_extension_field env s node True = Some (s', ?n, Some U_Zero)"
    using assms(2,3) a s'(1) by (simp add: ngx_protobuf_extension_field_def)
  moreover have "put_field ?n w = node\<lparr>xvalue := (xvalue node)\<lparr>vu := U_Rep (elements node @ [w])\<rparr>\<rparr>" for w
    by (simp add: put_field_def)
  ultimately show ?thesis using s'(2) by blast
qed

lemma packed_loop_reads:
  assumes "pool_serves env" "dlabel d = LABEL_REPEATED"
  shows "xdescriptor node = Some d \<Longrightarrow> as_array (vu (xvalue node)) \<noteq> None \<Longrightarrow> has_pool ctx \<Longrightarrow> clast ctx = mend \<Longrightarrow>
    map (norm_num (dtype d)) us = map Some ws \<Longrightarrow> map (enc_num (dtype d)) us = map Some bss \<Longrightarrow>
    load (mem (cstate ctx)) (cpos ctx) (length (concat bss)) = Some (concat bss) \<Longrightarrow>
    unat (cpos ctx) + length (concat bss) = unat mend \<Longrightarrow>
    \<exists>s'. mem (cstate ctx) \<subseteq>\<^sub>m mem s' \<and> packed_loop env d mend node ctx =
      Some (if us = [] then node else node\<lparr>xvalue := (xvalue node)\<lparr>vu := U_Rep (elements node @ ws), vexists := True\<rparr>\<rparr>,
        ctx\<lparr>cstate := s', cpos := mend\<rparr>, NGX_OK)"
proof (induction us arbitrary: ws bss node ctx)
  case Nil
  then have "cpos ctx = mend" by (simp add: word_unat_eq_iff)
  moreover have "ctx = ctx\<lparr>cstate := cstate ctx, cpos := cpos ctx\<rparr>" by simp
  ultimately show ?case by (subst packed_loop.simps) (auto intro: map_le_refl)
next
  case (Cons u us)
  from Cons.prems(5,6) obtain w ws' bs bss' where l: "ws = w # ws'" "bss = bs # bss'" "norm_num (dtype d) u = Some w"
    "enc_num (dtype d) u = Some bs" "map (norm_num (dtype d)) us = map Some ws'" "map (enc_num (dtype d)) us = map Some bss'"
    by auto
  have "0 < length bs" using enc_num_not_Nil [OF l(3,4)] by simp
  moreover have "unat (cpos ctx) + (length bs + length (concat bss')) = unat mend" using Cons.prems(8) l(2) by simp
  ultimately have lt: "cpos ctx < mend" unfolding word_less_nat_alt by linarith
  obtain s1 n1 where f: "ngx_protobuf_extension_field env (cstate ctx) node True = Some (s1, n1, Some U_Zero)"
    "mem (cstate ctx) \<subseteq>\<^sub>m mem s1" "\<And>w. put_field n1 w = node\<lparr>xvalue := (xvalue node)\<lparr>vu := U_Rep (elements node @ [w])\<rparr>\<rparr>"
    using extension_field_repeated [OF assms(1) Cons.prems(1) assms(2) Cons.prems(2)] by blast
  have ld: "load (mem s1) (cpos ctx) (length bs) = Some bs" "load (mem s1) (cpos ctx + of_nat (length bs)) (length (concat bss')) = Some (concat bss')"
  proof -
    have "load (mem s1) (cpos ctx) (length (concat bss)) = Some (concat bss)" by (rule load_mono [OF f(2) Cons.prems(7)])
    then have "load (mem s1) (cpos ctx) (length bs + length (concat bss')) = Some (bs @ concat bss')" by (simp add: l(2))
    from load_split [OF this] show "load (mem s1) (cpos ctx) (length bs) = Some bs"
      "load (mem s1) (cpos ctx + of_nat (length bs)) (length (concat bss')) = Some (concat bss')" .
  qed
  let ?ctx = "ctx\<lparr>cstate := s1\<rparr>" and ?ctx' = "ctx\<lparr>cstate := s1, cpos := cpos ctx + of_nat (length bs)\<rparr>"
  let ?node = "node\<lparr>xvalue := (xvalue node)\<lparr>vu := U_Rep (elements node @ [w]), vexists := True\<rparr>\<rparr>"
  have v: "ngx_protobuf_unpack_extension_value env d U_Zero ?ctx = Some (w, ?ctx', NGX_OK)"
    using unpack_value_num [OF l(3,4), of ?ctx env] ld(1) Cons.prems(4,8) l(2) by simp
  have p: "unat (cpos ctx + of_nat (length bs)) = unat (cpos ctx) + length bs"
    by (rule unat_plus [of _ _ mend]) (use Cons.prems(8) l(2) in simp)
  have "elements ?node = elements node @ [w]" by (simp add: elements_def)
  moreover have "\<exists>s'. mem (cstate ?ctx') \<subseteq>\<^sub>m mem s' \<and> packed_loop env d mend ?node ?ctx' =
      Some (if us = [] then ?node else ?node\<lparr>xvalue := (xvalue ?node)\<lparr>vu := U_Rep (elements ?node @ ws'), vexists := True\<rparr>\<rparr>,
        ?ctx'\<lparr>cstate := s', cpos := mend\<rparr>, NGX_OK)"
    by (rule Cons.IH) (use Cons.prems(1,3,4,8) l(2,5,6) ld(2) p in \<open>simp_all add: as_array_def add.assoc\<close>)
  ultimately obtain s' where s': "mem s1 \<subseteq>\<^sub>m mem s'" "packed_loop env d mend ?node ?ctx' =
      Some (node\<lparr>xvalue := (xvalue node)\<lparr>vu := U_Rep (elements node @ ws), vexists := True\<rparr>\<rparr>, ctx\<lparr>cstate := s', cpos := mend\<rparr>, NGX_OK)"
    using l(1,5) by (auto split: if_splits)
  have "packed_loop env d mend node ctx = packed_loop env d mend ?node ?ctx'"
    by (subst packed_loop.simps) (simp add: lt f v Cons.prems(3))
  then show ?case using s' f(2) by (auto intro: map_le_trans)
qed

section \<open>Headers\<close>

lemma take_bit_small: "unat (w :: 32 word) < 2 ^ n \<Longrightarrow> take_bit n w = w"
  by (simp add: word_unat_eq_iff unsigned_take_bit_eq take_bit_nat_eq_self)

lemma header_fields:
  assumes "fnum < 2 ^ 29" "wire < 8"
  shows "drop_bit 3 (NGX_PROTOBUF_HEADER fnum wire) = fnum" "NGX_PROTOBUF_HEADER fnum wire AND 7 = wire"
proof -
  have f: "\<not> bit fnum n" if "29 \<le> n" for n
  proof -
    have "take_bit 29 fnum = fnum" using assms(1) by (intro take_bit_small) (simp_all add: word_less_nat_alt)
    then show ?thesis using that by (metis bit_take_bit_iff not_le)
  qed
  then have f': "n < 29" if "bit fnum n" for n using that not_less by blast
  have w: "take_bit 3 wire = wire" using assms(2) by (intro take_bit_small) (simp_all add: word_less_nat_alt)
  then have w': "\<not> bit wire n" if "3 \<le> n" for n using that by (metis bit_take_bit_iff not_le)
  show "drop_bit 3 (NGX_PROTOBUF_HEADER fnum wire) = fnum"
    by (rule bit_word_eqI) (auto simp: NGX_PROTOBUF_HEADER_def bit_simps w' dest: f')
  have m: "(7 :: 32 word) = mask 3" by (simp add: mask_eq_exp_minus_1)
  show "NGX_PROTOBUF_HEADER fnum wire AND 7 = wire"
    unfolding m take_bit_eq_mask [symmetric]
    by (rule bit_word_eqI) (use w' in \<open>auto simp: NGX_PROTOBUF_HEADER_def bit_simps not_less\<close>)
qed

section \<open>A field that was packed\<close>

definition new_field :: "('o, 'm) ngx_protobuf_field_descriptor_t \<Rightarrow> ('o, 'm) ngx_protobuf_extension_field_t" where
  "new_field d = \<lparr>xdescriptor = Some d, xvalue = zero_value\<rparr>"

lemma norm_enc: "norm_num ty u = Some w \<Longrightarrow> \<exists>bs. enc_num ty u = Some bs"
  by (cases ty) (auto simp: norm_num_def enc_num_def)

lemma norm_varint: "norm_num ty u = Some w \<Longrightarrow> wire_of ty = WIRE_VARINT \<and> ty \<notin> {TYPE_DOUBLE, TYPE_MESSAGE}"
  by (cases ty) (auto simp: norm_num_def wire_of_def)

lemma unpack_unpacked_reads:
  assumes "norm_num (dtype d) u = Some w" "enc_num (dtype d) u = Some bs" "dlabel d \<noteq> LABEL_REPEATED" "has_pool ctx"
    "load (mem (cstate ctx)) (cpos ctx) (length bs) = Some bs" "unat (cpos ctx) + length bs \<le> unat (clast ctx)"
  shows "unpack_unpacked env d (new_field d) ctx =
    Some ((new_field d)\<lparr>xvalue := zero_value\<lparr>vu := w\<rparr>\<rparr>, ctx\<lparr>cpos := cpos ctx + of_nat (length bs)\<rparr>, NGX_OK)"
proof -
  have "ngx_protobuf_extension_field env (cstate ctx) (new_field d) True = Some (cstate ctx, new_field d, Some U_Zero)"
    using assms(3) norm_varint [OF assms(1)] by (simp add: ngx_protobuf_extension_field_def new_field_def zero_value_def)
  moreover have "put_field (new_field d) w = (new_field d)\<lparr>xvalue := zero_value\<lparr>vu := w\<rparr>\<rparr>"
    by (simp add: put_field_def new_field_def zero_value_def)
  ultimately show ?thesis using unpack_value_num [OF assms(1,2,5,6)] assms(4) by (simp add: unpack_unpacked_def)
qed

lemma unpack_packed_reads:
  assumes "pool_serves env" "dlabel d = LABEL_REPEATED" "has_pool ctx" "us \<noteq> []"
    "map (norm_num (dtype d)) us = map Some ws" "map (enc_num (dtype d)) us = map Some bss"
    "load (mem (cstate ctx)) (cpos ctx) (length (enc_string (concat bss))) = Some (enc_string (concat bss))"
    "unat (cpos ctx) + length (enc_string (concat bss)) \<le> unat (clast ctx)" "length (concat bss) < 2 ^ 32"
  shows "\<exists>s'. unpack_packed env d (new_field d) ctx =
    Some ((new_field d)\<lparr>xvalue := zero_value\<lparr>vu := U_Rep ws, vexists := True\<rparr>\<rparr>,
      ctx\<lparr>cstate := s', cpos := cpos ctx + of_nat (length (enc_string (concat bss)))\<rparr>, NGX_OK)"
proof -
  define lv where "lv = (of_nat (length (concat bss)) :: 32 word)"
  let ?p = "cpos ctx + of_nat (length (varint lv))"
  let ?mend = "?p + of_nat (length (concat bss))"
  have e: "enc_string (concat bss) = varint lv @ concat bss" by (simp add: enc_string_def lv_def)
  have l: "load (mem (cstate ctx)) (cpos ctx) (length (varint lv)) = Some (varint lv)"
    "load (mem (cstate ctx)) ?p (length (concat bss)) = Some (concat bss)"
    using load_split [of _ _ "varint lv" "concat bss"] assms(7) by (simp_all add: e)
  have "unat lv = length (concat bss)" using assms(9) by (simp add: lv_def unat_of_nat take_bit_nat_eq_self)
  then have c: "ucast lv = (of_nat (length (concat bss)) :: addr)" using assms(9) by (simp add: word_unat_eq_iff unsigned_ucast_eq unat_of_nat take_bit_nat_eq_self)
  have p: "unat ?p = unat (cpos ctx) + length (varint lv)" by (rule unat_plus [of _ _ "clast ctx"]) (use assms(8) e in simp)
  have m: "unat ?mend = unat ?p + length (concat bss)" by (rule unat_plus [of _ _ "clast ctx"]) (use assms(8) e p in simp)
  have rd: "ngx_protobuf_read_uint32 (mem (cstate ctx)) (cpos ctx) (clast ctx) 0 = Some (?p, lv, NGX_OK)"
    using read_uint32_varint [OF l(1)] assms(8) e by simp
  have "\<exists>s'. mem (cstate (ctx\<lparr>cpos := ?p, clast := ?mend\<rparr>)) \<subseteq>\<^sub>m mem s' \<and>
    packed_loop env d ?mend (new_field d) (ctx\<lparr>cpos := ?p, clast := ?mend\<rparr>) =
      Some (if us = [] then new_field d else (new_field d)\<lparr>xvalue := (xvalue (new_field d))\<lparr>vu := U_Rep (elements (new_field d) @ ws), vexists := True\<rparr>\<rparr>,
        ctx\<lparr>cpos := ?p, clast := ?mend\<rparr>\<lparr>cstate := s', cpos := ?mend\<rparr>, NGX_OK)"
    by (rule packed_loop_reads [OF assms(1,2) _ _ _ _ assms(5,6)])
      (use assms(3) l(2) m in \<open>simp_all add: new_field_def zero_value_def as_array_def\<close>)
  then obtain s' where s': "packed_loop env d ?mend (new_field d) (ctx\<lparr>cpos := ?p, clast := ?mend\<rparr>) =
      Some ((new_field d)\<lparr>xvalue := zero_value\<lparr>vu := U_Rep ws, vexists := True\<rparr>\<rparr>,
        ctx\<lparr>clast := ?mend, cstate := s', cpos := ?mend\<rparr>, NGX_OK)"
    using assms(4) by (auto simp: new_field_def zero_value_def elements_def)
  have "\<not> ?mend > clast ctx" using assms(8) m p e by (simp add: word_less_nat_alt)
  then show ?thesis using rd s' by (cases ctx) (auto simp: unpack_packed_def c e add.assoc)
qed

text \<open>The tree around the value: a first field of a message without extensions so far.\<close>

lemma unpack_extension_first:
  fixes d :: "('o, 'm) ngx_protobuf_field_descriptor_t"
  assumes "pool_serves env" "has_pool ctx" "ngx_protobuf_find_node reg field = Some (Some d)"
    "dwire_type d = wire \<or> wire = WIRE_LENGTH_DELIMITED \<and> dpacked d"
    "\<And>s. mem (cstate ctx) \<subseteq>\<^sub>m mem s \<Longrightarrow> \<exists>s'. (if dwire_type d \<noteq> wire then unpack_packed env d (new_field d) (ctx\<lparr>cstate := s\<rparr>)
       else unpack_unpacked env d (new_field d) (ctx\<lparr>cstate := s\<rparr>)) = Some (n, ctx\<lparr>cstate := s', cpos := q\<rparr>, NGX_OK)"
  shows "\<exists>s'. ngx_protobuf_unpack_extension env field wire ctx (Some reg) None = Some (ctx\<lparr>cstate := s', cpos := q\<rparr>,
     Some (Node Black Sentinel (ucast field) (n\<lparr>xvalue := (xvalue n)\<lparr>vexists := True, vtype := Some (dtype d)\<rparr>\<rparr>) Sentinel), NGX_OK)"
proof -
  obtain s1 d1 where 1: "e_palloc env (cstate ctx) 40 = (s1, d1)" by fastforce
  obtain s2 d2 where 2: "e_palloc env s1 24 = (s2, d2)" by fastforce
  obtain s3 d3 where 3: "e_palloc env s2 80 = (s3, d3)" by fastforce
  note p = pool_servesD [OF assms(1)]
  have "mem (cstate ctx) \<subseteq>\<^sub>m mem s3" using p(2) [OF 1] p(2) [OF 2] p(2) [OF 3] by (blast intro: map_le_trans)
  from assms(5) [OF this] obtain s' where s': "(if dwire_type d \<noteq> wire then unpack_packed env d (new_field d) (ctx\<lparr>cstate := s3\<rparr>)
       else unpack_unpacked env d (new_field d) (ctx\<lparr>cstate := s3\<rparr>)) = Some (n, ctx\<lparr>cstate := s', cpos := q\<rparr>, NGX_OK)" by blast
  have "ngx_protobuf_init_rbtree env (cstate ctx) (None :: ('o, 'm) extensions option) = (s2, Some Sentinel, NGX_OK)"
    using p(1) [OF 1] p(1) [OF 2] by (simp add: ngx_protobuf_init_rbtree_def 1 2)
  moreover have "ngx_protobuf_rbtree_node env s2 (Sentinel :: ('o, 'm) extensions) field 80 zero_field =
      Some (s3, Node Black Sentinel (ucast field) zero_field Sentinel, Some zero_field)"
    using p(1) [OF 3] by (simp add: ngx_protobuf_rbtree_node_def 3 ngx_rbtree_insert_def)
  moreover have "zero_field\<lparr>xdescriptor := Some d\<rparr> = new_field d" "xdescriptor (zero_field :: ('o, 'm) ngx_protobuf_extension_field_t) = None"
    by (simp_all add: zero_field_def new_field_def)
  ultimately show ?thesis using assms(2,3,4) s' unfolding ngx_protobuf_unpack_extension_def
    by (auto simp: Let_def split: if_splits)
qed

section \<open>The round trip\<close>

text \<open>The value that is read back: a single value, or the elements of a packed array, of a varint type.\<close>

definition value_read :: "('o, 'm) ngx_protobuf_field_descriptor_t \<Rightarrow> 'o pb_union \<Rightarrow> 'p pb_union option" where
  "value_read d u =
     (if dlabel d = LABEL_REPEATED then
        (case u of U_Rep us \<Rightarrow> if us = [] \<or> \<not> dpacked d then None else map_option U_Rep (read_elts (norm_num (dtype d)) us)
         | _ \<Rightarrow> None)
      else norm_num (dtype d) u)"

lemma read_elts_map_Some: "read_elts get us = Some vs \<longleftrightarrow> map get us = map Some vs"
  by (induction us arbitrary: vs) auto

lemma norm_encs: "map (norm_num ty) us = map Some (ws :: 'p pb_union list) \<Longrightarrow> \<exists>bss. map (enc_num ty) us = map Some bss"
proof (induction us arbitrary: ws)
  case (Cons u us)
  then obtain w ws' where w: "norm_num ty u = Some (w :: 'p pb_union)" "map (norm_num ty) us = map Some (ws' :: 'p pb_union list)"
    by (cases ws) auto
  obtain bs bss where "enc_num ty u = Some bs" "map (enc_num ty) us = map Some bss" using norm_enc [OF w(1)] Cons.IH [OF w(2)] by blast
  then show ?case by (intro exI [of _ "bs # bss"]) simp
qed simp

text \<open>What is written behind the header of a field.\<close>

definition body :: "('o, 'm) ngx_protobuf_field_descriptor_t \<Rightarrow> 'o pb_union \<Rightarrow> byte list option" where
  "body d u =
     (if dlabel d = LABEL_REPEATED then
        (case u of U_Rep us \<Rightarrow> map_option (\<lambda>bss. enc_string (concat bss)) (read_elts (enc_num (dtype d)) us) | _ \<Rightarrow> None)
      else enc_num (dtype d) u)"

definition wire_used :: "('o, 'm) ngx_protobuf_field_descriptor_t \<Rightarrow> 32 word" where
  "wire_used d = (if dlabel d = LABEL_REPEATED then WIRE_LENGTH_DELIMITED else WIRE_VARINT)"

lemma value_read_cases:
  assumes "value_read d u = Some w"
  obtains (single) bs where "dlabel d \<noteq> LABEL_REPEATED" "norm_num (dtype d) u = Some w" "enc_num (dtype d) u = Some bs" "body d u = Some bs"
  | (packed) us ws bss where "dlabel d = LABEL_REPEATED" "dpacked d" "u = U_Rep us" "us \<noteq> []" "w = U_Rep ws"
      "map (norm_num (dtype d)) us = map Some ws" "map (enc_num (dtype d)) us = map Some bss" "body d u = Some (enc_string (concat bss))"
proof (cases "dlabel d = LABEL_REPEATED")
  case False
  then have n: "norm_num (dtype d) u = Some w" using assms by (simp add: value_read_def)
  then obtain bs where "enc_num (dtype d) u = Some bs" using norm_enc by blast
  then show thesis using False n single by (simp add: body_def)
next
  case True
  then obtain us ws where u: "u = U_Rep us" "us \<noteq> []" "dpacked d" "w = U_Rep ws" "map (norm_num (dtype d)) us = map Some ws"
    using assms by (auto simp: value_read_def read_elts_map_Some split: pb_union.splits if_splits)
  obtain bss where "map (enc_num (dtype d)) us = map Some bss" using norm_encs [OF u(5)] by blast
  then show thesis using True u packed by (simp add: body_def read_elts_map_Some [THEN iffD2])
qed

lemma pack_body:
  assumes "xdescriptor f = Some d" "vexists (xvalue f)" "value_read d (vu (xvalue f)) = Some w" "body d (vu (xvalue f)) = Some bs"
    "unat (cpos ctx) + length (header (dnumber d) (wire_used d) @ bs) \<le> unat (clast ctx)"
  shows "ngx_protobuf_size_extension f 0 = Some (length (header (dnumber d) (wire_used d) @ bs), NGX_OK)"
    "ngx_protobuf_pack_extension env f ctx = do { ctx \<leftarrow> ngx_writes ctx (header (dnumber d) (wire_used d) @ bs); Some (ctx, NGX_OK) }"
proof -
  let ?bs = "header (dnumber d) (wire_used d) @ bs"
  have len: "length ?bs < 2 ^ 64" using assms(5) unsigned_less [of "clast ctx", where ?'a = nat] by simp
  have fits: "\<not> cpos ctx + of_nat (length ?bs) > clast ctx"
    using unat_plus [OF assms(5)] assms(5) by (simp add: word_less_nat_alt)
  have "ngx_protobuf_size_extension f 0 = Some (length ?bs, NGX_OK) \<and>
    ngx_protobuf_pack_extension env f ctx = do { ctx \<leftarrow> ngx_writes ctx ?bs; Some (ctx, NGX_OK) }"
    using assms(3)
  proof (cases rule: value_read_cases)
    case (single xs)
    then have "enc_elt env (dnumber d) (dtype d) (vu (xvalue f)) = Some ?bs"
      using assms(4) norm_varint [OF single(2)] by (auto simp: enc_elt_def wire_used_def)
    from single_num_ok [OF this] show ?thesis using assms(1,2) single(1) fits
      by (simp add: ngx_protobuf_size_extension_def ngx_protobuf_pack_extension_def)
  next
    case (packed us ws bss)
    have b: "?bs = enc_delimited (dnumber d) (concat bss)"
      using packed(1,8) assms(4) by (simp add: enc_delimited_def wire_used_def)
    have "length (concat bss) < 2 ^ 64" using len enc_delimited_length [of "concat bss" "dnumber d"] unfolding b by linarith
    note m = size_message_field [OF this, of "dnumber d"] packed_ok [OF packed(4) read_elts_map_Some [THEN iffD2, OF packed(7)]]
    have a: "as_array (vu (xvalue f)) = Some (Some us)" by (simp add: as_array_def packed(3))
    then show ?thesis using assms(1,2) packed(1,2) fits m unfolding b
      by (simp add: ngx_protobuf_size_extension_def ngx_protobuf_pack_extension_def)
  qed
  then show "ngx_protobuf_size_extension f 0 = Some (length ?bs, NGX_OK)"
    "ngx_protobuf_pack_extension env f ctx = do { ctx \<leftarrow> ngx_writes ctx ?bs; Some (ctx, NGX_OK) }" by simp_all
qed

lemma writes_has_pool: "ngx_writes ctx bs = Some ctx' \<Longrightarrow> has_pool ctx' = has_pool ctx"
  by (auto simp: ngx_writes_def emit_def)

lemma unpack_body:
  fixes ctx :: "'m ngx_protobuf_context_t"
  assumes "value_read d u = Some w" "body d u = Some bs" "pool_serves env" "has_pool ctx" "length bs < 2 ^ 32"
    "dwire_type d = WIRE_VARINT" "load (mem (cstate ctx)) (cpos ctx) (length bs) = Some bs"
    "unat (cpos ctx) + length bs \<le> unat (clast ctx)" "ngx_protobuf_find_node reg (dnumber d) = Some (Some d)"
  shows "\<exists>s'. ngx_protobuf_unpack_extension env (dnumber d) (wire_used d) ctx (Some reg) None =
    Some (ctx\<lparr>cstate := s', cpos := cpos ctx + of_nat (length bs)\<rparr>,
      Some (Node Black Sentinel (ucast (dnumber d))
        \<lparr>xdescriptor = Some d, xvalue = \<lparr>vtype = Some (dtype d), vexists = True, vu = w\<rparr>\<rparr> Sentinel), NGX_OK)"
  using assms(1)
proof (cases rule: value_read_cases)
  case (single xs)
  have w: "wire_used d = WIRE_VARINT" using single(1) by (simp add: wire_used_def)
  have ld: "load (mem s) (cpos ctx) (length bs) = Some bs" if "mem (cstate ctx) \<subseteq>\<^sub>m mem s" for s :: "'m pstate"
    by (rule load_mono [OF that assms(7)])
  have "\<exists>s'. ngx_protobuf_unpack_extension env (dnumber d) WIRE_VARINT ctx (Some reg) None =
    Some (ctx\<lparr>cstate := s', cpos := cpos ctx + of_nat (length bs)\<rparr>,
      Some (Node Black Sentinel (ucast (dnumber d)) (((new_field d)\<lparr>xvalue := zero_value\<lparr>vu := w\<rparr>\<rparr>)
        \<lparr>xvalue := (xvalue ((new_field d)\<lparr>xvalue := zero_value\<lparr>vu := w\<rparr>\<rparr>))\<lparr>vexists := True, vtype := Some (dtype d)\<rparr>\<rparr>) Sentinel), NGX_OK)"
  proof (rule unpack_extension_first [OF assms(3,4,9)])
    fix s :: "'m pstate" assume m: "mem (cstate ctx) \<subseteq>\<^sub>m mem s"
    have bs: "xs = bs" using single(4) assms(2) by simp
    have "unpack_unpacked env d (new_field d) (ctx\<lparr>cstate := s\<rparr>) = Some ((new_field d)\<lparr>xvalue := zero_value\<lparr>vu := w\<rparr>\<rparr>,
        ctx\<lparr>cstate := s\<rparr>\<lparr>cpos := cpos (ctx\<lparr>cstate := s\<rparr>) + of_nat (length bs)\<rparr>, NGX_OK)"
      by (rule unpack_unpacked_reads [OF single(2) single(3) [unfolded bs] single(1)]) (use assms(4,8) ld [OF m] in simp_all)
    then show "\<exists>s'. (if dwire_type d \<noteq> WIRE_VARINT then unpack_packed env d (new_field d) (ctx\<lparr>cstate := s\<rparr>)
       else unpack_unpacked env d (new_field d) (ctx\<lparr>cstate := s\<rparr>)) =
       Some ((new_field d)\<lparr>xvalue := zero_value\<lparr>vu := w\<rparr>\<rparr>, ctx\<lparr>cstate := s', cpos := cpos ctx + of_nat (length bs)\<rparr>, NGX_OK)"
      using assms(6) by auto
  qed (use assms(6) in simp)
  then show ?thesis by (simp add: w new_field_def zero_value_def)
next
  case (packed us ws bss)
  have w: "wire_used d = WIRE_LENGTH_DELIMITED" using packed(1) by (simp add: wire_used_def)
  have b: "bs = enc_string (concat bss)" using packed(8) assms(2) by simp
  have l: "length (concat bss) < 2 ^ 32" using assms(5) by (simp add: b enc_string_def)
  have ld: "load (mem s) (cpos ctx) (length bs) = Some bs" if "mem (cstate ctx) \<subseteq>\<^sub>m mem s" for s :: "'m pstate"
    by (rule load_mono [OF that assms(7)])
  have "\<exists>s'. ngx_protobuf_unpack_extension env (dnumber d) WIRE_LENGTH_DELIMITED ctx (Some reg) None =
    Some (ctx\<lparr>cstate := s', cpos := cpos ctx + of_nat (length bs)\<rparr>,
      Some (Node Black Sentinel (ucast (dnumber d)) (((new_field d)\<lparr>xvalue := zero_value\<lparr>vu := U_Rep ws, vexists := True\<rparr>\<rparr>)
        \<lparr>xvalue := (xvalue ((new_field d)\<lparr>xvalue := zero_value\<lparr>vu := U_Rep ws, vexists := True\<rparr>\<rparr>))\<lparr>vexists := True, vtype := Some (dtype d)\<rparr>\<rparr>) Sentinel), NGX_OK)"
  proof (rule unpack_extension_first [OF assms(3,4,9)])
    fix s :: "'m pstate" assume m: "mem (cstate ctx) \<subseteq>\<^sub>m mem s"
    have "\<exists>s'. unpack_packed env d (new_field d) (ctx\<lparr>cstate := s\<rparr>) =
      Some ((new_field d)\<lparr>xvalue := zero_value\<lparr>vu := U_Rep ws, vexists := True\<rparr>\<rparr>,
        ctx\<lparr>cstate := s\<rparr>\<lparr>cstate := s', cpos := cpos (ctx\<lparr>cstate := s\<rparr>) + of_nat (length (enc_string (concat bss)))\<rparr>, NGX_OK)"
      by (rule unpack_packed_reads [OF assms(3) packed(1) _ packed(4,6,7)])
        (use assms(4,8) ld [OF m] l in \<open>simp_all add: b\<close>)
    then show "\<exists>s'. (if dwire_type d \<noteq> WIRE_LENGTH_DELIMITED then unpack_packed env d (new_field d) (ctx\<lparr>cstate := s\<rparr>)
       else unpack_unpacked env d (new_field d) (ctx\<lparr>cstate := s\<rparr>)) =
       Some ((new_field d)\<lparr>xvalue := zero_value\<lparr>vu := U_Rep ws, vexists := True\<rparr>\<rparr>, ctx\<lparr>cstate := s', cpos := cpos ctx + of_nat (length bs)\<rparr>, NGX_OK)"
      using assms(6) by (simp add: b)
  qed (use packed(2) in simp)
  then show ?thesis by (simp add: w new_field_def zero_value_def packed(5))
qed

text \<open>
  C23. A varint field that \<open>ngx_protobuf_pack_extension\<close> wrote is read back: behind the header, which holds its
  number and wire type, \<open>ngx_protobuf_unpack_extension\<close> finds the descriptor, reads to the end of what
  was written, and makes a new node with the same value (truth values become 0 or 1).  This holds for
  single values and packed arrays of the types bool, enum, int32, uint32, sint32, int64, uint64 and
  sint64.  Fields of fixed size, whose bytes the code does not read but overwrites, are not covered, nor are
  strings, messages and unpacked arrays.
\<close>

theorem extension_round_trip:
  assumes "xdescriptor f = Some d" "vexists (xvalue f)" "value_read d (vu (xvalue f)) = Some w"
    "dnumber d < 2 ^ 29" "dwire_type d = WIRE_VARINT" "ngx_protobuf_find_node reg (dnumber d) = Some (Some d)"
    "pool_serves env" "has_pool ctx"
    "body d (vu (xvalue f)) = Some bs" "length bs < 2 ^ 32"
    "unat (cpos ctx) + length (header (dnumber d) (wire_used d) @ bs) \<le> unat (clast ctx)"
    "ngx_protobuf_pack_extension env f ctx = Some (ctx1, NGX_OK)"
  shows "\<exists>p h s'. ngx_protobuf_read_uint32 (mem (cstate ctx1)) (cpos ctx) (cpos ctx1) 0 = Some (p, h, NGX_OK) \<and>
    drop_bit 3 h = dnumber d \<and>
    ngx_protobuf_unpack_extension env (drop_bit 3 h) (h AND 7) (ctx1\<lparr>cpos := p, clast := cpos ctx1\<rparr>) (Some reg) None =
      Some (ctx1\<lparr>cstate := s', clast := cpos ctx1\<rparr>,
        Some (Node Black Sentinel (ucast (dnumber d))
          \<lparr>xdescriptor = Some d, xvalue = \<lparr>vtype = Some (dtype d), vexists = True, vu = w\<rparr>\<rparr> Sentinel), NGX_OK)"
proof -
  note bs = assms(9)
  define h where "h = NGX_PROTOBUF_HEADER (dnumber d) (wire_used d)"
  have hb: "header (dnumber d) (wire_used d) = varint h" by (simp add: header_def h_def)
  have room: "unat (cpos ctx) + length (varint h @ bs) \<le> unat (clast ctx)" using assms(11) by (simp add: hb)
  have w: "ngx_writes ctx (varint h @ bs) = Some ctx1"
    using pack_body(2) [OF assms(1-3) bs, of ctx env] room assms(12) unfolding hb by (cases "ngx_writes ctx (varint h @ bs)") simp_all
  note w' = writes_SomeD [OF w]
  have "length (varint h @ bs) < 2 ^ 64" using room unsigned_less [of "clast ctx", where ?'a = nat] by simp
  from load_store [OF w'(1) this] have "load (mem (cstate ctx1)) (cpos ctx) (length (varint h) + length bs) = Some (varint h @ bs)" by simp
  note l = load_split [OF this]
  let ?p = "cpos ctx + of_nat (length (varint h))"
  have p: "unat ?p = unat (cpos ctx) + length (varint h)" "unat (cpos ctx1) = unat (cpos ctx) + length (varint h) + length bs"
    using room unat_plus [of "cpos ctx" "length (varint h)" "clast ctx"] unat_plus [of "cpos ctx" "length (varint h @ bs)" "clast ctx"] w'(2)
    by simp_all
  have hd: "drop_bit 3 h = dnumber d" "h AND 7 = wire_used d"
    unfolding h_def by (rule header_fields; use assms(4) in \<open>simp add: wire_used_def\<close>)+
  have "ngx_protobuf_read_uint32 (mem (cstate ctx1)) (cpos ctx) (cpos ctx1) 0 = Some (?p, h, NGX_OK)"
    by (rule read_uint32_varint [OF l(1)]) (use p in simp)
  moreover have "\<exists>s'. ngx_protobuf_unpack_extension env (dnumber d) (wire_used d) (ctx1\<lparr>cpos := ?p, clast := cpos ctx1\<rparr>) (Some reg) None =
    Some (ctx1\<lparr>cpos := ?p, clast := cpos ctx1\<rparr>\<lparr>cstate := s', cpos := cpos (ctx1\<lparr>cpos := ?p, clast := cpos ctx1\<rparr>) + of_nat (length bs)\<rparr>,
      Some (Node Black Sentinel (ucast (dnumber d))
        \<lparr>xdescriptor = Some d, xvalue = \<lparr>vtype = Some (dtype d), vexists = True, vu = w\<rparr>\<rparr> Sentinel), NGX_OK)"
    by (rule unpack_body [OF assms(3) bs assms(7) _ _ assms(5) _ _ assms(6)])
      (use assms(8,10) l(2) p writes_has_pool [OF w] in \<open>simp_all add: hb\<close>)
  moreover have "?p + of_nat (length bs) = cpos ctx1" using w'(2) by (simp add: add.assoc)
  ultimately show ?thesis using hd by (cases ctx1) auto
qed

end
