(* ===== verification/Ngx_Protobuf_Props.thy ===== *)
theory Ngx_Protobuf_Props
  imports Ngx_Unpack
begin

text \<open>
  Further properties of the protocol-buffer library: its trees as maps from field numbers, the
  bounded traversal, and the reading of fixed-size types, of huge lengths and of unknown fields.
\<close>

section \<open>Trees as maps\<close>

text \<open>
  C30. Insertion of a new key into an ordered red-black tree of nginx returns a tree (no missing parent
  is looked for) that is again red-black and ordered, and in which \<open>ngx_protobuf_find_node\<close> finds the new
  value under the new key and what it found before under every other.
\<close>

theorem ngx_insert_refines_map:
  assumes "ngx_rb_tree t" "ngx_ordered t" "key \<notin> set (keys t)"
  shows "\<exists>t'. ngx_rbtree_insert t key val = Some t' \<and> ngx_rb_tree t' \<and> ngx_ordered t' \<and>
    (\<forall>f. ngx_protobuf_find_node t' f = (if ucast f = key then Some val else ngx_protobuf_find_node t f))"
  using insert_ok [OF assms(1)] ordered_insert [OF _ assms(2,3)] find_node_insert [OF _ assms(2,3)] by blast

theorem ngx_insert_refines_map_witness:
  "\<exists>t'. ngx_rbtree_insert (Node Black Sentinel 5 True Sentinel) 7 False = Some t' \<and>
    ngx_protobuf_find_node t' 7 = Some False \<and> ngx_protobuf_find_node t' 5 = Some True"
  using ngx_insert_refines_map [of "Node Black Sentinel 5 True Sentinel" 7 False] by (auto simp: ngx_rb_tree_def)

lemma update_node_shape: "balanced (update_node t f w) = balanced t \<and> ngx_bh (update_node t f w) = ngx_bh t \<and>
    ngx_rbt_is_red (update_node t f w) = ngx_rbt_is_red t"
  by (induction t) auto

lemma update_node_rb: "ngx_rb_tree (update_node t f w) = ngx_rb_tree t"
  by (simp add: ngx_rb_tree_def update_node_shape)

text \<open>A tree of extensions that may not have been made yet.\<close>

definition exts_ok :: "('o, 'm) extensions option \<Rightarrow> bool" where
  "exts_ok x \<longleftrightarrow> (case x of None \<Rightarrow> True | Some t \<Rightarrow> ngx_rb_tree t \<and> ngx_ordered t)"

lemma not_in_keys: "ngx_ordered t \<Longrightarrow> ngx_protobuf_find_node t f = None \<Longrightarrow> ucast f \<notin> set (keys t)"
  by (simp add: find_node_map_of map_of_eq_None_iff)

lemma init_rbtree_serves:
  assumes "pool_serves env"
  shows "\<exists>s'. ngx_protobuf_init_rbtree env s x = (s', Some (case x of None \<Rightarrow> Sentinel | Some t \<Rightarrow> t), NGX_OK)"
proof (cases x)
  case None
  obtain s1 d1 where 1: "e_palloc env s 40 = (s1, d1)" by fastforce
  obtain s2 d2 where 2: "e_palloc env s1 24 = (s2, d2)" by fastforce
  show ?thesis using None pool_servesD(1) [OF assms 1] pool_servesD(1) [OF assms 2]
    by (simp add: ngx_protobuf_init_rbtree_def 1 2)
qed (simp add: ngx_protobuf_init_rbtree_def)

lemma rbtree_node_serves:
  assumes "pool_serves env" "ngx_rb_tree t" "ngx_ordered t"
  shows "\<exists>s' t' v. ngx_protobuf_rbtree_node env s t f n zero = Some (s', t', Some v) \<and> ngx_rb_tree t' \<and> ngx_ordered t' \<and>
    v = (case ngx_protobuf_find_node t f of None \<Rightarrow> zero | Some v \<Rightarrow> v) \<and>
    (\<forall>g. ngx_protobuf_find_node t' g = (if g = f then Some v else ngx_protobuf_find_node t g))"
proof (cases "ngx_protobuf_find_node t f")
  case (Some v)
  then show ?thesis using assms(2,3) by (auto simp: ngx_protobuf_rbtree_node_def)
next
  case None
  obtain s1 d1 where 1: "e_palloc env s n = (s1, d1)" by fastforce
  obtain t' where "ngx_rbtree_insert t (ucast f) zero = Some t'" "ngx_rb_tree t'" using insert_ok [OF assms(2)] by blast
  with ordered_insert [OF _ assms(3) not_in_keys [OF assms(3) None]] find_node_insert [OF _ assms(3) not_in_keys [OF assms(3) None]]
  show ?thesis using None pool_servesD(1) [OF assms(1) 1] by (auto simp: ngx_protobuf_rbtree_node_def 1)
qed

text \<open>The fields of a message keep the descriptors of the registry.\<close>

definition descs_ok :: "('o, 'm) registry \<Rightarrow> ('o, 'm) extensions option \<Rightarrow> bool" where
  "descs_ok reg x \<longleftrightarrow> (\<forall>t f n. x = Some t \<longrightarrow> ngx_protobuf_find_node t f = Some n \<longrightarrow>
     xdescriptor n \<noteq> None \<and> ngx_protobuf_find_node reg f = Some (xdescriptor n))"

lemma get_extension_node_serves:
  assumes "pool_serves env" "exts_ok x" "descs_ok reg x" "ngx_protobuf_find_node reg field = Some (Some d)"
  shows "\<exists>s' t n. ngx_protobuf_get_extension_node env s x reg field = Some (s', Some t, Some n, NGX_OK) \<and>
    ngx_rb_tree t \<and> ngx_ordered t \<and> xdescriptor n = Some d \<and> ngx_protobuf_find_node t field = Some n \<and>
    (\<forall>g. g \<noteq> field \<longrightarrow> ngx_protobuf_find_node t g = (case x of None \<Rightarrow> None | Some t \<Rightarrow> ngx_protobuf_find_node t g))"
proof -
  let ?t = "case x of None \<Rightarrow> Sentinel | Some t \<Rightarrow> t"
  have t: "ngx_rb_tree ?t" "ngx_ordered ?t" using assms(2) by (auto simp: exts_ok_def ngx_rb_tree_def split: option.splits)
  obtain s1 where 1: "ngx_protobuf_init_rbtree env s x = (s1, Some ?t, NGX_OK)" using init_rbtree_serves [OF assms(1)] by blast
  obtain s2 t2 v where 2: "ngx_protobuf_rbtree_node env s1 ?t field 80 zero_field = Some (s2, t2, Some v)" "ngx_rb_tree t2" "ngx_ordered t2"
    "v = (case ngx_protobuf_find_node ?t field of None \<Rightarrow> zero_field | Some v \<Rightarrow> v)"
    "\<And>g. ngx_protobuf_find_node t2 g = (if g = field then Some v else ngx_protobuf_find_node ?t g)"
    using rbtree_node_serves [OF assms(1) t, of s1 field 80 zero_field] by blast
  let ?n = "if xdescriptor v = None then v\<lparr>xdescriptor := Some d\<rparr> else v"
  have n: "xdescriptor ?n = Some d"
    using 2(4) assms(3,4) by (cases x) (auto simp: zero_field_def descs_ok_def split: option.splits)
  have "ngx_protobuf_get_extension_node env s x reg field = Some (s2, Some (update_node t2 field ?n), Some ?n, NGX_OK)"
    using 1 2(1) assms(4) by (simp add: ngx_protobuf_get_extension_node_def Let_def)
  moreover have "ngx_protobuf_find_node (update_node t2 field ?n) g = (if g = field then Some ?n else ngx_protobuf_find_node t2 g)" for g
    by (rule find_update_node [OF 2(3)]) (simp add: 2(5))
  ultimately show ?thesis using n 2(2,3,5) by (auto simp: update_node_rb update_node_ordered split: option.splits)
qed

text \<open>
  The extensions of a message are a map from field numbers to values: for a field number in the
  registry and an existing value of the registered type, \<open>ngx_protobuf_set_extension\<close> succeeds,
  \<open>ngx_protobuf_get_extension\<close> then returns that value, every other field keeps its value, the tree
  stays red-black and ordered and keeps its descriptors; \<open>ngx_protobuf_clear_extension\<close> afterwards
  leaves a cleared value in the field and the others alone.
\<close>

theorem set_extension_refines_map:
  assumes "pool_serves env" "exts_ok x" "descs_ok reg x" "ngx_protobuf_find_node reg field = Some (Some d)"
    "vexists v" "vtype v = Some (dtype d)"
  shows "\<exists>s' t. ngx_protobuf_set_extension env s x reg field (Some v) = Some (s', Some t, NGX_OK) \<and>
    exts_ok (Some t) \<and> descs_ok reg (Some t) \<and>
    (\<forall>g. ngx_protobuf_get_extension (Some t) g = (if g = field then Some v else ngx_protobuf_get_extension x g)) \<and>
    (\<forall>g. ngx_protobuf_get_extension (ngx_protobuf_clear_extension (Some t) field) g =
      (if g = field then Some zero_value else ngx_protobuf_get_extension x g))"
proof -
  obtain s' t n where n: "ngx_protobuf_get_extension_node env s x reg field = Some (s', Some t, Some n, NGX_OK)"
    "ngx_rb_tree t" "ngx_ordered t" "xdescriptor n = Some d" "ngx_protobuf_find_node t field = Some n"
    "\<And>g. g \<noteq> field \<Longrightarrow> ngx_protobuf_find_node t g = (case x of None \<Rightarrow> None | Some t \<Rightarrow> ngx_protobuf_find_node t g)"
    using get_extension_node_serves [OF assms(1-4)] by blast
  let ?n = "n\<lparr>xvalue := v\<rparr>"
  let ?t = "update_node t field ?n"
  have f: "ngx_protobuf_find_node ?t g = (if g = field then Some ?n else ngx_protobuf_find_node t g)" for g
    by (rule find_update_node [OF n(3)]) (simp add: n(5))
  have o: "ngx_ordered ?t" by (simp add: update_node_ordered n(3))
  have c: "ngx_protobuf_find_node (update_node ?t field (n\<lparr>xvalue := zero_value\<rparr>)) g =
      (if g = field then Some (n\<lparr>xvalue := zero_value\<rparr>) else ngx_protobuf_find_node ?t g)" for g
    by (rule find_update_node [OF o]) (simp add: f)
  have "ngx_protobuf_set_extension env s x reg field (Some v) = Some (s', Some ?t, NGX_OK)"
    using n(1,4) assms(5,6) by (simp add: ngx_protobuf_set_extension_def)
  moreover have "exts_ok (Some ?t)" using n(2) o by (simp add: exts_ok_def update_node_rb)
  moreover have "descs_ok reg (Some ?t)"
    using assms(3,4) n(4,6) by (auto simp: descs_ok_def f split: if_splits option.splits)
  moreover have "ngx_protobuf_get_extension (Some ?t) g = (if g = field then Some v else ngx_protobuf_get_extension x g)" for g
    using n(6) [of g] by (auto simp: ngx_protobuf_get_extension_def f split: option.splits)
  moreover have "ngx_protobuf_clear_extension (Some ?t) field = Some (update_node ?t field (n\<lparr>xvalue := zero_value\<rparr>))"
    by (simp add: ngx_protobuf_clear_extension_def f)
  moreover have "ngx_protobuf_get_extension (Some (update_node ?t field (n\<lparr>xvalue := zero_value\<rparr>))) g =
      (if g = field then Some zero_value else ngx_protobuf_get_extension x g)" for g
    using n(6) [of g] by (auto simp: ngx_protobuf_get_extension_def c f split: option.splits)
  ultimately show ?thesis by metis
qed

definition demo_reg :: "(unit, unit) registry" where
  "demo_reg = Node Black Sentinel 100 (Some (demo_desc 100 TYPE_UINT32 LABEL_OPTIONAL False))
     (Node Red Sentinel 101 (Some (demo_desc 101 TYPE_SINT32 LABEL_REPEATED True)) Sentinel)"

lemma demo_reg_find:
  "ngx_protobuf_find_node demo_reg 100 = Some (Some (demo_desc 100 TYPE_UINT32 LABEL_OPTIONAL False))"
  "ngx_protobuf_find_node demo_reg 101 = Some (Some (demo_desc 101 TYPE_SINT32 LABEL_REPEATED True))"
  by (simp_all add: demo_reg_def)

lemma demo_serves: "pool_serves demo_env"
  by (simp add: pool_serves_def demo_env_def)

theorem set_extension_refines_map_witness:
  "\<exists>s' t. ngx_protobuf_set_extension demo_env \<lparr>mem = Map.empty, heap = ()\<rparr> None demo_reg 100
      (Some \<lparr>vtype = Some TYPE_UINT32, vexists = True, vu = U_32 7\<rparr>) = Some (s', Some t, NGX_OK) \<and>
    ngx_protobuf_get_extension (Some t) 100 = Some \<lparr>vtype = Some TYPE_UINT32, vexists = True, vu = U_32 7\<rparr> \<and>
    ngx_protobuf_get_extension (Some t) 101 = None"
proof -
  have "exts_ok None" "descs_ok demo_reg None" by (simp_all add: exts_ok_def descs_ok_def)
  from set_extension_refines_map [OF demo_serves this demo_reg_find(1), of "\<lparr>vtype = Some TYPE_UINT32, vexists = True, vu = U_32 7\<rparr>"
      "\<lparr>mem = Map.empty, heap = ()\<rparr>"]
  show ?thesis by (force simp: demo_desc_def ngx_protobuf_get_extension_def [of None])
qed

section \<open>Traversal within bounds\<close>

text \<open>
  \<open>ngx_protobuf_rbtree_iterate\<close> calls the callback on the nodes in the order of their keys and stops
  at the first result that is not \<open>NGX_OK\<close>: on all nodes if every key of the tree is within the bounds,
  and on some nodes whose keys are within the bounds in general.
\<close>

theorem rbtree_iterate_visits:
  "\<exists>vs. ngx_protobuf_rbtree_iterate t lower upper f s = visit f vs s \<and>
    set vs \<subseteq> {v. \<exists>k. (k, v) \<in> set (entries t) \<and> lower \<le> k \<and> k \<le> upper} \<and>
    ((\<forall>k \<in> set (keys t). lower \<le> k \<and> k \<le> upper) \<longrightarrow> vs = map snd (entries t))"
proof (intro exI conjI)
  show "ngx_protobuf_rbtree_iterate t lower upper f s = visit f (visited lower upper t) s" by (rule rbtree_iterate_visited)
  show "set (visited lower upper t) \<subseteq> {v. \<exists>k. (k, v) \<in> set (entries t) \<and> lower \<le> k \<and> k \<le> upper}"
    using visited_subset by fastforce
  show "(\<forall>k \<in> set (keys t). lower \<le> k \<and> k \<le> upper) \<longrightarrow> visited lower upper t = map snd (entries t)"
    using visited_all by blast
qed

theorem rbtree_iterate_visits_witness:
  "ngx_protobuf_rbtree_iterate (Node Black (Node Red Sentinel 5 (5 :: nat) Sentinel) 7 7 Sentinel) 1 9 (\<lambda>v s. Some (s @ [v], NGX_OK)) [] =
    Some ([5, 7], NGX_OK)"
proof -
  let ?t = "Node Black (Node Red Sentinel 5 (5 :: nat) Sentinel) 7 7 Sentinel"
  obtain vs where vs: "ngx_protobuf_rbtree_iterate ?t 1 9 (\<lambda>v s. Some (s @ [v], NGX_OK)) [] = visit (\<lambda>v s. Some (s @ [v], NGX_OK)) vs []"
    "(\<forall>k \<in> set (keys ?t). 1 \<le> k \<and> k \<le> 9) \<longrightarrow> vs = map snd (entries ?t)"
    using rbtree_iterate_visits [of ?t 1 9 "\<lambda>v s. Some (s @ [v], NGX_OK)" "[]"] by blast
  have "vs = [5, 7]" using vs(2) by simp
  then show ?thesis using vs(1) by simp
qed

text \<open>
  The bounded traversal can miss a node within the bounds: it leaves out the whole left subtree as
  soon as the key of its root is below the lower bound.  With the keys 10, 5, 20 and 7 inserted in
  this order and the bounds 6 and 100, it visits 10 and 20, but not 7, which is in the tree.
\<close>

theorem rbtree_iterate_misses:
  "\<exists>t. do { t \<leftarrow> ngx_rbtree_insert Sentinel 10 (10 :: nat); t \<leftarrow> ngx_rbtree_insert t 5 5; t \<leftarrow> ngx_rbtree_insert t 20 20; ngx_rbtree_insert t 7 7 } = Some t \<and>
    ngx_protobuf_find_node t 7 = Some 7 \<and>
    ngx_protobuf_rbtree_iterate t 6 100 (\<lambda>v s. Some (s @ [v], NGX_OK)) [] = Some ([10, 20], NGX_OK)"
  by (simp add: ngx_rbtree_insert_def rbtree_iterate_visited)

section \<open>A field written and read\<close>

theorem extension_round_trip_witness:
  "\<exists>ctx1 p h s'. ngx_protobuf_pack_extension demo_env
      \<lparr>xdescriptor = Some (demo_desc 101 TYPE_SINT32 LABEL_REPEATED True),
       xvalue = \<lparr>vtype = Some TYPE_SINT32, vexists = True, vu = U_Rep [U_32 1, U_32 (- 2)]\<rparr>\<rparr> demo_ctx = Some (ctx1, NGX_OK) \<and>
    ngx_protobuf_unpack_extension demo_env (drop_bit 3 h) (h AND 7) (ctx1\<lparr>cpos := p, clast := cpos ctx1\<rparr>) (Some demo_reg) None =
      Some (ctx1\<lparr>cstate := s', clast := cpos ctx1\<rparr>,
        Some (Node Black Sentinel 101
          \<lparr>xdescriptor = Some (demo_desc 101 TYPE_SINT32 LABEL_REPEATED True),
           xvalue = \<lparr>vtype = Some TYPE_SINT32, vexists = True, vu = U_Rep [U_32 1, U_32 (- 2)]\<rparr>\<rparr> Sentinel), NGX_OK)"
proof -
  let ?d = "demo_desc 101 TYPE_SINT32 LABEL_REPEATED True"
  let ?f = "\<lparr>xdescriptor = Some ?d, xvalue = \<lparr>vtype = Some TYPE_SINT32, vexists = True, vu = U_Rep [U_32 1, U_32 (- 2)]\<rparr>\<rparr>"
  let ?h = "header (dnumber ?d) (wire_used ?d)"
  have x: "xdescriptor ?f = Some ?d" "vexists (xvalue ?f)" by simp_all
  have v: "value_read ?d (vu (xvalue ?f)) = Some (U_Rep [U_32 1, U_32 (- 2)])"
    by (simp add: value_read_def demo_desc_def norm_num_def as_u32_def)
  have b: "body ?d (vu (xvalue ?f)) = Some [2, 2, 3]"
    by (simp add: body_def demo_desc_def enc_num_def as_u32_def enc_string_def z32_encode_def) (simp add: varint.simps)
  have h: "?h = [0xAA, 0x06]"
    by (simp add: header_def wire_used_def demo_desc_def NGX_PROTOBUF_HEADER_def) (simp add: varint.simps)
  have d: "dnumber ?d = 101" "dwire_type ?d = WIRE_VARINT" "dtype ?d = TYPE_SINT32"
    by (simp_all add: demo_desc_def wire_of_def)
  have p: "has_pool demo_ctx" "unat (cpos demo_ctx) + length (?h @ [2, 2, 3]) \<le> unat (clast demo_ctx)"
    by (simp_all add: h demo_ctx_def)
  have "\<exists>m'. store (mem (cstate demo_ctx)) (cpos demo_ctx) (?h @ [2, 2, 3]) = Some m'"
    by (rule store_total) (auto simp: h region_def demo_ctx_def word_less_nat_alt unat_word_ariths unat_of_nat dom_def)
  then obtain ctx1 where w: "ngx_protobuf_pack_extension demo_env ?f demo_ctx = Some (ctx1, NGX_OK)"
    using pack_body(2) [OF x v b p(2), of demo_env] by (auto simp: ngx_writes_def emit_def)
  have f: "ngx_protobuf_find_node demo_reg (dnumber ?d) = Some (Some ?d)" using demo_reg_find(2) d(1) by simp
  have n: "dnumber ?d < 2 ^ 29" "length [2, 2, 3 :: byte] < 2 ^ 32" by (simp_all add: d(1))
  have u: "(ucast (dnumber ?d) :: 64 word) = 101" by (simp add: d(1))
  from extension_round_trip [OF x v n(1) d(2) f demo_serves p(1) b n(2) p(2) w, unfolded u d(3)] w show ?thesis by blast
qed

section \<open>Types of fixed size\<close>

text \<open>
  \<open>ngx_protobuf_read_fixed32\<close> reads nothing: it returns \<open>NGX_OK\<close> and moves the position by four
  bytes, but the variable keeps its old value, which is written over the four bytes of the input.
\<close>

theorem read_fixed32_overwrites:
  assumes "region p 4 \<subseteq> dom m" "unat p + 4 \<le> unat e"
  shows "\<exists>m'. ngx_protobuf_read_fixed32 m p e val = Some (m', p + 4, val, NGX_OK) \<and> load m' p 4 = Some (le_bytes 4 val)"
proof -
  obtain m' where m': "store m p (le_bytes 4 val) = Some m'" using store_total assms(1) by fastforce
  have "\<not> p + 4 > e" using unat_plus [OF assms(2)] assms(2) by (simp add: word_less_nat_alt)
  then show ?thesis using m' load_store [OF m'] by (simp add: ngx_protobuf_read_fixed32_def read_copy4_def)
qed

theorem read_fixed32_overwrites_witness:
  "\<exists>m'. ngx_protobuf_read_fixed32 (\<lambda>a. if a < 64 then Some 9 else None) 16 32 7 = Some (m', 20, 7, NGX_OK) \<and>
    load m' 16 4 = Some [7, 0, 0, 0]"
proof -
  have "region 16 4 \<subseteq> dom (\<lambda>a :: addr. if a < 64 then Some (9 :: byte) else None)"
    by (auto simp: region_def word_less_nat_alt unat_word_ariths unat_of_nat dom_def)
  from read_fixed32_overwrites [OF this, of 32 7] show ?thesis
    by (simp add: le_bytes_def upt_rec)
qed

section \<open>Lengths near the end of the address space\<close>

text \<open>
  The check \<^verbatim>\<open>*buf + v > end\<close> of \<open>ngx_protobuf_read_string\<close> wraps around: a length of \<open>2 ^ 64 - k\<close> passes
  it, and \<open>ngx_protobuf_skip\<close> returns \<open>NGX_OK\<close> with the position \<open>k\<close> bytes in front of the end of the
  length, so that a parser reads the same bytes again.
\<close>

theorem skip_moves_back:
  assumes "load (mem s) p (length (varint v)) = Some (varint (v :: 64 word))" "v = - of_nat k" "k \<le> unat p"
    "unat p + length (varint v) \<le> unat e"
  shows "ngx_protobuf_skip v32 v64 palloc s p e WIRE_LENGTH_DELIMITED =
    Some (s, p + of_nat (length (varint v)) - of_nat k, NGX_OK)"
proof -
  let ?p = "p + of_nat (length (varint v))"
  have lt: "\<not> e \<le> p" using assms(4) varint_not_Nil(2) [of v] unfolding word_le_nat_alt by linarith
  have p: "unat ?p = unat p + length (varint v)" by (rule unat_plus [OF assms(4)])
  have k: "unat (of_nat k :: addr) = k"
    using assms(3) unsigned_less [of p, where ?'a = nat] by (simp add: unat_of_nat take_bit_nat_eq_self)
  then have "of_nat k \<le> ?p" using assms(3) p by (simp add: word_le_nat_alt)
  then have "?p - of_nat k \<le> ?p" by (simp add: word_le_nat_alt unat_sub_if')
  then have "\<not> ?p + v > e" using assms(2,4) p by (simp add: word_le_nat_alt not_less)
  then show ?thesis using read_uint64_varint [OF assms(1,4)] lt assms(2)
    by (simp add: ngx_protobuf_skip_def ngx_protobuf_read_string_def)
qed

text \<open>An example: a length of \<open>2 ^ 64 - 10\<close>, itself ten bytes long, and skipping the field does not move at all.\<close>

definition back_bytes :: "byte list" where
  "back_bytes = [0xF6, 0xFF, 0xFF, 0xFF, 0xFF, 0xFF, 0xFF, 0xFF, 0xFF, 1]"

definition back_state :: "unit pstate" where
  "back_state = \<lparr>mem = (\<lambda>a. if 16 \<le> a \<and> a < 26 then Some (back_bytes ! unat (a - 16)) else None), heap = ()\<rparr>"

lemma varint_back: "varint (- of_nat 10 :: 64 word) = back_bytes"
proof -
  have "(- of_nat 10 :: 64 word) = 0xFFFFFFFFFFFFFFF6" by simp
  moreover have "varint (0xFFFFFFFFFFFFFFF6 :: 64 word) = back_bytes" by (simp add: varint.simps back_bytes_def)
  ultimately show ?thesis by (simp only:)
qed

lemma load_back: "load (mem back_state) 16 (length back_bytes) = Some back_bytes"
  by (simp add: back_state_def back_bytes_def)

theorem skip_moves_back_witness:
  "ngx_protobuf_skip 0 0 (\<lambda>s n. (s, 4096)) back_state 16 64 WIRE_LENGTH_DELIMITED = Some (back_state, 16, NGX_OK)"
proof -
  have l: "length back_bytes = 10" by (simp add: back_bytes_def)
  have "load (mem back_state) 16 (length (varint (- of_nat 10 :: 64 word))) = Some (varint (- of_nat 10 :: 64 word))"
    by (simp only: varint_back load_back)
  moreover have "10 \<le> unat (16 :: addr)" "unat (16 :: addr) + length (varint (- of_nat 10 :: 64 word)) \<le> unat (64 :: addr)"
    by (simp_all only: varint_back l) simp_all
  moreover have "(16 :: addr) + of_nat (length (varint (- of_nat 10 :: 64 word))) - of_nat 10 = 16"
    by (simp only: varint_back l) simp
  ultimately show ?thesis
    using skip_moves_back [of back_state 16 "- of_nat 10" 10 64 0 0 "\<lambda>s n. (s, 4096)"] by (simp only: refl simp_thms)
qed

section \<open>Unknown fields\<close>

text \<open>
  \<open>ngx_protobuf_unpack_unknown_field\<close> keeps the value of a varint, but neither the number nor the wire
  type of the field: the array gets an element with number 0, and \<open>ngx_protobuf_pack_unknown_field\<close> writes
  it with the header 0.
\<close>

theorem unknown_field_forgets:
  fixes us :: "'o ngx_protobuf_unknown_field_t list"
  assumes "pool_serves env" "has_pool ctx"
    "load (mem (cstate ctx)) (cpos ctx) (length (varint v)) = Some (varint (v :: 64 word))"
    "unat (cpos ctx) + length (varint v) \<le> unat (clast ctx)"
  shows "\<exists>ctx' u. ngx_protobuf_unpack_unknown_field env field WIRE_VARINT ctx (Some us) = Some (ctx', Some (us @ [u]), NGX_OK) \<and>
    ufnumber u = 0 \<and>
    ngx_protobuf_pack_unknown_field u ctx2 = do { ctx2 \<leftarrow> ngx_writes ctx2 (0 # varint v); Some (ctx2, NGX_OK) }"
proof -
  obtain s' where s': "ngx_protobuf_push_array env (cstate ctx) (Some us) True 40 zero_unknown = (s', Some (us @ [zero_unknown]), True)"
    "mem (cstate ctx) \<subseteq>\<^sub>m mem s'" using push_array_serves [OF assms(1), of "Some us" True "cstate ctx" 40 zero_unknown] by auto
  let ?u = "zero_unknown\<lparr>ufvalue := zero_value\<lparr>vu := U_64 v\<rparr>\<rparr>"
  have "unpack64 ngx_protobuf_read_uint64 (U_Zero :: 'o pb_union) (ctx\<lparr>cstate := s'\<rparr>) =
      Some (U_64 v, ctx\<lparr>cstate := s', cpos := cpos ctx + of_nat (length (varint v))\<rparr>, NGX_OK)"
    using read_uint64_varint [OF load_mono [OF s'(2) assms(3)] assms(4), of 0] by (simp add: unpack64_def as_u64_def)
  then have "ngx_protobuf_unpack_unknown_field env field WIRE_VARINT ctx (Some us) =
      Some (ctx\<lparr>cstate := s', cpos := cpos ctx + of_nat (length (varint v))\<rparr>, Some (us @ [?u]), NGX_OK)"
    using assms(2) s'(1) by (simp add: ngx_protobuf_unpack_unknown_field_def)
  moreover have "header 0 WIRE_VARINT = [0]" by (simp add: header_def NGX_PROTOBUF_HEADER_def varint.simps)
  then have "ngx_protobuf_pack_unknown_field ?u ctx2 = do { ctx2 \<leftarrow> ngx_writes ctx2 (0 # varint v); Some (ctx2, NGX_OK) }"
    using fuint64.emit_enc [of ctx2 v 0] by (simp add: ngx_protobuf_pack_unknown_field_def zero_unknown_def zero_value_def as_u64_def)
  ultimately show ?thesis by (force simp: zero_unknown_def)
qed

theorem unknown_field_forgets_witness:
  "\<exists>ctx' u. ngx_protobuf_unpack_unknown_field demo_env 9 WIRE_VARINT demo_ctx (Some []) = Some (ctx', Some [u], NGX_OK) \<and> ufnumber u = 0"
proof -
  have v: "varint (0 :: 64 word) = [0]" by (simp add: varint.simps)
  have "load (mem (cstate demo_ctx)) (cpos demo_ctx) (length (varint (0 :: 64 word))) = Some (varint (0 :: 64 word))" by (simp add: v demo_ctx_def)
  from unknown_field_forgets [OF demo_serves _ this, of 9 "[]"] show ?thesis by (force simp: v demo_ctx_def)
qed

end
