(* ===== verification/Com_Chain.thy ===== *)
theory Com_Chain
  imports Ngx_Unpack
begin

text \<open>
  Buffer chains of \<^verbatim>\<open>adx_com_libs/adx_string.c\<close> on byte-addressed memory.  A chain is the list of the
  bounds of its buffers, and the empty list is the null chain.  The pool is the allocation function
  of the environment; \<open>pool_fresh\<close> is what the memory it returns must be.
\<close>

section \<open>Model\<close>

type_synonym ngx_chain = "(addr \<times> addr) list"

text \<open>\<^verbatim>\<open>ngx_pcalloc\<close> for bytes; the result is also the null pointer.\<close>

definition pcalloc :: "'m pb_env \<Rightarrow> 'm pstate \<Rightarrow> nat \<Rightarrow> ('m pstate \<times> addr) option" where
  "pcalloc env s n =
     (let (s, d) = e_palloc env s n in
       if d = NULL then Some (s, NULL)
       else do { m \<leftarrow> store (mem s) d (replicate n 0); Some (s\<lparr>mem := m\<rparr>, d) })"

definition chain_len :: "ngx_chain \<Rightarrow> 64 word" where
  "chain_len chain = foldl (\<lambda>len (pos, last). len + (last - pos)) 0 chain"

definition chain_alloc :: "'m pb_env \<Rightarrow> 'm pstate \<Rightarrow> addr \<Rightarrow> 64 word \<Rightarrow> ('m pstate \<times> ngx_chain) option" where
  "chain_alloc env s buffer n =
     (if buffer = NULL \<or> n = 0 then Some (s, [])
      else
        let (s, chain) = e_palloc env s 16 in
          if chain = NULL then Some (s, [])
          else
            let (s, buf) = e_palloc env s 80 in
              if buf = NULL then Some (s, [])
              else do {
                (s, pos) \<leftarrow> pcalloc env s (unat n);
                if pos = NULL then Some (s, [])
                else do {
                  bs \<leftarrow> load (mem s) buffer (unat n);
                  m \<leftarrow> store (mem s) pos bs;
                  Some (s\<lparr>mem := m\<rparr>, [(pos, pos + n)]) } })"

partial_function (option) strlen :: "memory \<Rightarrow> addr \<Rightarrow> nat option" where
  "strlen m p = do { b \<leftarrow> m p; if b = 0 then Some 0 else do { n \<leftarrow> strlen m (p + 1); Some (Suc n) } }"

text \<open>The length is an \<^verbatim>\<open>int\<close>.\<close>

definition chain_alloc_r :: "'m pb_env \<Rightarrow> 'm pstate \<Rightarrow> addr \<Rightarrow> ('m pstate \<times> ngx_chain) option" where
  "chain_alloc_r env s buffer =
     (if buffer = NULL then Some (s, [])
      else do {
        n \<leftarrow> strlen (mem s) buffer;
        let len = (of_nat n :: 32 word);
        if len = 0 then Some (s, []) else chain_alloc env s buffer (scast len) })"

text \<open>\<^verbatim>\<open>pos\<close> is an \<^verbatim>\<open>int\<close>.\<close>

fun copy_links :: "memory \<Rightarrow> addr \<Rightarrow> 32 word \<Rightarrow> ngx_chain \<Rightarrow> memory option" where
  "copy_links m d pos [] = Some m"
| "copy_links m d pos ((p, l) # src) = do {
     bs \<leftarrow> load m p (unat (l - p));
     m \<leftarrow> store m (d + scast pos) bs;
     copy_links m d (pos + ucast (l - p)) src }"

definition chain_to_str :: "'m pb_env \<Rightarrow> 'm pstate \<Rightarrow> ngx_chain \<Rightarrow> ('m pstate \<times> ngx_str_t) option" where
  "chain_to_str env s src =
     (let len = chain_len src in
       if sint len \<le> 0 then Some (s, \<lparr>slen = 0, sdata = NULL\<rparr>)
       else do {
         (s, d) \<leftarrow> pcalloc env s (unat (len + 1));
         if d = NULL then Some (s, \<lparr>slen = 0, sdata = NULL\<rparr>)
         else do {
           m \<leftarrow> copy_links (mem s) d 0 src;
           m \<leftarrow> store m (d + len) [0];
           Some (s\<lparr>mem := m\<rparr>, \<lparr>slen = len, sdata = d\<rparr>) } })"

section \<open>Fresh memory\<close>

text \<open>What an allocation returns was not in use, and the memory in use stays as it is.\<close>

definition fresh_block :: "'m pstate \<Rightarrow> nat \<Rightarrow> 'm pstate \<Rightarrow> addr \<Rightarrow> bool" where
  "fresh_block s n s' d \<longleftrightarrow> mem s \<subseteq>\<^sub>m mem s' \<and>
     (d \<noteq> NULL \<longrightarrow> region d n \<subseteq> dom (mem s') \<and> region d n \<inter> dom (mem s) = {} \<and> unat d + n < 2 ^ 64)"

definition pool_fresh :: "'m pb_env \<Rightarrow> bool" where
  "pool_fresh env \<longleftrightarrow> (\<forall>s n. fresh_block s n (fst (e_palloc env s n)) (snd (e_palloc env s n)))"

lemma pool_freshD: "pool_fresh env \<Longrightarrow> e_palloc env s n = (s', d) \<Longrightarrow> fresh_block s n s' d"
  unfolding pool_fresh_def by (metis fst_conv snd_conv)

text \<open>Writing to such a block changes no memory that was in use.\<close>

lemma fresh_store:
  assumes "fresh_block s n s' d" "d \<noteq> NULL" "store (mem s') p bs = Some m" "region p (length bs) \<subseteq> region d n"
  shows "mem s \<subseteq>\<^sub>m m"
proof (unfold map_le_def, intro ballI)
  fix q assume q: "q \<in> dom (mem s)"
  then have "q \<notin> region p (length bs)" using assms(1,2,4) by (auto simp: fresh_block_def)
  then have "m q = mem s' q" by (rule store_frame [OF assms(3)])
  then show "mem s q = m q" using q assms(1) by (auto simp: fresh_block_def map_le_def)
qed

lemma pcalloc_fresh:
  assumes "fresh_block s n (fst (e_palloc env s n)) (snd (e_palloc env s n))"
  shows "\<exists>s' d. pcalloc env s n = Some (s', d) \<and> fresh_block s n s' d"
proof -
  obtain s1 d where e: "e_palloc env s n = (s1, d)" by fastforce
  have f: "fresh_block s n s1 d" using assms by (simp add: e)
  show ?thesis
  proof (cases "d = NULL")
    case True
    then show ?thesis using f by (simp add: pcalloc_def e)
  next
    case False
    then obtain m where m: "store (mem s1) d (replicate n 0) = Some m"
      using store_total [of d "replicate n 0" "mem s1"] f by (auto simp: fresh_block_def)
    have "mem s \<subseteq>\<^sub>m m" by (rule fresh_store [OF f False m]) simp
    then show ?thesis using False m f store_dom [OF m] by (simp add: pcalloc_def e fresh_block_def)
  qed
qed

section \<open>The bytes of a chain\<close>

fun chain_bytes :: "memory \<Rightarrow> ngx_chain \<Rightarrow> byte list option" where
  "chain_bytes m [] = Some []"
| "chain_bytes m ((p, l) # c) = do { xs \<leftarrow> load m p (unat (l - p)); ys \<leftarrow> chain_bytes m c; Some (xs @ ys) }"

lemma chain_bytes_mono: "chain_bytes m c = Some bs \<Longrightarrow> m \<subseteq>\<^sub>m m' \<Longrightarrow> chain_bytes m' c = Some bs"
  by (induction m c arbitrary: bs rule: chain_bytes.induct) (auto dest: load_mono)

lemma chain_len_bytes: "chain_bytes m c = Some bs \<Longrightarrow> chain_len c = of_nat (length bs)"
proof -
  assume a: "chain_bytes m c = Some bs"
  have "foldl (\<lambda>len (pos, last). len + (last - pos)) n c = n + of_nat (length bs)" for n using a
  proof (induction m c arbitrary: n bs rule: chain_bytes.induct)
    case (2 m p l c)
    then obtain xs ys where "load m p (unat (l - p)) = Some xs" "chain_bytes m c = Some ys" "bs = xs @ ys" by auto
    then show ?case using 2(1) [of xs ys] load_length [of m p "unat (l - p)" xs] by simp
  qed simp
  then show ?thesis by (simp add: chain_len_def)
qed

lemma copy_links_store:
  assumes "chain_bytes m0 src = Some bs" "m0 \<subseteq>\<^sub>m m" "region (d + of_nat k) (length bs) \<inter> dom m0 = {}"
    "region (d + of_nat k) (length bs) \<subseteq> dom m" "k + length bs < 2 ^ 31"
  shows "copy_links m d (of_nat k) src = store m (d + of_nat k) bs"
  using assms
proof (induction m0 src arbitrary: m k bs rule: chain_bytes.induct)
  case (2 m0 p l c)
  then obtain xs ys where xs: "load m0 p (unat (l - p)) = Some xs" "chain_bytes m0 c = Some ys" "bs = xs @ ys" by auto
  have w: "l - p = of_nat (length xs)" using load_length [OF xs(1)] by simp
  have n: "length xs = unat (l - p)" "ucast (l - p) = (of_nat (length xs) :: 32 word)"
    using load_length [OF xs(1)] ucast_of_nat_32 [of "length xs"] unfolding w by simp_all
  have r: "region (d + of_nat k) (length xs) \<subseteq> dom m" "region (d + of_nat k + of_nat (length xs)) (length ys) \<subseteq> dom m"
    "region (d + of_nat k) (length xs) \<inter> dom m0 = {}" "region (d + of_nat k + of_nat (length xs)) (length ys) \<inter> dom m0 = {}"
    using "2.prems"(3,4) by (auto simp: xs(3) region_add)
  obtain m1 where m1: "store m (d + of_nat k) xs = Some m1" using store_total [OF r(1)] by blast
  have sub: "m0 \<subseteq>\<^sub>m m1"
  proof (unfold map_le_def, intro ballI)
    fix q assume q: "q \<in> dom m0"
    then have "m1 q = m q" using r(3) store_frame [OF m1, of q] by auto
    then show "m0 q = m1 q" using q "2.prems"(2) by (auto simp: map_le_def)
  qed
  have sc: "scast (of_nat k :: 32 word) = (of_nat k :: 64 word)"
    using "2.prems"(5) by (simp add: scast_eq signed_of_nat signed_take_bit_int_eq_self)
  have IH: "copy_links m1 d (of_nat (k + length xs)) c = store m1 (d + of_nat (k + length xs)) ys"
    by (rule "2.IH" [OF xs(1,2) sub]) (use r store_dom [OF m1] "2.prems"(5) in \<open>simp_all add: xs(3) add.assoc\<close>)
  show ?case using IH by (simp add: load_mono [OF "2.prems"(2) xs(1)] sc m1 n(2) xs(3) store_append add.assoc)
qed simp

lemma chain_to_str_bytes:
  assumes "fresh_block s (length bs + 1) (fst (e_palloc env s (length bs + 1))) (snd (e_palloc env s (length bs + 1)))" "chain_bytes (mem s) src = Some bs" "length bs < 2 ^ 31"
  shows "\<exists>s' v. chain_to_str env s src = Some (s', v) \<and> mem s \<subseteq>\<^sub>m mem s' \<and>
    (if sdata v = NULL then slen v = 0 \<and> (bs = [] \<or> (\<exists>t. pcalloc env s (length bs + 1) = Some (t, NULL)))
     else str_bytes (mem s') v = Some bs \<and> mem s' (sdata v + slen v) = Some 0 \<and> unat (sdata v) + length bs < 2 ^ 64)"
proof (cases "bs = []")
  case True
  then show ?thesis using chain_len_bytes [OF assms(2)] by (simp add: chain_to_str_def)
next
  case False
  let ?n = "of_nat (length bs) :: 64 word"
  have n: "unat ?n = length bs" "unat (?n + 1) = length bs + 1" "\<not> sint ?n \<le> 0"
  proof -
    show n: "unat ?n = length bs" using assms(3) by (simp add: unat_of_nat take_bit_nat_eq_self)
    have "unat (of_nat (length bs + 1) :: 64 word) = length bs + 1"
      using assms(3) by (simp add: unat_of_nat take_bit_nat_eq_self del: of_nat_add of_nat_Suc)
    then show "unat (?n + 1) = length bs + 1" by (simp add: add.commute)
    show "\<not> sint ?n \<le> 0" using assms(3) False by (simp add: signed_of_nat signed_take_bit_int_eq_self)
  qed
  obtain s1 d where p: "pcalloc env s (length bs + 1) = Some (s1, d)" "fresh_block s (length bs + 1) s1 d"
    using pcalloc_fresh [OF assms(1)] by blast
  have len: "chain_len src = ?n" by (rule chain_len_bytes [OF assms(2)])
  show ?thesis
  proof (cases "d = NULL")
    case True
    then show ?thesis using n p by (simp add: chain_to_str_def len Let_def fresh_block_def)
  next
    case d: False
    have f: "region d (length bs + 1) \<subseteq> dom (mem s1)" "region d (length bs + 1) \<inter> dom (mem s) = {}" "mem s \<subseteq>\<^sub>m mem s1"
      using p(2) d by (simp_all add: fresh_block_def)
    have r: "region d (length bs) \<subseteq> dom (mem s1)" "region (d + ?n) 1 \<subseteq> dom (mem s1)" "region d (length bs) \<inter> dom (mem s) = {}"
      using f(1,2) unfolding region_add by blast+
    obtain m where m: "store (mem s1) d bs = Some m" using store_total [OF r(1)] by blast
    have cp: "copy_links (mem s1) d 0 src = Some m"
      using copy_links_store [OF assms(2) f(3), of d 0] r m assms(3) by simp
    obtain m' where m': "store m (d + ?n) [0] = Some m'"
      using store_total [of "d + ?n" "[0]" m] store_dom [OF m] r(2) by auto
    have "store (mem s1) d (bs @ [0]) = Some m'" by (simp add: store_append m m' del: store.simps)
    then have st: "load m' d (length bs + 1) = Some (bs @ [0])" "mem s \<subseteq>\<^sub>m m'"
      using load_store [of "mem s1" d "bs @ [0]" m'] fresh_store [OF p(2) d] assms(3) by simp_all
    have "load m' d (length bs) = Some bs" using load_split(1) [of m' d bs "[0]"] st(1) by simp
    moreover have "m' (d + ?n) = Some 0" using m' by (auto simp: put_byte_def split: if_splits)
    moreover have "unat d + length bs < 2 ^ 64" using p(2) d by (simp add: fresh_block_def)
    ultimately show ?thesis using d st(2) n p(1) cp m' by (simp add: chain_to_str_def len Let_def str_bytes_def del: store.simps)
  qed
qed

text \<open>
  The three allocations of \<^verbatim>\<open>chain_alloc\<close>, in its order: the link, the buffer and the bytes of the buffer.
  Each is made in the state that the one before leaves.
\<close>

definition copy_fails :: "'m pb_env \<Rightarrow> 'm pstate \<Rightarrow> nat \<Rightarrow> bool" where
  "copy_fails env s n =
     (let (s1, chain) = e_palloc env s 16; (s2, buf) = e_palloc env s1 80; (s3, pos) = e_palloc env s2 n
      in chain = NULL \<or> buf = NULL \<or> pos = NULL)"

lemma pcalloc_null: "pcalloc env s n = Some (s', d) \<Longrightarrow> d = NULL \<longleftrightarrow> snd (e_palloc env s n) = NULL"
  by (auto simp: pcalloc_def bind_eq_Some_conv split: prod.splits if_splits)

lemma chain_alloc_bytes:
  assumes "pool_fresh env" "load (mem s) buffer (length bs) = Some bs" "length bs < 2 ^ 64" "buffer \<noteq> NULL"
  shows "\<exists>s' c. chain_alloc env s buffer (of_nat (length bs)) = Some (s', c) \<and> mem s \<subseteq>\<^sub>m mem s' \<and>
    (if bs = [] \<or> copy_fails env s (length bs) then c = []
     else \<exists>p. c = [(p, p + of_nat (length bs))] \<and> chain_bytes (mem s') c = Some bs)"
proof (cases "bs = []")
  case False
  let ?n = "of_nat (length bs) :: 64 word"
  have n: "unat ?n = length bs" using assms(3) by (simp add: unat_of_nat take_bit_nat_eq_self)
  then have n0: "?n \<noteq> 0" using False by (metis length_0_conv unat_0)
  obtain s1 c where e1: "e_palloc env s 16 = (s1, c)" by fastforce
  obtain s2 b where e2: "e_palloc env s1 80 = (s2, b)" by fastforce
  have m: "mem s \<subseteq>\<^sub>m mem s1" "mem s1 \<subseteq>\<^sub>m mem s2"
    using pool_freshD [OF assms(1) e1] pool_freshD [OF assms(1) e2] by (simp_all add: fresh_block_def)
  obtain s3 d where p: "pcalloc env s2 (length bs) = Some (s3, d)" "fresh_block s2 (length bs) s3 d"
    using pcalloc_fresh [of s2 "length bs" env] assms(1) by (auto simp: pool_fresh_def)
  have m3: "mem s \<subseteq>\<^sub>m mem s2" "mem s2 \<subseteq>\<^sub>m mem s3" using m p(2) by (auto simp: fresh_block_def intro: map_le_trans)
  have fails: "copy_fails env s (length bs) \<longleftrightarrow> c = NULL \<or> b = NULL \<or> d = NULL"
    using pcalloc_null [OF p(1)] by (simp add: copy_fails_def e1 e2 split: prod.splits)
  consider "c = NULL" | "c \<noteq> NULL" "b = NULL" | "c \<noteq> NULL" "b \<noteq> NULL" "d = NULL" | "c \<noteq> NULL" "b \<noteq> NULL" "d \<noteq> NULL" by blast
  then show ?thesis
  proof cases
    case 1
    then show ?thesis using fails e1 m(1) n0 assms(4) by (simp add: chain_alloc_def)
  next
    case 2
    then show ?thesis using fails e1 e2 m3(1) n0 assms(4) by (simp add: chain_alloc_def)
  next
    case 3
    then show ?thesis using fails e1 e2 p(1) n map_le_trans [OF m3] n0 assms(4) by (simp add: chain_alloc_def)
  next
    case 4
    have f: "region d (length bs) \<subseteq> dom (mem s3)" using p(2) 4 by (simp add: fresh_block_def)
    obtain m4 where m4: "store (mem s3) d bs = Some m4" using store_total [OF f] by blast
    have "mem s2 \<subseteq>\<^sub>m m4" by (rule fresh_store [OF p(2) 4(3) m4]) simp
    then have "mem s \<subseteq>\<^sub>m m4" using m3(1) by (blast intro: map_le_trans)
    then show ?thesis using 4 fails False e1 e2 p(1) n n0 assms(4) load_mono [OF map_le_trans [OF m3] assms(2)] m4 load_store [OF m4 assms(3)]
      by (simp add: chain_alloc_def)
  qed
qed (simp add: chain_alloc_def)

lemma strlen_bytes: "load m p (Suc (length bs)) = Some (bs @ [0]) \<Longrightarrow> 0 \<notin> set bs \<Longrightarrow> strlen m p = Some (length bs)"
proof (induction bs arbitrary: p)
  case (Cons b bs)
  have "m p = Some b" "load m (p + 1) (Suc (length bs)) = Some (bs @ [0])"
    using Cons.prems(1) by (auto simp: bind_eq_Some_conv)
  then show ?case using Cons by (subst strlen.simps) simp
qed (subst strlen.simps, simp add: bind_eq_Some_conv)

lemma chain_alloc_r_bytes:
  assumes "pool_fresh env" "load (mem s) buffer (Suc (length bs)) = Some (bs @ [0])" "0 \<notin> set bs" "length bs < 2 ^ 31" "buffer \<noteq> NULL"
  shows "\<exists>s' c. chain_alloc_r env s buffer = Some (s', c) \<and> mem s \<subseteq>\<^sub>m mem s' \<and>
    (if bs = [] \<or> copy_fails env s (length bs) then c = [] else chain_bytes (mem s') c = Some bs)"
proof (cases "bs = []")
  case True
  then show ?thesis using strlen_bytes [OF assms(2,3)] assms(5) by (simp add: chain_alloc_r_def)
next
  case False
  have n: "scast (of_nat (length bs) :: 32 word) = (of_nat (length bs) :: 64 word)" "(of_nat (length bs) :: 32 word) \<noteq> 0" "length bs < 2 ^ 64"
    using assms(4) False by (simp_all add: scast_eq signed_of_nat signed_take_bit_int_eq_self word_of_nat_eq_0_iff nat_dvd_not_less)
  have l: "load (mem s) buffer (length bs) = Some bs" using load_split(1) [of "mem s" buffer bs "[0]"] assms(2) by simp
  obtain s' c where c: "chain_alloc env s buffer (of_nat (length bs)) = Some (s', c)" "mem s \<subseteq>\<^sub>m mem s'"
      "if copy_fails env s (length bs) then c = [] else chain_bytes (mem s') c = Some bs"
    using chain_alloc_bytes [OF assms(1) l n(3) assms(5)] False by (auto split: if_splits)
  then have "chain_alloc_r env s buffer = Some (s', c)"
    using strlen_bytes [OF assms(2,3)] assms(5) n by (simp add: chain_alloc_r_def Let_def)
  then show ?thesis using c(2,3) False by simp
qed

end
