(* ===== verification/Com_Message.thy ===== *)
theory Com_Message
  imports Ngx_Pack Ngx_Unpack
begin

text \<open>
  What the generated message functions of \<^verbatim>\<open>ngx_adx_com_proto.c\<close> have in common: the shapes of code that
  every field of a kind gets in the functions \<^verbatim>\<open>__size\<close>, \<^verbatim>\<open>__pack\<close> and \<^verbatim>\<open>__unpack\<close>, the contents of a
  message as a list of field numbers with their values (\<open>wval\<close>), and its encoding.  The contract
  \<open>message_packs\<close> is what packing promises; the locale \<open>message_reader\<close> is what the cases of an
  \<^verbatim>\<open>__unpack\<close> function promise, and it gives the correctness of the whole function.
\<close>

section \<open>Model: sizes\<close>

text \<open>The messages have no fields with a union of their own, so the union of an unknown field holds no message.\<close>

type_synonym unknowns = "unit ngx_protobuf_unknown_field_t list option"

definition size_number :: "bool \<Rightarrow> 32 word \<Rightarrow> 32 word \<Rightarrow> nat" where
  "size_number has v fnum = (if has then ngx_protobuf_size_uint32_field v fnum else 0)"

definition size_str :: "bool \<Rightarrow> ngx_str_t \<Rightarrow> 32 word \<Rightarrow> nat" where
  "size_str has v fnum = (if has then ngx_protobuf_size_string_field v fnum else 0)"

definition size_member :: "('x \<Rightarrow> nat option) \<Rightarrow> bool \<Rightarrow> 'x option \<Rightarrow> 32 word \<Rightarrow> nat option" where
  "size_member sz has p fnum =
     (case p of None \<Rightarrow> Some 0
      | Some x \<Rightarrow> if has then do { n \<leftarrow> sz x; Some (ngx_protobuf_size_message_field n fnum) } else Some 0)"

fun size_each :: "('x \<Rightarrow> nat option) \<Rightarrow> 'x list \<Rightarrow> 32 word \<Rightarrow> nat option" where
  "size_each sz [] fnum = Some 0"
| "size_each sz (x # xs) fnum = do {
     n \<leftarrow> sz x;
     r \<leftarrow> size_each sz xs fnum;
     Some (ngx_protobuf_size_message_field n fnum + r) }"

definition size_elements :: "('x \<Rightarrow> nat option) \<Rightarrow> bool \<Rightarrow> 'x list option \<Rightarrow> 32 word \<Rightarrow> nat option" where
  "size_elements sz has a fnum =
     (case a of None \<Rightarrow> Some 0 | Some xs \<Rightarrow> if has then size_each sz xs fnum else Some 0)"

fun sum_unknowns :: "unit ngx_protobuf_unknown_field_t list \<Rightarrow> nat option" where
  "sum_unknowns [] = Some 0"
| "sum_unknowns (u # us) = do {
     n \<leftarrow> ngx_protobuf_size_unknown_field u;
     r \<leftarrow> sum_unknowns us;
     Some (n + r) }"

definition size_unknowns :: "unknowns \<Rightarrow> nat option" where
  "size_unknowns us = (case us of None \<Rightarrow> Some 0 | Some us \<Rightarrow> sum_unknowns us)"

section \<open>Model: packing\<close>

definition pack_num :: "bool \<Rightarrow> 32 word \<Rightarrow> 32 word \<Rightarrow> 'm ngx_protobuf_context_t \<Rightarrow> 'm ngx_protobuf_context_t option" where
  "pack_num has v fnum ctx =
     (if has then emit ctx (\<lambda>m p. ngx_protobuf_write_uint32_field m p v fnum) else Some ctx)"

definition pack_str :: "bool \<Rightarrow> ngx_str_t \<Rightarrow> 32 word \<Rightarrow> 'm ngx_protobuf_context_t \<Rightarrow> 'm ngx_protobuf_context_t option" where
  "pack_str has v fnum ctx =
     (if has then emit ctx (\<lambda>m p. ngx_protobuf_write_string_field m p v fnum) else Some ctx)"

text \<open>A message behind its header; the result of its own packing is not looked at.\<close>

type_synonym ('x, 'm) packer = "'x \<Rightarrow> 'm ngx_protobuf_context_t \<Rightarrow> ('m ngx_protobuf_context_t \<times> ngx_int_t) option"

definition pack_headed ::
    "('x \<Rightarrow> nat option) \<Rightarrow> ('x, 'm) packer \<Rightarrow> 'x \<Rightarrow> 32 word \<Rightarrow> 'm ngx_protobuf_context_t \<Rightarrow> 'm ngx_protobuf_context_t option" where
  "pack_headed sz pk x fnum ctx = do {
     n \<leftarrow> sz x;
     ctx \<leftarrow> emit ctx (\<lambda>m p. ngx_protobuf_write_message_header m p n fnum);
     (ctx, _) \<leftarrow> pk x ctx;
     Some ctx }"

definition pack_member ::
    "('x \<Rightarrow> nat option) \<Rightarrow> ('x, 'm) packer \<Rightarrow> bool \<Rightarrow> 'x option \<Rightarrow> 32 word \<Rightarrow> 'm ngx_protobuf_context_t \<Rightarrow>
      'm ngx_protobuf_context_t option" where
  "pack_member sz pk has p fnum ctx =
     (case p of None \<Rightarrow> Some ctx | Some x \<Rightarrow> if has then pack_headed sz pk x fnum ctx else Some ctx)"

fun pack_each ::
    "('x \<Rightarrow> nat option) \<Rightarrow> ('x, 'm) packer \<Rightarrow> 'x list \<Rightarrow> 32 word \<Rightarrow> 'm ngx_protobuf_context_t \<Rightarrow> 'm ngx_protobuf_context_t option" where
  "pack_each sz pk [] fnum ctx = Some ctx"
| "pack_each sz pk (x # xs) fnum ctx = do { ctx \<leftarrow> pack_headed sz pk x fnum ctx; pack_each sz pk xs fnum ctx }"

definition pack_elements ::
    "('x \<Rightarrow> nat option) \<Rightarrow> ('x, 'm) packer \<Rightarrow> bool \<Rightarrow> 'x list option \<Rightarrow> 32 word \<Rightarrow> 'm ngx_protobuf_context_t \<Rightarrow>
      'm ngx_protobuf_context_t option" where
  "pack_elements sz pk has a fnum ctx =
     (case a of None \<Rightarrow> Some ctx | Some xs \<Rightarrow> if has then pack_each sz pk xs fnum ctx else Some ctx)"

fun pack_unknown_list ::
    "unit ngx_protobuf_unknown_field_t list \<Rightarrow> 'm ngx_protobuf_context_t \<Rightarrow> ('m ngx_protobuf_context_t \<times> ngx_int_t) option" where
  "pack_unknown_list [] ctx = Some (ctx, NGX_OK)"
| "pack_unknown_list (u # us) ctx = do {
     (ctx, rc) \<leftarrow> ngx_protobuf_pack_unknown_field u ctx;
     if rc \<noteq> NGX_OK then Some (ctx, rc) else pack_unknown_list us ctx }"

definition pack_unknowns :: "unknowns \<Rightarrow> 'm ngx_protobuf_context_t \<Rightarrow> ('m ngx_protobuf_context_t \<times> ngx_int_t) option" where
  "pack_unknowns us ctx = (case us of None \<Rightarrow> Some (ctx, NGX_OK) | Some us \<Rightarrow> pack_unknown_list us ctx)"

text \<open>
  The bodies of \<^verbatim>\<open>__size\<close> and \<^verbatim>\<open>__pack\<close>: the statements of the fields in the order of the code, then
  the unknown fields; packing starts with the tests on the size.
\<close>

fun size_chain :: "nat option list \<Rightarrow> nat option" where
  "size_chain [] = Some 0"
| "size_chain (n # ns) = do { n \<leftarrow> n; r \<leftarrow> size_chain ns; Some (n + r) }"

definition size_message :: "nat option list \<Rightarrow> unknowns \<Rightarrow> nat option" where
  "size_message ns us = do { n \<leftarrow> size_chain ns; u \<leftarrow> size_unknowns us; Some (n + u) }"

fun pack_chain :: "('m ngx_protobuf_context_t \<Rightarrow> 'm ngx_protobuf_context_t option) list \<Rightarrow> 'm ngx_protobuf_context_t \<Rightarrow> 'm ngx_protobuf_context_t option" where
  "pack_chain [] ctx = Some ctx"
| "pack_chain (f # fs) ctx = do { ctx \<leftarrow> f ctx; pack_chain fs ctx }"

definition pack_message ::
    "nat option \<Rightarrow> ('m ngx_protobuf_context_t \<Rightarrow> 'm ngx_protobuf_context_t option) list \<Rightarrow> unknowns \<Rightarrow> 'm ngx_protobuf_context_t \<Rightarrow>
      ('m ngx_protobuf_context_t \<times> ngx_int_t) option" where
  "pack_message sz steps us ctx = do {
     n \<leftarrow> sz;
     if n = 0 then Some (ctx, NGX_OK)
     else if cpos ctx + of_nat n > clast ctx then Some (ctx, NGX_ABORT)
     else do { ctx \<leftarrow> pack_chain steps ctx; pack_unknowns us ctx } }"

section \<open>Model: unpacking\<close>

type_synonym ('x, 'm) unpacked = "('x \<times> 'm ngx_protobuf_context_t \<times> ngx_int_t) option"

definition unpack_skip :: "'m pb_env \<Rightarrow> 32 word \<Rightarrow> 'x \<Rightarrow> 'm ngx_protobuf_context_t \<Rightarrow> ('x, 'm) unpacked" where
  "unpack_skip env wire obj ctx = do {
     (s, p, rc) \<leftarrow> ngx_protobuf_skip (e_uval32 env) (e_uval64 env) (e_palloc env) (cstate ctx) (cpos ctx) (clast ctx) wire;
     Some (obj, ctx\<lparr>cstate := s, cpos := p\<rparr>, if rc \<noteq> NGX_OK then NGX_ABORT else NGX_OK) }"

text \<open>The cases of the fields: \<open>upd\<close> writes the member and \<open>has\<close> sets its flag.\<close>

definition unpack_num ::
    "'m pb_env \<Rightarrow> 32 word \<Rightarrow> ('x \<Rightarrow> 32 word) \<Rightarrow> (32 word \<Rightarrow> 'x \<Rightarrow> 'x) \<Rightarrow> ('x \<Rightarrow> 'x) \<Rightarrow> 'x \<Rightarrow> 'm ngx_protobuf_context_t \<Rightarrow> ('x, 'm) unpacked" where
  "unpack_num env wire get upd has obj ctx =
     (if wire = WIRE_VARINT then do {
        (p, v, rc) \<leftarrow> ngx_protobuf_read_uint32 (mem (cstate ctx)) (cpos ctx) (clast ctx) (get obj);
        if rc \<noteq> NGX_OK then Some (upd v obj, ctx\<lparr>cpos := p\<rparr>, NGX_ABORT)
        else Some (has (upd v obj), ctx\<lparr>cpos := p\<rparr>, NGX_OK) }
      else unpack_skip env wire obj ctx)"

definition unpack_str ::
    "'m pb_env \<Rightarrow> 32 word \<Rightarrow> ('x \<Rightarrow> ngx_str_t) \<Rightarrow> (ngx_str_t \<Rightarrow> 'x \<Rightarrow> 'x) \<Rightarrow> ('x \<Rightarrow> 'x) \<Rightarrow> 'x \<Rightarrow> 'm ngx_protobuf_context_t \<Rightarrow> ('x, 'm) unpacked" where
  "unpack_str env wire get upd has obj ctx =
     (if wire = WIRE_LENGTH_DELIMITED then do {
        (s, p, v, rc) \<leftarrow> ngx_protobuf_read_string (e_palloc env) (cstate ctx) (cpos ctx) (clast ctx) (get obj)
          (\<not> reuse_strings ctx \<and> has_pool ctx);
        if rc \<noteq> NGX_OK then Some (upd v obj, ctx\<lparr>cstate := s, cpos := p\<rparr>, NGX_ABORT)
        else Some (has (upd v obj), ctx\<lparr>cstate := s, cpos := p\<rparr>, NGX_OK) }
      else unpack_skip env wire obj ctx)"

text \<open>
  The functions \<^verbatim>\<open>__unpack_<member>\<close>, for a pointer to a message and for an array of messages.  \<open>zero\<close>
  is a message whose memory was cleared, \<open>sz\<close> the number of its bytes.
\<close>

definition unpack_member ::
    "'m pb_env \<Rightarrow> nat \<Rightarrow> 'y \<Rightarrow> ('y \<Rightarrow> 'm ngx_protobuf_context_t \<Rightarrow> ('y, 'm) unpacked) \<Rightarrow>
      ('x \<Rightarrow> 'y option) \<Rightarrow> ('y option \<Rightarrow> 'x \<Rightarrow> 'x) \<Rightarrow> ('x \<Rightarrow> 'x) \<Rightarrow> 'x \<Rightarrow> 'm ngx_protobuf_context_t \<Rightarrow> 64 word \<Rightarrow> ('x, 'm) unpacked" where
  "unpack_member env sz zero unp get upd has obj ctx len =
     (if len = 0 then Some (obj, ctx, NGX_OK)
      else if cpos ctx + len > clast ctx then Some (obj, ctx, NGX_ABORT)
      else
        let (s, ok) = (if get obj \<noteq> None then (cstate ctx, True)
            else if has_pool ctx then let (s, d) = e_palloc env (cstate ctx) sz in (s, d \<noteq> NULL)
            else (cstate ctx, False)) in
          if \<not> ok then Some (obj, ctx\<lparr>cstate := s\<rparr>, NGX_ERROR)
          else do {
            (y, ctx', rc) \<leftarrow> unp zero (ctx\<lparr>cstate := s, clast := cpos ctx + len\<rparr>);
            let obj = upd (Some y) obj;
            Some (if rc = NGX_OK then has obj else obj, ctx'\<lparr>clast := clast ctx\<rparr>, rc) })"

definition add_element ::
    "'m pb_env \<Rightarrow> nat \<Rightarrow> 'y \<Rightarrow> ('x \<Rightarrow> 'y list option) \<Rightarrow> ('y list option \<Rightarrow> 'x \<Rightarrow> 'x) \<Rightarrow> ('x \<Rightarrow> 'x) \<Rightarrow> 'x \<Rightarrow> 'm pstate \<Rightarrow> bool \<Rightarrow>
      'm pstate \<times> 'x \<times> bool" where
  "add_element env sz zero get upd has obj s pool =
     (let (s, a, ok) = ngx_protobuf_push_array env s (get obj) pool sz zero; obj = upd a obj in
       (s, if ok then has obj else obj, ok))"

definition unpack_element ::
    "('x \<Rightarrow> 'm pstate \<Rightarrow> bool \<Rightarrow> 'm pstate \<times> 'x \<times> bool) \<Rightarrow> 'y \<Rightarrow> ('y \<Rightarrow> 'm ngx_protobuf_context_t \<Rightarrow> ('y, 'm) unpacked) \<Rightarrow>
      ('x \<Rightarrow> 'y list option) \<Rightarrow> ('y list option \<Rightarrow> 'x \<Rightarrow> 'x) \<Rightarrow> ('x \<Rightarrow> 'x) \<Rightarrow> 'x \<Rightarrow> 'm ngx_protobuf_context_t \<Rightarrow> 64 word \<Rightarrow> ('x, 'm) unpacked" where
  "unpack_element add zero unp get upd has obj ctx len =
     (if len = 0 then Some (obj, ctx, NGX_OK)
      else if cpos ctx + len > clast ctx then Some (obj, ctx, NGX_ABORT)
      else
        let (s, obj, ok) = add obj (cstate ctx) (has_pool ctx) in
          if \<not> ok then Some (obj, ctx\<lparr>cstate := s\<rparr>, NGX_ERROR)
          else do {
            (y, ctx', rc) \<leftarrow> unp zero (ctx\<lparr>cstate := s, clast := cpos ctx + len\<rparr>);
            xs \<leftarrow> get obj;
            let obj = upd (Some (butlast xs @ [y])) obj;
            Some (if rc = NGX_OK then has obj else obj, ctx'\<lparr>clast := clast ctx\<rparr>, rc) })"

text \<open>The case of a field that is a message: the length, then one of the functions above.\<close>

definition unpack_sub ::
    "'m pb_env \<Rightarrow> 32 word \<Rightarrow> ('x \<Rightarrow> 'm ngx_protobuf_context_t \<Rightarrow> 64 word \<Rightarrow> ('x, 'm) unpacked) \<Rightarrow> 'x \<Rightarrow> 'm ngx_protobuf_context_t \<Rightarrow>
      ('x, 'm) unpacked" where
  "unpack_sub env wire unp obj ctx =
     (if wire = WIRE_LENGTH_DELIMITED then do {
        (p, mlen, rc) \<leftarrow> ngx_protobuf_read_uint32 (mem (cstate ctx)) (cpos ctx) (clast ctx) 0;
        if rc \<noteq> NGX_OK then Some (obj, ctx\<lparr>cpos := p\<rparr>, NGX_ABORT)
        else unp obj (ctx\<lparr>cpos := p\<rparr>) (ucast mlen) }
      else unpack_skip env wire obj ctx)"

definition unpack_unknown ::
    "'m pb_env \<Rightarrow> 32 word \<Rightarrow> 32 word \<Rightarrow> ('x \<Rightarrow> unknowns) \<Rightarrow> (unknowns \<Rightarrow> 'x \<Rightarrow> 'x) \<Rightarrow> 'x \<Rightarrow> 'm ngx_protobuf_context_t \<Rightarrow> ('x, 'm) unpacked" where
  "unpack_unknown env field wire get upd obj ctx = do {
     (ctx, us, rc) \<leftarrow> ngx_protobuf_unpack_unknown_field env field wire ctx (get obj);
     Some (upd us obj, ctx, rc) }"

text \<open>
  The loop of every \<^verbatim>\<open>__unpack\<close> over the fields up to \<open>end'\<close>, with the switch as \<open>step field wire\<close>.
  \<open>None\<close> is also a loop that does not end: a length that wraps around moves the position back.
\<close>

partial_function (option) unpack_loop ::
    "(32 word \<Rightarrow> 32 word \<Rightarrow> 'x \<Rightarrow> 'm ngx_protobuf_context_t \<Rightarrow> ('x, 'm) unpacked) \<Rightarrow> addr \<Rightarrow> 'x \<Rightarrow> 'm ngx_protobuf_context_t \<Rightarrow> ('x, 'm) unpacked" where
  "unpack_loop step end' obj ctx =
     (if cpos ctx < end' then do {
        (p, header, rc) \<leftarrow> ngx_protobuf_read_uint32 (mem (cstate ctx)) (cpos ctx) end' 0;
        let ctx = ctx\<lparr>cpos := p\<rparr>;
        if rc \<noteq> NGX_OK then Some (obj, ctx, NGX_ABORT)
        else if p \<ge> end' then Some (obj, ctx, NGX_ABORT)
        else do {
          (obj, ctx, rc) \<leftarrow> step (drop_bit 3 header) (header AND 7) obj ctx;
          if rc \<noteq> NGX_OK then Some (obj, ctx, rc) else unpack_loop step end' obj ctx } }
      else Some (obj, ctx, NGX_OK))"

section \<open>Contents and encoding\<close>

text \<open>
  The value of a field: a number of 32 or 64 bits, the bytes of a string, the numbers of a packed
  array, or the fields of a message with their values.
\<close>

datatype wval = WNum "32 word" | WLong "64 word" | WStr "byte list" | WPack "32 word list" | WMsg "(32 word \<times> wval list) list"

fun enc_body :: "wval \<Rightarrow> byte list" where
  "enc_body (WNum v) = varint v"
| "enc_body (WLong v) = varint v"
| "enc_body (WStr bs) = enc_string bs"
| "enc_body (WPack vs) = enc_string (concat (map varint vs))"
| "enc_body (WMsg fs) = enc_string (concat (map (\<lambda>(n, vs).
     concat (map (\<lambda>v. header n (case v of WNum _ \<Rightarrow> WIRE_VARINT | WLong _ \<Rightarrow> WIRE_VARINT | _ \<Rightarrow> WIRE_LENGTH_DELIMITED) @ enc_body v) vs)) fs))"

definition wire_type_of :: "wval \<Rightarrow> 32 word" where
  "wire_type_of v = (case v of WNum _ \<Rightarrow> WIRE_VARINT | WLong _ \<Rightarrow> WIRE_VARINT | _ \<Rightarrow> WIRE_LENGTH_DELIMITED)"

definition enc_val :: "32 word \<Rightarrow> wval \<Rightarrow> byte list" where
  "enc_val n v = header n (wire_type_of v) @ enc_body v"

definition enc_vals :: "32 word \<Rightarrow> wval list \<Rightarrow> byte list" where
  "enc_vals n vs = concat (map (enc_val n) vs)"

definition enc_fields :: "(32 word \<times> wval list) list \<Rightarrow> byte list" where
  "enc_fields fs = concat (map (\<lambda>(n, vs). enc_vals n vs) fs)"

lemma enc_body_msg [simp]: "enc_body (WMsg fs) = enc_string (enc_fields fs)"
  by (simp add: enc_fields_def enc_vals_def [abs_def] enc_val_def [abs_def] wire_type_of_def [abs_def])

declare enc_body.simps(5) [simp del]

lemma enc_vals_simps [simp]: "enc_vals n [] = []" "enc_vals n (v # vs) = enc_val n v @ enc_vals n vs"
  "enc_vals n (vs @ ws) = enc_vals n vs @ enc_vals n ws"
  by (simp_all add: enc_vals_def)

lemma enc_fields_simps [simp]: "enc_fields [] = []" "enc_fields ((n, vs) # fs) = enc_vals n vs @ enc_fields fs"
  by (simp_all add: enc_fields_def)

text \<open>The contents of the parts of a message.  A pointer whose flag is not set counts as no message.\<close>

definition num_slot :: "bool \<Rightarrow> 32 word \<Rightarrow> wval list option" where
  "num_slot has v = Some (if has then [WNum v] else [])"

definition str_slot :: "memory \<Rightarrow> bool \<Rightarrow> ngx_str_t \<Rightarrow> wval list option" where
  "str_slot m has s = (if has then map_option (\<lambda>bs. [WStr bs]) (str_bytes m s) else Some [])"

definition member_slot :: "('x \<Rightarrow> (32 word \<times> wval list) list option) \<Rightarrow> bool \<Rightarrow> 'x option \<Rightarrow> wval list option" where
  "member_slot c has p = (case p of None \<Rightarrow> Some []
     | Some x \<Rightarrow> if has then map_option (\<lambda>fs. [WMsg fs]) (c x) else Some [])"

definition elements_slot :: "('x \<Rightarrow> (32 word \<times> wval list) list option) \<Rightarrow> bool \<Rightarrow> 'x list option \<Rightarrow> wval list option" where
  "elements_slot c has a = (case a of None \<Rightarrow> Some []
     | Some xs \<Rightarrow> if has then those (map (\<lambda>x. map_option WMsg (c x)) xs) else Some [])"

fun collect :: "(32 word \<times> wval list option) list \<Rightarrow> (32 word \<times> wval list) list option" where
  "collect [] = Some []"
| "collect ((n, s) # ss) = do { vs \<leftarrow> s; fs \<leftarrow> collect ss; Some ((n, vs) # fs) }"

text \<open>There are no unknown fields.\<close>

definition plain :: "unknowns \<Rightarrow> bool" where
  "plain us \<longleftrightarrow> us = None \<or> us = Some []"

definition content_of :: "unknowns \<Rightarrow> (32 word \<times> wval list option) list \<Rightarrow> (32 word \<times> wval list) list option" where
  "content_of us ss = (if plain us then collect ss else None)"

text \<open>The strings that packing reads.\<close>

definition str_refs :: "bool \<Rightarrow> ngx_str_t \<Rightarrow> ngx_str_t list" where
  "str_refs has s = (if has then [s] else [])"

definition member_refs :: "('x \<Rightarrow> ngx_str_t list) \<Rightarrow> bool \<Rightarrow> 'x option \<Rightarrow> ngx_str_t list" where
  "member_refs f has p = (case p of None \<Rightarrow> [] | Some x \<Rightarrow> if has then f x else [])"

definition elements_refs :: "('x \<Rightarrow> ngx_str_t list) \<Rightarrow> bool \<Rightarrow> 'x list option \<Rightarrow> ngx_str_t list" where
  "elements_refs f has a = (case a of None \<Rightarrow> [] | Some xs \<Rightarrow> if has then concat (map f xs) else [])"

definition apart :: "addr set \<Rightarrow> ngx_str_t list \<Rightarrow> bool" where
  "apart R ss \<longleftrightarrow> (\<forall>s \<in> set ss. outside R s)"

lemma apart_simps [simp]: "apart R []" "apart R (xs @ ys) \<longleftrightarrow> apart R xs \<and> apart R ys" "apart R (str_refs has s) \<longleftrightarrow> (has \<longrightarrow> outside R s)"
  "apart R (member_refs f has p) \<longleftrightarrow> (\<forall>x. p = Some x \<longrightarrow> has \<longrightarrow> apart R (f x))"
  "apart R (elements_refs f has a) \<longleftrightarrow> (\<forall>xs. a = Some xs \<longrightarrow> has \<longrightarrow> (\<forall>x \<in> set xs. apart R (f x)))"
  by (auto simp: apart_def str_refs_def member_refs_def elements_refs_def split: option.splits)

section \<open>Packing\<close>

text \<open>A step that writes \<open>bs\<close> wherever there is room in \<open>R\<close>, with the memory elsewhere as in \<open>m0\<close>.\<close>

definition packs :: "memory \<Rightarrow> addr set \<Rightarrow> ('m ngx_protobuf_context_t \<Rightarrow> 'm ngx_protobuf_context_t option) \<Rightarrow> byte list \<Rightarrow> bool" where
  "packs m0 R f bs \<longleftrightarrow> (\<forall>ctx. frame_ok m0 R ctx \<longrightarrow> room R ctx (length bs) \<longrightarrow> f ctx = ngx_writes ctx bs)"

definition message_packs :: "memory \<Rightarrow> addr set \<Rightarrow> ('x \<Rightarrow> nat option) \<Rightarrow> ('x, 'm) packer \<Rightarrow> 'x \<Rightarrow> byte list \<Rightarrow> bool" where
  "message_packs m0 R sz pk x bs \<longleftrightarrow> sz x = Some (length bs) \<and>
     (\<forall>ctx. frame_ok m0 R ctx \<longrightarrow> room R ctx (length bs) \<longrightarrow> pk x ctx = map_option (\<lambda>ctx. (ctx, NGX_OK)) (ngx_writes ctx bs))"

lemma packsD: "packs m0 R f bs \<Longrightarrow> frame_ok m0 R ctx \<Longrightarrow> room R ctx (length bs) \<Longrightarrow> f ctx = ngx_writes ctx bs"
  by (simp add: packs_def)

lemma packs_nothing: "packs m0 R Some []"
  by (simp add: packs_def)

lemma packs_bind:
  assumes "packs m0 R f xs" "\<And>ctx'. frame_ok m0 R ctx' \<Longrightarrow> room R ctx' (length ys) \<Longrightarrow> g ctx' = k (ngx_writes ctx' ys)" "k None = None"
    "frame_ok m0 R ctx" "room R ctx (length xs + length ys)"
  shows "do { ctx \<leftarrow> f ctx; g ctx } = k (ngx_writes ctx (xs @ ys))"
proof -
  have f: "f ctx = ngx_writes ctx xs" by (rule packsD [OF assms(1,4) room_less [OF assms(5)]])
  show ?thesis
  proof (cases "ngx_writes ctx xs")
    case None
    then show ?thesis by (simp add: f writes_append assms(3))
  next
    case (Some ctx')
    then have "g ctx' = k (ngx_writes ctx' ys)"
      using assms(2) writes_frame_room [OF Some assms(4) room_less [OF assms(5)]] room_writes [OF Some assms(5)] by blast
    then show ?thesis by (simp add: f Some writes_append)
  qed
qed

lemma packs_seq: "packs m0 R f xs \<Longrightarrow> packs m0 R g ys \<Longrightarrow> packs m0 R (\<lambda>ctx. do { ctx \<leftarrow> f ctx; g ctx }) (xs @ ys)"
  unfolding packs_def [of _ _ "\<lambda>ctx. f ctx \<bind> g"]
  by (intro allI impI packs_bind [where k = "\<lambda>x. x"]) (simp_all add: packs_def)

lemma packs_headed:
  assumes "message_packs m0 R sz pk x bs"
  shows "packs m0 R (pack_headed sz pk x fnum) (enc_delimited fnum bs)"
  unfolding packs_def
proof (intro allI impI)
  fix ctx :: "'b ngx_protobuf_context_t"
  assume f: "frame_ok m0 R ctx" and r: "room R ctx (length (enc_delimited fnum bs))"
  define h where "h = header fnum WIRE_LENGTH_DELIMITED @ varint (of_nat (length bs) :: 32 word)"
  have e: "enc_delimited fnum bs = h @ bs" by (simp add: enc_delimited_def enc_string_def h_def)
  have "length bs < 2 ^ 64"
    using r unsigned_less [of "clast ctx", where ?'a = nat] by (simp add: e room_def)
  then have h: "packs m0 R (\<lambda>ctx. emit ctx (\<lambda>m p. ngx_protobuf_write_message_header m p (length bs) fnum)) h"
    by (simp add: packs_def h_def emit_message_header)
  have "do { ctx \<leftarrow> emit ctx (\<lambda>m p. ngx_protobuf_write_message_header m p (length bs) fnum);
      (ctx, rc) \<leftarrow> pk x ctx; Some ctx } = ngx_writes ctx (h @ bs)"
  proof (rule packs_bind [where k = "\<lambda>x. x", OF h _ refl f])
    show "do { (ctx, rc) \<leftarrow> pk x ctx'; Some ctx } = ngx_writes ctx' bs" if "frame_ok m0 R ctx'" "room R ctx' (length bs)" for ctx'
      using assms that by (cases "ngx_writes ctx' bs") (simp_all add: message_packs_def)
  qed (use r in \<open>simp add: e\<close>)
  then show "pack_headed sz pk x fnum ctx = ngx_writes ctx (enc_delimited fnum bs)"
    using assms by (simp add: pack_headed_def message_packs_def e)
qed

text \<open>The steps of the fields and their sizes.\<close>

lemma enc_val_simps [simp]:
  "enc_val n (WNum v) = header n WIRE_VARINT @ varint v"
  "enc_val n (WLong w) = header n WIRE_VARINT @ varint w"
  "enc_val n (WStr bs) = enc_delimited n bs"
  "enc_val n (WPack vs) = enc_delimited n (concat (map varint vs))"
  "enc_val n (WMsg fs) = enc_delimited n (enc_fields fs)"
  by (simp_all add: enc_val_def wire_type_of_def enc_delimited_def)

definition slot_packs ::
    "memory \<Rightarrow> addr set \<Rightarrow> nat option \<Rightarrow> ('m ngx_protobuf_context_t \<Rightarrow> 'm ngx_protobuf_context_t option) \<Rightarrow> 32 word \<Rightarrow> wval list \<Rightarrow> bool" where
  "slot_packs m0 R n f fnum vs \<longleftrightarrow> n = Some (length (enc_vals fnum vs)) \<and> packs m0 R f (enc_vals fnum vs)"

lemma num_packs:
  assumes "num_slot has v = Some vs"
  shows "slot_packs m0 R (Some (size_number has v fnum)) (pack_num has v fnum) fnum vs"
  using assms fuint32.size_enc [of v fnum] fuint32.emit_enc [of _ v fnum]
  by (auto simp: slot_packs_def num_slot_def size_number_def packs_def pack_num_def)

lemma str_packs:
  assumes "str_slot m0 has s = Some vs" "has \<Longrightarrow> outside R s"
  shows "slot_packs m0 R (Some (size_str has s fnum)) (pack_str has s fnum) fnum vs"
  using assms(1) size_string_field emit_string_field [OF _ assms(2)]
  by (auto simp: slot_packs_def str_slot_def size_str_def packs_def pack_str_def split: if_splits)

lemma size_headed: "ngx_protobuf_size_message_field (length bs) fnum = length (enc_delimited fnum bs)" if "length bs < 2 ^ 64"
  using that by (rule size_message_field)

lemma member_packs:
  assumes "member_slot c has p = Some vs" "length (enc_vals fnum vs) < 2 ^ 64"
    "\<And>x fs. p = Some x \<Longrightarrow> has \<Longrightarrow> c x = Some fs \<Longrightarrow> length (enc_fields fs) < 2 ^ 64 \<Longrightarrow> message_packs m0 R sz pk x (enc_fields fs)"
  shows "slot_packs m0 R (size_member sz has p fnum) (pack_member sz pk has p fnum) fnum vs"
proof (cases "p = None \<or> \<not> has")
  case True
  then show ?thesis using assms(1)
    by (auto simp: slot_packs_def member_slot_def size_member_def packs_def pack_member_def split: option.splits)
next
  case False
  then obtain x fs where x: "p = Some x" "has" "c x = Some fs" "vs = [WMsg fs]" using assms(1) by (auto simp: member_slot_def)
  have len: "length (enc_fields fs) < 2 ^ 64" using assms(2) enc_delimited_length [of "enc_fields fs" fnum] x(4) by simp
  note mp = assms(3) [OF x(1-3) len]
  show ?thesis using len packs_headed [OF mp, of fnum] mp size_headed [of "enc_fields fs" fnum]
    by (simp add: slot_packs_def x size_member_def message_packs_def packs_def pack_member_def)
qed

lemma elements_packs:
  assumes "elements_slot c has a = Some vs" "length (enc_vals fnum vs) < 2 ^ 64"
    "\<And>xs x fs. a = Some xs \<Longrightarrow> has \<Longrightarrow> x \<in> set xs \<Longrightarrow> c x = Some fs \<Longrightarrow> length (enc_fields fs) < 2 ^ 64 \<Longrightarrow>
      message_packs m0 R sz pk x (enc_fields fs)"
  shows "slot_packs m0 R (size_elements sz has a fnum) (pack_elements sz pk has a fnum) fnum vs"
proof (cases "a = None \<or> \<not> has")
  case True
  then show ?thesis using assms(1)
    by (auto simp: slot_packs_def elements_slot_def size_elements_def packs_def pack_elements_def split: option.splits)
next
  case False
  then obtain xs where x: "a = Some xs" "has" "those (map (\<lambda>x. map_option WMsg (c x)) xs) = Some vs"
    using assms(1) by (auto simp: elements_slot_def)
  have "size_each sz xs fnum = Some (length (enc_vals fnum vs)) \<and> packs m0 R (pack_each sz pk xs fnum) (enc_vals fnum vs)"
    using x(3) assms(3) [OF x(1,2)] assms(2)
  proof (induction xs arbitrary: vs)
    case Nil
    then show ?case by (simp add: packs_def)
  next
    case (Cons y ys)
    then obtain fs ws where v: "c y = Some fs" "vs = WMsg fs # ws" "those (map (\<lambda>x. map_option WMsg (c x)) ys) = Some ws"
      by (auto split: option.splits)
    have len: "length (enc_fields fs) < 2 ^ 64" using Cons.prems(3) enc_delimited_length [of "enc_fields fs" fnum] v(2) by simp
    have mp: "message_packs m0 R sz pk y (enc_fields fs)" using Cons.prems(2) v(1) len by simp
    have IH: "size_each sz ys fnum = Some (length (enc_vals fnum ws)) \<and> packs m0 R (pack_each sz pk ys fnum) (enc_vals fnum ws)"
      by (rule Cons.IH) (use Cons.prems(2,3) v in auto)
    show ?case using len packs_seq [OF packs_headed [OF mp] conjunct2 [OF IH], of fnum] IH mp size_headed [of "enc_fields fs" fnum]
      by (simp add: v(2) message_packs_def)
  qed
  then show ?thesis by (simp add: slot_packs_def x(1,2) size_elements_def pack_elements_def packs_def)
qed

lemma plain_packs:
  assumes "plain us"
  shows "size_unknowns us = Some 0" "pack_unknowns us ctx = Some (ctx, NGX_OK)"
  using assms by (auto simp: plain_def size_unknowns_def pack_unknowns_def)

text \<open>A whole message: its steps one after the other, then the unknown fields, of which there are none.\<close>

lemma chain_packs:
  assumes "list_all2 (\<lambda>(n, f) (k, vs). slot_packs m0 R n f k vs) (zip ns steps) fs" "length ns = length steps"
  shows "size_chain ns = Some (length (enc_fields fs))" "packs m0 R (pack_chain steps) (enc_fields fs)"
proof -
  have "size_chain ns = Some (length (enc_fields fs)) \<and> packs m0 R (pack_chain steps) (enc_fields fs)" using assms(2,1)
  proof (induction ns steps arbitrary: fs rule: list_induct2)
    case Nil
    then show ?case using packs_nothing [of m0 R] by (simp add: packs_def)
  next
    case (Cons n ns g steps)
    then obtain k vs fs' where e: "fs = (k, vs) # fs'" "slot_packs m0 R n g k vs"
      "list_all2 (\<lambda>(n, f) (k, vs). slot_packs m0 R n f k vs) (zip ns steps) fs'" by (auto simp: list_all2_Cons1)
    then have sp: "n = Some (length (enc_vals k vs))" "packs m0 R g (enc_vals k vs)" by (simp_all add: slot_packs_def)
    show ?case using packs_seq [OF sp(2) conjunct2 [OF Cons.IH [OF e(3)]]] conjunct1 [OF Cons.IH [OF e(3)]] sp(1) by (simp add: e(1) packs_def)
  qed
  then show "size_chain ns = Some (length (enc_fields fs))" "packs m0 R (pack_chain steps) (enc_fields fs)" by simp_all
qed

lemma message_packs_chain:
  assumes "sz x = size_message ns us" "\<And>ctx. pk x ctx = pack_message (sz x) steps us ctx" "plain us"
    "list_all2 (\<lambda>(n, f) (k, vs). slot_packs m0 R n f k vs) (zip ns steps) fs" "length ns = length steps"
  shows "message_packs m0 R sz pk x (enc_fields fs)"
  unfolding message_packs_def
proof (intro conjI allI impI)
  note chain = chain_packs [OF assms(4,5)] and unknown = plain_packs [OF assms(3)]
  show n: "sz x = Some (length (enc_fields fs))" by (simp add: assms(1) size_message_def chain(1) unknown(1))
  fix ctx :: "'b ngx_protobuf_context_t"
  assume c: "frame_ok m0 R ctx" "room R ctx (length (enc_fields fs))"
  have r: "unat (cpos ctx) + length (enc_fields fs) \<le> unat (clast ctx)" using c(2) by (simp add: room_def)
  have "\<not> cpos ctx + of_nat (length (enc_fields fs)) > clast ctx" using unat_plus [OF r] r by (simp add: word_less_nat_alt)
  then show "pk x ctx = map_option (\<lambda>ctx. (ctx, NGX_OK)) (ngx_writes ctx (enc_fields fs))"
    using packsD [OF chain(2) c] by (cases "ngx_writes ctx (enc_fields fs)") (auto simp: assms(2) n pack_message_def unknown(2))
qed

lemma length_less: "length (enc_fields fs) < 2 ^ 64 \<Longrightarrow> (n, vs) \<in> set fs \<Longrightarrow> length (enc_vals n vs) < 2 ^ 64"
  by (induction fs) auto

section \<open>Contents in a memory that grows\<close>

lemma str_slot_mono: "str_slot m has s = Some vs \<Longrightarrow> m \<subseteq>\<^sub>m m' \<Longrightarrow> str_slot m' has s = Some vs"
  by (auto simp: str_slot_def str_bytes_def load_mono split: if_splits)

lemma member_slot_mono:
  assumes "member_slot (c m) has p = Some vs" "\<And>x fs. c m x = Some fs \<Longrightarrow> c m' x = Some fs"
  shows "member_slot (c m') has p = Some vs"
  using assms by (auto simp: member_slot_def split: option.splits if_splits)

lemma elements_slot_mono:
  assumes "elements_slot (c m) has a = Some vs" "\<And>x fs. c m x = Some fs \<Longrightarrow> c m' x = Some fs"
  shows "elements_slot (c m') has a = Some vs"
proof -
  have "those (map (\<lambda>x. map_option WMsg (c m' x)) xs) = Some ws" if "those (map (\<lambda>x. map_option WMsg (c m x)) xs) = Some ws" for xs ws
    using that by (induction xs arbitrary: ws) (auto simp: assms(2) split: option.splits)
  then show ?thesis using assms(1) by (auto simp: elements_slot_def split: option.splits if_splits)
qed

section \<open>Unpacking\<close>

text \<open>The values of the fields \<open>nums\<close> among numbered values.\<close>

definition values_of :: "32 word \<Rightarrow> (32 word \<times> wval) list \<Rightarrow> wval list" where
  "values_of n ps = map snd (filter (\<lambda>(k, v). k = n) ps)"

definition grouped :: "32 word list \<Rightarrow> (32 word \<times> wval) list \<Rightarrow> (32 word \<times> wval list) list" where
  "grouped nums ps = map (\<lambda>n. (n, values_of n ps)) nums"

definition flat :: "(32 word \<times> wval list) list \<Rightarrow> (32 word \<times> wval) list" where
  "flat fs = concat (map (\<lambda>(n, vs). map (Pair n) vs) fs)"

definition enc_pairs :: "(32 word \<times> wval) list \<Rightarrow> byte list" where
  "enc_pairs ps = concat (map (\<lambda>(n, v). enc_val n v) ps)"

lemma values_of_simps [simp]: "values_of n [] = []" "values_of n (ps @ qs) = values_of n ps @ values_of n qs"
  "values_of n [(k, v)] = (if k = n then [v] else [])"
  by (simp_all add: values_of_def)

lemma values_of_none: "n \<notin> fst ` set ps \<Longrightarrow> values_of n ps = []"
  by (induction ps) (auto simp: values_of_def)

lemma grouped_Cons [simp]: "grouped [] ps = []" "grouped (n # ns) ps = (n, values_of n ps) # grouped ns ps"
  by (simp_all add: grouped_def)

lemma enc_pairs_simps [simp]: "enc_pairs [] = []" "enc_pairs ((n, v) # ps) = enc_val n v @ enc_pairs ps"
  by (simp_all add: enc_pairs_def)

lemma enc_pairs_flat: "enc_pairs (flat fs) = enc_fields fs"
proof -
  have "concat (map (\<lambda>(n, v). enc_val n v) (map (Pair n) vs)) = enc_vals n vs" for n vs
    by (induction vs) auto
  then show ?thesis by (induction fs) (auto simp: enc_pairs_def flat_def)
qed

lemma values_of_flat: "values_of n (flat fs) = concat (map snd (filter (\<lambda>(k, vs). k = n) fs))"
proof -
  have "values_of n (map (Pair k) vs) = (if k = n then vs else [])" for k vs
    by (induction vs) (auto simp: values_of_def)
  then show ?thesis by (induction fs) (auto simp: flat_def)
qed

lemma grouped_flat:
  assumes "map fst fs = nums" "distinct nums"
  shows "grouped nums (flat fs) = fs"
proof -
  have "values_of n (flat fs) = vs" if "(n, vs) \<in> set fs" for n vs
    using that assms unfolding values_of_flat
  proof (induction fs arbitrary: nums)
    case (Cons f fs)
    have "filter (\<lambda>(k, vs). k = n) fs = []" if "n \<notin> set (map fst fs)" using that by (force simp: filter_empty_conv)
    then show ?case using Cons by (cases f) force
  qed simp
  then have "map (\<lambda>(n, vs). (n, values_of n (flat fs))) fs = fs" by (intro map_idI) auto
  moreover have "map (\<lambda>(n, vs). (n, values_of n (flat fs))) fs = map (\<lambda>n. (n, values_of n (flat fs))) (map fst fs)"
    by (simp add: comp_def split_def)
  ultimately have "map (\<lambda>n. (n, values_of n (flat fs))) (map fst fs) = fs" by simp
  then show ?thesis using assms(1) by (simp add: grouped_def)
qed

text \<open>
  What is read back is said of a context that leaves strings where they are, with a pool that serves.
  Sub-messages must not be empty and lengths must fit the prefix.
\<close>

fun solid :: "wval \<Rightarrow> bool" where
  "solid (WNum v) = True"
| "solid (WLong v) = True"
| "solid (WStr bs) = (length bs < 2 ^ 32)"
| "solid (WPack vs) = (length (concat (map varint vs)) < 2 ^ 32)"
| "solid (WMsg fs) = (enc_fields fs \<noteq> [] \<and> length (enc_fields fs) < 2 ^ 32 \<and> (\<forall>(n, vs) \<in> set fs. \<forall>v \<in> set vs. solid v))"

definition solid_fields :: "(32 word \<times> wval list) list \<Rightarrow> bool" where
  "solid_fields fs \<longleftrightarrow> (\<forall>(n, vs) \<in> set fs. \<forall>v \<in> set vs. solid v)"

definition holds :: "'m ngx_protobuf_context_t \<Rightarrow> byte list \<Rightarrow> bool" where
  "holds ctx bs \<longleftrightarrow> load (mem (cstate ctx)) (cpos ctx) (length bs) = Some bs \<and> unat (cpos ctx) + length bs \<le> unat (clast ctx) \<and>
     reuse_strings ctx \<and> has_pool ctx"

lemma holds_append:
  assumes "holds ctx (xs @ ys)"
  shows "holds ctx xs" "mem (cstate ctx) \<subseteq>\<^sub>m mem s \<Longrightarrow> holds (ctx\<lparr>cstate := s, cpos := cpos ctx + of_nat (length xs)\<rparr>) ys"
    "unat (cpos ctx + of_nat (length xs)) = unat (cpos ctx) + length xs"
proof -
  have l: "load (mem (cstate ctx)) (cpos ctx) (length xs + length ys) = Some (xs @ ys)"
    and e: "unat (cpos ctx) + length xs \<le> unat (clast ctx)" using assms by (simp_all add: holds_def)
  show u: "unat (cpos ctx + of_nat (length xs)) = unat (cpos ctx) + length xs" by (rule unat_plus [OF e])
  show "holds ctx xs" using load_split [OF l] assms by (simp add: holds_def)
  show "holds (ctx\<lparr>cstate := s, cpos := cpos ctx + of_nat (length xs)\<rparr>) ys" if "mem (cstate ctx) \<subseteq>\<^sub>m mem s"
    using load_mono [OF that load_split(2) [OF l]] assms u by (simp add: holds_def)
qed

text \<open>The contract of an \<^verbatim>\<open>__unpack\<close> function, started on a cleared message.\<close>

definition message_reads ::
    "(memory \<Rightarrow> 'x \<Rightarrow> (32 word \<times> wval list) list option) \<Rightarrow> 'x \<Rightarrow> ('x \<Rightarrow> 'm ngx_protobuf_context_t \<Rightarrow> ('x, 'm) unpacked) \<Rightarrow>
      (32 word \<times> wval list) list \<Rightarrow> bool" where
  "message_reads content zero unp fs \<longleftrightarrow> (\<forall>ctx. holds ctx (enc_fields fs) \<longrightarrow>
     unat (cpos ctx) + length (enc_fields fs) = unat (clast ctx) \<longrightarrow>
     (\<exists>y s. unp zero ctx = Some (y, ctx\<lparr>cstate := s, cpos := clast ctx\<rparr>, NGX_OK) \<and> mem (cstate ctx) \<subseteq>\<^sub>m mem s \<and>
       content (mem s) y = Some fs))"

lemma enc_body_not_Nil [simp]: "enc_body v \<noteq> []"
  by (cases v) (simp_all add: enc_string_def)

lemma wire_type_of_less: "wire_type_of v < 8"
  by (cases v) (simp_all add: wire_type_of_def)

text \<open>What a caller gets: packing into a buffer that is large enough, and unpacking what was packed.\<close>

lemma message_writes:
  assumes "length bs < 2 ^ 64 \<Longrightarrow> message_packs (mem (cstate ctx)) (region (cpos ctx) n) sz pk x bs" "n = length bs"
    "region (cpos ctx) n \<subseteq> dom (mem (cstate ctx))" "unat (cpos ctx) + n \<le> unat (clast ctx)"
  shows "sz x = Some n \<and>
    (\<exists>m'. pk x ctx = Some (ctx\<lparr>cstate := (cstate ctx)\<lparr>mem := m'\<rparr>, cpos := cpos ctx + of_nat n\<rparr>, NGX_OK) \<and>
      load m' (cpos ctx) n = Some bs \<and> (\<forall>q. q \<notin> region (cpos ctx) n \<longrightarrow> m' q = mem (cstate ctx) q))"
proof -
  obtain m' where m': "store (mem (cstate ctx)) (cpos ctx) bs = Some m'" using store_total assms(2,3) by blast
  have len: "length bs < 2 ^ 64" using assms(2,4) unsigned_less [of "clast ctx", where ?'a = nat] by simp
  have "frame_ok (mem (cstate ctx)) (region (cpos ctx) n) ctx" "room (region (cpos ctx) n) ctx n"
    using assms(4) by (simp_all add: frame_ok_def room_def)
  then have "sz x = Some n \<and> pk x ctx = map_option (\<lambda>ctx. (ctx, NGX_OK)) (ngx_writes ctx bs)"
    using assms(1) [OF len] assms(2) by (simp add: message_packs_def)
  then show ?thesis using m' load_store [OF m' len] store_frame [OF m'] assms(2)
    by (intro conjI exI [of _ m']) (simp_all add: ngx_writes_def emit_def)
qed

lemma message_round_trip:
  assumes "length (enc_fields fs) < 2 ^ 64 \<Longrightarrow> message_packs (mem (cstate ctx)) (region (cpos ctx) n) sz pk x (enc_fields fs)"
    "n = length (enc_fields fs)" "region (cpos ctx) n \<subseteq> dom (mem (cstate ctx))" "unat (cpos ctx) + n \<le> unat (clast ctx)"
    "message_reads content zero unp fs" "reuse_strings ctx" "has_pool ctx"
  shows "\<exists>ctx' y s. pk x ctx = Some (ctx', NGX_OK) \<and>
    unp zero (ctx'\<lparr>cpos := cpos ctx, clast := cpos ctx'\<rparr>) = Some (y, ctx'\<lparr>cstate := s, clast := cpos ctx'\<rparr>, NGX_OK) \<and>
    content (mem s) y = Some fs"
proof -
  obtain m' where m': "pk x ctx = Some (ctx\<lparr>cstate := (cstate ctx)\<lparr>mem := m'\<rparr>, cpos := cpos ctx + of_nat n\<rparr>, NGX_OK)"
    "load m' (cpos ctx) n = Some (enc_fields fs)" using message_writes [OF assms(1-4)] by blast
  let ?ctx = "ctx\<lparr>cstate := (cstate ctx)\<lparr>mem := m'\<rparr>, cpos := cpos ctx + of_nat n\<rparr>"
  let ?ctx2 = "?ctx\<lparr>cpos := cpos ctx, clast := cpos ?ctx\<rparr>"
  have u: "unat (cpos ctx + of_nat n) = unat (cpos ctx) + n" by (rule unat_plus [OF assms(4)])
  then have "holds ?ctx2 (enc_fields fs)" using m'(2) assms(2,6,7) by (simp add: holds_def)
  then obtain y s where "unp zero ?ctx2 = Some (y, ?ctx2\<lparr>cstate := s, cpos := clast ?ctx2\<rparr>, NGX_OK)" "content (mem s) y = Some fs"
    using assms(5) u assms(2) unfolding message_reads_def by fastforce
  then show ?thesis using m'(1) by (intro exI [of _ ?ctx] exI [of _ y] exI [of _ s]) (cases ctx, simp)
qed

text \<open>The loop of an \<^verbatim>\<open>__unpack\<close> up to the switch.\<close>

lemma header_reads:
  assumes "holds ctx (header n wire @ bs)" "bs \<noteq> []" "n < 2 ^ 29" "wire < 8"
  shows "cpos ctx < clast ctx" "\<not> clast ctx \<le> cpos ctx + of_nat (length (header n wire))"
    "ngx_protobuf_read_uint32 (mem (cstate ctx)) (cpos ctx) (clast ctx) 0 =
      Some (cpos ctx + of_nat (length (header n wire)), NGX_PROTOBUF_HEADER n wire, NGX_OK)"
    "drop_bit 3 (NGX_PROTOBUF_HEADER n wire) = n" "NGX_PROTOBUF_HEADER n wire AND 7 = wire"
proof -
  have "length bs \<noteq> 0" using assms(2) by simp
  moreover have "unat (cpos ctx) + (length (header n wire) + length bs) \<le> unat (clast ctx)" using assms(1) by (simp add: holds_def)
  ultimately show "cpos ctx < clast ctx" "\<not> clast ctx \<le> cpos ctx + of_nat (length (header n wire))"
    using holds_append(3) [OF assms(1)] unfolding word_less_nat_alt word_le_nat_alt by linarith+
  show "ngx_protobuf_read_uint32 (mem (cstate ctx)) (cpos ctx) (clast ctx) 0 =
      Some (cpos ctx + of_nat (length (header n wire)), NGX_PROTOBUF_HEADER n wire, NGX_OK)"
    using holds_append(1) [OF assms(1)] by (simp add: header_def holds_def read_uint32_varint)
qed (use header_fields [OF assms(3,4)] in simp_all)

text \<open>The cases of the fields.\<close>

lemma unpack_num_reads:
  assumes "holds ctx (varint v)"
  shows "unpack_num env WIRE_VARINT get upd has y ctx =
    Some (has (upd v y), ctx\<lparr>cpos := cpos ctx + of_nat (length (varint v))\<rparr>, NGX_OK)"
  using assms read_uint32_varint [of "mem (cstate ctx)" "cpos ctx" v "clast ctx" "get y"]
  by (simp add: unpack_num_def holds_def)

lemma of_nat_ucast_32: "n < 2 ^ 32 \<Longrightarrow> (ucast (of_nat n :: 32 word) :: 64 word) = of_nat n"
  by (simp add: word_unat_eq_iff unsigned_ucast_eq unat_of_nat take_bit_nat_eq_self)

text \<open>A length prefix and what is behind it.\<close>

lemma prefix_reads:
  assumes "holds ctx (enc_string bs)" "length bs < 2 ^ 32"
  shows "holds ctx (varint (of_nat (length bs) :: 32 word))"
    "holds (ctx\<lparr>cpos := cpos ctx + of_nat (length (varint (of_nat (length bs) :: 32 word)))\<rparr>) bs"
    "varint (of_nat (length bs) :: 32 word) = varint (of_nat (length bs) :: 64 word)"
    "unat (cpos ctx + of_nat (length (varint (of_nat (length bs) :: 32 word)))) =
      unat (cpos ctx) + length (varint (of_nat (length bs) :: 32 word))"
proof -
  let ?l = "varint (of_nat (length bs) :: 32 word)"
  have h: "holds ctx (?l @ bs)" using assms(1) by (simp add: enc_string_def)
  show "holds ctx ?l" "holds (ctx\<lparr>cpos := cpos ctx + of_nat (length ?l)\<rparr>) bs" "unat (cpos ctx + of_nat (length ?l)) = unat (cpos ctx) + length ?l"
    using holds_append [OF h] holds_append(2) [OF h, of "cstate ctx"] by simp_all
  show "?l = varint (of_nat (length bs) :: 64 word)"
    using varint_ucast [of "of_nat (length bs) :: 32 word"] of_nat_ucast_32 [OF assms(2)] by simp
qed

lemma string_reads:
  assumes "holds ctx (enc_string bs)" "length bs < 2 ^ 32"
  shows "\<exists>w. (\<forall>v s. mem (cstate ctx) \<subseteq>\<^sub>m mem s \<longrightarrow> ngx_protobuf_read_string (e_palloc env) s (cpos ctx) (clast ctx) v False =
      Some (s, cpos ctx + of_nat (length (enc_string bs)), w, NGX_OK)) \<and> str_bytes (mem (cstate ctx)) w = Some bs"
proof -
  let ?l = "varint (of_nat (length bs) :: 64 word)" and ?n = "of_nat (length bs) :: 64 word"
  note p = prefix_reads [OF assms]
  let ?p = "cpos ctx + of_nat (length ?l)"
  have n: "unat ?n = length bs" using assms(2) by (simp add: unat_of_nat take_bit_nat_eq_self)
  have end': "unat ?p + length bs \<le> unat (clast ctx)" using p(2) by (simp add: holds_def p(3))
  have rd: "ngx_protobuf_read_uint64 (mem s) (cpos ctx) (clast ctx) 0 = Some (?p, ?n, NGX_OK)" if "mem (cstate ctx) \<subseteq>\<^sub>m mem s" for s
    using p(1) load_mono [OF that] by (simp add: holds_def p(3) read_uint64_varint)
  have "length ?l \<noteq> 0" by simp
  then have lt: "\<not> clast ctx \<le> cpos ctx" using p(1) unfolding holds_def p(3) word_le_nat_alt by linarith
  have le: "\<not> clast ctx < ?p + ?n" using unat_plus [OF end'] end' by (simp add: word_less_nat_alt)
  have "load (mem (cstate ctx)) ?p (length bs) = Some bs" using p(2) by (simp add: holds_def p(3))
  then show ?thesis using lt le
    by (intro exI [of _ "\<lparr>slen = ?n, sdata = ?p\<rparr>"])
      (simp add: ngx_protobuf_read_string_def rd str_bytes_def n enc_string_def p(3) add.assoc)
qed

lemma unpack_str_reads:
  assumes "holds ctx (enc_string bs)" "length bs < 2 ^ 32"
  shows "\<exists>w. unpack_str env WIRE_LENGTH_DELIMITED get upd has y ctx =
      Some (has (upd w y), ctx\<lparr>cpos := cpos ctx + of_nat (length (enc_string bs))\<rparr>, NGX_OK) \<and>
    str_bytes (mem (cstate ctx)) w = Some bs"
proof -
  obtain w where "\<forall>v s. mem (cstate ctx) \<subseteq>\<^sub>m mem s \<longrightarrow> ngx_protobuf_read_string (e_palloc env) s (cpos ctx) (clast ctx) v False =
      Some (s, cpos ctx + of_nat (length (enc_string bs)), w, NGX_OK)" "str_bytes (mem (cstate ctx)) w = Some bs"
    using string_reads [OF assms] by blast
  then show ?thesis using assms(1) by (intro exI [of _ w]) (simp add: unpack_str_def holds_def)
qed

lemma sub_context:
  assumes "holds ctx (enc_string bs)" "length bs < 2 ^ 32" "bs \<noteq> []"
  shows "\<exists>p. ngx_protobuf_read_uint32 (mem (cstate ctx)) (cpos ctx) (clast ctx) 0 = Some (p, of_nat (length bs), NGX_OK) \<and>
    p + of_nat (length bs) = cpos ctx + of_nat (length (enc_string bs)) \<and>
    (of_nat (length bs) :: 64 word) \<noteq> 0 \<and> \<not> clast ctx < p + of_nat (length bs) \<and>
    (\<forall>s. mem (cstate ctx) \<subseteq>\<^sub>m mem s \<longrightarrow> holds (ctx\<lparr>cpos := p, cstate := s, clast := p + of_nat (length bs)\<rparr>) bs) \<and>
    unat p + length bs = unat (p + of_nat (length bs))"
proof -
  note p = prefix_reads [OF assms(1,2)]
  let ?p = "cpos ctx + of_nat (length (varint (of_nat (length bs) :: 32 word)))"
  have e: "unat ?p + length bs \<le> unat (clast ctx)" using p(2) by (simp add: holds_def)
  have u: "unat (?p + of_nat (length bs)) = unat ?p + length bs" by (rule unat_plus [OF e])
  have "(of_nat (length bs) :: 64 word) \<noteq> 0"
    using u assms(3) by (metis add.right_neutral add_cancel_left_right length_0_conv)
  moreover have "\<not> clast ctx < ?p + of_nat (length bs)" using u e by (simp add: word_less_nat_alt)
  moreover have "holds (ctx\<lparr>cpos := ?p, cstate := s, clast := ?p + of_nat (length bs)\<rparr>) bs" if "mem (cstate ctx) \<subseteq>\<^sub>m mem s" for s
    using p(2) load_mono [OF that] u by (simp add: holds_def)
  moreover have "ngx_protobuf_read_uint32 (mem (cstate ctx)) (cpos ctx) (clast ctx) 0 = Some (?p, of_nat (length bs), NGX_OK)"
    using p(1) by (simp add: holds_def read_uint32_varint)
  ultimately show ?thesis using u by (intro exI [of _ ?p]) (simp add: enc_string_def add.assoc)
qed

lemma unpack_member_reads:
  assumes "message_reads c zero unp fs" "pool_serves env" "holds ctx (enc_string (enc_fields fs))" "length (enc_fields fs) < 2 ^ 32"
    "enc_fields fs \<noteq> []"
  shows "\<exists>z s. unpack_sub env WIRE_LENGTH_DELIMITED (unpack_member env sz zero unp get upd has) y ctx =
      Some (has (upd (Some z) y), ctx\<lparr>cstate := s, cpos := cpos ctx + of_nat (length (enc_string (enc_fields fs)))\<rparr>, NGX_OK) \<and>
    mem (cstate ctx) \<subseteq>\<^sub>m mem s \<and> c (mem s) z = Some fs"
proof -
  let ?n = "of_nat (length (enc_fields fs)) :: 64 word"
  from sub_context [OF assms(3,4,5)] obtain p where p:
    "ngx_protobuf_read_uint32 (mem (cstate ctx)) (cpos ctx) (clast ctx) 0 = Some (p, of_nat (length (enc_fields fs)), NGX_OK)"
    "p + ?n = cpos ctx + of_nat (length (enc_string (enc_fields fs)))" "?n \<noteq> 0" "\<not> clast ctx < p + ?n"
    "\<And>s. mem (cstate ctx) \<subseteq>\<^sub>m mem s \<Longrightarrow> holds (ctx\<lparr>cpos := p, cstate := s, clast := p + ?n\<rparr>) (enc_fields fs)"
    "unat p + length (enc_fields fs) = unat (p + ?n)" by blast
  define s1 where "s1 = (if get y \<noteq> None then cstate ctx else fst (e_palloc env (cstate ctx) sz))"
  have s1: "mem (cstate ctx) \<subseteq>\<^sub>m mem s1" using assms(2) by (simp add: s1_def pool_serves_def)
  let ?ctx = "ctx\<lparr>cpos := p, cstate := s1, clast := p + ?n\<rparr>"
  obtain z s where z: "unp zero ?ctx = Some (z, ?ctx\<lparr>cstate := s, cpos := clast ?ctx\<rparr>, NGX_OK)" "mem (cstate ?ctx) \<subseteq>\<^sub>m mem s"
    "c (mem s) z = Some fs" using assms(1) [unfolded message_reads_def, rule_format, OF p(5) [OF s1]] p(6) by auto
  have pool: "has_pool ctx" using assms(3) by (simp add: holds_def)
  have "unpack_member env sz zero unp get upd has y (ctx\<lparr>cpos := p\<rparr>) ?n =
      Some (has (upd (Some z) y), ctx\<lparr>cstate := s, cpos := p + ?n\<rparr>, NGX_OK)"
  proof (cases "get y")
    case None
    define d where "d = snd (e_palloc env (cstate ctx) sz)"
    have d: "e_palloc env (cstate ctx) sz = (s1, d)" by (simp add: s1_def d_def None)
    then have "d \<noteq> NULL" by (rule pool_servesD [OF assms(2)])
    with d show ?thesis using z(1) p(3,4) by (simp add: unpack_member_def None pool d)
  next
    case (Some x)
    then show ?thesis using z(1) p(3,4) by (simp add: unpack_member_def s1_def)
  qed
  then have "unpack_sub env WIRE_LENGTH_DELIMITED (unpack_member env sz zero unp get upd has) y ctx =
      Some (has (upd (Some z) y), ctx\<lparr>cstate := s, cpos := p + ?n\<rparr>, NGX_OK)"
    by (simp add: unpack_sub_def p(1) of_nat_ucast_32 [OF assms(4)])
  then show ?thesis using z(2,3) s1 p(2) by (auto intro: map_le_trans)
qed

lemma unpack_element_reads:
  assumes "message_reads c zero unp fs" "pool_serves env" "holds ctx (enc_string (enc_fields fs))" "length (enc_fields fs) < 2 ^ 32"
    "enc_fields fs \<noteq> []" "\<And>a y. get (has (upd a y)) = a"
  shows "\<exists>z s. unpack_sub env WIRE_LENGTH_DELIMITED (unpack_element (add_element env sz zero get upd has) zero unp get upd has) y ctx =
      Some (let xs = (case get y of None \<Rightarrow> [] | Some xs \<Rightarrow> xs) in has (upd (Some (xs @ [z])) (has (upd (Some (xs @ [zero])) y))),
        ctx\<lparr>cstate := s, cpos := cpos ctx + of_nat (length (enc_string (enc_fields fs)))\<rparr>, NGX_OK) \<and>
    mem (cstate ctx) \<subseteq>\<^sub>m mem s \<and> c (mem s) z = Some fs"
proof -
  let ?n = "of_nat (length (enc_fields fs)) :: 64 word" and ?xs = "case get y of None \<Rightarrow> [] | Some xs \<Rightarrow> xs"
  from sub_context [OF assms(3,4,5)] obtain p where p:
    "ngx_protobuf_read_uint32 (mem (cstate ctx)) (cpos ctx) (clast ctx) 0 = Some (p, of_nat (length (enc_fields fs)), NGX_OK)"
    "p + ?n = cpos ctx + of_nat (length (enc_string (enc_fields fs)))" "?n \<noteq> 0" "\<not> clast ctx < p + ?n"
    "\<And>s. mem (cstate ctx) \<subseteq>\<^sub>m mem s \<Longrightarrow> holds (ctx\<lparr>cpos := p, cstate := s, clast := p + ?n\<rparr>) (enc_fields fs)"
    "unat p + length (enc_fields fs) = unat (p + ?n)" by blast
  have pool: "has_pool ctx" using assms(3) by (simp add: holds_def)
  obtain s1 where s1: "ngx_protobuf_push_array env (cstate ctx) (get y) True sz zero = (s1, Some (?xs @ [zero]), True)"
    "mem (cstate ctx) \<subseteq>\<^sub>m mem s1" using push_array_serves [OF assms(2), of "get y" True "cstate ctx" sz zero] by auto
  let ?ctx = "ctx\<lparr>cpos := p, cstate := s1, clast := p + ?n\<rparr>"
  obtain z s where z: "unp zero ?ctx = Some (z, ?ctx\<lparr>cstate := s, cpos := clast ?ctx\<rparr>, NGX_OK)" "mem (cstate ?ctx) \<subseteq>\<^sub>m mem s"
    "c (mem s) z = Some fs" using assms(1) [unfolded message_reads_def, rule_format, OF p(5) [OF s1(2)]] p(6) by auto
  have "unpack_element (add_element env sz zero get upd has) zero unp get upd has y (ctx\<lparr>cpos := p\<rparr>) ?n =
      Some (has (upd (Some (?xs @ [z])) (has (upd (Some (?xs @ [zero])) y))), ctx\<lparr>cstate := s, cpos := p + ?n\<rparr>, NGX_OK)"
    using z(1) p(3,4) by (simp add: unpack_element_def add_element_def pool s1(1) assms(6))
  then have "unpack_sub env WIRE_LENGTH_DELIMITED (unpack_element (add_element env sz zero get upd has) zero unp get upd has) y ctx =
      Some (has (upd (Some (?xs @ [z])) (has (upd (Some (?xs @ [zero])) y))), ctx\<lparr>cstate := s, cpos := p + ?n\<rparr>, NGX_OK)"
    by (simp add: unpack_sub_def p(1) of_nat_ucast_32 [OF assms(4)])
  then show ?thesis using z(2,3) s1(2) p(2) by (simp add: Let_def) (blast intro: map_le_trans)
qed

text \<open>What the step for the value \<open>v\<close> of the field \<open>n\<close> gives, behind the pairs \<open>ps\<close>.\<close>

definition step_result ::
    "(memory \<Rightarrow> 'x \<Rightarrow> (32 word \<times> wval list) list option) \<Rightarrow> 32 word list \<Rightarrow> ('x \<Rightarrow> bool) \<Rightarrow> 'm ngx_protobuf_context_t \<Rightarrow>
      ('x, 'm) unpacked \<Rightarrow> (32 word \<times> wval) list \<Rightarrow> 32 word \<Rightarrow> wval \<Rightarrow> bool" where
  "step_result content nums tidy ctx r ps n v \<longleftrightarrow> (\<exists>y' s.
     r = Some (y', ctx\<lparr>cstate := s, cpos := cpos ctx + of_nat (length (enc_body v))\<rparr>, NGX_OK) \<and>
     mem (cstate ctx) \<subseteq>\<^sub>m mem s \<and> content (mem s) y' = Some (grouped nums (ps @ [(n, v)])) \<and> tidy y')"

text \<open>A step for each kind of field; the last premise of each is what the update does to the contents.\<close>

lemma context_same_state [simp]: "ctx\<lparr>cstate := cstate ctx, cpos := p\<rparr> = ctx\<lparr>cpos := p\<rparr>"
  by (cases ctx) simp

lemma num_step:
  assumes "num_slot h w = Some vs" "v \<in> set vs" "holds ctx (enc_body v)"
    "\<And>u. content (mem (cstate ctx)) (has (upd u y)) = Some (grouped nums (ps @ [(n, WNum u)])) \<and> tidy (has (upd u y))"
  shows "step_result content nums tidy ctx (unpack_num env (wire_type_of v) get upd has y ctx) ps n v"
proof -
  have v: "v = WNum w" using assms(1,2) by (auto simp: num_slot_def split: if_splits)
  then show ?thesis using unpack_num_reads [of ctx w env get upd has y] assms(3,4)
    by (auto simp: step_result_def wire_type_of_def intro!: exI [of _ "cstate ctx"])
qed

lemma str_step:
  assumes "str_slot m h w = Some vs" "v \<in> set vs" "holds ctx (enc_body v)" "solid v"
    "\<And>bs w. str_bytes (mem (cstate ctx)) w = Some bs \<Longrightarrow>
      content (mem (cstate ctx)) (has (upd w y)) = Some (grouped nums (ps @ [(n, WStr bs)])) \<and> tidy (has (upd w y))"
  shows "step_result content nums tidy ctx (unpack_str env (wire_type_of v) get upd has y ctx) ps n v"
proof -
  obtain bs where v: "v = WStr bs" using assms(1,2) by (auto simp: str_slot_def split: if_splits)
  then obtain w where "unpack_str env (wire_type_of v) get upd has y ctx =
      Some (has (upd w y), ctx\<lparr>cpos := cpos ctx + of_nat (length (enc_body v))\<rparr>, NGX_OK)" "str_bytes (mem (cstate ctx)) w = Some bs"
    using unpack_str_reads [of ctx bs env get upd has y] assms(3,4) by (auto simp: wire_type_of_def)
  then show ?thesis using assms(5) [of w bs] unfolding step_result_def v
    by (intro exI [of _ "has (upd w y)"] exI [of _ "cstate ctx"]) simp
qed

lemma member_step:
  assumes "member_slot (c m) h p = Some vs" "v \<in> set vs" "holds ctx (enc_body v)" "solid v" "pool_serves env"
    "\<And>m z fs. c m z = Some fs \<Longrightarrow> solid_fields fs \<Longrightarrow> message_reads c zero unp fs"
    "\<And>m' z fs. mem (cstate ctx) \<subseteq>\<^sub>m m' \<Longrightarrow> c m' z = Some fs \<Longrightarrow>
      content m' (has (upd (Some z) y)) = Some (grouped nums (ps @ [(n, WMsg fs)])) \<and> tidy (has (upd (Some z) y))"
  shows "step_result content nums tidy ctx (unpack_sub env (wire_type_of v) (unpack_member env sz zero unp get upd has) y ctx) ps n v"
proof -
  obtain x fs where v: "v = WMsg fs" "c m x = Some fs"
    using assms(1,2) by (auto simp: member_slot_def split: option.splits if_splits)
  then have "message_reads c zero unp fs" using assms(4,6) by (simp add: solid_fields_def)
  then obtain z s where "unpack_sub env (wire_type_of v) (unpack_member env sz zero unp get upd has) y ctx =
      Some (has (upd (Some z) y), ctx\<lparr>cstate := s, cpos := cpos ctx + of_nat (length (enc_body v))\<rparr>, NGX_OK)"
      "mem (cstate ctx) \<subseteq>\<^sub>m mem s" "c (mem s) z = Some fs"
    using unpack_member_reads [of c zero unp fs env ctx sz get upd has y] assms(3-5) by (auto simp: v wire_type_of_def)
  then show ?thesis using assms(7) [of "mem s" z fs] unfolding step_result_def v(1)
    by (intro exI [of _ "has (upd (Some z) y)"] exI [of _ s]) simp
qed

lemma those_in: "those xs = Some ys \<Longrightarrow> y \<in> set ys \<Longrightarrow> Some y \<in> set xs"
  by (induction xs arbitrary: ys) (auto split: option.splits)

lemma element_step:
  assumes "elements_slot (c m) h a = Some vs" "v \<in> set vs" "holds ctx (enc_body v)" "solid v" "pool_serves env"
    "\<And>m z fs. c m z = Some fs \<Longrightarrow> solid_fields fs \<Longrightarrow> message_reads c zero unp fs"
    "\<And>a y. get (has (upd a y)) = a"
    "\<And>m' z fs. mem (cstate ctx) \<subseteq>\<^sub>m m' \<Longrightarrow> c m' z = Some fs \<Longrightarrow>
      (let xs = (case get y of None \<Rightarrow> [] | Some xs \<Rightarrow> xs); y' = has (upd (Some (xs @ [z])) (has (upd (Some (xs @ [zero])) y))) in
        content m' y' = Some (grouped nums (ps @ [(n, WMsg fs)])) \<and> tidy y')"
  shows "step_result content nums tidy ctx (unpack_sub env (wire_type_of v) (unpack_element (add_element env sz zero get upd has) zero unp get upd has) y ctx) ps n v"
proof -
  obtain fs where v: "v = WMsg fs" "\<exists>x. c m x = Some fs"
    using assms(1,2) that
    by (auto simp: elements_slot_def map_option_eq_Some eq_commute [of "Some v"] dest!: those_in [of _ _ v] split: option.splits if_splits) blast
  then have "message_reads c zero unp fs" using assms(4,6) by (auto simp: solid_fields_def)
  then obtain z s where "unpack_sub env (wire_type_of v) (unpack_element (add_element env sz zero get upd has) zero unp get upd has) y ctx =
      Some (let xs = (case get y of None \<Rightarrow> [] | Some xs \<Rightarrow> xs) in has (upd (Some (xs @ [z])) (has (upd (Some (xs @ [zero])) y))),
        ctx\<lparr>cstate := s, cpos := cpos ctx + of_nat (length (enc_body v))\<rparr>, NGX_OK)"
      "mem (cstate ctx) \<subseteq>\<^sub>m mem s" "c (mem s) z = Some fs"
    using unpack_element_reads [of c zero unp fs env ctx get has upd sz y] assms(3-5,7) by (auto simp: v(1) wire_type_of_def)
  then show ?thesis using assms(8) [of "mem s" z fs] unfolding step_result_def v(1) Let_def by blast
qed

text \<open>The contents after such an update.\<close>

lemma elements_slot_snoc:
  assumes "c z = Some fs"
  shows "elements_slot c True (Some [z]) = Some [WMsg fs]"
    "elements_slot c True (Some xs) = Some vs \<Longrightarrow> elements_slot c True (Some (xs @ [z])) = Some (vs @ [WMsg fs])"
proof -
  have "those (map (\<lambda>x. map_option WMsg (c x)) (xs @ [z])) = Some (ws @ [WMsg fs])" if "those (map (\<lambda>x. map_option WMsg (c x)) xs) = Some ws" for xs ws
    using that by (induction xs arbitrary: ws) (auto simp: assms split: option.splits)
  then show "elements_slot c True (Some xs) = Some vs \<Longrightarrow> elements_slot c True (Some (xs @ [z])) = Some (vs @ [WMsg fs])"
    by (simp add: elements_slot_def)
qed (simp add: elements_slot_def assms)

lemma content_of_eq_Some [simp]: "content_of us ss = Some fs \<longleftrightarrow> plain us \<and> collect ss = Some fs"
  by (simp add: content_of_def)

lemma plain_None [simp]: "plain None"
  by (simp add: plain_def)

lemma empty_slots [simp]: "num_slot False w = Some []" "str_slot m False s = Some []" "member_slot c h None = Some []"
  "elements_slot c h None = Some []"
  by (simp_all add: num_slot_def str_slot_def member_slot_def elements_slot_def)

lemma filled_slots [simp]: "num_slot True w = Some [WNum w]" "str_bytes m s = Some bs \<Longrightarrow> str_slot m True s = Some [WStr bs]"
  "c z = Some fs \<Longrightarrow> member_slot c True (Some z) = Some [WMsg fs]"
  by (simp_all add: num_slot_def str_slot_def member_slot_def)

lemma single_slots:
  "num_slot h w = Some vs \<Longrightarrow> length vs \<le> Suc 0" "str_slot m h s = Some vs \<Longrightarrow> length vs \<le> Suc 0" "member_slot c h p = Some vs \<Longrightarrow> length vs \<le> Suc 0"
  by (auto simp: num_slot_def str_slot_def member_slot_def split: if_splits option.splits)

lemmas content_mono = str_slot_mono member_slot_mono elements_slot_mono

text \<open>
  What the cases of an \<^verbatim>\<open>__unpack\<close> function promise: a value that some message has in the field \<open>n\<close> is
  read behind its header and added to the contents.
\<close>

locale message_reader =
  fixes content :: "memory \<Rightarrow> 'x \<Rightarrow> (32 word \<times> wval list) list option" and zero :: 'x and nums :: "32 word list"
    and rep :: "32 word \<Rightarrow> bool" and env :: "'m pb_env"
    and step :: "32 word \<Rightarrow> 32 word \<Rightarrow> 'x \<Rightarrow> 'm ngx_protobuf_context_t \<Rightarrow> ('x, 'm) unpacked"
    and tidy :: "'x \<Rightarrow> bool"
  assumes content_zero: "content m zero = Some (grouped nums [])" and tidy_zero: "tidy zero"
    and nums_distinct: "distinct nums" and nums_less: "n \<in> set nums \<Longrightarrow> n < 2 ^ 29"
    and content_nums: "content m x = Some fs \<Longrightarrow> map fst fs = nums"
    and content_single: "content m x = Some fs \<Longrightarrow> (n, vs) \<in> set fs \<Longrightarrow> \<not> rep n \<Longrightarrow> length vs \<le> 1"
    and content_mono: "content m x = Some fs \<Longrightarrow> m \<subseteq>\<^sub>m m' \<Longrightarrow> content m' x = Some fs"
    and step_reads: "pool_serves env \<Longrightarrow> content m x = Some fs \<Longrightarrow> (n, vs) \<in> set fs \<Longrightarrow> v \<in> set vs \<Longrightarrow> solid v \<Longrightarrow>
      content (mem (cstate ctx)) y = Some (grouped nums ps) \<Longrightarrow> tidy y \<Longrightarrow> rep n \<or> values_of n ps = [] \<Longrightarrow>
      holds ctx (enc_body v) \<Longrightarrow> step_result content nums tidy ctx (step n (wire_type_of v) y ctx) ps n v"
begin

lemma loop_reads:
  assumes "pool_serves env" "content m x = Some fs" "solid_fields fs"
  shows "flat fs = ps @ qs \<Longrightarrow> content (mem (cstate ctx)) y = Some (grouped nums ps) \<Longrightarrow> tidy y \<Longrightarrow> holds ctx (enc_pairs qs) \<Longrightarrow>
    unat (cpos ctx) + length (enc_pairs qs) = unat (clast ctx) \<Longrightarrow>
    \<exists>y' s. unpack_loop step (clast ctx) y ctx = Some (y', ctx\<lparr>cstate := s, cpos := clast ctx\<rparr>, NGX_OK) \<and>
      mem (cstate ctx) \<subseteq>\<^sub>m mem s \<and> content (mem s) y' = Some fs"
proof (induction qs arbitrary: ps ctx y)
  case Nil
  have "ps = flat fs" using Nil.prems(1) by simp
  then have "content (mem (cstate ctx)) y = Some fs"
    using Nil.prems(2) grouped_flat [OF content_nums [OF assms(2)] nums_distinct] by simp
  moreover have "cpos ctx = clast ctx" using Nil.prems(5) by (simp add: word_unat_eq_iff)
  moreover from this have "ctx\<lparr>cstate := cstate ctx, cpos := clast ctx\<rparr> = ctx" by (cases ctx) simp
  ultimately show ?case by (subst unpack_loop.simps) (auto intro!: exI [of _ "cstate ctx"])
next
  case (Cons q qs)
  obtain n v where q: "q = (n, v)" by fastforce
  let ?h = "header n (wire_type_of v)" and ?b = "enc_body v"
  have fs: "grouped nums (flat fs) = fs" by (rule grouped_flat [OF content_nums [OF assms(2)] nums_distinct])
  have "n \<in> fst ` set (flat fs)" using Cons.prems(1) q by (metis UnI2 fst_conv image_iff in_set_conv_decomp set_append)
  then have n: "n \<in> set nums" using content_nums [OF assms(2)] by (force simp: flat_def)
  have "(n, values_of n (flat fs)) \<in> set (grouped nums (flat fs))" using n by (auto simp: grouped_def)
  then have vs: "(n, values_of n (flat fs)) \<in> set fs" by (simp only: fs)
  have all: "values_of n (flat fs) = values_of n ps @ v # values_of n qs" by (simp add: Cons.prems(1) q values_of_def)
  then have v: "v \<in> set (values_of n (flat fs))" by simp
  then have sol: "solid v" using assms(3) vs by (auto simp: solid_fields_def)
  have empty: "rep n \<or> values_of n ps = []" using content_single [OF assms(2) vs] all by auto
  have H: "holds ctx (?h @ ?b @ enc_pairs qs)" using Cons.prems(4) by (simp add: q enc_val_def)
  define ctx1 where "ctx1 = ctx\<lparr>cpos := cpos ctx + of_nat (length ?h)\<rparr>"
  have c1: "ctx\<lparr>cstate := cstate ctx, cpos := cpos ctx + of_nat (length ?h)\<rparr> = ctx1" by (simp add: ctx1_def)
  have H1: "holds ctx1 (?b @ enc_pairs qs)" using holds_append(2) [OF H, of "cstate ctx"] by (simp only: c1 map_le_refl)
  have y: "content (mem (cstate ctx1)) y = Some (grouped nums ps)" using Cons.prems(2) by (simp add: ctx1_def)
  obtain y' s where st: "step n (wire_type_of v) y ctx1 = Some (y', ctx1\<lparr>cstate := s, cpos := cpos ctx1 + of_nat (length ?b)\<rparr>, NGX_OK)"
    "mem (cstate ctx1) \<subseteq>\<^sub>m mem s" "content (mem s) y' = Some (grouped nums (ps @ [q]))" "tidy y'"
    using step_reads [OF assms(1,2) vs v sol y Cons.prems(3) empty holds_append(1) [OF H1]] q by (auto simp: step_result_def)
  let ?ctx2 = "ctx1\<lparr>cstate := s, cpos := cpos ctx1 + of_nat (length ?b)\<rparr>"
  have u: "unat (cpos ?ctx2) = unat (cpos ctx) + length ?h + length ?b"
    using holds_append(3) [OF H1] holds_append(3) [OF H] by (simp add: ctx1_def)
  have "\<exists>y'' s'. unpack_loop step (clast ?ctx2) y' ?ctx2 = Some (y'', ?ctx2\<lparr>cstate := s', cpos := clast ?ctx2\<rparr>, NGX_OK) \<and>
      mem (cstate ?ctx2) \<subseteq>\<^sub>m mem s' \<and> content (mem s') y'' = Some fs"
    by (rule Cons.IH [of "ps @ [q]"])
      (use Cons.prems(1,5) st(3,4) holds_append(2) [OF H1 st(2)] u q in \<open>simp_all add: ctx1_def enc_val_def\<close>)
  then obtain y'' s' where rest: "unpack_loop step (clast ctx) y' ?ctx2 = Some (y'', ctx\<lparr>cstate := s', cpos := clast ctx\<rparr>, NGX_OK)"
    "mem s \<subseteq>\<^sub>m mem s'" "content (mem s') y'' = Some fs" by (auto simp: ctx1_def)
  have "unpack_loop step (clast ctx) y ctx = unpack_loop step (clast ctx) y' ?ctx2"
    using st(1) header_reads [OF H _ nums_less [OF n] wire_type_of_less]
    by (subst unpack_loop.simps) (simp add: Let_def flip: ctx1_def)
  then show ?case using rest st(2) by (auto simp: ctx1_def intro: map_le_trans)
qed

lemma unpack_reads:
  assumes "pool_serves env" "content m x = Some fs" "solid_fields fs" "\<And>ctx. unp zero ctx = unpack_loop step (clast ctx) zero ctx"
  shows "message_reads content zero unp fs"
  unfolding message_reads_def assms(4)
  using loop_reads [OF assms(1-3), of "[]" "flat fs"] content_zero tidy_zero by (simp add: enc_pairs_flat)

end

end
