(* ===== verification/Com_Slot.thy ===== *)
theory Com_Slot
  imports Com_Message
begin

text \<open>
  The messages \<^verbatim>\<open>ComRequest.AdxSlot\<close> and what it holds (\<^verbatim>\<open>Banner\<close>, \<^verbatim>\<open>Native\<close>, \<^verbatim>\<open>Video\<close>) of
  \<^verbatim>\<open>ngx_adx_com_proto.c\<close>: the records, one definition per function, what packing one writes
  and, by an interpretation of \<open>message_reader\<close>, that unpacking reads it back.
\<close>

section \<open>\<^verbatim>\<open>ComRequest.AdxSlot.Banner\<close>\<close>

record ngx_com_request_adx_slot_banner_t =
  bn_width :: "32 word"
  bn_height :: "32 word"
  bn_unknown :: unknowns
  bn_has_width :: bool
  bn_has_height :: bool

text \<open>Cleared memory.\<close>

definition ngx_com_request_adx_slot_banner_zero :: ngx_com_request_adx_slot_banner_t where
  "ngx_com_request_adx_slot_banner_zero =
    \<lparr>bn_width = 0, bn_height = 0, bn_unknown = None, bn_has_width = False, bn_has_height = False\<rparr>"

text \<open>The switch of \<^verbatim>\<open>__unpack\<close>, then its loop.\<close>

definition ngx_com_request_adx_slot_banner_case :: "'m pb_env \<Rightarrow> 32 word \<Rightarrow> 32 word \<Rightarrow> ngx_com_request_adx_slot_banner_t \<Rightarrow> 'm ngx_protobuf_context_t \<Rightarrow> (ngx_com_request_adx_slot_banner_t, 'm) unpacked" where
  "ngx_com_request_adx_slot_banner_case env field wire obj ctx =
     (if field = 1 then unpack_num env wire bn_width (\<lambda>v obj. obj\<lparr>bn_width := v\<rparr>) (\<lambda>obj. obj\<lparr>bn_has_width := True\<rparr>) obj ctx
     else if field = 2 then unpack_num env wire bn_height (\<lambda>v obj. obj\<lparr>bn_height := v\<rparr>) (\<lambda>obj. obj\<lparr>bn_has_height := True\<rparr>) obj ctx
     else unpack_unknown env field wire bn_unknown (\<lambda>v obj. obj\<lparr>bn_unknown := v\<rparr>) obj ctx)"

definition ngx_com_request_adx_slot_banner__unpack :: "'m pb_env \<Rightarrow> ngx_com_request_adx_slot_banner_t \<Rightarrow> 'm ngx_protobuf_context_t \<Rightarrow> (ngx_com_request_adx_slot_banner_t, 'm) unpacked" where
  "ngx_com_request_adx_slot_banner__unpack env obj ctx = unpack_loop (ngx_com_request_adx_slot_banner_case env) (clast ctx) obj ctx"

definition ngx_com_request_adx_slot_banner__size :: "ngx_com_request_adx_slot_banner_t \<Rightarrow> nat option" where
  "ngx_com_request_adx_slot_banner__size obj = size_message
     [Some (size_number (bn_has_width obj) (bn_width obj) 1),
      Some (size_number (bn_has_height obj) (bn_height obj) 2)]
     (bn_unknown obj)"

definition ngx_com_request_adx_slot_banner__pack :: "(ngx_com_request_adx_slot_banner_t, 'm) packer" where
  "ngx_com_request_adx_slot_banner__pack obj ctx = pack_message (ngx_com_request_adx_slot_banner__size obj)
     [pack_num (bn_has_width obj) (bn_width obj) 1,
      pack_num (bn_has_height obj) (bn_height obj) 2]
     (bn_unknown obj) ctx"

text \<open>The contents, and the strings that packing reads.\<close>

definition banner_content :: "memory \<Rightarrow> ngx_com_request_adx_slot_banner_t \<Rightarrow> (32 word \<times> wval list) list option" where
  "banner_content m obj = content_of (bn_unknown obj)
     [(1, num_slot (bn_has_width obj) (bn_width obj)),
      (2, num_slot (bn_has_height obj) (bn_height obj))]"

definition banner_strings :: "ngx_com_request_adx_slot_banner_t \<Rightarrow> ngx_str_t list" where
  "banner_strings obj = []"

lemma banner_packs:
  assumes "banner_content m0 x = Some fs" "apart R (banner_strings x)" "length (enc_fields fs) < 2 ^ 64"
  shows "message_packs m0 R ngx_com_request_adx_slot_banner__size ngx_com_request_adx_slot_banner__pack x (enc_fields fs)"
  by (rule message_packs_chain [where sz = ngx_com_request_adx_slot_banner__size and pk = ngx_com_request_adx_slot_banner__pack, OF ngx_com_request_adx_slot_banner__size_def ngx_com_request_adx_slot_banner__pack_def])
    (use assms in \<open>auto simp: banner_content_def banner_strings_def intro!: num_packs\<close>)

lemma banner_content_mono:
  assumes "banner_content m x = Some fs" "m \<subseteq>\<^sub>m m'"
  shows "banner_content m' x = Some fs"
  using assms
  by (auto simp: banner_content_def)

lemma banner_step:
  assumes "pool_serves env" "banner_content m x = Some fs" "(n, vs) \<in> set fs" "v \<in> set vs" "solid v"
    "banner_content (mem (cstate ctx)) y = Some (grouped [1, 2] ps)"
    "values_of n ps = []" "holds ctx (enc_body v)"
  shows "step_result banner_content [1, 2] (\<lambda>_. True) ctx (ngx_com_request_adx_slot_banner_case env n (wire_type_of v) y ctx) ps n v"
proof -
  note y = banner_content_mono [OF assms(6), unfolded banner_content_def, simplified, simplified bind_eq_Some_conv, simplified]
  note y0 = y [OF map_le_refl]
  consider "n = 1" "num_slot (bn_has_width x) (bn_width x) = Some vs"
    | "n = 2" "num_slot (bn_has_height x) (bn_height x) = Some vs"
    using assms(2,3) by (auto simp: banner_content_def)
  then show ?thesis
  proof cases
    case 1
    show ?thesis unfolding ngx_com_request_adx_slot_banner_case_def 1(1)
      by (simp, rule num_step [OF 1(2) assms(4) assms(8)])
        (use y0 assms(7) 1(1) in \<open>auto simp: banner_content_def split: option.splits\<close>)
  next
    case 2
    show ?thesis unfolding ngx_com_request_adx_slot_banner_case_def 2(1)
      by (simp, rule num_step [OF 2(2) assms(4) assms(8)])
        (use y0 assms(7) 2(1) in \<open>auto simp: banner_content_def split: option.splits\<close>)
  qed
qed

interpretation banner: message_reader banner_content ngx_com_request_adx_slot_banner_zero "[1, 2]" "(\<lambda>n. False)" env "ngx_com_request_adx_slot_banner_case env" "(\<lambda>_. True)"
  for env :: "'m pb_env"
proof (unfold_locales, goal_cases)
  case 7
  then show ?case by (rule banner_content_mono)
next
  case 8
  show ?case by (rule banner_step) (use 8 in simp_all)
qed (auto simp: banner_content_def ngx_com_request_adx_slot_banner_zero_def intro: single_slots)

lemma banner_reads:
  assumes "pool_serves env" "banner_content m x = Some fs" "solid_fields fs"
  shows "message_reads banner_content ngx_com_request_adx_slot_banner_zero (ngx_com_request_adx_slot_banner__unpack env) fs"
  by (rule banner.unpack_reads [OF assms]) (simp add: ngx_com_request_adx_slot_banner__unpack_def)

section \<open>\<^verbatim>\<open>ComRequest.AdxSlot.Native\<close>\<close>

record ngx_com_request_adx_slot_native_t =
  nv_icon_width :: "32 word"
  nv_icon_height :: "32 word"
  nv_width :: "32 word"
  nv_height :: "32 word"
  nv_unknown :: unknowns
  nv_has_icon_width :: bool
  nv_has_icon_height :: bool
  nv_has_width :: bool
  nv_has_height :: bool

text \<open>Cleared memory.\<close>

definition ngx_com_request_adx_slot_native_zero :: ngx_com_request_adx_slot_native_t where
  "ngx_com_request_adx_slot_native_zero =
    \<lparr>nv_icon_width = 0, nv_icon_height = 0, nv_width = 0, nv_height = 0, nv_unknown = None,
     nv_has_icon_width = False, nv_has_icon_height = False, nv_has_width = False, nv_has_height = False\<rparr>"

text \<open>The switch of \<^verbatim>\<open>__unpack\<close>, then its loop.\<close>

definition ngx_com_request_adx_slot_native_case :: "'m pb_env \<Rightarrow> 32 word \<Rightarrow> 32 word \<Rightarrow> ngx_com_request_adx_slot_native_t \<Rightarrow> 'm ngx_protobuf_context_t \<Rightarrow> (ngx_com_request_adx_slot_native_t, 'm) unpacked" where
  "ngx_com_request_adx_slot_native_case env field wire obj ctx =
     (if field = 1 then unpack_num env wire nv_icon_width (\<lambda>v obj. obj\<lparr>nv_icon_width := v\<rparr>) (\<lambda>obj. obj\<lparr>nv_has_icon_width := True\<rparr>) obj ctx
     else if field = 2 then unpack_num env wire nv_icon_height (\<lambda>v obj. obj\<lparr>nv_icon_height := v\<rparr>) (\<lambda>obj. obj\<lparr>nv_has_icon_height := True\<rparr>) obj ctx
     else if field = 3 then unpack_num env wire nv_width (\<lambda>v obj. obj\<lparr>nv_width := v\<rparr>) (\<lambda>obj. obj\<lparr>nv_has_width := True\<rparr>) obj ctx
     else if field = 4 then unpack_num env wire nv_height (\<lambda>v obj. obj\<lparr>nv_height := v\<rparr>) (\<lambda>obj. obj\<lparr>nv_has_height := True\<rparr>) obj ctx
     else unpack_unknown env field wire nv_unknown (\<lambda>v obj. obj\<lparr>nv_unknown := v\<rparr>) obj ctx)"

definition ngx_com_request_adx_slot_native__unpack :: "'m pb_env \<Rightarrow> ngx_com_request_adx_slot_native_t \<Rightarrow> 'm ngx_protobuf_context_t \<Rightarrow> (ngx_com_request_adx_slot_native_t, 'm) unpacked" where
  "ngx_com_request_adx_slot_native__unpack env obj ctx = unpack_loop (ngx_com_request_adx_slot_native_case env) (clast ctx) obj ctx"

definition ngx_com_request_adx_slot_native__size :: "ngx_com_request_adx_slot_native_t \<Rightarrow> nat option" where
  "ngx_com_request_adx_slot_native__size obj = size_message
     [Some (size_number (nv_has_icon_width obj) (nv_icon_width obj) 1),
      Some (size_number (nv_has_icon_height obj) (nv_icon_height obj) 2),
      Some (size_number (nv_has_width obj) (nv_width obj) 3),
      Some (size_number (nv_has_height obj) (nv_height obj) 4)]
     (nv_unknown obj)"

definition ngx_com_request_adx_slot_native__pack :: "(ngx_com_request_adx_slot_native_t, 'm) packer" where
  "ngx_com_request_adx_slot_native__pack obj ctx = pack_message (ngx_com_request_adx_slot_native__size obj)
     [pack_num (nv_has_icon_width obj) (nv_icon_width obj) 1,
      pack_num (nv_has_icon_height obj) (nv_icon_height obj) 2,
      pack_num (nv_has_width obj) (nv_width obj) 3,
      pack_num (nv_has_height obj) (nv_height obj) 4]
     (nv_unknown obj) ctx"

text \<open>The contents, and the strings that packing reads.\<close>

definition native_content :: "memory \<Rightarrow> ngx_com_request_adx_slot_native_t \<Rightarrow> (32 word \<times> wval list) list option" where
  "native_content m obj = content_of (nv_unknown obj)
     [(1, num_slot (nv_has_icon_width obj) (nv_icon_width obj)),
      (2, num_slot (nv_has_icon_height obj) (nv_icon_height obj)),
      (3, num_slot (nv_has_width obj) (nv_width obj)),
      (4, num_slot (nv_has_height obj) (nv_height obj))]"

definition native_strings :: "ngx_com_request_adx_slot_native_t \<Rightarrow> ngx_str_t list" where
  "native_strings obj = []"

lemma native_packs:
  assumes "native_content m0 x = Some fs" "apart R (native_strings x)" "length (enc_fields fs) < 2 ^ 64"
  shows "message_packs m0 R ngx_com_request_adx_slot_native__size ngx_com_request_adx_slot_native__pack x (enc_fields fs)"
  by (rule message_packs_chain [where sz = ngx_com_request_adx_slot_native__size and pk = ngx_com_request_adx_slot_native__pack, OF ngx_com_request_adx_slot_native__size_def ngx_com_request_adx_slot_native__pack_def])
    (use assms in \<open>auto simp: native_content_def native_strings_def intro!: num_packs\<close>)

lemma native_content_mono:
  assumes "native_content m x = Some fs" "m \<subseteq>\<^sub>m m'"
  shows "native_content m' x = Some fs"
  using assms
  by (auto simp: native_content_def)

lemma native_step:
  assumes "pool_serves env" "native_content m x = Some fs" "(n, vs) \<in> set fs" "v \<in> set vs" "solid v"
    "native_content (mem (cstate ctx)) y = Some (grouped [1, 2, 3, 4] ps)"
    "values_of n ps = []" "holds ctx (enc_body v)"
  shows "step_result native_content [1, 2, 3, 4] (\<lambda>_. True) ctx (ngx_com_request_adx_slot_native_case env n (wire_type_of v) y ctx) ps n v"
proof -
  note y = native_content_mono [OF assms(6), unfolded native_content_def, simplified, simplified bind_eq_Some_conv, simplified]
  note y0 = y [OF map_le_refl]
  consider "n = 1" "num_slot (nv_has_icon_width x) (nv_icon_width x) = Some vs"
    | "n = 2" "num_slot (nv_has_icon_height x) (nv_icon_height x) = Some vs"
    | "n = 3" "num_slot (nv_has_width x) (nv_width x) = Some vs"
    | "n = 4" "num_slot (nv_has_height x) (nv_height x) = Some vs"
    using assms(2,3) by (auto simp: native_content_def)
  then show ?thesis
  proof cases
    case 1
    show ?thesis unfolding ngx_com_request_adx_slot_native_case_def 1(1)
      by (simp, rule num_step [OF 1(2) assms(4) assms(8)])
        (use y0 assms(7) 1(1) in \<open>auto simp: native_content_def split: option.splits\<close>)
  next
    case 2
    show ?thesis unfolding ngx_com_request_adx_slot_native_case_def 2(1)
      by (simp, rule num_step [OF 2(2) assms(4) assms(8)])
        (use y0 assms(7) 2(1) in \<open>auto simp: native_content_def split: option.splits\<close>)
  next
    case 3
    show ?thesis unfolding ngx_com_request_adx_slot_native_case_def 3(1)
      by (simp, rule num_step [OF 3(2) assms(4) assms(8)])
        (use y0 assms(7) 3(1) in \<open>auto simp: native_content_def split: option.splits\<close>)
  next
    case 4
    show ?thesis unfolding ngx_com_request_adx_slot_native_case_def 4(1)
      by (simp, rule num_step [OF 4(2) assms(4) assms(8)])
        (use y0 assms(7) 4(1) in \<open>auto simp: native_content_def split: option.splits\<close>)
  qed
qed

interpretation native: message_reader native_content ngx_com_request_adx_slot_native_zero "[1, 2, 3, 4]" "(\<lambda>n. False)" env "ngx_com_request_adx_slot_native_case env" "(\<lambda>_. True)"
  for env :: "'m pb_env"
proof (unfold_locales, goal_cases)
  case 7
  then show ?case by (rule native_content_mono)
next
  case 8
  show ?case by (rule native_step) (use 8 in simp_all)
qed (auto simp: native_content_def ngx_com_request_adx_slot_native_zero_def intro: single_slots)

lemma native_reads:
  assumes "pool_serves env" "native_content m x = Some fs" "solid_fields fs"
  shows "message_reads native_content ngx_com_request_adx_slot_native_zero (ngx_com_request_adx_slot_native__unpack env) fs"
  by (rule native.unpack_reads [OF assms]) (simp add: ngx_com_request_adx_slot_native__unpack_def)

section \<open>\<^verbatim>\<open>ComRequest.AdxSlot.Video\<close>\<close>

record ngx_com_request_adx_slot_video_t =
  vd_width :: "32 word"
  vd_height :: "32 word"
  vd_min_duration :: "32 word"
  vd_max_duration :: "32 word"
  vd_unknown :: unknowns
  vd_has_width :: bool
  vd_has_height :: bool
  vd_has_min_duration :: bool
  vd_has_max_duration :: bool

text \<open>Cleared memory.\<close>

definition ngx_com_request_adx_slot_video_zero :: ngx_com_request_adx_slot_video_t where
  "ngx_com_request_adx_slot_video_zero =
    \<lparr>vd_width = 0, vd_height = 0, vd_min_duration = 0, vd_max_duration = 0, vd_unknown = None,
     vd_has_width = False, vd_has_height = False, vd_has_min_duration = False, vd_has_max_duration = False\<rparr>"

text \<open>The switch of \<^verbatim>\<open>__unpack\<close>, then its loop.\<close>

definition ngx_com_request_adx_slot_video_case :: "'m pb_env \<Rightarrow> 32 word \<Rightarrow> 32 word \<Rightarrow> ngx_com_request_adx_slot_video_t \<Rightarrow> 'm ngx_protobuf_context_t \<Rightarrow> (ngx_com_request_adx_slot_video_t, 'm) unpacked" where
  "ngx_com_request_adx_slot_video_case env field wire obj ctx =
     (if field = 1 then unpack_num env wire vd_width (\<lambda>v obj. obj\<lparr>vd_width := v\<rparr>) (\<lambda>obj. obj\<lparr>vd_has_width := True\<rparr>) obj ctx
     else if field = 2 then unpack_num env wire vd_height (\<lambda>v obj. obj\<lparr>vd_height := v\<rparr>) (\<lambda>obj. obj\<lparr>vd_has_height := True\<rparr>) obj ctx
     else if field = 3 then unpack_num env wire vd_min_duration (\<lambda>v obj. obj\<lparr>vd_min_duration := v\<rparr>) (\<lambda>obj. obj\<lparr>vd_has_min_duration := True\<rparr>) obj ctx
     else if field = 4 then unpack_num env wire vd_max_duration (\<lambda>v obj. obj\<lparr>vd_max_duration := v\<rparr>) (\<lambda>obj. obj\<lparr>vd_has_max_duration := True\<rparr>) obj ctx
     else unpack_unknown env field wire vd_unknown (\<lambda>v obj. obj\<lparr>vd_unknown := v\<rparr>) obj ctx)"

definition ngx_com_request_adx_slot_video__unpack :: "'m pb_env \<Rightarrow> ngx_com_request_adx_slot_video_t \<Rightarrow> 'm ngx_protobuf_context_t \<Rightarrow> (ngx_com_request_adx_slot_video_t, 'm) unpacked" where
  "ngx_com_request_adx_slot_video__unpack env obj ctx = unpack_loop (ngx_com_request_adx_slot_video_case env) (clast ctx) obj ctx"

definition ngx_com_request_adx_slot_video__size :: "ngx_com_request_adx_slot_video_t \<Rightarrow> nat option" where
  "ngx_com_request_adx_slot_video__size obj = size_message
     [Some (size_number (vd_has_width obj) (vd_width obj) 1),
      Some (size_number (vd_has_height obj) (vd_height obj) 2),
      Some (size_number (vd_has_min_duration obj) (vd_min_duration obj) 3),
      Some (size_number (vd_has_max_duration obj) (vd_max_duration obj) 4)]
     (vd_unknown obj)"

definition ngx_com_request_adx_slot_video__pack :: "(ngx_com_request_adx_slot_video_t, 'm) packer" where
  "ngx_com_request_adx_slot_video__pack obj ctx = pack_message (ngx_com_request_adx_slot_video__size obj)
     [pack_num (vd_has_width obj) (vd_width obj) 1,
      pack_num (vd_has_height obj) (vd_height obj) 2,
      pack_num (vd_has_min_duration obj) (vd_min_duration obj) 3,
      pack_num (vd_has_max_duration obj) (vd_max_duration obj) 4]
     (vd_unknown obj) ctx"

text \<open>The contents, and the strings that packing reads.\<close>

definition video_content :: "memory \<Rightarrow> ngx_com_request_adx_slot_video_t \<Rightarrow> (32 word \<times> wval list) list option" where
  "video_content m obj = content_of (vd_unknown obj)
     [(1, num_slot (vd_has_width obj) (vd_width obj)),
      (2, num_slot (vd_has_height obj) (vd_height obj)),
      (3, num_slot (vd_has_min_duration obj) (vd_min_duration obj)),
      (4, num_slot (vd_has_max_duration obj) (vd_max_duration obj))]"

definition video_strings :: "ngx_com_request_adx_slot_video_t \<Rightarrow> ngx_str_t list" where
  "video_strings obj = []"

lemma video_packs:
  assumes "video_content m0 x = Some fs" "apart R (video_strings x)" "length (enc_fields fs) < 2 ^ 64"
  shows "message_packs m0 R ngx_com_request_adx_slot_video__size ngx_com_request_adx_slot_video__pack x (enc_fields fs)"
  by (rule message_packs_chain [where sz = ngx_com_request_adx_slot_video__size and pk = ngx_com_request_adx_slot_video__pack, OF ngx_com_request_adx_slot_video__size_def ngx_com_request_adx_slot_video__pack_def])
    (use assms in \<open>auto simp: video_content_def video_strings_def intro!: num_packs\<close>)

lemma video_content_mono:
  assumes "video_content m x = Some fs" "m \<subseteq>\<^sub>m m'"
  shows "video_content m' x = Some fs"
  using assms
  by (auto simp: video_content_def)

lemma video_step:
  assumes "pool_serves env" "video_content m x = Some fs" "(n, vs) \<in> set fs" "v \<in> set vs" "solid v"
    "video_content (mem (cstate ctx)) y = Some (grouped [1, 2, 3, 4] ps)"
    "values_of n ps = []" "holds ctx (enc_body v)"
  shows "step_result video_content [1, 2, 3, 4] (\<lambda>_. True) ctx (ngx_com_request_adx_slot_video_case env n (wire_type_of v) y ctx) ps n v"
proof -
  note y = video_content_mono [OF assms(6), unfolded video_content_def, simplified, simplified bind_eq_Some_conv, simplified]
  note y0 = y [OF map_le_refl]
  consider "n = 1" "num_slot (vd_has_width x) (vd_width x) = Some vs"
    | "n = 2" "num_slot (vd_has_height x) (vd_height x) = Some vs"
    | "n = 3" "num_slot (vd_has_min_duration x) (vd_min_duration x) = Some vs"
    | "n = 4" "num_slot (vd_has_max_duration x) (vd_max_duration x) = Some vs"
    using assms(2,3) by (auto simp: video_content_def)
  then show ?thesis
  proof cases
    case 1
    show ?thesis unfolding ngx_com_request_adx_slot_video_case_def 1(1)
      by (simp, rule num_step [OF 1(2) assms(4) assms(8)])
        (use y0 assms(7) 1(1) in \<open>auto simp: video_content_def split: option.splits\<close>)
  next
    case 2
    show ?thesis unfolding ngx_com_request_adx_slot_video_case_def 2(1)
      by (simp, rule num_step [OF 2(2) assms(4) assms(8)])
        (use y0 assms(7) 2(1) in \<open>auto simp: video_content_def split: option.splits\<close>)
  next
    case 3
    show ?thesis unfolding ngx_com_request_adx_slot_video_case_def 3(1)
      by (simp, rule num_step [OF 3(2) assms(4) assms(8)])
        (use y0 assms(7) 3(1) in \<open>auto simp: video_content_def split: option.splits\<close>)
  next
    case 4
    show ?thesis unfolding ngx_com_request_adx_slot_video_case_def 4(1)
      by (simp, rule num_step [OF 4(2) assms(4) assms(8)])
        (use y0 assms(7) 4(1) in \<open>auto simp: video_content_def split: option.splits\<close>)
  qed
qed

interpretation video: message_reader video_content ngx_com_request_adx_slot_video_zero "[1, 2, 3, 4]" "(\<lambda>n. False)" env "ngx_com_request_adx_slot_video_case env" "(\<lambda>_. True)"
  for env :: "'m pb_env"
proof (unfold_locales, goal_cases)
  case 7
  then show ?case by (rule video_content_mono)
next
  case 8
  show ?case by (rule video_step) (use 8 in simp_all)
qed (auto simp: video_content_def ngx_com_request_adx_slot_video_zero_def intro: single_slots)

lemma video_reads:
  assumes "pool_serves env" "video_content m x = Some fs" "solid_fields fs"
  shows "message_reads video_content ngx_com_request_adx_slot_video_zero (ngx_com_request_adx_slot_video__unpack env) fs"
  by (rule video.unpack_reads [OF assms]) (simp add: ngx_com_request_adx_slot_video__unpack_def)

section \<open>\<^verbatim>\<open>ComRequest.AdxSlot\<close>\<close>

record ngx_com_request_adx_slot_t =
  sl_adx_slot_id :: ngx_str_t
  sl_adx_slot_sequence_id :: "32 word"
  sl_adx_slot_type :: "32 word"
  sl_banner :: "ngx_com_request_adx_slot_banner_t option"
  sl_native :: "ngx_com_request_adx_slot_native_t option"
  sl_video :: "ngx_com_request_adx_slot_video_t option"
  sl_price_floor :: "32 word"
  sl_unknown :: unknowns
  sl_has_adx_slot_id :: bool
  sl_has_adx_slot_sequence_id :: bool
  sl_has_adx_slot_type :: bool
  sl_has_banner :: bool
  sl_has_native :: bool
  sl_has_video :: bool
  sl_has_price_floor :: bool

text \<open>Cleared memory.\<close>

definition ngx_com_request_adx_slot_zero :: ngx_com_request_adx_slot_t where
  "ngx_com_request_adx_slot_zero =
    \<lparr>sl_adx_slot_id = \<lparr>slen = 0, sdata = NULL\<rparr>, sl_adx_slot_sequence_id = 0, sl_adx_slot_type = 0,
     sl_banner = None, sl_native = None, sl_video = None, sl_price_floor = 0, sl_unknown = None,
     sl_has_adx_slot_id = False, sl_has_adx_slot_sequence_id = False, sl_has_adx_slot_type = False,
     sl_has_banner = False, sl_has_native = False, sl_has_video = False, sl_has_price_floor = False\<rparr>"

definition ngx_com_request_adx_slot__unpack_banner ::
    "'m pb_env \<Rightarrow> ngx_com_request_adx_slot_t \<Rightarrow> 'm ngx_protobuf_context_t \<Rightarrow> 64 word \<Rightarrow> (ngx_com_request_adx_slot_t, 'm) unpacked" where
  "ngx_com_request_adx_slot__unpack_banner env =
     unpack_member env 24 ngx_com_request_adx_slot_banner_zero (ngx_com_request_adx_slot_banner__unpack env)
       sl_banner (\<lambda>v obj. obj\<lparr>sl_banner := v\<rparr>) (\<lambda>obj. obj\<lparr>sl_has_banner := True\<rparr>)"

definition ngx_com_request_adx_slot__unpack_native ::
    "'m pb_env \<Rightarrow> ngx_com_request_adx_slot_t \<Rightarrow> 'm ngx_protobuf_context_t \<Rightarrow> 64 word \<Rightarrow> (ngx_com_request_adx_slot_t, 'm) unpacked" where
  "ngx_com_request_adx_slot__unpack_native env =
     unpack_member env 32 ngx_com_request_adx_slot_native_zero (ngx_com_request_adx_slot_native__unpack env)
       sl_native (\<lambda>v obj. obj\<lparr>sl_native := v\<rparr>) (\<lambda>obj. obj\<lparr>sl_has_native := True\<rparr>)"

definition ngx_com_request_adx_slot__unpack_video ::
    "'m pb_env \<Rightarrow> ngx_com_request_adx_slot_t \<Rightarrow> 'm ngx_protobuf_context_t \<Rightarrow> 64 word \<Rightarrow> (ngx_com_request_adx_slot_t, 'm) unpacked" where
  "ngx_com_request_adx_slot__unpack_video env =
     unpack_member env 32 ngx_com_request_adx_slot_video_zero (ngx_com_request_adx_slot_video__unpack env)
       sl_video (\<lambda>v obj. obj\<lparr>sl_video := v\<rparr>) (\<lambda>obj. obj\<lparr>sl_has_video := True\<rparr>)"

text \<open>The switch of \<^verbatim>\<open>__unpack\<close>, then its loop.\<close>

definition ngx_com_request_adx_slot_case :: "'m pb_env \<Rightarrow> 32 word \<Rightarrow> 32 word \<Rightarrow> ngx_com_request_adx_slot_t \<Rightarrow> 'm ngx_protobuf_context_t \<Rightarrow> (ngx_com_request_adx_slot_t, 'm) unpacked" where
  "ngx_com_request_adx_slot_case env field wire obj ctx =
     (if field = 1 then unpack_str env wire sl_adx_slot_id (\<lambda>v obj. obj\<lparr>sl_adx_slot_id := v\<rparr>) (\<lambda>obj. obj\<lparr>sl_has_adx_slot_id := True\<rparr>) obj ctx
     else if field = 2 then unpack_num env wire sl_adx_slot_sequence_id (\<lambda>v obj. obj\<lparr>sl_adx_slot_sequence_id := v\<rparr>) (\<lambda>obj. obj\<lparr>sl_has_adx_slot_sequence_id := True\<rparr>) obj ctx
     else if field = 3 then unpack_num env wire sl_adx_slot_type (\<lambda>v obj. obj\<lparr>sl_adx_slot_type := v\<rparr>) (\<lambda>obj. obj\<lparr>sl_has_adx_slot_type := True\<rparr>) obj ctx
     else if field = 4 then unpack_sub env wire (ngx_com_request_adx_slot__unpack_banner env) obj ctx
     else if field = 5 then unpack_sub env wire (ngx_com_request_adx_slot__unpack_native env) obj ctx
     else if field = 6 then unpack_sub env wire (ngx_com_request_adx_slot__unpack_video env) obj ctx
     else if field = 7 then unpack_num env wire sl_price_floor (\<lambda>v obj. obj\<lparr>sl_price_floor := v\<rparr>) (\<lambda>obj. obj\<lparr>sl_has_price_floor := True\<rparr>) obj ctx
     else unpack_unknown env field wire sl_unknown (\<lambda>v obj. obj\<lparr>sl_unknown := v\<rparr>) obj ctx)"

definition ngx_com_request_adx_slot__unpack :: "'m pb_env \<Rightarrow> ngx_com_request_adx_slot_t \<Rightarrow> 'm ngx_protobuf_context_t \<Rightarrow> (ngx_com_request_adx_slot_t, 'm) unpacked" where
  "ngx_com_request_adx_slot__unpack env obj ctx = unpack_loop (ngx_com_request_adx_slot_case env) (clast ctx) obj ctx"

definition ngx_com_request_adx_slot__size :: "ngx_com_request_adx_slot_t \<Rightarrow> nat option" where
  "ngx_com_request_adx_slot__size obj = size_message
     [Some (size_str (sl_has_adx_slot_id obj) (sl_adx_slot_id obj) 1),
      Some (size_number (sl_has_adx_slot_sequence_id obj) (sl_adx_slot_sequence_id obj) 2),
      Some (size_number (sl_has_adx_slot_type obj) (sl_adx_slot_type obj) 3),
      size_member ngx_com_request_adx_slot_banner__size (sl_has_banner obj) (sl_banner obj) 4,
      size_member ngx_com_request_adx_slot_native__size (sl_has_native obj) (sl_native obj) 5,
      size_member ngx_com_request_adx_slot_video__size (sl_has_video obj) (sl_video obj) 6,
      Some (size_number (sl_has_price_floor obj) (sl_price_floor obj) 7)]
     (sl_unknown obj)"

definition ngx_com_request_adx_slot__pack :: "(ngx_com_request_adx_slot_t, 'm) packer" where
  "ngx_com_request_adx_slot__pack obj ctx = pack_message (ngx_com_request_adx_slot__size obj)
     [pack_str (sl_has_adx_slot_id obj) (sl_adx_slot_id obj) 1,
      pack_num (sl_has_adx_slot_sequence_id obj) (sl_adx_slot_sequence_id obj) 2,
      pack_num (sl_has_adx_slot_type obj) (sl_adx_slot_type obj) 3,
      pack_member ngx_com_request_adx_slot_banner__size ngx_com_request_adx_slot_banner__pack (sl_has_banner obj) (sl_banner obj) 4,
      pack_member ngx_com_request_adx_slot_native__size ngx_com_request_adx_slot_native__pack (sl_has_native obj) (sl_native obj) 5,
      pack_member ngx_com_request_adx_slot_video__size ngx_com_request_adx_slot_video__pack (sl_has_video obj) (sl_video obj) 6,
      pack_num (sl_has_price_floor obj) (sl_price_floor obj) 7]
     (sl_unknown obj) ctx"

text \<open>The contents, and the strings that packing reads.\<close>

definition adx_slot_content :: "memory \<Rightarrow> ngx_com_request_adx_slot_t \<Rightarrow> (32 word \<times> wval list) list option" where
  "adx_slot_content m obj = content_of (sl_unknown obj)
     [(1, str_slot m (sl_has_adx_slot_id obj) (sl_adx_slot_id obj)),
      (2, num_slot (sl_has_adx_slot_sequence_id obj) (sl_adx_slot_sequence_id obj)),
      (3, num_slot (sl_has_adx_slot_type obj) (sl_adx_slot_type obj)),
      (4, member_slot (banner_content m) (sl_has_banner obj) (sl_banner obj)),
      (5, member_slot (native_content m) (sl_has_native obj) (sl_native obj)),
      (6, member_slot (video_content m) (sl_has_video obj) (sl_video obj)),
      (7, num_slot (sl_has_price_floor obj) (sl_price_floor obj))]"

definition adx_slot_strings :: "ngx_com_request_adx_slot_t \<Rightarrow> ngx_str_t list" where
  "adx_slot_strings obj = str_refs (sl_has_adx_slot_id obj) (sl_adx_slot_id obj) @
     member_refs banner_strings (sl_has_banner obj) (sl_banner obj) @
     member_refs native_strings (sl_has_native obj) (sl_native obj) @
     member_refs video_strings (sl_has_video obj) (sl_video obj)"

lemma adx_slot_packs:
  assumes "adx_slot_content m0 x = Some fs" "apart R (adx_slot_strings x)" "length (enc_fields fs) < 2 ^ 64"
  shows "message_packs m0 R ngx_com_request_adx_slot__size ngx_com_request_adx_slot__pack x (enc_fields fs)"
  by (rule message_packs_chain [where sz = ngx_com_request_adx_slot__size and pk = ngx_com_request_adx_slot__pack, OF ngx_com_request_adx_slot__size_def ngx_com_request_adx_slot__pack_def])
    (use assms in \<open>auto simp: adx_slot_content_def adx_slot_strings_def intro!: num_packs str_packs member_packs banner_packs native_packs video_packs\<close>)

lemma adx_slot_content_mono:
  assumes "adx_slot_content m x = Some fs" "m \<subseteq>\<^sub>m m'"
  shows "adx_slot_content m' x = Some fs"
  using assms
    str_slot_mono [OF _ assms(2)]
    member_slot_mono [where c = banner_content and m = m and m' = m', OF _ banner_content_mono [OF _ assms(2)]]
    member_slot_mono [where c = native_content and m = m and m' = m', OF _ native_content_mono [OF _ assms(2)]]
    member_slot_mono [where c = video_content and m = m and m' = m', OF _ video_content_mono [OF _ assms(2)]]
  by (auto simp: adx_slot_content_def)

lemma adx_slot_step:
  assumes "pool_serves env" "adx_slot_content m x = Some fs" "(n, vs) \<in> set fs" "v \<in> set vs" "solid v"
    "adx_slot_content (mem (cstate ctx)) y = Some (grouped [1, 2, 3, 4, 5, 6, 7] ps)"
    "values_of n ps = []" "holds ctx (enc_body v)"
  shows "step_result adx_slot_content [1, 2, 3, 4, 5, 6, 7] (\<lambda>_. True) ctx (ngx_com_request_adx_slot_case env n (wire_type_of v) y ctx) ps n v"
proof -
  note y = adx_slot_content_mono [OF assms(6), unfolded adx_slot_content_def, simplified, simplified bind_eq_Some_conv, simplified]
  note y0 = y [OF map_le_refl]
  consider "n = 1" "str_slot m (sl_has_adx_slot_id x) (sl_adx_slot_id x) = Some vs"
    | "n = 2" "num_slot (sl_has_adx_slot_sequence_id x) (sl_adx_slot_sequence_id x) = Some vs"
    | "n = 3" "num_slot (sl_has_adx_slot_type x) (sl_adx_slot_type x) = Some vs"
    | "n = 4" "member_slot (banner_content m) (sl_has_banner x) (sl_banner x) = Some vs"
    | "n = 5" "member_slot (native_content m) (sl_has_native x) (sl_native x) = Some vs"
    | "n = 6" "member_slot (video_content m) (sl_has_video x) (sl_video x) = Some vs"
    | "n = 7" "num_slot (sl_has_price_floor x) (sl_price_floor x) = Some vs"
    using assms(2,3) by (auto simp: adx_slot_content_def)
  then show ?thesis
  proof cases
    case 1
    show ?thesis unfolding ngx_com_request_adx_slot_case_def 1(1)
      by (simp, rule str_step [OF 1(2) assms(4) assms(8) assms(5)])
        (use y0 assms(7) 1(1) in \<open>auto simp: adx_slot_content_def split: option.splits\<close>)
  next
    case 2
    show ?thesis unfolding ngx_com_request_adx_slot_case_def 2(1)
      by (simp, rule num_step [OF 2(2) assms(4) assms(8)])
        (use y0 assms(7) 2(1) in \<open>auto simp: adx_slot_content_def split: option.splits\<close>)
  next
    case 3
    show ?thesis unfolding ngx_com_request_adx_slot_case_def 3(1)
      by (simp, rule num_step [OF 3(2) assms(4) assms(8)])
        (use y0 assms(7) 3(1) in \<open>auto simp: adx_slot_content_def split: option.splits\<close>)
  next
    case 4
    show ?thesis unfolding ngx_com_request_adx_slot_case_def 4(1) ngx_com_request_adx_slot__unpack_banner_def
      by (simp, rule member_step [OF 4(2) assms(4) assms(8) assms(5,1) banner_reads [OF assms(1)]])
        (use y assms(7) 4(1) in \<open>auto simp: adx_slot_content_def split: option.splits\<close>)
  next
    case 5
    show ?thesis unfolding ngx_com_request_adx_slot_case_def 5(1) ngx_com_request_adx_slot__unpack_native_def
      by (simp, rule member_step [OF 5(2) assms(4) assms(8) assms(5,1) native_reads [OF assms(1)]])
        (use y assms(7) 5(1) in \<open>auto simp: adx_slot_content_def split: option.splits\<close>)
  next
    case 6
    show ?thesis unfolding ngx_com_request_adx_slot_case_def 6(1) ngx_com_request_adx_slot__unpack_video_def
      by (simp, rule member_step [OF 6(2) assms(4) assms(8) assms(5,1) video_reads [OF assms(1)]])
        (use y assms(7) 6(1) in \<open>auto simp: adx_slot_content_def split: option.splits\<close>)
  next
    case 7
    show ?thesis unfolding ngx_com_request_adx_slot_case_def 7(1)
      by (simp, rule num_step [OF 7(2) assms(4) assms(8)])
        (use y0 assms(7) 7(1) in \<open>auto simp: adx_slot_content_def split: option.splits\<close>)
  qed
qed

interpretation adx_slot: message_reader adx_slot_content ngx_com_request_adx_slot_zero "[1, 2, 3, 4, 5, 6, 7]" "(\<lambda>n. False)" env "ngx_com_request_adx_slot_case env" "(\<lambda>_. True)"
  for env :: "'m pb_env"
proof (unfold_locales, goal_cases)
  case 7
  then show ?case by (rule adx_slot_content_mono)
next
  case 8
  show ?case by (rule adx_slot_step) (use 8 in simp_all)
qed (auto simp: adx_slot_content_def ngx_com_request_adx_slot_zero_def intro: single_slots)

lemma adx_slot_reads:
  assumes "pool_serves env" "adx_slot_content m x = Some fs" "solid_fields fs"
  shows "message_reads adx_slot_content ngx_com_request_adx_slot_zero (ngx_com_request_adx_slot__unpack env) fs"
  by (rule adx_slot.unpack_reads [OF assms]) (simp add: ngx_com_request_adx_slot__unpack_def)

end
