(* ===== verification/Com_Device.thy ===== *)
theory Com_Device
  imports Com_Message
begin

text \<open>
  The messages \<^verbatim>\<open>ComRequest.Device\<close>, its \<^verbatim>\<open>DeviceID\<close> and \<^verbatim>\<open>ComRequest.App\<close> of \<^verbatim>\<open>ngx_adx_com_proto.c\<close>: the records, one definition per function, what packing one writes
  and, by an interpretation of \<open>message_reader\<close>, that unpacking reads it back.
\<close>

section \<open>\<^verbatim>\<open>ComRequest.Device.DeviceID\<close>\<close>

record ngx_com_request_device_device_id_t =
  di_id :: ngx_str_t
  di_type :: "32 word"
  di_unknown :: unknowns
  di_has_id :: bool
  di_has_type :: bool

text \<open>Cleared memory.\<close>

definition ngx_com_request_device_device_id_zero :: ngx_com_request_device_device_id_t where
  "ngx_com_request_device_device_id_zero =
    \<lparr>di_id = \<lparr>slen = 0, sdata = NULL\<rparr>, di_type = 0, di_unknown = None, di_has_id = False,
     di_has_type = False\<rparr>"

text \<open>The switch of \<^verbatim>\<open>__unpack\<close>, then its loop.\<close>

definition ngx_com_request_device_device_id_case :: "'m pb_env \<Rightarrow> 32 word \<Rightarrow> 32 word \<Rightarrow> ngx_com_request_device_device_id_t \<Rightarrow> 'm ngx_protobuf_context_t \<Rightarrow> (ngx_com_request_device_device_id_t, 'm) unpacked" where
  "ngx_com_request_device_device_id_case env field wire obj ctx =
     (if field = 1 then unpack_str env wire di_id (\<lambda>v obj. obj\<lparr>di_id := v\<rparr>) (\<lambda>obj. obj\<lparr>di_has_id := True\<rparr>) obj ctx
     else if field = 2 then unpack_num env wire di_type (\<lambda>v obj. obj\<lparr>di_type := v\<rparr>) (\<lambda>obj. obj\<lparr>di_has_type := True\<rparr>) obj ctx
     else unpack_unknown env field wire di_unknown (\<lambda>v obj. obj\<lparr>di_unknown := v\<rparr>) obj ctx)"

definition ngx_com_request_device_device_id__unpack :: "'m pb_env \<Rightarrow> ngx_com_request_device_device_id_t \<Rightarrow> 'm ngx_protobuf_context_t \<Rightarrow> (ngx_com_request_device_device_id_t, 'm) unpacked" where
  "ngx_com_request_device_device_id__unpack env obj ctx = unpack_loop (ngx_com_request_device_device_id_case env) (clast ctx) obj ctx"

definition ngx_com_request_device_device_id__size :: "ngx_com_request_device_device_id_t \<Rightarrow> nat option" where
  "ngx_com_request_device_device_id__size obj = size_message
     [Some (size_str (di_has_id obj) (di_id obj) 1),
      Some (size_number (di_has_type obj) (di_type obj) 2)]
     (di_unknown obj)"

definition ngx_com_request_device_device_id__pack :: "(ngx_com_request_device_device_id_t, 'm) packer" where
  "ngx_com_request_device_device_id__pack obj ctx = pack_message (ngx_com_request_device_device_id__size obj)
     [pack_str (di_has_id obj) (di_id obj) 1,
      pack_num (di_has_type obj) (di_type obj) 2]
     (di_unknown obj) ctx"

text \<open>The contents, and the strings that packing reads.\<close>

definition device_id_content :: "memory \<Rightarrow> ngx_com_request_device_device_id_t \<Rightarrow> (32 word \<times> wval list) list option" where
  "device_id_content m obj = content_of (di_unknown obj)
     [(1, str_slot m (di_has_id obj) (di_id obj)),
      (2, num_slot (di_has_type obj) (di_type obj))]"

definition device_id_strings :: "ngx_com_request_device_device_id_t \<Rightarrow> ngx_str_t list" where
  "device_id_strings obj = str_refs (di_has_id obj) (di_id obj)"

lemma device_id_packs:
  assumes "device_id_content m0 x = Some fs" "apart R (device_id_strings x)" "length (enc_fields fs) < 2 ^ 64"
  shows "message_packs m0 R ngx_com_request_device_device_id__size ngx_com_request_device_device_id__pack x (enc_fields fs)"
  by (rule message_packs_chain [where sz = ngx_com_request_device_device_id__size and pk = ngx_com_request_device_device_id__pack, OF ngx_com_request_device_device_id__size_def ngx_com_request_device_device_id__pack_def])
    (use assms in \<open>auto simp: device_id_content_def device_id_strings_def intro!: num_packs str_packs\<close>)

lemma device_id_content_mono:
  assumes "device_id_content m x = Some fs" "m \<subseteq>\<^sub>m m'"
  shows "device_id_content m' x = Some fs"
  using assms str_slot_mono [OF _ assms(2)]
  by (auto simp: device_id_content_def)

lemma device_id_step:
  assumes "pool_serves env" "device_id_content m x = Some fs" "(n, vs) \<in> set fs" "v \<in> set vs" "solid v"
    "device_id_content (mem (cstate ctx)) y = Some (grouped [1, 2] ps)"
    "values_of n ps = []" "holds ctx (enc_body v)"
  shows "step_result device_id_content [1, 2] (\<lambda>_. True) ctx (ngx_com_request_device_device_id_case env n (wire_type_of v) y ctx) ps n v"
proof -
  note y = device_id_content_mono [OF assms(6), unfolded device_id_content_def, simplified, simplified bind_eq_Some_conv, simplified]
  note y0 = y [OF map_le_refl]
  consider "n = 1" "str_slot m (di_has_id x) (di_id x) = Some vs"
    | "n = 2" "num_slot (di_has_type x) (di_type x) = Some vs"
    using assms(2,3) by (auto simp: device_id_content_def)
  then show ?thesis
  proof cases
    case 1
    show ?thesis unfolding ngx_com_request_device_device_id_case_def 1(1)
      by (simp, rule str_step [OF 1(2) assms(4) assms(8) assms(5)])
        (use y0 assms(7) 1(1) in \<open>auto simp: device_id_content_def split: option.splits\<close>)
  next
    case 2
    show ?thesis unfolding ngx_com_request_device_device_id_case_def 2(1)
      by (simp, rule num_step [OF 2(2) assms(4) assms(8)])
        (use y0 assms(7) 2(1) in \<open>auto simp: device_id_content_def split: option.splits\<close>)
  qed
qed

interpretation device_id: message_reader device_id_content ngx_com_request_device_device_id_zero "[1, 2]" "(\<lambda>n. False)" env "ngx_com_request_device_device_id_case env" "(\<lambda>_. True)"
  for env :: "'m pb_env"
proof (unfold_locales, goal_cases)
  case 7
  then show ?case by (rule device_id_content_mono)
next
  case 8
  show ?case by (rule device_id_step) (use 8 in simp_all)
qed (auto simp: device_id_content_def ngx_com_request_device_device_id_zero_def intro: single_slots)

lemma device_id_reads:
  assumes "pool_serves env" "device_id_content m x = Some fs" "solid_fields fs"
  shows "message_reads device_id_content ngx_com_request_device_device_id_zero (ngx_com_request_device_device_id__unpack env) fs"
  by (rule device_id.unpack_reads [OF assms]) (simp add: ngx_com_request_device_device_id__unpack_def)

section \<open>\<^verbatim>\<open>ComRequest.Device\<close>\<close>

record ngx_com_request_device_t =
  dv_device_id :: "ngx_com_request_device_device_id_t list option"
  dv_device_type :: "32 word"
  dv_os :: "32 word"
  dv_os_version :: ngx_str_t
  dv_carrier :: "32 word"
  dv_connection :: "32 word"
  dv_brand :: ngx_str_t
  dv_model :: ngx_str_t
  dv_user_agent :: ngx_str_t
  dv_ip :: ngx_str_t
  dv_unknown :: unknowns
  dv_has_device_id :: bool
  dv_has_device_type :: bool
  dv_has_os :: bool
  dv_has_os_version :: bool
  dv_has_carrier :: bool
  dv_has_connection :: bool
  dv_has_brand :: bool
  dv_has_model :: bool
  dv_has_user_agent :: bool
  dv_has_ip :: bool

text \<open>Cleared memory.\<close>

definition ngx_com_request_device_zero :: ngx_com_request_device_t where
  "ngx_com_request_device_zero =
    \<lparr>dv_device_id = None, dv_device_type = 0, dv_os = 0, dv_os_version = \<lparr>slen = 0, sdata = NULL\<rparr>,
     dv_carrier = 0, dv_connection = 0, dv_brand = \<lparr>slen = 0, sdata = NULL\<rparr>,
     dv_model = \<lparr>slen = 0, sdata = NULL\<rparr>, dv_user_agent = \<lparr>slen = 0, sdata = NULL\<rparr>,
     dv_ip = \<lparr>slen = 0, sdata = NULL\<rparr>, dv_unknown = None, dv_has_device_id = False,
     dv_has_device_type = False, dv_has_os = False, dv_has_os_version = False, dv_has_carrier = False,
     dv_has_connection = False, dv_has_brand = False, dv_has_model = False, dv_has_user_agent = False,
     dv_has_ip = False\<rparr>"

definition ngx_com_request_device__add__device_id ::
    "'m pb_env \<Rightarrow> ngx_com_request_device_t \<Rightarrow> 'm pstate \<Rightarrow> bool \<Rightarrow> 'm pstate \<times> ngx_com_request_device_t \<times> bool" where
  "ngx_com_request_device__add__device_id env =
     add_element env 40 ngx_com_request_device_device_id_zero dv_device_id (\<lambda>v obj. obj\<lparr>dv_device_id := v\<rparr>) (\<lambda>obj. obj\<lparr>dv_has_device_id := True\<rparr>)"

definition ngx_com_request_device__unpack_device_id ::
    "'m pb_env \<Rightarrow> ngx_com_request_device_t \<Rightarrow> 'm ngx_protobuf_context_t \<Rightarrow> 64 word \<Rightarrow> (ngx_com_request_device_t, 'm) unpacked" where
  "ngx_com_request_device__unpack_device_id env =
     unpack_element (ngx_com_request_device__add__device_id env) (ngx_com_request_device_device_id_zero) (ngx_com_request_device_device_id__unpack env)
       dv_device_id (\<lambda>v obj. obj\<lparr>dv_device_id := v\<rparr>) (\<lambda>obj. obj\<lparr>dv_has_device_id := True\<rparr>)"

text \<open>The switch of \<^verbatim>\<open>__unpack\<close>, then its loop.\<close>

definition ngx_com_request_device_case :: "'m pb_env \<Rightarrow> 32 word \<Rightarrow> 32 word \<Rightarrow> ngx_com_request_device_t \<Rightarrow> 'm ngx_protobuf_context_t \<Rightarrow> (ngx_com_request_device_t, 'm) unpacked" where
  "ngx_com_request_device_case env field wire obj ctx =
     (if field = 1 then unpack_sub env wire (ngx_com_request_device__unpack_device_id env) obj ctx
     else if field = 2 then unpack_num env wire dv_device_type (\<lambda>v obj. obj\<lparr>dv_device_type := v\<rparr>) (\<lambda>obj. obj\<lparr>dv_has_device_type := True\<rparr>) obj ctx
     else if field = 3 then unpack_num env wire dv_os (\<lambda>v obj. obj\<lparr>dv_os := v\<rparr>) (\<lambda>obj. obj\<lparr>dv_has_os := True\<rparr>) obj ctx
     else if field = 4 then unpack_str env wire dv_os_version (\<lambda>v obj. obj\<lparr>dv_os_version := v\<rparr>) (\<lambda>obj. obj\<lparr>dv_has_os_version := True\<rparr>) obj ctx
     else if field = 5 then unpack_num env wire dv_carrier (\<lambda>v obj. obj\<lparr>dv_carrier := v\<rparr>) (\<lambda>obj. obj\<lparr>dv_has_carrier := True\<rparr>) obj ctx
     else if field = 6 then unpack_num env wire dv_connection (\<lambda>v obj. obj\<lparr>dv_connection := v\<rparr>) (\<lambda>obj. obj\<lparr>dv_has_connection := True\<rparr>) obj ctx
     else if field = 7 then unpack_str env wire dv_brand (\<lambda>v obj. obj\<lparr>dv_brand := v\<rparr>) (\<lambda>obj. obj\<lparr>dv_has_brand := True\<rparr>) obj ctx
     else if field = 8 then unpack_str env wire dv_model (\<lambda>v obj. obj\<lparr>dv_model := v\<rparr>) (\<lambda>obj. obj\<lparr>dv_has_model := True\<rparr>) obj ctx
     else if field = 9 then unpack_str env wire dv_user_agent (\<lambda>v obj. obj\<lparr>dv_user_agent := v\<rparr>) (\<lambda>obj. obj\<lparr>dv_has_user_agent := True\<rparr>) obj ctx
     else if field = 10 then unpack_str env wire dv_ip (\<lambda>v obj. obj\<lparr>dv_ip := v\<rparr>) (\<lambda>obj. obj\<lparr>dv_has_ip := True\<rparr>) obj ctx
     else unpack_unknown env field wire dv_unknown (\<lambda>v obj. obj\<lparr>dv_unknown := v\<rparr>) obj ctx)"

definition ngx_com_request_device__unpack :: "'m pb_env \<Rightarrow> ngx_com_request_device_t \<Rightarrow> 'm ngx_protobuf_context_t \<Rightarrow> (ngx_com_request_device_t, 'm) unpacked" where
  "ngx_com_request_device__unpack env obj ctx = unpack_loop (ngx_com_request_device_case env) (clast ctx) obj ctx"

definition ngx_com_request_device__size :: "ngx_com_request_device_t \<Rightarrow> nat option" where
  "ngx_com_request_device__size obj = size_message
     [size_elements ngx_com_request_device_device_id__size (dv_has_device_id obj) (dv_device_id obj) 1,
      Some (size_number (dv_has_device_type obj) (dv_device_type obj) 2),
      Some (size_number (dv_has_os obj) (dv_os obj) 3),
      Some (size_str (dv_has_os_version obj) (dv_os_version obj) 4),
      Some (size_number (dv_has_carrier obj) (dv_carrier obj) 5),
      Some (size_number (dv_has_connection obj) (dv_connection obj) 6),
      Some (size_str (dv_has_brand obj) (dv_brand obj) 7),
      Some (size_str (dv_has_model obj) (dv_model obj) 8),
      Some (size_str (dv_has_user_agent obj) (dv_user_agent obj) 9),
      Some (size_str (dv_has_ip obj) (dv_ip obj) 10)]
     (dv_unknown obj)"

definition ngx_com_request_device__pack :: "(ngx_com_request_device_t, 'm) packer" where
  "ngx_com_request_device__pack obj ctx = pack_message (ngx_com_request_device__size obj)
     [pack_elements ngx_com_request_device_device_id__size ngx_com_request_device_device_id__pack (dv_has_device_id obj) (dv_device_id obj) 1,
      pack_num (dv_has_device_type obj) (dv_device_type obj) 2,
      pack_num (dv_has_os obj) (dv_os obj) 3,
      pack_str (dv_has_os_version obj) (dv_os_version obj) 4,
      pack_num (dv_has_carrier obj) (dv_carrier obj) 5,
      pack_num (dv_has_connection obj) (dv_connection obj) 6,
      pack_str (dv_has_brand obj) (dv_brand obj) 7,
      pack_str (dv_has_model obj) (dv_model obj) 8,
      pack_str (dv_has_user_agent obj) (dv_user_agent obj) 9,
      pack_str (dv_has_ip obj) (dv_ip obj) 10]
     (dv_unknown obj) ctx"

text \<open>The contents, and the strings that packing reads.\<close>

definition device_content :: "memory \<Rightarrow> ngx_com_request_device_t \<Rightarrow> (32 word \<times> wval list) list option" where
  "device_content m obj = content_of (dv_unknown obj)
     [(1, elements_slot (device_id_content m) (dv_has_device_id obj) (dv_device_id obj)),
      (2, num_slot (dv_has_device_type obj) (dv_device_type obj)),
      (3, num_slot (dv_has_os obj) (dv_os obj)),
      (4, str_slot m (dv_has_os_version obj) (dv_os_version obj)),
      (5, num_slot (dv_has_carrier obj) (dv_carrier obj)),
      (6, num_slot (dv_has_connection obj) (dv_connection obj)),
      (7, str_slot m (dv_has_brand obj) (dv_brand obj)),
      (8, str_slot m (dv_has_model obj) (dv_model obj)),
      (9, str_slot m (dv_has_user_agent obj) (dv_user_agent obj)),
      (10, str_slot m (dv_has_ip obj) (dv_ip obj))]"

definition device_strings :: "ngx_com_request_device_t \<Rightarrow> ngx_str_t list" where
  "device_strings obj = elements_refs device_id_strings (dv_has_device_id obj) (dv_device_id obj) @
     str_refs (dv_has_os_version obj) (dv_os_version obj) @
     str_refs (dv_has_brand obj) (dv_brand obj) @
     str_refs (dv_has_model obj) (dv_model obj) @
     str_refs (dv_has_user_agent obj) (dv_user_agent obj) @
     str_refs (dv_has_ip obj) (dv_ip obj)"

lemma device_packs:
  assumes "device_content m0 x = Some fs" "apart R (device_strings x)" "length (enc_fields fs) < 2 ^ 64"
  shows "message_packs m0 R ngx_com_request_device__size ngx_com_request_device__pack x (enc_fields fs)"
  by (rule message_packs_chain [where sz = ngx_com_request_device__size and pk = ngx_com_request_device__pack, OF ngx_com_request_device__size_def ngx_com_request_device__pack_def])
    (use assms in \<open>auto simp: device_content_def device_strings_def intro!: num_packs str_packs elements_packs device_id_packs\<close>)

lemma device_content_mono:
  assumes "device_content m x = Some fs" "m \<subseteq>\<^sub>m m'"
  shows "device_content m' x = Some fs"
  using assms
    str_slot_mono [OF _ assms(2)]
    elements_slot_mono [where c = device_id_content and m = m and m' = m', OF _ device_id_content_mono [OF _ assms(2)]]
  by (auto simp: device_content_def)

text \<open>Reading sets the flag with the array.\<close>

definition device_tidy :: "ngx_com_request_device_t \<Rightarrow> bool" where
  "device_tidy obj \<longleftrightarrow> (dv_device_id obj \<noteq> None \<longrightarrow> dv_has_device_id obj)"

lemma device_step:
  assumes "pool_serves env" "device_content m x = Some fs" "(n, vs) \<in> set fs" "v \<in> set vs" "solid v"
    "device_content (mem (cstate ctx)) y = Some (grouped [1, 2, 3, 4, 5, 6, 7, 8, 9, 10] ps)" "device_tidy y"
    "n = 1 \<or> values_of n ps = []" "holds ctx (enc_body v)"
  shows "step_result device_content [1, 2, 3, 4, 5, 6, 7, 8, 9, 10] device_tidy ctx (ngx_com_request_device_case env n (wire_type_of v) y ctx) ps n v"
proof -
  note y = device_content_mono [OF assms(6), unfolded device_content_def, simplified, simplified bind_eq_Some_conv, simplified]
  note y0 = y [OF map_le_refl]
  consider "n = 1" "elements_slot (device_id_content m) (dv_has_device_id x) (dv_device_id x) = Some vs"
    | "n = 2" "num_slot (dv_has_device_type x) (dv_device_type x) = Some vs"
    | "n = 3" "num_slot (dv_has_os x) (dv_os x) = Some vs"
    | "n = 4" "str_slot m (dv_has_os_version x) (dv_os_version x) = Some vs"
    | "n = 5" "num_slot (dv_has_carrier x) (dv_carrier x) = Some vs"
    | "n = 6" "num_slot (dv_has_connection x) (dv_connection x) = Some vs"
    | "n = 7" "str_slot m (dv_has_brand x) (dv_brand x) = Some vs"
    | "n = 8" "str_slot m (dv_has_model x) (dv_model x) = Some vs"
    | "n = 9" "str_slot m (dv_has_user_agent x) (dv_user_agent x) = Some vs"
    | "n = 10" "str_slot m (dv_has_ip x) (dv_ip x) = Some vs"
    using assms(2,3) by (auto simp: device_content_def)
  then show ?thesis
  proof cases
    case 1
    show ?thesis unfolding ngx_com_request_device_case_def 1(1) ngx_com_request_device__unpack_device_id_def ngx_com_request_device__add__device_id_def
      by (simp, rule element_step [OF 1(2) assms(4) assms(9) assms(5,1) device_id_reads [OF assms(1)]])
        (use y assms(8) 1(1) assms(7) in \<open>auto simp: device_content_def device_tidy_def Let_def elements_slot_snoc split: option.splits\<close>)
  next
    case 2
    show ?thesis unfolding ngx_com_request_device_case_def 2(1)
      by (simp, rule num_step [OF 2(2) assms(4) assms(9)])
        (use y0 assms(8) 2(1) assms(7) in \<open>auto simp: device_content_def device_tidy_def split: option.splits\<close>)
  next
    case 3
    show ?thesis unfolding ngx_com_request_device_case_def 3(1)
      by (simp, rule num_step [OF 3(2) assms(4) assms(9)])
        (use y0 assms(8) 3(1) assms(7) in \<open>auto simp: device_content_def device_tidy_def split: option.splits\<close>)
  next
    case 4
    show ?thesis unfolding ngx_com_request_device_case_def 4(1)
      by (simp, rule str_step [OF 4(2) assms(4) assms(9) assms(5)])
        (use y0 assms(8) 4(1) assms(7) in \<open>auto simp: device_content_def device_tidy_def split: option.splits\<close>)
  next
    case 5
    show ?thesis unfolding ngx_com_request_device_case_def 5(1)
      by (simp, rule num_step [OF 5(2) assms(4) assms(9)])
        (use y0 assms(8) 5(1) assms(7) in \<open>auto simp: device_content_def device_tidy_def split: option.splits\<close>)
  next
    case 6
    show ?thesis unfolding ngx_com_request_device_case_def 6(1)
      by (simp, rule num_step [OF 6(2) assms(4) assms(9)])
        (use y0 assms(8) 6(1) assms(7) in \<open>auto simp: device_content_def device_tidy_def split: option.splits\<close>)
  next
    case 7
    show ?thesis unfolding ngx_com_request_device_case_def 7(1)
      by (simp, rule str_step [OF 7(2) assms(4) assms(9) assms(5)])
        (use y0 assms(8) 7(1) assms(7) in \<open>auto simp: device_content_def device_tidy_def split: option.splits\<close>)
  next
    case 8
    show ?thesis unfolding ngx_com_request_device_case_def 8(1)
      by (simp, rule str_step [OF 8(2) assms(4) assms(9) assms(5)])
        (use y0 assms(8) 8(1) assms(7) in \<open>auto simp: device_content_def device_tidy_def split: option.splits\<close>)
  next
    case 9
    show ?thesis unfolding ngx_com_request_device_case_def 9(1)
      by (simp, rule str_step [OF 9(2) assms(4) assms(9) assms(5)])
        (use y0 assms(8) 9(1) assms(7) in \<open>auto simp: device_content_def device_tidy_def split: option.splits\<close>)
  next
    case 10
    show ?thesis unfolding ngx_com_request_device_case_def 10(1)
      by (simp, rule str_step [OF 10(2) assms(4) assms(9) assms(5)])
        (use y0 assms(8) 10(1) assms(7) in \<open>auto simp: device_content_def device_tidy_def split: option.splits\<close>)
  qed
qed

interpretation device: message_reader device_content ngx_com_request_device_zero "[1, 2, 3, 4, 5, 6, 7, 8, 9, 10]" "(\<lambda>n. n = 1)" env "ngx_com_request_device_case env" "device_tidy"
  for env :: "'m pb_env"
proof (unfold_locales, goal_cases)
  case 7
  then show ?case by (rule device_content_mono)
next
  case 8
  show ?case by (rule device_step) (use 8 in simp_all)
qed (auto simp: device_content_def ngx_com_request_device_zero_def device_tidy_def intro: single_slots)

lemma device_reads:
  assumes "pool_serves env" "device_content m x = Some fs" "solid_fields fs"
  shows "message_reads device_content ngx_com_request_device_zero (ngx_com_request_device__unpack env) fs"
  by (rule device.unpack_reads [OF assms]) (simp add: ngx_com_request_device__unpack_def)

section \<open>\<^verbatim>\<open>ComRequest.App\<close>\<close>

record ngx_com_request_app_t =
  ap_app_id :: ngx_str_t
  ap_app_category :: "32 word"
  ap_unknown :: unknowns
  ap_has_app_id :: bool
  ap_has_app_category :: bool

text \<open>Cleared memory.\<close>

definition ngx_com_request_app_zero :: ngx_com_request_app_t where
  "ngx_com_request_app_zero =
    \<lparr>ap_app_id = \<lparr>slen = 0, sdata = NULL\<rparr>, ap_app_category = 0, ap_unknown = None,
     ap_has_app_id = False, ap_has_app_category = False\<rparr>"

text \<open>The switch of \<^verbatim>\<open>__unpack\<close>, then its loop.\<close>

definition ngx_com_request_app_case :: "'m pb_env \<Rightarrow> 32 word \<Rightarrow> 32 word \<Rightarrow> ngx_com_request_app_t \<Rightarrow> 'm ngx_protobuf_context_t \<Rightarrow> (ngx_com_request_app_t, 'm) unpacked" where
  "ngx_com_request_app_case env field wire obj ctx =
     (if field = 1 then unpack_str env wire ap_app_id (\<lambda>v obj. obj\<lparr>ap_app_id := v\<rparr>) (\<lambda>obj. obj\<lparr>ap_has_app_id := True\<rparr>) obj ctx
     else if field = 2 then unpack_num env wire ap_app_category (\<lambda>v obj. obj\<lparr>ap_app_category := v\<rparr>) (\<lambda>obj. obj\<lparr>ap_has_app_category := True\<rparr>) obj ctx
     else unpack_unknown env field wire ap_unknown (\<lambda>v obj. obj\<lparr>ap_unknown := v\<rparr>) obj ctx)"

definition ngx_com_request_app__unpack :: "'m pb_env \<Rightarrow> ngx_com_request_app_t \<Rightarrow> 'm ngx_protobuf_context_t \<Rightarrow> (ngx_com_request_app_t, 'm) unpacked" where
  "ngx_com_request_app__unpack env obj ctx = unpack_loop (ngx_com_request_app_case env) (clast ctx) obj ctx"

definition ngx_com_request_app__size :: "ngx_com_request_app_t \<Rightarrow> nat option" where
  "ngx_com_request_app__size obj = size_message
     [Some (size_str (ap_has_app_id obj) (ap_app_id obj) 1),
      Some (size_number (ap_has_app_category obj) (ap_app_category obj) 2)]
     (ap_unknown obj)"

definition ngx_com_request_app__pack :: "(ngx_com_request_app_t, 'm) packer" where
  "ngx_com_request_app__pack obj ctx = pack_message (ngx_com_request_app__size obj)
     [pack_str (ap_has_app_id obj) (ap_app_id obj) 1,
      pack_num (ap_has_app_category obj) (ap_app_category obj) 2]
     (ap_unknown obj) ctx"

text \<open>The contents, and the strings that packing reads.\<close>

definition app_content :: "memory \<Rightarrow> ngx_com_request_app_t \<Rightarrow> (32 word \<times> wval list) list option" where
  "app_content m obj = content_of (ap_unknown obj)
     [(1, str_slot m (ap_has_app_id obj) (ap_app_id obj)),
      (2, num_slot (ap_has_app_category obj) (ap_app_category obj))]"

definition app_strings :: "ngx_com_request_app_t \<Rightarrow> ngx_str_t list" where
  "app_strings obj = str_refs (ap_has_app_id obj) (ap_app_id obj)"

lemma app_packs:
  assumes "app_content m0 x = Some fs" "apart R (app_strings x)" "length (enc_fields fs) < 2 ^ 64"
  shows "message_packs m0 R ngx_com_request_app__size ngx_com_request_app__pack x (enc_fields fs)"
  by (rule message_packs_chain [where sz = ngx_com_request_app__size and pk = ngx_com_request_app__pack, OF ngx_com_request_app__size_def ngx_com_request_app__pack_def])
    (use assms in \<open>auto simp: app_content_def app_strings_def intro!: num_packs str_packs\<close>)

lemma app_content_mono:
  assumes "app_content m x = Some fs" "m \<subseteq>\<^sub>m m'"
  shows "app_content m' x = Some fs"
  using assms str_slot_mono [OF _ assms(2)]
  by (auto simp: app_content_def)

lemma app_step:
  assumes "pool_serves env" "app_content m x = Some fs" "(n, vs) \<in> set fs" "v \<in> set vs" "solid v"
    "app_content (mem (cstate ctx)) y = Some (grouped [1, 2] ps)"
    "values_of n ps = []" "holds ctx (enc_body v)"
  shows "step_result app_content [1, 2] (\<lambda>_. True) ctx (ngx_com_request_app_case env n (wire_type_of v) y ctx) ps n v"
proof -
  note y = app_content_mono [OF assms(6), unfolded app_content_def, simplified, simplified bind_eq_Some_conv, simplified]
  note y0 = y [OF map_le_refl]
  consider "n = 1" "str_slot m (ap_has_app_id x) (ap_app_id x) = Some vs"
    | "n = 2" "num_slot (ap_has_app_category x) (ap_app_category x) = Some vs"
    using assms(2,3) by (auto simp: app_content_def)
  then show ?thesis
  proof cases
    case 1
    show ?thesis unfolding ngx_com_request_app_case_def 1(1)
      by (simp, rule str_step [OF 1(2) assms(4) assms(8) assms(5)])
        (use y0 assms(7) 1(1) in \<open>auto simp: app_content_def split: option.splits\<close>)
  next
    case 2
    show ?thesis unfolding ngx_com_request_app_case_def 2(1)
      by (simp, rule num_step [OF 2(2) assms(4) assms(8)])
        (use y0 assms(7) 2(1) in \<open>auto simp: app_content_def split: option.splits\<close>)
  qed
qed

interpretation app: message_reader app_content ngx_com_request_app_zero "[1, 2]" "(\<lambda>n. False)" env "ngx_com_request_app_case env" "(\<lambda>_. True)"
  for env :: "'m pb_env"
proof (unfold_locales, goal_cases)
  case 7
  then show ?case by (rule app_content_mono)
next
  case 8
  show ?case by (rule app_step) (use 8 in simp_all)
qed (auto simp: app_content_def ngx_com_request_app_zero_def intro: single_slots)

lemma app_reads:
  assumes "pool_serves env" "app_content m x = Some fs" "solid_fields fs"
  shows "message_reads app_content ngx_com_request_app_zero (ngx_com_request_app__unpack env) fs"
  by (rule app.unpack_reads [OF assms]) (simp add: ngx_com_request_app__unpack_def)

end
