(* ===== verification/Com_Request.thy ===== *)
theory Com_Request
  imports Com_Slot Com_Device
begin

text \<open>
  The message \<^verbatim>\<open>ComRequest\<close> of \<^verbatim>\<open>ngx_adx_com_proto.c\<close>: the records, one definition per function, what packing one writes
  and, by an interpretation of \<open>message_reader\<close>, that unpacking reads it back.
\<close>

section \<open>\<^verbatim>\<open>ComRequest\<close>\<close>

record ngx_com_request_t =
  rq_adx :: "32 word"
  rq_bid :: ngx_str_t
  rq_adx_slot :: "ngx_com_request_adx_slot_t list option"
  rq_device :: "ngx_com_request_device_t option"
  rq_app :: "ngx_com_request_app_t option"
  rq_unknown :: unknowns
  rq_has_adx :: bool
  rq_has_bid :: bool
  rq_has_adx_slot :: bool
  rq_has_device :: bool
  rq_has_app :: bool

text \<open>Cleared memory.\<close>

definition ngx_com_request_zero :: ngx_com_request_t where
  "ngx_com_request_zero =
    \<lparr>rq_adx = 0, rq_bid = \<lparr>slen = 0, sdata = NULL\<rparr>, rq_adx_slot = None, rq_device = None,
     rq_app = None, rq_unknown = None, rq_has_adx = False, rq_has_bid = False, rq_has_adx_slot = False,
     rq_has_device = False, rq_has_app = False\<rparr>"

definition ngx_com_request__add__adx_slot ::
    "'m pb_env \<Rightarrow> ngx_com_request_t \<Rightarrow> 'm pstate \<Rightarrow> bool \<Rightarrow> 'm pstate \<times> ngx_com_request_t \<times> bool" where
  "ngx_com_request__add__adx_slot env =
     add_element env 72 ngx_com_request_adx_slot_zero rq_adx_slot (\<lambda>v obj. obj\<lparr>rq_adx_slot := v\<rparr>) (\<lambda>obj. obj\<lparr>rq_has_adx_slot := True\<rparr>)"

definition ngx_com_request__unpack_adx_slot ::
    "'m pb_env \<Rightarrow> ngx_com_request_t \<Rightarrow> 'm ngx_protobuf_context_t \<Rightarrow> 64 word \<Rightarrow> (ngx_com_request_t, 'm) unpacked" where
  "ngx_com_request__unpack_adx_slot env =
     unpack_element (ngx_com_request__add__adx_slot env) (ngx_com_request_adx_slot_zero) (ngx_com_request_adx_slot__unpack env)
       rq_adx_slot (\<lambda>v obj. obj\<lparr>rq_adx_slot := v\<rparr>) (\<lambda>obj. obj\<lparr>rq_has_adx_slot := True\<rparr>)"

definition ngx_com_request__unpack_device ::
    "'m pb_env \<Rightarrow> ngx_com_request_t \<Rightarrow> 'm ngx_protobuf_context_t \<Rightarrow> 64 word \<Rightarrow> (ngx_com_request_t, 'm) unpacked" where
  "ngx_com_request__unpack_device env =
     unpack_member env 120 ngx_com_request_device_zero (ngx_com_request_device__unpack env)
       rq_device (\<lambda>v obj. obj\<lparr>rq_device := v\<rparr>) (\<lambda>obj. obj\<lparr>rq_has_device := True\<rparr>)"

definition ngx_com_request__unpack_app ::
    "'m pb_env \<Rightarrow> ngx_com_request_t \<Rightarrow> 'm ngx_protobuf_context_t \<Rightarrow> 64 word \<Rightarrow> (ngx_com_request_t, 'm) unpacked" where
  "ngx_com_request__unpack_app env =
     unpack_member env 40 ngx_com_request_app_zero (ngx_com_request_app__unpack env)
       rq_app (\<lambda>v obj. obj\<lparr>rq_app := v\<rparr>) (\<lambda>obj. obj\<lparr>rq_has_app := True\<rparr>)"

text \<open>The switch of \<^verbatim>\<open>__unpack\<close>, then its loop.\<close>

definition ngx_com_request_case :: "'m pb_env \<Rightarrow> 32 word \<Rightarrow> 32 word \<Rightarrow> ngx_com_request_t \<Rightarrow> 'm ngx_protobuf_context_t \<Rightarrow> (ngx_com_request_t, 'm) unpacked" where
  "ngx_com_request_case env field wire obj ctx =
     (if field = 1 then unpack_num env wire rq_adx (\<lambda>v obj. obj\<lparr>rq_adx := v\<rparr>) (\<lambda>obj. obj\<lparr>rq_has_adx := True\<rparr>) obj ctx
     else if field = 2 then unpack_str env wire rq_bid (\<lambda>v obj. obj\<lparr>rq_bid := v\<rparr>) (\<lambda>obj. obj\<lparr>rq_has_bid := True\<rparr>) obj ctx
     else if field = 3 then unpack_sub env wire (ngx_com_request__unpack_adx_slot env) obj ctx
     else if field = 4 then unpack_sub env wire (ngx_com_request__unpack_device env) obj ctx
     else if field = 5 then unpack_sub env wire (ngx_com_request__unpack_app env) obj ctx
     else unpack_unknown env field wire rq_unknown (\<lambda>v obj. obj\<lparr>rq_unknown := v\<rparr>) obj ctx)"

definition ngx_com_request__unpack :: "'m pb_env \<Rightarrow> ngx_com_request_t \<Rightarrow> 'm ngx_protobuf_context_t \<Rightarrow> (ngx_com_request_t, 'm) unpacked" where
  "ngx_com_request__unpack env obj ctx = unpack_loop (ngx_com_request_case env) (clast ctx) obj ctx"

definition ngx_com_request__size :: "ngx_com_request_t \<Rightarrow> nat option" where
  "ngx_com_request__size obj = size_message
     [Some (size_number (rq_has_adx obj) (rq_adx obj) 1),
      Some (size_str (rq_has_bid obj) (rq_bid obj) 2),
      size_elements ngx_com_request_adx_slot__size (rq_has_adx_slot obj) (rq_adx_slot obj) 3,
      size_member ngx_com_request_device__size (rq_has_device obj) (rq_device obj) 4,
      size_member ngx_com_request_app__size (rq_has_app obj) (rq_app obj) 5]
     (rq_unknown obj)"

definition ngx_com_request__pack :: "(ngx_com_request_t, 'm) packer" where
  "ngx_com_request__pack obj ctx = pack_message (ngx_com_request__size obj)
     [pack_num (rq_has_adx obj) (rq_adx obj) 1,
      pack_str (rq_has_bid obj) (rq_bid obj) 2,
      pack_elements ngx_com_request_adx_slot__size ngx_com_request_adx_slot__pack (rq_has_adx_slot obj) (rq_adx_slot obj) 3,
      pack_member ngx_com_request_device__size ngx_com_request_device__pack (rq_has_device obj) (rq_device obj) 4,
      pack_member ngx_com_request_app__size ngx_com_request_app__pack (rq_has_app obj) (rq_app obj) 5]
     (rq_unknown obj) ctx"

text \<open>The contents, and the strings that packing reads.\<close>

definition request_content :: "memory \<Rightarrow> ngx_com_request_t \<Rightarrow> (32 word \<times> wval list) list option" where
  "request_content m obj = content_of (rq_unknown obj)
     [(1, num_slot (rq_has_adx obj) (rq_adx obj)),
      (2, str_slot m (rq_has_bid obj) (rq_bid obj)),
      (3, elements_slot (adx_slot_content m) (rq_has_adx_slot obj) (rq_adx_slot obj)),
      (4, member_slot (device_content m) (rq_has_device obj) (rq_device obj)),
      (5, member_slot (app_content m) (rq_has_app obj) (rq_app obj))]"

definition request_strings :: "ngx_com_request_t \<Rightarrow> ngx_str_t list" where
  "request_strings obj = str_refs (rq_has_bid obj) (rq_bid obj) @
     elements_refs adx_slot_strings (rq_has_adx_slot obj) (rq_adx_slot obj) @
     member_refs device_strings (rq_has_device obj) (rq_device obj) @
     member_refs app_strings (rq_has_app obj) (rq_app obj)"

lemma request_packs:
  assumes "request_content m0 x = Some fs" "apart R (request_strings x)" "length (enc_fields fs) < 2 ^ 64"
  shows "message_packs m0 R ngx_com_request__size ngx_com_request__pack x (enc_fields fs)"
  by (rule message_packs_chain [where sz = ngx_com_request__size and pk = ngx_com_request__pack, OF ngx_com_request__size_def ngx_com_request__pack_def])
    (use assms in \<open>auto simp: request_content_def request_strings_def intro!: num_packs str_packs member_packs elements_packs adx_slot_packs device_packs app_packs\<close>)

lemma request_content_mono:
  assumes "request_content m x = Some fs" "m \<subseteq>\<^sub>m m'"
  shows "request_content m' x = Some fs"
  using assms
    str_slot_mono [OF _ assms(2)]
    elements_slot_mono [where c = adx_slot_content and m = m and m' = m', OF _ adx_slot_content_mono [OF _ assms(2)]]
    member_slot_mono [where c = device_content and m = m and m' = m', OF _ device_content_mono [OF _ assms(2)]]
    member_slot_mono [where c = app_content and m = m and m' = m', OF _ app_content_mono [OF _ assms(2)]]
  by (auto simp: request_content_def)

text \<open>Reading sets the flag with the array.\<close>

definition request_tidy :: "ngx_com_request_t \<Rightarrow> bool" where
  "request_tidy obj \<longleftrightarrow> (rq_adx_slot obj \<noteq> None \<longrightarrow> rq_has_adx_slot obj)"

lemma request_step:
  assumes "pool_serves env" "request_content m x = Some fs" "(n, vs) \<in> set fs" "v \<in> set vs" "solid v"
    "request_content (mem (cstate ctx)) y = Some (grouped [1, 2, 3, 4, 5] ps)" "request_tidy y"
    "n = 3 \<or> values_of n ps = []" "holds ctx (enc_body v)"
  shows "step_result request_content [1, 2, 3, 4, 5] request_tidy ctx (ngx_com_request_case env n (wire_type_of v) y ctx) ps n v"
proof -
  note y = request_content_mono [OF assms(6), unfolded request_content_def, simplified, simplified bind_eq_Some_conv, simplified]
  note y0 = y [OF map_le_refl]
  consider "n = 1" "num_slot (rq_has_adx x) (rq_adx x) = Some vs"
    | "n = 2" "str_slot m (rq_has_bid x) (rq_bid x) = Some vs"
    | "n = 3" "elements_slot (adx_slot_content m) (rq_has_adx_slot x) (rq_adx_slot x) = Some vs"
    | "n = 4" "member_slot (device_content m) (rq_has_device x) (rq_device x) = Some vs"
    | "n = 5" "member_slot (app_content m) (rq_has_app x) (rq_app x) = Some vs"
    using assms(2,3) by (auto simp: request_content_def)
  then show ?thesis
  proof cases
    case 1
    show ?thesis unfolding ngx_com_request_case_def 1(1)
      by (simp, rule num_step [OF 1(2) assms(4) assms(9)])
        (use y0 assms(8) 1(1) assms(7) in \<open>auto simp: request_content_def request_tidy_def split: option.splits\<close>)
  next
    case 2
    show ?thesis unfolding ngx_com_request_case_def 2(1)
      by (simp, rule str_step [OF 2(2) assms(4) assms(9) assms(5)])
        (use y0 assms(8) 2(1) assms(7) in \<open>auto simp: request_content_def request_tidy_def split: option.splits\<close>)
  next
    case 3
    show ?thesis unfolding ngx_com_request_case_def 3(1) ngx_com_request__unpack_adx_slot_def ngx_com_request__add__adx_slot_def
      by (simp, rule element_step [OF 3(2) assms(4) assms(9) assms(5,1) adx_slot_reads [OF assms(1)]])
        (use y assms(8) 3(1) assms(7) in \<open>auto simp: request_content_def request_tidy_def Let_def elements_slot_snoc split: option.splits\<close>)
  next
    case 4
    show ?thesis unfolding ngx_com_request_case_def 4(1) ngx_com_request__unpack_device_def
      by (simp, rule member_step [OF 4(2) assms(4) assms(9) assms(5,1) device_reads [OF assms(1)]])
        (use y assms(8) 4(1) assms(7) in \<open>auto simp: request_content_def request_tidy_def split: option.splits\<close>)
  next
    case 5
    show ?thesis unfolding ngx_com_request_case_def 5(1) ngx_com_request__unpack_app_def
      by (simp, rule member_step [OF 5(2) assms(4) assms(9) assms(5,1) app_reads [OF assms(1)]])
        (use y assms(8) 5(1) assms(7) in \<open>auto simp: request_content_def request_tidy_def split: option.splits\<close>)
  qed
qed

interpretation request: message_reader request_content ngx_com_request_zero "[1, 2, 3, 4, 5]" "(\<lambda>n. n = 3)" env "ngx_com_request_case env" "request_tidy"
  for env :: "'m pb_env"
proof (unfold_locales, goal_cases)
  case 7
  then show ?case by (rule request_content_mono)
next
  case 8
  show ?case by (rule request_step) (use 8 in simp_all)
qed (auto simp: request_content_def ngx_com_request_zero_def request_tidy_def intro: single_slots)

lemma request_reads:
  assumes "pool_serves env" "request_content m x = Some fs" "solid_fields fs"
  shows "message_reads request_content ngx_com_request_zero (ngx_com_request__unpack env) fs"
  by (rule request.unpack_reads [OF assms]) (simp add: ngx_com_request__unpack_def)

end
