(* ===== verification/Bid_Message.thy ===== *)
theory Bid_Message
  imports Com_Message
begin

text \<open>
  The kinds of fields that only the messages of \<^verbatim>\<open>ngx_baidu_proto.c\<close> have: numbers of 64 bits, flags,
  floating-point numbers, arrays of numbers and strings, and packed arrays; the code each gets in the
  generated functions, and what the cases of an \<^verbatim>\<open>__unpack\<close> function do with them.
\<close>

section \<open>Model: sizes\<close>

text \<open>A flag is written as \<^verbatim>\<open>(obj->f != 0)\<close>.\<close>

definition flag_word :: "64 word \<Rightarrow> 32 word" where
  "flag_word v = (if v \<noteq> 0 then 1 else 0)"

definition size_long :: "bool \<Rightarrow> 64 word \<Rightarrow> 32 word \<Rightarrow> nat" where
  "size_long has v fnum = (if has then ngx_protobuf_size_uint64_field v fnum else 0)"

definition size_float :: "bool \<Rightarrow> 32 word \<Rightarrow> nat" where
  "size_float has fnum = (if has then ngx_protobuf_size_fixed32_field fnum else 0)"

definition size_array :: "('v \<Rightarrow> 32 word \<Rightarrow> nat) \<Rightarrow> bool \<Rightarrow> 'v list option \<Rightarrow> 32 word \<Rightarrow> nat" where
  "size_array size_elt has a fnum =
     (case a of None \<Rightarrow> 0 | Some xs \<Rightarrow> if has then sum_list (map (\<lambda>v. size_elt v fnum) xs) else 0)"

definition packed_size :: "32 word list option \<Rightarrow> nat" where
  "packed_size a = (case a of None \<Rightarrow> 0 | Some xs \<Rightarrow> sum_list (map ngx_protobuf_size_uint32 xs))"

definition size_packed :: "bool \<Rightarrow> 32 word list option \<Rightarrow> 32 word \<Rightarrow> nat" where
  "size_packed has a fnum =
     (case a of None \<Rightarrow> 0
      | Some xs \<Rightarrow> if has \<and> xs \<noteq> [] then ngx_protobuf_size_message_field (packed_size a) fnum else 0)"

section \<open>Model: packing\<close>

definition pack_long :: "bool \<Rightarrow> 64 word \<Rightarrow> 32 word \<Rightarrow> 'm ngx_protobuf_context_t \<Rightarrow> 'm ngx_protobuf_context_t option" where
  "pack_long has v fnum ctx = (if has then emit ctx (\<lambda>m p. ngx_protobuf_write_uint64_field m p v fnum) else Some ctx)"

definition pack_float :: "bool \<Rightarrow> 32 word \<Rightarrow> 32 word \<Rightarrow> 'm ngx_protobuf_context_t \<Rightarrow> 'm ngx_protobuf_context_t option" where
  "pack_float has v fnum ctx = (if has then emit ctx (\<lambda>m p. ngx_protobuf_write_float_field m p v fnum) else Some ctx)"

definition pack_array ::
    "(memory \<Rightarrow> addr \<Rightarrow> 'v \<Rightarrow> 32 word \<Rightarrow> write_result) \<Rightarrow> bool \<Rightarrow> 'v list option \<Rightarrow> 32 word \<Rightarrow> 'm ngx_protobuf_context_t \<Rightarrow>
      'm ngx_protobuf_context_t option" where
  "pack_array wr has a fnum ctx =
     (case a of None \<Rightarrow> Some ctx
      | Some xs \<Rightarrow> if has then emit ctx (\<lambda>m p. write_each (\<lambda>m p v. wr m p v fnum) m p xs) else Some ctx)"

text \<open>The elements of a packed array are written with a header each, although the size counts none.\<close>

definition pack_packed :: "bool \<Rightarrow> 32 word list option \<Rightarrow> 32 word \<Rightarrow> 'm ngx_protobuf_context_t \<Rightarrow> 'm ngx_protobuf_context_t option" where
  "pack_packed has a fnum ctx =
     (case a of None \<Rightarrow> Some ctx
      | Some xs \<Rightarrow> if has \<and> xs \<noteq> [] then do {
           ctx \<leftarrow> emit ctx (\<lambda>m p. ngx_protobuf_write_message_header m p (packed_size a) fnum);
           emit ctx (\<lambda>m p. write_each (\<lambda>m p v. ngx_protobuf_write_uint32_field m p v fnum) m p xs) }
         else Some ctx)"

section \<open>Model: unpacking\<close>

definition unpack_long ::
    "'m pb_env \<Rightarrow> 32 word \<Rightarrow> ('x \<Rightarrow> 64 word) \<Rightarrow> (64 word \<Rightarrow> 'x \<Rightarrow> 'x) \<Rightarrow> ('x \<Rightarrow> 'x) \<Rightarrow> 'x \<Rightarrow> 'm ngx_protobuf_context_t \<Rightarrow> ('x, 'm) unpacked" where
  "unpack_long env wire get upd has obj ctx =
     (if wire = WIRE_VARINT then do {
        (p, v, rc) \<leftarrow> ngx_protobuf_read_uint64 (mem (cstate ctx)) (cpos ctx) (clast ctx) (get obj);
        if rc \<noteq> NGX_OK then Some (upd v obj, ctx\<lparr>cpos := p\<rparr>, NGX_ABORT)
        else Some (has (upd v obj), ctx\<lparr>cpos := p\<rparr>, NGX_OK) }
      else unpack_skip env wire obj ctx)"

definition unpack_flag ::
    "'m pb_env \<Rightarrow> 32 word \<Rightarrow> (64 word \<Rightarrow> 'x \<Rightarrow> 'x) \<Rightarrow> ('x \<Rightarrow> 'x) \<Rightarrow> 'x \<Rightarrow> 'm ngx_protobuf_context_t \<Rightarrow> ('x, 'm) unpacked" where
  "unpack_flag env wire upd has obj ctx =
     (if wire = WIRE_VARINT then do {
        (p, flag, rc) \<leftarrow> ngx_protobuf_read_uint32 (mem (cstate ctx)) (cpos ctx) (clast ctx) 0;
        if rc \<noteq> NGX_OK then Some (obj, ctx\<lparr>cpos := p\<rparr>, NGX_ABORT)
        else Some (has (upd (if flag \<noteq> 0 then 1 else 0) obj), ctx\<lparr>cpos := p\<rparr>, NGX_OK) }
      else unpack_skip env wire obj ctx)"

text \<open>A floating-point number is its four bytes.\<close>

definition unpack_float ::
    "'m pb_env \<Rightarrow> 32 word \<Rightarrow> ('x \<Rightarrow> 32 word) \<Rightarrow> (32 word \<Rightarrow> 'x \<Rightarrow> 'x) \<Rightarrow> ('x \<Rightarrow> 'x) \<Rightarrow> 'x \<Rightarrow> 'm ngx_protobuf_context_t \<Rightarrow> ('x, 'm) unpacked" where
  "unpack_float env wire get upd has obj ctx =
     (if wire = WIRE_FIXED32 then do {
        (m, p, v, rc) \<leftarrow> ngx_protobuf_read_float (mem (cstate ctx)) (cpos ctx) (clast ctx) (get obj);
        let ctx = ctx\<lparr>cstate := (cstate ctx)\<lparr>mem := m\<rparr>, cpos := p\<rparr>;
        if rc \<noteq> NGX_OK then Some (upd v obj, ctx, NGX_ABORT) else Some (has (upd v obj), ctx, NGX_OK) }
      else unpack_skip env wire obj ctx)"

text \<open>Arrays of values: the element is added, then read into; \<open>read\<close> gets its old value, that is 0.\<close>

type_synonym ('v, 'm) reader = "'m ngx_protobuf_context_t \<Rightarrow> 'v \<Rightarrow> ('m ngx_protobuf_context_t \<times> 'v \<times> ngx_int_t) option"

definition read_num :: "(32 word, 'm) reader" where
  "read_num ctx v = do {
     (p, v, rc) \<leftarrow> ngx_protobuf_read_uint32 (mem (cstate ctx)) (cpos ctx) (clast ctx) v; Some (ctx\<lparr>cpos := p\<rparr>, v, rc) }"

definition read_long :: "(64 word, 'm) reader" where
  "read_long ctx v = do {
     (p, v, rc) \<leftarrow> ngx_protobuf_read_uint64 (mem (cstate ctx)) (cpos ctx) (clast ctx) v; Some (ctx\<lparr>cpos := p\<rparr>, v, rc) }"

definition read_str :: "'m pb_env \<Rightarrow> (ngx_str_t, 'm) reader" where
  "read_str env ctx v = do {
     (s, p, v, rc) \<leftarrow> ngx_protobuf_read_string (e_palloc env) (cstate ctx) (cpos ctx) (clast ctx) v (\<not> reuse_strings ctx \<and> has_pool ctx);
     Some (ctx\<lparr>cstate := s, cpos := p\<rparr>, v, rc) }"

definition read_fixed64 :: "(64 word, 'm) reader" where
  "read_fixed64 ctx v = do {
     (m, p, v, rc) \<leftarrow> ngx_protobuf_read_fixed64 (mem (cstate ctx)) (cpos ctx) (clast ctx) v;
     Some (ctx\<lparr>cstate := (cstate ctx)\<lparr>mem := m\<rparr>, cpos := p\<rparr>, v, rc) }"

type_synonym ('x, 'm) adder = "'x \<Rightarrow> 'm pstate \<Rightarrow> bool \<Rightarrow> 'm pstate \<times> 'x \<times> bool"

definition push_value ::
    "('v, 'm) reader \<Rightarrow> ('x, 'm) adder \<Rightarrow> ('x \<Rightarrow> 'v list option) \<Rightarrow> ('v list option \<Rightarrow> 'x \<Rightarrow> 'x) \<Rightarrow> ('x \<Rightarrow> 'x) \<Rightarrow> 'x \<Rightarrow> 'm ngx_protobuf_context_t \<Rightarrow>
      ('x, 'm) unpacked" where
  "push_value read add get upd has obj ctx =
     (let (s, obj, ok) = add obj (cstate ctx) (has_pool ctx) in
       if \<not> ok then Some (obj, ctx\<lparr>cstate := s\<rparr>, NGX_ERROR)
       else do {
         xs \<leftarrow> get obj;
         (ctx, v, rc) \<leftarrow> read (ctx\<lparr>cstate := s\<rparr>) (last xs);
         let obj = upd (Some (butlast xs @ [v])) obj;
         Some (if rc \<noteq> NGX_OK then (obj, ctx, NGX_ABORT) else (has obj, ctx, NGX_OK)) })"

definition unpack_array ::
    "'m pb_env \<Rightarrow> 32 word \<Rightarrow> ('v, 'm) reader \<Rightarrow> 32 word \<Rightarrow> ('x, 'm) adder \<Rightarrow> ('x \<Rightarrow> 'v list option) \<Rightarrow> ('v list option \<Rightarrow> 'x \<Rightarrow> 'x) \<Rightarrow> ('x \<Rightarrow> 'x) \<Rightarrow>
      'x \<Rightarrow> 'm ngx_protobuf_context_t \<Rightarrow> ('x, 'm) unpacked" where
  "unpack_array env elt_wire read wire add get upd has obj ctx =
     (if wire = elt_wire then push_value read add get upd has obj ctx else unpack_skip env wire obj ctx)"

partial_function (option) packed_values ::
    "('x, 'm) adder \<Rightarrow> ('x \<Rightarrow> 32 word list option) \<Rightarrow> (32 word list option \<Rightarrow> 'x \<Rightarrow> 'x) \<Rightarrow> ('x \<Rightarrow> 'x) \<Rightarrow> addr \<Rightarrow> 'x \<Rightarrow> 'm ngx_protobuf_context_t \<Rightarrow>
      ('x, 'm) unpacked" where
  "packed_values add get upd has mend obj ctx =
     (if cpos ctx < mend then do {
        (obj, ctx, rc) \<leftarrow> push_value read_num add get upd has obj ctx;
        if rc \<noteq> NGX_OK then Some (obj, ctx, rc) else packed_values add get upd has mend obj ctx }
      else Some (obj, ctx, NGX_OK))"

definition unpack_packed_array ::
    "'m pb_env \<Rightarrow> 32 word \<Rightarrow> ('x, 'm) adder \<Rightarrow> ('x \<Rightarrow> 32 word list option) \<Rightarrow> (32 word list option \<Rightarrow> 'x \<Rightarrow> 'x) \<Rightarrow> ('x \<Rightarrow> 'x) \<Rightarrow>
      'x \<Rightarrow> 'm ngx_protobuf_context_t \<Rightarrow> ('x, 'm) unpacked" where
  "unpack_packed_array env wire add get upd has obj ctx =
     (if wire = WIRE_VARINT then push_value read_num add get upd has obj ctx
      else if wire = WIRE_LENGTH_DELIMITED then do {
        (p, mlen, rc) \<leftarrow> ngx_protobuf_read_uint32 (mem (cstate ctx)) (cpos ctx) (clast ctx) 0;
        let ctx = ctx\<lparr>cpos := p\<rparr>;
        let mend = p + ucast mlen;
        if rc \<noteq> NGX_OK then Some (obj, ctx, NGX_ABORT)
        else if mend > clast ctx then Some (obj, ctx, NGX_ABORT)
        else packed_values add get upd has mend obj ctx }
      else unpack_skip env wire obj ctx)"

section \<open>Contents\<close>

text \<open>Floating-point and fixed-size fields have no contents: reading one does not give the value that was written.\<close>

definition long_slot :: "bool \<Rightarrow> 64 word \<Rightarrow> wval list option" where
  "long_slot has v = Some (if has then [WLong v] else [])"

definition absent_slot :: "bool \<Rightarrow> wval list option" where
  "absent_slot has = (if has then None else Some [])"

definition nums_slot :: "('v \<Rightarrow> wval) \<Rightarrow> bool \<Rightarrow> 'v list option \<Rightarrow> wval list option" where
  "nums_slot w has a = Some (case a of None \<Rightarrow> [] | Some xs \<Rightarrow> if has then map w xs else [])"

definition strs_slot :: "memory \<Rightarrow> bool \<Rightarrow> ngx_str_t list option \<Rightarrow> wval list option" where
  "strs_slot m has a = (case a of None \<Rightarrow> Some []
     | Some xs \<Rightarrow> if has then those (map (\<lambda>s. map_option WStr (str_bytes m s)) xs) else Some [])"

definition packed_slot :: "bool \<Rightarrow> 32 word list option \<Rightarrow> wval list option" where
  "packed_slot has a = Some (case a of None \<Rightarrow> [] | Some xs \<Rightarrow> if has \<and> xs \<noteq> [] then [WPack xs] else [])"

text \<open>The contents in a larger memory, and the length of those of single fields.\<close>

lemma strs_slot_mono: "strs_slot m has a = Some vs \<Longrightarrow> m \<subseteq>\<^sub>m m' \<Longrightarrow> strs_slot m' has a = Some vs"
proof -
  assume a: "strs_slot m has a = Some vs" "m \<subseteq>\<^sub>m m'"
  have "those (map (\<lambda>s. map_option WStr (str_bytes m' s)) xs) = Some ws" if "those (map (\<lambda>s. map_option WStr (str_bytes m s)) xs) = Some ws" for xs ws
    using that load_mono [OF a(2)] by (induction xs arbitrary: ws) (auto simp: str_bytes_def split: option.splits)
  then show ?thesis using a(1) by (auto simp: strs_slot_def split: option.splits if_splits)
qed

lemma single_value_slots: "long_slot h w = Some vs \<Longrightarrow> length vs \<le> Suc 0" "absent_slot h = Some vs \<Longrightarrow> length vs \<le> Suc 0"
  "packed_slot h a = Some vs \<Longrightarrow> length vs \<le> Suc 0"
  by (auto simp: long_slot_def absent_slot_def packed_slot_def split: if_splits option.splits)

lemma empty_value_slots [simp]: "long_slot False w = Some []" "absent_slot False = Some []" "nums_slot f h None = Some []"
  "strs_slot m h None = Some []" "packed_slot h None = Some []"
  by (simp_all add: long_slot_def absent_slot_def nums_slot_def strs_slot_def packed_slot_def)

lemma filled_value_slots [simp]: "long_slot True w = Some [WLong w]"
  by (simp add: long_slot_def)

text \<open>What an array becomes; \<open>old\<close> are its elements before.\<close>

definition old :: "'v list option \<Rightarrow> 'v list" where
  "old a = (case a of None \<Rightarrow> [] | Some xs \<Rightarrow> xs)"

lemma nums_slot_snoc:
  assumes "a \<noteq> None \<Longrightarrow> h"
  shows "nums_slot w True (Some (old a @ [v])) = map_option (\<lambda>vs. vs @ [w v]) (nums_slot w h a)"
  using assms by (cases a) (simp_all add: nums_slot_def old_def)

lemma strs_slot_snoc:
  assumes "a \<noteq> None \<Longrightarrow> h" "str_bytes m s = Some bs"
  shows "strs_slot m True (Some (old a @ [s])) = map_option (\<lambda>vs. vs @ [WStr bs]) (strs_slot m h a)"
proof -
  have "those (map (\<lambda>s. map_option WStr (str_bytes m s)) (xs @ [s])) =
      map_option (\<lambda>ws. ws @ [WStr bs]) (those (map (\<lambda>s. map_option WStr (str_bytes m s)) xs))" for xs
    by (induction xs) (auto simp: assms(2) option.map_comp comp_def split: option.splits)
  then show ?thesis using assms by (cases a) (auto simp: strs_slot_def old_def)
qed

lemma packed_slot_fill: "packed_slot h a = Some [] \<Longrightarrow> (a \<noteq> None \<Longrightarrow> h) \<Longrightarrow> vs \<noteq> [] \<Longrightarrow> packed_slot True (Some (old a @ vs)) = Some [WPack vs]"
  by (cases a) (auto simp: packed_slot_def old_def split: if_splits)

lemma first_elements [simp]: "nums_slot w True (Some (old None @ [v])) = Some [w v]"
  "str_bytes m s = Some bs \<Longrightarrow> strs_slot m True (Some (old None @ [s])) = Some [WStr bs]"
  "vs \<noteq> [] \<Longrightarrow> packed_slot True (Some (old None @ vs)) = Some [WPack vs]"
  by (simp_all add: nums_slot_snoc strs_slot_snoc packed_slot_fill)

section \<open>Reading\<close>

lemma unpack_long_reads:
  assumes "holds ctx (varint v)"
  shows "unpack_long env WIRE_VARINT get upd has y ctx =
    Some (has (upd v y), ctx\<lparr>cpos := cpos ctx + of_nat (length (varint v))\<rparr>, NGX_OK)"
  using assms read_uint64_varint [of "mem (cstate ctx)" "cpos ctx" v "clast ctx" "get y"]
  by (simp add: unpack_long_def holds_def)

lemma unpack_flag_reads:
  assumes "holds ctx (varint (v :: 32 word))"
  shows "unpack_flag env WIRE_VARINT upd has y ctx =
    Some (has (upd (if v \<noteq> 0 then 1 else 0) y), ctx\<lparr>cpos := cpos ctx + of_nat (length (varint v))\<rparr>, NGX_OK)"
  using assms read_uint32_varint [of "mem (cstate ctx)" "cpos ctx" v "clast ctx" 0]
  by (simp add: unpack_flag_def holds_def)

lemma long_step:
  assumes "long_slot h w = Some vs" "v \<in> set vs" "holds ctx (enc_body v)"
    "\<And>u. content (mem (cstate ctx)) (has (upd u y)) = Some (grouped nums (ps @ [(n, WLong u)])) \<and> tidy (has (upd u y))"
  shows "step_result content nums tidy ctx (unpack_long env (wire_type_of v) get upd has y ctx) ps n v"
proof -
  have v: "v = WLong w" using assms(1,2) by (auto simp: long_slot_def split: if_splits)
  then show ?thesis using unpack_long_reads [of ctx w env get upd has y] assms(3,4)
    by (auto simp: step_result_def wire_type_of_def intro!: exI [of _ "cstate ctx"])
qed

lemma flag_step:
  assumes "num_slot h (flag_word w) = Some vs" "v \<in> set vs" "holds ctx (enc_body v)"
    "\<And>u. content (mem (cstate ctx)) (has (upd u y)) = Some (grouped nums (ps @ [(n, WNum (flag_word u))])) \<and> tidy (has (upd u y))"
  shows "step_result content nums tidy ctx (unpack_flag env (wire_type_of v) upd has y ctx) ps n v"
proof -
  let ?u = "if flag_word w \<noteq> 0 then 1 else 0 :: 64 word"
  have v: "v = WNum (flag_word w)" "flag_word ?u = flag_word w"
    using assms(1,2) by (auto simp: num_slot_def flag_word_def split: if_splits)
  then show ?thesis using unpack_flag_reads [of ctx "flag_word w" env upd has y] assms(3) assms(4) [of ?u] unfolding step_result_def v
    by (intro exI [of _ "has (upd ?u y)"] exI [of _ "cstate ctx"]) (simp add: wire_type_of_def v(1))
qed

text \<open>A new element: \<open>get\<close>, \<open>upd\<close> and \<open>has\<close> are those of a member of a structure.\<close>

definition member_laws :: "('x \<Rightarrow> 'v list option) \<Rightarrow> ('v list option \<Rightarrow> 'x \<Rightarrow> 'x) \<Rightarrow> ('x \<Rightarrow> 'x) \<Rightarrow> bool" where
  "member_laws get upd has \<longleftrightarrow> (\<forall>a y. get (has (upd a y)) = a) \<and> (\<forall>a b y. has (upd a (has (upd b y))) = has (upd a y))"

lemma push_value_reads:
  assumes "pool_serves env" "has_pool ctx" "member_laws get upd has"
    "\<And>s v0. mem (cstate ctx) \<subseteq>\<^sub>m mem s \<Longrightarrow> read (ctx\<lparr>cstate := s\<rparr>) v0 = Some (ctx\<lparr>cstate := s, cpos := p\<rparr>, v v0, NGX_OK)"
  shows "\<exists>s. push_value read (add_element env sz zero get upd has) get upd has y ctx =
      Some (has (upd (Some (old (get y) @ [v zero])) y), ctx\<lparr>cstate := s, cpos := p\<rparr>, NGX_OK) \<and> mem (cstate ctx) \<subseteq>\<^sub>m mem s"
proof -
  obtain s where s: "ngx_protobuf_push_array env (cstate ctx) (get y) True sz zero = (s, Some (old (get y) @ [zero]), True)"
    "mem (cstate ctx) \<subseteq>\<^sub>m mem s" using push_array_serves [OF assms(1), of "get y" True "cstate ctx" sz zero] by (auto simp: old_def)
  then show ?thesis using assms(2,3) assms(4) [OF s(2)]
    by (intro exI [of _ s]) (simp add: push_value_def add_element_def member_laws_def)
qed

lemma array_step:
  assumes "pool_serves env" "holds ctx (enc_body v)" "wire_type_of v = w" "member_laws get upd has"
    "\<And>s v0. mem (cstate ctx) \<subseteq>\<^sub>m mem s \<Longrightarrow> holds (ctx\<lparr>cstate := s\<rparr>) (enc_body v) \<Longrightarrow>
      read (ctx\<lparr>cstate := s\<rparr>) v0 = Some (ctx\<lparr>cstate := s, cpos := cpos ctx + of_nat (length (enc_body v))\<rparr>, f v0, NGX_OK)"
    "\<And>m'. mem (cstate ctx) \<subseteq>\<^sub>m m' \<Longrightarrow>
      content m' (has (upd (Some (old (get y) @ [f zero])) y)) = Some (grouped nums (ps @ [(n, v)])) \<and>
      tidy (has (upd (Some (old (get y) @ [f zero])) y))"
  shows "step_result content nums tidy ctx
    (unpack_array env w read (wire_type_of v) (add_element env sz zero get upd has) get upd has y ctx) ps n v"
proof -
  have "holds (ctx\<lparr>cstate := s\<rparr>) (enc_body v)" if "mem (cstate ctx) \<subseteq>\<^sub>m mem s" for s
    using assms(2) load_mono [OF that] by (simp add: holds_def)
  then obtain s where s: "push_value read (add_element env sz zero get upd has) get upd has y ctx =
      Some (has (upd (Some (old (get y) @ [f zero])) y), ctx\<lparr>cstate := s, cpos := cpos ctx + of_nat (length (enc_body v))\<rparr>, NGX_OK)"
      "mem (cstate ctx) \<subseteq>\<^sub>m mem s"
    using push_value_reads [OF assms(1) _ assms(4), of ctx read "cpos ctx + of_nat (length (enc_body v))" f sz zero y] assms(2,5)
    by (auto simp: holds_def)
  then show ?thesis using assms(3) assms(6) [of "mem s"] unfolding step_result_def
    by (intro exI [of _ "has (upd (Some (old (get y) @ [f zero])) y)"] exI [of _ s]) (simp add: unpack_array_def)
qed

text \<open>Instances for numbers and strings; the last premise of each is what the update does to the contents.\<close>

lemma nums_step:
  assumes "nums_slot WNum h a = Some vs" "v \<in> set vs" "holds ctx (enc_body v)" "pool_serves env" "member_laws get upd has"
    "\<And>m' u. mem (cstate ctx) \<subseteq>\<^sub>m m' \<Longrightarrow>
      content m' (has (upd (Some (old (get y) @ [u])) y)) = Some (grouped nums (ps @ [(n, WNum u)])) \<and> tidy (has (upd (Some (old (get y) @ [u])) y))"
  shows "step_result content nums tidy ctx
    (unpack_array env WIRE_VARINT read_num (wire_type_of v) (add_element env sz zero get upd has) get upd has y ctx) ps n v"
proof -
  obtain u where v: "v = WNum u" using assms(1,2) by (auto simp: nums_slot_def split: option.splits if_splits)
  show ?thesis
    by (rule array_step [where f = "\<lambda>_. u", OF assms(4,3) _ assms(5)])
      (use assms(6) [of _ u] read_uint32_varint [of _ "cpos ctx" u "clast ctx"] in \<open>auto simp: v wire_type_of_def read_num_def holds_def\<close>)
qed

lemma longs_step:
  assumes "nums_slot WLong h a = Some vs" "v \<in> set vs" "holds ctx (enc_body v)" "pool_serves env" "member_laws get upd has"
    "\<And>m' u. mem (cstate ctx) \<subseteq>\<^sub>m m' \<Longrightarrow>
      content m' (has (upd (Some (old (get y) @ [u])) y)) = Some (grouped nums (ps @ [(n, WLong u)])) \<and> tidy (has (upd (Some (old (get y) @ [u])) y))"
  shows "step_result content nums tidy ctx
    (unpack_array env WIRE_VARINT read_long (wire_type_of v) (add_element env sz zero get upd has) get upd has y ctx) ps n v"
proof -
  obtain u where v: "v = WLong u" using assms(1,2) by (auto simp: nums_slot_def split: option.splits if_splits)
  show ?thesis
    by (rule array_step [where f = "\<lambda>_. u", OF assms(4,3) _ assms(5)])
      (use assms(6) [of _ u] read_uint64_varint [of _ "cpos ctx" u "clast ctx"] in \<open>auto simp: v wire_type_of_def read_long_def holds_def\<close>)
qed

lemma packed_values_reads:
  assumes "pool_serves env" "member_laws get upd has"
  shows "holds ctx (concat (map varint vs)) \<Longrightarrow> unat (cpos ctx) + length (concat (map varint vs)) = unat mend \<Longrightarrow>
    \<exists>s. packed_values (add_element env sz zero get upd has) get upd has mend y ctx =
      Some (if vs = [] then y else has (upd (Some (old (get y) @ vs)) y), ctx\<lparr>cstate := s, cpos := mend\<rparr>, NGX_OK) \<and>
      mem (cstate ctx) \<subseteq>\<^sub>m mem s"
proof (induction vs arbitrary: y ctx)
  case Nil
  then have "ctx\<lparr>cstate := cstate ctx, cpos := mend\<rparr> = ctx" "\<not> cpos ctx < mend" by (cases ctx, simp_all add: word_unat_eq_iff word_less_nat_alt)
  then show ?case by (subst packed_values.simps) (auto intro!: exI [of _ "cstate ctx"])
next
  case (Cons v vs)
  have H: "holds ctx (varint v @ concat (map varint vs))" using Cons.prems(1) by simp
  let ?p = "cpos ctx + of_nat (length (varint v))"
  have r: "read_num (ctx\<lparr>cstate := s\<rparr>) v0 = Some (ctx\<lparr>cstate := s, cpos := ?p\<rparr>, v, NGX_OK)" if "mem (cstate ctx) \<subseteq>\<^sub>m mem s" for s v0
    using read_uint32_varint [of "mem s" "cpos ctx" v "clast ctx" v0] holds_append(1) [OF H] load_mono [OF that]
    by (simp add: read_num_def holds_def)
  obtain s where s: "push_value read_num (add_element env sz zero get upd has) get upd has y ctx =
      Some (has (upd (Some (old (get y) @ [v])) y), ctx\<lparr>cstate := s, cpos := ?p\<rparr>, NGX_OK)" "mem (cstate ctx) \<subseteq>\<^sub>m mem s"
    using push_value_reads [OF assms(1) _ assms(2), of ctx read_num ?p "\<lambda>_. v" sz zero y] r H by (auto simp: holds_def)
  let ?ctx = "ctx\<lparr>cstate := s, cpos := ?p\<rparr>" and ?y = "has (upd (Some (old (get y) @ [v])) y)"
  have u: "unat ?p = unat (cpos ctx) + length (varint v)" using holds_append(3) [OF H] by simp
  obtain s' where s': "packed_values (add_element env sz zero get upd has) get upd has mend ?y ?ctx =
      Some (if vs = [] then ?y else has (upd (Some (old (get ?y) @ vs)) ?y), ?ctx\<lparr>cstate := s', cpos := mend\<rparr>, NGX_OK)"
      "mem s \<subseteq>\<^sub>m mem s'"
    using Cons.IH [of ?ctx ?y] holds_append(2) [OF H s(2)] Cons.prems(2) u by auto
  have "length (varint v) \<noteq> 0" by simp
  then have "unat (cpos ctx) < unat mend" using Cons.prems(2) unfolding list.map concat.simps length_append by linarith
  then have c: "cpos ctx < mend" by (simp add: word_less_nat_alt)
  have "packed_values (add_element env sz zero get upd has) get upd has mend y ctx =
      Some (has (upd (Some (old (get y) @ v # vs)) y), ctx\<lparr>cstate := s', cpos := mend\<rparr>, NGX_OK)"
    using s(1) s'(1) assms(2) c by (subst packed_values.simps) (simp add: member_laws_def old_def)
  then show ?case using map_le_trans [OF s(2) s'(2)] by auto
qed

lemma strs_step:
  assumes "strs_slot m h a = Some vs" "v \<in> set vs" "holds ctx (enc_body v)" "solid v" "pool_serves env" "member_laws get upd has"
    "\<And>m' w bs. mem (cstate ctx) \<subseteq>\<^sub>m m' \<Longrightarrow> str_bytes m' w = Some bs \<Longrightarrow>
      content m' (has (upd (Some (old (get y) @ [w])) y)) = Some (grouped nums (ps @ [(n, WStr bs)])) \<and> tidy (has (upd (Some (old (get y) @ [w])) y))"
  shows "step_result content nums tidy ctx
    (unpack_array env WIRE_LENGTH_DELIMITED (read_str env) (wire_type_of v) (add_element env sz zero get upd has) get upd has y ctx) ps n v"
proof -
  obtain bs where v: "v = WStr bs"
    using assms(1,2) by (auto simp: strs_slot_def map_option_eq_Some eq_commute [of "Some v"] dest!: those_in [of _ _ v] split: option.splits if_splits)
  obtain w where w: "str_bytes (mem (cstate ctx)) w = Some bs" "\<And>v s. mem (cstate ctx) \<subseteq>\<^sub>m mem s \<Longrightarrow>
      ngx_protobuf_read_string (e_palloc env) s (cpos ctx) (clast ctx) v False = Some (s, cpos ctx + of_nat (length (enc_string bs)), w, NGX_OK)"
    using string_reads [of ctx bs env] assms(3,4) by (auto simp: v)
  show ?thesis
    by (rule array_step [where f = "\<lambda>_. w", OF assms(5,3) _ assms(6)])
      (use assms(3) assms(7) [of _ w bs] w in \<open>auto simp: v wire_type_of_def read_str_def holds_def str_bytes_def load_mono\<close>)
qed

lemma packed_step:
  assumes "packed_slot h a = Some vs" "v \<in> set vs" "holds ctx (enc_body v)" "solid v" "pool_serves env" "member_laws get upd has"
    "\<And>m' us. mem (cstate ctx) \<subseteq>\<^sub>m m' \<Longrightarrow> us \<noteq> [] \<Longrightarrow>
      content m' (has (upd (Some (old (get y) @ us)) y)) = Some (grouped nums (ps @ [(n, WPack us)])) \<and> tidy (has (upd (Some (old (get y) @ us)) y))"
  shows "step_result content nums tidy ctx
    (unpack_packed_array env (wire_type_of v) (add_element env sz zero get upd has) get upd has y ctx) ps n v"
proof -
  obtain us where v: "v = WPack us" "us \<noteq> []" using assms(1,2) by (auto simp: packed_slot_def split: option.splits if_splits)
  let ?bs = "concat (map varint us)" and ?y = "has (upd (Some (old (get y) @ us)) y)"
  let ?n = "of_nat (length ?bs) :: 64 word"
  have b: "length ?bs < 2 ^ 32" "?bs \<noteq> []" using assms(4) v(2) by (cases us, simp_all add: v(1))
  from sub_context [OF assms(3) [unfolded v(1) enc_body.simps] b] obtain p where p:
    "ngx_protobuf_read_uint32 (mem (cstate ctx)) (cpos ctx) (clast ctx) 0 = Some (p, of_nat (length ?bs), NGX_OK)"
    "p + ?n = cpos ctx + of_nat (length (enc_string ?bs))" "\<not> clast ctx < p + ?n"
    "\<forall>s. mem (cstate ctx) \<subseteq>\<^sub>m mem s \<longrightarrow> holds (ctx\<lparr>cpos := p, cstate := s, clast := p + ?n\<rparr>) ?bs" "unat p + length ?bs = unat (p + ?n)" by blast
  have "holds (ctx\<lparr>cpos := p\<rparr>) ?bs" using p(3,5) p(4) [rule_format, of "cstate ctx"] by (simp add: holds_def word_less_nat_alt)
  then obtain s where s: "packed_values (add_element env sz zero get upd has) get upd has (p + ?n) y (ctx\<lparr>cpos := p\<rparr>) =
      Some (?y, ctx\<lparr>cstate := s, cpos := p + ?n\<rparr>, NGX_OK)" "mem (cstate ctx) \<subseteq>\<^sub>m mem s"
    using packed_values_reads [OF assms(5,6), of "ctx\<lparr>cpos := p\<rparr>" us "p + ?n" sz zero y] p(5) v(2) by auto
  have "unpack_packed_array env WIRE_LENGTH_DELIMITED (add_element env sz zero get upd has) get upd has y ctx =
      Some (?y, ctx\<lparr>cstate := s, cpos := p + ?n\<rparr>, NGX_OK)"
    using p(3) by (simp add: unpack_packed_array_def p(1) of_nat_ucast_32 [OF b(1)] s(1) Let_def)
  then show ?thesis using s(2) assms(7) [OF s(2) v(2)] unfolding step_result_def
    by (intro exI [of _ ?y] exI [of _ s]) (simp add: v(1) wire_type_of_def p(2))
qed

end
