(* ===== verification/Bid_User.thy ===== *)
theory Bid_User
  imports Bid_Message
begin

text \<open>
  The messages about the user: \<^verbatim>\<open>BidRequest.BaiduId\<close>, \<^verbatim>\<open>CustomizedUserTag\<close> and \<^verbatim>\<open>Geo\<close>,
  of \<^verbatim>\<open>ngx_baidu_proto.c\<close>: the records, one definition per function and, by an interpretation of
  \<open>message_reader\<close>, what unpacking reads.
\<close>

section \<open>\<^verbatim>\<open>BidRequest.BaiduId\<close>\<close>

record ngx_bid_request_baidu_id_t =
  bi_baidu_user_id :: ngx_str_t
  bi_baidu_user_id_version :: "32 word"
  bi_unknown :: unknowns
  bi_has_baidu_user_id :: bool
  bi_has_baidu_user_id_version :: bool

text \<open>Cleared memory.\<close>

definition ngx_bid_request_baidu_id_zero :: ngx_bid_request_baidu_id_t where
  "ngx_bid_request_baidu_id_zero =
    \<lparr>bi_baidu_user_id = \<lparr>slen = 0, sdata = NULL\<rparr>, bi_baidu_user_id_version = 0, bi_unknown = None,
     bi_has_baidu_user_id = False, bi_has_baidu_user_id_version = False\<rparr>"

text \<open>The switch of \<^verbatim>\<open>__unpack\<close>, then its loop.\<close>

definition ngx_bid_request_baidu_id_case :: "'m pb_env \<Rightarrow> 32 word \<Rightarrow> 32 word \<Rightarrow> ngx_bid_request_baidu_id_t \<Rightarrow> 'm ngx_protobuf_context_t \<Rightarrow> (ngx_bid_request_baidu_id_t, 'm) unpacked" where
  "ngx_bid_request_baidu_id_case env field wire obj ctx =
     (if field = 1 then unpack_str env wire bi_baidu_user_id (\<lambda>v obj. obj\<lparr>bi_baidu_user_id := v\<rparr>) (\<lambda>obj. obj\<lparr>bi_has_baidu_user_id := True\<rparr>) obj ctx
     else if field = 2 then unpack_num env wire bi_baidu_user_id_version (\<lambda>v obj. obj\<lparr>bi_baidu_user_id_version := v\<rparr>) (\<lambda>obj. obj\<lparr>bi_has_baidu_user_id_version := True\<rparr>) obj ctx
     else unpack_unknown env field wire bi_unknown (\<lambda>v obj. obj\<lparr>bi_unknown := v\<rparr>) obj ctx)"

definition ngx_bid_request_baidu_id__unpack :: "'m pb_env \<Rightarrow> ngx_bid_request_baidu_id_t \<Rightarrow> 'm ngx_protobuf_context_t \<Rightarrow> (ngx_bid_request_baidu_id_t, 'm) unpacked" where
  "ngx_bid_request_baidu_id__unpack env obj ctx = unpack_loop (ngx_bid_request_baidu_id_case env) (clast ctx) obj ctx"

definition ngx_bid_request_baidu_id__size :: "ngx_bid_request_baidu_id_t \<Rightarrow> nat option" where
  "ngx_bid_request_baidu_id__size obj = size_message
     [Some (size_str (bi_has_baidu_user_id obj) (bi_baidu_user_id obj) 1),
      Some (size_number (bi_has_baidu_user_id_version obj) (bi_baidu_user_id_version obj) 2)]
     (bi_unknown obj)"

definition ngx_bid_request_baidu_id__pack :: "(ngx_bid_request_baidu_id_t, 'm) packer" where
  "ngx_bid_request_baidu_id__pack obj ctx = pack_message (ngx_bid_request_baidu_id__size obj)
     [pack_str (bi_has_baidu_user_id obj) (bi_baidu_user_id obj) 1,
      pack_num (bi_has_baidu_user_id_version obj) (bi_baidu_user_id_version obj) 2]
     (bi_unknown obj) ctx"

text \<open>The contents.\<close>

definition baidu_id_content :: "memory \<Rightarrow> ngx_bid_request_baidu_id_t \<Rightarrow> (32 word \<times> wval list) list option" where
  "baidu_id_content m obj = content_of (bi_unknown obj)
     [(1, str_slot m (bi_has_baidu_user_id obj) (bi_baidu_user_id obj)),
      (2, num_slot (bi_has_baidu_user_id_version obj) (bi_baidu_user_id_version obj))]"

lemma baidu_id_content_mono:
  assumes "baidu_id_content m x = Some fs" "m \<subseteq>\<^sub>m m'"
  shows "baidu_id_content m' x = Some fs"
  using assms str_slot_mono [OF _ assms(2)]
  by (auto simp: baidu_id_content_def)

lemma baidu_id_step:
  assumes "pool_serves env" "baidu_id_content m x = Some fs" "(n, vs) \<in> set fs" "v \<in> set vs" "solid v"
    "baidu_id_content (mem (cstate ctx)) y = Some (grouped [1, 2] ps)"
    "values_of n ps = []" "holds ctx (enc_body v)"
  shows "step_result baidu_id_content [1, 2] (\<lambda>_. True) ctx (ngx_bid_request_baidu_id_case env n (wire_type_of v) y ctx) ps n v"
proof -
  note y = baidu_id_content_mono [OF assms(6), unfolded baidu_id_content_def, simplified, simplified bind_eq_Some_conv, simplified]
  note y0 = y [OF map_le_refl]
  consider "n = 1" "str_slot m (bi_has_baidu_user_id x) (bi_baidu_user_id x) = Some vs"
    | "n = 2" "num_slot (bi_has_baidu_user_id_version x) (bi_baidu_user_id_version x) = Some vs"
    using assms(2,3) by (auto simp: baidu_id_content_def)
  then show ?thesis
  proof cases
    case 1
    show ?thesis unfolding ngx_bid_request_baidu_id_case_def 1(1)
      by (simp, rule str_step [OF 1(2) assms(4) assms(8) assms(5)])
        (use y0 assms(7) 1(1) in \<open>auto simp: baidu_id_content_def split: option.splits\<close>)
  next
    case 2
    show ?thesis unfolding ngx_bid_request_baidu_id_case_def 2(1)
      by (simp, rule num_step [OF 2(2) assms(4) assms(8)])
        (use y0 assms(7) 2(1) in \<open>auto simp: baidu_id_content_def split: option.splits\<close>)
  qed
qed

interpretation baidu_id: message_reader baidu_id_content ngx_bid_request_baidu_id_zero "[1, 2]"
  "(\<lambda>n. False)" env "ngx_bid_request_baidu_id_case env" "(\<lambda>_. True)"
  for env :: "'m pb_env"
proof (unfold_locales, goal_cases)
  case 7
  then show ?case by (rule baidu_id_content_mono)
next
  case 8
  show ?case by (rule baidu_id_step) (use 8 in simp_all)
qed (auto simp: baidu_id_content_def ngx_bid_request_baidu_id_zero_def intro: single_slots single_value_slots)

lemma baidu_id_reads:
  assumes "pool_serves env" "baidu_id_content m x = Some fs" "solid_fields fs"
  shows "message_reads baidu_id_content ngx_bid_request_baidu_id_zero (ngx_bid_request_baidu_id__unpack env) fs"
  by (rule baidu_id.unpack_reads [OF assms]) (simp add: ngx_bid_request_baidu_id__unpack_def)

section \<open>\<^verbatim>\<open>BidRequest.CustomizedUserTag.AmsTag\<close>\<close>

record ngx_bid_request_customized_user_tag_ams_tag_t =
  at_tag_id :: "64 word"
  at_unknown :: unknowns
  at_has_tag_id :: bool

text \<open>Cleared memory.\<close>

definition ngx_bid_request_customized_user_tag_ams_tag_zero :: ngx_bid_request_customized_user_tag_ams_tag_t where
  "ngx_bid_request_customized_user_tag_ams_tag_zero =
    \<lparr>at_tag_id = 0, at_unknown = None, at_has_tag_id = False\<rparr>"

text \<open>The switch of \<^verbatim>\<open>__unpack\<close>, then its loop.\<close>

definition ngx_bid_request_customized_user_tag_ams_tag_case :: "'m pb_env \<Rightarrow> 32 word \<Rightarrow> 32 word \<Rightarrow> ngx_bid_request_customized_user_tag_ams_tag_t \<Rightarrow> 'm ngx_protobuf_context_t \<Rightarrow> (ngx_bid_request_customized_user_tag_ams_tag_t, 'm) unpacked" where
  "ngx_bid_request_customized_user_tag_ams_tag_case env field wire obj ctx =
     (if field = 1 then unpack_long env wire at_tag_id (\<lambda>v obj. obj\<lparr>at_tag_id := v\<rparr>) (\<lambda>obj. obj\<lparr>at_has_tag_id := True\<rparr>) obj ctx
     else unpack_unknown env field wire at_unknown (\<lambda>v obj. obj\<lparr>at_unknown := v\<rparr>) obj ctx)"

definition ngx_bid_request_customized_user_tag_ams_tag__unpack :: "'m pb_env \<Rightarrow> ngx_bid_request_customized_user_tag_ams_tag_t \<Rightarrow> 'm ngx_protobuf_context_t \<Rightarrow> (ngx_bid_request_customized_user_tag_ams_tag_t, 'm) unpacked" where
  "ngx_bid_request_customized_user_tag_ams_tag__unpack env obj ctx = unpack_loop (ngx_bid_request_customized_user_tag_ams_tag_case env) (clast ctx) obj ctx"

definition ngx_bid_request_customized_user_tag_ams_tag__size :: "ngx_bid_request_customized_user_tag_ams_tag_t \<Rightarrow> nat option" where
  "ngx_bid_request_customized_user_tag_ams_tag__size obj = size_message
     [Some (size_long (at_has_tag_id obj) (at_tag_id obj) 1)]
     (at_unknown obj)"

definition ngx_bid_request_customized_user_tag_ams_tag__pack :: "(ngx_bid_request_customized_user_tag_ams_tag_t, 'm) packer" where
  "ngx_bid_request_customized_user_tag_ams_tag__pack obj ctx = pack_message (ngx_bid_request_customized_user_tag_ams_tag__size obj)
     [pack_long (at_has_tag_id obj) (at_tag_id obj) 1]
     (at_unknown obj) ctx"

text \<open>The contents.\<close>

definition ams_tag_content :: "memory \<Rightarrow> ngx_bid_request_customized_user_tag_ams_tag_t \<Rightarrow> (32 word \<times> wval list) list option" where
  "ams_tag_content m obj = content_of (at_unknown obj)
     [(1, long_slot (at_has_tag_id obj) (at_tag_id obj))]"

lemma ams_tag_content_mono:
  assumes "ams_tag_content m x = Some fs" "m \<subseteq>\<^sub>m m'"
  shows "ams_tag_content m' x = Some fs"
  using assms
  by (auto simp: ams_tag_content_def)

lemma ams_tag_step:
  assumes "pool_serves env" "ams_tag_content m x = Some fs" "(n, vs) \<in> set fs" "v \<in> set vs" "solid v"
    "ams_tag_content (mem (cstate ctx)) y = Some (grouped [1] ps)"
    "values_of n ps = []" "holds ctx (enc_body v)"
  shows "step_result ams_tag_content [1] (\<lambda>_. True) ctx (ngx_bid_request_customized_user_tag_ams_tag_case env n (wire_type_of v) y ctx) ps n v"
proof -
  note y = ams_tag_content_mono [OF assms(6), unfolded ams_tag_content_def, simplified, simplified bind_eq_Some_conv, simplified]
  note y0 = y [OF map_le_refl]
  consider "n = 1" "long_slot (at_has_tag_id x) (at_tag_id x) = Some vs"
    using assms(2,3) by (auto simp: ams_tag_content_def)
  then show ?thesis
  proof cases
    case 1
    show ?thesis unfolding ngx_bid_request_customized_user_tag_ams_tag_case_def 1(1)
      by (simp, rule long_step [OF 1(2) assms(4) assms(8)])
        (use y0 assms(7) 1(1) in \<open>auto simp: ams_tag_content_def split: option.splits\<close>)
  qed
qed

interpretation ams_tag: message_reader ams_tag_content ngx_bid_request_customized_user_tag_ams_tag_zero "[1]"
  "(\<lambda>n. False)" env "ngx_bid_request_customized_user_tag_ams_tag_case env" "(\<lambda>_. True)"
  for env :: "'m pb_env"
proof (unfold_locales, goal_cases)
  case 7
  then show ?case by (rule ams_tag_content_mono)
next
  case 8
  show ?case by (rule ams_tag_step) (use 8 in simp_all)
qed (auto simp: ams_tag_content_def ngx_bid_request_customized_user_tag_ams_tag_zero_def intro: single_slots single_value_slots)

lemma ams_tag_reads:
  assumes "pool_serves env" "ams_tag_content m x = Some fs" "solid_fields fs"
  shows "message_reads ams_tag_content ngx_bid_request_customized_user_tag_ams_tag_zero (ngx_bid_request_customized_user_tag_ams_tag__unpack env) fs"
  by (rule ams_tag.unpack_reads [OF assms]) (simp add: ngx_bid_request_customized_user_tag_ams_tag__unpack_def)

section \<open>\<^verbatim>\<open>BidRequest.CustomizedUserTag\<close>\<close>

record ngx_bid_request_customized_user_tag_t =
  ut_ams_tag_list :: "ngx_bid_request_customized_user_tag_ams_tag_t list option"
  ut_unknown :: unknowns
  ut_has_ams_tag_list :: bool

text \<open>Cleared memory.\<close>

definition ngx_bid_request_customized_user_tag_zero :: ngx_bid_request_customized_user_tag_t where
  "ngx_bid_request_customized_user_tag_zero =
    \<lparr>ut_ams_tag_list = None, ut_unknown = None, ut_has_ams_tag_list = False\<rparr>"

definition ngx_bid_request_customized_user_tag__add__ams_tag_list ::
    "'m pb_env \<Rightarrow> ngx_bid_request_customized_user_tag_t \<Rightarrow> 'm pstate \<Rightarrow> bool \<Rightarrow> 'm pstate \<times> ngx_bid_request_customized_user_tag_t \<times> bool" where
  "ngx_bid_request_customized_user_tag__add__ams_tag_list env =
     add_element env 24 ngx_bid_request_customized_user_tag_ams_tag_zero ut_ams_tag_list (\<lambda>v obj. obj\<lparr>ut_ams_tag_list := v\<rparr>) (\<lambda>obj. obj\<lparr>ut_has_ams_tag_list := True\<rparr>)"

definition ngx_bid_request_customized_user_tag__unpack_ams_tag_list ::
    "'m pb_env \<Rightarrow> ngx_bid_request_customized_user_tag_t \<Rightarrow> 'm ngx_protobuf_context_t \<Rightarrow> 64 word \<Rightarrow> (ngx_bid_request_customized_user_tag_t, 'm) unpacked" where
  "ngx_bid_request_customized_user_tag__unpack_ams_tag_list env =
     unpack_element (ngx_bid_request_customized_user_tag__add__ams_tag_list env) ngx_bid_request_customized_user_tag_ams_tag_zero (ngx_bid_request_customized_user_tag_ams_tag__unpack env)
       ut_ams_tag_list (\<lambda>v obj. obj\<lparr>ut_ams_tag_list := v\<rparr>) (\<lambda>obj. obj\<lparr>ut_has_ams_tag_list := True\<rparr>)"

text \<open>The switch of \<^verbatim>\<open>__unpack\<close>, then its loop.\<close>

definition ngx_bid_request_customized_user_tag_case :: "'m pb_env \<Rightarrow> 32 word \<Rightarrow> 32 word \<Rightarrow> ngx_bid_request_customized_user_tag_t \<Rightarrow> 'm ngx_protobuf_context_t \<Rightarrow> (ngx_bid_request_customized_user_tag_t, 'm) unpacked" where
  "ngx_bid_request_customized_user_tag_case env field wire obj ctx =
     (if field = 1 then unpack_sub env wire (ngx_bid_request_customized_user_tag__unpack_ams_tag_list env) obj ctx
     else unpack_unknown env field wire ut_unknown (\<lambda>v obj. obj\<lparr>ut_unknown := v\<rparr>) obj ctx)"

definition ngx_bid_request_customized_user_tag__unpack :: "'m pb_env \<Rightarrow> ngx_bid_request_customized_user_tag_t \<Rightarrow> 'm ngx_protobuf_context_t \<Rightarrow> (ngx_bid_request_customized_user_tag_t, 'm) unpacked" where
  "ngx_bid_request_customized_user_tag__unpack env obj ctx = unpack_loop (ngx_bid_request_customized_user_tag_case env) (clast ctx) obj ctx"

definition ngx_bid_request_customized_user_tag__size :: "ngx_bid_request_customized_user_tag_t \<Rightarrow> nat option" where
  "ngx_bid_request_customized_user_tag__size obj = size_message
     [size_elements ngx_bid_request_customized_user_tag_ams_tag__size (ut_has_ams_tag_list obj) (ut_ams_tag_list obj) 1]
     (ut_unknown obj)"

definition ngx_bid_request_customized_user_tag__pack :: "(ngx_bid_request_customized_user_tag_t, 'm) packer" where
  "ngx_bid_request_customized_user_tag__pack obj ctx = pack_message (ngx_bid_request_customized_user_tag__size obj)
     [pack_elements ngx_bid_request_customized_user_tag_ams_tag__size ngx_bid_request_customized_user_tag_ams_tag__pack (ut_has_ams_tag_list obj) (ut_ams_tag_list obj) 1]
     (ut_unknown obj) ctx"

text \<open>The contents.\<close>

definition user_tag_content :: "memory \<Rightarrow> ngx_bid_request_customized_user_tag_t \<Rightarrow> (32 word \<times> wval list) list option" where
  "user_tag_content m obj = content_of (ut_unknown obj)
     [(1, elements_slot (ams_tag_content m) (ut_has_ams_tag_list obj) (ut_ams_tag_list obj))]"

lemma user_tag_content_mono:
  assumes "user_tag_content m x = Some fs" "m \<subseteq>\<^sub>m m'"
  shows "user_tag_content m' x = Some fs"
  using assms elements_slot_mono [where c = ams_tag_content and m = m and m' = m', OF _ ams_tag_content_mono [OF _ assms(2)]]
  by (auto simp: user_tag_content_def)

text \<open>Reading sets the flag with the array.\<close>

definition user_tag_tidy :: "ngx_bid_request_customized_user_tag_t \<Rightarrow> bool" where
  "user_tag_tidy obj \<longleftrightarrow> (ut_ams_tag_list obj \<noteq> None \<longrightarrow> ut_has_ams_tag_list obj)"

lemma user_tag_step:
  assumes "pool_serves env" "user_tag_content m x = Some fs" "(n, vs) \<in> set fs" "v \<in> set vs" "solid v"
    "user_tag_content (mem (cstate ctx)) y = Some (grouped [1] ps)" "user_tag_tidy y"
    "n = 1 \<or> values_of n ps = []" "holds ctx (enc_body v)"
  shows "step_result user_tag_content [1] user_tag_tidy ctx (ngx_bid_request_customized_user_tag_case env n (wire_type_of v) y ctx) ps n v"
proof -
  note y = user_tag_content_mono [OF assms(6), unfolded user_tag_content_def, simplified, simplified bind_eq_Some_conv, simplified]
  note y0 = y [OF map_le_refl]
  consider "n = 1" "elements_slot (ams_tag_content m) (ut_has_ams_tag_list x) (ut_ams_tag_list x) = Some vs"
    using assms(2,3) by (auto simp: user_tag_content_def)
  then show ?thesis
  proof cases
    case 1
    show ?thesis unfolding ngx_bid_request_customized_user_tag_case_def 1(1) ngx_bid_request_customized_user_tag__unpack_ams_tag_list_def ngx_bid_request_customized_user_tag__add__ams_tag_list_def
      by (simp, rule element_step [OF 1(2) assms(4) assms(9) assms(5,1) ams_tag_reads [OF assms(1)]])
        (use y assms(8) 1(1) assms(7) in \<open>auto simp: user_tag_content_def user_tag_tidy_def Let_def elements_slot_snoc split: option.splits\<close>)
  qed
qed

interpretation user_tag: message_reader user_tag_content ngx_bid_request_customized_user_tag_zero "[1]"
  "(\<lambda>n. n = 1)" env "ngx_bid_request_customized_user_tag_case env" "user_tag_tidy"
  for env :: "'m pb_env"
proof (unfold_locales, goal_cases)
  case 7
  then show ?case by (rule user_tag_content_mono)
next
  case 8
  show ?case by (rule user_tag_step) (use 8 in simp_all)
qed (auto simp: user_tag_content_def ngx_bid_request_customized_user_tag_zero_def user_tag_tidy_def intro: single_slots single_value_slots)

lemma user_tag_reads:
  assumes "pool_serves env" "user_tag_content m x = Some fs" "solid_fields fs"
  shows "message_reads user_tag_content ngx_bid_request_customized_user_tag_zero (ngx_bid_request_customized_user_tag__unpack env) fs"
  by (rule user_tag.unpack_reads [OF assms]) (simp add: ngx_bid_request_customized_user_tag__unpack_def)

section \<open>\<^verbatim>\<open>BidRequest.Geo.Coordinate\<close>\<close>

record ngx_bid_request_geo_coordinate_t =
  co_standard :: "32 word"
  co_latitude :: "32 word"
  co_longitude :: "32 word"
  co_unknown :: unknowns
  co_has_standard :: bool
  co_has_latitude :: bool
  co_has_longitude :: bool

text \<open>Cleared memory.\<close>

definition ngx_bid_request_geo_coordinate_zero :: ngx_bid_request_geo_coordinate_t where
  "ngx_bid_request_geo_coordinate_zero =
    \<lparr>co_standard = 0, co_latitude = 0, co_longitude = 0, co_unknown = None, co_has_standard = False,
     co_has_latitude = False, co_has_longitude = False\<rparr>"

text \<open>The switch of \<^verbatim>\<open>__unpack\<close>, then its loop.\<close>

definition ngx_bid_request_geo_coordinate_case :: "'m pb_env \<Rightarrow> 32 word \<Rightarrow> 32 word \<Rightarrow> ngx_bid_request_geo_coordinate_t \<Rightarrow> 'm ngx_protobuf_context_t \<Rightarrow> (ngx_bid_request_geo_coordinate_t, 'm) unpacked" where
  "ngx_bid_request_geo_coordinate_case env field wire obj ctx =
     (if field = 1 then unpack_num env wire co_standard (\<lambda>v obj. obj\<lparr>co_standard := v\<rparr>) (\<lambda>obj. obj\<lparr>co_has_standard := True\<rparr>) obj ctx
     else if field = 2 then unpack_float env wire co_latitude (\<lambda>v obj. obj\<lparr>co_latitude := v\<rparr>) (\<lambda>obj. obj\<lparr>co_has_latitude := True\<rparr>) obj ctx
     else if field = 3 then unpack_float env wire co_longitude (\<lambda>v obj. obj\<lparr>co_longitude := v\<rparr>) (\<lambda>obj. obj\<lparr>co_has_longitude := True\<rparr>) obj ctx
     else unpack_unknown env field wire co_unknown (\<lambda>v obj. obj\<lparr>co_unknown := v\<rparr>) obj ctx)"

definition ngx_bid_request_geo_coordinate__unpack :: "'m pb_env \<Rightarrow> ngx_bid_request_geo_coordinate_t \<Rightarrow> 'm ngx_protobuf_context_t \<Rightarrow> (ngx_bid_request_geo_coordinate_t, 'm) unpacked" where
  "ngx_bid_request_geo_coordinate__unpack env obj ctx = unpack_loop (ngx_bid_request_geo_coordinate_case env) (clast ctx) obj ctx"

definition ngx_bid_request_geo_coordinate__size :: "ngx_bid_request_geo_coordinate_t \<Rightarrow> nat option" where
  "ngx_bid_request_geo_coordinate__size obj = size_message
     [Some (size_number (co_has_standard obj) (co_standard obj) 1),
      Some (size_float (co_has_latitude obj) 2),
      Some (size_float (co_has_longitude obj) 3)]
     (co_unknown obj)"

definition ngx_bid_request_geo_coordinate__pack :: "(ngx_bid_request_geo_coordinate_t, 'm) packer" where
  "ngx_bid_request_geo_coordinate__pack obj ctx = pack_message (ngx_bid_request_geo_coordinate__size obj)
     [pack_num (co_has_standard obj) (co_standard obj) 1,
      pack_float (co_has_latitude obj) (co_latitude obj) 2,
      pack_float (co_has_longitude obj) (co_longitude obj) 3]
     (co_unknown obj) ctx"

text \<open>The contents.\<close>

definition coordinate_content :: "memory \<Rightarrow> ngx_bid_request_geo_coordinate_t \<Rightarrow> (32 word \<times> wval list) list option" where
  "coordinate_content m obj = content_of (co_unknown obj)
     [(1, num_slot (co_has_standard obj) (co_standard obj)),
      (2, absent_slot (co_has_latitude obj)),
      (3, absent_slot (co_has_longitude obj))]"

lemma coordinate_content_mono:
  assumes "coordinate_content m x = Some fs" "m \<subseteq>\<^sub>m m'"
  shows "coordinate_content m' x = Some fs"
  using assms
  by (auto simp: coordinate_content_def)

lemma coordinate_step:
  assumes "pool_serves env" "coordinate_content m x = Some fs" "(n, vs) \<in> set fs" "v \<in> set vs" "solid v"
    "coordinate_content (mem (cstate ctx)) y = Some (grouped [1, 2, 3] ps)"
    "values_of n ps = []" "holds ctx (enc_body v)"
  shows "step_result coordinate_content [1, 2, 3] (\<lambda>_. True) ctx (ngx_bid_request_geo_coordinate_case env n (wire_type_of v) y ctx) ps n v"
proof -
  note y = coordinate_content_mono [OF assms(6), unfolded coordinate_content_def, simplified, simplified bind_eq_Some_conv, simplified]
  note y0 = y [OF map_le_refl]
  consider "n = 1" "num_slot (co_has_standard x) (co_standard x) = Some vs"
    | "n = 2" "absent_slot (co_has_latitude x) = Some vs"
    | "n = 3" "absent_slot (co_has_longitude x) = Some vs"
    using assms(2,3) by (auto simp: coordinate_content_def)
  then show ?thesis
  proof cases
    case 1
    show ?thesis unfolding ngx_bid_request_geo_coordinate_case_def 1(1)
      by (simp, rule num_step [OF 1(2) assms(4) assms(8)])
        (use y0 assms(7) 1(1) in \<open>auto simp: coordinate_content_def split: option.splits\<close>)
  next
    case 2
    then show ?thesis using assms(4) by (simp add: absent_slot_def split: if_splits)
  next
    case 3
    then show ?thesis using assms(4) by (simp add: absent_slot_def split: if_splits)
  qed
qed

interpretation coordinate: message_reader coordinate_content ngx_bid_request_geo_coordinate_zero "[1, 2, 3]"
  "(\<lambda>n. False)" env "ngx_bid_request_geo_coordinate_case env" "(\<lambda>_. True)"
  for env :: "'m pb_env"
proof (unfold_locales, goal_cases)
  case 7
  then show ?case by (rule coordinate_content_mono)
next
  case 8
  show ?case by (rule coordinate_step) (use 8 in simp_all)
qed (auto simp: coordinate_content_def ngx_bid_request_geo_coordinate_zero_def intro: single_slots single_value_slots)

lemma coordinate_reads:
  assumes "pool_serves env" "coordinate_content m x = Some fs" "solid_fields fs"
  shows "message_reads coordinate_content ngx_bid_request_geo_coordinate_zero (ngx_bid_request_geo_coordinate__unpack env) fs"
  by (rule coordinate.unpack_reads [OF assms]) (simp add: ngx_bid_request_geo_coordinate__unpack_def)

section \<open>\<^verbatim>\<open>BidRequest.Geo.UserLocation\<close>\<close>

record ngx_bid_request_geo_user_location_t =
  ul_province :: ngx_str_t
  ul_city :: ngx_str_t
  ul_district :: ngx_str_t
  ul_street :: ngx_str_t
  ul_unknown :: unknowns
  ul_has_province :: bool
  ul_has_city :: bool
  ul_has_district :: bool
  ul_has_street :: bool

text \<open>Cleared memory.\<close>

definition ngx_bid_request_geo_user_location_zero :: ngx_bid_request_geo_user_location_t where
  "ngx_bid_request_geo_user_location_zero =
    \<lparr>ul_province = \<lparr>slen = 0, sdata = NULL\<rparr>, ul_city = \<lparr>slen = 0, sdata = NULL\<rparr>,
     ul_district = \<lparr>slen = 0, sdata = NULL\<rparr>, ul_street = \<lparr>slen = 0, sdata = NULL\<rparr>,
     ul_unknown = None, ul_has_province = False, ul_has_city = False, ul_has_district = False,
     ul_has_street = False\<rparr>"

text \<open>The switch of \<^verbatim>\<open>__unpack\<close>, then its loop.\<close>

definition ngx_bid_request_geo_user_location_case :: "'m pb_env \<Rightarrow> 32 word \<Rightarrow> 32 word \<Rightarrow> ngx_bid_request_geo_user_location_t \<Rightarrow> 'm ngx_protobuf_context_t \<Rightarrow> (ngx_bid_request_geo_user_location_t, 'm) unpacked" where
  "ngx_bid_request_geo_user_location_case env field wire obj ctx =
     (if field = 1 then unpack_str env wire ul_province (\<lambda>v obj. obj\<lparr>ul_province := v\<rparr>) (\<lambda>obj. obj\<lparr>ul_has_province := True\<rparr>) obj ctx
     else if field = 2 then unpack_str env wire ul_city (\<lambda>v obj. obj\<lparr>ul_city := v\<rparr>) (\<lambda>obj. obj\<lparr>ul_has_city := True\<rparr>) obj ctx
     else if field = 3 then unpack_str env wire ul_district (\<lambda>v obj. obj\<lparr>ul_district := v\<rparr>) (\<lambda>obj. obj\<lparr>ul_has_district := True\<rparr>) obj ctx
     else if field = 4 then unpack_str env wire ul_street (\<lambda>v obj. obj\<lparr>ul_street := v\<rparr>) (\<lambda>obj. obj\<lparr>ul_has_street := True\<rparr>) obj ctx
     else unpack_unknown env field wire ul_unknown (\<lambda>v obj. obj\<lparr>ul_unknown := v\<rparr>) obj ctx)"

definition ngx_bid_request_geo_user_location__unpack :: "'m pb_env \<Rightarrow> ngx_bid_request_geo_user_location_t \<Rightarrow> 'm ngx_protobuf_context_t \<Rightarrow> (ngx_bid_request_geo_user_location_t, 'm) unpacked" where
  "ngx_bid_request_geo_user_location__unpack env obj ctx = unpack_loop (ngx_bid_request_geo_user_location_case env) (clast ctx) obj ctx"

definition ngx_bid_request_geo_user_location__size :: "ngx_bid_request_geo_user_location_t \<Rightarrow> nat option" where
  "ngx_bid_request_geo_user_location__size obj = size_message
     [Some (size_str (ul_has_province obj) (ul_province obj) 1),
      Some (size_str (ul_has_city obj) (ul_city obj) 2),
      Some (size_str (ul_has_district obj) (ul_district obj) 3),
      Some (size_str (ul_has_street obj) (ul_street obj) 4)]
     (ul_unknown obj)"

definition ngx_bid_request_geo_user_location__pack :: "(ngx_bid_request_geo_user_location_t, 'm) packer" where
  "ngx_bid_request_geo_user_location__pack obj ctx = pack_message (ngx_bid_request_geo_user_location__size obj)
     [pack_str (ul_has_province obj) (ul_province obj) 1,
      pack_str (ul_has_city obj) (ul_city obj) 2,
      pack_str (ul_has_district obj) (ul_district obj) 3,
      pack_str (ul_has_street obj) (ul_street obj) 4]
     (ul_unknown obj) ctx"

text \<open>The contents.\<close>

definition user_location_content :: "memory \<Rightarrow> ngx_bid_request_geo_user_location_t \<Rightarrow> (32 word \<times> wval list) list option" where
  "user_location_content m obj = content_of (ul_unknown obj)
     [(1, str_slot m (ul_has_province obj) (ul_province obj)),
      (2, str_slot m (ul_has_city obj) (ul_city obj)),
      (3, str_slot m (ul_has_district obj) (ul_district obj)),
      (4, str_slot m (ul_has_street obj) (ul_street obj))]"

lemma user_location_content_mono:
  assumes "user_location_content m x = Some fs" "m \<subseteq>\<^sub>m m'"
  shows "user_location_content m' x = Some fs"
  using assms str_slot_mono [OF _ assms(2)]
  by (auto simp: user_location_content_def)

lemma user_location_step:
  assumes "pool_serves env" "user_location_content m x = Some fs" "(n, vs) \<in> set fs" "v \<in> set vs" "solid v"
    "user_location_content (mem (cstate ctx)) y = Some (grouped [1, 2, 3, 4] ps)"
    "values_of n ps = []" "holds ctx (enc_body v)"
  shows "step_result user_location_content [1, 2, 3, 4] (\<lambda>_. True) ctx (ngx_bid_request_geo_user_location_case env n (wire_type_of v) y ctx) ps n v"
proof -
  note y = user_location_content_mono [OF assms(6), unfolded user_location_content_def, simplified, simplified bind_eq_Some_conv, simplified]
  note y0 = y [OF map_le_refl]
  consider "n = 1" "str_slot m (ul_has_province x) (ul_province x) = Some vs"
    | "n = 2" "str_slot m (ul_has_city x) (ul_city x) = Some vs"
    | "n = 3" "str_slot m (ul_has_district x) (ul_district x) = Some vs"
    | "n = 4" "str_slot m (ul_has_street x) (ul_street x) = Some vs"
    using assms(2,3) by (auto simp: user_location_content_def)
  then show ?thesis
  proof cases
    case 1
    show ?thesis unfolding ngx_bid_request_geo_user_location_case_def 1(1)
      by (simp, rule str_step [OF 1(2) assms(4) assms(8) assms(5)])
        (use y0 assms(7) 1(1) in \<open>auto simp: user_location_content_def split: option.splits\<close>)
  next
    case 2
    show ?thesis unfolding ngx_bid_request_geo_user_location_case_def 2(1)
      by (simp, rule str_step [OF 2(2) assms(4) assms(8) assms(5)])
        (use y0 assms(7) 2(1) in \<open>auto simp: user_location_content_def split: option.splits\<close>)
  next
    case 3
    show ?thesis unfolding ngx_bid_request_geo_user_location_case_def 3(1)
      by (simp, rule str_step [OF 3(2) assms(4) assms(8) assms(5)])
        (use y0 assms(7) 3(1) in \<open>auto simp: user_location_content_def split: option.splits\<close>)
  next
    case 4
    show ?thesis unfolding ngx_bid_request_geo_user_location_case_def 4(1)
      by (simp, rule str_step [OF 4(2) assms(4) assms(8) assms(5)])
        (use y0 assms(7) 4(1) in \<open>auto simp: user_location_content_def split: option.splits\<close>)
  qed
qed

interpretation user_location: message_reader user_location_content ngx_bid_request_geo_user_location_zero "[1, 2, 3, 4]"
  "(\<lambda>n. False)" env "ngx_bid_request_geo_user_location_case env" "(\<lambda>_. True)"
  for env :: "'m pb_env"
proof (unfold_locales, goal_cases)
  case 7
  then show ?case by (rule user_location_content_mono)
next
  case 8
  show ?case by (rule user_location_step) (use 8 in simp_all)
qed (auto simp: user_location_content_def ngx_bid_request_geo_user_location_zero_def intro: single_slots single_value_slots)

lemma user_location_reads:
  assumes "pool_serves env" "user_location_content m x = Some fs" "solid_fields fs"
  shows "message_reads user_location_content ngx_bid_request_geo_user_location_zero (ngx_bid_request_geo_user_location__unpack env) fs"
  by (rule user_location.unpack_reads [OF assms]) (simp add: ngx_bid_request_geo_user_location__unpack_def)

section \<open>\<^verbatim>\<open>BidRequest.Geo\<close>\<close>

record ngx_bid_request_geo_t =
  ge_user_coordinate :: "ngx_bid_request_geo_coordinate_t list option"
  ge_user_location :: "ngx_bid_request_geo_user_location_t option"
  ge_unknown :: unknowns
  ge_has_user_coordinate :: bool
  ge_has_user_location :: bool

text \<open>Cleared memory.\<close>

definition ngx_bid_request_geo_zero :: ngx_bid_request_geo_t where
  "ngx_bid_request_geo_zero =
    \<lparr>ge_user_coordinate = None, ge_user_location = None, ge_unknown = None, ge_has_user_coordinate = False,
     ge_has_user_location = False\<rparr>"

definition ngx_bid_request_geo__add__user_coordinate ::
    "'m pb_env \<Rightarrow> ngx_bid_request_geo_t \<Rightarrow> 'm pstate \<Rightarrow> bool \<Rightarrow> 'm pstate \<times> ngx_bid_request_geo_t \<times> bool" where
  "ngx_bid_request_geo__add__user_coordinate env =
     add_element env 32 ngx_bid_request_geo_coordinate_zero ge_user_coordinate (\<lambda>v obj. obj\<lparr>ge_user_coordinate := v\<rparr>) (\<lambda>obj. obj\<lparr>ge_has_user_coordinate := True\<rparr>)"

definition ngx_bid_request_geo__unpack_user_coordinate ::
    "'m pb_env \<Rightarrow> ngx_bid_request_geo_t \<Rightarrow> 'm ngx_protobuf_context_t \<Rightarrow> 64 word \<Rightarrow> (ngx_bid_request_geo_t, 'm) unpacked" where
  "ngx_bid_request_geo__unpack_user_coordinate env =
     unpack_element (ngx_bid_request_geo__add__user_coordinate env) ngx_bid_request_geo_coordinate_zero (ngx_bid_request_geo_coordinate__unpack env)
       ge_user_coordinate (\<lambda>v obj. obj\<lparr>ge_user_coordinate := v\<rparr>) (\<lambda>obj. obj\<lparr>ge_has_user_coordinate := True\<rparr>)"

definition ngx_bid_request_geo__unpack_user_location ::
    "'m pb_env \<Rightarrow> ngx_bid_request_geo_t \<Rightarrow> 'm ngx_protobuf_context_t \<Rightarrow> 64 word \<Rightarrow> (ngx_bid_request_geo_t, 'm) unpacked" where
  "ngx_bid_request_geo__unpack_user_location env =
     unpack_member env 80 ngx_bid_request_geo_user_location_zero (ngx_bid_request_geo_user_location__unpack env)
       ge_user_location (\<lambda>v obj. obj\<lparr>ge_user_location := v\<rparr>) (\<lambda>obj. obj\<lparr>ge_has_user_location := True\<rparr>)"

text \<open>The switch of \<^verbatim>\<open>__unpack\<close>, then its loop.\<close>

definition ngx_bid_request_geo_case :: "'m pb_env \<Rightarrow> 32 word \<Rightarrow> 32 word \<Rightarrow> ngx_bid_request_geo_t \<Rightarrow> 'm ngx_protobuf_context_t \<Rightarrow> (ngx_bid_request_geo_t, 'm) unpacked" where
  "ngx_bid_request_geo_case env field wire obj ctx =
     (if field = 1 then unpack_sub env wire (ngx_bid_request_geo__unpack_user_coordinate env) obj ctx
     else if field = 2 then unpack_sub env wire (ngx_bid_request_geo__unpack_user_location env) obj ctx
     else unpack_unknown env field wire ge_unknown (\<lambda>v obj. obj\<lparr>ge_unknown := v\<rparr>) obj ctx)"

definition ngx_bid_request_geo__unpack :: "'m pb_env \<Rightarrow> ngx_bid_request_geo_t \<Rightarrow> 'm ngx_protobuf_context_t \<Rightarrow> (ngx_bid_request_geo_t, 'm) unpacked" where
  "ngx_bid_request_geo__unpack env obj ctx = unpack_loop (ngx_bid_request_geo_case env) (clast ctx) obj ctx"

definition ngx_bid_request_geo__size :: "ngx_bid_request_geo_t \<Rightarrow> nat option" where
  "ngx_bid_request_geo__size obj = size_message
     [size_elements ngx_bid_request_geo_coordinate__size (ge_has_user_coordinate obj) (ge_user_coordinate obj) 1,
      size_member ngx_bid_request_geo_user_location__size (ge_has_user_location obj) (ge_user_location obj) 2]
     (ge_unknown obj)"

definition ngx_bid_request_geo__pack :: "(ngx_bid_request_geo_t, 'm) packer" where
  "ngx_bid_request_geo__pack obj ctx = pack_message (ngx_bid_request_geo__size obj)
     [pack_elements ngx_bid_request_geo_coordinate__size ngx_bid_request_geo_coordinate__pack (ge_has_user_coordinate obj) (ge_user_coordinate obj) 1,
      pack_member ngx_bid_request_geo_user_location__size ngx_bid_request_geo_user_location__pack (ge_has_user_location obj) (ge_user_location obj) 2]
     (ge_unknown obj) ctx"

text \<open>The contents.\<close>

definition geo_content :: "memory \<Rightarrow> ngx_bid_request_geo_t \<Rightarrow> (32 word \<times> wval list) list option" where
  "geo_content m obj = content_of (ge_unknown obj)
     [(1, elements_slot (coordinate_content m) (ge_has_user_coordinate obj) (ge_user_coordinate obj)),
      (2, member_slot (user_location_content m) (ge_has_user_location obj) (ge_user_location obj))]"

lemma geo_content_mono:
  assumes "geo_content m x = Some fs" "m \<subseteq>\<^sub>m m'"
  shows "geo_content m' x = Some fs"
  using assms
    elements_slot_mono [where c = coordinate_content and m = m and m' = m', OF _ coordinate_content_mono [OF _ assms(2)]]
    member_slot_mono [where c = user_location_content and m = m and m' = m', OF _ user_location_content_mono [OF _ assms(2)]]
  by (auto simp: geo_content_def)

text \<open>Reading sets the flag with the array.\<close>

definition geo_tidy :: "ngx_bid_request_geo_t \<Rightarrow> bool" where
  "geo_tidy obj \<longleftrightarrow> (ge_user_coordinate obj \<noteq> None \<longrightarrow> ge_has_user_coordinate obj)"

lemma geo_step:
  assumes "pool_serves env" "geo_content m x = Some fs" "(n, vs) \<in> set fs" "v \<in> set vs" "solid v"
    "geo_content (mem (cstate ctx)) y = Some (grouped [1, 2] ps)" "geo_tidy y"
    "n = 1 \<or> values_of n ps = []" "holds ctx (enc_body v)"
  shows "step_result geo_content [1, 2] geo_tidy ctx (ngx_bid_request_geo_case env n (wire_type_of v) y ctx) ps n v"
proof -
  note y = geo_content_mono [OF assms(6), unfolded geo_content_def, simplified, simplified bind_eq_Some_conv, simplified]
  note y0 = y [OF map_le_refl]
  consider "n = 1" "elements_slot (coordinate_content m) (ge_has_user_coordinate x) (ge_user_coordinate x) = Some vs"
    | "n = 2" "member_slot (user_location_content m) (ge_has_user_location x) (ge_user_location x) = Some vs"
    using assms(2,3) by (auto simp: geo_content_def)
  then show ?thesis
  proof cases
    case 1
    show ?thesis unfolding ngx_bid_request_geo_case_def 1(1) ngx_bid_request_geo__unpack_user_coordinate_def ngx_bid_request_geo__add__user_coordinate_def
      by (simp, rule element_step [OF 1(2) assms(4) assms(9) assms(5,1) coordinate_reads [OF assms(1)]])
        (use y assms(8) 1(1) assms(7) in \<open>auto simp: geo_content_def geo_tidy_def Let_def elements_slot_snoc split: option.splits\<close>)
  next
    case 2
    show ?thesis unfolding ngx_bid_request_geo_case_def 2(1) ngx_bid_request_geo__unpack_user_location_def
      by (simp, rule member_step [OF 2(2) assms(4) assms(9) assms(5,1) user_location_reads [OF assms(1)]])
        (use y assms(8) 2(1) assms(7) in \<open>auto simp: geo_content_def geo_tidy_def split: option.splits\<close>)
  qed
qed

interpretation geo: message_reader geo_content ngx_bid_request_geo_zero "[1, 2]"
  "(\<lambda>n. n = 1)" env "ngx_bid_request_geo_case env" "geo_tidy"
  for env :: "'m pb_env"
proof (unfold_locales, goal_cases)
  case 7
  then show ?case by (rule geo_content_mono)
next
  case 8
  show ?case by (rule geo_step) (use 8 in simp_all)
qed (auto simp: geo_content_def ngx_bid_request_geo_zero_def geo_tidy_def intro: single_slots single_value_slots)

lemma geo_reads:
  assumes "pool_serves env" "geo_content m x = Some fs" "solid_fields fs"
  shows "message_reads geo_content ngx_bid_request_geo_zero (ngx_bid_request_geo__unpack env) fs"
  by (rule geo.unpack_reads [OF assms]) (simp add: ngx_bid_request_geo__unpack_def)

end
