(* ===== verification/Bid_Mobile.thy ===== *)
theory Bid_Mobile
  imports Bid_Message
begin

text \<open>
  The message \<^verbatim>\<open>BidRequest.Mobile\<close> and what it holds,
  of \<^verbatim>\<open>ngx_baidu_proto.c\<close>: the records, one definition per function and, by an interpretation of
  \<open>message_reader\<close>, what unpacking reads.
\<close>

section \<open>\<^verbatim>\<open>BidRequest.Mobile.MobileID\<close>\<close>

record ngx_bid_request_mobile_mobile_id_t =
  mi_type :: "32 word"
  mi_id :: ngx_str_t
  mi_unknown :: unknowns
  mi_has_type :: bool
  mi_has_id :: bool

text \<open>Cleared memory.\<close>

definition ngx_bid_request_mobile_mobile_id_zero :: ngx_bid_request_mobile_mobile_id_t where
  "ngx_bid_request_mobile_mobile_id_zero =
    \<lparr>mi_type = 0, mi_id = \<lparr>slen = 0, sdata = NULL\<rparr>, mi_unknown = None, mi_has_type = False,
     mi_has_id = False\<rparr>"

text \<open>The switch of \<^verbatim>\<open>__unpack\<close>, then its loop.\<close>

definition ngx_bid_request_mobile_mobile_id_case :: "'m pb_env \<Rightarrow> 32 word \<Rightarrow> 32 word \<Rightarrow> ngx_bid_request_mobile_mobile_id_t \<Rightarrow> 'm ngx_protobuf_context_t \<Rightarrow> (ngx_bid_request_mobile_mobile_id_t, 'm) unpacked" where
  "ngx_bid_request_mobile_mobile_id_case env field wire obj ctx =
     (if field = 1 then unpack_num env wire mi_type (\<lambda>v obj. obj\<lparr>mi_type := v\<rparr>) (\<lambda>obj. obj\<lparr>mi_has_type := True\<rparr>) obj ctx
     else if field = 2 then unpack_str env wire mi_id (\<lambda>v obj. obj\<lparr>mi_id := v\<rparr>) (\<lambda>obj. obj\<lparr>mi_has_id := True\<rparr>) obj ctx
     else unpack_unknown env field wire mi_unknown (\<lambda>v obj. obj\<lparr>mi_unknown := v\<rparr>) obj ctx)"

definition ngx_bid_request_mobile_mobile_id__unpack :: "'m pb_env \<Rightarrow> ngx_bid_request_mobile_mobile_id_t \<Rightarrow> 'm ngx_protobuf_context_t \<Rightarrow> (ngx_bid_request_mobile_mobile_id_t, 'm) unpacked" where
  "ngx_bid_request_mobile_mobile_id__unpack env obj ctx = unpack_loop (ngx_bid_request_mobile_mobile_id_case env) (clast ctx) obj ctx"

definition ngx_bid_request_mobile_mobile_id__size :: "ngx_bid_request_mobile_mobile_id_t \<Rightarrow> nat option" where
  "ngx_bid_request_mobile_mobile_id__size obj = size_message
     [Some (size_number (mi_has_type obj) (mi_type obj) 1),
      Some (size_str (mi_has_id obj) (mi_id obj) 2)]
     (mi_unknown obj)"

definition ngx_bid_request_mobile_mobile_id__pack :: "(ngx_bid_request_mobile_mobile_id_t, 'm) packer" where
  "ngx_bid_request_mobile_mobile_id__pack obj ctx = pack_message (ngx_bid_request_mobile_mobile_id__size obj)
     [pack_num (mi_has_type obj) (mi_type obj) 1,
      pack_str (mi_has_id obj) (mi_id obj) 2]
     (mi_unknown obj) ctx"

text \<open>The contents.\<close>

definition mobile_id_content :: "memory \<Rightarrow> ngx_bid_request_mobile_mobile_id_t \<Rightarrow> (32 word \<times> wval list) list option" where
  "mobile_id_content m obj = content_of (mi_unknown obj)
     [(1, num_slot (mi_has_type obj) (mi_type obj)),
      (2, str_slot m (mi_has_id obj) (mi_id obj))]"

lemma mobile_id_content_mono:
  assumes "mobile_id_content m x = Some fs" "m \<subseteq>\<^sub>m m'"
  shows "mobile_id_content m' x = Some fs"
  using assms str_slot_mono [OF _ assms(2)]
  by (auto simp: mobile_id_content_def)

lemma mobile_id_step:
  assumes "pool_serves env" "mobile_id_content m x = Some fs" "(n, vs) \<in> set fs" "v \<in> set vs" "solid v"
    "mobile_id_content (mem (cstate ctx)) y = Some (grouped [1, 2] ps)"
    "values_of n ps = []" "holds ctx (enc_body v)"
  shows "step_result mobile_id_content [1, 2] (\<lambda>_. True) ctx (ngx_bid_request_mobile_mobile_id_case env n (wire_type_of v) y ctx) ps n v"
proof -
  note y = mobile_id_content_mono [OF assms(6), unfolded mobile_id_content_def, simplified, simplified bind_eq_Some_conv, simplified]
  note y0 = y [OF map_le_refl]
  consider "n = 1" "num_slot (mi_has_type x) (mi_type x) = Some vs"
    | "n = 2" "str_slot m (mi_has_id x) (mi_id x) = Some vs"
    using assms(2,3) by (auto simp: mobile_id_content_def)
  then show ?thesis
  proof cases
    case 1
    show ?thesis unfolding ngx_bid_request_mobile_mobile_id_case_def 1(1)
      by (simp, rule num_step [OF 1(2) assms(4) assms(8)])
        (use y0 assms(7) 1(1) in \<open>auto simp: mobile_id_content_def split: option.splits\<close>)
  next
    case 2
    show ?thesis unfolding ngx_bid_request_mobile_mobile_id_case_def 2(1)
      by (simp, rule str_step [OF 2(2) assms(4) assms(8) assms(5)])
        (use y0 assms(7) 2(1) in \<open>auto simp: mobile_id_content_def split: option.splits\<close>)
  qed
qed

interpretation mobile_id: message_reader mobile_id_content ngx_bid_request_mobile_mobile_id_zero "[1, 2]"
  "(\<lambda>n. False)" env "ngx_bid_request_mobile_mobile_id_case env" "(\<lambda>_. True)"
  for env :: "'m pb_env"
proof (unfold_locales, goal_cases)
  case 7
  then show ?case by (rule mobile_id_content_mono)
next
  case 8
  show ?case by (rule mobile_id_step) (use 8 in simp_all)
qed (auto simp: mobile_id_content_def ngx_bid_request_mobile_mobile_id_zero_def intro: single_slots single_value_slots)

lemma mobile_id_reads:
  assumes "pool_serves env" "mobile_id_content m x = Some fs" "solid_fields fs"
  shows "message_reads mobile_id_content ngx_bid_request_mobile_mobile_id_zero (ngx_bid_request_mobile_mobile_id__unpack env) fs"
  by (rule mobile_id.unpack_reads [OF assms]) (simp add: ngx_bid_request_mobile_mobile_id__unpack_def)

section \<open>\<^verbatim>\<open>BidRequest.Mobile.DeviceOsVersion\<close>\<close>

record ngx_bid_request_mobile_device_os_version_t =
  ov_os_version_major :: "32 word"
  ov_os_version_minor :: "32 word"
  ov_os_version_micro :: "32 word"
  ov_unknown :: unknowns
  ov_has_os_version_major :: bool
  ov_has_os_version_minor :: bool
  ov_has_os_version_micro :: bool

text \<open>Cleared memory.\<close>

definition ngx_bid_request_mobile_device_os_version_zero :: ngx_bid_request_mobile_device_os_version_t where
  "ngx_bid_request_mobile_device_os_version_zero =
    \<lparr>ov_os_version_major = 0, ov_os_version_minor = 0, ov_os_version_micro = 0, ov_unknown = None,
     ov_has_os_version_major = False, ov_has_os_version_minor = False, ov_has_os_version_micro = False\<rparr>"

text \<open>The switch of \<^verbatim>\<open>__unpack\<close>, then its loop.\<close>

definition ngx_bid_request_mobile_device_os_version_case :: "'m pb_env \<Rightarrow> 32 word \<Rightarrow> 32 word \<Rightarrow> ngx_bid_request_mobile_device_os_version_t \<Rightarrow> 'm ngx_protobuf_context_t \<Rightarrow> (ngx_bid_request_mobile_device_os_version_t, 'm) unpacked" where
  "ngx_bid_request_mobile_device_os_version_case env field wire obj ctx =
     (if field = 1 then unpack_num env wire ov_os_version_major (\<lambda>v obj. obj\<lparr>ov_os_version_major := v\<rparr>) (\<lambda>obj. obj\<lparr>ov_has_os_version_major := True\<rparr>) obj ctx
     else if field = 2 then unpack_num env wire ov_os_version_minor (\<lambda>v obj. obj\<lparr>ov_os_version_minor := v\<rparr>) (\<lambda>obj. obj\<lparr>ov_has_os_version_minor := True\<rparr>) obj ctx
     else if field = 3 then unpack_num env wire ov_os_version_micro (\<lambda>v obj. obj\<lparr>ov_os_version_micro := v\<rparr>) (\<lambda>obj. obj\<lparr>ov_has_os_version_micro := True\<rparr>) obj ctx
     else unpack_unknown env field wire ov_unknown (\<lambda>v obj. obj\<lparr>ov_unknown := v\<rparr>) obj ctx)"

definition ngx_bid_request_mobile_device_os_version__unpack :: "'m pb_env \<Rightarrow> ngx_bid_request_mobile_device_os_version_t \<Rightarrow> 'm ngx_protobuf_context_t \<Rightarrow> (ngx_bid_request_mobile_device_os_version_t, 'm) unpacked" where
  "ngx_bid_request_mobile_device_os_version__unpack env obj ctx = unpack_loop (ngx_bid_request_mobile_device_os_version_case env) (clast ctx) obj ctx"

definition ngx_bid_request_mobile_device_os_version__size :: "ngx_bid_request_mobile_device_os_version_t \<Rightarrow> nat option" where
  "ngx_bid_request_mobile_device_os_version__size obj = size_message
     [Some (size_number (ov_has_os_version_major obj) (ov_os_version_major obj) 1),
      Some (size_number (ov_has_os_version_minor obj) (ov_os_version_minor obj) 2),
      Some (size_number (ov_has_os_version_micro obj) (ov_os_version_micro obj) 3)]
     (ov_unknown obj)"

definition ngx_bid_request_mobile_device_os_version__pack :: "(ngx_bid_request_mobile_device_os_version_t, 'm) packer" where
  "ngx_bid_request_mobile_device_os_version__pack obj ctx = pack_message (ngx_bid_request_mobile_device_os_version__size obj)
     [pack_num (ov_has_os_version_major obj) (ov_os_version_major obj) 1,
      pack_num (ov_has_os_version_minor obj) (ov_os_version_minor obj) 2,
      pack_num (ov_has_os_version_micro obj) (ov_os_version_micro obj) 3]
     (ov_unknown obj) ctx"

text \<open>The contents.\<close>

definition os_version_content :: "memory \<Rightarrow> ngx_bid_request_mobile_device_os_version_t \<Rightarrow> (32 word \<times> wval list) list option" where
  "os_version_content m obj = content_of (ov_unknown obj)
     [(1, num_slot (ov_has_os_version_major obj) (ov_os_version_major obj)),
      (2, num_slot (ov_has_os_version_minor obj) (ov_os_version_minor obj)),
      (3, num_slot (ov_has_os_version_micro obj) (ov_os_version_micro obj))]"

lemma os_version_content_mono:
  assumes "os_version_content m x = Some fs" "m \<subseteq>\<^sub>m m'"
  shows "os_version_content m' x = Some fs"
  using assms
  by (auto simp: os_version_content_def)

lemma os_version_step:
  assumes "pool_serves env" "os_version_content m x = Some fs" "(n, vs) \<in> set fs" "v \<in> set vs" "solid v"
    "os_version_content (mem (cstate ctx)) y = Some (grouped [1, 2, 3] ps)"
    "values_of n ps = []" "holds ctx (enc_body v)"
  shows "step_result os_version_content [1, 2, 3] (\<lambda>_. True) ctx (ngx_bid_request_mobile_device_os_version_case env n (wire_type_of v) y ctx) ps n v"
proof -
  note y = os_version_content_mono [OF assms(6), unfolded os_version_content_def, simplified, simplified bind_eq_Some_conv, simplified]
  note y0 = y [OF map_le_refl]
  consider "n = 1" "num_slot (ov_has_os_version_major x) (ov_os_version_major x) = Some vs"
    | "n = 2" "num_slot (ov_has_os_version_minor x) (ov_os_version_minor x) = Some vs"
    | "n = 3" "num_slot (ov_has_os_version_micro x) (ov_os_version_micro x) = Some vs"
    using assms(2,3) by (auto simp: os_version_content_def)
  then show ?thesis
  proof cases
    case 1
    show ?thesis unfolding ngx_bid_request_mobile_device_os_version_case_def 1(1)
      by (simp, rule num_step [OF 1(2) assms(4) assms(8)])
        (use y0 assms(7) 1(1) in \<open>auto simp: os_version_content_def split: option.splits\<close>)
  next
    case 2
    show ?thesis unfolding ngx_bid_request_mobile_device_os_version_case_def 2(1)
      by (simp, rule num_step [OF 2(2) assms(4) assms(8)])
        (use y0 assms(7) 2(1) in \<open>auto simp: os_version_content_def split: option.splits\<close>)
  next
    case 3
    show ?thesis unfolding ngx_bid_request_mobile_device_os_version_case_def 3(1)
      by (simp, rule num_step [OF 3(2) assms(4) assms(8)])
        (use y0 assms(7) 3(1) in \<open>auto simp: os_version_content_def split: option.splits\<close>)
  qed
qed

interpretation os_version: message_reader os_version_content ngx_bid_request_mobile_device_os_version_zero "[1, 2, 3]"
  "(\<lambda>n. False)" env "ngx_bid_request_mobile_device_os_version_case env" "(\<lambda>_. True)"
  for env :: "'m pb_env"
proof (unfold_locales, goal_cases)
  case 7
  then show ?case by (rule os_version_content_mono)
next
  case 8
  show ?case by (rule os_version_step) (use 8 in simp_all)
qed (auto simp: os_version_content_def ngx_bid_request_mobile_device_os_version_zero_def intro: single_slots single_value_slots)

lemma os_version_reads:
  assumes "pool_serves env" "os_version_content m x = Some fs" "solid_fields fs"
  shows "message_reads os_version_content ngx_bid_request_mobile_device_os_version_zero (ngx_bid_request_mobile_device_os_version__unpack env) fs"
  by (rule os_version.unpack_reads [OF assms]) (simp add: ngx_bid_request_mobile_device_os_version__unpack_def)

section \<open>\<^verbatim>\<open>BidRequest.Mobile.ForAdvertisingID\<close>\<close>

record ngx_bid_request_mobile_for_advertising_id_t =
  fa_type :: "32 word"
  fa_id :: ngx_str_t
  fa_unknown :: unknowns
  fa_has_type :: bool
  fa_has_id :: bool

text \<open>Cleared memory.\<close>

definition ngx_bid_request_mobile_for_advertising_id_zero :: ngx_bid_request_mobile_for_advertising_id_t where
  "ngx_bid_request_mobile_for_advertising_id_zero =
    \<lparr>fa_type = 0, fa_id = \<lparr>slen = 0, sdata = NULL\<rparr>, fa_unknown = None, fa_has_type = False,
     fa_has_id = False\<rparr>"

text \<open>The switch of \<^verbatim>\<open>__unpack\<close>, then its loop.\<close>

definition ngx_bid_request_mobile_for_advertising_id_case :: "'m pb_env \<Rightarrow> 32 word \<Rightarrow> 32 word \<Rightarrow> ngx_bid_request_mobile_for_advertising_id_t \<Rightarrow> 'm ngx_protobuf_context_t \<Rightarrow> (ngx_bid_request_mobile_for_advertising_id_t, 'm) unpacked" where
  "ngx_bid_request_mobile_for_advertising_id_case env field wire obj ctx =
     (if field = 1 then unpack_num env wire fa_type (\<lambda>v obj. obj\<lparr>fa_type := v\<rparr>) (\<lambda>obj. obj\<lparr>fa_has_type := True\<rparr>) obj ctx
     else if field = 2 then unpack_str env wire fa_id (\<lambda>v obj. obj\<lparr>fa_id := v\<rparr>) (\<lambda>obj. obj\<lparr>fa_has_id := True\<rparr>) obj ctx
     else unpack_unknown env field wire fa_unknown (\<lambda>v obj. obj\<lparr>fa_unknown := v\<rparr>) obj ctx)"

definition ngx_bid_request_mobile_for_advertising_id__unpack :: "'m pb_env \<Rightarrow> ngx_bid_request_mobile_for_advertising_id_t \<Rightarrow> 'm ngx_protobuf_context_t \<Rightarrow> (ngx_bid_request_mobile_for_advertising_id_t, 'm) unpacked" where
  "ngx_bid_request_mobile_for_advertising_id__unpack env obj ctx = unpack_loop (ngx_bid_request_mobile_for_advertising_id_case env) (clast ctx) obj ctx"

definition ngx_bid_request_mobile_for_advertising_id__size :: "ngx_bid_request_mobile_for_advertising_id_t \<Rightarrow> nat option" where
  "ngx_bid_request_mobile_for_advertising_id__size obj = size_message
     [Some (size_number (fa_has_type obj) (fa_type obj) 1),
      Some (size_str (fa_has_id obj) (fa_id obj) 2)]
     (fa_unknown obj)"

definition ngx_bid_request_mobile_for_advertising_id__pack :: "(ngx_bid_request_mobile_for_advertising_id_t, 'm) packer" where
  "ngx_bid_request_mobile_for_advertising_id__pack obj ctx = pack_message (ngx_bid_request_mobile_for_advertising_id__size obj)
     [pack_num (fa_has_type obj) (fa_type obj) 1,
      pack_str (fa_has_id obj) (fa_id obj) 2]
     (fa_unknown obj) ctx"

text \<open>The contents.\<close>

definition advertising_id_content :: "memory \<Rightarrow> ngx_bid_request_mobile_for_advertising_id_t \<Rightarrow> (32 word \<times> wval list) list option" where
  "advertising_id_content m obj = content_of (fa_unknown obj)
     [(1, num_slot (fa_has_type obj) (fa_type obj)),
      (2, str_slot m (fa_has_id obj) (fa_id obj))]"

lemma advertising_id_content_mono:
  assumes "advertising_id_content m x = Some fs" "m \<subseteq>\<^sub>m m'"
  shows "advertising_id_content m' x = Some fs"
  using assms str_slot_mono [OF _ assms(2)]
  by (auto simp: advertising_id_content_def)

lemma advertising_id_step:
  assumes "pool_serves env" "advertising_id_content m x = Some fs" "(n, vs) \<in> set fs" "v \<in> set vs" "solid v"
    "advertising_id_content (mem (cstate ctx)) y = Some (grouped [1, 2] ps)"
    "values_of n ps = []" "holds ctx (enc_body v)"
  shows "step_result advertising_id_content [1, 2] (\<lambda>_. True) ctx (ngx_bid_request_mobile_for_advertising_id_case env n (wire_type_of v) y ctx) ps n v"
proof -
  note y = advertising_id_content_mono [OF assms(6), unfolded advertising_id_content_def, simplified, simplified bind_eq_Some_conv, simplified]
  note y0 = y [OF map_le_refl]
  consider "n = 1" "num_slot (fa_has_type x) (fa_type x) = Some vs"
    | "n = 2" "str_slot m (fa_has_id x) (fa_id x) = Some vs"
    using assms(2,3) by (auto simp: advertising_id_content_def)
  then show ?thesis
  proof cases
    case 1
    show ?thesis unfolding ngx_bid_request_mobile_for_advertising_id_case_def 1(1)
      by (simp, rule num_step [OF 1(2) assms(4) assms(8)])
        (use y0 assms(7) 1(1) in \<open>auto simp: advertising_id_content_def split: option.splits\<close>)
  next
    case 2
    show ?thesis unfolding ngx_bid_request_mobile_for_advertising_id_case_def 2(1)
      by (simp, rule str_step [OF 2(2) assms(4) assms(8) assms(5)])
        (use y0 assms(7) 2(1) in \<open>auto simp: advertising_id_content_def split: option.splits\<close>)
  qed
qed

interpretation advertising_id: message_reader advertising_id_content ngx_bid_request_mobile_for_advertising_id_zero "[1, 2]"
  "(\<lambda>n. False)" env "ngx_bid_request_mobile_for_advertising_id_case env" "(\<lambda>_. True)"
  for env :: "'m pb_env"
proof (unfold_locales, goal_cases)
  case 7
  then show ?case by (rule advertising_id_content_mono)
next
  case 8
  show ?case by (rule advertising_id_step) (use 8 in simp_all)
qed (auto simp: advertising_id_content_def ngx_bid_request_mobile_for_advertising_id_zero_def intro: single_slots single_value_slots)

lemma advertising_id_reads:
  assumes "pool_serves env" "advertising_id_content m x = Some fs" "solid_fields fs"
  shows "message_reads advertising_id_content ngx_bid_request_mobile_for_advertising_id_zero (ngx_bid_request_mobile_for_advertising_id__unpack env) fs"
  by (rule advertising_id.unpack_reads [OF assms]) (simp add: ngx_bid_request_mobile_for_advertising_id__unpack_def)

section \<open>\<^verbatim>\<open>BidRequest.Mobile.MobileApp\<close>\<close>

record ngx_bid_request_mobile_mobile_app_t =
  ma_app_id :: ngx_str_t
  ma_app_bundle_id :: ngx_str_t
  ma_app_category :: "32 word"
  ma_app_publisher_id :: "32 word"
  ma_app_interaction_type :: "32 word list option"
  ma_unknown :: unknowns
  ma_has_app_id :: bool
  ma_has_app_bundle_id :: bool
  ma_has_app_category :: bool
  ma_has_app_publisher_id :: bool
  ma_has_app_interaction_type :: bool

text \<open>Cleared memory.\<close>

definition ngx_bid_request_mobile_mobile_app_zero :: ngx_bid_request_mobile_mobile_app_t where
  "ngx_bid_request_mobile_mobile_app_zero =
    \<lparr>ma_app_id = \<lparr>slen = 0, sdata = NULL\<rparr>,
     ma_app_bundle_id = \<lparr>slen = 0, sdata = NULL\<rparr>, ma_app_category = 0, ma_app_publisher_id = 0,
     ma_app_interaction_type = None, ma_unknown = None, ma_has_app_id = False, ma_has_app_bundle_id = False,
     ma_has_app_category = False, ma_has_app_publisher_id = False, ma_has_app_interaction_type = False\<rparr>"

definition ngx_bid_request_mobile_mobile_app__add__app_interaction_type ::
    "'m pb_env \<Rightarrow> ngx_bid_request_mobile_mobile_app_t \<Rightarrow> 'm pstate \<Rightarrow> bool \<Rightarrow> 'm pstate \<times> ngx_bid_request_mobile_mobile_app_t \<times> bool" where
  "ngx_bid_request_mobile_mobile_app__add__app_interaction_type env =
     add_element env 4 0 ma_app_interaction_type (\<lambda>v obj. obj\<lparr>ma_app_interaction_type := v\<rparr>) (\<lambda>obj. obj\<lparr>ma_has_app_interaction_type := True\<rparr>)"

text \<open>The switch of \<^verbatim>\<open>__unpack\<close>, then its loop.\<close>

definition ngx_bid_request_mobile_mobile_app_case :: "'m pb_env \<Rightarrow> 32 word \<Rightarrow> 32 word \<Rightarrow> ngx_bid_request_mobile_mobile_app_t \<Rightarrow> 'm ngx_protobuf_context_t \<Rightarrow> (ngx_bid_request_mobile_mobile_app_t, 'm) unpacked" where
  "ngx_bid_request_mobile_mobile_app_case env field wire obj ctx =
     (if field = 1 then unpack_str env wire ma_app_id (\<lambda>v obj. obj\<lparr>ma_app_id := v\<rparr>) (\<lambda>obj. obj\<lparr>ma_has_app_id := True\<rparr>) obj ctx
     else if field = 2 then unpack_str env wire ma_app_bundle_id (\<lambda>v obj. obj\<lparr>ma_app_bundle_id := v\<rparr>) (\<lambda>obj. obj\<lparr>ma_has_app_bundle_id := True\<rparr>) obj ctx
     else if field = 3 then unpack_num env wire ma_app_category (\<lambda>v obj. obj\<lparr>ma_app_category := v\<rparr>) (\<lambda>obj. obj\<lparr>ma_has_app_category := True\<rparr>) obj ctx
     else if field = 4 then unpack_num env wire ma_app_publisher_id (\<lambda>v obj. obj\<lparr>ma_app_publisher_id := v\<rparr>) (\<lambda>obj. obj\<lparr>ma_has_app_publisher_id := True\<rparr>) obj ctx
     else if field = 5 then unpack_array env WIRE_VARINT read_num wire (ngx_bid_request_mobile_mobile_app__add__app_interaction_type env) ma_app_interaction_type (\<lambda>v obj. obj\<lparr>ma_app_interaction_type := v\<rparr>) (\<lambda>obj. obj\<lparr>ma_has_app_interaction_type := True\<rparr>) obj ctx
     else unpack_unknown env field wire ma_unknown (\<lambda>v obj. obj\<lparr>ma_unknown := v\<rparr>) obj ctx)"

definition ngx_bid_request_mobile_mobile_app__unpack :: "'m pb_env \<Rightarrow> ngx_bid_request_mobile_mobile_app_t \<Rightarrow> 'm ngx_protobuf_context_t \<Rightarrow> (ngx_bid_request_mobile_mobile_app_t, 'm) unpacked" where
  "ngx_bid_request_mobile_mobile_app__unpack env obj ctx = unpack_loop (ngx_bid_request_mobile_mobile_app_case env) (clast ctx) obj ctx"

definition ngx_bid_request_mobile_mobile_app__size :: "ngx_bid_request_mobile_mobile_app_t \<Rightarrow> nat option" where
  "ngx_bid_request_mobile_mobile_app__size obj = size_message
     [Some (size_str (ma_has_app_id obj) (ma_app_id obj) 1),
      Some (size_str (ma_has_app_bundle_id obj) (ma_app_bundle_id obj) 2),
      Some (size_number (ma_has_app_category obj) (ma_app_category obj) 3),
      Some (size_number (ma_has_app_publisher_id obj) (ma_app_publisher_id obj) 4),
      Some (size_array ngx_protobuf_size_uint32_field (ma_has_app_interaction_type obj) (ma_app_interaction_type obj) 5)]
     (ma_unknown obj)"

definition ngx_bid_request_mobile_mobile_app__pack :: "(ngx_bid_request_mobile_mobile_app_t, 'm) packer" where
  "ngx_bid_request_mobile_mobile_app__pack obj ctx = pack_message (ngx_bid_request_mobile_mobile_app__size obj)
     [pack_str (ma_has_app_id obj) (ma_app_id obj) 1,
      pack_str (ma_has_app_bundle_id obj) (ma_app_bundle_id obj) 2,
      pack_num (ma_has_app_category obj) (ma_app_category obj) 3,
      pack_num (ma_has_app_publisher_id obj) (ma_app_publisher_id obj) 4,
      pack_array ngx_protobuf_write_uint32_field (ma_has_app_interaction_type obj) (ma_app_interaction_type obj) 5]
     (ma_unknown obj) ctx"

text \<open>The contents.\<close>

definition mobile_app_content :: "memory \<Rightarrow> ngx_bid_request_mobile_mobile_app_t \<Rightarrow> (32 word \<times> wval list) list option" where
  "mobile_app_content m obj = content_of (ma_unknown obj)
     [(1, str_slot m (ma_has_app_id obj) (ma_app_id obj)),
      (2, str_slot m (ma_has_app_bundle_id obj) (ma_app_bundle_id obj)),
      (3, num_slot (ma_has_app_category obj) (ma_app_category obj)),
      (4, num_slot (ma_has_app_publisher_id obj) (ma_app_publisher_id obj)),
      (5, nums_slot WNum (ma_has_app_interaction_type obj) (ma_app_interaction_type obj))]"

lemma mobile_app_content_mono:
  assumes "mobile_app_content m x = Some fs" "m \<subseteq>\<^sub>m m'"
  shows "mobile_app_content m' x = Some fs"
  using assms str_slot_mono [OF _ assms(2)]
  by (auto simp: mobile_app_content_def)

text \<open>Reading sets the flag with the array.\<close>

definition mobile_app_tidy :: "ngx_bid_request_mobile_mobile_app_t \<Rightarrow> bool" where
  "mobile_app_tidy obj \<longleftrightarrow> (ma_app_interaction_type obj \<noteq> None \<longrightarrow> ma_has_app_interaction_type obj)"

lemma mobile_app_step:
  assumes "pool_serves env" "mobile_app_content m x = Some fs" "(n, vs) \<in> set fs" "v \<in> set vs" "solid v"
    "mobile_app_content (mem (cstate ctx)) y = Some (grouped [1, 2, 3, 4, 5] ps)" "mobile_app_tidy y"
    "n = 5 \<or> values_of n ps = []" "holds ctx (enc_body v)"
  shows "step_result mobile_app_content [1, 2, 3, 4, 5] mobile_app_tidy ctx (ngx_bid_request_mobile_mobile_app_case env n (wire_type_of v) y ctx) ps n v"
proof -
  note y = mobile_app_content_mono [OF assms(6), unfolded mobile_app_content_def, simplified, simplified bind_eq_Some_conv, simplified]
  note y0 = y [OF map_le_refl]
  consider "n = 1" "str_slot m (ma_has_app_id x) (ma_app_id x) = Some vs"
    | "n = 2" "str_slot m (ma_has_app_bundle_id x) (ma_app_bundle_id x) = Some vs"
    | "n = 3" "num_slot (ma_has_app_category x) (ma_app_category x) = Some vs"
    | "n = 4" "num_slot (ma_has_app_publisher_id x) (ma_app_publisher_id x) = Some vs"
    | "n = 5" "nums_slot WNum (ma_has_app_interaction_type x) (ma_app_interaction_type x) = Some vs"
    using assms(2,3) by (auto simp: mobile_app_content_def)
  then show ?thesis
  proof cases
    case 1
    show ?thesis unfolding ngx_bid_request_mobile_mobile_app_case_def 1(1)
      by (simp, rule str_step [OF 1(2) assms(4) assms(9) assms(5)])
        (use y0 assms(8) 1(1) assms(7) in \<open>auto simp: mobile_app_content_def mobile_app_tidy_def split: option.splits\<close>)
  next
    case 2
    show ?thesis unfolding ngx_bid_request_mobile_mobile_app_case_def 2(1)
      by (simp, rule str_step [OF 2(2) assms(4) assms(9) assms(5)])
        (use y0 assms(8) 2(1) assms(7) in \<open>auto simp: mobile_app_content_def mobile_app_tidy_def split: option.splits\<close>)
  next
    case 3
    show ?thesis unfolding ngx_bid_request_mobile_mobile_app_case_def 3(1)
      by (simp, rule num_step [OF 3(2) assms(4) assms(9)])
        (use y0 assms(8) 3(1) assms(7) in \<open>auto simp: mobile_app_content_def mobile_app_tidy_def split: option.splits\<close>)
  next
    case 4
    show ?thesis unfolding ngx_bid_request_mobile_mobile_app_case_def 4(1)
      by (simp, rule num_step [OF 4(2) assms(4) assms(9)])
        (use y0 assms(8) 4(1) assms(7) in \<open>auto simp: mobile_app_content_def mobile_app_tidy_def split: option.splits\<close>)
  next
    case 5
    show ?thesis unfolding ngx_bid_request_mobile_mobile_app_case_def 5(1) ngx_bid_request_mobile_mobile_app__add__app_interaction_type_def
      by (simp, rule nums_step [OF 5(2) assms(4) assms(9) assms(1)])
        (use y assms(8) 5(1) assms(7) in \<open>auto simp: mobile_app_content_def mobile_app_tidy_def member_laws_def nums_slot_snoc [where h = "ma_has_app_interaction_type y" and a = "ma_app_interaction_type y"] split: option.splits\<close>)
  qed
qed

interpretation mobile_app: message_reader mobile_app_content ngx_bid_request_mobile_mobile_app_zero "[1, 2, 3, 4, 5]"
  "(\<lambda>n. n = 5)" env "ngx_bid_request_mobile_mobile_app_case env" "mobile_app_tidy"
  for env :: "'m pb_env"
proof (unfold_locales, goal_cases)
  case 7
  then show ?case by (rule mobile_app_content_mono)
next
  case 8
  show ?case by (rule mobile_app_step) (use 8 in simp_all)
qed (auto simp: mobile_app_content_def ngx_bid_request_mobile_mobile_app_zero_def mobile_app_tidy_def intro: single_slots single_value_slots)

lemma mobile_app_reads:
  assumes "pool_serves env" "mobile_app_content m x = Some fs" "solid_fields fs"
  shows "message_reads mobile_app_content ngx_bid_request_mobile_mobile_app_zero (ngx_bid_request_mobile_mobile_app__unpack env) fs"
  by (rule mobile_app.unpack_reads [OF assms]) (simp add: ngx_bid_request_mobile_mobile_app__unpack_def)

section \<open>\<^verbatim>\<open>BidRequest.Mobile\<close>\<close>

record ngx_bid_request_mobile_t =
  mo_DEPRECATED_device_id :: ngx_str_t
  mo_id :: "ngx_bid_request_mobile_mobile_id_t list option"
  mo_device_type :: "32 word"
  mo_platform :: "32 word"
  mo_os_version :: "ngx_bid_request_mobile_device_os_version_t option"
  mo_brand :: ngx_str_t
  mo_model :: ngx_str_t
  mo_screen_width :: "32 word"
  mo_screen_height :: "32 word"
  mo_screen_density :: "32 word"
  mo_carrier_id :: "64 word"
  mo_wireless_network_type :: "32 word"
  mo_DEPRECATED_for_advertising_id :: ngx_str_t
  mo_for_advertising_id :: "ngx_bid_request_mobile_for_advertising_id_t list option"
  mo_mobile_app :: "ngx_bid_request_mobile_mobile_app_t option"
  mo_unknown :: unknowns
  mo_has_DEPRECATED_device_id :: bool
  mo_has_id :: bool
  mo_has_device_type :: bool
  mo_has_platform :: bool
  mo_has_os_version :: bool
  mo_has_brand :: bool
  mo_has_model :: bool
  mo_has_screen_width :: bool
  mo_has_screen_height :: bool
  mo_has_screen_density :: bool
  mo_has_carrier_id :: bool
  mo_has_wireless_network_type :: bool
  mo_has_DEPRECATED_for_advertising_id :: bool
  mo_has_for_advertising_id :: bool
  mo_has_mobile_app :: bool

text \<open>Cleared memory.\<close>

definition ngx_bid_request_mobile_zero :: ngx_bid_request_mobile_t where
  "ngx_bid_request_mobile_zero =
    \<lparr>mo_DEPRECATED_device_id = \<lparr>slen = 0, sdata = NULL\<rparr>, mo_id = None, mo_device_type = 0,
     mo_platform = 0, mo_os_version = None, mo_brand = \<lparr>slen = 0, sdata = NULL\<rparr>,
     mo_model = \<lparr>slen = 0, sdata = NULL\<rparr>, mo_screen_width = 0, mo_screen_height = 0,
     mo_screen_density = 0, mo_carrier_id = 0, mo_wireless_network_type = 0,
     mo_DEPRECATED_for_advertising_id = \<lparr>slen = 0, sdata = NULL\<rparr>, mo_for_advertising_id = None,
     mo_mobile_app = None, mo_unknown = None, mo_has_DEPRECATED_device_id = False, mo_has_id = False,
     mo_has_device_type = False, mo_has_platform = False, mo_has_os_version = False, mo_has_brand = False,
     mo_has_model = False, mo_has_screen_width = False, mo_has_screen_height = False,
     mo_has_screen_density = False, mo_has_carrier_id = False, mo_has_wireless_network_type = False,
     mo_has_DEPRECATED_for_advertising_id = False, mo_has_for_advertising_id = False, mo_has_mobile_app = False\<rparr>"

definition ngx_bid_request_mobile__add__id ::
    "'m pb_env \<Rightarrow> ngx_bid_request_mobile_t \<Rightarrow> 'm pstate \<Rightarrow> bool \<Rightarrow> 'm pstate \<times> ngx_bid_request_mobile_t \<times> bool" where
  "ngx_bid_request_mobile__add__id env =
     add_element env 40 ngx_bid_request_mobile_mobile_id_zero mo_id (\<lambda>v obj. obj\<lparr>mo_id := v\<rparr>) (\<lambda>obj. obj\<lparr>mo_has_id := True\<rparr>)"

definition ngx_bid_request_mobile__add__for_advertising_id ::
    "'m pb_env \<Rightarrow> ngx_bid_request_mobile_t \<Rightarrow> 'm pstate \<Rightarrow> bool \<Rightarrow> 'm pstate \<times> ngx_bid_request_mobile_t \<times> bool" where
  "ngx_bid_request_mobile__add__for_advertising_id env =
     add_element env 40 ngx_bid_request_mobile_for_advertising_id_zero mo_for_advertising_id (\<lambda>v obj. obj\<lparr>mo_for_advertising_id := v\<rparr>) (\<lambda>obj. obj\<lparr>mo_has_for_advertising_id := True\<rparr>)"

definition ngx_bid_request_mobile__unpack_id ::
    "'m pb_env \<Rightarrow> ngx_bid_request_mobile_t \<Rightarrow> 'm ngx_protobuf_context_t \<Rightarrow> 64 word \<Rightarrow> (ngx_bid_request_mobile_t, 'm) unpacked" where
  "ngx_bid_request_mobile__unpack_id env =
     unpack_element (ngx_bid_request_mobile__add__id env) ngx_bid_request_mobile_mobile_id_zero (ngx_bid_request_mobile_mobile_id__unpack env)
       mo_id (\<lambda>v obj. obj\<lparr>mo_id := v\<rparr>) (\<lambda>obj. obj\<lparr>mo_has_id := True\<rparr>)"

definition ngx_bid_request_mobile__unpack_os_version ::
    "'m pb_env \<Rightarrow> ngx_bid_request_mobile_t \<Rightarrow> 'm ngx_protobuf_context_t \<Rightarrow> 64 word \<Rightarrow> (ngx_bid_request_mobile_t, 'm) unpacked" where
  "ngx_bid_request_mobile__unpack_os_version env =
     unpack_member env 32 ngx_bid_request_mobile_device_os_version_zero (ngx_bid_request_mobile_device_os_version__unpack env)
       mo_os_version (\<lambda>v obj. obj\<lparr>mo_os_version := v\<rparr>) (\<lambda>obj. obj\<lparr>mo_has_os_version := True\<rparr>)"

definition ngx_bid_request_mobile__unpack_for_advertising_id ::
    "'m pb_env \<Rightarrow> ngx_bid_request_mobile_t \<Rightarrow> 'm ngx_protobuf_context_t \<Rightarrow> 64 word \<Rightarrow> (ngx_bid_request_mobile_t, 'm) unpacked" where
  "ngx_bid_request_mobile__unpack_for_advertising_id env =
     unpack_element (ngx_bid_request_mobile__add__for_advertising_id env) ngx_bid_request_mobile_for_advertising_id_zero (ngx_bid_request_mobile_for_advertising_id__unpack env)
       mo_for_advertising_id (\<lambda>v obj. obj\<lparr>mo_for_advertising_id := v\<rparr>) (\<lambda>obj. obj\<lparr>mo_has_for_advertising_id := True\<rparr>)"

definition ngx_bid_request_mobile__unpack_mobile_app ::
    "'m pb_env \<Rightarrow> ngx_bid_request_mobile_t \<Rightarrow> 'm ngx_protobuf_context_t \<Rightarrow> 64 word \<Rightarrow> (ngx_bid_request_mobile_t, 'm) unpacked" where
  "ngx_bid_request_mobile__unpack_mobile_app env =
     unpack_member env 64 ngx_bid_request_mobile_mobile_app_zero (ngx_bid_request_mobile_mobile_app__unpack env)
       mo_mobile_app (\<lambda>v obj. obj\<lparr>mo_mobile_app := v\<rparr>) (\<lambda>obj. obj\<lparr>mo_has_mobile_app := True\<rparr>)"

text \<open>The switch of \<^verbatim>\<open>__unpack\<close>, then its loop.\<close>

definition ngx_bid_request_mobile_case :: "'m pb_env \<Rightarrow> 32 word \<Rightarrow> 32 word \<Rightarrow> ngx_bid_request_mobile_t \<Rightarrow> 'm ngx_protobuf_context_t \<Rightarrow> (ngx_bid_request_mobile_t, 'm) unpacked" where
  "ngx_bid_request_mobile_case env field wire obj ctx =
     (if field = 1 then unpack_str env wire mo_DEPRECATED_device_id (\<lambda>v obj. obj\<lparr>mo_DEPRECATED_device_id := v\<rparr>) (\<lambda>obj. obj\<lparr>mo_has_DEPRECATED_device_id := True\<rparr>) obj ctx
     else if field = 13 then unpack_sub env wire (ngx_bid_request_mobile__unpack_id env) obj ctx
     else if field = 2 then unpack_num env wire mo_device_type (\<lambda>v obj. obj\<lparr>mo_device_type := v\<rparr>) (\<lambda>obj. obj\<lparr>mo_has_device_type := True\<rparr>) obj ctx
     else if field = 3 then unpack_num env wire mo_platform (\<lambda>v obj. obj\<lparr>mo_platform := v\<rparr>) (\<lambda>obj. obj\<lparr>mo_has_platform := True\<rparr>) obj ctx
     else if field = 4 then unpack_sub env wire (ngx_bid_request_mobile__unpack_os_version env) obj ctx
     else if field = 5 then unpack_str env wire mo_brand (\<lambda>v obj. obj\<lparr>mo_brand := v\<rparr>) (\<lambda>obj. obj\<lparr>mo_has_brand := True\<rparr>) obj ctx
     else if field = 6 then unpack_str env wire mo_model (\<lambda>v obj. obj\<lparr>mo_model := v\<rparr>) (\<lambda>obj. obj\<lparr>mo_has_model := True\<rparr>) obj ctx
     else if field = 7 then unpack_num env wire mo_screen_width (\<lambda>v obj. obj\<lparr>mo_screen_width := v\<rparr>) (\<lambda>obj. obj\<lparr>mo_has_screen_width := True\<rparr>) obj ctx
     else if field = 8 then unpack_num env wire mo_screen_height (\<lambda>v obj. obj\<lparr>mo_screen_height := v\<rparr>) (\<lambda>obj. obj\<lparr>mo_has_screen_height := True\<rparr>) obj ctx
     else if field = 15 then unpack_float env wire mo_screen_density (\<lambda>v obj. obj\<lparr>mo_screen_density := v\<rparr>) (\<lambda>obj. obj\<lparr>mo_has_screen_density := True\<rparr>) obj ctx
     else if field = 9 then unpack_long env wire mo_carrier_id (\<lambda>v obj. obj\<lparr>mo_carrier_id := v\<rparr>) (\<lambda>obj. obj\<lparr>mo_has_carrier_id := True\<rparr>) obj ctx
     else if field = 10 then unpack_num env wire mo_wireless_network_type (\<lambda>v obj. obj\<lparr>mo_wireless_network_type := v\<rparr>) (\<lambda>obj. obj\<lparr>mo_has_wireless_network_type := True\<rparr>) obj ctx
     else if field = 11 then unpack_str env wire mo_DEPRECATED_for_advertising_id (\<lambda>v obj. obj\<lparr>mo_DEPRECATED_for_advertising_id := v\<rparr>) (\<lambda>obj. obj\<lparr>mo_has_DEPRECATED_for_advertising_id := True\<rparr>) obj ctx
     else if field = 14 then unpack_sub env wire (ngx_bid_request_mobile__unpack_for_advertising_id env) obj ctx
     else if field = 12 then unpack_sub env wire (ngx_bid_request_mobile__unpack_mobile_app env) obj ctx
     else unpack_unknown env field wire mo_unknown (\<lambda>v obj. obj\<lparr>mo_unknown := v\<rparr>) obj ctx)"

definition ngx_bid_request_mobile__unpack :: "'m pb_env \<Rightarrow> ngx_bid_request_mobile_t \<Rightarrow> 'm ngx_protobuf_context_t \<Rightarrow> (ngx_bid_request_mobile_t, 'm) unpacked" where
  "ngx_bid_request_mobile__unpack env obj ctx = unpack_loop (ngx_bid_request_mobile_case env) (clast ctx) obj ctx"

definition ngx_bid_request_mobile__size :: "ngx_bid_request_mobile_t \<Rightarrow> nat option" where
  "ngx_bid_request_mobile__size obj = size_message
     [Some (size_str (mo_has_DEPRECATED_device_id obj) (mo_DEPRECATED_device_id obj) 1),
      size_elements ngx_bid_request_mobile_mobile_id__size (mo_has_id obj) (mo_id obj) 13,
      Some (size_number (mo_has_device_type obj) (mo_device_type obj) 2),
      Some (size_number (mo_has_platform obj) (mo_platform obj) 3),
      size_member ngx_bid_request_mobile_device_os_version__size (mo_has_os_version obj) (mo_os_version obj) 4,
      Some (size_str (mo_has_brand obj) (mo_brand obj) 5),
      Some (size_str (mo_has_model obj) (mo_model obj) 6),
      Some (size_number (mo_has_screen_width obj) (mo_screen_width obj) 7),
      Some (size_number (mo_has_screen_height obj) (mo_screen_height obj) 8),
      Some (size_float (mo_has_screen_density obj) 15),
      Some (size_long (mo_has_carrier_id obj) (mo_carrier_id obj) 9),
      Some (size_number (mo_has_wireless_network_type obj) (mo_wireless_network_type obj) 10),
      Some (size_str (mo_has_DEPRECATED_for_advertising_id obj) (mo_DEPRECATED_for_advertising_id obj) 11),
      size_elements ngx_bid_request_mobile_for_advertising_id__size (mo_has_for_advertising_id obj) (mo_for_advertising_id obj) 14,
      size_member ngx_bid_request_mobile_mobile_app__size (mo_has_mobile_app obj) (mo_mobile_app obj) 12]
     (mo_unknown obj)"

definition ngx_bid_request_mobile__pack :: "(ngx_bid_request_mobile_t, 'm) packer" where
  "ngx_bid_request_mobile__pack obj ctx = pack_message (ngx_bid_request_mobile__size obj)
     [pack_str (mo_has_DEPRECATED_device_id obj) (mo_DEPRECATED_device_id obj) 1,
      pack_num (mo_has_device_type obj) (mo_device_type obj) 2,
      pack_num (mo_has_platform obj) (mo_platform obj) 3,
      pack_member ngx_bid_request_mobile_device_os_version__size ngx_bid_request_mobile_device_os_version__pack (mo_has_os_version obj) (mo_os_version obj) 4,
      pack_str (mo_has_brand obj) (mo_brand obj) 5,
      pack_str (mo_has_model obj) (mo_model obj) 6,
      pack_num (mo_has_screen_width obj) (mo_screen_width obj) 7,
      pack_num (mo_has_screen_height obj) (mo_screen_height obj) 8,
      pack_long (mo_has_carrier_id obj) (mo_carrier_id obj) 9,
      pack_num (mo_has_wireless_network_type obj) (mo_wireless_network_type obj) 10,
      pack_str (mo_has_DEPRECATED_for_advertising_id obj) (mo_DEPRECATED_for_advertising_id obj) 11,
      pack_member ngx_bid_request_mobile_mobile_app__size ngx_bid_request_mobile_mobile_app__pack (mo_has_mobile_app obj) (mo_mobile_app obj) 12,
      pack_elements ngx_bid_request_mobile_mobile_id__size ngx_bid_request_mobile_mobile_id__pack (mo_has_id obj) (mo_id obj) 13,
      pack_elements ngx_bid_request_mobile_for_advertising_id__size ngx_bid_request_mobile_for_advertising_id__pack (mo_has_for_advertising_id obj) (mo_for_advertising_id obj) 14,
      pack_float (mo_has_screen_density obj) (mo_screen_density obj) 15]
     (mo_unknown obj) ctx"

text \<open>The contents.\<close>

definition mobile_content :: "memory \<Rightarrow> ngx_bid_request_mobile_t \<Rightarrow> (32 word \<times> wval list) list option" where
  "mobile_content m obj = content_of (mo_unknown obj)
     [(1, str_slot m (mo_has_DEPRECATED_device_id obj) (mo_DEPRECATED_device_id obj)),
      (2, num_slot (mo_has_device_type obj) (mo_device_type obj)),
      (3, num_slot (mo_has_platform obj) (mo_platform obj)),
      (4, member_slot (os_version_content m) (mo_has_os_version obj) (mo_os_version obj)),
      (5, str_slot m (mo_has_brand obj) (mo_brand obj)),
      (6, str_slot m (mo_has_model obj) (mo_model obj)),
      (7, num_slot (mo_has_screen_width obj) (mo_screen_width obj)),
      (8, num_slot (mo_has_screen_height obj) (mo_screen_height obj)),
      (9, long_slot (mo_has_carrier_id obj) (mo_carrier_id obj)),
      (10, num_slot (mo_has_wireless_network_type obj) (mo_wireless_network_type obj)),
      (11, str_slot m (mo_has_DEPRECATED_for_advertising_id obj) (mo_DEPRECATED_for_advertising_id obj)),
      (12, member_slot (mobile_app_content m) (mo_has_mobile_app obj) (mo_mobile_app obj)),
      (13, elements_slot (mobile_id_content m) (mo_has_id obj) (mo_id obj)),
      (14, elements_slot (advertising_id_content m) (mo_has_for_advertising_id obj) (mo_for_advertising_id obj)),
      (15, absent_slot (mo_has_screen_density obj))]"

lemma mobile_content_mono:
  assumes "mobile_content m x = Some fs" "m \<subseteq>\<^sub>m m'"
  shows "mobile_content m' x = Some fs"
  using assms
    str_slot_mono [OF _ assms(2)]
    member_slot_mono [where c = os_version_content and m = m and m' = m', OF _ os_version_content_mono [OF _ assms(2)]]
    member_slot_mono [where c = mobile_app_content and m = m and m' = m', OF _ mobile_app_content_mono [OF _ assms(2)]]
    elements_slot_mono [where c = mobile_id_content and m = m and m' = m', OF _ mobile_id_content_mono [OF _ assms(2)]]
    elements_slot_mono [where c = advertising_id_content and m = m and m' = m', OF _ advertising_id_content_mono [OF _ assms(2)]]
  by (auto simp: mobile_content_def)

text \<open>Reading sets the flag with the array.\<close>

definition mobile_tidy :: "ngx_bid_request_mobile_t \<Rightarrow> bool" where
  "mobile_tidy obj \<longleftrightarrow> (mo_id obj \<noteq> None \<longrightarrow> mo_has_id obj) \<and>
     (mo_for_advertising_id obj \<noteq> None \<longrightarrow> mo_has_for_advertising_id obj)"

lemma mobile_step:
  assumes "pool_serves env" "mobile_content m x = Some fs" "(n, vs) \<in> set fs" "v \<in> set vs" "solid v"
    "mobile_content (mem (cstate ctx)) y = Some (grouped [1, 2, 3, 4, 5, 6, 7, 8, 9, 10, 11, 12, 13, 14, 15] ps)" "mobile_tidy y"
    "n = 13 \<or> n = 14 \<or> values_of n ps = []" "holds ctx (enc_body v)"
  shows "step_result mobile_content [1, 2, 3, 4, 5, 6, 7, 8, 9, 10, 11, 12, 13, 14, 15] mobile_tidy ctx (ngx_bid_request_mobile_case env n (wire_type_of v) y ctx) ps n v"
proof -
  note y = mobile_content_mono [OF assms(6), unfolded mobile_content_def, simplified, simplified bind_eq_Some_conv, simplified]
  note y0 = y [OF map_le_refl]
  consider "n = 1" "str_slot m (mo_has_DEPRECATED_device_id x) (mo_DEPRECATED_device_id x) = Some vs"
    | "n = 2" "num_slot (mo_has_device_type x) (mo_device_type x) = Some vs"
    | "n = 3" "num_slot (mo_has_platform x) (mo_platform x) = Some vs"
    | "n = 4" "member_slot (os_version_content m) (mo_has_os_version x) (mo_os_version x) = Some vs"
    | "n = 5" "str_slot m (mo_has_brand x) (mo_brand x) = Some vs"
    | "n = 6" "str_slot m (mo_has_model x) (mo_model x) = Some vs"
    | "n = 7" "num_slot (mo_has_screen_width x) (mo_screen_width x) = Some vs"
    | "n = 8" "num_slot (mo_has_screen_height x) (mo_screen_height x) = Some vs"
    | "n = 9" "long_slot (mo_has_carrier_id x) (mo_carrier_id x) = Some vs"
    | "n = 10" "num_slot (mo_has_wireless_network_type x) (mo_wireless_network_type x) = Some vs"
    | "n = 11" "str_slot m (mo_has_DEPRECATED_for_advertising_id x) (mo_DEPRECATED_for_advertising_id x) = Some vs"
    | "n = 12" "member_slot (mobile_app_content m) (mo_has_mobile_app x) (mo_mobile_app x) = Some vs"
    | "n = 13" "elements_slot (mobile_id_content m) (mo_has_id x) (mo_id x) = Some vs"
    | "n = 14" "elements_slot (advertising_id_content m) (mo_has_for_advertising_id x) (mo_for_advertising_id x) = Some vs"
    | "n = 15" "absent_slot (mo_has_screen_density x) = Some vs"
    using assms(2,3) by (auto simp: mobile_content_def)
  then show ?thesis
  proof cases
    case 1
    show ?thesis unfolding ngx_bid_request_mobile_case_def 1(1)
      by (simp, rule str_step [OF 1(2) assms(4) assms(9) assms(5)])
        (use y0 assms(8) 1(1) assms(7) in \<open>auto simp: mobile_content_def mobile_tidy_def split: option.splits\<close>)
  next
    case 2
    show ?thesis unfolding ngx_bid_request_mobile_case_def 2(1)
      by (simp, rule num_step [OF 2(2) assms(4) assms(9)])
        (use y0 assms(8) 2(1) assms(7) in \<open>auto simp: mobile_content_def mobile_tidy_def split: option.splits\<close>)
  next
    case 3
    show ?thesis unfolding ngx_bid_request_mobile_case_def 3(1)
      by (simp, rule num_step [OF 3(2) assms(4) assms(9)])
        (use y0 assms(8) 3(1) assms(7) in \<open>auto simp: mobile_content_def mobile_tidy_def split: option.splits\<close>)
  next
    case 4
    show ?thesis unfolding ngx_bid_request_mobile_case_def 4(1) ngx_bid_request_mobile__unpack_os_version_def
      by (simp, rule member_step [OF 4(2) assms(4) assms(9) assms(5,1) os_version_reads [OF assms(1)]])
        (use y assms(8) 4(1) assms(7) in \<open>auto simp: mobile_content_def mobile_tidy_def split: option.splits\<close>)
  next
    case 5
    show ?thesis unfolding ngx_bid_request_mobile_case_def 5(1)
      by (simp, rule str_step [OF 5(2) assms(4) assms(9) assms(5)])
        (use y0 assms(8) 5(1) assms(7) in \<open>auto simp: mobile_content_def mobile_tidy_def split: option.splits\<close>)
  next
    case 6
    show ?thesis unfolding ngx_bid_request_mobile_case_def 6(1)
      by (simp, rule str_step [OF 6(2) assms(4) assms(9) assms(5)])
        (use y0 assms(8) 6(1) assms(7) in \<open>auto simp: mobile_content_def mobile_tidy_def split: option.splits\<close>)
  next
    case 7
    show ?thesis unfolding ngx_bid_request_mobile_case_def 7(1)
      by (simp, rule num_step [OF 7(2) assms(4) assms(9)])
        (use y0 assms(8) 7(1) assms(7) in \<open>auto simp: mobile_content_def mobile_tidy_def split: option.splits\<close>)
  next
    case 8
    show ?thesis unfolding ngx_bid_request_mobile_case_def 8(1)
      by (simp, rule num_step [OF 8(2) assms(4) assms(9)])
        (use y0 assms(8) 8(1) assms(7) in \<open>auto simp: mobile_content_def mobile_tidy_def split: option.splits\<close>)
  next
    case 9
    show ?thesis unfolding ngx_bid_request_mobile_case_def 9(1)
      by (simp, rule long_step [OF 9(2) assms(4) assms(9)])
        (use y0 assms(8) 9(1) assms(7) in \<open>auto simp: mobile_content_def mobile_tidy_def split: option.splits\<close>)
  next
    case 10
    show ?thesis unfolding ngx_bid_request_mobile_case_def 10(1)
      by (simp, rule num_step [OF 10(2) assms(4) assms(9)])
        (use y0 assms(8) 10(1) assms(7) in \<open>auto simp: mobile_content_def mobile_tidy_def split: option.splits\<close>)
  next
    case 11
    show ?thesis unfolding ngx_bid_request_mobile_case_def 11(1)
      by (simp, rule str_step [OF 11(2) assms(4) assms(9) assms(5)])
        (use y0 assms(8) 11(1) assms(7) in \<open>auto simp: mobile_content_def mobile_tidy_def split: option.splits\<close>)
  next
    case 12
    show ?thesis unfolding ngx_bid_request_mobile_case_def 12(1) ngx_bid_request_mobile__unpack_mobile_app_def
      by (simp, rule member_step [OF 12(2) assms(4) assms(9) assms(5,1) mobile_app_reads [OF assms(1)]])
        (use y assms(8) 12(1) assms(7) in \<open>auto simp: mobile_content_def mobile_tidy_def split: option.splits\<close>)
  next
    case 13
    show ?thesis unfolding ngx_bid_request_mobile_case_def 13(1) ngx_bid_request_mobile__unpack_id_def ngx_bid_request_mobile__add__id_def
      by (simp, rule element_step [OF 13(2) assms(4) assms(9) assms(5,1) mobile_id_reads [OF assms(1)]])
        (use y assms(8) 13(1) assms(7) in \<open>auto simp: mobile_content_def mobile_tidy_def Let_def elements_slot_snoc split: option.splits\<close>)
  next
    case 14
    show ?thesis unfolding ngx_bid_request_mobile_case_def 14(1) ngx_bid_request_mobile__unpack_for_advertising_id_def ngx_bid_request_mobile__add__for_advertising_id_def
      by (simp, rule element_step [OF 14(2) assms(4) assms(9) assms(5,1) advertising_id_reads [OF assms(1)]])
        (use y assms(8) 14(1) assms(7) in \<open>auto simp: mobile_content_def mobile_tidy_def Let_def elements_slot_snoc split: option.splits\<close>)
  next
    case 15
    then show ?thesis using assms(4) by (simp add: absent_slot_def split: if_splits)
  qed
qed

interpretation mobile: message_reader mobile_content ngx_bid_request_mobile_zero "[1, 2, 3, 4, 5, 6, 7, 8, 9, 10, 11, 12, 13, 14, 15]"
  "(\<lambda>n. n = 13 \<or> n = 14)" env "ngx_bid_request_mobile_case env" "mobile_tidy"
  for env :: "'m pb_env"
proof (unfold_locales, goal_cases)
  case 7
  then show ?case by (rule mobile_content_mono)
next
  case 8
  show ?case by (rule mobile_step) (use 8 in simp_all)
qed (auto simp: mobile_content_def ngx_bid_request_mobile_zero_def mobile_tidy_def intro: single_slots single_value_slots)

lemma mobile_reads:
  assumes "pool_serves env" "mobile_content m x = Some fs" "solid_fields fs"
  shows "message_reads mobile_content ngx_bid_request_mobile_zero (ngx_bid_request_mobile__unpack env) fs"
  by (rule mobile.unpack_reads [OF assms]) (simp add: ngx_bid_request_mobile__unpack_def)

end
