(* ===== verification/Bid_Order.thy ===== *)
theory Bid_Order
  imports Bid_Message
begin

text \<open>
  The messages of a slot about videos, link units and orders,
  of \<^verbatim>\<open>ngx_baidu_proto.c\<close>: the records, one definition per function and, by an interpretation of
  \<open>message_reader\<close>, what unpacking reads.
\<close>

section \<open>\<^verbatim>\<open>BidRequest.AdSlot.VideoInfo\<close>\<close>

record ngx_bid_request_ad_slot_video_info_t =
  vi_max_video_duration :: "32 word"
  vi_min_video_duration :: "32 word"
  vi_video_start_delay :: "32 word"
  vi_unknown :: unknowns
  vi_has_max_video_duration :: bool
  vi_has_min_video_duration :: bool
  vi_has_video_start_delay :: bool

text \<open>Cleared memory.\<close>

definition ngx_bid_request_ad_slot_video_info_zero :: ngx_bid_request_ad_slot_video_info_t where
  "ngx_bid_request_ad_slot_video_info_zero =
    \<lparr>vi_max_video_duration = 0, vi_min_video_duration = 0, vi_video_start_delay = 0, vi_unknown = None,
     vi_has_max_video_duration = False, vi_has_min_video_duration = False, vi_has_video_start_delay = False\<rparr>"

text \<open>The switch of \<^verbatim>\<open>__unpack\<close>, then its loop.\<close>

definition ngx_bid_request_ad_slot_video_info_case :: "'m pb_env \<Rightarrow> 32 word \<Rightarrow> 32 word \<Rightarrow> ngx_bid_request_ad_slot_video_info_t \<Rightarrow> 'm ngx_protobuf_context_t \<Rightarrow> (ngx_bid_request_ad_slot_video_info_t, 'm) unpacked" where
  "ngx_bid_request_ad_slot_video_info_case env field wire obj ctx =
     (if field = 1 then unpack_num env wire vi_max_video_duration (\<lambda>v obj. obj\<lparr>vi_max_video_duration := v\<rparr>) (\<lambda>obj. obj\<lparr>vi_has_max_video_duration := True\<rparr>) obj ctx
     else if field = 2 then unpack_num env wire vi_min_video_duration (\<lambda>v obj. obj\<lparr>vi_min_video_duration := v\<rparr>) (\<lambda>obj. obj\<lparr>vi_has_min_video_duration := True\<rparr>) obj ctx
     else if field = 3 then unpack_num env wire vi_video_start_delay (\<lambda>v obj. obj\<lparr>vi_video_start_delay := v\<rparr>) (\<lambda>obj. obj\<lparr>vi_has_video_start_delay := True\<rparr>) obj ctx
     else unpack_unknown env field wire vi_unknown (\<lambda>v obj. obj\<lparr>vi_unknown := v\<rparr>) obj ctx)"

definition ngx_bid_request_ad_slot_video_info__unpack :: "'m pb_env \<Rightarrow> ngx_bid_request_ad_slot_video_info_t \<Rightarrow> 'm ngx_protobuf_context_t \<Rightarrow> (ngx_bid_request_ad_slot_video_info_t, 'm) unpacked" where
  "ngx_bid_request_ad_slot_video_info__unpack env obj ctx = unpack_loop (ngx_bid_request_ad_slot_video_info_case env) (clast ctx) obj ctx"

definition ngx_bid_request_ad_slot_video_info__size :: "ngx_bid_request_ad_slot_video_info_t \<Rightarrow> nat option" where
  "ngx_bid_request_ad_slot_video_info__size obj = size_message
     [Some (size_number (vi_has_max_video_duration obj) (vi_max_video_duration obj) 1),
      Some (size_number (vi_has_min_video_duration obj) (vi_min_video_duration obj) 2),
      Some (size_number (vi_has_video_start_delay obj) (vi_video_start_delay obj) 3)]
     (vi_unknown obj)"

definition ngx_bid_request_ad_slot_video_info__pack :: "(ngx_bid_request_ad_slot_video_info_t, 'm) packer" where
  "ngx_bid_request_ad_slot_video_info__pack obj ctx = pack_message (ngx_bid_request_ad_slot_video_info__size obj)
     [pack_num (vi_has_max_video_duration obj) (vi_max_video_duration obj) 1,
      pack_num (vi_has_min_video_duration obj) (vi_min_video_duration obj) 2,
      pack_num (vi_has_video_start_delay obj) (vi_video_start_delay obj) 3]
     (vi_unknown obj) ctx"

text \<open>The contents.\<close>

definition video_info_content :: "memory \<Rightarrow> ngx_bid_request_ad_slot_video_info_t \<Rightarrow> (32 word \<times> wval list) list option" where
  "video_info_content m obj = content_of (vi_unknown obj)
     [(1, num_slot (vi_has_max_video_duration obj) (vi_max_video_duration obj)),
      (2, num_slot (vi_has_min_video_duration obj) (vi_min_video_duration obj)),
      (3, num_slot (vi_has_video_start_delay obj) (vi_video_start_delay obj))]"

lemma video_info_content_mono:
  assumes "video_info_content m x = Some fs" "m \<subseteq>\<^sub>m m'"
  shows "video_info_content m' x = Some fs"
  using assms
  by (auto simp: video_info_content_def)

lemma video_info_step:
  assumes "pool_serves env" "video_info_content m x = Some fs" "(n, vs) \<in> set fs" "v \<in> set vs" "solid v"
    "video_info_content (mem (cstate ctx)) y = Some (grouped [1, 2, 3] ps)"
    "values_of n ps = []" "holds ctx (enc_body v)"
  shows "step_result video_info_content [1, 2, 3] (\<lambda>_. True) ctx (ngx_bid_request_ad_slot_video_info_case env n (wire_type_of v) y ctx) ps n v"
proof -
  note y = video_info_content_mono [OF assms(6), unfolded video_info_content_def, simplified, simplified bind_eq_Some_conv, simplified]
  note y0 = y [OF map_le_refl]
  consider "n = 1" "num_slot (vi_has_max_video_duration x) (vi_max_video_duration x) = Some vs"
    | "n = 2" "num_slot (vi_has_min_video_duration x) (vi_min_video_duration x) = Some vs"
    | "n = 3" "num_slot (vi_has_video_start_delay x) (vi_video_start_delay x) = Some vs"
    using assms(2,3) by (auto simp: video_info_content_def)
  then show ?thesis
  proof cases
    case 1
    show ?thesis unfolding ngx_bid_request_ad_slot_video_info_case_def 1(1)
      by (simp, rule num_step [OF 1(2) assms(4) assms(8)])
        (use y0 assms(7) 1(1) in \<open>auto simp: video_info_content_def split: option.splits\<close>)
  next
    case 2
    show ?thesis unfolding ngx_bid_request_ad_slot_video_info_case_def 2(1)
      by (simp, rule num_step [OF 2(2) assms(4) assms(8)])
        (use y0 assms(7) 2(1) in \<open>auto simp: video_info_content_def split: option.splits\<close>)
  next
    case 3
    show ?thesis unfolding ngx_bid_request_ad_slot_video_info_case_def 3(1)
      by (simp, rule num_step [OF 3(2) assms(4) assms(8)])
        (use y0 assms(7) 3(1) in \<open>auto simp: video_info_content_def split: option.splits\<close>)
  qed
qed

interpretation video_info: message_reader video_info_content ngx_bid_request_ad_slot_video_info_zero "[1, 2, 3]"
  "(\<lambda>n. False)" env "ngx_bid_request_ad_slot_video_info_case env" "(\<lambda>_. True)"
  for env :: "'m pb_env"
proof (unfold_locales, goal_cases)
  case 7
  then show ?case by (rule video_info_content_mono)
next
  case 8
  show ?case by (rule video_info_step) (use 8 in simp_all)
qed (auto simp: video_info_content_def ngx_bid_request_ad_slot_video_info_zero_def intro: single_slots single_value_slots)

lemma video_info_reads:
  assumes "pool_serves env" "video_info_content m x = Some fs" "solid_fields fs"
  shows "message_reads video_info_content ngx_bid_request_ad_slot_video_info_zero (ngx_bid_request_ad_slot_video_info__unpack env) fs"
  by (rule video_info.unpack_reads [OF assms]) (simp add: ngx_bid_request_ad_slot_video_info__unpack_def)

section \<open>\<^verbatim>\<open>BidRequest.AdSlot.LinkUnitInfo.ProposedKeyword\<close>\<close>

record ngx_bid_request_ad_slot_link_unit_info_proposed_keyword_t =
  pk_text :: ngx_str_t
  pk_pctr1 :: "32 word"
  pk_unknown :: unknowns
  pk_has_text :: bool
  pk_has_pctr1 :: bool

text \<open>Cleared memory.\<close>

definition ngx_bid_request_ad_slot_link_unit_info_proposed_keyword_zero :: ngx_bid_request_ad_slot_link_unit_info_proposed_keyword_t where
  "ngx_bid_request_ad_slot_link_unit_info_proposed_keyword_zero =
    \<lparr>pk_text = \<lparr>slen = 0, sdata = NULL\<rparr>, pk_pctr1 = 0, pk_unknown = None, pk_has_text = False,
     pk_has_pctr1 = False\<rparr>"

text \<open>The switch of \<^verbatim>\<open>__unpack\<close>, then its loop.\<close>

definition ngx_bid_request_ad_slot_link_unit_info_proposed_keyword_case :: "'m pb_env \<Rightarrow> 32 word \<Rightarrow> 32 word \<Rightarrow> ngx_bid_request_ad_slot_link_unit_info_proposed_keyword_t \<Rightarrow> 'm ngx_protobuf_context_t \<Rightarrow> (ngx_bid_request_ad_slot_link_unit_info_proposed_keyword_t, 'm) unpacked" where
  "ngx_bid_request_ad_slot_link_unit_info_proposed_keyword_case env field wire obj ctx =
     (if field = 1 then unpack_str env wire pk_text (\<lambda>v obj. obj\<lparr>pk_text := v\<rparr>) (\<lambda>obj. obj\<lparr>pk_has_text := True\<rparr>) obj ctx
     else if field = 2 then unpack_float env wire pk_pctr1 (\<lambda>v obj. obj\<lparr>pk_pctr1 := v\<rparr>) (\<lambda>obj. obj\<lparr>pk_has_pctr1 := True\<rparr>) obj ctx
     else unpack_unknown env field wire pk_unknown (\<lambda>v obj. obj\<lparr>pk_unknown := v\<rparr>) obj ctx)"

definition ngx_bid_request_ad_slot_link_unit_info_proposed_keyword__unpack :: "'m pb_env \<Rightarrow> ngx_bid_request_ad_slot_link_unit_info_proposed_keyword_t \<Rightarrow> 'm ngx_protobuf_context_t \<Rightarrow> (ngx_bid_request_ad_slot_link_unit_info_proposed_keyword_t, 'm) unpacked" where
  "ngx_bid_request_ad_slot_link_unit_info_proposed_keyword__unpack env obj ctx = unpack_loop (ngx_bid_request_ad_slot_link_unit_info_proposed_keyword_case env) (clast ctx) obj ctx"

definition ngx_bid_request_ad_slot_link_unit_info_proposed_keyword__size :: "ngx_bid_request_ad_slot_link_unit_info_proposed_keyword_t \<Rightarrow> nat option" where
  "ngx_bid_request_ad_slot_link_unit_info_proposed_keyword__size obj = size_message
     [Some (size_str (pk_has_text obj) (pk_text obj) 1),
      Some (size_float (pk_has_pctr1 obj) 2)]
     (pk_unknown obj)"

definition ngx_bid_request_ad_slot_link_unit_info_proposed_keyword__pack :: "(ngx_bid_request_ad_slot_link_unit_info_proposed_keyword_t, 'm) packer" where
  "ngx_bid_request_ad_slot_link_unit_info_proposed_keyword__pack obj ctx = pack_message (ngx_bid_request_ad_slot_link_unit_info_proposed_keyword__size obj)
     [pack_str (pk_has_text obj) (pk_text obj) 1,
      pack_float (pk_has_pctr1 obj) (pk_pctr1 obj) 2]
     (pk_unknown obj) ctx"

text \<open>The contents.\<close>

definition proposed_keyword_content :: "memory \<Rightarrow> ngx_bid_request_ad_slot_link_unit_info_proposed_keyword_t \<Rightarrow> (32 word \<times> wval list) list option" where
  "proposed_keyword_content m obj = content_of (pk_unknown obj)
     [(1, str_slot m (pk_has_text obj) (pk_text obj)),
      (2, absent_slot (pk_has_pctr1 obj))]"

lemma proposed_keyword_content_mono:
  assumes "proposed_keyword_content m x = Some fs" "m \<subseteq>\<^sub>m m'"
  shows "proposed_keyword_content m' x = Some fs"
  using assms str_slot_mono [OF _ assms(2)]
  by (auto simp: proposed_keyword_content_def)

lemma proposed_keyword_step:
  assumes "pool_serves env" "proposed_keyword_content m x = Some fs" "(n, vs) \<in> set fs" "v \<in> set vs" "solid v"
    "proposed_keyword_content (mem (cstate ctx)) y = Some (grouped [1, 2] ps)"
    "values_of n ps = []" "holds ctx (enc_body v)"
  shows "step_result proposed_keyword_content [1, 2] (\<lambda>_. True) ctx (ngx_bid_request_ad_slot_link_unit_info_proposed_keyword_case env n (wire_type_of v) y ctx) ps n v"
proof -
  note y = proposed_keyword_content_mono [OF assms(6), unfolded proposed_keyword_content_def, simplified, simplified bind_eq_Some_conv, simplified]
  note y0 = y [OF map_le_refl]
  consider "n = 1" "str_slot m (pk_has_text x) (pk_text x) = Some vs"
    | "n = 2" "absent_slot (pk_has_pctr1 x) = Some vs"
    using assms(2,3) by (auto simp: proposed_keyword_content_def)
  then show ?thesis
  proof cases
    case 1
    show ?thesis unfolding ngx_bid_request_ad_slot_link_unit_info_proposed_keyword_case_def 1(1)
      by (simp, rule str_step [OF 1(2) assms(4) assms(8) assms(5)])
        (use y0 assms(7) 1(1) in \<open>auto simp: proposed_keyword_content_def split: option.splits\<close>)
  next
    case 2
    then show ?thesis using assms(4) by (simp add: absent_slot_def split: if_splits)
  qed
qed

interpretation proposed_keyword: message_reader proposed_keyword_content ngx_bid_request_ad_slot_link_unit_info_proposed_keyword_zero "[1, 2]"
  "(\<lambda>n. False)" env "ngx_bid_request_ad_slot_link_unit_info_proposed_keyword_case env" "(\<lambda>_. True)"
  for env :: "'m pb_env"
proof (unfold_locales, goal_cases)
  case 7
  then show ?case by (rule proposed_keyword_content_mono)
next
  case 8
  show ?case by (rule proposed_keyword_step) (use 8 in simp_all)
qed (auto simp: proposed_keyword_content_def ngx_bid_request_ad_slot_link_unit_info_proposed_keyword_zero_def intro: single_slots single_value_slots)

lemma proposed_keyword_reads:
  assumes "pool_serves env" "proposed_keyword_content m x = Some fs" "solid_fields fs"
  shows "message_reads proposed_keyword_content ngx_bid_request_ad_slot_link_unit_info_proposed_keyword_zero (ngx_bid_request_ad_slot_link_unit_info_proposed_keyword__unpack env) fs"
  by (rule proposed_keyword.unpack_reads [OF assms]) (simp add: ngx_bid_request_ad_slot_link_unit_info_proposed_keyword__unpack_def)

section \<open>\<^verbatim>\<open>BidRequest.AdSlot.LinkUnitInfo\<close>\<close>

record ngx_bid_request_ad_slot_link_unit_info_t =
  lu_style_type :: "32 word list option"
  lu_req_keyword_num :: "32 word"
  lu_proposed_keyword :: "ngx_str_t list option"
  lu_keywords :: "ngx_bid_request_ad_slot_link_unit_info_proposed_keyword_t list option"
  lu_unknown :: unknowns
  lu_has_style_type :: bool
  lu_has_req_keyword_num :: bool
  lu_has_proposed_keyword :: bool
  lu_has_keywords :: bool

text \<open>Cleared memory.\<close>

definition ngx_bid_request_ad_slot_link_unit_info_zero :: ngx_bid_request_ad_slot_link_unit_info_t where
  "ngx_bid_request_ad_slot_link_unit_info_zero =
    \<lparr>lu_style_type = None, lu_req_keyword_num = 0, lu_proposed_keyword = None, lu_keywords = None,
     lu_unknown = None, lu_has_style_type = False, lu_has_req_keyword_num = False,
     lu_has_proposed_keyword = False, lu_has_keywords = False\<rparr>"

definition ngx_bid_request_ad_slot_link_unit_info__add__style_type ::
    "'m pb_env \<Rightarrow> ngx_bid_request_ad_slot_link_unit_info_t \<Rightarrow> 'm pstate \<Rightarrow> bool \<Rightarrow> 'm pstate \<times> ngx_bid_request_ad_slot_link_unit_info_t \<times> bool" where
  "ngx_bid_request_ad_slot_link_unit_info__add__style_type env =
     add_element env 4 0 lu_style_type (\<lambda>v obj. obj\<lparr>lu_style_type := v\<rparr>) (\<lambda>obj. obj\<lparr>lu_has_style_type := True\<rparr>)"

definition ngx_bid_request_ad_slot_link_unit_info__add__proposed_keyword ::
    "'m pb_env \<Rightarrow> ngx_bid_request_ad_slot_link_unit_info_t \<Rightarrow> 'm pstate \<Rightarrow> bool \<Rightarrow> 'm pstate \<times> ngx_bid_request_ad_slot_link_unit_info_t \<times> bool" where
  "ngx_bid_request_ad_slot_link_unit_info__add__proposed_keyword env =
     add_element env 16 \<lparr>slen = 0, sdata = NULL\<rparr> lu_proposed_keyword (\<lambda>v obj. obj\<lparr>lu_proposed_keyword := v\<rparr>) (\<lambda>obj. obj\<lparr>lu_has_proposed_keyword := True\<rparr>)"

definition ngx_bid_request_ad_slot_link_unit_info__add__keywords ::
    "'m pb_env \<Rightarrow> ngx_bid_request_ad_slot_link_unit_info_t \<Rightarrow> 'm pstate \<Rightarrow> bool \<Rightarrow> 'm pstate \<times> ngx_bid_request_ad_slot_link_unit_info_t \<times> bool" where
  "ngx_bid_request_ad_slot_link_unit_info__add__keywords env =
     add_element env 40 ngx_bid_request_ad_slot_link_unit_info_proposed_keyword_zero lu_keywords (\<lambda>v obj. obj\<lparr>lu_keywords := v\<rparr>) (\<lambda>obj. obj\<lparr>lu_has_keywords := True\<rparr>)"

definition ngx_bid_request_ad_slot_link_unit_info__unpack_keywords ::
    "'m pb_env \<Rightarrow> ngx_bid_request_ad_slot_link_unit_info_t \<Rightarrow> 'm ngx_protobuf_context_t \<Rightarrow> 64 word \<Rightarrow> (ngx_bid_request_ad_slot_link_unit_info_t, 'm) unpacked" where
  "ngx_bid_request_ad_slot_link_unit_info__unpack_keywords env =
     unpack_element (ngx_bid_request_ad_slot_link_unit_info__add__keywords env) ngx_bid_request_ad_slot_link_unit_info_proposed_keyword_zero (ngx_bid_request_ad_slot_link_unit_info_proposed_keyword__unpack env)
       lu_keywords (\<lambda>v obj. obj\<lparr>lu_keywords := v\<rparr>) (\<lambda>obj. obj\<lparr>lu_has_keywords := True\<rparr>)"

text \<open>The switch of \<^verbatim>\<open>__unpack\<close>, then its loop.\<close>

definition ngx_bid_request_ad_slot_link_unit_info_case :: "'m pb_env \<Rightarrow> 32 word \<Rightarrow> 32 word \<Rightarrow> ngx_bid_request_ad_slot_link_unit_info_t \<Rightarrow> 'm ngx_protobuf_context_t \<Rightarrow> (ngx_bid_request_ad_slot_link_unit_info_t, 'm) unpacked" where
  "ngx_bid_request_ad_slot_link_unit_info_case env field wire obj ctx =
     (if field = 1 then unpack_array env WIRE_VARINT read_num wire (ngx_bid_request_ad_slot_link_unit_info__add__style_type env) lu_style_type (\<lambda>v obj. obj\<lparr>lu_style_type := v\<rparr>) (\<lambda>obj. obj\<lparr>lu_has_style_type := True\<rparr>) obj ctx
     else if field = 2 then unpack_num env wire lu_req_keyword_num (\<lambda>v obj. obj\<lparr>lu_req_keyword_num := v\<rparr>) (\<lambda>obj. obj\<lparr>lu_has_req_keyword_num := True\<rparr>) obj ctx
     else if field = 3 then unpack_array env WIRE_LENGTH_DELIMITED (read_str env) wire (ngx_bid_request_ad_slot_link_unit_info__add__proposed_keyword env) lu_proposed_keyword (\<lambda>v obj. obj\<lparr>lu_proposed_keyword := v\<rparr>) (\<lambda>obj. obj\<lparr>lu_has_proposed_keyword := True\<rparr>) obj ctx
     else if field = 4 then unpack_sub env wire (ngx_bid_request_ad_slot_link_unit_info__unpack_keywords env) obj ctx
     else unpack_unknown env field wire lu_unknown (\<lambda>v obj. obj\<lparr>lu_unknown := v\<rparr>) obj ctx)"

definition ngx_bid_request_ad_slot_link_unit_info__unpack :: "'m pb_env \<Rightarrow> ngx_bid_request_ad_slot_link_unit_info_t \<Rightarrow> 'm ngx_protobuf_context_t \<Rightarrow> (ngx_bid_request_ad_slot_link_unit_info_t, 'm) unpacked" where
  "ngx_bid_request_ad_slot_link_unit_info__unpack env obj ctx = unpack_loop (ngx_bid_request_ad_slot_link_unit_info_case env) (clast ctx) obj ctx"

definition ngx_bid_request_ad_slot_link_unit_info__size :: "ngx_bid_request_ad_slot_link_unit_info_t \<Rightarrow> nat option" where
  "ngx_bid_request_ad_slot_link_unit_info__size obj = size_message
     [Some (size_array ngx_protobuf_size_uint32_field (lu_has_style_type obj) (lu_style_type obj) 1),
      Some (size_number (lu_has_req_keyword_num obj) (lu_req_keyword_num obj) 2),
      Some (size_array ngx_protobuf_size_string_field (lu_has_proposed_keyword obj) (lu_proposed_keyword obj) 3),
      size_elements ngx_bid_request_ad_slot_link_unit_info_proposed_keyword__size (lu_has_keywords obj) (lu_keywords obj) 4]
     (lu_unknown obj)"

definition ngx_bid_request_ad_slot_link_unit_info__pack :: "(ngx_bid_request_ad_slot_link_unit_info_t, 'm) packer" where
  "ngx_bid_request_ad_slot_link_unit_info__pack obj ctx = pack_message (ngx_bid_request_ad_slot_link_unit_info__size obj)
     [pack_array ngx_protobuf_write_uint32_field (lu_has_style_type obj) (lu_style_type obj) 1,
      pack_num (lu_has_req_keyword_num obj) (lu_req_keyword_num obj) 2,
      pack_array ngx_protobuf_write_string_field (lu_has_proposed_keyword obj) (lu_proposed_keyword obj) 3,
      pack_elements ngx_bid_request_ad_slot_link_unit_info_proposed_keyword__size ngx_bid_request_ad_slot_link_unit_info_proposed_keyword__pack (lu_has_keywords obj) (lu_keywords obj) 4]
     (lu_unknown obj) ctx"

text \<open>The contents.\<close>

definition link_unit_info_content :: "memory \<Rightarrow> ngx_bid_request_ad_slot_link_unit_info_t \<Rightarrow> (32 word \<times> wval list) list option" where
  "link_unit_info_content m obj = content_of (lu_unknown obj)
     [(1, nums_slot WNum (lu_has_style_type obj) (lu_style_type obj)),
      (2, num_slot (lu_has_req_keyword_num obj) (lu_req_keyword_num obj)),
      (3, strs_slot m (lu_has_proposed_keyword obj) (lu_proposed_keyword obj)),
      (4, elements_slot (proposed_keyword_content m) (lu_has_keywords obj) (lu_keywords obj))]"

lemma link_unit_info_content_mono:
  assumes "link_unit_info_content m x = Some fs" "m \<subseteq>\<^sub>m m'"
  shows "link_unit_info_content m' x = Some fs"
  using assms
    strs_slot_mono [OF _ assms(2)]
    elements_slot_mono [where c = proposed_keyword_content and m = m and m' = m', OF _ proposed_keyword_content_mono [OF _ assms(2)]]
  by (auto simp: link_unit_info_content_def)

text \<open>Reading sets the flag with the array.\<close>

definition link_unit_info_tidy :: "ngx_bid_request_ad_slot_link_unit_info_t \<Rightarrow> bool" where
  "link_unit_info_tidy obj \<longleftrightarrow> (lu_style_type obj \<noteq> None \<longrightarrow> lu_has_style_type obj) \<and>
     (lu_proposed_keyword obj \<noteq> None \<longrightarrow> lu_has_proposed_keyword obj) \<and>
     (lu_keywords obj \<noteq> None \<longrightarrow> lu_has_keywords obj)"

lemma link_unit_info_step:
  assumes "pool_serves env" "link_unit_info_content m x = Some fs" "(n, vs) \<in> set fs" "v \<in> set vs" "solid v"
    "link_unit_info_content (mem (cstate ctx)) y = Some (grouped [1, 2, 3, 4] ps)" "link_unit_info_tidy y"
    "n = 1 \<or> n = 3 \<or> n = 4 \<or> values_of n ps = []" "holds ctx (enc_body v)"
  shows "step_result link_unit_info_content [1, 2, 3, 4] link_unit_info_tidy ctx (ngx_bid_request_ad_slot_link_unit_info_case env n (wire_type_of v) y ctx) ps n v"
proof -
  note y = link_unit_info_content_mono [OF assms(6), unfolded link_unit_info_content_def, simplified, simplified bind_eq_Some_conv, simplified]
  note y0 = y [OF map_le_refl]
  consider "n = 1" "nums_slot WNum (lu_has_style_type x) (lu_style_type x) = Some vs"
    | "n = 2" "num_slot (lu_has_req_keyword_num x) (lu_req_keyword_num x) = Some vs"
    | "n = 3" "strs_slot m (lu_has_proposed_keyword x) (lu_proposed_keyword x) = Some vs"
    | "n = 4" "elements_slot (proposed_keyword_content m) (lu_has_keywords x) (lu_keywords x) = Some vs"
    using assms(2,3) by (auto simp: link_unit_info_content_def)
  then show ?thesis
  proof cases
    case 1
    show ?thesis unfolding ngx_bid_request_ad_slot_link_unit_info_case_def 1(1) ngx_bid_request_ad_slot_link_unit_info__add__style_type_def
      by (simp, rule nums_step [OF 1(2) assms(4) assms(9) assms(1)])
        (use y assms(8) 1(1) assms(7) in \<open>auto simp: link_unit_info_content_def link_unit_info_tidy_def member_laws_def nums_slot_snoc [where h = "lu_has_style_type y" and a = "lu_style_type y"] split: option.splits\<close>)
  next
    case 2
    show ?thesis unfolding ngx_bid_request_ad_slot_link_unit_info_case_def 2(1)
      by (simp, rule num_step [OF 2(2) assms(4) assms(9)])
        (use y0 assms(8) 2(1) assms(7) in \<open>auto simp: link_unit_info_content_def link_unit_info_tidy_def split: option.splits\<close>)
  next
    case 3
    show ?thesis unfolding ngx_bid_request_ad_slot_link_unit_info_case_def 3(1) ngx_bid_request_ad_slot_link_unit_info__add__proposed_keyword_def
      by (simp, rule strs_step [OF 3(2) assms(4) assms(9) assms(5,1)])
        (use y assms(8) 3(1) assms(7) in \<open>auto simp: link_unit_info_content_def link_unit_info_tidy_def member_laws_def strs_slot_snoc [where h = "lu_has_proposed_keyword y" and a = "lu_proposed_keyword y"] split: option.splits\<close>)
  next
    case 4
    show ?thesis unfolding ngx_bid_request_ad_slot_link_unit_info_case_def 4(1) ngx_bid_request_ad_slot_link_unit_info__unpack_keywords_def ngx_bid_request_ad_slot_link_unit_info__add__keywords_def
      by (simp, rule element_step [OF 4(2) assms(4) assms(9) assms(5,1) proposed_keyword_reads [OF assms(1)]])
        (use y assms(8) 4(1) assms(7) in \<open>auto simp: link_unit_info_content_def link_unit_info_tidy_def Let_def elements_slot_snoc split: option.splits\<close>)
  qed
qed

interpretation link_unit_info: message_reader link_unit_info_content ngx_bid_request_ad_slot_link_unit_info_zero "[1, 2, 3, 4]"
  "(\<lambda>n. n = 1 \<or> n = 3 \<or> n = 4)" env "ngx_bid_request_ad_slot_link_unit_info_case env" "link_unit_info_tidy"
  for env :: "'m pb_env"
proof (unfold_locales, goal_cases)
  case 7
  then show ?case by (rule link_unit_info_content_mono)
next
  case 8
  show ?case by (rule link_unit_info_step) (use 8 in simp_all)
qed (auto simp: link_unit_info_content_def ngx_bid_request_ad_slot_link_unit_info_zero_def link_unit_info_tidy_def intro: single_slots single_value_slots)

lemma link_unit_info_reads:
  assumes "pool_serves env" "link_unit_info_content m x = Some fs" "solid_fields fs"
  shows "message_reads link_unit_info_content ngx_bid_request_ad_slot_link_unit_info_zero (ngx_bid_request_ad_slot_link_unit_info__unpack env) fs"
  by (rule link_unit_info.unpack_reads [OF assms]) (simp add: ngx_bid_request_ad_slot_link_unit_info__unpack_def)

section \<open>\<^verbatim>\<open>BidRequest.AdSlot.PreferredOrderInfo.PreferredOrder\<close>\<close>

record ngx_bid_request_ad_slot_preferred_order_info_preferred_order_t =
  po_order_id :: ngx_str_t
  po_fixed_cpm :: "64 word"
  po_unknown :: unknowns
  po_has_order_id :: bool
  po_has_fixed_cpm :: bool

text \<open>Cleared memory.\<close>

definition ngx_bid_request_ad_slot_preferred_order_info_preferred_order_zero :: ngx_bid_request_ad_slot_preferred_order_info_preferred_order_t where
  "ngx_bid_request_ad_slot_preferred_order_info_preferred_order_zero =
    \<lparr>po_order_id = \<lparr>slen = 0, sdata = NULL\<rparr>, po_fixed_cpm = 0, po_unknown = None,
     po_has_order_id = False, po_has_fixed_cpm = False\<rparr>"

text \<open>The switch of \<^verbatim>\<open>__unpack\<close>, then its loop.\<close>

definition ngx_bid_request_ad_slot_preferred_order_info_preferred_order_case :: "'m pb_env \<Rightarrow> 32 word \<Rightarrow> 32 word \<Rightarrow> ngx_bid_request_ad_slot_preferred_order_info_preferred_order_t \<Rightarrow> 'm ngx_protobuf_context_t \<Rightarrow> (ngx_bid_request_ad_slot_preferred_order_info_preferred_order_t, 'm) unpacked" where
  "ngx_bid_request_ad_slot_preferred_order_info_preferred_order_case env field wire obj ctx =
     (if field = 1 then unpack_str env wire po_order_id (\<lambda>v obj. obj\<lparr>po_order_id := v\<rparr>) (\<lambda>obj. obj\<lparr>po_has_order_id := True\<rparr>) obj ctx
     else if field = 2 then unpack_long env wire po_fixed_cpm (\<lambda>v obj. obj\<lparr>po_fixed_cpm := v\<rparr>) (\<lambda>obj. obj\<lparr>po_has_fixed_cpm := True\<rparr>) obj ctx
     else unpack_unknown env field wire po_unknown (\<lambda>v obj. obj\<lparr>po_unknown := v\<rparr>) obj ctx)"

definition ngx_bid_request_ad_slot_preferred_order_info_preferred_order__unpack :: "'m pb_env \<Rightarrow> ngx_bid_request_ad_slot_preferred_order_info_preferred_order_t \<Rightarrow> 'm ngx_protobuf_context_t \<Rightarrow> (ngx_bid_request_ad_slot_preferred_order_info_preferred_order_t, 'm) unpacked" where
  "ngx_bid_request_ad_slot_preferred_order_info_preferred_order__unpack env obj ctx = unpack_loop (ngx_bid_request_ad_slot_preferred_order_info_preferred_order_case env) (clast ctx) obj ctx"

definition ngx_bid_request_ad_slot_preferred_order_info_preferred_order__size :: "ngx_bid_request_ad_slot_preferred_order_info_preferred_order_t \<Rightarrow> nat option" where
  "ngx_bid_request_ad_slot_preferred_order_info_preferred_order__size obj = size_message
     [Some (size_str (po_has_order_id obj) (po_order_id obj) 1),
      Some (size_long (po_has_fixed_cpm obj) (po_fixed_cpm obj) 2)]
     (po_unknown obj)"

definition ngx_bid_request_ad_slot_preferred_order_info_preferred_order__pack :: "(ngx_bid_request_ad_slot_preferred_order_info_preferred_order_t, 'm) packer" where
  "ngx_bid_request_ad_slot_preferred_order_info_preferred_order__pack obj ctx = pack_message (ngx_bid_request_ad_slot_preferred_order_info_preferred_order__size obj)
     [pack_str (po_has_order_id obj) (po_order_id obj) 1,
      pack_long (po_has_fixed_cpm obj) (po_fixed_cpm obj) 2]
     (po_unknown obj) ctx"

text \<open>The contents.\<close>

definition preferred_order_content :: "memory \<Rightarrow> ngx_bid_request_ad_slot_preferred_order_info_preferred_order_t \<Rightarrow> (32 word \<times> wval list) list option" where
  "preferred_order_content m obj = content_of (po_unknown obj)
     [(1, str_slot m (po_has_order_id obj) (po_order_id obj)),
      (2, long_slot (po_has_fixed_cpm obj) (po_fixed_cpm obj))]"

lemma preferred_order_content_mono:
  assumes "preferred_order_content m x = Some fs" "m \<subseteq>\<^sub>m m'"
  shows "preferred_order_content m' x = Some fs"
  using assms str_slot_mono [OF _ assms(2)]
  by (auto simp: preferred_order_content_def)

lemma preferred_order_step:
  assumes "pool_serves env" "preferred_order_content m x = Some fs" "(n, vs) \<in> set fs" "v \<in> set vs" "solid v"
    "preferred_order_content (mem (cstate ctx)) y = Some (grouped [1, 2] ps)"
    "values_of n ps = []" "holds ctx (enc_body v)"
  shows "step_result preferred_order_content [1, 2] (\<lambda>_. True) ctx (ngx_bid_request_ad_slot_preferred_order_info_preferred_order_case env n (wire_type_of v) y ctx) ps n v"
proof -
  note y = preferred_order_content_mono [OF assms(6), unfolded preferred_order_content_def, simplified, simplified bind_eq_Some_conv, simplified]
  note y0 = y [OF map_le_refl]
  consider "n = 1" "str_slot m (po_has_order_id x) (po_order_id x) = Some vs"
    | "n = 2" "long_slot (po_has_fixed_cpm x) (po_fixed_cpm x) = Some vs"
    using assms(2,3) by (auto simp: preferred_order_content_def)
  then show ?thesis
  proof cases
    case 1
    show ?thesis unfolding ngx_bid_request_ad_slot_preferred_order_info_preferred_order_case_def 1(1)
      by (simp, rule str_step [OF 1(2) assms(4) assms(8) assms(5)])
        (use y0 assms(7) 1(1) in \<open>auto simp: preferred_order_content_def split: option.splits\<close>)
  next
    case 2
    show ?thesis unfolding ngx_bid_request_ad_slot_preferred_order_info_preferred_order_case_def 2(1)
      by (simp, rule long_step [OF 2(2) assms(4) assms(8)])
        (use y0 assms(7) 2(1) in \<open>auto simp: preferred_order_content_def split: option.splits\<close>)
  qed
qed

interpretation preferred_order: message_reader preferred_order_content ngx_bid_request_ad_slot_preferred_order_info_preferred_order_zero "[1, 2]"
  "(\<lambda>n. False)" env "ngx_bid_request_ad_slot_preferred_order_info_preferred_order_case env" "(\<lambda>_. True)"
  for env :: "'m pb_env"
proof (unfold_locales, goal_cases)
  case 7
  then show ?case by (rule preferred_order_content_mono)
next
  case 8
  show ?case by (rule preferred_order_step) (use 8 in simp_all)
qed (auto simp: preferred_order_content_def ngx_bid_request_ad_slot_preferred_order_info_preferred_order_zero_def intro: single_slots single_value_slots)

lemma preferred_order_reads:
  assumes "pool_serves env" "preferred_order_content m x = Some fs" "solid_fields fs"
  shows "message_reads preferred_order_content ngx_bid_request_ad_slot_preferred_order_info_preferred_order_zero (ngx_bid_request_ad_slot_preferred_order_info_preferred_order__unpack env) fs"
  by (rule preferred_order.unpack_reads [OF assms]) (simp add: ngx_bid_request_ad_slot_preferred_order_info_preferred_order__unpack_def)

section \<open>\<^verbatim>\<open>BidRequest.AdSlot.PreferredOrderInfo\<close>\<close>

record ngx_bid_request_ad_slot_preferred_order_info_t =
  pi_preferred_orders :: "ngx_bid_request_ad_slot_preferred_order_info_preferred_order_t list option"
  pi_allow_auction :: "64 word"
  pi_unknown :: unknowns
  pi_has_preferred_orders :: bool
  pi_has_allow_auction :: bool

text \<open>Cleared memory.\<close>

definition ngx_bid_request_ad_slot_preferred_order_info_zero :: ngx_bid_request_ad_slot_preferred_order_info_t where
  "ngx_bid_request_ad_slot_preferred_order_info_zero =
    \<lparr>pi_preferred_orders = None, pi_allow_auction = 0, pi_unknown = None, pi_has_preferred_orders = False,
     pi_has_allow_auction = False\<rparr>"

definition ngx_bid_request_ad_slot_preferred_order_info__add__preferred_orders ::
    "'m pb_env \<Rightarrow> ngx_bid_request_ad_slot_preferred_order_info_t \<Rightarrow> 'm pstate \<Rightarrow> bool \<Rightarrow> 'm pstate \<times> ngx_bid_request_ad_slot_preferred_order_info_t \<times> bool" where
  "ngx_bid_request_ad_slot_preferred_order_info__add__preferred_orders env =
     add_element env 40 ngx_bid_request_ad_slot_preferred_order_info_preferred_order_zero pi_preferred_orders (\<lambda>v obj. obj\<lparr>pi_preferred_orders := v\<rparr>) (\<lambda>obj. obj\<lparr>pi_has_preferred_orders := True\<rparr>)"

definition ngx_bid_request_ad_slot_preferred_order_info__unpack_preferred_orders ::
    "'m pb_env \<Rightarrow> ngx_bid_request_ad_slot_preferred_order_info_t \<Rightarrow> 'm ngx_protobuf_context_t \<Rightarrow> 64 word \<Rightarrow> (ngx_bid_request_ad_slot_preferred_order_info_t, 'm) unpacked" where
  "ngx_bid_request_ad_slot_preferred_order_info__unpack_preferred_orders env =
     unpack_element (ngx_bid_request_ad_slot_preferred_order_info__add__preferred_orders env) ngx_bid_request_ad_slot_preferred_order_info_preferred_order_zero (ngx_bid_request_ad_slot_preferred_order_info_preferred_order__unpack env)
       pi_preferred_orders (\<lambda>v obj. obj\<lparr>pi_preferred_orders := v\<rparr>) (\<lambda>obj. obj\<lparr>pi_has_preferred_orders := True\<rparr>)"

text \<open>The switch of \<^verbatim>\<open>__unpack\<close>, then its loop.\<close>

definition ngx_bid_request_ad_slot_preferred_order_info_case :: "'m pb_env \<Rightarrow> 32 word \<Rightarrow> 32 word \<Rightarrow> ngx_bid_request_ad_slot_preferred_order_info_t \<Rightarrow> 'm ngx_protobuf_context_t \<Rightarrow> (ngx_bid_request_ad_slot_preferred_order_info_t, 'm) unpacked" where
  "ngx_bid_request_ad_slot_preferred_order_info_case env field wire obj ctx =
     (if field = 1 then unpack_sub env wire (ngx_bid_request_ad_slot_preferred_order_info__unpack_preferred_orders env) obj ctx
     else if field = 2 then unpack_flag env wire (\<lambda>v obj. obj\<lparr>pi_allow_auction := v\<rparr>) (\<lambda>obj. obj\<lparr>pi_has_allow_auction := True\<rparr>) obj ctx
     else unpack_unknown env field wire pi_unknown (\<lambda>v obj. obj\<lparr>pi_unknown := v\<rparr>) obj ctx)"

definition ngx_bid_request_ad_slot_preferred_order_info__unpack :: "'m pb_env \<Rightarrow> ngx_bid_request_ad_slot_preferred_order_info_t \<Rightarrow> 'm ngx_protobuf_context_t \<Rightarrow> (ngx_bid_request_ad_slot_preferred_order_info_t, 'm) unpacked" where
  "ngx_bid_request_ad_slot_preferred_order_info__unpack env obj ctx = unpack_loop (ngx_bid_request_ad_slot_preferred_order_info_case env) (clast ctx) obj ctx"

definition ngx_bid_request_ad_slot_preferred_order_info__size :: "ngx_bid_request_ad_slot_preferred_order_info_t \<Rightarrow> nat option" where
  "ngx_bid_request_ad_slot_preferred_order_info__size obj = size_message
     [size_elements ngx_bid_request_ad_slot_preferred_order_info_preferred_order__size (pi_has_preferred_orders obj) (pi_preferred_orders obj) 1,
      Some (size_number (pi_has_allow_auction obj) (flag_word (pi_allow_auction obj)) 2)]
     (pi_unknown obj)"

definition ngx_bid_request_ad_slot_preferred_order_info__pack :: "(ngx_bid_request_ad_slot_preferred_order_info_t, 'm) packer" where
  "ngx_bid_request_ad_slot_preferred_order_info__pack obj ctx = pack_message (ngx_bid_request_ad_slot_preferred_order_info__size obj)
     [pack_elements ngx_bid_request_ad_slot_preferred_order_info_preferred_order__size ngx_bid_request_ad_slot_preferred_order_info_preferred_order__pack (pi_has_preferred_orders obj) (pi_preferred_orders obj) 1,
      pack_num (pi_has_allow_auction obj) (flag_word (pi_allow_auction obj)) 2]
     (pi_unknown obj) ctx"

text \<open>The contents.\<close>

definition preferred_order_info_content :: "memory \<Rightarrow> ngx_bid_request_ad_slot_preferred_order_info_t \<Rightarrow> (32 word \<times> wval list) list option" where
  "preferred_order_info_content m obj = content_of (pi_unknown obj)
     [(1, elements_slot (preferred_order_content m) (pi_has_preferred_orders obj) (pi_preferred_orders obj)),
      (2, num_slot (pi_has_allow_auction obj) (flag_word (pi_allow_auction obj)))]"

lemma preferred_order_info_content_mono:
  assumes "preferred_order_info_content m x = Some fs" "m \<subseteq>\<^sub>m m'"
  shows "preferred_order_info_content m' x = Some fs"
  using assms elements_slot_mono [where c = preferred_order_content and m = m and m' = m', OF _ preferred_order_content_mono [OF _ assms(2)]]
  by (auto simp: preferred_order_info_content_def)

text \<open>Reading sets the flag with the array.\<close>

definition preferred_order_info_tidy :: "ngx_bid_request_ad_slot_preferred_order_info_t \<Rightarrow> bool" where
  "preferred_order_info_tidy obj \<longleftrightarrow> (pi_preferred_orders obj \<noteq> None \<longrightarrow> pi_has_preferred_orders obj)"

lemma preferred_order_info_step:
  assumes "pool_serves env" "preferred_order_info_content m x = Some fs" "(n, vs) \<in> set fs" "v \<in> set vs" "solid v"
    "preferred_order_info_content (mem (cstate ctx)) y = Some (grouped [1, 2] ps)" "preferred_order_info_tidy y"
    "n = 1 \<or> values_of n ps = []" "holds ctx (enc_body v)"
  shows "step_result preferred_order_info_content [1, 2] preferred_order_info_tidy ctx (ngx_bid_request_ad_slot_preferred_order_info_case env n (wire_type_of v) y ctx) ps n v"
proof -
  note y = preferred_order_info_content_mono [OF assms(6), unfolded preferred_order_info_content_def, simplified, simplified bind_eq_Some_conv, simplified]
  note y0 = y [OF map_le_refl]
  consider "n = 1" "elements_slot (preferred_order_content m) (pi_has_preferred_orders x) (pi_preferred_orders x) = Some vs"
    | "n = 2" "num_slot (pi_has_allow_auction x) (flag_word (pi_allow_auction x)) = Some vs"
    using assms(2,3) by (auto simp: preferred_order_info_content_def)
  then show ?thesis
  proof cases
    case 1
    show ?thesis unfolding ngx_bid_request_ad_slot_preferred_order_info_case_def 1(1) ngx_bid_request_ad_slot_preferred_order_info__unpack_preferred_orders_def ngx_bid_request_ad_slot_preferred_order_info__add__preferred_orders_def
      by (simp, rule element_step [OF 1(2) assms(4) assms(9) assms(5,1) preferred_order_reads [OF assms(1)]])
        (use y assms(8) 1(1) assms(7) in \<open>auto simp: preferred_order_info_content_def preferred_order_info_tidy_def Let_def elements_slot_snoc split: option.splits\<close>)
  next
    case 2
    show ?thesis unfolding ngx_bid_request_ad_slot_preferred_order_info_case_def 2(1)
      by (simp, rule flag_step [OF 2(2) assms(4) assms(9)])
        (use y0 assms(8) 2(1) assms(7) in \<open>auto simp: preferred_order_info_content_def preferred_order_info_tidy_def split: option.splits\<close>)
  qed
qed

interpretation preferred_order_info: message_reader preferred_order_info_content ngx_bid_request_ad_slot_preferred_order_info_zero "[1, 2]"
  "(\<lambda>n. n = 1)" env "ngx_bid_request_ad_slot_preferred_order_info_case env" "preferred_order_info_tidy"
  for env :: "'m pb_env"
proof (unfold_locales, goal_cases)
  case 7
  then show ?case by (rule preferred_order_info_content_mono)
next
  case 8
  show ?case by (rule preferred_order_info_step) (use 8 in simp_all)
qed (auto simp: preferred_order_info_content_def ngx_bid_request_ad_slot_preferred_order_info_zero_def preferred_order_info_tidy_def intro: single_slots single_value_slots)

lemma preferred_order_info_reads:
  assumes "pool_serves env" "preferred_order_info_content m x = Some fs" "solid_fields fs"
  shows "message_reads preferred_order_info_content ngx_bid_request_ad_slot_preferred_order_info_zero (ngx_bid_request_ad_slot_preferred_order_info__unpack env) fs"
  by (rule preferred_order_info.unpack_reads [OF assms]) (simp add: ngx_bid_request_ad_slot_preferred_order_info__unpack_def)

section \<open>\<^verbatim>\<open>BidRequest.AdSlot.GuaranteedOrder.Charge\<close>\<close>

record ngx_bid_request_ad_slot_guaranteed_order_charge_t =
  oc_price :: "32 word"
  oc_charge_mode :: "32 word"
  oc_unknown :: unknowns
  oc_has_price :: bool
  oc_has_charge_mode :: bool

text \<open>Cleared memory.\<close>

definition ngx_bid_request_ad_slot_guaranteed_order_charge_zero :: ngx_bid_request_ad_slot_guaranteed_order_charge_t where
  "ngx_bid_request_ad_slot_guaranteed_order_charge_zero =
    \<lparr>oc_price = 0, oc_charge_mode = 0, oc_unknown = None, oc_has_price = False, oc_has_charge_mode = False\<rparr>"

text \<open>The switch of \<^verbatim>\<open>__unpack\<close>, then its loop.\<close>

definition ngx_bid_request_ad_slot_guaranteed_order_charge_case :: "'m pb_env \<Rightarrow> 32 word \<Rightarrow> 32 word \<Rightarrow> ngx_bid_request_ad_slot_guaranteed_order_charge_t \<Rightarrow> 'm ngx_protobuf_context_t \<Rightarrow> (ngx_bid_request_ad_slot_guaranteed_order_charge_t, 'm) unpacked" where
  "ngx_bid_request_ad_slot_guaranteed_order_charge_case env field wire obj ctx =
     (if field = 1 then unpack_num env wire oc_price (\<lambda>v obj. obj\<lparr>oc_price := v\<rparr>) (\<lambda>obj. obj\<lparr>oc_has_price := True\<rparr>) obj ctx
     else if field = 2 then unpack_num env wire oc_charge_mode (\<lambda>v obj. obj\<lparr>oc_charge_mode := v\<rparr>) (\<lambda>obj. obj\<lparr>oc_has_charge_mode := True\<rparr>) obj ctx
     else unpack_unknown env field wire oc_unknown (\<lambda>v obj. obj\<lparr>oc_unknown := v\<rparr>) obj ctx)"

definition ngx_bid_request_ad_slot_guaranteed_order_charge__unpack :: "'m pb_env \<Rightarrow> ngx_bid_request_ad_slot_guaranteed_order_charge_t \<Rightarrow> 'm ngx_protobuf_context_t \<Rightarrow> (ngx_bid_request_ad_slot_guaranteed_order_charge_t, 'm) unpacked" where
  "ngx_bid_request_ad_slot_guaranteed_order_charge__unpack env obj ctx = unpack_loop (ngx_bid_request_ad_slot_guaranteed_order_charge_case env) (clast ctx) obj ctx"

definition ngx_bid_request_ad_slot_guaranteed_order_charge__size :: "ngx_bid_request_ad_slot_guaranteed_order_charge_t \<Rightarrow> nat option" where
  "ngx_bid_request_ad_slot_guaranteed_order_charge__size obj = size_message
     [Some (size_number (oc_has_price obj) (oc_price obj) 1),
      Some (size_number (oc_has_charge_mode obj) (oc_charge_mode obj) 2)]
     (oc_unknown obj)"

definition ngx_bid_request_ad_slot_guaranteed_order_charge__pack :: "(ngx_bid_request_ad_slot_guaranteed_order_charge_t, 'm) packer" where
  "ngx_bid_request_ad_slot_guaranteed_order_charge__pack obj ctx = pack_message (ngx_bid_request_ad_slot_guaranteed_order_charge__size obj)
     [pack_num (oc_has_price obj) (oc_price obj) 1,
      pack_num (oc_has_charge_mode obj) (oc_charge_mode obj) 2]
     (oc_unknown obj) ctx"

text \<open>The contents.\<close>

definition order_charge_content :: "memory \<Rightarrow> ngx_bid_request_ad_slot_guaranteed_order_charge_t \<Rightarrow> (32 word \<times> wval list) list option" where
  "order_charge_content m obj = content_of (oc_unknown obj)
     [(1, num_slot (oc_has_price obj) (oc_price obj)),
      (2, num_slot (oc_has_charge_mode obj) (oc_charge_mode obj))]"

lemma order_charge_content_mono:
  assumes "order_charge_content m x = Some fs" "m \<subseteq>\<^sub>m m'"
  shows "order_charge_content m' x = Some fs"
  using assms
  by (auto simp: order_charge_content_def)

lemma order_charge_step:
  assumes "pool_serves env" "order_charge_content m x = Some fs" "(n, vs) \<in> set fs" "v \<in> set vs" "solid v"
    "order_charge_content (mem (cstate ctx)) y = Some (grouped [1, 2] ps)"
    "values_of n ps = []" "holds ctx (enc_body v)"
  shows "step_result order_charge_content [1, 2] (\<lambda>_. True) ctx (ngx_bid_request_ad_slot_guaranteed_order_charge_case env n (wire_type_of v) y ctx) ps n v"
proof -
  note y = order_charge_content_mono [OF assms(6), unfolded order_charge_content_def, simplified, simplified bind_eq_Some_conv, simplified]
  note y0 = y [OF map_le_refl]
  consider "n = 1" "num_slot (oc_has_price x) (oc_price x) = Some vs"
    | "n = 2" "num_slot (oc_has_charge_mode x) (oc_charge_mode x) = Some vs"
    using assms(2,3) by (auto simp: order_charge_content_def)
  then show ?thesis
  proof cases
    case 1
    show ?thesis unfolding ngx_bid_request_ad_slot_guaranteed_order_charge_case_def 1(1)
      by (simp, rule num_step [OF 1(2) assms(4) assms(8)])
        (use y0 assms(7) 1(1) in \<open>auto simp: order_charge_content_def split: option.splits\<close>)
  next
    case 2
    show ?thesis unfolding ngx_bid_request_ad_slot_guaranteed_order_charge_case_def 2(1)
      by (simp, rule num_step [OF 2(2) assms(4) assms(8)])
        (use y0 assms(7) 2(1) in \<open>auto simp: order_charge_content_def split: option.splits\<close>)
  qed
qed

interpretation order_charge: message_reader order_charge_content ngx_bid_request_ad_slot_guaranteed_order_charge_zero "[1, 2]"
  "(\<lambda>n. False)" env "ngx_bid_request_ad_slot_guaranteed_order_charge_case env" "(\<lambda>_. True)"
  for env :: "'m pb_env"
proof (unfold_locales, goal_cases)
  case 7
  then show ?case by (rule order_charge_content_mono)
next
  case 8
  show ?case by (rule order_charge_step) (use 8 in simp_all)
qed (auto simp: order_charge_content_def ngx_bid_request_ad_slot_guaranteed_order_charge_zero_def intro: single_slots single_value_slots)

lemma order_charge_reads:
  assumes "pool_serves env" "order_charge_content m x = Some fs" "solid_fields fs"
  shows "message_reads order_charge_content ngx_bid_request_ad_slot_guaranteed_order_charge_zero (ngx_bid_request_ad_slot_guaranteed_order_charge__unpack env) fs"
  by (rule order_charge.unpack_reads [OF assms]) (simp add: ngx_bid_request_ad_slot_guaranteed_order_charge__unpack_def)

section \<open>\<^verbatim>\<open>BidRequest.AdSlot.GuaranteedOrder\<close>\<close>

record ngx_bid_request_ad_slot_guaranteed_order_t =
  go_order_id :: "32 word"
  go_charge :: "ngx_bid_request_ad_slot_guaranteed_order_charge_t option"
  go_unknown :: unknowns
  go_has_order_id :: bool
  go_has_charge :: bool

text \<open>Cleared memory.\<close>

definition ngx_bid_request_ad_slot_guaranteed_order_zero :: ngx_bid_request_ad_slot_guaranteed_order_t where
  "ngx_bid_request_ad_slot_guaranteed_order_zero =
    \<lparr>go_order_id = 0, go_charge = None, go_unknown = None, go_has_order_id = False, go_has_charge = False\<rparr>"

definition ngx_bid_request_ad_slot_guaranteed_order__unpack_charge ::
    "'m pb_env \<Rightarrow> ngx_bid_request_ad_slot_guaranteed_order_t \<Rightarrow> 'm ngx_protobuf_context_t \<Rightarrow> 64 word \<Rightarrow> (ngx_bid_request_ad_slot_guaranteed_order_t, 'm) unpacked" where
  "ngx_bid_request_ad_slot_guaranteed_order__unpack_charge env =
     unpack_member env 24 ngx_bid_request_ad_slot_guaranteed_order_charge_zero (ngx_bid_request_ad_slot_guaranteed_order_charge__unpack env)
       go_charge (\<lambda>v obj. obj\<lparr>go_charge := v\<rparr>) (\<lambda>obj. obj\<lparr>go_has_charge := True\<rparr>)"

text \<open>The switch of \<^verbatim>\<open>__unpack\<close>, then its loop.\<close>

definition ngx_bid_request_ad_slot_guaranteed_order_case :: "'m pb_env \<Rightarrow> 32 word \<Rightarrow> 32 word \<Rightarrow> ngx_bid_request_ad_slot_guaranteed_order_t \<Rightarrow> 'm ngx_protobuf_context_t \<Rightarrow> (ngx_bid_request_ad_slot_guaranteed_order_t, 'm) unpacked" where
  "ngx_bid_request_ad_slot_guaranteed_order_case env field wire obj ctx =
     (if field = 1 then unpack_num env wire go_order_id (\<lambda>v obj. obj\<lparr>go_order_id := v\<rparr>) (\<lambda>obj. obj\<lparr>go_has_order_id := True\<rparr>) obj ctx
     else if field = 2 then unpack_sub env wire (ngx_bid_request_ad_slot_guaranteed_order__unpack_charge env) obj ctx
     else unpack_unknown env field wire go_unknown (\<lambda>v obj. obj\<lparr>go_unknown := v\<rparr>) obj ctx)"

definition ngx_bid_request_ad_slot_guaranteed_order__unpack :: "'m pb_env \<Rightarrow> ngx_bid_request_ad_slot_guaranteed_order_t \<Rightarrow> 'm ngx_protobuf_context_t \<Rightarrow> (ngx_bid_request_ad_slot_guaranteed_order_t, 'm) unpacked" where
  "ngx_bid_request_ad_slot_guaranteed_order__unpack env obj ctx = unpack_loop (ngx_bid_request_ad_slot_guaranteed_order_case env) (clast ctx) obj ctx"

definition ngx_bid_request_ad_slot_guaranteed_order__size :: "ngx_bid_request_ad_slot_guaranteed_order_t \<Rightarrow> nat option" where
  "ngx_bid_request_ad_slot_guaranteed_order__size obj = size_message
     [Some (size_number (go_has_order_id obj) (go_order_id obj) 1),
      size_member ngx_bid_request_ad_slot_guaranteed_order_charge__size (go_has_charge obj) (go_charge obj) 2]
     (go_unknown obj)"

definition ngx_bid_request_ad_slot_guaranteed_order__pack :: "(ngx_bid_request_ad_slot_guaranteed_order_t, 'm) packer" where
  "ngx_bid_request_ad_slot_guaranteed_order__pack obj ctx = pack_message (ngx_bid_request_ad_slot_guaranteed_order__size obj)
     [pack_num (go_has_order_id obj) (go_order_id obj) 1,
      pack_member ngx_bid_request_ad_slot_guaranteed_order_charge__size ngx_bid_request_ad_slot_guaranteed_order_charge__pack (go_has_charge obj) (go_charge obj) 2]
     (go_unknown obj) ctx"

text \<open>The contents.\<close>

definition guaranteed_order_content :: "memory \<Rightarrow> ngx_bid_request_ad_slot_guaranteed_order_t \<Rightarrow> (32 word \<times> wval list) list option" where
  "guaranteed_order_content m obj = content_of (go_unknown obj)
     [(1, num_slot (go_has_order_id obj) (go_order_id obj)),
      (2, member_slot (order_charge_content m) (go_has_charge obj) (go_charge obj))]"

lemma guaranteed_order_content_mono:
  assumes "guaranteed_order_content m x = Some fs" "m \<subseteq>\<^sub>m m'"
  shows "guaranteed_order_content m' x = Some fs"
  using assms member_slot_mono [where c = order_charge_content and m = m and m' = m', OF _ order_charge_content_mono [OF _ assms(2)]]
  by (auto simp: guaranteed_order_content_def)

lemma guaranteed_order_step:
  assumes "pool_serves env" "guaranteed_order_content m x = Some fs" "(n, vs) \<in> set fs" "v \<in> set vs" "solid v"
    "guaranteed_order_content (mem (cstate ctx)) y = Some (grouped [1, 2] ps)"
    "values_of n ps = []" "holds ctx (enc_body v)"
  shows "step_result guaranteed_order_content [1, 2] (\<lambda>_. True) ctx (ngx_bid_request_ad_slot_guaranteed_order_case env n (wire_type_of v) y ctx) ps n v"
proof -
  note y = guaranteed_order_content_mono [OF assms(6), unfolded guaranteed_order_content_def, simplified, simplified bind_eq_Some_conv, simplified]
  note y0 = y [OF map_le_refl]
  consider "n = 1" "num_slot (go_has_order_id x) (go_order_id x) = Some vs"
    | "n = 2" "member_slot (order_charge_content m) (go_has_charge x) (go_charge x) = Some vs"
    using assms(2,3) by (auto simp: guaranteed_order_content_def)
  then show ?thesis
  proof cases
    case 1
    show ?thesis unfolding ngx_bid_request_ad_slot_guaranteed_order_case_def 1(1)
      by (simp, rule num_step [OF 1(2) assms(4) assms(8)])
        (use y0 assms(7) 1(1) in \<open>auto simp: guaranteed_order_content_def split: option.splits\<close>)
  next
    case 2
    show ?thesis unfolding ngx_bid_request_ad_slot_guaranteed_order_case_def 2(1) ngx_bid_request_ad_slot_guaranteed_order__unpack_charge_def
      by (simp, rule member_step [OF 2(2) assms(4) assms(8) assms(5,1) order_charge_reads [OF assms(1)]])
        (use y assms(7) 2(1) in \<open>auto simp: guaranteed_order_content_def split: option.splits\<close>)
  qed
qed

interpretation guaranteed_order: message_reader guaranteed_order_content ngx_bid_request_ad_slot_guaranteed_order_zero "[1, 2]"
  "(\<lambda>n. False)" env "ngx_bid_request_ad_slot_guaranteed_order_case env" "(\<lambda>_. True)"
  for env :: "'m pb_env"
proof (unfold_locales, goal_cases)
  case 7
  then show ?case by (rule guaranteed_order_content_mono)
next
  case 8
  show ?case by (rule guaranteed_order_step) (use 8 in simp_all)
qed (auto simp: guaranteed_order_content_def ngx_bid_request_ad_slot_guaranteed_order_zero_def intro: single_slots single_value_slots)

lemma guaranteed_order_reads:
  assumes "pool_serves env" "guaranteed_order_content m x = Some fs" "solid_fields fs"
  shows "message_reads guaranteed_order_content ngx_bid_request_ad_slot_guaranteed_order_zero (ngx_bid_request_ad_slot_guaranteed_order__unpack env) fs"
  by (rule guaranteed_order.unpack_reads [OF assms]) (simp add: ngx_bid_request_ad_slot_guaranteed_order__unpack_def)

end
