(* ===== verification/Bid_Slot.thy ===== *)
theory Bid_Slot
  imports Bid_Order
begin

text \<open>
  The message \<^verbatim>\<open>BidRequest.AdSlot\<close>, its creatives and native parameters,
  of \<^verbatim>\<open>ngx_baidu_proto.c\<close>: the records, one definition per function and, by an interpretation of
  \<open>message_reader\<close>, what unpacking reads.
\<close>

section \<open>\<^verbatim>\<open>BidRequest.AdSlot.ExpandCreativeInfo\<close>\<close>

record ngx_bid_request_ad_slot_expand_creative_info_t =
  ec_expand_action_type :: "32 word list option"
  ec_expand_direction :: "32 word"
  ec_expand_creative_type :: "32 word list option"
  ec_expand_width :: "32 word"
  ec_expand_height :: "32 word"
  ec_expand_duration :: "32 word"
  ec_unknown :: unknowns
  ec_has_expand_action_type :: bool
  ec_has_expand_direction :: bool
  ec_has_expand_creative_type :: bool
  ec_has_expand_width :: bool
  ec_has_expand_height :: bool
  ec_has_expand_duration :: bool

text \<open>Cleared memory.\<close>

definition ngx_bid_request_ad_slot_expand_creative_info_zero :: ngx_bid_request_ad_slot_expand_creative_info_t where
  "ngx_bid_request_ad_slot_expand_creative_info_zero =
    \<lparr>ec_expand_action_type = None, ec_expand_direction = 0, ec_expand_creative_type = None, ec_expand_width = 0,
     ec_expand_height = 0, ec_expand_duration = 0, ec_unknown = None, ec_has_expand_action_type = False,
     ec_has_expand_direction = False, ec_has_expand_creative_type = False, ec_has_expand_width = False,
     ec_has_expand_height = False, ec_has_expand_duration = False\<rparr>"

definition ngx_bid_request_ad_slot_expand_creative_info__add__expand_action_type ::
    "'m pb_env \<Rightarrow> ngx_bid_request_ad_slot_expand_creative_info_t \<Rightarrow> 'm pstate \<Rightarrow> bool \<Rightarrow> 'm pstate \<times> ngx_bid_request_ad_slot_expand_creative_info_t \<times> bool" where
  "ngx_bid_request_ad_slot_expand_creative_info__add__expand_action_type env =
     add_element env 4 0 ec_expand_action_type (\<lambda>v obj. obj\<lparr>ec_expand_action_type := v\<rparr>) (\<lambda>obj. obj\<lparr>ec_has_expand_action_type := True\<rparr>)"

definition ngx_bid_request_ad_slot_expand_creative_info__add__expand_creative_type ::
    "'m pb_env \<Rightarrow> ngx_bid_request_ad_slot_expand_creative_info_t \<Rightarrow> 'm pstate \<Rightarrow> bool \<Rightarrow> 'm pstate \<times> ngx_bid_request_ad_slot_expand_creative_info_t \<times> bool" where
  "ngx_bid_request_ad_slot_expand_creative_info__add__expand_creative_type env =
     add_element env 4 0 ec_expand_creative_type (\<lambda>v obj. obj\<lparr>ec_expand_creative_type := v\<rparr>) (\<lambda>obj. obj\<lparr>ec_has_expand_creative_type := True\<rparr>)"

text \<open>The switch of \<^verbatim>\<open>__unpack\<close>, then its loop.\<close>

definition ngx_bid_request_ad_slot_expand_creative_info_case :: "'m pb_env \<Rightarrow> 32 word \<Rightarrow> 32 word \<Rightarrow> ngx_bid_request_ad_slot_expand_creative_info_t \<Rightarrow> 'm ngx_protobuf_context_t \<Rightarrow> (ngx_bid_request_ad_slot_expand_creative_info_t, 'm) unpacked" where
  "ngx_bid_request_ad_slot_expand_creative_info_case env field wire obj ctx =
     (if field = 1 then unpack_array env WIRE_VARINT read_num wire (ngx_bid_request_ad_slot_expand_creative_info__add__expand_action_type env) ec_expand_action_type (\<lambda>v obj. obj\<lparr>ec_expand_action_type := v\<rparr>) (\<lambda>obj. obj\<lparr>ec_has_expand_action_type := True\<rparr>) obj ctx
     else if field = 2 then unpack_num env wire ec_expand_direction (\<lambda>v obj. obj\<lparr>ec_expand_direction := v\<rparr>) (\<lambda>obj. obj\<lparr>ec_has_expand_direction := True\<rparr>) obj ctx
     else if field = 3 then unpack_packed_array env wire (ngx_bid_request_ad_slot_expand_creative_info__add__expand_creative_type env) ec_expand_creative_type (\<lambda>v obj. obj\<lparr>ec_expand_creative_type := v\<rparr>) (\<lambda>obj. obj\<lparr>ec_has_expand_creative_type := True\<rparr>) obj ctx
     else if field = 4 then unpack_num env wire ec_expand_width (\<lambda>v obj. obj\<lparr>ec_expand_width := v\<rparr>) (\<lambda>obj. obj\<lparr>ec_has_expand_width := True\<rparr>) obj ctx
     else if field = 5 then unpack_num env wire ec_expand_height (\<lambda>v obj. obj\<lparr>ec_expand_height := v\<rparr>) (\<lambda>obj. obj\<lparr>ec_has_expand_height := True\<rparr>) obj ctx
     else if field = 6 then unpack_num env wire ec_expand_duration (\<lambda>v obj. obj\<lparr>ec_expand_duration := v\<rparr>) (\<lambda>obj. obj\<lparr>ec_has_expand_duration := True\<rparr>) obj ctx
     else unpack_unknown env field wire ec_unknown (\<lambda>v obj. obj\<lparr>ec_unknown := v\<rparr>) obj ctx)"

definition ngx_bid_request_ad_slot_expand_creative_info__unpack :: "'m pb_env \<Rightarrow> ngx_bid_request_ad_slot_expand_creative_info_t \<Rightarrow> 'm ngx_protobuf_context_t \<Rightarrow> (ngx_bid_request_ad_slot_expand_creative_info_t, 'm) unpacked" where
  "ngx_bid_request_ad_slot_expand_creative_info__unpack env obj ctx = unpack_loop (ngx_bid_request_ad_slot_expand_creative_info_case env) (clast ctx) obj ctx"

definition ngx_bid_request_ad_slot_expand_creative_info__size :: "ngx_bid_request_ad_slot_expand_creative_info_t \<Rightarrow> nat option" where
  "ngx_bid_request_ad_slot_expand_creative_info__size obj = size_message
     [Some (size_array ngx_protobuf_size_uint32_field (ec_has_expand_action_type obj) (ec_expand_action_type obj) 1),
      Some (size_number (ec_has_expand_direction obj) (ec_expand_direction obj) 2),
      Some (size_packed (ec_has_expand_creative_type obj) (ec_expand_creative_type obj) 3),
      Some (size_number (ec_has_expand_width obj) (ec_expand_width obj) 4),
      Some (size_number (ec_has_expand_height obj) (ec_expand_height obj) 5),
      Some (size_number (ec_has_expand_duration obj) (ec_expand_duration obj) 6)]
     (ec_unknown obj)"

definition ngx_bid_request_ad_slot_expand_creative_info__pack :: "(ngx_bid_request_ad_slot_expand_creative_info_t, 'm) packer" where
  "ngx_bid_request_ad_slot_expand_creative_info__pack obj ctx = pack_message (ngx_bid_request_ad_slot_expand_creative_info__size obj)
     [pack_array ngx_protobuf_write_uint32_field (ec_has_expand_action_type obj) (ec_expand_action_type obj) 1,
      pack_num (ec_has_expand_direction obj) (ec_expand_direction obj) 2,
      pack_packed (ec_has_expand_creative_type obj) (ec_expand_creative_type obj) 3,
      pack_num (ec_has_expand_width obj) (ec_expand_width obj) 4,
      pack_num (ec_has_expand_height obj) (ec_expand_height obj) 5,
      pack_num (ec_has_expand_duration obj) (ec_expand_duration obj) 6]
     (ec_unknown obj) ctx"

text \<open>The contents.\<close>

definition expand_creative_info_content :: "memory \<Rightarrow> ngx_bid_request_ad_slot_expand_creative_info_t \<Rightarrow> (32 word \<times> wval list) list option" where
  "expand_creative_info_content m obj = content_of (ec_unknown obj)
     [(1, nums_slot WNum (ec_has_expand_action_type obj) (ec_expand_action_type obj)),
      (2, num_slot (ec_has_expand_direction obj) (ec_expand_direction obj)),
      (3, packed_slot (ec_has_expand_creative_type obj) (ec_expand_creative_type obj)),
      (4, num_slot (ec_has_expand_width obj) (ec_expand_width obj)),
      (5, num_slot (ec_has_expand_height obj) (ec_expand_height obj)),
      (6, num_slot (ec_has_expand_duration obj) (ec_expand_duration obj))]"

lemma expand_creative_info_content_mono:
  assumes "expand_creative_info_content m x = Some fs" "m \<subseteq>\<^sub>m m'"
  shows "expand_creative_info_content m' x = Some fs"
  using assms
  by (auto simp: expand_creative_info_content_def)

text \<open>Reading sets the flag with the array.\<close>

definition expand_creative_info_tidy :: "ngx_bid_request_ad_slot_expand_creative_info_t \<Rightarrow> bool" where
  "expand_creative_info_tidy obj \<longleftrightarrow> (ec_expand_action_type obj \<noteq> None \<longrightarrow> ec_has_expand_action_type obj) \<and>
     (ec_expand_creative_type obj \<noteq> None \<longrightarrow> ec_has_expand_creative_type obj)"

lemma expand_creative_info_step:
  assumes "pool_serves env" "expand_creative_info_content m x = Some fs" "(n, vs) \<in> set fs" "v \<in> set vs" "solid v"
    "expand_creative_info_content (mem (cstate ctx)) y = Some (grouped [1, 2, 3, 4, 5, 6] ps)" "expand_creative_info_tidy y"
    "n = 1 \<or> values_of n ps = []" "holds ctx (enc_body v)"
  shows "step_result expand_creative_info_content [1, 2, 3, 4, 5, 6] expand_creative_info_tidy ctx (ngx_bid_request_ad_slot_expand_creative_info_case env n (wire_type_of v) y ctx) ps n v"
proof -
  note y = expand_creative_info_content_mono [OF assms(6), unfolded expand_creative_info_content_def, simplified, simplified bind_eq_Some_conv, simplified]
  note y0 = y [OF map_le_refl]
  consider "n = 1" "nums_slot WNum (ec_has_expand_action_type x) (ec_expand_action_type x) = Some vs"
    | "n = 2" "num_slot (ec_has_expand_direction x) (ec_expand_direction x) = Some vs"
    | "n = 3" "packed_slot (ec_has_expand_creative_type x) (ec_expand_creative_type x) = Some vs"
    | "n = 4" "num_slot (ec_has_expand_width x) (ec_expand_width x) = Some vs"
    | "n = 5" "num_slot (ec_has_expand_height x) (ec_expand_height x) = Some vs"
    | "n = 6" "num_slot (ec_has_expand_duration x) (ec_expand_duration x) = Some vs"
    using assms(2,3) by (auto simp: expand_creative_info_content_def)
  then show ?thesis
  proof cases
    case 1
    show ?thesis unfolding ngx_bid_request_ad_slot_expand_creative_info_case_def 1(1) ngx_bid_request_ad_slot_expand_creative_info__add__expand_action_type_def
      by (simp, rule nums_step [OF 1(2) assms(4) assms(9) assms(1)])
        (use y assms(8) 1(1) assms(7) in \<open>auto simp: expand_creative_info_content_def expand_creative_info_tidy_def member_laws_def nums_slot_snoc [where h = "ec_has_expand_action_type y" and a = "ec_expand_action_type y"] split: option.splits\<close>)
  next
    case 2
    show ?thesis unfolding ngx_bid_request_ad_slot_expand_creative_info_case_def 2(1)
      by (simp, rule num_step [OF 2(2) assms(4) assms(9)])
        (use y0 assms(8) 2(1) assms(7) in \<open>auto simp: expand_creative_info_content_def expand_creative_info_tidy_def split: option.splits\<close>)
  next
    case 3
    show ?thesis unfolding ngx_bid_request_ad_slot_expand_creative_info_case_def 3(1) ngx_bid_request_ad_slot_expand_creative_info__add__expand_creative_type_def
      by (simp, rule packed_step [OF 3(2) assms(4) assms(9) assms(5,1)])
        (use y assms(8) 3(1) assms(7) in \<open>auto simp: expand_creative_info_content_def expand_creative_info_tidy_def member_laws_def packed_slot_fill [where h = "ec_has_expand_creative_type y" and a = "ec_expand_creative_type y"] split: option.splits\<close>)
  next
    case 4
    show ?thesis unfolding ngx_bid_request_ad_slot_expand_creative_info_case_def 4(1)
      by (simp, rule num_step [OF 4(2) assms(4) assms(9)])
        (use y0 assms(8) 4(1) assms(7) in \<open>auto simp: expand_creative_info_content_def expand_creative_info_tidy_def split: option.splits\<close>)
  next
    case 5
    show ?thesis unfolding ngx_bid_request_ad_slot_expand_creative_info_case_def 5(1)
      by (simp, rule num_step [OF 5(2) assms(4) assms(9)])
        (use y0 assms(8) 5(1) assms(7) in \<open>auto simp: expand_creative_info_content_def expand_creative_info_tidy_def split: option.splits\<close>)
  next
    case 6
    show ?thesis unfolding ngx_bid_request_ad_slot_expand_creative_info_case_def 6(1)
      by (simp, rule num_step [OF 6(2) assms(4) assms(9)])
        (use y0 assms(8) 6(1) assms(7) in \<open>auto simp: expand_creative_info_content_def expand_creative_info_tidy_def split: option.splits\<close>)
  qed
qed

interpretation expand_creative_info: message_reader expand_creative_info_content ngx_bid_request_ad_slot_expand_creative_info_zero "[1, 2, 3, 4, 5, 6]"
  "(\<lambda>n. n = 1)" env "ngx_bid_request_ad_slot_expand_creative_info_case env" "expand_creative_info_tidy"
  for env :: "'m pb_env"
proof (unfold_locales, goal_cases)
  case 7
  then show ?case by (rule expand_creative_info_content_mono)
next
  case 8
  show ?case by (rule expand_creative_info_step) (use 8 in simp_all)
qed (auto simp: expand_creative_info_content_def ngx_bid_request_ad_slot_expand_creative_info_zero_def expand_creative_info_tidy_def intro: single_slots single_value_slots)

lemma expand_creative_info_reads:
  assumes "pool_serves env" "expand_creative_info_content m x = Some fs" "solid_fields fs"
  shows "message_reads expand_creative_info_content ngx_bid_request_ad_slot_expand_creative_info_zero (ngx_bid_request_ad_slot_expand_creative_info__unpack env) fs"
  by (rule expand_creative_info.unpack_reads [OF assms]) (simp add: ngx_bid_request_ad_slot_expand_creative_info__unpack_def)

section \<open>\<^verbatim>\<open>BidRequest.AdSlot.NativeAdParam.ImageEle\<close>\<close>

record ngx_bid_request_ad_slot_native_ad_param_image_ele_t =
  ie_width :: "32 word"
  ie_height :: "32 word"
  ie_shape :: "32 word"
  ie_unknown :: unknowns
  ie_has_width :: bool
  ie_has_height :: bool
  ie_has_shape :: bool

text \<open>Cleared memory.\<close>

definition ngx_bid_request_ad_slot_native_ad_param_image_ele_zero :: ngx_bid_request_ad_slot_native_ad_param_image_ele_t where
  "ngx_bid_request_ad_slot_native_ad_param_image_ele_zero =
    \<lparr>ie_width = 0, ie_height = 0, ie_shape = 0, ie_unknown = None, ie_has_width = False, ie_has_height = False,
     ie_has_shape = False\<rparr>"

text \<open>The switch of \<^verbatim>\<open>__unpack\<close>, then its loop.\<close>

definition ngx_bid_request_ad_slot_native_ad_param_image_ele_case :: "'m pb_env \<Rightarrow> 32 word \<Rightarrow> 32 word \<Rightarrow> ngx_bid_request_ad_slot_native_ad_param_image_ele_t \<Rightarrow> 'm ngx_protobuf_context_t \<Rightarrow> (ngx_bid_request_ad_slot_native_ad_param_image_ele_t, 'm) unpacked" where
  "ngx_bid_request_ad_slot_native_ad_param_image_ele_case env field wire obj ctx =
     (if field = 1 then unpack_num env wire ie_width (\<lambda>v obj. obj\<lparr>ie_width := v\<rparr>) (\<lambda>obj. obj\<lparr>ie_has_width := True\<rparr>) obj ctx
     else if field = 2 then unpack_num env wire ie_height (\<lambda>v obj. obj\<lparr>ie_height := v\<rparr>) (\<lambda>obj. obj\<lparr>ie_has_height := True\<rparr>) obj ctx
     else if field = 3 then unpack_num env wire ie_shape (\<lambda>v obj. obj\<lparr>ie_shape := v\<rparr>) (\<lambda>obj. obj\<lparr>ie_has_shape := True\<rparr>) obj ctx
     else unpack_unknown env field wire ie_unknown (\<lambda>v obj. obj\<lparr>ie_unknown := v\<rparr>) obj ctx)"

definition ngx_bid_request_ad_slot_native_ad_param_image_ele__unpack :: "'m pb_env \<Rightarrow> ngx_bid_request_ad_slot_native_ad_param_image_ele_t \<Rightarrow> 'm ngx_protobuf_context_t \<Rightarrow> (ngx_bid_request_ad_slot_native_ad_param_image_ele_t, 'm) unpacked" where
  "ngx_bid_request_ad_slot_native_ad_param_image_ele__unpack env obj ctx = unpack_loop (ngx_bid_request_ad_slot_native_ad_param_image_ele_case env) (clast ctx) obj ctx"

definition ngx_bid_request_ad_slot_native_ad_param_image_ele__size :: "ngx_bid_request_ad_slot_native_ad_param_image_ele_t \<Rightarrow> nat option" where
  "ngx_bid_request_ad_slot_native_ad_param_image_ele__size obj = size_message
     [Some (size_number (ie_has_width obj) (ie_width obj) 1),
      Some (size_number (ie_has_height obj) (ie_height obj) 2),
      Some (size_number (ie_has_shape obj) (ie_shape obj) 3)]
     (ie_unknown obj)"

definition ngx_bid_request_ad_slot_native_ad_param_image_ele__pack :: "(ngx_bid_request_ad_slot_native_ad_param_image_ele_t, 'm) packer" where
  "ngx_bid_request_ad_slot_native_ad_param_image_ele__pack obj ctx = pack_message (ngx_bid_request_ad_slot_native_ad_param_image_ele__size obj)
     [pack_num (ie_has_width obj) (ie_width obj) 1,
      pack_num (ie_has_height obj) (ie_height obj) 2,
      pack_num (ie_has_shape obj) (ie_shape obj) 3]
     (ie_unknown obj) ctx"

text \<open>The contents.\<close>

definition image_ele_content :: "memory \<Rightarrow> ngx_bid_request_ad_slot_native_ad_param_image_ele_t \<Rightarrow> (32 word \<times> wval list) list option" where
  "image_ele_content m obj = content_of (ie_unknown obj)
     [(1, num_slot (ie_has_width obj) (ie_width obj)),
      (2, num_slot (ie_has_height obj) (ie_height obj)),
      (3, num_slot (ie_has_shape obj) (ie_shape obj))]"

lemma image_ele_content_mono:
  assumes "image_ele_content m x = Some fs" "m \<subseteq>\<^sub>m m'"
  shows "image_ele_content m' x = Some fs"
  using assms
  by (auto simp: image_ele_content_def)

lemma image_ele_step:
  assumes "pool_serves env" "image_ele_content m x = Some fs" "(n, vs) \<in> set fs" "v \<in> set vs" "solid v"
    "image_ele_content (mem (cstate ctx)) y = Some (grouped [1, 2, 3] ps)"
    "values_of n ps = []" "holds ctx (enc_body v)"
  shows "step_result image_ele_content [1, 2, 3] (\<lambda>_. True) ctx (ngx_bid_request_ad_slot_native_ad_param_image_ele_case env n (wire_type_of v) y ctx) ps n v"
proof -
  note y = image_ele_content_mono [OF assms(6), unfolded image_ele_content_def, simplified, simplified bind_eq_Some_conv, simplified]
  note y0 = y [OF map_le_refl]
  consider "n = 1" "num_slot (ie_has_width x) (ie_width x) = Some vs"
    | "n = 2" "num_slot (ie_has_height x) (ie_height x) = Some vs"
    | "n = 3" "num_slot (ie_has_shape x) (ie_shape x) = Some vs"
    using assms(2,3) by (auto simp: image_ele_content_def)
  then show ?thesis
  proof cases
    case 1
    show ?thesis unfolding ngx_bid_request_ad_slot_native_ad_param_image_ele_case_def 1(1)
      by (simp, rule num_step [OF 1(2) assms(4) assms(8)])
        (use y0 assms(7) 1(1) in \<open>auto simp: image_ele_content_def split: option.splits\<close>)
  next
    case 2
    show ?thesis unfolding ngx_bid_request_ad_slot_native_ad_param_image_ele_case_def 2(1)
      by (simp, rule num_step [OF 2(2) assms(4) assms(8)])
        (use y0 assms(7) 2(1) in \<open>auto simp: image_ele_content_def split: option.splits\<close>)
  next
    case 3
    show ?thesis unfolding ngx_bid_request_ad_slot_native_ad_param_image_ele_case_def 3(1)
      by (simp, rule num_step [OF 3(2) assms(4) assms(8)])
        (use y0 assms(7) 3(1) in \<open>auto simp: image_ele_content_def split: option.splits\<close>)
  qed
qed

interpretation image_ele: message_reader image_ele_content ngx_bid_request_ad_slot_native_ad_param_image_ele_zero "[1, 2, 3]"
  "(\<lambda>n. False)" env "ngx_bid_request_ad_slot_native_ad_param_image_ele_case env" "(\<lambda>_. True)"
  for env :: "'m pb_env"
proof (unfold_locales, goal_cases)
  case 7
  then show ?case by (rule image_ele_content_mono)
next
  case 8
  show ?case by (rule image_ele_step) (use 8 in simp_all)
qed (auto simp: image_ele_content_def ngx_bid_request_ad_slot_native_ad_param_image_ele_zero_def intro: single_slots single_value_slots)

lemma image_ele_reads:
  assumes "pool_serves env" "image_ele_content m x = Some fs" "solid_fields fs"
  shows "message_reads image_ele_content ngx_bid_request_ad_slot_native_ad_param_image_ele_zero (ngx_bid_request_ad_slot_native_ad_param_image_ele__unpack env) fs"
  by (rule image_ele.unpack_reads [OF assms]) (simp add: ngx_bid_request_ad_slot_native_ad_param_image_ele__unpack_def)

section \<open>\<^verbatim>\<open>BidRequest.AdSlot.NativeAdParam\<close>\<close>

record ngx_bid_request_ad_slot_native_ad_param_t =
  na_required_fields :: "64 word list option"
  na_title_max_length :: "32 word"
  na_desc_max_length :: "32 word"
  na_logo_icon :: "ngx_bid_request_ad_slot_native_ad_param_image_ele_t option"
  na_image :: "ngx_bid_request_ad_slot_native_ad_param_image_ele_t option"
  na_image_num :: "32 word"
  na_unknown :: unknowns
  na_has_required_fields :: bool
  na_has_title_max_length :: bool
  na_has_desc_max_length :: bool
  na_has_logo_icon :: bool
  na_has_image :: bool
  na_has_image_num :: bool

text \<open>Cleared memory.\<close>

definition ngx_bid_request_ad_slot_native_ad_param_zero :: ngx_bid_request_ad_slot_native_ad_param_t where
  "ngx_bid_request_ad_slot_native_ad_param_zero =
    \<lparr>na_required_fields = None, na_title_max_length = 0, na_desc_max_length = 0, na_logo_icon = None,
     na_image = None, na_image_num = 0, na_unknown = None, na_has_required_fields = False,
     na_has_title_max_length = False, na_has_desc_max_length = False, na_has_logo_icon = False,
     na_has_image = False, na_has_image_num = False\<rparr>"

definition ngx_bid_request_ad_slot_native_ad_param__add__required_fields ::
    "'m pb_env \<Rightarrow> ngx_bid_request_ad_slot_native_ad_param_t \<Rightarrow> 'm pstate \<Rightarrow> bool \<Rightarrow> 'm pstate \<times> ngx_bid_request_ad_slot_native_ad_param_t \<times> bool" where
  "ngx_bid_request_ad_slot_native_ad_param__add__required_fields env =
     add_element env 8 0 na_required_fields (\<lambda>v obj. obj\<lparr>na_required_fields := v\<rparr>) (\<lambda>obj. obj\<lparr>na_has_required_fields := True\<rparr>)"

definition ngx_bid_request_ad_slot_native_ad_param__unpack_logo_icon ::
    "'m pb_env \<Rightarrow> ngx_bid_request_ad_slot_native_ad_param_t \<Rightarrow> 'm ngx_protobuf_context_t \<Rightarrow> 64 word \<Rightarrow> (ngx_bid_request_ad_slot_native_ad_param_t, 'm) unpacked" where
  "ngx_bid_request_ad_slot_native_ad_param__unpack_logo_icon env =
     unpack_member env 32 ngx_bid_request_ad_slot_native_ad_param_image_ele_zero (ngx_bid_request_ad_slot_native_ad_param_image_ele__unpack env)
       na_logo_icon (\<lambda>v obj. obj\<lparr>na_logo_icon := v\<rparr>) (\<lambda>obj. obj\<lparr>na_has_logo_icon := True\<rparr>)"

definition ngx_bid_request_ad_slot_native_ad_param__unpack_image ::
    "'m pb_env \<Rightarrow> ngx_bid_request_ad_slot_native_ad_param_t \<Rightarrow> 'm ngx_protobuf_context_t \<Rightarrow> 64 word \<Rightarrow> (ngx_bid_request_ad_slot_native_ad_param_t, 'm) unpacked" where
  "ngx_bid_request_ad_slot_native_ad_param__unpack_image env =
     unpack_member env 32 ngx_bid_request_ad_slot_native_ad_param_image_ele_zero (ngx_bid_request_ad_slot_native_ad_param_image_ele__unpack env)
       na_image (\<lambda>v obj. obj\<lparr>na_image := v\<rparr>) (\<lambda>obj. obj\<lparr>na_has_image := True\<rparr>)"

text \<open>The switch of \<^verbatim>\<open>__unpack\<close>, then its loop.\<close>

definition ngx_bid_request_ad_slot_native_ad_param_case :: "'m pb_env \<Rightarrow> 32 word \<Rightarrow> 32 word \<Rightarrow> ngx_bid_request_ad_slot_native_ad_param_t \<Rightarrow> 'm ngx_protobuf_context_t \<Rightarrow> (ngx_bid_request_ad_slot_native_ad_param_t, 'm) unpacked" where
  "ngx_bid_request_ad_slot_native_ad_param_case env field wire obj ctx =
     (if field = 1 then unpack_array env WIRE_VARINT read_long wire (ngx_bid_request_ad_slot_native_ad_param__add__required_fields env) na_required_fields (\<lambda>v obj. obj\<lparr>na_required_fields := v\<rparr>) (\<lambda>obj. obj\<lparr>na_has_required_fields := True\<rparr>) obj ctx
     else if field = 2 then unpack_num env wire na_title_max_length (\<lambda>v obj. obj\<lparr>na_title_max_length := v\<rparr>) (\<lambda>obj. obj\<lparr>na_has_title_max_length := True\<rparr>) obj ctx
     else if field = 3 then unpack_num env wire na_desc_max_length (\<lambda>v obj. obj\<lparr>na_desc_max_length := v\<rparr>) (\<lambda>obj. obj\<lparr>na_has_desc_max_length := True\<rparr>) obj ctx
     else if field = 4 then unpack_sub env wire (ngx_bid_request_ad_slot_native_ad_param__unpack_logo_icon env) obj ctx
     else if field = 5 then unpack_sub env wire (ngx_bid_request_ad_slot_native_ad_param__unpack_image env) obj ctx
     else if field = 6 then unpack_num env wire na_image_num (\<lambda>v obj. obj\<lparr>na_image_num := v\<rparr>) (\<lambda>obj. obj\<lparr>na_has_image_num := True\<rparr>) obj ctx
     else unpack_unknown env field wire na_unknown (\<lambda>v obj. obj\<lparr>na_unknown := v\<rparr>) obj ctx)"

definition ngx_bid_request_ad_slot_native_ad_param__unpack :: "'m pb_env \<Rightarrow> ngx_bid_request_ad_slot_native_ad_param_t \<Rightarrow> 'm ngx_protobuf_context_t \<Rightarrow> (ngx_bid_request_ad_slot_native_ad_param_t, 'm) unpacked" where
  "ngx_bid_request_ad_slot_native_ad_param__unpack env obj ctx = unpack_loop (ngx_bid_request_ad_slot_native_ad_param_case env) (clast ctx) obj ctx"

definition ngx_bid_request_ad_slot_native_ad_param__size :: "ngx_bid_request_ad_slot_native_ad_param_t \<Rightarrow> nat option" where
  "ngx_bid_request_ad_slot_native_ad_param__size obj = size_message
     [Some (size_array ngx_protobuf_size_uint64_field (na_has_required_fields obj) (na_required_fields obj) 1),
      Some (size_number (na_has_title_max_length obj) (na_title_max_length obj) 2),
      Some (size_number (na_has_desc_max_length obj) (na_desc_max_length obj) 3),
      size_member ngx_bid_request_ad_slot_native_ad_param_image_ele__size (na_has_logo_icon obj) (na_logo_icon obj) 4,
      size_member ngx_bid_request_ad_slot_native_ad_param_image_ele__size (na_has_image obj) (na_image obj) 5,
      Some (size_number (na_has_image_num obj) (na_image_num obj) 6)]
     (na_unknown obj)"

definition ngx_bid_request_ad_slot_native_ad_param__pack :: "(ngx_bid_request_ad_slot_native_ad_param_t, 'm) packer" where
  "ngx_bid_request_ad_slot_native_ad_param__pack obj ctx = pack_message (ngx_bid_request_ad_slot_native_ad_param__size obj)
     [pack_array ngx_protobuf_write_uint64_field (na_has_required_fields obj) (na_required_fields obj) 1,
      pack_num (na_has_title_max_length obj) (na_title_max_length obj) 2,
      pack_num (na_has_desc_max_length obj) (na_desc_max_length obj) 3,
      pack_member ngx_bid_request_ad_slot_native_ad_param_image_ele__size ngx_bid_request_ad_slot_native_ad_param_image_ele__pack (na_has_logo_icon obj) (na_logo_icon obj) 4,
      pack_member ngx_bid_request_ad_slot_native_ad_param_image_ele__size ngx_bid_request_ad_slot_native_ad_param_image_ele__pack (na_has_image obj) (na_image obj) 5,
      pack_num (na_has_image_num obj) (na_image_num obj) 6]
     (na_unknown obj) ctx"

text \<open>The contents.\<close>

definition native_ad_param_content :: "memory \<Rightarrow> ngx_bid_request_ad_slot_native_ad_param_t \<Rightarrow> (32 word \<times> wval list) list option" where
  "native_ad_param_content m obj = content_of (na_unknown obj)
     [(1, nums_slot WLong (na_has_required_fields obj) (na_required_fields obj)),
      (2, num_slot (na_has_title_max_length obj) (na_title_max_length obj)),
      (3, num_slot (na_has_desc_max_length obj) (na_desc_max_length obj)),
      (4, member_slot (image_ele_content m) (na_has_logo_icon obj) (na_logo_icon obj)),
      (5, member_slot (image_ele_content m) (na_has_image obj) (na_image obj)),
      (6, num_slot (na_has_image_num obj) (na_image_num obj))]"

lemma native_ad_param_content_mono:
  assumes "native_ad_param_content m x = Some fs" "m \<subseteq>\<^sub>m m'"
  shows "native_ad_param_content m' x = Some fs"
  using assms member_slot_mono [where c = image_ele_content and m = m and m' = m', OF _ image_ele_content_mono [OF _ assms(2)]]
  by (auto simp: native_ad_param_content_def)

text \<open>Reading sets the flag with the array.\<close>

definition native_ad_param_tidy :: "ngx_bid_request_ad_slot_native_ad_param_t \<Rightarrow> bool" where
  "native_ad_param_tidy obj \<longleftrightarrow> (na_required_fields obj \<noteq> None \<longrightarrow> na_has_required_fields obj)"

lemma native_ad_param_step:
  assumes "pool_serves env" "native_ad_param_content m x = Some fs" "(n, vs) \<in> set fs" "v \<in> set vs" "solid v"
    "native_ad_param_content (mem (cstate ctx)) y = Some (grouped [1, 2, 3, 4, 5, 6] ps)" "native_ad_param_tidy y"
    "n = 1 \<or> values_of n ps = []" "holds ctx (enc_body v)"
  shows "step_result native_ad_param_content [1, 2, 3, 4, 5, 6] native_ad_param_tidy ctx (ngx_bid_request_ad_slot_native_ad_param_case env n (wire_type_of v) y ctx) ps n v"
proof -
  note y = native_ad_param_content_mono [OF assms(6), unfolded native_ad_param_content_def, simplified, simplified bind_eq_Some_conv, simplified]
  note y0 = y [OF map_le_refl]
  consider "n = 1" "nums_slot WLong (na_has_required_fields x) (na_required_fields x) = Some vs"
    | "n = 2" "num_slot (na_has_title_max_length x) (na_title_max_length x) = Some vs"
    | "n = 3" "num_slot (na_has_desc_max_length x) (na_desc_max_length x) = Some vs"
    | "n = 4" "member_slot (image_ele_content m) (na_has_logo_icon x) (na_logo_icon x) = Some vs"
    | "n = 5" "member_slot (image_ele_content m) (na_has_image x) (na_image x) = Some vs"
    | "n = 6" "num_slot (na_has_image_num x) (na_image_num x) = Some vs"
    using assms(2,3) by (auto simp: native_ad_param_content_def)
  then show ?thesis
  proof cases
    case 1
    show ?thesis unfolding ngx_bid_request_ad_slot_native_ad_param_case_def 1(1) ngx_bid_request_ad_slot_native_ad_param__add__required_fields_def
      by (simp, rule longs_step [OF 1(2) assms(4) assms(9) assms(1)])
        (use y assms(8) 1(1) assms(7) in \<open>auto simp: native_ad_param_content_def native_ad_param_tidy_def member_laws_def nums_slot_snoc [where h = "na_has_required_fields y" and a = "na_required_fields y"] split: option.splits\<close>)
  next
    case 2
    show ?thesis unfolding ngx_bid_request_ad_slot_native_ad_param_case_def 2(1)
      by (simp, rule num_step [OF 2(2) assms(4) assms(9)])
        (use y0 assms(8) 2(1) assms(7) in \<open>auto simp: native_ad_param_content_def native_ad_param_tidy_def split: option.splits\<close>)
  next
    case 3
    show ?thesis unfolding ngx_bid_request_ad_slot_native_ad_param_case_def 3(1)
      by (simp, rule num_step [OF 3(2) assms(4) assms(9)])
        (use y0 assms(8) 3(1) assms(7) in \<open>auto simp: native_ad_param_content_def native_ad_param_tidy_def split: option.splits\<close>)
  next
    case 4
    show ?thesis unfolding ngx_bid_request_ad_slot_native_ad_param_case_def 4(1) ngx_bid_request_ad_slot_native_ad_param__unpack_logo_icon_def
      by (simp, rule member_step [OF 4(2) assms(4) assms(9) assms(5,1) image_ele_reads [OF assms(1)]])
        (use y assms(8) 4(1) assms(7) in \<open>auto simp: native_ad_param_content_def native_ad_param_tidy_def split: option.splits\<close>)
  next
    case 5
    show ?thesis unfolding ngx_bid_request_ad_slot_native_ad_param_case_def 5(1) ngx_bid_request_ad_slot_native_ad_param__unpack_image_def
      by (simp, rule member_step [OF 5(2) assms(4) assms(9) assms(5,1) image_ele_reads [OF assms(1)]])
        (use y assms(8) 5(1) assms(7) in \<open>auto simp: native_ad_param_content_def native_ad_param_tidy_def split: option.splits\<close>)
  next
    case 6
    show ?thesis unfolding ngx_bid_request_ad_slot_native_ad_param_case_def 6(1)
      by (simp, rule num_step [OF 6(2) assms(4) assms(9)])
        (use y0 assms(8) 6(1) assms(7) in \<open>auto simp: native_ad_param_content_def native_ad_param_tidy_def split: option.splits\<close>)
  qed
qed

interpretation native_ad_param: message_reader native_ad_param_content ngx_bid_request_ad_slot_native_ad_param_zero "[1, 2, 3, 4, 5, 6]"
  "(\<lambda>n. n = 1)" env "ngx_bid_request_ad_slot_native_ad_param_case env" "native_ad_param_tidy"
  for env :: "'m pb_env"
proof (unfold_locales, goal_cases)
  case 7
  then show ?case by (rule native_ad_param_content_mono)
next
  case 8
  show ?case by (rule native_ad_param_step) (use 8 in simp_all)
qed (auto simp: native_ad_param_content_def ngx_bid_request_ad_slot_native_ad_param_zero_def native_ad_param_tidy_def intro: single_slots single_value_slots)

lemma native_ad_param_reads:
  assumes "pool_serves env" "native_ad_param_content m x = Some fs" "solid_fields fs"
  shows "message_reads native_ad_param_content ngx_bid_request_ad_slot_native_ad_param_zero (ngx_bid_request_ad_slot_native_ad_param__unpack env) fs"
  by (rule native_ad_param.unpack_reads [OF assms]) (simp add: ngx_bid_request_ad_slot_native_ad_param__unpack_def)

section \<open>\<^verbatim>\<open>BidRequest.AdSlot\<close>\<close>

record ngx_bid_request_ad_slot_t =
  ad_ad_block_key :: "64 word"
  ad_sequence_id :: "32 word"
  ad_adslot_type :: "32 word"
  ad_width :: "32 word"
  ad_height :: "32 word"
  ad_actual_width :: "32 word"
  ad_actual_height :: "32 word"
  ad_slot_visibility :: "32 word"
  ad_creative_type :: "32 word list option"
  ad_creative_desc_type :: "32 word list option"
  ad_excluded_landing_page_url :: "ngx_str_t list option"
  ad_publisher_settings_list_id :: "64 word list option"
  ad_minimum_cpm :: "32 word"
  ad_max_video_duration :: "32 word"
  ad_min_video_duration :: "32 word"
  ad_video_start_delay :: "32 word"
  ad_video_info :: "ngx_bid_request_ad_slot_video_info_t option"
  ad_link_unit_info :: "ngx_bid_request_ad_slot_link_unit_info_t option"
  ad_preferred_order_info :: "ngx_bid_request_ad_slot_preferred_order_info_t option"
  ad_guaranteed_orders :: "ngx_bid_request_ad_slot_guaranteed_order_t list option"
  ad_expand_creative_info :: "ngx_bid_request_ad_slot_expand_creative_info_t option"
  ad_adslot_level :: "32 word"
  ad_allowed_non_nativead :: "64 word"
  ad_nativead_param :: "ngx_bid_request_ad_slot_native_ad_param_t option"
  ad_secure :: "64 word"
  ad_unknown :: unknowns
  ad_has_ad_block_key :: bool
  ad_has_sequence_id :: bool
  ad_has_adslot_type :: bool
  ad_has_width :: bool
  ad_has_height :: bool
  ad_has_actual_width :: bool
  ad_has_actual_height :: bool
  ad_has_slot_visibility :: bool
  ad_has_creative_type :: bool
  ad_has_creative_desc_type :: bool
  ad_has_excluded_landing_page_url :: bool
  ad_has_publisher_settings_list_id :: bool
  ad_has_minimum_cpm :: bool
  ad_has_max_video_duration :: bool
  ad_has_min_video_duration :: bool
  ad_has_video_start_delay :: bool
  ad_has_video_info :: bool
  ad_has_link_unit_info :: bool
  ad_has_preferred_order_info :: bool
  ad_has_guaranteed_orders :: bool
  ad_has_expand_creative_info :: bool
  ad_has_adslot_level :: bool
  ad_has_allowed_non_nativead :: bool
  ad_has_nativead_param :: bool
  ad_has_secure :: bool

text \<open>Cleared memory.\<close>

definition ngx_bid_request_ad_slot_zero :: ngx_bid_request_ad_slot_t where
  "ngx_bid_request_ad_slot_zero =
    \<lparr>ad_ad_block_key = 0, ad_sequence_id = 0, ad_adslot_type = 0, ad_width = 0, ad_height = 0,
     ad_actual_width = 0, ad_actual_height = 0, ad_slot_visibility = 0, ad_creative_type = None,
     ad_creative_desc_type = None, ad_excluded_landing_page_url = None, ad_publisher_settings_list_id = None,
     ad_minimum_cpm = 0, ad_max_video_duration = 0, ad_min_video_duration = 0, ad_video_start_delay = 0,
     ad_video_info = None, ad_link_unit_info = None, ad_preferred_order_info = None, ad_guaranteed_orders = None,
     ad_expand_creative_info = None, ad_adslot_level = 0, ad_allowed_non_nativead = 0, ad_nativead_param = None,
     ad_secure = 0, ad_unknown = None, ad_has_ad_block_key = False, ad_has_sequence_id = False,
     ad_has_adslot_type = False, ad_has_width = False, ad_has_height = False, ad_has_actual_width = False,
     ad_has_actual_height = False, ad_has_slot_visibility = False, ad_has_creative_type = False,
     ad_has_creative_desc_type = False, ad_has_excluded_landing_page_url = False,
     ad_has_publisher_settings_list_id = False, ad_has_minimum_cpm = False, ad_has_max_video_duration = False,
     ad_has_min_video_duration = False, ad_has_video_start_delay = False, ad_has_video_info = False,
     ad_has_link_unit_info = False, ad_has_preferred_order_info = False, ad_has_guaranteed_orders = False,
     ad_has_expand_creative_info = False, ad_has_adslot_level = False, ad_has_allowed_non_nativead = False,
     ad_has_nativead_param = False, ad_has_secure = False\<rparr>"

definition ngx_bid_request_ad_slot__add__creative_type ::
    "'m pb_env \<Rightarrow> ngx_bid_request_ad_slot_t \<Rightarrow> 'm pstate \<Rightarrow> bool \<Rightarrow> 'm pstate \<times> ngx_bid_request_ad_slot_t \<times> bool" where
  "ngx_bid_request_ad_slot__add__creative_type env =
     add_element env 4 0 ad_creative_type (\<lambda>v obj. obj\<lparr>ad_creative_type := v\<rparr>) (\<lambda>obj. obj\<lparr>ad_has_creative_type := True\<rparr>)"

definition ngx_bid_request_ad_slot__add__creative_desc_type ::
    "'m pb_env \<Rightarrow> ngx_bid_request_ad_slot_t \<Rightarrow> 'm pstate \<Rightarrow> bool \<Rightarrow> 'm pstate \<times> ngx_bid_request_ad_slot_t \<times> bool" where
  "ngx_bid_request_ad_slot__add__creative_desc_type env =
     add_element env 4 0 ad_creative_desc_type (\<lambda>v obj. obj\<lparr>ad_creative_desc_type := v\<rparr>) (\<lambda>obj. obj\<lparr>ad_has_creative_desc_type := True\<rparr>)"

definition ngx_bid_request_ad_slot__add__excluded_landing_page_url ::
    "'m pb_env \<Rightarrow> ngx_bid_request_ad_slot_t \<Rightarrow> 'm pstate \<Rightarrow> bool \<Rightarrow> 'm pstate \<times> ngx_bid_request_ad_slot_t \<times> bool" where
  "ngx_bid_request_ad_slot__add__excluded_landing_page_url env =
     add_element env 16 \<lparr>slen = 0, sdata = NULL\<rparr> ad_excluded_landing_page_url (\<lambda>v obj. obj\<lparr>ad_excluded_landing_page_url := v\<rparr>) (\<lambda>obj. obj\<lparr>ad_has_excluded_landing_page_url := True\<rparr>)"

definition ngx_bid_request_ad_slot__add__publisher_settings_list_id ::
    "'m pb_env \<Rightarrow> ngx_bid_request_ad_slot_t \<Rightarrow> 'm pstate \<Rightarrow> bool \<Rightarrow> 'm pstate \<times> ngx_bid_request_ad_slot_t \<times> bool" where
  "ngx_bid_request_ad_slot__add__publisher_settings_list_id env =
     add_element env 8 0 ad_publisher_settings_list_id (\<lambda>v obj. obj\<lparr>ad_publisher_settings_list_id := v\<rparr>) (\<lambda>obj. obj\<lparr>ad_has_publisher_settings_list_id := True\<rparr>)"

definition ngx_bid_request_ad_slot__add__guaranteed_orders ::
    "'m pb_env \<Rightarrow> ngx_bid_request_ad_slot_t \<Rightarrow> 'm pstate \<Rightarrow> bool \<Rightarrow> 'm pstate \<times> ngx_bid_request_ad_slot_t \<times> bool" where
  "ngx_bid_request_ad_slot__add__guaranteed_orders env =
     add_element env 32 ngx_bid_request_ad_slot_guaranteed_order_zero ad_guaranteed_orders (\<lambda>v obj. obj\<lparr>ad_guaranteed_orders := v\<rparr>) (\<lambda>obj. obj\<lparr>ad_has_guaranteed_orders := True\<rparr>)"

definition ngx_bid_request_ad_slot__unpack_video_info ::
    "'m pb_env \<Rightarrow> ngx_bid_request_ad_slot_t \<Rightarrow> 'm ngx_protobuf_context_t \<Rightarrow> 64 word \<Rightarrow> (ngx_bid_request_ad_slot_t, 'm) unpacked" where
  "ngx_bid_request_ad_slot__unpack_video_info env =
     unpack_member env 32 ngx_bid_request_ad_slot_video_info_zero (ngx_bid_request_ad_slot_video_info__unpack env)
       ad_video_info (\<lambda>v obj. obj\<lparr>ad_video_info := v\<rparr>) (\<lambda>obj. obj\<lparr>ad_has_video_info := True\<rparr>)"

definition ngx_bid_request_ad_slot__unpack_link_unit_info ::
    "'m pb_env \<Rightarrow> ngx_bid_request_ad_slot_t \<Rightarrow> 'm ngx_protobuf_context_t \<Rightarrow> 64 word \<Rightarrow> (ngx_bid_request_ad_slot_t, 'm) unpacked" where
  "ngx_bid_request_ad_slot__unpack_link_unit_info env =
     unpack_member env 48 ngx_bid_request_ad_slot_link_unit_info_zero (ngx_bid_request_ad_slot_link_unit_info__unpack env)
       ad_link_unit_info (\<lambda>v obj. obj\<lparr>ad_link_unit_info := v\<rparr>) (\<lambda>obj. obj\<lparr>ad_has_link_unit_info := True\<rparr>)"

definition ngx_bid_request_ad_slot__unpack_preferred_order_info ::
    "'m pb_env \<Rightarrow> ngx_bid_request_ad_slot_t \<Rightarrow> 'm ngx_protobuf_context_t \<Rightarrow> 64 word \<Rightarrow> (ngx_bid_request_ad_slot_t, 'm) unpacked" where
  "ngx_bid_request_ad_slot__unpack_preferred_order_info env =
     unpack_member env 32 ngx_bid_request_ad_slot_preferred_order_info_zero (ngx_bid_request_ad_slot_preferred_order_info__unpack env)
       ad_preferred_order_info (\<lambda>v obj. obj\<lparr>ad_preferred_order_info := v\<rparr>) (\<lambda>obj. obj\<lparr>ad_has_preferred_order_info := True\<rparr>)"

definition ngx_bid_request_ad_slot__unpack_guaranteed_orders ::
    "'m pb_env \<Rightarrow> ngx_bid_request_ad_slot_t \<Rightarrow> 'm ngx_protobuf_context_t \<Rightarrow> 64 word \<Rightarrow> (ngx_bid_request_ad_slot_t, 'm) unpacked" where
  "ngx_bid_request_ad_slot__unpack_guaranteed_orders env =
     unpack_element (ngx_bid_request_ad_slot__add__guaranteed_orders env) ngx_bid_request_ad_slot_guaranteed_order_zero (ngx_bid_request_ad_slot_guaranteed_order__unpack env)
       ad_guaranteed_orders (\<lambda>v obj. obj\<lparr>ad_guaranteed_orders := v\<rparr>) (\<lambda>obj. obj\<lparr>ad_has_guaranteed_orders := True\<rparr>)"

definition ngx_bid_request_ad_slot__unpack_expand_creative_info ::
    "'m pb_env \<Rightarrow> ngx_bid_request_ad_slot_t \<Rightarrow> 'm ngx_protobuf_context_t \<Rightarrow> 64 word \<Rightarrow> (ngx_bid_request_ad_slot_t, 'm) unpacked" where
  "ngx_bid_request_ad_slot__unpack_expand_creative_info env =
     unpack_member env 56 ngx_bid_request_ad_slot_expand_creative_info_zero (ngx_bid_request_ad_slot_expand_creative_info__unpack env)
       ad_expand_creative_info (\<lambda>v obj. obj\<lparr>ad_expand_creative_info := v\<rparr>) (\<lambda>obj. obj\<lparr>ad_has_expand_creative_info := True\<rparr>)"

definition ngx_bid_request_ad_slot__unpack_nativead_param ::
    "'m pb_env \<Rightarrow> ngx_bid_request_ad_slot_t \<Rightarrow> 'm ngx_protobuf_context_t \<Rightarrow> 64 word \<Rightarrow> (ngx_bid_request_ad_slot_t, 'm) unpacked" where
  "ngx_bid_request_ad_slot__unpack_nativead_param env =
     unpack_member env 56 ngx_bid_request_ad_slot_native_ad_param_zero (ngx_bid_request_ad_slot_native_ad_param__unpack env)
       ad_nativead_param (\<lambda>v obj. obj\<lparr>ad_nativead_param := v\<rparr>) (\<lambda>obj. obj\<lparr>ad_has_nativead_param := True\<rparr>)"

text \<open>The switch of \<^verbatim>\<open>__unpack\<close>, then its loop.\<close>

definition ngx_bid_request_ad_slot_case :: "'m pb_env \<Rightarrow> 32 word \<Rightarrow> 32 word \<Rightarrow> ngx_bid_request_ad_slot_t \<Rightarrow> 'm ngx_protobuf_context_t \<Rightarrow> (ngx_bid_request_ad_slot_t, 'm) unpacked" where
  "ngx_bid_request_ad_slot_case env field wire obj ctx =
     (if field = 1 then unpack_long env wire ad_ad_block_key (\<lambda>v obj. obj\<lparr>ad_ad_block_key := v\<rparr>) (\<lambda>obj. obj\<lparr>ad_has_ad_block_key := True\<rparr>) obj ctx
     else if field = 2 then unpack_num env wire ad_sequence_id (\<lambda>v obj. obj\<lparr>ad_sequence_id := v\<rparr>) (\<lambda>obj. obj\<lparr>ad_has_sequence_id := True\<rparr>) obj ctx
     else if field = 3 then unpack_num env wire ad_adslot_type (\<lambda>v obj. obj\<lparr>ad_adslot_type := v\<rparr>) (\<lambda>obj. obj\<lparr>ad_has_adslot_type := True\<rparr>) obj ctx
     else if field = 4 then unpack_num env wire ad_width (\<lambda>v obj. obj\<lparr>ad_width := v\<rparr>) (\<lambda>obj. obj\<lparr>ad_has_width := True\<rparr>) obj ctx
     else if field = 5 then unpack_num env wire ad_height (\<lambda>v obj. obj\<lparr>ad_height := v\<rparr>) (\<lambda>obj. obj\<lparr>ad_has_height := True\<rparr>) obj ctx
     else if field = 18 then unpack_num env wire ad_actual_width (\<lambda>v obj. obj\<lparr>ad_actual_width := v\<rparr>) (\<lambda>obj. obj\<lparr>ad_has_actual_width := True\<rparr>) obj ctx
     else if field = 19 then unpack_num env wire ad_actual_height (\<lambda>v obj. obj\<lparr>ad_actual_height := v\<rparr>) (\<lambda>obj. obj\<lparr>ad_has_actual_height := True\<rparr>) obj ctx
     else if field = 6 then unpack_num env wire ad_slot_visibility (\<lambda>v obj. obj\<lparr>ad_slot_visibility := v\<rparr>) (\<lambda>obj. obj\<lparr>ad_has_slot_visibility := True\<rparr>) obj ctx
     else if field = 7 then unpack_packed_array env wire (ngx_bid_request_ad_slot__add__creative_type env) ad_creative_type (\<lambda>v obj. obj\<lparr>ad_creative_type := v\<rparr>) (\<lambda>obj. obj\<lparr>ad_has_creative_type := True\<rparr>) obj ctx
     else if field = 22 then unpack_array env WIRE_VARINT read_num wire (ngx_bid_request_ad_slot__add__creative_desc_type env) ad_creative_desc_type (\<lambda>v obj. obj\<lparr>ad_creative_desc_type := v\<rparr>) (\<lambda>obj. obj\<lparr>ad_has_creative_desc_type := True\<rparr>) obj ctx
     else if field = 8 then unpack_array env WIRE_LENGTH_DELIMITED (read_str env) wire (ngx_bid_request_ad_slot__add__excluded_landing_page_url env) ad_excluded_landing_page_url (\<lambda>v obj. obj\<lparr>ad_excluded_landing_page_url := v\<rparr>) (\<lambda>obj. obj\<lparr>ad_has_excluded_landing_page_url := True\<rparr>) obj ctx
     else if field = 14 then unpack_array env WIRE_FIXED64 read_fixed64 wire (ngx_bid_request_ad_slot__add__publisher_settings_list_id env) ad_publisher_settings_list_id (\<lambda>v obj. obj\<lparr>ad_publisher_settings_list_id := v\<rparr>) (\<lambda>obj. obj\<lparr>ad_has_publisher_settings_list_id := True\<rparr>) obj ctx
     else if field = 9 then unpack_num env wire ad_minimum_cpm (\<lambda>v obj. obj\<lparr>ad_minimum_cpm := v\<rparr>) (\<lambda>obj. obj\<lparr>ad_has_minimum_cpm := True\<rparr>) obj ctx
     else if field = 10 then unpack_num env wire ad_max_video_duration (\<lambda>v obj. obj\<lparr>ad_max_video_duration := v\<rparr>) (\<lambda>obj. obj\<lparr>ad_has_max_video_duration := True\<rparr>) obj ctx
     else if field = 11 then unpack_num env wire ad_min_video_duration (\<lambda>v obj. obj\<lparr>ad_min_video_duration := v\<rparr>) (\<lambda>obj. obj\<lparr>ad_has_min_video_duration := True\<rparr>) obj ctx
     else if field = 12 then unpack_num env wire ad_video_start_delay (\<lambda>v obj. obj\<lparr>ad_video_start_delay := v\<rparr>) (\<lambda>obj. obj\<lparr>ad_has_video_start_delay := True\<rparr>) obj ctx
     else if field = 15 then unpack_sub env wire (ngx_bid_request_ad_slot__unpack_video_info env) obj ctx
     else if field = 16 then unpack_sub env wire (ngx_bid_request_ad_slot__unpack_link_unit_info env) obj ctx
     else if field = 13 then unpack_sub env wire (ngx_bid_request_ad_slot__unpack_preferred_order_info env) obj ctx
     else if field = 20 then unpack_sub env wire (ngx_bid_request_ad_slot__unpack_guaranteed_orders env) obj ctx
     else if field = 17 then unpack_sub env wire (ngx_bid_request_ad_slot__unpack_expand_creative_info env) obj ctx
     else if field = 21 then unpack_num env wire ad_adslot_level (\<lambda>v obj. obj\<lparr>ad_adslot_level := v\<rparr>) (\<lambda>obj. obj\<lparr>ad_has_adslot_level := True\<rparr>) obj ctx
     else if field = 23 then unpack_flag env wire (\<lambda>v obj. obj\<lparr>ad_allowed_non_nativead := v\<rparr>) (\<lambda>obj. obj\<lparr>ad_has_allowed_non_nativead := True\<rparr>) obj ctx
     else if field = 24 then unpack_sub env wire (ngx_bid_request_ad_slot__unpack_nativead_param env) obj ctx
     else if field = 25 then unpack_flag env wire (\<lambda>v obj. obj\<lparr>ad_secure := v\<rparr>) (\<lambda>obj. obj\<lparr>ad_has_secure := True\<rparr>) obj ctx
     else unpack_unknown env field wire ad_unknown (\<lambda>v obj. obj\<lparr>ad_unknown := v\<rparr>) obj ctx)"

definition ngx_bid_request_ad_slot__unpack :: "'m pb_env \<Rightarrow> ngx_bid_request_ad_slot_t \<Rightarrow> 'm ngx_protobuf_context_t \<Rightarrow> (ngx_bid_request_ad_slot_t, 'm) unpacked" where
  "ngx_bid_request_ad_slot__unpack env obj ctx = unpack_loop (ngx_bid_request_ad_slot_case env) (clast ctx) obj ctx"

definition ngx_bid_request_ad_slot__size :: "ngx_bid_request_ad_slot_t \<Rightarrow> nat option" where
  "ngx_bid_request_ad_slot__size obj = size_message
     [Some (size_long (ad_has_ad_block_key obj) (ad_ad_block_key obj) 1),
      Some (size_number (ad_has_sequence_id obj) (ad_sequence_id obj) 2),
      Some (size_number (ad_has_adslot_type obj) (ad_adslot_type obj) 3),
      Some (size_number (ad_has_width obj) (ad_width obj) 4),
      Some (size_number (ad_has_height obj) (ad_height obj) 5),
      Some (size_number (ad_has_actual_width obj) (ad_actual_width obj) 18),
      Some (size_number (ad_has_actual_height obj) (ad_actual_height obj) 19),
      Some (size_number (ad_has_slot_visibility obj) (ad_slot_visibility obj) 6),
      Some (size_packed (ad_has_creative_type obj) (ad_creative_type obj) 7),
      Some (size_array ngx_protobuf_size_uint32_field (ad_has_creative_desc_type obj) (ad_creative_desc_type obj) 22),
      Some (size_array ngx_protobuf_size_string_field (ad_has_excluded_landing_page_url obj) (ad_excluded_landing_page_url obj) 8),
      Some (size_array (\<lambda>_. ngx_protobuf_size_fixed64_field) (ad_has_publisher_settings_list_id obj) (ad_publisher_settings_list_id obj) 14),
      Some (size_number (ad_has_minimum_cpm obj) (ad_minimum_cpm obj) 9),
      Some (size_number (ad_has_max_video_duration obj) (ad_max_video_duration obj) 10),
      Some (size_number (ad_has_min_video_duration obj) (ad_min_video_duration obj) 11),
      Some (size_number (ad_has_video_start_delay obj) (ad_video_start_delay obj) 12),
      size_member ngx_bid_request_ad_slot_video_info__size (ad_has_video_info obj) (ad_video_info obj) 15,
      size_member ngx_bid_request_ad_slot_link_unit_info__size (ad_has_link_unit_info obj) (ad_link_unit_info obj) 16,
      size_member ngx_bid_request_ad_slot_preferred_order_info__size (ad_has_preferred_order_info obj) (ad_preferred_order_info obj) 13,
      size_elements ngx_bid_request_ad_slot_guaranteed_order__size (ad_has_guaranteed_orders obj) (ad_guaranteed_orders obj) 20,
      size_member ngx_bid_request_ad_slot_expand_creative_info__size (ad_has_expand_creative_info obj) (ad_expand_creative_info obj) 17,
      Some (size_number (ad_has_adslot_level obj) (ad_adslot_level obj) 21),
      Some (size_number (ad_has_allowed_non_nativead obj) (flag_word (ad_allowed_non_nativead obj)) 23),
      size_member ngx_bid_request_ad_slot_native_ad_param__size (ad_has_nativead_param obj) (ad_nativead_param obj) 24,
      Some (size_number (ad_has_secure obj) (flag_word (ad_secure obj)) 25)]
     (ad_unknown obj)"

definition ngx_bid_request_ad_slot__pack :: "(ngx_bid_request_ad_slot_t, 'm) packer" where
  "ngx_bid_request_ad_slot__pack obj ctx = pack_message (ngx_bid_request_ad_slot__size obj)
     [pack_long (ad_has_ad_block_key obj) (ad_ad_block_key obj) 1,
      pack_num (ad_has_sequence_id obj) (ad_sequence_id obj) 2,
      pack_num (ad_has_adslot_type obj) (ad_adslot_type obj) 3,
      pack_num (ad_has_width obj) (ad_width obj) 4,
      pack_num (ad_has_height obj) (ad_height obj) 5,
      pack_num (ad_has_slot_visibility obj) (ad_slot_visibility obj) 6,
      pack_packed (ad_has_creative_type obj) (ad_creative_type obj) 7,
      pack_array ngx_protobuf_write_string_field (ad_has_excluded_landing_page_url obj) (ad_excluded_landing_page_url obj) 8,
      pack_num (ad_has_minimum_cpm obj) (ad_minimum_cpm obj) 9,
      pack_num (ad_has_max_video_duration obj) (ad_max_video_duration obj) 10,
      pack_num (ad_has_min_video_duration obj) (ad_min_video_duration obj) 11,
      pack_num (ad_has_video_start_delay obj) (ad_video_start_delay obj) 12,
      pack_member ngx_bid_request_ad_slot_preferred_order_info__size ngx_bid_request_ad_slot_preferred_order_info__pack (ad_has_preferred_order_info obj) (ad_preferred_order_info obj) 13,
      pack_array ngx_protobuf_write_fixed64_field (ad_has_publisher_settings_list_id obj) (ad_publisher_settings_list_id obj) 14,
      pack_member ngx_bid_request_ad_slot_video_info__size ngx_bid_request_ad_slot_video_info__pack (ad_has_video_info obj) (ad_video_info obj) 15,
      pack_member ngx_bid_request_ad_slot_link_unit_info__size ngx_bid_request_ad_slot_link_unit_info__pack (ad_has_link_unit_info obj) (ad_link_unit_info obj) 16,
      pack_member ngx_bid_request_ad_slot_expand_creative_info__size ngx_bid_request_ad_slot_expand_creative_info__pack (ad_has_expand_creative_info obj) (ad_expand_creative_info obj) 17,
      pack_num (ad_has_actual_width obj) (ad_actual_width obj) 18,
      pack_num (ad_has_actual_height obj) (ad_actual_height obj) 19,
      pack_elements ngx_bid_request_ad_slot_guaranteed_order__size ngx_bid_request_ad_slot_guaranteed_order__pack (ad_has_guaranteed_orders obj) (ad_guaranteed_orders obj) 20,
      pack_num (ad_has_adslot_level obj) (ad_adslot_level obj) 21,
      pack_array ngx_protobuf_write_uint32_field (ad_has_creative_desc_type obj) (ad_creative_desc_type obj) 22,
      pack_num (ad_has_allowed_non_nativead obj) (flag_word (ad_allowed_non_nativead obj)) 23,
      pack_member ngx_bid_request_ad_slot_native_ad_param__size ngx_bid_request_ad_slot_native_ad_param__pack (ad_has_nativead_param obj) (ad_nativead_param obj) 24,
      pack_num (ad_has_secure obj) (flag_word (ad_secure obj)) 25]
     (ad_unknown obj) ctx"

text \<open>The contents.\<close>

definition ad_slot_content :: "memory \<Rightarrow> ngx_bid_request_ad_slot_t \<Rightarrow> (32 word \<times> wval list) list option" where
  "ad_slot_content m obj = content_of (ad_unknown obj)
     [(1, long_slot (ad_has_ad_block_key obj) (ad_ad_block_key obj)),
      (2, num_slot (ad_has_sequence_id obj) (ad_sequence_id obj)),
      (3, num_slot (ad_has_adslot_type obj) (ad_adslot_type obj)),
      (4, num_slot (ad_has_width obj) (ad_width obj)),
      (5, num_slot (ad_has_height obj) (ad_height obj)),
      (6, num_slot (ad_has_slot_visibility obj) (ad_slot_visibility obj)),
      (7, packed_slot (ad_has_creative_type obj) (ad_creative_type obj)),
      (8, strs_slot m (ad_has_excluded_landing_page_url obj) (ad_excluded_landing_page_url obj)),
      (9, num_slot (ad_has_minimum_cpm obj) (ad_minimum_cpm obj)),
      (10, num_slot (ad_has_max_video_duration obj) (ad_max_video_duration obj)),
      (11, num_slot (ad_has_min_video_duration obj) (ad_min_video_duration obj)),
      (12, num_slot (ad_has_video_start_delay obj) (ad_video_start_delay obj)),
      (13, member_slot (preferred_order_info_content m) (ad_has_preferred_order_info obj) (ad_preferred_order_info obj)),
      (14, absent_slot (ad_has_publisher_settings_list_id obj)),
      (15, member_slot (video_info_content m) (ad_has_video_info obj) (ad_video_info obj)),
      (16, member_slot (link_unit_info_content m) (ad_has_link_unit_info obj) (ad_link_unit_info obj)),
      (17, member_slot (expand_creative_info_content m) (ad_has_expand_creative_info obj) (ad_expand_creative_info obj)),
      (18, num_slot (ad_has_actual_width obj) (ad_actual_width obj)),
      (19, num_slot (ad_has_actual_height obj) (ad_actual_height obj)),
      (20, elements_slot (guaranteed_order_content m) (ad_has_guaranteed_orders obj) (ad_guaranteed_orders obj)),
      (21, num_slot (ad_has_adslot_level obj) (ad_adslot_level obj)),
      (22, nums_slot WNum (ad_has_creative_desc_type obj) (ad_creative_desc_type obj)),
      (23, num_slot (ad_has_allowed_non_nativead obj) (flag_word (ad_allowed_non_nativead obj))),
      (24, member_slot (native_ad_param_content m) (ad_has_nativead_param obj) (ad_nativead_param obj)),
      (25, num_slot (ad_has_secure obj) (flag_word (ad_secure obj)))]"

lemma ad_slot_content_mono:
  assumes "ad_slot_content m x = Some fs" "m \<subseteq>\<^sub>m m'"
  shows "ad_slot_content m' x = Some fs"
  using assms
    strs_slot_mono [OF _ assms(2)]
    member_slot_mono [where c = preferred_order_info_content and m = m and m' = m', OF _ preferred_order_info_content_mono [OF _ assms(2)]]
    member_slot_mono [where c = video_info_content and m = m and m' = m', OF _ video_info_content_mono [OF _ assms(2)]]
    member_slot_mono [where c = link_unit_info_content and m = m and m' = m', OF _ link_unit_info_content_mono [OF _ assms(2)]]
    member_slot_mono [where c = expand_creative_info_content and m = m and m' = m', OF _ expand_creative_info_content_mono [OF _ assms(2)]]
    elements_slot_mono [where c = guaranteed_order_content and m = m and m' = m', OF _ guaranteed_order_content_mono [OF _ assms(2)]]
    member_slot_mono [where c = native_ad_param_content and m = m and m' = m', OF _ native_ad_param_content_mono [OF _ assms(2)]]
  by (auto simp: ad_slot_content_def)

text \<open>Reading sets the flag with the array.\<close>

definition ad_slot_tidy :: "ngx_bid_request_ad_slot_t \<Rightarrow> bool" where
  "ad_slot_tidy obj \<longleftrightarrow> (ad_creative_type obj \<noteq> None \<longrightarrow> ad_has_creative_type obj) \<and>
     (ad_excluded_landing_page_url obj \<noteq> None \<longrightarrow> ad_has_excluded_landing_page_url obj) \<and>
     (ad_guaranteed_orders obj \<noteq> None \<longrightarrow> ad_has_guaranteed_orders obj) \<and>
     (ad_creative_desc_type obj \<noteq> None \<longrightarrow> ad_has_creative_desc_type obj)"

lemma ad_slot_step:
  assumes "pool_serves env" "ad_slot_content m x = Some fs" "(n, vs) \<in> set fs" "v \<in> set vs" "solid v"
    "ad_slot_content (mem (cstate ctx)) y = Some (grouped [1, 2, 3, 4, 5, 6, 7, 8, 9, 10, 11, 12, 13, 14, 15, 16, 17, 18, 19, 20, 21, 22, 23, 24, 25] ps)" "ad_slot_tidy y"
    "n = 8 \<or> n = 20 \<or> n = 22 \<or> values_of n ps = []" "holds ctx (enc_body v)"
  shows "step_result ad_slot_content [1, 2, 3, 4, 5, 6, 7, 8, 9, 10, 11, 12, 13, 14, 15, 16, 17, 18, 19, 20, 21, 22, 23, 24, 25] ad_slot_tidy ctx (ngx_bid_request_ad_slot_case env n (wire_type_of v) y ctx) ps n v"
proof -
  note y = ad_slot_content_mono [OF assms(6), unfolded ad_slot_content_def, simplified, simplified bind_eq_Some_conv, simplified]
  note y0 = y [OF map_le_refl]
  consider "n = 1" "long_slot (ad_has_ad_block_key x) (ad_ad_block_key x) = Some vs"
    | "n = 2" "num_slot (ad_has_sequence_id x) (ad_sequence_id x) = Some vs"
    | "n = 3" "num_slot (ad_has_adslot_type x) (ad_adslot_type x) = Some vs"
    | "n = 4" "num_slot (ad_has_width x) (ad_width x) = Some vs"
    | "n = 5" "num_slot (ad_has_height x) (ad_height x) = Some vs"
    | "n = 6" "num_slot (ad_has_slot_visibility x) (ad_slot_visibility x) = Some vs"
    | "n = 7" "packed_slot (ad_has_creative_type x) (ad_creative_type x) = Some vs"
    | "n = 8" "strs_slot m (ad_has_excluded_landing_page_url x) (ad_excluded_landing_page_url x) = Some vs"
    | "n = 9" "num_slot (ad_has_minimum_cpm x) (ad_minimum_cpm x) = Some vs"
    | "n = 10" "num_slot (ad_has_max_video_duration x) (ad_max_video_duration x) = Some vs"
    | "n = 11" "num_slot (ad_has_min_video_duration x) (ad_min_video_duration x) = Some vs"
    | "n = 12" "num_slot (ad_has_video_start_delay x) (ad_video_start_delay x) = Some vs"
    | "n = 13" "member_slot (preferred_order_info_content m) (ad_has_preferred_order_info x) (ad_preferred_order_info x) = Some vs"
    | "n = 14" "absent_slot (ad_has_publisher_settings_list_id x) = Some vs"
    | "n = 15" "member_slot (video_info_content m) (ad_has_video_info x) (ad_video_info x) = Some vs"
    | "n = 16" "member_slot (link_unit_info_content m) (ad_has_link_unit_info x) (ad_link_unit_info x) = Some vs"
    | "n = 17" "member_slot (expand_creative_info_content m) (ad_has_expand_creative_info x) (ad_expand_creative_info x) = Some vs"
    | "n = 18" "num_slot (ad_has_actual_width x) (ad_actual_width x) = Some vs"
    | "n = 19" "num_slot (ad_has_actual_height x) (ad_actual_height x) = Some vs"
    | "n = 20" "elements_slot (guaranteed_order_content m) (ad_has_guaranteed_orders x) (ad_guaranteed_orders x) = Some vs"
    | "n = 21" "num_slot (ad_has_adslot_level x) (ad_adslot_level x) = Some vs"
    | "n = 22" "nums_slot WNum (ad_has_creative_desc_type x) (ad_creative_desc_type x) = Some vs"
    | "n = 23" "num_slot (ad_has_allowed_non_nativead x) (flag_word (ad_allowed_non_nativead x)) = Some vs"
    | "n = 24" "member_slot (native_ad_param_content m) (ad_has_nativead_param x) (ad_nativead_param x) = Some vs"
    | "n = 25" "num_slot (ad_has_secure x) (flag_word (ad_secure x)) = Some vs"
    using assms(2,3) by (auto simp: ad_slot_content_def)
  then show ?thesis
  proof cases
    case 1
    show ?thesis unfolding ngx_bid_request_ad_slot_case_def 1(1)
      by (simp, rule long_step [OF 1(2) assms(4) assms(9)])
        (use y0 assms(8) 1(1) assms(7) in \<open>auto simp: ad_slot_content_def ad_slot_tidy_def split: option.splits\<close>)
  next
    case 2
    show ?thesis unfolding ngx_bid_request_ad_slot_case_def 2(1)
      by (simp, rule num_step [OF 2(2) assms(4) assms(9)])
        (use y0 assms(8) 2(1) assms(7) in \<open>auto simp: ad_slot_content_def ad_slot_tidy_def split: option.splits\<close>)
  next
    case 3
    show ?thesis unfolding ngx_bid_request_ad_slot_case_def 3(1)
      by (simp, rule num_step [OF 3(2) assms(4) assms(9)])
        (use y0 assms(8) 3(1) assms(7) in \<open>auto simp: ad_slot_content_def ad_slot_tidy_def split: option.splits\<close>)
  next
    case 4
    show ?thesis unfolding ngx_bid_request_ad_slot_case_def 4(1)
      by (simp, rule num_step [OF 4(2) assms(4) assms(9)])
        (use y0 assms(8) 4(1) assms(7) in \<open>auto simp: ad_slot_content_def ad_slot_tidy_def split: option.splits\<close>)
  next
    case 5
    show ?thesis unfolding ngx_bid_request_ad_slot_case_def 5(1)
      by (simp, rule num_step [OF 5(2) assms(4) assms(9)])
        (use y0 assms(8) 5(1) assms(7) in \<open>auto simp: ad_slot_content_def ad_slot_tidy_def split: option.splits\<close>)
  next
    case 6
    show ?thesis unfolding ngx_bid_request_ad_slot_case_def 6(1)
      by (simp, rule num_step [OF 6(2) assms(4) assms(9)])
        (use y0 assms(8) 6(1) assms(7) in \<open>auto simp: ad_slot_content_def ad_slot_tidy_def split: option.splits\<close>)
  next
    case 7
    show ?thesis unfolding ngx_bid_request_ad_slot_case_def 7(1) ngx_bid_request_ad_slot__add__creative_type_def
      by (simp, rule packed_step [OF 7(2) assms(4) assms(9) assms(5,1)])
        (use y assms(8) 7(1) assms(7) in \<open>auto simp: ad_slot_content_def ad_slot_tidy_def member_laws_def packed_slot_fill [where h = "ad_has_creative_type y" and a = "ad_creative_type y"] split: option.splits\<close>)
  next
    case 8
    show ?thesis unfolding ngx_bid_request_ad_slot_case_def 8(1) ngx_bid_request_ad_slot__add__excluded_landing_page_url_def
      by (simp, rule strs_step [OF 8(2) assms(4) assms(9) assms(5,1)])
        (use y assms(8) 8(1) assms(7) in \<open>auto simp: ad_slot_content_def ad_slot_tidy_def member_laws_def strs_slot_snoc [where h = "ad_has_excluded_landing_page_url y" and a = "ad_excluded_landing_page_url y"] split: option.splits\<close>)
  next
    case 9
    show ?thesis unfolding ngx_bid_request_ad_slot_case_def 9(1)
      by (simp, rule num_step [OF 9(2) assms(4) assms(9)])
        (use y0 assms(8) 9(1) assms(7) in \<open>auto simp: ad_slot_content_def ad_slot_tidy_def split: option.splits\<close>)
  next
    case 10
    show ?thesis unfolding ngx_bid_request_ad_slot_case_def 10(1)
      by (simp, rule num_step [OF 10(2) assms(4) assms(9)])
        (use y0 assms(8) 10(1) assms(7) in \<open>auto simp: ad_slot_content_def ad_slot_tidy_def split: option.splits\<close>)
  next
    case 11
    show ?thesis unfolding ngx_bid_request_ad_slot_case_def 11(1)
      by (simp, rule num_step [OF 11(2) assms(4) assms(9)])
        (use y0 assms(8) 11(1) assms(7) in \<open>auto simp: ad_slot_content_def ad_slot_tidy_def split: option.splits\<close>)
  next
    case 12
    show ?thesis unfolding ngx_bid_request_ad_slot_case_def 12(1)
      by (simp, rule num_step [OF 12(2) assms(4) assms(9)])
        (use y0 assms(8) 12(1) assms(7) in \<open>auto simp: ad_slot_content_def ad_slot_tidy_def split: option.splits\<close>)
  next
    case 13
    show ?thesis unfolding ngx_bid_request_ad_slot_case_def 13(1) ngx_bid_request_ad_slot__unpack_preferred_order_info_def
      by (simp, rule member_step [OF 13(2) assms(4) assms(9) assms(5,1) preferred_order_info_reads [OF assms(1)]])
        (use y assms(8) 13(1) assms(7) in \<open>auto simp: ad_slot_content_def ad_slot_tidy_def split: option.splits\<close>)
  next
    case 14
    then show ?thesis using assms(4) by (simp add: absent_slot_def split: if_splits)
  next
    case 15
    show ?thesis unfolding ngx_bid_request_ad_slot_case_def 15(1) ngx_bid_request_ad_slot__unpack_video_info_def
      by (simp, rule member_step [OF 15(2) assms(4) assms(9) assms(5,1) video_info_reads [OF assms(1)]])
        (use y assms(8) 15(1) assms(7) in \<open>auto simp: ad_slot_content_def ad_slot_tidy_def split: option.splits\<close>)
  next
    case 16
    show ?thesis unfolding ngx_bid_request_ad_slot_case_def 16(1) ngx_bid_request_ad_slot__unpack_link_unit_info_def
      by (simp, rule member_step [OF 16(2) assms(4) assms(9) assms(5,1) link_unit_info_reads [OF assms(1)]])
        (use y assms(8) 16(1) assms(7) in \<open>auto simp: ad_slot_content_def ad_slot_tidy_def split: option.splits\<close>)
  next
    case 17
    show ?thesis unfolding ngx_bid_request_ad_slot_case_def 17(1) ngx_bid_request_ad_slot__unpack_expand_creative_info_def
      by (simp, rule member_step [OF 17(2) assms(4) assms(9) assms(5,1) expand_creative_info_reads [OF assms(1)]])
        (use y assms(8) 17(1) assms(7) in \<open>auto simp: ad_slot_content_def ad_slot_tidy_def split: option.splits\<close>)
  next
    case 18
    show ?thesis unfolding ngx_bid_request_ad_slot_case_def 18(1)
      by (simp, rule num_step [OF 18(2) assms(4) assms(9)])
        (use y0 assms(8) 18(1) assms(7) in \<open>auto simp: ad_slot_content_def ad_slot_tidy_def split: option.splits\<close>)
  next
    case 19
    show ?thesis unfolding ngx_bid_request_ad_slot_case_def 19(1)
      by (simp, rule num_step [OF 19(2) assms(4) assms(9)])
        (use y0 assms(8) 19(1) assms(7) in \<open>auto simp: ad_slot_content_def ad_slot_tidy_def split: option.splits\<close>)
  next
    case 20
    show ?thesis unfolding ngx_bid_request_ad_slot_case_def 20(1) ngx_bid_request_ad_slot__unpack_guaranteed_orders_def ngx_bid_request_ad_slot__add__guaranteed_orders_def
      by (simp, rule element_step [OF 20(2) assms(4) assms(9) assms(5,1) guaranteed_order_reads [OF assms(1)]])
        (use y assms(8) 20(1) assms(7) in \<open>auto simp: ad_slot_content_def ad_slot_tidy_def Let_def elements_slot_snoc split: option.splits\<close>)
  next
    case 21
    show ?thesis unfolding ngx_bid_request_ad_slot_case_def 21(1)
      by (simp, rule num_step [OF 21(2) assms(4) assms(9)])
        (use y0 assms(8) 21(1) assms(7) in \<open>auto simp: ad_slot_content_def ad_slot_tidy_def split: option.splits\<close>)
  next
    case 22
    show ?thesis unfolding ngx_bid_request_ad_slot_case_def 22(1) ngx_bid_request_ad_slot__add__creative_desc_type_def
      by (simp, rule nums_step [OF 22(2) assms(4) assms(9) assms(1)])
        (use y assms(8) 22(1) assms(7) in \<open>auto simp: ad_slot_content_def ad_slot_tidy_def member_laws_def nums_slot_snoc [where h = "ad_has_creative_desc_type y" and a = "ad_creative_desc_type y"] split: option.splits\<close>)
  next
    case 23
    show ?thesis unfolding ngx_bid_request_ad_slot_case_def 23(1)
      by (simp, rule flag_step [OF 23(2) assms(4) assms(9)])
        (use y0 assms(8) 23(1) assms(7) in \<open>auto simp: ad_slot_content_def ad_slot_tidy_def split: option.splits\<close>)
  next
    case 24
    show ?thesis unfolding ngx_bid_request_ad_slot_case_def 24(1) ngx_bid_request_ad_slot__unpack_nativead_param_def
      by (simp, rule member_step [OF 24(2) assms(4) assms(9) assms(5,1) native_ad_param_reads [OF assms(1)]])
        (use y assms(8) 24(1) assms(7) in \<open>auto simp: ad_slot_content_def ad_slot_tidy_def split: option.splits\<close>)
  next
    case 25
    show ?thesis unfolding ngx_bid_request_ad_slot_case_def 25(1)
      by (simp, rule flag_step [OF 25(2) assms(4) assms(9)])
        (use y0 assms(8) 25(1) assms(7) in \<open>auto simp: ad_slot_content_def ad_slot_tidy_def split: option.splits\<close>)
  qed
qed

interpretation ad_slot: message_reader ad_slot_content ngx_bid_request_ad_slot_zero "[1, 2, 3, 4, 5, 6, 7, 8, 9, 10, 11, 12, 13, 14, 15, 16, 17, 18, 19, 20, 21, 22, 23, 24, 25]"
  "(\<lambda>n. n = 8 \<or> n = 20 \<or> n = 22)" env "ngx_bid_request_ad_slot_case env" "ad_slot_tidy"
  for env :: "'m pb_env"
proof (unfold_locales, goal_cases)
  case 7
  then show ?case by (rule ad_slot_content_mono)
next
  case 8
  show ?case by (rule ad_slot_step) (use 8 in simp_all)
qed (auto simp: ad_slot_content_def ngx_bid_request_ad_slot_zero_def ad_slot_tidy_def intro: single_slots single_value_slots)

lemma ad_slot_reads:
  assumes "pool_serves env" "ad_slot_content m x = Some fs" "solid_fields fs"
  shows "message_reads ad_slot_content ngx_bid_request_ad_slot_zero (ngx_bid_request_ad_slot__unpack env) fs"
  by (rule ad_slot.unpack_reads [OF assms]) (simp add: ngx_bid_request_ad_slot__unpack_def)

end
