(* ===== verification/Bid_Request.thy ===== *)
theory Bid_Request
  imports Bid_User Bid_Mobile Bid_Slot
begin

text \<open>
  The message \<^verbatim>\<open>BidRequest\<close>,
  of \<^verbatim>\<open>ngx_baidu_proto.c\<close>: the records, one definition per function and, by an interpretation of
  \<open>message_reader\<close>, what unpacking reads.
\<close>

section \<open>\<^verbatim>\<open>BidRequest.Video\<close>\<close>

record ngx_bid_request_video_t =
  bv_title :: ngx_str_t
  bv_tags :: "ngx_str_t list option"
  bv_content_length :: "32 word"
  bv_channel_id :: "64 word list option"
  bv_unknown :: unknowns
  bv_has_title :: bool
  bv_has_tags :: bool
  bv_has_content_length :: bool
  bv_has_channel_id :: bool

text \<open>Cleared memory.\<close>

definition ngx_bid_request_video_zero :: ngx_bid_request_video_t where
  "ngx_bid_request_video_zero =
    \<lparr>bv_title = \<lparr>slen = 0, sdata = NULL\<rparr>, bv_tags = None, bv_content_length = 0,
     bv_channel_id = None, bv_unknown = None, bv_has_title = False, bv_has_tags = False,
     bv_has_content_length = False, bv_has_channel_id = False\<rparr>"

definition ngx_bid_request_video__add__tags ::
    "'m pb_env \<Rightarrow> ngx_bid_request_video_t \<Rightarrow> 'm pstate \<Rightarrow> bool \<Rightarrow> 'm pstate \<times> ngx_bid_request_video_t \<times> bool" where
  "ngx_bid_request_video__add__tags env =
     add_element env 16 \<lparr>slen = 0, sdata = NULL\<rparr> bv_tags (\<lambda>v obj. obj\<lparr>bv_tags := v\<rparr>) (\<lambda>obj. obj\<lparr>bv_has_tags := True\<rparr>)"

definition ngx_bid_request_video__add__channel_id ::
    "'m pb_env \<Rightarrow> ngx_bid_request_video_t \<Rightarrow> 'm pstate \<Rightarrow> bool \<Rightarrow> 'm pstate \<times> ngx_bid_request_video_t \<times> bool" where
  "ngx_bid_request_video__add__channel_id env =
     add_element env 8 0 bv_channel_id (\<lambda>v obj. obj\<lparr>bv_channel_id := v\<rparr>) (\<lambda>obj. obj\<lparr>bv_has_channel_id := True\<rparr>)"

text \<open>The switch of \<^verbatim>\<open>__unpack\<close>, then its loop.\<close>

definition ngx_bid_request_video_case :: "'m pb_env \<Rightarrow> 32 word \<Rightarrow> 32 word \<Rightarrow> ngx_bid_request_video_t \<Rightarrow> 'm ngx_protobuf_context_t \<Rightarrow> (ngx_bid_request_video_t, 'm) unpacked" where
  "ngx_bid_request_video_case env field wire obj ctx =
     (if field = 1 then unpack_str env wire bv_title (\<lambda>v obj. obj\<lparr>bv_title := v\<rparr>) (\<lambda>obj. obj\<lparr>bv_has_title := True\<rparr>) obj ctx
     else if field = 2 then unpack_array env WIRE_LENGTH_DELIMITED (read_str env) wire (ngx_bid_request_video__add__tags env) bv_tags (\<lambda>v obj. obj\<lparr>bv_tags := v\<rparr>) (\<lambda>obj. obj\<lparr>bv_has_tags := True\<rparr>) obj ctx
     else if field = 3 then unpack_num env wire bv_content_length (\<lambda>v obj. obj\<lparr>bv_content_length := v\<rparr>) (\<lambda>obj. obj\<lparr>bv_has_content_length := True\<rparr>) obj ctx
     else if field = 4 then unpack_array env WIRE_VARINT read_long wire (ngx_bid_request_video__add__channel_id env) bv_channel_id (\<lambda>v obj. obj\<lparr>bv_channel_id := v\<rparr>) (\<lambda>obj. obj\<lparr>bv_has_channel_id := True\<rparr>) obj ctx
     else unpack_unknown env field wire bv_unknown (\<lambda>v obj. obj\<lparr>bv_unknown := v\<rparr>) obj ctx)"

definition ngx_bid_request_video__unpack :: "'m pb_env \<Rightarrow> ngx_bid_request_video_t \<Rightarrow> 'm ngx_protobuf_context_t \<Rightarrow> (ngx_bid_request_video_t, 'm) unpacked" where
  "ngx_bid_request_video__unpack env obj ctx = unpack_loop (ngx_bid_request_video_case env) (clast ctx) obj ctx"

definition ngx_bid_request_video__size :: "ngx_bid_request_video_t \<Rightarrow> nat option" where
  "ngx_bid_request_video__size obj = size_message
     [Some (size_str (bv_has_title obj) (bv_title obj) 1),
      Some (size_array ngx_protobuf_size_string_field (bv_has_tags obj) (bv_tags obj) 2),
      Some (size_number (bv_has_content_length obj) (bv_content_length obj) 3),
      Some (size_array ngx_protobuf_size_uint64_field (bv_has_channel_id obj) (bv_channel_id obj) 4)]
     (bv_unknown obj)"

definition ngx_bid_request_video__pack :: "(ngx_bid_request_video_t, 'm) packer" where
  "ngx_bid_request_video__pack obj ctx = pack_message (ngx_bid_request_video__size obj)
     [pack_str (bv_has_title obj) (bv_title obj) 1,
      pack_array ngx_protobuf_write_string_field (bv_has_tags obj) (bv_tags obj) 2,
      pack_num (bv_has_content_length obj) (bv_content_length obj) 3,
      pack_array ngx_protobuf_write_uint64_field (bv_has_channel_id obj) (bv_channel_id obj) 4]
     (bv_unknown obj) ctx"

text \<open>The contents.\<close>

definition bid_video_content :: "memory \<Rightarrow> ngx_bid_request_video_t \<Rightarrow> (32 word \<times> wval list) list option" where
  "bid_video_content m obj = content_of (bv_unknown obj)
     [(1, str_slot m (bv_has_title obj) (bv_title obj)),
      (2, strs_slot m (bv_has_tags obj) (bv_tags obj)),
      (3, num_slot (bv_has_content_length obj) (bv_content_length obj)),
      (4, nums_slot WLong (bv_has_channel_id obj) (bv_channel_id obj))]"

lemma bid_video_content_mono:
  assumes "bid_video_content m x = Some fs" "m \<subseteq>\<^sub>m m'"
  shows "bid_video_content m' x = Some fs"
  using assms
    str_slot_mono [OF _ assms(2)]
    strs_slot_mono [OF _ assms(2)]
  by (auto simp: bid_video_content_def)

text \<open>Reading sets the flag with the array.\<close>

definition bid_video_tidy :: "ngx_bid_request_video_t \<Rightarrow> bool" where
  "bid_video_tidy obj \<longleftrightarrow> (bv_tags obj \<noteq> None \<longrightarrow> bv_has_tags obj) \<and>
     (bv_channel_id obj \<noteq> None \<longrightarrow> bv_has_channel_id obj)"

lemma bid_video_step:
  assumes "pool_serves env" "bid_video_content m x = Some fs" "(n, vs) \<in> set fs" "v \<in> set vs" "solid v"
    "bid_video_content (mem (cstate ctx)) y = Some (grouped [1, 2, 3, 4] ps)" "bid_video_tidy y"
    "n = 2 \<or> n = 4 \<or> values_of n ps = []" "holds ctx (enc_body v)"
  shows "step_result bid_video_content [1, 2, 3, 4] bid_video_tidy ctx (ngx_bid_request_video_case env n (wire_type_of v) y ctx) ps n v"
proof -
  note y = bid_video_content_mono [OF assms(6), unfolded bid_video_content_def, simplified, simplified bind_eq_Some_conv, simplified]
  note y0 = y [OF map_le_refl]
  consider "n = 1" "str_slot m (bv_has_title x) (bv_title x) = Some vs"
    | "n = 2" "strs_slot m (bv_has_tags x) (bv_tags x) = Some vs"
    | "n = 3" "num_slot (bv_has_content_length x) (bv_content_length x) = Some vs"
    | "n = 4" "nums_slot WLong (bv_has_channel_id x) (bv_channel_id x) = Some vs"
    using assms(2,3) by (auto simp: bid_video_content_def)
  then show ?thesis
  proof cases
    case 1
    show ?thesis unfolding ngx_bid_request_video_case_def 1(1)
      by (simp, rule str_step [OF 1(2) assms(4) assms(9) assms(5)])
        (use y0 assms(8) 1(1) assms(7) in \<open>auto simp: bid_video_content_def bid_video_tidy_def split: option.splits\<close>)
  next
    case 2
    show ?thesis unfolding ngx_bid_request_video_case_def 2(1) ngx_bid_request_video__add__tags_def
      by (simp, rule strs_step [OF 2(2) assms(4) assms(9) assms(5,1)])
        (use y assms(8) 2(1) assms(7) in \<open>auto simp: bid_video_content_def bid_video_tidy_def member_laws_def strs_slot_snoc [where h = "bv_has_tags y" and a = "bv_tags y"] split: option.splits\<close>)
  next
    case 3
    show ?thesis unfolding ngx_bid_request_video_case_def 3(1)
      by (simp, rule num_step [OF 3(2) assms(4) assms(9)])
        (use y0 assms(8) 3(1) assms(7) in \<open>auto simp: bid_video_content_def bid_video_tidy_def split: option.splits\<close>)
  next
    case 4
    show ?thesis unfolding ngx_bid_request_video_case_def 4(1) ngx_bid_request_video__add__channel_id_def
      by (simp, rule longs_step [OF 4(2) assms(4) assms(9) assms(1)])
        (use y assms(8) 4(1) assms(7) in \<open>auto simp: bid_video_content_def bid_video_tidy_def member_laws_def nums_slot_snoc [where h = "bv_has_channel_id y" and a = "bv_channel_id y"] split: option.splits\<close>)
  qed
qed

interpretation bid_video: message_reader bid_video_content ngx_bid_request_video_zero "[1, 2, 3, 4]"
  "(\<lambda>n. n = 2 \<or> n = 4)" env "ngx_bid_request_video_case env" "bid_video_tidy"
  for env :: "'m pb_env"
proof (unfold_locales, goal_cases)
  case 7
  then show ?case by (rule bid_video_content_mono)
next
  case 8
  show ?case by (rule bid_video_step) (use 8 in simp_all)
qed (auto simp: bid_video_content_def ngx_bid_request_video_zero_def bid_video_tidy_def intro: single_slots single_value_slots)

lemma bid_video_reads:
  assumes "pool_serves env" "bid_video_content m x = Some fs" "solid_fields fs"
  shows "message_reads bid_video_content ngx_bid_request_video_zero (ngx_bid_request_video__unpack env) fs"
  by (rule bid_video.unpack_reads [OF assms]) (simp add: ngx_bid_request_video__unpack_def)

section \<open>\<^verbatim>\<open>BidRequest\<close>\<close>

record ngx_bid_request_t =
  br_id :: ngx_str_t
  br_ip :: ngx_str_t
  br_user_agent :: ngx_str_t
  br_baidu_user_id :: ngx_str_t
  br_baidu_user_id_version :: "32 word"
  br_baidu_id_list :: "ngx_bid_request_baidu_id_t list option"
  br_buyer_user_id :: ngx_str_t
  br_user_category :: "64 word list option"
  br_customized_user_tag :: "ngx_bid_request_customized_user_tag_t option"
  br_gender :: "32 word"
  br_detected_language :: ngx_str_t
  br_flash_version :: ngx_str_t
  br_user_geo_info :: "ngx_bid_request_geo_t option"
  br_url :: ngx_str_t
  br_referer :: ngx_str_t
  br_site_category :: "32 word"
  br_site_quality :: "32 word"
  br_page_type :: "32 word"
  br_page_keyword :: "ngx_str_t list option"
  br_page_quality :: "32 word"
  br_page_vertical :: "32 word"
  br_excluded_product_category :: "32 word list option"
  br_mobile :: "ngx_bid_request_mobile_t option"
  br_video :: "ngx_bid_request_video_t option"
  br_adslot :: "ngx_bid_request_ad_slot_t list option"
  br_is_test :: "64 word"
  br_is_ping :: "64 word"
  br_unknown :: unknowns
  br_has_id :: bool
  br_has_ip :: bool
  br_has_user_agent :: bool
  br_has_baidu_user_id :: bool
  br_has_baidu_user_id_version :: bool
  br_has_baidu_id_list :: bool
  br_has_buyer_user_id :: bool
  br_has_user_category :: bool
  br_has_customized_user_tag :: bool
  br_has_gender :: bool
  br_has_detected_language :: bool
  br_has_flash_version :: bool
  br_has_user_geo_info :: bool
  br_has_url :: bool
  br_has_referer :: bool
  br_has_site_category :: bool
  br_has_site_quality :: bool
  br_has_page_type :: bool
  br_has_page_keyword :: bool
  br_has_page_quality :: bool
  br_has_page_vertical :: bool
  br_has_excluded_product_category :: bool
  br_has_mobile :: bool
  br_has_video :: bool
  br_has_adslot :: bool
  br_has_is_test :: bool
  br_has_is_ping :: bool

text \<open>Cleared memory.\<close>

definition ngx_bid_request_zero :: ngx_bid_request_t where
  "ngx_bid_request_zero =
    \<lparr>br_id = \<lparr>slen = 0, sdata = NULL\<rparr>, br_ip = \<lparr>slen = 0, sdata = NULL\<rparr>,
     br_user_agent = \<lparr>slen = 0, sdata = NULL\<rparr>,
     br_baidu_user_id = \<lparr>slen = 0, sdata = NULL\<rparr>, br_baidu_user_id_version = 0,
     br_baidu_id_list = None, br_buyer_user_id = \<lparr>slen = 0, sdata = NULL\<rparr>, br_user_category = None,
     br_customized_user_tag = None, br_gender = 0, br_detected_language = \<lparr>slen = 0, sdata = NULL\<rparr>,
     br_flash_version = \<lparr>slen = 0, sdata = NULL\<rparr>, br_user_geo_info = None,
     br_url = \<lparr>slen = 0, sdata = NULL\<rparr>, br_referer = \<lparr>slen = 0, sdata = NULL\<rparr>,
     br_site_category = 0, br_site_quality = 0, br_page_type = 0, br_page_keyword = None, br_page_quality = 0,
     br_page_vertical = 0, br_excluded_product_category = None, br_mobile = None, br_video = None,
     br_adslot = None, br_is_test = 0, br_is_ping = 0, br_unknown = None, br_has_id = False, br_has_ip = False,
     br_has_user_agent = False, br_has_baidu_user_id = False, br_has_baidu_user_id_version = False,
     br_has_baidu_id_list = False, br_has_buyer_user_id = False, br_has_user_category = False,
     br_has_customized_user_tag = False, br_has_gender = False, br_has_detected_language = False,
     br_has_flash_version = False, br_has_user_geo_info = False, br_has_url = False, br_has_referer = False,
     br_has_site_category = False, br_has_site_quality = False, br_has_page_type = False,
     br_has_page_keyword = False, br_has_page_quality = False, br_has_page_vertical = False,
     br_has_excluded_product_category = False, br_has_mobile = False, br_has_video = False,
     br_has_adslot = False, br_has_is_test = False, br_has_is_ping = False\<rparr>"

definition ngx_bid_request__add__baidu_id_list ::
    "'m pb_env \<Rightarrow> ngx_bid_request_t \<Rightarrow> 'm pstate \<Rightarrow> bool \<Rightarrow> 'm pstate \<times> ngx_bid_request_t \<times> bool" where
  "ngx_bid_request__add__baidu_id_list env =
     add_element env 40 ngx_bid_request_baidu_id_zero br_baidu_id_list (\<lambda>v obj. obj\<lparr>br_baidu_id_list := v\<rparr>) (\<lambda>obj. obj\<lparr>br_has_baidu_id_list := True\<rparr>)"

definition ngx_bid_request__add__user_category ::
    "'m pb_env \<Rightarrow> ngx_bid_request_t \<Rightarrow> 'm pstate \<Rightarrow> bool \<Rightarrow> 'm pstate \<times> ngx_bid_request_t \<times> bool" where
  "ngx_bid_request__add__user_category env =
     add_element env 8 0 br_user_category (\<lambda>v obj. obj\<lparr>br_user_category := v\<rparr>) (\<lambda>obj. obj\<lparr>br_has_user_category := True\<rparr>)"

definition ngx_bid_request__add__page_keyword ::
    "'m pb_env \<Rightarrow> ngx_bid_request_t \<Rightarrow> 'm pstate \<Rightarrow> bool \<Rightarrow> 'm pstate \<times> ngx_bid_request_t \<times> bool" where
  "ngx_bid_request__add__page_keyword env =
     add_element env 16 \<lparr>slen = 0, sdata = NULL\<rparr> br_page_keyword (\<lambda>v obj. obj\<lparr>br_page_keyword := v\<rparr>) (\<lambda>obj. obj\<lparr>br_has_page_keyword := True\<rparr>)"

definition ngx_bid_request__add__excluded_product_category ::
    "'m pb_env \<Rightarrow> ngx_bid_request_t \<Rightarrow> 'm pstate \<Rightarrow> bool \<Rightarrow> 'm pstate \<times> ngx_bid_request_t \<times> bool" where
  "ngx_bid_request__add__excluded_product_category env =
     add_element env 4 0 br_excluded_product_category (\<lambda>v obj. obj\<lparr>br_excluded_product_category := v\<rparr>) (\<lambda>obj. obj\<lparr>br_has_excluded_product_category := True\<rparr>)"

definition ngx_bid_request__add__adslot ::
    "'m pb_env \<Rightarrow> ngx_bid_request_t \<Rightarrow> 'm pstate \<Rightarrow> bool \<Rightarrow> 'm pstate \<times> ngx_bid_request_t \<times> bool" where
  "ngx_bid_request__add__adslot env =
     add_element env 176 ngx_bid_request_ad_slot_zero br_adslot (\<lambda>v obj. obj\<lparr>br_adslot := v\<rparr>) (\<lambda>obj. obj\<lparr>br_has_adslot := True\<rparr>)"

definition ngx_bid_request__unpack_baidu_id_list ::
    "'m pb_env \<Rightarrow> ngx_bid_request_t \<Rightarrow> 'm ngx_protobuf_context_t \<Rightarrow> 64 word \<Rightarrow> (ngx_bid_request_t, 'm) unpacked" where
  "ngx_bid_request__unpack_baidu_id_list env =
     unpack_element (ngx_bid_request__add__baidu_id_list env) ngx_bid_request_baidu_id_zero (ngx_bid_request_baidu_id__unpack env)
       br_baidu_id_list (\<lambda>v obj. obj\<lparr>br_baidu_id_list := v\<rparr>) (\<lambda>obj. obj\<lparr>br_has_baidu_id_list := True\<rparr>)"

definition ngx_bid_request__unpack_customized_user_tag ::
    "'m pb_env \<Rightarrow> ngx_bid_request_t \<Rightarrow> 'm ngx_protobuf_context_t \<Rightarrow> 64 word \<Rightarrow> (ngx_bid_request_t, 'm) unpacked" where
  "ngx_bid_request__unpack_customized_user_tag env =
     unpack_member env 24 ngx_bid_request_customized_user_tag_zero (ngx_bid_request_customized_user_tag__unpack env)
       br_customized_user_tag (\<lambda>v obj. obj\<lparr>br_customized_user_tag := v\<rparr>) (\<lambda>obj. obj\<lparr>br_has_customized_user_tag := True\<rparr>)"

definition ngx_bid_request__unpack_user_geo_info ::
    "'m pb_env \<Rightarrow> ngx_bid_request_t \<Rightarrow> 'm ngx_protobuf_context_t \<Rightarrow> 64 word \<Rightarrow> (ngx_bid_request_t, 'm) unpacked" where
  "ngx_bid_request__unpack_user_geo_info env =
     unpack_member env 32 ngx_bid_request_geo_zero (ngx_bid_request_geo__unpack env)
       br_user_geo_info (\<lambda>v obj. obj\<lparr>br_user_geo_info := v\<rparr>) (\<lambda>obj. obj\<lparr>br_has_user_geo_info := True\<rparr>)"

definition ngx_bid_request__unpack_mobile ::
    "'m pb_env \<Rightarrow> ngx_bid_request_t \<Rightarrow> 'm ngx_protobuf_context_t \<Rightarrow> 64 word \<Rightarrow> (ngx_bid_request_t, 'm) unpacked" where
  "ngx_bid_request__unpack_mobile env =
     unpack_member env 152 ngx_bid_request_mobile_zero (ngx_bid_request_mobile__unpack env)
       br_mobile (\<lambda>v obj. obj\<lparr>br_mobile := v\<rparr>) (\<lambda>obj. obj\<lparr>br_has_mobile := True\<rparr>)"

definition ngx_bid_request__unpack_video ::
    "'m pb_env \<Rightarrow> ngx_bid_request_t \<Rightarrow> 'm ngx_protobuf_context_t \<Rightarrow> 64 word \<Rightarrow> (ngx_bid_request_t, 'm) unpacked" where
  "ngx_bid_request__unpack_video env =
     unpack_member env 56 ngx_bid_request_video_zero (ngx_bid_request_video__unpack env)
       br_video (\<lambda>v obj. obj\<lparr>br_video := v\<rparr>) (\<lambda>obj. obj\<lparr>br_has_video := True\<rparr>)"

definition ngx_bid_request__unpack_adslot ::
    "'m pb_env \<Rightarrow> ngx_bid_request_t \<Rightarrow> 'm ngx_protobuf_context_t \<Rightarrow> 64 word \<Rightarrow> (ngx_bid_request_t, 'm) unpacked" where
  "ngx_bid_request__unpack_adslot env =
     unpack_element (ngx_bid_request__add__adslot env) ngx_bid_request_ad_slot_zero (ngx_bid_request_ad_slot__unpack env)
       br_adslot (\<lambda>v obj. obj\<lparr>br_adslot := v\<rparr>) (\<lambda>obj. obj\<lparr>br_has_adslot := True\<rparr>)"

text \<open>The switch of \<^verbatim>\<open>__unpack\<close>, then its loop.\<close>

definition ngx_bid_request_case :: "'m pb_env \<Rightarrow> 32 word \<Rightarrow> 32 word \<Rightarrow> ngx_bid_request_t \<Rightarrow> 'm ngx_protobuf_context_t \<Rightarrow> (ngx_bid_request_t, 'm) unpacked" where
  "ngx_bid_request_case env field wire obj ctx =
     (if field = 1 then unpack_str env wire br_id (\<lambda>v obj. obj\<lparr>br_id := v\<rparr>) (\<lambda>obj. obj\<lparr>br_has_id := True\<rparr>) obj ctx
     else if field = 2 then unpack_str env wire br_ip (\<lambda>v obj. obj\<lparr>br_ip := v\<rparr>) (\<lambda>obj. obj\<lparr>br_has_ip := True\<rparr>) obj ctx
     else if field = 3 then unpack_str env wire br_user_agent (\<lambda>v obj. obj\<lparr>br_user_agent := v\<rparr>) (\<lambda>obj. obj\<lparr>br_has_user_agent := True\<rparr>) obj ctx
     else if field = 4 then unpack_str env wire br_baidu_user_id (\<lambda>v obj. obj\<lparr>br_baidu_user_id := v\<rparr>) (\<lambda>obj. obj\<lparr>br_has_baidu_user_id := True\<rparr>) obj ctx
     else if field = 5 then unpack_num env wire br_baidu_user_id_version (\<lambda>v obj. obj\<lparr>br_baidu_user_id_version := v\<rparr>) (\<lambda>obj. obj\<lparr>br_has_baidu_user_id_version := True\<rparr>) obj ctx
     else if field = 8 then unpack_sub env wire (ngx_bid_request__unpack_baidu_id_list env) obj ctx
     else if field = 32 then unpack_str env wire br_buyer_user_id (\<lambda>v obj. obj\<lparr>br_buyer_user_id := v\<rparr>) (\<lambda>obj. obj\<lparr>br_has_buyer_user_id := True\<rparr>) obj ctx
     else if field = 6 then unpack_array env WIRE_VARINT read_long wire (ngx_bid_request__add__user_category env) br_user_category (\<lambda>v obj. obj\<lparr>br_user_category := v\<rparr>) (\<lambda>obj. obj\<lparr>br_has_user_category := True\<rparr>) obj ctx
     else if field = 31 then unpack_sub env wire (ngx_bid_request__unpack_customized_user_tag env) obj ctx
     else if field = 7 then unpack_num env wire br_gender (\<lambda>v obj. obj\<lparr>br_gender := v\<rparr>) (\<lambda>obj. obj\<lparr>br_has_gender := True\<rparr>) obj ctx
     else if field = 9 then unpack_str env wire br_detected_language (\<lambda>v obj. obj\<lparr>br_detected_language := v\<rparr>) (\<lambda>obj. obj\<lparr>br_has_detected_language := True\<rparr>) obj ctx
     else if field = 10 then unpack_str env wire br_flash_version (\<lambda>v obj. obj\<lparr>br_flash_version := v\<rparr>) (\<lambda>obj. obj\<lparr>br_has_flash_version := True\<rparr>) obj ctx
     else if field = 28 then unpack_sub env wire (ngx_bid_request__unpack_user_geo_info env) obj ctx
     else if field = 11 then unpack_str env wire br_url (\<lambda>v obj. obj\<lparr>br_url := v\<rparr>) (\<lambda>obj. obj\<lparr>br_has_url := True\<rparr>) obj ctx
     else if field = 12 then unpack_str env wire br_referer (\<lambda>v obj. obj\<lparr>br_referer := v\<rparr>) (\<lambda>obj. obj\<lparr>br_has_referer := True\<rparr>) obj ctx
     else if field = 13 then unpack_num env wire br_site_category (\<lambda>v obj. obj\<lparr>br_site_category := v\<rparr>) (\<lambda>obj. obj\<lparr>br_has_site_category := True\<rparr>) obj ctx
     else if field = 14 then unpack_num env wire br_site_quality (\<lambda>v obj. obj\<lparr>br_site_quality := v\<rparr>) (\<lambda>obj. obj\<lparr>br_has_site_quality := True\<rparr>) obj ctx
     else if field = 15 then unpack_num env wire br_page_type (\<lambda>v obj. obj\<lparr>br_page_type := v\<rparr>) (\<lambda>obj. obj\<lparr>br_has_page_type := True\<rparr>) obj ctx
     else if field = 17 then unpack_array env WIRE_LENGTH_DELIMITED (read_str env) wire (ngx_bid_request__add__page_keyword env) br_page_keyword (\<lambda>v obj. obj\<lparr>br_page_keyword := v\<rparr>) (\<lambda>obj. obj\<lparr>br_has_page_keyword := True\<rparr>) obj ctx
     else if field = 18 then unpack_num env wire br_page_quality (\<lambda>v obj. obj\<lparr>br_page_quality := v\<rparr>) (\<lambda>obj. obj\<lparr>br_has_page_quality := True\<rparr>) obj ctx
     else if field = 21 then unpack_num env wire br_page_vertical (\<lambda>v obj. obj\<lparr>br_page_vertical := v\<rparr>) (\<lambda>obj. obj\<lparr>br_has_page_vertical := True\<rparr>) obj ctx
     else if field = 19 then unpack_packed_array env wire (ngx_bid_request__add__excluded_product_category env) br_excluded_product_category (\<lambda>v obj. obj\<lparr>br_excluded_product_category := v\<rparr>) (\<lambda>obj. obj\<lparr>br_has_excluded_product_category := True\<rparr>) obj ctx
     else if field = 29 then unpack_sub env wire (ngx_bid_request__unpack_mobile env) obj ctx
     else if field = 30 then unpack_sub env wire (ngx_bid_request__unpack_video env) obj ctx
     else if field = 20 then unpack_sub env wire (ngx_bid_request__unpack_adslot env) obj ctx
     else if field = 26 then unpack_flag env wire (\<lambda>v obj. obj\<lparr>br_is_test := v\<rparr>) (\<lambda>obj. obj\<lparr>br_has_is_test := True\<rparr>) obj ctx
     else if field = 27 then unpack_flag env wire (\<lambda>v obj. obj\<lparr>br_is_ping := v\<rparr>) (\<lambda>obj. obj\<lparr>br_has_is_ping := True\<rparr>) obj ctx
     else unpack_unknown env field wire br_unknown (\<lambda>v obj. obj\<lparr>br_unknown := v\<rparr>) obj ctx)"

definition ngx_bid_request__unpack :: "'m pb_env \<Rightarrow> ngx_bid_request_t \<Rightarrow> 'm ngx_protobuf_context_t \<Rightarrow> (ngx_bid_request_t, 'm) unpacked" where
  "ngx_bid_request__unpack env obj ctx = unpack_loop (ngx_bid_request_case env) (clast ctx) obj ctx"

definition ngx_bid_request__size :: "ngx_bid_request_t \<Rightarrow> nat option" where
  "ngx_bid_request__size obj = size_message
     [Some (size_str (br_has_id obj) (br_id obj) 1),
      Some (size_str (br_has_ip obj) (br_ip obj) 2),
      Some (size_str (br_has_user_agent obj) (br_user_agent obj) 3),
      Some (size_str (br_has_baidu_user_id obj) (br_baidu_user_id obj) 4),
      Some (size_number (br_has_baidu_user_id_version obj) (br_baidu_user_id_version obj) 5),
      size_elements ngx_bid_request_baidu_id__size (br_has_baidu_id_list obj) (br_baidu_id_list obj) 8,
      Some (size_str (br_has_buyer_user_id obj) (br_buyer_user_id obj) 32),
      Some (size_array ngx_protobuf_size_uint64_field (br_has_user_category obj) (br_user_category obj) 6),
      size_member ngx_bid_request_customized_user_tag__size (br_has_customized_user_tag obj) (br_customized_user_tag obj) 31,
      Some (size_number (br_has_gender obj) (br_gender obj) 7),
      Some (size_str (br_has_detected_language obj) (br_detected_language obj) 9),
      Some (size_str (br_has_flash_version obj) (br_flash_version obj) 10),
      size_member ngx_bid_request_geo__size (br_has_user_geo_info obj) (br_user_geo_info obj) 28,
      Some (size_str (br_has_url obj) (br_url obj) 11),
      Some (size_str (br_has_referer obj) (br_referer obj) 12),
      Some (size_number (br_has_site_category obj) (br_site_category obj) 13),
      Some (size_number (br_has_site_quality obj) (br_site_quality obj) 14),
      Some (size_number (br_has_page_type obj) (br_page_type obj) 15),
      Some (size_array ngx_protobuf_size_string_field (br_has_page_keyword obj) (br_page_keyword obj) 17),
      Some (size_number (br_has_page_quality obj) (br_page_quality obj) 18),
      Some (size_number (br_has_page_vertical obj) (br_page_vertical obj) 21),
      Some (size_packed (br_has_excluded_product_category obj) (br_excluded_product_category obj) 19),
      size_member ngx_bid_request_mobile__size (br_has_mobile obj) (br_mobile obj) 29,
      size_member ngx_bid_request_video__size (br_has_video obj) (br_video obj) 30,
      size_elements ngx_bid_request_ad_slot__size (br_has_adslot obj) (br_adslot obj) 20,
      Some (size_number (br_has_is_test obj) (flag_word (br_is_test obj)) 26),
      Some (size_number (br_has_is_ping obj) (flag_word (br_is_ping obj)) 27)]
     (br_unknown obj)"

definition ngx_bid_request__pack :: "(ngx_bid_request_t, 'm) packer" where
  "ngx_bid_request__pack obj ctx = pack_message (ngx_bid_request__size obj)
     [pack_str (br_has_id obj) (br_id obj) 1,
      pack_str (br_has_ip obj) (br_ip obj) 2,
      pack_str (br_has_user_agent obj) (br_user_agent obj) 3,
      pack_str (br_has_baidu_user_id obj) (br_baidu_user_id obj) 4,
      pack_num (br_has_baidu_user_id_version obj) (br_baidu_user_id_version obj) 5,
      pack_array ngx_protobuf_write_uint64_field (br_has_user_category obj) (br_user_category obj) 6,
      pack_num (br_has_gender obj) (br_gender obj) 7,
      pack_elements ngx_bid_request_baidu_id__size ngx_bid_request_baidu_id__pack (br_has_baidu_id_list obj) (br_baidu_id_list obj) 8,
      pack_str (br_has_detected_language obj) (br_detected_language obj) 9,
      pack_str (br_has_flash_version obj) (br_flash_version obj) 10,
      pack_str (br_has_url obj) (br_url obj) 11,
      pack_str (br_has_referer obj) (br_referer obj) 12,
      pack_num (br_has_site_category obj) (br_site_category obj) 13,
      pack_num (br_has_site_quality obj) (br_site_quality obj) 14,
      pack_num (br_has_page_type obj) (br_page_type obj) 15,
      pack_array ngx_protobuf_write_string_field (br_has_page_keyword obj) (br_page_keyword obj) 17,
      pack_num (br_has_page_quality obj) (br_page_quality obj) 18,
      pack_packed (br_has_excluded_product_category obj) (br_excluded_product_category obj) 19,
      pack_elements ngx_bid_request_ad_slot__size ngx_bid_request_ad_slot__pack (br_has_adslot obj) (br_adslot obj) 20,
      pack_num (br_has_page_vertical obj) (br_page_vertical obj) 21,
      pack_num (br_has_is_test obj) (flag_word (br_is_test obj)) 26,
      pack_num (br_has_is_ping obj) (flag_word (br_is_ping obj)) 27,
      pack_member ngx_bid_request_geo__size ngx_bid_request_geo__pack (br_has_user_geo_info obj) (br_user_geo_info obj) 28,
      pack_member ngx_bid_request_mobile__size ngx_bid_request_mobile__pack (br_has_mobile obj) (br_mobile obj) 29,
      pack_member ngx_bid_request_video__size ngx_bid_request_video__pack (br_has_video obj) (br_video obj) 30,
      pack_member ngx_bid_request_customized_user_tag__size ngx_bid_request_customized_user_tag__pack (br_has_customized_user_tag obj) (br_customized_user_tag obj) 31,
      pack_str (br_has_buyer_user_id obj) (br_buyer_user_id obj) 32]
     (br_unknown obj) ctx"

text \<open>The contents.\<close>

definition bid_request_content :: "memory \<Rightarrow> ngx_bid_request_t \<Rightarrow> (32 word \<times> wval list) list option" where
  "bid_request_content m obj = content_of (br_unknown obj)
     [(1, str_slot m (br_has_id obj) (br_id obj)),
      (2, str_slot m (br_has_ip obj) (br_ip obj)),
      (3, str_slot m (br_has_user_agent obj) (br_user_agent obj)),
      (4, str_slot m (br_has_baidu_user_id obj) (br_baidu_user_id obj)),
      (5, num_slot (br_has_baidu_user_id_version obj) (br_baidu_user_id_version obj)),
      (6, nums_slot WLong (br_has_user_category obj) (br_user_category obj)),
      (7, num_slot (br_has_gender obj) (br_gender obj)),
      (8, elements_slot (baidu_id_content m) (br_has_baidu_id_list obj) (br_baidu_id_list obj)),
      (9, str_slot m (br_has_detected_language obj) (br_detected_language obj)),
      (10, str_slot m (br_has_flash_version obj) (br_flash_version obj)),
      (11, str_slot m (br_has_url obj) (br_url obj)),
      (12, str_slot m (br_has_referer obj) (br_referer obj)),
      (13, num_slot (br_has_site_category obj) (br_site_category obj)),
      (14, num_slot (br_has_site_quality obj) (br_site_quality obj)),
      (15, num_slot (br_has_page_type obj) (br_page_type obj)),
      (17, strs_slot m (br_has_page_keyword obj) (br_page_keyword obj)),
      (18, num_slot (br_has_page_quality obj) (br_page_quality obj)),
      (19, packed_slot (br_has_excluded_product_category obj) (br_excluded_product_category obj)),
      (20, elements_slot (ad_slot_content m) (br_has_adslot obj) (br_adslot obj)),
      (21, num_slot (br_has_page_vertical obj) (br_page_vertical obj)),
      (26, num_slot (br_has_is_test obj) (flag_word (br_is_test obj))),
      (27, num_slot (br_has_is_ping obj) (flag_word (br_is_ping obj))),
      (28, member_slot (geo_content m) (br_has_user_geo_info obj) (br_user_geo_info obj)),
      (29, member_slot (mobile_content m) (br_has_mobile obj) (br_mobile obj)),
      (30, member_slot (bid_video_content m) (br_has_video obj) (br_video obj)),
      (31, member_slot (user_tag_content m) (br_has_customized_user_tag obj) (br_customized_user_tag obj)),
      (32, str_slot m (br_has_buyer_user_id obj) (br_buyer_user_id obj))]"

lemma bid_request_content_mono:
  assumes "bid_request_content m x = Some fs" "m \<subseteq>\<^sub>m m'"
  shows "bid_request_content m' x = Some fs"
  using assms
    str_slot_mono [OF _ assms(2)]
    strs_slot_mono [OF _ assms(2)]
    elements_slot_mono [where c = baidu_id_content and m = m and m' = m', OF _ baidu_id_content_mono [OF _ assms(2)]]
    elements_slot_mono [where c = ad_slot_content and m = m and m' = m', OF _ ad_slot_content_mono [OF _ assms(2)]]
    member_slot_mono [where c = geo_content and m = m and m' = m', OF _ geo_content_mono [OF _ assms(2)]]
    member_slot_mono [where c = mobile_content and m = m and m' = m', OF _ mobile_content_mono [OF _ assms(2)]]
    member_slot_mono [where c = bid_video_content and m = m and m' = m', OF _ bid_video_content_mono [OF _ assms(2)]]
    member_slot_mono [where c = user_tag_content and m = m and m' = m', OF _ user_tag_content_mono [OF _ assms(2)]]
  by (auto simp: bid_request_content_def)

text \<open>Reading sets the flag with the array.\<close>

definition bid_request_tidy :: "ngx_bid_request_t \<Rightarrow> bool" where
  "bid_request_tidy obj \<longleftrightarrow> (br_user_category obj \<noteq> None \<longrightarrow> br_has_user_category obj) \<and>
     (br_baidu_id_list obj \<noteq> None \<longrightarrow> br_has_baidu_id_list obj) \<and>
     (br_page_keyword obj \<noteq> None \<longrightarrow> br_has_page_keyword obj) \<and>
     (br_excluded_product_category obj \<noteq> None \<longrightarrow> br_has_excluded_product_category obj) \<and>
     (br_adslot obj \<noteq> None \<longrightarrow> br_has_adslot obj)"

lemma bid_request_step:
  assumes "pool_serves env" "bid_request_content m x = Some fs" "(n, vs) \<in> set fs" "v \<in> set vs" "solid v"
    "bid_request_content (mem (cstate ctx)) y = Some (grouped [1, 2, 3, 4, 5, 6, 7, 8, 9, 10, 11, 12, 13, 14, 15, 17, 18, 19, 20, 21, 26, 27, 28, 29, 30, 31, 32] ps)" "bid_request_tidy y"
    "n = 6 \<or> n = 8 \<or> n = 17 \<or> n = 20 \<or> values_of n ps = []" "holds ctx (enc_body v)"
  shows "step_result bid_request_content [1, 2, 3, 4, 5, 6, 7, 8, 9, 10, 11, 12, 13, 14, 15, 17, 18, 19, 20, 21, 26, 27, 28, 29, 30, 31, 32] bid_request_tidy ctx (ngx_bid_request_case env n (wire_type_of v) y ctx) ps n v"
proof -
  note y = bid_request_content_mono [OF assms(6), unfolded bid_request_content_def, simplified, simplified bind_eq_Some_conv, simplified]
  note y0 = y [OF map_le_refl]
  consider "n = 1" "str_slot m (br_has_id x) (br_id x) = Some vs"
    | "n = 2" "str_slot m (br_has_ip x) (br_ip x) = Some vs"
    | "n = 3" "str_slot m (br_has_user_agent x) (br_user_agent x) = Some vs"
    | "n = 4" "str_slot m (br_has_baidu_user_id x) (br_baidu_user_id x) = Some vs"
    | "n = 5" "num_slot (br_has_baidu_user_id_version x) (br_baidu_user_id_version x) = Some vs"
    | "n = 6" "nums_slot WLong (br_has_user_category x) (br_user_category x) = Some vs"
    | "n = 7" "num_slot (br_has_gender x) (br_gender x) = Some vs"
    | "n = 8" "elements_slot (baidu_id_content m) (br_has_baidu_id_list x) (br_baidu_id_list x) = Some vs"
    | "n = 9" "str_slot m (br_has_detected_language x) (br_detected_language x) = Some vs"
    | "n = 10" "str_slot m (br_has_flash_version x) (br_flash_version x) = Some vs"
    | "n = 11" "str_slot m (br_has_url x) (br_url x) = Some vs"
    | "n = 12" "str_slot m (br_has_referer x) (br_referer x) = Some vs"
    | "n = 13" "num_slot (br_has_site_category x) (br_site_category x) = Some vs"
    | "n = 14" "num_slot (br_has_site_quality x) (br_site_quality x) = Some vs"
    | "n = 15" "num_slot (br_has_page_type x) (br_page_type x) = Some vs"
    | "n = 17" "strs_slot m (br_has_page_keyword x) (br_page_keyword x) = Some vs"
    | "n = 18" "num_slot (br_has_page_quality x) (br_page_quality x) = Some vs"
    | "n = 19" "packed_slot (br_has_excluded_product_category x) (br_excluded_product_category x) = Some vs"
    | "n = 20" "elements_slot (ad_slot_content m) (br_has_adslot x) (br_adslot x) = Some vs"
    | "n = 21" "num_slot (br_has_page_vertical x) (br_page_vertical x) = Some vs"
    | "n = 26" "num_slot (br_has_is_test x) (flag_word (br_is_test x)) = Some vs"
    | "n = 27" "num_slot (br_has_is_ping x) (flag_word (br_is_ping x)) = Some vs"
    | "n = 28" "member_slot (geo_content m) (br_has_user_geo_info x) (br_user_geo_info x) = Some vs"
    | "n = 29" "member_slot (mobile_content m) (br_has_mobile x) (br_mobile x) = Some vs"
    | "n = 30" "member_slot (bid_video_content m) (br_has_video x) (br_video x) = Some vs"
    | "n = 31" "member_slot (user_tag_content m) (br_has_customized_user_tag x) (br_customized_user_tag x) = Some vs"
    | "n = 32" "str_slot m (br_has_buyer_user_id x) (br_buyer_user_id x) = Some vs"
    using assms(2,3) by (auto simp: bid_request_content_def)
  then show ?thesis
  proof cases
    case 1
    show ?thesis unfolding ngx_bid_request_case_def 1(1)
      by (simp, rule str_step [OF 1(2) assms(4) assms(9) assms(5)])
        (use y0 assms(8) 1(1) assms(7) in \<open>auto simp: bid_request_content_def bid_request_tidy_def split: option.splits\<close>)
  next
    case 2
    show ?thesis unfolding ngx_bid_request_case_def 2(1)
      by (simp, rule str_step [OF 2(2) assms(4) assms(9) assms(5)])
        (use y0 assms(8) 2(1) assms(7) in \<open>auto simp: bid_request_content_def bid_request_tidy_def split: option.splits\<close>)
  next
    case 3
    show ?thesis unfolding ngx_bid_request_case_def 3(1)
      by (simp, rule str_step [OF 3(2) assms(4) assms(9) assms(5)])
        (use y0 assms(8) 3(1) assms(7) in \<open>auto simp: bid_request_content_def bid_request_tidy_def split: option.splits\<close>)
  next
    case 4
    show ?thesis unfolding ngx_bid_request_case_def 4(1)
      by (simp, rule str_step [OF 4(2) assms(4) assms(9) assms(5)])
        (use y0 assms(8) 4(1) assms(7) in \<open>auto simp: bid_request_content_def bid_request_tidy_def split: option.splits\<close>)
  next
    case 5
    show ?thesis unfolding ngx_bid_request_case_def 5(1)
      by (simp, rule num_step [OF 5(2) assms(4) assms(9)])
        (use y0 assms(8) 5(1) assms(7) in \<open>auto simp: bid_request_content_def bid_request_tidy_def split: option.splits\<close>)
  next
    case 6
    show ?thesis unfolding ngx_bid_request_case_def 6(1) ngx_bid_request__add__user_category_def
      by (simp, rule longs_step [OF 6(2) assms(4) assms(9) assms(1)])
        (use y assms(8) 6(1) assms(7) in \<open>auto simp: bid_request_content_def bid_request_tidy_def member_laws_def nums_slot_snoc [where h = "br_has_user_category y" and a = "br_user_category y"] split: option.splits\<close>)
  next
    case 7
    show ?thesis unfolding ngx_bid_request_case_def 7(1)
      by (simp, rule num_step [OF 7(2) assms(4) assms(9)])
        (use y0 assms(8) 7(1) assms(7) in \<open>auto simp: bid_request_content_def bid_request_tidy_def split: option.splits\<close>)
  next
    case 8
    show ?thesis unfolding ngx_bid_request_case_def 8(1) ngx_bid_request__unpack_baidu_id_list_def ngx_bid_request__add__baidu_id_list_def
      by (simp, rule element_step [OF 8(2) assms(4) assms(9) assms(5,1) baidu_id_reads [OF assms(1)]])
        (use y assms(8) 8(1) assms(7) in \<open>auto simp: bid_request_content_def bid_request_tidy_def Let_def elements_slot_snoc split: option.splits\<close>)
  next
    case 9
    show ?thesis unfolding ngx_bid_request_case_def 9(1)
      by (simp, rule str_step [OF 9(2) assms(4) assms(9) assms(5)])
        (use y0 assms(8) 9(1) assms(7) in \<open>auto simp: bid_request_content_def bid_request_tidy_def split: option.splits\<close>)
  next
    case 10
    show ?thesis unfolding ngx_bid_request_case_def 10(1)
      by (simp, rule str_step [OF 10(2) assms(4) assms(9) assms(5)])
        (use y0 assms(8) 10(1) assms(7) in \<open>auto simp: bid_request_content_def bid_request_tidy_def split: option.splits\<close>)
  next
    case 11
    show ?thesis unfolding ngx_bid_request_case_def 11(1)
      by (simp, rule str_step [OF 11(2) assms(4) assms(9) assms(5)])
        (use y0 assms(8) 11(1) assms(7) in \<open>auto simp: bid_request_content_def bid_request_tidy_def split: option.splits\<close>)
  next
    case 12
    show ?thesis unfolding ngx_bid_request_case_def 12(1)
      by (simp, rule str_step [OF 12(2) assms(4) assms(9) assms(5)])
        (use y0 assms(8) 12(1) assms(7) in \<open>auto simp: bid_request_content_def bid_request_tidy_def split: option.splits\<close>)
  next
    case 13
    show ?thesis unfolding ngx_bid_request_case_def 13(1)
      by (simp, rule num_step [OF 13(2) assms(4) assms(9)])
        (use y0 assms(8) 13(1) assms(7) in \<open>auto simp: bid_request_content_def bid_request_tidy_def split: option.splits\<close>)
  next
    case 14
    show ?thesis unfolding ngx_bid_request_case_def 14(1)
      by (simp, rule num_step [OF 14(2) assms(4) assms(9)])
        (use y0 assms(8) 14(1) assms(7) in \<open>auto simp: bid_request_content_def bid_request_tidy_def split: option.splits\<close>)
  next
    case 15
    show ?thesis unfolding ngx_bid_request_case_def 15(1)
      by (simp, rule num_step [OF 15(2) assms(4) assms(9)])
        (use y0 assms(8) 15(1) assms(7) in \<open>auto simp: bid_request_content_def bid_request_tidy_def split: option.splits\<close>)
  next
    case 16
    show ?thesis unfolding ngx_bid_request_case_def 16(1) ngx_bid_request__add__page_keyword_def
      by (simp, rule strs_step [OF 16(2) assms(4) assms(9) assms(5,1)])
        (use y assms(8) 16(1) assms(7) in \<open>auto simp: bid_request_content_def bid_request_tidy_def member_laws_def strs_slot_snoc [where h = "br_has_page_keyword y" and a = "br_page_keyword y"] split: option.splits\<close>)
  next
    case 17
    show ?thesis unfolding ngx_bid_request_case_def 17(1)
      by (simp, rule num_step [OF 17(2) assms(4) assms(9)])
        (use y0 assms(8) 17(1) assms(7) in \<open>auto simp: bid_request_content_def bid_request_tidy_def split: option.splits\<close>)
  next
    case 18
    show ?thesis unfolding ngx_bid_request_case_def 18(1) ngx_bid_request__add__excluded_product_category_def
      by (simp, rule packed_step [OF 18(2) assms(4) assms(9) assms(5,1)])
        (use y assms(8) 18(1) assms(7) in \<open>auto simp: bid_request_content_def bid_request_tidy_def member_laws_def packed_slot_fill [where h = "br_has_excluded_product_category y" and a = "br_excluded_product_category y"] split: option.splits\<close>)
  next
    case 19
    show ?thesis unfolding ngx_bid_request_case_def 19(1) ngx_bid_request__unpack_adslot_def ngx_bid_request__add__adslot_def
      by (simp, rule element_step [OF 19(2) assms(4) assms(9) assms(5,1) ad_slot_reads [OF assms(1)]])
        (use y assms(8) 19(1) assms(7) in \<open>auto simp: bid_request_content_def bid_request_tidy_def Let_def elements_slot_snoc split: option.splits\<close>)
  next
    case 20
    show ?thesis unfolding ngx_bid_request_case_def 20(1)
      by (simp, rule num_step [OF 20(2) assms(4) assms(9)])
        (use y0 assms(8) 20(1) assms(7) in \<open>auto simp: bid_request_content_def bid_request_tidy_def split: option.splits\<close>)
  next
    case 21
    show ?thesis unfolding ngx_bid_request_case_def 21(1)
      by (simp, rule flag_step [OF 21(2) assms(4) assms(9)])
        (use y0 assms(8) 21(1) assms(7) in \<open>auto simp: bid_request_content_def bid_request_tidy_def split: option.splits\<close>)
  next
    case 22
    show ?thesis unfolding ngx_bid_request_case_def 22(1)
      by (simp, rule flag_step [OF 22(2) assms(4) assms(9)])
        (use y0 assms(8) 22(1) assms(7) in \<open>auto simp: bid_request_content_def bid_request_tidy_def split: option.splits\<close>)
  next
    case 23
    show ?thesis unfolding ngx_bid_request_case_def 23(1) ngx_bid_request__unpack_user_geo_info_def
      by (simp, rule member_step [OF 23(2) assms(4) assms(9) assms(5,1) geo_reads [OF assms(1)]])
        (use y assms(8) 23(1) assms(7) in \<open>auto simp: bid_request_content_def bid_request_tidy_def split: option.splits\<close>)
  next
    case 24
    show ?thesis unfolding ngx_bid_request_case_def 24(1) ngx_bid_request__unpack_mobile_def
      by (simp, rule member_step [OF 24(2) assms(4) assms(9) assms(5,1) mobile_reads [OF assms(1)]])
        (use y assms(8) 24(1) assms(7) in \<open>auto simp: bid_request_content_def bid_request_tidy_def split: option.splits\<close>)
  next
    case 25
    show ?thesis unfolding ngx_bid_request_case_def 25(1) ngx_bid_request__unpack_video_def
      by (simp, rule member_step [OF 25(2) assms(4) assms(9) assms(5,1) bid_video_reads [OF assms(1)]])
        (use y assms(8) 25(1) assms(7) in \<open>auto simp: bid_request_content_def bid_request_tidy_def split: option.splits\<close>)
  next
    case 26
    show ?thesis unfolding ngx_bid_request_case_def 26(1) ngx_bid_request__unpack_customized_user_tag_def
      by (simp, rule member_step [OF 26(2) assms(4) assms(9) assms(5,1) user_tag_reads [OF assms(1)]])
        (use y assms(8) 26(1) assms(7) in \<open>auto simp: bid_request_content_def bid_request_tidy_def split: option.splits\<close>)
  next
    case 27
    show ?thesis unfolding ngx_bid_request_case_def 27(1)
      by (simp, rule str_step [OF 27(2) assms(4) assms(9) assms(5)])
        (use y0 assms(8) 27(1) assms(7) in \<open>auto simp: bid_request_content_def bid_request_tidy_def split: option.splits\<close>)
  qed
qed

interpretation bid_request: message_reader bid_request_content ngx_bid_request_zero "[1, 2, 3, 4, 5, 6, 7, 8, 9, 10, 11, 12, 13, 14, 15, 17, 18, 19, 20, 21, 26, 27, 28, 29, 30, 31, 32]"
  "(\<lambda>n. n = 6 \<or> n = 8 \<or> n = 17 \<or> n = 20)" env "ngx_bid_request_case env" "bid_request_tidy"
  for env :: "'m pb_env"
proof (unfold_locales, goal_cases)
  case 7
  then show ?case by (rule bid_request_content_mono)
next
  case 8
  show ?case by (rule bid_request_step) (use 8 in simp_all)
qed (auto simp: bid_request_content_def ngx_bid_request_zero_def bid_request_tidy_def intro: single_slots single_value_slots)

lemma bid_request_reads:
  assumes "pool_serves env" "bid_request_content m x = Some fs" "solid_fields fs"
  shows "message_reads bid_request_content ngx_bid_request_zero (ngx_bid_request__unpack env) fs"
  by (rule bid_request.unpack_reads [OF assms]) (simp add: ngx_bid_request__unpack_def)

end
