(* ===== verification/Com_Adapter.thy ===== *)
theory Com_Adapter
  imports Com_Chain Com_Request Bid_Request Adx_Cstd
begin

text \<open>
  The bid adapter of the exchange (\<^verbatim>\<open>adx_com_baidu/adx_com_adapter.c\<close>) and \<^verbatim>\<open>adx_com.c\<close>: a chain with a
  \<^verbatim>\<open>BidRequest\<close> is decoded, mapped to a \<^verbatim>\<open>ComRequest\<close>, and that is encoded into a new chain.  \<open>None\<close> is
  undefined behaviour: the use of a null pointer, or of memory that is not there.
\<close>

section \<open>\<^verbatim>\<open>adx_com.c\<close>\<close>

definition adx_com_init :: "'m pb_env \<Rightarrow> 'm pstate \<Rightarrow> ('m pstate \<times> ngx_com_request_t) option" where
  "adx_com_init env s =
     (let (s, r) = e_palloc env s 64; (s, d) = e_palloc env s 120; (s, a) = e_palloc env s 40 in
       if r = NULL then None
       else Some (s, ngx_com_request_zero\<lparr>
         rq_device := if d \<noteq> NULL then Some ngx_com_request_device_zero else None, rq_has_device := d \<noteq> NULL,
         rq_app := if a \<noteq> NULL then Some ngx_com_request_app_zero else None, rq_has_app := a \<noteq> NULL\<rparr>))"

text \<open>The size is an \<^verbatim>\<open>int\<close>; \<open>reuse\<close> is the member \<^verbatim>\<open>reuse_strings\<close> of the context, which is not initialised.\<close>

definition adx_com_to_chain :: "'m pb_env \<Rightarrow> bool \<Rightarrow> 'm pstate \<Rightarrow> ngx_com_request_t \<Rightarrow> ('m pstate \<times> ngx_chain) option" where
  "adx_com_to_chain env reuse s com = do {
     n \<leftarrow> ngx_com_request__size com;
     let len = (scast (of_nat n :: 32 word) :: 64 word);
     let (s, buffer) = e_palloc env s (unat len);
     if buffer = NULL then Some (s, [])
     else do {
       (ctx, ret) \<leftarrow> ngx_com_request__pack com
         \<lparr>cstate = s, cpos = buffer, clast = buffer + len, reuse_strings = reuse, has_pool = True\<rparr>;
       if ret \<noteq> NGX_OK then Some (cstate ctx, []) else chain_alloc env (cstate ctx) buffer len } }"

section \<open>Codes\<close>

text \<open>Types of slots: unknown, banner, native, video.\<close>

definition com_slot_type :: "32 word \<Rightarrow> 32 word" where
  "com_slot_type t =
     (if t = 0 \<or> t = 1 \<or> t = 11 \<or> t = 12 \<or> t = 26 then 1
      else if t = 8 \<or> t = 13 then 2
      else if t = 21 \<or> t = 22 \<or> t = 23 then 3
      else 0)"

text \<open>Types of identifiers: unknown, IMEI, MAC; Android, IDFA.\<close>

definition com_mobile_id_type :: "32 word \<Rightarrow> 32 word" where
  "com_mobile_id_type t = (if t = 1 then 1 else if t = 2 then 10 else 0)"

definition com_advertising_id_type :: "32 word \<Rightarrow> 32 word" where
  "com_advertising_id_type t = (if t = 4 then 4 else if t = 5 then 7 else 0)"

definition com_device_type :: "32 word \<Rightarrow> 32 word" where
  "com_device_type t = (if t = 1 then 1 else if t = 2 then 2 else 0)"

definition com_os :: "32 word \<Rightarrow> 32 word" where
  "com_os t = (if t = 1 then 1 else if t = 2 then 2 else if t = 3 then 3 else 0)"

text \<open>The carrier is an \<^verbatim>\<open>int64_t\<close> that is stored in an \<^verbatim>\<open>int\<close>.\<close>

definition com_carrier :: "64 word \<Rightarrow> 32 word" where
  "com_carrier c =
     (let carrier = ucast c :: 32 word in
       if carrier \<in> {46000, 46002, 46007, 46008, 46020} then 1
       else if carrier \<in> {46001, 46006, 46009} then 2
       else if carrier \<in> {46003, 46005, 46011} then 3
       else 0)"

definition com_connection :: "32 word \<Rightarrow> 32 word" where
  "com_connection t = (if t = 1 then 1 else if t = 2 then 2 else if t = 3 then 3 else if t = 4 then 4 else 0)"

section \<open>The stack\<close>

text \<open>
  The arrays \<^verbatim>\<open>adx_slot_id_str\<close> (one for each pass of the loop) and \<^verbatim>\<open>os_version_str\<close>: where they are and
  the bytes they hold at first.  An array is memory from the entry to the exit of its block.
\<close>

record frame =
  f_slot :: "nat \<Rightarrow> addr"
  f_os :: addr
  f_junk :: "addr \<Rightarrow> byte"

definition enter_block :: "frame \<Rightarrow> addr \<Rightarrow> nat \<Rightarrow> 'm pstate \<Rightarrow> 'm pstate" where
  "enter_block fr p n s = s\<lparr>mem := (\<lambda>a. if a \<in> region p n then Some (f_junk fr a) else mem s a)\<rparr>"

definition leave_block :: "addr \<Rightarrow> nat \<Rightarrow> 'm pstate \<Rightarrow> 'm pstate" where
  "leave_block p n s = s\<lparr>mem := (\<lambda>a. if a \<in> region p n then None else mem s a)\<rparr>"

text \<open>\<^verbatim>\<open>sprintf\<close>: the characters and a NUL.\<close>

definition sprintf :: "memory \<Rightarrow> addr \<Rightarrow> string \<Rightarrow> memory option" where
  "sprintf m p cs = store m p (map of_char cs @ [0])"

text \<open>An object from \<^verbatim>\<open>ngx_pcalloc\<close> that is used without a test for the null pointer.\<close>

definition new_object :: "'m pb_env \<Rightarrow> nat \<Rightarrow> 'm pstate \<Rightarrow> 'm pstate option" where
  "new_object env n s = (let (s, d) = e_palloc env s n in if d = NULL then None else Some s)"

section \<open>\<^verbatim>\<open>adx_com_baidu_adapter_to_com\<close>\<close>

text \<open>One pass of the loop over the slots.\<close>

definition to_slot ::
    "'m pb_env \<Rightarrow> frame \<Rightarrow> nat \<Rightarrow> ngx_bid_request_ad_slot_t \<Rightarrow> 'm pstate \<Rightarrow> ngx_com_request_t \<Rightarrow> ('m pstate \<times> ngx_com_request_t) option" where
  "to_slot env fr i ad s req = do {
     let s = enter_block fr (f_slot fr i) 128 s;
     let (s, req, ok) = ngx_com_request__add__adx_slot env req s True;
     if \<not> ok then None
     else do {
       let digits = dec_nat (unat (ad_ad_block_key ad));
       m \<leftarrow> sprintf (mem s) (f_slot fr i) digits;
       let s = s\<lparr>mem := m\<rparr>;
       let ty = com_slot_type (ad_adslot_type ad);
       xs \<leftarrow> rq_adx_slot req;
       let slot = (last xs)\<lparr>sl_adx_slot_id := \<lparr>slen = of_nat (length digits), sdata = f_slot fr i\<rparr>, sl_has_adx_slot_id := True,
         sl_adx_slot_sequence_id := ad_sequence_id ad, sl_has_adx_slot_sequence_id := True,
         sl_price_floor := ad_minimum_cpm ad, sl_has_price_floor := True,
         sl_adx_slot_type := ty, sl_has_adx_slot_type := True\<rparr>;
       (s, slot) \<leftarrow> (if ty = 1 then do {
           s \<leftarrow> new_object env 24 s;
           Some (s, slot\<lparr>sl_banner := Some (ngx_com_request_adx_slot_banner_zero\<lparr>bn_width := ad_width ad, bn_has_width := True,
             bn_height := ad_height ad, bn_has_height := True\<rparr>), sl_has_banner := True\<rparr>) }
         else Some (s, slot));
       Some (leave_block (f_slot fr i) 128 s, req\<lparr>rq_adx_slot := Some (butlast xs @ [slot])\<rparr>) } }"

fun to_slots ::
    "'m pb_env \<Rightarrow> frame \<Rightarrow> nat \<Rightarrow> ngx_bid_request_ad_slot_t list \<Rightarrow> 'm pstate \<Rightarrow> ngx_com_request_t \<Rightarrow> ('m pstate \<times> ngx_com_request_t) option" where
  "to_slots env fr i [] s req = Some (s, req)"
| "to_slots env fr i (ad # ads) s req = do { (s, req) \<leftarrow> to_slot env fr i ad s req; to_slots env fr (Suc i) ads s req }"

text \<open>The two loops over identifiers: \<open>xs\<close> are their strings and types, \<open>conv\<close> is the mapping of the types.\<close>

definition to_id ::
    "'m pb_env \<Rightarrow> (32 word \<Rightarrow> 32 word) \<Rightarrow> ngx_str_t \<times> 32 word \<Rightarrow> 'm pstate \<Rightarrow> ngx_com_request_device_t \<Rightarrow>
      ('m pstate \<times> ngx_com_request_device_t) option" where
  "to_id env conv x s dev =
     (let (s, dev, ok) = ngx_com_request_device__add__device_id env dev s True in
       if \<not> ok then None
       else do {
         xs \<leftarrow> dv_device_id dev;
         let id = (last xs)\<lparr>di_id := fst x, di_has_id := True, di_type := conv (snd x), di_has_type := True\<rparr>;
         Some (s, dev\<lparr>dv_device_id := Some (butlast xs @ [id])\<rparr>) })"

fun to_ids ::
    "'m pb_env \<Rightarrow> (32 word \<Rightarrow> 32 word) \<Rightarrow> (ngx_str_t \<times> 32 word) list \<Rightarrow> 'm pstate \<Rightarrow> ngx_com_request_device_t \<Rightarrow>
      ('m pstate \<times> ngx_com_request_device_t) option" where
  "to_ids env conv [] s dev = Some (s, dev)"
| "to_ids env conv (x # xs) s dev = do { (s, dev) \<leftarrow> to_id env conv x s dev; to_ids env conv xs s dev }"

text \<open>The members of the device behind its identifiers; \<open>text\<close> is what \<^verbatim>\<open>sprintf\<close> writes for the version.\<close>

definition os_version_text :: "ngx_bid_request_mobile_device_os_version_t \<Rightarrow> string" where
  "os_version_text v = dec (sint (ov_os_version_major v)) @ ''.'' @ dec (sint (ov_os_version_minor v)) @ ''.'' @
     dec (sint (ov_os_version_micro v))"

definition to_device :: "addr \<Rightarrow> string \<Rightarrow> ngx_bid_request_mobile_t \<Rightarrow> ngx_bid_request_t \<Rightarrow> ngx_com_request_device_t \<Rightarrow> ngx_com_request_device_t" where
  "to_device os_str version mobile bid dev = dev\<lparr>
     dv_device_type := com_device_type (mo_device_type mobile), dv_has_device_type := True,
     dv_os := com_os (mo_platform mobile), dv_has_os := True,
     dv_os_version := \<lparr>slen = of_nat (length version), sdata = os_str\<rparr>, dv_has_os_version := True,
     dv_carrier := com_carrier (mo_carrier_id mobile), dv_has_carrier := True,
     dv_connection := com_connection (mo_wireless_network_type mobile), dv_has_connection := True,
     dv_model := mo_model mobile, dv_has_model := True, dv_brand := mo_brand mobile, dv_has_brand := True,
     dv_user_agent := br_user_agent bid, dv_has_user_agent := True, dv_ip := br_ip bid, dv_has_ip := True\<rparr>"

text \<open>
  The function stores the pointers to the device and to the app first and fills the objects behind them;
  here the objects are put into the request when they are complete.
\<close>

definition adx_com_baidu_adapter_to_com ::
    "'m pb_env \<Rightarrow> frame \<Rightarrow> 'm pstate \<Rightarrow> ngx_bid_request_t \<Rightarrow> ('m pstate \<times> ngx_com_request_t) option" where
  "adx_com_baidu_adapter_to_com env fr s bid = do {
     let s = enter_block fr (f_os fr) 256 s;
     mobile \<leftarrow> br_mobile bid;
     s \<leftarrow> new_object env 64 s;
     s \<leftarrow> new_object env 120 s;
     s \<leftarrow> new_object env 40 s;
     let req = ngx_com_request_zero\<lparr>rq_adx := 8, rq_has_adx := True, rq_bid := br_id bid, rq_has_bid := True\<rparr>;
     ads \<leftarrow> br_adslot bid;
     (s, req) \<leftarrow> to_slots env fr 0 ads s req;
     ids \<leftarrow> mo_id mobile;
     (s, dev) \<leftarrow> to_ids env com_mobile_id_type (map (\<lambda>x. (mi_id x, mi_type x)) ids) s ngx_com_request_device_zero;
     ads \<leftarrow> mo_for_advertising_id mobile;
     (s, dev) \<leftarrow> to_ids env com_advertising_id_type (map (\<lambda>x. (fa_id x, fa_type x)) ads) s dev;
     version \<leftarrow> mo_os_version mobile;
     m \<leftarrow> sprintf (mem s) (f_os fr) (os_version_text version);
     let dev = to_device (f_os fr) (os_version_text version) mobile bid dev;
     app \<leftarrow> mo_mobile_app mobile;
     let com_app = ngx_com_request_app_zero\<lparr>ap_app_id := ma_app_bundle_id app, ap_has_app_id := True,
       ap_app_category := ma_app_category app, ap_has_app_category := True\<rparr>;
     Some (leave_block (f_os fr) 256 (s\<lparr>mem := m\<rparr>),
       req\<lparr>rq_device := Some dev, rq_has_device := True, rq_app := Some com_app, rq_has_app := True\<rparr>) }"

section \<open>The adapter\<close>

text \<open>The result of \<open>ngx_bid_request__unpack\<close> is not looked at; its object is used without a test for the null pointer.\<close>

definition adx_com_baidu_adapter_init :: "'m pb_env \<Rightarrow> 'm pstate \<Rightarrow> ngx_chain \<Rightarrow> ('m pstate \<times> ngx_bid_request_t) option" where
  "adx_com_baidu_adapter_init env s src = do {
     (s, buffer) \<leftarrow> chain_to_str env s src;
     s \<leftarrow> new_object env 288 s;
     (bid, ctx, rc) \<leftarrow> ngx_bid_request__unpack env ngx_bid_request_zero
       \<lparr>cstate = s, cpos = sdata buffer, clast = sdata buffer + slen buffer, reuse_strings = True, has_pool = True\<rparr>;
     Some (cstate ctx, bid) }"

definition adx_com_baidu_adapter_request ::
    "'m pb_env \<Rightarrow> frame \<Rightarrow> bool \<Rightarrow> 'm pstate \<Rightarrow> ngx_chain \<Rightarrow> ('m pstate \<times> ngx_chain) option" where
  "adx_com_baidu_adapter_request env fr reuse s src = do {
     (s, bid) \<leftarrow> adx_com_baidu_adapter_init env s src;
     (s, com) \<leftarrow> adx_com_baidu_adapter_to_com env fr s bid;
     adx_com_to_chain env reuse s com }"

text \<open>The way back is not written yet: no bid response is made, and the answer is the literal at \<open>ok\<close>, which is \<^verbatim>\<open>OK\<close> and the end of a line.\<close>

definition adx_com_baidu_adapter_from_com :: "'r \<Rightarrow> addr" where
  "adx_com_baidu_adapter_from_com com_response = NULL"

definition adx_com_baidu_adapter_response :: "'m pb_env \<Rightarrow> addr \<Rightarrow> 'm pstate \<Rightarrow> ngx_chain \<Rightarrow> ('m pstate \<times> ngx_chain) option" where
  "adx_com_baidu_adapter_response env ok s src = chain_alloc_r env s ok"

end
