(* ===== verification/Com_Adapter_Props.thy ===== *)
theory Com_Adapter_Props
  imports Com_Adapter
begin

text \<open>
  The mapping of bid requests to com requests: what it computes, when it is undefined behaviour, and
  that its result holds pointers into the stack of the function that has returned.
\<close>

section \<open>Blocks and text\<close>

lemma enter_block_dom: "dom (mem (enter_block fr p n s)) = region p n \<union> dom (mem s)"
  by (auto simp: enter_block_def)

lemma enter_block_le: "region p n \<inter> dom m = {} \<Longrightarrow> m \<subseteq>\<^sub>m mem s \<Longrightarrow> m \<subseteq>\<^sub>m mem (enter_block fr p n s)"
  by (auto simp: enter_block_def map_le_def)

lemma leave_block_le: "region p n \<inter> dom m = {} \<Longrightarrow> m \<subseteq>\<^sub>m mem s \<Longrightarrow> m \<subseteq>\<^sub>m mem (leave_block p n s)"
  by (auto simp: leave_block_def map_le_def)

lemma store_le: "store m p bs = Some m' \<Longrightarrow> region p (length bs) \<inter> dom m0 = {} \<Longrightarrow> m0 \<subseteq>\<^sub>m m \<Longrightarrow> m0 \<subseteq>\<^sub>m m'"
  using store_frame [of m p bs m'] by (fastforce simp: map_le_def)

text \<open>A block that is written to and left again.\<close>

lemma sprintf_block:
  assumes "length cs < n" "region p n \<inter> dom m0 = {}" "region p n \<subseteq> dom m" "m0 \<subseteq>\<^sub>m m"
  shows "\<exists>m'. sprintf m p cs = Some m' \<and> dom m' = dom m \<and> m0 \<subseteq>\<^sub>m m'"
proof -
  have r: "region p (Suc (length cs)) \<subseteq> region p n" using assms(1) by (intro region_mono) simp
  then obtain m' where m': "store m p (map of_char cs @ [0]) = Some m'"
    using store_total [of p "map of_char cs @ [0]" m] assms(3) by auto
  moreover have "region p (Suc (length cs)) \<inter> dom m0 = {}" using r assms(2) by blast
  ultimately show ?thesis using store_dom [OF m'] store_le [OF m' _ assms(4)] by (simp add: sprintf_def)
qed

lemma dec_nat_length: "n < 10 ^ Suc k \<Longrightarrow> length (dec_nat n) \<le> Suc k"
proof (induction k arbitrary: n)
  case (Suc k)
  then show ?case using Suc.IH [of "n div 10"] by (subst dec_nat.simps) (auto simp: less_mult_imp_div_less)
qed (simp add: dec_nat.simps)

lemma digits_fit: "length (dec_nat (unat (w :: 64 word))) < 128"
proof -
  have "unat w < 2 ^ 64" using unsigned_less [of w] by simp
  then show ?thesis using dec_nat_length [of "unat w" 19] by simp
qed

lemma dec_length: "length (dec (sint (w :: 32 word))) \<le> 11"
proof -
  have "- (2 ^ 31) \<le> sint w" "sint w < 2 ^ 31" using sint_greater_eq [of w] sint_less [of w] by simp_all
  then have "nat (sint w) < 10 ^ Suc 9" "nat (- sint w) < 10 ^ Suc 9" by simp_all
  then have "length (dec_nat (nat (sint w))) \<le> 10" "length (dec_nat (nat (- sint w))) \<le> 10"
    using dec_nat_length [of _ 9] by fastforce+
  then show ?thesis by (simp add: dec_def)
qed

lemma os_version_fits: "length (os_version_text v) < 256"
  using dec_length [of "ov_os_version_major v"] dec_length [of "ov_os_version_minor v"] dec_length [of "ov_os_version_micro v"]
  by (simp add: os_version_text_def)

section \<open>The mapping as a pure function\<close>

definition com_slot :: "addr \<Rightarrow> ngx_bid_request_ad_slot_t \<Rightarrow> ngx_com_request_adx_slot_t" where
  "com_slot p ad = ngx_com_request_adx_slot_zero\<lparr>
     sl_adx_slot_id := \<lparr>slen = of_nat (length (dec_nat (unat (ad_ad_block_key ad)))), sdata = p\<rparr>, sl_has_adx_slot_id := True,
     sl_adx_slot_sequence_id := ad_sequence_id ad, sl_has_adx_slot_sequence_id := True,
     sl_price_floor := ad_minimum_cpm ad, sl_has_price_floor := True,
     sl_adx_slot_type := com_slot_type (ad_adslot_type ad), sl_has_adx_slot_type := True,
     sl_banner := if com_slot_type (ad_adslot_type ad) = 1
       then Some \<lparr>bn_width = ad_width ad, bn_height = ad_height ad, bn_unknown = None, bn_has_width = True, bn_has_height = True\<rparr> else None,
     sl_has_banner := com_slot_type (ad_adslot_type ad) = 1\<rparr>"

definition com_id :: "ngx_str_t \<Rightarrow> 32 word \<Rightarrow> ngx_com_request_device_device_id_t" where
  "com_id v t = \<lparr>di_id = v, di_type = t, di_unknown = None, di_has_id = True, di_has_type = True\<rparr>"

text \<open>Slots in their order; identifiers of the device before those for advertising.\<close>

definition com_request ::
    "frame \<Rightarrow> ngx_bid_request_t \<Rightarrow> ngx_bid_request_mobile_t \<Rightarrow> ngx_bid_request_ad_slot_t list \<Rightarrow> ngx_bid_request_mobile_mobile_id_t list \<Rightarrow>
      ngx_bid_request_mobile_for_advertising_id_t list \<Rightarrow> ngx_bid_request_mobile_device_os_version_t \<Rightarrow> ngx_bid_request_mobile_mobile_app_t \<Rightarrow>
      ngx_com_request_t" where
  "com_request fr bid mobile ads ids fas version app =
     (let devs = map (\<lambda>x. com_id (mi_id x) (com_mobile_id_type (mi_type x))) ids @
          map (\<lambda>x. com_id (fa_id x) (com_advertising_id_type (fa_type x))) fas in
       \<lparr>rq_adx = 8, rq_bid = br_id bid,
        rq_adx_slot = if ads = [] then None else Some (map (\<lambda>(i, ad). com_slot (f_slot fr i) ad) (enumerate 0 ads)),
        rq_device = Some (to_device (f_os fr) (os_version_text version) mobile bid
          (ngx_com_request_device_zero\<lparr>dv_device_id := if devs = [] then None else Some devs, dv_has_device_id := devs \<noteq> []\<rparr>)),
        rq_app = Some \<lparr>ap_app_id = ma_app_bundle_id app, ap_app_category = ma_app_category app, ap_unknown = None,
          ap_has_app_id = True, ap_has_app_category = True\<rparr>,
        rq_unknown = None, rq_has_adx = True, rq_has_bid = True, rq_has_adx_slot = ads \<noteq> [], rq_has_device = True, rq_has_app = True\<rparr>)"

section \<open>The loops\<close>

lemma new_object_serves:
  assumes "pool_serves env" "m \<subseteq>\<^sub>m mem s"
  shows "\<exists>s'. new_object env n s = Some s' \<and> m \<subseteq>\<^sub>m mem s' \<and> mem s \<subseteq>\<^sub>m mem s'"
proof -
  obtain s' d where e: "e_palloc env s n = (s', d)" by fastforce
  then show ?thesis using pool_servesD [OF assms(1) e] assms(2) by (auto simp: new_object_def intro: map_le_trans)
qed

lemma to_slot_maps:
  assumes "pool_serves env" "m0 \<subseteq>\<^sub>m mem s" "region (f_slot fr i) 128 \<inter> dom m0 = {}"
  shows "\<exists>s'. to_slot env fr i ad s req = Some (s', req\<lparr>rq_adx_slot := Some (old (rq_adx_slot req) @ [com_slot (f_slot fr i) ad]),
      rq_has_adx_slot := True\<rparr>) \<and> m0 \<subseteq>\<^sub>m mem s'"
proof -
  let ?p = "f_slot fr i" and ?zero = ngx_com_request_adx_slot_zero
  define s1 where "s1 = enter_block fr ?p 128 s"
  obtain s2 where s2: "ngx_protobuf_push_array env s1 (rq_adx_slot req) True 72 ?zero = (s2, Some (old (rq_adx_slot req) @ [?zero]), True)"
    "mem s1 \<subseteq>\<^sub>m mem s2" using push_array_serves [OF assms(1), of "rq_adx_slot req" True s1 72 ?zero] by (auto simp: old_def)
  have m2: "m0 \<subseteq>\<^sub>m mem s2" "region ?p 128 \<subseteq> dom (mem s2)"
    using enter_block_le [OF assms(3,2)] s2(2) map_le_implies_dom_le [OF s2(2)]
    by (auto simp: s1_def enter_block_dom intro: map_le_trans)
  obtain m where m: "sprintf (mem s2) ?p (dec_nat (unat (ad_ad_block_key ad))) = Some m" "m0 \<subseteq>\<^sub>m m"
    using sprintf_block [OF digits_fit assms(3) m2(2,1)] by blast
  obtain s3 where s3: "new_object env 24 (s2\<lparr>mem := m\<rparr>) = Some s3" "m0 \<subseteq>\<^sub>m mem s3"
    using new_object_serves [OF assms(1), of m0 "s2\<lparr>mem := m\<rparr>" 24] m(2) by auto
  show ?thesis using s2 m s3 leave_block_le [OF assms(3) s3(2)] leave_block_le [OF assms(3), of "s2\<lparr>mem := m\<rparr>"]
    by (simp add: to_slot_def ngx_com_request__add__adx_slot_def add_element_def com_slot_def ngx_com_request_adx_slot_zero_def
        ngx_com_request_adx_slot_banner_zero_def flip: s1_def)
qed

lemma to_slots_map:
  assumes "pool_serves env" "m0 \<subseteq>\<^sub>m mem s" "\<And>j. j < length ads \<Longrightarrow> region (f_slot fr (i + j)) 128 \<inter> dom m0 = {}"
  shows "\<exists>s'. to_slots env fr i ads s req = Some (s', if ads = [] then req else
      req\<lparr>rq_adx_slot := Some (old (rq_adx_slot req) @ map (\<lambda>(i, ad). com_slot (f_slot fr i) ad) (enumerate i ads)), rq_has_adx_slot := True\<rparr>) \<and>
    m0 \<subseteq>\<^sub>m mem s'"
  using assms(2,3)
proof (induction ads arbitrary: i s req)
  case (Cons ad ads)
  let ?req = "req\<lparr>rq_adx_slot := Some (old (rq_adx_slot req) @ [com_slot (f_slot fr i) ad]), rq_has_adx_slot := True\<rparr>"
  obtain s1 where s1: "to_slot env fr i ad s req = Some (s1, ?req)" "m0 \<subseteq>\<^sub>m mem s1"
    using to_slot_maps [OF assms(1) Cons.prems(1), of fr i ad req] Cons.prems(2) [of 0] by auto
  have "region (f_slot fr (Suc i + j)) 128 \<inter> dom m0 = {}" if "j < length ads" for j using Cons.prems(2) [of "Suc j"] that by simp
  then show ?case using s1 Cons.IH [OF s1(2), of "Suc i" ?req] by (auto simp: old_def)
qed simp

lemma to_ids_map:
  assumes "pool_serves env" "m0 \<subseteq>\<^sub>m mem s"
  shows "\<exists>s'. to_ids env conv xs s dev = Some (s', if xs = [] then dev else
      dev\<lparr>dv_device_id := Some (old (dv_device_id dev) @ map (\<lambda>(v, t). com_id v (conv t)) xs), dv_has_device_id := True\<rparr>) \<and>
    m0 \<subseteq>\<^sub>m mem s'"
  using assms(2)
proof (induction xs arbitrary: s dev)
  case (Cons x xs)
  let ?zero = ngx_com_request_device_device_id_zero
  obtain s1 where s1: "ngx_protobuf_push_array env s (dv_device_id dev) True 40 ?zero = (s1, Some (old (dv_device_id dev) @ [?zero]), True)"
    "mem s \<subseteq>\<^sub>m mem s1" using push_array_serves [OF assms(1), of "dv_device_id dev" True s 40 ?zero] by (auto simp: old_def)
  let ?dev = "dev\<lparr>dv_device_id := Some (old (dv_device_id dev) @ [com_id (fst x) (conv (snd x))]), dv_has_device_id := True\<rparr>"
  have "to_id env conv x s dev = Some (s1, ?dev)"
    using s1(1) by (simp add: to_id_def ngx_com_request_device__add__device_id_def add_element_def com_id_def ngx_com_request_device_device_id_zero_def)
  then show ?case using Cons.IH [of s1 ?dev] map_le_trans [OF Cons.prems s1(2)] by (auto simp: old_def split: prod.splits)
qed simp

section \<open>What is computed\<close>

text \<open>The arrays of the function are not memory of the caller.\<close>

definition frame_free :: "frame \<Rightarrow> nat \<Rightarrow> memory \<Rightarrow> bool" where
  "frame_free fr n m \<longleftrightarrow> region (f_os fr) 256 \<inter> dom m = {} \<and>
     (\<forall>i<n. region (f_slot fr i) 128 \<inter> (dom m \<union> region (f_os fr) 256) = {})"

lemma to_com_computes:
  assumes "pool_serves env" "frame_free fr (length ads) (mem s)" "br_mobile bid = Some mobile" "br_adslot bid = Some ads"
    "mo_id mobile = Some ids" "mo_for_advertising_id mobile = Some fas" "mo_os_version mobile = Some version" "mo_mobile_app mobile = Some app"
  shows "\<exists>s'. adx_com_baidu_adapter_to_com env fr s bid = Some (s', com_request fr bid mobile ads ids fas version app) \<and>
    mem s \<subseteq>\<^sub>m mem s' \<and> (\<forall>q \<in> region (f_os fr) 256. mem s' q = None)"
proof -
  have os: "region (f_os fr) 256 \<inter> dom (mem s) = {}" using assms(2) by (simp add: frame_free_def)
  define s0 where "s0 = enter_block fr (f_os fr) 256 s"
  let ?m = "mem s0"
  have sl: "region (f_slot fr (0 + j)) 128 \<inter> dom ?m = {}" if "j < length ads" for j
    using assms(2) that by (auto simp: frame_free_def s0_def enter_block_dom)
  obtain s1 where s1: "new_object env 64 s0 = Some s1" "?m \<subseteq>\<^sub>m mem s1" using new_object_serves [OF assms(1), of ?m s0 64] by auto
  obtain s2 where s2: "new_object env 120 s1 = Some s2" "?m \<subseteq>\<^sub>m mem s2" using new_object_serves [OF assms(1) s1(2), of 120] by auto
  obtain s3 where s3: "new_object env 40 s2 = Some s3" "?m \<subseteq>\<^sub>m mem s3" using new_object_serves [OF assms(1) s2(2), of 40] by auto
  obtain s4 where s4: "to_slots env fr 0 ads s3 (ngx_com_request_zero\<lparr>rq_adx := 8, rq_has_adx := True, rq_bid := br_id bid, rq_has_bid := True\<rparr>) =
      Some (s4, ngx_com_request_zero\<lparr>rq_adx := 8, rq_has_adx := True, rq_bid := br_id bid, rq_has_bid := True,
        rq_adx_slot := if ads = [] then None else Some (map (\<lambda>(i, ad). com_slot (f_slot fr i) ad) (enumerate 0 ads)), rq_has_adx_slot := ads \<noteq> []\<rparr>)"
      "?m \<subseteq>\<^sub>m mem s4"
    using to_slots_map [OF assms(1) s3(2), of ads fr 0 "ngx_com_request_zero\<lparr>rq_adx := 8, rq_has_adx := True, rq_bid := br_id bid, rq_has_bid := True\<rparr>"] sl
    by (auto simp: ngx_com_request_zero_def old_def split: if_splits)
  let ?xs = "map (\<lambda>x. (mi_id x, mi_type x)) ids" and ?ys = "map (\<lambda>x. (fa_id x, fa_type x)) fas"
  obtain s5 dev5 where s5: "to_ids env com_mobile_id_type ?xs s4 ngx_com_request_device_zero = Some (s5, dev5)" "?m \<subseteq>\<^sub>m mem s5"
      "dev5 = (if ids = [] then ngx_com_request_device_zero else
        ngx_com_request_device_zero\<lparr>dv_device_id := Some (map (\<lambda>x. com_id (mi_id x) (com_mobile_id_type (mi_type x))) ids), dv_has_device_id := True\<rparr>)"
    using to_ids_map [OF assms(1) s4(2), of com_mobile_id_type ?xs ngx_com_request_device_zero]
    by (auto simp: ngx_com_request_device_zero_def old_def comp_def)
  let ?devs = "map (\<lambda>x. com_id (mi_id x) (com_mobile_id_type (mi_type x))) ids @ map (\<lambda>x. com_id (fa_id x) (com_advertising_id_type (fa_type x))) fas"
  obtain s6 where s6: "to_ids env com_advertising_id_type ?ys s5 dev5 = Some (s6,
        ngx_com_request_device_zero\<lparr>dv_device_id := if ?devs = [] then None else Some ?devs, dv_has_device_id := ?devs \<noteq> []\<rparr>)" "?m \<subseteq>\<^sub>m mem s6"
    using to_ids_map [OF assms(1) s5(2), of com_advertising_id_type ?ys dev5]
    by (auto simp: s5(3) ngx_com_request_device_zero_def old_def comp_def)
  have os6: "region (f_os fr) 256 \<subseteq> dom (mem s6)" using map_le_implies_dom_le [OF s6(2)] by (auto simp: s0_def enter_block_dom)
  have le6: "mem s \<subseteq>\<^sub>m mem s6" using enter_block_le [OF os, of s fr] s6(2) by (auto simp: s0_def intro: map_le_trans)
  obtain m where m: "sprintf (mem s6) (f_os fr) (os_version_text version) = Some m" "mem s \<subseteq>\<^sub>m m"
    using sprintf_block [OF os_version_fits os os6 le6] by blast
  have "adx_com_baidu_adapter_to_com env fr s bid =
      Some (leave_block (f_os fr) 256 (s6\<lparr>mem := m\<rparr>), com_request fr bid mobile ads ids fas version app)"
    using s1(1) s2(1) s3(1) s4(1) s5(1) s6(1) m(1)
    by (simp add: adx_com_baidu_adapter_to_com_def assms(3-8) com_request_def ngx_com_request_zero_def ngx_com_request_app_zero_def Let_def flip: s0_def)
  then show ?thesis using leave_block_le [OF os, of "s6\<lparr>mem := m\<rparr>"] m(2) by (auto simp: leave_block_def)
qed

lemma to_com_null:
  assumes "br_mobile bid = None \<or> br_adslot bid = None \<or> (\<exists>mobile. br_mobile bid = Some mobile \<and>
    (mo_id mobile = None \<or> mo_for_advertising_id mobile = None \<or> mo_os_version mobile = None \<or> mo_mobile_app mobile = None))"
  shows "adx_com_baidu_adapter_to_com env fr s bid = None"
  using assms by (cases "br_mobile bid")
    (auto simp: adx_com_baidu_adapter_to_com_def Let_def bind_eq_None_conv split: option.splits prod.splits Option.bind_split)

section \<open>The mapping the two protocols ask for\<close>






































text \<open>
  C24. The mapping is undefined behaviour exactly if one of the members it follows without a test is not
  there: the mobile device, the slots, the two arrays of identifiers, the version of the system or the
  app.  All of them are optional in the message.
\<close>

theorem to_com_defined_iff:
  assumes "pool_serves env" "frame_free fr (length (old (br_adslot bid))) (mem s)"
  shows "adx_com_baidu_adapter_to_com env fr s bid \<noteq> None \<longleftrightarrow> br_adslot bid \<noteq> None \<and> (\<exists>mobile. br_mobile bid = Some mobile \<and>
    mo_id mobile \<noteq> None \<and> mo_for_advertising_id mobile \<noteq> None \<and> mo_os_version mobile \<noteq> None \<and> mo_mobile_app mobile \<noteq> None)"
proof (intro iffI)
  assume "adx_com_baidu_adapter_to_com env fr s bid \<noteq> None"
  then show "br_adslot bid \<noteq> None \<and> (\<exists>mobile. br_mobile bid = Some mobile \<and>
      mo_id mobile \<noteq> None \<and> mo_for_advertising_id mobile \<noteq> None \<and> mo_os_version mobile \<noteq> None \<and> mo_mobile_app mobile \<noteq> None)"
    using to_com_null [of bid env fr s] by (rule contrapos_np) (cases "br_mobile bid", auto)
next
  assume a: "br_adslot bid \<noteq> None \<and> (\<exists>mobile. br_mobile bid = Some mobile \<and>
      mo_id mobile \<noteq> None \<and> mo_for_advertising_id mobile \<noteq> None \<and> mo_os_version mobile \<noteq> None \<and> mo_mobile_app mobile \<noteq> None)"
  then obtain mobile ads ids fas version app where "br_mobile bid = Some mobile" "br_adslot bid = Some ads"
    "mo_id mobile = Some ids" "mo_for_advertising_id mobile = Some fas" "mo_os_version mobile = Some version" "mo_mobile_app mobile = Some app"
    by auto
  from to_com_computes [OF assms(1) _ this, of fr s] assms(2) this(2)
  show "adx_com_baidu_adapter_to_com env fr s bid \<noteq> None" by (auto simp: old_def)
qed

text \<open>
  A request with an empty body is undefined behaviour, whatever the allocator does: the chain is turned
  into the null string, unpacking nothing gives a message without members, and the mapping follows the
  null pointer to its mobile device.
\<close>

theorem request_empty_body:
  "adx_com_baidu_adapter_request env fr reuse s [] = None"
proof -
  have "chain_to_str env s [] = Some (s, \<lparr>slen = 0, sdata = NULL\<rparr>)" by (simp add: chain_to_str_def chain_len_def)
  moreover have "adx_com_baidu_adapter_to_com env fr s' ngx_bid_request_zero = None" for s'
    by (rule to_com_null) (simp add: ngx_bid_request_zero_def)
  ultimately show ?thesis
    by (cases "new_object env 288 s") (simp_all add: adx_com_baidu_adapter_request_def adx_com_baidu_adapter_init_def
        ngx_bid_request__unpack_def unpack_loop.simps)
qed

section \<open>Pointers into the stack\<close>

text \<open>A packing step that, if it ends, moves by \<open>n\<close> bytes and changes no memory but bytes that are there.\<close>

definition moves :: "('m ngx_protobuf_context_t \<Rightarrow> 'm ngx_protobuf_context_t option) \<Rightarrow> nat \<Rightarrow> bool" where
  "moves f n \<longleftrightarrow> (\<forall>ctx ctx'. unat (cpos ctx) + n \<le> unat (clast ctx) \<longrightarrow> f ctx = Some ctx' \<longrightarrow>
     cpos ctx' = cpos ctx + of_nat n \<and> clast ctx' = clast ctx \<and> dom (mem (cstate ctx')) = dom (mem (cstate ctx)))"

lemma movesD:
  assumes "moves f n" "unat (cpos ctx) + n \<le> unat (clast ctx)" "f ctx = Some ctx'"
  shows "unat (cpos ctx') = unat (cpos ctx) + n" "clast ctx' = clast ctx" "dom (mem (cstate ctx')) = dom (mem (cstate ctx))"
proof -
  have m: "cpos ctx' = cpos ctx + of_nat n" "clast ctx' = clast ctx" "dom (mem (cstate ctx')) = dom (mem (cstate ctx))"
    using assms unfolding moves_def by blast+
  then show "unat (cpos ctx') = unat (cpos ctx) + n" "clast ctx' = clast ctx" "dom (mem (cstate ctx')) = dom (mem (cstate ctx))"
    using unat_plus [OF assms(2)] by simp_all
qed

lemma moves_nothing: "moves Some 0"
  by (simp add: moves_def)

lemma moves_seq:
  assumes "moves f a" "moves g b"
  shows "moves (\<lambda>ctx. do { ctx \<leftarrow> f ctx; g ctx }) (a + b)"
  unfolding moves_def
proof (intro allI impI)
  fix ctx ctx' :: "'a ngx_protobuf_context_t"
  assume r: "unat (cpos ctx) + (a + b) \<le> unat (clast ctx)" and "do { ctx \<leftarrow> f ctx; g ctx } = Some ctx'"
  then obtain c where c: "f ctx = Some c" "g c = Some ctx'" by (auto simp: bind_eq_Some_conv)
  have m: "unat (cpos c) = unat (cpos ctx) + a" "clast c = clast ctx" "dom (mem (cstate c)) = dom (mem (cstate ctx))"
    by (rule movesD [OF assms(1) _ c(1)]; use r in simp)+
  have m': "unat (cpos ctx') = unat (cpos c) + b" "clast ctx' = clast c" "dom (mem (cstate ctx')) = dom (mem (cstate c))"
    by (rule movesD [OF assms(2) _ c(2)]; use r m in simp)+
  have "unat (cpos ctx') = unat (cpos ctx + of_nat (a + b))" using unat_plus [OF r] m m' by simp
  then show "cpos ctx' = cpos ctx + of_nat (a + b) \<and> clast ctx' = clast ctx \<and> dom (mem (cstate ctx')) = dom (mem (cstate ctx))"
    using m m' by (simp add: word_unat_eq_iff)
qed

lemma moves_writes: "(\<And>ctx. f ctx = ngx_writes ctx bs) \<Longrightarrow> moves f (length bs)"
  using writes_SomeD store_dom unfolding moves_def by metis

lemma moves_num: "moves (pack_num has v fnum) (size_number has v fnum)"
  using moves_writes [of "pack_num has v fnum" "if has then header fnum WIRE_VARINT @ varint v else []"] fuint32.size_enc [of v fnum]
  by (auto simp: pack_num_def fuint32.emit_enc size_number_def split: if_splits)

lemma moves_str: "moves (pack_str has v fnum) (size_str has v fnum)"
proof (cases has)
  case True
  have field: "dom m' = dom m \<and> p' = p + of_nat (ngx_protobuf_size_string_field v fnum)"
    if w: "ngx_protobuf_write_string_field m p v fnum = Some (m', p')" for m p m' p'
  proof -
    let ?h = "header fnum WIRE_LENGTH_DELIMITED" and ?l = "varint (ucast (slen v) :: 32 word)"
    obtain m1 m2 bs where s: "store m p ?h = Some m1" "store m1 (p + of_nat (length ?h)) ?l = Some m2"
      "store m2 (p + of_nat (length ?h) + of_nat (length ?l)) bs = Some m'"
      "p' = p + of_nat (length ?h) + of_nat (length ?l) + slen v"
      using w by (auto simp: ngx_protobuf_write_string_field_def ngx_protobuf_write_string_def ngx_protobuf_write_uint32_def
          write_uint_varint header_def bind_eq_Some_conv)
    then show ?thesis using store_dom [OF s(1)] store_dom [OF s(2)] store_dom [OF s(3)]
      by (simp add: ngx_protobuf_size_string_field_def ngx_protobuf_size_string_def ngx_protobuf_size_binary_def size_uint32_varint header_def)
  qed
  have "cpos ctx' = cpos ctx + of_nat (size_str has v fnum) \<and> clast ctx' = clast ctx \<and> dom (mem (cstate ctx')) = dom (mem (cstate ctx))"
    if st: "pack_str has v fnum ctx = Some ctx'" for ctx ctx' :: "'a ngx_protobuf_context_t"
  proof -
    obtain m p where "ngx_protobuf_write_string_field (mem (cstate ctx)) (cpos ctx) v fnum = Some (m, p)"
      "ctx' = ctx\<lparr>cstate := (cstate ctx)\<lparr>mem := m\<rparr>, cpos := p\<rparr>"
      using st True by (auto simp: pack_str_def emit_def bind_eq_Some_conv)
    then show ?thesis using field [of "mem (cstate ctx)" "cpos ctx" m p] True by (simp add: size_str_def)
  qed
  then show ?thesis unfolding moves_def by blast
qed (simp add: moves_def pack_str_def size_str_def)

text \<open>A message: its size, its steps, and a header in front of it.\<close>

definition message_moves :: "('x \<Rightarrow> nat option) \<Rightarrow> ('x, 'm) packer \<Rightarrow> 'x \<Rightarrow> bool" where
  "message_moves sz pk x \<longleftrightarrow> (\<forall>n. sz x = Some n \<longrightarrow> (\<forall>ctx ctx' rc. unat (cpos ctx) + n \<le> unat (clast ctx) \<longrightarrow> pk x ctx = Some (ctx', rc) \<longrightarrow>
     rc = NGX_OK \<and> cpos ctx' = cpos ctx + of_nat n \<and> clast ctx' = clast ctx \<and> dom (mem (cstate ctx')) = dom (mem (cstate ctx))))"

lemma size_message_field_less: "n < 2 ^ 64 \<Longrightarrow> ngx_protobuf_size_message_field n fnum =
    length (header fnum WIRE_LENGTH_DELIMITED @ varint (of_nat n :: 32 word)) + n"
  using size_message_field [of "replicate n 0" fnum] by (simp add: enc_delimited_def enc_string_def)

lemma moves_headed:
  assumes "message_moves sz pk x" "sz x = Some n" "n < 2 ^ 64"
  shows "moves (pack_headed sz pk x fnum) (ngx_protobuf_size_message_field n fnum)"
proof -
  have h: "moves (\<lambda>ctx. emit ctx (\<lambda>m p. ngx_protobuf_write_message_header m p n fnum))
      (length (header fnum WIRE_LENGTH_DELIMITED @ varint (of_nat n :: 32 word)))"
    by (rule moves_writes) (rule emit_message_header)
  have "moves (\<lambda>ctx. do { (ctx, rc) \<leftarrow> pk x ctx; Some ctx }) n"
    unfolding moves_def
  proof (intro allI impI)
    fix ctx ctx' :: "'b ngx_protobuf_context_t"
    assume r: "unat (cpos ctx) + n \<le> unat (clast ctx)" and "do { (ctx, rc) \<leftarrow> pk x ctx; Some ctx } = Some ctx'"
    then obtain rc where "pk x ctx = Some (ctx', rc)" by (auto simp: bind_eq_Some_conv)
    then show "cpos ctx' = cpos ctx + of_nat n \<and> clast ctx' = clast ctx \<and> dom (mem (cstate ctx')) = dom (mem (cstate ctx))"
      using assms(1,2) r unfolding message_moves_def by blast
  qed
  from moves_seq [OF h this] show ?thesis
    by (simp add: pack_headed_def [abs_def] assms(2) size_message_field_less [OF assms(3)])
qed

lemma moves_chain:
  assumes "list_all2 (\<lambda>n f. \<exists>k. n = Some k \<and> moves f k) ns steps"
  shows "\<exists>k. size_chain ns = Some k \<and> moves (pack_chain steps) k"
  using assms
proof (induction rule: list_all2_induct)
  case Nil
  then show ?case using moves_nothing by (simp add: moves_def)
next
  case (Cons n ns f fs)
  then obtain a b where "n = Some a" "moves f a" "size_chain ns = Some b" "moves (pack_chain fs) b" by blast
  then show ?case using moves_seq [of f a "pack_chain fs" b] by simp
qed

lemma message_moves_chain:
  assumes "sz x = size_message ns us" "\<And>ctx. pk x ctx = pack_message (sz x) steps us ctx" "plain us"
    "list_all2 (\<lambda>n f. \<exists>k. n = Some k \<and> moves f k) ns steps"
  shows "message_moves sz pk x"
proof -
  obtain k where k: "size_chain ns = Some k" "moves (pack_chain steps) k" using moves_chain [OF assms(4)] by blast
  have n: "sz x = Some k" using k(1) plain_packs(1) [OF assms(3)] by (simp add: assms(1) size_message_def)
  show ?thesis unfolding message_moves_def assms(2)
  proof (intro allI impI)
    fix n ctx ctx' rc
    assume a: "sz x = Some n" "unat (cpos ctx) + n \<le> unat (clast ctx)" "pack_message (sz x) steps us ctx = Some (ctx', rc)"
    have "\<not> cpos ctx + of_nat n > clast ctx" using unat_plus [OF a(2)] a(2) by (simp add: word_less_nat_alt)
    then have c: "n = k" "if n = 0 then ctx' = ctx \<and> rc = NGX_OK else pack_chain steps ctx = Some ctx' \<and> rc = NGX_OK"
      using a n by (auto simp: pack_message_def bind_eq_Some_conv plain_packs(2) [OF assms(3)] split: if_splits)
    show "rc = NGX_OK \<and> cpos ctx' = cpos ctx + of_nat n \<and> clast ctx' = clast ctx \<and> dom (mem (cstate ctx')) = dom (mem (cstate ctx))"
    proof (cases "n = 0")
      case False
      then have st: "pack_chain steps ctx = Some ctx'" "rc = NGX_OK" and r: "unat (cpos ctx) + k \<le> unat (clast ctx)"
        using c a(2) by simp_all
      show ?thesis using k(2) [unfolded moves_def, rule_format, OF r st(1)] st(2) c(1) by simp
    qed (use c in simp)
  qed
qed

definition size_fits :: "('x \<Rightarrow> nat option) \<Rightarrow> 'x \<Rightarrow> bool" where
  "size_fits sz x \<longleftrightarrow> (\<exists>n. sz x = Some n \<and> n < 2 ^ 64)"

lemma moves_member:
  assumes "\<And>x. p = Some x \<Longrightarrow> has \<Longrightarrow> message_moves sz pk x \<and> size_fits sz x"
  shows "\<exists>k. size_member sz has p fnum = Some k \<and> moves (pack_member sz pk has p fnum) k"
proof (cases "p \<noteq> None \<and> has")
  case True
  then obtain x n where x: "p = Some x" "message_moves sz pk x" "sz x = Some n" "n < 2 ^ 64" using assms by (auto simp: size_fits_def)
  then show ?thesis using moves_headed [OF x(2-4), of fnum] True by (simp add: size_member_def pack_member_def [abs_def])
next
  case False
  then show ?thesis using moves_nothing by (auto simp: size_member_def pack_member_def [abs_def] moves_def split: option.splits)
qed

lemma moves_elements:
  assumes "\<And>x. x \<in> set (old a) \<Longrightarrow> has \<Longrightarrow> message_moves sz pk x \<and> size_fits sz x"
  shows "\<exists>k. size_elements sz has a fnum = Some k \<and> moves (pack_elements sz pk has a fnum) k"
proof (cases "a \<noteq> None \<and> has")
  case True
  then obtain xs where a: "a = Some xs" by blast
  have "\<exists>k. size_each sz xs fnum = Some k \<and> moves (pack_each sz pk xs fnum) k"
    if "\<And>x. x \<in> set xs \<Longrightarrow> message_moves sz pk x \<and> size_fits sz x" using that
  proof (induction xs)
    case Nil
    then show ?case by (simp add: moves_def)
  next
    case (Cons x xs)
    then obtain n where n: "sz x = Some n" "n < 2 ^ 64" "message_moves sz pk x" by (auto simp: size_fits_def)
    obtain k where k: "size_each sz xs fnum = Some k" "moves (pack_each sz pk xs fnum) k" using Cons by auto
    show ?case using moves_seq [OF moves_headed [OF n(3,1,2), of fnum] k(2)] n(1) k(1) by simp
  qed
  then show ?thesis using assms True by (auto simp: a old_def size_elements_def pack_elements_def [abs_def])
next
  case False
  then show ?thesis by (auto simp: size_elements_def pack_elements_def [abs_def] moves_def split: option.splits)
qed

text \<open>Steps behind which one fails.\<close>

lemma pack_chain_append: "pack_chain (fs @ gs) ctx = do { ctx \<leftarrow> pack_chain fs ctx; pack_chain gs ctx }"
proof (induction fs arbitrary: ctx)
  case (Cons f fs)
  then show ?case by (cases "f ctx") simp_all
qed simp

lemma chain_fails:
  assumes "list_all2 (\<lambda>n f. \<exists>k. n = Some k \<and> moves f k) ns fs" "size_chain ns = Some k" "unat (cpos ctx) + k \<le> unat (clast ctx)"
    "\<And>ctx'. unat (cpos ctx') = unat (cpos ctx) + k \<Longrightarrow> clast ctx' = clast ctx \<Longrightarrow>
      dom (mem (cstate ctx')) = dom (mem (cstate ctx)) \<Longrightarrow> f ctx' = None"
  shows "pack_chain (fs @ f # gs) ctx = None"
proof (cases "pack_chain fs ctx")
  case (Some ctx')
  have "moves (pack_chain fs) k" using moves_chain [OF assms(1)] assms(2) by auto
  note m = movesD [OF this assms(3) Some]
  show ?thesis using assms(4) [OF m] Some by (simp add: pack_chain_append)
qed (simp add: pack_chain_append)

lemma pack_str_dangles:
  assumes "slen v \<noteq> 0" "mem (cstate ctx) (sdata v) = None"
  shows "pack_str True v fnum ctx = None"
proof -
  have "load m (sdata v) (unat (slen v)) = None" if "dom m = dom (mem (cstate ctx))" for m
  proof -
    obtain n where "unat (slen v) = Suc n" using assms(1) by (metis not0_implies_Suc unat_eq_zero)
    moreover have "m (sdata v) = None" using that assms(2) by (metis domIff)
    ultimately show ?thesis by simp
  qed
  then show ?thesis using store_dom
    by (auto simp: pack_str_def emit_def ngx_protobuf_write_string_field_def ngx_protobuf_write_string_def ngx_protobuf_write_uint32_def
        write_uint_varint bind_eq_None_conv)
qed

text \<open>The messages that the mapping makes.\<close>

lemma slot_moves:
  assumes "\<And>b. sl_banner x = Some b \<Longrightarrow> size_fits ngx_com_request_adx_slot_banner__size b \<and> bn_unknown b = None"
    "sl_native x = None" "sl_video x = None" "sl_unknown x = None"
  shows "message_moves ngx_com_request_adx_slot__size ngx_com_request_adx_slot__pack x"
proof -
  have "message_moves ngx_com_request_adx_slot_banner__size ngx_com_request_adx_slot_banner__pack b" if "bn_unknown b = None" for b
    by (rule message_moves_chain [where sz = ngx_com_request_adx_slot_banner__size and pk = ngx_com_request_adx_slot_banner__pack,
          OF ngx_com_request_adx_slot_banner__size_def ngx_com_request_adx_slot_banner__pack_def])
      (use that in \<open>simp_all add: moves_num\<close>)
  then have banner: "\<exists>k. size_member ngx_com_request_adx_slot_banner__size (sl_has_banner x) (sl_banner x) 4 = Some k \<and>
      moves (pack_member ngx_com_request_adx_slot_banner__size ngx_com_request_adx_slot_banner__pack (sl_has_banner x) (sl_banner x) 4) k"
    using assms(1) by (intro moves_member) auto
  have absent: "\<exists>k. size_member sz h None f = Some k \<and> moves (pack_member sz pk h None f) k" for sz :: "'y \<Rightarrow> nat option" and pk h f
    by (rule moves_member) simp
  show ?thesis
    by (rule message_moves_chain [where sz = ngx_com_request_adx_slot__size and pk = ngx_com_request_adx_slot__pack,
          OF ngx_com_request_adx_slot__size_def ngx_com_request_adx_slot__pack_def])
      (simp_all add: moves_num moves_str assms(2-4) absent banner)
qed

lemma id_moves: "di_unknown x = None \<Longrightarrow> message_moves ngx_com_request_device_device_id__size ngx_com_request_device_device_id__pack x"
  by (rule message_moves_chain [where sz = ngx_com_request_device_device_id__size and pk = ngx_com_request_device_device_id__pack,
        OF ngx_com_request_device_device_id__size_def ngx_com_request_device_device_id__pack_def])
    (simp_all add: moves_num moves_str)

lemma size_chain_append: "size_chain (ns @ ms) = do { a \<leftarrow> size_chain ns; b \<leftarrow> size_chain ms; Some (a + b) }"
proof (induction ns)
  case (Cons n ns)
  then show ?case by (cases n; cases "size_chain ns"; cases "size_chain ms") simp_all
qed (cases "size_chain ms"; simp)

text \<open>Packing a message with a step that fails where it is reached.\<close>

lemma message_fails:
  assumes "sz x = size_message (ns @ Some a # ms) us" "\<And>ctx. pk x ctx = pack_message (sz x) (fs @ f # gs) us ctx" "plain us"
    "list_all2 (\<lambda>n f. \<exists>k. n = Some k \<and> moves f k) ns fs" "sz x = Some n" "0 < a" "unat (cpos ctx) + n \<le> unat (clast ctx)"
    "\<And>ctx'. unat (cpos ctx') + a \<le> unat (clast ctx') \<Longrightarrow> dom (mem (cstate ctx')) = dom (mem (cstate ctx)) \<Longrightarrow> f ctx' = None"
  shows "pk x ctx = None"
proof -
  obtain k where k: "size_chain ns = Some k" using moves_chain [OF assms(4)] by blast
  have n: "k + a \<le> n" using assms(1,5) k plain_packs(1) [OF assms(3)]
    by (cases "size_chain ms") (simp_all add: size_message_def size_chain_append)
  have c: "pack_chain (fs @ f # gs) ctx = None"
    by (rule chain_fails [OF assms(4) k], use assms(7) n in simp, rule assms(8), use assms(7) n in simp_all)
  have "\<not> cpos ctx + of_nat n > clast ctx" using unat_plus [OF assms(7)] assms(7) by (simp add: word_less_nat_alt)
  then show ?thesis using c n assms(6) by (simp add: assms(2,5) pack_message_def)
qed

lemma headed_fails:
  assumes "sz x = Some n" "n < 2 ^ 64" "unat (cpos ctx) + ngx_protobuf_size_message_field n fnum \<le> unat (clast ctx)"
    "\<And>ctx'. unat (cpos ctx') + n \<le> unat (clast ctx') \<Longrightarrow> dom (mem (cstate ctx')) = dom (mem (cstate ctx)) \<Longrightarrow> pk x ctx' = None"
  shows "pack_headed sz pk x fnum ctx = None"
proof -
  let ?h = "header fnum WIRE_LENGTH_DELIMITED @ varint (of_nat n :: 32 word)"
  show ?thesis
  proof (cases "ngx_writes ctx ?h")
    case (Some ctx')
    have "moves (\<lambda>ctx. ngx_writes ctx ?h) (length ?h)" by (rule moves_writes) simp
    from movesD [OF this _ Some] have "unat (cpos ctx') + n \<le> unat (clast ctx')" "dom (mem (cstate ctx')) = dom (mem (cstate ctx))"
      using assms(3) size_message_field_less [OF assms(2), of fnum] by simp_all
    then show ?thesis using assms(4) [of ctx'] Some by (simp add: pack_headed_def assms(1) emit_message_header)
  qed (simp add: pack_headed_def assms(1) emit_message_header)
qed

lemma size_str_pos: "0 < size_str True v fnum"
  by (simp add: size_str_def ngx_protobuf_size_string_field_def size_uint32_varint)

lemma device_fails:
  assumes "dv_has_os_version x" "slen (dv_os_version x) \<noteq> 0" "mem (cstate ctx) (sdata (dv_os_version x)) = None" "dv_unknown x = None"
    "\<And>y. y \<in> set (old (dv_device_id x)) \<Longrightarrow> size_fits ngx_com_request_device_device_id__size y \<and> di_unknown y = None"
    "ngx_com_request_device__size x = Some n" "unat (cpos ctx) + n \<le> unat (clast ctx)"
  shows "ngx_com_request_device__pack x ctx = None"
proof -
  have ids: "\<exists>k. size_elements ngx_com_request_device_device_id__size (dv_has_device_id x) (dv_device_id x) 1 = Some k \<and>
      moves (pack_elements ngx_com_request_device_device_id__size ngx_com_request_device_device_id__pack (dv_has_device_id x) (dv_device_id x) 1) k"
    using assms(5) id_moves by (intro moves_elements) blast
  show ?thesis
  proof (rule message_fails [where sz = ngx_com_request_device__size and pk = ngx_com_request_device__pack and n = n and a = "size_str True (dv_os_version x) 4"
        and ns = "[size_elements ngx_com_request_device_device_id__size (dv_has_device_id x) (dv_device_id x) 1,
          Some (size_number (dv_has_device_type x) (dv_device_type x) 2), Some (size_number (dv_has_os x) (dv_os x) 3)]"
        and fs = "[pack_elements ngx_com_request_device_device_id__size ngx_com_request_device_device_id__pack (dv_has_device_id x) (dv_device_id x) 1,
          pack_num (dv_has_device_type x) (dv_device_type x) 2, pack_num (dv_has_os x) (dv_os x) 3]"
        and f = "pack_str True (dv_os_version x) 4" and us = "dv_unknown x"
        and ms = "[Some (size_number (dv_has_carrier x) (dv_carrier x) 5), Some (size_number (dv_has_connection x) (dv_connection x) 6),
          Some (size_str (dv_has_brand x) (dv_brand x) 7), Some (size_str (dv_has_model x) (dv_model x) 8),
          Some (size_str (dv_has_user_agent x) (dv_user_agent x) 9), Some (size_str (dv_has_ip x) (dv_ip x) 10)]"
        and gs = "[pack_num (dv_has_carrier x) (dv_carrier x) 5, pack_num (dv_has_connection x) (dv_connection x) 6,
          pack_str (dv_has_brand x) (dv_brand x) 7, pack_str (dv_has_model x) (dv_model x) 8,
          pack_str (dv_has_user_agent x) (dv_user_agent x) 9, pack_str (dv_has_ip x) (dv_ip x) 10]"])
    show "pack_str True (dv_os_version x) 4 ctx' = None" if "dom (mem (cstate ctx')) = dom (mem (cstate ctx))" for ctx' :: "'a ngx_protobuf_context_t"
      by (rule pack_str_dangles [OF assms(2)]) (use that assms(3) in \<open>metis domIff\<close>)
  qed (use ids in \<open>simp_all add: assms(1,4,6,7) ngx_com_request_device__pack_def moves_num size_str_pos,
      simp add: assms(1,4) ngx_com_request_device__size_def flip: assms(6)\<close>)
qed

text \<open>The sizes that the code computes in \<^verbatim>\<open>size_t\<close> do not wrap around, and that of the whole fits an \<^verbatim>\<open>int\<close>.\<close>

definition request_fits :: "ngx_com_request_t \<Rightarrow> bool" where
  "request_fits com \<longleftrightarrow> (\<exists>n. ngx_com_request__size com = Some n \<and> n < 2 ^ 31) \<and>
     (\<forall>x \<in> set (old (rq_adx_slot com)). size_fits ngx_com_request_adx_slot__size x \<and>
       (\<forall>b. sl_banner x = Some b \<longrightarrow> size_fits ngx_com_request_adx_slot_banner__size b)) \<and>
     (\<forall>dev. rq_device com = Some dev \<longrightarrow> size_fits ngx_com_request_device__size dev \<and>
       (\<forall>y \<in> set (old (dv_device_id dev)). size_fits ngx_com_request_device_device_id__size y))"

lemma request_fails:
  assumes "request_fits com" "com = com_request fr bid mobile ads ids fas version app" "ngx_com_request__size com = Some n"
    "mem (cstate ctx) (f_os fr) = None" "unat (cpos ctx) + n \<le> unat (clast ctx)"
  shows "ngx_com_request__pack com ctx = None"
proof -
  obtain dev where dev: "rq_device com = Some dev" by (simp add: assms(2) com_request_def)
  have d: "dv_has_os_version dev" "sdata (dv_os_version dev) = f_os fr" "dv_unknown dev = None"
    "\<And>y. y \<in> set (old (dv_device_id dev)) \<Longrightarrow> di_unknown y = None"
    using dev by (auto simp: assms(2) com_request_def to_device_def ngx_com_request_device_zero_def com_id_def old_def split: if_splits)
  have "unat (of_nat (length (os_version_text version)) :: 64 word) = length (os_version_text version)"
    using os_version_fits [of version] by (simp add: unat_of_nat take_bit_nat_eq_self)
  moreover have "os_version_text version \<noteq> []" by (simp add: os_version_text_def)
  ultimately have len: "slen (dv_os_version dev) \<noteq> 0"
    using dev by (auto simp: assms(2) com_request_def to_device_def)
  obtain k where k: "ngx_com_request_device__size dev = Some k" "k < 2 ^ 64" using assms(1) dev by (auto simp: request_fits_def size_fits_def)
  have slots: "\<exists>k. size_elements ngx_com_request_adx_slot__size (rq_has_adx_slot com) (rq_adx_slot com) 3 = Some k \<and>
      moves (pack_elements ngx_com_request_adx_slot__size ngx_com_request_adx_slot__pack (rq_has_adx_slot com) (rq_adx_slot com) 3) k"
  proof (rule moves_elements, intro conjI)
    fix x assume x: "x \<in> set (old (rq_adx_slot com))"
    show "size_fits ngx_com_request_adx_slot__size x" using assms(1) x by (simp add: request_fits_def)
    have "sl_native x = None" "sl_video x = None" "sl_unknown x = None" "\<And>b. sl_banner x = Some b \<Longrightarrow> bn_unknown b = None"
      using x by (auto simp: assms(2) com_request_def com_slot_def ngx_com_request_adx_slot_zero_def old_def split: if_splits)
    then show "message_moves ngx_com_request_adx_slot__size ngx_com_request_adx_slot__pack x"
      using slot_moves [of x] assms(1) x by (simp add: request_fits_def)
  qed
  have fails: "pack_member ngx_com_request_device__size ngx_com_request_device__pack True (Some dev) 4 ctx' = None"
    if "unat (cpos ctx') + ngx_protobuf_size_message_field k 4 \<le> unat (clast ctx')" "dom (mem (cstate ctx')) = dom (mem (cstate ctx))"
    for ctx' :: "'a ngx_protobuf_context_t"
  proof -
    have ids: "size_fits ngx_com_request_device_device_id__size y \<and> di_unknown y = None" if "y \<in> set (old (dv_device_id dev))" for y
      using assms(1) dev d(4) that by (simp add: request_fits_def)
    have "ngx_com_request_device__pack dev ctx'' = None"
      if c: "unat (cpos ctx'') + k \<le> unat (clast ctx'')" "dom (mem (cstate ctx'')) = dom (mem (cstate ctx'))" for ctx'' :: "'a ngx_protobuf_context_t"
      by (rule device_fails [OF d(1) len _ d(3) ids k(1) c(1)])
        (use c(2) that assms(4) \<open>dom (mem (cstate ctx')) = dom (mem (cstate ctx))\<close> d(2) in \<open>metis domIff\<close>)
    then show ?thesis using headed_fails [where sz = ngx_com_request_device__size and pk = ngx_com_request_device__pack, OF k that(1)] by (simp add: pack_member_def)
  qed
  have fs: "rq_has_device com" "rq_unknown com = None" by (simp_all add: assms(2) com_request_def)
  have pos: "0 < ngx_protobuf_size_message_field k 4" using size_message_field_less [OF k(2), of 4] by (simp add: header_def)
  show ?thesis
    by (rule message_fails [where sz = ngx_com_request__size and pk = ngx_com_request__pack and n = n and a = "ngx_protobuf_size_message_field k 4"
        and ns = "[Some (size_number (rq_has_adx com) (rq_adx com) 1), Some (size_str (rq_has_bid com) (rq_bid com) 2),
          size_elements ngx_com_request_adx_slot__size (rq_has_adx_slot com) (rq_adx_slot com) 3]"
        and fs = "[pack_num (rq_has_adx com) (rq_adx com) 1, pack_str (rq_has_bid com) (rq_bid com) 2,
          pack_elements ngx_com_request_adx_slot__size ngx_com_request_adx_slot__pack (rq_has_adx_slot com) (rq_adx_slot com) 3]"
        and f = "pack_member ngx_com_request_device__size ngx_com_request_device__pack True (Some dev) 4" and us = "rq_unknown com"
        and ms = "[size_member ngx_com_request_app__size (rq_has_app com) (rq_app com) 5]"
        and gs = "[pack_member ngx_com_request_app__size ngx_com_request_app__pack (rq_has_app com) (rq_app com) 5]"])
      (use slots pos assms(5) fails in \<open>simp_all add: assms(3) ngx_com_request__pack_def moves_num moves_str dev fs,
        simp add: ngx_com_request__size_def dev fs k size_member_def flip: assms(3)\<close>)
qed

text \<open>The pool is not on the stack of the function, and its blocks do not wrap around.\<close>

definition off_stack :: "'m pb_env \<Rightarrow> frame \<Rightarrow> bool" where
  "off_stack env fr \<longleftrightarrow> (\<forall>s n. n < 2 ^ 31 \<longrightarrow> unat (snd (e_palloc env s n)) + n < 2 ^ 64 \<and>
     (mem s (f_os fr) = None \<longrightarrow> mem (fst (e_palloc env s n)) (f_os fr) = None))"

lemma sext_of_nat: "n < 2 ^ 31 \<Longrightarrow> scast (of_nat n :: 32 word) = (of_nat n :: 64 word)"
  by (simp add: scast_eq signed_of_nat signed_take_bit_int_eq_self)

text \<open>
  C4. What the adapter sends is undefined: whenever the mapping succeeds, turning its result into a chain is
  undefined behaviour, because the version of the system is a string in an array of
  \<open>adx_com_baidu_adapter_to_com\<close>, which has returned when \<open>adx_com_to_chain\<close> packs the request.
\<close>

theorem to_com_dangles:
  assumes "pool_serves env" "off_stack env fr" "frame_free fr (length ads) (mem s)" "br_mobile bid = Some mobile" "br_adslot bid = Some ads"
    "mo_id mobile = Some ids" "mo_for_advertising_id mobile = Some fas" "mo_os_version mobile = Some version" "mo_mobile_app mobile = Some app"
    "request_fits (com_request fr bid mobile ads ids fas version app)"
  shows "\<exists>s' com. adx_com_baidu_adapter_to_com env fr s bid = Some (s', com) \<and> adx_com_to_chain env reuse s' com = None"
proof -
  let ?com = "com_request fr bid mobile ads ids fas version app"
  obtain s' where s': "adx_com_baidu_adapter_to_com env fr s bid = Some (s', ?com)" "\<forall>q \<in> region (f_os fr) 256. mem s' q = None"
    using to_com_computes [OF assms(1,3-9)] by blast
  have free: "mem s' (f_os fr) = None" using s'(2) region_Suc [of "f_os fr" 255] by simp
  obtain n where n: "ngx_com_request__size ?com = Some n" "n < 2 ^ 31" using assms(10) by (auto simp: request_fits_def)
  obtain s2 d where e: "e_palloc env s' n = (s2, d)" by fastforce
  have d: "d \<noteq> NULL" "unat d + n < 2 ^ 64" "mem s2 (f_os fr) = None"
    using pool_servesD(1) [OF assms(1) e] assms(2)[unfolded off_stack_def, rule_format, OF n(2), of s'] e free by simp_all
  have len: "unat (of_nat n :: 64 word) = n" using n(2) by (simp add: unat_of_nat take_bit_nat_eq_self)
  have u: "unat (d + of_nat n) = unat d + n" using d(2) by (simp add: unat_plus_if' len)
  have "ngx_com_request__pack ?com \<lparr>cstate = s2, cpos = d, clast = d + of_nat n, reuse_strings = reuse, has_pool = True\<rparr> = None"
    by (rule request_fails [OF assms(10) refl n(1)]) (simp_all add: d(3) u)
  then have "adx_com_to_chain env reuse s' ?com = None"
    using d(1) by (simp add: adx_com_to_chain_def n(1) sext_of_nat [OF n(2)] len e Let_def)
  then show ?thesis using s'(1) by blast
qed

section \<open>An example\<close>

text \<open>A phone with two identifiers and one for advertising, and a banner slot.\<close>

definition demo_version :: ngx_bid_request_mobile_device_os_version_t where
  "demo_version = ngx_bid_request_mobile_device_os_version_zero\<lparr>ov_os_version_major := 9, ov_os_version_minor := 1\<rparr>"

definition demo_app :: ngx_bid_request_mobile_mobile_app_t where
  "demo_app = ngx_bid_request_mobile_mobile_app_zero\<lparr>ma_app_bundle_id := \<lparr>slen = 3, sdata = 100\<rparr>, ma_app_category := 7\<rparr>"

definition demo_ids :: "ngx_bid_request_mobile_mobile_id_t list" where
  "demo_ids = [ngx_bid_request_mobile_mobile_id_zero\<lparr>mi_type := 1, mi_id := \<lparr>slen = 2, sdata = 103\<rparr>\<rparr>,
     ngx_bid_request_mobile_mobile_id_zero\<lparr>mi_type := 2, mi_id := \<lparr>slen = 2, sdata = 105\<rparr>\<rparr>]"

definition demo_fas :: "ngx_bid_request_mobile_for_advertising_id_t list" where
  "demo_fas = [ngx_bid_request_mobile_for_advertising_id_zero\<lparr>fa_type := 5, fa_id := \<lparr>slen = 2, sdata = 107\<rparr>\<rparr>]"

definition demo_mobile :: ngx_bid_request_mobile_t where
  "demo_mobile = ngx_bid_request_mobile_zero\<lparr>mo_id := Some demo_ids, mo_for_advertising_id := Some demo_fas, mo_os_version := Some demo_version,
     mo_mobile_app := Some demo_app, mo_device_type := 1, mo_platform := 2, mo_carrier_id := 46001, mo_wireless_network_type := 4\<rparr>"

definition demo_slots :: "ngx_bid_request_ad_slot_t list" where
  "demo_slots = [ngx_bid_request_ad_slot_zero\<lparr>ad_ad_block_key := 40017, ad_sequence_id := 1, ad_width := 320, ad_height := 50, ad_minimum_cpm := 200\<rparr>]"

definition demo_bid :: ngx_bid_request_t where
  "demo_bid = ngx_bid_request_zero\<lparr>br_id := \<lparr>slen = 4, sdata = 109\<rparr>, br_mobile := Some demo_mobile, br_adslot := Some demo_slots\<rparr>"

definition demo_frame :: frame where
  "demo_frame = \<lparr>f_slot = (\<lambda>_. 8192), f_os = 16384, f_junk = (\<lambda>_. 0xCC)\<rparr>"

definition demo_pstate :: "unit pstate" where
  "demo_pstate = \<lparr>mem = (\<lambda>a. if a < 128 then Some (ucast a) else None), heap = ()\<rparr>"

definition demo_com :: ngx_com_request_t where
  "demo_com = com_request demo_frame demo_bid demo_mobile demo_slots demo_ids demo_fas demo_version demo_app"

lemma demo_members: "br_mobile demo_bid = Some demo_mobile" "br_adslot demo_bid = Some demo_slots" "mo_id demo_mobile = Some demo_ids"
  "mo_for_advertising_id demo_mobile = Some demo_fas" "mo_os_version demo_mobile = Some demo_version" "mo_mobile_app demo_mobile = Some demo_app"
  by (simp_all add: demo_bid_def demo_mobile_def)

lemma demo_env_serves: "pool_serves demo_env"
  by (simp add: pool_serves_def demo_env_def)

lemma demo_frame_free: "frame_free demo_frame (length demo_slots) (mem demo_pstate)"
proof -
  have "region p n \<inter> {..<128} = {}" if "128 \<le> unat p" "unat p + n < 2 ^ 64" for p :: addr and n
    using region_bounds [of _ p n] that by (fastforce simp: word_less_nat_alt)
  moreover have "dom (mem demo_pstate) = {..<128}" by (auto simp: demo_pstate_def split: if_splits)
  moreover have "region 8192 128 \<inter> region 16384 256 = {}" by (rule regions_apart) simp_all
  ultimately show ?thesis by (auto simp: frame_free_def demo_frame_def Int_Un_distrib)
qed

lemma demo_text: "os_version_text demo_version = ''9.1.0''" "dec_nat 40017 = ''40017''"
  by (simp_all add: os_version_text_def demo_version_def ngx_bid_request_mobile_device_os_version_zero_def dec_def dec_nat.simps digit_def char_of_def bit_0)

lemmas demo_bid_defs = demo_bid_def demo_mobile_def demo_slots_def demo_ids_def demo_fas_def demo_app_def demo_frame_def ngx_bid_request_zero_def
  ngx_bid_request_mobile_zero_def ngx_bid_request_ad_slot_zero_def ngx_bid_request_mobile_mobile_id_zero_def
  ngx_bid_request_mobile_for_advertising_id_zero_def ngx_bid_request_mobile_mobile_app_zero_def

lemma demo_com: "demo_com = \<lparr>rq_adx = 8, rq_bid = \<lparr>slen = 4, sdata = 109\<rparr>,
    rq_adx_slot = Some [ngx_com_request_adx_slot_zero\<lparr>sl_adx_slot_id := \<lparr>slen = 5, sdata = 8192\<rparr>, sl_has_adx_slot_id := True,
      sl_adx_slot_sequence_id := 1, sl_has_adx_slot_sequence_id := True, sl_price_floor := 200, sl_has_price_floor := True,
      sl_adx_slot_type := 1, sl_has_adx_slot_type := True, sl_has_banner := True,
      sl_banner := Some \<lparr>bn_width = 320, bn_height = 50, bn_unknown = None, bn_has_width = True, bn_has_height = True\<rparr>\<rparr>],
    rq_device = Some \<lparr>dv_device_id = Some [com_id \<lparr>slen = 2, sdata = 103\<rparr> 1, com_id \<lparr>slen = 2, sdata = 105\<rparr> 10, com_id \<lparr>slen = 2, sdata = 107\<rparr> 7],
      dv_device_type = 1, dv_os = 2, dv_os_version = \<lparr>slen = 5, sdata = 16384\<rparr>, dv_carrier = 2, dv_connection = 4,
      dv_brand = \<lparr>slen = 0, sdata = NULL\<rparr>, dv_model = \<lparr>slen = 0, sdata = NULL\<rparr>, dv_user_agent = \<lparr>slen = 0, sdata = NULL\<rparr>,
      dv_ip = \<lparr>slen = 0, sdata = NULL\<rparr>, dv_unknown = None, dv_has_device_id = True, dv_has_device_type = True, dv_has_os = True,
      dv_has_os_version = True, dv_has_carrier = True, dv_has_connection = True, dv_has_brand = True, dv_has_model = True,
      dv_has_user_agent = True, dv_has_ip = True\<rparr>,
    rq_app = Some \<lparr>ap_app_id = \<lparr>slen = 3, sdata = 100\<rparr>, ap_app_category = 7, ap_unknown = None, ap_has_app_id = True, ap_has_app_category = True\<rparr>,
    rq_unknown = None, rq_has_adx = True, rq_has_bid = True, rq_has_adx_slot = True, rq_has_device = True, rq_has_app = True\<rparr>"
  by (simp add: demo_com_def com_request_def demo_bid_defs com_slot_def com_slot_type_def demo_text to_device_def com_mobile_id_type_def
      com_advertising_id_type_def com_device_type_def com_os_def com_carrier_def com_connection_def ngx_com_request_device_zero_def)

lemmas demo_sizes = size_chain.simps size_message_def size_unknowns_def size_number_def size_str_def size_member_def size_elements_def
  ngx_protobuf_size_uint32_field_def ngx_protobuf_size_string_field_def ngx_protobuf_size_string_def ngx_protobuf_size_message_field_def
  ngx_protobuf_size_binary_def NGX_PROTOBUF_HEADER_def size_uint32_varint varint.simps

lemma demo_fits: "request_fits demo_com"
proof -
  let ?b = "\<lparr>bn_width = 320, bn_height = 50, bn_unknown = None, bn_has_width = True, bn_has_height = True\<rparr>"
  have b: "ngx_com_request_adx_slot_banner__size ?b = Some 5"
    by (simp add: ngx_com_request_adx_slot_banner__size_def demo_sizes)
  have i: "ngx_com_request_device_device_id__size (com_id \<lparr>slen = 2, sdata = p\<rparr> t) = Some 6" if "t = 1 \<or> t = 10 \<or> t = 7" for p t
    using that by (auto simp: com_id_def ngx_com_request_device_device_id__size_def demo_sizes)
  show ?thesis
    by (simp add: request_fits_def demo_com old_def size_fits_def b i ngx_com_request__size_def ngx_com_request_adx_slot__size_def
        ngx_com_request_device__size_def ngx_com_request_app__size_def ngx_com_request_adx_slot_zero_def demo_sizes)
qed

lemma demo_off_stack: "off_stack demo_env demo_frame"
  by (simp add: off_stack_def demo_env_def)


theorem to_com_defined_iff_witness:
  "adx_com_baidu_adapter_to_com demo_env demo_frame demo_pstate demo_bid \<noteq> None \<and>
    adx_com_baidu_adapter_to_com demo_env demo_frame demo_pstate (demo_bid\<lparr>br_mobile := Some (demo_mobile\<lparr>mo_os_version := None\<rparr>)\<rparr>) = None"
proof -
  have f: "frame_free demo_frame (length (old (br_adslot demo_bid))) (mem demo_pstate)"
    using demo_frame_free by (simp add: demo_members old_def)
  have g: "frame_free demo_frame (length (old (br_adslot (demo_bid\<lparr>br_mobile := Some (demo_mobile\<lparr>mo_os_version := None\<rparr>)\<rparr>)))) (mem demo_pstate)"
    using demo_frame_free by (simp add: demo_members old_def)
  show ?thesis using to_com_defined_iff [OF demo_env_serves f] to_com_defined_iff [OF demo_env_serves g] by (simp add: demo_members del: not_None_eq)
qed

theorem to_com_dangles_witness:
  "\<exists>s' com. adx_com_baidu_adapter_to_com demo_env demo_frame demo_pstate demo_bid = Some (s', com) \<and>
    adx_com_to_chain demo_env False s' com = None"
  by (rule to_com_dangles [OF demo_env_serves demo_off_stack demo_frame_free demo_members]) (use demo_fits in \<open>simp add: demo_com_def\<close>)

end
