(* ===== verification/Com_Response.thy ===== *)
theory Com_Response
  imports Com_Message
begin

text \<open>
  The messages \<^verbatim>\<open>ComResponse.AdxSlot\<close> and \<^verbatim>\<open>ComResponse\<close> of \<^verbatim>\<open>ngx_adx_com_proto.c\<close>: the records, one definition per function, what packing one writes
  and, by an interpretation of \<open>message_reader\<close>, that unpacking reads it back.
\<close>

section \<open>\<^verbatim>\<open>ComResponse.AdxSlot\<close>\<close>

record ngx_com_response_adx_slot_t =
  rs_adx_slot_id :: ngx_str_t
  rs_adx_slot_sequence_id :: "32 word"
  rs_adx_slot_type :: "32 word"
  rs_price :: "32 word"
  rs_template :: ngx_str_t
  rs_ext :: ngx_str_t
  rs_unknown :: unknowns
  rs_has_adx_slot_id :: bool
  rs_has_adx_slot_sequence_id :: bool
  rs_has_adx_slot_type :: bool
  rs_has_price :: bool
  rs_has_template :: bool
  rs_has_ext :: bool

text \<open>Cleared memory.\<close>

definition ngx_com_response_adx_slot_zero :: ngx_com_response_adx_slot_t where
  "ngx_com_response_adx_slot_zero =
    \<lparr>rs_adx_slot_id = \<lparr>slen = 0, sdata = NULL\<rparr>, rs_adx_slot_sequence_id = 0, rs_adx_slot_type = 0,
     rs_price = 0, rs_template = \<lparr>slen = 0, sdata = NULL\<rparr>,
     rs_ext = \<lparr>slen = 0, sdata = NULL\<rparr>, rs_unknown = None, rs_has_adx_slot_id = False,
     rs_has_adx_slot_sequence_id = False, rs_has_adx_slot_type = False, rs_has_price = False,
     rs_has_template = False, rs_has_ext = False\<rparr>"

text \<open>The switch of \<^verbatim>\<open>__unpack\<close>, then its loop.\<close>

definition ngx_com_response_adx_slot_case :: "'m pb_env \<Rightarrow> 32 word \<Rightarrow> 32 word \<Rightarrow> ngx_com_response_adx_slot_t \<Rightarrow> 'm ngx_protobuf_context_t \<Rightarrow> (ngx_com_response_adx_slot_t, 'm) unpacked" where
  "ngx_com_response_adx_slot_case env field wire obj ctx =
     (if field = 1 then unpack_str env wire rs_adx_slot_id (\<lambda>v obj. obj\<lparr>rs_adx_slot_id := v\<rparr>) (\<lambda>obj. obj\<lparr>rs_has_adx_slot_id := True\<rparr>) obj ctx
     else if field = 2 then unpack_num env wire rs_adx_slot_sequence_id (\<lambda>v obj. obj\<lparr>rs_adx_slot_sequence_id := v\<rparr>) (\<lambda>obj. obj\<lparr>rs_has_adx_slot_sequence_id := True\<rparr>) obj ctx
     else if field = 3 then unpack_num env wire rs_adx_slot_type (\<lambda>v obj. obj\<lparr>rs_adx_slot_type := v\<rparr>) (\<lambda>obj. obj\<lparr>rs_has_adx_slot_type := True\<rparr>) obj ctx
     else if field = 4 then unpack_num env wire rs_price (\<lambda>v obj. obj\<lparr>rs_price := v\<rparr>) (\<lambda>obj. obj\<lparr>rs_has_price := True\<rparr>) obj ctx
     else if field = 5 then unpack_str env wire rs_template (\<lambda>v obj. obj\<lparr>rs_template := v\<rparr>) (\<lambda>obj. obj\<lparr>rs_has_template := True\<rparr>) obj ctx
     else if field = 6 then unpack_str env wire rs_ext (\<lambda>v obj. obj\<lparr>rs_ext := v\<rparr>) (\<lambda>obj. obj\<lparr>rs_has_ext := True\<rparr>) obj ctx
     else unpack_unknown env field wire rs_unknown (\<lambda>v obj. obj\<lparr>rs_unknown := v\<rparr>) obj ctx)"

definition ngx_com_response_adx_slot__unpack :: "'m pb_env \<Rightarrow> ngx_com_response_adx_slot_t \<Rightarrow> 'm ngx_protobuf_context_t \<Rightarrow> (ngx_com_response_adx_slot_t, 'm) unpacked" where
  "ngx_com_response_adx_slot__unpack env obj ctx = unpack_loop (ngx_com_response_adx_slot_case env) (clast ctx) obj ctx"

definition ngx_com_response_adx_slot__size :: "ngx_com_response_adx_slot_t \<Rightarrow> nat option" where
  "ngx_com_response_adx_slot__size obj = size_message
     [Some (size_str (rs_has_adx_slot_id obj) (rs_adx_slot_id obj) 1),
      Some (size_number (rs_has_adx_slot_sequence_id obj) (rs_adx_slot_sequence_id obj) 2),
      Some (size_number (rs_has_adx_slot_type obj) (rs_adx_slot_type obj) 3),
      Some (size_number (rs_has_price obj) (rs_price obj) 4),
      Some (size_str (rs_has_template obj) (rs_template obj) 5),
      Some (size_str (rs_has_ext obj) (rs_ext obj) 6)]
     (rs_unknown obj)"

definition ngx_com_response_adx_slot__pack :: "(ngx_com_response_adx_slot_t, 'm) packer" where
  "ngx_com_response_adx_slot__pack obj ctx = pack_message (ngx_com_response_adx_slot__size obj)
     [pack_str (rs_has_adx_slot_id obj) (rs_adx_slot_id obj) 1,
      pack_num (rs_has_adx_slot_sequence_id obj) (rs_adx_slot_sequence_id obj) 2,
      pack_num (rs_has_adx_slot_type obj) (rs_adx_slot_type obj) 3,
      pack_num (rs_has_price obj) (rs_price obj) 4,
      pack_str (rs_has_template obj) (rs_template obj) 5,
      pack_str (rs_has_ext obj) (rs_ext obj) 6]
     (rs_unknown obj) ctx"

text \<open>The contents, and the strings that packing reads.\<close>

definition response_slot_content :: "memory \<Rightarrow> ngx_com_response_adx_slot_t \<Rightarrow> (32 word \<times> wval list) list option" where
  "response_slot_content m obj = content_of (rs_unknown obj)
     [(1, str_slot m (rs_has_adx_slot_id obj) (rs_adx_slot_id obj)),
      (2, num_slot (rs_has_adx_slot_sequence_id obj) (rs_adx_slot_sequence_id obj)),
      (3, num_slot (rs_has_adx_slot_type obj) (rs_adx_slot_type obj)),
      (4, num_slot (rs_has_price obj) (rs_price obj)),
      (5, str_slot m (rs_has_template obj) (rs_template obj)),
      (6, str_slot m (rs_has_ext obj) (rs_ext obj))]"

definition response_slot_strings :: "ngx_com_response_adx_slot_t \<Rightarrow> ngx_str_t list" where
  "response_slot_strings obj = str_refs (rs_has_adx_slot_id obj) (rs_adx_slot_id obj) @
     str_refs (rs_has_template obj) (rs_template obj) @
     str_refs (rs_has_ext obj) (rs_ext obj)"

lemma response_slot_packs:
  assumes "response_slot_content m0 x = Some fs" "apart R (response_slot_strings x)" "length (enc_fields fs) < 2 ^ 64"
  shows "message_packs m0 R ngx_com_response_adx_slot__size ngx_com_response_adx_slot__pack x (enc_fields fs)"
  by (rule message_packs_chain [where sz = ngx_com_response_adx_slot__size and pk = ngx_com_response_adx_slot__pack, OF ngx_com_response_adx_slot__size_def ngx_com_response_adx_slot__pack_def])
    (use assms in \<open>auto simp: response_slot_content_def response_slot_strings_def intro!: num_packs str_packs\<close>)

lemma response_slot_content_mono:
  assumes "response_slot_content m x = Some fs" "m \<subseteq>\<^sub>m m'"
  shows "response_slot_content m' x = Some fs"
  using assms str_slot_mono [OF _ assms(2)]
  by (auto simp: response_slot_content_def)

lemma response_slot_step:
  assumes "pool_serves env" "response_slot_content m x = Some fs" "(n, vs) \<in> set fs" "v \<in> set vs" "solid v"
    "response_slot_content (mem (cstate ctx)) y = Some (grouped [1, 2, 3, 4, 5, 6] ps)"
    "values_of n ps = []" "holds ctx (enc_body v)"
  shows "step_result response_slot_content [1, 2, 3, 4, 5, 6] (\<lambda>_. True) ctx (ngx_com_response_adx_slot_case env n (wire_type_of v) y ctx) ps n v"
proof -
  note y = response_slot_content_mono [OF assms(6), unfolded response_slot_content_def, simplified, simplified bind_eq_Some_conv, simplified]
  note y0 = y [OF map_le_refl]
  consider "n = 1" "str_slot m (rs_has_adx_slot_id x) (rs_adx_slot_id x) = Some vs"
    | "n = 2" "num_slot (rs_has_adx_slot_sequence_id x) (rs_adx_slot_sequence_id x) = Some vs"
    | "n = 3" "num_slot (rs_has_adx_slot_type x) (rs_adx_slot_type x) = Some vs"
    | "n = 4" "num_slot (rs_has_price x) (rs_price x) = Some vs"
    | "n = 5" "str_slot m (rs_has_template x) (rs_template x) = Some vs"
    | "n = 6" "str_slot m (rs_has_ext x) (rs_ext x) = Some vs"
    using assms(2,3) by (auto simp: response_slot_content_def)
  then show ?thesis
  proof cases
    case 1
    show ?thesis unfolding ngx_com_response_adx_slot_case_def 1(1)
      by (simp, rule str_step [OF 1(2) assms(4) assms(8) assms(5)])
        (use y0 assms(7) 1(1) in \<open>auto simp: response_slot_content_def split: option.splits\<close>)
  next
    case 2
    show ?thesis unfolding ngx_com_response_adx_slot_case_def 2(1)
      by (simp, rule num_step [OF 2(2) assms(4) assms(8)])
        (use y0 assms(7) 2(1) in \<open>auto simp: response_slot_content_def split: option.splits\<close>)
  next
    case 3
    show ?thesis unfolding ngx_com_response_adx_slot_case_def 3(1)
      by (simp, rule num_step [OF 3(2) assms(4) assms(8)])
        (use y0 assms(7) 3(1) in \<open>auto simp: response_slot_content_def split: option.splits\<close>)
  next
    case 4
    show ?thesis unfolding ngx_com_response_adx_slot_case_def 4(1)
      by (simp, rule num_step [OF 4(2) assms(4) assms(8)])
        (use y0 assms(7) 4(1) in \<open>auto simp: response_slot_content_def split: option.splits\<close>)
  next
    case 5
    show ?thesis unfolding ngx_com_response_adx_slot_case_def 5(1)
      by (simp, rule str_step [OF 5(2) assms(4) assms(8) assms(5)])
        (use y0 assms(7) 5(1) in \<open>auto simp: response_slot_content_def split: option.splits\<close>)
  next
    case 6
    show ?thesis unfolding ngx_com_response_adx_slot_case_def 6(1)
      by (simp, rule str_step [OF 6(2) assms(4) assms(8) assms(5)])
        (use y0 assms(7) 6(1) in \<open>auto simp: response_slot_content_def split: option.splits\<close>)
  qed
qed

interpretation response_slot: message_reader response_slot_content ngx_com_response_adx_slot_zero "[1, 2, 3, 4, 5, 6]" "(\<lambda>n. False)" env "ngx_com_response_adx_slot_case env" "(\<lambda>_. True)"
  for env :: "'m pb_env"
proof (unfold_locales, goal_cases)
  case 7
  then show ?case by (rule response_slot_content_mono)
next
  case 8
  show ?case by (rule response_slot_step) (use 8 in simp_all)
qed (auto simp: response_slot_content_def ngx_com_response_adx_slot_zero_def intro: single_slots)

lemma response_slot_reads:
  assumes "pool_serves env" "response_slot_content m x = Some fs" "solid_fields fs"
  shows "message_reads response_slot_content ngx_com_response_adx_slot_zero (ngx_com_response_adx_slot__unpack env) fs"
  by (rule response_slot.unpack_reads [OF assms]) (simp add: ngx_com_response_adx_slot__unpack_def)

section \<open>\<^verbatim>\<open>ComResponse\<close>\<close>

record ngx_com_response_t =
  rp_bid :: ngx_str_t
  rp_adx_slot :: "ngx_com_response_adx_slot_t list option"
  rp_unknown :: unknowns
  rp_has_bid :: bool
  rp_has_adx_slot :: bool

text \<open>Cleared memory.\<close>

definition ngx_com_response_zero :: ngx_com_response_t where
  "ngx_com_response_zero =
    \<lparr>rp_bid = \<lparr>slen = 0, sdata = NULL\<rparr>, rp_adx_slot = None, rp_unknown = None, rp_has_bid = False,
     rp_has_adx_slot = False\<rparr>"

definition ngx_com_response__add__adx_slot ::
    "'m pb_env \<Rightarrow> ngx_com_response_t \<Rightarrow> 'm pstate \<Rightarrow> bool \<Rightarrow> 'm pstate \<times> ngx_com_response_t \<times> bool" where
  "ngx_com_response__add__adx_slot env =
     add_element env 80 ngx_com_response_adx_slot_zero rp_adx_slot (\<lambda>v obj. obj\<lparr>rp_adx_slot := v\<rparr>) (\<lambda>obj. obj\<lparr>rp_has_adx_slot := True\<rparr>)"

definition ngx_com_response__unpack_adx_slot ::
    "'m pb_env \<Rightarrow> ngx_com_response_t \<Rightarrow> 'm ngx_protobuf_context_t \<Rightarrow> 64 word \<Rightarrow> (ngx_com_response_t, 'm) unpacked" where
  "ngx_com_response__unpack_adx_slot env =
     unpack_element (ngx_com_response__add__adx_slot env) (ngx_com_response_adx_slot_zero) (ngx_com_response_adx_slot__unpack env)
       rp_adx_slot (\<lambda>v obj. obj\<lparr>rp_adx_slot := v\<rparr>) (\<lambda>obj. obj\<lparr>rp_has_adx_slot := True\<rparr>)"

text \<open>The switch of \<^verbatim>\<open>__unpack\<close>, then its loop.\<close>

definition ngx_com_response_case :: "'m pb_env \<Rightarrow> 32 word \<Rightarrow> 32 word \<Rightarrow> ngx_com_response_t \<Rightarrow> 'm ngx_protobuf_context_t \<Rightarrow> (ngx_com_response_t, 'm) unpacked" where
  "ngx_com_response_case env field wire obj ctx =
     (if field = 1 then unpack_str env wire rp_bid (\<lambda>v obj. obj\<lparr>rp_bid := v\<rparr>) (\<lambda>obj. obj\<lparr>rp_has_bid := True\<rparr>) obj ctx
     else if field = 2 then unpack_sub env wire (ngx_com_response__unpack_adx_slot env) obj ctx
     else unpack_unknown env field wire rp_unknown (\<lambda>v obj. obj\<lparr>rp_unknown := v\<rparr>) obj ctx)"

definition ngx_com_response__unpack :: "'m pb_env \<Rightarrow> ngx_com_response_t \<Rightarrow> 'm ngx_protobuf_context_t \<Rightarrow> (ngx_com_response_t, 'm) unpacked" where
  "ngx_com_response__unpack env obj ctx = unpack_loop (ngx_com_response_case env) (clast ctx) obj ctx"

definition ngx_com_response__size :: "ngx_com_response_t \<Rightarrow> nat option" where
  "ngx_com_response__size obj = size_message
     [Some (size_str (rp_has_bid obj) (rp_bid obj) 1),
      size_elements ngx_com_response_adx_slot__size (rp_has_adx_slot obj) (rp_adx_slot obj) 2]
     (rp_unknown obj)"

definition ngx_com_response__pack :: "(ngx_com_response_t, 'm) packer" where
  "ngx_com_response__pack obj ctx = pack_message (ngx_com_response__size obj)
     [pack_str (rp_has_bid obj) (rp_bid obj) 1,
      pack_elements ngx_com_response_adx_slot__size ngx_com_response_adx_slot__pack (rp_has_adx_slot obj) (rp_adx_slot obj) 2]
     (rp_unknown obj) ctx"

text \<open>The contents, and the strings that packing reads.\<close>

definition response_content :: "memory \<Rightarrow> ngx_com_response_t \<Rightarrow> (32 word \<times> wval list) list option" where
  "response_content m obj = content_of (rp_unknown obj)
     [(1, str_slot m (rp_has_bid obj) (rp_bid obj)),
      (2, elements_slot (response_slot_content m) (rp_has_adx_slot obj) (rp_adx_slot obj))]"

definition response_strings :: "ngx_com_response_t \<Rightarrow> ngx_str_t list" where
  "response_strings obj = str_refs (rp_has_bid obj) (rp_bid obj) @ elements_refs response_slot_strings (rp_has_adx_slot obj) (rp_adx_slot obj)"

lemma response_packs:
  assumes "response_content m0 x = Some fs" "apart R (response_strings x)" "length (enc_fields fs) < 2 ^ 64"
  shows "message_packs m0 R ngx_com_response__size ngx_com_response__pack x (enc_fields fs)"
  by (rule message_packs_chain [where sz = ngx_com_response__size and pk = ngx_com_response__pack, OF ngx_com_response__size_def ngx_com_response__pack_def])
    (use assms in \<open>auto simp: response_content_def response_strings_def intro!: str_packs elements_packs response_slot_packs\<close>)

lemma response_content_mono:
  assumes "response_content m x = Some fs" "m \<subseteq>\<^sub>m m'"
  shows "response_content m' x = Some fs"
  using assms
    str_slot_mono [OF _ assms(2)]
    elements_slot_mono [where c = response_slot_content and m = m and m' = m', OF _ response_slot_content_mono [OF _ assms(2)]]
  by (auto simp: response_content_def)

text \<open>Reading sets the flag with the array.\<close>

definition response_tidy :: "ngx_com_response_t \<Rightarrow> bool" where
  "response_tidy obj \<longleftrightarrow> (rp_adx_slot obj \<noteq> None \<longrightarrow> rp_has_adx_slot obj)"

lemma response_step:
  assumes "pool_serves env" "response_content m x = Some fs" "(n, vs) \<in> set fs" "v \<in> set vs" "solid v"
    "response_content (mem (cstate ctx)) y = Some (grouped [1, 2] ps)" "response_tidy y"
    "n = 2 \<or> values_of n ps = []" "holds ctx (enc_body v)"
  shows "step_result response_content [1, 2] response_tidy ctx (ngx_com_response_case env n (wire_type_of v) y ctx) ps n v"
proof -
  note y = response_content_mono [OF assms(6), unfolded response_content_def, simplified, simplified bind_eq_Some_conv, simplified]
  note y0 = y [OF map_le_refl]
  consider "n = 1" "str_slot m (rp_has_bid x) (rp_bid x) = Some vs"
    | "n = 2" "elements_slot (response_slot_content m) (rp_has_adx_slot x) (rp_adx_slot x) = Some vs"
    using assms(2,3) by (auto simp: response_content_def)
  then show ?thesis
  proof cases
    case 1
    show ?thesis unfolding ngx_com_response_case_def 1(1)
      by (simp, rule str_step [OF 1(2) assms(4) assms(9) assms(5)])
        (use y0 assms(8) 1(1) assms(7) in \<open>auto simp: response_content_def response_tidy_def split: option.splits\<close>)
  next
    case 2
    show ?thesis unfolding ngx_com_response_case_def 2(1) ngx_com_response__unpack_adx_slot_def ngx_com_response__add__adx_slot_def
      by (simp, rule element_step [OF 2(2) assms(4) assms(9) assms(5,1) response_slot_reads [OF assms(1)]])
        (use y assms(8) 2(1) assms(7) in \<open>auto simp: response_content_def response_tidy_def Let_def elements_slot_snoc split: option.splits\<close>)
  qed
qed

interpretation response: message_reader response_content ngx_com_response_zero "[1, 2]" "(\<lambda>n. n = 2)" env "ngx_com_response_case env" "response_tidy"
  for env :: "'m pb_env"
proof (unfold_locales, goal_cases)
  case 7
  then show ?case by (rule response_content_mono)
next
  case 8
  show ?case by (rule response_step) (use 8 in simp_all)
qed (auto simp: response_content_def ngx_com_response_zero_def response_tidy_def intro: single_slots)

lemma response_reads:
  assumes "pool_serves env" "response_content m x = Some fs" "solid_fields fs"
  shows "message_reads response_content ngx_com_response_zero (ngx_com_response__unpack env) fs"
  by (rule response.unpack_reads [OF assms]) (simp add: ngx_com_response__unpack_def)

end
