(* ===== verification/Com_Props.thy ===== *)
theory Com_Props
  imports Com_Request Com_Response
begin

text \<open>
  The properties of the com messages as a whole: what packing writes, that unpacking reads it back, and
  what is lost on the way.
\<close>

section \<open>An example\<close>

text \<open>A request with a slot with a banner, a device with an identifier, and an app.\<close>

definition demo_request :: ngx_com_request_t where
  "demo_request = ngx_com_request_zero\<lparr>rq_adx := 8, rq_has_adx := True, rq_bid := \<lparr>slen = 2, sdata = 100\<rparr>, rq_has_bid := True,
     rq_adx_slot := Some [ngx_com_request_adx_slot_zero\<lparr>sl_adx_slot_id := \<lparr>slen = 1, sdata = 102\<rparr>, sl_has_adx_slot_id := True,
       sl_adx_slot_type := 1, sl_has_adx_slot_type := True, sl_has_banner := True,
       sl_banner := Some (ngx_com_request_adx_slot_banner_zero\<lparr>bn_width := 320, bn_has_width := True\<rparr>)\<rparr>], rq_has_adx_slot := True,
     rq_device := Some (ngx_com_request_device_zero\<lparr>dv_os := 2, dv_has_os := True, dv_has_device_id := True,
       dv_device_id := Some [ngx_com_request_device_device_id_zero\<lparr>di_type := 1, di_has_type := True\<rparr>]\<rparr>), rq_has_device := True,
     rq_app := Some (ngx_com_request_app_zero\<lparr>ap_app_id := \<lparr>slen = 1, sdata = 103\<rparr>, ap_has_app_id := True\<rparr>), rq_has_app := True\<rparr>"

definition demo_contents :: "(32 word \<times> wval list) list" where
  "demo_contents = [(1, [WNum 8]), (2, [WStr [100, 101]]),
     (3, [WMsg [(1, [WStr [102]]), (2, []), (3, [WNum 1]), (4, [WMsg [(1, [WNum 320]), (2, [])]]), (5, []), (6, []), (7, [])]]),
     (4, [WMsg [(1, [WMsg [(1, []), (2, [WNum 1])]]), (2, []), (3, [WNum 2]), (4, []), (5, []), (6, []), (7, []), (8, []), (9, []), (10, [])]]),
     (5, [WMsg [(1, [WStr [103]]), (2, [])]])]"

definition demo_bytes_request :: "byte list" where
  "demo_bytes_request = [8, 8, 18, 2, 100, 101, 26, 10, 10, 1, 102, 24, 1, 34, 3, 8, 192, 2, 34, 6, 10, 2, 16, 1, 24, 2, 42, 3, 10, 1, 103]"

definition demo_context :: "unit ngx_protobuf_context_t" where
  "demo_context = \<lparr>cstate = \<lparr>mem = (\<lambda>a. if a < 128 then Some (ucast a) else None), heap = ()\<rparr>, cpos = 16, clast = 64,
     reuse_strings = True, has_pool = True\<rparr>"

lemmas demo_zero = ngx_com_request_zero_def ngx_com_request_adx_slot_zero_def ngx_com_request_adx_slot_banner_zero_def
  ngx_com_request_device_zero_def ngx_com_request_device_device_id_zero_def ngx_com_request_app_zero_def

lemma demo_content: "request_content (mem (cstate demo_context)) demo_request = Some demo_contents"
  by (simp add: demo_request_def demo_contents_def demo_context_def request_content_def adx_slot_content_def banner_content_def
      device_content_def device_id_content_def app_content_def demo_zero num_slot_def str_slot_def member_slot_def elements_slot_def
      str_bytes_def content_of_def load_numeral)

lemma demo_encoding: "enc_fields demo_contents = demo_bytes_request"
  by (simp add: demo_contents_def demo_bytes_request_def header_def NGX_PROTOBUF_HEADER_def enc_delimited_def enc_string_def varint.simps)

lemma demo_room:
  "unat (cpos demo_context) + length (enc_fields demo_contents) \<le> unat (clast demo_context)"
  "region (cpos demo_context) (length (enc_fields demo_contents)) \<subseteq> dom (mem (cstate demo_context))"
  "apart (region (cpos demo_context) (length (enc_fields demo_contents))) (request_strings demo_request)"
proof -
  have l: "length (enc_fields demo_contents) = 31" by (simp add: demo_encoding demo_bytes_request_def)
  then show "unat (cpos demo_context) + length (enc_fields demo_contents) \<le> unat (clast demo_context)" by (simp add: demo_context_def)
  show "region (cpos demo_context) (length (enc_fields demo_contents)) \<subseteq> dom (mem (cstate demo_context))"
    using region_bounds [of _ 16 31] by (fastforce simp: l demo_context_def word_less_nat_alt dom_def)
  have "outside (region 16 31) \<lparr>slen = n, sdata = p\<rparr>" if "47 \<le> unat p" "unat p + unat n \<le> 2 ^ 64" for n p
    using regions_apart [of 16 31 p "unat n"] that by (simp add: outside_def Int_commute)
  then show "apart (region (cpos demo_context) (length (enc_fields demo_contents))) (request_strings demo_request)"
    by (simp add: l demo_context_def demo_request_def request_strings_def adx_slot_strings_def banner_strings_def device_strings_def
        device_id_strings_def app_strings_def demo_zero)
qed

section \<open>Packing\<close>

text \<open>
  C11. Packing a request into a buffer with room for \<open>ngx_com_request__size\<close> bytes that lies apart from the
  strings of the request succeeds, writes exactly the encoding of the contents of the request, which
  has exactly that many bytes, moves the position behind it and changes no other byte.
\<close>

theorem request_pack_writes:
  assumes "request_content (mem (cstate ctx)) x = Some fs" "n = length (enc_fields fs)"
    "region (cpos ctx) n \<subseteq> dom (mem (cstate ctx))" "unat (cpos ctx) + n \<le> unat (clast ctx)"
    "apart (region (cpos ctx) n) (request_strings x)"
  shows "ngx_com_request__size x = Some n \<and>
    (\<exists>m'. ngx_com_request__pack x ctx = Some (ctx\<lparr>cstate := (cstate ctx)\<lparr>mem := m'\<rparr>, cpos := cpos ctx + of_nat n\<rparr>, NGX_OK) \<and>
      load m' (cpos ctx) n = Some (enc_fields fs) \<and> (\<forall>q. q \<notin> region (cpos ctx) n \<longrightarrow> m' q = mem (cstate ctx) q))"
  by (rule message_writes [OF request_packs [OF assms(1,5)] assms(2-4)])

theorem request_pack_writes_witness:
  "ngx_com_request__size demo_request = Some 31 \<and>
    (\<exists>ctx'. ngx_com_request__pack demo_request demo_context = Some (ctx', NGX_OK) \<and> load (mem (cstate ctx')) 16 31 = Some demo_bytes_request)"
proof -
  have "length (enc_fields demo_contents) = 31" "cpos demo_context = 16" by (simp_all add: demo_encoding demo_bytes_request_def demo_context_def)
  then show ?thesis using request_pack_writes [OF demo_content refl demo_room(2,1,3)] by (auto simp: demo_encoding)
qed

section \<open>Round trips\<close>

text \<open>
  C2. A request that was packed is read back: \<open>ngx_com_request__unpack\<close>, started on a cleared message and on
  the bytes that \<open>ngx_com_request__pack\<close> wrote, returns \<open>NGX_OK\<close> at the end of these bytes, and the message
  it made has the same contents, if no sub-message is empty and lengths fit their prefix of 32 bits.
\<close>

theorem request_round_trip:
  assumes "request_content (mem (cstate ctx)) x = Some fs" "n = length (enc_fields fs)"
    "region (cpos ctx) n \<subseteq> dom (mem (cstate ctx))" "unat (cpos ctx) + n \<le> unat (clast ctx)"
    "apart (region (cpos ctx) n) (request_strings x)" "solid_fields fs" "pool_serves env" "reuse_strings ctx" "has_pool ctx"
  shows "\<exists>ctx' y s. ngx_com_request__pack x ctx = Some (ctx', NGX_OK) \<and>
    ngx_com_request__unpack env ngx_com_request_zero (ctx'\<lparr>cpos := cpos ctx, clast := cpos ctx'\<rparr>) =
      Some (y, ctx'\<lparr>cstate := s, clast := cpos ctx'\<rparr>, NGX_OK) \<and>
    request_content (mem s) y = Some fs"
  using message_round_trip [OF request_packs [OF assms(1,5)] assms(2-4) request_reads [OF assms(7,1,6)] assms(8,9)] .

lemma demo_solid: "solid_fields demo_contents"
  by (simp add: solid_fields_def demo_contents_def enc_delimited_def enc_string_def header_def varint.simps NGX_PROTOBUF_HEADER_def)

theorem request_round_trip_witness:
  "\<exists>ctx' y s. ngx_com_request__pack demo_request demo_context = Some (ctx', NGX_OK) \<and>
    ngx_com_request__unpack demo_env ngx_com_request_zero (ctx'\<lparr>cpos := 16, clast := cpos ctx'\<rparr>) =
      Some (y, ctx'\<lparr>cstate := s, clast := cpos ctx'\<rparr>, NGX_OK) \<and>
    request_content (mem s) y = Some demo_contents"
proof -
  have "pool_serves demo_env" "reuse_strings demo_context" "has_pool demo_context" "cpos demo_context = 16"
    by (simp_all add: pool_serves_def demo_env_def demo_context_def)
  then show ?thesis using request_round_trip [OF demo_content refl demo_room(2,1,3) demo_solid, of demo_env] by auto
qed

text \<open>
  C21. A response that was packed is read back by \<open>ngx_com_response__unpack\<close> with the same contents, and packing
  it wrote \<open>ngx_com_response__size\<close> bytes, if no slot is empty (an empty \<open>adx_slot\<close> is lost on reading) and lengths
  fit their prefix of 32 bits; strings lie outside of the buffer and are left where they are, and the pool
  serves.
\<close>

theorem response_round_trip:
  assumes "response_content (mem (cstate ctx)) x = Some fs" "n = length (enc_fields fs)"
    "region (cpos ctx) n \<subseteq> dom (mem (cstate ctx))" "unat (cpos ctx) + n \<le> unat (clast ctx)"
    "apart (region (cpos ctx) n) (response_strings x)" "solid_fields fs" "pool_serves env" "reuse_strings ctx" "has_pool ctx"
  shows "ngx_com_response__size x = Some n \<and>
    (\<exists>ctx' y s. ngx_com_response__pack x ctx = Some (ctx', NGX_OK) \<and> cpos ctx' = cpos ctx + of_nat n \<and>
      ngx_com_response__unpack env ngx_com_response_zero (ctx'\<lparr>cpos := cpos ctx, clast := cpos ctx'\<rparr>) =
        Some (y, ctx'\<lparr>cstate := s, clast := cpos ctx'\<rparr>, NGX_OK) \<and>
      response_content (mem s) y = Some fs)"
  using message_writes [OF response_packs [OF assms(1,5)] assms(2-4)]
    message_round_trip [OF response_packs [OF assms(1,5)] assms(2-4) response_reads [OF assms(7,1,6)] assms(8,9)]
  by auto

definition demo_response :: ngx_com_response_t where
  "demo_response = ngx_com_response_zero\<lparr>rp_bid := \<lparr>slen = 2, sdata = 100\<rparr>, rp_has_bid := True,
     rp_adx_slot := Some [ngx_com_response_adx_slot_zero\<lparr>rs_price := 150, rs_has_price := True\<rparr>], rp_has_adx_slot := True\<rparr>"

definition demo_response_contents :: "(32 word \<times> wval list) list" where
  "demo_response_contents = [(1, [WStr [100, 101]]), (2, [WMsg [(1, []), (2, []), (3, []), (4, [WNum 150]), (5, []), (6, [])]])]"

lemma demo_response_content: "response_content (mem (cstate demo_context)) demo_response = Some demo_response_contents"
  by (simp add: demo_response_def demo_response_contents_def demo_context_def response_content_def response_slot_content_def
      ngx_com_response_zero_def ngx_com_response_adx_slot_zero_def num_slot_def str_slot_def elements_slot_def
      str_bytes_def content_of_def load_numeral)

lemma demo_response_encoding: "enc_fields demo_response_contents = [10, 2, 100, 101, 18, 3, 32, 150, 1]"
  by (simp add: demo_response_contents_def header_def NGX_PROTOBUF_HEADER_def enc_delimited_def enc_string_def varint.simps)

theorem response_round_trip_witness:
  "ngx_com_response__size demo_response = Some 9 \<and>
    (\<exists>ctx' y s. ngx_com_response__pack demo_response demo_context = Some (ctx', NGX_OK) \<and> cpos ctx' = 25 \<and>
      ngx_com_response__unpack demo_env ngx_com_response_zero (ctx'\<lparr>cpos := 16, clast := cpos ctx'\<rparr>) =
        Some (y, ctx'\<lparr>cstate := s, clast := cpos ctx'\<rparr>, NGX_OK) \<and>
      response_content (mem s) y = Some demo_response_contents)"
proof -
  have env: "pool_serves demo_env" "reuse_strings demo_context" "has_pool demo_context" "cpos demo_context = 16"
    by (simp_all add: pool_serves_def demo_env_def demo_context_def)
  have n: "9 = length (enc_fields demo_response_contents)" by (simp add: demo_response_encoding)
  have r: "region (cpos demo_context) 9 \<subseteq> dom (mem (cstate demo_context))" "unat (cpos demo_context) + 9 \<le> unat (clast demo_context)"
    using region_bounds [of _ 16 9] by (fastforce simp: demo_context_def word_less_nat_alt dom_def)+
  have "region 16 9 \<inter> region 100 2 = {}" using regions_apart [of 16 9 100 2] by simp
  then have a: "apart (region (cpos demo_context) 9) (response_strings demo_response)"
    by (simp add: demo_context_def demo_response_def response_strings_def response_slot_strings_def ngx_com_response_zero_def
        ngx_com_response_adx_slot_zero_def outside_def Int_commute)
  have s: "solid_fields demo_response_contents"
    by (simp add: solid_fields_def demo_response_contents_def header_def varint.simps NGX_PROTOBUF_HEADER_def)
  show ?thesis using response_round_trip [OF demo_response_content n r a s env(1-3)] env(4) by auto
qed

section \<open>What is lost\<close>

text \<open>
  An empty sub-message does not survive: a request whose only part is an app without members, as
  \<open>adx_com_init\<close> makes one, is packed into the two bytes \<^verbatim>\<open>2A 00\<close>, which \<open>ngx_com_request__unpack\<close> accepts,
  but the message it returns has no app, because \<open>ngx_com_request__unpack_app\<close> returns at once when the
  length is 0.
\<close>

theorem request_loses_empty_app:
  assumes "load (mem (cstate ctx)) (cpos ctx) 2 = Some [0x2A, 0]" "unat (cpos ctx) + 2 = unat (clast ctx)"
  shows "ngx_com_request__size (ngx_com_request_zero\<lparr>rq_app := Some ngx_com_request_app_zero, rq_has_app := True\<rparr>) = Some 2 \<and>
    ngx_com_request__pack (ngx_com_request_zero\<lparr>rq_app := Some ngx_com_request_app_zero, rq_has_app := True\<rparr>) ctx =
      map_option (\<lambda>ctx. (ctx, NGX_OK)) (ngx_writes ctx [0x2A, 0]) \<and>
    ngx_com_request__unpack env ngx_com_request_zero ctx = Some (ngx_com_request_zero, ctx\<lparr>cpos := clast ctx\<rparr>, NGX_OK)"
proof (intro conjI)
  let ?x = "ngx_com_request_zero\<lparr>rq_app := Some ngx_com_request_app_zero, rq_has_app := True\<rparr>"
  let ?fs = "[(1, []), (2, []), (3, []), (4, []), (5, [WMsg [(1, []), (2, [])]])] :: (32 word \<times> wval list) list"
  have e: "enc_fields ?fs = [0x2A, 0]" by (simp add: enc_delimited_def enc_string_def header_def NGX_PROTOBUF_HEADER_def varint.simps)
  have c: "request_content (mem (cstate ctx)) ?x = Some ?fs"
    by (simp add: request_content_def app_content_def demo_zero num_slot_def str_slot_def member_slot_def content_of_def)
  have a: "apart (region (cpos ctx) 2) (request_strings ?x)" by (simp add: request_strings_def app_strings_def demo_zero)
  have p: "message_packs (mem (cstate ctx)) (region (cpos ctx) 2) ngx_com_request__size ngx_com_request__pack ?x [0x2A, 0]"
    using request_packs [OF c a, unfolded e] by simp
  then have "ngx_com_request__size ?x = Some (length [0x2A :: byte, 0])" unfolding message_packs_def by (rule conjunct1)
  then show "ngx_com_request__size ?x = Some 2" by (simp only: list.size) simp
  have "frame_ok (mem (cstate ctx)) (region (cpos ctx) 2) ctx" "room (region (cpos ctx) 2) ctx 2"
    using assms(2) by (simp_all add: frame_ok_def room_def)
  then show "ngx_com_request__pack ?x ctx = map_option (\<lambda>ctx. (ctx, NGX_OK)) (ngx_writes ctx [0x2A, 0])"
    using p unfolding message_packs_def by (auto simp: numeral_2_eq_2)
  have v: "varint (0x2A :: 32 word) = [0x2A]" "varint (0 :: 32 word) = [0]" by (simp_all add: varint.simps)
  have l: "load (mem (cstate ctx)) (cpos ctx) 1 = Some [0x2A]" "load (mem (cstate ctx)) (cpos ctx + 1) 1 = Some [0]"
    using assms(1) by (auto simp: load_numeral)
  have u: "unat (cpos ctx + 1) = unat (cpos ctx) + 1" using unat_plus [of "cpos ctx" 1 "clast ctx"] assms(2) by simp
  have c2: "2 + cpos ctx = clast ctx"
    using unat_plus [of "cpos ctx" 2 "clast ctx"] assms(2) by (simp add: word_unat_eq_iff add.commute)
  have r: "ngx_protobuf_read_uint32 (mem (cstate ctx)) (cpos ctx) (clast ctx) 0 = Some (cpos ctx + 1, 0x2A, NGX_OK)"
    "ngx_protobuf_read_uint32 (mem (cstate ctx)) (cpos ctx + 1) (clast ctx) 0 = Some (clast ctx, 0, NGX_OK)"
    using read_uint32_varint [of "mem (cstate ctx)" "cpos ctx" "0x2A" "clast ctx" 0]
      read_uint32_varint [of "mem (cstate ctx)" "cpos ctx + 1" 0 "clast ctx" 0] l u assms(2)
    by (simp_all add: v c2)
  show "ngx_com_request__unpack env ngx_com_request_zero ctx = Some (ngx_com_request_zero, ctx\<lparr>cpos := clast ctx\<rparr>, NGX_OK)"
    using assms(2) u r
    by (simp add: ngx_com_request__unpack_def unpack_loop.simps ngx_com_request_case_def unpack_sub_def ngx_com_request__unpack_app_def
        unpack_member_def word_less_nat_alt word_le_nat_alt)
qed

theorem request_loses_empty_app_witness:
  "\<exists>ctx :: unit ngx_protobuf_context_t. load (mem (cstate ctx)) (cpos ctx) 2 = Some [0x2A, 0] \<and>
    ngx_com_request__unpack demo_env ngx_com_request_zero ctx = Some (ngx_com_request_zero, ctx\<lparr>cpos := clast ctx\<rparr>, NGX_OK)"
proof -
  define ctx where "ctx = demo_context\<lparr>cstate := \<lparr>mem = (\<lambda>a. if a = 16 then Some 0x2A else Some 0), heap = ()\<rparr>, clast := 18\<rparr>"
  have "load (mem (cstate ctx)) (cpos ctx) 2 = Some [0x2A, 0]" "unat (cpos ctx) + 2 = unat (clast ctx)"
    by (simp_all add: ctx_def demo_context_def load_numeral)
  then show ?thesis using request_loses_empty_app [of ctx demo_env] by blast
qed

end
