(* ===== verification/Com_Send.thy ===== *)
theory Com_Send
  imports Com_Adapter_Props Com_Props
begin

text \<open>
  Sending and receiving over buffer chains: \<^verbatim>\<open>adx_com_to_chain\<close> turns a request whose strings are in memory
  into a chain with its encoding, and \<^verbatim>\<open>adx_com_baidu_adapter_init\<close> reads a bid request from a chain.
\<close>

section \<open>Strings in memory\<close>

definition mapped :: "memory \<Rightarrow> ngx_str_t list \<Rightarrow> bool" where
  "mapped m ss \<longleftrightarrow> (\<forall>s \<in> set ss. \<exists>bs. str_bytes m s = Some bs)"

lemma mapped_simps [simp]: "mapped m []" "mapped m (xs @ ys) \<longleftrightarrow> mapped m xs \<and> mapped m ys"
  by (auto simp: mapped_def)

lemma str_refs_mapped: "str_slot m has s = Some vs \<Longrightarrow> mapped m (str_refs has s)"
  by (auto simp: mapped_def str_refs_def str_slot_def split: if_splits)

lemma member_refs_mapped:
  assumes "member_slot (c m) has p = Some vs" "\<And>x fs. c m x = Some fs \<Longrightarrow> mapped m (f x)"
  shows "mapped m (member_refs f has p)"
  using assms by (auto simp: member_refs_def member_slot_def split: option.splits if_splits)

lemma elements_refs_mapped:
  assumes "elements_slot (c m) has a = Some vs" "\<And>x fs. c m x = Some fs \<Longrightarrow> mapped m (f x)"
  shows "mapped m (elements_refs f has a)"
proof -
  have "mapped m (concat (map f xs))" if "those (map (\<lambda>x. map_option WMsg (c m x)) xs) = Some ws" for xs ws
    using that assms(2) by (induction xs arbitrary: ws) (auto split: option.splits)
  then show ?thesis using assms(1) by (auto simp: elements_refs_def elements_slot_def split: option.splits if_splits)
qed

lemma adx_slot_strings_mapped: "adx_slot_content m x = Some fs \<Longrightarrow> mapped m (adx_slot_strings x)"
  by (auto simp: adx_slot_content_def adx_slot_strings_def banner_strings_def native_strings_def video_strings_def
      member_refs_def intro: str_refs_mapped split: option.splits)

lemma device_id_strings_mapped: "device_id_content m x = Some fs \<Longrightarrow> mapped m (device_id_strings x)"
  by (auto simp: device_id_content_def device_id_strings_def intro: str_refs_mapped)

lemma device_strings_mapped: "device_content m x = Some fs \<Longrightarrow> mapped m (device_strings x)"
  by (auto simp: device_content_def device_strings_def intro: str_refs_mapped elements_refs_mapped [OF _ device_id_strings_mapped])

lemma app_strings_mapped: "app_content m x = Some fs \<Longrightarrow> mapped m (app_strings x)"
  by (auto simp: app_content_def app_strings_def intro: str_refs_mapped)

lemma request_strings_mapped: "request_content m x = Some fs \<Longrightarrow> mapped m (request_strings x)"
  by (auto simp: request_content_def request_strings_def intro: str_refs_mapped elements_refs_mapped [OF _ adx_slot_strings_mapped]
      member_refs_mapped [OF _ device_strings_mapped] member_refs_mapped [OF _ app_strings_mapped])

text \<open>Such strings lie apart from a fresh block.\<close>

lemma load_region: "load m p n = Some bs \<Longrightarrow> region p n \<subseteq> dom m"
  by (induction n arbitrary: p bs) (auto simp: region_Suc)

lemma mapped_apart: "mapped m ss \<Longrightarrow> R \<inter> dom m = {} \<Longrightarrow> apart R ss"
  using load_region by (fastforce simp: mapped_def apart_def outside_def str_bytes_def)

section \<open>Sending\<close>

lemma request_size:
  assumes "request_content m x = Some fs" "length (enc_fields fs) < 2 ^ 64"
  shows "ngx_com_request__size x = Some (length (enc_fields fs))"
proof -
  have "apart {} (request_strings x)" by (simp add: apart_def outside_def)
  from request_packs [OF assms(1) this assms(2)] show ?thesis unfolding message_packs_def by blast
qed

text \<open>Packing into a fresh block.\<close>

lemma load_eq_at: "load m p n = Some bs \<Longrightarrow> load m' p n = Some bs \<Longrightarrow> q \<in> region p n \<Longrightarrow> m q = m' q"
  by (induction n arbitrary: p bs) (auto simp: region_Suc bind_eq_Some_conv)

lemma store_unique:
  assumes "region p (length bs) \<subseteq> dom m" "load m' p (length bs) = Some bs" "length bs < 2 ^ 64"
    "\<forall>q. q \<notin> region p (length bs) \<longrightarrow> m' q = m q"
  shows "store m p bs = Some m'"
proof -
  obtain m1 where m1: "store m p bs = Some m1" using store_total [OF assms(1)] by blast
  have "m1 q = m' q" for q
  proof (cases "q \<in> region p (length bs)")
    case True
    then show ?thesis using load_eq_at [of m1 p _ bs m'] load_store [OF m1 assms(3)] assms(2) by blast
  next
    case False
    then show ?thesis using store_frame [OF m1] assms(4) by simp
  qed
  then show ?thesis using m1 by (simp add: fun_eq_iff)
qed

lemma pack_fresh:
  assumes "pool_fresh env" "request_content (mem s) x = Some fs" "n = length (enc_fields fs)" "n < 2 ^ 31" "e_palloc env s n = (s1, d)" "d \<noteq> NULL"
  shows "\<exists>m'. ngx_com_request__pack x \<lparr>cstate = s1, cpos = d, clast = d + of_nat n, reuse_strings = reuse, has_pool = True\<rparr> =
      Some (\<lparr>cstate = s1\<lparr>mem := m'\<rparr>, cpos = d + of_nat n, clast = d + of_nat n, reuse_strings = reuse, has_pool = True\<rparr>, NGX_OK) \<and>
    load m' d n = Some (enc_fields fs) \<and> mem s \<subseteq>\<^sub>m m' \<and> dom m' \<subseteq> dom (mem s1) \<and> store (mem s1) d (enc_fields fs) = Some m'"
proof -
  have f: "fresh_block s n s1 d" by (rule pool_freshD [OF assms(1,5)])
  then have m1: "mem s \<subseteq>\<^sub>m mem s1" by (simp add: fresh_block_def)
  let ?ctx = "\<lparr>cstate = s1, cpos = d, clast = d + of_nat n, reuse_strings = reuse, has_pool = True\<rparr>"
  have r: "region d n \<subseteq> dom (mem s1)" "region d n \<inter> dom (mem s) = {}" "unat d + n < 2 ^ 64" using f assms(6) by (simp_all add: fresh_block_def)
  have "unat (of_nat n :: 64 word) = n" using assms(4) by (simp add: unat_of_nat take_bit_nat_eq_self)
  then have room: "unat (cpos ?ctx) + n \<le> unat (clast ?ctx)" using r(3) by (simp add: unat_plus_if')
  have a: "apart (region (cpos ?ctx) n) (request_strings x)" using mapped_apart [OF request_strings_mapped [OF assms(2)] r(2)] by simp
  have dom: "region (cpos ?ctx) n \<subseteq> dom (mem (cstate ?ctx))" using r(1) by simp
  have c: "request_content (mem (cstate ?ctx)) x = Some fs" using request_content_mono [OF assms(2) m1] by simp
  obtain m' where m': "ngx_com_request__pack x ?ctx = Some (?ctx\<lparr>cstate := s1\<lparr>mem := m'\<rparr>, cpos := d + of_nat n\<rparr>, NGX_OK)"
      "load m' d n = Some (enc_fields fs)" "\<forall>q. q \<notin> region d n \<longrightarrow> m' q = mem s1 q"
    using message_writes [OF request_packs [OF c a] assms(3) dom room] by auto
  have "mem s \<subseteq>\<^sub>m m'"
  proof (unfold map_le_def, intro ballI)
    fix q assume q: "q \<in> dom (mem s)"
    then have "q \<notin> region d n" using r(2) by blast
    then show "mem s q = m' q" using q m'(3) m1 by (simp add: map_le_def)
  qed
  moreover have "dom m' \<subseteq> dom (mem s1)"
  proof
    fix q assume "q \<in> dom m'"
    then show "q \<in> dom (mem s1)" using m'(3) r(1) by (cases "q \<in> region d n") auto
  qed
  moreover have "store (mem s1) d (enc_fields fs) = Some m'"
    by (rule store_unique) (use r(1) m'(2,3) assms(3,4) in simp_all)
  ultimately show ?thesis using m'(1,2) by (intro exI [of _ m']) simp
qed

text \<open>
  The allocations of one call: the buffer for the encoding in the state of the call, and, with the encoding
  written to it, the three allocations of the chain.
\<close>

definition sending_fails :: "'m pb_env \<Rightarrow> 'm pstate \<Rightarrow> byte list \<Rightarrow> bool" where
  "sending_fails env s bs =
     (let (s1, d) = e_palloc env s (length bs) in
       if d = NULL then True
       else case store (mem s1) d bs of None \<Rightarrow> False | Some m \<Rightarrow> copy_fails env (s1\<lparr>mem := m\<rparr>) (length bs))"

lemma to_chain_encodes:
  assumes "pool_fresh env" "request_content (mem s) x = Some fs" "length (enc_fields fs) < 2 ^ 31"
  shows "\<exists>s' c. adx_com_to_chain env reuse s x = Some (s', c) \<and> mem s \<subseteq>\<^sub>m mem s' \<and>
    (if enc_fields fs = [] \<or> sending_fails env s (enc_fields fs) then c = []
     else \<exists>p. c = [(p, p + of_nat (length (enc_fields fs)))] \<and> chain_bytes (mem s') c = Some (enc_fields fs))"
proof -
  let ?n = "length (enc_fields fs)" and ?w = "of_nat (length (enc_fields fs)) :: 64 word"
  have n: "?n < 2 ^ 64" and w: "unat ?w = ?n" using assms(3) by (simp_all add: unat_of_nat take_bit_nat_eq_self)
  obtain s1 d where e: "e_palloc env s ?n = (s1, d)" by fastforce
  note size = request_size [OF assms(2) n] and len = sext_of_nat [OF assms(3)]
  show ?thesis
  proof (cases "d = NULL")
    case True
    then have m: "mem s \<subseteq>\<^sub>m mem s1" "sending_fails env s (enc_fields fs)"
      using pool_freshD [OF assms(1) e] e by (simp_all add: fresh_block_def sending_fails_def)
    then show ?thesis using True by (simp add: adx_com_to_chain_def size len w e Let_def)
  next
    case False
    obtain m' where m': "ngx_com_request__pack x \<lparr>cstate = s1, cpos = d, clast = d + ?w, reuse_strings = reuse, has_pool = True\<rparr> =
        Some (\<lparr>cstate = s1\<lparr>mem := m'\<rparr>, cpos = d + ?w, clast = d + ?w, reuse_strings = reuse, has_pool = True\<rparr>, NGX_OK)"
      "load (mem (s1\<lparr>mem := m'\<rparr>)) d ?n = Some (enc_fields fs)" "mem s \<subseteq>\<^sub>m m'" "store (mem s1) d (enc_fields fs) = Some m'"
      using pack_fresh [OF assms(1,2) refl assms(3) e False, of reuse] by auto
    from chain_alloc_bytes [OF assms(1) m'(2) n False] obtain s' c where c: "chain_alloc env (s1\<lparr>mem := m'\<rparr>) d ?w = Some (s', c)"
      "mem (s1\<lparr>mem := m'\<rparr>) \<subseteq>\<^sub>m mem s'" "if enc_fields fs = [] \<or> copy_fails env (s1\<lparr>mem := m'\<rparr>) ?n then c = []
       else \<exists>p. c = [(p, p + ?w)] \<and> chain_bytes (mem s') c = Some (enc_fields fs)" by blast
    have "adx_com_to_chain env reuse s x = Some (s', c)"
      using False c(1) m'(1) by (simp add: adx_com_to_chain_def size len w e Let_def)
    moreover have "m' \<subseteq>\<^sub>m mem s'" using c(2) by simp
    moreover have "sending_fails env s (enc_fields fs) = copy_fails env (s1\<lparr>mem := m'\<rparr>) ?n"
      using False m'(4) e by (simp add: sending_fails_def)
    ultimately show ?thesis using c(3) map_le_trans [OF m'(3)] by auto
  qed
qed

section \<open>Receiving\<close>

text \<open>The blocks that hold the copy of the body and the message are there, and the first one is fresh.\<close>

lemma init_reads:
  assumes "pool_serves env" "chain_bytes (mem s) src = Some (enc_fields fs)" "length (enc_fields fs) < 2 ^ 31"
    "fresh_block s (length (enc_fields fs) + 1) (fst (e_palloc env s (length (enc_fields fs) + 1))) (snd (e_palloc env s (length (enc_fields fs) + 1)))"
    "bid_request_content m x = Some fs" "solid_fields fs" "enc_fields fs \<noteq> []"
  shows "\<exists>s' bid. adx_com_baidu_adapter_init env s src = Some (s', bid) \<and> bid_request_content (mem s') bid = Some fs \<and> mem s \<subseteq>\<^sub>m mem s'"
proof -
  let ?bs = "enc_fields fs"
  obtain s1 v where v: "chain_to_str env s src = Some (s1, v)" "mem s \<subseteq>\<^sub>m mem s1"
    "if sdata v = NULL then slen v = 0 \<and> (?bs = [] \<or> (\<exists>t. pcalloc env s (length ?bs + 1) = Some (t, NULL)))
     else str_bytes (mem s1) v = Some ?bs \<and> mem s1 (sdata v + slen v) = Some 0 \<and> unat (sdata v) + length ?bs < 2 ^ 64"
    using chain_to_str_bytes [OF assms(4,2,3)] by blast
  obtain s0 d where e: "e_palloc env s (length ?bs + 1) = (s0, d)" by fastforce
  have "d \<noteq> NULL" by (rule pool_servesD(1) [OF assms(1) e])
  then have nn: "sdata v \<noteq> NULL" using v(3) assms(7) e by (auto simp: pcalloc_def bind_eq_Some_conv split: if_splits)
  then have str: "load (mem s1) (sdata v) (unat (slen v)) = Some ?bs" "unat (sdata v) + length ?bs < 2 ^ 64"
    using v(3) by (simp_all add: str_bytes_def)
  have n: "unat (slen v) = length ?bs" using load_length [OF str(1)] by simp
  obtain s2 where s2: "new_object env 288 s1 = Some s2" "mem s1 \<subseteq>\<^sub>m mem s2"
    using new_object_serves [OF assms(1), of "mem s1" s1 288] by auto
  let ?ctx = "\<lparr>cstate = s2, cpos = sdata v, clast = sdata v + slen v, reuse_strings = True, has_pool = True\<rparr>"
  have u: "unat (sdata v + slen v) = unat (sdata v) + length ?bs" using str(2) n by (simp add: unat_plus_if')
  have "holds ?ctx ?bs" using load_mono [OF s2(2) str(1)] n u by (simp add: holds_def)
  then obtain bid s3 where r: "ngx_bid_request__unpack env ngx_bid_request_zero ?ctx = Some (bid, ?ctx\<lparr>cstate := s3, cpos := clast ?ctx\<rparr>, NGX_OK)"
    "mem s2 \<subseteq>\<^sub>m mem s3" "bid_request_content (mem s3) bid = Some fs"
    using bid_request_reads [OF assms(1,5,6), unfolded message_reads_def, rule_format, of ?ctx] u by auto
  have "adx_com_baidu_adapter_init env s src = Some (s3, bid)" using v(1) s2(1) r(1) by (simp add: adx_com_baidu_adapter_init_def)
  then show ?thesis using r(2,3) s2(2) v(2) by (blast intro: map_le_trans)
qed

section \<open>The properties\<close>

text \<open>
  C3. Sending a request: if its strings are in memory, its encoding is shorter than 2 to the power of 31
  and the pool returns fresh memory or the null pointer, \<open>adx_com_to_chain\<close> is defined and changes no memory
  that was in use.  When the request has nothing to encode, or one of the four allocations that this very
  call makes (the buffer of the encoding, and then the link, the buffer and the bytes of the chain, each in the state
  the call has reached) returns the null pointer, the result is the null chain; in every other case it is a
  chain of one buffer with exactly the encoding of the contents of the request.
\<close>

theorem com_to_chain_encodes:
  assumes "pool_fresh env" "request_content (mem s) x = Some fs" "length (enc_fields fs) < 2 ^ 31"
  shows "\<exists>s' c. adx_com_to_chain env reuse s x = Some (s', c) \<and> mem s \<subseteq>\<^sub>m mem s' \<and>
    (if enc_fields fs = [] \<or> sending_fails env s (enc_fields fs) then c = []
     else \<exists>p. c = [(p, p + of_nat (length (enc_fields fs)))] \<and> chain_bytes (mem s') c = Some (enc_fields fs))"
  by (rule to_chain_encodes [OF assms])

text \<open>
  C18. Receiving a bid request: if the bytes of the body, whatever buffers they are spread over, are the
  encoding of the contents of some bid request, then \<open>adx_com_baidu_adapter_init\<close> copies them, decodes the
  message with all its nested messages and arrays, and returns a bid request with these contents; the memory
  in use stays as it is.  The bid request must have no floating-point and no fixed-size member (the code does not
  read those) and no empty sub-message (the code drops it), its lengths fit their prefix of 32 bits, the body
  is not empty and shorter than 2 to the power of 31, and all allocations succeed, the one of the copy with a
  block that was not in use.
\<close>

theorem adapter_init_reads:
  assumes "pool_serves env" "chain_bytes (mem s) src = Some (enc_fields fs)" "length (enc_fields fs) < 2 ^ 31"
    "fresh_block s (length (enc_fields fs) + 1) (fst (e_palloc env s (length (enc_fields fs) + 1))) (snd (e_palloc env s (length (enc_fields fs) + 1)))"
    "bid_request_content m x = Some fs" "solid_fields fs" "enc_fields fs \<noteq> []"
  shows "\<exists>s' bid. adx_com_baidu_adapter_init env s src = Some (s', bid) \<and> bid_request_content (mem s') bid = Some fs \<and> mem s \<subseteq>\<^sub>m mem s'"
  by (rule init_reads [OF assms])

section \<open>An allocator\<close>

text \<open>Blocks one behind the other, up to 1 MB; the heap is the next free address.\<close>

definition bump_env :: "nat pb_env" where
  "bump_env = \<lparr>e_palloc = (\<lambda>s n. if 0 < heap s \<and> heap s + n \<le> 2 ^ 20 \<and> (\<forall>i<n. mem s (of_nat (heap s + i)) = None)
       then (\<lparr>mem = (\<lambda>a. if a \<in> region (of_nat (heap s)) n then Some 0xCC else mem s a), heap = heap s + n\<rparr>, of_nat (heap s))
       else (s, NULL)),
     e_uval32 = 0, e_uval64 = 0, e_via_float = id\<rparr>"

lemma bump_fresh: "pool_fresh bump_env"
  unfolding pool_fresh_def
proof (intro allI)
  fix s n
  show "fresh_block s n (fst (e_palloc bump_env s n)) (snd (e_palloc bump_env s n))"
  proof (cases "0 < heap s \<and> heap s + n \<le> 2 ^ 20 \<and> (\<forall>i<n. mem s (of_nat (heap s + i)) = None)")
    case True
    then have "region (of_nat (heap s)) n \<inter> dom (mem s) = {}" by (auto simp: region_def)
    moreover have "unat (of_nat (heap s) :: addr) = heap s" using True by (simp add: unat_of_nat take_bit_nat_eq_self)
    ultimately show ?thesis using True by (auto simp: fresh_block_def bump_env_def map_le_def)
  qed (auto simp: fresh_block_def bump_env_def)
qed

definition bump_ok :: "nat pstate \<Rightarrow> bool" where
  "bump_ok s \<longleftrightarrow> 0 < heap s \<and> (\<forall>a. mem s a \<noteq> None \<longrightarrow> unat a < heap s)"

lemma bump_gives:
  assumes "bump_ok s" "heap s + n \<le> 2 ^ 20"
  shows "\<exists>s'. e_palloc bump_env s n = (s', of_nat (heap s)) \<and> bump_ok s' \<and> heap s' = heap s + n \<and> (of_nat (heap s) :: addr) \<noteq> NULL"
proof -
  have u: "unat (of_nat (heap s + i) :: addr) = heap s + i" if "i < n \<or> i = 0" for i
    using assms(2) that by (auto simp: unat_of_nat take_bit_nat_eq_self simp del: of_nat_add)
  have none: "\<forall>i<n. mem s (of_nat (heap s + i)) = None"
    using assms(1) u by (metis bump_ok_def not_add_less1)
  have "unat a < heap s + n" if "a \<in> region (of_nat (heap s)) n" for a :: addr
    using region_bounds [OF that] u [of 0] assms(2) by simp
  then have "bump_ok \<lparr>mem = (\<lambda>a. if a \<in> region (of_nat (heap s)) n then Some 0xCC else mem s a), heap = heap s + n\<rparr>"
    using assms(1) by (auto simp: bump_ok_def trans_less_add1)
  moreover have "(of_nat (heap s) :: addr) \<noteq> NULL" using u [of 0] assms(1) by (auto simp: bump_ok_def)
  ultimately show ?thesis using assms none by (simp add: bump_env_def bump_ok_def)
qed

lemma bump_ok_store: "bump_ok s \<Longrightarrow> store (mem s) p bs = Some m \<Longrightarrow> bump_ok (s\<lparr>mem := m\<rparr>)"
  using store_dom [of "mem s" p bs m] by (auto simp: bump_ok_def domIff set_eq_iff)

lemma bump_pcalloc:
  assumes "bump_ok s" "heap s + n \<le> 2 ^ 20" "pcalloc bump_env s n = Some (s', d)"
  shows "d \<noteq> NULL"
  using bump_gives [OF assms(1,2)] assms(3) by (auto simp: pcalloc_def bind_eq_Some_conv)

lemma bump_chain:
  assumes "bump_ok s" "heap s + 96 + unat n \<le> 2 ^ 20" "b \<noteq> NULL" "n \<noteq> 0" "chain_alloc bump_env s b n = Some (s', c)"
  shows "c \<noteq> []"
proof -
  obtain s1 where s1: "e_palloc bump_env s 16 = (s1, of_nat (heap s))" "bump_ok s1" "heap s1 = heap s + 16" "(of_nat (heap s) :: addr) \<noteq> NULL"
    using bump_gives [OF assms(1), of 16] assms(2) by auto
  obtain s2 where s2: "e_palloc bump_env s1 80 = (s2, of_nat (heap s1))" "bump_ok s2" "heap s2 = heap s + 96" "(of_nat (heap s1) :: addr) \<noteq> NULL"
    using bump_gives [OF s1(2), of 80] s1(3) assms(2) by auto
  show ?thesis using assms(3-5) s1(1,4) s2(1,4) bump_pcalloc [OF s2(2)] s2(3) assms(2)
    by (auto simp: chain_alloc_def bind_eq_Some_conv split: if_splits)
qed

text \<open>The request of the example above, sent from this allocator.\<close>

definition demo_heap :: "nat pstate" where
  "demo_heap = \<lparr>mem = mem (cstate demo_context), heap = 4096\<rparr>"

theorem com_to_chain_encodes_witness:
  "\<exists>s' c. adx_com_to_chain bump_env False demo_heap demo_request = Some (s', c) \<and> c \<noteq> [] \<and>
    chain_bytes (mem s') c = Some demo_bytes_request"
proof -
  have c: "request_content (mem demo_heap) demo_request = Some demo_contents" using demo_content by (simp add: demo_heap_def)
  have l: "length (enc_fields demo_contents) = 31" by (simp add: demo_encoding demo_bytes_request_def)
  obtain s' c where s': "adx_com_to_chain bump_env False demo_heap demo_request = Some (s', c)"
      "c \<noteq> [] \<Longrightarrow> chain_bytes (mem s') c = Some (enc_fields demo_contents)"
    using com_to_chain_encodes [OF bump_fresh c, of False] l by (auto split: if_splits)
  have ok: "bump_ok demo_heap"
    by (auto simp: bump_ok_def demo_heap_def demo_context_def word_less_nat_alt split: if_splits)
  obtain s1 where s1: "e_palloc bump_env demo_heap 31 = (s1, 4096)" "bump_ok s1" "heap s1 = 4127"
    using bump_gives [OF ok, of 31] by (auto simp: demo_heap_def)
  have "\<exists>m'. ngx_com_request__pack demo_request \<lparr>cstate = s1, cpos = 4096, clast = 4127, reuse_strings = False, has_pool = True\<rparr> =
      Some (\<lparr>cstate = s1\<lparr>mem := m'\<rparr>, cpos = 4127, clast = 4127, reuse_strings = False, has_pool = True\<rparr>, NGX_OK) \<and> dom m' \<subseteq> dom (mem s1)"
    using pack_fresh [OF bump_fresh c refl _ _, of s1 4096 False] s1(1) l by auto
  then obtain m' where m': "ngx_com_request__pack demo_request \<lparr>cstate = s1, cpos = 4096, clast = 4127, reuse_strings = False, has_pool = True\<rparr> =
      Some (\<lparr>cstate = s1\<lparr>mem := m'\<rparr>, cpos = 4127, clast = 4127, reuse_strings = False, has_pool = True\<rparr>, NGX_OK)" "dom m' \<subseteq> dom (mem s1)" by blast
  have "chain_alloc bump_env (s1\<lparr>mem := m'\<rparr>) 4096 31 = Some (s', c)"
    using s'(1) request_size [OF c] l s1(1) m'(1) by (simp add: adx_com_to_chain_def)
  moreover have "bump_ok (s1\<lparr>mem := m'\<rparr>)" using s1(2) m'(2) by (auto simp: bump_ok_def)
  ultimately have "c \<noteq> []" using bump_chain [of "s1\<lparr>mem := m'\<rparr>" 31 4096 s' c] s1(3) by simp
  then show ?thesis using s' by (auto simp: demo_encoding)
qed

text \<open>A bid request in two buffers, and a pool whose blocks are all at the same place.\<close>

definition demo_body :: ngx_bid_request_t where
  "demo_body = ngx_bid_request_zero\<lparr>br_id := \<lparr>slen = 2, sdata = 66\<rparr>, br_has_id := True,
     br_mobile := Some (ngx_bid_request_mobile_zero\<lparr>mo_platform := 2, mo_has_platform := True, mo_carrier_id := 46001, mo_has_carrier_id := True\<rparr>),
     br_has_mobile := True,
     br_adslot := Some [ngx_bid_request_ad_slot_zero\<lparr>ad_ad_block_key := 300, ad_has_ad_block_key := True,
       ad_creative_type := Some [1, 7], ad_has_creative_type := True\<rparr>], br_has_adslot := True\<rparr>"

definition demo_body_bytes :: "byte list" where
  "demo_body_bytes = [10, 2, 66, 67, 162, 1, 7, 8, 172, 2, 58, 2, 1, 7, 234, 1, 6, 24, 2, 72, 177, 231, 2]"

definition demo_body_state :: "unit pstate" where
  "demo_body_state = \<lparr>mem = (\<lambda>a. if 64 \<le> a \<and> a < 87 then Some (demo_body_bytes ! (unat a - 64)) else None), heap = ()\<rparr>"

definition demo_body_contents :: "(32 word \<times> wval list) list" where
  "demo_body_contents = [(1, [WStr [66, 67]]), (2, []), (3, []), (4, []), (5, []), (6, []), (7, []), (8, []), (9, []), (10, []), (11, []),
     (12, []), (13, []), (14, []), (15, []), (17, []), (18, []), (19, []),
     (20, [WMsg [(1, [WLong 300]), (2, []), (3, []), (4, []), (5, []), (6, []), (7, [WPack [1, 7]]), (8, []), (9, []), (10, []), (11, []), (12, []),
       (13, []), (14, []), (15, []), (16, []), (17, []), (18, []), (19, []), (20, []), (21, []), (22, []), (23, []), (24, []), (25, [])]]),
     (21, []), (26, []), (27, []), (28, []),
     (29, [WMsg [(1, []), (2, []), (3, [WNum 2]), (4, []), (5, []), (6, []), (7, []), (8, []), (9, [WLong 46001]), (10, []), (11, []), (12, []),
       (13, []), (14, []), (15, [])]]), (30, []), (31, []), (32, [])]"

definition demo_pool :: "unit pb_env" where
  "demo_pool = \<lparr>e_palloc = (\<lambda>s n. (s\<lparr>mem := (\<lambda>a. if mem s a = None \<and> a \<in> region 4096 n then Some 0xCC else mem s a)\<rparr>, 4096)),
     e_uval32 = 0, e_uval64 = 0, e_via_float = id\<rparr>"

lemma demo_body_content: "bid_request_content (mem demo_body_state) demo_body = Some demo_body_contents"
  by (simp add: demo_body_def bid_request_content_def demo_body_state_def ngx_bid_request_zero_def ngx_bid_request_mobile_zero_def
      ngx_bid_request_ad_slot_zero_def mobile_content_def ad_slot_content_def str_slot_def num_slot_def member_slot_def elements_slot_def
      long_slot_def absent_slot_def nums_slot_def strs_slot_def packed_slot_def str_bytes_def load_numeral content_of_def demo_body_contents_def
      demo_body_bytes_def)

lemma demo_body_encoding: "enc_fields demo_body_contents = demo_body_bytes"
  by (simp add: demo_body_contents_def demo_body_bytes_def header_def NGX_PROTOBUF_HEADER_def enc_delimited_def enc_string_def varint.simps)

theorem adapter_init_reads_witness:
  "\<exists>s' bid. adx_com_baidu_adapter_init demo_pool demo_body_state [(64, 69), (69, 87)] = Some (s', bid) \<and>
    bid_request_content (mem s') bid = Some demo_body_contents"
proof -
  have l: "length (enc_fields demo_body_contents) = 23" by (simp add: demo_body_encoding demo_body_bytes_def)
  have b: "chain_bytes (mem demo_body_state) [(64, 69), (69, 87)] = Some (enc_fields demo_body_contents)"
    by (simp add: demo_body_encoding demo_body_state_def load_numeral) (simp add: demo_body_bytes_def)
  have serves: "pool_serves demo_pool" by (auto simp: pool_serves_def demo_pool_def map_le_def)
  have "region 4096 24 \<inter> dom (mem demo_body_state) = {}"
    using region_bounds [of _ 4096 24] by (fastforce simp: demo_body_state_def word_less_nat_alt split: if_splits)
  then have fresh: "fresh_block demo_body_state 24 (fst (e_palloc demo_pool demo_body_state 24)) (snd (e_palloc demo_pool demo_body_state 24))"
    by (auto simp: fresh_block_def demo_pool_def map_le_def)
  have solid: "solid_fields demo_body_contents"
    by (simp add: solid_fields_def demo_body_contents_def header_def varint.simps NGX_PROTOBUF_HEADER_def enc_delimited_def enc_string_def)
  have f: "fresh_block demo_body_state (length (enc_fields demo_body_contents) + 1)
      (fst (e_palloc demo_pool demo_body_state (length (enc_fields demo_body_contents) + 1)))
      (snd (e_palloc demo_pool demo_body_state (length (enc_fields demo_body_contents) + 1)))" using fresh l by simp
  have n: "length (enc_fields demo_body_contents) < 2 ^ 31" "enc_fields demo_body_contents \<noteq> []" using l by auto
  show ?thesis using adapter_init_reads [OF serves b n(1) f demo_body_content solid n(2)] by blast
qed

end
