(* ===== verification/Bid_Props.thy ===== *)
theory Bid_Props
  imports Bid_Request
begin

text \<open>
  What goes wrong when messages of \<^verbatim>\<open>ngx_baidu_proto.c\<close> are packed: packed arrays are longer than
  their size says.
\<close>

section \<open>Packed arrays\<close>

text \<open>What packing one writes: a header, the length of the numbers, and every number behind a header of its own.\<close>

definition packed_bytes :: "32 word \<Rightarrow> 32 word list \<Rightarrow> byte list" where
  "packed_bytes fnum xs = header fnum WIRE_LENGTH_DELIMITED @ varint (of_nat (packed_size (Some xs)) :: 32 word) @
     concat (map (\<lambda>v. header fnum WIRE_VARINT @ varint v) xs)"

lemma packed_size_length: "packed_size (Some xs) = length (concat (map varint xs))"
  by (induction xs) (simp_all add: packed_size_def size_uint32_varint)

lemma pack_packed_writes:
  assumes "xs \<noteq> []"
  shows "pack_packed True (Some xs) fnum ctx = ngx_writes ctx (packed_bytes fnum xs)"
proof -
  let ?bs = "concat (map (\<lambda>v. header fnum WIRE_VARINT @ varint v) xs)"
  have e: "emit ctx (\<lambda>m p. write_each (\<lambda>m p v. ngx_protobuf_write_uint32_field m p v fnum) m p xs) = ngx_writes ctx ?bs"
    for ctx :: "'a ngx_protobuf_context_t"
    by (simp add: ngx_writes_def fuint32.write_each_enc)
  show ?thesis using assms
    by (cases "ngx_writes ctx (header fnum WIRE_LENGTH_DELIMITED @ varint (of_nat (packed_size (Some xs)) :: 32 word))")
      (simp_all add: pack_packed_def emit_message_header e packed_bytes_def writes_append flip: append_assoc)
qed

text \<open>The size that was computed leaves these headers out.\<close>

lemma packed_bytes_longer:
  assumes "xs \<noteq> []" "length (concat (map varint xs)) < 2 ^ 32"
  shows "length (packed_bytes fnum xs) = size_packed True (Some xs) fnum + length xs * length (header fnum WIRE_VARINT)"
proof -
  have "length (concat (map (\<lambda>v. h @ varint v) xs)) = length (concat (map varint xs)) + length xs * length h" for h
    by (induction xs) simp_all
  then show ?thesis using assms size_headed [of "concat (map varint xs)" fnum]
    by (simp add: packed_bytes_def size_packed_def packed_size_length enc_delimited_def enc_string_def)
qed

text \<open>
  A message \<open>x\<close> of which only a packed array \<open>xs\<close> is set, in a buffer of exactly the number of bytes that its \<^verbatim>\<open>__size\<close> gives: the
  test of \<^verbatim>\<open>__pack\<close> passes, and \<open>extra\<close> bytes more than fit are written for every element.
\<close>

definition overruns ::
    "('a \<Rightarrow> nat option) \<Rightarrow> ('a \<Rightarrow> 'm ngx_protobuf_context_t \<Rightarrow> ('m ngx_protobuf_context_t \<times> ngx_int_t) option) \<Rightarrow> 'a \<Rightarrow> 32 word list \<Rightarrow> nat \<Rightarrow> bool" where
  "overruns sz pk x xs extra \<longleftrightarrow> (\<exists>n bs. sz x = Some n \<and> length bs = n + extra * length xs \<and>
     (\<forall>ctx. unat (cpos ctx) + n = unat (clast ctx) \<longrightarrow> pk x ctx = map_option (\<lambda>ctx. (ctx, NGX_OK)) (ngx_writes ctx bs)))"

lemma overrunsI:
  assumes "xs \<noteq> []" "length (concat (map varint xs)) < 2 ^ 32" "sz x = Some (size_packed True (Some xs) fnum)"
    "length (header fnum WIRE_VARINT) = extra"
    "\<And>ctx. 0 < size_packed True (Some xs) fnum \<Longrightarrow> \<not> cpos ctx + of_nat (size_packed True (Some xs) fnum) > clast ctx \<Longrightarrow>
      pk x ctx = do { ctx \<leftarrow> pack_packed True (Some xs) fnum ctx; Some (ctx, NGX_OK) }"
  shows "overruns sz pk x xs extra"
proof -
  let ?n = "size_packed True (Some xs) fnum"
  have pos: "0 < ?n" using assms(1) size_headed [of "concat (map varint xs)" fnum] assms(2)
    by (simp add: size_packed_def packed_size_length enc_delimited_def header_def)
  have "pk x ctx = map_option (\<lambda>ctx. (ctx, NGX_OK)) (ngx_writes ctx (packed_bytes fnum xs))"
    if "unat (cpos ctx) + ?n = unat (clast ctx)" for ctx
  proof -
    have "\<not> cpos ctx + of_nat ?n > clast ctx" using unat_plus [of "cpos ctx" ?n "clast ctx"] that by (simp add: word_less_nat_alt)
    from assms(5) [OF pos this] show ?thesis unfolding pack_packed_writes [OF assms(1)]
      by (cases "ngx_writes ctx (packed_bytes fnum xs)") simp_all
  qed
  then show ?thesis using assms(3) packed_bytes_longer [OF assms(1,2), of fnum] unfolding overruns_def assms(4)
    by (intro exI [of _ ?n] exI [of _ "packed_bytes fnum xs"]) (simp add: mult.commute)
qed

text \<open>The three messages with a packed array, with nothing else set.\<close>

definition creatives :: "32 word list \<Rightarrow> ngx_bid_request_ad_slot_expand_creative_info_t" where
  "creatives xs = ngx_bid_request_ad_slot_expand_creative_info_zero\<lparr>ec_expand_creative_type := Some xs, ec_has_expand_creative_type := True\<rparr>"

definition slot_creatives :: "32 word list \<Rightarrow> ngx_bid_request_ad_slot_t" where
  "slot_creatives xs = ngx_bid_request_ad_slot_zero\<lparr>ad_creative_type := Some xs, ad_has_creative_type := True\<rparr>"

definition excluding :: "32 word list \<Rightarrow> ngx_bid_request_t" where
  "excluding xs = ngx_bid_request_zero\<lparr>br_excluded_product_category := Some xs, br_has_excluded_product_category := True\<rparr>"

lemmas absent_defs = size_message_def size_array_def size_number_def size_long_def size_str_def size_member_def size_elements_def size_unknowns_def
  pack_message_def pack_array_def pack_num_def pack_long_def pack_str_def pack_member_def pack_elements_def pack_unknowns_def

text \<open>
  C22. Packing a packed array overruns the buffer.  In each of the three messages that have one, with nothing else set
  and a buffer of exactly the number of bytes that \<^verbatim>\<open>__size\<close> gives, the test of \<^verbatim>\<open>__pack\<close> passes and the
  bytes are written, but there are more of them: the loop of
  \<^verbatim>\<open>__pack\<close> writes a header in front of every element that \<^verbatim>\<open>__packed_size\<close> does not count.  That is one byte for
  every element of \<^verbatim>\<open>expand_creative_type\<close> (field 3) and \<^verbatim>\<open>creative_type\<close> (field 7), and two for every element of
  \<^verbatim>\<open>excluded_product_category\<close> (field 19).
\<close>

theorem packed_array_overruns:
  assumes "xs \<noteq> []" "length (concat (map varint xs)) < 2 ^ 32"
  shows "overruns ngx_bid_request_ad_slot_expand_creative_info__size ngx_bid_request_ad_slot_expand_creative_info__pack (creatives xs) xs 1 \<and>
    overruns ngx_bid_request_ad_slot__size ngx_bid_request_ad_slot__pack (slot_creatives xs) xs 1 \<and>
    overruns ngx_bid_request__size ngx_bid_request__pack (excluding xs) xs 2"
proof (intro conjI)
  have h: "length (header 3 WIRE_VARINT) = 1" "length (header 7 WIRE_VARINT) = 1" "length (header 19 WIRE_VARINT) = 2"
    by (simp_all add: header_def NGX_PROTOBUF_HEADER_def varint.simps)
  show "overruns ngx_bid_request_ad_slot_expand_creative_info__size ngx_bid_request_ad_slot_expand_creative_info__pack (creatives xs) xs 1"
  proof (rule overrunsI [OF assms _ h(1)])
    show s: "ngx_bid_request_ad_slot_expand_creative_info__size (creatives xs) = Some (size_packed True (Some xs) 3)"
      by (simp add: ngx_bid_request_ad_slot_expand_creative_info__size_def absent_defs creatives_def ngx_bid_request_ad_slot_expand_creative_info_zero_def)
    show "ngx_bid_request_ad_slot_expand_creative_info__pack (creatives xs) ctx = do { ctx \<leftarrow> pack_packed True (Some xs) 3 ctx; Some (ctx, NGX_OK) }"
      if "0 < size_packed True (Some xs) 3" "\<not> cpos ctx + of_nat (size_packed True (Some xs) 3) > clast ctx" for ctx
      unfolding ngx_bid_request_ad_slot_expand_creative_info__pack_def s using that
      by (simp add: absent_defs creatives_def ngx_bid_request_ad_slot_expand_creative_info_zero_def)
  qed
  show "overruns ngx_bid_request_ad_slot__size ngx_bid_request_ad_slot__pack (slot_creatives xs) xs 1"
  proof (rule overrunsI [OF assms _ h(2)])
    show s: "ngx_bid_request_ad_slot__size (slot_creatives xs) = Some (size_packed True (Some xs) 7)"
      by (simp add: ngx_bid_request_ad_slot__size_def absent_defs slot_creatives_def ngx_bid_request_ad_slot_zero_def)
    show "ngx_bid_request_ad_slot__pack (slot_creatives xs) ctx = do { ctx \<leftarrow> pack_packed True (Some xs) 7 ctx; Some (ctx, NGX_OK) }"
      if "0 < size_packed True (Some xs) 7" "\<not> cpos ctx + of_nat (size_packed True (Some xs) 7) > clast ctx" for ctx
      unfolding ngx_bid_request_ad_slot__pack_def s using that
      by (simp add: absent_defs slot_creatives_def ngx_bid_request_ad_slot_zero_def)
  qed
  show "overruns ngx_bid_request__size ngx_bid_request__pack (excluding xs) xs 2"
  proof (rule overrunsI [OF assms _ h(3)])
    show s: "ngx_bid_request__size (excluding xs) = Some (size_packed True (Some xs) 19)"
      by (simp add: ngx_bid_request__size_def absent_defs excluding_def ngx_bid_request_zero_def)
    show "ngx_bid_request__pack (excluding xs) ctx = do { ctx \<leftarrow> pack_packed True (Some xs) 19 ctx; Some (ctx, NGX_OK) }"
      if "0 < size_packed True (Some xs) 19" "\<not> cpos ctx + of_nat (size_packed True (Some xs) 19) > clast ctx" for ctx
      unfolding ngx_bid_request__pack_def s using that
      by (simp add: absent_defs excluding_def ngx_bid_request_zero_def)
  qed
qed

theorem packed_array_overruns_witness:
  "\<exists>n bs. ngx_bid_request__size (excluding [1, 7]) = Some n \<and> length bs = n + 4 \<and>
    (\<forall>ctx :: unit ngx_protobuf_context_t. unat (cpos ctx) + n = unat (clast ctx) \<longrightarrow>
      ngx_bid_request__pack (excluding [1, 7]) ctx = map_option (\<lambda>ctx. (ctx, NGX_OK)) (ngx_writes ctx bs))"
proof -
  have "length (concat (map varint [1, 7 :: 32 word])) < 2 ^ 32" by (simp add: varint.simps)
  from packed_array_overruns [OF _ this] show ?thesis by (auto simp: overruns_def)
qed

end
