(* ===== verification/Adx_Flume.thy ===== *)
theory Adx_Flume
  imports Adx_Prelude "HOL-Library.Sublist"
begin

text \<open>
  The log shipper \<^verbatim>\<open>adx_flume.c\<close> of the tracker, with its string queue \<^verbatim>\<open>adx_queue.c\<close>: any number of
  threads format lines and push them on a queue, one thread pops them and writes them to a socket.

  The system calls are parameters, a record \<open>net\<close> of functions on the state of the kernel; \<open>writes\<close>
  records the calls of \<^verbatim>\<open>write\<close>, with their sockets, bytes and results.  The queue is the list of its strings (the ring
  below is the one of \<open>Adx_List\<close>); \<open>blocks\<close> counts the live blocks of the allocator, whose success
  is decided by the parameter \<open>alloc\<close>.  A string \<^verbatim>\<open>adx_str_t\<close> is \<open>None\<close> if its pointer is null.
  The pushes and the pop are under one mutex, so a step of the model is a whole locked section; the
  writes of the sending thread touch nothing the other threads use.
\<close>

section \<open>Model: the socket\<close>

datatype sockopt = SO_SNDTIMEO | SO_SNDBUF | SO_RCVBUF

record 'k net =
  sys_socket :: "'k \<Rightarrow> 'k \<times> int"
  sys_connect :: "'k \<Rightarrow> int \<Rightarrow> string \<Rightarrow> int \<Rightarrow> 'k \<times> int"
  sys_close :: "'k \<Rightarrow> int \<Rightarrow> 'k"
  sys_setsockopt :: "'k \<Rightarrow> int \<Rightarrow> sockopt \<Rightarrow> int \<Rightarrow> 'k \<times> int"
  sys_write :: "'k \<Rightarrow> int \<Rightarrow> string \<Rightarrow> 'k \<times> int"

record adx_flume_conn_t =
  host :: string
  port :: int
  sockfd :: int

record ('m, 'k) flume =
  heap :: 'm
  blocks :: nat
  queue :: "string list"
  init_code :: int
  kernel :: 'k
  writes :: "(int \<times> string \<times> int) list"

abbreviation SEND_TIMEOUT :: int where "SEND_TIMEOUT \<equiv> 5000"
abbreviation KERNEL_SNDBUF :: int where "KERNEL_SNDBUF \<equiv> 1024 * 1024 * 100"

definition do_write :: "'k net \<Rightarrow> ('m, 'k) flume \<Rightarrow> int \<Rightarrow> string \<Rightarrow> ('m, 'k) flume \<times> int" where
  "do_write env s fd b =
     (let (k, r) = sys_write env (kernel s) fd b in
      (s\<lparr>kernel := k, writes := writes s @ [(fd, b, r)]\<rparr>, r))"

definition do_close :: "'k net \<Rightarrow> ('m, 'k) flume \<Rightarrow> int \<Rightarrow> ('m, 'k) flume" where
  "do_close env s fd = s\<lparr>kernel := sys_close env (kernel s) fd\<rparr>"

definition do_setsockopt :: "'k net \<Rightarrow> ('m, 'k) flume \<Rightarrow> int \<Rightarrow> sockopt \<Rightarrow> int \<Rightarrow> ('m, 'k) flume \<times> int" where
  "do_setsockopt env s fd opt v =
     (let (k, r) = sys_setsockopt env (kernel s) fd opt v in (s\<lparr>kernel := k\<rparr>, r))"

definition adx_network_send_timeout :: "'k net \<Rightarrow> ('m, 'k) flume \<Rightarrow> int \<Rightarrow> int \<Rightarrow> ('m, 'k) flume \<times> int" where
  "adx_network_send_timeout env s fd t = do_setsockopt env s fd SO_SNDTIMEO t"

definition adx_network_set_kernel_buffer ::
    "'k net \<Rightarrow> ('m, 'k) flume \<Rightarrow> int \<Rightarrow> int \<Rightarrow> int \<Rightarrow> ('m, 'k) flume \<times> int" where
  "adx_network_set_kernel_buffer env s fd send_size recv_size =
     (let (s, r) = (if send_size \<noteq> 0 then do_setsockopt env s fd SO_SNDBUF send_size else (s, 0)) in
      if r = -1 then (s, -1)
      else let (s, r) = (if recv_size \<noteq> 0 then do_setsockopt env s fd SO_RCVBUF recv_size else (s, 0)) in
        if r = -1 then (s, -1) else (s, 0))"

definition adx_network_connect :: "'k net \<Rightarrow> ('m, 'k) flume \<Rightarrow> string \<Rightarrow> int \<Rightarrow> ('m, 'k) flume \<times> int" where
  "adx_network_connect env s h p =
     (let (k, fd) = sys_socket env (kernel s); s = s\<lparr>kernel := k\<rparr> in
      if fd = -1 then (do_close env s fd, -1)
      else let (k, rc) = sys_connect env (kernel s) fd h p; s = s\<lparr>kernel := k\<rparr> in
        if rc = 0 then (s, fd) else (do_close env s fd, -1))"

section \<open>Model: sending\<close>

text \<open>
  The loop that sends what the first write left over.  \<open>None\<close> in the result stands for the return
  with 0 from inside the loop; \<open>Some size\<close> is the value of \<open>size\<close> after the break.
\<close>

partial_function (option) send_rest ::
    "'k net \<Rightarrow> int \<Rightarrow> string \<Rightarrow> int \<Rightarrow> ('m, 'k) flume \<Rightarrow> (('m, 'k) flume \<times> int option) option" where
  "send_rest env fd buf send_size s =
     (if send_size < 0 \<or> int (length buf) < send_size then None
      else let w = do_write env s fd (drop (nat send_size) buf) in
        if send_size \<le> 0 then Some (fst w, Some (snd w))
        else if int (length buf) \<le> send_size + snd w then Some (fst w, None)
        else send_rest env fd buf (send_size + snd w) (fst w))"

text \<open>The two ends of a failed send: the labels \<^verbatim>\<open>err2\<close> and \<^verbatim>\<open>err\<close>.\<close>

definition send_err2 :: "'k net \<Rightarrow> ('m, 'k) flume \<Rightarrow> adx_flume_conn_t \<Rightarrow> ('m, 'k) flume \<times> adx_flume_conn_t \<times> int" where
  "send_err2 env s conn = (do_close env s (sockfd conn), conn\<lparr>sockfd := -1\<rparr>, -1)"

definition send_err ::
    "'k net \<Rightarrow> ('m, 'k) flume \<Rightarrow> adx_flume_conn_t \<Rightarrow> int \<Rightarrow> ('m, 'k) flume \<times> adx_flume_conn_t \<times> int" where
  "send_err env s conn fd = send_err2 env (do_close env s fd) conn"

text \<open>A new connection for the rest of the function; \<open>Inl\<close> is a return.\<close>

definition send_reconnect :: "'k net \<Rightarrow> ('m, 'k) flume \<Rightarrow> adx_flume_conn_t \<Rightarrow>
    (('m, 'k) flume \<times> adx_flume_conn_t \<times> int) + (('m, 'k) flume \<times> adx_flume_conn_t)" where
  "send_reconnect env s conn =
     (let (s, fd) = adx_network_connect env s (host conn) (port conn) in
      if fd \<le> 0 then Inl (send_err2 env s conn)
      else let (s, ret) = adx_network_set_kernel_buffer env s fd KERNEL_SNDBUF 0 in
        if ret \<noteq> 0 then Inl (send_err env s conn fd)
        else let (s, ret) = adx_network_send_timeout env s fd SEND_TIMEOUT in
          if ret \<noteq> 0 then Inl (send_err env s conn fd)
          else Inr (do_close env s (sockfd conn), conn\<lparr>sockfd := fd\<rparr>))"

text \<open>The calls of \<^verbatim>\<open>write\<close>, up to the first failure; \<open>None\<close> as above.\<close>

definition send_writes ::
    "'k net \<Rightarrow> ('m, 'k) flume \<Rightarrow> int \<Rightarrow> string \<Rightarrow> (('m, 'k) flume \<times> int option) option" where
  "send_writes env s fd buf =
     (let (s, size) = do_write env s fd buf in
      if size = int (length buf) then Some (s, None)
      else if 0 < size then send_rest env fd buf size s
      else Some (s, Some size))"

partial_function (option) adx_flume_send ::
    "'k net \<Rightarrow> ('m, 'k) flume \<Rightarrow> adx_flume_conn_t \<Rightarrow> string \<Rightarrow>
     (('m, 'k) flume \<times> adx_flume_conn_t \<times> int) option" where
  "adx_flume_send env s conn buf =
     Option.bind (send_writes env s (sockfd conn) buf) (\<lambda>w.
       if snd w = None then Some (fst w, conn, 0)
       else if the (snd w) = 0 then Some (send_err2 env (fst w) conn)
       else case send_reconnect env (fst w) conn of
         Inl result \<Rightarrow> Some result
       | Inr sc \<Rightarrow> adx_flume_send env (fst sc) (snd sc) buf)"

text \<open>
  A new connection.  The test after \<^verbatim>\<open>je_malloc\<close> is on \<^verbatim>\<open>ret\<close>, not on the pointer: without memory the
  function writes through a null pointer.
\<close>

definition blk_malloc :: "'m alloc_fun \<Rightarrow> ('m, 'k) flume \<Rightarrow> nat \<Rightarrow> ('m, 'k) flume \<times> bool" where
  "blk_malloc alloc s n =
     (case alloc (heap s) n of None \<Rightarrow> (s, False)
      | Some m \<Rightarrow> (s\<lparr>heap := m, blocks := Suc (blocks s)\<rparr>, True))"


definition connadx_flume_conn :: "'m alloc_fun \<Rightarrow> 'k net \<Rightarrow> ('m, 'k) flume \<Rightarrow> string \<Rightarrow> int \<Rightarrow>
    (('m, 'k) flume \<times> adx_flume_conn_t option) option" where
  "connadx_flume_conn alloc env s h p =
     (let (s, fd) = adx_network_connect env s h p in
      if fd = 0 then Some (s, None)
      else let (s, ret) = adx_network_send_timeout env s fd SEND_TIMEOUT in
        if ret \<noteq> 0 then Some (do_close env s fd, None)
        else let (s, ret) = adx_network_set_kernel_buffer env s fd KERNEL_SNDBUF 0 in
          if ret \<noteq> 0 then Some (do_close env s fd, None)
          else let (s, ok) = blk_malloc alloc s 24 in
            if ok then Some (s, Some \<lparr>host = h, port = p, sockfd = fd\<rparr>) else None)"

section \<open>Model: the queue and its threads\<close>

definition adx_empty :: "string option \<Rightarrow> bool" where
  "adx_empty v \<longleftrightarrow> v = None \<or> v = Some []"

definition tracker_strdup :: "'m alloc_fun \<Rightarrow> ('m, 'k) flume \<Rightarrow> string option \<Rightarrow> ('m, 'k) flume \<times> string option" where
  "tracker_strdup alloc s v =
     (if adx_empty v then (s, None)
      else let (s, ok) = blk_malloc alloc s (length (the v) + 1) in (s, if ok then v else None))"


definition tracker_queue_push :: "'m alloc_fun \<Rightarrow> ('m, 'k) flume \<Rightarrow> string option \<Rightarrow> ('m, 'k) flume" where
  "tracker_queue_push alloc s v =
     (if adx_empty v then s
      else let (s, ok) = blk_malloc alloc s 32 in
        if ok then s\<lparr>queue := queue s @ [the v]\<rparr> else s)"

definition tracker_queue_push_dup :: "'m alloc_fun \<Rightarrow> ('m, 'k) flume \<Rightarrow> string option \<Rightarrow> ('m, 'k) flume" where
  "tracker_queue_push_dup alloc s v = (let (s, v) = tracker_strdup alloc s v in tracker_queue_push alloc s v)"









text \<open>\<open>rc\<close> is the result of \<^verbatim>\<open>pthread_create\<close>.\<close>

definition adx_flume_init :: "'m alloc_fun \<Rightarrow> 'k net \<Rightarrow> int \<Rightarrow> ('m, 'k) flume \<Rightarrow> string \<Rightarrow> int \<Rightarrow>
    (('m, 'k) flume \<times> adx_flume_conn_t option \<times> int) option" where
  "adx_flume_init alloc env rc s h p = do {
     (s, conn) \<leftarrow> connadx_flume_conn alloc env s h p;
     (case conn of None \<Rightarrow> Some (s\<lparr>init_code := -1\<rparr>, None, -1)
      | Some c \<Rightarrow> Some (s\<lparr>init_code := rc\<rparr>, Some c, rc)) }"

text \<open>The threads: the steps of a schedule, one after the other.\<close>

datatype actor = Sender | Producer string



section \<open>What the kernel takes\<close>

text \<open>The bytes that one write took, those of some writes, and those of one socket, in order.\<close>

definition took :: "int \<times> string \<times> int \<Rightarrow> string" where
  "took w = take (nat (snd (snd w))) (fst (snd w))"

definition taken :: "(int \<times> string \<times> int) list \<Rightarrow> string" where
  "taken ws = concat (map took ws)"

definition wire :: "('m, 'k) flume \<Rightarrow> int \<Rightarrow> string" where
  "wire s fd = taken (filter (\<lambda>w. fst w = fd) (writes s))"

lemma taken_simps [simp]: "taken [] = []" "taken (w # ws) = took w @ taken ws" "taken (xs @ ys) = taken xs @ taken ys"
  by (simp_all add: taken_def)

















section \<open>What producers do\<close>

definition produced :: "actor list \<Rightarrow> string list" where
  "produced acts = concat (map (\<lambda>a. case a of Sender \<Rightarrow> [] | Producer line \<Rightarrow>
     if line = [] then [] else [line @ [CHR 0x0A]]) acts)"

lemma produced_simps [simp]:
  "produced [] = []" "produced (Sender # acts) = produced acts"
  "produced (Producer line # acts) = (if line = [] then [] else [line @ [CHR 0x0A]]) @ produced acts"
  by (simp_all add: produced_def)












section \<open>The sending thread and its schedules\<close>









section \<open>Properties\<close>






definition conn0 :: adx_flume_conn_t where
  "conn0 = \<lparr>host = ''10.0.0.1'', port = 9093, sockfd = 3\<rparr>"








text \<open>
  A failed write in the loop is added to the position: after a short write of at least two bytes
  and then a failure, the loop goes on one byte too early.  If the kernel takes the rest, the
  function reports success, and one byte was sent twice.
\<close>

theorem flume_send_repeats:
  assumes "sys_write env (kernel s) (sockfd conn) buf = (k1, n)" "1 < n" "n < int (length buf)"
    "sys_write env k1 (sockfd conn) (drop (nat n) buf) = (k2, -1)"
    "sys_write env k2 (sockfd conn) (drop (nat n - 1) buf) = (k3, int (length buf) - n + 1)"
  shows "\<exists>s'. adx_flume_send env s conn buf = Some (s', conn, 0) \<and>
     wire s' (sockfd conn) = wire s (sockfd conn) @ take (nat n) buf @ drop (nat n - 1) buf"
proof -
  define fd where "fd = sockfd conn"
  define s1 where "s1 = s\<lparr>kernel := k1, writes := writes s @ [(fd, buf, n)]\<rparr>"
  define s2 where "s2 = s1\<lparr>kernel := k2, writes := writes s1 @ [(fd, drop (nat n) buf, -1)]\<rparr>"
  define s3 where "s3 = s2\<lparr>kernel := k3, writes := writes s2 @ [(fd, drop (nat n - 1) buf, int (length buf) - n + 1)]\<rparr>"
  have w1: "do_write env s fd buf = (s1, n)" using assms(1) by (simp add: do_write_def s1_def fd_def)
  have w2: "do_write env s1 fd (drop (nat n) buf) = (s2, -1)"
    using assms(4) by (simp add: do_write_def s1_def s2_def fd_def)
  have "nat (n - 1) = nat n - 1" using assms(2) by simp
  then have w3: "do_write env s2 fd (drop (nat (n - 1)) buf) = (s3, int (length buf) - n + 1)"
    using assms(2,3,5) by (simp add: do_write_def s2_def s3_def fd_def nat_le_iff)
  have "send_rest env fd buf (n - 1) s2 = Some (s3, None)"
    using assms(2,3) w3 by (subst send_rest.simps) simp
  then have "send_rest env fd buf n s1 = Some (s3, None)"
    using assms(2,3) w2 by (subst send_rest.simps) simp
  then have "adx_flume_send env s conn buf = Some (s3, conn, 0)"
    using assms(2,3) w1 by (subst adx_flume_send.simps) (simp add: send_writes_def fd_def)
  moreover have "wire s3 fd = wire s fd @ take (nat n) buf @ drop (nat n - 1) buf"
    using assms(2,3) by (simp add: wire_def took_def s1_def s2_def s3_def)
  ultimately show ?thesis by (auto simp: fd_def)
qed

text \<open>A kernel whose second write fails.\<close>

definition hiccup_net :: "nat net" where
  "hiccup_net = \<lparr>sys_socket = (\<lambda>k. (k, 4)), sys_connect = (\<lambda>k fd h p. (k, 0)), sys_close = (\<lambda>k fd. k),
     sys_setsockopt = (\<lambda>k fd opt v. (k, 0)),
     sys_write = (\<lambda>k fd b. (Suc k, if k = 0 then 3 else if k = 1 then -1 else int (length b)))\<rparr>"

theorem flume_send_repeats_witness:
  "\<exists>s'. adx_flume_send hiccup_net \<lparr>heap = (), blocks = 0, queue = [], init_code = 0, kernel = 0, writes = []\<rparr>
       conn0 ''click'' = Some (s', conn0, 0) \<and> wire s' 3 = ''cliick''"
  using flume_send_repeats [of hiccup_net "\<lparr>heap = (), blocks = 0, queue = [], init_code = 0, kernel = 0, writes = []\<rparr>"
      conn0 "''click''" 1 3 2 3]
  by (simp add: hiccup_net_def conn0_def wire_def took_def)

end
