(* ===== verification/Price_Encrypt.thy ===== *)
theory Price_Encrypt
  imports Adx_Prelude
begin

text \<open>
  The winning price of \<^verbatim>\<open>BidCore/common/adx_decode/autohome/adx_encrypt.c\<close>: an exchange encrypts the
  price with a key stream from HMAC-SHA1 over an initialisation vector, signs it, and sends it as
  base 64 in a URL; the bidder decodes, decrypts and checks it.  Text and bytes are lists of
  \<open>8 word\<close>; a C string is the list without its NUL.  The HMAC of OpenSSL is a parameter; the code
  relies on its result having 20 bytes.
\<close>

type_synonym bytes = "8 word list"
type_synonym hmac_fun = "bytes \<Rightarrow> bytes \<Rightarrow> bytes"

section \<open>Model: URL decoding\<close>

definition byte_isupper :: "8 word \<Rightarrow> bool" where
  "byte_isupper c \<longleftrightarrow> 0x41 \<le> c \<and> c \<le> 0x5A"

definition byte_isxdigit :: "8 word \<Rightarrow> bool" where
  "byte_isxdigit c \<longleftrightarrow> 0x30 \<le> c \<and> c \<le> 0x39 \<or> 0x41 \<le> c \<and> c \<le> 0x46 \<or> 0x61 \<le> c \<and> c \<le> 0x66"

definition hex_digit :: "8 word \<Rightarrow> 8 word" where
  "hex_digit c =
     (let c = (if byte_isupper c then c + 0x20 else c) in
      if 0x30 \<le> c \<and> c \<le> 0x39 then c - 0x30 else c - 0x61 + 10)"

text \<open>The loop works in place, behind the position it reads; the list is what it writes.\<close>

fun urldecode_loop :: "bytes \<Rightarrow> bytes" where
  "urldecode_loop [] = []"
| "urldecode_loop (c # s) =
     (if c = 0x2B then 0x20 # urldecode_loop s
      else case s of
        a # b # r \<Rightarrow>
          if c = 0x25 \<and> byte_isxdigit a \<and> byte_isxdigit b
          then (hex_digit a * 16 + hex_digit b) # urldecode_loop r
          else c # urldecode_loop s
      | _ \<Rightarrow> c # urldecode_loop s)"

text \<open>The buffer afterwards, up to the NUL the function writes, and the length it returns.\<close>

definition urldecode :: "bytes \<Rightarrow> bytes \<times> nat" where
  "urldecode str = (let d = urldecode_loop str in (d, length d))"

section \<open>Model: base 64\<close>

definition encode_basis64 :: bytes where
  "encode_basis64 = map of_char ''ABCDEFGHIJKLMNOPQRSTUVWXYZabcdefghijklmnopqrstuvwxyz0123456789+/''"

definition decode_basis64 :: bytes where
  "decode_basis64 = [
     77, 77, 77, 77, 77, 77, 77, 77, 77, 77, 77, 77, 77, 77, 77, 77,
     77, 77, 77, 77, 77, 77, 77, 77, 77, 77, 77, 77, 77, 77, 77, 77,
     77, 77, 77, 77, 77, 77, 77, 77, 77, 77, 77, 62, 77, 77, 77, 63,
     52, 53, 54, 55, 56, 57, 58, 59, 60, 61, 77, 77, 77, 77, 77, 77,
     77,  0,  1,  2,  3,  4,  5,  6,  7,  8,  9, 10, 11, 12, 13, 14,
     15, 16, 17, 18, 19, 20, 21, 22, 23, 24, 25, 77, 77, 77, 77, 77,
     77, 26, 27, 28, 29, 30, 31, 32, 33, 34, 35, 36, 37, 38, 39, 40,
     41, 42, 43, 44, 45, 46, 47, 48, 49, 50, 51, 77, 77, 77, 77, 77] @ replicate 128 77"

definition basis_at :: "bytes \<Rightarrow> 8 word \<Rightarrow> 8 word" where
  "basis_at basis c = basis ! unat c"

fun encode_base64_internal :: "bytes \<Rightarrow> bool \<Rightarrow> bytes \<Rightarrow> bytes" where
  "encode_base64_internal basis padding (a # b # c # s) =
     [basis_at basis (drop_bit 2 a AND 0x3f),
      basis_at basis (push_bit 4 (a AND 3) OR drop_bit 4 b),
      basis_at basis (push_bit 2 (b AND 0x0f) OR drop_bit 6 c),
      basis_at basis (c AND 0x3f)] @ encode_base64_internal basis padding s"
| "encode_base64_internal basis padding [a, b] =
     [basis_at basis (drop_bit 2 a AND 0x3f),
      basis_at basis (push_bit 4 (a AND 3) OR drop_bit 4 b),
      basis_at basis (push_bit 2 (b AND 0x0f))] @ (if padding then [0x3D] else [])"
| "encode_base64_internal basis padding [a] =
     [basis_at basis (drop_bit 2 a AND 0x3f),
      basis_at basis (push_bit 4 (a AND 3))] @ (if padding then [0x3D] else []) @ (if padding then [0x3D] else [])"
| "encode_base64_internal basis padding [] = []"

definition encode_base64 :: "bytes \<Rightarrow> bytes" where
  "encode_base64 src = encode_base64_internal encode_basis64 True src"

text \<open>The length of the text in front of the padding; \<open>None\<close> for a character that is not in the alphabet.\<close>

fun base64_scan :: "bytes \<Rightarrow> bytes \<Rightarrow> nat option" where
  "base64_scan basis [] = Some 0"
| "base64_scan basis (c # s) =
     (if c = 0x3D then Some 0
      else if basis_at basis c = 77 then None
      else map_option Suc (base64_scan basis s))"

fun decode_groups :: "bytes \<Rightarrow> bytes \<Rightarrow> bytes" where
  "decode_groups basis (a # b # c # d # s) =
     [push_bit 2 (basis_at basis a) OR drop_bit 4 (basis_at basis b),
      push_bit 4 (basis_at basis b) OR drop_bit 2 (basis_at basis c),
      push_bit 6 (basis_at basis c) OR basis_at basis d] @ decode_groups basis s"
| "decode_groups basis [a, b, c] =
     [push_bit 2 (basis_at basis a) OR drop_bit 4 (basis_at basis b),
      push_bit 4 (basis_at basis b) OR drop_bit 2 (basis_at basis c)]"
| "decode_groups basis [a, b] = [push_bit 2 (basis_at basis a) OR drop_bit 4 (basis_at basis b)]"
| "decode_groups basis [a] = []"
| "decode_groups basis [] = []"

text \<open>The return value, and the bytes written to \<open>dst\<close> if it is 0.\<close>

definition decode_base64_internal :: "bytes \<Rightarrow> bytes \<Rightarrow> int \<times> bytes" where
  "decode_base64_internal basis src =
     (case base64_scan basis src of None \<Rightarrow> (-1, [])
      | Some len \<Rightarrow> if len mod 4 = 1 then (-1, []) else (0, decode_groups basis (take len src)))"

definition decode_base64 :: "bytes \<Rightarrow> int \<times> bytes" where
  "decode_base64 src = decode_base64_internal decode_basis64 src"

definition base64_decoded_length :: "nat \<Rightarrow> nat" where
  "base64_decoded_length len = ((len + 3) div 4) * 3"

section \<open>Model: byte order\<close>

definition htonl :: "32 word \<Rightarrow> 32 word" where
  "htonl w = push_bit 24 w OR push_bit 8 (w AND 0xFF00) OR (drop_bit 8 w AND 0xFF00) OR drop_bit 24 w"

text \<open>The two halves are of type \<^verbatim>\<open>int32_t\<close>, so they are extended with their sign.\<close>

definition hl64ton :: "64 word \<Rightarrow> 64 word" where
  "hl64ton host =
     (let low = htonl (ucast (host AND 0xFFFFFFFF)); high = htonl (ucast (drop_bit 32 host AND 0xFFFFFFFF)) in
      push_bit 32 (scast low) OR scast high)"

definition ntohl64 :: "64 word \<Rightarrow> 64 word" where
  "ntohl64 host =
     (let low = htonl (ucast (host AND 0xFFFFFFFF)); high = htonl (ucast (drop_bit 32 host AND 0xFFFFFFFF)) in
      push_bit 32 (scast low) OR scast high)"

text \<open>An \<^verbatim>\<open>int64_t\<close> in memory.\<close>

definition int64_bytes :: "64 word \<Rightarrow> bytes" where
  "int64_bytes w = map (\<lambda>i. ucast (drop_bit (8 * i) w)) [0..<8]"

definition bytes_int64 :: "bytes \<Rightarrow> 64 word" where
  "bytes_int64 bs = foldr (\<lambda>b w. push_bit 8 w OR ucast b) bs 0"

section \<open>Model: the price\<close>

definition hmac_sha1_n :: "hmac_fun \<Rightarrow> bytes \<Rightarrow> bytes \<Rightarrow> nat \<Rightarrow> bytes" where
  "hmac_sha1_n hmac ekey data n = take n (hmac ekey data)"

definition xor_pad :: "bytes \<Rightarrow> bytes \<Rightarrow> bytes" where
  "xor_pad pad data = map2 (XOR) pad data"

abbreviation ENCRYPT_PRICE_LENGTH :: nat where "ENCRYPT_PRICE_LENGTH \<equiv> 28"

definition encrypt_price :: "hmac_fun \<Rightarrow> bytes \<Rightarrow> bytes \<Rightarrow> bytes \<Rightarrow> 64 word \<Rightarrow> bytes \<Rightarrow> bytes" where
  "encrypt_price hmac iv ekey ikey win_cpm_price result =
     (let pad = hmac_sha1_n hmac ekey iv 8;
          price = int64_bytes (hl64ton win_cpm_price);
          enc_price = xor_pad pad price;
          signature = hmac_sha1_n hmac ikey (price @ iv) 4;
          msg = iv @ enc_price @ signature in
      if length msg = ENCRYPT_PRICE_LENGTH then encode_base64 msg else result)"

text \<open>The members point into the decoded bytes: each is an offset and a length.\<close>

definition split_encrypt :: "nat \<Rightarrow> ((nat \<times> nat) \<times> (nat \<times> nat) \<times> (nat \<times> nat)) option" where
  "split_encrypt len = (if len \<noteq> 28 then None else Some ((0, 16), (16, 8), (24, 4)))"

text \<open>The block that is allocated for the bytes, and reading from it; a freed block is \<open>None\<close> and cannot be read.\<close>

definition slice :: "bytes option \<Rightarrow> nat \<times> nat \<Rightarrow> bytes option" where
  "slice block s = do { b \<leftarrow> block; if fst s + snd s \<le> length b then Some (take (snd s) (drop (fst s) b)) else None }"

definition adx_str_free :: "bytes option \<Rightarrow> bytes option" where
  "adx_str_free block = None"

text \<open>
  \<open>mem\<close>: both allocations of \<^verbatim>\<open>adx_str_new\<close> succeed.  Their results are not tested: without memory the
  function writes through a null pointer, \<open>None\<close>.  The result is the return value and \<open>price\<close>.
\<close>

definition decrypt_price :: "hmac_fun \<Rightarrow> bool \<Rightarrow> bytes \<Rightarrow> bytes \<Rightarrow> bytes \<Rightarrow> 64 word \<Rightarrow> (int \<times> 64 word) option" where
  "decrypt_price hmac mem text ekey ikey price =
     (if \<not> mem then None
      else let (res, e_price) = decode_base64 text; block = Some e_price in
        if res \<noteq> 0 then Some (-1, price)
        else case split_encrypt (length e_price) of None \<Rightarrow> Some (-2, price)
        | Some (iv, enc_price, signature) \<Rightarrow> do {
            iv \<leftarrow> slice block iv;
            let pad = hmac_sha1_n hmac ekey iv 8;
            enc_price \<leftarrow> slice block enc_price;
            let denc_price = xor_pad enc_price pad;
            let sig = hmac_sha1_n hmac ikey (denc_price @ iv) 4;
            let block = adx_str_free block;
            signature \<leftarrow> slice block signature;
            Some (if sig = signature then (0, ntohl64 (bytes_int64 denc_price)) else (-3, price)) })"

definition ekey0 :: bytes where "ekey0 = map of_char ''LDddztxx0MWPzQOW''"
definition ikey0 :: bytes where "ikey0 = map of_char ''Q7SHR27zfD6UAZLy''"

text \<open>
  A byte NUL in the decoded text ends the string that \<^verbatim>\<open>decrypt_price\<close> sees.  The value is the price as
  a number, before its conversion to \<^verbatim>\<open>double\<close>.
\<close>

definition DecodeWinningPrice :: "hmac_fun \<Rightarrow> bool \<Rightarrow> bytes \<Rightarrow> (int \<times> int) option" where
  "DecodeWinningPrice hmac mem encodedprice =
     (let (msg, decode_len) = urldecode encodedprice;
          msg = map (\<lambda>c. if c = 0x20 then 0x2B else c) msg in do {
        (rc, price) \<leftarrow> decrypt_price hmac mem (takeWhile (\<lambda>c. c \<noteq> 0) msg) ekey0 ikey0 0;
        Some (if rc \<noteq> 0 then (1, 0) else (0, sint price)) })"

section \<open>Base 64\<close>

lemma basis_round_trip:
  assumes "w < 64"
  shows "basis_at decode_basis64 (basis_at encode_basis64 w) = w"
    "basis_at encode_basis64 w \<noteq> 0x3D" "basis_at encode_basis64 w \<noteq> 0" "basis_at encode_basis64 w \<noteq> 0x25"
    "basis_at encode_basis64 w \<noteq> 0x20"
proof -
  let ?P = "\<lambda>k. (let c = encode_basis64 ! k in
     decode_basis64 ! unat c = of_nat k \<and> c \<noteq> 0x3D \<and> c \<noteq> 0 \<and> c \<noteq> 0x25 \<and> c \<noteq> 0x20)"
  have "list_all ?P [0..<64]"
    by (simp add: upt_rec encode_basis64_def decode_basis64_def)
  moreover have "unat w < 64" using assms by (simp add: word_less_nat_alt)
  ultimately have "?P (unat w)" by (simp add: list_all_iff Let_def)
  then show "basis_at decode_basis64 (basis_at encode_basis64 w) = w"
    "basis_at encode_basis64 w \<noteq> 0x3D" "basis_at encode_basis64 w \<noteq> 0" "basis_at encode_basis64 w \<noteq> 0x25"
    "basis_at encode_basis64 w \<noteq> 0x20"
    by (simp_all add: basis_at_def Let_def)
qed

lemma byte_eqI:
  fixes a b :: "8 word"
  assumes "bit a 0 = bit b 0" "bit a 1 = bit b 1" "bit a 2 = bit b 2" "bit a 3 = bit b 3"
    "bit a 4 = bit b 4" "bit a 5 = bit b 5" "bit a 6 = bit b 6" "bit a 7 = bit b 7"
  shows "a = b"
proof (rule bit_word_eqI)
  fix n assume "n < LENGTH(8)"
  then have "n \<in> {0, 1, 2, 3, 4, 5, 6, 7}" by auto
  with assms show "bit a n = bit b n" by auto
qed

lemma byte_no_bit: "8 \<le> n \<Longrightarrow> \<not> bit (w :: 8 word) n"
  by (auto dest: bit_imp_le_length)

lemma sextet_less: "w AND 0x3F < (64 :: 8 word)"
proof -
  have "w AND 0x3F \<le> 0x3F" by (rule word_and_le1)
  then show ?thesis by (rule order.strict_trans1) simp
qed

text \<open>The numbers whose characters are written for a group, and what decoding makes of them.\<close>

lemma sextets:
  fixes a b c :: "8 word"
  shows "drop_bit 2 a AND 0x3f < 64" "push_bit 4 (a AND 3) OR drop_bit 4 b < 64"
    "push_bit 2 (b AND 0x0f) OR drop_bit 6 c < 64" "push_bit 4 (a AND 3) < 64" "push_bit 2 (b AND 0x0f) < 64"
    "c AND 0x3f < 64"
proof -
  have m: "push_bit 4 (a AND 3) OR drop_bit 4 b = (push_bit 4 (a AND 3) OR drop_bit 4 b) AND 0x3F"
    "push_bit 2 (b AND 0x0f) OR drop_bit 6 c = (push_bit 2 (b AND 0x0f) OR drop_bit 6 c) AND 0x3F"
    "push_bit 4 (a AND 3) = push_bit 4 (a AND 3) AND 0x3F" "push_bit 2 (b AND 0x0f) = push_bit 2 (b AND 0x0f) AND 0x3F"
    by (rule byte_eqI; simp add: bit_simps byte_no_bit)+
  show "push_bit 4 (a AND 3) OR drop_bit 4 b < 64" "push_bit 2 (b AND 0x0f) OR drop_bit 6 c < 64"
    "push_bit 4 (a AND 3) < 64" "push_bit 2 (b AND 0x0f) < 64"
    by (subst m; rule sextet_less)+
  show "drop_bit 2 a AND 0x3f < 64" "c AND 0x3f < 64" by (rule sextet_less)+
qed

lemma sextet_bytes:
  fixes a b c :: "8 word"
  shows "push_bit 2 (drop_bit 2 a AND 0x3f) OR drop_bit 4 (push_bit 4 (a AND 3) OR drop_bit 4 b) = a"
    "push_bit 2 (drop_bit 2 a AND 0x3f) OR drop_bit 4 (push_bit 4 (a AND 3)) = a"
    "push_bit 4 (push_bit 4 (a AND 3) OR drop_bit 4 b) OR drop_bit 2 (push_bit 2 (b AND 0x0f) OR drop_bit 6 c) = b"
    "push_bit 4 (push_bit 4 (a AND 3) OR drop_bit 4 b) OR drop_bit 2 (push_bit 2 (b AND 0x0f)) = b"
    "push_bit 6 (push_bit 2 (b AND 0x0f) OR drop_bit 6 c) OR (c AND 0x3f) = c"
  by (rule byte_eqI; simp add: bit_simps byte_no_bit)+

text \<open>The encoded text: the characters of numbers below 64 and the padding.\<close>

definition chars64 :: "bytes \<Rightarrow> bytes" where
  "chars64 ks = map (basis_at encode_basis64) ks"

lemma chars64_simps [simp]: "chars64 [] = []" "chars64 (k # ks) = basis_at encode_basis64 k # chars64 ks"
  "length (chars64 ks) = length ks" "chars64 (ks @ ls) = chars64 ks @ chars64 ls"
  by (simp_all add: chars64_def)

lemma encode_shape:
  "\<exists>ks n. encode_base64_internal encode_basis64 True s = chars64 ks @ replicate n 0x3D \<and>
     list_all (\<lambda>k. k < 64) ks \<and> length ks mod 4 \<noteq> 1 \<and> decode_groups decode_basis64 (chars64 ks) = s \<and>
     length ks + n = 4 * ((length s + 2) div 3)"
proof (induction "encode_basis64" True s rule: encode_base64_internal.induct)
  case (1 a b c s)
  then obtain ks n where ih: "encode_base64_internal encode_basis64 True s = chars64 ks @ replicate n 0x3D"
    "list_all (\<lambda>k. k < 64) ks" "length ks mod 4 \<noteq> 1" "decode_groups decode_basis64 (chars64 ks) = s"
    "length ks + n = 4 * ((length s + 2) div 3)" by auto
  define k1 k2 k3 k4 where k: "k1 = drop_bit 2 a AND 0x3f" "k2 = push_bit 4 (a AND 3) OR drop_bit 4 b"
    "k3 = push_bit 2 (b AND 0x0f) OR drop_bit 6 c" "k4 = c AND 0x3f"
  have less: "k1 < 64" "k2 < 64" "k3 < 64" "k4 < 64" unfolding k by (rule sextets)+
  have group: "push_bit 2 k1 OR drop_bit 4 k2 = a" "push_bit 4 k2 OR drop_bit 2 k3 = b" "push_bit 6 k3 OR k4 = c"
    unfolding k by (rule sextet_bytes)+
  let ?g = "[k1, k2, k3, k4]"
  have "list_all (\<lambda>k. k < 64) (?g @ ks)" using ih(2) less by simp
  moreover have "decode_groups decode_basis64 (chars64 (?g @ ks)) = a # b # c # s"
    using ih(4) by (simp add: basis_round_trip(1) less group)
  moreover have "length (?g @ ks) + n = 4 * ((length (a # b # c # s) + 2) div 3)"
    using ih(5) div_add_self1 [of 3 "length s + 2"] by (simp add: algebra_simps)
  moreover have "length (?g @ ks) mod 4 \<noteq> 1" using ih(3) by simp
  moreover have "encode_base64_internal encode_basis64 True (a # b # c # s) = chars64 (?g @ ks) @ replicate n 0x3D"
    using ih(1) by (simp add: k)
  ultimately show ?case by blast
next
  case (2 a b)
  define k1 k2 k3 where k: "k1 = drop_bit 2 a AND 0x3f" "k2 = push_bit 4 (a AND 3) OR drop_bit 4 b"
    "k3 = push_bit 2 (b AND 0x0f)"
  have less: "k1 < 64" "k2 < 64" "k3 < 64" unfolding k by (rule sextets)+
  have group: "push_bit 2 k1 OR drop_bit 4 k2 = a" "push_bit 4 k2 OR drop_bit 2 k3 = b"
    unfolding k by (rule sextet_bytes)+
  have "encode_base64_internal encode_basis64 True [a, b] = chars64 [k1, k2, k3] @ replicate 1 0x3D"
    by (simp add: k)
  moreover have "decode_groups decode_basis64 (chars64 [k1, k2, k3]) = [a, b]"
    by (simp add: basis_round_trip(1) less group)
  ultimately show ?case using less by (intro exI [of _ "[k1, k2, k3]"] exI [of _ 1]) simp
next
  case (3 a)
  define k1 k2 where k: "k1 = drop_bit 2 a AND 0x3f" "k2 = push_bit 4 (a AND 3)"
  have less: "k1 < 64" "k2 < 64" unfolding k by (rule sextets)+
  have group: "push_bit 2 k1 OR drop_bit 4 k2 = a" unfolding k by (rule sextet_bytes)
  have "encode_base64_internal encode_basis64 True [a] = chars64 [k1, k2] @ replicate 2 0x3D"
    by (simp add: k numeral_2_eq_2)
  moreover have "decode_groups decode_basis64 (chars64 [k1, k2]) = [a]"
    by (simp add: basis_round_trip(1) less group)
  ultimately show ?case using less by (intro exI [of _ "[k1, k2]"] exI [of _ 2]) simp
next
  case 4
  show ?case by (intro exI [of _ "[]"] exI [of _ 0]) simp
qed

lemma scan_chars64:
  "list_all (\<lambda>k. k < 64) ks \<Longrightarrow> base64_scan decode_basis64 (chars64 ks @ replicate n 0x3D) = Some (length ks)"
proof (induction ks)
  case Nil
  then show ?case by (cases n) simp_all
next
  case (Cons k ks)
  then have "k < 64" by simp
  then have "k \<noteq> 77" by auto
  with Cons \<open>k < 64\<close> show ?case by (simp add: basis_round_trip)
qed

lemma decode_encode_base64: "decode_base64 (encode_base64 s) = (0, s)"
proof -
  obtain ks n where e: "encode_base64_internal encode_basis64 True s = chars64 ks @ replicate n 0x3D"
    "list_all (\<lambda>k. k < 64) ks" "length ks mod 4 \<noteq> 1" "decode_groups decode_basis64 (chars64 ks) = s"
    using encode_shape by blast
  then show ?thesis
    by (simp add: decode_base64_def encode_base64_def decode_base64_internal_def scan_chars64)
qed

lemma encode_base64_chars: "c \<in> set (encode_base64 s) \<Longrightarrow> c \<noteq> 0 \<and> c \<noteq> 0x20 \<and> c \<noteq> 0x25"
proof -
  assume c: "c \<in> set (encode_base64 s)"
  obtain ks n where e: "encode_base64 s = chars64 ks @ replicate n 0x3D" "list_all (\<lambda>k. k < 64) ks"
    using encode_shape [of s] unfolding encode_base64_def by blast
  from c e consider "c = 0x3D" | k where "k < 64" "c = basis_at encode_basis64 k"
    by (auto simp: chars64_def list_all_iff)
  then show ?thesis by cases (auto simp: basis_round_trip)
qed

lemma encode_base64_length: "length (encode_base64 s) = 4 * ((length s + 2) div 3)"
  using encode_shape [of s] unfolding encode_base64_def by fastforce

text \<open>The decoder stays inside the buffer that is allocated for it.\<close>

lemma decode_groups_length: "length (decode_groups basis s) \<le> base64_decoded_length (length s)"
proof (induction basis s rule: decode_groups.induct)
  case (1 basis a b c d s)
  have "base64_decoded_length (length (a # b # c # d # s)) = 3 + base64_decoded_length (length s)"
    using div_add_self1 [of 4 "length s + 3"] by (simp add: base64_decoded_length_def algebra_simps)
  with 1 show ?case by simp
qed (simp_all add: base64_decoded_length_def)

lemma base64_scan_le: "base64_scan basis s = Some n \<Longrightarrow> n \<le> length s"
  by (induction s arbitrary: n) (auto split: if_splits)

lemma base64_decoded_length_mono: "m \<le> n \<Longrightarrow> base64_decoded_length m \<le> base64_decoded_length n"
  unfolding base64_decoded_length_def by (intro mult_right_mono div_le_mono) simp_all

lemma decode_base64_fits: "length (snd (decode_base64 s)) \<le> base64_decoded_length (length s)"
proof (cases "base64_scan decode_basis64 s")
  case (Some n)
  then have "length (take n s) = n" using base64_scan_le by fastforce
  then have "length (decode_groups decode_basis64 (take n s)) \<le> base64_decoded_length (length s)"
    using decode_groups_length [of decode_basis64 "take n s"] base64_decoded_length_mono [OF base64_scan_le [OF Some]]
    by simp
  with Some show ?thesis by (simp add: decode_base64_def decode_base64_internal_def)
qed (simp add: decode_base64_def decode_base64_internal_def)

section \<open>Text in a URL\<close>

text \<open>\<open>url_form t u\<close>: \<open>u\<close> is \<open>t\<close> with any of its characters escaped.\<close>

inductive url_form :: "bytes \<Rightarrow> bytes \<Rightarrow> bool" where
  url_nil: "url_form [] []"
| url_plain: "c \<noteq> 0x25 \<Longrightarrow> url_form t u \<Longrightarrow> url_form (c # t) (c # u)"
| url_escape: "byte_isxdigit a \<Longrightarrow> byte_isxdigit b \<Longrightarrow> url_form t u \<Longrightarrow>
    url_form ((hex_digit a * 16 + hex_digit b) # t) (0x25 # a # b # u)"

lemma urldecode_plain:
  assumes "c \<noteq> 0x25"
  shows "urldecode_loop (c # u) = (if c = 0x2B then 0x20 else c) # urldecode_loop u"
  using assms by (subst urldecode_loop.simps) (simp del: urldecode_loop.simps split: list.split)

lemma urldecode_escape:
  assumes "byte_isxdigit a" "byte_isxdigit b"
  shows "urldecode_loop (0x25 # a # b # u) = (hex_digit a * 16 + hex_digit b) # urldecode_loop u"
  using assms by (subst urldecode_loop.simps) (simp del: urldecode_loop.simps)

lemma urldecode_form:
  "url_form t u \<Longrightarrow> 0x20 \<notin> set t \<Longrightarrow> map (\<lambda>c. if c = 0x20 then 0x2B else c) (urldecode_loop u) = t"
  by (induction rule: url_form.induct) (simp_all add: urldecode_plain urldecode_escape del: urldecode_loop.simps(2))

section \<open>Byte order\<close>

lemma word32_no_bit: "32 \<le> n \<Longrightarrow> \<not> bit (w :: 32 word) n"
  by (auto dest: bit_imp_le_length)

lemma bit_htonl:
  "bit (htonl w) n \<longleftrightarrow> (if n < 8 then bit w (n + 24) else if n < 16 then bit w (n + 8)
     else if n < 24 then bit w (n - 8) else n < 32 \<and> bit w (n - 24))"
proof -
  have m: "(0xFF00 :: 32 word) = push_bit 8 (mask 8)" by (simp add: mask_eq_exp_minus_1)
  have a: "n + 8 - 16 = n - 8" "8 + n = n + 8" "24 + n = n + 24" by simp_all
  show ?thesis unfolding htonl_def m by (auto simp: bit_simps word32_no_bit a)
qed

lemma htonl_htonl: "htonl (htonl w) = w"
  by (rule bit_word_eqI) (auto simp: bit_htonl)

text \<open>The halves of an \<^verbatim>\<open>int64_t\<close> and the assignments that put it together again.\<close>

definition lo32 :: "64 word \<Rightarrow> 32 word" where "lo32 x = ucast x"
definition hi32 :: "64 word \<Rightarrow> 32 word" where "hi32 x = ucast (drop_bit 32 x)"

definition join32 :: "32 word \<Rightarrow> 32 word \<Rightarrow> 64 word" where
  "join32 low high = push_bit 32 (scast low) OR scast high"

lemma halves: "(ucast (x AND 0xFFFFFFFF) :: 32 word) = lo32 x"
    "(ucast (drop_bit 32 x AND 0xFFFFFFFF) :: 32 word) = hi32 (x :: 64 word)"
proof -
  have m: "(0xFFFFFFFF :: 64 word) = mask 32" by (simp add: mask_eq_exp_minus_1)
  show "(ucast (x AND 0xFFFFFFFF) :: 32 word) = lo32 x" "(ucast (drop_bit 32 x AND 0xFFFFFFFF) :: 32 word) = hi32 x"
    unfolding m lo32_def hi32_def by (rule bit_word_eqI; auto simp: bit_simps)+
qed

lemma lo32_drop: "lo32 (drop_bit 32 x) = hi32 x"
  by (simp add: lo32_def hi32_def)

lemma hl64ton_join: "hl64ton x = join32 (htonl (lo32 x)) (htonl (hi32 x))"
  and ntohl64_join: "ntohl64 x = join32 (htonl (lo32 x)) (htonl (hi32 x))"
  by (simp_all add: hl64ton_def ntohl64_def halves lo32_drop join32_def)

lemma halves_join:
  "lo32 (join32 l h) = h" "hi32 (join32 l h) = (if bit h 31 then -1 else l)"
  by (rule bit_word_eqI; auto simp: lo32_def hi32_def join32_def bit_simps min_def not_le less_Suc_eq_le dest: le_antisym)+

lemma halves_eqI: "lo32 x = lo32 y \<Longrightarrow> hi32 x = hi32 y \<Longrightarrow> x = y"
proof (rule bit_word_eqI)
  fix n
  assume e: "lo32 x = lo32 y" "hi32 x = hi32 y" and n: "n < LENGTH(64)"
  show "bit x n \<longleftrightarrow> bit y n"
  proof (cases "n < 32")
    case True
    then have "bit z n \<longleftrightarrow> bit (lo32 z) n" for z by (simp add: lo32_def bit_simps)
    with e show ?thesis by simp
  next
    case False
    then have "bit z n \<longleftrightarrow> bit (hi32 z) (n - 32)" for z using n by (simp add: hi32_def bit_simps) linarith
    with e show ?thesis by simp
  qed
qed

lemma hl64_round_trip: "ntohl64 (hl64ton x) = x \<longleftrightarrow> x = -1 \<or> \<not> bit x 31 \<and> \<not> bit x 39"
proof -
  define l h where lh: "l = lo32 x" "h = hi32 x"
  have b: "bit (htonl h) 31 = bit h 7" "bit (htonl (-1 :: 32 word)) 31" "htonl (-1) = -1"
    by (simp_all add: bit_htonl) (rule bit_word_eqI, auto simp: bit_htonl)
  define l' where "l' = (if bit h 7 then -1 else l)"
  have z: "ntohl64 (hl64ton x) = join32 h l'"
    by (simp add: ntohl64_join hl64ton_join halves_join b htonl_htonl l'_def if_distrib [of htonl] lh [symmetric])
  have x: "bit x 31 = bit l 31" "bit x 39 = bit h 7" "x = -1 \<longleftrightarrow> l = -1 \<and> h = -1"
  proof -
    show "bit x 31 = bit l 31" "bit x 39 = bit h 7" by (simp_all add: lh lo32_def hi32_def bit_simps)
    have "lo32 (-1) = -1" "hi32 (-1) = -1"
      by (rule bit_word_eqI; simp add: lo32_def hi32_def bit_simps)+
    then show "x = -1 \<longleftrightarrow> l = -1 \<and> h = -1" using halves_eqI [of x "-1"] by (auto simp: lh)
  qed
  have "join32 h l' = x \<longleftrightarrow> l' = l \<and> (if bit l' 31 then -1 else h) = h"
    using halves_eqI [of "join32 h l'" x] halves_join [of h l'] by (auto simp: lh)
  also have "\<dots> \<longleftrightarrow> x = -1 \<or> \<not> bit x 31 \<and> \<not> bit x 39"
    unfolding x l'_def by (cases "bit h 7"; cases "bit l 31") (auto simp: bit_simps)
  finally show ?thesis unfolding z .
qed

lemma foldr_bytes:
  "foldr (\<lambda>b v. push_bit 8 v OR ucast b) (map (\<lambda>i. ucast (drop_bit (8 * i) w) :: 8 word) [k..<k + n]) (0 :: 64 word) =
     take_bit (8 * n) (drop_bit (8 * k) w)"
proof (induction n arbitrary: k)
  case (Suc n)
  have "[k..<k + Suc n] = k # [Suc k..<Suc k + n]" by (simp add: upt_conv_Cons)
  then show ?case
    unfolding list.map foldr_Cons comp_def using Suc [of "Suc k"]
    by (simp only:) (rule bit_word_eqI, auto simp: bit_simps algebra_simps)
qed simp

lemma bytes_int64_bytes: "bytes_int64 (int64_bytes w) = w" "length (int64_bytes w) = 8"
proof -
  have "take_bit 64 w = w" by (rule take_bit_word_eq_self) simp
  then show "bytes_int64 (int64_bytes w) = w" using foldr_bytes [of w 0 8] by (simp add: bytes_int64_def int64_bytes_def)
  show "length (int64_bytes w) = 8" by (simp add: int64_bytes_def)
qed

lemma xor_pad_twice: "length a = length b \<Longrightarrow> xor_pad (xor_pad a b) a = b" "length (xor_pad a b) = min (length a) (length b)"
proof -
  show "length a = length b \<Longrightarrow> xor_pad (xor_pad a b) a = b"
    by (induction a b rule: list_induct2) (simp_all add: xor_pad_def xor.assoc [symmetric] xor.commute)
  show "length (xor_pad a b) = min (length a) (length b)" by (simp add: xor_pad_def)
qed

section \<open>Encryption and decryption\<close>

text \<open>What the code relies on of OpenSSL.\<close>

definition sha1_hmac :: "hmac_fun \<Rightarrow> bool" where
  "sha1_hmac hmac \<longleftrightarrow> (\<forall>k d. length (hmac k d) = 20)"

lemma xor_pad_commute: "length a = length b \<Longrightarrow> xor_pad a b = xor_pad b a"
  by (induction a b rule: list_induct2) (simp_all add: xor_pad_def xor.commute)

lemma xor_pad_pad:
  assumes "length pad = length plain"
  shows "xor_pad (xor_pad pad plain) pad = plain" "xor_pad pad (xor_pad plain pad) = plain"
  using xor_pad_twice(1) [OF assms] xor_pad_commute [of plain pad] xor_pad_commute [of "xor_pad pad plain" pad] assms
  by (simp_all add: xor_pad_twice)

text \<open>A message of 28 bytes is read after its block is freed; every other text is refused.\<close>

lemma decrypt_price_cases:
  "decrypt_price hmac True text ekey ikey price =
     (if fst (decode_base64 text) \<noteq> 0 then Some (-1, price)
      else if length (snd (decode_base64 text)) \<noteq> 28 then Some (-2, price) else None)"
  by (simp add: decrypt_price_def split_encrypt_def slice_def adx_str_free_def Let_def split: prod.split)

text \<open>The message of the exchange: the vector, the encrypted price and the start of the signature.\<close>

lemma encrypt_price_message:
  assumes "sha1_hmac hmac" "length iv = 16" "plain = int64_bytes (hl64ton x)"
  shows "encrypt_price hmac iv ekey ikey x r =
      encode_base64 (iv @ xor_pad (take 8 (hmac ekey iv)) plain @ take 4 (hmac ikey (plain @ iv)))"
    "length (iv @ xor_pad (take 8 (hmac ekey iv)) plain @ take 4 (hmac ikey (plain @ iv))) = 28"
  using assms by (simp_all add: encrypt_price_def hmac_sha1_n_def sha1_hmac_def xor_pad_twice bytes_int64_bytes Let_def)

section \<open>Properties\<close>

text \<open>
  C6. No genuine price is ever read with defined behaviour: for every price that the exchange encrypts with the
  keys of the bidder and every way to escape its text in the URL, \<open>DecodeWinningPrice\<close> decodes the text to
  the 28 bytes of the message, frees them, and then compares the signature in the freed bytes.
\<close>

theorem winning_price_undefined:
  assumes "sha1_hmac hmac" "length iv = 16" "url_form (encrypt_price hmac iv ekey0 ikey0 x r) u"
  shows "DecodeWinningPrice hmac mem u = None"
proof -
  obtain e where e: "encrypt_price hmac iv ekey0 ikey0 x r = encode_base64 e" "length e = 28"
    using encrypt_price_message [OF assms(1,2) refl] by blast
  have "0x20 \<notin> set (encode_base64 e)" "0 \<notin> set (encode_base64 e)" using encode_base64_chars by blast+
  then have t: "map (\<lambda>c. if c = 0x20 then 0x2B else c) (urldecode_loop u) = encode_base64 e"
    "takeWhile (\<lambda>c. c \<noteq> 0) (encode_base64 e) = encode_base64 e"
    using urldecode_form [of "encode_base64 e" u] assms(3) e(1) by (auto simp: takeWhile_eq_all_conv)
  have "decrypt_price hmac mem (encode_base64 e) ekey0 ikey0 0 = None"
    by (cases mem) (simp_all add: decrypt_price_cases decode_encode_base64 e(2), simp add: decrypt_price_def)
  then show ?thesis using t by (simp add: DecodeWinningPrice_def urldecode_def Let_def del: takeWhile_eq_all_conv)
qed

text \<open>A function with results of 20 bytes.\<close>

definition toy_hmac :: hmac_fun where
  "toy_hmac k d = map (\<lambda>i. foldl (\<lambda>a b. a * 31 + b + of_nat i) 7 (k @ d)) [0..<20]"

lemma toy_hmac: "sha1_hmac toy_hmac"
  by (simp add: sha1_hmac_def toy_hmac_def)

lemma url_form_refl: "0x25 \<notin> set t \<Longrightarrow> url_form t t"
  by (induction t) (auto intro: url_form.intros)

theorem winning_price_undefined_witness:
  "DecodeWinningPrice toy_hmac True (encrypt_price toy_hmac (replicate 16 0x61) ekey0 ikey0 1999 []) = None"
proof (rule winning_price_undefined [OF toy_hmac])
  show iv: "length (replicate 16 0x61 :: bytes) = 16" by simp
  have "0x25 \<notin> set (encrypt_price toy_hmac (replicate 16 0x61) ekey0 ikey0 1999 [])"
    unfolding encrypt_price_message(1) [OF toy_hmac iv refl] using encode_base64_chars by blast
  then show "url_form (encrypt_price toy_hmac (replicate 16 0x61) ekey0 ikey0 1999 [])
      (encrypt_price toy_hmac (replicate 16 0x61) ekey0 ikey0 1999 [])" by (rule url_form_refl)
qed

text \<open>
  C37. What \<open>encrypt_price\<close> sends, for a vector of 16 bytes: the text decodes to the vector, 8 bytes and 4 bytes; with
  the key stream of the vector the 8 bytes give the bytes that the 4 bytes sign together with the vector;
  and converting these from network order gives the price, if and only if bits 31 and 39 of the price are clear (in
  particular for prices below \<open>2 ^ 31\<close>) or the price is -1.  For every other price the two byte-order
  functions, which extend the halves with their signs, change the number.  The decoded bytes fit the
  buffer that is allocated for them.
\<close>

theorem encrypt_price_opens:
  assumes "sha1_hmac hmac" "length iv = 16"
  shows "\<exists>enc sig plain. decode_base64 (encrypt_price hmac iv ekey ikey x r) = (0, iv @ enc @ sig) \<and>
     length enc = 8 \<and> length sig = 4 \<and> plain = xor_pad enc (hmac_sha1_n hmac ekey iv 8) \<and>
     sig = hmac_sha1_n hmac ikey (plain @ iv) 4 \<and>
     (ntohl64 (bytes_int64 plain) = x \<longleftrightarrow> x = -1 \<or> \<not> bit x 31 \<and> \<not> bit x 39) \<and>
     28 \<le> base64_decoded_length (length (encrypt_price hmac iv ekey ikey x r))"
proof -
  define plain where p: "plain = int64_bytes (hl64ton x)"
  let ?pad = "take 8 (hmac ekey iv)" and ?sig = "take 4 (hmac ikey (plain @ iv))"
  note m = encrypt_price_message(1) [OF assms p, of ekey ikey r] encrypt_price_message(2) [OF assms p, of ekey ikey]
  have len: "length ?pad = length plain" "length plain = 8" "length ?sig = 4"
    using assms(1) by (simp_all add: sha1_hmac_def p bytes_int64_bytes)
  have "28 \<le> base64_decoded_length (length (encrypt_price hmac iv ekey ikey x r))"
    using decode_base64_fits [of "encrypt_price hmac iv ekey ikey x r"] unfolding m(1) decode_encode_base64 using m(2) by simp
  moreover have "ntohl64 (bytes_int64 plain) = x \<longleftrightarrow> x = -1 \<or> \<not> bit x 31 \<and> \<not> bit x 39"
    by (simp add: p bytes_int64_bytes hl64_round_trip)
  ultimately show ?thesis using len xor_pad_pad(1) [OF len(1)]
    by (intro exI [of _ "xor_pad ?pad plain"] exI [of _ ?sig] exI [of _ plain]) (simp add: m(1) decode_encode_base64 hmac_sha1_n_def xor_pad_twice)
qed

theorem encrypt_price_opens_witness:
  "\<exists>enc sig. decode_base64 (encrypt_price toy_hmac (replicate 16 0x61) ekey0 ikey0 1999 []) = (0, replicate 16 0x61 @ enc @ sig) \<and>
     ntohl64 (bytes_int64 (xor_pad enc (hmac_sha1_n toy_hmac ekey0 (replicate 16 0x61) 8))) = 1999"
  using encrypt_price_opens [OF toy_hmac, of "replicate 16 0x61" ekey0 ikey0 1999 "[]"] by auto

end
