(* ===== verification/Price_Sha1.thy ===== *)
theory Price_Sha1
  imports Adx_Prelude
begin

text \<open>
  SHA-1 and HMAC-SHA1 of \<^verbatim>\<open>BidCore/common/adx_decode/zplay/hmac_sha1.c\<close>.  The code computes in
  \<^verbatim>\<open>unsigned long\<close>, 64 bits, with masks, and pads the message in the buffer it is given; a write behind
  the end of the buffer is \<open>None\<close>.  \<open>sha1_spec\<close> and \<open>hmac_spec\<close> are the standards (FIPS 180-1 and
  RFC 2104) on 32-bit words.  Numbers of type \<^verbatim>\<open>int\<close> that count bytes are not negative.
\<close>

section \<open>Model: the functions of a round\<close>

text \<open>For a \<open>t\<close> of 80 or more, which is never passed, the code returns an uninitialised variable.\<close>

definition ft :: "nat \<Rightarrow> 64 word \<Rightarrow> 64 word \<Rightarrow> 64 word \<Rightarrow> 64 word" where
  "ft t x y z =
     (if t < 20 then (let a = x AND y; b = NOT x AND z in a XOR b)
      else if t < 40 then x XOR y XOR z
      else if t < 60 then (let a = x AND y; b = a XOR (x AND z) in b XOR (y AND z))
      else (x XOR y) XOR z)"

definition sha1_k :: "nat \<Rightarrow> 64 word" where
  "sha1_k t = (if t < 20 then 0x5a827999 else if t < 40 then 0x6ed9eba1 else if t < 60 then 0x8f1bbcdc else 0xca62c1d6)"

text \<open>The mask is computed in \<^verbatim>\<open>int\<close>.\<close>

definition rotl :: "nat \<Rightarrow> 64 word \<Rightarrow> 64 word" where
  "rotl bits a =
     (let c = scast ((push_bit (32 - bits) 1 :: 32 word) - 1); d = NOT c;
          e = push_bit bits (a AND c); f = drop_bit (32 - bits) (a AND d); g = e OR f in
      g AND 0xffffffff)"

definition rotr :: "nat \<Rightarrow> 64 word \<Rightarrow> 64 word" where
  "rotr bits a =
     (let c = scast ((push_bit bits 1 :: 32 word) - 1); d = NOT c;
          e = drop_bit bits (a AND d); f = push_bit (32 - bits) (a AND c); g = e OR f in
      g AND 0xffffffff)"

section \<open>Model: SHA-1\<close>

definition set_byte :: "8 word list \<Rightarrow> nat \<Rightarrow> 8 word \<Rightarrow> 8 word list option" where
  "set_byte m i v = (if i < length m then Some (m[i := v]) else None)"

fun clear_from :: "8 word list \<Rightarrow> nat \<Rightarrow> nat \<Rightarrow> 8 word list option" where
  "clear_from m i 0 = Some m"
| "clear_from m i (Suc n) = do { m \<leftarrow> set_byte m i 0; clear_from m (Suc i) n }"

definition num_blocks :: "nat \<Rightarrow> nat" where
  "num_blocks message_length =
     (let padded_length = message_length + 8 + 1; n = padded_length div 64 in
      if 0 < padded_length mod 64 then n + 1 else n)"

text \<open>The length in bits is the product of two \<^verbatim>\<open>int\<close>s.\<close>

definition pad_message :: "8 word list \<Rightarrow> nat \<Rightarrow> 8 word list option" where
  "pad_message message message_length =
     (let n = num_blocks message_length; l = (scast ((of_nat message_length :: 32 word) * 8) :: 64 word) in do {
        message \<leftarrow> clear_from message message_length (n * 64 - message_length);
        message \<leftarrow> set_byte message message_length 0x80;
        message \<leftarrow> set_byte message (n * 64 - 1) (ucast (l AND 0xff));
        message \<leftarrow> set_byte message (n * 64 - 2) (ucast (drop_bit 8 l AND 0xff));
        message \<leftarrow> set_byte message (n * 64 - 3) (ucast (drop_bit 16 l AND 0xff));
        set_byte message (n * 64 - 4) (ucast (drop_bit 24 l AND 0xff)) })"

text \<open>The message schedule of block \<open>i\<close>: the array \<^verbatim>\<open>w\<close> is filled from its start.\<close>

definition schedule_word :: "8 word list \<Rightarrow> nat \<Rightarrow> 32 word list \<Rightarrow> nat \<Rightarrow> 32 word" where
  "schedule_word message i w t =
     (if t < 16 then
        (256 * 256 * 256) * ucast (message ! (i * 64 + t * 4)) + (256 * 256) * ucast (message ! (i * 64 + t * 4 + 1)) +
        256 * ucast (message ! (i * 64 + t * 4 + 2)) + ucast (message ! (i * 64 + t * 4 + 3))
      else ucast (rotl 1 (ucast (w ! (t - 3) XOR w ! (t - 8) XOR w ! (t - 14) XOR w ! (t - 16)))))"

definition schedule :: "8 word list \<Rightarrow> nat \<Rightarrow> 32 word list" where
  "schedule message i = foldl (\<lambda>w t. w @ [schedule_word message i w t]) [] [0..<80]"

type_synonym 'w sha_state = "'w \<times> 'w \<times> 'w \<times> 'w \<times> 'w"

definition round_step :: "32 word list \<Rightarrow> 64 word sha_state \<Rightarrow> nat \<Rightarrow> 64 word sha_state" where
  "round_step w s t =
     (case s of (a, b, c, d, e) \<Rightarrow>
        let temp = (rotl 5 a + ft t b c d) AND 0xffffffff;
            temp = (temp + e) AND 0xffffffff;
            temp = (temp + sha1_k t) AND 0xffffffff;
            temp = (temp + ucast (w ! t)) AND 0xffffffff in
        (temp, a, rotl 30 b, c, d))"

definition hash_block :: "8 word list \<Rightarrow> 64 word sha_state \<Rightarrow> nat \<Rightarrow> 64 word sha_state" where
  "hash_block message h i =
     (let w = schedule message i in
      case (h, foldl (round_step w) h [0..<80]) of ((h0, h1, h2, h3, h4), (a, b, c, d, e)) \<Rightarrow>
        ((a + h0) AND 0xffffffff, (b + h1) AND 0xffffffff, (c + h2) AND 0xffffffff, (d + h3) AND 0xffffffff,
         (e + h4) AND 0xffffffff))"

definition digest_word :: "64 word \<Rightarrow> 8 word list" where
  "digest_word h = [ucast (drop_bit 24 h AND 0xff), ucast (drop_bit 16 h AND 0xff), ucast (drop_bit 8 h AND 0xff),
     ucast (h AND 0xff)]"

definition digest_bytes :: "64 word sha_state \<Rightarrow> 8 word list" where
  "digest_bytes h = (case h of (h0, h1, h2, h3, h4) \<Rightarrow>
     digest_word h0 @ digest_word h1 @ digest_word h2 @ digest_word h3 @ digest_word h4)"

text \<open>The message buffer afterwards, and the digest.\<close>

definition sha1 :: "8 word list \<Rightarrow> nat \<Rightarrow> (8 word list \<times> 8 word list) option" where
  "sha1 message message_length = do {
     message \<leftarrow> pad_message message message_length;
     let h = foldl (hash_block message) (0x67452301, 0xefcdab89, 0x98badcfe, 0x10325476, 0xc3d2e1f0)
       [0..<num_blocks message_length];
     Some (message, digest_bytes h) }"

section \<open>Model: HMAC\<close>

abbreviation MAX_MESSAGE_LENGTH :: nat where "MAX_MESSAGE_LENGTH \<equiv> 4096"

text \<open>
  \<open>size8\<close> is the size of the local array \<^verbatim>\<open>step8data\<close>.  The buffer \<open>key\<close> may be longer than the key.
  What local arrays hold before they are written is 0 in the model; no byte of it is read.
\<close>

definition hmac_key :: "8 word list \<Rightarrow> nat \<Rightarrow> 8 word list option" where
  "hmac_key key key_length =
     (if key_length \<noteq> 64 then
        if 64 < key_length then do {
          (_, digest) \<leftarrow> sha1 key key_length;
          Some (digest @ replicate 44 0) }
        else Some (take key_length key @ replicate (64 - key_length) 0)
      else Some (take 64 key))"

definition hmac_sha1_sized ::
    "nat \<Rightarrow> 8 word list \<Rightarrow> nat \<Rightarrow> 8 word list \<Rightarrow> nat \<Rightarrow> 8 word list option" where
  "hmac_sha1_sized size8 key key_length data data_length = do {
     (if length key < key_length then None else Some ());
     k0 \<leftarrow> hmac_key key key_length;
     let k0xorIpad = map (\<lambda>b. b XOR 0x36) k0;
     (if length data < data_length \<or> MAX_MESSAGE_LENGTH + 128 < 64 + data_length then None else Some ());
     let step5data = k0xorIpad @ take data_length data @
       replicate (MAX_MESSAGE_LENGTH + 128 - 64 - data_length) 0;
     (_, digest) \<leftarrow> sha1 step5data (data_length + 64);
     let step7data = map (\<lambda>b. b XOR 0x5c) k0;
     let step8data = step7data @ digest @ replicate (size8 - 84) 0;
     (_, digest) \<leftarrow> sha1 step8data (64 + 20);
     Some digest }"

definition hmac_sha1 :: "8 word list \<Rightarrow> nat \<Rightarrow> 8 word list \<Rightarrow> nat \<Rightarrow> 8 word list option" where
  "hmac_sha1 key key_length data data_length = hmac_sha1_sized (64 + 20) key key_length data data_length"

section \<open>The standards\<close>

definition sha_f :: "nat \<Rightarrow> 32 word \<Rightarrow> 32 word \<Rightarrow> 32 word \<Rightarrow> 32 word" where
  "sha_f t b c d =
     (if t < 20 then (b AND c) OR (NOT b AND d)
      else if t < 40 then b XOR c XOR d
      else if t < 60 then (b AND c) OR (b AND d) OR (c AND d)
      else b XOR c XOR d)"

definition sha_K :: "nat \<Rightarrow> 32 word" where
  "sha_K t = (if t < 20 then 0x5A827999 else if t < 40 then 0x6ED9EBA1 else if t < 60 then 0x8F1BBCDC else 0xCA62C1D6)"

definition big_endian :: "8 word list \<Rightarrow> 32 word" where
  "big_endian bs = foldl (\<lambda>w b. w * 256 + ucast b) 0 bs"

text \<open>The 80 words of a block of 64 bytes.\<close>

fun sha_W :: "8 word list \<Rightarrow> nat \<Rightarrow> 32 word" where
  "sha_W block t =
     (if t < 16 then big_endian (take 4 (drop (4 * t) block))
      else word_rotl 1 (sha_W block (t - 3) XOR sha_W block (t - 8) XOR sha_W block (t - 14) XOR sha_W block (t - 16)))"

declare sha_W.simps [simp del]

definition sha_round :: "8 word list \<Rightarrow> 32 word sha_state \<Rightarrow> nat \<Rightarrow> 32 word sha_state" where
  "sha_round block s t =
     (case s of (a, b, c, d, e) \<Rightarrow>
        (word_rotl 5 a + sha_f t b c d + e + sha_W block t + sha_K t, a, word_rotl 30 b, c, d))"

definition sha_compress :: "32 word sha_state \<Rightarrow> 8 word list \<Rightarrow> 32 word sha_state" where
  "sha_compress h block =
     (case (h, foldl (sha_round block) h [0..<80]) of ((h0, h1, h2, h3, h4), (a, b, c, d, e)) \<Rightarrow>
        (h0 + a, h1 + b, h2 + c, h3 + d, h4 + e))"

text \<open>Padding: a bit 1, as few bits 0 as needed, and the number of bits in 64 bits.\<close>

definition be_bytes :: "nat \<Rightarrow> nat \<Rightarrow> 8 word list" where
  "be_bytes n x = map (\<lambda>i. of_nat (x div 256 ^ i)) (rev [0..<n])"

definition sha_pad :: "8 word list \<Rightarrow> 8 word list" where
  "sha_pad m = m @ [0x80] @ replicate ((119 - length m mod 64) mod 64) 0 @ be_bytes 8 (8 * length m)"

function sha_blocks :: "8 word list \<Rightarrow> 8 word list list" where
  "sha_blocks m = (if m = [] then [] else take 64 m # sha_blocks (drop 64 m))"
  by pat_completeness auto
termination by (relation "measure length") auto

declare sha_blocks.simps [simp del]

definition sha_digest :: "32 word sha_state \<Rightarrow> 8 word list" where
  "sha_digest h = (case h of (h0, h1, h2, h3, h4) \<Rightarrow> concat (map (\<lambda>w. be_bytes 4 (unat w)) [h0, h1, h2, h3, h4]))"

definition sha1_spec :: "8 word list \<Rightarrow> 8 word list" where
  "sha1_spec m = sha_digest (foldl sha_compress
     (0x67452301, 0xEFCDAB89, 0x98BADCFE, 0x10325476, 0xC3D2E1F0) (sha_blocks (sha_pad m)))"

definition hmac_spec :: "8 word list \<Rightarrow> 8 word list \<Rightarrow> 8 word list" where
  "hmac_spec key m =
     (let key = (if 64 < length key then sha1_spec key else key);
          k0 = key @ replicate (64 - length key) 0 in
      sha1_spec (map (\<lambda>b. b XOR 0x5C) k0 @ sha1_spec (map (\<lambda>b. b XOR 0x36) k0 @ m)))"

section \<open>Rounds on 64 bits\<close>

text \<open>Everywhere a variable of 64 bits holds the 32-bit number of the standard.\<close>

lemma rotl_mask:
  assumes "0 < bits" "bits < 32"
  shows "(scast ((push_bit (32 - bits) 1 :: 32 word) - 1) :: 64 word) = mask (32 - bits)"
proof -
  have "(push_bit (32 - bits) 1 :: 32 word) - 1 = mask (32 - bits)" by (simp add: mask_eq_decr_exp push_bit_of_1)
  moreover have "(scast (mask (32 - bits) :: 32 word) :: 64 word) = mask (32 - bits)"
    using assms by (intro bit_word_eqI) (auto simp: bit_simps min_def)
  ultimately show ?thesis by simp
qed

lemma mask32: "(0xffffffff :: 64 word) = mask 32"
  by (simp add: mask_eq_exp_minus_1)

lemma no_bit32: "32 \<le> n \<Longrightarrow> \<not> bit (w :: 32 word) n"
  by (auto dest: bit_imp_le_length)

lemma rotl_ucast:
  assumes "0 < bits" "bits < 32"
  shows "rotl bits (ucast (x :: 32 word)) = ucast (word_rotl bits x)"
proof (rule bit_word_eqI)
  fix n assume "n < LENGTH(64)"
  then have n: "n < 64" by simp
  have m: "(n + (32 - bits)) mod 32 = (if n < bits then n + (32 - bits) else n - bits)" if "n < 32"
    using that assms by (auto simp: mod_if)
  have e: "32 - bits + n = n + 32 - bits" "32 + n - bits = n + 32 - bits" using assms by simp_all
  show "bit (rotl bits (ucast x)) n = bit (ucast (word_rotl bits x) :: 64 word) n"
    unfolding rotl_def rotl_mask [OF assms] mask32 Let_def
    using n assms m by (cases "n < 32") (auto simp: bit_simps bit_word_rotl_iff e no_bit32)
qed

lemma down_up: "(ucast (ucast x :: 64 word) :: 32 word) = x"
  by (rule bit_word_eqI) (simp add: bit_simps)

lemma rotl_standard:
  "rotl 1 (ucast (x :: 32 word)) = ucast (word_rotl 1 x)" "rotl 5 (ucast x) = ucast (word_rotl 5 x)"
  "rotl 30 (ucast x) = ucast (word_rotl 30 x)"
  by (rule rotl_ucast; simp)+

lemma ft_ucast: "ft t (ucast x) (ucast y) (ucast z) = ucast (sha_f t x y z)"
  by (rule bit_word_eqI) (auto simp: ft_def sha_f_def Let_def bit_simps no_bit32)

lemma k_ucast: "sha1_k t = ucast (sha_K t)"
  by (simp add: sha1_k_def sha_K_def)

lemma add_mask: "(ucast (x :: 32 word) + ucast y :: 64 word) AND 0xffffffff = ucast (x + y)"
proof -
  have "unat x < 2 ^ LENGTH(32)" "unat y < 2 ^ LENGTH(32)" by (rule unsigned_less)+
  then have less: "unat (ucast x + ucast y :: 64 word) = unat x + unat y"
    by (simp add: unat_plus_if' unsigned_ucast_eq take_bit_nat_eq_self)
  have "unat ((ucast x + ucast y :: 64 word) AND 0xffffffff) = (unat x + unat y) mod 2 ^ 32"
    unfolding mask32 take_bit_eq_mask [symmetric] unsigned_take_bit_eq less by (simp add: take_bit_eq_mod)
  also have "\<dots> = unat (ucast (x + y) :: 64 word)"
  proof -
    have "(unat x + unat y) mod 2 ^ 32 < 2 ^ 32" by simp
    then have "(unat x + unat y) mod 2 ^ 32 < 2 ^ 64" by (rule order.strict_trans) simp
    then show ?thesis by (simp add: unsigned_ucast_eq unat_word_ariths take_bit_nat_eq_self)
  qed
  finally show ?thesis by (rule word_unat_eq_iff [THEN iffD2])
qed

fun uc5 :: "32 word sha_state \<Rightarrow> 64 word sha_state" where
  "uc5 (a, b, c, d, e) = (ucast a, ucast b, ucast c, ucast d, ucast e)"

lemma round_standard:
  assumes "w ! t = sha_W block t"
  shows "round_step w (uc5 s) t = uc5 (sha_round block s t)"
proof (cases s)
  case (fields a b c d e)
  then show ?thesis using assms
    by (simp add: round_step_def sha_round_def rotl_standard ft_ucast k_ucast add_mask) (simp add: add.commute add.left_commute)
qed

lemma rounds_standard:
  "\<forall>t \<in> set ts. w ! t = sha_W block t \<Longrightarrow>
   foldl (round_step w) (uc5 s) ts = uc5 (foldl (sha_round block) s ts)"
  by (induction ts arbitrary: s) (simp_all add: round_standard)

section \<open>The message schedule\<close>

text \<open>Block \<open>i\<close> of a buffer.\<close>

definition block_at :: "8 word list \<Rightarrow> nat \<Rightarrow> 8 word list" where
  "block_at m i = take 64 (drop (i * 64) m)"

lemma take_4:
  assumes "j + 4 \<le> length m"
  shows "take 4 (drop j m) = [m ! j, m ! (j + 1), m ! (j + 2), m ! (j + 3)]"
proof -
  have nth: "m ! (j + n) = drop j m ! n" for n using assms by simp
  have "take 4 (drop j m) = map ((!) (drop j m)) [0..<4]"
    using assms by (intro nth_equalityI) simp_all
  also have "[0..<4] = [0, 1, 2, 3 :: nat]" by (simp add: upt_rec)
  finally show ?thesis using nth [of 0] by (simp only: nth list.map add_0_right)
qed

lemma horner_4:
  fixes k a b c d :: "'a :: comm_semiring_1"
  shows "(((0 * k + a) * k + b) * k + c) * k + d = (k * k * k) * a + (k * k) * b + k * c + d"
  by (simp add: algebra_simps)

lemma big_endian_at:
  assumes "i * 64 + 64 \<le> length m" "t < 16"
  shows "big_endian (take 4 (drop (4 * t) (block_at m i))) =
    (256 * 256 * 256) * ucast (m ! (i * 64 + t * 4)) + (256 * 256) * ucast (m ! (i * 64 + t * 4 + 1)) +
    256 * ucast (m ! (i * 64 + t * 4 + 2)) + ucast (m ! (i * 64 + t * 4 + 3))"
proof -
  let ?j = "i * 64 + t * 4"
  have j: "?j + 4 \<le> length m" using assms by simp
  have "take 4 (drop (4 * t) (block_at m i)) = take 4 (drop ?j m)"
  proof -
    have "take 4 (drop (4 * t) (take 64 (drop (i * 64) m))) = take 4 (take (64 - 4 * t) (drop (4 * t) (drop (i * 64) m)))"
      by (simp only: drop_take)
    also have "\<dots> = take 4 (drop (4 * t) (drop (i * 64) m))" using assms(2) by (simp only: take_take) simp
    also have "\<dots> = take 4 (drop ?j m)" by (simp only: drop_drop add.commute mult.commute)
    finally show ?thesis by (simp only: block_at_def)
  qed
  also have "\<dots> = [m ! ?j, m ! (?j + 1), m ! (?j + 2), m ! (?j + 3)]" by (rule take_4 [OF j])
  finally show ?thesis by (simp only: big_endian_def foldl.simps horner_4)
qed

lemma schedule_prefix:
  assumes "i * 64 + 64 \<le> length m"
  shows "foldl (\<lambda>w t. w @ [schedule_word m i w t]) [] [0..<n] = map (sha_W (block_at m i)) [0..<n]"
proof (induction n)
  case (Suc n)
  have "schedule_word m i (map (sha_W (block_at m i)) [0..<n]) n = sha_W (block_at m i) n"
  proof (cases "n < 16")
    case True
    then show ?thesis using big_endian_at [OF assms True] by (subst sha_W.simps) (simp add: schedule_word_def)
  next
    case False
    then show ?thesis by (subst sha_W.simps) (simp add: schedule_word_def rotl_ucast down_up)
  qed
  with Suc show ?case by simp
qed simp

lemma schedule_standard:
  assumes "i * 64 + 64 \<le> length m" "t < 80"
  shows "schedule m i ! t = sha_W (block_at m i) t"
  using assms by (simp add: schedule_def schedule_prefix)

lemma hash_block_standard:
  assumes "i * 64 + 64 \<le> length m"
  shows "hash_block m (uc5 h) i = uc5 (sha_compress h (block_at m i))"
proof -
  have r: "foldl (round_step (schedule m i)) (uc5 h) [0..<80] = uc5 (foldl (sha_round (block_at m i)) h [0..<80])"
    by (rule rounds_standard) (simp add: schedule_standard [OF assms])
  obtain a b c d e where s: "foldl (sha_round (block_at m i)) h [0..<80] = (a, b, c, d, e)" by (rule prod_cases5)
  obtain h0 h1 h2 h3 h4 where h: "h = (h0, h1, h2, h3, h4)" by (rule prod_cases5)
  show ?thesis using r s h
    by (simp add: hash_block_def sha_compress_def add_mask add.commute del: upt_rec_numeral)
qed

lemma hash_blocks_standard:
  "\<forall>i \<in> set is. i * 64 + 64 \<le> length m \<Longrightarrow>
   foldl (hash_block m) (uc5 h) is = uc5 (foldl sha_compress h (map (block_at m) is))"
  by (induction "is" arbitrary: h) (simp_all add: hash_block_standard)

lemma sha_blocks_at:
  "length m = n * 64 \<Longrightarrow> sha_blocks m = map (block_at m) [0..<n]"
proof (induction n arbitrary: m)
  case 0
  then show ?case by (simp add: sha_blocks.simps)
next
  case (Suc n)
  then have "m \<noteq> []" by auto
  then have "sha_blocks m = take 64 m # map (block_at (drop 64 m)) [0..<n]"
    using Suc by (subst sha_blocks.simps) simp
  also have "\<dots> = map (block_at m) (0 # map Suc [0..<n])"
    by (simp add: block_at_def add.commute)
  finally show ?case by (simp add: map_Suc_upt upt_conv_Cons del: upt_Suc)
qed

section \<open>Padding\<close>

lemma clear_from:
  "clear_from m i n = (if n = 0 \<or> i + n \<le> length m then Some (take i m @ replicate n 0 @ drop (i + n) m) else None)"
proof (induction n arbitrary: m i)
  case (Suc n)
  show ?case
  proof (cases "i < length m")
    case True
    then have t: "take (Suc i) (m[i := 0]) = take i m @ [0]"
      by (simp add: take_Suc_conv_app_nth)
    then show ?thesis using Suc [of "m[i := 0]" "Suc i"] True by (simp add: set_byte_def)
  qed (simp add: set_byte_def)
qed simp

lemma list_update_at: "(xs @ ys)[length xs + j := v] = xs @ ys[j := v]"
  by (simp add: list_update_append)

lemma num_blocks_cases: "num_blocks len = (if len mod 64 \<le> 55 then len div 64 + 1 else len div 64 + 2)"
proof -
  define q r where qr: "q = len div 64" "r = len mod 64"
  then have r: "r < 64" and len: "len + 8 + 1 = r + 9 + 64 * q" by simp_all
  have d: "(len + 8 + 1) div 64 = q + (r + 9) div 64" "(len + 8 + 1) mod 64 = (r + 9) mod 64"
    unfolding len by simp_all
  consider "r < 55" | "r = 55" | "55 < r" by linarith
  then have "num_blocks len = (if r \<le> 55 then q + 1 else q + 2)"
  proof cases
    case 1
    then have "(r + 9) div 64 = 0" "0 < (r + 9) mod 64" by simp_all
    with 1 show ?thesis unfolding num_blocks_def Let_def d by simp
  next
    case 2
    then have "(r + 9) div 64 = 1" "(r + 9) mod 64 = 0" by simp_all
    with 2 show ?thesis unfolding num_blocks_def Let_def d by simp
  next
    case 3
    then have "(r + 9) div 64 = 1" "0 < (r + 9) mod 64" using r by (simp_all add: div_if mod_if)
    with 3 show ?thesis unfolding num_blocks_def Let_def d by simp
  qed
  then show ?thesis by (simp add: qr)
qed

lemma num_blocks_le: "len + 9 \<le> num_blocks len * 64" "num_blocks len * 64 - len - 9 = (119 - len mod 64) mod 64"
proof -
  define q r where qr: "q = len div 64" "r = len mod 64"
  then have r: "r < 64" and len: "len = 64 * q + r" by simp_all
  have n: "num_blocks len = (if r \<le> 55 then q + 1 else q + 2)" by (simp add: num_blocks_cases qr)
  show "len + 9 \<le> num_blocks len * 64" unfolding n using r len by simp
  have "num_blocks len * 64 - len - 9 = (119 - r) mod 64"
  proof (cases "r \<le> 55")
    case True
    then have "119 - r = 55 - r + 64" by simp
    then have "(119 - r) mod 64 = 55 - r" by (simp only: mod_add_self2) simp
    with True show ?thesis unfolding n using len by simp
  next
    case False
    then show ?thesis unfolding n using r len by simp
  qed
  then show "num_blocks len * 64 - len - 9 = (119 - len mod 64) mod 64" by (simp add: qr)
qed

text \<open>The low bytes of the length in bits.\<close>

lemma bit_length:
  assumes "len < 2 ^ 28"
  shows "(scast ((of_nat len :: 32 word) * 8) :: 64 word) = of_nat (8 * len)"
proof -
  have w: "(of_nat len :: 32 word) * 8 = of_nat (8 * len)" by (simp add: mult.commute)
  have "sint (of_nat (8 * len) :: 32 word) = int (8 * len)"
    unfolding signed_of_nat of_int_eq_id id_apply using assms by (intro signed_take_bit_int_eq_self) simp_all
  then have "sint ((of_nat len :: 32 word) * 8) = int (8 * len)" unfolding w .
  then have "(of_int (sint ((of_nat len :: 32 word) * 8)) :: 64 word) = of_int (int (8 * len))" by (rule arg_cong)
  then show ?thesis by (simp only: scast_eq) simp
qed

lemma low_bytes:
  assumes "len < 2 ^ 28"
  shows "be_bytes 8 (8 * len) = [0, 0, 0, 0, ucast (drop_bit 24 (of_nat (8 * len) :: 64 word) AND 0xff),
    ucast (drop_bit 16 (of_nat (8 * len) :: 64 word) AND 0xff),
    ucast (drop_bit 8 (of_nat (8 * len) :: 64 word) AND 0xff), ucast ((of_nat (8 * len) :: 64 word) AND 0xff)]"
proof -
  define n where "n = 8 * len"
  have n: "n < 2 ^ 32" using assms by (simp add: n_def)
  have u: "unat (of_nat n :: 64 word) = n" using n by (simp add: unat_of_nat take_bit_nat_eq_self)
  have byte: "(ucast (drop_bit k (of_nat n :: 64 word) AND 0xff) :: 8 word) = of_nat (n div 2 ^ k)" for k
  proof -
    have m: "(0xff :: 64 word) = mask 8" by (simp add: mask_eq_exp_minus_1)
    have "(ucast (drop_bit k (of_nat n :: 64 word) AND 0xff) :: 8 word) = ucast (drop_bit k (of_nat n :: 64 word))"
      unfolding m by (rule bit_word_eqI) (auto simp: bit_simps)
    also have "\<dots> = of_nat (unat (drop_bit k (of_nat n :: 64 word)))" by simp
    also have "unat (drop_bit k (of_nat n :: 64 word)) = n div 2 ^ k"
      by (simp only: unat_drop_bit_eq u) (rule drop_bit_eq_div)
    finally show ?thesis .
  qed
  have z: "n div 256 ^ i = 0" if "4 \<le> i" for i
  proof -
    have "(256 :: nat) ^ 4 \<le> 256 ^ i" using that by (rule power_increasing) simp
    with n show ?thesis by simp
  qed
  have "be_bytes 8 n = map (\<lambda>i. of_nat (n div 256 ^ i)) [7, 6, 5, 4, 3, 2, 1, 0]"
    by (simp add: be_bytes_def upt_rec)
  then show ?thesis
    using byte [of 24] byte [of 16] byte [of 8] byte [of 0] z [of 7] z [of 6] z [of 5] z [of 4]
    unfolding n_def [symmetric] by simp
qed

lemma set_byte_at:
  "set_byte (xs @ ys) (length xs + j) v = (if j < length ys then Some (xs @ ys[j := v]) else None)"
  by (simp add: set_byte_def list_update_at)

text \<open>The buffer is padded in place; one that is too short is overrun.\<close>

lemma pad_message:
  assumes "len < 2 ^ 28" "len \<le> length buf"
  shows "pad_message buf len = (if num_blocks len * 64 \<le> length buf
    then Some (sha_pad (take len buf) @ drop (num_blocks len * 64) buf) else None)"
proof -
  let ?N = "num_blocks len * 64"
  note le = num_blocks_le [of len]
  have c: "clear_from buf len (?N - len) =
      (if ?N \<le> length buf then Some (take len buf @ replicate (?N - len) 0 @ drop ?N buf) else None)"
    using le(1) by (simp add: clear_from)
  show ?thesis
  proof (cases "?N \<le> length buf")
    case False
    with c show ?thesis by (simp add: pad_message_def Let_def)
  next
    case True
    define a r d where ard: "a = take len buf" "r = replicate (?N - len - 9) (0 :: 8 word)" "d = drop ?N buf"
    define L where "L = (of_nat (8 * len) :: 64 word)"
    have la: "length a = len" using assms(2) by (simp add: ard)
    have "?N - len = Suc (?N - len - 9 + 8)" using le(1) by simp
    then have "replicate (?N - len) (0 :: 8 word) = replicate (Suc (?N - len - 9 + 8)) 0"
      by (rule arg_cong [where f = "\<lambda>n. replicate n (0 :: 8 word)"])
    also have "\<dots> = 0 # r @ replicate 8 0" by (simp only: replicate_Suc replicate_add ard)
    finally have "clear_from buf len (?N - len) = Some (a @ (0 # r @ replicate 8 0) @ d)"
      using c True by (simp add: ard)
    moreover have "replicate 8 (0 :: 8 word) = [0, 0, 0, 0, 0, 0, 0, 0]" by (simp add: numeral_eq_Suc)
    ultimately have s0: "clear_from buf len (?N - len) = Some (a @ 0 # r @ [0, 0, 0, 0, 0, 0, 0, 0] @ d)"
      by simp
    have s1: "set_byte (a @ 0 # r @ [0, 0, 0, 0, 0, 0, 0, 0] @ d) len 0x80 =
        Some ((a @ 0x80 # r) @ [0, 0, 0, 0, 0, 0, 0, 0] @ d)"
      using set_byte_at [of a "0 # r @ [0, 0, 0, 0, 0, 0, 0, 0] @ d" 0 "0x80"] la by simp
    have n: "?N - 1 = length (a @ 0x80 # r) + 7" "?N - 2 = length (a @ 0x80 # r) + 6"
      "?N - 3 = length (a @ 0x80 # r) + 5" "?N - 4 = length (a @ 0x80 # r) + 4"
      using le(1) la by (simp_all add: ard)
    have low: "set_byte (p @ [0, 0, 0, 0, 0, 0, 0, 0] @ d) (length p + 7) x = Some (p @ [0, 0, 0, 0, 0, 0, 0, x] @ d)"
      "set_byte (p @ [0, 0, 0, 0, 0, 0, 0, x] @ d) (length p + 6) y = Some (p @ [0, 0, 0, 0, 0, 0, y, x] @ d)"
      "set_byte (p @ [0, 0, 0, 0, 0, 0, y, x] @ d) (length p + 5) z = Some (p @ [0, 0, 0, 0, 0, z, y, x] @ d)"
      "set_byte (p @ [0, 0, 0, 0, 0, z, y, x] @ d) (length p + 4) v = Some (p @ [0, 0, 0, 0, v, z, y, x] @ d)"
      for p x y z v by (simp_all only: set_byte_at) simp_all
    have l: "(scast ((of_nat len :: 32 word) * 8) :: 64 word) = L" using bit_length [OF assms(1)] by (simp add: L_def)
    have "pad_message buf len = Some ((a @ 0x80 # r) @ [0, 0, 0, 0, ucast (drop_bit 24 L AND 0xff),
        ucast (drop_bit 16 L AND 0xff), ucast (drop_bit 8 L AND 0xff), ucast (L AND 0xff)] @ d)"
      unfolding pad_message_def Let_def l s0 Option.bind.simps(2) s1 n low by (rule refl)
    moreover have "sha_pad (take len buf) = (a @ 0x80 # r) @ be_bytes 8 (8 * len)"
      using la le(2) by (simp add: sha_pad_def ard)
    ultimately show ?thesis using True low_bytes [OF assms(1)] by (simp add: L_def ard)
  qed
qed

lemma sha_pad_length:
  "length (sha_pad m) = num_blocks (length m) * 64"
  using num_blocks_le [of "length m"] by (simp add: sha_pad_def be_bytes_def)

section \<open>The digest\<close>

lemma digest_word: "digest_word (ucast w) = be_bytes 4 (unat (w :: 32 word))"
proof -
  have m: "(0xff :: 64 word) = mask 8" by (simp add: mask_eq_exp_minus_1)
  have byte: "(ucast (drop_bit k (ucast w :: 64 word) AND 0xff) :: 8 word) = of_nat (unat w div 2 ^ k)" for k
  proof -
    have "(ucast (drop_bit k (ucast w :: 64 word) AND 0xff) :: 8 word) = ucast (drop_bit k w)"
      unfolding m by (rule bit_word_eqI) (auto simp: bit_simps dest: bit_imp_le_length)
    also have "\<dots> = of_nat (unat (drop_bit k w))" by simp
    also have "unat (drop_bit k w) = unat w div 2 ^ k" by (simp only: unat_drop_bit_eq) (rule drop_bit_eq_div)
    finally show ?thesis .
  qed
  show ?thesis
    using byte [of 24] byte [of 16] byte [of 8] byte [of 0]
    by (simp add: digest_word_def be_bytes_def upt_rec)
qed

lemma digest_bytes: "digest_bytes (uc5 h) = sha_digest h"
  by (cases h) (simp add: digest_bytes_def sha_digest_def digest_word)

lemma sha1_standard:
  assumes "len < 2 ^ 28" "len \<le> length buf"
  shows "sha1 buf len = (if num_blocks len * 64 \<le> length buf
    then Some (sha_pad (take len buf) @ drop (num_blocks len * 64) buf, sha1_spec (take len buf)) else None)"
proof (cases "num_blocks len * 64 \<le> length buf")
  case True
  let ?n = "num_blocks len" and ?m = "take len buf"
  let ?b = "sha_pad ?m @ drop (?n * 64) buf"
  have lm: "length ?m = len" using assms(2) by simp
  have lp: "length (sha_pad ?m) = ?n * 64" using sha_pad_length [of ?m] lm by simp
  have all: "\<forall>i \<in> set [0..<?n]. i * 64 + 64 \<le> length ?b"
  proof
    fix i assume "i \<in> set [0..<?n]"
    then have "(i + 1) * 64 \<le> ?n * 64" by (intro mult_right_mono) simp_all
    then show "i * 64 + 64 \<le> length ?b" using lp by simp
  qed
  have "map (block_at ?b) [0..<?n] = map (block_at (sha_pad ?m)) [0..<?n]"
  proof (rule map_cong [OF refl])
    fix i assume "i \<in> set [0..<?n]"
    then have "(i + 1) * 64 \<le> ?n * 64" by (intro mult_right_mono) simp_all
    then show "block_at ?b i = block_at (sha_pad ?m) i" using lp by (simp add: block_at_def)
  qed
  then have blocks: "map (block_at ?b) [0..<?n] = sha_blocks (sha_pad ?m)" using sha_blocks_at [OF lp] by simp
  have "foldl (hash_block ?b) (uc5 (0x67452301, 0xEFCDAB89, 0x98BADCFE, 0x10325476, 0xC3D2E1F0)) [0..<?n] =
      uc5 (foldl sha_compress (0x67452301, 0xEFCDAB89, 0x98BADCFE, 0x10325476, 0xC3D2E1F0) (sha_blocks (sha_pad ?m)))"
    by (simp only: hash_blocks_standard [OF all] blocks)
  moreover have "uc5 (0x67452301, 0xEFCDAB89, 0x98BADCFE, 0x10325476, 0xC3D2E1F0) =
      (0x67452301, 0xefcdab89, 0x98badcfe, 0x10325476, 0xc3d2e1f0)" by simp
  ultimately show ?thesis
    using pad_message [OF assms] True by (simp add: sha1_def sha1_spec_def digest_bytes del: uc5.simps)
next
  case False
  with pad_message [OF assms] show ?thesis by (simp add: sha1_def)
qed

lemma sha1_spec_length: "length (sha1_spec m) = 20"
proof -
  have "length (sha_digest h) = 20" for h by (cases h) (simp add: sha_digest_def be_bytes_def)
  then show ?thesis by (simp add: sha1_spec_def)
qed

section \<open>HMAC\<close>

lemma hmac_key:
  assumes "kl \<le> length key" "64 < kl \<Longrightarrow> kl < 2 ^ 28 \<and> num_blocks kl * 64 \<le> length key"
  shows "hmac_key key kl = Some (let k = (if 64 < kl then sha1_spec (take kl key) else take kl key) in
    k @ replicate (64 - length k) 0)"
  using assms sha1_standard [of kl key] by (auto simp: hmac_key_def sha1_spec_length Let_def)

lemma num_blocks_fit: "len + 9 \<le> n * 64 \<Longrightarrow> num_blocks len \<le> n"
proof -
  assume "len + 9 \<le> n * 64"
  moreover have "num_blocks len * 64 - len - 9 < 64" unfolding num_blocks_le(2) by simp
  ultimately show ?thesis by simp
qed

lemma hmac_sized:
  assumes "kl \<le> length key" "64 < kl \<Longrightarrow> kl < 2 ^ 28 \<and> num_blocks kl * 64 \<le> length key"
    "dl \<le> length data" "dl \<le> MAX_MESSAGE_LENGTH" "84 \<le> size8"
  shows "hmac_sha1_sized size8 key kl data dl =
    (if 128 \<le> size8 then Some (hmac_spec (take kl key) (take dl data)) else None)"
proof -
  define k' where "k' = (if 64 < kl then sha1_spec (take kl key) else take kl key)"
  define k0 where "k0 = k' @ replicate (64 - length k') 0"
  have k': "length k' \<le> 64" using assms(1) by (simp add: k'_def sha1_spec_length)
  then have k0: "hmac_key key kl = Some k0" "length k0 = 64"
    using hmac_key [OF assms(1,2)] by (simp_all add: k0_def k'_def Let_def)
  let ?in = "map (\<lambda>b. b XOR 0x36) k0 @ take dl data"
  let ?b5 = "map (\<lambda>b. b XOR 0x36) k0 @ take dl data @ replicate (MAX_MESSAGE_LENGTH + 128 - 64 - dl) 0"
  have b5: "length ?b5 = 4224" "take (dl + 64) ?b5 = ?in" using k0 assms(3,4) by simp_all
  have "num_blocks (dl + 64) \<le> 66" using assms(4) by (intro num_blocks_fit) simp
  then have "num_blocks (dl + 64) * 64 \<le> length ?b5" unfolding b5 by simp
  moreover have "dl + 64 < 2 ^ 28" "dl + 64 \<le> length ?b5" using b5(1) assms(4) by simp_all
  ultimately obtain r5 where s5: "sha1 ?b5 (dl + 64) = Some (r5, sha1_spec ?in)"
    using sha1_standard [of "dl + 64" ?b5] b5(2) by simp
  let ?out = "map (\<lambda>b. b XOR 0x5c) k0 @ sha1_spec ?in"
  let ?b8 = "map (\<lambda>b. b XOR 0x5c) k0 @ sha1_spec ?in @ replicate (size8 - 84) 0"
  have b8: "length ?b8 = size8" "take (64 + 20) ?b8 = ?out" using k0(2) assms(5) by (simp_all add: sha1_spec_length)
  have "num_blocks (64 + 20) * 64 = 128" by (simp add: num_blocks_cases)
  then have s8: "sha1 ?b8 (64 + 20) =
      (if 128 \<le> size8 then Some (sha_pad ?out @ drop 128 ?b8, sha1_spec ?out) else None)"
    using sha1_standard [of "64 + 20" ?b8] b8 assms(5) by simp
  have "hmac_sha1_sized size8 key kl data dl =
      Option.bind (sha1 ?b8 (64 + 20)) (\<lambda>(_, digest). Some digest)"
    using assms(1,3,4) k0(1) s5 by (simp add: hmac_sha1_sized_def)
  moreover have "hmac_spec (take kl key) (take dl data) = sha1_spec ?out"
    using assms(1) by (simp add: hmac_spec_def k0_def k'_def Let_def min_def)
  ultimately show ?thesis using s8 by simp
qed

section \<open>Properties\<close>

text \<open>
  C9. \<open>sha1\<close> is SHA-1: for every message of fewer than \<open>2 ^ 28\<close> bytes at the start of a buffer, the
  digest is the one of the standard, and the buffer ends up with the padded message followed by
  what was behind it, if the buffer has room for the padded message.  If it has not, the padding is
  written behind its end.
\<close>

theorem sha1_is_standard:
  assumes "len < 2 ^ 28" "len \<le> length buf"
  shows "sha1 buf len = (if num_blocks len * 64 \<le> length buf
    then Some (sha_pad (take len buf) @ drop (num_blocks len * 64) buf, sha1_spec (take len buf)) else None)"
  by (rule sha1_standard [OF assms])

theorem sha1_is_standard_witness:
  "sha1 (0x61 # 0x62 # 0x63 # replicate 61 7) 3 =
     Some (sha_pad [0x61, 0x62, 0x63], sha1_spec [0x61, 0x62, 0x63]) \<and> sha1 [0x61, 0x62, 0x63] 3 = None"
  using sha1_is_standard [of 3 "0x61 # 0x62 # 0x63 # replicate 61 7"] sha1_is_standard [of 3 "[0x61, 0x62, 0x63]"]
  by (simp add: num_blocks_cases)

text \<open>
  \<open>hmac_sha1\<close> always writes behind its array \<open>step8data\<close>: whatever the key and the data (of at
  most 4096 bytes), the second hash pads 84 bytes to 128 in an array of 84.  With an array of 128
  bytes or more the function would be HMAC-SHA1 of the standard.
\<close>

theorem hmac_sha1_overruns:
  assumes "kl \<le> length key" "64 < kl \<longrightarrow> kl < 2 ^ 28 \<and> num_blocks kl * 64 \<le> length key"
    "dl \<le> length data" "dl \<le> 4096"
  shows "hmac_sha1 key kl data dl = None \<and>
    (128 \<le> size8 \<longrightarrow> hmac_sha1_sized size8 key kl data dl = Some (hmac_spec (take kl key) (take dl data)))"
  using hmac_sized [OF assms(1) _ assms(3,4), of 84] hmac_sized [OF assms(1) _ assms(3,4), of size8] assms(2)
  by (simp add: hmac_sha1_def)

theorem hmac_sha1_overruns_witness:
  "hmac_sha1 (replicate 16 0x38) 16 [1, 2, 3, 4] 4 = None \<and>
   hmac_sha1_sized 128 (replicate 16 0x38) 16 [1, 2, 3, 4] 4 = Some (hmac_spec (replicate 16 0x38) [1, 2, 3, 4])"
  using hmac_sha1_overruns [of 16 "replicate 16 0x38" 4 "[1, 2, 3, 4]" 128] by simp

end
