(* ===== verification/Price_Zplay.thy ===== *)
theory Price_Zplay
  imports Price_Encrypt Price_Sha1
begin

text \<open>
  The winning price of \<^verbatim>\<open>BidCore/common/adx_decode/zplay\<close>: \<^verbatim>\<open>decode.c\<close> with \<^verbatim>\<open>base64.c\<close> and \<^verbatim>\<open>hex.c\<close>.  The
  result of a function that may return a null pointer is an option inside the option of undefined
  behaviour.  \<open>mem i\<close> says whether the \<open>i\<close>-th call of \<^verbatim>\<open>malloc\<close> in the program text succeeds.  A \<^verbatim>\<open>double\<close> is
  the word of its bits.
\<close>

section \<open>Model: hexadecimal digits\<close>

definition hex2num :: "8 word \<Rightarrow> 8 word" where
  "hex2num c =
     (if 0x30 \<le> c \<and> c \<le> 0x39 then c - 0x30
      else if 0x61 \<le> c \<and> c \<le> 0x7A then c - 0x61 + 10
      else if 0x41 \<le> c \<and> c \<le> 0x5A then c - 0x41 + 10
      else 0x30)"

fun hex_pairs :: "bytes \<Rightarrow> bytes" where
  "hex_pairs (x # y # s) = (push_bit 4 (hex2num x) OR hex2num y) # hex_pairs s"
| "hex_pairs _ = []"

text \<open>The bytes in front of the NUL; their number is stored through \<open>n\<close>.\<close>

definition hex :: "(nat \<Rightarrow> bool) \<Rightarrow> bytes \<Rightarrow> bytes option" where
  "hex mem str =
     (if length str mod 2 = 1 \<or> length str = 0 then None
      else if \<not> mem 6 then None else Some (hex_pairs str))"

section \<open>Model: base 64\<close>

definition check_append_newline :: "nat \<Rightarrow> bytes" where
  "check_append_newline pos = (if (pos + 1) mod 76 = 0 then [0x0D, 0x0A] else [])"

fun convert_block :: "bytes \<Rightarrow> bytes" where
  "convert_block [a, b, c] =
     [encode_basis64 ! unat (drop_bit 2 a), encode_basis64 ! unat (push_bit 4 (a AND 0x03) OR drop_bit 4 b),
      encode_basis64 ! unat (push_bit 2 (b AND 0x0f) OR drop_bit 6 c), encode_basis64 ! unat (c AND 0x3f)]"
| "convert_block [a, b] =
     [encode_basis64 ! unat (drop_bit 2 a), encode_basis64 ! unat (push_bit 4 (a AND 0x03) OR drop_bit 4 b),
      encode_basis64 ! unat (push_bit 2 (b AND 0x0f)), 0x3D]"
| "convert_block [a] =
     [encode_basis64 ! unat (drop_bit 2 a), encode_basis64 ! unat (push_bit 4 (a AND 0x03)), 0x3D, 0x3D]"
| "convert_block _ = []"

text \<open>The characters written from position \<open>k\<close> on: full blocks, then the last one.\<close>

function encode_blocks :: "nat \<Rightarrow> bytes \<Rightarrow> bytes" where
  "encode_blocks k s =
     (let nl = check_append_newline k in
      if 3 \<le> length s then nl @ convert_block (take 3 s) @ encode_blocks (k + length nl + 4) (drop 3 s)
      else nl @ convert_block s)"
  by pat_completeness auto
termination by (relation "measure (\<lambda>(k, s). length s)") auto

declare encode_blocks.simps [simp del]

text \<open>The buffer has room for four characters per block and the NUL.\<close>

definition zplay_encode_base64 :: "bytes \<Rightarrow> bytes option" where
  "zplay_encode_base64 src =
     (let dst = encode_blocks 0 src in
      if length dst + 1 \<le> (length src div 3 + 1) * 4 + 1 then Some dst else None)"

text \<open>The search also finds the NUL behind the 64 digits.  \<open>None\<close> is \<^verbatim>\<open>(size_t)-1\<close>.\<close>

fun strchr_at :: "8 word \<Rightarrow> bytes \<Rightarrow> 8 word \<Rightarrow> 8 word option" where
  "strchr_at i [] ch = (if ch = 0 then Some i else None)"
| "strchr_at i (c # s) ch = (if c = ch then Some i else strchr_at (i + 1) s ch)"

definition digit_value :: "8 word \<Rightarrow> 8 word option" where
  "digit_value ch = (if ch = 0x3D then Some 0 else strchr_at 0 encode_basis64 ch)"

text \<open>
  The bytes of a block, and the result of the loop behind it.  The values are of type \<^verbatim>\<open>size_t\<close>, but only
  their low eight bits are kept.
\<close>

definition decode_block :: "8 word \<Rightarrow> 8 word \<Rightarrow> 8 word \<Rightarrow> 8 word \<Rightarrow> bytes option option \<Rightarrow> bytes option option" where
  "decode_block c0 c1 c2 c3 rest =
     (case (digit_value c0, digit_value c1, digit_value c2, digit_value c3) of
        (Some e0, Some e1, Some e2, Some e3) \<Rightarrow>
          map_option (map_option ((@)
            [push_bit 2 e0 + drop_bit 4 (e1 AND 0x30),
             push_bit 4 (e1 AND 0x0f) + drop_bit 2 (e2 AND 0x3c),
             push_bit 6 (e2 AND 0x03) + e3])) rest
      | _ \<Rightarrow> Some None)"

text \<open>The memory from \<open>src\<close> to the NUL; reading behind the NUL is undefined.\<close>

fun decode_blocks :: "bytes \<Rightarrow> bytes option option" where
  "decode_blocks [] = None"
| "decode_blocks (c # s) =
     (if c = 0 then Some (Some [])
      else if c = 0x0D then
        (case s of [] \<Rightarrow> None
         | d # s' \<Rightarrow>
             if d \<noteq> 0x0A then Some None
             else case s' of c0 # c1 # c2 # c3 # r \<Rightarrow> decode_block c0 c1 c2 c3 (decode_blocks r) | _ \<Rightarrow> None)
      else case s of c1 # c2 # c3 # r \<Rightarrow> decode_block c c1 c2 c3 (decode_blocks r) | _ \<Rightarrow> None)"

definition zplay_decode_base64 :: "(nat \<Rightarrow> bool) \<Rightarrow> bytes \<Rightarrow> bytes option option" where
  "zplay_decode_base64 mem src =
     (if length src mod 4 \<noteq> 0 then Some None
      else if \<not> mem 1 then Some None
      else decode_blocks (src @ [0]))"

definition url_digit :: "8 word \<Rightarrow> 8 word" where
  "url_digit c = (if c = 0x2D then 0x2B else if c = 0x5F then 0x2F else c)"

text \<open>The bytes of the result; one byte NUL follows them.\<close>

definition base64url_decode :: "(nat \<Rightarrow> bool) \<Rightarrow> bytes \<Rightarrow> bytes option option" where
  "base64url_decode mem src =
     (if \<not> mem 0 then Some None
      else let base64Str = map url_digit src @ replicate (4 - length src mod 4) 0x3D in do {
        enc \<leftarrow> zplay_decode_base64 mem base64Str;
        (case enc of None \<Rightarrow> Some None | Some e \<Rightarrow> Some (if mem 2 then Some e else None)) })"

section \<open>Model: the price\<close>

definition xor_bytes :: "(nat \<Rightarrow> bool) \<Rightarrow> bytes \<Rightarrow> bytes \<Rightarrow> nat \<Rightarrow> bytes option" where
  "xor_bytes mem b1 b2 len = (if mem 7 then Some (xor_pad (take len b1) (take len b2)) else None)"

text \<open>\<open>size8\<close> is the size of the array in \<^verbatim>\<open>hmac_sha1\<close>.  The three copies read 16 bytes of the buffer \<open>q\<close>.\<close>

definition price_decode_sized :: "nat \<Rightarrow> (nat \<Rightarrow> bool) \<Rightarrow> bytes \<Rightarrow> bytes \<Rightarrow> 64 word option" where
  "price_decode_sized size8 mem dec_key src = do {
     q \<leftarrow> base64url_decode mem src;
     (case q of None \<Rightarrow> Some 0
      | Some q \<Rightarrow>
          if \<not> (mem 3 \<and> mem 4 \<and> mem 5) then Some 0
          else if length q + 1 < 16 then None
          else let time_ms_stamp_bytes = take 4 q; enc_price = take 8 (drop 4 q) in
            (case hex mem dec_key of None \<Rightarrow> Some 0
             | Some dec_key_bytes \<Rightarrow> do {
                 pad \<leftarrow> hmac_sha1_sized size8 (dec_key_bytes @ [0]) (length dec_key_bytes) time_ms_stamp_bytes 4;
                 (case xor_bytes mem pad enc_price 8 of None \<Rightarrow> Some 0
                  | Some dec_price \<Rightarrow> Some (bytes_int64 dec_price)) })) }"

definition price_decode :: "(nat \<Rightarrow> bool) \<Rightarrow> bytes \<Rightarrow> bytes \<Rightarrow> 64 word option" where
  "price_decode mem dec_key src = price_decode_sized (64 + 20) mem dec_key src"

definition dec_key0 :: bytes where "dec_key0 = map of_char ''3895185f372f4bba9a594fd65e5205f2''"

text \<open>The return value and \<open>price\<close>.  Both zeros of the type \<^verbatim>\<open>double\<close> are equal to 0.\<close>

definition zplay_DecodeWinningPrice :: "(nat \<Rightarrow> bool) \<Rightarrow> bytes \<Rightarrow> (int \<times> 64 word) option" where
  "zplay_DecodeWinningPrice mem source = do {
     price \<leftarrow> price_decode mem dec_key0 source;
     Some (if price = 0 \<or> price = push_bit 63 1 then 1 else 0, price) }"

section \<open>Base 64\<close>

lemma strchr_at_nth:
  assumes "distinct s" "n < length s"
  shows "strchr_at i s (s ! n) = Some (i + of_nat n)"
  using assms
proof (induction s arbitrary: i n)
  case (Cons c s)
  then show ?case by (cases n) (auto simp: algebra_simps)
qed simp

lemma encode_basis64_distinct: "distinct encode_basis64" "length encode_basis64 = 64"
  by (simp_all add: encode_basis64_def)

lemma digit_value_basis:
  assumes "w < 64"
  shows "digit_value (encode_basis64 ! unat w) = Some w"
    "encode_basis64 ! unat w \<noteq> 0" "encode_basis64 ! unat w \<noteq> 0x0D"
proof -
  have n: "unat w < 64" using assms by (simp add: word_less_nat_alt)
  have "list_all (\<lambda>c. c \<noteq> 0x0D) encode_basis64" by (simp add: encode_basis64_def)
  then show "encode_basis64 ! unat w \<noteq> 0x0D" using n by (simp add: list_all_length encode_basis64_distinct)
  show "encode_basis64 ! unat w \<noteq> 0" using basis_round_trip(3) [OF assms] by (simp add: basis_at_def)
  have "encode_basis64 ! unat w \<noteq> 0x3D" using basis_round_trip(2) [OF assms] by (simp add: basis_at_def)
  then show "digit_value (encode_basis64 ! unat w) = Some w"
    using strchr_at_nth [OF encode_basis64_distinct(1), of "unat w" 0] n
    by (simp add: digit_value_def encode_basis64_distinct)
qed

lemma digit_value_pad: "digit_value 0x3D = Some 0"
  by (simp add: digit_value_def)

lemma disjoint_sums:
  fixes e0 e1 e2 e3 :: "8 word"
  shows "push_bit 2 e0 + drop_bit 4 (e1 AND 0x30) = push_bit 2 e0 OR drop_bit 4 (e1 AND 0x30)"
    "push_bit 4 (e1 AND 0x0f) + drop_bit 2 (e2 AND 0x3c) = push_bit 4 (e1 AND 0x0f) OR drop_bit 2 (e2 AND 0x3c)"
    "push_bit 6 (e2 AND 0x03) + (e3 AND 0x3f) = push_bit 6 (e2 AND 0x03) OR (e3 AND 0x3f)"
proof -
  have m: "(0x30 :: 8 word) = push_bit 4 (mask 2)" "(0x0f :: 8 word) = mask 4" "(0x3c :: 8 word) = push_bit 2 (mask 4)"
    "(0x03 :: 8 word) = mask 2" "(0x3f :: 8 word) = mask 6"
    by (simp_all add: mask_eq_exp_minus_1)
  show "push_bit 2 e0 + drop_bit 4 (e1 AND 0x30) = push_bit 2 e0 OR drop_bit 4 (e1 AND 0x30)"
    unfolding m by (rule disjunctive_add) (auto simp: bit_simps)
  show "push_bit 4 (e1 AND 0x0f) + drop_bit 2 (e2 AND 0x3c) = push_bit 4 (e1 AND 0x0f) OR drop_bit 2 (e2 AND 0x3c)"
    unfolding m by (rule disjunctive_add) (auto simp: bit_simps)
  show "push_bit 6 (e2 AND 0x03) + (e3 AND 0x3f) = push_bit 6 (e2 AND 0x03) OR (e3 AND 0x3f)"
    unfolding m by (rule disjunctive_add) (auto simp: bit_simps)
qed

lemma block_bytes:
  fixes a b c :: "8 word"
  shows "push_bit 2 (drop_bit 2 a) + drop_bit 4 ((push_bit 4 (a AND 3) OR drop_bit 4 b) AND 0x30) = a"
    "push_bit 4 ((push_bit 4 (a AND 3) OR drop_bit 4 b) AND 0x0f) +
       drop_bit 2 ((push_bit 2 (b AND 0x0f) OR drop_bit 6 c) AND 0x3c) = b"
    "push_bit 6 ((push_bit 2 (b AND 0x0f) OR drop_bit 6 c) AND 0x03) + (c AND 0x3f) = c"
  unfolding disjoint_sums by (rule byte_eqI; simp add: bit_simps byte_no_bit)+

lemma sextet_top: "drop_bit 2 (a :: 8 word) < 64"
proof -
  have "drop_bit 2 a AND 0x3f = drop_bit 2 a" by (rule byte_eqI; simp add: bit_simps byte_no_bit)
  then show ?thesis using sextets(1) [of a] by simp
qed

text \<open>The four characters of a block of three bytes, a short block being filled up with zeros.\<close>

definition chars4 :: "8 word \<Rightarrow> 8 word \<Rightarrow> 8 word \<Rightarrow> bytes" where
  "chars4 a b c = map (\<lambda>w. encode_basis64 ! unat w)
     [drop_bit 2 a, push_bit 4 (a AND 3) OR drop_bit 4 b, push_bit 2 (b AND 0x0f) OR drop_bit 6 c, c AND 0x3f]"

definition sextets4 :: "8 word \<Rightarrow> 8 word \<Rightarrow> 8 word \<Rightarrow> bytes" where
  "sextets4 a b c = [drop_bit 2 a, push_bit 4 (a AND 3) OR drop_bit 4 b, push_bit 2 (b AND 0x0f) OR drop_bit 6 c, c AND 0x3f]"

lemma sextets4_less: "list_all (\<lambda>w. w < 64) (sextets4 a b c)"
  unfolding sextets4_def list_all_iff using sextet_top [of a] sextets(2) [of a b] sextets(3) [of b c] sextets(6) [of c]
  by (simp only: list.set insert_iff empty_iff) blast

text \<open>Four characters with the digits of a block are decoded to its bytes.\<close>

lemma decode_block_digits:
  assumes "map digit_value [c0, c1, c2, c3] = map Some (sextets4 a b c)"
  shows "decode_block c0 c1 c2 c3 rest = map_option (map_option ((@) [a, b, c])) rest"
proof -
  have "digit_value c0 = Some (drop_bit 2 a)" "digit_value c1 = Some (push_bit 4 (a AND 3) OR drop_bit 4 b)"
    "digit_value c2 = Some (push_bit 2 (b AND 0x0f) OR drop_bit 6 c)" "digit_value c3 = Some (c AND 0x3f)"
    using assms unfolding sextets4_def list.map by (simp_all only: list.inject)
  then show ?thesis by (simp only: decode_block_def prod.case option.case block_bytes)
qed

lemma decode_blocks_four:
  assumes "c0 \<noteq> 0" "c0 \<noteq> 0x0D"
  shows "decode_blocks (c0 # c1 # c2 # c3 # r) = decode_block c0 c1 c2 c3 (decode_blocks r)"
  using assms by (subst decode_blocks.simps) (simp del: decode_blocks.simps)

text \<open>No line break is ever written: the position is a multiple of four.\<close>

lemma no_newline: "k mod 4 = 0 \<Longrightarrow> check_append_newline k = []"
  by (simp add: check_append_newline_def) presburger

text \<open>Decoding the text of an encoded string, whether a short last block is padded or not.\<close>

definition block_digits :: "bytes \<Rightarrow> bytes" where
  "block_digits g = (case g of [a, b, c] \<Rightarrow> sextets4 a b c | [a, b] \<Rightarrow> sextets4 a b 0 | [a] \<Rightarrow> sextets4 a 0 0 | _ \<Rightarrow> [])"

lemma convert_block_digits:
  assumes "g \<noteq> []" "length g \<le> 3"
  shows "\<exists>c0 c1 c2 c3. convert_block g = [c0, c1, c2, c3] \<and> c0 \<noteq> 0 \<and> c0 \<noteq> 0x0D \<and>
    decode_block c0 c1 c2 c3 rest = map_option (map_option ((@) (g @ replicate (3 - length g) 0))) rest"
proof -
  have z: "push_bit 4 (a AND 3) OR drop_bit 4 (0 :: 8 word) = push_bit 4 (a AND 3)"
    "push_bit 2 (b AND 0x0f) OR drop_bit 6 (0 :: 8 word) = push_bit 2 (b AND 0x0f)"
    "push_bit 2 ((0 :: 8 word) AND 0x0f) OR drop_bit 6 (0 :: 8 word) = 0" "(0 :: 8 word) AND 0x3f = 0" for a b :: "8 word"
    by simp_all
  have top: "encode_basis64 ! unat (drop_bit 2 a) \<noteq> 0 \<and> encode_basis64 ! unat (drop_bit 2 a) \<noteq> 0x0D" for a :: "8 word"
    using digit_value_basis(2,3) [OF sextet_top [of a]] by blast
  consider a where "g = [a]" | a b where "g = [a, b]" | a b c where "g = [a, b, c]"
    using assms by (cases g rule: remdups_adj.cases; cases "tl (tl g)") auto
  then show ?thesis
  proof cases
    case (1 a)
    have "push_bit 2 ((0 :: 8 word) AND 0x0f) = 0" by simp
    then have "map digit_value (convert_block g) = map Some (sextets4 a 0 0)"
      unfolding 1 convert_block.simps list.map sextets4_def z
      by (simp only: digit_value_basis(1) [OF sextet_top] digit_value_basis(1) [OF sextets(4)] digit_value_pad)
    then show ?thesis using top [of a] decode_block_digits [of _ _ _ _ a 0 0 rest]
      unfolding 1 by (simp add: numeral_2_eq_2)
  next
    case (2 a b)
    have "map digit_value (convert_block g) = map Some (sextets4 a b 0)"
      unfolding 2 convert_block.simps list.map sextets4_def z
      by (simp only: digit_value_basis(1) [OF sextet_top] digit_value_basis(1) [OF sextets(2)]
          digit_value_basis(1) [OF sextets(5)] digit_value_pad)
    then show ?thesis using top [of a] decode_block_digits [of _ _ _ _ a b 0 rest]
      unfolding 2 by simp
  next
    case (3 a b c)
    have "map digit_value (convert_block g) = map Some (sextets4 a b c)"
      unfolding 3 convert_block.simps list.map sextets4_def
      by (simp only: digit_value_basis(1) [OF sextet_top] digit_value_basis(1) [OF sextets(2)]
          digit_value_basis(1) [OF sextets(3)] digit_value_basis(1) [OF sextets(6)])
    then show ?thesis using top [of a] decode_block_digits [of _ _ _ _ a b c rest]
      unfolding 3 by simp
  qed
qed

lemma decode_convert_block:
  assumes "g \<noteq> []" "length g \<le> 3"
  shows "decode_blocks (convert_block g @ r) = map_option (map_option ((@) (g @ replicate (3 - length g) 0))) (decode_blocks r)"
proof -
  obtain c0 c1 c2 c3 where c: "convert_block g = [c0, c1, c2, c3]" "c0 \<noteq> 0" "c0 \<noteq> 0x0D"
    "decode_block c0 c1 c2 c3 (decode_blocks r) =
       map_option (map_option ((@) (g @ replicate (3 - length g) 0))) (decode_blocks r)"
    using convert_block_digits [OF assms, of "decode_blocks r"] by blast
  then show ?thesis using decode_blocks_four [OF c(2,3)] by simp
qed

text \<open>The number of characters \<^verbatim>\<open>=\<close> of the padding.\<close>

definition pads :: "bytes \<Rightarrow> nat" where
  "pads s = (3 - length s mod 3) mod 3"

lemma pads_cases: "pads s = (if length s mod 3 = 0 then 0 else 3 - length s mod 3)"
  by (simp add: pads_def)

lemma pads_step: "3 \<le> length s \<Longrightarrow> pads (drop 3 s) = pads s"
  by (simp add: pads_def le_mod_geq)

lemma pads_last: "length s < 3 \<Longrightarrow> s \<noteq> [] \<Longrightarrow> pads s = 3 - length s"
  by (cases s) (auto simp: pads_def)

text \<open>The encoding without line breaks.\<close>

function plain_blocks :: "bytes \<Rightarrow> bytes" where
  "plain_blocks s = (if 3 \<le> length s then convert_block (take 3 s) @ plain_blocks (drop 3 s) else convert_block s)"
  by pat_completeness auto
termination by (relation "measure length") auto

declare plain_blocks.simps [simp del]

lemma encode_blocks_plain: "k mod 4 = 0 \<Longrightarrow> encode_blocks k s = plain_blocks s"
proof (induction k s rule: encode_blocks.induct)
  case (1 k s)
  note nl = no_newline [OF 1(2)]
  show ?case
  proof (cases "3 \<le> length s")
    case True
    have "(k + 4) mod 4 = 0" using 1(2) by simp
    with 1(1) [OF refl True] nl have "encode_blocks (k + 4) (drop 3 s) = plain_blocks (drop 3 s)" by simp
    with nl True show ?thesis by (subst encode_blocks.simps, subst plain_blocks.simps) (simp add: Let_def)
  next
    case False
    with nl show ?thesis by (subst encode_blocks.simps, subst plain_blocks.simps) (simp add: Let_def)
  qed
qed

lemma map_option_append:
  "map_option (map_option ((@) xs)) (map_option (map_option ((@) ys)) r) = map_option (map_option ((@) (xs @ ys))) r"
proof (cases r)
  case (Some x)
  then show ?thesis by (cases x) simp_all
qed simp

lemma decode_plain_blocks:
  "decode_blocks (plain_blocks s @ r) = map_option (map_option ((@) (s @ replicate (pads s) 0))) (decode_blocks r)"
proof (induction s rule: plain_blocks.induct)
  case (1 s)
  show ?case
  proof (cases "3 \<le> length s")
    case True
    then have g: "take 3 s \<noteq> []" "length (take 3 s) \<le> 3" "replicate (3 - length (take 3 s)) (0 :: 8 word) = []" by auto
    have "decode_blocks (plain_blocks s @ r) =
        map_option (map_option ((@) (take 3 s))) (decode_blocks (plain_blocks (drop 3 s) @ r))"
      using True decode_convert_block [OF g(1,2)] unfolding g(3)
      by (subst plain_blocks.simps) (simp del: take_append drop_append)
    also have "\<dots> = map_option (map_option ((@) ((take 3 s @ drop 3 s) @ replicate (pads s) 0))) (decode_blocks r)"
      unfolding 1 [OF True] map_option_append pads_step [OF True] by (simp only: append.assoc)
    finally show ?thesis by (simp only: append_take_drop_id)
  next
    case False
    then have e: "plain_blocks s = convert_block s" by (subst plain_blocks.simps) simp
    show ?thesis
    proof (cases "s = []")
      case True
      then show ?thesis using e by (simp add: pads_def option.map_id0 [unfolded id_def] id_def)
    next
      case s: False
      have "length s < 3" using False by simp
      then show ?thesis unfolding e pads_last [OF \<open>length s < 3\<close> s] by (intro decode_convert_block [OF s]) simp
    qed
  qed
qed

lemma plain_blocks_length: "length (plain_blocks s) = 4 * ((length s + 2) div 3)"
proof (induction s rule: plain_blocks.induct)
  case (1 s)
  have four: "length (convert_block g) = 4" if "g \<noteq> []" "length g \<le> 3" for g
    using convert_block_digits [OF that, of None] by fastforce
  show ?case
  proof (cases "3 \<le> length s")
    case True
    then obtain m where m: "length s = m + 3" by (metis add.commute le_iff_add)
    have "length (convert_block (take 3 s)) = 4" using True by (intro four) auto
    then have "length (plain_blocks s) = 4 + 4 * ((length s - 3 + 2) div 3)"
      using 1 [OF True] True by (subst plain_blocks.simps) simp
    then show ?thesis using m div_add_self2 [of 3 "m + 2"] by (simp add: algebra_simps)
  next
    case False
    then show ?thesis using four [of s] by (subst plain_blocks.simps, cases s) auto
  qed
qed

lemma encode_base64_plain: "zplay_encode_base64 s = Some (plain_blocks s)"
proof -
  have "length (plain_blocks s) \<le> (length s div 3 + 1) * 4"
    unfolding plain_blocks_length using div_le_mono [of "length s + 2" "length s + 3" 3]
      div_add_self2 [of 3 "length s"] by simp
  then show ?thesis by (simp add: zplay_encode_base64_def encode_blocks_plain)
qed

lemma decode_encoded:
  assumes "mem 1"
  shows "zplay_decode_base64 mem (plain_blocks s) = Some (Some (s @ replicate (pads s) 0))"
  using assms decode_plain_blocks [of s "[0]"] by (simp add: zplay_decode_base64_def plain_blocks_length)

text \<open>\<open>u\<close> is \<open>s\<close> in the alphabet for URLs, without padding.\<close>

definition base64url_text :: "bytes \<Rightarrow> bytes \<Rightarrow> bool" where
  "base64url_text s u \<longleftrightarrow> map url_digit u @ replicate (pads s) 0x3D = plain_blocks s"

text \<open>
  A text whose length is a multiple of four gets four more characters \<^verbatim>\<open>=\<close>, so the number of zeros behind
  the bytes is never 0.
\<close>

lemma base64url_decode:
  assumes "base64url_text s u" "mem 0" "mem 1" "mem 2"
  shows "base64url_decode mem u = Some (Some (s @ replicate (3 - length s mod 3) 0))"
proof -
  have u: "map url_digit u @ replicate (pads s) 0x3D = plain_blocks s" using assms(1) by (simp add: base64url_text_def)
  have l: "length u + pads s = 4 * ((length s + 2) div 3)"
    using arg_cong [OF u, of length] by (simp add: plain_blocks_length)
  show ?thesis
  proof (cases "pads s = 0")
    case True
    then have "length u = 4 * ((length s + 2) div 3)" using l by simp
    moreover have "length s mod 3 = 0" using True mod_less_divisor [of 3 "length s"] by (simp add: pads_cases split: if_splits)
    ultimately have m: "length u mod 4 = 0" "3 - length s mod 3 = 3" by simp_all
    have four: "replicate 4 x = [x, x, x, x]" "replicate 3 x = [x, x, x]" for x :: "8 word" by (simp_all add: numeral_eq_Suc)
    have "decode_block 0x3D 0x3D 0x3D 0x3D (decode_blocks [0]) = Some (Some [0, 0, 0])"
      by (simp add: decode_block_def digit_value_pad)
    then have "decode_blocks ([0x3D, 0x3D, 0x3D, 0x3D] @ [0]) = Some (Some [0, 0, 0])"
      using decode_blocks_four [of "0x3D" "0x3D" "0x3D" "0x3D" "[0]"] by simp
    then have "decode_blocks (plain_blocks s @ [0x3D, 0x3D, 0x3D, 0x3D] @ [0]) = Some (Some (s @ [0, 0, 0]))"
      unfolding decode_plain_blocks True by simp
    then show ?thesis using True m u l assms(2-4)
      by (simp add: base64url_decode_def zplay_decode_base64_def four plain_blocks_length)
  next
    case False
    then have p: "3 - length s mod 3 = pads s" "0 < pads s" "pads s < 3" 
      using mod_less_divisor [of 3 "length s"] by (auto simp: pads_cases split: if_splits)
    have "(length u + pads s) mod 4 = 0" using l by simp
    with p(2,3) have "4 - length u mod 4 = pads s" by presburger
    note m = this p(1)
    then show ?thesis using u assms(2-4) decode_encoded [of mem s] by (simp add: base64url_decode_def)
  qed
qed

text \<open>Every byte string has such a text: the digits without the padding.\<close>

lemma basis_no_url: "(w :: 8 word) < 64 \<Longrightarrow> encode_basis64 ! unat w \<noteq> 0x2D \<and> encode_basis64 ! unat w \<noteq> 0x5F"
proof -
  assume "w < (64 :: 8 word)"
  then have "unat w < 64" by (simp add: word_less_nat_alt)
  moreover have "list_all (\<lambda>c. c \<noteq> 0x2D \<and> c \<noteq> 0x5F) encode_basis64" by (simp add: encode_basis64_def)
  ultimately show ?thesis by (simp add: list_all_length encode_basis64_distinct)
qed

lemma convert_block_text:
  assumes "g \<noteq> []" "length g \<le> 3"
  shows "\<exists>w. convert_block g = w @ replicate (3 - length g) 0x3D \<and> list_all (\<lambda>c. c \<noteq> 0x2D \<and> c \<noteq> 0x5F) w"
proof -
  consider a where "g = [a]" | a b where "g = [a, b]" | a b c where "g = [a, b, c]"
    using assms by (cases g rule: remdups_adj.cases; cases "tl (tl g)") auto
  then show ?thesis
  proof cases
    case (1 a)
    have "convert_block g = [encode_basis64 ! unat (drop_bit 2 a), encode_basis64 ! unat (push_bit 4 (a AND 3))] @
        replicate (3 - length g) 0x3D" unfolding 1 by (simp add: numeral_2_eq_2)
    then show ?thesis using basis_no_url [OF sextet_top [of a]] basis_no_url [OF sextets(4) [of a]]
      by (intro exI) (rule conjI, assumption, simp)
  next
    case (2 a b)
    have "convert_block g = [encode_basis64 ! unat (drop_bit 2 a),
        encode_basis64 ! unat (push_bit 4 (a AND 3) OR drop_bit 4 b), encode_basis64 ! unat (push_bit 2 (b AND 0x0f))] @
        replicate (3 - length g) 0x3D" unfolding 2 by simp
    then show ?thesis using basis_no_url [OF sextet_top [of a]] basis_no_url [OF sextets(2) [of a b]]
        basis_no_url [OF sextets(5) [of b]]
      by (intro exI) (rule conjI, assumption, simp)
  next
    case (3 a b c)
    have "convert_block g = [encode_basis64 ! unat (drop_bit 2 a),
        encode_basis64 ! unat (push_bit 4 (a AND 3) OR drop_bit 4 b),
        encode_basis64 ! unat (push_bit 2 (b AND 0x0f) OR drop_bit 6 c), encode_basis64 ! unat (c AND 0x3f)] @
        replicate (3 - length g) 0x3D" unfolding 3 by simp
    then show ?thesis using basis_no_url [OF sextet_top [of a]] basis_no_url [OF sextets(2) [of a b]]
        basis_no_url [OF sextets(3) [of b c]] basis_no_url [OF sextets(6) [of c]]
      by (intro exI) (rule conjI, assumption, simp)
  qed
qed

lemma plain_blocks_text:
  "\<exists>w. plain_blocks s = w @ replicate (pads s) 0x3D \<and> list_all (\<lambda>c. c \<noteq> 0x2D \<and> c \<noteq> 0x5F) w"
proof (induction s rule: plain_blocks.induct)
  case (1 s)
  show ?case
  proof (cases "3 \<le> length s")
    case True
    then have g: "take 3 s \<noteq> []" "length (take 3 s) \<le> 3" "3 - length (take 3 s) = 0" by auto
    from convert_block_text [OF g(1,2)] obtain v where
      "convert_block (take 3 s) = v" "list_all (\<lambda>c. c \<noteq> 0x2D \<and> c \<noteq> 0x5F) v" unfolding g(3) by auto
    with 1 [OF True] pads_step [OF True] True show ?thesis by (subst plain_blocks.simps) fastforce
  next
    case False
    show ?thesis
    proof (cases "s = []")
      case True
      then show ?thesis by (subst plain_blocks.simps) (simp add: pads_def)
    next
      case s: False
      then show ?thesis using False convert_block_text [of s] pads_last [of s] by (subst plain_blocks.simps) simp
    qed
  qed
qed

lemma base64url_text_exists: "\<exists>u. base64url_text s u"
proof -
  obtain w where "plain_blocks s = w @ replicate (pads s) 0x3D" "list_all (\<lambda>c. c \<noteq> 0x2D \<and> c \<noteq> 0x5F) w"
    using plain_blocks_text by blast
  then have "base64url_text s w"
    by (auto simp: base64url_text_def url_digit_def list_all_iff intro: map_idI)
  then show ?thesis ..
qed

section \<open>Properties\<close>

text \<open>
  The base 64 of this decoder: every byte string is encoded into the buffer that is allocated for
  it, without any line break (the test for one looks at positions that are never a multiple of 76),
  and decoding gives the bytes back, followed by a zero for every padding character.
\<close>

theorem zplay_base64_round_trip:
  assumes "mem 1"
  shows "\<exists>e. zplay_encode_base64 s = Some e \<and> length e = 4 * ((length s + 2) div 3) \<and>
     e = encode_blocks 0 s \<and> (\<forall>k. 4 dvd k \<longrightarrow> check_append_newline k = []) \<and>
     zplay_decode_base64 mem e = Some (Some (s @ replicate (pads s) 0))"
  using encode_base64_plain [of s] plain_blocks_length [of s] decode_encoded [of mem s, OF assms]
    encode_blocks_plain [of 0 s] no_newline by (auto simp: dvd_eq_mod_eq_0)

theorem zplay_base64_round_trip_witness:
  "\<exists>e. zplay_encode_base64 [1, 2] = Some e \<and> length e = 4 \<and>
     zplay_decode_base64 (\<lambda>_. True) e = Some (Some ([1, 2] @ [0]))"
  using zplay_base64_round_trip [of "\<lambda>_. True" "[1, 2]"] by (auto simp: pads_def)

lemma hex_pairs_length: "length (hex_pairs s) = length s div 2"
  by (induction s rule: hex_pairs.induct) simp_all

text \<open>
  C16. No well-formed winning notice can be decoded: for every text that is the base 64 of a time
  stamp, an encrypted price and a signature, the call overruns the array of \<open>hmac_sha1\<close>.  With an
  array of 128 bytes the result would be the encrypted price combined with the key stream of the
  time stamp, so that the price an exchange encrypted this way would be read back; the signature
  does not matter.
\<close>

theorem zplay_price_undefined:
  assumes "base64url_text (stamp @ xor_pad (take 8 (hmac_spec (hex_pairs dec_key0) stamp)) (int64_bytes price) @ signature) u"
    "length stamp = 4" "length signature = 4" "\<forall>i. mem i"
  shows "zplay_DecodeWinningPrice mem u = None \<and> price_decode_sized 128 mem dec_key0 u = Some price"
proof -
  let ?key = "hex_pairs dec_key0"
  let ?pad = "take 8 (hmac_spec ?key stamp)"
  let ?enc = "xor_pad ?pad (int64_bytes price)"
  have key: "length ?key = 16" "hex mem dec_key0 = Some ?key"
    using assms(4) by (simp_all add: hex_pairs_length hex_def dec_key0_def)
  have pad: "length ?pad = length (int64_bytes price)"
    by (simp add: hmac_spec_def Let_def sha1_spec_length bytes_int64_bytes)
  then have enc: "length ?enc = 8" "xor_pad ?pad ?enc = int64_bytes price"
    using xor_pad_pad(1) [OF pad] xor_pad_commute [of ?pad ?enc] by (simp_all add: xor_pad_twice bytes_int64_bytes)
  let ?q = "stamp @ ?enc @ signature"
  let ?z = "replicate (3 - length ?q mod 3) (0 :: 8 word)"
  have q: "base64url_decode mem u = Some (Some (?q @ ?z))"
    using assms(4) by (intro base64url_decode [OF assms(1)]) simp_all
  have cut: "take 4 (?q @ ?z) = stamp" "take 8 (drop 4 (?q @ ?z)) = ?enc" "\<not> length (?q @ ?z) + 1 < 16"
    using assms(2,3) enc(1) by simp_all
  have sized: "price_decode_sized size8 mem dec_key0 u =
      (if 128 \<le> size8 then Some price else None)" if "84 \<le> size8" for size8
  proof -
    have "hmac_sha1_sized size8 (?key @ [0]) 16 stamp 4 =
        (if 128 \<le> size8 then Some (hmac_spec ?key stamp) else None)"
      using hmac_sized [of 16 "?key @ [0]" 4 stamp size8] key(1) assms(2) that by simp
    then show ?thesis unfolding price_decode_sized_def q
      using assms(4) cut key enc pad bytes_int64_bytes
      by (simp add: Let_def xor_bytes_def del: append_assoc)
  qed
  show ?thesis using sized [of 84] sized [of 128] by (simp add: zplay_DecodeWinningPrice_def price_decode_def)
qed

theorem zplay_price_undefined_witness:
  "\<exists>u. zplay_DecodeWinningPrice (\<lambda>_. True) u = None \<and>
     price_decode_sized 128 (\<lambda>_. True) dec_key0 u = Some 0x4059000000000000"
proof -
  obtain u where "base64url_text ([0, 0, 1, 2] @ xor_pad (take 8 (hmac_spec (hex_pairs dec_key0) [0, 0, 1, 2]))
      (int64_bytes 0x4059000000000000) @ [9, 9, 9, 9]) u" using base64url_text_exists by blast
  from zplay_price_undefined [OF this, of "\<lambda>_. True"] show ?thesis by auto
qed

end
