(* ===== verification/Adx_Json_Types.thy ===== *)
theory Adx_Json_Types
  imports Adx_Json_Parse
begin

text \<open>
  The types of JSON nodes: which members of a node mean something for which type.  The lookup
  functions of \<^verbatim>\<open>adx_json.c\<close> rely on it; the parser builds only trees that are typed.
\<close>

text \<open>A member of an object has a key, an element of an array has none.\<close>

fun typed :: "bool \<Rightarrow> adx_json_t \<Rightarrow> bool" where
  "typed named (Json ty key val n kids) \<longleftrightarrow> (key \<noteq> None \<longleftrightarrow> named) \<and>
     (case ty of
        JSON_OBJECT \<Rightarrow> val = None \<and> n = 0 \<and> kids \<noteq> [] \<and> list_all (typed True) kids
      | JSON_ARRAY \<Rightarrow> val = None \<and> n = length kids \<and> kids \<noteq> [] \<and> list_all (typed False) kids
      | JSON_EMPTY \<Rightarrow> val = None \<and> n = 0 \<and> kids = []
      | JSON_STRING \<Rightarrow> val \<noteq> None \<and> n = 0 \<and> kids = []
      | JSON_NUMBER \<Rightarrow> (\<exists>v. val = Some v \<and> list_all number_char v) \<and> n = 0 \<and> kids = []
      | JSON_BOOL \<Rightarrow> val \<in> {Some ''true'', Some ''false''} \<and> n = 0 \<and> kids = []
      | JSON_NULL \<Rightarrow> val = Some ''null'' \<and> n = 0 \<and> kids = []
      | JSON_UNSET \<Rightarrow> False)"

definition typed_result :: "json_result \<Rightarrow> bool" where
  "typed_result r \<longleftrightarrow> typed False (set_value (Json JSON_UNSET None None 0 []) r)"

definition typed_parser :: "'m value_parser \<Rightarrow> bool" where
  "typed_parser pv \<longleftrightarrow> (\<forall>m s r m' s'. pv m s = Some (Some (r, m', s')) \<longrightarrow> typed_result r)"

lemma typed_parserD: "typed_parser pv \<Longrightarrow> pv m s = Some (Some (r, m', s')) \<Longrightarrow> typed_result r"
  unfolding typed_parser_def by blast

definition json_keyed :: "adx_json_t \<Rightarrow> bool" where "json_keyed node \<longleftrightarrow> jkey node \<noteq> None"

lemma typed_set_value: "typed_result r \<Longrightarrow> typed (json_keyed node) (set_value node r)"
  by (cases node; cases r) (auto simp: typed_result_def json_keyed_def split: adx_json_type.splits)

lemma json_next_typed:
  assumes "json_next cont node res = Some (Some (kids, m', s'))" "\<And>r m s. res = Some (r, m, s) \<Longrightarrow> typed_result r"
    "\<And>m s kids m' s'. cont m s = Some (Some (kids, m', s')) \<Longrightarrow> list_all (typed (json_keyed node)) kids"
  shows "kids \<noteq> [] \<and> list_all (typed (json_keyed node)) kids"
proof -
  obtain v m s where res: "res = Some (v, m, s)" using assms(1) by (auto simp: json_next_def split: option.splits)
  note t = typed_set_value [OF assms(2) [OF res], of node]
  show ?thesis using assms(1,3) t by (auto simp: json_next_def res Let_def split: option.splits)
qed

lemma parse_key_keyed: "adx_json_parse_key alloc m s = Some (m', node, s') \<Longrightarrow> json_keyed node"
  by (auto simp: json_keyed_def adx_json_parse_key_def adx_json_create_key_def adx_json_create_def bind_eq_Some_conv
      split: option.splits if_splits)

lemma create_unkeyed: "adx_json_create alloc m None = Some (m', node) \<Longrightarrow> \<not> json_keyed node"
  by (auto simp: json_keyed_def adx_json_create_def bind_eq_Some_conv)

lemma parse_members_typed:
  assumes "typed_parser pv"
  shows "parse_members pv alloc n m s = Some (Some (kids, m', s')) \<Longrightarrow>
    list_all (typed True) kids \<and> (kids = [] \<longrightarrow> s' = [])"
proof (induction n arbitrary: m s kids m' s')
  case (Suc n)
  show ?case
  proof (cases "s = []")
    case False
    with Suc.prems obtain m1 node s1 s2 res where p: "adx_json_parse_key alloc m (adx_json_skip_space s) = Some (m1, node, s1)"
      "pv m1 s2 = Some res" "json_next (parse_members pv alloc n) node res = Some (Some (kids, m', s'))"
      by (auto simp: bind_eq_Some_conv split: option.splits prod.splits)
    have k: "json_keyed node = True" using parse_key_keyed [OF p(1)] by simp
    have "kids \<noteq> [] \<and> list_all (typed (json_keyed node)) kids"
    proof (rule json_next_typed [OF p(3)], goal_cases)
      case 1 then show ?case using typed_parserD [OF assms] p(2) by simp
    next
      case 2 then show ?case using Suc.IH by (simp add: k)
    qed
    then show ?thesis by (simp add: k)
  qed (use Suc.prems in simp)
qed simp

lemma parse_elements_typed:
  assumes "typed_parser pv"
  shows "parse_elements pv alloc n m s = Some (Some (kids, m', s')) \<Longrightarrow>
    list_all (typed False) kids \<and> (kids = [] \<longrightarrow> s' = [])"
proof (induction n arbitrary: m s kids m' s')
  case (Suc n)
  show ?case
  proof (cases "s = []")
    case False
    with Suc.prems obtain m1 node res where p: "adx_json_create alloc m None = Some (m1, node)"
      "pv m1 s = Some res" "json_next (parse_elements pv alloc n) node res = Some (Some (kids, m', s'))"
      by (auto simp: bind_eq_Some_conv split: option.splits prod.splits)
    have k: "json_keyed node = False" using create_unkeyed [OF p(1)] by simp
    have "kids \<noteq> [] \<and> list_all (typed (json_keyed node)) kids"
    proof (rule json_next_typed [OF p(3)], goal_cases)
      case 1 then show ?case using typed_parserD [OF assms] p(2) by simp
    next
      case 2 then show ?case using Suc.IH by (simp add: k)
    qed
    then show ?thesis by (simp add: k)
  qed (use Suc.prems in simp)
qed simp

text \<open>The result of the object parser and of the array parser, by cases on how they end.\<close>

lemma parse_object_cases:
  assumes "adx_json_parse_object pv alloc m s = Some (Some (r, m', s'))"
  obtains "r = (JSON_EMPTY, None, 0, [])"
    | n m1 s1 kids s2 where "parse_members pv alloc n m1 s1 = Some (Some (kids, m', s2))" "s2 \<noteq> []" "r = (JSON_OBJECT, None, 0, kids)"
  using assms
proof (cases "expect CHR ''{'' s")
  case 1: (Some s1)
  let ?s = "adx_json_skip_space s1"
  let ?n = "Suc (length ?s)"
  show ?thesis
  proof (cases "expect CHR ''}'' ?s")
    case 2: None
    show ?thesis
    proof (cases "parse_members pv alloc ?n m ?s")
      case 3: (Some res)
      show ?thesis
      proof (cases res)
        case 4: (Some x)
        obtain kids m2 s2 where x: "x = (kids, m2, s2)" by (cases x)
        show ?thesis
          using assms 1 2 3 4 x that(2) [of ?n m ?s kids s2]
          by (cases "expect CHR ''}'' s2"; cases s2) (simp_all add: adx_json_parse_object_def Let_def del: parse_members.simps)
      qed (use assms 1 2 3 in \<open>simp add: adx_json_parse_object_def Let_def del: parse_members.simps\<close>)
    qed (use assms 1 2 in \<open>simp add: adx_json_parse_object_def Let_def del: parse_members.simps\<close>)
  qed (use assms 1 that(1) in \<open>simp add: adx_json_parse_object_def Let_def\<close>)
qed (simp add: adx_json_parse_object_def)

lemma parse_array_cases:
  assumes "adx_json_parse_array pv alloc m s = Some (Some (r, m', s'))"
  obtains "r = (JSON_EMPTY, None, 0, [])"
    | n m1 s1 kids s2 where "parse_elements pv alloc n m1 s1 = Some (Some (kids, m', s2))" "s2 \<noteq> []"
        "r = (JSON_ARRAY, None, length kids, kids)"
  using assms
proof (cases "expect CHR ''['' s")
  case 1: (Some s1)
  let ?s = "adx_json_skip_space s1"
  let ?n = "Suc (length ?s)"
  show ?thesis
  proof (cases "expect CHR '']'' ?s")
    case 2: None
    show ?thesis
    proof (cases "parse_elements pv alloc ?n m ?s")
      case 3: (Some res)
      show ?thesis
      proof (cases res)
        case 4: (Some x)
        obtain kids m2 s2 where x: "x = (kids, m2, s2)" by (cases x)
        show ?thesis
          using assms 1 2 3 4 x that(2) [of ?n m ?s kids s2]
          by (cases "expect CHR '']'' s2"; cases s2) (simp_all add: adx_json_parse_array_def Let_def del: parse_elements.simps)
      qed (use assms 1 2 3 in \<open>simp add: adx_json_parse_array_def Let_def del: parse_elements.simps\<close>)
    qed (use assms 1 2 in \<open>simp add: adx_json_parse_array_def Let_def del: parse_elements.simps\<close>)
  qed (use assms 1 that(1) in \<open>simp add: adx_json_parse_array_def Let_def\<close>)
qed (simp add: adx_json_parse_array_def)

lemma object_typed:
  assumes "typed_parser pv"
  shows "typed_parser (adx_json_parse_object pv alloc)"
  unfolding typed_parser_def
proof (intro allI impI)
  fix m s r m' s' assume "adx_json_parse_object pv alloc m s = Some (Some (r, m', s'))"
  then show "typed_result r"
    by (cases rule: parse_object_cases) (auto simp: typed_result_def dest: parse_members_typed [OF assms])
qed

lemma array_typed:
  assumes "typed_parser pv"
  shows "typed_parser (adx_json_parse_array pv alloc)"
  unfolding typed_parser_def
proof (intro allI impI)
  fix m s r m' s' assume "adx_json_parse_array pv alloc m s = Some (Some (r, m', s'))"
  then show "typed_result r"
    by (cases rule: parse_array_cases) (auto simp: typed_result_def dest: parse_elements_typed [OF assms])
qed

lemma value_string_typed: "adx_json_parse_value_string alloc m s = Some (r, m', s') \<Longrightarrow> typed_result r"
  by (auto simp: adx_json_parse_value_string_def typed_result_def bind_eq_Some_conv split: option.splits)

lemma number_not_backslash: "list_all number_char v \<Longrightarrow> BSL \<notin> set v"
  by (auto simp: list_all_iff number_char_def isdigit_def)

lemma value_number_typed: "adx_json_parse_value_number alloc m s = Some (r, m', s') \<Longrightarrow> typed_result r"
proof -
  assume "adx_json_parse_value_number alloc m s = Some (r, m', s')"
  then have r: "r = (JSON_NUMBER, Some (unescape (takeWhile number_char s)), 0, [])"
    by (auto simp: adx_json_parse_value_number_def adx_json_strdup_def Let_def bind_eq_Some_conv split: if_splits)
  have n: "list_all number_char (takeWhile number_char s)" by (auto simp: list_all_iff dest: set_takeWhileD)
  show ?thesis unfolding r by (simp add: typed_result_def unescape_plain number_not_backslash n)
qed

lemma literal_typed: "parse_literal alloc m s = Some (r, m', s') \<Longrightarrow> typed_result r"
  by (auto simp: parse_literal_def adx_json_parse_other_def adx_json_strdup_def unescape_plain typed_result_def
      bind_eq_Some_conv split: if_splits)

lemma parse_value_typed: "typed_parser (adx_json_parse_value alloc n)"
proof (induction n)
  case (Suc n)
  note o = object_typed [OF Suc, of alloc] and a = array_typed [OF Suc, of alloc]
  show ?case unfolding typed_parser_def
  proof (intro allI impI)
    fix m s r m' s' assume p: "adx_json_parse_value alloc (Suc n) m s = Some (Some (r, m', s'))"
    then show "typed_result r"
      by (auto simp: Let_def split: list.splits if_splits dest: typed_parserD [OF o] typed_parserD [OF a]
          value_string_typed value_number_typed literal_typed)
  qed
qed (simp add: typed_parser_def)

lemma typed_array:
  assumes "typed b node" "jtype node = JSON_ARRAY"
  shows "adx_json_array_check (Some node) = 0 \<and> list_all (typed False) (child node) \<and>
    (\<forall>i < length (child node). adx_json_find_array (Some node) (int i) = Some (child node ! i))"
  using assms by (cases node) (simp add: adx_json_array_check_def adx_json_find_array_def)

section \<open>Property\<close>

text \<open>
  C12. The parser is type safe: every text is refused or read as a tree of typed nodes, and the lookup
  functions get from the members of the tree what their types promise: the text of a string, the
  value of a number, and every element of an array below its length.
\<close>

theorem adx_json_parse_typed:
  assumes "adx_json_parse alloc m src = Some (Some (m', root))"
  shows "child root \<noteq> [] \<and> list_all (typed True) (child root) \<and>
    (\<forall>key node. adx_json_find (Some root) (Some key) = Some node \<longrightarrow> typed True node \<and> jkey node = Some key \<and>
      (jtype node = JSON_STRING \<longrightarrow>
        (\<exists>v. jval node = Some v \<and> adx_json_find_value_string (Some root) (Some key) = Some v)) \<and>
      (jtype node = JSON_NUMBER \<longrightarrow>
        (\<exists>v. jval node = Some v \<and> adx_json_find_value_number (Some root) (Some key) = atol v)) \<and>
      (jtype node = JSON_ARRAY \<longrightarrow> adx_json_array_check (Some node) = 0 \<and>
        (\<forall>i < length (child node). adx_json_find_array (Some node) (int i) = Some (child node ! i) \<and>
           typed False (child node ! i))))"
proof -
  from assms obtain m1 m2 v kids r where
    p: "adx_json_parse_object (adx_json_parse_value alloc (length src)) alloc m1 (adx_json_skip_space src) =
      Some (Some ((JSON_OBJECT, v, r, kids), m2))" and kids: "child root = kids"
    by (fastforce simp: adx_json_parse_def bind_eq_Some_conv case_prod_beta split: option.splits if_splits)
  obtain m3 s3 where "m2 = (m3, s3)" by fastforce
  then have "typed_result (JSON_OBJECT, v, r, kids)"
    by (intro typed_parserD [OF object_typed [OF parse_value_typed]]) (use p in simp)
  then have t: "kids \<noteq> []" "list_all (typed True) kids" by (simp_all add: typed_result_def)
  {
    fix key node assume f: "adx_json_find (Some root) (Some key) = Some node"
    then have "node \<in> set kids" and k: "jkey node = Some key"
      by (auto simp: adx_json_find_def kids find_Some_iff)
    with t have "typed True node" by (simp add: list_all_iff)
    moreover have "jtype node = JSON_STRING \<longrightarrow>
        (\<exists>v. jval node = Some v \<and> adx_json_find_value_string (Some root) (Some key) = Some v)"
      "jtype node = JSON_NUMBER \<longrightarrow>
        (\<exists>v. jval node = Some v \<and> adx_json_find_value_number (Some root) (Some key) = atol v)"
      using \<open>typed True node\<close> by (cases node; auto simp: adx_json_find_value_string_def adx_json_find_value_number_def f)+
    moreover note k
    ultimately have "typed True node \<and> jkey node = Some key \<and>
      (jtype node = JSON_STRING \<longrightarrow>
        (\<exists>v. jval node = Some v \<and> adx_json_find_value_string (Some root) (Some key) = Some v)) \<and>
      (jtype node = JSON_NUMBER \<longrightarrow>
        (\<exists>v. jval node = Some v \<and> adx_json_find_value_number (Some root) (Some key) = atol v)) \<and>
      (jtype node = JSON_ARRAY \<longrightarrow> adx_json_array_check (Some node) = 0 \<and>
        (\<forall>i < length (child node). adx_json_find_array (Some node) (int i) = Some (child node ! i) \<and>
           typed False (child node ! i)))"
      using typed_array [of True node] by (simp add: list_all_length)
  }
  with t kids show ?thesis by blast
qed

text \<open>A text with a string, a number and an array.\<close>

theorem adx_json_parse_typed_witness:
  "\<exists>m' root. adx_json_parse (\<lambda>m n. Some (m + n)) (0 :: nat) ''{\"id\":\"a\",\"n\":[7,true]}'' = Some (Some (m', root)) \<and>
     (\<forall>node. adx_json_find (Some root) (Some ''id'') = Some node \<longrightarrow> typed True node)"
proof -
  have "case adx_json_parse (\<lambda>m n. Some (m + n)) (0 :: nat) ''{\"id\":\"a\",\"n\":[7,true]}'' of Some (Some _) \<Rightarrow> True | _ \<Rightarrow> False"
    by code_simp
  then obtain m' root where p: "adx_json_parse (\<lambda>m n. Some (m + n)) (0 :: nat) ''{\"id\":\"a\",\"n\":[7,true]}'' = Some (Some (m', root))"
    by (auto split: option.splits)
  show ?thesis using p adx_json_parse_typed [OF p] by blast
qed

end
