(* ===== verification/Adx_Time.thy ===== *)
theory Adx_Time
  imports Adx_Cstd
begin

text \<open>
  The clock functions \<^verbatim>\<open>adx_time.c\<close>: the end of the current hour, day, week and month, until which
  budgets count and campaigns are paused, and the time as text.  \<^verbatim>\<open>time\<close> is the argument \<open>now\<close>, a
  number of seconds; \<^verbatim>\<open>localtime_r\<close> and \<^verbatim>\<open>mktime\<close> of the C library are modelled with the Gregorian
  calendar from 1970 on, for a zone that is \<open>zone\<close> seconds east of Greenwich and has no daylight-saving time.
\<close>

section \<open>The calendar of the C library\<close>

definition leap_year :: "nat \<Rightarrow> bool" where
  "leap_year y \<longleftrightarrow> 4 dvd y \<and> (\<not> 100 dvd y \<or> 400 dvd y)"

definition year_days :: "nat \<Rightarrow> nat" where
  "year_days y = (if leap_year y then 366 else 365)"

definition month_days :: "nat \<Rightarrow> nat \<Rightarrow> nat" where
  "month_days y m = (if m = 1 then if leap_year y then 29 else 28 else if m \<in> {3, 5, 8, 10} then 30 else 31)"

text \<open>Days before a year, from 1970 on, and before a month of it.\<close>

definition days_before_year :: "nat \<Rightarrow> nat" where
  "days_before_year y = sum_list (map year_days [1970..<y])"

definition days_before_month :: "nat \<Rightarrow> nat \<Rightarrow> nat" where
  "days_before_month y m = sum_list (map (month_days y) [0..<m])"

function find_year :: "nat \<Rightarrow> nat \<Rightarrow> nat \<times> nat" where
  "find_year d y = (if d < year_days y then (y, d) else find_year (d - year_days y) (y + 1))"
  by pat_completeness auto
termination by (relation "measure fst") (auto simp: year_days_def)

function find_month :: "nat \<Rightarrow> nat \<Rightarrow> nat \<Rightarrow> nat \<times> nat" where
  "find_month y d m = (if d < month_days y m then (m, d) else find_month y (d - month_days y m) (m + 1))"
  by pat_completeness auto
termination by (relation "measure (\<lambda>(y, d, m). d)") (auto simp: month_days_def)

declare find_year.simps [simp del] find_month.simps [simp del]

record tm =
  tm_year :: int
  tm_mon :: int
  tm_mday :: int
  tm_hour :: int
  tm_min :: int
  tm_sec :: int
  tm_wday :: int

definition localtime_r :: "int \<Rightarrow> int \<Rightarrow> tm" where
  "localtime_r zone t =
     (let s = t + zone; days = s div 86400; sec = s mod 86400;
          (y, yd) = find_year (nat days) 1970;
          (m, md) = find_month y yd 0 in
      \<lparr>tm_year = int y - 1900, tm_mon = int m, tm_mday = int md + 1,
       tm_hour = sec div 3600, tm_min = sec mod 3600 div 60, tm_sec = sec mod 60, tm_wday = (days + 4) mod 7\<rparr>)"

text \<open>For a month from 0 to 11; the week day is not used.\<close>

definition mktime :: "int \<Rightarrow> tm \<Rightarrow> int" where
  "mktime zone tm =
     (let y = nat (tm_year tm + 1900);
          days = int (days_before_year y) + int (days_before_month y (nat (tm_mon tm))) + tm_mday tm - 1 in
      days * 86400 + tm_hour tm * 3600 + tm_min tm * 60 + tm_sec tm - zone)"

section \<open>Model: the functions\<close>

definition get_time_hour :: "int \<Rightarrow> int \<Rightarrow> int" where
  "get_time_hour zone now = tm_hour (localtime_r zone now)"

text \<open>A division by zero is \<open>None\<close>; it truncates towards zero.\<close>

definition get_time_hour_split :: "int \<Rightarrow> int \<Rightarrow> int \<Rightarrow> int option" where
  "get_time_hour_split zone now minutes =
     (let tm = localtime_r zone now in
      if minutes = 0 then None
      else Some (if 0 < minutes then tm_min tm div minutes else - (tm_min tm div - minutes)))"

definition get_time_sec_today_end :: "int \<Rightarrow> int \<Rightarrow> int" where
  "get_time_sec_today_end zone now =
     (let tm = localtime_r zone now in (23 - tm_hour tm) * 3600 + (60 - tm_min tm) * 60)"

definition get_time_sec_hour_end :: "int \<Rightarrow> int \<Rightarrow> int" where
  "get_time_sec_hour_end zone now =
     (let tm = localtime_r zone now in (60 - tm_min tm) * 60 - tm_sec tm)"

definition get_time_sec_30min_end :: "int \<Rightarrow> int \<Rightarrow> int" where
  "get_time_sec_30min_end zone now =
     (let tm = localtime_r zone now in
      if 30 \<le> tm_min tm then (60 - tm_min tm) * 60 - tm_sec tm
      else (30 - tm_min tm) * 60 - tm_sec tm)"

definition get_time_sec_10min_end :: "int \<Rightarrow> int \<Rightarrow> int" where
  "get_time_sec_10min_end zone now =
     (let tm = localtime_r zone now; units = tm_min tm mod 10 in 600 - (units * 60 + tm_sec tm))"

abbreviation TIME_DAY_SEC :: int where "TIME_DAY_SEC \<equiv> 86400"

definition get_time_month_end :: "int \<Rightarrow> int \<Rightarrow> int" where
  "get_time_month_end zone now =
     (let tm = localtime_r zone now in
      if tm_mon tm = 11 then mktime zone (tm\<lparr>tm_mday := 31, tm_hour := 23, tm_min := 59, tm_sec := 59\<rparr>)
      else mktime zone (tm\<lparr>tm_mon := tm_mon tm + 1, tm_mday := 1, tm_hour := 23, tm_min := 59, tm_sec := 59\<rparr>) -
        TIME_DAY_SEC)"

definition get_time_week_end :: "int \<Rightarrow> int \<Rightarrow> int" where
  "get_time_week_end zone now =
     (let tm = localtime_r zone now in
      if tm_wday tm = 0 then mktime zone (tm\<lparr>tm_hour := 23, tm_min := 59, tm_sec := 59\<rparr>)
      else let t = now + (7 - tm_wday tm) * TIME_DAY_SEC; tm = localtime_r zone t in
        mktime zone (tm\<lparr>tm_hour := 23, tm_min := 59, tm_sec := 59\<rparr>))"

definition get_time_day_end :: "int \<Rightarrow> int \<Rightarrow> int" where
  "get_time_day_end zone now =
     (let tm = localtime_r zone now in mktime zone (tm\<lparr>tm_hour := 23, tm_min := 59, tm_sec := 59\<rparr>))"

definition get_time_hour_end :: "int \<Rightarrow> int \<Rightarrow> int" where
  "get_time_hour_end zone now =
     (let tm = localtime_r zone now in mktime zone (tm\<lparr>tm_min := 59, tm_sec := 59\<rparr>))"

text \<open>The format \<^verbatim>\<open>%0nd\<close> for a number that is not negative.\<close>

definition pad0 :: "nat \<Rightarrow> int \<Rightarrow> string" where
  "pad0 n x = replicate (n - length (dec x)) CHR ''0'' @ dec x"

text \<open>One part of the text: \<open>bit\<close> of \<open>type\<close> decides whether it is written.\<close>

definition time_part :: "bool \<Rightarrow> string option \<Rightarrow> string \<Rightarrow> string \<Rightarrow> string" where
  "time_part sel split part buf =
     (if sel then
        (case split of Some s \<Rightarrow> if buf \<noteq> [] then buf @ s else buf | None \<Rightarrow> buf) @ part
      else buf)"

definition get_time_str :: "int \<Rightarrow> int \<Rightarrow> 32 word \<Rightarrow> string option \<Rightarrow> string" where
  "get_time_str zone now ty split =
     (let tm = localtime_r zone now;
          buf = (if bit ty 0 then pad0 4 (tm_year tm + 1900) else []);
          buf = time_part (bit ty 1) split (pad0 2 (tm_mon tm + 1)) buf;
          buf = time_part (bit ty 2) split (pad0 2 (tm_mday tm)) buf;
          buf = time_part (bit ty 3) split (pad0 2 (tm_hour tm)) buf;
          buf = time_part (bit ty 4) split (pad0 2 (tm_min tm)) buf in
      time_part (bit ty 5) split (pad0 2 (tm_sec tm)) buf)"

text \<open>
  The buffer has 128 bytes: a longer text, which only a long separator makes, is written behind it,
  \<open>None\<close>.  The inner option is a null pointer.
\<close>

definition get_time_str_r ::
    "'m alloc_fun \<Rightarrow> 'm \<Rightarrow> int \<Rightarrow> int \<Rightarrow> 32 word \<Rightarrow> string option \<Rightarrow> ('m \<times> string) option option" where
  "get_time_str_r alloc m zone now ty split =
     (case alloc m 128 of None \<Rightarrow> Some None
      | Some m \<Rightarrow> let s = get_time_str zone now ty split in if 128 \<le> length s then None else Some (Some (m, s)))"

section \<open>The calendar\<close>

lemma days_before_year_Suc: "1970 \<le> y \<Longrightarrow> days_before_year (Suc y) = days_before_year y + year_days y"
  by (simp add: days_before_year_def)

lemma days_before_month_Suc: "days_before_month y (Suc m) = days_before_month y m + month_days y m"
  by (simp add: days_before_month_def)

lemma days_before_month_year: "days_before_month y 12 = year_days y"
  by (simp add: days_before_month_def month_days_def year_days_def upt_rec)

lemma days_before_year_mono: "y \<le> y' \<Longrightarrow> days_before_year y \<le> days_before_year y'"
  by (induction rule: dec_induct) (auto simp: days_before_year_def)

lemma days_before_month_mono: "m \<le> m' \<Longrightarrow> days_before_month y m \<le> days_before_month y m'"
  by (induction rule: dec_induct) (auto simp: days_before_month_Suc)

lemma find_year:
  "find_year d y = (y', r) \<Longrightarrow> 1970 \<le> y \<Longrightarrow> y \<le> y' \<and> r < year_days y' \<and> days_before_year y + d = days_before_year y' + r"
proof (induction d y rule: find_year.induct)
  case (1 d y)
  show ?case
  proof (cases "d < year_days y")
    case True
    with 1(2) show ?thesis by (subst (asm) find_year.simps) simp
  next
    case False
    with 1(2) have "find_year (d - year_days y) (y + 1) = (y', r)" by (subst (asm) find_year.simps) simp
    from 1(1) [OF False this] 1(3) False days_before_year_Suc [OF 1(3)] show ?thesis by simp
  qed
qed

lemma find_month:
  "find_month y d m = (m', r) \<Longrightarrow> m \<le> m' \<and> r < month_days y m' \<and> days_before_month y m + d = days_before_month y m' + r"
proof (induction y d m rule: find_month.induct)
  case (1 y d m)
  show ?case
  proof (cases "d < month_days y m")
    case True
    with 1(2) show ?thesis by (subst (asm) find_month.simps) simp
  next
    case False
    with 1(2) have "find_month y (d - month_days y m) (m + 1) = (m', r)" by (subst (asm) find_month.simps) simp
    from 1(1) [OF False this] False days_before_month_Suc [of y m] show ?thesis by simp
  qed
qed

text \<open>The first day of a month, and the months as intervals of days.\<close>

definition month_start :: "nat \<Rightarrow> nat \<Rightarrow> nat" where
  "month_start y m = days_before_year y + days_before_month y m"

definition in_month :: "nat \<Rightarrow> nat \<Rightarrow> nat \<Rightarrow> bool" where
  "in_month y m d \<longleftrightarrow> 1970 \<le> y \<and> m < 12 \<and> month_start y m \<le> d \<and> d < month_start y m + month_days y m"

lemma month_end_less:
  assumes "1970 \<le> y" "m < 12" "y < y' \<or> y = y' \<and> m < m'"
  shows "month_start y m + month_days y m \<le> month_start y' m'"
proof (cases "y = y'")
  case True
  with assms have "days_before_month y (Suc m) \<le> days_before_month y m'" by (intro days_before_month_mono) simp
  with True show ?thesis by (simp add: month_start_def days_before_month_Suc)
next
  case False
  have "days_before_month y (Suc m) \<le> days_before_month y 12" using assms(2) by (intro days_before_month_mono) simp
  moreover have "days_before_year (Suc y) \<le> days_before_year y'" using False assms(3) by (intro days_before_year_mono) simp
  ultimately show ?thesis
    by (simp add: month_start_def days_before_month_Suc days_before_month_year days_before_year_Suc [OF assms(1)])
qed

lemma in_month_unique:
  assumes "in_month y m d" "in_month y' m' d"
  shows "y = y' \<and> m = m'"
proof (rule ccontr)
  assume "\<not> ?thesis"
  then consider "y < y' \<or> y = y' \<and> m < m'" | "y' < y \<or> y' = y \<and> m' < m" by linarith
  then show False using assms month_end_less [of y m y' m'] month_end_less [of y' m' y m]
    by cases (auto simp: in_month_def)
qed

lemma localtime_day:
  assumes "0 \<le> t + zone"
  obtains y m where "in_month y m (nat ((t + zone) div 86400))"
    "localtime_r zone t = \<lparr>tm_year = int y - 1900, tm_mon = int m,
       tm_mday = (t + zone) div 86400 - int (month_start y m) + 1,
       tm_hour = (t + zone) mod 86400 div 3600, tm_min = (t + zone) mod 86400 mod 3600 div 60,
       tm_sec = (t + zone) mod 86400 mod 60, tm_wday = ((t + zone) div 86400 + 4) mod 7\<rparr>"
proof -
  let ?d = "nat ((t + zone) div 86400)"
  obtain y yd where y: "find_year ?d 1970 = (y, yd)" by fastforce
  obtain m md where m: "find_month y yd 0 = (m, md)" by fastforce
  have fy: "1970 \<le> y" "yd < year_days y" "?d = days_before_year y + yd"
    using find_year [OF y] by (simp_all add: days_before_year_def)
  have fm: "md < month_days y m" "yd = days_before_month y m + md"
    using find_month [OF m] by (simp_all add: days_before_month_def)
  have "m < 12"
  proof (rule ccontr)
    assume "\<not> m < 12"
    then have "year_days y \<le> days_before_month y m"
      using days_before_month_mono [of 12 m y] by (simp add: days_before_month_year)
    with fy(2) fm(2) show False by simp
  qed
  with fy fm have i: "in_month y m ?d" by (simp add: in_month_def month_start_def)
  have "int md = (t + zone) div 86400 - int (month_start y m)"
    using fy(3) fm(2) assms by (simp add: month_start_def pos_imp_zdiv_nonneg_iff)
  with i show ?thesis by (intro that [of y m]) (simp_all add: localtime_r_def Let_def y m)
qed

text \<open>The time of a local day.\<close>

lemma mktime_day:
  assumes "0 \<le> t + zone"
  shows "mktime zone ((localtime_r zone t)\<lparr>tm_hour := h, tm_min := mi, tm_sec := s\<rparr>) =
    (t + zone) div 86400 * 86400 + h * 3600 + mi * 60 + s - zone"
  by (rule localtime_day [OF assms]) (simp add: mktime_def Let_def month_start_def)

lemma localtime_fields:
  "tm_hour (localtime_r zone t) = (t + zone) mod 86400 div 3600"
  "tm_min (localtime_r zone t) = (t + zone) mod 86400 mod 3600 div 60"
  "tm_sec (localtime_r zone t) = (t + zone) mod 86400 mod 60"
  "tm_wday (localtime_r zone t) = ((t + zone) div 86400 + 4) mod 7"
  by (simp_all add: localtime_r_def Let_def split: prod.split)

lemma localtime_month:
  assumes "0 \<le> t + zone" "in_month y m (nat ((t + zone) div 86400))"
  shows "tm_year (localtime_r zone t) = int y - 1900 \<and> tm_mon (localtime_r zone t) = int m"
  by (rule localtime_day [OF assms(1)]) (use in_month_unique [OF _ assms(2)] in auto)

lemma mod_day: "x mod 86400 mod 3600 = x mod (3600 :: int)" "x mod 86400 mod 60 = x mod (60 :: int)"
  by (simp_all add: mod_mod_cancel)

text \<open>The seconds to the end of a part of the hour.\<close>

lemma clock: "x mod 3600 = x mod 3600 div 60 * 60 + x mod (60 :: int)"
  using div_mult_mod_eq [of "x mod 3600" 60] by (simp add: mod_mod_cancel)

lemma hour_end_seconds: "get_time_sec_hour_end zone now = 3600 - (now + zone) mod 3600"
  using clock [of "now + zone"] by (simp add: get_time_sec_hour_end_def Let_def localtime_fields mod_day)

lemma ten_minutes: "x mod 3600 div 60 mod 10 * 60 + x mod 60 = x mod (600 :: int)"
proof -
  have "x mod 3600 = x mod 60 + x div 60 mod 60 * 60" "x mod 600 = x div 60 mod 10 * 60 + x mod 60"
    using zmod_zmult2_eq [of 60 x 60] zmod_zmult2_eq [of 10 x 60] by simp_all
  moreover have "(x mod 60 + x div 60 mod 60 * 60) div 60 = x div 60 mod 60"
    by simp
  moreover have "x div 60 mod 60 mod 10 = x div 60 mod 10" by (rule mod_mod_cancel) simp
  ultimately show ?thesis by (simp only:)
qed

lemma ten_minutes_seconds: "get_time_sec_10min_end zone now = 600 - (now + zone) mod 600"
  using ten_minutes [of "now + zone"] by (simp add: get_time_sec_10min_end_def Let_def localtime_fields mod_day)

lemma half_hour: "(if 30 \<le> x mod 3600 div 60 then x mod 3600 - 1800 else x mod 3600) = x mod (1800 :: int)"
proof -
  have q: "q mod 2 = 0 \<or> q mod 2 = 1" and le: "30 \<le> q div 60 \<longleftrightarrow> 1800 \<le> q" for q :: int by linarith+
  have r: "x mod 3600 = 1800 * (x div 1800 mod 2) + x mod 1800" using zmod_zmult2_eq [of 2 x 1800] by simp
  have b: "0 \<le> x mod 1800" "x mod 1800 < 1800" by (rule pos_mod_sign, simp) (rule pos_mod_bound, simp)
  show ?thesis unfolding le using q [of "x div 1800"] r b by (elim disjE) simp_all
qed

lemma half_hour_seconds: "get_time_sec_30min_end zone now = 1800 - (now + zone) mod 1800"
  using half_hour [of "now + zone"] clock [of "now + zone"]
  by (simp add: get_time_sec_30min_end_def Let_def localtime_fields mod_day split: if_splits)

lemma today_end_seconds: "get_time_sec_today_end zone now = 86400 - (now + zone) mod 86400 + (now + zone) mod 60"
proof -
  let ?x = "now + zone"
  have "?x mod 86400 = ?x mod 86400 div 3600 * 3600 + ?x mod 3600"
    using div_mult_mod_eq [of "?x mod 86400" 3600] by (simp add: mod_day)
  then show ?thesis using clock [of ?x]
    by (simp add: get_time_sec_today_end_def Let_def localtime_fields mod_day)
qed

text \<open>The ends as points of time.\<close>

lemma day_end_time:
  "0 \<le> now + zone \<Longrightarrow> get_time_day_end zone now = (now + zone) div 86400 * 86400 + 86399 - zone"
  by (simp add: get_time_day_end_def Let_def mktime_day)

lemma hour_end_time:
  assumes "0 \<le> now + zone"
  shows "get_time_hour_end zone now = (now + zone) div 3600 * 3600 + 3599 - zone"
proof -
  let ?x = "now + zone"
  have "(localtime_r zone now)\<lparr>tm_min := 59, tm_sec := 59\<rparr> =
      (localtime_r zone now)\<lparr>tm_hour := ?x mod 86400 div 3600, tm_min := 59, tm_sec := 59\<rparr>"
    by (simp add: localtime_fields(1) [symmetric])
  then have "get_time_hour_end zone now = ?x div 86400 * 86400 + ?x mod 86400 div 3600 * 3600 + 3599 - zone"
    by (simp add: get_time_hour_end_def Let_def mktime_day [OF assms])
  then show ?thesis by (simp add: minus_mod_eq_div_mult [symmetric] mod_day)
qed

text \<open>Days until Sunday.\<close>

definition to_sunday :: "int \<Rightarrow> int" where
  "to_sunday d = (if (d + 4) mod 7 = 0 then 0 else 7 - (d + 4) mod 7)"

lemma to_sunday: "0 \<le> to_sunday d" "to_sunday d < 7" "(d + to_sunday d + 4) mod 7 = 0"
proof -
  have b: "0 \<le> (d + 4) mod 7" "(d + 4) mod 7 < 7" by simp_all
  then show "0 \<le> to_sunday d" "to_sunday d < 7" by (auto simp: to_sunday_def)
  have "(d + 4 + (7 - (d + 4) mod 7)) mod 7 = 0"
    by (metis add_diff_eq add_diff_cancel_right' diff_add_eq minus_mod_eq_div_mult mod_add_self2 mod_mult_self2_is_0)
  then show "(d + to_sunday d + 4) mod 7 = 0" by (auto simp: to_sunday_def algebra_simps)
qed

lemma week_end_time:
  assumes "0 \<le> now + zone"
  shows "get_time_week_end zone now =
    ((now + zone) div 86400 + to_sunday ((now + zone) div 86400)) * 86400 + 86399 - zone"
proof -
  let ?d = "(now + zone) div 86400"
  define n where "n = 7 - (?d + 4) mod 7"
  have "0 \<le> n" using pos_mod_bound [of 7 "?d + 4"] unfolding n_def by linarith
  with assms have t: "0 \<le> now + n * 86400 + zone" by simp
  have "(now + n * 86400 + zone) div 86400 = ?d + n"
    using div_mult_self2 [of 86400 "now + zone" n] by (simp add: algebra_simps)
  then have "mktime zone ((localtime_r zone (now + n * 86400))\<lparr>tm_hour := 23, tm_min := 59, tm_sec := 59\<rparr>) =
      (?d + n) * 86400 + 86399 - zone" by (simp add: mktime_day [OF t])
  then show ?thesis
    by (simp add: get_time_week_end_def Let_def localtime_fields to_sunday_def mktime_day [OF assms] n_def)
qed

text \<open>\<open>u\<close> is the last second of the period of length \<open>len\<close> that \<open>now\<close> falls into.\<close>

definition last_second :: "int \<Rightarrow> int \<Rightarrow> int \<Rightarrow> int \<Rightarrow> bool" where
  "last_second zone now len u \<longleftrightarrow> now \<le> u \<and> u < now + len \<and> (u + 1 + zone) mod len = 0"

lemma last_second:
  assumes "0 < len"
  shows "last_second zone now len (now + (len - (now + zone) mod len) - 1)"
proof -
  have "(now + zone + (len - (now + zone) mod len)) mod len = (now + zone + len - (now + zone)) mod len"
    by (metis add_diff_eq mod_diff_right_eq)
  then show ?thesis
    using pos_mod_bound [OF assms, of "now + zone"] pos_mod_sign [OF assms, of "now + zone"]
    by (simp add: last_second_def algebra_simps)
qed

lemma last_second_div:
  "(now + zone) div len * len + (len - 1) - zone = now + (len - (now + zone) mod len) - (1 :: int)"
  using div_mult_mod_eq [of "now + zone" len] by (simp add: algebra_simps)

lemma last_seconds:
  assumes "0 \<le> now + zone"
  shows "last_second zone now 3600 (get_time_hour_end zone now)"
    "last_second zone now 86400 (get_time_day_end zone now)"
proof -
  have h: "get_time_hour_end zone now = now + (3600 - (now + zone) mod 3600) - 1"
    unfolding hour_end_time [OF assms] using last_second_div [of now zone 3600] by simp
  have d: "get_time_day_end zone now = now + (86400 - (now + zone) mod 86400) - 1"
    unfolding day_end_time [OF assms] using last_second_div [of now zone 86400] by simp
  show "last_second zone now 3600 (get_time_hour_end zone now)" unfolding h by (rule last_second) simp
  show "last_second zone now 86400 (get_time_day_end zone now)" unfolding d by (rule last_second) simp
qed

lemma last_seconds_left:
  "last_second zone now 3600 (now + get_time_sec_hour_end zone now - 1)"
  "last_second zone now 1800 (now + get_time_sec_30min_end zone now - 1)"
  "last_second zone now 600 (now + get_time_sec_10min_end zone now - 1)"
  "last_second zone now 86400 (now + get_time_sec_today_end zone now - 1 - tm_sec (localtime_r zone now))"
proof -
  show "last_second zone now 3600 (now + get_time_sec_hour_end zone now - 1)"
    unfolding hour_end_seconds by (rule last_second) simp
  show "last_second zone now 1800 (now + get_time_sec_30min_end zone now - 1)"
    unfolding half_hour_seconds by (rule last_second) simp
  show "last_second zone now 600 (now + get_time_sec_10min_end zone now - 1)"
    unfolding ten_minutes_seconds by (rule last_second) simp
  have e: "now + get_time_sec_today_end zone now - 1 - tm_sec (localtime_r zone now) =
      now + (86400 - (now + zone) mod 86400) - 1"
    unfolding today_end_seconds localtime_fields mod_day by simp
  show "last_second zone now 86400 (now + get_time_sec_today_end zone now - 1 - tm_sec (localtime_r zone now))"
    unfolding e by (rule last_second) simp
qed

lemma week_end_last:
  assumes "0 \<le> now + zone"
  shows "now \<le> get_time_week_end zone now \<and> get_time_week_end zone now < now + 7 * 86400 \<and>
     (get_time_week_end zone now + 1 + zone) mod 86400 = 0 \<and>
     tm_wday (localtime_r zone (get_time_week_end zone now)) = 0"
proof -
  let ?d = "(now + zone) div 86400"
  let ?n = "to_sunday ?d"
  have w: "get_time_week_end zone now = ?d * 86400 + 86399 - zone + ?n * 86400"
    unfolding week_end_time [OF assms] by (simp add: algebra_simps)
  have l: "last_second zone now 86400 (?d * 86400 + 86399 - zone)"
    using last_seconds(2) [OF assms] unfolding day_end_time [OF assms] .
  have "(get_time_week_end zone now + zone) div 86400 = ?d + ?n"
    unfolding w using div_mult_self1 [of 86400 86399 "?d + ?n"] by (simp add: algebra_simps)
  moreover have "(get_time_week_end zone now + 1 + zone) mod 86400 = 0"
    unfolding w using mod_mult_self3 [of "?d + ?n + 1" 86400 0] by (simp add: algebra_simps)
  ultimately show ?thesis
    using l to_sunday [of ?d] unfolding localtime_fields last_second_def w by simp
qed

lemma div_day_less: "a < n * 86400 \<longleftrightarrow> a div 86400 < (n :: int)"
  by linarith

section \<open>Properties\<close>

text \<open>
  C38. The end of a period: for every moment, \<open>get_time_hour_end\<close>, \<open>get_time_day_end\<close> and
  \<open>get_time_week_end\<close> are the last second of the hour, of the day and of the Sunday it falls before,
  and the functions that return a number of seconds lead to the end of the hour, the half hour and
  the ten minutes.  \<open>get_time_sec_today_end\<close>, for which campaigns are paused, leaves out the seconds:
  it leads past midnight by as many seconds as the minute has.
\<close>

theorem period_ends:
  assumes "0 \<le> now + zone"
  shows "last_second zone now 3600 (get_time_hour_end zone now) \<and>
     last_second zone now 86400 (get_time_day_end zone now) \<and>
     now \<le> get_time_week_end zone now \<and> get_time_week_end zone now < now + 7 * 86400 \<and>
     (get_time_week_end zone now + 1 + zone) mod 86400 = 0 \<and>
     tm_wday (localtime_r zone (get_time_week_end zone now)) = 0 \<and>
     last_second zone now 3600 (now + get_time_sec_hour_end zone now - 1) \<and>
     last_second zone now 1800 (now + get_time_sec_30min_end zone now - 1) \<and>
     last_second zone now 600 (now + get_time_sec_10min_end zone now - 1) \<and>
     last_second zone now 86400 (now + get_time_sec_today_end zone now - 1 - tm_sec (localtime_r zone now))"
  using week_end_last [OF assms] last_seconds [OF assms] last_seconds_left by blast

theorem period_ends_witness:
  "last_second 28800 1000000000 86400 (1000000000 + get_time_sec_today_end 28800 1000000000 - 1 -
     tm_sec (localtime_r 28800 1000000000)) \<and> tm_sec (localtime_r 28800 1000000000) = 40"
  using period_ends [of 1000000000 28800] by (simp add: localtime_fields)

text \<open>
  \<open>get_time_month_end\<close> is the last second of the month: a later moment than \<open>now\<close> has the year and
  the month of \<open>now\<close> if and only if it is not after the end, in leap years and in December too.
\<close>

theorem month_end:
  assumes "0 \<le> now + zone" "now \<le> t"
  shows "now \<le> get_time_month_end zone now \<and>
     (tm_year (localtime_r zone t) = tm_year (localtime_r zone now) \<and>
      tm_mon (localtime_r zone t) = tm_mon (localtime_r zone now) \<longleftrightarrow> t \<le> get_time_month_end zone now)"
proof -
  let ?d = "\<lambda>t. nat ((t + zone) div 86400)"
  obtain y m where i: "in_month y m (?d now)" and now: "tm_year (localtime_r zone now) = int y - 1900"
    "tm_mon (localtime_r zone now) = int m" using localtime_day [OF assms(1)] by (metis tm.select_convs(1,2))
  have m: "m < 12" "1970 \<le> y" using i by (simp_all add: in_month_def)
  have e: "get_time_month_end zone now = int (month_start y m + month_days y m) * 86400 - 1 - zone"
  proof (cases "m = 11")
    case True
    then show ?thesis
      by (simp add: get_time_month_end_def Let_def now mktime_def month_start_def month_days_def)
  next
    case False
    then have "nat (int m + 1) = Suc m" by simp
    then show ?thesis using False
      by (simp add: get_time_month_end_def Let_def now mktime_def month_start_def days_before_month_Suc algebra_simps)
  qed
  have t: "0 \<le> t + zone" using assms by simp
  have upto: "u \<le> get_time_month_end zone now \<longleftrightarrow> ?d u < month_start y m + month_days y m" if "0 \<le> u + zone" for u
  proof -
    have "u \<le> get_time_month_end zone now \<longleftrightarrow> u + zone < int (month_start y m + month_days y m) * 86400"
      unfolding e by linarith
    also have "\<dots> \<longleftrightarrow> (u + zone) div 86400 < int (month_start y m + month_days y m)" by (rule div_day_less)
    also have "\<dots> \<longleftrightarrow> ?d u < month_start y m + month_days y m"
      using that by (simp add: nat_less_iff pos_imp_zdiv_nonneg_iff)
    finally show ?thesis .
  qed
  have "?d now \<le> ?d t" using assms(2) by (intro nat_mono zdiv_mono1) simp_all
  then have "in_month y m (?d t) \<longleftrightarrow> t \<le> get_time_month_end zone now"
    using i upto [OF t] by (simp add: in_month_def)
  moreover have "in_month y m (?d t) \<longleftrightarrow> tm_year (localtime_r zone t) = int y - 1900 \<and> tm_mon (localtime_r zone t) = int m"
  proof -
    obtain y' m' where "in_month y' m' (?d t)" "tm_year (localtime_r zone t) = int y' - 1900"
      "tm_mon (localtime_r zone t) = int m'" using localtime_day [OF t] by (metis tm.select_convs(1,2))
    then show ?thesis using in_month_unique by auto
  qed
  ultimately show ?thesis using upto [OF assms(1)] i by (simp add: now in_month_def)
qed

text \<open>A day of February 1972 in China, and the first second of March.\<close>

theorem month_end_witness:
  "get_time_month_end 28800 68000000 = 68227199 \<and>
   \<not> (tm_year (localtime_r 28800 68227200) = tm_year (localtime_r 28800 68000000) \<and>
      tm_mon (localtime_r 28800 68227200) = tm_mon (localtime_r 28800 68000000))"
proof -
  have e: "get_time_month_end 28800 68000000 = 68227199"
    by (simp add: get_time_month_end_def localtime_r_def Let_def mktime_def find_year.simps find_month.simps
        year_days_def month_days_def leap_year_def days_before_year_def days_before_month_def upt_rec)
  show ?thesis using month_end [of 68000000 28800 68227200] unfolding e by simp
qed

end
