(* ===== verification/Web_Network.thy ===== *)
theory Web_Network
  imports Adx_Cstd "HOL-Library.Sublist"
begin

text \<open>
  Answers and request bodies of the nginx modules: \<^verbatim>\<open>adx_com_libs/adx_network.c\<close>.  A chain is the list
  of its links, a link has the bytes of its buffer and its flag \<^verbatim>\<open>last_buf\<close>; a pointer into the
  chain is a position.  The pool is the parameter \<open>alloc\<close>, and what nginx does with an answer is the
  parameter \<open>server\<close>.  \<open>None\<close> is a write behind a buffer or a null pointer that is followed.
\<close>

section \<open>Model: chains\<close>

record link =
  lbytes :: string
  last_buf :: bool

definition web_chain_alloc :: "'m alloc_fun \<Rightarrow> 'm \<Rightarrow> string \<Rightarrow> 'm \<times> link option" where
  "web_chain_alloc alloc m buffer =
     (if buffer = [] then (m, None)
      else case alloc m 16 of None \<Rightarrow> (m, None)
      | Some m \<Rightarrow> (case alloc m 80 of None \<Rightarrow> (m, None)
        | Some m \<Rightarrow> (case alloc m (length buffer) of None \<Rightarrow> (m, None)
          | Some m \<Rightarrow> (m, Some \<lparr>lbytes = buffer, last_buf = True\<rparr>))))"

text \<open>\<open>nw_next\<close> is the member \<^verbatim>\<open>next\<close>: the last link, once there are two.\<close>

record network =
  nw_status :: int
  nw_content_length :: "64 word"
  nw_content_type :: string
  nw_head :: "link list"
  nw_next :: "nat option"

definition network_zero :: network where
  "network_zero = \<lparr>nw_status = 0, nw_content_length = 0, nw_content_type = [], nw_head = [], nw_next = None\<rparr>"

definition adx_network_init :: "'m alloc_fun \<Rightarrow> 'm \<Rightarrow> ('m \<times> network) option" where
  "adx_network_init alloc m = do { m \<leftarrow> alloc m 48; Some (m, network_zero) }"

text \<open>Setting the member \<^verbatim>\<open>next\<close> of the link at position \<open>i\<close> makes the new link the one behind it.\<close>

definition link_behind :: "link list \<Rightarrow> nat \<Rightarrow> link \<Rightarrow> link list" where
  "link_behind c i l = take (Suc i) (c[i := (c ! i)\<lparr>last_buf := False\<rparr>]) @ [l]"

definition adx_network_add_buffer ::
    "'m alloc_fun \<Rightarrow> 'm \<Rightarrow> network \<Rightarrow> string option \<Rightarrow> 'm \<times> network \<times> int" where
  "adx_network_add_buffer alloc m network p_buffer =
     (case p_buffer of None \<Rightarrow> (m, network, -1)
      | Some b \<Rightarrow>
        if b = [] then (m, network, -1)
        else case web_chain_alloc alloc m b of (m, None) \<Rightarrow> (m, network, -1)
        | (m, Some l) \<Rightarrow>
          let network =
            (if nw_head network = [] then network\<lparr>nw_head := [l]\<rparr>
             else case nw_next network of
               None \<Rightarrow> network\<lparr>nw_head := link_behind (nw_head network) 0 l, nw_next := Some 1\<rparr>
             | Some i \<Rightarrow> network\<lparr>nw_head := link_behind (nw_head network) i l, nw_next := Some (Suc i)\<rparr>) in
          (m, network\<lparr>nw_content_length := nw_content_length network + of_nat (length b)\<rparr>, 0))"

text \<open>The argument is a C string.\<close>

definition adx_network_add_str ::
    "'m alloc_fun \<Rightarrow> 'm \<Rightarrow> network \<Rightarrow> string option \<Rightarrow> 'm \<times> network \<times> int" where
  "adx_network_add_str alloc m network str =
     (case str of None \<Rightarrow> (m, network, -1)
      | Some s \<Rightarrow> if s = [] then (m, network, -1) else adx_network_add_buffer alloc m network (Some s))"

section \<open>Model: answers\<close>

abbreviation NGX_OK :: int where "NGX_OK \<equiv> 0"
abbreviation NGX_ERROR :: int where "NGX_ERROR \<equiv> -1"

record table_elt =
  hd_key :: string
  hd_value :: string
  hd_hash :: int

record headers_out =
  ho_status :: int
  ho_content_type :: string
  ho_content_length :: "64 word"
  ho_headers :: "table_elt option list"

record 'k request =
  r_out :: headers_out
  r_header_only :: bool
  r_server :: 'k

record 'k server =
  send_header :: "'k \<Rightarrow> headers_out \<Rightarrow> 'k \<times> int"
  output_filter :: "'k \<Rightarrow> link list \<Rightarrow> 'k \<times> int"
  finalize_request :: "'k \<Rightarrow> int \<Rightarrow> 'k"

definition do_send_header :: "'k server \<Rightarrow> 'k request \<Rightarrow> 'k request \<times> int" where
  "do_send_header srv r = (let (k, rc) = send_header srv (r_server r) (r_out r) in (r\<lparr>r_server := k\<rparr>, rc))"

definition do_output_filter :: "'k server \<Rightarrow> 'k request \<Rightarrow> link list \<Rightarrow> 'k request \<times> int" where
  "do_output_filter srv r c = (let (k, rc) = output_filter srv (r_server r) c in (r\<lparr>r_server := k\<rparr>, rc))"

definition adx_network_send :: "'k server \<Rightarrow> 'k request \<Rightarrow> network \<Rightarrow> 'k request \<times> int" where
  "adx_network_send srv r p =
     (let r = r\<lparr>r_out := (r_out r)\<lparr>ho_status := nw_status p, ho_content_type := nw_content_type p,
        ho_content_length := nw_content_length p\<rparr>\<rparr>;
        (r, rc) = do_send_header srv r in
      if rc = NGX_ERROR \<or> rc > NGX_OK \<or> r_header_only r then (r, rc)
      else do_output_filter srv r (nw_head p))"

text \<open>The result of the allocation is not tested.\<close>

definition adx_network_send_buffer ::
    "'m alloc_fun \<Rightarrow> 'k server \<Rightarrow> 'm \<Rightarrow> 'k request \<Rightarrow> network option \<Rightarrow> string option \<Rightarrow>
      ('m \<times> 'k request \<times> int) option" where
  "adx_network_send_buffer alloc srv m r network p_buffer = do {
     (m, p) \<leftarrow> (case network of Some p \<Rightarrow> Some (m, p)
       | None \<Rightarrow> do { m \<leftarrow> alloc m 48; Some (m, network_zero\<lparr>nw_status := 200\<rparr>) });
     (case adx_network_add_buffer alloc m p p_buffer of (m, p, rc) \<Rightarrow>
        if rc \<noteq> 0 then Some (m, r, -1)
        else let (r, rc) = adx_network_send srv r p in Some (m, r, rc)) }"

definition adx_network_send_str ::
    "'m alloc_fun \<Rightarrow> 'k server \<Rightarrow> 'm \<Rightarrow> 'k request \<Rightarrow> network option \<Rightarrow> string option \<Rightarrow>
      ('m \<times> 'k request \<times> int) option" where
  "adx_network_send_str alloc srv m r network str =
     (case str of None \<Rightarrow> Some (m, r, -1)
      | Some s \<Rightarrow> if s = [] then Some (m, r, -1) else adx_network_send_buffer alloc srv m r network (Some s))"

definition not_found_text :: string where
  "not_found_text = ''404 Not Found'' @ [CHR 0x0D, CHR 0x0A]"

definition adx_network_send_not_found ::
    "'m alloc_fun \<Rightarrow> 'k server \<Rightarrow> 'm \<Rightarrow> 'k request \<Rightarrow> 'm \<times> 'k request \<times> int" where
  "adx_network_send_not_found alloc srv m r =
     (let r = r\<lparr>r_out := (r_out r)\<lparr>ho_status := 404, ho_content_length := 15\<rparr>\<rparr>;
        (r, rc) = do_send_header srv r in
      if rc = NGX_ERROR \<or> rc > NGX_OK \<or> r_header_only r then (m, r, rc)
      else case web_chain_alloc alloc m not_found_text of (m, None) \<Rightarrow> (m, r, NGX_ERROR)
      | (m, Some l) \<Rightarrow> let (r, rc) = do_output_filter srv r [l] in (m, r, rc))"

definition do_finalize :: "'k server \<Rightarrow> 'k request \<Rightarrow> int \<Rightarrow> 'k request" where
  "do_finalize srv r rc = r\<lparr>r_server := finalize_request srv (r_server r) rc\<rparr>"

definition adx_network_post_send :: "'k server \<Rightarrow> 'k request \<Rightarrow> network \<Rightarrow> 'k request" where
  "adx_network_post_send srv r p = (let (r, rc) = adx_network_send srv r p in do_finalize srv r rc)"

definition adx_network_post_send_buffer ::
    "'m alloc_fun \<Rightarrow> 'k server \<Rightarrow> 'm \<Rightarrow> 'k request \<Rightarrow> network option \<Rightarrow> string option \<Rightarrow> ('m \<times> 'k request) option" where
  "adx_network_post_send_buffer alloc srv m r network p_buffer = do {
     (m, r, rc) \<leftarrow> adx_network_send_buffer alloc srv m r network p_buffer;
     Some (m, do_finalize srv r rc) }"

text \<open>The string is measured before the test for a null pointer.\<close>

definition adx_network_post_send_str ::
    "'m alloc_fun \<Rightarrow> 'k server \<Rightarrow> 'm \<Rightarrow> 'k request \<Rightarrow> network option \<Rightarrow> string option \<Rightarrow> ('m \<times> 'k request) option" where
  "adx_network_post_send_str alloc srv m r network str =
     (case str of None \<Rightarrow> None | Some s \<Rightarrow> adx_network_post_send_buffer alloc srv m r network (Some s))"

definition adx_network_post_send_not_found ::
    "'m alloc_fun \<Rightarrow> 'k server \<Rightarrow> 'm \<Rightarrow> 'k request \<Rightarrow> 'm \<times> 'k request" where
  "adx_network_post_send_not_found alloc srv m r =
     (let (m, r, rc) = adx_network_send_not_found alloc srv m r in (m, do_finalize srv r rc))"

text \<open>
  \<^verbatim>\<open>ngx_list_push\<close> takes room from the pool.  A header that was pushed stays in the list when the copy
  of its key or value fails: an element whose members are not all set is \<open>None\<close>.
\<close>

definition adx_network_add_headers ::
    "'m alloc_fun \<Rightarrow> 'm \<Rightarrow> 'k request \<Rightarrow> string option \<Rightarrow> string option \<Rightarrow> 'm \<times> 'k request \<times> int" where
  "adx_network_add_headers alloc m r key val =
     (case (key, val) of (Some key, Some val) \<Rightarrow>
        (case alloc m 48 of None \<Rightarrow> (m, r, -1)
         | Some m \<Rightarrow>
           let push = (\<lambda>h. r\<lparr>r_out := (r_out r)\<lparr>ho_headers := ho_headers (r_out r) @ [h]\<rparr>\<rparr>);
               (m, ok1) = try_alloc alloc m (length key); (m, ok2) = try_alloc alloc m (length val) in
           if ok1 \<and> ok2 then (m, push (Some \<lparr>hd_key = key, hd_value = val, hd_hash = 1\<rparr>), 0)
           else (m, push None, -1))
      | _ \<Rightarrow> (m, r, -1))"

section \<open>Model: request bodies\<close>

text \<open>
  \<open>cap\<close> is the size of the block.  A chunk is copied before the sum is compared with the length that
  was announced.  The inner \<open>None\<close> is the null string.
\<close>

fun copy_body :: "nat \<Rightarrow> nat \<Rightarrow> string list \<Rightarrow> string \<Rightarrow> string option option" where
  "copy_body cap n [] acc = Some (Some acc)"
| "copy_body cap n (c # cs) acc =
     (if cap < length acc + length c then None
      else if n < length acc + length c then Some None
      else copy_body cap n cs (acc @ c))"

text \<open>
  \<open>header\<close> is the value of \<^verbatim>\<open>Content-Length\<close>: there may be no header, or none of its text.  \<open>bufs\<close> are the
  buffers of the body that are in memory.
\<close>

definition adx_network_get_post_buffer ::
    "'m alloc_fun \<Rightarrow> 'm \<Rightarrow> string option option \<Rightarrow> string list option \<Rightarrow> ('m \<times> string option) option" where
  "adx_network_get_post_buffer alloc m header bufs =
     (case header of None \<Rightarrow> Some (m, None) | Some None \<Rightarrow> Some (m, None)
      | Some (Some v) \<Rightarrow>
        if v = [] then Some (m, None)
        else let content_length = (scast (atoi v) :: 64 word) in
          if content_length = 0 then Some (m, None)
          else case alloc m (unat (content_length + 1)) of None \<Rightarrow> Some (m, None)
          | Some m \<Rightarrow> do {
              chunks \<leftarrow> bufs;
              res \<leftarrow> copy_body (unat (content_length + 1)) (unat content_length) chunks [];
              (case res of None \<Rightarrow> Some (m, None)
               | Some b \<Rightarrow>
                 if unat content_length \<noteq> length b then Some (m, None) else Some (m, Some b)) })"

abbreviation CR :: char where "CR \<equiv> CHR 0x0D"
abbreviation LF :: char where "LF \<equiv> CHR 0x0A"
abbreviation NUL :: char where "NUL \<equiv> CHR 0x00"

text \<open>\<^verbatim>\<open>strstr\<close> on a buffer that may go on behind the end of the string.\<close>

fun find_text :: "string \<Rightarrow> string \<Rightarrow> nat option" where
  "find_text pat [] = (if pat = [] then Some 0 else None)"
| "find_text pat (c # s) = (if strncmp_eq (c # s) pat then Some 0 else map_option Suc (find_text pat s))"

definition strstr_at :: "string \<Rightarrow> string \<Rightarrow> nat option" where
  "strstr_at s pat = find_text pat (takeWhile (\<lambda>c. c \<noteq> NUL) s)"

text \<open>
  The last byte of the body is overwritten.  The text of the boundary is printed into an array of 128
  bytes before its length is tested.  The inner \<open>None\<close> is the null string.
\<close>

definition adx_network_upload_file :: "string \<Rightarrow> string option option" where
  "adx_network_upload_file src =
     (if src = [] then None
      else let buffer = src[length src - 1 := NUL] in
        case strstr_at buffer [CR, LF] of None \<Rightarrow> Some None
        | Some p1 \<Rightarrow>
          let disposition = drop (p1 + 2) buffer in
          case strstr_at disposition [CR, LF] of None \<Rightarrow> Some None
          | Some p2 \<Rightarrow>
            let content_type = drop (p2 + 2) disposition in
            case strstr_at content_type [CR, LF, CR, LF] of None \<Rightarrow> Some None
            | Some p3 \<Rightarrow>
              let data = drop (p3 + 4) content_type; key = [CR, LF] @ take p1 buffer in
              if 128 < length key + 1 then None
              else if length key < 32 \<or> 120 < length key then Some None
              else case find_text key data of None \<Rightarrow> Some None
                | Some i \<Rightarrow> if i = 0 then Some None else Some (Some (take i data)))"

section \<open>The chain of an answer\<close>

text \<open>
  The invariant of \<^verbatim>\<open>adx_network_t\<close> for the texts \<open>bs\<close>: one link for each, the flag on the last link only, the sum of
  the lengths, and the pointer to the last link if there are two.
\<close>

definition network_ok :: "string list \<Rightarrow> network \<Rightarrow> bool" where
  "network_ok bs nw \<longleftrightarrow>
     nw_head nw = map (\<lambda>b. \<lparr>lbytes = b, last_buf = False\<rparr>) (butlast bs) @ (if bs = [] then [] else [\<lparr>lbytes = last bs, last_buf = True\<rparr>]) \<and>
     nw_content_length nw = of_nat (length (concat bs)) \<and>
     nw_next nw = (if length bs < 2 then None else Some (length bs - 1))"

lemma network_ok_zero: "network_ok [] network_zero"
  by (simp add: network_ok_def network_zero_def)

lemma web_chain_alloc_cases:
  "web_chain_alloc alloc m b = (m', x) \<Longrightarrow> x = None \<or> b \<noteq> [] \<and> x = Some \<lparr>lbytes = b, last_buf = True\<rparr>"
  by (auto simp: web_chain_alloc_def split: if_splits option.splits)

lemma web_chain_alloc_total:
  assumes "alloc_total alloc" "b \<noteq> []"
  shows "\<exists>m'. web_chain_alloc alloc m b = (m', Some \<lparr>lbytes = b, last_buf = True\<rparr>)"
  using assms unfolding alloc_total_def web_chain_alloc_def by (auto split: option.splits) (metis not_Some_eq)+

lemma link_behind_last:
  "link_behind (map f (butlast bs) @ [\<lparr>lbytes = last bs, last_buf = True\<rparr>]) (length bs - 1) l =
   map f (butlast bs) @ [\<lparr>lbytes = last bs, last_buf = False\<rparr>, l]"
  by (simp add: link_behind_def nth_append list_update_append)

lemma add_buffer_ok:
  assumes "network_ok bs nw" "adx_network_add_buffer alloc m nw p = (m', nw', rc)"
  shows "rc = -1 \<and> nw' = nw \<or> rc = 0 \<and> (\<exists>b. p = Some b \<and> b \<noteq> [] \<and> network_ok (bs @ [b]) nw' \<and> nw_status nw' = nw_status nw \<and>
    nw_content_type nw' = nw_content_type nw)"
proof (cases p)
  case (Some b)
  obtain m1 x where c: "web_chain_alloc alloc m b = (m1, x)" by fastforce
  show ?thesis
  proof (cases "b = [] \<or> x = None")
    case True
    then have "adx_network_add_buffer alloc m nw p = (if b = [] then m else m1, nw, -1)"
      using Some c by (auto simp: adx_network_add_buffer_def)
    then show ?thesis using assms(2) by simp
  next
    case False
    then have b: "b \<noteq> []" "x = Some \<lparr>lbytes = b, last_buf = True\<rparr>" using web_chain_alloc_cases [OF c] by auto
    let ?l = "\<lparr>lbytes = b, last_buf = True\<rparr>"
    consider "bs = []" | a where "bs = [a]" | "2 \<le> length bs" by (cases bs; cases "tl bs") auto
    then have "network_ok (bs @ [b]) nw' \<and> rc = 0 \<and> nw_status nw' = nw_status nw \<and> nw_content_type nw' = nw_content_type nw"
    proof cases
      case 1
      then show ?thesis using assms b c Some by (auto simp: adx_network_add_buffer_def network_ok_def Let_def)
    next
      case (2 a)
      then show ?thesis using assms b c Some link_behind_last [of _ "[a]" ?l]
        by (auto simp: adx_network_add_buffer_def network_ok_def Let_def)
    next
      case 3
      then have ne: "bs \<noteq> []" and l: "Suc (length bs - Suc 0) = length bs" "\<not> length bs < 2" by auto
      have m: "map (\<lambda>b. \<lparr>lbytes = b, last_buf = False\<rparr>) bs =
          map (\<lambda>b. \<lparr>lbytes = b, last_buf = False\<rparr>) (butlast bs) @ [\<lparr>lbytes = last bs, last_buf = False\<rparr>]"
        using ne by (cases bs rule: rev_cases) simp_all
      have o: "nw_head nw = map (\<lambda>b. \<lparr>lbytes = b, last_buf = False\<rparr>) (butlast bs) @ [\<lparr>lbytes = last bs, last_buf = True\<rparr>]"
        "nw_next nw = Some (length bs - 1)" "nw_content_length nw = of_nat (length (concat bs))"
        using assms(1) ne l(2) by (simp_all add: network_ok_def)
      have "link_behind (nw_head nw) (length bs - 1) ?l = map (\<lambda>b. \<lparr>lbytes = b, last_buf = False\<rparr>) bs @ [?l]"
        unfolding o(1) link_behind_last m by simp
      moreover have "nw_head nw \<noteq> []" unfolding o(1) by simp
      ultimately have "adx_network_add_buffer alloc m nw p = (m1, nw\<lparr>nw_head := map (\<lambda>b. \<lparr>lbytes = b, last_buf = False\<rparr>) bs @ [?l],
          nw_next := Some (length bs), nw_content_length := of_nat (length (concat bs)) + of_nat (length b)\<rparr>, 0)"
        using b c o(2,3) l(1) unfolding adx_network_add_buffer_def Some by (simp add: Let_def)
      then have "nw' = nw\<lparr>nw_head := map (\<lambda>b. \<lparr>lbytes = b, last_buf = False\<rparr>) bs @ [?l],
          nw_next := Some (length bs), nw_content_length := of_nat (length (concat bs)) + of_nat (length b)\<rparr>" "rc = 0"
        using assms(2) by simp_all
      then show ?thesis using 3 ne by (simp add: network_ok_def)
    qed
    then show ?thesis using Some b by blast
  qed
qed (use assms in \<open>simp add: adx_network_add_buffer_def\<close>)

lemma add_buffer_total:
  assumes "alloc_total alloc" "b \<noteq> []"
  shows "snd (snd (adx_network_add_buffer alloc m nw (Some b))) = 0"
  using web_chain_alloc_total [OF assms, of m] assms(2) by (auto simp: adx_network_add_buffer_def Let_def)

text \<open>A sequence of calls, with the texts whose call returned 0.\<close>

fun add_all :: "'m alloc_fun \<Rightarrow> 'm \<Rightarrow> network \<Rightarrow> string option list \<Rightarrow> 'm \<times> network \<times> string list" where
  "add_all alloc m nw [] = (m, nw, [])"
| "add_all alloc m nw (p # ps) =
     (case adx_network_add_buffer alloc m nw p of (m, nw, rc) \<Rightarrow>
       (case add_all alloc m nw ps of (m, nw, added) \<Rightarrow> (m, nw, if rc = 0 then the p # added else added)))"

fun texts :: "string option list \<Rightarrow> string list" where
  "texts [] = []"
| "texts (Some b # ps) = (if b = [] then texts ps else b # texts ps)"
| "texts (None # ps) = texts ps"

lemma add_all_ok:
  assumes "network_ok bs nw" "add_all alloc m nw ps = (m', nw', added)"
  shows "network_ok (bs @ added) nw' \<and> nw_status nw' = nw_status nw \<and> nw_content_type nw' = nw_content_type nw \<and>
    subseq added (texts ps) \<and> (alloc_total alloc \<longrightarrow> added = texts ps)"
  using assms
proof (induction ps arbitrary: bs m nw added)
  case (Cons p ps)
  obtain m1 nw1 rc where a: "adx_network_add_buffer alloc m nw p = (m1, nw1, rc)" by (metis prod_cases3)
  obtain rest where r: "add_all alloc m1 nw1 ps = (m', nw', rest)" "added = (if rc = 0 then the p # rest else rest)"
    using Cons.prems(2) a by (auto split: prod.splits)
  have tot: "rc = 0" if "alloc_total alloc" "p = Some b" "b \<noteq> []" for b
    using add_buffer_total [OF that(1,3), of m nw] a that(2) by simp
  from add_buffer_ok [OF Cons.prems(1) a] show ?case
  proof (elim disjE conjE exE)
    assume f: "rc = -1" "nw1 = nw"
    have t: "texts (p # ps) = texts ps \<or> (\<exists>b. p = Some b \<and> b \<noteq> [] \<and> texts (p # ps) = b # texts ps)"
      by (cases p) auto
    then show ?thesis using Cons.IH [OF Cons.prems(1) r(1) [unfolded f(2)]] r(2) f(1) tot by auto
  next
    fix b assume s: "rc = 0" "p = Some b" "b \<noteq> []" "network_ok (bs @ [b]) nw1" "nw_status nw1 = nw_status nw"
      "nw_content_type nw1 = nw_content_type nw"
    then show ?thesis using Cons.IH [OF s(4) r(1)] r(2) by simp
  qed
qed simp

section \<open>Request bodies\<close>

lemma copy_body_fits:
  "length acc + length (concat cs) \<le> n \<Longrightarrow> n \<le> cap \<Longrightarrow> copy_body cap n cs acc = Some (Some (acc @ concat cs))"
  by (induction cap n cs acc rule: copy_body.induct) auto

lemma copy_body_long:
  assumes "length acc + length (concat b) \<le> n" "n < length acc + length (concat b) + length c" "n \<le> cap"
  shows "copy_body cap n (b @ c # r) acc =
    (if cap < length acc + length (concat b) + length c then None else Some None)"
  using assms by (induction b arbitrary: acc) (auto simp: add.assoc)

lemma first_long:
  "m + length (concat cs) > n \<Longrightarrow> m \<le> n \<Longrightarrow>
   \<exists>b c r. cs = b @ c # r \<and> m + length (concat b) \<le> n \<and> n < m + length (concat b) + length (c :: string)"
proof (induction cs arbitrary: m)
  case (Cons c cs)
  show ?case
  proof (cases "n < m + length c")
    case True
    then show ?thesis using Cons.prems(2) by (intro exI [of _ "[]"] exI [of _ c] exI [of _ cs]) simp
  next
    case False
    then have "m + length c + length (concat cs) > n" "m + length c \<le> n" using Cons.prems by simp_all
    from Cons.IH [OF this] obtain b d r where "cs = b @ d # r" "m + length c + length (concat b) \<le> n"
      "n < m + length c + length (concat b) + length d" by blast
    then show ?thesis by (intro exI [of _ "c # b"] exI [of _ d] exI [of _ r]) simp
  qed
qed simp

lemma longer_prefix: "b @ c # r = b' @ c' # r' \<Longrightarrow> length b < length b' \<Longrightarrow> \<exists>t. b' = b @ c # t"
  by (induction b arbitrary: b') (auto simp: Cons_eq_append_conv)

lemma announced_length:
  assumes "0 < n" "n < 2 ^ 31"
  shows "(scast (atoi (dec (int n))) :: 64 word) = of_nat n" "unat (of_nat n :: 64 word) = n"
    "unat ((of_nat n :: 64 word) + 1) = n + 1" "dec (int n) \<noteq> []"
proof -
  have "atol (dec (int n)) = int n" using assms by (intro atol_dec) simp_all
  then have "atoi (dec (int n)) = of_nat n" by (simp add: atoi_def)
  moreover have "sint (of_nat n :: 32 word) = int n"
    using assms by (simp add: signed_of_nat signed_take_bit_int_eq_self)
  ultimately show "(scast (atoi (dec (int n))) :: 64 word) = of_nat n" by (simp add: scast_eq)
  show "unat (of_nat n :: 64 word) = n" using assms by (simp add: unat_of_nat take_bit_nat_eq_self)
  have "unat (of_nat (n + 1) :: 64 word) = n + 1"
    using assms by (simp add: unat_of_nat take_bit_nat_eq_self del: of_nat_add of_nat_Suc)
  then show "unat ((of_nat n :: 64 word) + 1) = n + 1" by (simp add: add.commute)
  show "dec (int n) \<noteq> []" by (simp add: dec_def)
qed

lemma post_buffer:
  assumes "0 < n" "n < 2 ^ 31" "alloc m (n + 1) = Some m'"
  shows "adx_network_get_post_buffer alloc m (Some (Some (dec (int n)))) (Some chunks) =
    do { res \<leftarrow> copy_body (n + 1) n chunks [];
         (case res of None \<Rightarrow> Some (m', None) | Some b \<Rightarrow> if n \<noteq> length b then Some (m', None) else Some (m', Some b)) }"
proof -
  note a = announced_length [OF assms(1,2)]
  have "(of_nat n :: 64 word) \<noteq> 0" using a(2) assms(1) by (metis neq0_conv unat_0)
  then show ?thesis using assms(3) a(4) unfolding adx_network_get_post_buffer_def option.case Let_def a(1,2,3) by simp
qed

section \<open>Uploads\<close>

lemma find_text_prefix:
  assumes "pat \<noteq> []" "\<forall>i < length p. \<not> strncmp_eq (drop i (p @ pat @ r)) pat"
  shows "find_text pat (p @ pat @ r) = Some (length p)"
  using assms(2)
proof (induction p)
  case Nil
  then show ?case using assms(1) by (cases pat) (simp_all add: strncmp_eq_def)
next
  case (Cons c p)
  have "\<not> strncmp_eq (c # p @ pat @ r) pat" using Cons.prems [rule_format, of 0] by simp
  moreover have "\<forall>i < length p. \<not> strncmp_eq (drop i (p @ pat @ r)) pat"
    using Cons.prems by (metis append_Cons drop_Suc_Cons length_Cons not_less_eq)
  ultimately show ?case using Cons.IH by simp
qed

text \<open>A text without CR in front of one that starts with CR.\<close>

lemma strstr_at_line:
  assumes "CR \<notin> set p" "NUL \<notin> set p" "NUL \<notin> set pat" "pat \<noteq> []" "hd pat = CR"
  shows "strstr_at (p @ pat @ r) pat = Some (length p)"
proof -
  have "takeWhile (\<lambda>c. c \<noteq> NUL) ((p @ pat) @ r) = (p @ pat) @ takeWhile (\<lambda>c. c \<noteq> NUL) r"
    by (rule takeWhile_append2) (use assms(2,3) in auto)
  then have cut: "takeWhile (\<lambda>c. c \<noteq> NUL) (p @ pat @ r) = p @ pat @ takeWhile (\<lambda>c. c \<noteq> NUL) r" by simp
  have "\<not> strncmp_eq (drop i (p @ s)) pat" if i: "i < length p" for i s
  proof -
    obtain d t where d: "drop i (p @ s) = d # t" using i by (cases "drop i (p @ s)") auto
    have "(p @ s) ! i = d" by (rule nth_via_drop [OF d])
    then have "d = p ! i" using i by (simp add: nth_append)
    then have "d \<noteq> CR" using nth_mem [OF i] assms(1) by metis
    moreover obtain pat' where "pat = CR # pat'" using assms(4,5) by (cases pat) auto
    ultimately show ?thesis unfolding d by (simp add: strncmp_eq_def)
  qed
  then show ?thesis unfolding strstr_at_def cut by (intro find_text_prefix [OF assms(4)]) blast
qed

text \<open>A body: boundary, two header lines, the file, the boundary again, and more.\<close>

definition upload_body :: "string \<Rightarrow> string \<Rightarrow> string \<Rightarrow> string \<Rightarrow> string \<Rightarrow> string" where
  "upload_body boundary disposition ctype content rest =
     boundary @ [CR, LF] @ disposition @ [CR, LF] @ ctype @ [CR, LF, CR, LF] @ content @ ([CR, LF] @ boundary) @ rest"

definition line_text :: "string \<Rightarrow> bool" where
  "line_text s \<longleftrightarrow> CR \<notin> set s \<and> NUL \<notin> set s"

text \<open>The file does not have the boundary in it.\<close>

definition no_boundary :: "string \<Rightarrow> string \<Rightarrow> string \<Rightarrow> bool" where
  "no_boundary boundary content rest \<longleftrightarrow>
     (\<forall>i < length content. \<not> strncmp_eq (drop i (content @ ([CR, LF] @ boundary) @ rest)) ([CR, LF] @ boundary))"

lemma upload_steps:
  assumes "line_text boundary" "line_text disposition" "line_text ctype" "no_boundary boundary content (butlast rest @ [NUL])"
    "content \<noteq> []" "rest \<noteq> []"
  shows "adx_network_upload_file (upload_body boundary disposition ctype content rest) =
    (if 126 \<le> length boundary then None
     else if length boundary < 30 \<or> 118 < length boundary then Some None else Some (Some content))"
proof -
  let ?rest = "butlast rest @ [NUL]"
  let ?s = "upload_body boundary disposition ctype content rest"
  have upd: "?s[length ?s - 1 := NUL] = upload_body boundary disposition ctype content ?rest"
    using assms(6) by (cases rest rule: rev_cases) (simp_all add: upload_body_def list_update_append)
  have ne: "?s \<noteq> []" by (simp add: upload_body_def)
  note line = strstr_at_line
  have p1: "strstr_at (upload_body boundary disposition ctype content ?rest) [CR, LF] = Some (length boundary)"
    using assms(1) unfolding upload_body_def line_text_def by (intro line) simp_all
  have d1: "drop (length boundary + 2) (upload_body boundary disposition ctype content ?rest) =
      disposition @ [CR, LF] @ ctype @ [CR, LF, CR, LF] @ content @ ([CR, LF] @ boundary) @ ?rest"
    by (simp add: upload_body_def)
  have p2: "strstr_at (disposition @ [CR, LF] @ ctype @ [CR, LF, CR, LF] @ content @ ([CR, LF] @ boundary) @ ?rest) [CR, LF] =
      Some (length disposition)"
    using assms(2) unfolding line_text_def by (intro line) simp_all
  have d2: "drop (length disposition + 2) (disposition @ [CR, LF] @ ctype @ [CR, LF, CR, LF] @ content @ ([CR, LF] @ boundary) @ ?rest) =
      ctype @ [CR, LF, CR, LF] @ content @ ([CR, LF] @ boundary) @ ?rest" by simp
  have p3: "strstr_at (ctype @ [CR, LF, CR, LF] @ content @ ([CR, LF] @ boundary) @ ?rest) [CR, LF, CR, LF] = Some (length ctype)"
    using assms(3) unfolding line_text_def by (intro line) simp_all
  have d3: "drop (length ctype + 4) (ctype @ [CR, LF, CR, LF] @ content @ ([CR, LF] @ boundary) @ ?rest) =
      content @ ([CR, LF] @ boundary) @ ?rest" by simp
  have key: "take (length boundary) (upload_body boundary disposition ctype content ?rest) = boundary"
    by (simp add: upload_body_def)
  have f: "find_text ([CR, LF] @ boundary) (content @ ([CR, LF] @ boundary) @ ?rest) = Some (length content)"
    using assms(4) unfolding no_boundary_def by (intro find_text_prefix) simp_all
  show ?thesis
    unfolding adx_network_upload_file_def Let_def upd p1 option.case d1 p2 d2 p3 d3 key f
    using ne assms(5) by (auto simp del: append_Cons append_assoc simp: append_Cons [symmetric])
qed

section \<open>Properties\<close>

text \<open>
  C13. An answer that is put together from pieces: after any calls of \<open>adx_network_add_buffer\<close> on a new
  \<^verbatim>\<open>adx_network_t\<close> the chain has one link for every call that returned 0, in their order, only the last
  link has the flag of the last buffer, and the announced length is the number of bytes of the
  chain; no call fails for another reason than a missing text or memory.  \<open>adx_network_send\<close> sends the
  header with this length and then exactly this chain.
\<close>

theorem network_answer:
  assumes "add_all alloc m (network_zero\<lparr>nw_status := st\<rparr>) ps = (m', nw, added)" "added \<noteq> []"
  shows "nw_head nw = map (\<lambda>b. \<lparr>lbytes = b, last_buf = False\<rparr>) (butlast added) @ [\<lparr>lbytes = last added, last_buf = True\<rparr>] \<and>
     subseq added (texts ps) \<and> (alloc_total alloc \<longrightarrow> added = texts ps) \<and>
     (let out = (r_out r)\<lparr>ho_status := st, ho_content_type := [], ho_content_length := of_nat (length (concat added))\<rparr> in
      send_header srv (r_server r) out = (k, 0) \<longrightarrow> \<not> r_header_only r \<longrightarrow> output_filter srv k (nw_head nw) = (k', rc) \<longrightarrow>
      adx_network_send srv r nw = (r\<lparr>r_out := out, r_server := k'\<rparr>, rc))"
proof -
  have "network_ok [] (network_zero\<lparr>nw_status := st\<rparr>)" by (simp add: network_ok_def network_zero_def)
  from add_all_ok [OF this assms(1)] have ok: "network_ok added nw" "nw_status nw = st" "nw_content_type nw = []"
    "subseq added (texts ps)" "alloc_total alloc \<longrightarrow> added = texts ps" by (simp_all add: network_zero_def)
  then have "nw_content_length nw = of_nat (length (concat added))"
    "nw_head nw = map (\<lambda>b. \<lparr>lbytes = b, last_buf = False\<rparr>) (butlast added) @ [\<lparr>lbytes = last added, last_buf = True\<rparr>]"
    using assms(2) by (simp_all add: network_ok_def)
  with ok show ?thesis
    by (auto simp: adx_network_send_def do_send_header_def do_output_filter_def Let_def split: prod.splits)
qed

text \<open>Two texts, one of them empty, sent to a server that collects the bytes.\<close>

definition collector :: "string server" where
  "collector = \<lparr>send_header = (\<lambda>k h. (k, 0)), output_filter = (\<lambda>k c. (k @ concat (map lbytes c), 0)),
     finalize_request = (\<lambda>k rc. k)\<rparr>"

theorem network_answer_witness:
  "\<exists>m nw. add_all (\<lambda>m n. Some (m + n)) 0 (network_zero\<lparr>nw_status := 200\<rparr>) [Some ''ab'', Some [], None, Some ''c''] =
      (m, nw, [''ab'', ''c'']) \<and>
     adx_network_send collector \<lparr>r_out = \<lparr>ho_status = 0, ho_content_type = [], ho_content_length = 0, ho_headers = []\<rparr>,
       r_header_only = False, r_server = []\<rparr> nw =
     (\<lparr>r_out = \<lparr>ho_status = 200, ho_content_type = [], ho_content_length = 3, ho_headers = []\<rparr>,
       r_header_only = False, r_server = ''abc''\<rparr>, 0)"
proof -
  obtain m nw added where a: "add_all (\<lambda>m n. Some (m + n)) (0 :: nat) (network_zero\<lparr>nw_status := 200\<rparr>)
      [Some ''ab'', Some [], None, Some ''c''] = (m, nw, added)" by (metis prod_cases3)
  moreover from this have "added = [''ab'', ''c'']"
    by (auto simp: adx_network_add_buffer_def web_chain_alloc_def network_zero_def)
  ultimately show ?thesis
    using network_answer [OF a, where srv = collector and k = "[]" and k' = "''abc''" and rc = 0 and
       r = "\<lparr>r_out = \<lparr>ho_status = 0, ho_content_type = [], ho_content_length = 0, ho_headers = []\<rparr>,
       r_header_only = False, r_server = []\<rparr>"]
    by (auto simp: collector_def)
qed

text \<open>
  Reading the body of a request: for an announced length \<open>n\<close>, \<open>adx_network_get_post_buffer\<close> returns the
  bytes of all buffers if they are \<open>n\<close>, and the null string if they are fewer.  If they are more, the
  buffer that goes too far is copied before the sum is tested: with two bytes too many the copy runs
  behind the block.
\<close>

theorem post_buffer_reads:
  assumes "0 < n" "n < 2 ^ 31" "alloc m (n + 1) = Some m'"
  shows "adx_network_get_post_buffer alloc m (Some (Some (dec (int n)))) (Some chunks) =
    (if length (concat chunks) = n then Some (m', Some (concat chunks))
     else if length (concat chunks) < n then Some (m', None)
     else if \<exists>b c r. chunks = b @ c # r \<and> length (concat b) \<le> n \<and> n + 1 < length (concat b) + length c then None
     else Some (m', None))"
proof (cases "length (concat chunks) \<le> n")
  case True
  then show ?thesis using copy_body_fits [of "[]" chunks n "n + 1"] 
    by (simp add: post_buffer [of n alloc m m', OF assms])
next
  case False
  then obtain b c r where s: "chunks = b @ c # r" "length (concat b) \<le> n" "n < length (concat b) + length c"
    using first_long [of n 0 chunks] by auto
  have u: "length (concat b') + length c' = length (concat b) + length c"
    if "chunks = b' @ c' # r'" "length (concat b') \<le> n" "n < length (concat b') + length c'" for b' c' r'
  proof -
    have "length b' = length b"
    proof (rule ccontr)
      assume "length b' \<noteq> length b"
      then consider "length b' < length b" | "length b < length b'" by linarith
      then show False
      proof cases
        case 1
        then have "\<exists>t. b = b' @ c' # t" using that(1) s(1) longer_prefix [of b' c' r' b c r] by simp
        then show False using s(2) that(3) by auto
      next
        case 2
        then have "\<exists>t. b' = b @ c # t" using that(1) s(1) longer_prefix [of b c r b' c' r'] by simp
        then show False using s(3) that(2) by auto
      qed
    qed
    then show ?thesis using that(1) s(1) by simp
  qed
  have "(\<exists>b c r. chunks = b @ c # r \<and> length (concat b) \<le> n \<and> n + 1 < length (concat b) + length c) \<longleftrightarrow>
      n + 1 < length (concat b) + length c"
  proof
    assume "\<exists>b c r. chunks = b @ c # r \<and> length (concat b) \<le> n \<and> n + 1 < length (concat b) + length c"
    then obtain b' c' r' where "chunks = b' @ c' # r'" "length (concat b') \<le> n" "n + 1 < length (concat b') + length c'"
      by blast
    then show "n + 1 < length (concat b) + length c" using u [of b' c' r'] by linarith
  qed (use s(1,2) in blast)
  then show ?thesis using False copy_body_long [of "[]" b n c "n + 1" r] s
    by (simp add: post_buffer [of n alloc m m', OF assms])
qed

theorem post_buffer_reads_witness:
  "adx_network_get_post_buffer (\<lambda>m n. Some (m + n)) 0 (Some (Some (dec (int 3)))) (Some [''ab'', ''c'']) = Some (4, Some ''abc'') \<and>
   adx_network_get_post_buffer (\<lambda>m n. Some (m + n)) 0 (Some (Some (dec (int 3)))) (Some [''ab'', ''cde'']) = None"
proof -
  have "\<exists>b c r. [''ab'', ''cde''] = b @ c # r \<and> length (concat b) \<le> 3 \<and> 3 + 1 < length (concat b) + length c"
    by (intro exI [of _ "[''ab'']"] exI [of _ "''cde''"] exI [of _ "[]"]) simp
  then show ?thesis
    using post_buffer_reads [of 3 "\<lambda>m n. Some (m + n)" 0 4 "[''ab'', ''c'']"]
      post_buffer_reads [of 3 "\<lambda>m n. Some (m + n)" 0 4 "[''ab'', ''cde'']"]
    by simp
qed

text \<open>
  C19. Uploads: for a body with a boundary of 30 to 118 bytes, two header lines, a file that is not
  empty and has no boundary in it, and the boundary again, \<open>adx_network_upload_file\<close> returns exactly the
  bytes of the file, whatever bytes they are.  A boundary of 126 bytes or more is written behind the
  array on the stack, since its length is tested only afterwards.
\<close>

theorem upload_file_content:
  assumes "line_text boundary" "line_text disposition" "line_text ctype" "no_boundary boundary content (butlast rest @ [NUL])"
    "content \<noteq> []" "rest \<noteq> []"
  shows "adx_network_upload_file (upload_body boundary disposition ctype content rest) =
    (if 126 \<le> length boundary then None
     else if length boundary < 30 \<or> 118 < length boundary then Some None else Some (Some content))"
  by (rule upload_steps [OF assms])

theorem upload_file_content_witness:
  "adx_network_upload_file (upload_body (replicate 40 CHR ''-'') ''Content-Disposition: form-data'' ''Content-Type: image/png''
      [NUL, CHR ''x''] ''--'') = Some (Some [NUL, CHR ''x''])"
proof -
  have "no_boundary (replicate 40 CHR ''-'') [NUL, CHR ''x''] (butlast ''--'' @ [NUL])"
    by (auto simp: no_boundary_def strncmp_eq_def less_Suc_eq)
  then show ?thesis
    using upload_file_content [of "replicate 40 CHR ''-''" "''Content-Disposition: form-data''" "''Content-Type: image/png''"
      "[NUL, CHR ''x'']" "''--''"] by (simp add: line_text_def)
qed

end
