(* ===== verification/Web_Util.thy ===== *)
theory Web_Util
  imports Web_Network
begin

text \<open>
  Cookies, sessions and header values of the nginx modules: \<^verbatim>\<open>adx_com_libs/adx_util.c\<close>, over
  \<^verbatim>\<open>ngx_http_parse_multi_header_lines\<close> and \<^verbatim>\<open>ngx_strncasecmp\<close> of nginx.  A header value is the list of its
  characters; behind it there is a NUL, and what follows is other memory.
\<close>

section \<open>Model: finding a cookie\<close>

definition ngx_tolower :: "char \<Rightarrow> char" where
  "ngx_tolower c = (if 65 \<le> (of_char c :: nat) \<and> (of_char c :: nat) \<le> 90 then char_of (of_char c + 32 :: nat) else c)"

fun ngx_strncasecmp :: "string \<Rightarrow> string \<Rightarrow> nat \<Rightarrow> int" where
  "ngx_strncasecmp s1 s2 0 = 0"
| "ngx_strncasecmp [] [] (Suc n) = 0"
| "ngx_strncasecmp [] (d # s2) (Suc n) = - of_char (ngx_tolower d)"
| "ngx_strncasecmp (c # s1) [] (Suc n) = of_char (ngx_tolower c)"
| "ngx_strncasecmp (c # s1) (d # s2) (Suc n) =
     (if ngx_tolower c = ngx_tolower d
      then if ngx_tolower c \<noteq> NUL then ngx_strncasecmp s1 s2 n else 0
      else of_char (ngx_tolower c) - of_char (ngx_tolower d))"

abbreviation SP :: char where "SP \<equiv> CHR '' ''"

text \<open>The label \<^verbatim>\<open>skip\<close>: behind the next separator and the spaces after it.\<close>

definition skip_pair :: "string \<Rightarrow> string" where
  "skip_pair s = dropWhile (\<lambda>c. c = SP) (drop 1 (dropWhile (\<lambda>c. c \<noteq> CHR '';'' \<and> c \<noteq> CHR '','') s))"

lemma skip_pair_length: "length (skip_pair s) \<le> length s - 1"
proof -
  have "length (skip_pair s) \<le> length (drop 1 (dropWhile (\<lambda>c. c \<noteq> CHR '';'' \<and> c \<noteq> CHR '','') s))"
    unfolding skip_pair_def by (rule length_dropWhile_le)
  also have "\<dots> \<le> length s - 1" using length_dropWhile_le [of "\<lambda>c. c \<noteq> CHR '';'' \<and> c \<noteq> CHR '',''" s] by simp
  finally show ?thesis .
qed

lemma skip_pair_less:
  assumes "s \<noteq> []"
  shows "length (skip_pair s) < length s"
    "length (skip_pair (dropWhile (\<lambda>c. c = SP) (drop n s))) < length s"
    "length (skip_pair (tl (dropWhile (\<lambda>c. c = SP) (drop n s)))) < length s"
proof -
  have l: "length t \<le> length s \<Longrightarrow> length (skip_pair t) < length s" for t
    using skip_pair_length [of t] assms by (cases t; cases s) auto
  have d: "length (dropWhile (\<lambda>c. c = SP) (drop n s)) \<le> length s"
    using length_dropWhile_le [of "\<lambda>c. c = SP" "drop n s"] by simp
  show "length (skip_pair s) < length s" "length (skip_pair (dropWhile (\<lambda>c. c = SP) (drop n s))) < length s"
    "length (skip_pair (tl (dropWhile (\<lambda>c. c = SP) (drop n s)))) < length s"
    using d by (simp_all add: l)
qed

text \<open>
  The loop over a header value.  \<open>has_value\<close>: the argument \<^verbatim>\<open>value\<close> is not null.  The result is the text from
  the value on.
\<close>

function scan_line :: "string \<Rightarrow> bool \<Rightarrow> string \<Rightarrow> string option" where
  "scan_line name has_value s =
     (if s = [] then None
      else if ngx_strncasecmp s name (length name) \<noteq> 0 then scan_line name has_value (skip_pair s)
      else let t = dropWhile (\<lambda>c. c = SP) (drop (length name) s) in
        if \<not> has_value then
          if t = [] \<or> hd t = CHR '','' then Some [] else scan_line name has_value (skip_pair t)
        else if t = [] then None
        else if hd t \<noteq> CHR ''='' then scan_line name has_value (skip_pair (tl t))
        else Some (dropWhile (\<lambda>c. c = SP) (tl t)))"
  by pat_completeness auto

termination by (relation "measure (\<lambda>(_, _, s). length s)") (simp_all add: skip_pair_less)

declare scan_line.simps [simp del]

fun ngx_http_parse_multi_header_lines :: "string list \<Rightarrow> string \<Rightarrow> bool \<Rightarrow> string option" where
  "ngx_http_parse_multi_header_lines [] name has_value = None"
| "ngx_http_parse_multi_header_lines (h # hs) name has_value =
     (if length h < length name then ngx_http_parse_multi_header_lines hs name has_value
      else case scan_line name has_value h of Some v \<Rightarrow> Some v
      | None \<Rightarrow> ngx_http_parse_multi_header_lines hs name has_value)"

section \<open>Model: header values\<close>

text \<open>There may be no such header, or no text in it.\<close>

definition adx_http_host :: "string option option \<Rightarrow> string option" where
  "adx_http_host host = Option.bind host id"

definition adx_http_user_agent :: "string option option \<Rightarrow> string option" where
  "adx_http_user_agent user_agent = Option.bind user_agent id"

text \<open>\<open>size\<close> bytes are at \<open>addr\<close>; the result is the text there.\<close>

definition adx_http_ipaddr :: "string option \<Rightarrow> nat \<Rightarrow> string option option" where
  "adx_http_ipaddr connection room =
     (case connection of None \<Rightarrow> Some None
      | Some ip \<Rightarrow> if room < length ip + 1 then None else Some (Some ip))"

definition adx_http_ipaddr_forwarded :: "string list \<Rightarrow> string option" where
  "adx_http_ipaddr_forwarded x_forwarded_for = (if x_forwarded_for = [] then None else Some (hd x_forwarded_for))"

section \<open>Model: cookies and sessions\<close>

definition adx_http_set_cookie :: "'m alloc_fun \<Rightarrow> 'm \<Rightarrow> 'k request \<Rightarrow> string \<Rightarrow> 'm \<times> 'k request \<times> int" where
  "adx_http_set_cookie alloc m r cookie =
     (case alloc m 48 of None \<Rightarrow> (m, r, -1)
      | Some m \<Rightarrow>
        let push = (\<lambda>h. r\<lparr>r_out := (r_out r)\<lparr>ho_headers := ho_headers (r_out r) @ [h]\<rparr>\<rparr>) in
        (case alloc m (length cookie) of None \<Rightarrow> (m, push None, -1)
         | Some m \<Rightarrow> (m, push (Some \<lparr>hd_key = ''Set-Cookie'', hd_value = cookie, hd_hash = 1\<rparr>), 0)))"

text \<open>
  The allocation is not tested, and a null pointer is what \<^verbatim>\<open>value\<close> is then.  The inner option is the null
  pointer; the text goes on to the end of the header value.
\<close>

definition adx_http_get_cookie :: "'m alloc_fun \<Rightarrow> 'm \<Rightarrow> string list \<Rightarrow> string \<Rightarrow> ('m \<times> string option) option" where
  "adx_http_get_cookie alloc m cookies cookie =
     (let (m, ok) = try_alloc alloc m 16 in
      case ngx_http_parse_multi_header_lines cookies cookie ok of None \<Rightarrow> Some (m, None)
      | Some v \<Rightarrow> if ok then Some (m, Some v) else None)"

definition session_text :: "string \<Rightarrow> string \<Rightarrow> string" where
  "session_text key session_id = key @ ''='' @ session_id @ ''; Path=/action;''"

text \<open>The text is printed into an array of 256 bytes.\<close>

definition adx_http_set_session ::
    "'m alloc_fun \<Rightarrow> 'm \<Rightarrow> 'k request \<Rightarrow> string \<Rightarrow> string \<Rightarrow> ('m \<times> 'k request \<times> int) option" where
  "adx_http_set_session alloc m r key session_id =
     (let session = session_text key session_id in
      if 256 < length session + 1 then None else Some (adx_http_set_cookie alloc m r session))"

text \<open>36 bytes are copied, however long the value is, to a block whose allocation is not tested.\<close>

definition adx_http_get_session ::
    "'m alloc_fun \<Rightarrow> 'm \<Rightarrow> string list \<Rightarrow> string \<Rightarrow> ('m \<times> int \<times> string option) option" where
  "adx_http_get_session alloc m cookies key = do {
     (m, cookie) \<leftarrow> adx_http_get_cookie alloc m cookies key;
     (case cookie of None \<Rightarrow> Some (m, -1, None)
      | Some v \<Rightarrow> do {
          m \<leftarrow> alloc m 40;
          (if length v + 1 < 36 then None
           else Some (m, 0, Some (takeWhile (\<lambda>c. c \<noteq> NUL) (take 36 (v @ [NUL]))))) }) }"

section \<open>Reading a line of cookies\<close>

definition same_name :: "string \<Rightarrow> string \<Rightarrow> bool" where
  "same_name a b \<longleftrightarrow> map ngx_tolower a = map ngx_tolower b"

lemma tolower_upper: "65 \<le> (of_char c :: nat) \<Longrightarrow> (of_char c :: nat) \<le> 90 \<Longrightarrow> (of_char (ngx_tolower c) :: nat) = of_char c + 32"
  by (simp add: ngx_tolower_def of_char_of)

text \<open>Only letters are changed.\<close>

lemma tolower_other:
  assumes "(of_char d :: nat) < 65"
  shows "ngx_tolower c = d \<longleftrightarrow> c = d"
proof (cases "65 \<le> (of_char c :: nat) \<and> (of_char c :: nat) \<le> 90")
  case True
  then have "(of_char (ngx_tolower c) :: nat) \<noteq> of_char d" "(of_char c :: nat) \<noteq> of_char d"
    using tolower_upper [of c] assms by linarith+
  then show ?thesis by metis
qed (auto simp: ngx_tolower_def)

lemma tolower_NUL [simp]: "ngx_tolower c = NUL \<longleftrightarrow> c = NUL"
  by (rule tolower_other) simp

lemma same_name_simps [simp]:
  "same_name [] b \<longleftrightarrow> b = []" "same_name a [] \<longleftrightarrow> a = []"
  "same_name (c # a) (d # b) \<longleftrightarrow> ngx_tolower c = ngx_tolower d \<and> same_name a b"
  by (auto simp: same_name_def)

lemma same_name_length: "same_name a b \<Longrightarrow> length a = length b"
  unfolding same_name_def by (metis length_map)

lemma strncasecmp_prefix:
  "NUL \<notin> set name \<Longrightarrow> ngx_strncasecmp s name (length name) = 0 \<longleftrightarrow> same_name (take (length name) s) name"
proof (induction name arbitrary: s)
  case (Cons d name)
  show ?case
  proof (cases s)
    case Nil
    have "ngx_tolower d \<noteq> NUL" using Cons.prems by auto
    then have "(of_char (ngx_tolower d) :: int) \<noteq> 0" using inj_of_char [THEN inj_eq, of "ngx_tolower d" NUL] by simp
    then show ?thesis using Nil by simp
  next
    case c: (Cons c s')
    have "(of_char (ngx_tolower c) :: int) - of_char (ngx_tolower d) = 0 \<longleftrightarrow> ngx_tolower c = ngx_tolower d" by simp
    then show ?thesis using Cons c by auto
  qed
qed simp

text \<open>A cookie as the browser sends it back.\<close>

definition cookie_name :: "string \<Rightarrow> bool" where
  "cookie_name k \<longleftrightarrow> k \<noteq> [] \<and> set k \<inter> {NUL, CHR ''='', CHR '';'', CHR '','', SP} = {}"

definition cookie_value :: "string \<Rightarrow> bool" where
  "cookie_value v \<longleftrightarrow> set v \<inter> {CHR '';'', CHR '',''} = {} \<and> (v = [] \<or> hd v \<noteq> SP)"

fun cookie_line :: "(string \<times> string) list \<Rightarrow> string" where
  "cookie_line [] = []"
| "cookie_line [(k, v)] = k @ CHR ''='' # v"
| "cookie_line ((k, v) # p # ps) = k @ CHR ''='' # v @ CHR '';'' # SP # cookie_line (p # ps)"

lemma skip_to_end: "set x \<inter> {CHR '';'', CHR '',''} = {} \<Longrightarrow> skip_pair x = []"
proof -
  assume "set x \<inter> {CHR '';'', CHR '',''} = {}"
  then have "dropWhile (\<lambda>c. c \<noteq> CHR '';'' \<and> c \<noteq> CHR '','') x = []" by (auto simp: dropWhile_eq_Nil_conv)
  then show ?thesis by (simp add: skip_pair_def del: dropWhile_eq_Nil_conv)
qed

lemma skip_to_next:
  assumes "set x \<inter> {CHR '';'', CHR '',''} = {}" "s = [] \<or> hd s \<noteq> SP"
  shows "skip_pair (x @ CHR '';'' # SP # s) = s"
proof -
  have "dropWhile (\<lambda>c. c \<noteq> CHR '';'' \<and> c \<noteq> CHR '','') (x @ CHR '';'' # SP # s) = CHR '';'' # SP # s"
    using assms(1) by (subst dropWhile_append2) auto
  then show ?thesis using assms(2) by (cases s) (auto simp: skip_pair_def)
qed

text \<open>The text behind a pair, and where the scan goes on.\<close>

definition behind_pair :: "string \<Rightarrow> string \<Rightarrow> bool" where
  "behind_pair rest s \<longleftrightarrow> rest = [] \<and> s = [] \<or> rest = CHR '';'' # SP # s \<and> s \<noteq> [] \<and> hd s \<noteq> SP"

lemma skip_behind: "behind_pair rest s \<Longrightarrow> set x \<inter> {CHR '';'', CHR '',''} = {} \<Longrightarrow> skip_pair (x @ rest) = s"
  unfolding behind_pair_def using skip_to_end [of x] skip_to_next [of x s] by auto

lemma scan_pair:
  assumes "cookie_name name" "cookie_name k" "cookie_value v" "behind_pair rest s"
  shows "scan_line name True (k @ CHR ''='' # v @ rest) = (if same_name k name then Some (v @ rest) else scan_line name True s)"
proof -
  let ?l = "k @ CHR ''='' # v @ rest"
  let ?n = "length name"
  have nul: "NUL \<notin> set name" and ne: "?l \<noteq> []" using assms(1) by (auto simp: cookie_name_def)
  have sep: "set (k @ CHR ''='' # v) \<inter> {CHR '';'', CHR '',''} = {}" using assms(2,3) by (auto simp: cookie_name_def cookie_value_def)
  have skip: "skip_pair (x @ rest) = s" if "set x \<subseteq> set (k @ CHR ''='' # v)" for x
    using skip_behind [OF assms(4), of x] sep that by blast
  have l: "skip_pair ?l = s" using skip [of "k @ CHR ''='' # v"] by simp
  consider "length k < ?n" | "?n = length k" | "?n < length k" by linarith
  then show ?thesis
  proof cases
    case 1
    have "\<not> same_name (take ?n ?l) name"
    proof
      assume e: "same_name (take ?n ?l) name"
      have "ngx_tolower (take ?n ?l ! length k) = ngx_tolower (name ! length k)"
        using 1 same_name_length [OF e] e unfolding same_name_def by (metis nth_map)
      moreover have "take ?n ?l ! length k = CHR ''=''" using 1 by (simp add: nth_append)
      ultimately have "ngx_tolower (name ! length k) = CHR ''=''" using tolower_other [of "CHR ''=''" "CHR ''=''"] by simp
      then have "name ! length k = CHR ''=''" using tolower_other [of "CHR ''=''" "name ! length k"] by simp
      then show False using 1 assms(1) nth_mem [of "length k" name] by (auto simp: cookie_name_def)
    qed
    moreover have "\<not> same_name k name" using 1 same_name_length [of k name] by auto
    ultimately show ?thesis using ne l by (subst scan_line.simps) (simp add: strncasecmp_prefix [OF nul])
  next
    case 2
    then have t: "take ?n ?l = k" "drop ?n ?l = CHR ''='' # v @ rest" by simp_all
    have v: "dropWhile (\<lambda>c. c = SP) (v @ rest) = v @ rest"
      using assms(3,4) by (cases v; cases rest) (auto simp: cookie_value_def behind_pair_def)
    show ?thesis using ne l t v by (subst scan_line.simps) (simp add: strncasecmp_prefix [OF nul] Let_def)
  next
    case 3
    have neq: "\<not> same_name k name" using 3 same_name_length [of k name] by auto
    obtain c k' where d: "drop ?n k = c # k'" using 3 by (cases "drop ?n k") auto
    then have c: "c \<in> set k" "set k' \<subseteq> set k" by (metis in_set_dropD list.set_intros(1), metis d set_drop_subset set_subset_Cons subset_trans)
    have t: "drop ?n ?l = c # k' @ CHR ''='' # v @ rest" using 3 d by simp
    have "c \<noteq> SP" "c \<noteq> CHR ''=''" using c(1) assms(2) by (auto simp: cookie_name_def)
    moreover have "skip_pair (k' @ CHR ''='' # v @ rest) = s" using skip [of "k' @ CHR ''='' # v"] c(2) by auto
    ultimately show ?thesis using ne l t neq by (subst scan_line.simps) (simp add: strncasecmp_prefix [OF nul] Let_def)
  qed
qed

definition cookie :: "string \<times> string \<Rightarrow> bool" where
  "cookie kv \<longleftrightarrow> cookie_name (fst kv) \<and> cookie_value (snd kv)"

lemma cookie_line_Cons:
  assumes "cookie p"
  shows "cookie_line (p # ps) \<noteq> [] \<and> hd (cookie_line (p # ps)) \<noteq> SP"
proof -
  obtain c k v where "p = (c # k, v)" "c \<noteq> SP" using assms by (cases p; cases "fst p") (auto simp: cookie_def cookie_name_def)
  then show ?thesis by (cases ps) auto
qed

lemma cookie_line_split:
  assumes "list_all cookie ps"
  shows "\<exists>rest. cookie_line ((k, v) # ps) = k @ CHR ''='' # v @ rest \<and> behind_pair rest (cookie_line ps)"
proof (cases ps)
  case (Cons p qs)
  then show ?thesis using cookie_line_Cons [of p qs] assms
    by (intro exI [of _ "CHR '';'' # SP # cookie_line ps"]) (cases p, simp add: behind_pair_def)
qed (simp add: behind_pair_def)

lemma scan_cookie_line:
  assumes "cookie_name name" "list_all cookie (pre @ (k, v) # post)" "\<forall>p \<in> set pre. \<not> same_name (fst p) name" "same_name k name"
  shows "\<exists>rest. scan_line name True (cookie_line (pre @ (k, v) # post)) = Some (v @ rest)"
  using assms(2,3)
proof (induction pre)
  case Nil
  then obtain rest where "cookie_line ((k, v) # post) = k @ CHR ''='' # v @ rest" "behind_pair rest (cookie_line post)"
    using cookie_line_split [of post k v] by auto
  then show ?case using scan_pair [OF assms(1), of k v rest "cookie_line post"] Nil assms(4) by (simp add: cookie_def)
next
  case (Cons p pre)
  obtain k' v' where p: "p = (k', v')" by fastforce
  obtain rest where "cookie_line (p # pre @ (k, v) # post) = k' @ CHR ''='' # v' @ rest"
    "behind_pair rest (cookie_line (pre @ (k, v) # post))"
    using cookie_line_split [of "pre @ (k, v) # post" k' v'] Cons.prems(1) p by auto
  then show ?case using scan_pair [OF assms(1), of k' v' rest] Cons p by (simp add: cookie_def)
qed

lemma cookie_line_length: "list_all cookie (pre @ (k, v) # post) \<Longrightarrow> length k \<le> length (cookie_line (pre @ (k, v) # post))"
proof (induction pre)
  case Nil
  then show ?case by (cases post) auto
next
  case (Cons p pre)
  then show ?case by (cases p; cases pre) auto
qed

section \<open>Property\<close>

text \<open>
  C15. A session survives the browser: \<open>adx_http_set_session\<close> adds the header \<^verbatim>\<open>Set-Cookie\<close> with the key and the
  identifier, and for a header line in which the browser sends the pair back, among other cookies, in
  whatever case, \<open>adx_http_get_session\<close> returns the identifier, if it has 36 characters.  A key so long
  that the text has 256 characters or more is written behind the array on the stack.
\<close>

theorem session_round_trip:
  assumes "alloc_total alloc" "cookie_name key" "cookie_value sid" "NUL \<notin> set sid" "length sid = 36"
    "list_all cookie (pre @ (k, sid) # post)" "same_name k key" "\<forall>p \<in> set pre. \<not> same_name (fst p) key"
  shows "(if 204 \<le> length key then adx_http_set_session alloc m r key sid = None
     else \<exists>m1 r1. adx_http_set_session alloc m r key sid = Some (m1, r1, 0) \<and>
       ho_headers (r_out r1) = ho_headers (r_out r) @
         [Some \<lparr>hd_key = ''Set-Cookie'', hd_value = cookie_line [(key, sid), (''Path'', ''/action;'')], hd_hash = 1\<rparr>]) \<and>
     (\<exists>m2. adx_http_get_session alloc m [cookie_line (pre @ (k, sid) # post)] key = Some (m2, 0, Some sid))"
proof (rule conjI)
  have t: "length (session_text key sid) = length key + 52" "cookie_line [(key, sid), (''Path'', ''/action;'')] = session_text key sid"
    using assms(5) by (simp_all add: session_text_def)
  obtain m1 m2 where "alloc m 48 = Some m1" "alloc m1 (length key + 52) = Some m2"
    using assms(1) unfolding alloc_total_def by (metis not_Some_eq)
  then show "if 204 \<le> length key then adx_http_set_session alloc m r key sid = None
     else \<exists>m1 r1. adx_http_set_session alloc m r key sid = Some (m1, r1, 0) \<and>
       ho_headers (r_out r1) = ho_headers (r_out r) @
         [Some \<lparr>hd_key = ''Set-Cookie'', hd_value = cookie_line [(key, sid), (''Path'', ''/action;'')], hd_hash = 1\<rparr>]"
    unfolding t(2) by (simp add: adx_http_set_session_def adx_http_set_cookie_def t(1) Let_def)
next
  obtain rest where scan: "scan_line key True (cookie_line (pre @ (k, sid) # post)) = Some (sid @ rest)"
    using scan_cookie_line [OF assms(2,6,8,7)] by blast
  have "length key \<le> length (cookie_line (pre @ (k, sid) # post))"
    using cookie_line_length [OF assms(6)] same_name_length [OF assms(7)] by simp
  then have p: "ngx_http_parse_multi_header_lines [cookie_line (pre @ (k, sid) # post)] key True = Some (sid @ rest)"
    using scan by simp
  obtain m1 m2 where m: "alloc m 16 = Some m1" "alloc m1 40 = Some m2"
    using assms(1) unfolding alloc_total_def by (metis not_Some_eq)
  have "takeWhile (\<lambda>c. c \<noteq> NUL) sid = sid" using assms(4) by (auto simp: takeWhile_eq_all_conv)
  then show "\<exists>m2. adx_http_get_session alloc m [cookie_line (pre @ (k, sid) # post)] key = Some (m2, 0, Some sid)"
    using p m assms(5)
    by (simp add: adx_http_get_session_def adx_http_get_cookie_def try_alloc_def del: ngx_http_parse_multi_header_lines.simps)
qed

text \<open>A session behind another cookie.\<close>

theorem session_round_trip_witness:
  "\<exists>m. adx_http_get_session (\<lambda>m n. Some (m + n)) 0 [cookie_line [(''lang'', ''zh''), (''sid'', replicate 36 CHR ''a'')]] ''sid'' =
     Some (m, 0, Some (replicate 36 CHR ''a''))"
  using session_round_trip [of "\<lambda>m n. Some (m + n)" "''sid''" "replicate 36 CHR ''a''" "[(''lang'', ''zh'')]" "''sid''" "[]" 0
    "\<lparr>r_out = \<lparr>ho_status = 0, ho_content_type = [], ho_content_length = 0, ho_headers = []\<rparr>, r_header_only = False, r_server = ()\<rparr>"]
  by (simp add: alloc_total_def cookie_def cookie_name_def cookie_value_def ngx_tolower_def same_name_def)

end
