(* ===== verification/Adx_Conf.thy ===== *)
theory Adx_Conf
  imports Adx_Cstd
begin

text \<open>
  The configuration reader \<^verbatim>\<open>adx_conf_file.c\<close>: files with sections and lines \<^verbatim>\<open>key=value\<close>.  A file is its
  text, \<open>None\<close> if it cannot be opened; a configuration is the list of its entries in list order
  (\<open>adx_list_add\<close> appends, see \<open>Adx_List\<close>).  \<^verbatim>\<open>fgets\<close> and \<^verbatim>\<open>sscanf\<close> of the C library are modelled for the
  formats the code uses.
\<close>

section \<open>Model\<close>

abbreviation newline :: char where "newline \<equiv> CHR 0x0A"

record conf_node =
  cf_section :: string
  cf_key :: string
  cf_value :: string

definition adx_conf_file_add ::
    "'m alloc_fun \<Rightarrow> 'm \<Rightarrow> conf_node list \<Rightarrow> string \<Rightarrow> string \<Rightarrow> string \<Rightarrow> 'm \<times> conf_node list \<times> int" where
  "adx_conf_file_add alloc m cf sec key val =
     (case alloc m 40 of None \<Rightarrow> (m, cf, -1)
      | Some m \<Rightarrow> (case alloc m (length sec + 1) of None \<Rightarrow> (m, cf, -1)
        | Some m \<Rightarrow> (case alloc m (length key + 1) of None \<Rightarrow> (m, cf, -1)
          | Some m \<Rightarrow> (case alloc m (length val + 1) of None \<Rightarrow> (m, cf, -1)
            | Some m \<Rightarrow> (m, cf @ [\<lparr>cf_section = sec, cf_key = key, cf_value = val\<rparr>], 0)))))"

text \<open>\<^verbatim>\<open>fgets\<close>: at most \<open>n\<close> characters, up to a newline; the rest of the file.\<close>

fun conf_fgets :: "nat \<Rightarrow> string \<Rightarrow> string \<times> string" where
  "conf_fgets 0 s = ([], s)"
| "conf_fgets (Suc n) [] = ([], [])"
| "conf_fgets (Suc n) (c # s) = (if c = newline then ([c], s) else case conf_fgets n s of (l, r) \<Rightarrow> (c # l, r))"

text \<open>The format \<^verbatim>\<open>[%[^]]\<close>: nothing is stored for an empty name.\<close>

definition scan_section :: "string \<Rightarrow> string \<Rightarrow> string" where
  "scan_section line sec = (let s = takeWhile (\<lambda>c. c \<noteq> CHR '']'') (tl line) in if s = [] then sec else s)"

text \<open>The format \<^verbatim>\<open>%[^=] =\<close> and a space: the key, and the text where the value starts.\<close>

definition scan_key :: "string \<Rightarrow> (string \<times> string) option" where
  "scan_key line =
     (let k = takeWhile (\<lambda>c. c \<noteq> CHR ''='') line; r = dropWhile (\<lambda>c. c \<noteq> CHR ''='') line in
      if k = [] \<or> r = [] then None else Some (k, dropWhile isspace (tl r)))"

text \<open>A value in quotes; the closing quote may be missing.\<close>

definition scan_quoted :: "char \<Rightarrow> string \<Rightarrow> string option" where
  "scan_quoted q s =
     (if s \<noteq> [] \<and> hd s = q then (let v = takeWhile (\<lambda>c. c \<noteq> q) (tl s) in if v = [] then None else Some v)
      else None)"

definition scan_plain :: "string \<Rightarrow> string option" where
  "scan_plain s = (let v = takeWhile (\<lambda>c. c \<noteq> CHR '';'' \<and> c \<noteq> CHR ''#'') s in if v = [] then None else Some v)"

text \<open>The three formats, one after the other.\<close>

definition scan_entry :: "string \<Rightarrow> (string \<times> string) option" where
  "scan_entry line = do {
     (k, s) \<leftarrow> scan_key line;
     v \<leftarrow> (case scan_quoted CHR 0x22 s of Some v \<Rightarrow> Some v
       | None \<Rightarrow> (case scan_quoted CHR 0x27 s of Some v \<Rightarrow> Some v | None \<Rightarrow> scan_plain s));
     Some (k, v) }"

definition strip_end :: "string \<Rightarrow> string" where
  "strip_end s = rev (dropWhile isspace (rev s))"

text \<open>One round of the loop: the section afterwards, and the entry the line has.\<close>

definition conf_line :: "string \<Rightarrow> string \<Rightarrow> string \<times> (string \<times> string) option" where
  "conf_line sec line =
     (let line = takeWhile (\<lambda>c. c \<noteq> CHR 0x00) line; len = int (length line) - 1 in
      if len = 0 \<or> 1024 \<le> len then (sec, None)
      else if line \<noteq> [] \<and> hd line = CHR ''#'' then (sec, None)
      else let line = strip_end line;
          sec = (if line \<noteq> [] \<and> hd line = CHR ''['' \<and> last line = CHR '']'' then scan_section line sec else sec) in
        (sec, if sec = [] then None else scan_entry line))"

lemma conf_fgets_rest: "length (snd (conf_fgets n s)) \<le> length s"
  by (induction n s rule: conf_fgets.induct) (auto split: prod.splits)

lemma conf_fgets_less: "s \<noteq> [] \<Longrightarrow> conf_fgets 1023 s = (l, r) \<Longrightarrow> length r < length s"
  using conf_fgets_rest [of 1022 "tl s"] by (cases s) (auto simp: numeral_eq_Suc split: if_splits prod.splits)

function conf_loop ::
    "'m alloc_fun \<Rightarrow> 'm \<Rightarrow> conf_node list \<Rightarrow> string \<Rightarrow> string \<Rightarrow> 'm \<times> conf_node list \<times> int" where
  "conf_loop alloc m cf sec file =
     (if file = [] then (m, cf, 0)
      else case conf_fgets 1023 file of (line, rest) \<Rightarrow>
        (case conf_line sec line of
           (sec, None) \<Rightarrow> conf_loop alloc m cf sec rest
         | (sec, Some (k, v)) \<Rightarrow>
           (case adx_conf_file_add alloc m cf sec k v of (m, cf, rc) \<Rightarrow>
              if rc \<noteq> 0 then (m, cf, -1) else conf_loop alloc m cf sec rest)))"
  by pat_completeness auto

termination by (relation "measure (\<lambda>(_, _, _, _, s). length s)") (auto dest: conf_fgets_less [OF _ sym])

declare conf_loop.simps [simp del]

definition adx_conf_file_parse ::
    "'m alloc_fun \<Rightarrow> 'm \<Rightarrow> conf_node list \<Rightarrow> string option \<Rightarrow> 'm \<times> conf_node list \<times> int" where
  "adx_conf_file_parse alloc m cf file =
     (case file of None \<Rightarrow> (m, cf, -1) | Some s \<Rightarrow> conf_loop alloc m cf [] s)"

text \<open>On failure \<^verbatim>\<open>adx_conf_file_free\<close> is called, which is empty: what was allocated stays so.\<close>

definition adx_conf_file_load :: "'m alloc_fun \<Rightarrow> 'm \<Rightarrow> string option \<Rightarrow> 'm \<times> conf_node list option" where
  "adx_conf_file_load alloc m file =
     (case alloc m 16 of None \<Rightarrow> (m, None)
      | Some m \<Rightarrow> (case adx_conf_file_parse alloc m [] file of (m, cf, rc) \<Rightarrow> (m, if rc \<noteq> 0 then None else Some cf)))"

definition get_adx_conf_file_string :: "conf_node list \<Rightarrow> string \<Rightarrow> string \<Rightarrow> string option" where
  "get_adx_conf_file_string cf sec key =
     map_option cf_value (find (\<lambda>node. strcmp (cf_section node) sec = 0 \<and> strcmp (cf_key node) key = 0) cf)"

definition get_adx_conf_file_number :: "conf_node list \<Rightarrow> string \<Rightarrow> string \<Rightarrow> 32 word" where
  "get_adx_conf_file_number cf sec key =
     (case get_adx_conf_file_string cf sec key of None \<Rightarrow> 0 | Some v \<Rightarrow> atoi v)"

section \<open>Files that are well formed\<close>

datatype conf_text = Section string | Entry string string | Comment string | Blank string

fun text_of :: "conf_text \<Rightarrow> string" where
  "text_of (Section s) = CHR ''['' # s @ '']''"
| "text_of (Entry k v) = k @ CHR ''='' # v"
| "text_of (Comment t) = CHR ''#'' # t"
| "text_of (Blank t) = t"

definition one_line :: "string \<Rightarrow> bool" where
  "one_line s \<longleftrightarrow> newline \<notin> set s \<and> CHR 0x00 \<notin> set s \<and> length s \<le> 1022"

text \<open>A value is read back if it has no comment sign, no quote at its start and no space at its ends.\<close>

fun line_ok :: "conf_text \<Rightarrow> bool" where
  "line_ok (Section s) \<longleftrightarrow> s \<noteq> [] \<and> CHR '']'' \<notin> set s \<and> CHR ''='' \<notin> set s"
| "line_ok (Entry k v) \<longleftrightarrow> k \<noteq> [] \<and> CHR ''='' \<notin> set k \<and> hd k \<noteq> CHR ''#'' \<and> hd k \<noteq> CHR ''['' \<and>
     v \<noteq> [] \<and> CHR '';'' \<notin> set v \<and> CHR ''#'' \<notin> set v \<and> hd v \<noteq> CHR 0x22 \<and> hd v \<noteq> CHR 0x27 \<and>
     \<not> isspace (hd v) \<and> \<not> isspace (last v)"
| "line_ok (Comment t) \<longleftrightarrow> True"
| "line_ok (Blank t) \<longleftrightarrow> list_all isspace t"

definition file_ok :: "conf_text list \<Rightarrow> bool" where
  "file_ok ls \<longleftrightarrow> (\<forall>l \<in> set ls. line_ok l \<and> one_line (text_of l))"

definition file_text :: "conf_text list \<Rightarrow> string" where
  "file_text ls = concat (map (\<lambda>l. text_of l @ [newline]) ls)"

text \<open>What the file means: entries before the first section are left out.\<close>

fun meaning :: "string \<Rightarrow> conf_text list \<Rightarrow> conf_node list" where
  "meaning sec [] = []"
| "meaning sec (Section s # ls) = meaning s ls"
| "meaning sec (Entry k v # ls) =
     (if sec = [] then [] else [\<lparr>cf_section = sec, cf_key = k, cf_value = v\<rparr>]) @ meaning sec ls"
| "meaning sec (Comment t # ls) = meaning sec ls"
| "meaning sec (Blank t # ls) = meaning sec ls"

lemma conf_fgets_line: "newline \<notin> set s \<Longrightarrow> length s < n \<Longrightarrow> conf_fgets n (s @ newline # r) = (s @ [newline], r)"
proof (induction s arbitrary: n)
  case Nil
  then show ?case by (cases n) auto
next
  case (Cons c s)
  then show ?case by (cases n) auto
qed

lemma strip_newline: "s = [] \<or> \<not> isspace (last s) \<Longrightarrow> strip_end (s @ [newline]) = s"
  by (cases s rule: rev_cases) (auto simp: strip_end_def isspace_def)

lemma strip_spaces: "list_all isspace s \<Longrightarrow> strip_end s = []"
  by (simp add: strip_end_def list_all_iff)

lemma cut_line: "one_line s \<Longrightarrow> takeWhile (\<lambda>c. c \<noteq> CHR 0x00) (s @ [newline]) = s @ [newline]"
  unfolding one_line_def by (subst takeWhile_eq_all_conv) auto

lemma scan_entry_text:
  assumes "line_ok (Entry k v)"
  shows "scan_entry (k @ CHR ''='' # v) = Some (k, v)"
proof -
  have k: "takeWhile (\<lambda>c. c \<noteq> CHR ''='') (k @ CHR ''='' # v) = k" "dropWhile (\<lambda>c. c \<noteq> CHR ''='') (k @ CHR ''='' # v) = CHR ''='' # v"
    using assms by (auto simp: takeWhile_append dropWhile_append)
  have v: "dropWhile isspace v = v" "takeWhile (\<lambda>c. c \<noteq> CHR '';'' \<and> c \<noteq> CHR ''#'') v = v"
    using assms by (cases v; auto simp: takeWhile_eq_all_conv)+
  show ?thesis using assms k v by (simp add: scan_entry_def scan_key_def scan_quoted_def scan_plain_def Let_def del: takeWhile_eq_all_conv)
qed

lemma scan_no_entry: "CHR ''='' \<notin> set s \<Longrightarrow> scan_entry s = None"
proof -
  assume "CHR ''='' \<notin> set s"
  then have "dropWhile (\<lambda>c. c \<noteq> CHR ''='') s = []" by (auto simp: dropWhile_eq_Nil_conv)
  then show ?thesis by (simp add: scan_entry_def scan_key_def del: dropWhile_eq_Nil_conv)
qed

lemma isspace_char: "isspace c \<Longrightarrow> c \<noteq> CHR ''#'' \<and> c \<noteq> CHR ''[''"
  by (auto simp: isspace_def)

lemma conf_line_text:
  assumes "line_ok l" "one_line (text_of l)"
  shows "conf_line sec (text_of l @ [newline]) =
    (case l of Section s \<Rightarrow> (s, None) | Entry k v \<Rightarrow> (sec, if sec = [] then None else Some (k, v)) | _ \<Rightarrow> (sec, None))"
proof -
  note cut = cut_line [OF assms(2)]
  have len: "\<not> 1024 \<le> int (length (text_of l @ [newline])) - 1" using assms(2) by (simp add: one_line_def)
  show ?thesis
  proof (cases l)
    case (Section s)
    then have l: "text_of l = CHR ''['' # s @ '']''" "s \<noteq> []" "CHR '']'' \<notin> set s" "CHR ''='' \<notin> set s" using assms(1) by simp_all
    have "strip_end (text_of l @ [newline]) = text_of l" by (rule strip_newline) (simp add: l(1) isspace_def)
    moreover have "scan_section (text_of l) sec = s" using l by (simp add: scan_section_def takeWhile_append)
    moreover have "scan_entry (text_of l) = None" using l by (intro scan_no_entry) simp
    ultimately show ?thesis using cut len l Section by (simp add: conf_line_def Let_def)
  next
    case (Entry k v)
    then have l: "text_of l = k @ CHR ''='' # v" "k \<noteq> []" "v \<noteq> []" "hd k \<noteq> CHR ''#''" "hd k \<noteq> CHR ''[''" "\<not> isspace (last v)"
      using assms(1) by simp_all
    have "strip_end (text_of l @ [newline]) = text_of l" by (rule strip_newline) (simp add: l)
    moreover have "scan_entry (text_of l) = Some (k, v)" using scan_entry_text [of k v] assms(1) Entry by simp
    ultimately show ?thesis using cut len l Entry by (simp add: conf_line_def Let_def)
  next
    case (Comment t)
    then show ?thesis using cut len by (simp add: conf_line_def Let_def)
  next
    case (Blank t)
    then have "strip_end (text_of l @ [newline]) = []" using assms(1) by (intro strip_spaces) (simp add: isspace_def)
    moreover have "scan_entry [] = None" by (rule scan_no_entry) simp
    ultimately show ?thesis using cut len Blank by (auto simp: conf_line_def Let_def)
  qed
qed

lemma add_total:
  "alloc_total alloc \<Longrightarrow> \<exists>m'. adx_conf_file_add alloc m cf sec k v = (m', cf @ [\<lparr>cf_section = sec, cf_key = k, cf_value = v\<rparr>], 0)"
  unfolding alloc_total_def adx_conf_file_add_def by (auto split: option.splits) (metis not_Some_eq)+

lemma conf_loop_text:
  assumes "alloc_total alloc" "file_ok ls"
  shows "\<exists>m'. conf_loop alloc m cf sec (file_text ls) = (m', cf @ meaning sec ls, 0)"
  using assms(2)
proof (induction ls arbitrary: m cf sec)
  case Nil
  show ?case by (simp add: file_text_def conf_loop.simps)
next
  case (Cons l ls)
  then have l: "line_ok l" "one_line (text_of l)" "file_ok ls" by (simp_all add: file_ok_def)
  let ?rest = "file_text ls"
  have f: "file_text (l # ls) = text_of l @ newline # ?rest" by (simp add: file_text_def)
  have g: "conf_fgets 1023 (text_of l @ newline # ?rest) = (text_of l @ [newline], ?rest)"
    using l(2) unfolding one_line_def by (intro conf_fgets_line) auto
  have step: "conf_loop alloc m cf sec (file_text (l # ls)) =
      (case conf_line sec (text_of l @ [newline]) of
         (sec, None) \<Rightarrow> conf_loop alloc m cf sec ?rest
       | (sec, Some (k, v)) \<Rightarrow>
         (case adx_conf_file_add alloc m cf sec k v of (m, cf, rc) \<Rightarrow>
            if rc \<noteq> 0 then (m, cf, -1) else conf_loop alloc m cf sec ?rest))"
    unfolding f by (subst conf_loop.simps) (simp add: g)
  show ?case
  proof (cases l)
    case (Entry k v)
    show ?thesis
    proof (cases "sec = []")
      case False
      obtain m' where "adx_conf_file_add alloc m cf sec k v = (m', cf @ [\<lparr>cf_section = sec, cf_key = k, cf_value = v\<rparr>], 0)"
        using add_total [OF assms(1)] by blast
      then show ?thesis unfolding step conf_line_text [OF l(1,2)]
        using Cons.IH [OF l(3), of m' "cf @ [\<lparr>cf_section = sec, cf_key = k, cf_value = v\<rparr>]" sec] Entry False by simp
    next
      case True
      then show ?thesis unfolding step conf_line_text [OF l(1,2)] using Cons.IH [OF l(3)] Entry by simp
    qed
  next
    case (Section s)
    then show ?thesis unfolding step conf_line_text [OF l(1,2)] using Cons.IH [OF l(3)] by simp
  next
    case (Comment t)
    then show ?thesis unfolding step conf_line_text [OF l(1,2)] using Cons.IH [OF l(3)] by simp
  next
    case (Blank t)
    then show ?thesis unfolding step conf_line_text [OF l(1,2)] using Cons.IH [OF l(3)] by simp
  qed
qed

section \<open>Properties\<close>

text \<open>
  C17. Configurations are read as they are written: for every file of sections, entries, comments and
  blank lines, of up to 1022 characters a line, \<open>adx_conf_file_load\<close> returns the entries with their
  sections in the order of the file, and a lookup returns the first value for its section and key,
  as a text or as a number.  The key is all the text in front of the equals sign: a space there is
  part of it.
\<close>

theorem conf_file_round_trip:
  assumes "alloc_total alloc" "file_ok ls"
  shows "\<exists>m' cf. adx_conf_file_load alloc m (Some (file_text ls)) = (m', Some cf) \<and> cf = meaning [] ls \<and>
     get_adx_conf_file_string cf sec key =
       map_option cf_value (find (\<lambda>n. cf_section n = sec \<and> cf_key n = key) (meaning [] ls)) \<and>
     (get_adx_conf_file_string cf sec key = Some (dec (sint w)) \<longrightarrow> get_adx_conf_file_number cf sec key = w)"
proof -
  obtain m1 where "alloc m 16 = Some m1" using assms(1) unfolding alloc_total_def by (metis not_Some_eq)
  moreover obtain m2 where "conf_loop alloc m1 [] [] (file_text ls) = (m2, meaning [] ls, 0)"
    using conf_loop_text [OF assms, of m1 "[]" "[]"] by auto
  ultimately have "adx_conf_file_load alloc m (Some (file_text ls)) = (m2, Some (meaning [] ls))"
    by (simp add: adx_conf_file_load_def adx_conf_file_parse_def)
  then show ?thesis by (auto simp: get_adx_conf_file_string_def get_adx_conf_file_number_def atoi_dec)
qed

text \<open>The port of a section of the tracker's file.\<close>

theorem conf_file_round_trip_witness:
  "\<exists>m. adx_conf_file_load (\<lambda>m n. Some (m + n)) 0 (Some (file_text [Comment '' servers'', Blank '''', Section ''logserver'',
      Entry ''settle_port'' ''51398''])) =
     (m, Some [\<lparr>cf_section = ''logserver'', cf_key = ''settle_port'', cf_value = ''51398''\<rparr>])"
  using conf_file_round_trip [of "\<lambda>m n. Some (m + n)" "[Comment '' servers'', Blank '''', Section ''logserver'',
      Entry ''settle_port'' ''51398'']" 0]
  by (auto simp: alloc_total_def file_ok_def one_line_def isspace_def)

end
