(* ===== verification/Price_Base64.thy ===== *)
theory Price_Base64
  imports Price_Encrypt
begin

text \<open>
  The base 64 of \<^verbatim>\<open>BidCore/common/baselib/base64.c\<close>, which the other price decoders have copies of.
  It is another implementation of the code of \<open>Price_Encrypt\<close>, with arithmetic on \<^verbatim>\<open>char\<close>, which is signed.
  The parameter \<open>mem\<close> says whether the allocation succeeds; \<open>Some None\<close> is a null pointer.
\<close>

section \<open>Model\<close>

abbreviation BASE64_PAD64 :: "8 word" where "BASE64_PAD64 \<equiv> 0x3D"

definition base64_alphabet :: bytes where
  "base64_alphabet = map of_char (''ABCDEFGHI'' @ ''JKLMNOPQR'' @ ''STUVWXYZa'' @ ''bcdefghij'' @ ''klmnopqrs'' @
     ''tuvwxyz01'' @ ''23456789+'' @ ''/'')"

definition base64_suffix_map :: bytes where
  "base64_suffix_map = replicate 43 255 @ [62, 255, 255, 255, 63, 52, 53, 54, 55, 56, 57, 58, 59, 60, 61] @
     replicate 7 255 @ [0, 1, 2, 3, 4, 5, 6, 7, 8, 9, 10, 11, 12, 13, 14, 15, 16, 17, 18, 19, 20, 21, 22, 23, 24, 25] @
     replicate 6 255 @ [26, 27, 28, 29, 30, 31, 32, 33, 34, 35, 36, 37, 38, 39, 40, 41, 42, 43, 44, 45, 46, 47, 48,
       49, 50, 51] @ replicate 133 255"

definition cmove_bits :: "8 word \<Rightarrow> nat \<Rightarrow> nat \<Rightarrow> 8 word" where
  "cmove_bits src lnum rnum = drop_bit rnum (push_bit lnum src)"

definition alphabet_at :: "8 word \<Rightarrow> 8 word" where
  "alphabet_at i = base64_alphabet ! unat i"

text \<open>The loop, by the number of bytes that are left: three or more, two, one.\<close>

fun base64_groups :: "bytes \<Rightarrow> bytes" where
  "base64_groups (a # b # c # s) =
     [alphabet_at (cmove_bits a 0 2),
      alphabet_at (cmove_bits a 6 2 + cmove_bits b 0 4),
      alphabet_at (cmove_bits b 4 2 + cmove_bits c 0 6),
      alphabet_at (c AND 0x3f)] @ base64_groups s"
| "base64_groups [a, b] =
     [alphabet_at (cmove_bits a 0 2),
      alphabet_at (cmove_bits a 6 2 + cmove_bits b 0 4),
      alphabet_at (cmove_bits b 4 2),
      BASE64_PAD64]"
| "base64_groups [a] =
     [alphabet_at (cmove_bits a 0 2), alphabet_at (cmove_bits a 6 2), BASE64_PAD64, BASE64_PAD64]"
| "base64_groups [] = []"

definition base64_encode_lib :: "bool \<Rightarrow> bytes \<Rightarrow> bytes option" where
  "base64_encode_lib mem data = (if data = [] then None else if \<not> mem then None else Some (base64_groups data))"

text \<open>
  The index is a signed \<^verbatim>\<open>char\<close>: a character of 128 or more reads in front of the table.  An entry of the
  table is a signed \<^verbatim>\<open>char\<close> too, and never equal to 255.
\<close>

definition suffix_at :: "8 word \<Rightarrow> 8 word option" where
  "suffix_at c = (if 128 \<le> c then None else Some (base64_suffix_map ! unat c))"

fun all_valid :: "bytes \<Rightarrow> bool option" where
  "all_valid [] = Some True"
| "all_valid (c # s) =
     (if c = BASE64_PAD64 then all_valid s
      else do { v \<leftarrow> suffix_at c; if sint v = 255 then Some False else all_valid s })"

fun base64_ungroups :: "nat \<Rightarrow> bytes \<Rightarrow> bytes option" where
  "base64_ungroups padnum (b0 # b1 # b2 # b3 # s) = do {
     s0 \<leftarrow> suffix_at b0;
     s1 \<leftarrow> suffix_at b1;
     if s = [] \<and> padnum \<noteq> 0 then
       if padnum = 1 then do {
         s2 \<leftarrow> suffix_at b2;
         Some [cmove_bits s0 2 0 + cmove_bits s1 0 4, cmove_bits s1 4 0 + cmove_bits s2 0 2] }
       else Some [cmove_bits s0 2 0 + cmove_bits s1 0 4]
     else do {
       s2 \<leftarrow> suffix_at b2;
       s3 \<leftarrow> suffix_at b3;
       r \<leftarrow> base64_ungroups padnum s;
       Some ([cmove_bits s0 2 0 + cmove_bits s1 0 4, cmove_bits s1 4 0 + cmove_bits s2 0 2,
         cmove_bits s2 6 0 + s3] @ r) } }"
| "base64_ungroups padnum _ = Some []"

definition base64_padnum :: "bytes \<Rightarrow> nat" where
  "base64_padnum bdata =
     (let n = length bdata in
      if bdata ! (n - 1) = BASE64_PAD64 \<and> bdata ! (n - 2) = BASE64_PAD64 then 2
      else if bdata ! (n - 1) = BASE64_PAD64 then 1 else 0)"

definition base64_decode_lib :: "bool \<Rightarrow> bytes \<Rightarrow> bytes option option" where
  "base64_decode_lib mem bdata =
     (if bdata = [] then Some None
      else if length bdata mod 4 \<noteq> 0 then Some None
      else do {
        valid \<leftarrow> all_valid bdata;
        if \<not> valid \<or> \<not> mem then Some None
        else do { r \<leftarrow> base64_ungroups (base64_padnum bdata) bdata; Some (Some r) } })"

section \<open>The two encoders\<close>

lemma alphabet_same: "base64_alphabet = encode_basis64"
  by (simp add: base64_alphabet_def encode_basis64_def)

lemma alphabet_at_same: "alphabet_at i = basis_at encode_basis64 i"
  by (simp add: alphabet_at_def basis_at_def alphabet_same)

lemma add_or: "(\<And>n. \<not> bit a n \<or> \<not> bit b n) \<Longrightarrow> a + b = a OR (b :: 8 word)"
  by (rule disjunctive_add) 

lemma cmove_simps:
  "cmove_bits a 0 2 = drop_bit 2 a AND 0x3f" "cmove_bits a 6 2 = push_bit 4 (a AND 3)"
  "cmove_bits a 6 2 + cmove_bits b 0 4 = push_bit 4 (a AND 3) OR drop_bit 4 b"
  "cmove_bits b 4 2 = push_bit 2 (b AND 0x0f)"
  "cmove_bits b 4 2 + cmove_bits c 0 6 = push_bit 2 (b AND 0x0f) OR drop_bit 6 c"
proof -
  have e: "cmove_bits a 6 2 = push_bit 4 (a AND 3)" "cmove_bits b 4 2 = push_bit 2 (b AND 0x0f)"
    "cmove_bits a 0 2 = drop_bit 2 a AND 0x3f" for a b
    unfolding cmove_bits_def by (rule byte_eqI; simp add: bit_simps byte_no_bit)+
  show "cmove_bits a 0 2 = drop_bit 2 a AND 0x3f" "cmove_bits a 6 2 = push_bit 4 (a AND 3)"
    "cmove_bits b 4 2 = push_bit 2 (b AND 0x0f)" by (rule e)+
  have z: "cmove_bits x 0 n = drop_bit n x" for x n by (simp add: cmove_bits_def)
  show "cmove_bits a 6 2 + cmove_bits b 0 4 = push_bit 4 (a AND 3) OR drop_bit 4 b"
    unfolding e z by (rule add_or) (auto simp: bit_simps byte_no_bit)
  show "cmove_bits b 4 2 + cmove_bits c 0 6 = push_bit 2 (b AND 0x0f) OR drop_bit 6 c"
    unfolding e z by (rule add_or) (auto simp: bit_simps byte_no_bit)
qed

lemma base64_groups_same: "base64_groups s = encode_base64 s"
  unfolding encode_base64_def
  by (induction s rule: base64_groups.induct)
    ((simp_all only: base64_groups.simps encode_base64_internal.simps alphabet_at_same cmove_simps(3,5)),
      (simp_all only: cmove_simps(1,2,4)), simp_all)

section \<open>Decoding\<close>

lemma suffix_char:
  assumes "k < 64"
  shows "suffix_at (basis_at encode_basis64 k) = Some k" "basis_at encode_basis64 k \<noteq> BASE64_PAD64"
proof -
  let ?P = "\<lambda>k. (let c = encode_basis64 ! k in suffix_at c = Some (of_nat k) \<and> c \<noteq> BASE64_PAD64)"
  have "list_all ?P [0..<64]"
    by (simp add: upt_rec encode_basis64_def suffix_at_def base64_suffix_map_def nth_append)
  moreover have "unat k < 64" using assms by (simp add: word_less_nat_alt)
  ultimately have "?P (unat k)" by (simp add: list_all_iff Let_def)
  then show "suffix_at (basis_at encode_basis64 k) = Some k" "basis_at encode_basis64 k \<noteq> BASE64_PAD64"
    by (simp_all add: basis_at_def Let_def)
qed

lemma sint_never_255: "sint (w :: 8 word) \<noteq> 255"
  using sint_less [of w] by simp

lemma all_valid_ascii: "list_all (\<lambda>c. c < 128) s \<Longrightarrow> all_valid s = Some True"
proof (induction s)
  case (Cons c s)
  then have "\<not> 128 \<le> c" by (simp add: not_le)
  then show ?case using Cons sint_never_255 by (simp add: suffix_at_def)
qed simp

lemma ungroups_ascii: "list_all (\<lambda>c. c < 128) s \<Longrightarrow> \<exists>r. base64_ungroups p s = Some r"
proof (induction p s rule: base64_ungroups.induct)
  case (1 p b0 b1 b2 b3 s)
  then have "\<not> 128 \<le> b0" "\<not> 128 \<le> b1" "\<not> 128 \<le> b2" "\<not> 128 \<le> b3" "list_all (\<lambda>c. c < 128) s" by (simp_all add: not_le)
  then show ?case using 1(1) by (auto simp: suffix_at_def)
qed simp_all

text \<open>A group is put together again.\<close>

lemma cmove_group:
  fixes a b c :: "8 word"
  shows "cmove_bits (drop_bit 2 a AND 0x3f) 2 0 + cmove_bits (push_bit 4 (a AND 3) OR drop_bit 4 b) 0 4 = a"
    "cmove_bits (drop_bit 2 a AND 0x3f) 2 0 + cmove_bits (push_bit 4 (a AND 3)) 0 4 = a"
    "cmove_bits (push_bit 4 (a AND 3) OR drop_bit 4 b) 4 0 + cmove_bits (push_bit 2 (b AND 0x0f) OR drop_bit 6 c) 0 2 = b"
    "cmove_bits (push_bit 4 (a AND 3) OR drop_bit 4 b) 4 0 + cmove_bits (push_bit 2 (b AND 0x0f)) 0 2 = b"
    "cmove_bits (push_bit 2 (b AND 0x0f) OR drop_bit 6 c) 6 0 + (c AND 0x3f) = c"
proof -
  have m: "(0x3f :: 8 word) = mask 6" "(3 :: 8 word) = mask 2" "(0x0f :: 8 word) = mask 4" by (simp_all add: mask_eq_exp_minus_1)
  show "cmove_bits (drop_bit 2 a AND 0x3f) 2 0 + cmove_bits (push_bit 4 (a AND 3) OR drop_bit 4 b) 0 4 = a"
    unfolding cmove_bits_def by (subst add_or, (force simp: m bit_simps byte_no_bit), rule byte_eqI; simp add: bit_simps byte_no_bit)
  show "cmove_bits (drop_bit 2 a AND 0x3f) 2 0 + cmove_bits (push_bit 4 (a AND 3)) 0 4 = a"
    unfolding cmove_bits_def by (subst add_or, (force simp: m bit_simps byte_no_bit), rule byte_eqI; simp add: bit_simps byte_no_bit)
  show "cmove_bits (push_bit 4 (a AND 3) OR drop_bit 4 b) 4 0 + cmove_bits (push_bit 2 (b AND 0x0f) OR drop_bit 6 c) 0 2 = b"
    unfolding cmove_bits_def by (subst add_or, (force simp: m bit_simps byte_no_bit), rule byte_eqI; simp add: bit_simps byte_no_bit)
  show "cmove_bits (push_bit 4 (a AND 3) OR drop_bit 4 b) 4 0 + cmove_bits (push_bit 2 (b AND 0x0f)) 0 2 = b"
    unfolding cmove_bits_def by (subst add_or, (force simp: m bit_simps byte_no_bit), rule byte_eqI; simp add: bit_simps byte_no_bit)
  show "cmove_bits (push_bit 2 (b AND 0x0f) OR drop_bit 6 c) 6 0 + (c AND 0x3f) = c"
    unfolding cmove_bits_def by (subst add_or, (force simp: m bit_simps byte_no_bit), rule byte_eqI; simp add: bit_simps byte_no_bit)
qed

definition pad_of :: "nat \<Rightarrow> nat" where
  "pad_of n = (if n mod 3 = 0 then 0 else 3 - n mod 3)"

lemma pad_of_3: "pad_of (n + 3) = pad_of n"
  by (simp add: pad_of_def)

lemma encode_group3:
  obtains k1 k2 k3 k4 where
    "\<And>s. encode_base64_internal encode_basis64 True (a # b # c # s) =
       [basis_at encode_basis64 k1, basis_at encode_basis64 k2, basis_at encode_basis64 k3, basis_at encode_basis64 k4] @
       encode_base64_internal encode_basis64 True s"
    "k1 < 64" "k2 < 64" "k3 < 64" "k4 < 64" "cmove_bits k1 2 0 + cmove_bits k2 0 4 = a"
    "cmove_bits k2 4 0 + cmove_bits k3 0 2 = b" "cmove_bits k3 6 0 + k4 = c"
proof
  let ?k1 = "drop_bit 2 a AND 0x3f" let ?k2 = "push_bit 4 (a AND 3) OR drop_bit 4 b"
  let ?k3 = "push_bit 2 (b AND 0x0f) OR drop_bit 6 c" let ?k4 = "c AND 0x3f"
  show "encode_base64_internal encode_basis64 True (a # b # c # s) =
       [basis_at encode_basis64 ?k1, basis_at encode_basis64 ?k2, basis_at encode_basis64 ?k3, basis_at encode_basis64 ?k4] @
       encode_base64_internal encode_basis64 True s" for s by (rule encode_base64_internal.simps)
  show "?k1 < 64" "?k2 < 64" "?k3 < 64" "?k4 < 64" by (rule sextets)+
  show "cmove_bits ?k1 2 0 + cmove_bits ?k2 0 4 = a" "cmove_bits ?k2 4 0 + cmove_bits ?k3 0 2 = b"
    "cmove_bits ?k3 6 0 + ?k4 = c" by (rule cmove_group)+
qed

lemma encode_group2:
  obtains k1 k2 k3 where
    "encode_base64_internal encode_basis64 True [a, b] =
       [basis_at encode_basis64 k1, basis_at encode_basis64 k2, basis_at encode_basis64 k3, BASE64_PAD64]"
    "k1 < 64" "k2 < 64" "k3 < 64" "cmove_bits k1 2 0 + cmove_bits k2 0 4 = a" "cmove_bits k2 4 0 + cmove_bits k3 0 2 = b"
proof
  let ?k1 = "drop_bit 2 a AND 0x3f" let ?k2 = "push_bit 4 (a AND 3) OR drop_bit 4 b" let ?k3 = "push_bit 2 (b AND 0x0f)"
  show "encode_base64_internal encode_basis64 True [a, b] =
       [basis_at encode_basis64 ?k1, basis_at encode_basis64 ?k2, basis_at encode_basis64 ?k3, BASE64_PAD64]" by simp
  show "?k1 < 64" "?k2 < 64" "?k3 < 64" by (rule sextets)+
  show "cmove_bits ?k1 2 0 + cmove_bits ?k2 0 4 = a" "cmove_bits ?k2 4 0 + cmove_bits ?k3 0 2 = b" by (rule cmove_group)+
qed

lemma encode_group1:
  obtains k1 k2 where
    "encode_base64_internal encode_basis64 True [a] =
       [basis_at encode_basis64 k1, basis_at encode_basis64 k2, BASE64_PAD64, BASE64_PAD64]"
    "k1 < 64" "k2 < 64" "cmove_bits k1 2 0 + cmove_bits k2 0 4 = a"
proof
  let ?k1 = "drop_bit 2 a AND 0x3f" let ?k2 = "push_bit 4 (a AND 3)"
  show "encode_base64_internal encode_basis64 True [a] =
       [basis_at encode_basis64 ?k1, basis_at encode_basis64 ?k2, BASE64_PAD64, BASE64_PAD64]" by simp
  show "?k1 < 64" "?k2 < 64" by (rule sextets)+
  show "cmove_bits ?k1 2 0 + cmove_bits ?k2 0 4 = a" by (rule cmove_group)+
qed

lemma encode_not_Nil: "s \<noteq> [] \<Longrightarrow> encode_base64_internal basis True s \<noteq> []"
  by (induction basis True s rule: encode_base64_internal.induct) auto

text \<open>What is written for a text is made of whole groups, ends in its padding, and is put together again.\<close>

definition decodes_to :: "bytes \<Rightarrow> bytes \<Rightarrow> bool" where
  "decodes_to e s \<longleftrightarrow> base64_ungroups (pad_of (length s)) e = Some s \<and> length e mod 4 = 0 \<and> list_all (\<lambda>c. c < 128) e \<and>
     (\<exists>u x y. e = u @ [x, y] \<and>
        (pad_of (length s) = 0 \<and> y \<noteq> BASE64_PAD64 \<or> pad_of (length s) = 1 \<and> y = BASE64_PAD64 \<and> x \<noteq> BASE64_PAD64 \<or>
         pad_of (length s) = 2 \<and> y = BASE64_PAD64 \<and> x = BASE64_PAD64))"

lemma suffix_less: "suffix_at c = Some k \<Longrightarrow> c < 128"
  by (simp add: suffix_at_def not_le split: if_splits)

lemma encoded_decodes: "s \<noteq> [] \<Longrightarrow> decodes_to (encode_base64_internal encode_basis64 True s) s"
proof (induction "encode_basis64" True s rule: encode_base64_internal.induct)
  case (1 a b c s)
  obtain k1 k2 k3 k4 where e: "\<And>s. encode_base64_internal encode_basis64 True (a # b # c # s) =
       [basis_at encode_basis64 k1, basis_at encode_basis64 k2, basis_at encode_basis64 k3, basis_at encode_basis64 k4] @
       encode_base64_internal encode_basis64 True s"
    and k: "k1 < 64" "k2 < 64" "k3 < 64" "k4 < 64"
    and g: "cmove_bits k1 2 0 + cmove_bits k2 0 4 = a" "cmove_bits k2 4 0 + cmove_bits k3 0 2 = b" "cmove_bits k3 6 0 + k4 = c"
    by (rule encode_group3 [of a b c]) blast
  have p: "pad_of (length (a # b # c # s)) = pad_of (length s)" using pad_of_3 [of "length s"] by (simp add: numeral_3_eq_3)
  note cs = suffix_char [OF k(1)] suffix_char [OF k(2)] suffix_char [OF k(3)] suffix_char [OF k(4)]
  note less = cs(1,3,5,7) [THEN suffix_less]
  show ?case
  proof (cases "s = []")
    case True
    have "pad_of (length [a, b, c]) = 0" by (simp add: pad_of_def)
    moreover have "\<exists>u x y. [basis_at encode_basis64 k1, basis_at encode_basis64 k2, basis_at encode_basis64 k3, basis_at encode_basis64 k4] =
        u @ [x, y] \<and> y \<noteq> BASE64_PAD64" using cs(8) by (intro exI [of _ "[basis_at encode_basis64 k1, basis_at encode_basis64 k2]"] exI) simp
    ultimately show ?thesis unfolding decodes_to_def e True by (simp add: cs g less)
  next
    case False
    have ih: "decodes_to (encode_base64_internal encode_basis64 True s) s" using 1(1) [OF False] .
    let ?e = "encode_base64_internal encode_basis64 True s"
    let ?g = "[basis_at encode_basis64 k1, basis_at encode_basis64 k2, basis_at encode_basis64 k3, basis_at encode_basis64 k4]"
    have "?e \<noteq> []" by (rule encode_not_Nil [OF False])
    moreover obtain u x y where u: "?e = u @ [x, y]" "(pad_of (length s) = 0 \<and> y \<noteq> BASE64_PAD64 \<or>
        pad_of (length s) = 1 \<and> y = BASE64_PAD64 \<and> x \<noteq> BASE64_PAD64 \<or> pad_of (length s) = 2 \<and> y = BASE64_PAD64 \<and> x = BASE64_PAD64)"
      using ih unfolding decodes_to_def by blast
    have "?g @ ?e = (?g @ u) @ [x, y]" using u(1) by simp
    then have "\<exists>u x y. ?g @ ?e = u @ [x, y] \<and> (pad_of (length s) = 0 \<and> y \<noteq> BASE64_PAD64 \<or>
        pad_of (length s) = 1 \<and> y = BASE64_PAD64 \<and> x \<noteq> BASE64_PAD64 \<or> pad_of (length s) = 2 \<and> y = BASE64_PAD64 \<and> x = BASE64_PAD64)"
      using u(2) by blast
    moreover have "length (?g @ ?e) mod 4 = 0" "list_all (\<lambda>c. c < 128) (?g @ ?e)" "base64_ungroups (pad_of (length s)) ?e = Some s"
      using ih less unfolding decodes_to_def by simp_all
    ultimately show ?thesis unfolding decodes_to_def e p by (simp add: cs g)
  qed
next
  case (2 a b)
  obtain k1 k2 k3 where e: "encode_base64_internal encode_basis64 True [a, b] =
       [basis_at encode_basis64 k1, basis_at encode_basis64 k2, basis_at encode_basis64 k3, BASE64_PAD64]"
    and k: "k1 < 64" "k2 < 64" "k3 < 64"
    and g: "cmove_bits k1 2 0 + cmove_bits k2 0 4 = a" "cmove_bits k2 4 0 + cmove_bits k3 0 2 = b"
    by (rule encode_group2)
  note cs = suffix_char [OF k(1)] suffix_char [OF k(2)] suffix_char [OF k(3)]
  have "pad_of (length [a, b]) = 1" by (simp add: pad_of_def)
  moreover have "\<exists>u x y. [basis_at encode_basis64 k1, basis_at encode_basis64 k2, basis_at encode_basis64 k3, BASE64_PAD64] =
      u @ [x, y] \<and> y = BASE64_PAD64 \<and> x \<noteq> BASE64_PAD64"
    using cs(6) by (intro exI [of _ "[basis_at encode_basis64 k1, basis_at encode_basis64 k2]"] exI) simp
  ultimately show ?case unfolding decodes_to_def e by (simp add: cs g suffix_less [OF cs(1)] suffix_less [OF cs(3)] suffix_less [OF cs(5)])
next
  case (3 a)
  obtain k1 k2 where e: "encode_base64_internal encode_basis64 True [a] =
       [basis_at encode_basis64 k1, basis_at encode_basis64 k2, BASE64_PAD64, BASE64_PAD64]"
    and k: "k1 < 64" "k2 < 64" and g: "cmove_bits k1 2 0 + cmove_bits k2 0 4 = a"
    by (rule encode_group1)
  note cs = suffix_char [OF k(1)] suffix_char [OF k(2)]
  have "pad_of (length [a]) = 2" by (simp add: pad_of_def)
  moreover have "\<exists>u x y. [basis_at encode_basis64 k1, basis_at encode_basis64 k2, BASE64_PAD64, BASE64_PAD64] =
      u @ [x, y] \<and> y = BASE64_PAD64 \<and> x = BASE64_PAD64"
    by (intro exI [of _ "[basis_at encode_basis64 k1, basis_at encode_basis64 k2]"] exI) simp
  ultimately show ?case unfolding decodes_to_def e by (simp add: cs g suffix_less [OF cs(1)] suffix_less [OF cs(3)])
qed simp

lemma padnum_decodes: "decodes_to e s \<Longrightarrow> base64_padnum e = pad_of (length s)"
  unfolding decodes_to_def base64_padnum_def Let_def by (auto simp: nth_append)

text \<open>
  C39.  The encoder of BidCore writes the same text as the encoder of the price library, for every data but
  the empty, for which it returns null; the decoder gives the data back.  The test for characters
  that are not in the alphabet compares a signed \<^verbatim>\<open>char\<close> with 255 and never fires: every ASCII text of whole groups is
  decoded to something.
\<close>

lemma base64_two_codes:
  assumes "s \<noteq> []" "t \<noteq> []" "list_all (\<lambda>c. c < 128) t" "length t mod 4 = 0" "length u mod 4 \<noteq> 0"
  shows "base64_encode_lib True s = Some (encode_base64 s) \<and> base64_encode_lib True [] = None \<and>
    base64_decode_lib True (encode_base64 s) = Some (Some s) \<and> base64_decode_lib True [] = Some None \<and>
    (\<exists>r. base64_decode_lib True t = Some (Some r)) \<and> base64_decode_lib True u = Some None"
proof (intro conjI)
  have d: "decodes_to (encode_base64 s) s" unfolding encode_base64_def by (rule encoded_decodes [OF assms(1)])
  then have "all_valid (encode_base64 s) = Some True" by (intro all_valid_ascii) (simp add: decodes_to_def)
  moreover have "encode_base64 s \<noteq> []" unfolding encode_base64_def by (rule encode_not_Nil [OF assms(1)])
  ultimately show "base64_decode_lib True (encode_base64 s) = Some (Some s)"
    using padnum_decodes [OF d] d unfolding base64_decode_lib_def decodes_to_def by simp
  show "\<exists>r. base64_decode_lib True t = Some (Some r)"
    using all_valid_ascii [OF assms(3)] ungroups_ascii [OF assms(3)] assms(2,4) unfolding base64_decode_lib_def by fastforce
qed (use assms in \<open>simp_all add: base64_encode_lib_def base64_decode_lib_def base64_groups_same\<close>)

lemma base64_two_codes_witness:
  "base64_encode_lib True [0x68, 0x69] = Some (encode_base64 [0x68, 0x69]) \<and>
   base64_decode_lib True (encode_base64 [0x68, 0x69]) = Some (Some [0x68, 0x69]) \<and>
   (\<exists>r. base64_decode_lib True [0x21, 0x21, 0x21, 0x21] = Some (Some r)) \<and> base64_decode_lib True [0x21] = Some None"
  using base64_two_codes [of "[0x68, 0x69]" "[0x21, 0x21, 0x21, 0x21]" "[0x21]"] by simp

end
