(* ===== verification/Bid_Pack.thy ===== *)
theory Bid_Pack
  imports Bid_Message "HOL-Library.Multiset"
begin

text \<open>
  What packing the kinds of fields of \<^verbatim>\<open>ngx_baidu_proto.c\<close> writes, in the form of \<open>slot_packs\<close>, and the code
  that messages with extensions have in addition: the extension \<open>ad_status\<close> is the one the file declares.
\<close>

section \<open>Packing\<close>

lemma long_packs:
  assumes "long_slot has v = Some vs"
  shows "slot_packs m0 R (Some (size_long has v fnum)) (pack_long has v fnum) fnum vs"
  using assms fuint64.size_enc [of v fnum] fuint64.emit_enc [of _ v fnum]
  by (auto simp: slot_packs_def long_slot_def size_long_def packs_def pack_long_def)

text \<open>Writing an array is writing its elements one after the other.\<close>

lemma emit_each_Cons:
  "emit ctx (\<lambda>m p. write_each wr m p (v # vs)) = do { ctx \<leftarrow> emit ctx (\<lambda>m p. wr m p v); emit ctx (\<lambda>m p. write_each wr m p vs) }"
  by (cases "wr (mem (cstate ctx)) (cpos ctx) v") (auto simp: emit_def split: Option.bind_splits)

lemma emit_each_Nil: "emit ctx (\<lambda>m p. write_each wr m p []) = Some ctx"
  by (simp add: emit_def)

lemma array_packs:
  assumes "\<And>v. v \<in> set xs \<Longrightarrow> size_elt v fnum = length (enc_val fnum (w v))"
    "\<And>v. v \<in> set xs \<Longrightarrow> packs m0 R (\<lambda>ctx :: 'm ngx_protobuf_context_t. emit ctx (\<lambda>m p. wr m p v fnum)) (enc_val fnum (w v))"
  shows "slot_packs m0 R (Some (size_array size_elt True (Some xs) fnum))
    (pack_array wr True (Some xs) fnum :: 'm ngx_protobuf_context_t \<Rightarrow> _) fnum (map w xs)"
proof -
  have "packs m0 R (\<lambda>ctx :: 'm ngx_protobuf_context_t. emit ctx (\<lambda>m p. write_each (\<lambda>m p v. wr m p v fnum) m p xs)) (enc_vals fnum (map w xs))"
    using assms(2)
  proof (induction xs)
    case Nil
    show ?case by (simp add: emit_each_Nil packs_def del: write_each.simps)
  next
    case (Cons v vs)
    have "packs m0 R (\<lambda>ctx :: 'm ngx_protobuf_context_t. do { ctx \<leftarrow> emit ctx (\<lambda>m p. wr m p v fnum);
        emit ctx (\<lambda>m p. write_each (\<lambda>m p v. wr m p v fnum) m p vs) }) (enc_val fnum (w v) @ enc_vals fnum (map w vs))"
      by (rule packs_seq [OF Cons.prems Cons.IH]) (use Cons.prems in simp_all)
    then show ?case by (simp add: emit_each_Cons del: write_each.simps)
  qed
  moreover have "sum_list (map (\<lambda>v. size_elt v fnum) xs) = length (enc_vals fnum (map w xs))"
    using assms(1) by (induction xs) auto
  ultimately show ?thesis by (simp add: slot_packs_def size_array_def pack_array_def packs_def)
qed

lemma empty_array_packs: "has = False \<or> a = None \<Longrightarrow>
  slot_packs m0 R (Some (size_array size_elt has a fnum)) (pack_array wr has a fnum) fnum []"
  by (cases a) (auto simp: slot_packs_def size_array_def pack_array_def packs_def)

lemma nums_packs:
  assumes "nums_slot WNum has a = Some vs"
  shows "slot_packs m0 R (Some (size_array ngx_protobuf_size_uint32_field has a fnum))
    (pack_array ngx_protobuf_write_uint32_field has a fnum) fnum vs"
proof (cases "has = False \<or> a = None")
  case True
  then show ?thesis using assms empty_array_packs [OF True] by (auto simp: nums_slot_def split: option.splits)
next
  case False
  then obtain xs where xs: "a = Some xs" "has" by auto
  have "slot_packs m0 R (Some (size_array ngx_protobuf_size_uint32_field True (Some xs) fnum))
    (pack_array ngx_protobuf_write_uint32_field True (Some xs) fnum) fnum (map WNum xs)"
    by (rule array_packs) (simp_all add: packs_def fuint32.emit_enc fuint32.size_enc)
  then show ?thesis using assms xs by (simp add: nums_slot_def)
qed

lemma those_map_Some: "those (map f xs) = Some ys \<Longrightarrow> ys = map (\<lambda>x. the (f x)) xs \<and> (\<forall>x \<in> set xs. f x \<noteq> None)"
  by (induction xs arbitrary: ys) (auto split: option.splits)

lemma strs_packs:
  assumes "strs_slot m0 has a = Some vs" "\<And>xs s. a = Some xs \<Longrightarrow> has \<Longrightarrow> s \<in> set xs \<Longrightarrow> outside R s"
  shows "slot_packs m0 R (Some (size_array ngx_protobuf_size_string_field has a fnum))
    (pack_array ngx_protobuf_write_string_field has a fnum) fnum vs"
proof (cases "has = False \<or> a = None")
  case True
  then show ?thesis using assms empty_array_packs [OF True] by (auto simp: strs_slot_def split: option.splits)
next
  case False
  then obtain xs where xs: "a = Some xs" "has" by auto
  have t: "those (map (\<lambda>s. map_option WStr (str_bytes m0 s)) xs) = Some vs" using assms(1) xs by (simp add: strs_slot_def)
  define w where "w s = WStr (the (str_bytes m0 s))" for s
  have s: "str_bytes m0 v = Some (the (str_bytes m0 v))" if "v \<in> set xs" for v
    using those_map_Some [OF t] that by auto
  have v: "vs = map w xs" using those_map_Some [OF t] s by (auto simp: w_def intro!: map_cong)
  have "slot_packs m0 R (Some (size_array ngx_protobuf_size_string_field True (Some xs) fnum))
    (pack_array ngx_protobuf_write_string_field True (Some xs) fnum) fnum (map w xs)"
  proof (rule array_packs)
    fix x assume x: "x \<in> set xs"
    show "ngx_protobuf_size_string_field x fnum = length (enc_val fnum (w x))"
      using size_string_field s [OF x] by (simp add: w_def)
    show "packs m0 R (\<lambda>ctx. emit ctx (\<lambda>m p. ngx_protobuf_write_string_field m p x fnum)) (enc_val fnum (w x))"
      unfolding packs_def w_def enc_val_simps by (intro allI impI emit_string_field [OF s [OF x] assms(2) [OF xs x]])
  qed
  then show ?thesis by (simp add: xs v)
qed

text \<open>The strings of an array, and sizes that are added up in another order than the fields are written in.\<close>

definition strs_refs :: "bool \<Rightarrow> ngx_str_t list option \<Rightarrow> ngx_str_t list" where
  "strs_refs has a = (case a of None \<Rightarrow> [] | Some xs \<Rightarrow> if has then xs else [])"

lemma apart_strs_refs [simp]: "apart R (strs_refs has a) \<longleftrightarrow> (\<forall>xs. a = Some xs \<longrightarrow> has \<longrightarrow> (\<forall>s \<in> set xs. outside R s))"
  by (auto simp: apart_def strs_refs_def split: option.splits)

lemma size_chain_sum: "size_chain ns = (if None \<in> set ns then None else Some (sum_mset (image_mset the (mset ns))))"
  by (induction ns) auto

lemma size_message_order:
  assumes "mset ns = mset ms"
  shows "size_message ns us = size_message ms us"
proof -
  have "set ns = set ms" using assms by (rule mset_eq_setD)
  then show ?thesis using assms by (simp add: size_message_def size_chain_sum)
qed

section \<open>Extensions: model\<close>

definition size_extended :: "(unit, 'm) extensions option \<Rightarrow> nat option" where
  "size_extended exts = (if exts = None then Some 0 else ngx_protobuf_size_extensions exts)"

text \<open>The functions \<^verbatim>\<open>__pack\<close> and the default case of \<^verbatim>\<open>__unpack\<close> of a message with extensions.\<close>

definition pack_extended_message ::
    "'m pb_env \<Rightarrow> nat option \<Rightarrow> ('m ngx_protobuf_context_t \<Rightarrow> 'm ngx_protobuf_context_t option) list \<Rightarrow> (unit, 'm) extensions option \<Rightarrow>
      unknowns \<Rightarrow> 'm ngx_protobuf_context_t \<Rightarrow> ('m ngx_protobuf_context_t \<times> ngx_int_t) option" where
  "pack_extended_message env sz steps exts us ctx = do {
     n \<leftarrow> sz;
     if n = 0 then Some (ctx, NGX_OK)
     else if cpos ctx + of_nat n > clast ctx then Some (ctx, NGX_ABORT)
     else do {
       ctx \<leftarrow> pack_chain steps ctx;
       (ctx, rc) \<leftarrow> (if exts = None then Some (ctx, NGX_OK) else ngx_protobuf_pack_extensions env exts 100 200 ctx);
       if rc \<noteq> NGX_OK then Some (ctx, rc) else pack_unknowns us ctx } }"

definition unpack_extended ::
    "'m pb_env \<Rightarrow> (unit, 'm) registry option \<Rightarrow> 32 word \<Rightarrow> 32 word \<Rightarrow> ('x \<Rightarrow> (unit, 'm) extensions option) \<Rightarrow>
      ((unit, 'm) extensions option \<Rightarrow> 'x \<Rightarrow> 'x) \<Rightarrow> ('x \<Rightarrow> unknowns) \<Rightarrow> (unknowns \<Rightarrow> 'x \<Rightarrow> 'x) \<Rightarrow> 'x \<Rightarrow> 'm ngx_protobuf_context_t \<Rightarrow> ('x, 'm) unpacked" where
  "unpack_extended env reg field wire get_ext upd_ext get upd obj ctx = do {
     (ctx, exts, rc) \<leftarrow> ngx_protobuf_unpack_extension env field wire ctx reg (get_ext obj);
     let obj = upd_ext exts obj;
     if rc \<noteq> NGX_OK then
       if rc = NGX_DECLINED then unpack_unknown env field wire get upd obj ctx
       else Some (obj, ctx, rc)
     else Some (obj, ctx, NGX_OK) }"

text \<open>The descriptor of the extension; it has no functions.\<close>

definition ngx_bid_response_ad_ad_status :: "(unit, 'm) ngx_protobuf_field_descriptor_t" where
  "ngx_bid_response_ad_ad_status =
     \<lparr>dnumber = 101, dwire_type = WIRE_VARINT, dlabel = LABEL_OPTIONAL, dtype = TYPE_INT32, dwidth = 4, dpacked = False,
      dpack = (\<lambda>_ _. None), dunpack = (\<lambda>_ _. None), dsize = (\<lambda>_. None), dzero = ()\<rparr>"

definition ngx_bid_response_ad__import_extension ::
    "'m pb_env \<Rightarrow> 'm pstate \<Rightarrow> (unit, 'm) registry option \<Rightarrow> (unit, 'm) ngx_protobuf_field_descriptor_t \<Rightarrow>
      ('m pstate \<times> (unit, 'm) registry option \<times> ngx_int_t) option" where
  "ngx_bid_response_ad__import_extension env s extensions desc = ngx_protobuf_import_extension env s extensions desc"

definition ngx_baidu_proto__register_extensions ::
    "'m pb_env \<Rightarrow> 'm pstate \<Rightarrow> (unit, 'm) registry option \<Rightarrow> ('m pstate \<times> (unit, 'm) registry option \<times> ngx_int_t) option" where
  "ngx_baidu_proto__register_extensions env s extensions = do {
     (s, extensions, rc) \<leftarrow> ngx_bid_response_ad__import_extension env s extensions ngx_bid_response_ad_ad_status;
     Some (s, extensions, if rc \<noteq> NGX_OK then NGX_ERROR else NGX_OK) }"

text \<open>A lookup in a registry that is a null pointer follows it.\<close>

definition ngx_bid_response_ad__set_extension ::
    "'m pb_env \<Rightarrow> 'm pstate \<Rightarrow> (unit, 'm) registry option \<Rightarrow> (unit, 'm) extensions option \<Rightarrow> 32 word \<Rightarrow> unit ngx_protobuf_value_t option \<Rightarrow>
      ('m pstate \<times> (unit, 'm) extensions option \<times> ngx_int_t) option" where
  "ngx_bid_response_ad__set_extension env s registry extensions field val = do {
     reg \<leftarrow> registry; ngx_protobuf_set_extension env s extensions reg field val }"

definition ngx_bid_response_ad__add_extension ::
    "'m pb_env \<Rightarrow> 'm pstate \<Rightarrow> (unit, 'm) registry option \<Rightarrow> (unit, 'm) extensions option \<Rightarrow> 32 word \<Rightarrow> bool \<Rightarrow>
      ('m pstate \<times> (unit, 'm) extensions option \<times> unit pb_union option) option" where
  "ngx_bid_response_ad__add_extension env s registry extensions field pool = do {
     reg \<leftarrow> registry;
     (s, extensions, val, rc) \<leftarrow> ngx_protobuf_add_extension env s extensions reg field pool;
     Some (s, extensions, val) }"

section \<open>Extensions: what is stored, written and read\<close>

definition status_field :: "32 word \<Rightarrow> (unit, 'm) ngx_protobuf_extension_field_t" where
  "status_field v = \<lparr>xdescriptor = Some ngx_bid_response_ad_ad_status,
     xvalue = \<lparr>vtype = Some TYPE_INT32, vexists = True, vu = U_32 v\<rparr>\<rparr>"

definition status_tree :: "32 word \<Rightarrow> (unit, 'm) extensions" where
  "status_tree v = Node Black Sentinel 101 (status_field v) Sentinel"

text \<open>The contents of the extensions: none, or the status alone.\<close>

definition status_slot :: "(unit, 'm) extensions option \<Rightarrow> wval list option" where
  "status_slot exts =
     (case exts of None \<Rightarrow> Some []
      | Some (Node _ _ _ f _) \<Rightarrow>
        (case vu (xvalue f) of U_32 v \<Rightarrow> if exts = Some (status_tree v) then Some [WNum v] else None | _ \<Rightarrow> None)
      | Some Sentinel \<Rightarrow> None)"

lemma status_slot_simps [simp]: "status_slot None = Some []" "status_slot (Some (status_tree v)) = Some [WNum v]"
  by (simp_all add: status_slot_def status_tree_def status_field_def)

lemma status_slot_Some: "status_slot exts = Some vs \<longleftrightarrow> exts = None \<and> vs = [] \<or> (\<exists>v. exts = Some (status_tree v) \<and> vs = [WNum v])"
  by (auto simp: status_slot_def status_tree_def status_field_def split: option.splits ngx_rbtree_node_t.splits pb_union.splits if_splits)

lemma size_status: "ngx_protobuf_size_extensions (Some (status_tree v)) = Some (length (enc_val 101 (WNum v)))"
  by (simp add: ngx_protobuf_size_extensions_def ngx_protobuf_rbtree_iterate_def status_tree_def status_field_def
      ngx_protobuf_size_extension_def ngx_protobuf_single_field_size_def ngx_bid_response_ad_ad_status_def as_u32_def fuint32.size_enc)

lemma pack_status:
  assumes "frame_ok m0 R ctx" "room R ctx (length (enc_val 101 (WNum v)))"
  shows "ngx_protobuf_pack_extensions env (Some (status_tree v)) 100 200 ctx =
    map_option (\<lambda>ctx. (ctx, NGX_OK)) (ngx_writes ctx (enc_val 101 (WNum v)))"
proof -
  let ?n = "length (enc_val 101 (WNum v))"
  have n: "ngx_protobuf_size_uint32_field v 101 = ?n" by (simp add: fuint32.size_enc)
  have r: "unat (cpos ctx) + ?n \<le> unat (clast ctx)" using assms(2) by (simp add: room_def)
  have "\<not> cpos ctx + of_nat ?n > clast ctx" using unat_plus [OF r] r by (simp add: word_less_nat_alt)
  then have "ngx_protobuf_pack_extension env (status_field v) ctx = map_option (\<lambda>ctx. (ctx, NGX_OK)) (ngx_writes ctx (enc_val 101 (WNum v)))"
    using fuint32.emit_enc [of ctx v 101]
    by (cases "ngx_writes ctx (enc_val 101 (WNum v))")
      (simp_all add: ngx_protobuf_pack_extension_def status_field_def ngx_protobuf_size_extension_def ngx_protobuf_single_field_size_def
        ngx_protobuf_pack_single_field_def ngx_bid_response_ad_ad_status_def as_u32_def n)
  then show ?thesis
    by (cases "ngx_writes ctx (enc_val 101 (WNum v))")
      (simp_all add: ngx_protobuf_pack_extensions_def ngx_protobuf_rbtree_iterate_def status_tree_def)
qed

text \<open>A message with extensions: its steps, then the status, then no unknown fields.\<close>

lemma enc_fields_snoc: "enc_fields (fs @ [(n, vs)]) = enc_fields fs @ enc_vals n vs"
  by (simp add: enc_fields_def)

lemma size_chain_snoc: "size_chain (ns @ [n]) = do { a \<leftarrow> size_chain ns; b \<leftarrow> n; Some (a + b) }"
  by (induction ns) (auto split: Option.bind_splits)

lemma size_status_slot: "status_slot exts = Some vs \<Longrightarrow> size_extended exts = Some (length (enc_vals 101 vs))"
  using size_status by (auto simp: status_slot_Some size_extended_def)

lemma pack_status_slot:
  assumes "status_slot exts = Some vs" "frame_ok m0 R ctx" "room R ctx (length (enc_vals 101 vs))"
  shows "(if exts = None then Some (ctx, NGX_OK) else ngx_protobuf_pack_extensions env exts 100 200 ctx) =
    map_option (\<lambda>ctx. (ctx, NGX_OK)) (ngx_writes ctx (enc_vals 101 vs))"
  using assms pack_status by (auto simp: status_slot_Some)

lemma message_packs_extended:
  assumes "sz x = size_message (ns @ [size_extended exts]) us"
    "\<And>ctx. pk x ctx = pack_extended_message env (sz x) steps exts us ctx" "plain us"
    "list_all2 (\<lambda>(n, f) (k, vs). slot_packs m0 R n f k vs) (zip ns steps) fs" "length ns = length steps"
    "status_slot exts = Some vs"
  shows "message_packs m0 R sz pk x (enc_fields (fs @ [(101, vs)]))"
  unfolding message_packs_def
proof (intro conjI allI impI)
  note chain = chain_packs [OF assms(4,5)] and unknown = plain_packs [OF assms(3)]
  let ?bs = "enc_fields (fs @ [(101, vs)])"
  show n: "sz x = Some (length ?bs)"
    by (simp add: assms(1) size_message_def size_chain_snoc chain(1) unknown(1) size_status_slot [OF assms(6)] enc_fields_snoc)
  fix ctx :: "'b ngx_protobuf_context_t"
  assume c: "frame_ok m0 R ctx" "room R ctx (length ?bs)"
  have r: "unat (cpos ctx) + length ?bs \<le> unat (clast ctx)" using c(2) by (simp add: room_def)
  have le: "\<not> cpos ctx + of_nat (length ?bs) > clast ctx" using unat_plus [OF r] r by (simp add: word_less_nat_alt)
  let ?g = "\<lambda>ctx. do { (ctx, rc) \<leftarrow> (if exts = None then Some (ctx, NGX_OK) else ngx_protobuf_pack_extensions env exts 100 200 ctx);
      if rc \<noteq> NGX_OK then Some (ctx, rc) else pack_unknowns us ctx }"
  have "do { ctx \<leftarrow> pack_chain steps ctx; ?g ctx } = map_option (\<lambda>ctx. (ctx, NGX_OK)) (ngx_writes ctx (enc_fields fs @ enc_vals 101 vs))"
  proof (rule packs_bind [OF chain(2) _ _ c(1)])
    show "?g ctx' = map_option (\<lambda>ctx. (ctx, NGX_OK)) (ngx_writes ctx' (enc_vals 101 vs))"
      if "frame_ok m0 R ctx'" "room R ctx' (length (enc_vals 101 vs))" for ctx'
      unfolding pack_status_slot [OF assms(6) that] by (cases "ngx_writes ctx' (enc_vals 101 vs)") (simp_all add: unknown(2))
  qed (use c(2) in \<open>simp_all add: enc_fields_snoc\<close>)
  then show "pk x ctx = map_option (\<lambda>ctx. (ctx, NGX_OK)) (ngx_writes ctx ?bs)"
    using le by (auto simp: assms(2) n pack_extended_message_def enc_fields_snoc)
qed

text \<open>A registry in which the status is found, and reading it.\<close>

definition registered :: "(unit, 'm) registry option \<Rightarrow> bool" where
  "registered reg \<longleftrightarrow> (\<exists>r. reg = Some r \<and> ngx_protobuf_find_node r 101 = Some (Some ngx_bid_response_ad_ad_status))"

lemma register_serves:
  assumes "pool_serves env"
  shows "\<exists>s' reg. ngx_baidu_proto__register_extensions env s None = Some (s', reg, NGX_OK) \<and> registered reg"
proof -
  obtain s1 d1 where 1: "e_palloc env s 40 = (s1, d1)" by fastforce
  obtain s2 d2 where 2: "e_palloc env s1 24 = (s2, d2)" by fastforce
  obtain s3 d3 where 3: "e_palloc env s2 48 = (s3, d3)" by fastforce
  show ?thesis
    using pool_servesD(1) [OF assms 1] pool_servesD(1) [OF assms 2] pool_servesD(1) [OF assms 3]
    by (simp add: ngx_baidu_proto__register_extensions_def ngx_bid_response_ad__import_extension_def ngx_protobuf_import_extension_def
        ngx_protobuf_init_rbtree_def ngx_protobuf_rbtree_node_def ngx_rbtree_insert_def ngx_bid_response_ad_ad_status_def registered_def 1 2 3)
qed

lemma new_node_serves:
  assumes "pool_serves env"
  shows "\<exists>s1 s2. ngx_protobuf_init_rbtree env s (None :: (unit, 'm) extensions option) = (s1, Some Sentinel, NGX_OK) \<and>
    ngx_protobuf_rbtree_node env s1 (Sentinel :: (unit, 'm) extensions) 101 80 zero_field =
      Some (s2, Node Black Sentinel 101 zero_field Sentinel, Some zero_field) \<and> mem s \<subseteq>\<^sub>m mem s2"
proof -
  obtain s1 d1 where 1: "e_palloc env s 40 = (s1, d1)" by fastforce
  obtain s2 d2 where 2: "e_palloc env s1 24 = (s2, d2)" by fastforce
  obtain s3 d3 where 3: "e_palloc env s2 80 = (s3, d3)" by fastforce
  note p = pool_servesD [OF assms 1] pool_servesD [OF assms 2] pool_servesD [OF assms 3]
  have "mem s \<subseteq>\<^sub>m mem s3" using p(2,4,6) by (blast intro: map_le_trans)
  then show ?thesis using p(1,3,5)
    by (intro exI [of _ s2] exI [of _ s3])
      (simp add: ngx_protobuf_init_rbtree_def ngx_protobuf_rbtree_node_def ngx_rbtree_insert_def 1 2 3)
qed

lemma unpack_status:
  assumes "pool_serves env" "registered reg" "holds ctx (varint v)"
  shows "\<exists>s. ngx_protobuf_unpack_extension env 101 WIRE_VARINT ctx reg None =
      Some (ctx\<lparr>cstate := s, cpos := cpos ctx + of_nat (length (varint v))\<rparr>, Some (status_tree v), NGX_OK) \<and>
    mem (cstate ctx) \<subseteq>\<^sub>m mem s"
proof -
  obtain r where r: "reg = Some r" "ngx_protobuf_find_node r 101 = Some (Some ngx_bid_response_ad_ad_status)"
    using assms(2) by (auto simp: registered_def)
  obtain s1 s2 where s: "ngx_protobuf_init_rbtree env (cstate ctx) (None :: (unit, 'a) extensions option) = (s1, Some Sentinel, NGX_OK)"
    "ngx_protobuf_rbtree_node env s1 (Sentinel :: (unit, 'a) extensions) 101 80 zero_field =
      Some (s2, Node Black Sentinel 101 zero_field Sentinel, Some zero_field)" "mem (cstate ctx) \<subseteq>\<^sub>m mem s2"
    using new_node_serves [OF assms(1)] by blast
  have l: "load (mem s2) (cpos ctx) (length (varint v)) = Some (varint v)" "unat (cpos ctx) + length (varint v) \<le> unat (clast ctx)" "has_pool ctx"
    using assms(3) load_mono [OF s(3)] by (auto simp: holds_def)
  have rd: "ngx_protobuf_read_uint32 (mem s2) (cpos ctx) (clast ctx) 0 = Some (cpos ctx + of_nat (length (varint v)), v, NGX_OK)"
    by (rule read_uint32_varint [OF l(1,2)])
  show ?thesis using s(3) l(3)
    by (intro exI [of _ s2])
      (simp add: ngx_protobuf_unpack_extension_def r s(1) s(2) [unfolded zero_field_def zero_value_def] unpack_unpacked_def ngx_protobuf_extension_field_def ngx_protobuf_unpack_extension_value_def
        ngx_bid_response_ad_ad_status_def unpack32_def as_u32_def rd zero_field_def zero_value_def put_field_def status_tree_def status_field_def)
qed

lemma status_step:
  assumes "status_slot exts = Some vs" "v \<in> set vs" "holds ctx (enc_body v)" "pool_serves env" "registered reg" "get_ext y = None"
    "\<And>m' w. mem (cstate ctx) \<subseteq>\<^sub>m m' \<Longrightarrow> content m' (upd_ext (Some (status_tree w)) y) = Some (grouped nums (ps @ [(101, WNum w)])) \<and>
      tidy (upd_ext (Some (status_tree w)) y)"
  shows "step_result content nums tidy ctx (unpack_extended env reg 101 (wire_type_of v) get_ext upd_ext get upd y ctx) ps 101 v"
proof -
  obtain w where v: "v = WNum w" using assms(1,2) by (auto simp: status_slot_Some)
  then have "holds ctx (varint w)" using assms(3) by simp
  from unpack_status [OF assms(4,5) this] obtain s where s: "ngx_protobuf_unpack_extension env 101 WIRE_VARINT ctx reg None =
      Some (ctx\<lparr>cstate := s, cpos := cpos ctx + of_nat (length (varint w))\<rparr>, Some (status_tree w), NGX_OK)"
    "mem (cstate ctx) \<subseteq>\<^sub>m mem s" by blast
  then show ?thesis using assms(6) assms(7) [OF s(2), of w]
    by (auto simp: step_result_def unpack_extended_def v wire_type_of_def intro!: exI [of _ s])
qed

end
