(* ===== verification/Bid_Response.thy ===== *)
theory Bid_Response
  imports Bid_Pack
begin

text \<open>
  The message \<^verbatim>\<open>BidResponse\<close> and what it holds, of \<^verbatim>\<open>ngx_baidu_proto.c\<close>: the records, one definition per
  function, what packing one writes, and that unpacking reads it back.  An \<^verbatim>\<open>Ad\<close> can have extensions;
  \<open>reg\<close> is their registry, a static variable of the C file.
\<close>

section \<open>\<^verbatim>\<open>BidResponse.Ad.LinkUnitKeyword\<close>\<close>

record ngx_bid_response_ad_link_unit_keyword_t =
  lk_keyword :: ngx_str_t
  lk_selected_style_type :: "32 word list option"
  lk_unknown :: unknowns
  lk_has_keyword :: bool
  lk_has_selected_style_type :: bool

text \<open>Cleared memory.\<close>

definition ngx_bid_response_ad_link_unit_keyword_zero :: "ngx_bid_response_ad_link_unit_keyword_t" where
  "ngx_bid_response_ad_link_unit_keyword_zero =
    \<lparr>lk_keyword = \<lparr>slen = 0, sdata = NULL\<rparr>, lk_selected_style_type = None, lk_unknown = None,
     lk_has_keyword = False, lk_has_selected_style_type = False\<rparr>"

definition ngx_bid_response_ad_link_unit_keyword__add__selected_style_type ::
    "'m pb_env \<Rightarrow> ngx_bid_response_ad_link_unit_keyword_t \<Rightarrow> 'm pstate \<Rightarrow> bool \<Rightarrow> 'm pstate \<times> ngx_bid_response_ad_link_unit_keyword_t \<times> bool" where
  "ngx_bid_response_ad_link_unit_keyword__add__selected_style_type env =
     add_element env 4 0 lk_selected_style_type (\<lambda>v obj. obj\<lparr>lk_selected_style_type := v\<rparr>) (\<lambda>obj. obj\<lparr>lk_has_selected_style_type := True\<rparr>)"

text \<open>The switch of \<^verbatim>\<open>__unpack\<close>, then its loop.\<close>

definition ngx_bid_response_ad_link_unit_keyword_case ::
    "'m pb_env \<Rightarrow> 32 word \<Rightarrow> 32 word \<Rightarrow> ngx_bid_response_ad_link_unit_keyword_t \<Rightarrow> 'm ngx_protobuf_context_t \<Rightarrow> (ngx_bid_response_ad_link_unit_keyword_t, 'm) unpacked" where
  "ngx_bid_response_ad_link_unit_keyword_case env field wire obj ctx =
     (if field = 1 then unpack_str env wire lk_keyword (\<lambda>v obj. obj\<lparr>lk_keyword := v\<rparr>) (\<lambda>obj. obj\<lparr>lk_has_keyword := True\<rparr>) obj ctx
     else if field = 2 then unpack_array env WIRE_VARINT read_num wire (ngx_bid_response_ad_link_unit_keyword__add__selected_style_type env) lk_selected_style_type (\<lambda>v obj. obj\<lparr>lk_selected_style_type := v\<rparr>) (\<lambda>obj. obj\<lparr>lk_has_selected_style_type := True\<rparr>) obj ctx
     else unpack_unknown env field wire lk_unknown (\<lambda>v obj. obj\<lparr>lk_unknown := v\<rparr>) obj ctx)"

definition ngx_bid_response_ad_link_unit_keyword__unpack ::
    "'m pb_env \<Rightarrow> ngx_bid_response_ad_link_unit_keyword_t \<Rightarrow> 'm ngx_protobuf_context_t \<Rightarrow> (ngx_bid_response_ad_link_unit_keyword_t, 'm) unpacked" where
  "ngx_bid_response_ad_link_unit_keyword__unpack env obj ctx = unpack_loop (ngx_bid_response_ad_link_unit_keyword_case env) (clast ctx) obj ctx"

definition ngx_bid_response_ad_link_unit_keyword__size :: "ngx_bid_response_ad_link_unit_keyword_t \<Rightarrow> nat option" where
  "ngx_bid_response_ad_link_unit_keyword__size obj = size_message
     [Some (size_str (lk_has_keyword obj) (lk_keyword obj) 1),
      Some (size_array ngx_protobuf_size_uint32_field (lk_has_selected_style_type obj) (lk_selected_style_type obj) 2)]
     (lk_unknown obj)"

definition ngx_bid_response_ad_link_unit_keyword__pack :: "(ngx_bid_response_ad_link_unit_keyword_t, 'm) packer" where
  "ngx_bid_response_ad_link_unit_keyword__pack obj ctx = pack_message (ngx_bid_response_ad_link_unit_keyword__size obj)
     [pack_str (lk_has_keyword obj) (lk_keyword obj) 1,
      pack_array ngx_protobuf_write_uint32_field (lk_has_selected_style_type obj) (lk_selected_style_type obj) 2]
     (lk_unknown obj) ctx"

text \<open>The contents, and the strings that packing reads.\<close>

definition link_unit_keyword_content :: "memory \<Rightarrow> ngx_bid_response_ad_link_unit_keyword_t \<Rightarrow> (32 word \<times> wval list) list option" where
  "link_unit_keyword_content m obj = content_of (lk_unknown obj)
     [(1, str_slot m (lk_has_keyword obj) (lk_keyword obj)),
      (2, nums_slot WNum (lk_has_selected_style_type obj) (lk_selected_style_type obj))]"

definition link_unit_keyword_strings :: "ngx_bid_response_ad_link_unit_keyword_t \<Rightarrow> ngx_str_t list" where
  "link_unit_keyword_strings obj = str_refs (lk_has_keyword obj) (lk_keyword obj)"

lemma link_unit_keyword_packs:
  assumes "link_unit_keyword_content m0 x = Some fs" "apart R (link_unit_keyword_strings x)" "length (enc_fields fs) < 2 ^ 64"
  shows "message_packs m0 R ngx_bid_response_ad_link_unit_keyword__size ngx_bid_response_ad_link_unit_keyword__pack x (enc_fields fs)"
  by (rule message_packs_chain [where sz = ngx_bid_response_ad_link_unit_keyword__size and pk = "ngx_bid_response_ad_link_unit_keyword__pack", OF ngx_bid_response_ad_link_unit_keyword__size_def ngx_bid_response_ad_link_unit_keyword__pack_def])
    (use assms in \<open>auto simp: link_unit_keyword_content_def link_unit_keyword_strings_def intro!: str_packs nums_packs\<close>)

lemma link_unit_keyword_content_mono:
  assumes "link_unit_keyword_content m x = Some fs" "m \<subseteq>\<^sub>m m'"
  shows "link_unit_keyword_content m' x = Some fs"
  using assms str_slot_mono [OF _ assms(2)]
  by (auto simp: link_unit_keyword_content_def)

text \<open>Reading sets the flag with the array.\<close>

definition link_unit_keyword_tidy :: "ngx_bid_response_ad_link_unit_keyword_t \<Rightarrow> bool" where
  "link_unit_keyword_tidy obj \<longleftrightarrow> (lk_selected_style_type obj \<noteq> None \<longrightarrow> lk_has_selected_style_type obj)"

lemma link_unit_keyword_step:
  assumes "pool_serves env" "link_unit_keyword_content m x = Some fs" "(n, vs) \<in> set fs" "v \<in> set vs" "solid v"
    "link_unit_keyword_content (mem (cstate ctx)) y = Some (grouped [1, 2] ps)" "link_unit_keyword_tidy y"
    "n = 2 \<or> values_of n ps = []" "holds ctx (enc_body v)"
  shows "step_result link_unit_keyword_content [1, 2] link_unit_keyword_tidy ctx (ngx_bid_response_ad_link_unit_keyword_case env n (wire_type_of v) y ctx) ps n v"
proof -
  note y = link_unit_keyword_content_mono [OF assms(6), unfolded link_unit_keyword_content_def, simplified, simplified bind_eq_Some_conv, simplified]
  note y0 = y [OF map_le_refl]
  consider "n = 1" "str_slot m (lk_has_keyword x) (lk_keyword x) = Some vs"
    | "n = 2" "nums_slot WNum (lk_has_selected_style_type x) (lk_selected_style_type x) = Some vs"
    using assms(2,3) by (auto simp: link_unit_keyword_content_def)
  then show ?thesis
  proof cases
    case 1
    show ?thesis unfolding ngx_bid_response_ad_link_unit_keyword_case_def 1(1)
      by (simp, rule str_step [OF 1(2) assms(4) assms(9) assms(5)])
        (use y0 assms(8) 1(1) assms(7) in \<open>auto simp: link_unit_keyword_content_def link_unit_keyword_tidy_def split: option.splits\<close>)
  next
    case 2
    show ?thesis unfolding ngx_bid_response_ad_link_unit_keyword_case_def 2(1) ngx_bid_response_ad_link_unit_keyword__add__selected_style_type_def
      by (simp, rule nums_step [OF 2(2) assms(4) assms(9) assms(1)])
        (use y assms(8) 2(1) assms(7) in \<open>auto simp: link_unit_keyword_content_def link_unit_keyword_tidy_def member_laws_def nums_slot_snoc [where h = "lk_has_selected_style_type y" and a = "lk_selected_style_type y"] split: option.splits\<close>)
  qed
qed

interpretation link_unit_keyword: message_reader link_unit_keyword_content ngx_bid_response_ad_link_unit_keyword_zero "[1, 2]"
  "(\<lambda>n. n = 2)" env "ngx_bid_response_ad_link_unit_keyword_case env" "link_unit_keyword_tidy"
  for env :: "'m pb_env"
proof (unfold_locales, goal_cases)
  case 7
  then show ?case by (rule link_unit_keyword_content_mono)
next
  case 8
  show ?case by (rule link_unit_keyword_step) (use 8 in simp_all)
qed (auto simp: link_unit_keyword_content_def ngx_bid_response_ad_link_unit_keyword_zero_def link_unit_keyword_tidy_def intro: single_slots single_value_slots)

lemma link_unit_keyword_reads:
  assumes "pool_serves env" "link_unit_keyword_content m x = Some fs" "solid_fields fs"
  shows "message_reads link_unit_keyword_content ngx_bid_response_ad_link_unit_keyword_zero (ngx_bid_response_ad_link_unit_keyword__unpack env) fs"
  by (rule link_unit_keyword.unpack_reads [OF assms]) (simp add: ngx_bid_response_ad_link_unit_keyword__unpack_def)

section \<open>\<^verbatim>\<open>BidResponse.Ad.ExpandCreativeInfo\<close>\<close>

record ngx_bid_response_ad_expand_creative_info_t =
  ci_creative_width :: "32 word"
  ci_creative_height :: "32 word"
  ci_creative_landing_page :: ngx_str_t
  ci_creative_type :: "32 word"
  ci_unknown :: unknowns
  ci_has_creative_width :: bool
  ci_has_creative_height :: bool
  ci_has_creative_landing_page :: bool
  ci_has_creative_type :: bool

text \<open>Cleared memory.\<close>

definition ngx_bid_response_ad_expand_creative_info_zero :: "ngx_bid_response_ad_expand_creative_info_t" where
  "ngx_bid_response_ad_expand_creative_info_zero =
    \<lparr>ci_creative_width = 0, ci_creative_height = 0,
     ci_creative_landing_page = \<lparr>slen = 0, sdata = NULL\<rparr>, ci_creative_type = 0, ci_unknown = None,
     ci_has_creative_width = False, ci_has_creative_height = False, ci_has_creative_landing_page = False,
     ci_has_creative_type = False\<rparr>"

text \<open>The switch of \<^verbatim>\<open>__unpack\<close>, then its loop.\<close>

definition ngx_bid_response_ad_expand_creative_info_case ::
    "'m pb_env \<Rightarrow> 32 word \<Rightarrow> 32 word \<Rightarrow> ngx_bid_response_ad_expand_creative_info_t \<Rightarrow> 'm ngx_protobuf_context_t \<Rightarrow> (ngx_bid_response_ad_expand_creative_info_t, 'm) unpacked" where
  "ngx_bid_response_ad_expand_creative_info_case env field wire obj ctx =
     (if field = 1 then unpack_num env wire ci_creative_width (\<lambda>v obj. obj\<lparr>ci_creative_width := v\<rparr>) (\<lambda>obj. obj\<lparr>ci_has_creative_width := True\<rparr>) obj ctx
     else if field = 2 then unpack_num env wire ci_creative_height (\<lambda>v obj. obj\<lparr>ci_creative_height := v\<rparr>) (\<lambda>obj. obj\<lparr>ci_has_creative_height := True\<rparr>) obj ctx
     else if field = 3 then unpack_str env wire ci_creative_landing_page (\<lambda>v obj. obj\<lparr>ci_creative_landing_page := v\<rparr>) (\<lambda>obj. obj\<lparr>ci_has_creative_landing_page := True\<rparr>) obj ctx
     else if field = 4 then unpack_num env wire ci_creative_type (\<lambda>v obj. obj\<lparr>ci_creative_type := v\<rparr>) (\<lambda>obj. obj\<lparr>ci_has_creative_type := True\<rparr>) obj ctx
     else unpack_unknown env field wire ci_unknown (\<lambda>v obj. obj\<lparr>ci_unknown := v\<rparr>) obj ctx)"

definition ngx_bid_response_ad_expand_creative_info__unpack ::
    "'m pb_env \<Rightarrow> ngx_bid_response_ad_expand_creative_info_t \<Rightarrow> 'm ngx_protobuf_context_t \<Rightarrow> (ngx_bid_response_ad_expand_creative_info_t, 'm) unpacked" where
  "ngx_bid_response_ad_expand_creative_info__unpack env obj ctx = unpack_loop (ngx_bid_response_ad_expand_creative_info_case env) (clast ctx) obj ctx"

definition ngx_bid_response_ad_expand_creative_info__size :: "ngx_bid_response_ad_expand_creative_info_t \<Rightarrow> nat option" where
  "ngx_bid_response_ad_expand_creative_info__size obj = size_message
     [Some (size_number (ci_has_creative_width obj) (ci_creative_width obj) 1),
      Some (size_number (ci_has_creative_height obj) (ci_creative_height obj) 2),
      Some (size_str (ci_has_creative_landing_page obj) (ci_creative_landing_page obj) 3),
      Some (size_number (ci_has_creative_type obj) (ci_creative_type obj) 4)]
     (ci_unknown obj)"

definition ngx_bid_response_ad_expand_creative_info__pack :: "(ngx_bid_response_ad_expand_creative_info_t, 'm) packer" where
  "ngx_bid_response_ad_expand_creative_info__pack obj ctx = pack_message (ngx_bid_response_ad_expand_creative_info__size obj)
     [pack_num (ci_has_creative_width obj) (ci_creative_width obj) 1,
      pack_num (ci_has_creative_height obj) (ci_creative_height obj) 2,
      pack_str (ci_has_creative_landing_page obj) (ci_creative_landing_page obj) 3,
      pack_num (ci_has_creative_type obj) (ci_creative_type obj) 4]
     (ci_unknown obj) ctx"

text \<open>The contents, and the strings that packing reads.\<close>

definition creative_info_content :: "memory \<Rightarrow> ngx_bid_response_ad_expand_creative_info_t \<Rightarrow> (32 word \<times> wval list) list option" where
  "creative_info_content m obj = content_of (ci_unknown obj)
     [(1, num_slot (ci_has_creative_width obj) (ci_creative_width obj)),
      (2, num_slot (ci_has_creative_height obj) (ci_creative_height obj)),
      (3, str_slot m (ci_has_creative_landing_page obj) (ci_creative_landing_page obj)),
      (4, num_slot (ci_has_creative_type obj) (ci_creative_type obj))]"

definition creative_info_strings :: "ngx_bid_response_ad_expand_creative_info_t \<Rightarrow> ngx_str_t list" where
  "creative_info_strings obj = str_refs (ci_has_creative_landing_page obj) (ci_creative_landing_page obj)"

lemma creative_info_packs:
  assumes "creative_info_content m0 x = Some fs" "apart R (creative_info_strings x)" "length (enc_fields fs) < 2 ^ 64"
  shows "message_packs m0 R ngx_bid_response_ad_expand_creative_info__size ngx_bid_response_ad_expand_creative_info__pack x (enc_fields fs)"
  by (rule message_packs_chain [where sz = ngx_bid_response_ad_expand_creative_info__size and pk = "ngx_bid_response_ad_expand_creative_info__pack", OF ngx_bid_response_ad_expand_creative_info__size_def ngx_bid_response_ad_expand_creative_info__pack_def])
    (use assms in \<open>auto simp: creative_info_content_def creative_info_strings_def intro!: num_packs str_packs\<close>)

lemma creative_info_content_mono:
  assumes "creative_info_content m x = Some fs" "m \<subseteq>\<^sub>m m'"
  shows "creative_info_content m' x = Some fs"
  using assms str_slot_mono [OF _ assms(2)]
  by (auto simp: creative_info_content_def)

lemma creative_info_step:
  assumes "pool_serves env" "creative_info_content m x = Some fs" "(n, vs) \<in> set fs" "v \<in> set vs" "solid v"
    "creative_info_content (mem (cstate ctx)) y = Some (grouped [1, 2, 3, 4] ps)"
    "values_of n ps = []" "holds ctx (enc_body v)"
  shows "step_result creative_info_content [1, 2, 3, 4] (\<lambda>_. True) ctx (ngx_bid_response_ad_expand_creative_info_case env n (wire_type_of v) y ctx) ps n v"
proof -
  note y = creative_info_content_mono [OF assms(6), unfolded creative_info_content_def, simplified, simplified bind_eq_Some_conv, simplified]
  note y0 = y [OF map_le_refl]
  consider "n = 1" "num_slot (ci_has_creative_width x) (ci_creative_width x) = Some vs"
    | "n = 2" "num_slot (ci_has_creative_height x) (ci_creative_height x) = Some vs"
    | "n = 3" "str_slot m (ci_has_creative_landing_page x) (ci_creative_landing_page x) = Some vs"
    | "n = 4" "num_slot (ci_has_creative_type x) (ci_creative_type x) = Some vs"
    using assms(2,3) by (auto simp: creative_info_content_def)
  then show ?thesis
  proof cases
    case 1
    show ?thesis unfolding ngx_bid_response_ad_expand_creative_info_case_def 1(1)
      by (simp, rule num_step [OF 1(2) assms(4) assms(8)])
        (use y0 assms(7) 1(1) in \<open>auto simp: creative_info_content_def split: option.splits\<close>)
  next
    case 2
    show ?thesis unfolding ngx_bid_response_ad_expand_creative_info_case_def 2(1)
      by (simp, rule num_step [OF 2(2) assms(4) assms(8)])
        (use y0 assms(7) 2(1) in \<open>auto simp: creative_info_content_def split: option.splits\<close>)
  next
    case 3
    show ?thesis unfolding ngx_bid_response_ad_expand_creative_info_case_def 3(1)
      by (simp, rule str_step [OF 3(2) assms(4) assms(8) assms(5)])
        (use y0 assms(7) 3(1) in \<open>auto simp: creative_info_content_def split: option.splits\<close>)
  next
    case 4
    show ?thesis unfolding ngx_bid_response_ad_expand_creative_info_case_def 4(1)
      by (simp, rule num_step [OF 4(2) assms(4) assms(8)])
        (use y0 assms(7) 4(1) in \<open>auto simp: creative_info_content_def split: option.splits\<close>)
  qed
qed

interpretation creative_info: message_reader creative_info_content ngx_bid_response_ad_expand_creative_info_zero "[1, 2, 3, 4]"
  "(\<lambda>n. False)" env "ngx_bid_response_ad_expand_creative_info_case env" "(\<lambda>_. True)"
  for env :: "'m pb_env"
proof (unfold_locales, goal_cases)
  case 7
  then show ?case by (rule creative_info_content_mono)
next
  case 8
  show ?case by (rule creative_info_step) (use 8 in simp_all)
qed (auto simp: creative_info_content_def ngx_bid_response_ad_expand_creative_info_zero_def intro: single_slots single_value_slots)

lemma creative_info_reads:
  assumes "pool_serves env" "creative_info_content m x = Some fs" "solid_fields fs"
  shows "message_reads creative_info_content ngx_bid_response_ad_expand_creative_info_zero (ngx_bid_response_ad_expand_creative_info__unpack env) fs"
  by (rule creative_info.unpack_reads [OF assms]) (simp add: ngx_bid_response_ad_expand_creative_info__unpack_def)

section \<open>\<^verbatim>\<open>BidResponse.Ad.DeeplinkInfo\<close>\<close>

record ngx_bid_response_ad_deeplink_info_t =
  dl_deeplink_url :: ngx_str_t
  dl_app_version :: "32 word"
  dl_fallback_url :: ngx_str_t
  dl_fallback_type :: "32 word"
  dl_unknown :: unknowns
  dl_has_deeplink_url :: bool
  dl_has_app_version :: bool
  dl_has_fallback_url :: bool
  dl_has_fallback_type :: bool

text \<open>Cleared memory.\<close>

definition ngx_bid_response_ad_deeplink_info_zero :: "ngx_bid_response_ad_deeplink_info_t" where
  "ngx_bid_response_ad_deeplink_info_zero =
    \<lparr>dl_deeplink_url = \<lparr>slen = 0, sdata = NULL\<rparr>, dl_app_version = 0,
     dl_fallback_url = \<lparr>slen = 0, sdata = NULL\<rparr>, dl_fallback_type = 0, dl_unknown = None,
     dl_has_deeplink_url = False, dl_has_app_version = False, dl_has_fallback_url = False,
     dl_has_fallback_type = False\<rparr>"

text \<open>The switch of \<^verbatim>\<open>__unpack\<close>, then its loop.\<close>

definition ngx_bid_response_ad_deeplink_info_case ::
    "'m pb_env \<Rightarrow> 32 word \<Rightarrow> 32 word \<Rightarrow> ngx_bid_response_ad_deeplink_info_t \<Rightarrow> 'm ngx_protobuf_context_t \<Rightarrow> (ngx_bid_response_ad_deeplink_info_t, 'm) unpacked" where
  "ngx_bid_response_ad_deeplink_info_case env field wire obj ctx =
     (if field = 1 then unpack_str env wire dl_deeplink_url (\<lambda>v obj. obj\<lparr>dl_deeplink_url := v\<rparr>) (\<lambda>obj. obj\<lparr>dl_has_deeplink_url := True\<rparr>) obj ctx
     else if field = 2 then unpack_num env wire dl_app_version (\<lambda>v obj. obj\<lparr>dl_app_version := v\<rparr>) (\<lambda>obj. obj\<lparr>dl_has_app_version := True\<rparr>) obj ctx
     else if field = 3 then unpack_str env wire dl_fallback_url (\<lambda>v obj. obj\<lparr>dl_fallback_url := v\<rparr>) (\<lambda>obj. obj\<lparr>dl_has_fallback_url := True\<rparr>) obj ctx
     else if field = 4 then unpack_num env wire dl_fallback_type (\<lambda>v obj. obj\<lparr>dl_fallback_type := v\<rparr>) (\<lambda>obj. obj\<lparr>dl_has_fallback_type := True\<rparr>) obj ctx
     else unpack_unknown env field wire dl_unknown (\<lambda>v obj. obj\<lparr>dl_unknown := v\<rparr>) obj ctx)"

definition ngx_bid_response_ad_deeplink_info__unpack ::
    "'m pb_env \<Rightarrow> ngx_bid_response_ad_deeplink_info_t \<Rightarrow> 'm ngx_protobuf_context_t \<Rightarrow> (ngx_bid_response_ad_deeplink_info_t, 'm) unpacked" where
  "ngx_bid_response_ad_deeplink_info__unpack env obj ctx = unpack_loop (ngx_bid_response_ad_deeplink_info_case env) (clast ctx) obj ctx"

definition ngx_bid_response_ad_deeplink_info__size :: "ngx_bid_response_ad_deeplink_info_t \<Rightarrow> nat option" where
  "ngx_bid_response_ad_deeplink_info__size obj = size_message
     [Some (size_str (dl_has_deeplink_url obj) (dl_deeplink_url obj) 1),
      Some (size_number (dl_has_app_version obj) (dl_app_version obj) 2),
      Some (size_str (dl_has_fallback_url obj) (dl_fallback_url obj) 3),
      Some (size_number (dl_has_fallback_type obj) (dl_fallback_type obj) 4)]
     (dl_unknown obj)"

definition ngx_bid_response_ad_deeplink_info__pack :: "(ngx_bid_response_ad_deeplink_info_t, 'm) packer" where
  "ngx_bid_response_ad_deeplink_info__pack obj ctx = pack_message (ngx_bid_response_ad_deeplink_info__size obj)
     [pack_str (dl_has_deeplink_url obj) (dl_deeplink_url obj) 1,
      pack_num (dl_has_app_version obj) (dl_app_version obj) 2,
      pack_str (dl_has_fallback_url obj) (dl_fallback_url obj) 3,
      pack_num (dl_has_fallback_type obj) (dl_fallback_type obj) 4]
     (dl_unknown obj) ctx"

text \<open>The contents, and the strings that packing reads.\<close>

definition deeplink_info_content :: "memory \<Rightarrow> ngx_bid_response_ad_deeplink_info_t \<Rightarrow> (32 word \<times> wval list) list option" where
  "deeplink_info_content m obj = content_of (dl_unknown obj)
     [(1, str_slot m (dl_has_deeplink_url obj) (dl_deeplink_url obj)),
      (2, num_slot (dl_has_app_version obj) (dl_app_version obj)),
      (3, str_slot m (dl_has_fallback_url obj) (dl_fallback_url obj)),
      (4, num_slot (dl_has_fallback_type obj) (dl_fallback_type obj))]"

definition deeplink_info_strings :: "ngx_bid_response_ad_deeplink_info_t \<Rightarrow> ngx_str_t list" where
  "deeplink_info_strings obj = str_refs (dl_has_deeplink_url obj) (dl_deeplink_url obj) @
     str_refs (dl_has_fallback_url obj) (dl_fallback_url obj)"

lemma deeplink_info_packs:
  assumes "deeplink_info_content m0 x = Some fs" "apart R (deeplink_info_strings x)" "length (enc_fields fs) < 2 ^ 64"
  shows "message_packs m0 R ngx_bid_response_ad_deeplink_info__size ngx_bid_response_ad_deeplink_info__pack x (enc_fields fs)"
  by (rule message_packs_chain [where sz = ngx_bid_response_ad_deeplink_info__size and pk = "ngx_bid_response_ad_deeplink_info__pack", OF ngx_bid_response_ad_deeplink_info__size_def ngx_bid_response_ad_deeplink_info__pack_def])
    (use assms in \<open>auto simp: deeplink_info_content_def deeplink_info_strings_def intro!: num_packs str_packs\<close>)

lemma deeplink_info_content_mono:
  assumes "deeplink_info_content m x = Some fs" "m \<subseteq>\<^sub>m m'"
  shows "deeplink_info_content m' x = Some fs"
  using assms str_slot_mono [OF _ assms(2)]
  by (auto simp: deeplink_info_content_def)

lemma deeplink_info_step:
  assumes "pool_serves env" "deeplink_info_content m x = Some fs" "(n, vs) \<in> set fs" "v \<in> set vs" "solid v"
    "deeplink_info_content (mem (cstate ctx)) y = Some (grouped [1, 2, 3, 4] ps)"
    "values_of n ps = []" "holds ctx (enc_body v)"
  shows "step_result deeplink_info_content [1, 2, 3, 4] (\<lambda>_. True) ctx (ngx_bid_response_ad_deeplink_info_case env n (wire_type_of v) y ctx) ps n v"
proof -
  note y = deeplink_info_content_mono [OF assms(6), unfolded deeplink_info_content_def, simplified, simplified bind_eq_Some_conv, simplified]
  note y0 = y [OF map_le_refl]
  consider "n = 1" "str_slot m (dl_has_deeplink_url x) (dl_deeplink_url x) = Some vs"
    | "n = 2" "num_slot (dl_has_app_version x) (dl_app_version x) = Some vs"
    | "n = 3" "str_slot m (dl_has_fallback_url x) (dl_fallback_url x) = Some vs"
    | "n = 4" "num_slot (dl_has_fallback_type x) (dl_fallback_type x) = Some vs"
    using assms(2,3) by (auto simp: deeplink_info_content_def)
  then show ?thesis
  proof cases
    case 1
    show ?thesis unfolding ngx_bid_response_ad_deeplink_info_case_def 1(1)
      by (simp, rule str_step [OF 1(2) assms(4) assms(8) assms(5)])
        (use y0 assms(7) 1(1) in \<open>auto simp: deeplink_info_content_def split: option.splits\<close>)
  next
    case 2
    show ?thesis unfolding ngx_bid_response_ad_deeplink_info_case_def 2(1)
      by (simp, rule num_step [OF 2(2) assms(4) assms(8)])
        (use y0 assms(7) 2(1) in \<open>auto simp: deeplink_info_content_def split: option.splits\<close>)
  next
    case 3
    show ?thesis unfolding ngx_bid_response_ad_deeplink_info_case_def 3(1)
      by (simp, rule str_step [OF 3(2) assms(4) assms(8) assms(5)])
        (use y0 assms(7) 3(1) in \<open>auto simp: deeplink_info_content_def split: option.splits\<close>)
  next
    case 4
    show ?thesis unfolding ngx_bid_response_ad_deeplink_info_case_def 4(1)
      by (simp, rule num_step [OF 4(2) assms(4) assms(8)])
        (use y0 assms(7) 4(1) in \<open>auto simp: deeplink_info_content_def split: option.splits\<close>)
  qed
qed

interpretation deeplink_info: message_reader deeplink_info_content ngx_bid_response_ad_deeplink_info_zero "[1, 2, 3, 4]"
  "(\<lambda>n. False)" env "ngx_bid_response_ad_deeplink_info_case env" "(\<lambda>_. True)"
  for env :: "'m pb_env"
proof (unfold_locales, goal_cases)
  case 7
  then show ?case by (rule deeplink_info_content_mono)
next
  case 8
  show ?case by (rule deeplink_info_step) (use 8 in simp_all)
qed (auto simp: deeplink_info_content_def ngx_bid_response_ad_deeplink_info_zero_def intro: single_slots single_value_slots)

lemma deeplink_info_reads:
  assumes "pool_serves env" "deeplink_info_content m x = Some fs" "solid_fields fs"
  shows "message_reads deeplink_info_content ngx_bid_response_ad_deeplink_info_zero (ngx_bid_response_ad_deeplink_info__unpack env) fs"
  by (rule deeplink_info.unpack_reads [OF assms]) (simp add: ngx_bid_response_ad_deeplink_info__unpack_def)

section \<open>\<^verbatim>\<open>BidResponse.Ad\<close>\<close>

record 'm ngx_bid_response_ad_t =
  ra_sequence_id :: "32 word"
  ra_creative_id :: "64 word"
  ra_html_snippet :: ngx_str_t
  ra_link_unit_keyword :: "ngx_bid_response_ad_link_unit_keyword_t option"
  ra_expand_creative_info :: "ngx_bid_response_ad_expand_creative_info_t option"
  ra_advertiser_id :: "64 word"
  ra_width :: "32 word"
  ra_height :: "32 word"
  ra_category :: "32 word"
  ra_type :: "32 word"
  ra_landing_page :: ngx_str_t
  ra_target_url :: "ngx_str_t list option"
  ra_monitor_urls :: "ngx_str_t list option"
  ra_max_cpm :: "32 word"
  ra_extdata :: ngx_str_t
  ra_is_cookie_matching :: "64 word"
  ra_preferred_order_id :: ngx_str_t
  ra_guaranteed_order_id :: "32 word"
  ra_deeplink_info :: "ngx_bid_response_ad_deeplink_info_t option"
  ra_extensions :: "(unit, 'm) extensions option"
  ra_unknown :: unknowns
  ra_has_sequence_id :: bool
  ra_has_creative_id :: bool
  ra_has_html_snippet :: bool
  ra_has_link_unit_keyword :: bool
  ra_has_expand_creative_info :: bool
  ra_has_advertiser_id :: bool
  ra_has_width :: bool
  ra_has_height :: bool
  ra_has_category :: bool
  ra_has_type :: bool
  ra_has_landing_page :: bool
  ra_has_target_url :: bool
  ra_has_monitor_urls :: bool
  ra_has_max_cpm :: bool
  ra_has_extdata :: bool
  ra_has_is_cookie_matching :: bool
  ra_has_preferred_order_id :: bool
  ra_has_guaranteed_order_id :: bool
  ra_has_deeplink_info :: bool

text \<open>Cleared memory.\<close>

definition ngx_bid_response_ad_zero :: "'m ngx_bid_response_ad_t" where
  "ngx_bid_response_ad_zero =
    \<lparr>ra_sequence_id = 0, ra_creative_id = 0, ra_html_snippet = \<lparr>slen = 0, sdata = NULL\<rparr>,
     ra_link_unit_keyword = None, ra_expand_creative_info = None, ra_advertiser_id = 0, ra_width = 0,
     ra_height = 0, ra_category = 0, ra_type = 0, ra_landing_page = \<lparr>slen = 0, sdata = NULL\<rparr>,
     ra_target_url = None, ra_monitor_urls = None, ra_max_cpm = 0,
     ra_extdata = \<lparr>slen = 0, sdata = NULL\<rparr>, ra_is_cookie_matching = 0,
     ra_preferred_order_id = \<lparr>slen = 0, sdata = NULL\<rparr>, ra_guaranteed_order_id = 0,
     ra_deeplink_info = None, ra_extensions = None, ra_unknown = None, ra_has_sequence_id = False,
     ra_has_creative_id = False, ra_has_html_snippet = False, ra_has_link_unit_keyword = False,
     ra_has_expand_creative_info = False, ra_has_advertiser_id = False, ra_has_width = False,
     ra_has_height = False, ra_has_category = False, ra_has_type = False, ra_has_landing_page = False,
     ra_has_target_url = False, ra_has_monitor_urls = False, ra_has_max_cpm = False, ra_has_extdata = False,
     ra_has_is_cookie_matching = False, ra_has_preferred_order_id = False, ra_has_guaranteed_order_id = False,
     ra_has_deeplink_info = False\<rparr>"

definition ngx_bid_response_ad__add__target_url ::
    "'m pb_env \<Rightarrow> 'm ngx_bid_response_ad_t \<Rightarrow> 'm pstate \<Rightarrow> bool \<Rightarrow> 'm pstate \<times> 'm ngx_bid_response_ad_t \<times> bool" where
  "ngx_bid_response_ad__add__target_url env =
     add_element env 16 \<lparr>slen = 0, sdata = NULL\<rparr> ra_target_url (\<lambda>v obj. obj\<lparr>ra_target_url := v\<rparr>) (\<lambda>obj. obj\<lparr>ra_has_target_url := True\<rparr>)"

definition ngx_bid_response_ad__add__monitor_urls ::
    "'m pb_env \<Rightarrow> 'm ngx_bid_response_ad_t \<Rightarrow> 'm pstate \<Rightarrow> bool \<Rightarrow> 'm pstate \<times> 'm ngx_bid_response_ad_t \<times> bool" where
  "ngx_bid_response_ad__add__monitor_urls env =
     add_element env 16 \<lparr>slen = 0, sdata = NULL\<rparr> ra_monitor_urls (\<lambda>v obj. obj\<lparr>ra_monitor_urls := v\<rparr>) (\<lambda>obj. obj\<lparr>ra_has_monitor_urls := True\<rparr>)"

definition ngx_bid_response_ad__unpack_link_unit_keyword ::
    "'m pb_env \<Rightarrow> 'm ngx_bid_response_ad_t \<Rightarrow> 'm ngx_protobuf_context_t \<Rightarrow> 64 word \<Rightarrow> ('m ngx_bid_response_ad_t, 'm) unpacked" where
  "ngx_bid_response_ad__unpack_link_unit_keyword env =
     unpack_member env 40 ngx_bid_response_ad_link_unit_keyword_zero (ngx_bid_response_ad_link_unit_keyword__unpack env)
       ra_link_unit_keyword (\<lambda>v obj. obj\<lparr>ra_link_unit_keyword := v\<rparr>) (\<lambda>obj. obj\<lparr>ra_has_link_unit_keyword := True\<rparr>)"

definition ngx_bid_response_ad__unpack_expand_creative_info ::
    "'m pb_env \<Rightarrow> 'm ngx_bid_response_ad_t \<Rightarrow> 'm ngx_protobuf_context_t \<Rightarrow> 64 word \<Rightarrow> ('m ngx_bid_response_ad_t, 'm) unpacked" where
  "ngx_bid_response_ad__unpack_expand_creative_info env =
     unpack_member env 48 ngx_bid_response_ad_expand_creative_info_zero (ngx_bid_response_ad_expand_creative_info__unpack env)
       ra_expand_creative_info (\<lambda>v obj. obj\<lparr>ra_expand_creative_info := v\<rparr>) (\<lambda>obj. obj\<lparr>ra_has_expand_creative_info := True\<rparr>)"

definition ngx_bid_response_ad__unpack_deeplink_info ::
    "'m pb_env \<Rightarrow> 'm ngx_bid_response_ad_t \<Rightarrow> 'm ngx_protobuf_context_t \<Rightarrow> 64 word \<Rightarrow> ('m ngx_bid_response_ad_t, 'm) unpacked" where
  "ngx_bid_response_ad__unpack_deeplink_info env =
     unpack_member env 64 ngx_bid_response_ad_deeplink_info_zero (ngx_bid_response_ad_deeplink_info__unpack env)
       ra_deeplink_info (\<lambda>v obj. obj\<lparr>ra_deeplink_info := v\<rparr>) (\<lambda>obj. obj\<lparr>ra_has_deeplink_info := True\<rparr>)"

text \<open>The switch of \<^verbatim>\<open>__unpack\<close>, then its loop.\<close>

definition ngx_bid_response_ad_case ::
    "'m pb_env \<Rightarrow> (unit, 'm) registry option \<Rightarrow> 32 word \<Rightarrow> 32 word \<Rightarrow> 'm ngx_bid_response_ad_t \<Rightarrow> 'm ngx_protobuf_context_t \<Rightarrow> ('m ngx_bid_response_ad_t, 'm) unpacked" where
  "ngx_bid_response_ad_case env reg field wire obj ctx =
     (if field = 1 then unpack_num env wire ra_sequence_id (\<lambda>v obj. obj\<lparr>ra_sequence_id := v\<rparr>) (\<lambda>obj. obj\<lparr>ra_has_sequence_id := True\<rparr>) obj ctx
     else if field = 2 then unpack_long env wire ra_creative_id (\<lambda>v obj. obj\<lparr>ra_creative_id := v\<rparr>) (\<lambda>obj. obj\<lparr>ra_has_creative_id := True\<rparr>) obj ctx
     else if field = 7 then unpack_str env wire ra_html_snippet (\<lambda>v obj. obj\<lparr>ra_html_snippet := v\<rparr>) (\<lambda>obj. obj\<lparr>ra_has_html_snippet := True\<rparr>) obj ctx
     else if field = 18 then unpack_sub env wire (ngx_bid_response_ad__unpack_link_unit_keyword env) obj ctx
     else if field = 19 then unpack_sub env wire (ngx_bid_response_ad__unpack_expand_creative_info env) obj ctx
     else if field = 8 then unpack_long env wire ra_advertiser_id (\<lambda>v obj. obj\<lparr>ra_advertiser_id := v\<rparr>) (\<lambda>obj. obj\<lparr>ra_has_advertiser_id := True\<rparr>) obj ctx
     else if field = 9 then unpack_num env wire ra_width (\<lambda>v obj. obj\<lparr>ra_width := v\<rparr>) (\<lambda>obj. obj\<lparr>ra_has_width := True\<rparr>) obj ctx
     else if field = 10 then unpack_num env wire ra_height (\<lambda>v obj. obj\<lparr>ra_height := v\<rparr>) (\<lambda>obj. obj\<lparr>ra_has_height := True\<rparr>) obj ctx
     else if field = 11 then unpack_num env wire ra_category (\<lambda>v obj. obj\<lparr>ra_category := v\<rparr>) (\<lambda>obj. obj\<lparr>ra_has_category := True\<rparr>) obj ctx
     else if field = 12 then unpack_num env wire ra_type (\<lambda>v obj. obj\<lparr>ra_type := v\<rparr>) (\<lambda>obj. obj\<lparr>ra_has_type := True\<rparr>) obj ctx
     else if field = 13 then unpack_str env wire ra_landing_page (\<lambda>v obj. obj\<lparr>ra_landing_page := v\<rparr>) (\<lambda>obj. obj\<lparr>ra_has_landing_page := True\<rparr>) obj ctx
     else if field = 14 then unpack_array env WIRE_LENGTH_DELIMITED (read_str env) wire (ngx_bid_response_ad__add__target_url env) ra_target_url (\<lambda>v obj. obj\<lparr>ra_target_url := v\<rparr>) (\<lambda>obj. obj\<lparr>ra_has_target_url := True\<rparr>) obj ctx
     else if field = 17 then unpack_array env WIRE_LENGTH_DELIMITED (read_str env) wire (ngx_bid_response_ad__add__monitor_urls env) ra_monitor_urls (\<lambda>v obj. obj\<lparr>ra_monitor_urls := v\<rparr>) (\<lambda>obj. obj\<lparr>ra_has_monitor_urls := True\<rparr>) obj ctx
     else if field = 3 then unpack_num env wire ra_max_cpm (\<lambda>v obj. obj\<lparr>ra_max_cpm := v\<rparr>) (\<lambda>obj. obj\<lparr>ra_has_max_cpm := True\<rparr>) obj ctx
     else if field = 5 then unpack_str env wire ra_extdata (\<lambda>v obj. obj\<lparr>ra_extdata := v\<rparr>) (\<lambda>obj. obj\<lparr>ra_has_extdata := True\<rparr>) obj ctx
     else if field = 6 then unpack_flag env wire (\<lambda>v obj. obj\<lparr>ra_is_cookie_matching := v\<rparr>) (\<lambda>obj. obj\<lparr>ra_has_is_cookie_matching := True\<rparr>) obj ctx
     else if field = 15 then unpack_str env wire ra_preferred_order_id (\<lambda>v obj. obj\<lparr>ra_preferred_order_id := v\<rparr>) (\<lambda>obj. obj\<lparr>ra_has_preferred_order_id := True\<rparr>) obj ctx
     else if field = 20 then unpack_num env wire ra_guaranteed_order_id (\<lambda>v obj. obj\<lparr>ra_guaranteed_order_id := v\<rparr>) (\<lambda>obj. obj\<lparr>ra_has_guaranteed_order_id := True\<rparr>) obj ctx
     else if field = 21 then unpack_sub env wire (ngx_bid_response_ad__unpack_deeplink_info env) obj ctx
     else unpack_extended env reg field wire ra_extensions (\<lambda>v obj. obj\<lparr>ra_extensions := v\<rparr>)
       ra_unknown (\<lambda>v obj. obj\<lparr>ra_unknown := v\<rparr>) obj ctx)"

definition ngx_bid_response_ad__unpack ::
    "'m pb_env \<Rightarrow> (unit, 'm) registry option \<Rightarrow> 'm ngx_bid_response_ad_t \<Rightarrow> 'm ngx_protobuf_context_t \<Rightarrow> ('m ngx_bid_response_ad_t, 'm) unpacked" where
  "ngx_bid_response_ad__unpack env reg obj ctx = unpack_loop (ngx_bid_response_ad_case env reg) (clast ctx) obj ctx"

definition ngx_bid_response_ad__size :: "'m ngx_bid_response_ad_t \<Rightarrow> nat option" where
  "ngx_bid_response_ad__size obj = size_message
     [Some (size_number (ra_has_sequence_id obj) (ra_sequence_id obj) 1),
      Some (size_long (ra_has_creative_id obj) (ra_creative_id obj) 2),
      Some (size_str (ra_has_html_snippet obj) (ra_html_snippet obj) 7),
      size_member ngx_bid_response_ad_link_unit_keyword__size (ra_has_link_unit_keyword obj) (ra_link_unit_keyword obj) 18,
      size_member ngx_bid_response_ad_expand_creative_info__size (ra_has_expand_creative_info obj) (ra_expand_creative_info obj) 19,
      Some (size_long (ra_has_advertiser_id obj) (ra_advertiser_id obj) 8),
      Some (size_number (ra_has_width obj) (ra_width obj) 9),
      Some (size_number (ra_has_height obj) (ra_height obj) 10),
      Some (size_number (ra_has_category obj) (ra_category obj) 11),
      Some (size_number (ra_has_type obj) (ra_type obj) 12),
      Some (size_str (ra_has_landing_page obj) (ra_landing_page obj) 13),
      Some (size_array ngx_protobuf_size_string_field (ra_has_target_url obj) (ra_target_url obj) 14),
      Some (size_array ngx_protobuf_size_string_field (ra_has_monitor_urls obj) (ra_monitor_urls obj) 17),
      Some (size_number (ra_has_max_cpm obj) (ra_max_cpm obj) 3),
      Some (size_str (ra_has_extdata obj) (ra_extdata obj) 5),
      Some (size_number (ra_has_is_cookie_matching obj) (flag_word (ra_is_cookie_matching obj)) 6),
      Some (size_str (ra_has_preferred_order_id obj) (ra_preferred_order_id obj) 15),
      Some (size_number (ra_has_guaranteed_order_id obj) (ra_guaranteed_order_id obj) 20),
      size_member ngx_bid_response_ad_deeplink_info__size (ra_has_deeplink_info obj) (ra_deeplink_info obj) 21,
      size_extended (ra_extensions obj)]
     (ra_unknown obj)"

definition ngx_bid_response_ad__pack :: "'m pb_env \<Rightarrow> ('m ngx_bid_response_ad_t, 'm) packer" where
  "ngx_bid_response_ad__pack env obj ctx = pack_extended_message env (ngx_bid_response_ad__size obj)
     [pack_num (ra_has_sequence_id obj) (ra_sequence_id obj) 1,
      pack_long (ra_has_creative_id obj) (ra_creative_id obj) 2,
      pack_num (ra_has_max_cpm obj) (ra_max_cpm obj) 3,
      pack_str (ra_has_extdata obj) (ra_extdata obj) 5,
      pack_num (ra_has_is_cookie_matching obj) (flag_word (ra_is_cookie_matching obj)) 6,
      pack_str (ra_has_html_snippet obj) (ra_html_snippet obj) 7,
      pack_long (ra_has_advertiser_id obj) (ra_advertiser_id obj) 8,
      pack_num (ra_has_width obj) (ra_width obj) 9,
      pack_num (ra_has_height obj) (ra_height obj) 10,
      pack_num (ra_has_category obj) (ra_category obj) 11,
      pack_num (ra_has_type obj) (ra_type obj) 12,
      pack_str (ra_has_landing_page obj) (ra_landing_page obj) 13,
      pack_array ngx_protobuf_write_string_field (ra_has_target_url obj) (ra_target_url obj) 14,
      pack_str (ra_has_preferred_order_id obj) (ra_preferred_order_id obj) 15,
      pack_array ngx_protobuf_write_string_field (ra_has_monitor_urls obj) (ra_monitor_urls obj) 17,
      pack_member ngx_bid_response_ad_link_unit_keyword__size ngx_bid_response_ad_link_unit_keyword__pack (ra_has_link_unit_keyword obj) (ra_link_unit_keyword obj) 18,
      pack_member ngx_bid_response_ad_expand_creative_info__size ngx_bid_response_ad_expand_creative_info__pack (ra_has_expand_creative_info obj) (ra_expand_creative_info obj) 19,
      pack_num (ra_has_guaranteed_order_id obj) (ra_guaranteed_order_id obj) 20,
      pack_member ngx_bid_response_ad_deeplink_info__size ngx_bid_response_ad_deeplink_info__pack (ra_has_deeplink_info obj) (ra_deeplink_info obj) 21]
     (ra_extensions obj) (ra_unknown obj) ctx"

text \<open>The contents, and the strings that packing reads.\<close>

definition response_ad_content :: "memory \<Rightarrow> 'm ngx_bid_response_ad_t \<Rightarrow> (32 word \<times> wval list) list option" where
  "response_ad_content m obj = content_of (ra_unknown obj)
     [(1, num_slot (ra_has_sequence_id obj) (ra_sequence_id obj)),
      (2, long_slot (ra_has_creative_id obj) (ra_creative_id obj)),
      (3, num_slot (ra_has_max_cpm obj) (ra_max_cpm obj)),
      (5, str_slot m (ra_has_extdata obj) (ra_extdata obj)),
      (6, num_slot (ra_has_is_cookie_matching obj) (flag_word (ra_is_cookie_matching obj))),
      (7, str_slot m (ra_has_html_snippet obj) (ra_html_snippet obj)),
      (8, long_slot (ra_has_advertiser_id obj) (ra_advertiser_id obj)),
      (9, num_slot (ra_has_width obj) (ra_width obj)),
      (10, num_slot (ra_has_height obj) (ra_height obj)),
      (11, num_slot (ra_has_category obj) (ra_category obj)),
      (12, num_slot (ra_has_type obj) (ra_type obj)),
      (13, str_slot m (ra_has_landing_page obj) (ra_landing_page obj)),
      (14, strs_slot m (ra_has_target_url obj) (ra_target_url obj)),
      (15, str_slot m (ra_has_preferred_order_id obj) (ra_preferred_order_id obj)),
      (17, strs_slot m (ra_has_monitor_urls obj) (ra_monitor_urls obj)),
      (18, member_slot (link_unit_keyword_content m) (ra_has_link_unit_keyword obj) (ra_link_unit_keyword obj)),
      (19, member_slot (creative_info_content m) (ra_has_expand_creative_info obj) (ra_expand_creative_info obj)),
      (20, num_slot (ra_has_guaranteed_order_id obj) (ra_guaranteed_order_id obj)),
      (21, member_slot (deeplink_info_content m) (ra_has_deeplink_info obj) (ra_deeplink_info obj)),
      (101, status_slot (ra_extensions obj))]"

definition response_ad_strings :: "'m ngx_bid_response_ad_t \<Rightarrow> ngx_str_t list" where
  "response_ad_strings obj = str_refs (ra_has_extdata obj) (ra_extdata obj) @
     str_refs (ra_has_html_snippet obj) (ra_html_snippet obj) @
     str_refs (ra_has_landing_page obj) (ra_landing_page obj) @
     strs_refs (ra_has_target_url obj) (ra_target_url obj) @
     str_refs (ra_has_preferred_order_id obj) (ra_preferred_order_id obj) @
     strs_refs (ra_has_monitor_urls obj) (ra_monitor_urls obj) @
     member_refs link_unit_keyword_strings (ra_has_link_unit_keyword obj) (ra_link_unit_keyword obj) @
     member_refs creative_info_strings (ra_has_expand_creative_info obj) (ra_expand_creative_info obj) @
     member_refs deeplink_info_strings (ra_has_deeplink_info obj) (ra_deeplink_info obj)"

lemma response_ad_packs:
  assumes "response_ad_content m0 x = Some fs" "apart R (response_ad_strings x)" "length (enc_fields fs) < 2 ^ 64"
  shows "message_packs m0 R ngx_bid_response_ad__size (ngx_bid_response_ad__pack env) x (enc_fields fs)"
proof -
  have sz: "ngx_bid_response_ad__size x = size_message
     ([Some (size_number (ra_has_sequence_id x) (ra_sequence_id x) 1),
      Some (size_long (ra_has_creative_id x) (ra_creative_id x) 2),
      Some (size_number (ra_has_max_cpm x) (ra_max_cpm x) 3),
      Some (size_str (ra_has_extdata x) (ra_extdata x) 5),
      Some (size_number (ra_has_is_cookie_matching x) (flag_word (ra_is_cookie_matching x)) 6),
      Some (size_str (ra_has_html_snippet x) (ra_html_snippet x) 7),
      Some (size_long (ra_has_advertiser_id x) (ra_advertiser_id x) 8),
      Some (size_number (ra_has_width x) (ra_width x) 9),
      Some (size_number (ra_has_height x) (ra_height x) 10),
      Some (size_number (ra_has_category x) (ra_category x) 11),
      Some (size_number (ra_has_type x) (ra_type x) 12),
      Some (size_str (ra_has_landing_page x) (ra_landing_page x) 13),
      Some (size_array ngx_protobuf_size_string_field (ra_has_target_url x) (ra_target_url x) 14),
      Some (size_str (ra_has_preferred_order_id x) (ra_preferred_order_id x) 15),
      Some (size_array ngx_protobuf_size_string_field (ra_has_monitor_urls x) (ra_monitor_urls x) 17),
      size_member ngx_bid_response_ad_link_unit_keyword__size (ra_has_link_unit_keyword x) (ra_link_unit_keyword x) 18,
      size_member ngx_bid_response_ad_expand_creative_info__size (ra_has_expand_creative_info x) (ra_expand_creative_info x) 19,
      Some (size_number (ra_has_guaranteed_order_id x) (ra_guaranteed_order_id x) 20),
      size_member ngx_bid_response_ad_deeplink_info__size (ra_has_deeplink_info x) (ra_deeplink_info x) 21] @
      [size_extended (ra_extensions x)]) (ra_unknown x)"
    unfolding ngx_bid_response_ad__size_def by (rule size_message_order) (simp add: add_mset_commute)
  obtain fs' vs where fs: "fs = fs' @ [(101, vs)]" "status_slot (ra_extensions x) = Some vs" "plain (ra_unknown x)"
    "collect [(1, num_slot (ra_has_sequence_id x) (ra_sequence_id x)),
      (2, long_slot (ra_has_creative_id x) (ra_creative_id x)),
      (3, num_slot (ra_has_max_cpm x) (ra_max_cpm x)),
      (5, str_slot m0 (ra_has_extdata x) (ra_extdata x)),
      (6, num_slot (ra_has_is_cookie_matching x) (flag_word (ra_is_cookie_matching x))),
      (7, str_slot m0 (ra_has_html_snippet x) (ra_html_snippet x)),
      (8, long_slot (ra_has_advertiser_id x) (ra_advertiser_id x)),
      (9, num_slot (ra_has_width x) (ra_width x)),
      (10, num_slot (ra_has_height x) (ra_height x)),
      (11, num_slot (ra_has_category x) (ra_category x)),
      (12, num_slot (ra_has_type x) (ra_type x)),
      (13, str_slot m0 (ra_has_landing_page x) (ra_landing_page x)),
      (14, strs_slot m0 (ra_has_target_url x) (ra_target_url x)),
      (15, str_slot m0 (ra_has_preferred_order_id x) (ra_preferred_order_id x)),
      (17, strs_slot m0 (ra_has_monitor_urls x) (ra_monitor_urls x)),
      (18, member_slot (link_unit_keyword_content m0) (ra_has_link_unit_keyword x) (ra_link_unit_keyword x)),
      (19, member_slot (creative_info_content m0) (ra_has_expand_creative_info x) (ra_expand_creative_info x)),
      (20, num_slot (ra_has_guaranteed_order_id x) (ra_guaranteed_order_id x)),
      (21, member_slot (deeplink_info_content m0) (ra_has_deeplink_info x) (ra_deeplink_info x))] = Some fs'"
    using assms(1) by (auto simp: response_ad_content_def)
  show ?thesis unfolding fs(1)
    by (rule message_packs_extended [where sz = ngx_bid_response_ad__size and pk = "(ngx_bid_response_ad__pack env)", OF sz ngx_bid_response_ad__pack_def fs(3) _ _ fs(2)])
      (use assms(2,3) fs(1,4) in \<open>auto simp: response_ad_strings_def enc_fields_snoc intro!: num_packs long_packs str_packs strs_packs member_packs link_unit_keyword_packs creative_info_packs deeplink_info_packs\<close>)
qed

lemma response_ad_content_mono:
  assumes "response_ad_content m x = Some fs" "m \<subseteq>\<^sub>m m'"
  shows "response_ad_content m' x = Some fs"
  using assms
    str_slot_mono [OF _ assms(2)]
    strs_slot_mono [OF _ assms(2)]
    member_slot_mono [where c = link_unit_keyword_content and m = m and m' = m', OF _ link_unit_keyword_content_mono [OF _ assms(2)]]
    member_slot_mono [where c = creative_info_content and m = m and m' = m', OF _ creative_info_content_mono [OF _ assms(2)]]
    member_slot_mono [where c = deeplink_info_content and m = m and m' = m', OF _ deeplink_info_content_mono [OF _ assms(2)]]
  by (auto simp: response_ad_content_def)

text \<open>Reading sets the flag with the array.\<close>

definition response_ad_tidy :: "'m ngx_bid_response_ad_t \<Rightarrow> bool" where
  "response_ad_tidy obj \<longleftrightarrow> (ra_target_url obj \<noteq> None \<longrightarrow> ra_has_target_url obj) \<and>
     (ra_monitor_urls obj \<noteq> None \<longrightarrow> ra_has_monitor_urls obj)"

lemma response_ad_step:
  fixes x y :: "'m ngx_bid_response_ad_t" and env :: "'m pb_env"
  assumes "pool_serves env" "response_ad_content m x = Some fs" "(n, vs) \<in> set fs" "v \<in> set vs" "solid v"
    "response_ad_content (mem (cstate ctx)) y = Some (grouped [1, 2, 3, 5, 6, 7, 8, 9, 10, 11, 12, 13, 14, 15, 17, 18, 19, 20, 21, 101] ps)" "response_ad_tidy y"
    "n = 14 \<or> n = 17 \<or> values_of n ps = []" "holds ctx (enc_body v)" "registered reg"
  shows "step_result response_ad_content [1, 2, 3, 5, 6, 7, 8, 9, 10, 11, 12, 13, 14, 15, 17, 18, 19, 20, 21, 101] response_ad_tidy ctx (ngx_bid_response_ad_case env reg n (wire_type_of v) y ctx) ps n v"
proof -
  note y = response_ad_content_mono [OF assms(6), unfolded response_ad_content_def, simplified, simplified bind_eq_Some_conv, simplified]
  note y0 = y [OF map_le_refl]
  consider "n = 1" "num_slot (ra_has_sequence_id x) (ra_sequence_id x) = Some vs"
    | "n = 2" "long_slot (ra_has_creative_id x) (ra_creative_id x) = Some vs"
    | "n = 3" "num_slot (ra_has_max_cpm x) (ra_max_cpm x) = Some vs"
    | "n = 5" "str_slot m (ra_has_extdata x) (ra_extdata x) = Some vs"
    | "n = 6" "num_slot (ra_has_is_cookie_matching x) (flag_word (ra_is_cookie_matching x)) = Some vs"
    | "n = 7" "str_slot m (ra_has_html_snippet x) (ra_html_snippet x) = Some vs"
    | "n = 8" "long_slot (ra_has_advertiser_id x) (ra_advertiser_id x) = Some vs"
    | "n = 9" "num_slot (ra_has_width x) (ra_width x) = Some vs"
    | "n = 10" "num_slot (ra_has_height x) (ra_height x) = Some vs"
    | "n = 11" "num_slot (ra_has_category x) (ra_category x) = Some vs"
    | "n = 12" "num_slot (ra_has_type x) (ra_type x) = Some vs"
    | "n = 13" "str_slot m (ra_has_landing_page x) (ra_landing_page x) = Some vs"
    | "n = 14" "strs_slot m (ra_has_target_url x) (ra_target_url x) = Some vs"
    | "n = 15" "str_slot m (ra_has_preferred_order_id x) (ra_preferred_order_id x) = Some vs"
    | "n = 17" "strs_slot m (ra_has_monitor_urls x) (ra_monitor_urls x) = Some vs"
    | "n = 18" "member_slot (link_unit_keyword_content m) (ra_has_link_unit_keyword x) (ra_link_unit_keyword x) = Some vs"
    | "n = 19" "member_slot (creative_info_content m) (ra_has_expand_creative_info x) (ra_expand_creative_info x) = Some vs"
    | "n = 20" "num_slot (ra_has_guaranteed_order_id x) (ra_guaranteed_order_id x) = Some vs"
    | "n = 21" "member_slot (deeplink_info_content m) (ra_has_deeplink_info x) (ra_deeplink_info x) = Some vs"
    | "n = 101" "status_slot (ra_extensions x) = Some vs"
    using assms(2,3) by (auto simp: response_ad_content_def)
  then show ?thesis
  proof cases
    case 1
    show ?thesis unfolding ngx_bid_response_ad_case_def 1(1)
      by (simp, rule num_step [OF 1(2) assms(4) assms(9)])
        (use y0 assms(8) 1(1) assms(7) in \<open>auto simp: response_ad_content_def response_ad_tidy_def split: option.splits\<close>)
  next
    case 2
    show ?thesis unfolding ngx_bid_response_ad_case_def 2(1)
      by (simp, rule long_step [OF 2(2) assms(4) assms(9)])
        (use y0 assms(8) 2(1) assms(7) in \<open>auto simp: response_ad_content_def response_ad_tidy_def split: option.splits\<close>)
  next
    case 3
    show ?thesis unfolding ngx_bid_response_ad_case_def 3(1)
      by (simp, rule num_step [OF 3(2) assms(4) assms(9)])
        (use y0 assms(8) 3(1) assms(7) in \<open>auto simp: response_ad_content_def response_ad_tidy_def split: option.splits\<close>)
  next
    case 4
    show ?thesis unfolding ngx_bid_response_ad_case_def 4(1)
      by (simp, rule str_step [OF 4(2) assms(4) assms(9) assms(5)])
        (use y0 assms(8) 4(1) assms(7) in \<open>auto simp: response_ad_content_def response_ad_tidy_def split: option.splits\<close>)
  next
    case 5
    show ?thesis unfolding ngx_bid_response_ad_case_def 5(1)
      by (simp, rule flag_step [OF 5(2) assms(4) assms(9)])
        (use y0 assms(8) 5(1) assms(7) in \<open>auto simp: response_ad_content_def response_ad_tidy_def split: option.splits\<close>)
  next
    case 6
    show ?thesis unfolding ngx_bid_response_ad_case_def 6(1)
      by (simp, rule str_step [OF 6(2) assms(4) assms(9) assms(5)])
        (use y0 assms(8) 6(1) assms(7) in \<open>auto simp: response_ad_content_def response_ad_tidy_def split: option.splits\<close>)
  next
    case 7
    show ?thesis unfolding ngx_bid_response_ad_case_def 7(1)
      by (simp, rule long_step [OF 7(2) assms(4) assms(9)])
        (use y0 assms(8) 7(1) assms(7) in \<open>auto simp: response_ad_content_def response_ad_tidy_def split: option.splits\<close>)
  next
    case 8
    show ?thesis unfolding ngx_bid_response_ad_case_def 8(1)
      by (simp, rule num_step [OF 8(2) assms(4) assms(9)])
        (use y0 assms(8) 8(1) assms(7) in \<open>auto simp: response_ad_content_def response_ad_tidy_def split: option.splits\<close>)
  next
    case 9
    show ?thesis unfolding ngx_bid_response_ad_case_def 9(1)
      by (simp, rule num_step [OF 9(2) assms(4) assms(9)])
        (use y0 assms(8) 9(1) assms(7) in \<open>auto simp: response_ad_content_def response_ad_tidy_def split: option.splits\<close>)
  next
    case 10
    show ?thesis unfolding ngx_bid_response_ad_case_def 10(1)
      by (simp, rule num_step [OF 10(2) assms(4) assms(9)])
        (use y0 assms(8) 10(1) assms(7) in \<open>auto simp: response_ad_content_def response_ad_tidy_def split: option.splits\<close>)
  next
    case 11
    show ?thesis unfolding ngx_bid_response_ad_case_def 11(1)
      by (simp, rule num_step [OF 11(2) assms(4) assms(9)])
        (use y0 assms(8) 11(1) assms(7) in \<open>auto simp: response_ad_content_def response_ad_tidy_def split: option.splits\<close>)
  next
    case 12
    show ?thesis unfolding ngx_bid_response_ad_case_def 12(1)
      by (simp, rule str_step [OF 12(2) assms(4) assms(9) assms(5)])
        (use y0 assms(8) 12(1) assms(7) in \<open>auto simp: response_ad_content_def response_ad_tidy_def split: option.splits\<close>)
  next
    case 13
    show ?thesis unfolding ngx_bid_response_ad_case_def 13(1) ngx_bid_response_ad__add__target_url_def
      by (simp, rule strs_step [OF 13(2) assms(4) assms(9) assms(5,1)])
        (use y assms(8) 13(1) assms(7) in \<open>auto simp: response_ad_content_def response_ad_tidy_def member_laws_def strs_slot_snoc [where h = "ra_has_target_url y" and a = "ra_target_url y"] split: option.splits\<close>)
  next
    case 14
    show ?thesis unfolding ngx_bid_response_ad_case_def 14(1)
      by (simp, rule str_step [OF 14(2) assms(4) assms(9) assms(5)])
        (use y0 assms(8) 14(1) assms(7) in \<open>auto simp: response_ad_content_def response_ad_tidy_def split: option.splits\<close>)
  next
    case 15
    show ?thesis unfolding ngx_bid_response_ad_case_def 15(1) ngx_bid_response_ad__add__monitor_urls_def
      by (simp, rule strs_step [OF 15(2) assms(4) assms(9) assms(5,1)])
        (use y assms(8) 15(1) assms(7) in \<open>auto simp: response_ad_content_def response_ad_tidy_def member_laws_def strs_slot_snoc [where h = "ra_has_monitor_urls y" and a = "ra_monitor_urls y"] split: option.splits\<close>)
  next
    case 16
    show ?thesis unfolding ngx_bid_response_ad_case_def 16(1) ngx_bid_response_ad__unpack_link_unit_keyword_def
      by (simp, rule member_step [OF 16(2) assms(4) assms(9) assms(5,1) link_unit_keyword_reads [OF assms(1)]])
        (use y assms(8) 16(1) assms(7) in \<open>auto simp: response_ad_content_def response_ad_tidy_def split: option.splits\<close>)
  next
    case 17
    show ?thesis unfolding ngx_bid_response_ad_case_def 17(1) ngx_bid_response_ad__unpack_expand_creative_info_def
      by (simp, rule member_step [OF 17(2) assms(4) assms(9) assms(5,1) creative_info_reads [OF assms(1)]])
        (use y assms(8) 17(1) assms(7) in \<open>auto simp: response_ad_content_def response_ad_tidy_def split: option.splits\<close>)
  next
    case 18
    show ?thesis unfolding ngx_bid_response_ad_case_def 18(1)
      by (simp, rule num_step [OF 18(2) assms(4) assms(9)])
        (use y0 assms(8) 18(1) assms(7) in \<open>auto simp: response_ad_content_def response_ad_tidy_def split: option.splits\<close>)
  next
    case 19
    show ?thesis unfolding ngx_bid_response_ad_case_def 19(1) ngx_bid_response_ad__unpack_deeplink_info_def
      by (simp, rule member_step [OF 19(2) assms(4) assms(9) assms(5,1) deeplink_info_reads [OF assms(1)]])
        (use y assms(8) 19(1) assms(7) in \<open>auto simp: response_ad_content_def response_ad_tidy_def split: option.splits\<close>)
  next
    case 20
    have "ra_extensions y = None" using y0 assms(8) 20(1) by (auto simp: status_slot_Some)
    then show ?thesis unfolding ngx_bid_response_ad_case_def 20(1)
      by (simp, intro status_step [OF 20(2) assms(4) assms(9) assms(1) assms(10)])
        (use y assms(8) 20(1) assms(7) in \<open>auto simp: response_ad_content_def response_ad_tidy_def split: option.splits\<close>)
  qed
qed

lemma response_ad_reader:
  assumes "registered reg"
  shows "message_reader response_ad_content ngx_bid_response_ad_zero [1, 2, 3, 5, 6, 7, 8, 9, 10, 11, 12, 13, 14, 15, 17, 18, 19, 20, 21, 101] (\<lambda>n. n = 14 \<or> n = 17) env (ngx_bid_response_ad_case env reg) response_ad_tidy"
proof (unfold_locales, goal_cases)
  case 7
  then show ?case by (rule response_ad_content_mono)
next
  case 8
  show ?case by (rule response_ad_step) (use 8 assms in simp_all)
qed (auto simp: response_ad_content_def ngx_bid_response_ad_zero_def response_ad_tidy_def status_slot_Some intro: single_slots single_value_slots)

lemma response_ad_reads:
  fixes x :: "'m ngx_bid_response_ad_t" and env :: "'m pb_env"
  assumes "pool_serves env" "response_ad_content m x = Some fs" "solid_fields fs" "registered reg"
  shows "message_reads response_ad_content ngx_bid_response_ad_zero (ngx_bid_response_ad__unpack env reg) fs"
  by (rule message_reader.unpack_reads [OF response_ad_reader [OF assms(4)] assms(1-3)]) (simp add: ngx_bid_response_ad__unpack_def)

section \<open>\<^verbatim>\<open>BidResponse\<close>\<close>

record 'm ngx_bid_response_t =
  bp_id :: ngx_str_t
  bp_ad :: "'m ngx_bid_response_ad_t list option"
  bp_debug_string :: ngx_str_t
  bp_processing_time_ms :: "32 word"
  bp_unknown :: unknowns
  bp_has_id :: bool
  bp_has_ad :: bool
  bp_has_debug_string :: bool
  bp_has_processing_time_ms :: bool

text \<open>Cleared memory.\<close>

definition ngx_bid_response_zero :: "'m ngx_bid_response_t" where
  "ngx_bid_response_zero =
    \<lparr>bp_id = \<lparr>slen = 0, sdata = NULL\<rparr>, bp_ad = None,
     bp_debug_string = \<lparr>slen = 0, sdata = NULL\<rparr>, bp_processing_time_ms = 0, bp_unknown = None,
     bp_has_id = False, bp_has_ad = False, bp_has_debug_string = False, bp_has_processing_time_ms = False\<rparr>"

definition ngx_bid_response__add__ad ::
    "'m pb_env \<Rightarrow> 'm ngx_bid_response_t \<Rightarrow> 'm pstate \<Rightarrow> bool \<Rightarrow> 'm pstate \<times> 'm ngx_bid_response_t \<times> bool" where
  "ngx_bid_response__add__ad env =
     add_element env 192 ngx_bid_response_ad_zero bp_ad (\<lambda>v obj. obj\<lparr>bp_ad := v\<rparr>) (\<lambda>obj. obj\<lparr>bp_has_ad := True\<rparr>)"

definition ngx_bid_response__unpack_ad ::
    "'m pb_env \<Rightarrow> (unit, 'm) registry option \<Rightarrow> 'm ngx_bid_response_t \<Rightarrow> 'm ngx_protobuf_context_t \<Rightarrow> 64 word \<Rightarrow> ('m ngx_bid_response_t, 'm) unpacked" where
  "ngx_bid_response__unpack_ad env reg =
     unpack_element (ngx_bid_response__add__ad env) ngx_bid_response_ad_zero (ngx_bid_response_ad__unpack env reg)
       bp_ad (\<lambda>v obj. obj\<lparr>bp_ad := v\<rparr>) (\<lambda>obj. obj\<lparr>bp_has_ad := True\<rparr>)"

text \<open>The switch of \<^verbatim>\<open>__unpack\<close>, then its loop.\<close>

definition ngx_bid_response_case ::
    "'m pb_env \<Rightarrow> (unit, 'm) registry option \<Rightarrow> 32 word \<Rightarrow> 32 word \<Rightarrow> 'm ngx_bid_response_t \<Rightarrow> 'm ngx_protobuf_context_t \<Rightarrow> ('m ngx_bid_response_t, 'm) unpacked" where
  "ngx_bid_response_case env reg field wire obj ctx =
     (if field = 1 then unpack_str env wire bp_id (\<lambda>v obj. obj\<lparr>bp_id := v\<rparr>) (\<lambda>obj. obj\<lparr>bp_has_id := True\<rparr>) obj ctx
     else if field = 2 then unpack_sub env wire (ngx_bid_response__unpack_ad env reg) obj ctx
     else if field = 3 then unpack_str env wire bp_debug_string (\<lambda>v obj. obj\<lparr>bp_debug_string := v\<rparr>) (\<lambda>obj. obj\<lparr>bp_has_debug_string := True\<rparr>) obj ctx
     else if field = 4 then unpack_num env wire bp_processing_time_ms (\<lambda>v obj. obj\<lparr>bp_processing_time_ms := v\<rparr>) (\<lambda>obj. obj\<lparr>bp_has_processing_time_ms := True\<rparr>) obj ctx
     else unpack_unknown env field wire bp_unknown (\<lambda>v obj. obj\<lparr>bp_unknown := v\<rparr>) obj ctx)"

definition ngx_bid_response__unpack ::
    "'m pb_env \<Rightarrow> (unit, 'm) registry option \<Rightarrow> 'm ngx_bid_response_t \<Rightarrow> 'm ngx_protobuf_context_t \<Rightarrow> ('m ngx_bid_response_t, 'm) unpacked" where
  "ngx_bid_response__unpack env reg obj ctx = unpack_loop (ngx_bid_response_case env reg) (clast ctx) obj ctx"

definition ngx_bid_response__size :: "'m ngx_bid_response_t \<Rightarrow> nat option" where
  "ngx_bid_response__size obj = size_message
     [Some (size_str (bp_has_id obj) (bp_id obj) 1),
      size_elements ngx_bid_response_ad__size (bp_has_ad obj) (bp_ad obj) 2,
      Some (size_str (bp_has_debug_string obj) (bp_debug_string obj) 3),
      Some (size_number (bp_has_processing_time_ms obj) (bp_processing_time_ms obj) 4)]
     (bp_unknown obj)"

definition ngx_bid_response__pack :: "'m pb_env \<Rightarrow> ('m ngx_bid_response_t, 'm) packer" where
  "ngx_bid_response__pack env obj ctx = pack_message (ngx_bid_response__size obj)
     [pack_str (bp_has_id obj) (bp_id obj) 1,
      pack_elements ngx_bid_response_ad__size (ngx_bid_response_ad__pack env) (bp_has_ad obj) (bp_ad obj) 2,
      pack_str (bp_has_debug_string obj) (bp_debug_string obj) 3,
      pack_num (bp_has_processing_time_ms obj) (bp_processing_time_ms obj) 4]
     (bp_unknown obj) ctx"

text \<open>The contents, and the strings that packing reads.\<close>

definition bid_response_content :: "memory \<Rightarrow> 'm ngx_bid_response_t \<Rightarrow> (32 word \<times> wval list) list option" where
  "bid_response_content m obj = content_of (bp_unknown obj)
     [(1, str_slot m (bp_has_id obj) (bp_id obj)),
      (2, elements_slot (response_ad_content m) (bp_has_ad obj) (bp_ad obj)),
      (3, str_slot m (bp_has_debug_string obj) (bp_debug_string obj)),
      (4, num_slot (bp_has_processing_time_ms obj) (bp_processing_time_ms obj))]"

definition bid_response_strings :: "'m ngx_bid_response_t \<Rightarrow> ngx_str_t list" where
  "bid_response_strings obj = str_refs (bp_has_id obj) (bp_id obj) @
     elements_refs response_ad_strings (bp_has_ad obj) (bp_ad obj) @
     str_refs (bp_has_debug_string obj) (bp_debug_string obj)"

lemma bid_response_packs:
  assumes "bid_response_content m0 x = Some fs" "apart R (bid_response_strings x)" "length (enc_fields fs) < 2 ^ 64"
  shows "message_packs m0 R ngx_bid_response__size (ngx_bid_response__pack env) x (enc_fields fs)"
  by (rule message_packs_chain [where sz = ngx_bid_response__size and pk = "(ngx_bid_response__pack env)", OF ngx_bid_response__size_def ngx_bid_response__pack_def])
    (use assms in \<open>auto simp: bid_response_content_def bid_response_strings_def intro!: num_packs str_packs elements_packs response_ad_packs\<close>)

lemma bid_response_content_mono:
  assumes "bid_response_content m x = Some fs" "m \<subseteq>\<^sub>m m'"
  shows "bid_response_content m' x = Some fs"
  using assms
    str_slot_mono [OF _ assms(2)]
    elements_slot_mono [where c = response_ad_content and m = m and m' = m', OF _ response_ad_content_mono [OF _ assms(2)]]
  by (auto simp: bid_response_content_def)

text \<open>Reading sets the flag with the array.\<close>

definition bid_response_tidy :: "'m ngx_bid_response_t \<Rightarrow> bool" where
  "bid_response_tidy obj \<longleftrightarrow> (bp_ad obj \<noteq> None \<longrightarrow> bp_has_ad obj)"

lemma bid_response_step:
  fixes x y :: "'m ngx_bid_response_t" and env :: "'m pb_env"
  assumes "pool_serves env" "bid_response_content m x = Some fs" "(n, vs) \<in> set fs" "v \<in> set vs" "solid v"
    "bid_response_content (mem (cstate ctx)) y = Some (grouped [1, 2, 3, 4] ps)" "bid_response_tidy y"
    "n = 2 \<or> values_of n ps = []" "holds ctx (enc_body v)" "registered reg"
  shows "step_result bid_response_content [1, 2, 3, 4] bid_response_tidy ctx (ngx_bid_response_case env reg n (wire_type_of v) y ctx) ps n v"
proof -
  note y = bid_response_content_mono [OF assms(6), unfolded bid_response_content_def, simplified, simplified bind_eq_Some_conv, simplified]
  note y0 = y [OF map_le_refl]
  consider "n = 1" "str_slot m (bp_has_id x) (bp_id x) = Some vs"
    | "n = 2" "elements_slot (response_ad_content m) (bp_has_ad x) (bp_ad x) = Some vs"
    | "n = 3" "str_slot m (bp_has_debug_string x) (bp_debug_string x) = Some vs"
    | "n = 4" "num_slot (bp_has_processing_time_ms x) (bp_processing_time_ms x) = Some vs"
    using assms(2,3) by (auto simp: bid_response_content_def)
  then show ?thesis
  proof cases
    case 1
    show ?thesis unfolding ngx_bid_response_case_def 1(1)
      by (simp, rule str_step [OF 1(2) assms(4) assms(9) assms(5)])
        (use y0 assms(8) 1(1) assms(7) in \<open>auto simp: bid_response_content_def bid_response_tidy_def split: option.splits\<close>)
  next
    case 2
    show ?thesis unfolding ngx_bid_response_case_def 2(1) ngx_bid_response__unpack_ad_def ngx_bid_response__add__ad_def
      by (simp, rule element_step [OF 2(2) assms(4) assms(9) assms(5,1) response_ad_reads [OF assms(1) _ _ assms(10)]])
        (use y assms(8) 2(1) assms(7) in \<open>auto simp: bid_response_content_def bid_response_tidy_def Let_def elements_slot_snoc split: option.splits\<close>)
  next
    case 3
    show ?thesis unfolding ngx_bid_response_case_def 3(1)
      by (simp, rule str_step [OF 3(2) assms(4) assms(9) assms(5)])
        (use y0 assms(8) 3(1) assms(7) in \<open>auto simp: bid_response_content_def bid_response_tidy_def split: option.splits\<close>)
  next
    case 4
    show ?thesis unfolding ngx_bid_response_case_def 4(1)
      by (simp, rule num_step [OF 4(2) assms(4) assms(9)])
        (use y0 assms(8) 4(1) assms(7) in \<open>auto simp: bid_response_content_def bid_response_tidy_def split: option.splits\<close>)
  qed
qed

lemma bid_response_reader:
  assumes "registered reg"
  shows "message_reader bid_response_content ngx_bid_response_zero [1, 2, 3, 4] (\<lambda>n. n = 2) env (ngx_bid_response_case env reg) bid_response_tidy"
proof (unfold_locales, goal_cases)
  case 7
  then show ?case by (rule bid_response_content_mono)
next
  case 8
  show ?case by (rule bid_response_step) (use 8 assms in simp_all)
qed (auto simp: bid_response_content_def ngx_bid_response_zero_def bid_response_tidy_def status_slot_Some intro: single_slots single_value_slots)

lemma bid_response_reads:
  fixes x :: "'m ngx_bid_response_t" and env :: "'m pb_env"
  assumes "pool_serves env" "bid_response_content m x = Some fs" "solid_fields fs" "registered reg"
  shows "message_reads bid_response_content ngx_bid_response_zero (ngx_bid_response__unpack env reg) fs"
  by (rule message_reader.unpack_reads [OF bid_response_reader [OF assms(4)] assms(1-3)]) (simp add: ngx_bid_response__unpack_def)

end
