(* ===== verification/Bid_Response_Props.thy ===== *)
theory Bid_Response_Props
  imports Bid_Response Ngx_Protobuf_Props
begin

text \<open>
  The properties of \<^verbatim>\<open>BidResponse\<close> as a whole: a response that was packed is read back, with the status of
  its ads, which is an extension; and what the accessors of the status do.
\<close>

section \<open>Model: the accessors of the status\<close>

text \<open>\<open>None\<close> is a value the model does not know.\<close>

definition ngx_bid_response_ad__get_ad_status :: "'m ngx_bid_response_ad_t \<Rightarrow> 32 word option" where
  "ngx_bid_response_ad__get_ad_status obj =
     (case ngx_protobuf_get_extension (ra_extensions obj) 101 of None \<Rightarrow> Some 0
      | Some val \<Rightarrow>
        if \<not> vexists val then Some 0
        else if vtype val \<noteq> Some TYPE_INT32 then Some 0
        else as_u32 (vu val))"

text \<open>
  The argument \<open>ext\<close> is not used: only the type and the flag of the local variable \<^verbatim>\<open>val\<close> are set, so that its union
  holds what was on the stack, \<open>stack\<close>.
\<close>

definition ngx_bid_response_ad__set_ad_status ::
    "'m pb_env \<Rightarrow> (unit, 'm) registry option \<Rightarrow> 'm pstate \<Rightarrow> unit pb_union \<Rightarrow> 'm ngx_bid_response_ad_t \<Rightarrow> 32 word \<Rightarrow>
      ('m pstate \<times> 'm ngx_bid_response_ad_t \<times> ngx_int_t) option" where
  "ngx_bid_response_ad__set_ad_status env reg s stack obj ext = do {
     let val = \<lparr>vtype = Some TYPE_INT32, vexists = True, vu = stack\<rparr>;
     (s, extensions, rc) \<leftarrow> ngx_bid_response_ad__set_extension env s reg (ra_extensions obj) 101 (Some val);
     Some (s, obj\<lparr>ra_extensions := extensions\<rparr>, rc) }"

section \<open>Round trip\<close>

text \<open>
  C20.  A bid response that was packed is read back by \<open>ngx_bid_response__unpack\<close> with the same contents, those of
  its ads and the status of each ad included, once \<open>ngx_baidu_proto__register_extensions\<close> has run; and
  packing it wrote \<open>ngx_bid_response__size\<close> bytes, although \<open>ngx_bid_response_ad__size\<close> adds the sizes of the
  fields in another order than they are written in.  No ad and no sub-message of an ad may be empty, since the
  code drops an element of length 0 on reading; lengths fit their prefix of 32 bits, strings lie outside of
  the buffer and are left where they are, and the pool serves.
\<close>

theorem bid_response_round_trip:
  assumes "bid_response_content (mem (cstate ctx)) x = Some fs" "n = length (enc_fields fs)"
    "region (cpos ctx) n \<subseteq> dom (mem (cstate ctx))" "unat (cpos ctx) + n \<le> unat (clast ctx)"
    "apart (region (cpos ctx) n) (bid_response_strings x)" "solid_fields fs" "pool_serves env" "reuse_strings ctx" "has_pool ctx"
  shows "\<exists>s0 reg. ngx_baidu_proto__register_extensions env s1 None = Some (s0, reg, NGX_OK) \<and>
    ngx_bid_response__size x = Some n \<and>
    (\<exists>ctx' y s. ngx_bid_response__pack env x ctx = Some (ctx', NGX_OK) \<and> cpos ctx' = cpos ctx + of_nat n \<and>
      ngx_bid_response__unpack env reg ngx_bid_response_zero (ctx'\<lparr>cpos := cpos ctx, clast := cpos ctx'\<rparr>) =
        Some (y, ctx'\<lparr>cstate := s, clast := cpos ctx'\<rparr>, NGX_OK) \<and>
      bid_response_content (mem s) y = Some fs)"
proof -
  obtain s0 reg where reg: "ngx_baidu_proto__register_extensions env s1 None = Some (s0, reg, NGX_OK)" "registered reg"
    using register_serves [OF assms(7)] by blast
  note packs = bid_response_packs [where env = env, OF assms(1,5)]
  show ?thesis
    using reg(1) message_writes [OF packs assms(2-4)]
      message_round_trip [OF packs assms(2-4) bid_response_reads [OF assms(7,1,6) reg(2)] assms(8,9)]
    by auto
qed

text \<open>A response with an identifier and an ad with a width, two addresses, a flag and the status 7.\<close>

definition demo_ad :: "unit ngx_bid_response_ad_t" where
  "demo_ad = ngx_bid_response_ad_zero\<lparr>ra_width := 320, ra_has_width := True, ra_is_cookie_matching := 5, ra_has_is_cookie_matching := True,
     ra_target_url := Some [\<lparr>slen = 1, sdata = 102\<rparr>, \<lparr>slen = 1, sdata = 103\<rparr>], ra_has_target_url := True,
     ra_extensions := Some (status_tree 7)\<rparr>"

definition demo_bid_response :: "unit ngx_bid_response_t" where
  "demo_bid_response = ngx_bid_response_zero\<lparr>bp_id := \<lparr>slen = 2, sdata = 100\<rparr>, bp_has_id := True,
     bp_ad := Some [demo_ad], bp_has_ad := True\<rparr>"

definition demo_bid_context :: "unit ngx_protobuf_context_t" where
  "demo_bid_context = \<lparr>cstate = \<lparr>mem = (\<lambda>a. if a < 128 then Some (ucast a) else None), heap = ()\<rparr>, cpos = 16, clast = 64,
     reuse_strings = True, has_pool = True\<rparr>"

definition demo_bid_contents :: "(32 word \<times> wval list) list" where
  "demo_bid_contents = [(1, [WStr [100, 101]]),
     (2, [WMsg [(1, []), (2, []), (3, []), (5, []), (6, [WNum 1]), (7, []), (8, []), (9, [WNum 320]), (10, []), (11, []), (12, []),
        (13, []), (14, [WStr [102], WStr [103]]), (15, []), (17, []), (18, []), (19, []), (20, []), (21, []), (101, [WNum 7])]]),
     (3, []), (4, [])]"

lemma demo_bid_content: "bid_response_content (mem (cstate demo_bid_context)) demo_bid_response = Some demo_bid_contents"
  by (simp add: demo_bid_response_def demo_ad_def demo_bid_contents_def demo_bid_context_def bid_response_content_def response_ad_content_def
      ngx_bid_response_zero_def ngx_bid_response_ad_zero_def num_slot_def long_slot_def flag_word_def str_slot_def strs_slot_def
      member_slot_def elements_slot_def str_bytes_def content_of_def load_numeral)

lemma demo_bid_encoding:
  "enc_fields demo_bid_contents = [10, 2, 100, 101, 18, 14, 48, 1, 72, 192, 2, 114, 1, 102, 114, 1, 103, 168, 6, 7]"
  by (simp add: demo_bid_contents_def header_def NGX_PROTOBUF_HEADER_def enc_delimited_def enc_string_def varint.simps)

theorem bid_response_round_trip_witness:
  "\<exists>s0 reg. ngx_baidu_proto__register_extensions demo_env \<lparr>mem = Map.empty, heap = ()\<rparr> None = Some (s0, reg, NGX_OK) \<and>
    ngx_bid_response__size demo_bid_response = Some 20 \<and>
    (\<exists>ctx' y s. ngx_bid_response__pack demo_env demo_bid_response demo_bid_context = Some (ctx', NGX_OK) \<and> cpos ctx' = 36 \<and>
      ngx_bid_response__unpack demo_env reg ngx_bid_response_zero (ctx'\<lparr>cpos := 16, clast := cpos ctx'\<rparr>) =
        Some (y, ctx'\<lparr>cstate := s, clast := cpos ctx'\<rparr>, NGX_OK) \<and>
      bid_response_content (mem s) y = Some demo_bid_contents)"
proof -
  have env: "pool_serves demo_env" "reuse_strings demo_bid_context" "has_pool demo_bid_context" "cpos demo_bid_context = 16"
    by (simp_all add: pool_serves_def demo_env_def demo_bid_context_def)
  have n: "20 = length (enc_fields demo_bid_contents)" by (simp add: demo_bid_encoding)
  have r: "region (cpos demo_bid_context) 20 \<subseteq> dom (mem (cstate demo_bid_context))"
    "unat (cpos demo_bid_context) + 20 \<le> unat (clast demo_bid_context)"
    using region_bounds [of _ 16 20] by (fastforce simp: demo_bid_context_def word_less_nat_alt dom_def)+
  have "outside (region 16 20) \<lparr>slen = n, sdata = p\<rparr>" if "47 \<le> unat p" "unat p + unat n \<le> 2 ^ 64" for n p
    using regions_apart [of 16 20 p "unat n"] that by (simp add: outside_def Int_commute)
  then have a: "apart (region (cpos demo_bid_context) 20) (bid_response_strings demo_bid_response)"
    by (simp add: demo_bid_context_def demo_bid_response_def demo_ad_def bid_response_strings_def response_ad_strings_def
        ngx_bid_response_zero_def ngx_bid_response_ad_zero_def)
  have s: "solid_fields demo_bid_contents"
    by (simp add: solid_fields_def demo_bid_contents_def header_def varint.simps NGX_PROTOBUF_HEADER_def enc_delimited_def enc_string_def)
  show ?thesis using bid_response_round_trip [OF demo_bid_content n r a s env(1-3), of "\<lparr>mem = Map.empty, heap = ()\<rparr>"] env(4) by auto
qed

section \<open>The status is not set\<close>

text \<open>
  C25.  \<open>ngx_bid_response_ad__set_ad_status\<close> does not store its argument: whatever status it is given, it succeeds,
  the ad gets the number that happened to be on the stack, \<open>ngx_bid_response_ad__get_ad_status\<close> returns that
  number, and no other extension of the ad changes.
\<close>

theorem ad_status_not_set:
  assumes "pool_serves env" "registered (Some reg)" "exts_ok (ra_extensions obj)" "descs_ok reg (ra_extensions obj)" "as_u32 stack = Some junk"
  shows "\<exists>s' obj'. (\<forall>ext. ngx_bid_response_ad__set_ad_status env (Some reg) s stack obj ext = Some (s', obj', NGX_OK)) \<and>
    ngx_bid_response_ad__get_ad_status obj' = Some junk \<and>
    (\<forall>g. g \<noteq> 101 \<longrightarrow> ngx_protobuf_get_extension (ra_extensions obj') g = ngx_protobuf_get_extension (ra_extensions obj) g)"
proof -
  have "ngx_protobuf_find_node reg 101 = Some (Some ngx_bid_response_ad_ad_status)" using assms(2) by (simp add: registered_def)
  from set_extension_refines_map [OF assms(1,3,4) this, of "\<lparr>vtype = Some TYPE_INT32, vexists = True, vu = stack\<rparr>" s]
  obtain s' t where t: "ngx_protobuf_set_extension env s (ra_extensions obj) reg 101 (Some \<lparr>vtype = Some TYPE_INT32, vexists = True, vu = stack\<rparr>) =
      Some (s', Some t, NGX_OK)"
    "\<forall>g. ngx_protobuf_get_extension (Some t) g = (if g = 101 then Some \<lparr>vtype = Some TYPE_INT32, vexists = True, vu = stack\<rparr>
      else ngx_protobuf_get_extension (ra_extensions obj) g)"
    by (auto simp: ngx_bid_response_ad_ad_status_def)
  show ?thesis
    by (rule exI [of _ s'], rule exI [of _ "obj\<lparr>ra_extensions := Some t\<rparr>"])
      (simp add: ngx_bid_response_ad__set_ad_status_def ngx_bid_response_ad__set_extension_def ngx_bid_response_ad__get_ad_status_def t assms(5))
qed

definition status_registry :: "(unit, unit) registry" where
  "status_registry = Node Black Sentinel 101 (Some ngx_bid_response_ad_ad_status) Sentinel"

theorem ad_status_not_set_witness:
  "\<exists>s' obj'. ngx_bid_response_ad__set_ad_status demo_env (Some status_registry) \<lparr>mem = Map.empty, heap = ()\<rparr> (U_32 99) ngx_bid_response_ad_zero 7 =
      Some (s', obj', NGX_OK) \<and> ngx_bid_response_ad__get_ad_status obj' = Some 99"
proof -
  have "registered (Some status_registry)" by (simp add: registered_def status_registry_def)
  moreover have "exts_ok (ra_extensions ngx_bid_response_ad_zero)" "descs_ok status_registry (ra_extensions ngx_bid_response_ad_zero)"
    by (simp_all add: ngx_bid_response_ad_zero_def exts_ok_def descs_ok_def)
  moreover have "as_u32 (U_32 99) = Some 99" by (simp add: as_u32_def)
  ultimately show ?thesis
    using ad_status_not_set [OF demo_serves, of status_registry ngx_bid_response_ad_zero "U_32 99" 99 "\<lparr>mem = Map.empty, heap = ()\<rparr>"] by blast
qed

end
