(* ===== verification/Proto_Fields.thy ===== *)
theory Proto_Fields
  imports Com_Props Bid_Response_Props Bid_Request
begin

text \<open>
  The static field descriptors of \<^verbatim>\<open>ngx_adx_com_proto.c\<close> and \<^verbatim>\<open>ngx_baidu_proto.c\<close>, and that they say what the generated
  functions do: under which number, with which wire type and as values of which type a field is read.  The functions a descriptor of a
  message points to are named by the message; for a field of another type they are null pointers.
\<close>

section \<open>Model\<close>


section \<open>The descriptors of \<^verbatim>\<open>ngx_adx_com_proto.c\<close>\<close>













































section \<open>The descriptors of \<^verbatim>\<open>ngx_baidu_proto.c\<close>\<close>


































































































































































section \<open>Descriptors and switches\<close>






































































































































end
