(* ===== verification/Spec2Isabelle.thy ===== *)
theory Spec2Isabelle
  imports Adx_List_Sort Adx_Rbtree_Delete Adx_Alloc Adx_Queue Adx_Json_Parse Adx_Kv Adx_String Adx_Cache_Props Ngx_Protobuf_Props Com_Send Bid_Props
    Adx_Flume Price_Zplay Adx_Json_Types Adx_Time Web_Util Adx_Conf Price_Base64
    Bid_Response_Props Proto_Fields
begin

text \<open>
  A verification library for the C code of an advertising exchange and its bidder.

  \<^bold>\<open>The program.\<close>  The module \<^verbatim>\<open>adx_module/adx_com_baidu\<close> runs inside nginx.  It receives a bid request
  as a chain of buffers, decodes it (\<^verbatim>\<open>ngx_baidu_proto.c\<close>, over \<^verbatim>\<open>ngx_protobuf.c\<close>), maps it to a com
  request (\<^verbatim>\<open>adx_com_adapter.c\<close>), encodes that (\<^verbatim>\<open>ngx_adx_com_proto.c\<close>) into a chain
  (\<^verbatim>\<open>adx_com.c\<close>, \<^verbatim>\<open>adx_com_libs/adx_string.c\<close>) and sends it to the bidder \<^verbatim>\<open>adx_dsp\<close>, whose answer is a
  com response.  The bidder keeps its campaigns in a cache (\<^verbatim>\<open>adx_cache.c\<close>) that is loaded from JSON
  (\<^verbatim>\<open>adx_json.c\<close>); the cache is built from intrusive lists (\<^verbatim>\<open>adx_list.c\<close>), red-black trees
  (\<^verbatim>\<open>adx_rbtree.c\<close>) and pools (\<^verbatim>\<open>adx_alloc.c\<close>).  Bids are sorted with \<^verbatim>\<open>adx_list_sort\<close>; creatives are
  templates whose macros are replaced and encoded by \<^verbatim>\<open>adx_string.c\<close>.  The tracker
  ships its log lines to Flume from a queue (\<^verbatim>\<open>tracker/src/adx_flume.c\<close>, \<^verbatim>\<open>adx_queue.c\<close>).  The exchange
  reports the price of an auction encrypted; the libraries under \<^verbatim>\<open>BidCore/common/adx_decode\<close> decode it,
  one with the HMAC of OpenSSL and one with its own SHA-1.

  \<^bold>\<open>Conventions.\<close>  There is one definition per C function, with the name of the function.  State is
  passed explicitly.  Memory is a partial map, from addresses to structs or, where the code works on
  bytes, from addresses to bytes; addresses are words of 64 bits.  \<open>None\<close> is undefined behaviour (a
  null or dangling pointer, an access outside a buffer) or a loop that does not end, so that a
  theorem with \<open>Some\<close> in its conclusion states memory safety and termination.  Null results and error
  codes of the code are values of the model.  Machine integers are words of their width, or \<open>int\<close>
  with the wrap-around written out.  \<^verbatim>\<open>Adx_Prelude\<close> and \<^verbatim>\<open>Adx_Cstd\<close> hold what is shared: addresses, C
  strings, and the functions of the C library the code calls.

  \<^bold>\<open>Theories and components.\<close>

  \<^item> \<^verbatim>\<open>Adx_List\<close>, \<^verbatim>\<open>Adx_List_Sort\<close>: \<^verbatim>\<open>adx_list.h\<close>, \<^verbatim>\<open>adx_list.c\<close>.  \<open>clist h head xs\<close> abstracts a ring to the
    list of its nodes; each operation implements one on \<open>xs\<close>.  The bottom-up merge sort is proved to
    end and to be a stable sort for every partition array of at least two slots (its size is an
    argument), since the last slot collects every further run.
  \<^item> \<^verbatim>\<open>Adx_Rbtree\<close>, \<^verbatim>\<open>Adx_Rbtree_Insert\<close>, \<^verbatim>\<open>Adx_Rbtree_Delete\<close>, \<^verbatim>\<open>Adx_Rbtree_Search\<close>: \<^verbatim>\<open>adx_rbtree.h\<close>,
    \<^verbatim>\<open>adx_rbtree.c\<close>, with the parent pointer and the colour packed into one word.  The loops are proved
    to compute functions on trees with a hole, those to keep the red-black invariant; the keyed
    operations implement a finite map (locale \<open>search_order\<close>, for \<^verbatim>\<open>strcmp\<close> and for signed numbers).
  \<^item> \<^verbatim>\<open>Adx_Alloc\<close>: the pools of \<^verbatim>\<open>adx_alloc.c\<close>.  The allocator below is a parameter with the locale
    \<open>allocator\<close> as its contract; the model sees double frees and uses after a free.
  \<^item> \<^verbatim>\<open>Adx_Queue\<close>: the string queue \<^verbatim>\<open>adx_queue.c\<close> as an instance of the locale \<open>fifo\<close>.
  \<^item> \<^verbatim>\<open>Adx_Json\<close>, \<^verbatim>\<open>Adx_Json_Buffer\<close>, \<^verbatim>\<open>Adx_Json_Parse\<close>: parser, lookup, construction and output of
    \<^verbatim>\<open>adx_json.c\<close>.  The fuel of the parser is the length of the input, which is proved to suffice;
    what is printed is parsed back; the growth of the output buffer is modelled with its overrun.
    \<^verbatim>\<open>Adx_Json_Types\<close>: everything the parser returns is well typed.
  \<^item> \<^verbatim>\<open>Adx_Kv\<close>: the key-value list \<^verbatim>\<open>adx_kv.c\<close>.
  \<^item> \<^verbatim>\<open>Adx_String\<close>, \<^verbatim>\<open>Adx_Codec\<close>: \<^verbatim>\<open>adx_string.c\<close>; the encoders and decoders are instances of the locale
    \<open>codec\<close>, and macro replacement equals a reference definition.  The growing buffer is a block with its
    size, and a write outside of it is \<open>None\<close>.
  \<^item> \<^verbatim>\<open>Adx_Cache\<close>, \<^verbatim>\<open>Adx_Cache_Tree\<close>, \<^verbatim>\<open>Adx_Cache_Json\<close>, \<^verbatim>\<open>Adx_Cache_Props\<close>: \<^verbatim>\<open>adx_cache.c\<close>.  The
    invariant \<open>cache_rep\<close> ties the records, child lists, counters, parents and the three indexes to a
    tree; loading from JSON refines a function on trees of keys and values.
  \<^item> \<^verbatim>\<open>Ngx_Rbtree\<close>: insertion into the tree of \<^verbatim>\<open>ngx_rbtree.c\<close>, as the protocol-buffer library uses it.
  \<^item> \<^verbatim>\<open>Ngx_Wire\<close>, \<^verbatim>\<open>Ngx_Protobuf\<close>, \<^verbatim>\<open>Ngx_Pack\<close>, \<^verbatim>\<open>Ngx_Unpack\<close>, \<^verbatim>\<open>Ngx_Protobuf_Props\<close>: \<^verbatim>\<open>ngx_protobuf.h\<close> and
    \<^verbatim>\<open>ngx_protobuf.c\<close>: the wire format on bytes, extension and unknown fields.  Packing writes the list
    of bytes \<open>enc_field\<close>, its size is computed exactly, and unpacking reads it back.  \<open>pb_field\<close> is the
    encoding of the protobuf guide, in arithmetic on natural numbers and integers; \<open>conforms\<close> says for which
    fields the program writes it, which leaves out \<open>sfixed\<close> types, doubles with a key and negative \<open>int32\<close> values.
  \<^item> \<^verbatim>\<open>Com_Message\<close>, \<^verbatim>\<open>Com_Slot\<close>, \<^verbatim>\<open>Com_Device\<close>, \<^verbatim>\<open>Com_Request\<close>, \<^verbatim>\<open>Com_Response\<close>, \<^verbatim>\<open>Com_Props\<close>: the ten
    messages of \<^verbatim>\<open>ngx_adx_com_proto.c\<close>.  \<^verbatim>\<open>Com_Message\<close> has the code a kind of field gets in the
    generated functions; \<open>message_packs\<close> and the locale \<open>message_reader\<close> are what packing and
    unpacking promise, with an interpretation for each message.
  \<^item> \<^verbatim>\<open>Bid_Message\<close>, \<^verbatim>\<open>Bid_User\<close>, \<^verbatim>\<open>Bid_Mobile\<close>, \<^verbatim>\<open>Bid_Order\<close>, \<^verbatim>\<open>Bid_Slot\<close>, \<^verbatim>\<open>Bid_Request\<close>, \<^verbatim>\<open>Bid_Props\<close>:
    \<^verbatim>\<open>BidRequest\<close> and the messages it holds, of \<^verbatim>\<open>ngx_baidu_proto.c\<close>, in the same way; packed arrays,
    flags and floating-point members are additional kinds.
  \<^item> \<^verbatim>\<open>Bid_Pack\<close>, \<^verbatim>\<open>Bid_Response\<close>, \<^verbatim>\<open>Bid_Response_Props\<close>: \<^verbatim>\<open>BidResponse\<close> with its four messages, packed and
    read back, with the extension \<^verbatim>\<open>ad_status\<close>, its registration and its accessors.
  \<^item> \<^verbatim>\<open>Proto_Fields\<close>: the static field descriptors of both files; \<open>agrees\<close> and \<open>reads\<close> say that the switches of
    the generated functions read each field under the number, with the wire type and as a value of the type of its descriptor.
  \<^item> \<^verbatim>\<open>Com_Chain\<close>, \<^verbatim>\<open>Com_Adapter\<close>, \<^verbatim>\<open>Com_Adapter_Props\<close>, \<^verbatim>\<open>Com_Send\<close>: buffer chains on bytes, the mapping
    \<^verbatim>\<open>adx_com_baidu_adapter_to_com\<close> with its stack frames, and both ends of the path.  The mapping is
    proved to compute the request that tables of the two protocols define (\<open>expected_request\<close>), to be defined exactly if six parts of it are
    there, and to leave pointers into the frame of a function that has returned.
  \<^item> \<^verbatim>\<open>Adx_Flume\<close>: the log shipper \<^verbatim>\<open>tracker/src/adx_flume.c\<close> with its queue.  The system calls are a
    record of functions, and every write is logged with its result; the bytes of a new block are a
    parameter, since the code prints a line without its NUL.  Producers and the sending thread are turns of a
    schedule, over which order, delivery and the use of memory are proved, for kernels that fail as well.
  \<^item> \<^verbatim>\<open>Price_Encrypt\<close>: \<^verbatim>\<open>adx_decode/autohome/adx_encrypt.c\<close>: what the exchange encrypts, how
    it is opened and which prices the byte-order functions change.  \<open>decrypt_price\<close> frees the decoded message before it
    compares the signature in it, so \<open>DecodeWinningPrice\<close> is \<open>None\<close> for every genuine price.
  \<^item> \<^verbatim>\<open>Price_Sha1\<close>, \<^verbatim>\<open>Price_Zplay\<close>: \<^verbatim>\<open>hmac_sha1.c\<close>, \<^verbatim>\<open>base64.c\<close>, \<^verbatim>\<open>hex.c\<close> and \<^verbatim>\<open>decode.c\<close> of \<^verbatim>\<open>adx_decode/zplay\<close>.
    \<^verbatim>\<open>Price_Sha1\<close> also has SHA-1 and HMAC as the standards define them (\<open>sha1_spec\<close>, \<open>hmac_spec\<close>),
    and the code is compared with these; the size of the array that is too small is an argument.
  \<^item> \<^verbatim>\<open>Price_Base64\<close>: \<^verbatim>\<open>BidCore/common/baselib/base64.c\<close>, a second implementation of the base 64 of
    \<^verbatim>\<open>Price_Encrypt\<close>, proved to agree with it.
  \<^item> \<^verbatim>\<open>Adx_Time\<close>: \<^verbatim>\<open>adx_time.c\<close> over a calendar (\<open>localtime_r\<close>, \<open>mktime\<close>) for a zone without daylight
    saving; what the functions return is compared with the ends of hours, days, weeks and months.
  \<^item> \<^verbatim>\<open>Adx_Conf\<close>: the configuration reader \<^verbatim>\<open>tracker/src/adx_conf_file.c\<close>; a file with sections, entries,
    comments and blank lines is read to its entries.
  \<^item> \<^verbatim>\<open>Web_Network\<close>, \<^verbatim>\<open>Web_Util\<close>: \<^verbatim>\<open>adx_com_libs/adx_network.c\<close> and \<^verbatim>\<open>adx_com_libs/adx_util.c\<close> with the cookie
    parser of nginx: the chain of an answer and its invariant \<open>network_ok\<close>, bodies and uploads,
    headers, cookies and sessions.

  \<^bold>\<open>Parameters and contracts.\<close>  \<^verbatim>\<open>je_malloc\<close> and \<^verbatim>\<open>je_free\<close> (locale \<open>allocator\<close>); the pool of nginx
  (\<open>pool_serves\<close>: a pool with enough memory; \<open>pool_fresh\<close>: what it returns is not in use; \<open>off_stack\<close>:
  it is not on the stack); the comparison function of \<^verbatim>\<open>adx_list_sort\<close> (a total preorder); the pack,
  unpack and size functions of messages in the descriptors of \<^verbatim>\<open>ngx_protobuf.c\<close>.
  The HMAC of OpenSSL is a function with results of 20 bytes (\<open>sha1_hmac\<close>); the system calls of the
  log shipper are functions on the state of the kernel (\<open>patient\<close>: a write returns -1 or at most the length of
  its buffer, as its documentation says, and returns less than one only a bounded number of times).  What nginx does with a header, a chain and a finished request is
  the record of functions \<open>server\<close>, without a contract.  Each
  contract has an instance on concrete functions in the witness of a property that uses it.

  \<^bold>\<open>Bounds and fuel.\<close>  Loops that follow pointers take as fuel a number that is proved to suffice: the
  size of the tree or list, the length of the input, or the height bound of red-black trees.  A
  varint loop runs over at most ten bytes of a 64-bit word.  Lengths are assumed below \<open>2 ^ 31\<close> or
  \<open>2 ^ 64\<close> where the code keeps them in an \<^verbatim>\<open>int\<close> or a \<^verbatim>\<open>size_t\<close>; what happens behind a bound is stated
  as a property of its own where the code misbehaves.

  \<^bold>\<open>Not modelled.\<close>  Output functions for debugging; changes of the clock in \<^verbatim>\<open>adx_time.c\<close>; the hooks of the nginx
  modules, which pass buffers on, and \<^verbatim>\<open>adx_uri.c\<close>, which is compiled to nothing; the clients of MySQL, Kafka, curl and Redis, and the
  log, which only call libraries; the bidder's C++ code and the servers of \<^verbatim>\<open>BidCore\<close>, which work on generated
  protocol-buffer classes; the functions \<^verbatim>\<open>__is_initialized\<close> of the generated messages, which no code calls; nginx, apart from the insertion of its tree and the cookie parser; the third-party JSON
  library of the tracker; the web console.  Copies of a file in other directories (the tree
  \<^verbatim>\<open>nginx-1.12.2/src\<close> holds the modules of \<^verbatim>\<open>adx_module\<close> again) are the same code and are mapped once.
\<close>

end
